(* ===== verification/Prelude.thy ===== *)
theory Prelude
  imports Main "HOL-Library.Word" "HOL-Library.Sublist" "HOL-Library.List_Lexorder"
begin

text \<open>
  Shared vocabulary of the development: Rust strings, the functions of the Rust standard
  library that the modelled code calls on them, saturating machine arithmetic, and the
  generic list lemmas that carry the component proofs.

  A Rust \<open>String\<close> is a sequence of Unicode scalar values, stored as UTF-8. It is modelled
  as the list of its code points (\<open>ustr\<close>), so a Rust byte offset that is only used to slice a
  string at a character boundary is the corresponding index into that list. Where the code
  measures bytes (budgets, error offsets), the model uses \<open>byte_len\<close>, the sum of the UTF-8
  lengths of the characters. Comparing code-point lists lexicographically agrees with Rust's
  byte-wise order on UTF-8 strings.

  A Rust \<open>Result<T, E>\<close> is \<open>E + T\<close>, written with the abbreviations \<open>Err\<close> and \<open>Ok\<close>.
\<close>

section \<open>Results\<close>

abbreviation Ok :: "'a \<Rightarrow> 'e + 'a" where "Ok \<equiv> Inr"
abbreviation Err :: "'e \<Rightarrow> 'e + 'a" where "Err \<equiv> Inl"

named_theorems str_simps \<open>defining equations of the string functions\<close>

text \<open>Iterators collected into a \<open>Result\<close> stop at the first error.\<close>

fun collect_results :: "('a \<Rightarrow> 'e + 'b) \<Rightarrow> 'a list \<Rightarrow> 'e + 'b list" where
  "collect_results f [] = Ok []"
| "collect_results f (x # xs) =
     (case f x of Inl e \<Rightarrow> Err e
      | Inr y \<Rightarrow> (case collect_results f xs of Inl e \<Rightarrow> Err e | Inr ys \<Rightarrow> Ok (y # ys)))"

lemma collect_results_Ok_iff:
  "collect_results f xs = Inr ys \<longleftrightarrow> list_all2 (\<lambda>x y. f x = Inr y) xs ys"
proof (induction xs arbitrary: ys)
  case (Cons x xs)
  show ?case by (auto simp: list_all2_Cons1 simp flip: Cons.IH split: sum.splits)
qed auto

lemma collect_results_length: "collect_results f xs = Inr ys \<Longrightarrow> length ys = length xs"
  by (simp add: collect_results_Ok_iff list_all2_lengthD)

text \<open>A sequence of checks, each left with the operator \<open>?\<close>; what a check computes is forgotten.\<close>

definition checked :: "'e + 'a \<Rightarrow> 'e + unit" where
  "checked r = (case r of Inl e \<Rightarrow> Err e | Inr _ \<Rightarrow> Ok ())"

definition ensure :: "bool \<Rightarrow> 'e \<Rightarrow> 'e + unit" where
  "ensure b e = (if b then Ok () else Err e)"

fun first_error :: "('e + unit) list \<Rightarrow> 'e + unit" where
  "first_error [] = Ok ()"
| "first_error (r # rs) = (case r of Inl e \<Rightarrow> Err e | Inr _ \<Rightarrow> first_error rs)"

lemma first_error_Ok [simp]: "first_error rs = Inr u \<longleftrightarrow> list_all (\<lambda>r. r = Inr ()) rs"
  by (induction rs) (auto split: sum.splits)

declare first_error.simps [simp del]

lemma checked_Ok [simp]: "checked r = Inr u \<longleftrightarrow> (\<exists>x. r = Inr x)"
  by (auto simp: checked_def split: sum.splits)

lemma ensure_Ok [simp]: "ensure b e = Inr u \<longleftrightarrow> b"
  by (simp add: ensure_def)

text \<open>\<open>Iterator::find_map\<close>: the first result.\<close>

fun find_map :: "('a \<Rightarrow> 'b option) \<Rightarrow> 'a list \<Rightarrow> 'b option" where
  "find_map f [] = None"
| "find_map f (x # xs) = (case f x of None \<Rightarrow> find_map f xs | Some y \<Rightarrow> Some y)"

lemma set_map_filter_iff: "y \<in> set (List.map_filter f xs) \<longleftrightarrow> (\<exists>x \<in> set xs. f x = Some y)"
  by (force simp: List.map_filter_def)

lemma find_map_cong [fundef_cong]:
  "xs = ys \<Longrightarrow> (\<And>x. x \<in> set ys \<Longrightarrow> f x = g x) \<Longrightarrow> find_map f xs = find_map g ys"
  by (induction ys arbitrary: xs) (auto split: option.splits)

lemma find_map_Some: "find_map f xs = Some y \<Longrightarrow> \<exists>x \<in> set xs. f x = Some y"
  by (induction xs) (auto split: option.splits)

lemma find_map_None: "find_map f xs = None \<longleftrightarrow> (\<forall>x \<in> set xs. f x = None)"
  by (induction xs) (auto split: option.splits)

section \<open>Strings\<close>

type_synonym uchar = nat
type_synonym ustr = "uchar list"

definition lit :: "string \<Rightarrow> ustr" where
  "lit s = map of_char s"

lemma lit_Nil [simp]: "lit [] = []"
  by (simp add: lit_def)

lemma lit_Cons [simp]: "lit (c # cs) = of_char c # lit cs"
  by (simp add: lit_def)

abbreviation (input) newline :: uchar where "newline \<equiv> 10"
abbreviation (input) carriage_return :: uchar where "carriage_return \<equiv> 13"
abbreviation (input) space :: uchar where "space \<equiv> 32"

text \<open>\<open>char::is_whitespace\<close>: the Unicode property White\_Space.\<close>

definition is_whitespace :: "uchar \<Rightarrow> bool" where
  "is_whitespace c \<longleftrightarrow> (9 \<le> c \<and> c \<le> 13) \<or> c = 32 \<or> c = 0x85 \<or> c = 0xA0 \<or> c = 0x1680 \<or>
     (0x2000 \<le> c \<and> c \<le> 0x200A) \<or> c = 0x2028 \<or> c = 0x2029 \<or> c = 0x202F \<or> c = 0x205F \<or> c = 0x3000"

definition is_ascii_digit :: "uchar \<Rightarrow> bool" where
  "is_ascii_digit c \<longleftrightarrow> 48 \<le> c \<and> c \<le> 57"

definition to_ascii_lowercase :: "ustr \<Rightarrow> ustr" where
  "to_ascii_lowercase s = map (\<lambda>c. if 65 \<le> c \<and> c \<le> 90 then c + 32 else c) s"

definition trim_start :: "ustr \<Rightarrow> ustr" where
  "trim_start s = dropWhile is_whitespace s"

definition trim_end :: "ustr \<Rightarrow> ustr" where
  "trim_end s = rev (dropWhile is_whitespace (rev s))"

definition trim :: "ustr \<Rightarrow> ustr" where
  "trim s = trim_end (trim_start s)"

definition trim_end_matches :: "uchar \<Rightarrow> ustr \<Rightarrow> ustr" where
  "trim_end_matches c s = rev (dropWhile (\<lambda>x. x = c) (rev s))"

definition trim_start_matches :: "uchar \<Rightarrow> ustr \<Rightarrow> ustr" where
  "trim_start_matches c s = dropWhile (\<lambda>x. x = c) s"

fun strip_prefix :: "'a list \<Rightarrow> 'a list \<Rightarrow> 'a list option" where
  "strip_prefix [] s = Some s"
| "strip_prefix (p # ps) [] = None"
| "strip_prefix (p # ps) (c # s) = (if p = c then strip_prefix ps s else None)"

definition starts_with :: "'a list \<Rightarrow> 'a list \<Rightarrow> bool" where
  "starts_with p s \<longleftrightarrow> strip_prefix p s \<noteq> None"

definition strip_suffix :: "'a list \<Rightarrow> 'a list \<Rightarrow> 'a list option" where
  "strip_suffix p s = map_option rev (strip_prefix (rev p) (rev s))"

definition ends_with :: "'a list \<Rightarrow> 'a list \<Rightarrow> bool" where
  "ends_with p s \<longleftrightarrow> strip_suffix p s \<noteq> None"

text \<open>\<open>str::find\<close> of a substring: the index of its first occurrence.\<close>

fun find_sub :: "'a list \<Rightarrow> 'a list \<Rightarrow> nat option" where
  "find_sub p [] = (if p = [] then Some 0 else None)"
| "find_sub p (c # s) = (if starts_with p (c # s) then Some 0 else map_option Suc (find_sub p s))"

definition contains_str :: "'a list \<Rightarrow> 'a list \<Rightarrow> bool" where
  "contains_str p s \<longleftrightarrow> find_sub p s \<noteq> None"

text \<open>\<open>str::split\<close> on a character, \<open>split_once\<close>, \<open>rsplit_once\<close>.\<close>

fun split_char :: "'a \<Rightarrow> 'a list \<Rightarrow> 'a list list" where
  "split_char c [] = [[]]"
| "split_char c (x # xs) =
     (if x = c then [] # split_char c xs
      else (case split_char c xs of [] \<Rightarrow> [[x]] | p # ps \<Rightarrow> (x # p) # ps))"

fun split_once :: "'a \<Rightarrow> 'a list \<Rightarrow> ('a list \<times> 'a list) option" where
  "split_once c [] = None"
| "split_once c (x # xs) =
     (if x = c then Some ([], xs) else map_option (\<lambda>(a, b). (x # a, b)) (split_once c xs))"

definition rsplit_once :: "'a \<Rightarrow> 'a list \<Rightarrow> ('a list \<times> 'a list) option" where
  "rsplit_once c s = map_option (\<lambda>(a, b). (rev b, rev a)) (split_once c (rev s))"

fun join :: "'a list \<Rightarrow> 'a list list \<Rightarrow> 'a list" where
  "join sep [] = []"
| "join sep [x] = x"
| "join sep (x # y # ys) = x @ sep @ join sep (y # ys)"

text \<open>
  \<open>str::lines\<close>: the pieces ended by a newline, each without its newline and without one
  carriage return before it, and the last piece as it is when it is not empty.
\<close>

definition strip_cr :: "ustr \<Rightarrow> ustr" where
  "strip_cr s = (case strip_suffix [carriage_return] s of None \<Rightarrow> s | Some t \<Rightarrow> t)"

definition str_lines :: "ustr \<Rightarrow> ustr list" where
  "str_lines s =
     (let parts = split_char newline s
      in map strip_cr (butlast parts) @ (if last parts = [] then [] else [last parts]))"

text \<open>UTF-8 lengths.\<close>

definition len_utf8 :: "uchar \<Rightarrow> nat" where
  "len_utf8 c = (if c < 0x80 then 1 else if c < 0x800 then 2 else if c < 0x10000 then 3 else 4)"

definition byte_len :: "ustr \<Rightarrow> nat" where
  "byte_len s = sum_list (map len_utf8 s)"

text \<open>Slicing at a byte offset, \<open>None\<close> (a panic) when it is not a character boundary.\<close>

fun split_at_byte :: "nat \<Rightarrow> ustr \<Rightarrow> (ustr \<times> ustr) option" where
  "split_at_byte n [] = (if n = 0 then Some ([], []) else None)"
| "split_at_byte n (c # s) =
     (if n = 0 then Some ([], c # s)
      else if len_utf8 c \<le> n then map_option (\<lambda>(a, b). (c # a, b)) (split_at_byte (n - len_utf8 c) s)
      else None)"

text \<open>Decimal rendering of an unsigned integer (\<open>Display\<close>).\<close>

fun dec :: "nat \<Rightarrow> ustr" where
  "dec n = (if n < 10 then [48 + n] else dec (n div 10) @ [48 + n mod 10])"

declare dec.simps [simp del]

section \<open>Machine integers\<close>

text \<open>
  \<open>usize\<close> and \<open>u64\<close> are 64 bits wide. Counts are naturals, with the saturating operations of
  the source written out; \<open>saturating_sub\<close> is subtraction on naturals.
\<close>

definition usize_max :: nat where
  "usize_max = 2 ^ 64 - 1"

text \<open>No Rust allocation, hence no string, is larger than \<open>isize::MAX\<close> bytes.\<close>

definition isize_max :: nat where
  "isize_max = 2 ^ 63 - 1"

definition saturating_add :: "nat \<Rightarrow> nat \<Rightarrow> nat" where
  "saturating_add a b = min usize_max (a + b)"

definition saturating_mul :: "nat \<Rightarrow> nat \<Rightarrow> nat" where
  "saturating_mul a b = min usize_max (a * b)"

section \<open>Lemmas on the string functions\<close>

lemma strip_prefix_Some_iff: "strip_prefix p s = Some t \<longleftrightarrow> s = p @ t"
  by (induction p s rule: strip_prefix.induct) auto

lemma strip_prefix_append [simp]: "strip_prefix p (p @ t) = Some t"
  by (simp add: strip_prefix_Some_iff)

lemma starts_with_iff: "starts_with p s \<longleftrightarrow> (\<exists>t. s = p @ t)"
  by (metis not_None_eq starts_with_def strip_prefix_Some_iff)

lemma starts_with_prefix: "starts_with p s \<longleftrightarrow> prefix p s"
  by (auto simp: starts_with_iff prefix_def)

lemma starts_with_Nil [simp]: "starts_with [] s"
  by (simp add: starts_with_def)

lemma starts_with_take: "starts_with p s \<longleftrightarrow> take (length p) s = p"
  by (auto simp: starts_with_iff) (metis append_take_drop_id)

lemma strip_suffix_Some_iff: "strip_suffix p s = Some t \<longleftrightarrow> s = t @ p"
proof -
  have "strip_suffix p s = Some t \<longleftrightarrow> rev s = rev p @ rev t"
    by (auto simp: strip_suffix_def strip_prefix_Some_iff)
  also have "\<dots> \<longleftrightarrow> s = t @ p" by (metis rev_append rev_rev_ident)
  finally show ?thesis .
qed

lemma ends_with_iff: "ends_with p s \<longleftrightarrow> (\<exists>t. s = t @ p)"
  by (metis ends_with_def not_None_eq strip_suffix_Some_iff)

lemma ends_with_suffix: "ends_with p s \<longleftrightarrow> suffix p s"
  by (auto simp: ends_with_iff suffix_def)

lemma find_sub_Some:
  "find_sub p s = Some i \<Longrightarrow>
     i + length p \<le> length s \<and> take (length p) (drop i s) = p"
proof (induction s arbitrary: i)
  case Nil
  then show ?case by (auto split: if_splits)
next
  case (Cons c s)
  show ?case
  proof (cases "starts_with p (c # s)")
    case True
    with Cons.prems have "i = 0" by simp
    with True show ?thesis
      by (metis add.left_neutral drop0 length_take min.cobounded1 starts_with_take)
  next
    case False
    with Cons.prems obtain j where "find_sub p s = Some j" "i = Suc j" by auto
    with Cons.IH show ?thesis by auto
  qed
qed

lemma find_sub_Some_prefix: "find_sub p s = Some i \<Longrightarrow> starts_with p (drop i s)"
  using find_sub_Some starts_with_take by metis

lemma find_sub_least: "find_sub p s = Some i \<Longrightarrow> j < i \<Longrightarrow> \<not> starts_with p (drop j s)"
proof (induction s arbitrary: i j)
  case Nil
  then show ?case by (auto split: if_splits)
next
  case (Cons c s)
  show ?case
  proof (cases j)
    case 0
    with Cons.prems show ?thesis by (auto split: if_splits)
  next
    case (Suc k)
    with Cons.prems obtain i' where "find_sub p s = Some i'" "i = Suc i'"
      by (auto split: if_splits)
    with Cons.IH Suc Cons.prems(2) show ?thesis by auto
  qed
qed

lemma find_sub_None_iff:
  "find_sub p s = None \<longleftrightarrow> (\<forall>i \<le> length s. \<not> starts_with p (drop i s))"
proof (induction s)
  case Nil
  then show ?case by (auto simp: starts_with_iff)
next
  case (Cons c s)
  have "(\<forall>i \<le> length (c # s). \<not> starts_with p (drop i (c # s))) \<longleftrightarrow>
      \<not> starts_with p (c # s) \<and> (\<forall>i \<le> length s. \<not> starts_with p (drop i s))"
    by (metis Suc_le_mono drop0 drop_Suc_Cons length_Cons not0_implies_Suc zero_le)
  with Cons show ?case by auto
qed

lemma find_sub_eqI:
  assumes "starts_with p (drop i s)" "i \<le> length s" "\<And>j. j < i \<Longrightarrow> \<not> starts_with p (drop j s)"
  shows "find_sub p s = Some i"
proof (cases "find_sub p s")
  case None
  with assms show ?thesis by (auto simp: find_sub_None_iff)
next
  case (Some k)
  then show ?thesis
    by (metis assms(1,3) find_sub_Some_prefix find_sub_least linorder_neqE_nat)
qed

lemma starts_with_append_short:
  "length p \<le> length s \<Longrightarrow> starts_with p (s @ t) \<longleftrightarrow> starts_with p s"
  by (simp add: starts_with_take)

lemma find_sub_append:
  assumes "find_sub p s = Some i"
  shows "find_sub p (s @ t) = Some i"
proof (rule find_sub_eqI)
  have i: "i + length p \<le> length s" using find_sub_Some [OF assms] by simp
  then have short: "j \<le> i \<Longrightarrow> starts_with p (drop j (s @ t)) \<longleftrightarrow> starts_with p (drop j s)" for j
    using starts_with_append_short [of p "drop j s" t] by simp
  show "starts_with p (drop i (s @ t))" using short [of i] find_sub_Some_prefix [OF assms] by simp
  show "i \<le> length (s @ t)" using i by simp
  show "\<not> starts_with p (drop j (s @ t))" if "j < i" for j
    using short [of j] find_sub_least [OF assms that] that by simp
qed

lemma find_sub_None_occurs: "find_sub p s = None \<Longrightarrow> \<not> starts_with p (drop i s)"
  by (cases "i \<le> length s") (auto simp: find_sub_None_iff dest: spec [of _ "length s"])

lemma split_char_nonempty [simp]: "split_char c s \<noteq> []"
  by (induction s) (auto split: list.splits)

lemma split_char_free: "p \<in> set (split_char c s) \<Longrightarrow> c \<notin> set p"
proof (induction s arbitrary: p)
  case (Cons x xs)
  obtain q qs where "split_char c xs = q # qs"
    using split_char_nonempty [of c xs] by (cases "split_char c xs") auto
  with Cons show ?case by (auto split: if_splits)
qed simp

lemma join_split_char: "join [c] (split_char c s) = s"
proof (induction s)
  case (Cons x xs)
  obtain q qs where eq: "split_char c xs = q # qs"
    using split_char_nonempty [of c xs] by (cases "split_char c xs") auto
  with Cons show ?case by (cases qs) auto
qed simp

lemma split_char_no_sep: "c \<notin> set s \<Longrightarrow> split_char c s = [s]"
  by (induction s) auto

lemma split_char_append_sep:
  "split_char c (a @ c # b) = split_char c a @ split_char c b"
proof (induction a)
  case (Cons x a)
  obtain q qs where "split_char c a = q # qs"
    using split_char_nonempty [of c a] by (cases "split_char c a") auto
  with Cons show ?case by auto
qed simp

lemma split_char_join:
  "xs \<noteq> [] \<Longrightarrow> \<forall>x \<in> set xs. c \<notin> set x \<Longrightarrow> split_char c (join [c] xs) = xs"
  by (induction xs rule: induct_list012) (auto simp: split_char_no_sep split_char_append_sep)

lemma split_once_Some_iff: "split_once c s = Some (a, b) \<longleftrightarrow> s = a @ c # b \<and> c \<notin> set a"
  by (induction s arbitrary: a b) (auto simp: Cons_eq_append_conv)

lemma trim_start_suffix: "\<exists>w. s = w @ trim_start s \<and> (\<forall>c \<in> set w. is_whitespace c)"
  unfolding trim_start_def by (metis set_takeWhileD takeWhile_dropWhile_id)

lemma trim_end_prefix: "\<exists>w. s = trim_end s @ w \<and> (\<forall>c \<in> set w. is_whitespace c)"
proof -
  have "rev s = takeWhile is_whitespace (rev s) @ dropWhile is_whitespace (rev s)" by simp
  then have "s = trim_end s @ rev (takeWhile is_whitespace (rev s))"
    unfolding trim_end_def by (metis rev_append rev_rev_ident)
  moreover have "\<forall>c \<in> set (rev (takeWhile is_whitespace (rev s))). is_whitespace c"
    by (auto dest: set_takeWhileD)
  ultimately show ?thesis by blast
qed

lemma trim_end_idem [simp]: "trim_end (trim_end s) = trim_end s"
  by (simp add: trim_end_def)

lemma set_trim_end_subset: "set (trim_end s) \<subseteq> set s"
  unfolding trim_end_def by (auto dest: set_dropWhileD)

lemma set_trim_subset: "set (trim s) \<subseteq> set s"
  unfolding trim_def trim_start_def
  using set_trim_end_subset set_dropWhileD by fastforce

lemma trim_end_last: "trim_end s \<noteq> [] \<Longrightarrow> \<not> is_whitespace (last (trim_end s))"
  unfolding trim_end_def by (metis hd_dropWhile last_rev rev.simps(1))

lemma trim_end_no_ws: "s = [] \<or> \<not> is_whitespace (last s) \<Longrightarrow> trim_end s = s"
  unfolding trim_end_def
  by (metis dropWhile_eq_self_iff hd_rev rev.simps(1) rev_rev_ident)

lemma trim_start_no_ws: "s = [] \<or> \<not> is_whitespace (hd s) \<Longrightarrow> trim_start s = s"
  unfolding trim_start_def by (auto simp: dropWhile_eq_self_iff)

text \<open>A number below \<open>10 ^ k\<close> has at most \<open>k\<close> digits, each one byte long.\<close>

lemma length_dec_le: "n < 10 ^ k \<Longrightarrow> 0 < k \<Longrightarrow> length (dec n) \<le> k"
proof (induction k arbitrary: n)
  case (Suc k)
  show ?case
  proof (cases "n < 10")
    case True
    then show ?thesis by (subst dec.simps) simp
  next
    case False
    then have "k \<noteq> 0" using Suc.prems by (intro notI) simp
    moreover have "n div 10 < 10 ^ k" using Suc.prems by (simp add: less_mult_imp_div_less mult.commute)
    ultimately have "length (dec (n div 10)) \<le> k" by (intro Suc.IH) auto
    with False show ?thesis by (subst dec.simps) simp
  qed
qed simp

lemma dec_digits: "c \<in> set (dec n) \<Longrightarrow> 48 \<le> c \<and> c \<le> 57"
proof (induction n rule: dec.induct)
  case (1 n)
  then show ?case by (subst (asm) (2) dec.simps) (auto split: if_splits)
qed

lemma len_utf8_pos [simp]: "0 < len_utf8 c"
  by (simp add: len_utf8_def)

lemma len_utf8_le: "len_utf8 c \<le> 4"
  by (simp add: len_utf8_def)

lemma byte_len_Nil [simp]: "byte_len [] = 0"
  by (simp add: byte_len_def)

lemma byte_len_Cons [simp]: "byte_len (c # s) = len_utf8 c + byte_len s"
  by (simp add: byte_len_def)

lemma byte_len_append [simp]: "byte_len (s @ t) = byte_len s + byte_len t"
  by (simp add: byte_len_def)

lemma length_le_byte_len: "length s \<le> byte_len s"
proof (induction s)
  case (Cons c s)
  moreover have "Suc 0 \<le> len_utf8 c" using len_utf8_pos [of c] by linarith
  ultimately show ?case by simp
qed simp

lemma split_at_byte_append: "split_at_byte (byte_len a) (a @ b) = Some (a, b)"
proof (induction a)
  case Nil
  show ?case by (cases b) simp_all
qed simp

lemma byte_len_ascii: "(\<And>c. c \<in> set s \<Longrightarrow> c < 128) \<Longrightarrow> byte_len s = length s"
  by (induction s) (auto simp: len_utf8_def)

lemma byte_len_dec: "byte_len (dec n) = length (dec n)"
  by (rule byte_len_ascii) (use dec_digits in fastforce)

lemma byte_len_eq_0 [simp]: "byte_len s = 0 \<longleftrightarrow> s = []"
  by (cases s) simp_all

lemma saturating_add_le: "saturating_add a b \<le> a + b"
  by (simp add: saturating_add_def)

lemma saturating_add_exact: "a + b \<le> usize_max \<Longrightarrow> saturating_add a b = a + b"
  by (simp add: saturating_add_def)

lemma saturating_add_small: "a \<le> isize_max \<Longrightarrow> b \<le> isize_max \<Longrightarrow> saturating_add a b = a + b"
  by (simp add: saturating_add_def isize_max_def usize_max_def)

lemma isize_le_usize: "n \<le> isize_max \<Longrightarrow> n \<le> usize_max"
  by (simp add: isize_max_def usize_max_def)

lemma saturating_mul_exact: "a * b \<le> usize_max \<Longrightarrow> saturating_mul a b = a * b"
  by (simp add: saturating_mul_def)

text \<open>Changing the last element of a vector in place (\<open>last_mut\<close>).\<close>

definition update_last :: "('a \<Rightarrow> 'a) \<Rightarrow> 'a list \<Rightarrow> 'a list" where
  "update_last f xs = (if xs = [] then [] else butlast xs @ [f (last xs)])"

lemma update_last_Nil [simp]: "update_last f [] = []"
  by (simp add: update_last_def)

lemma update_last_snoc [simp]: "update_last f (xs @ [x]) = xs @ [f x]"
  by (simp add: update_last_def)

lemma butlast_update_last [simp]: "butlast (update_last f xs) = butlast xs"
  by (simp add: update_last_def)

lemma last_update_last: "xs \<noteq> [] \<Longrightarrow> last (update_last f xs) = f (last xs)"
  by (simp add: update_last_def)

lemma update_last_eq_Nil [simp]: "update_last f xs = [] \<longleftrightarrow> xs = []"
  by (simp add: update_last_def)

lemma trim_end_Cons: "\<not> is_whitespace c \<Longrightarrow> trim_end (c # s) = c # trim_end s"
  by (simp add: trim_end_def dropWhile_append)

lemma trim_Cons: "\<not> is_whitespace c \<Longrightarrow> trim (c # s) = c # trim_end s"
  by (simp add: trim_def trim_start_def trim_end_Cons)

lemma strip_cr_eq: "strip_cr s = (if s \<noteq> [] \<and> last s = 13 then butlast s else s)"
proof (cases "strip_suffix [13] s")
  case None
  then have "\<nexists>t. s = t @ [13]" using strip_suffix_Some_iff [of "[13]" s] by auto
  then have "\<not> (s \<noteq> [] \<and> last s = 13)" by (metis append_butlast_last_id)
  with None show ?thesis by (auto simp: strip_cr_def)
next
  case (Some t)
  then have "s = t @ [13]" by (simp add: strip_suffix_Some_iff)
  with Some show ?thesis by (simp add: strip_cr_def)
qed

lemma split_char_lines:
  "\<forall>l \<in> set ls. c \<notin> set l \<Longrightarrow> split_char c (concat (map (\<lambda>l. l @ [c]) ls) @ t) = ls @ split_char c t"
  by (induction ls) (auto simp: split_char_append_sep split_char_no_sep)

lemma join_snoc: "xs \<noteq> [] \<Longrightarrow> join sep (xs @ [y]) = concat (map (\<lambda>x. x @ sep) xs) @ y"
  by (induction xs rule: induct_list012) auto

text \<open>For evaluating the string functions on literals with the simplifier.\<close>

lemmas str_eval [str_simps] =
  is_whitespace_def is_ascii_digit_def to_ascii_lowercase_def trim_start_def trim_end_def trim_def
  trim_end_matches_def trim_start_matches_def starts_with_def strip_suffix_def ends_with_def
  contains_str_def rsplit_once_def strip_cr_def str_lines_def len_utf8_def map_filter_def

section \<open>Ordered maps\<close>

text \<open>A \<open>BTreeMap\<close> is the list of its entries, sorted by key: \<open>insert\<close> and \<open>remove\<close>.\<close>

fun btree_insert :: "'k::linorder \<Rightarrow> 'v \<Rightarrow> ('k \<times> 'v) list \<Rightarrow> ('k \<times> 'v) list" where
  "btree_insert k v [] = [(k, v)]"
| "btree_insert k v ((k', v') # rest) =
     (if k < k' then (k, v) # (k', v') # rest
      else if k = k' then (k, v) # rest
      else (k', v') # btree_insert k v rest)"

fun btree_remove :: "'k::linorder \<Rightarrow> ('k \<times> 'v) list \<Rightarrow> ('k \<times> 'v) list" where
  "btree_remove k [] = []"
| "btree_remove k ((k', v') # rest) = (if k = k' then rest else (k', v') # btree_remove k rest)"

abbreviation btree_wf :: "('k::linorder \<times> 'v) list \<Rightarrow> bool" where
  "btree_wf m \<equiv> sorted_wrt (<) (map fst m)"

lemma keys_btree_insert [simp]: "fst ` set (btree_insert k v m) = insert k (fst ` set m)"
  by (induction k v m rule: btree_insert.induct) auto

lemma map_of_btree_insert [simp]: "map_of (btree_insert k v m) = (map_of m)(k \<mapsto> v)"
  by (induction k v m rule: btree_insert.induct) auto

lemma btree_insert_wf [simp]: "btree_wf m \<Longrightarrow> btree_wf (btree_insert k v m)"
  by (induction k v m rule: btree_insert.induct) auto

lemma keys_btree_remove: "fst ` set (btree_remove k m) \<subseteq> fst ` set m"
  by (induction k m rule: btree_remove.induct) auto

lemma btree_remove_wf [simp]: "btree_wf m \<Longrightarrow> btree_wf (btree_remove k m)"
  using keys_btree_remove by (induction k m rule: btree_remove.induct) (auto, fastforce)

lemma map_of_btree_remove [simp]: "btree_wf m \<Longrightarrow> map_of (btree_remove k m) = (map_of m)(k := None)"
  by (induction k m rule: btree_remove.induct) (auto simp: fun_eq_iff map_of_eq_None_iff)

lemma btree_eqI:
  assumes "btree_wf m" "btree_wf m'" "map_of m = map_of m'"
  shows "m = m'"
proof -
  have order: "sorted (map fst m)" "distinct (map fst m)" "sorted (map fst m')" "distinct (map fst m')"
    using assms(1,2) by (simp_all add: strict_sorted_iff)
  then have "set m = set m'" using assms(3) map_of_inject_set by blast
  then show ?thesis
    using order by (intro map_sorted_distinct_set_unique [where f = fst]) (simp_all add: distinct_map)
qed

end
