(* ===== verification/Abs_Path.thy ===== *)
theory Abs_Path
  imports Prelude
begin

text \<open>
  Paths on Unix (\<open>std::path\<close>) and the absolute-path type of \<open>utils/absolute-path\<close>.
  A \<open>Path\<close> is modelled by the sequence of its components, which is what the comparison of
  paths, \<open>file_name\<close> and the normaliser of \<open>absolutize.rs\<close> look at. The home directory (the
  \<open>dirs\<close> crate) and the current directory of the process are inputs (\<open>path_env\<close>).
  Theorems: the constructor returns an absolute path with neither \<open>.\<close> nor \<open>..\<close> in it, it is the
  identity on such paths, and it resolves a relative path below the current directory.
\<close>

section \<open>Paths as component sequences\<close>

datatype component = RootDir | CurDir | ParentDir | Normal ustr

type_synonym path = "component list"

definition piece_component :: "ustr \<Rightarrow> component option" where
  "piece_component p =
     (if p = [] \<or> p = lit ''.'' then None
      else if p = lit ''..'' then Some ParentDir else Some (Normal p))"

text \<open>
  \<open>Path::components\<close>: separators may repeat, a \<open>.\<close> is dropped unless it opens a relative path.
\<close>

definition path_components :: "ustr \<Rightarrow> path" where
  "path_components s =
     (let pieces = split_char 47 s; body = List.map_filter piece_component pieces
      in if starts_with (lit ''/'') s then RootDir # body
         else if hd pieces = lit ''.'' then CurDir # body else body)"

definition path_is_absolute :: "path \<Rightarrow> bool" where
  "path_is_absolute p \<longleftrightarrow> p \<noteq> [] \<and> hd p = RootDir"

definition file_name :: "path \<Rightarrow> ustr option" where
  "file_name p = (case rev p of Normal n # _ \<Rightarrow> Some n | _ \<Rightarrow> None)"

text \<open>\<open>Path::join\<close>, \<open>PathBuf::push\<close> of one component and \<open>PathBuf::pop\<close>.\<close>

definition path_join :: "path \<Rightarrow> path \<Rightarrow> path" where
  "path_join base p =
     (if path_is_absolute p then p
      else if base = [] then p else base @ filter (\<lambda>c. c \<noteq> CurDir) p)"

definition path_push :: "path \<Rightarrow> component \<Rightarrow> path" where
  "path_push p c = (if c = RootDir then [RootDir] else p @ [c])"

definition path_pop :: "path \<Rightarrow> path" where
  "path_pop p = (if p = [] \<or> last p = RootDir then p else butlast p)"

text \<open>\<open>Path::display\<close>.\<close>

fun component_text :: "component \<Rightarrow> ustr" where
  "component_text RootDir = []"
| "component_text CurDir = lit ''.''"
| "component_text ParentDir = lit ''..''"
| "component_text (Normal s) = s"

definition path_display :: "path \<Rightarrow> ustr" where
  "path_display p = (if p = [RootDir] then lit ''/'' else join (lit ''/'') (map component_text p))"

section \<open>absolutize.rs\<close>

record path_env =
  home_dir :: "path option"
  current_dir :: "ustr + path"

definition normalize_step :: "path \<Rightarrow> component \<Rightarrow> path" where
  "normalize_step acc c =
     (case c of CurDir \<Rightarrow> acc | ParentDir \<Rightarrow> path_pop acc | _ \<Rightarrow> path_push acc c)"

definition normalize_path :: "path \<Rightarrow> path" where
  "normalize_path p =
     (let normalized = foldl normalize_step [] p
      in if normalized = [] then [CurDir] else normalized)"

definition path_with_base :: "path \<Rightarrow> path \<Rightarrow> path" where
  "path_with_base p base = (if path_is_absolute p then p else path_join base p)"

definition absolutize_from :: "path \<Rightarrow> path \<Rightarrow> path" where
  "absolutize_from p base = normalize_path (path_with_base p base)"

definition absolutize :: "path_env \<Rightarrow> path \<Rightarrow> ustr + path" where
  "absolutize env p =
     (if path_is_absolute p then Ok (normalize_path p)
      else case current_dir env of Inl e \<Rightarrow> Err e | Inr cwd \<Rightarrow> Ok (absolutize_from p cwd))"

section \<open>AbsolutePathBuf\<close>

definition maybe_expand_home_directory :: "path_env \<Rightarrow> ustr \<Rightarrow> path" where
  "maybe_expand_home_directory env s =
     (case home_dir env of
        None \<Rightarrow> path_components s
      | Some home \<Rightarrow>
          (case strip_prefix (lit ''~'') s of
             None \<Rightarrow> path_components s
           | Some r \<Rightarrow>
               if r = [] then home
               else (case strip_prefix (lit ''/'') r of
                       Some r' \<Rightarrow> path_join home (path_components (trim_start_matches 47 r'))
                     | None \<Rightarrow> path_components s)))"

definition from_absolute_path :: "path_env \<Rightarrow> ustr \<Rightarrow> ustr + path" where
  "from_absolute_path env s = absolutize env (maybe_expand_home_directory env s)"

text \<open>The promise of the type: absolute, and made of normal components only.\<close>

definition abs_normal :: "path \<Rightarrow> bool" where
  "abs_normal p \<longleftrightarrow> (\<exists>ns. p = RootDir # map Normal ns)"

section \<open>Lemmas\<close>

lemma normalize_fold_abs_normal:
  "abs_normal acc \<Longrightarrow> abs_normal (foldl normalize_step acc p)"
proof (induction p arbitrary: acc)
  case (Cons c p)
  from Cons.prems obtain ns where acc: "acc = RootDir # map Normal ns"
    by (auto simp: abs_normal_def)
  have "abs_normal (normalize_step acc c)"
  proof (cases c)
    case RootDir
    then show ?thesis by (auto simp: normalize_step_def path_push_def abs_normal_def)
  next
    case CurDir
    then show ?thesis using Cons.prems by (simp add: normalize_step_def)
  next
    case ParentDir
    then show ?thesis
      by (cases ns rule: rev_cases)
        (auto simp: normalize_step_def path_pop_def abs_normal_def acc butlast_append)
  next
    case (Normal n)
    then have "normalize_step acc c = RootDir # map Normal (ns @ [n])"
      by (simp add: normalize_step_def path_push_def acc)
    then show ?thesis unfolding abs_normal_def by blast
  qed
  with Cons.IH show ?case by simp
qed simp

lemma normalize_path_absolute:
  assumes "path_is_absolute p"
  shows "abs_normal (normalize_path p)"
proof -
  from assms obtain q where p: "p = RootDir # q"
    by (cases p) (auto simp: path_is_absolute_def)
  have "abs_normal (foldl normalize_step [RootDir] q)"
    by (rule normalize_fold_abs_normal) (simp add: abs_normal_def)
  moreover have "foldl normalize_step [] p = foldl normalize_step [RootDir] q"
    by (simp add: p normalize_step_def path_push_def)
  ultimately show ?thesis by (auto simp: normalize_path_def abs_normal_def)
qed

lemma normalize_fold_normals: "foldl normalize_step acc (map Normal ns) = acc @ map Normal ns"
  by (induction ns arbitrary: acc) (simp_all add: normalize_step_def path_push_def)

lemma normalize_path_id: "abs_normal p \<Longrightarrow> normalize_path p = p"
  by (auto simp: abs_normal_def normalize_path_def normalize_step_def path_push_def
      normalize_fold_normals [simplified normalize_step_def path_push_def])

lemma path_join_absolute: "path_is_absolute base \<Longrightarrow> path_is_absolute (path_join base p)"
  by (auto simp: path_join_def path_is_absolute_def)

lemma absolutize_from_abs_normal: "path_is_absolute base \<Longrightarrow> abs_normal (absolutize_from p base)"
  unfolding absolutize_from_def path_with_base_def
  by (rule normalize_path_absolute) (auto simp: path_join_absolute)

text \<open>Relative normal pieces go below the base, which is what makes a bare name resolve.\<close>

lemma absolutize_from_below:
  assumes "abs_normal base"
  shows "absolutize_from (map Normal ns) base = base @ map Normal ns"
proof -
  obtain bs where b: "base = RootDir # map Normal bs" using assms by (auto simp: abs_normal_def)
  have "\<not> path_is_absolute (map Normal ns)" by (cases ns) (auto simp: path_is_absolute_def)
  moreover have "filter (\<lambda>c. c \<noteq> CurDir) (map Normal ns) = map Normal ns" by (induction ns) auto
  moreover have "normalize_path (base @ map Normal ns) = base @ map Normal ns"
    by (rule normalize_path_id) (auto simp: abs_normal_def b intro: exI [of _ "bs @ ns"])
  ultimately show ?thesis by (simp add: absolutize_from_def path_with_base_def path_join_def b)
qed

lemma file_name_abs_normal:
  "abs_normal p \<Longrightarrow> file_name p = Some n \<Longrightarrow> last p = Normal n"
  by (cases p rule: rev_cases) (auto simp: file_name_def split: component.splits)

end
