(* ===== verification/Exec_Policy.thy ===== *)
theory Exec_Policy
  imports Abs_Path
begin

text \<open>
  The command policy engine, \<open>execpolicy/src\<close>: \<open>decision.rs\<close>, \<open>rule.rs\<close>, \<open>policy.rs\<close>,
  \<open>executable_name.rs\<close> and the line appender of \<open>amend.rs\<close>; the policy-file builtins of
  \<open>parser.rs\<close> are in \<open>Policy_Builder\<close>.
  The \<open>Rule\<close> trait has one implementation, \<open>PrefixRule\<close>, which stands for \<open>RuleRef\<close>. The
  \<open>MultiMap\<close> of rules by program is an association list in the map's iteration order. Paths are
  those of a Unix build; the environment they are resolved in (\<open>path_env\<close>) is an input, and so
  is the heuristics callback.
\<close>

section \<open>decision.rs\<close>

datatype decision = Allow | Prompt | Forbidden

text \<open>The derived order: \<open>Allow < Prompt < Forbidden\<close>.\<close>

fun decision_rank :: "decision \<Rightarrow> nat" where
  "decision_rank Allow = 0"
| "decision_rank Prompt = 1"
| "decision_rank Forbidden = 2"

lemma decision_rank_inj: "decision_rank d = decision_rank e \<Longrightarrow> d = e"
  by (cases d; cases e) simp_all

instantiation decision :: linorder
begin

definition less_eq_decision :: "decision \<Rightarrow> decision \<Rightarrow> bool" where
  "less_eq_decision d e \<longleftrightarrow> decision_rank d \<le> decision_rank e"

definition less_decision :: "decision \<Rightarrow> decision \<Rightarrow> bool" where
  "less_decision d e \<longleftrightarrow> decision_rank d < decision_rank e"

instance
  by standard (auto simp: less_eq_decision_def less_decision_def dest: decision_rank_inj)

end

lemma Forbidden_top [simp]: "d \<le> Forbidden"
  by (cases d) (simp_all add: less_eq_decision_def)

lemma Allow_bot [simp]: "Allow \<le> d"
  by (cases d) (simp_all add: less_eq_decision_def)

record text_position =
  tp_line :: nat
  tp_column :: nat

record error_location =
  el_path :: ustr
  el_start :: text_position
  el_end :: text_position

section \<open>rule.rs\<close>

datatype pattern_token = Single ustr | Alts "ustr list"

fun token_matches :: "pattern_token \<Rightarrow> ustr \<Rightarrow> bool" where
  "token_matches (Single expected) token \<longleftrightarrow> expected = token"
| "token_matches (Alts alternatives) token \<longleftrightarrow> list_ex (\<lambda>alt. alt = token) alternatives"

fun alternatives :: "pattern_token \<Rightarrow> ustr list" where
  "alternatives (Single expected) = [expected]"
| "alternatives (Alts alts) = alts"

record prefix_pattern =
  pat_first :: ustr
  pat_rest :: "pattern_token list"

definition matches_prefix :: "prefix_pattern \<Rightarrow> ustr list \<Rightarrow> ustr list option" where
  "matches_prefix p cmd =
     (let pattern_length = length (pat_rest p) + 1
      in if length cmd < pattern_length \<or> cmd ! 0 \<noteq> pat_first p then None
         else if list_ex (\<lambda>(pattern_token, cmd_token). \<not> token_matches pattern_token cmd_token)
                (zip (pat_rest p) (take (pattern_length - 1) (drop 1 cmd)))
         then None
         else Some (take pattern_length cmd))"

datatype rule_match =
    PrefixRuleMatch (matched_prefix: "ustr list") (rm_decision: decision)
      (resolved_program: "path option") (rm_justification: "ustr option")
  | HeuristicsRuleMatch (hm_command: "ustr list") (rm_decision: decision)

fun with_resolved_program :: "path \<Rightarrow> rule_match \<Rightarrow> rule_match" where
  "with_resolved_program prog (PrefixRuleMatch mp d _ j) = PrefixRuleMatch mp d (Some prog) j"
| "with_resolved_program prog other = other"

record prefix_rule =
  pr_pattern :: prefix_pattern
  pr_decision :: decision
  pr_justification :: "ustr option"

datatype exec_error =
    InvalidDecision ustr
  | InvalidPattern ustr
  | InvalidExample ustr
  | InvalidRule ustr
  | ExampleDidNotMatch "prefix_rule list" "ustr list" "error_location option"
  | ExampleDidMatch rule_match ustr "error_location option"
  | Starlark ustr
  | StarlarkBuiltin exec_error

definition parse_decision :: "ustr \<Rightarrow> exec_error + decision" where
  "parse_decision raw =
     (if raw = lit ''allow'' then Ok Allow
      else if raw = lit ''prompt'' then Ok Prompt
      else if raw = lit ''forbidden'' then Ok Forbidden
      else Err (InvalidDecision raw))"

datatype network_rule_protocol = Http | Https | Socks5Tcp | Socks5Udp

definition parse_protocol :: "ustr \<Rightarrow> exec_error + network_rule_protocol" where
  "parse_protocol raw =
     (if raw = lit ''http'' then Ok Http
      else if raw \<in> set [lit ''https'', lit ''https_connect'', lit ''http-connect''] then Ok Https
      else if raw = lit ''socks5_tcp'' then Ok Socks5Tcp
      else if raw = lit ''socks5_udp'' then Ok Socks5Udp
      else Err (InvalidRule
        (lit ''network_rule protocol must be one of http, https, socks5_tcp, socks5_udp (got '' @
         raw @ lit '')'')))"

fun as_policy_string :: "network_rule_protocol \<Rightarrow> ustr" where
  "as_policy_string Http = lit ''http''"
| "as_policy_string Https = lit ''https''"
| "as_policy_string Socks5Tcp = lit ''socks5_tcp''"
| "as_policy_string Socks5Udp = lit ''socks5_udp''"

record network_rule =
  nr_host :: ustr
  nr_protocol :: network_rule_protocol
  nr_decision :: decision
  nr_justification :: "ustr option"

text \<open>
  The bracket and port handling of \<open>normalize_network_rule_host\<close>: \<open>[inside]:port\<close> keeps
  \<open>inside\<close>; a single colon followed by digits is a port and is dropped.
\<close>

definition port_digits :: "ustr \<Rightarrow> bool" where
  "port_digits port \<longleftrightarrow> port \<noteq> [] \<and> list_all is_ascii_digit port"

definition strip_host_port :: "ustr \<Rightarrow> ustr \<Rightarrow> exec_error + ustr" where
  "strip_host_port raw host =
     (case strip_prefix (lit ''['') host of
        Some stripped \<Rightarrow>
          (case split_once 93 stripped of
             None \<Rightarrow> Err (InvalidRule (lit ''network_rule host has an invalid bracketed IPv6 literal''))
           | Some (inside, rest) \<Rightarrow>
               let port_ok = (case strip_prefix (lit '':'') rest of
                                Some port \<Rightarrow> port_digits port | None \<Rightarrow> False)
               in if rest \<noteq> [] \<and> \<not> port_ok
                  then Err (InvalidRule
                    (lit ''network_rule host contains an unsupported suffix: '' @ raw))
                  else Ok inside)
      | None \<Rightarrow>
          if count_list host 58 = 1
          then (case rsplit_once 58 host of
                  Some (candidate, port) \<Rightarrow>
                    if candidate \<noteq> [] \<and> port_digits port then Ok candidate else Ok host
                | None \<Rightarrow> Ok host)
          else Ok host)"

definition normalize_network_rule_host :: "ustr \<Rightarrow> exec_error + ustr" where
  "normalize_network_rule_host raw =
     (let host = trim raw
      in if host = [] then Err (InvalidRule (lit ''network_rule host cannot be empty''))
         else if contains_str (lit ''://'') host \<or> 47 \<in> set host \<or> 63 \<in> set host \<or> 35 \<in> set host
         then Err (InvalidRule
           (lit ''network_rule host must be a hostname or IP literal (without scheme or path)''))
         else (case strip_host_port raw host of
           Inl e \<Rightarrow> Err e
         | Inr host' \<Rightarrow>
             let normalized = to_ascii_lowercase (trim (trim_end_matches 46 host'))
             in if normalized = [] then Err (InvalidRule (lit ''network_rule host cannot be empty''))
                else if 42 \<in> set normalized
                then Err (InvalidRule
                  (lit ''network_rule host must be a specific host; wildcards are not allowed''))
                else if list_ex is_whitespace normalized
                then Err (InvalidRule (lit ''network_rule host cannot contain whitespace''))
                else Ok normalized))"

text \<open>\<open>impl Rule for PrefixRule\<close>.\<close>

definition rule_program :: "prefix_rule \<Rightarrow> ustr" where
  "rule_program r = pat_first (pr_pattern r)"

definition rule_matches :: "prefix_rule \<Rightarrow> ustr list \<Rightarrow> rule_match option" where
  "rule_matches r cmd =
     map_option (\<lambda>matched. PrefixRuleMatch matched (pr_decision r) None (pr_justification r))
       (matches_prefix (pr_pattern r) cmd)"

section \<open>executable\_name.rs (not Windows)\<close>

definition executable_lookup_key :: "ustr \<Rightarrow> ustr" where
  "executable_lookup_key raw = raw"

definition executable_path_lookup_key :: "path \<Rightarrow> ustr option" where
  "executable_path_lookup_key p = map_option executable_lookup_key (file_name p)"

section \<open>policy.rs\<close>

type_synonym rule_map = "(ustr \<times> prefix_rule list) list"

fun mm_insert :: "ustr \<Rightarrow> prefix_rule \<Rightarrow> rule_map \<Rightarrow> rule_map" where
  "mm_insert k r [] = [(k, [r])]"
| "mm_insert k r ((k', rs) # m) = (if k' = k then (k', rs @ [r]) # m else (k', rs) # mm_insert k r m)"

definition get_vec :: "ustr \<Rightarrow> rule_map \<Rightarrow> prefix_rule list option" where
  "get_vec k m = map_of m k"

record match_options =
  resolve_host_executables :: bool

definition default_match_options :: match_options where
  "default_match_options = \<lparr>resolve_host_executables = False\<rparr>"

record policy =
  rules_by_program :: rule_map
  network_rules :: "network_rule list"
  host_executables_by_name :: "ustr \<rightharpoonup> path list"

definition policy_from_parts ::
  "rule_map \<Rightarrow> network_rule list \<Rightarrow> (ustr \<rightharpoonup> path list) \<Rightarrow> policy" where
  "policy_from_parts rules nets hosts =
     \<lparr>rules_by_program = rules, network_rules = nets, host_executables_by_name = hosts\<rparr>"

definition policy_new :: "rule_map \<Rightarrow> policy" where
  "policy_new rules = policy_from_parts rules [] Map.empty"

definition policy_empty :: policy where
  "policy_empty = policy_new []"

fun render_pattern_token :: "pattern_token \<Rightarrow> ustr" where
  "render_pattern_token (Single v) = v"
| "render_pattern_token (Alts alts) = lit ''['' @ join (lit ''|'') alts @ lit '']''"

definition rule_prefix :: "prefix_rule \<Rightarrow> ustr list" where
  "rule_prefix r = pat_first (pr_pattern r) # map render_pattern_token (pat_rest (pr_pattern r))"

text \<open>\<open>Vec::dedup\<close> keeps the first of each run of equal neighbours.\<close>

fun dedup :: "'a list \<Rightarrow> 'a list" where
  "dedup (x # y # ys) = (if x = y then dedup (y # ys) else x # dedup (y # ys))"
| "dedup xs = xs"

definition get_allowed_prefixes :: "policy \<Rightarrow> ustr list list" where
  "get_allowed_prefixes p =
     dedup (sort (map rule_prefix
       (filter (\<lambda>r. pr_decision r = Allow) (concat (map snd (rules_by_program p))))))"

definition add_prefix_rule :: "policy \<Rightarrow> ustr list \<Rightarrow> decision \<Rightarrow> exec_error + policy" where
  "add_prefix_rule p pfx d =
     (case pfx of
        [] \<Rightarrow> Err (InvalidPattern (lit ''prefix cannot be empty''))
      | first_token # rest \<Rightarrow>
          let rule = \<lparr>pr_pattern = \<lparr>pat_first = first_token, pat_rest = map Single rest\<rparr>,
                      pr_decision = d, pr_justification = None\<rparr>
          in Ok (p\<lparr>rules_by_program := mm_insert first_token rule (rules_by_program p)\<rparr>))"

definition blank_justification :: "ustr option \<Rightarrow> bool" where
  "blank_justification j = (case j of Some raw \<Rightarrow> trim raw = [] | None \<Rightarrow> False)"

definition add_network_rule ::
  "policy \<Rightarrow> ustr \<Rightarrow> network_rule_protocol \<Rightarrow> decision \<Rightarrow> ustr option \<Rightarrow> exec_error + policy" where
  "add_network_rule p raw_host protocol d justification =
     (case normalize_network_rule_host raw_host of
        Inl e \<Rightarrow> Err e
      | Inr host \<Rightarrow>
          if blank_justification justification
          then Err (InvalidRule (lit ''justification cannot be empty''))
          else Ok (p\<lparr>network_rules := network_rules p @
                 [\<lparr>nr_host = host, nr_protocol = protocol, nr_decision = d,
                   nr_justification = justification\<rparr>]\<rparr>))"

definition set_host_executable_paths :: "policy \<Rightarrow> ustr \<Rightarrow> path list \<Rightarrow> policy" where
  "set_host_executable_paths p name paths =
     p\<lparr>host_executables_by_name := (host_executables_by_name p)(name \<mapsto> paths)\<rparr>"

definition merge_overlay :: "policy \<Rightarrow> policy \<Rightarrow> policy" where
  "merge_overlay base overlay =
     policy_from_parts
       (fold (\<lambda>(program, rules) acc. fold (\<lambda>rule acc'. mm_insert program rule acc') rules acc)
         (rules_by_program overlay) (rules_by_program base))
       (network_rules base @ network_rules overlay)
       (host_executables_by_name base ++ host_executables_by_name overlay)"

definition upsert_domain :: "ustr list \<Rightarrow> ustr \<Rightarrow> ustr list" where
  "upsert_domain entries host = filter (\<lambda>entry. entry \<noteq> host) entries @ [host]"

definition compile_domain_step :: "ustr list \<times> ustr list \<Rightarrow> network_rule \<Rightarrow> ustr list \<times> ustr list" where
  "compile_domain_step ad rule =
     (case ad of (allowed, denied) \<Rightarrow>
       (case nr_decision rule of
          Allow \<Rightarrow> (upsert_domain allowed (nr_host rule), filter (\<lambda>e. e \<noteq> nr_host rule) denied)
        | Forbidden \<Rightarrow> (filter (\<lambda>e. e \<noteq> nr_host rule) allowed, upsert_domain denied (nr_host rule))
        | Prompt \<Rightarrow> (allowed, denied)))"

definition compiled_network_domains :: "policy \<Rightarrow> ustr list \<times> ustr list" where
  "compiled_network_domains p = foldl compile_domain_step ([], []) (network_rules p)"

definition match_exact_rules :: "policy \<Rightarrow> ustr list \<Rightarrow> rule_match list option" where
  "match_exact_rules p cmd =
     (case cmd of
        [] \<Rightarrow> None
      | first # _ \<Rightarrow>
          Some (case get_vec first (rules_by_program p) of
                  Some rules \<Rightarrow> List.map_filter (\<lambda>rule. rule_matches rule cmd) rules
                | None \<Rightarrow> []))"

definition match_host_executable_rules :: "path_env \<Rightarrow> policy \<Rightarrow> ustr list \<Rightarrow> rule_match list" where
  "match_host_executable_rules env p cmd =
     (case cmd of
        [] \<Rightarrow> []
      | first # rest \<Rightarrow>
          (case from_absolute_path env first of
             Inl _ \<Rightarrow> []
           | Inr program \<Rightarrow>
               (case executable_path_lookup_key program of
                  None \<Rightarrow> []
                | Some basename \<Rightarrow>
                    (case get_vec basename (rules_by_program p) of
                       None \<Rightarrow> []
                     | Some rules \<Rightarrow>
                         (case host_executables_by_name p basename of
                            Some paths \<Rightarrow>
                              if \<not> list_ex (\<lambda>path. path = program) paths then []
                              else map (with_resolved_program program)
                                (List.map_filter (\<lambda>rule. rule_matches rule (basename # rest)) rules)
                          | None \<Rightarrow>
                              map (with_resolved_program program)
                                (List.map_filter (\<lambda>rule. rule_matches rule (basename # rest)) rules))))))"

definition matches_for_command_with_options ::
  "path_env \<Rightarrow> policy \<Rightarrow> ustr list \<Rightarrow> (ustr list \<Rightarrow> decision) option \<Rightarrow> match_options \<Rightarrow> rule_match list" where
  "matches_for_command_with_options env p cmd heuristics_fallback options =
     (let exact = (case match_exact_rules p cmd of None \<Rightarrow> [] | Some ms \<Rightarrow> ms);
          matched_rules =
            (if exact \<noteq> [] then exact
             else if resolve_host_executables options then match_host_executable_rules env p cmd
             else [])
      in if matched_rules = []
         then (case heuristics_fallback of
                 Some f \<Rightarrow> [HeuristicsRuleMatch cmd (f cmd)]
               | None \<Rightarrow> matched_rules)
         else matched_rules)"

definition matches_for_command ::
  "path_env \<Rightarrow> policy \<Rightarrow> ustr list \<Rightarrow> (ustr list \<Rightarrow> decision) option \<Rightarrow> rule_match list" where
  "matches_for_command env p cmd h =
     matches_for_command_with_options env p cmd h default_match_options"

record evaluation =
  ev_decision :: decision
  matched_rules :: "rule_match list"

text \<open>\<open>Evaluation::from_matches\<close> panics on an empty vector: \<open>None\<close> is the panic.\<close>

definition evaluation_from_matches :: "rule_match list \<Rightarrow> evaluation option" where
  "evaluation_from_matches ms =
     (case map rm_decision ms of
        [] \<Rightarrow> None
      | d # ds \<Rightarrow> Some \<lparr>ev_decision = fold max ds d, matched_rules = ms\<rparr>)"

definition evaluation_is_match :: "evaluation \<Rightarrow> bool" where
  "evaluation_is_match ev \<longleftrightarrow>
     list_ex (\<lambda>m. case m of HeuristicsRuleMatch _ _ \<Rightarrow> False | _ \<Rightarrow> True) (matched_rules ev)"

definition check_with_options ::
  "path_env \<Rightarrow> policy \<Rightarrow> ustr list \<Rightarrow> (ustr list \<Rightarrow> decision) \<Rightarrow> match_options \<Rightarrow> evaluation option" where
  "check_with_options env p cmd h options =
     evaluation_from_matches (matches_for_command_with_options env p cmd (Some h) options)"

definition check :: "path_env \<Rightarrow> policy \<Rightarrow> ustr list \<Rightarrow> (ustr list \<Rightarrow> decision) \<Rightarrow> evaluation option" where
  "check env p cmd h = check_with_options env p cmd h default_match_options"

definition check_multiple_with_options ::
  "path_env \<Rightarrow> policy \<Rightarrow> ustr list list \<Rightarrow> (ustr list \<Rightarrow> decision) \<Rightarrow> match_options \<Rightarrow> evaluation option" where
  "check_multiple_with_options env p commands h options =
     evaluation_from_matches
       (concat (map (\<lambda>command. matches_for_command_with_options env p command (Some h) options) commands))"

definition check_multiple ::
  "path_env \<Rightarrow> policy \<Rightarrow> ustr list list \<Rightarrow> (ustr list \<Rightarrow> decision) \<Rightarrow> evaluation option" where
  "check_multiple env p commands h = check_multiple_with_options env p commands h default_match_options"

section \<open>The interface of rules and the index by program\<close>

text \<open>
  A policy relies on the \<open>Rule\<close> trait through one law: a rule only matches commands whose first
  word is the rule's program. That law makes the index by program complete.
\<close>

definition keyed_by :: "('r \<Rightarrow> ustr) \<Rightarrow> (ustr \<times> 'r list) list \<Rightarrow> bool" where
  "keyed_by prog m \<longleftrightarrow>
     distinct (map fst m) \<and> (\<forall>(k, rs) \<in> set m. \<forall>r \<in> set rs. prog r = k)"

locale rule_interface =
  fixes prog :: "'r \<Rightarrow> ustr" and matches :: "'r \<Rightarrow> ustr list \<Rightarrow> 'm option"
  assumes matches_program: "matches r cmd = Some m \<Longrightarrow> cmd \<noteq> [] \<and> hd cmd = prog r"
begin

lemma no_match_other_key:
  "keyed_by prog m \<Longrightarrow> (k, rs) \<in> set m \<Longrightarrow> k \<noteq> c \<Longrightarrow>
     List.map_filter (\<lambda>r. matches r (c # cs)) rs = []"
  using matches_program
  by (fastforce simp: keyed_by_def map_filter_def filter_empty_conv)

lemma index_complete:
  "keyed_by prog m \<Longrightarrow>
     (case map_of m c of Some rs \<Rightarrow> List.map_filter (\<lambda>r. matches r (c # cs)) rs | None \<Rightarrow> [])
       = List.map_filter (\<lambda>r. matches r (c # cs)) (concat (map snd m))"
proof (induction m)
  case Nil
  then show ?case by (simp add: map_filter_def)
next
  case (Cons kv m)
  obtain k rs where kv: "kv = (k, rs)" by (cases kv)
  have m: "keyed_by prog m" and k_new: "k \<notin> fst ` set m"
    using Cons.prems by (auto simp: keyed_by_def kv)
  have split: "List.map_filter f (xs @ ys) = List.map_filter f xs @ List.map_filter f ys"
    for f :: "'r \<Rightarrow> 'm option" and xs ys
    by (simp add: map_filter_def)
  show ?case
  proof (cases "k = c")
    case True
    then have "map_of m c = None" using k_new by (simp add: map_of_eq_None_iff)
    with Cons.IH [OF m] True show ?thesis by (simp add: kv split)
  next
    case False
    have "List.map_filter (\<lambda>r. matches r (c # cs)) rs = []"
      using no_match_other_key [OF Cons.prems, of k rs c cs] False kv by simp
    with Cons.IH [OF m] False show ?thesis by (simp add: kv split)
  qed
qed

end

lemma matches_prefix_Some_iff:
  "matches_prefix p cmd = Some m \<longleftrightarrow>
     (\<exists>args. cmd = pat_first p # args \<and> length (pat_rest p) \<le> length args \<and>
        list_all2 token_matches (pat_rest p) (take (length (pat_rest p)) args) \<and>
        m = pat_first p # take (length (pat_rest p)) args)"
proof (cases cmd)
  case Nil
  then show ?thesis by (simp add: matches_prefix_def)
next
  case (Cons c args)
  have "list_all2 token_matches (pat_rest p) (take (length (pat_rest p)) args) \<longleftrightarrow>
      \<not> list_ex (\<lambda>(t, a). \<not> token_matches t a) (zip (pat_rest p) (take (length (pat_rest p)) args))"
    if "length (pat_rest p) \<le> length args"
    using that by (auto simp: list_all2_iff list_ex_iff)
  then show ?thesis by (auto simp: matches_prefix_def Cons)
qed

interpretation prefix_rules: rule_interface rule_program rule_matches
  by unfold_locales (auto simp: rule_matches_def rule_program_def matches_prefix_Some_iff)

text \<open>The invariant of a policy: its rules are stored under their program.\<close>

definition policy_wf :: "policy \<Rightarrow> bool" where
  "policy_wf p \<longleftrightarrow> keyed_by rule_program (rules_by_program p)"

lemma mm_insert_fst: "fst ` set (mm_insert k r m) = insert k (fst ` set m)"
  by (induction k r m rule: mm_insert.induct) auto

lemma keyed_by_mm_insert:
  "keyed_by rule_program m \<Longrightarrow> rule_program r = k \<Longrightarrow> keyed_by rule_program (mm_insert k r m)"
proof (induction k r m rule: mm_insert.induct)
  case (1 k r)
  then show ?case by (simp add: keyed_by_def)
next
  case (2 k r k' rs m)
  then have "keyed_by rule_program (mm_insert k r m)" if "k' \<noteq> k"
    using that by (simp add: keyed_by_def)
  with 2 show ?case
    by (auto simp: keyed_by_def mm_insert_fst)
qed

lemma map_of_mm_insert:
  "map_of (mm_insert k r m) =
     (map_of m)(k \<mapsto> (case map_of m k of None \<Rightarrow> [r] | Some rs \<Rightarrow> rs @ [r]))"
  by (induction k r m rule: mm_insert.induct) (auto simp: fun_eq_iff split: option.splits)

lemma keyed_by_fold_insert:
  "keyed_by rule_program m \<Longrightarrow> \<forall>r \<in> set rs. rule_program r = k \<Longrightarrow>
     keyed_by rule_program (fold (mm_insert k) rs m)"
  by (induction rs arbitrary: m) (auto simp: keyed_by_mm_insert)

lemma keyed_by_Cons:
  "keyed_by prog ((k, rs) # m) \<longleftrightarrow>
     k \<notin> fst ` set m \<and> (\<forall>r \<in> set rs. prog r = k) \<and> keyed_by prog m"
  by (auto simp: keyed_by_def)

lemma keyed_by_merge:
  "keyed_by rule_program overlay \<Longrightarrow> keyed_by rule_program m \<Longrightarrow>
     keyed_by rule_program
       (fold (\<lambda>(program, rules) acc. fold (mm_insert program) rules acc) overlay m)"
proof (induction overlay arbitrary: m)
  case (Cons kv overlay)
  obtain k rs where "kv = (k, rs)" by (cases kv)
  with Cons show ?case by (simp add: keyed_by_Cons keyed_by_fold_insert)
qed simp

definition vec_or_nil :: "ustr \<Rightarrow> rule_map \<Rightarrow> prefix_rule list" where
  "vec_or_nil k m = (case get_vec k m of None \<Rightarrow> [] | Some rs \<Rightarrow> rs)"

lemma vec_or_nil_mm_insert:
  "vec_or_nil k' (mm_insert k r m) = (if k' = k then vec_or_nil k m @ [r] else vec_or_nil k' m)"
  by (auto simp: vec_or_nil_def get_vec_def map_of_mm_insert split: option.splits)

lemma vec_or_nil_fold_insert:
  "vec_or_nil k' (fold (mm_insert k) rs m) = (if k' = k then vec_or_nil k m @ rs else vec_or_nil k' m)"
  by (induction rs arbitrary: m) (auto simp: vec_or_nil_mm_insert)

lemma vec_or_nil_Nil [simp]: "vec_or_nil k [] = []"
  by (simp add: vec_or_nil_def get_vec_def)

lemma vec_or_nil_Cons: "vec_or_nil c ((k, rs) # m) = (if c = k then rs else vec_or_nil c m)"
  by (simp add: vec_or_nil_def get_vec_def)

lemma vec_or_nil_absent: "c \<notin> fst ` set m \<Longrightarrow> vec_or_nil c m = []"
  using map_of_eq_None_iff [of m c] by (simp add: vec_or_nil_def get_vec_def)

lemma vec_or_nil_merge:
  "distinct (map fst overlay) \<Longrightarrow>
   vec_or_nil c (fold (\<lambda>(program, rules) acc. fold (mm_insert program) rules acc) overlay m) =
     vec_or_nil c m @ vec_or_nil c overlay"
proof (induction overlay arbitrary: m)
  case (Cons kv overlay)
  obtain k rs where kv: "kv = (k, rs)" by (cases kv)
  with Cons.prems have "k \<notin> fst ` set overlay" "distinct (map fst overlay)" by auto
  with Cons.IH kv show ?case
    by (auto simp: vec_or_nil_fold_insert vec_or_nil_absent vec_or_nil_Cons)
qed simp

lemma vec_or_nil_merge_overlay:
  "policy_wf overlay \<Longrightarrow> vec_or_nil c (rules_by_program (merge_overlay base overlay)) =
     vec_or_nil c (rules_by_program base) @ vec_or_nil c (rules_by_program overlay)"
  by (simp add: merge_overlay_def policy_from_parts_def policy_wf_def keyed_by_def vec_or_nil_merge)

lemma match_exact_rules_vec:
  "match_exact_rules p (c # cs) =
     Some (List.map_filter (\<lambda>r. rule_matches r (c # cs)) (vec_or_nil c (rules_by_program p)))"
  by (simp add: match_exact_rules_def vec_or_nil_def map_filter_def split: option.split)

lemma map_filter_append: "List.map_filter f (xs @ ys) = List.map_filter f xs @ List.map_filter f ys"
  by (simp add: map_filter_def)

lemma fold_max_max: "fold max (ds :: 'a :: linorder list) d = Max (set (d # ds))"
  by (simp only: Max.set_eq_fold)

lemma evaluation_from_matches_Some:
  "ms \<noteq> [] \<Longrightarrow> evaluation_from_matches ms =
     Some \<lparr>ev_decision = Max (rm_decision ` set ms), matched_rules = ms\<rparr>"
  by (cases ms) (simp_all add: evaluation_from_matches_def fold_max_max)

lemma matches_nonempty:
  "matches_for_command_with_options env p cmd (Some h) opts \<noteq> []"
  by (simp add: matches_for_command_with_options_def Let_def)

lemma rule_matches_decision: "rule_matches r cmd = Some m \<Longrightarrow> rm_decision m = pr_decision r"
  by (auto simp: rule_matches_def)

section \<open>Properties\<close>

text \<open>
  What a policy says about the words of a command, by trying every rule: the index by program plays no role here. A program given by its path
  may be read as its basename, when host executables are resolved and the path is one of those listed for the basename, or none are listed.
\<close>

definition rule_applies :: "prefix_rule \<Rightarrow> ustr list \<Rightarrow> bool" where
  "rule_applies r cmd \<longleftrightarrow>
     cmd \<noteq> [] \<and> hd cmd = rule_program r \<and> length (pat_rest (pr_pattern r)) < length cmd \<and>
     list_all2 (\<lambda>t w. w \<in> set (alternatives t)) (pat_rest (pr_pattern r)) (take (length (pat_rest (pr_pattern r))) (tl cmd))"

definition applying_rules :: "policy \<Rightarrow> ustr list \<Rightarrow> prefix_rule list" where
  "applying_rules p cmd = filter (\<lambda>r. rule_applies r cmd) (concat (map snd (rules_by_program p)))"

definition by_basename :: "path_env \<Rightarrow> policy \<Rightarrow> match_options \<Rightarrow> ustr list \<Rightarrow> (path \<times> ustr list) option" where
  "by_basename env p options cmd =
     (case cmd of
        [] \<Rightarrow> None
      | first # rest \<Rightarrow>
          (case from_absolute_path env first of
             Inl _ \<Rightarrow> None
           | Inr program \<Rightarrow>
               (case file_name program of
                  None \<Rightarrow> None
                | Some basename \<Rightarrow>
                    if resolve_host_executables options \<and> pred_option (\<lambda>paths. program \<in> set paths) (host_executables_by_name p basename)
                    then Some (program, basename # rest) else None)))"

definition report :: "path option \<Rightarrow> ustr list \<Rightarrow> prefix_rule \<Rightarrow> rule_match" where
  "report program cmd r =
     PrefixRuleMatch (take (Suc (length (pat_rest (pr_pattern r)))) cmd) (pr_decision r) program (pr_justification r)"

text \<open>The rules that decide on a command: those that apply to its words, or else to the words with the basename.\<close>

definition deciding_rules :: "path_env \<Rightarrow> policy \<Rightarrow> match_options \<Rightarrow> ustr list \<Rightarrow> rule_match list" where
  "deciding_rules env p options cmd =
     (if applying_rules p cmd \<noteq> [] then map (report None cmd) (applying_rules p cmd)
      else case by_basename env p options cmd of
             None \<Rightarrow> []
           | Some (program, cmd') \<Rightarrow> map (report (Some program) cmd') (applying_rules p cmd'))"

lemma rule_matches_report: "rule_matches r cmd = (if rule_applies r cmd then Some (report None cmd r) else None)"
proof -
  have "token_matches t w \<longleftrightarrow> w \<in> set (alternatives t)" for t w by (cases t) (auto simp: list_ex_iff)
  then have tokens: "token_matches = (\<lambda>t w. w \<in> set (alternatives t))" by (intro ext)
  show ?thesis
  proof (cases "matches_prefix (pr_pattern r) cmd")
    case None
    then have "\<not> rule_applies r cmd"
      using matches_prefix_Some_iff [of "pr_pattern r" cmd "take (Suc (length (pat_rest (pr_pattern r)))) cmd"]
      by (cases cmd) (auto simp: rule_applies_def rule_program_def tokens)
    with None show ?thesis by (simp add: rule_matches_def)
  next
    case (Some m)
    with matches_prefix_Some_iff [of "pr_pattern r" cmd m] show ?thesis
      by (auto simp: rule_matches_def rule_applies_def rule_program_def report_def tokens)
  qed
qed

lemma indexed_rules:
  assumes "policy_wf p"
  shows "(case get_vec c (rules_by_program p) of Some rules \<Rightarrow> List.map_filter (\<lambda>r. rule_matches r (c # cs)) rules | None \<Rightarrow> []) =
    map (report None (c # cs)) (applying_rules p (c # cs))"
proof -
  have "List.map_filter (\<lambda>r. rule_matches r cmd) rs = map (report None cmd) (filter (\<lambda>r. rule_applies r cmd) rs)" for cmd rs
    by (induction rs) (simp_all add: map_filter_simps rule_matches_report)
  with prefix_rules.index_complete [of "rules_by_program p" c cs] assms show ?thesis
    by (simp add: get_vec_def policy_wf_def applying_rules_def)
qed

lemma exact_rules_apply: "policy_wf p \<Longrightarrow> match_exact_rules p (c # cs) = Some (map (report None (c # cs)) (applying_rules p (c # cs)))"
  by (simp only: match_exact_rules_def list.case indexed_rules)

lemma host_rules_apply:
  assumes "policy_wf p" "resolve_host_executables options"
  shows "match_host_executable_rules env p cmd =
    (case by_basename env p options cmd of None \<Rightarrow> [] | Some (program, cmd') \<Rightarrow> map (report (Some program) cmd') (applying_rules p cmd'))"
proof -
  have resolved: "with_resolved_program prog (report None cmd r) = report (Some prog) cmd r" for prog cmd r
    by (simp add: report_def)
  have "applying_rules p (c # cs) = []" if "get_vec c (rules_by_program p) = None" for c cs
    using indexed_rules [OF assms(1), of c cs] that by simp
  moreover have "map (with_resolved_program prog) (List.map_filter (\<lambda>r. rule_matches r (c # cs)) rules) =
      map (report (Some prog) (c # cs)) (applying_rules p (c # cs))" if "get_vec c (rules_by_program p) = Some rules" for prog c cs rules
    using indexed_rules [OF assms(1), of c cs] that by (simp add: resolved)
  ultimately show ?thesis
    using assms(2)
    by (auto simp: match_host_executable_rules_def by_basename_def executable_path_lookup_key_def executable_lookup_key_def list_ex_iff
        split: list.split sum.split option.splits)
qed

lemma matches_are_deciding:
  assumes "policy_wf p"
  shows "matches_for_command_with_options env p cmd (Some h) options =
    (if deciding_rules env p options cmd = [] then [HeuristicsRuleMatch cmd (h cmd)] else deciding_rules env p options cmd)"
proof (cases cmd)
  case Nil
  then show ?thesis
    by (simp add: matches_for_command_with_options_def match_exact_rules_def match_host_executable_rules_def deciding_rules_def
        by_basename_def applying_rules_def rule_applies_def)
next
  case (Cons c cs)
  have "by_basename env p options cmd = None" if "\<not> resolve_host_executables options"
    using that by (auto simp: by_basename_def split: list.split sum.split option.split)
  then show ?thesis
    using exact_rules_apply [OF assms, of c cs] host_rules_apply [OF assms, of options env cmd]
    by (auto simp: Cons matches_for_command_with_options_def deciding_rules_def)
qed

text \<open>
  C9: A check never panics and goes by all the rules of the policy that apply. When some rule applies to the words of the command, or to the words with the
  basename in place of a listed path, the evaluation reports exactly those rules, in the order of the policy, and its decision is the strictest of
  theirs: one \<open>Forbidden\<close> rule among them makes the command forbidden. The heuristic decides exactly when no rule applies either way.
\<close>

theorem check_strictest:
  assumes "policy_wf p"
  shows "\<exists>ev. check_with_options env p cmd h opts = Some ev \<and>
     (evaluation_is_match ev \<longleftrightarrow> deciding_rules env p opts cmd \<noteq> []) \<and>
     (if deciding_rules env p opts cmd = []
      then ev_decision ev = h cmd \<and> matched_rules ev = [HeuristicsRuleMatch cmd (h cmd)]
      else matched_rules ev = deciding_rules env p opts cmd \<and>
        ev_decision ev \<in> rm_decision ` set (deciding_rules env p opts cmd) \<and>
        (\<forall>m. m \<in> set (deciding_rules env p opts cmd) \<longrightarrow> rm_decision m \<le> ev_decision ev))"
proof -
  let ?rs = "deciding_rules env p opts cmd"
  have prefix_rule: "case m of HeuristicsRuleMatch _ _ \<Rightarrow> False | _ \<Rightarrow> True" if "m \<in> set ?rs" for m
    using that by (auto simp: deciding_rules_def report_def split: if_splits option.splits)
  show ?thesis
  proof (cases "?rs = []")
    case True
    then show ?thesis
      using matches_are_deciding [OF assms, of env cmd h opts]
      by (auto simp: check_with_options_def evaluation_from_matches_Some evaluation_is_match_def)
  next
    case False
    then have "list_ex (\<lambda>m. case m of HeuristicsRuleMatch _ _ \<Rightarrow> False | _ \<Rightarrow> True) ?rs"
      using prefix_rule by (auto simp: list_ex_iff neq_Nil_conv)
    with False show ?thesis
      using matches_are_deciding [OF assms, of env cmd h opts]
      by (auto simp: check_with_options_def evaluation_from_matches_Some evaluation_is_match_def intro!: Max_in Max_ge)
  qed
qed

definition git_push_policy :: policy where
  "git_push_policy =
     policy_new
       [(lit ''git'',
          [\<lparr>pr_pattern = \<lparr>pat_first = lit ''git'', pat_rest = [Alts [lit ''push'', lit ''pull'']]\<rparr>, pr_decision = Allow,
             pr_justification = None\<rparr>,
           \<lparr>pr_pattern = \<lparr>pat_first = lit ''git'', pat_rest = [Single (lit ''push'')]\<rparr>, pr_decision = Forbidden,
             pr_justification = Some (lit ''frozen'')\<rparr>]),
        (lit ''ls'', [\<lparr>pr_pattern = \<lparr>pat_first = lit ''ls'', pat_rest = []\<rparr>, pr_decision = Allow, pr_justification = None\<rparr>])]"

theorem check_strictest_witness:
  "\<exists>ev ev'. check_with_options \<lparr>home_dir = None, current_dir = Ok [RootDir]\<rparr> git_push_policy
       [lit ''git'', lit ''push'', lit ''-f''] (\<lambda>_. Prompt) default_match_options = Some ev \<and>
     ev_decision ev = Forbidden \<and>
     matched_rules ev = [PrefixRuleMatch [lit ''git'', lit ''push''] Allow None None,
       PrefixRuleMatch [lit ''git'', lit ''push''] Forbidden None (Some (lit ''frozen''))] \<and>
     check_with_options \<lparr>home_dir = None, current_dir = Ok [RootDir]\<rparr> git_push_policy
       [lit ''git'', lit ''status''] (\<lambda>_. Prompt) default_match_options = Some ev' \<and> ev_decision ev' = Prompt"
proof -
  let ?env = "\<lparr>home_dir = None, current_dir = Ok [RootDir]\<rparr> :: path_env"
  have wf: "policy_wf git_push_policy"
    by (simp add: policy_wf_def git_push_policy_def policy_new_def policy_from_parts_def keyed_by_def rule_program_def)
  have push: "deciding_rules ?env git_push_policy default_match_options [lit ''git'', lit ''push'', lit ''-f''] =
      [PrefixRuleMatch [lit ''git'', lit ''push''] Allow None None,
       PrefixRuleMatch [lit ''git'', lit ''push''] Forbidden None (Some (lit ''frozen''))]"
    by code_simp
  have status: "deciding_rules ?env git_push_policy default_match_options [lit ''git'', lit ''status''] = []" by code_simp
  note checked = check_strictest [OF wf, of ?env _ "\<lambda>_. Prompt" default_match_options]
  obtain ev where ev: "check_with_options ?env git_push_policy [lit ''git'', lit ''push'', lit ''-f''] (\<lambda>_. Prompt) default_match_options = Some ev"
      "matched_rules ev = deciding_rules ?env git_push_policy default_match_options [lit ''git'', lit ''push'', lit ''-f'']"
      "\<And>m. m \<in> set (matched_rules ev) \<Longrightarrow> rm_decision m \<le> ev_decision ev"
    using checked [of "[lit ''git'', lit ''push'', lit ''-f'']"] by (metis list.distinct(1) push)
  have "Forbidden \<le> ev_decision ev" using ev(3) unfolding ev(2) push by fastforce
  then have "ev_decision ev = Forbidden" using Forbidden_top antisym by blast
  moreover obtain ev' where
      "check_with_options ?env git_push_policy [lit ''git'', lit ''status''] (\<lambda>_. Prompt) default_match_options = Some ev'" "ev_decision ev' = Prompt"
    using checked [of "[lit ''git'', lit ''status'']"] status by (auto simp del: lit_Cons)
  ultimately show ?thesis using ev(1,2) unfolding push by blast
qed

text \<open>
  Checking several commands panics exactly on an empty list; otherwise the decision is the
  strictest of the decisions of the single commands.
\<close>

theorem check_multiple_strictest:
  assumes "cmds \<noteq> []"
  shows "\<exists>ev. check_multiple_with_options env p cmds h opts = Some ev \<and>
     (\<forall>cmd \<in> set cmds. \<exists>e. check_with_options env p cmd h opts = Some e \<and> ev_decision e \<le> ev_decision ev) \<and>
     (\<exists>cmd \<in> set cmds. \<exists>e. check_with_options env p cmd h opts = Some e \<and> ev_decision e = ev_decision ev)"
proof -
  let ?ms = "\<lambda>cmd. matches_for_command_with_options env p cmd (Some h) opts"
  let ?all = "concat (map ?ms cmds)"
  have ne: "?all \<noteq> []" using assms matches_nonempty by (cases cmds) auto
  then have ev: "check_multiple_with_options env p cmds h opts =
      Some \<lparr>ev_decision = Max (rm_decision ` set ?all), matched_rules = ?all\<rparr>"
    by (simp add: check_multiple_with_options_def evaluation_from_matches_Some)
  have single: "check_with_options env p cmd h opts =
      Some \<lparr>ev_decision = Max (rm_decision ` set (?ms cmd)), matched_rules = ?ms cmd\<rparr>" for cmd
    by (simp add: check_with_options_def evaluation_from_matches_Some matches_nonempty)
  have le: "Max (rm_decision ` set (?ms cmd)) \<le> Max (rm_decision ` set ?all)"
    if "cmd \<in> set cmds" for cmd
    using that matches_nonempty by (intro Max_mono) auto
  have "Max (rm_decision ` set ?all) \<in> rm_decision ` set ?all" using ne by (intro Max_in) auto
  then obtain cmd m where "cmd \<in> set cmds" "m \<in> set (?ms cmd)"
      "rm_decision m = Max (rm_decision ` set ?all)" by auto
  then have "cmd \<in> set cmds" "Max (rm_decision ` set (?ms cmd)) = Max (rm_decision ` set ?all)"
    using le [of cmd] by (auto intro!: antisym) (metis Max_ge finite_imageI finite_set image_eqI)
  with ev single le show ?thesis by fastforce
qed

theorem check_multiple_strictest_witness:
  "\<exists>ev. check_multiple_with_options \<lparr>home_dir = None, current_dir = Ok [RootDir]\<rparr> policy_empty
       [[lit ''ls''], [lit ''rm'']] (\<lambda>cmd. if cmd = [lit ''rm''] then Forbidden else Allow)
       default_match_options = Some ev"
  using check_multiple_strictest [of "[[lit ''ls''], [lit ''rm'']]"] by blast

text \<open>
  Looking a command up in the index by program finds the same matches, in the same order, as
  trying every rule of the policy.
\<close>

theorem exact_lookup_equals_scan:
  "policy_wf p \<Longrightarrow> match_exact_rules p (c # cs) =
     Some (List.map_filter (\<lambda>r. rule_matches r (c # cs)) (concat (map snd (rules_by_program p))))"
  using prefix_rules.index_complete [of "rules_by_program p" c cs]
  by (simp add: match_exact_rules_def get_vec_def policy_wf_def)

theorem exact_lookup_equals_scan_witness:
  "match_exact_rules policy_empty [lit ''ls''] = Some []"
proof -
  have wf: "policy_wf policy_empty"
    by (simp add: policy_wf_def policy_empty_def policy_new_def policy_from_parts_def keyed_by_def)
  show ?thesis
    using exact_lookup_equals_scan [OF wf, of "lit ''ls''" "[]"]
    by (simp add: policy_empty_def policy_new_def policy_from_parts_def map_filter_def)
qed

text \<open>
  Every operation that changes a policy keeps the index consistent: the empty policy, adding
  a prefix rule or a network rule, setting host executables and merging an overlay.
\<close>

theorem policy_operations_keep_index:
  assumes "policy_wf p" "policy_wf q"
  shows "policy_wf policy_empty \<and>
     (\<forall>p'. add_prefix_rule p pfx d = Ok p' \<longrightarrow> policy_wf p') \<and>
     (\<forall>p'. add_network_rule p host proto d just = Ok p' \<longrightarrow> policy_wf p') \<and>
     policy_wf (set_host_executable_paths p name paths) \<and>
     policy_wf (merge_overlay p q)"
proof (intro conjI allI impI)
  show "policy_wf policy_empty"
    by (simp add: policy_wf_def policy_empty_def policy_new_def policy_from_parts_def keyed_by_def)
  show "policy_wf p'" if "add_prefix_rule p pfx d = Ok p'" for p'
    using that assms(1)
    by (auto simp: add_prefix_rule_def policy_wf_def Let_def rule_program_def
        intro!: keyed_by_mm_insert split: list.splits)
  show "policy_wf p'" if "add_network_rule p host proto d just = Ok p'" for p'
    using that assms(1)
    by (auto simp: add_network_rule_def policy_wf_def split: sum.splits if_splits)
  show "policy_wf (set_host_executable_paths p name paths)"
    using assms(1) by (simp add: set_host_executable_paths_def policy_wf_def)
  show "policy_wf (merge_overlay p q)"
    using assms by (simp add: merge_overlay_def policy_wf_def policy_from_parts_def keyed_by_merge)
qed

theorem policy_operations_keep_index_witness:
  "policy_wf (merge_overlay policy_empty policy_empty)"
proof -
  have wf: "policy_wf policy_empty"
    by (simp add: policy_wf_def policy_empty_def policy_new_def policy_from_parts_def keyed_by_def)
  show ?thesis using policy_operations_keep_index [OF wf wf] by blast
qed

text \<open>
  C33: An overlay cannot relax a policy, and a policy cannot relax its overlay: a decision that an
  exact rule of either gives is a lower bound for the decision of the merged policy.
\<close>

theorem overlay_cannot_relax:
  assumes "policy_wf base" "policy_wf overlay"
    and "match_exact_rules p cmd = Some ms" "p = base \<or> p = overlay" "m \<in> set ms"
  shows "\<exists>ev. check_with_options env (merge_overlay base overlay) cmd h opts = Some ev \<and>
     m \<in> set (matched_rules ev) \<and> rm_decision m \<le> ev_decision ev"
proof -
  obtain c cs where cmd: "cmd = c # cs"
    using assms(3) by (cases cmd) (auto simp: match_exact_rules_def)
  let ?M = "merge_overlay base overlay"
  have "vec_or_nil c (rules_by_program ?M) =
      vec_or_nil c (rules_by_program base) @ vec_or_nil c (rules_by_program overlay)"
    by (rule vec_or_nil_merge_overlay [OF assms(2)])
  then obtain ms' where ms': "match_exact_rules ?M cmd = Some ms'" "m \<in> set ms'"
    using assms(3-5) by (auto simp: cmd match_exact_rules_vec map_filter_append)
  then have all: "matches_for_command_with_options env ?M cmd (Some h) opts = ms'"
    by (cases ms') (auto simp: matches_for_command_with_options_def)
  from ms' have "ms' \<noteq> []" by auto
  with all ms' show ?thesis
    by (simp add: check_with_options_def evaluation_from_matches_Some)
qed

definition rm_rf_policy :: policy where
  "rm_rf_policy =
     policy_new [(lit ''rm'', [\<lparr>pr_pattern = \<lparr>pat_first = lit ''rm'', pat_rest = [Single (lit ''-rf'')]\<rparr>,
                               pr_decision = Forbidden, pr_justification = None\<rparr>])]"

lemma policy_wf_examples: "policy_wf rm_rf_policy" "policy_wf policy_empty"
  by (simp_all add: policy_wf_def rm_rf_policy_def policy_empty_def policy_new_def
      policy_from_parts_def keyed_by_def rule_program_def)

theorem overlay_cannot_relax_witness:
  "\<exists>ev. check_with_options \<lparr>home_dir = None, current_dir = Ok [RootDir]\<rparr>
       (merge_overlay rm_rf_policy policy_empty) [lit ''rm'', lit ''-rf'', lit ''/''] (\<lambda>_. Allow)
       default_match_options = Some ev \<and> Forbidden \<le> ev_decision ev"
proof -
  let ?cmd = "[lit ''rm'', lit ''-rf'', lit ''/'']"
  let ?m = "PrefixRuleMatch [lit ''rm'', lit ''-rf''] Forbidden None None"
  have m: "match_exact_rules rm_rf_policy ?cmd = Some [?m]"
    by (simp add: match_exact_rules_def rm_rf_policy_def policy_new_def policy_from_parts_def
        get_vec_def rule_matches_def matches_prefix_def map_filter_def)
  show ?thesis
    using overlay_cannot_relax [OF policy_wf_examples m, of ?m] by fastforce
qed

text \<open>
  Once \<open>add_prefix_rule\<close> has stored a prefix, every command that extends it is matched by a
  rule, with a decision at least as strict as the stored one; an empty prefix is refused.
\<close>

theorem added_prefix_governs:
  "add_prefix_rule p [] d = Err (InvalidPattern (lit ''prefix cannot be empty'')) \<and>
   (\<exists>p' ev. add_prefix_rule p (t # ts) d = Ok p' \<and>
      check_with_options env p' (t # ts @ args) h opts = Some ev \<and>
      d \<le> ev_decision ev \<and> evaluation_is_match ev)"
proof -
  define r where "r = \<lparr>pr_pattern = \<lparr>pat_first = t, pat_rest = map Single ts\<rparr>,
                      pr_decision = d, pr_justification = None\<rparr>"
  define p' where "p' = p\<lparr>rules_by_program := mm_insert t r (rules_by_program p)\<rparr>"
  let ?cmd = "t # ts @ args"
  let ?m = "PrefixRuleMatch (t # ts) d None None"
  have add: "add_prefix_rule p (t # ts) d = Ok p'"
    by (simp add: add_prefix_rule_def p'_def r_def)
  have "list_all2 token_matches (map Single ts) ts"
    by (simp add: list_all2_conv_all_nth)
  then have "rule_matches r ?cmd = Some ?m"
    by (simp add: rule_matches_def r_def matches_prefix_Some_iff)
  then obtain ms where ms: "match_exact_rules p' ?cmd = Some ms" "?m \<in> set ms"
    by (simp add: match_exact_rules_vec p'_def vec_or_nil_mm_insert map_filter_append map_filter_def)
  then have all: "matches_for_command_with_options env p' ?cmd (Some h) opts = ms"
    by (cases ms) (auto simp: matches_for_command_with_options_def)
  from ms have "ms \<noteq> []" by auto
  then have ev: "check_with_options env p' ?cmd h opts =
      Some \<lparr>ev_decision = Max (rm_decision ` set ms), matched_rules = ms\<rparr>"
    by (simp add: check_with_options_def all evaluation_from_matches_Some)
  have "d \<le> Max (rm_decision ` set ms)"
    using ms(2) by (metis Max_ge finite_imageI finite_set image_eqI rule_match.sel(2))
  moreover have "list_ex (\<lambda>m. case m of HeuristicsRuleMatch _ _ \<Rightarrow> False | _ \<Rightarrow> True) ms"
    using ms(2) by (force simp: list_ex_iff)
  ultimately show ?thesis
    using add ev by (auto simp: add_prefix_rule_def [of p "[]"] evaluation_is_match_def)
qed

text \<open>The reference for domain lists: the last rule for a host that is not a prompt decides.\<close>

definition last_domain_decision :: "network_rule list \<Rightarrow> ustr \<Rightarrow> decision option" where
  "last_domain_decision rs host =
     (case filter (\<lambda>r. nr_host r = host \<and> nr_decision r \<noteq> Prompt) (rev rs) of
        [] \<Rightarrow> None | r # _ \<Rightarrow> Some (nr_decision r))"

lemma last_domain_decision_snoc:
  "last_domain_decision (rs @ [r]) host =
     (if nr_host r = host \<and> nr_decision r \<noteq> Prompt then Some (nr_decision r)
      else last_domain_decision rs host)"
  by (simp add: last_domain_decision_def)

lemma compile_domains_fold:
  "foldl compile_domain_step ([], []) rs = (allowed, denied) \<Longrightarrow>
     distinct allowed \<and> distinct denied \<and>
     set allowed = {host. last_domain_decision rs host = Some Allow} \<and>
     set denied = {host. last_domain_decision rs host = Some Forbidden}"
proof (induction rs arbitrary: allowed denied rule: rev_induct)
  case Nil
  then show ?case by (simp add: last_domain_decision_def)
next
  case (snoc r rs)
  obtain a d where ad: "foldl compile_domain_step ([], []) rs = (a, d)" by fastforce
  have step: "compile_domain_step (a, d) r = (allowed, denied)" using snoc.prems ad by simp
  show ?case
    using step snoc.IH [OF ad]
    by (cases "nr_decision r")
      (auto simp: compile_domain_step_def upsert_domain_def last_domain_decision_snoc)
qed

text \<open>
  The compiled domain lists are duplicate-free and follow the last word: a host is allowed
  (denied) exactly when the last rule for it that is not a prompt allows (forbids) it, so no host
  is in both lists.
\<close>

theorem compiled_domains_last_wins:
  "\<exists>allowed denied. compiled_network_domains p = (allowed, denied) \<and>
     distinct allowed \<and> distinct denied \<and> set allowed \<inter> set denied = {} \<and>
     set allowed = {host. last_domain_decision (network_rules p) host = Some Allow} \<and>
     set denied = {host. last_domain_decision (network_rules p) host = Some Forbidden}"
proof -
  obtain a d where ad: "foldl compile_domain_step ([], []) (network_rules p) = (a, d)" by fastforce
  show ?thesis
    using compile_domains_fold [OF ad] by (auto simp: compiled_network_domains_def ad)
qed

lemma strip_host_port_subset: "strip_host_port raw host = Ok h \<Longrightarrow> set h \<subseteq> set host"
  by (auto simp: strip_host_port_def rsplit_once_def split_once_Some_iff strip_prefix_Some_iff Let_def
      dest!: arg_cong [of "rev host" _ set] split: option.splits if_splits)

lemma set_trim_end_matches: "set (trim_end_matches c s) \<subseteq> set s"
  by (auto simp: trim_end_matches_def dest: set_dropWhileD)

lemma lowercase_keeps_punctuation:
  "c < 65 \<Longrightarrow> c \<in> set (to_ascii_lowercase s) \<Longrightarrow> c \<in> set s"
  by (auto simp: to_ascii_lowercase_def split: if_splits)

text \<open>
  A host that the policy accepts is in canonical form: not empty, with no upper-case ASCII
  letter, no white space, no wildcard and no part of a URL.
\<close>

theorem normalized_host_is_canonical:
  assumes "normalize_network_rule_host raw = Ok host"
  shows "host \<noteq> [] \<and> (\<forall>c. c \<in> set host \<longrightarrow>
      \<not> is_whitespace c \<and> \<not> (65 \<le> c \<and> c \<le> 90) \<and> c \<notin> {42, 47, 63, 35})"
proof -
  from assms obtain h' where
      clean: "47 \<notin> set (trim raw)" "63 \<notin> set (trim raw)" "35 \<notin> set (trim raw)"
    and h': "strip_host_port raw (trim raw) = Ok h'"
    and host: "host = to_ascii_lowercase (trim (trim_end_matches 46 h'))"
      "host \<noteq> []" "42 \<notin> set host" "\<not> list_ex is_whitespace host"
    by (auto simp: normalize_network_rule_host_def Let_def split: if_splits sum.splits)
  have sub: "set (trim (trim_end_matches 46 h')) \<subseteq> set (trim raw)"
    using strip_host_port_subset [OF h'] set_trim_subset set_trim_end_matches by blast
  then have "c \<notin> set host" if "c \<in> {47, 63, 35}" for c
    using that clean lowercase_keeps_punctuation [of c "trim (trim_end_matches 46 h')"]
    by (auto simp: host(1))
  moreover have "\<not> (65 \<le> c \<and> c \<le> 90)" if "c \<in> set host" for c
    using that by (auto simp: host(1) to_ascii_lowercase_def split: if_splits)
  ultimately show ?thesis using host by (auto simp: list_ex_iff)
qed

theorem normalized_host_is_canonical_witness:
  "normalize_network_rule_host (lit '' Example.COM.:443'') = Ok (lit ''example.com'') \<and>
   \<not> is_whitespace 101"
proof -
  have ok: "normalize_network_rule_host (lit '' Example.COM.:443'') = Ok (lit ''example.com'')"
    by (simp add: normalize_network_rule_host_def strip_host_port_def port_digits_def str_simps)
  show ?thesis using ok normalized_host_is_canonical [OF ok] by simp
qed

lemma sorted_dedup:
  "sorted (xs :: 'a :: linorder list) \<Longrightarrow> sorted (dedup xs) \<and> distinct (dedup xs) \<and> set (dedup xs) = set xs"
  by (induction xs rule: dedup.induct) (auto simp: less_le)

text \<open>
  The allowed prefixes shown to the model are sorted and duplicate-free, and they are exactly
  the rendered prefixes of the \<open>Allow\<close> rules, whatever the iteration order of the rule map.
\<close>

theorem allowed_prefixes_exact:
  "sorted (get_allowed_prefixes p) \<and> distinct (get_allowed_prefixes p) \<and>
   set (get_allowed_prefixes p) =
     {rule_prefix r | k rs r. (k, rs) \<in> set (rules_by_program p) \<and> r \<in> set rs \<and> pr_decision r = Allow}"
proof -
  let ?xs = "sort (map rule_prefix
       (filter (\<lambda>r. pr_decision r = Allow) (concat (map snd (rules_by_program p)))))"
  have "sorted ?xs" by simp
  from sorted_dedup [OF this] show ?thesis
    by (force simp: get_allowed_prefixes_def)
qed

lemma match_host_executable_eq:
  assumes "from_absolute_path env first = Ok program"
    and "file_name program = Some basename"
    and "get_vec basename (rules_by_program p) = Some rules"
  shows "match_host_executable_rules env p (first # rest) =
     (if \<exists>paths. host_executables_by_name p basename = Some paths \<and> program \<notin> set paths then []
      else map (with_resolved_program program)
             (List.map_filter (\<lambda>r. rule_matches r (basename # rest)) rules))"
  using assms
  by (auto simp: match_host_executable_rules_def executable_path_lookup_key_def
      executable_lookup_key_def list_ex_iff split: option.splits)

text \<open>
  When a basename has a \<open>host_executable\<close> entry, the basename rules apply to a program given
  by path only if the resolved path is listed there; without an entry any path is accepted.
\<close>

theorem host_executable_gate:
  assumes "from_absolute_path env first = Ok program"
    and "file_name program = Some basename"
    and "get_vec basename (rules_by_program p) = Some rules"
  shows "match_host_executable_rules env p (first # rest) =
     (if \<exists>paths. host_executables_by_name p basename = Some paths \<and> program \<notin> set paths then []
      else map (with_resolved_program program)
             (List.map_filter (\<lambda>r. rule_matches r (basename # rest)) rules))"
  by (rule match_host_executable_eq [OF assms])

definition git_status_policy :: policy where
  "git_status_policy =
     policy_new [(lit ''git'', [\<lparr>pr_pattern = \<lparr>pat_first = lit ''git'', pat_rest = [Single (lit ''status'')]\<rparr>,
                                pr_decision = Allow, pr_justification = None\<rparr>])]"

theorem host_executable_gate_witness:
  "match_host_executable_rules \<lparr>home_dir = None, current_dir = Ok [RootDir]\<rparr>
     (set_host_executable_paths git_status_policy (lit ''git'')
       [[RootDir, Normal (lit ''usr''), Normal (lit ''bin''), Normal (lit ''git'')]])
     [lit ''/tmp/git'', lit ''status''] = []"
proof -
  let ?env = "\<lparr>home_dir = None, current_dir = Ok [RootDir]\<rparr> :: path_env"
  let ?p = "set_host_executable_paths git_status_policy (lit ''git'')
       [[RootDir, Normal (lit ''usr''), Normal (lit ''bin''), Normal (lit ''git'')]]"
  let ?prog = "[RootDir, Normal (lit ''tmp''), Normal (lit ''git'')]"
  have path: "from_absolute_path ?env (lit ''/tmp/git'') = Ok ?prog" by code_simp
  have name: "file_name ?prog = Some (lit ''git'')" by (simp add: file_name_def)
  have rules: "\<exists>rules. get_vec (lit ''git'') (rules_by_program ?p) = Some rules"
    by (simp add: set_host_executable_paths_def git_status_policy_def policy_new_def
        policy_from_parts_def get_vec_def)
  have hosts: "\<exists>paths. host_executables_by_name ?p (lit ''git'') = Some paths \<and> ?prog \<notin> set paths"
    by (simp add: set_host_executable_paths_def)
  from rules obtain rules where r: "get_vec (lit ''git'') (rules_by_program ?p) = Some rules" ..
  show ?thesis using host_executable_gate [OF path name r, of "[lit ''status'']"] hosts by simp
qed

text \<open>
  The basename fallback is not limited to absolute program paths: \<open>./name\<close> is resolved
  against the current directory, so an \<open>Allow\<close> rule for the bare name also allows the program of
  that name in the current directory, whatever the heuristics would have said.
\<close>

theorem relative_program_takes_basename_rules:
  assumes "piece_component n = Some (Normal n)" "47 \<notin> set n" "abs_normal cwd"
    and "add_prefix_rule policy_empty (n # args) Allow = Ok p"
  shows "check_with_options \<lparr>home_dir = home, current_dir = Ok cwd\<rparr> p ((lit ''./'' @ n) # args @ extra) h
       \<lparr>resolve_host_executables = True\<rparr> =
     Some \<lparr>ev_decision = Allow,
           matched_rules = [PrefixRuleMatch (n # args) Allow (Some (cwd @ [Normal n])) None]\<rparr>"
proof -
  let ?env = "\<lparr>home_dir = home, current_dir = Ok cwd\<rparr> :: path_env"
  have n: "n \<noteq> []" using assms(1) by (auto simp: piece_component_def)
  have comps: "path_components (lit ''./'' @ n) = [CurDir, Normal n]"
    using assms(1,2)
    by (simp add: path_components_def Let_def starts_with_def split_char_no_sep map_filter_def
        piece_component_def)
  have "filter (\<lambda>c. c \<noteq> CurDir) [CurDir, Normal n] = map Normal [n]" by simp
  moreover have "absolutize_from (map Normal [n]) cwd = cwd @ [Normal n]"
    using absolutize_from_below [OF assms(3), of "[n]"] by simp
  ultimately have prog: "from_absolute_path ?env (lit ''./'' @ n) = Ok (cwd @ [Normal n])"
    using assms(3) comps
    by (auto simp: from_absolute_path_def maybe_expand_home_directory_def absolutize_def
        absolutize_from_def path_with_base_def path_join_def path_is_absolute_def abs_normal_def
        split: option.splits)
  have name: "file_name (cwd @ [Normal n]) = Some n" by (simp add: file_name_def)
  define r where "r = \<lparr>pr_pattern = \<lparr>pat_first = n, pat_rest = map Single args\<rparr>,
                      pr_decision = Allow, pr_justification = None\<rparr>"
  have p: "rules_by_program p = [(n, [r])]" "host_executables_by_name p = Map.empty"
    using assms(4)
    by (auto simp: add_prefix_rule_def policy_empty_def policy_new_def policy_from_parts_def r_def)
  have "list_all2 token_matches (map Single args) args" by (simp add: list_all2_conv_all_nth)
  then have m: "rule_matches r (n # args @ extra) = Some (PrefixRuleMatch (n # args) Allow None None)"
    by (simp add: rule_matches_def r_def matches_prefix_Some_iff)
  have "lit ''./'' @ n \<noteq> n" by simp
  then have "match_exact_rules p ((lit ''./'' @ n) # args @ extra) = Some []"
    by (simp add: match_exact_rules_vec p vec_or_nil_Cons map_filter_def)
  moreover have "match_host_executable_rules ?env p ((lit ''./'' @ n) # args @ extra) =
      [PrefixRuleMatch (n # args) Allow (Some (cwd @ [Normal n])) None]"
    using match_host_executable_eq [OF prog name, of p "[r]" "args @ extra"] m
    by (simp add: p get_vec_def map_filter_def)
  ultimately show ?thesis
    by (simp add: check_with_options_def matches_for_command_with_options_def
        evaluation_from_matches_def)
qed

theorem relative_program_takes_basename_rules_witness:
  "check_with_options \<lparr>home_dir = None, current_dir = Ok [RootDir, Normal (lit ''repo'')]\<rparr>
     (policy_new [(lit ''git'', [\<lparr>pr_pattern = \<lparr>pat_first = lit ''git'', pat_rest = [Single (lit ''status'')]\<rparr>,
                                pr_decision = Allow, pr_justification = None\<rparr>])])
     [lit ''./git'', lit ''status''] (\<lambda>_. Forbidden) \<lparr>resolve_host_executables = True\<rparr> =
   Some \<lparr>ev_decision = Allow,
         matched_rules = [PrefixRuleMatch [lit ''git'', lit ''status''] Allow
           (Some [RootDir, Normal (lit ''repo''), Normal (lit ''git'')]) None]\<rparr>"
proof -
  have piece: "piece_component (lit ''git'') = Some (Normal (lit ''git''))" by code_simp
  have no_slash: "47 \<notin> set (lit ''git'')" by code_simp
  have cwd: "abs_normal [RootDir, Normal (lit ''repo'')]"
    by (auto simp: abs_normal_def intro: exI [of _ "[lit ''repo'']"])
  have add: "add_prefix_rule policy_empty [lit ''git'', lit ''status''] Allow = Ok git_status_policy"
    by (simp add: add_prefix_rule_def policy_empty_def git_status_policy_def policy_new_def
        policy_from_parts_def)
  show ?thesis
    using relative_program_takes_basename_rules [OF piece no_slash cwd add, of None "[]" "\<lambda>_. Forbidden"]
    by (simp add: git_status_policy_def)
qed

end
