(* ===== verification/Policy_Builder.thy ===== *)
theory Policy_Builder
  imports Exec_Policy
begin

text \<open>
  How a policy comes about: the builtins a policy file calls (\<open>execpolicy/src/parser.rs\<close>), the
  check of the examples it gives (\<open>rule.rs\<close>), and the line appender that the approval flow
  uses to amend the policy file (\<open>amend.rs\<close>).
  The Starlark interpreter is not modelled: a run of it is the sequence of builtin calls it makes
  and, possibly, an error of its own. The functions of the \<open>shlex\<close> and \<open>serde_json\<close> crates are
  arguments (\<open>shlex_split\<close>, \<open>try_join\<close>, \<open>to_json\<close>), and the outcomes of the file operations are
  given by a record of the errors they return.
\<close>

section \<open>Starlark values and their readers\<close>

datatype sl_value = SlStr ustr | SlList "sl_value list" | SlOther ustr

fun get_type :: "sl_value \<Rightarrow> ustr" where
  "get_type (SlStr _) = lit ''string''"
| "get_type (SlList _) = lit ''list''"
| "get_type (SlOther t) = t"

fun unpack_str :: "sl_value \<Rightarrow> ustr option" where
  "unpack_str (SlStr s) = Some s"
| "unpack_str _ = None"

definition parse_alternative :: "sl_value \<Rightarrow> exec_error + ustr" where
  "parse_alternative v =
     (case unpack_str v of
        Some s \<Rightarrow> Ok s
      | None \<Rightarrow> Err (InvalidPattern
          (lit ''pattern alternative must be a string (got '' @ get_type v @ lit '')'')))"

fun parse_pattern_token :: "sl_value \<Rightarrow> exec_error + pattern_token" where
  "parse_pattern_token (SlStr s) = Ok (Single s)"
| "parse_pattern_token (SlList vs) =
     (case collect_results parse_alternative vs of
        Inl e \<Rightarrow> Err e
      | Inr [] \<Rightarrow> Err (InvalidPattern (lit ''pattern alternatives cannot be empty''))
      | Inr [single] \<Rightarrow> Ok (Single single)
      | Inr tokens \<Rightarrow> Ok (Alts tokens))"
| "parse_pattern_token (SlOther t) =
     Err (InvalidPattern (lit ''pattern element must be a string or list of strings (got '' @ t @ lit '')''))"

definition parse_pattern :: "sl_value list \<Rightarrow> exec_error + pattern_token list" where
  "parse_pattern items =
     (case collect_results parse_pattern_token items of
        Inl e \<Rightarrow> Err e
      | Inr tokens \<Rightarrow>
          if tokens = [] then Err (InvalidPattern (lit ''pattern cannot be empty'')) else Ok tokens)"

definition parse_string_example :: "(ustr \<Rightarrow> ustr list option) \<Rightarrow> ustr \<Rightarrow> exec_error + ustr list" where
  "parse_string_example shlex_split raw =
     (case shlex_split raw of
        None \<Rightarrow> Err (InvalidExample (lit ''example string has invalid shell syntax''))
      | Some tokens \<Rightarrow>
          if tokens = [] then Err (InvalidExample (lit ''example cannot be an empty string''))
          else Ok tokens)"

definition parse_example_token :: "sl_value \<Rightarrow> exec_error + ustr" where
  "parse_example_token v =
     (case unpack_str v of
        Some s \<Rightarrow> Ok s
      | None \<Rightarrow> Err (InvalidExample (lit ''example tokens must be strings (got '' @ get_type v @ lit '')'')))"

definition parse_list_example :: "sl_value list \<Rightarrow> exec_error + ustr list" where
  "parse_list_example vs =
     (case collect_results parse_example_token vs of
        Inl e \<Rightarrow> Err e
      | Inr tokens \<Rightarrow>
          if tokens = [] then Err (InvalidExample (lit ''example cannot be an empty list''))
          else Ok tokens)"

fun parse_example :: "(ustr \<Rightarrow> ustr list option) \<Rightarrow> sl_value \<Rightarrow> exec_error + ustr list" where
  "parse_example shlex_split (SlStr raw) = parse_string_example shlex_split raw"
| "parse_example shlex_split (SlList vs) = parse_list_example vs"
| "parse_example shlex_split (SlOther t) =
     Err (InvalidExample (lit ''example must be a string or list of strings (got '' @ t @ lit '')''))"

definition parse_examples :: "(ustr \<Rightarrow> ustr list option) \<Rightarrow> sl_value list \<Rightarrow> exec_error + ustr list list" where
  "parse_examples shlex_split items = collect_results (parse_example shlex_split) items"

definition parse_literal_absolute_path :: "path_env \<Rightarrow> ustr \<Rightarrow> exec_error + path" where
  "parse_literal_absolute_path env raw =
     (if \<not> path_is_absolute (path_components raw)
      then Err (InvalidRule (lit ''host_executable paths must be absolute (got '' @ raw @ lit '')''))
      else case from_absolute_path env raw of
             Inl e \<Rightarrow> Err (InvalidRule (lit ''invalid absolute path `'' @ raw @ lit ''`: '' @ e))
           | Inr p \<Rightarrow> Ok p)"

definition validate_host_executable_name :: "ustr \<Rightarrow> exec_error + unit" where
  "validate_host_executable_name name =
     (if name = [] then Err (InvalidRule (lit ''host_executable name cannot be empty''))
      else if length (path_components name) \<noteq> 1 \<or> file_name (path_components name) \<noteq> Some name
      then Err (InvalidRule (lit ''host_executable name must be a bare executable name (got '' @ name @ lit '')''))
      else Ok ())"

definition parse_network_rule_decision :: "ustr \<Rightarrow> exec_error + decision" where
  "parse_network_rule_decision raw = (if raw = lit ''deny'' then Ok Forbidden else parse_decision raw)"

text \<open>\<open>Error::with_location\<close> fills the location of an example error that has none.\<close>

fun with_location :: "error_location \<Rightarrow> exec_error \<Rightarrow> exec_error" where
  "with_location loc (ExampleDidNotMatch rules examples None) = ExampleDidNotMatch rules examples (Some loc)"
| "with_location loc (ExampleDidMatch rule example None) = ExampleDidMatch rule example (Some loc)"
| "with_location loc other = other"

definition attach_validation_location :: "exec_error \<Rightarrow> error_location option \<Rightarrow> exec_error" where
  "attach_validation_location e location =
     (case location of Some loc \<Rightarrow> with_location loc e | None \<Rightarrow> e)"

section \<open>Checking examples (rule.rs)\<close>

definition render_example :: "(ustr list \<Rightarrow> ustr option) \<Rightarrow> ustr list \<Rightarrow> ustr" where
  "render_example try_join example =
     (case try_join example of Some s \<Rightarrow> s | None \<Rightarrow> lit ''unable to render example'')"

definition example_matches :: "path_env \<Rightarrow> policy \<Rightarrow> ustr list \<Rightarrow> rule_match list" where
  "example_matches env p example =
     matches_for_command_with_options env p example None \<lparr>resolve_host_executables = True\<rparr>"

definition validate_match_examples ::
  "(ustr list \<Rightarrow> ustr option) \<Rightarrow> path_env \<Rightarrow> policy \<Rightarrow> prefix_rule list \<Rightarrow> ustr list list \<Rightarrow> exec_error + unit" where
  "validate_match_examples try_join env p rules examples =
     (let unmatched_examples =
            map (render_example try_join) (filter (\<lambda>example. example_matches env p example = []) examples)
      in if unmatched_examples = [] then Ok ()
         else Err (ExampleDidNotMatch rules unmatched_examples None))"

fun validate_not_match_examples ::
  "(ustr list \<Rightarrow> ustr option) \<Rightarrow> path_env \<Rightarrow> policy \<Rightarrow> prefix_rule list \<Rightarrow> ustr list list \<Rightarrow> exec_error + unit" where
  "validate_not_match_examples try_join env p rules [] = Ok ()"
| "validate_not_match_examples try_join env p rules (example # examples) =
     (case example_matches env p example of
        rule # _ \<Rightarrow> Err (ExampleDidMatch rule (render_example try_join example) None)
      | [] \<Rightarrow> validate_not_match_examples try_join env p rules examples)"

section \<open>PolicyBuilder\<close>

record pending_example_validation =
  pv_rules :: "prefix_rule list"
  pv_matches :: "ustr list list"
  pv_not_matches :: "ustr list list"
  pv_location :: "error_location option"

record policy_builder =
  pb_rules_by_program :: rule_map
  pb_network_rules :: "network_rule list"
  pb_host_executables_by_name :: "ustr \<rightharpoonup> path list"
  pending_example_validations :: "pending_example_validation list"

definition policy_builder_new :: policy_builder where
  "policy_builder_new = \<lparr>pb_rules_by_program = [], pb_network_rules = [],
     pb_host_executables_by_name = Map.empty, pending_example_validations = []\<rparr>"

definition add_rule :: "policy_builder \<Rightarrow> prefix_rule \<Rightarrow> policy_builder" where
  "add_rule b rule =
     b\<lparr>pb_rules_by_program := mm_insert (rule_program rule) rule (pb_rules_by_program b)\<rparr>"

definition builder_add_network_rule :: "policy_builder \<Rightarrow> network_rule \<Rightarrow> policy_builder" where
  "builder_add_network_rule b rule = b\<lparr>pb_network_rules := pb_network_rules b @ [rule]\<rparr>"

definition add_host_executable :: "policy_builder \<Rightarrow> ustr \<Rightarrow> path list \<Rightarrow> policy_builder" where
  "add_host_executable b name paths =
     b\<lparr>pb_host_executables_by_name := (pb_host_executables_by_name b)(name \<mapsto> paths)\<rparr>"

definition add_pending_example_validation ::
  "policy_builder \<Rightarrow> pending_example_validation \<Rightarrow> policy_builder" where
  "add_pending_example_validation b v =
     b\<lparr>pending_example_validations := pending_example_validations b @ [v]\<rparr>"

definition validation_policy :: "policy_builder \<Rightarrow> pending_example_validation \<Rightarrow> policy" where
  "validation_policy b v =
     policy_from_parts (foldl (\<lambda>m rule. mm_insert (rule_program rule) rule m) [] (pv_rules v)) []
       (pb_host_executables_by_name b)"

definition validate_pending_example ::
  "(ustr list \<Rightarrow> ustr option) \<Rightarrow> path_env \<Rightarrow> policy_builder \<Rightarrow> pending_example_validation \<Rightarrow> exec_error + unit" where
  "validate_pending_example try_join env b v =
     (let p = validation_policy b v
      in case validate_not_match_examples try_join env p (pv_rules v) (pv_not_matches v) of
           Inl e \<Rightarrow> Err (attach_validation_location e (pv_location v))
         | Inr _ \<Rightarrow>
             (case validate_match_examples try_join env p (pv_rules v) (pv_matches v) of
                Inl e \<Rightarrow> Err (attach_validation_location e (pv_location v))
              | Inr _ \<Rightarrow> Ok ()))"

fun validate_all ::
  "(ustr list \<Rightarrow> ustr option) \<Rightarrow> path_env \<Rightarrow> policy_builder \<Rightarrow> pending_example_validation list \<Rightarrow> exec_error + unit" where
  "validate_all try_join env b [] = Ok ()"
| "validate_all try_join env b (v # vs) =
     (case validate_pending_example try_join env b v of
        Inl e \<Rightarrow> Err e | Inr _ \<Rightarrow> validate_all try_join env b vs)"

definition validate_pending_examples_from ::
  "(ustr list \<Rightarrow> ustr option) \<Rightarrow> path_env \<Rightarrow> policy_builder \<Rightarrow> nat \<Rightarrow> exec_error + unit" where
  "validate_pending_examples_from try_join env b start =
     validate_all try_join env b (drop start (pending_example_validations b))"

definition build :: "policy_builder \<Rightarrow> policy" where
  "build b = policy_from_parts (pb_rules_by_program b) (pb_network_rules b) (pb_host_executables_by_name b)"

section \<open>The builtins\<close>

definition optional_examples ::
  "(ustr \<Rightarrow> ustr list option) \<Rightarrow> sl_value list option \<Rightarrow> exec_error + ustr list list" where
  "optional_examples shlex_split items =
     (case items of None \<Rightarrow> Ok [] | Some vs \<Rightarrow> parse_examples shlex_split vs)"

definition prefix_rules_of ::
  "pattern_token \<Rightarrow> pattern_token list \<Rightarrow> decision \<Rightarrow> ustr option \<Rightarrow> prefix_rule list" where
  "prefix_rules_of first_token rest d justification =
     map (\<lambda>head. \<lparr>pr_pattern = \<lparr>pat_first = head, pat_rest = rest\<rparr>,
                  pr_decision = d, pr_justification = justification\<rparr>) (alternatives first_token)"

definition prefix_rule_builtin ::
  "(ustr \<Rightarrow> ustr list option) \<Rightarrow> sl_value list \<Rightarrow> ustr option \<Rightarrow> sl_value list option \<Rightarrow>
   sl_value list option \<Rightarrow> ustr option \<Rightarrow> error_location option \<Rightarrow> policy_builder \<Rightarrow>
   exec_error + policy_builder" where
  "prefix_rule_builtin shlex_split pattern decision_arg match_arg not_match_arg justification location b =
     (case (case decision_arg of Some raw \<Rightarrow> parse_decision raw | None \<Rightarrow> Ok Allow) of
        Inl e \<Rightarrow> Err e
      | Inr d \<Rightarrow>
        if blank_justification justification
        then Err (InvalidRule (lit ''justification cannot be empty''))
        else (case parse_pattern pattern of
          Inl e \<Rightarrow> Err e
        | Inr pattern_tokens \<Rightarrow>
          (case optional_examples shlex_split match_arg of
             Inl e \<Rightarrow> Err e
           | Inr matches \<Rightarrow>
             (case optional_examples shlex_split not_match_arg of
                Inl e \<Rightarrow> Err e
              | Inr not_matches \<Rightarrow>
                (case pattern_tokens of
                   [] \<Rightarrow> Err (InvalidPattern (lit ''pattern cannot be empty''))
                 | first_token # remaining_tokens \<Rightarrow>
                     let rules = prefix_rules_of first_token remaining_tokens d justification
                     in Ok (foldl add_rule
                          (add_pending_example_validation b
                            \<lparr>pv_rules = rules, pv_matches = matches, pv_not_matches = not_matches,
                             pv_location = location\<rparr>) rules))))))"

definition network_rule_builtin ::
  "ustr \<Rightarrow> ustr \<Rightarrow> ustr \<Rightarrow> ustr option \<Rightarrow> policy_builder \<Rightarrow> exec_error + policy_builder" where
  "network_rule_builtin host protocol_arg decision_arg justification b =
     (case parse_protocol protocol_arg of
        Inl e \<Rightarrow> Err e
      | Inr protocol \<Rightarrow>
        (case parse_network_rule_decision decision_arg of
           Inl e \<Rightarrow> Err e
         | Inr d \<Rightarrow>
           if blank_justification justification
           then Err (InvalidRule (lit ''justification cannot be empty''))
           else (case normalize_network_rule_host host of
             Inl e \<Rightarrow> Err e
           | Inr h \<Rightarrow> Ok (builder_add_network_rule b
               \<lparr>nr_host = h, nr_protocol = protocol, nr_decision = d, nr_justification = justification\<rparr>))))"

fun collect_host_paths ::
  "path_env \<Rightarrow> ustr \<Rightarrow> sl_value list \<Rightarrow> path list \<Rightarrow> exec_error + path list" where
  "collect_host_paths env name [] parsed = Ok parsed"
| "collect_host_paths env name (v # vs) parsed =
     (case unpack_str v of
        None \<Rightarrow> Err (InvalidRule (lit ''host_executable paths must be strings (got '' @ get_type v @ lit '')''))
      | Some raw \<Rightarrow>
        (case parse_literal_absolute_path env raw of
           Inl e \<Rightarrow> Err e
         | Inr p \<Rightarrow>
           (case executable_path_lookup_key p of
              None \<Rightarrow> Err (InvalidRule
                (lit ''host_executable path `'' @ raw @ lit ''` must have basename `'' @ name @ lit ''`''))
            | Some path_name \<Rightarrow>
              if path_name \<noteq> executable_lookup_key name
              then Err (InvalidRule
                (lit ''host_executable path `'' @ raw @ lit ''` must have basename `'' @ name @ lit ''`''))
              else collect_host_paths env name vs
                     (if list_ex (\<lambda>existing. existing = p) parsed then parsed else parsed @ [p]))))"

definition host_executable_builtin ::
  "path_env \<Rightarrow> ustr \<Rightarrow> sl_value list \<Rightarrow> policy_builder \<Rightarrow> exec_error + policy_builder" where
  "host_executable_builtin env name paths b =
     (case validate_host_executable_name name of
        Inl e \<Rightarrow> Err e
      | Inr _ \<Rightarrow>
        (case collect_host_paths env name paths [] of
           Inl e \<Rightarrow> Err e
         | Inr parsed_paths \<Rightarrow> Ok (add_host_executable b (executable_lookup_key name) parsed_paths)))"

section \<open>PolicyParser::parse\<close>

datatype builtin_call =
    PrefixRuleCall "sl_value list" "ustr option" "sl_value list option" "sl_value list option"
      "ustr option" "error_location option"
  | NetworkRuleCall ustr ustr ustr "ustr option"
  | HostExecutableCall ustr "sl_value list"

fun run_call ::
  "(ustr \<Rightarrow> ustr list option) \<Rightarrow> path_env \<Rightarrow> builtin_call \<Rightarrow> policy_builder \<Rightarrow> exec_error + policy_builder" where
  "run_call shlex_split env (PrefixRuleCall pat d m nm j loc) b =
     prefix_rule_builtin shlex_split pat d m nm j loc b"
| "run_call shlex_split env (NetworkRuleCall host proto d j) b = network_rule_builtin host proto d j b"
| "run_call shlex_split env (HostExecutableCall name paths) b = host_executable_builtin env name paths b"

text \<open>
  The calls run in order; the first one that fails stops the evaluation, and so does an error of
  the interpreter after them; \<open>parse\<close> wraps both as \<open>Error::Starlark\<close>. The builder keeps what was
  done before.
\<close>

fun eval_module ::
  "(ustr \<Rightarrow> ustr list option) \<Rightarrow> path_env \<Rightarrow> builtin_call list \<Rightarrow> ustr option \<Rightarrow> policy_builder \<Rightarrow>
   (exec_error + unit) \<times> policy_builder" where
  "eval_module shlex_split env [] err b = ((case err of None \<Rightarrow> Ok () | Some e \<Rightarrow> Err (Starlark e)), b)"
| "eval_module shlex_split env (c # cs) err b =
     (case run_call shlex_split env c b of
        Inl e \<Rightarrow> (Err (StarlarkBuiltin e), b)
      | Inr b' \<Rightarrow> eval_module shlex_split env cs err b')"

definition policy_parse ::
  "(ustr \<Rightarrow> ustr list option) \<Rightarrow> (ustr list \<Rightarrow> ustr option) \<Rightarrow> path_env \<Rightarrow> builtin_call list \<Rightarrow>
   ustr option \<Rightarrow> policy_builder \<Rightarrow> (exec_error + unit) \<times> policy_builder" where
  "policy_parse shlex_split try_join env calls err b =
     (let pending_validation_count = length (pending_example_validations b)
      in case eval_module shlex_split env calls err b of
           (Inl e, b') \<Rightarrow> (Err e, b')
         | (Inr _, b') \<Rightarrow> (validate_pending_examples_from try_join env b' pending_validation_count, b'))"

section \<open>amend.rs\<close>

text \<open>
  The source's \<open>InvalidNetworkRule(String)\<close> carries the rendering of a host error or a fixed text
  about the justification; the model keeps the two apart.
\<close>

datatype amend_error =
    EmptyPrefix
  | InvalidNetworkRule exec_error
  | InvalidJustification ustr
  | MissingParent
  | CreatePolicyDir ustr
  | SerializePrefix ustr
  | SerializeNetworkRule ustr
  | OpenPolicyFile ustr
  | WritePolicyFile ustr
  | LockPolicyFile ustr
  | SeekPolicyFile ustr
  | ReadPolicyFile ustr

datatype create_dir_outcome = DirCreated | DirAlreadyExists | DirFailed ustr

text \<open>
  The outcomes of the system calls: \<open>None\<close> for success, otherwise the error; a failed write also
  says what it left in the file.
\<close>

record amend_io =
  io_has_parent :: bool
  io_create_dir :: create_dir_outcome
  io_open :: "ustr option"
  io_lock :: "ustr option"
  io_seek :: "ustr option"
  io_read :: "ustr option"
  io_write_newline :: "(ustr \<times> ustr) option"
  io_write_line :: "(ustr \<times> ustr) option"

definition write_rule_line :: "amend_io \<Rightarrow> ustr \<Rightarrow> ustr \<Rightarrow> (amend_error + unit) \<times> ustr" where
  "write_rule_line io contents line =
     (case io_write_line io of
        Some (e, left) \<Rightarrow> (Err (WritePolicyFile e), left)
      | None \<Rightarrow> (Ok (), contents @ line @ [newline]))"

definition append_locked_line :: "amend_io \<Rightarrow> ustr \<Rightarrow> ustr \<Rightarrow> (amend_error + unit) \<times> ustr" where
  "append_locked_line io contents line =
     (case io_open io of Some e \<Rightarrow> (Err (OpenPolicyFile e), contents) | None \<Rightarrow>
      case io_lock io of Some e \<Rightarrow> (Err (LockPolicyFile e), contents) | None \<Rightarrow>
      case io_seek io of Some e \<Rightarrow> (Err (SeekPolicyFile e), contents) | None \<Rightarrow>
      case io_read io of Some e \<Rightarrow> (Err (ReadPolicyFile e), contents) | None \<Rightarrow>
        if list_ex (\<lambda>existing. existing = line) (str_lines contents) then (Ok (), contents)
        else if contents \<noteq> [] \<and> \<not> ends_with [newline] contents
        then (case io_write_newline io of
                Some (e, left) \<Rightarrow> (Err (WritePolicyFile e), left)
              | None \<Rightarrow> write_rule_line io (contents @ [newline]) line)
        else write_rule_line io contents line)"

definition append_rule_line :: "amend_io \<Rightarrow> ustr \<Rightarrow> ustr \<Rightarrow> (amend_error + unit) \<times> ustr" where
  "append_rule_line io contents rule =
     (if \<not> io_has_parent io then (Err MissingParent, contents)
      else case io_create_dir io of
             DirFailed e \<Rightarrow> (Err (CreatePolicyDir e), contents)
           | _ \<Rightarrow> append_locked_line io contents rule)"

definition blocking_append_allow_prefix_rule ::
  "(ustr \<Rightarrow> ustr + ustr) \<Rightarrow> amend_io \<Rightarrow> ustr \<Rightarrow> ustr list \<Rightarrow> (amend_error + unit) \<times> ustr" where
  "blocking_append_allow_prefix_rule to_json io contents pfx =
     (if pfx = [] then (Err EmptyPrefix, contents)
      else case collect_results to_json pfx of
             Inl e \<Rightarrow> (Err (SerializePrefix e), contents)
           | Inr tokens \<Rightarrow>
               append_rule_line io contents
                 (lit ''prefix_rule(pattern=['' @ join (lit '', '') tokens @ lit ''], decision='' @ [34] @ lit ''allow'' @ [34] @ lit '')''))"

fun amend_decision_string :: "decision \<Rightarrow> ustr" where
  "amend_decision_string Allow = lit ''allow''"
| "amend_decision_string Prompt = lit ''prompt''"
| "amend_decision_string Forbidden = lit ''deny''"

definition blocking_append_network_rule ::
  "(ustr \<Rightarrow> ustr + ustr) \<Rightarrow> amend_io \<Rightarrow> ustr \<Rightarrow> ustr \<Rightarrow> network_rule_protocol \<Rightarrow> decision \<Rightarrow>
   ustr option \<Rightarrow> (amend_error + unit) \<times> ustr" where
  "blocking_append_network_rule to_json io contents raw_host protocol d justification =
     (case normalize_network_rule_host raw_host of
        Inl e \<Rightarrow> (Err (InvalidNetworkRule e), contents)
      | Inr host \<Rightarrow>
        if blank_justification justification
        then (Err (InvalidJustification (lit ''justification cannot be empty'')), contents)
        else (case collect_results to_json
                ([host, as_policy_string protocol, amend_decision_string d] @
                 (case justification of None \<Rightarrow> [] | Some j \<Rightarrow> [j])) of
          Inl e \<Rightarrow> (Err (SerializeNetworkRule e), contents)
        | Inr rendered \<Rightarrow>
            append_rule_line io contents
              (lit ''network_rule('' @
               join (lit '', '')
                 (map (\<lambda>(name, value). name @ lit ''='' @ value)
                   (zip [lit ''host'', lit ''protocol'', lit ''decision'', lit ''justification''] rendered)) @
               lit '')'')))"

section \<open>Lemmas\<close>

lemma validate_not_match_Ok:
  "validate_not_match_examples try_join env p rules examples = Ok () \<longleftrightarrow>
     (\<forall>example \<in> set examples. example_matches env p example = [])"
  by (induction examples) (auto split: list.splits)

lemma validate_match_Ok:
  "validate_match_examples try_join env p rules examples = Ok () \<longleftrightarrow>
     (\<forall>example \<in> set examples. example_matches env p example \<noteq> [])"
  by (auto simp: validate_match_examples_def filter_empty_conv)

lemma validate_pending_Ok:
  "validate_pending_example try_join env b v = Ok () \<longleftrightarrow>
     (\<forall>example \<in> set (pv_matches v). example_matches env (validation_policy b v) example \<noteq> []) \<and>
     (\<forall>example \<in> set (pv_not_matches v). example_matches env (validation_policy b v) example = [])"
  by (auto simp: validate_pending_example_def Let_def split: sum.splits
      simp flip: validate_not_match_Ok [of try_join _ _ "pv_rules v"]
        validate_match_Ok [of try_join _ _ "pv_rules v"])

lemma validate_all_Ok:
  "validate_all try_join env b vs = Ok () \<longleftrightarrow>
     (\<forall>v \<in> set vs. validate_pending_example try_join env b v = Ok ())"
  by (induction vs) (auto split: sum.splits)

lemma foldl_add_rule:
  "foldl add_rule b rules =
     b\<lparr>pb_rules_by_program :=
       foldl (\<lambda>m rule. mm_insert (rule_program rule) rule m) (pb_rules_by_program b) rules\<rparr>"
  by (induction rules arbitrary: b) (simp_all add: add_rule_def)

lemma keyed_by_foldl_insert:
  "keyed_by rule_program m \<Longrightarrow>
     keyed_by rule_program (foldl (\<lambda>m rule. mm_insert (rule_program rule) rule m) m rules)"
  by (induction rules arbitrary: m) (auto simp: keyed_by_mm_insert)

definition builder_wf :: "policy_builder \<Rightarrow> bool" where
  "builder_wf b \<longleftrightarrow> keyed_by rule_program (pb_rules_by_program b)"

lemma run_call_wf: "run_call shlex_split env c b = Ok b' \<Longrightarrow> builder_wf b \<Longrightarrow> builder_wf b'"
  by (cases c)
    (auto simp: prefix_rule_builtin_def network_rule_builtin_def host_executable_builtin_def Let_def
      foldl_add_rule builder_add_network_rule_def add_host_executable_def
      add_pending_example_validation_def builder_wf_def keyed_by_foldl_insert
      split: sum.splits option.splits if_splits list.splits)

lemma eval_module_wf:
  "eval_module shlex_split env calls err b = (r, b') \<Longrightarrow> builder_wf b \<Longrightarrow> builder_wf b'"
  by (induction calls arbitrary: b) (auto split: sum.splits dest: run_call_wf)

lemma str_lines_snoc_newline: "str_lines (s @ [10]) = map strip_cr (split_char 10 s)"
  by (simp add: str_lines_def Let_def split_char_append_sep [of 10 s "[]"])

lemma line_in_appended:
  assumes "10 \<notin> set line" "strip_cr line = line" "contents = [] \<or> last contents = 10"
  shows "line \<in> set (str_lines (contents @ line @ [10]))"
proof (cases "contents = []")
  case True
  with assms show ?thesis
    using str_lines_snoc_newline [of line] by (simp add: split_char_no_sep)
next
  case False
  with assms(3) obtain a where a: "contents = a @ [10]" by (metis append_butlast_last_id)
  have "str_lines (contents @ line @ [10]) = map strip_cr (split_char 10 (a @ 10 # line))"
    using str_lines_snoc_newline [of "contents @ line"] by (simp add: a)
  with assms(1,2) show ?thesis
    by (simp add: split_char_append_sep split_char_no_sep)
qed

definition io_ok :: amend_io where
  "io_ok = \<lparr>io_has_parent = True, io_create_dir = DirAlreadyExists, io_open = None, io_lock = None,
     io_seek = None, io_read = None, io_write_newline = None, io_write_line = None\<rparr>"

section \<open>Properties\<close>

text \<open>
  A policy file that parses has true examples: for every \<open>prefix_rule\<close> call of the file, each
  \<open>match\<close> example is matched by a rule of that call and no \<open>not_match\<close> example is, with the host
  executables of the finished file.
\<close>

theorem parsed_examples_hold:
  assumes "policy_parse shlex_split try_join env calls err b = (Ok (), b')"
    and "v \<in> set (drop (length (pending_example_validations b)) (pending_example_validations b'))"
  shows "(\<forall>example \<in> set (pv_matches v). example_matches env (validation_policy b' v) example \<noteq> []) \<and>
     (\<forall>example \<in> set (pv_not_matches v). example_matches env (validation_policy b' v) example = [])"
  using assms
  by (auto simp: policy_parse_def Let_def validate_pending_examples_from_def validate_all_Ok
      validate_pending_Ok split: prod.splits sum.splits)

definition ls_call :: builtin_call where
  "ls_call = PrefixRuleCall [SlStr (lit ''ls'')] None (Some [SlList [SlStr (lit ''ls''), SlStr (lit ''-a'')]])
     (Some [SlList [SlStr (lit ''cat'')]]) None None"

definition ls_rule :: prefix_rule where
  "ls_rule = \<lparr>pr_pattern = \<lparr>pat_first = lit ''ls'', pat_rest = []\<rparr>, pr_decision = Allow,
     pr_justification = None\<rparr>"

definition ls_validation :: pending_example_validation where
  "ls_validation = \<lparr>pv_rules = [ls_rule], pv_matches = [[lit ''ls'', lit ''-a'']],
     pv_not_matches = [[lit ''cat'']], pv_location = None\<rparr>"

theorem parsed_examples_hold_witness:
  "\<exists>b'. policy_parse (\<lambda>_. None) (\<lambda>_. None) \<lparr>home_dir = None, current_dir = Ok [RootDir]\<rparr> [ls_call] None
       policy_builder_new = (Ok (), b') \<and>
     example_matches \<lparr>home_dir = None, current_dir = Ok [RootDir]\<rparr> (validation_policy b' ls_validation)
       [lit ''cat''] = []"
proof -
  let ?env = "\<lparr>home_dir = None, current_dir = Ok [RootDir]\<rparr> :: path_env"
  define b' where "b' = \<lparr>pb_rules_by_program = [(lit ''ls'', [ls_rule])], pb_network_rules = [],
     pb_host_executables_by_name = Map.empty, pending_example_validations = [ls_validation]\<rparr>"
  have call: "run_call (\<lambda>_. None) ?env ls_call policy_builder_new = Ok b'"
    by (simp add: Let_def ls_call_def prefix_rule_builtin_def blank_justification_def parse_pattern_def
        optional_examples_def parse_examples_def parse_list_example_def parse_example_token_def
        prefix_rules_of_def add_pending_example_validation_def add_rule_def policy_builder_new_def
        b'_def ls_rule_def ls_validation_def rule_program_def)
  have p: "validation_policy b' ls_validation = policy_from_parts [(lit ''ls'', [ls_rule])] [] Map.empty"
    by (simp add: validation_policy_def ls_validation_def b'_def ls_rule_def rule_program_def)
  have "from_absolute_path ?env (lit ''cat'') = Ok [RootDir, Normal (lit ''cat'')]" by code_simp
  then have no: "example_matches ?env (validation_policy b' ls_validation) [lit ''cat''] = []"
    by (simp add: p example_matches_def matches_for_command_with_options_def match_exact_rules_def
        policy_from_parts_def get_vec_def match_host_executable_rules_def executable_path_lookup_key_def
        file_name_def executable_lookup_key_def)
  have yes: "example_matches ?env (validation_policy b' ls_validation) [lit ''ls'', lit ''-a''] \<noteq> []"
    by (simp add: p example_matches_def matches_for_command_with_options_def match_exact_rules_def
        policy_from_parts_def get_vec_def rule_matches_def matches_prefix_def ls_rule_def map_filter_def)
  have "validate_pending_example (\<lambda>_. None) ?env b' ls_validation = Ok ()"
    unfolding validate_pending_Ok using yes no by (simp add: ls_validation_def)
  moreover have "eval_module (\<lambda>_. None) ?env [ls_call] None policy_builder_new = (Ok (), b')"
    by (simp add: call)
  moreover have "pending_example_validations policy_builder_new = []" "pending_example_validations b' = [ls_validation]"
    by (simp_all add: policy_builder_new_def b'_def)
  ultimately have parse: "policy_parse (\<lambda>_. None) (\<lambda>_. None) ?env [ls_call] None policy_builder_new = (Ok (), b')"
    by (simp add: policy_parse_def validate_pending_examples_from_def Let_def)
  have "ls_validation \<in> set (drop (length (pending_example_validations policy_builder_new))
      (pending_example_validations b'))"
    by (simp add: policy_builder_new_def b'_def)
  from parsed_examples_hold [OF parse this] parse show ?thesis by (auto simp: ls_validation_def)
qed

text \<open>
  Whatever a policy file does, also when it fails midway, the policy built from it has a
  consistent index by program.
\<close>

theorem built_policy_well_formed:
  "builder_wf b \<Longrightarrow> policy_parse shlex_split try_join env calls err b = (r, b') \<Longrightarrow> policy_wf (build b')"
  by (auto simp: policy_parse_def Let_def policy_wf_def build_def policy_from_parts_def
      simp flip: builder_wf_def dest: eval_module_wf split: prod.splits sum.splits)

theorem built_policy_well_formed_witness:
  "policy_wf (build (snd (policy_parse (\<lambda>_. None) (\<lambda>_. None)
     \<lparr>home_dir = None, current_dir = Ok [RootDir]\<rparr> [ls_call] None policy_builder_new)))"
proof -
  have "builder_wf policy_builder_new"
    by (simp add: builder_wf_def policy_builder_new_def keyed_by_def)
  from built_policy_well_formed [OF this prod.collapse [symmetric]] show ?thesis .
qed

text \<open>
  A \<open>prefix_rule\<close> whose first pattern element lists alternatives stands for one rule per
  alternative: the rules it adds match exactly the commands whose first word is one of the
  alternatives and whose next words match the remaining elements.
\<close>

theorem prefix_rule_alternatives:
  "(\<exists>r \<in> set (prefix_rules_of t ts d j). rule_matches r cmd \<noteq> None) \<longleftrightarrow>
     (\<exists>head args. cmd = head # args \<and> head \<in> set (alternatives t) \<and> length ts \<le> length args \<and>
        list_all2 token_matches ts (take (length ts) args))"
  by (force simp: prefix_rules_of_def rule_matches_def matches_prefix_Some_iff)

text \<open>
  Amending the policy file with a rule keeps everything that was in it, makes the rule one of
  its lines, and doing it again changes nothing.
\<close>

theorem append_rule_idempotent:
  assumes "10 \<notin> set line" "strip_cr line = line" "append_rule_line io_ok contents line = (r, contents')"
  shows "r = Ok () \<and> prefix contents contents' \<and> line \<in> set (str_lines contents') \<and>
     append_rule_line io_ok contents' line = (Ok (), contents')"
proof -
  have again: "append_rule_line io_ok c line = (Ok (), c)" if "line \<in> set (str_lines c)" for c
    using that by (auto simp: append_rule_line_def append_locked_line_def io_ok_def list_ex_iff)
  show ?thesis
  proof (cases "line \<in> set (str_lines contents)")
    case True
    with again assms(3) show ?thesis by auto
  next
    case False
    define c where "c = (if contents \<noteq> [] \<and> \<not> ends_with [10] contents then contents @ [10] else contents)"
    have "r = Ok ()" and c': "contents' = c @ line @ [10]"
      using assms(3) False
      by (auto simp: append_rule_line_def append_locked_line_def write_rule_line_def io_ok_def
          list_ex_iff c_def split: if_splits)
    moreover have "c = [] \<or> last c = 10" by (auto simp: c_def ends_with_iff)
    ultimately show ?thesis
      using line_in_appended [OF assms(1,2)] again by (auto simp: c_def)
  qed
qed

theorem append_rule_idempotent_witness:
  "append_rule_line io_ok (lit ''a'' @ [10] @ lit ''rule'' @ [10]) (lit ''rule'') =
     (Ok (), lit ''a'' @ [10] @ lit ''rule'' @ [10])"
proof -
  have line: "10 \<notin> set (lit ''rule'')" "strip_cr (lit ''rule'') = lit ''rule''"
    by (simp_all add: str_simps)
  have "append_rule_line io_ok (lit ''a'') (lit ''rule'') =
      (Ok (), lit ''a'' @ [10] @ lit ''rule'' @ [10])"
    by (simp add: append_rule_line_def append_locked_line_def write_rule_line_def io_ok_def str_simps)
  from append_rule_idempotent [OF line this] show ?thesis by blast
qed

text \<open>
  A network rule written to the policy file reads back as the rule that was approved, when the
  stored host is a fixed point of the host normaliser.
\<close>

theorem network_rule_roundtrip:
  assumes "normalize_network_rule_host host = Ok host" "\<not> blank_justification j"
  shows "network_rule_builtin host (as_policy_string proto) (amend_decision_string d) j b =
     Ok (builder_add_network_rule b
       \<lparr>nr_host = host, nr_protocol = proto, nr_decision = d, nr_justification = j\<rparr>)"
  using assms
  by (cases proto; cases d)
    (simp_all add: network_rule_builtin_def parse_protocol_def parse_network_rule_decision_def
      parse_decision_def)

theorem network_rule_roundtrip_witness:
  "network_rule_builtin (lit ''example.com'') (lit ''https'') (lit ''deny'') None policy_builder_new =
     Ok (builder_add_network_rule policy_builder_new
       \<lparr>nr_host = lit ''example.com'', nr_protocol = Https, nr_decision = Forbidden, nr_justification = None\<rparr>)"
proof -
  have host: "normalize_network_rule_host (lit ''example.com'') = Ok (lit ''example.com'')"
    by (simp add: normalize_network_rule_host_def strip_host_port_def port_digits_def str_simps)
  have just: "\<not> blank_justification None" by (simp add: blank_justification_def)
  show ?thesis
    using network_rule_roundtrip [OF host just, of Https Forbidden policy_builder_new] by simp
qed

end
