(* ===== verification/Patch_Parser.thy ===== *)
theory Patch_Parser
  imports Prelude
begin

text \<open>
  The patch language of \<open>apply_patch\<close>: \<open>apply-patch/src/parser.rs\<close> (markers, hunks, boundary
  checks, strict and lenient mode) and \<open>apply-patch/src/streaming_parser.rs\<close> (the line machine
  that is fed text in arbitrary pieces). A hunk's \<open>PathBuf\<close> is kept as the text it was built
  from. The results: a text may be cut anywhere between two calls of \<open>push_delta\<close>; hunks that
  were reported stay as they are once the next one has begun; every update hunk of a finished
  patch has chunks and every chunk has lines; and the parser inverts a printer.
\<close>

section \<open>parser.rs: markers, errors, hunks\<close>

definition BEGIN_PATCH_MARKER :: ustr where "BEGIN_PATCH_MARKER = lit ''*** Begin Patch''"
definition END_PATCH_MARKER :: ustr where "END_PATCH_MARKER = lit ''*** End Patch''"
definition ADD_FILE_MARKER :: ustr where "ADD_FILE_MARKER = lit ''*** Add File: ''"
definition DELETE_FILE_MARKER :: ustr where "DELETE_FILE_MARKER = lit ''*** Delete File: ''"
definition UPDATE_FILE_MARKER :: ustr where "UPDATE_FILE_MARKER = lit ''*** Update File: ''"
definition MOVE_TO_MARKER :: ustr where "MOVE_TO_MARKER = lit ''*** Move to: ''"
definition EOF_MARKER :: ustr where "EOF_MARKER = lit ''*** End of File''"
definition CHANGE_CONTEXT_MARKER :: ustr where "CHANGE_CONTEXT_MARKER = lit ''@@ ''"
definition EMPTY_CHANGE_CONTEXT_MARKER :: ustr where "EMPTY_CHANGE_CONTEXT_MARKER = lit ''@@''"
definition ENVIRONMENT_ID_MARKER :: ustr where "ENVIRONMENT_ID_MARKER = lit ''*** Environment ID:''"

lemmas marker_defs =
  BEGIN_PATCH_MARKER_def END_PATCH_MARKER_def ADD_FILE_MARKER_def DELETE_FILE_MARKER_def
  UPDATE_FILE_MARKER_def MOVE_TO_MARKER_def EOF_MARKER_def CHANGE_CONTEXT_MARKER_def
  EMPTY_CHANGE_CONTEXT_MARKER_def ENVIRONMENT_ID_MARKER_def

datatype parse_error =
  InvalidPatchError ustr
| InvalidHunkError ustr nat

record update_file_chunk =
  change_context :: "ustr option"
  old_lines :: "ustr list"
  new_lines :: "ustr list"
  is_end_of_file :: bool

datatype hunk =
  AddFile ustr ustr
| DeleteFile ustr
| UpdateFile ustr "ustr option" "update_file_chunk list"

fun hunk_path :: "hunk \<Rightarrow> ustr" where
  "hunk_path (AddFile path _) = path"
| "hunk_path (DeleteFile path) = path"
| "hunk_path (UpdateFile _ (Some path) _) = path"
| "hunk_path (UpdateFile path None _) = path"

fun hunk_source_path :: "hunk \<Rightarrow> ustr" where
  "hunk_source_path (UpdateFile path _ _) = path"
| "hunk_source_path h = hunk_path h"

section \<open>streaming_parser.rs\<close>

datatype streaming_parser_mode =
  NotStarted | StartedPatch | AddFileMode | DeleteFileMode | UpdateFileMode nat | EndedPatch

record streaming_parser_state =
  mode :: streaming_parser_mode
  hunks :: "hunk list"
  environment_id :: "ustr option"

record streaming_patch_parser =
  line_buffer :: ustr
  state :: streaming_parser_state
  line_number :: nat

definition parser_default :: streaming_patch_parser where
  "parser_default =
     \<lparr>line_buffer = [], state = \<lparr>mode = NotStarted, hunks = [], environment_id = None\<rparr>, line_number = 0\<rparr>"

definition set_mode :: "streaming_parser_mode \<Rightarrow> streaming_patch_parser \<Rightarrow> streaming_patch_parser" where
  "set_mode m p = p\<lparr>state := (state p)\<lparr>mode := m\<rparr>\<rparr>"

definition set_hunks :: "hunk list \<Rightarrow> streaming_patch_parser \<Rightarrow> streaming_patch_parser" where
  "set_hunks hs p = p\<lparr>state := (state p)\<lparr>hunks := hs\<rparr>\<rparr>"

definition set_environment_id :: "ustr \<Rightarrow> streaming_patch_parser \<Rightarrow> streaming_patch_parser" where
  "set_environment_id e p = p\<lparr>state := (state p)\<lparr>environment_id := Some e\<rparr>\<rparr>"

text \<open>The messages of the source.\<close>

definition msg_first_line :: ustr where
  "msg_first_line = lit ''The first line of the patch must be '' @ [39] @ BEGIN_PATCH_MARKER @ [39]"

definition msg_last_line :: ustr where
  "msg_last_line = lit ''The last line of the patch must be '' @ [39] @ END_PATCH_MARKER @ [39]"

definition msg_empty_update :: "ustr \<Rightarrow> ustr" where
  "msg_empty_update path = lit ''Update file hunk for path '' @ [39] @ path @ [39] @ lit '' is empty''"

definition msg_no_lines :: ustr where
  "msg_no_lines = lit ''Update hunk does not contain any lines''"

definition msg_unexpected_line :: "ustr \<Rightarrow> ustr" where
  "msg_unexpected_line line = lit ''Unexpected line found in update hunk: '' @ [39] @ line @ [39] @
     lit ''. Every line should start with '' @ [39] @ lit '' '' @ [39] @ lit '' (context line), '' @
     [39] @ lit ''+'' @ [39] @ lit '' (added line), or '' @ [39] @ lit ''-'' @ [39] @ lit '' (removed line)''"

definition msg_expected_context :: "ustr \<Rightarrow> ustr" where
  "msg_expected_context line =
     lit ''Expected update hunk to start with a @@ context marker, got: '' @ [39] @ line @ [39]"

definition msg_bad_header :: "ustr \<Rightarrow> ustr" where
  "msg_bad_header trimmed = [39] @ trimmed @ [39] @ lit '' is not a valid hunk header. Valid hunk headers: '' @
     [39] @ lit ''*** Add File: {path}'' @ [39] @ lit '', '' @ [39] @ lit ''*** Delete File: {path}'' @ [39] @
     lit '', '' @ [39] @ lit ''*** Update File: {path}'' @ [39]"

definition chunk_blank :: "update_file_chunk \<Rightarrow> bool" where
  "chunk_blank c \<longleftrightarrow> old_lines c = [] \<and> new_lines c = []"

definition last_chunk :: "(update_file_chunk \<Rightarrow> bool) \<Rightarrow> update_file_chunk list \<Rightarrow> bool" where
  "last_chunk P chunks \<longleftrightarrow> chunks \<noteq> [] \<and> P (last chunks)"

definition last_hunk :: "streaming_patch_parser \<Rightarrow> hunk option" where
  "last_hunk p = (if hunks (state p) = [] then None else Some (last (hunks (state p))))"

definition ensure_update_hunk_is_not_empty :: "streaming_patch_parser \<Rightarrow> ustr \<Rightarrow> parse_error + unit" where
  "ensure_update_hunk_is_not_empty p line =
     (case last_hunk p of
        Some (UpdateFile path _ chunks) \<Rightarrow>
          (case (chunks, mode (state p)) of
             ([], UpdateFileMode hunk_line_number) \<Rightarrow> Err (InvalidHunkError (msg_empty_update path) hunk_line_number)
           | _ \<Rightarrow>
             if last_chunk chunk_blank chunks
             then if line = END_PATCH_MARKER then Err (InvalidHunkError msg_no_lines (line_number p))
                  else Err (InvalidHunkError (msg_unexpected_line line) (line_number p))
             else Ok ())
      | _ \<Rightarrow> Ok ())"

text \<open>
  \<open>handle_hunk_headers_and_end_patch\<close>: the environment line, the end marker and the three hunk
  headers. The flag says whether the line was consumed.
\<close>

definition handle_environment_id :: "streaming_patch_parser \<Rightarrow> ustr \<Rightarrow> parse_error + bool \<times> streaming_patch_parser" where
  "handle_environment_id p raw =
     (if environment_id (state p) \<noteq> None
      then Err (InvalidPatchError (lit ''apply_patch environment_id cannot be specified more than once''))
      else if trim raw = []
      then Err (InvalidPatchError (lit ''apply_patch environment_id cannot be empty''))
      else Ok (True, set_environment_id (trim raw) p))"

definition begin_hunk ::
  "streaming_patch_parser \<Rightarrow> ustr \<Rightarrow> hunk \<Rightarrow> streaming_parser_mode \<Rightarrow> parse_error + bool \<times> streaming_patch_parser" where
  "begin_hunk p trimmed h m =
     (case ensure_update_hunk_is_not_empty p trimmed of
        Inl e \<Rightarrow> Err e
      | Inr _ \<Rightarrow> Ok (True, set_mode m (set_hunks (hunks (state p) @ [h]) p)))"

definition handle_hunk_headers_and_end_patch ::
  "streaming_patch_parser \<Rightarrow> ustr \<Rightarrow> parse_error + bool \<times> streaming_patch_parser" where
  "handle_hunk_headers_and_end_patch p trimmed =
     (if mode (state p) = StartedPatch \<and> starts_with ENVIRONMENT_ID_MARKER trimmed
      then handle_environment_id p (drop (length ENVIRONMENT_ID_MARKER) trimmed)
      else if trimmed = END_PATCH_MARKER
      then (case ensure_update_hunk_is_not_empty p trimmed of
              Inl e \<Rightarrow> Err e
            | Inr _ \<Rightarrow> Ok (True, set_mode EndedPatch p))
      else case strip_prefix ADD_FILE_MARKER trimmed of
        Some path \<Rightarrow> begin_hunk p trimmed (AddFile path []) AddFileMode
      | None \<Rightarrow>
        (case strip_prefix DELETE_FILE_MARKER trimmed of
           Some path \<Rightarrow> begin_hunk p trimmed (DeleteFile path) DeleteFileMode
         | None \<Rightarrow>
           (case strip_prefix UPDATE_FILE_MARKER trimmed of
              Some path \<Rightarrow> begin_hunk p trimmed (UpdateFile path None []) (UpdateFileMode (line_number p))
            | None \<Rightarrow> Ok (False, p))))"

definition empty_chunk :: "ustr option \<Rightarrow> update_file_chunk" where
  "empty_chunk ctx = \<lparr>change_context = ctx, old_lines = [], new_lines = [], is_end_of_file = False\<rparr>"

definition push_line :: "bool \<Rightarrow> bool \<Rightarrow> ustr \<Rightarrow> update_file_chunk list \<Rightarrow> update_file_chunk list" where
  "push_line old new l chunks =
     update_last
       (\<lambda>c. c\<lparr>old_lines := (if old then old_lines c @ [l] else old_lines c),
             new_lines := (if new then new_lines c @ [l] else new_lines c)\<rparr>)
       (if chunks = [] then [empty_chunk None] else chunks)"

definition is_context_marker :: "ustr \<Rightarrow> bool" where
  "is_context_marker l \<longleftrightarrow> l = EMPTY_CHANGE_CONTEXT_MARKER \<or> starts_with CHANGE_CONTEXT_MARKER l"

text \<open>
  The body of \<open>process_line\<close> for \<open>StreamingParserMode::UpdateFile\<close>, on the \<open>move_path\<close> and the
  \<open>chunks\<close> of the last hunk.
\<close>

definition update_line_body ::
  "nat \<Rightarrow> ustr \<Rightarrow> ustr \<Rightarrow> ustr option \<Rightarrow> update_file_chunk list \<Rightarrow>
   parse_error + ustr option \<times> update_file_chunk list" where
  "update_line_body n line update_line move_path chunks =
     (if chunks = [] \<and> move_path = None \<and> starts_with MOVE_TO_MARKER update_line
      then Ok (Some (drop (length MOVE_TO_MARKER) update_line), chunks)
      else if is_context_marker update_line \<and> last_chunk chunk_blank chunks
      then Err (InvalidHunkError (msg_unexpected_line line) n)
      else if update_line = EMPTY_CHANGE_CONTEXT_MARKER
      then Ok (move_path, chunks @ [empty_chunk None])
      else if starts_with CHANGE_CONTEXT_MARKER update_line
      then Ok (move_path, chunks @ [empty_chunk (Some (drop (length CHANGE_CONTEXT_MARKER) update_line))])
      else if update_line = EOF_MARKER
      then (if last_chunk chunk_blank chunks then Err (InvalidHunkError msg_no_lines n)
            else Ok (move_path, update_last (\<lambda>c. c\<lparr>is_end_of_file := True\<rparr>) chunks))
      else case line of
        [] \<Rightarrow> Ok (move_path, push_line True True [] chunks)
      | c # l \<Rightarrow>
        if c = 32 then Ok (move_path, push_line True True l chunks)
        else if c = 43 then Ok (move_path, push_line False True l chunks)
        else if c = 45 then Ok (move_path, push_line True False l chunks)
        else if last_chunk (\<lambda>ch. \<not> chunk_blank ch) chunks
        then Err (InvalidHunkError (msg_expected_context line) n)
        else Err (InvalidHunkError (msg_unexpected_line line) n))"

definition update_line_step ::
  "nat \<Rightarrow> ustr \<Rightarrow> ustr \<Rightarrow> ustr option \<Rightarrow> update_file_chunk list \<Rightarrow>
   parse_error + ustr option \<times> update_file_chunk list" where
  "update_line_step n line update_line move_path chunks =
     (if last_chunk is_end_of_file chunks \<and> update_line = [] then Ok (move_path, chunks)
      else if last_chunk is_end_of_file chunks \<and> \<not> is_context_marker update_line
      then Err (InvalidHunkError (msg_expected_context line) n)
      else update_line_body n line update_line move_path chunks)"

definition process_add_line :: "streaming_patch_parser \<Rightarrow> ustr \<Rightarrow> parse_error + streaming_patch_parser" where
  "process_add_line p line =
     (case (line, last_hunk p) of
        (c # line_to_add, Some (AddFile path contents)) \<Rightarrow>
          if c = 43
          then Ok (set_hunks (update_last (\<lambda>_. AddFile path (contents @ line_to_add @ [newline])) (hunks (state p))) p)
          else Err (InvalidHunkError (msg_bad_header (trim line)) (line_number p))
      | _ \<Rightarrow> Err (InvalidHunkError (msg_bad_header (trim line)) (line_number p)))"

definition process_update_line :: "streaming_patch_parser \<Rightarrow> ustr \<Rightarrow> parse_error + streaming_patch_parser" where
  "process_update_line p line =
     (case last_hunk p of
        Some (UpdateFile path move_path chunks) \<Rightarrow>
          (case update_line_step (line_number p) line (trim_end line) move_path chunks of
             Inl e \<Rightarrow> Err e
           | Inr (move_path', chunks') \<Rightarrow>
               Ok (set_hunks (update_last (\<lambda>_. UpdateFile path move_path' chunks') (hunks (state p))) p))
      | _ \<Rightarrow> Err (InvalidHunkError (msg_unexpected_line line) (line_number p)))"

definition process_line :: "streaming_patch_parser \<Rightarrow> ustr \<Rightarrow> parse_error + streaming_patch_parser" where
  "process_line p line =
     (let trimmed = trim line;
          header = (\<lambda>l fallback.
            case handle_hunk_headers_and_end_patch p l of
              Inl e \<Rightarrow> Err e
            | Inr (True, p') \<Rightarrow> Ok p'
            | Inr (False, _) \<Rightarrow> fallback);
          bad_header = Err (InvalidHunkError (msg_bad_header trimmed) (line_number p))
      in case mode (state p) of
           NotStarted \<Rightarrow>
             if trimmed = BEGIN_PATCH_MARKER then Ok (set_mode StartedPatch p)
             else Err (InvalidPatchError msg_first_line)
         | StartedPatch \<Rightarrow> header trimmed bad_header
         | AddFileMode \<Rightarrow> header trimmed (process_add_line p line)
         | DeleteFileMode \<Rightarrow> header trimmed bad_header
         | UpdateFileMode _ \<Rightarrow> header (trim_end line) (process_update_line p line)
         | EndedPatch \<Rightarrow> if trimmed = [] then Ok p else Err (InvalidPatchError msg_last_line))"

text \<open>
  An error leaves the parser as it was before the failing line, with the line taken out of the
  buffer and counted.
\<close>

definition next_line :: "streaming_patch_parser \<Rightarrow> streaming_patch_parser" where
  "next_line p = p\<lparr>line_buffer := [], line_number := line_number p + 1\<rparr>"

fun push_chars :: "streaming_patch_parser \<Rightarrow> ustr \<Rightarrow> (parse_error + unit) \<times> streaming_patch_parser" where
  "push_chars p [] = (Ok (), p)"
| "push_chars p (ch # delta) =
     (if ch = newline
      then (case process_line (next_line p) (strip_cr (line_buffer p)) of
              Inl e \<Rightarrow> (Err e, next_line p)
            | Inr p' \<Rightarrow> push_chars p' delta)
      else push_chars (p\<lparr>line_buffer := line_buffer p @ [ch]\<rparr>) delta)"

definition push_delta ::
  "streaming_patch_parser \<Rightarrow> ustr \<Rightarrow> (parse_error + hunk list) \<times> streaming_patch_parser" where
  "push_delta p delta =
     (case push_chars p delta of
        (Inl e, p') \<Rightarrow> (Err e, p')
      | (Inr _, p') \<Rightarrow> (Ok (hunks (state p')), p'))"

definition finish_line :: "streaming_patch_parser \<Rightarrow> parse_error + streaming_patch_parser" where
  "finish_line p =
     (let line = line_buffer p; p1 = next_line p
      in if line = [] then Ok p
         else if trim line = END_PATCH_MARKER
         then (case ensure_update_hunk_is_not_empty p1 (trim line) of
                 Inl e \<Rightarrow> Err e
               | Inr _ \<Rightarrow> Ok (set_mode EndedPatch p1))
         else process_line p1 line)"

definition finish :: "streaming_patch_parser \<Rightarrow> (parse_error + hunk list) \<times> streaming_patch_parser" where
  "finish p =
     (case finish_line p of
        Inl e \<Rightarrow> (Err e, next_line p)
      | Inr p' \<Rightarrow>
        if mode (state p') \<noteq> EndedPatch then (Err (InvalidPatchError msg_last_line), p')
        else (Ok (hunks (state p')), p'))"

section \<open>parser.rs: parse_patch\<close>

record apply_patch_args =
  args_patch :: ustr
  args_hunks :: "hunk list"
  args_workdir :: "ustr option"
  args_environment_id :: "ustr option"

datatype parse_mode = Strict | Lenient

definition check_start_and_end_lines_strict :: "ustr option \<Rightarrow> ustr option \<Rightarrow> parse_error + unit" where
  "check_start_and_end_lines_strict first_line last_line =
     (case (map_option trim first_line, map_option trim last_line) of
        (Some f, l) \<Rightarrow>
          if f = BEGIN_PATCH_MARKER \<and> l = Some END_PATCH_MARKER then Ok ()
          else if f \<noteq> BEGIN_PATCH_MARKER then Err (InvalidPatchError msg_first_line)
          else Err (InvalidPatchError msg_last_line)
      | (None, _) \<Rightarrow> Err (InvalidPatchError msg_last_line))"

definition check_patch_boundaries_strict :: "ustr list \<Rightarrow> parse_error + ustr list" where
  "check_patch_boundaries_strict lines =
     (case (if lines = [] then check_start_and_end_lines_strict None None
            else check_start_and_end_lines_strict (Some (hd lines)) (Some (last lines))) of
        Inl e \<Rightarrow> Err e
      | Inr _ \<Rightarrow> Ok lines)"

definition is_heredoc_start :: "ustr \<Rightarrow> bool" where
  "is_heredoc_start l \<longleftrightarrow>
     l = lit ''<<EOF'' \<or> l = lit ''<<'' @ [39] @ lit ''EOF'' @ [39] \<or> l = lit ''<<'' @ [34] @ lit ''EOF'' @ [34]"

definition check_patch_boundaries_lenient :: "ustr list \<Rightarrow> parse_error + ustr list" where
  "check_patch_boundaries_lenient original_lines =
     (case check_patch_boundaries_strict original_lines of
        Inr lines \<Rightarrow> Ok lines
      | Inl original_parse_error \<Rightarrow>
        if 4 \<le> length original_lines \<and> is_heredoc_start (hd original_lines) \<and>
           ends_with (lit ''EOF'') (last original_lines)
        then check_patch_boundaries_strict (butlast (tl original_lines))
        else Err original_parse_error)"

definition parse_patch_text :: "ustr \<Rightarrow> parse_mode \<Rightarrow> parse_error + apply_patch_args" where
  "parse_patch_text patch m =
     (let lines = str_lines (trim patch)
      in case (case m of Strict \<Rightarrow> check_patch_boundaries_strict lines
                       | Lenient \<Rightarrow> check_patch_boundaries_lenient lines) of
           Inl e \<Rightarrow> Err e
         | Inr patch_lines \<Rightarrow>
           (let patch = join [newline] patch_lines
            in case push_delta parser_default patch of
                 (Inl e, _) \<Rightarrow> Err e
               | (Inr _, p) \<Rightarrow>
                 (case finish p of
                    (Inl e, _) \<Rightarrow> Err e
                  | (Inr hs, p') \<Rightarrow>
                      Ok \<lparr>args_patch = patch, args_hunks = hs, args_workdir = None,
                          args_environment_id = environment_id (state p')\<rparr>)))"

definition PARSE_IN_STRICT_MODE :: bool where "PARSE_IN_STRICT_MODE = False"

definition parse_patch :: "ustr \<Rightarrow> parse_error + apply_patch_args" where
  "parse_patch patch = parse_patch_text patch (if PARSE_IN_STRICT_MODE then Strict else Lenient)"

section \<open>Cutting the input\<close>

lemmas parser_update_defs = set_mode_def set_hunks_def set_environment_id_def next_line_def

lemma push_chars_append:
  "push_chars p (a @ b) =
     (case push_chars p a of (Inl e, p') \<Rightarrow> (Err e, p') | (Inr _, p') \<Rightarrow> push_chars p' b)"
  by (induction p a rule: push_chars.induct) (auto split: sum.splits)

text \<open>
  The pieces in which a patch arrives do not matter: pushing one text after another gives the
  result, the error and the parser state of pushing both at once, and nothing is read after an
  error.
\<close>

theorem push_delta_pieces:
  "push_delta p (a @ b) =
     (case push_delta p a of (Inl e, p') \<Rightarrow> (Err e, p') | (Inr _, p') \<Rightarrow> push_delta p' b)"
  by (auto simp: push_delta_def push_chars_append split: sum.splits prod.splits)

section \<open>What a line does to the hunks\<close>

text \<open>
  A line leaves the hunks as they are, begins a new one, or changes the last one without changing
  the file it is about.
\<close>

definition hunks_grow :: "hunk list \<Rightarrow> hunk list \<Rightarrow> bool" where
  "hunks_grow hs hs' \<longleftrightarrow>
     prefix (butlast hs) (butlast hs') \<and> prefix (map hunk_source_path hs) (map hunk_source_path hs')"

lemma hunks_grow_refl [simp, intro!]: "hunks_grow hs hs"
  by (simp add: hunks_grow_def)

lemma hunks_grow_trans: "hunks_grow a b \<Longrightarrow> hunks_grow b c \<Longrightarrow> hunks_grow a c"
  by (auto simp: hunks_grow_def intro: prefix_order.trans)

lemma hunks_grow_snoc: "hunks_grow hs (hs @ [h])"
  by (simp add: hunks_grow_def prefixeq_butlast)

lemma hunks_grow_update:
  assumes "hs \<noteq> [] \<Longrightarrow> hunk_source_path (f (last hs)) = hunk_source_path (last hs)"
  shows "hunks_grow hs (update_last f hs)"
proof (cases hs rule: rev_cases)
  case (snoc ys y)
  with assms show ?thesis by (simp add: hunks_grow_def)
qed simp

lemma last_hunk_SomeD: "last_hunk p = Some h \<Longrightarrow> hunks (state p) \<noteq> [] \<and> last (hunks (state p)) = h"
  by (auto simp: last_hunk_def split: if_splits)

lemma begin_hunk_Ok:
  "begin_hunk p l h m = Inr (b, p') \<longleftrightarrow>
     b \<and> ensure_update_hunk_is_not_empty p l = Ok () \<and> p' = set_mode m (set_hunks (hunks (state p) @ [h]) p)"
  by (auto simp: begin_hunk_def split: sum.splits)

lemma handle_environment_id_Ok:
  "handle_environment_id p raw = Inr (b, p') \<longleftrightarrow>
     b \<and> environment_id (state p) = None \<and> trim raw \<noteq> [] \<and> p' = set_environment_id (trim raw) p"
  by (auto simp: handle_environment_id_def)

lemma handle_headers_cases:
  assumes "handle_hunk_headers_and_end_patch p l = Inr (b, p')"
  obtains (env) e where "b" "mode (state p) = StartedPatch" "p' = set_environment_id e p" "e \<noteq> []"
  | (ended) "b" "l = END_PATCH_MARKER" "ensure_update_hunk_is_not_empty p l = Ok ()" "p' = set_mode EndedPatch p"
  | (hunk) h m where "b" "ensure_update_hunk_is_not_empty p l = Ok ()"
      "p' = set_mode m (set_hunks (hunks (state p) @ [h]) p)"
      "(\<exists>path. h = AddFile path [] \<and> m = AddFileMode) \<or> (\<exists>path. h = DeleteFile path \<and> m = DeleteFileMode) \<or>
       (\<exists>path. h = UpdateFile path None [] \<and> m = UpdateFileMode (line_number p))"
  | (other) "\<not> b" "p' = p"
proof (cases "mode (state p) = StartedPatch \<and> starts_with ENVIRONMENT_ID_MARKER l")
  case True
  with assms env show thesis
    by (simp add: handle_hunk_headers_and_end_patch_def handle_environment_id_Ok)
next
  case False
  note nenv = this
  show thesis
  proof (cases "l = END_PATCH_MARKER")
    case True
    with assms nenv ended show thesis
      by (auto simp: handle_hunk_headers_and_end_patch_def split: sum.splits)
  next
    case False
    with assms nenv show thesis
      by (auto simp: handle_hunk_headers_and_end_patch_def begin_hunk_Ok split: option.splits
          intro: hunk other)
  qed
qed

lemma process_add_line_cases:
  assumes "process_add_line p l = Inr p'"
  obtains path contents l' where "last_hunk p = Some (AddFile path contents)"
    "p' = set_hunks (update_last (\<lambda>_. AddFile path (contents @ l' @ [10])) (hunks (state p))) p"
  using assms by (auto simp: process_add_line_def split: list.splits option.splits hunk.splits if_splits)

lemma process_update_line_cases:
  assumes "process_update_line p l = Inr p'"
  obtains path mv chunks mv' chunks' where "last_hunk p = Some (UpdateFile path mv chunks)"
    "update_line_step (line_number p) l (trim_end l) mv chunks = Inr (mv', chunks')"
    "p' = set_hunks (update_last (\<lambda>_. UpdateFile path mv' chunks') (hunks (state p))) p"
  using assms by (auto simp: process_update_line_def split: list.splits option.splits hunk.splits sum.splits)

lemma process_line_cases:
  assumes "process_line p l = Inr p'"
  obtains (started) "mode (state p) = NotStarted" "p' = set_mode StartedPatch p"
  | (header) t where "mode (state p) \<noteq> NotStarted" "mode (state p) \<noteq> EndedPatch"
      "handle_hunk_headers_and_end_patch p t = Inr (True, p')"
  | (add) "mode (state p) = AddFileMode" "process_add_line p l = Inr p'"
  | (update) n where "mode (state p) = UpdateFileMode n" "process_update_line p l = Inr p'"
  | (ended) "mode (state p) = EndedPatch" "p' = p"
  using assms
  by (auto simp: process_line_def Let_def split: streaming_parser_mode.splits if_splits sum.splits
      prod.splits bool.splits)

lemma process_line_hunks_grow:
  assumes "process_line p l = Inr p'"
  shows "hunks_grow (hunks (state p)) (hunks (state p'))"
  using assms
proof (cases rule: process_line_cases)
  case (header t)
  from header(3) show ?thesis
    by (cases rule: handle_headers_cases) (auto simp: parser_update_defs hunks_grow_snoc)
next
  case add
  from add(2) show ?thesis
    by (cases rule: process_add_line_cases)
      (auto simp: parser_update_defs dest!: last_hunk_SomeD intro!: hunks_grow_update)
next
  case (update n)
  from update(2) show ?thesis
    by (cases rule: process_update_line_cases)
      (auto simp: parser_update_defs dest!: last_hunk_SomeD intro!: hunks_grow_update)
qed (auto simp: parser_update_defs)

lemma push_chars_hunks_grow:
  "push_chars p d = (r, p') \<Longrightarrow> hunks_grow (hunks (state p)) (hunks (state p'))"
proof (induction p d rule: push_chars.induct)
  case (2 p ch d)
  show ?case
  proof (cases "ch = 10")
    case True
    show ?thesis
    proof (cases "process_line (next_line p) (strip_cr (line_buffer p))")
      case (Inl e)
      with 2(3) True show ?thesis by (auto simp: next_line_def)
    next
      case (Inr p1)
      from process_line_hunks_grow [OF this]
      have "hunks_grow (hunks (state p)) (hunks (state p1))" by (simp add: next_line_def)
      moreover from 2(1) [OF True Inr] 2(3) True Inr
      have "hunks_grow (hunks (state p1)) (hunks (state p'))" by simp
      ultimately show ?thesis by (rule hunks_grow_trans)
    qed
  next
    case False
    with 2 show ?thesis by simp
  qed
qed simp

lemma finish_line_hunks_grow:
  assumes "finish_line p = Inr p'"
  shows "hunks_grow (hunks (state p)) (hunks (state p'))"
proof -
  have "state (next_line p) = state p" by (simp add: next_line_def)
  with assms process_line_hunks_grow [of "next_line p" "line_buffer p" p'] show ?thesis
    by (auto simp: finish_line_def Let_def set_mode_def split: if_splits sum.splits)
qed

text \<open>
  A hunk that was reported while the patch was streaming is final once the next one has begun,
  and the file a hunk is about never changes: the hunks reported later, and those of the finished
  patch, extend what was reported.
\<close>

theorem streamed_hunks_stable:
  assumes "push_delta p a = (Ok hs, p1)"
    and "push_delta p1 b = (Ok hs', p2) \<or> finish p1 = (Ok hs', p2)"
  shows "prefix (butlast hs) hs' \<and> prefix (map hunk_source_path hs) (map hunk_source_path hs')"
proof -
  have hs: "hs = hunks (state p1)"
    using assms(1) by (auto simp: push_delta_def split: prod.splits sum.splits)
  have "hunks_grow hs hs'"
    using assms(2)
  proof
    assume "push_delta p1 b = (Ok hs', p2)"
    then show ?thesis
      unfolding hs by (auto simp: push_delta_def split: prod.splits sum.splits dest: push_chars_hunks_grow)
  next
    assume "finish p1 = (Ok hs', p2)"
    then show ?thesis
      unfolding hs by (auto simp: finish_def split: sum.splits if_splits dest: finish_line_hunks_grow)
  qed
  then show ?thesis
    by (auto simp: hunks_grow_def intro: prefix_order.trans [OF _ prefixeq_butlast])
qed

theorem streamed_hunks_stable_witness:
  "let a = lit ''*** Begin Patch'' @ [10] @ lit ''*** Delete File: a'' @ [10] @ lit ''*** Delete File: b'' @ [10];
       p1 = snd (push_delta parser_default a); hs' = [DeleteFile (lit ''a''), DeleteFile (lit ''b'')]
   in fst (push_delta p1 (lit ''*** End Patch'' @ [10])) = Ok hs' \<and> prefix [DeleteFile (lit ''a'')] hs'"
proof -
  let ?a = "lit ''*** Begin Patch'' @ [10] @ lit ''*** Delete File: a'' @ [10] @ lit ''*** Delete File: b'' @ [10]"
  let ?b = "lit ''*** End Patch'' @ [10]"
  let ?hs = "[DeleteFile (lit ''a''), DeleteFile (lit ''b'')]"
  let ?p1 = "snd (push_delta parser_default ?a)"
  note ev = push_delta_def parser_default_def process_line_def parser_update_defs marker_defs str_simps
    handle_hunk_headers_and_end_patch_def begin_hunk_def ensure_update_hunk_is_not_empty_def last_hunk_def
  have 1: "push_delta parser_default ?a = (Ok ?hs, ?p1)"
    by (simp add: ev)
  have 2: "push_delta ?p1 ?b = (Ok ?hs, snd (push_delta ?p1 ?b))"
    by (simp add: ev)
  have "prefix [DeleteFile (lit ''a'')] ?hs"
    using streamed_hunks_stable [OF 1 disjI1 [OF 2]] by simp
  with arg_cong [OF 2, of fst, unfolded fst_conv] show ?thesis
    unfolding Let_def by (rule conjI)
qed

section \<open>Finished hunks\<close>

definition hunk_complete :: "hunk \<Rightarrow> bool" where
  "hunk_complete h \<longleftrightarrow>
     (case h of
        UpdateFile _ _ chunks \<Rightarrow> chunks \<noteq> [] \<and> (\<forall>c \<in> set chunks. \<not> chunk_blank c)
      | AddFile _ contents \<Rightarrow> contents = [] \<or> last contents = newline
      | DeleteFile _ \<Rightarrow> True)"

text \<open>
  The invariant of the line machine: every hunk but the last is complete, the last one is too
  unless it is an update hunk in progress, where only the last chunk may still lack lines.
\<close>

definition parser_wf :: "streaming_patch_parser \<Rightarrow> bool" where
  "parser_wf p \<longleftrightarrow>
     (case mode (state p) of
        NotStarted \<Rightarrow> hunks (state p) = []
      | UpdateFileMode _ \<Rightarrow>
          (\<forall>h \<in> set (butlast (hunks (state p))). hunk_complete h) \<and>
          (\<exists>path mv chunks. last_hunk p = Some (UpdateFile path mv chunks) \<and>
             (\<forall>c \<in> set (butlast chunks). \<not> chunk_blank c))
      | _ \<Rightarrow> \<forall>h \<in> set (hunks (state p)). hunk_complete h) \<and>
     (case environment_id (state p) of None \<Rightarrow> True | Some e \<Rightarrow> e \<noteq> [])"

lemma set_butlast_last: "xs \<noteq> [] \<Longrightarrow> set xs = insert (last xs) (set (butlast xs))"
  by (induction xs rule: rev_induct) auto

lemma ensure_completes:
  assumes "parser_wf p" "ensure_update_hunk_is_not_empty p l = Ok ()" "mode (state p) \<noteq> NotStarted"
  shows "\<forall>h \<in> set (hunks (state p)). hunk_complete h"
proof (cases "\<exists>n. mode (state p) = UpdateFileMode n")
  case False
  with assms show ?thesis by (auto simp: parser_wf_def split: streaming_parser_mode.splits)
next
  case True
  then obtain n where m: "mode (state p) = UpdateFileMode n" by blast
  with assms(1) obtain path mv chunks where l: "last_hunk p = Some (UpdateFile path mv chunks)"
    and b: "\<forall>c \<in> set (butlast chunks). \<not> chunk_blank c"
    and hs: "\<forall>h \<in> set (butlast (hunks (state p))). hunk_complete h"
    by (auto simp: parser_wf_def)
  from assms(2) l m have "chunks \<noteq> []" "\<not> chunk_blank (last chunks)"
    by (auto simp: ensure_update_hunk_is_not_empty_def last_chunk_def split: list.splits if_splits)
  with b have "hunk_complete (UpdateFile path mv chunks)"
    by (simp add: hunk_complete_def set_butlast_last)
  with hs last_hunk_SomeD [OF l] show ?thesis by (simp add: set_butlast_last)
qed

lemma update_line_step_blank:
  assumes "update_line_step n line ul mv chunks = Inr (mv', chunks')"
    and "\<forall>c \<in> set (butlast chunks). \<not> chunk_blank c"
  shows "\<forall>c \<in> set (butlast chunks'). \<not> chunk_blank c"
proof -
  have snoc: "\<forall>c \<in> set (butlast (chunks @ [c0])). \<not> chunk_blank c" if "\<not> last_chunk chunk_blank chunks" for c0
    using that assms(2) by (cases "chunks = []") (auto simp: last_chunk_def set_butlast_last)
  have push: "\<forall>c \<in> set (butlast (push_line a b l chunks)). \<not> chunk_blank c" for a b l
    using assms(2) by (simp add: push_line_def)
  from assms show ?thesis
    using snoc push
    by (auto simp: update_line_step_def update_line_body_def is_context_marker_def
        split: if_splits list.splits)
qed

lemma parser_wf_update_last:
  assumes "parser_wf p" "mode (state p) = UpdateFileMode n" "last_hunk p = Some (UpdateFile path mv chunks)"
    "\<forall>c \<in> set (butlast chunks'). \<not> chunk_blank c"
  shows "parser_wf (set_hunks (update_last (\<lambda>_. UpdateFile path mv' chunks') (hunks (state p))) p)"
  using assms
  by (auto simp: parser_wf_def parser_update_defs last_hunk_def last_update_last split: if_splits)

lemma process_line_wf:
  assumes "process_line p l = Inr p'" "parser_wf p"
  shows "parser_wf p'"
  using assms(1)
proof (cases rule: process_line_cases)
  case started
  with assms(2) show ?thesis by (auto simp: parser_wf_def parser_update_defs)
next
  case (header t)
  from header(3) show ?thesis
  proof (cases rule: handle_headers_cases)
    case (env e)
    with assms(2) show ?thesis by (auto simp: parser_wf_def parser_update_defs)
  next
    case ended
    from ensure_completes [OF assms(2) ended(3) header(1)] ended(4) assms(2) show ?thesis
      by (auto simp: parser_wf_def parser_update_defs)
  next
    case (hunk h m)
    from ensure_completes [OF assms(2) hunk(2) header(1)] hunk(3,4) assms(2) show ?thesis
      by (auto simp: parser_wf_def parser_update_defs hunk_complete_def last_hunk_def)
  qed auto
next
  case add
  from add(2) show ?thesis
  proof (cases rule: process_add_line_cases)
    case (1 path contents l')
    have "\<forall>h \<in> set (hunks (state p)). hunk_complete h" using assms(2) add(1) by (auto simp: parser_wf_def)
    then have "\<forall>h \<in> set (update_last (\<lambda>_. AddFile path (contents @ l' @ [10])) (hunks (state p))). hunk_complete h"
      by (auto simp: update_last_def hunk_complete_def dest: in_set_butlastD)
    with 1 add(1) assms(2) show ?thesis by (auto simp: parser_wf_def parser_update_defs)
  qed
next
  case (update n)
  from update(2) show ?thesis
  proof (cases rule: process_update_line_cases)
    case (1 path mv chunks mv' chunks')
    with assms(2) update(1) have "\<forall>c \<in> set (butlast chunks). \<not> chunk_blank c" by (auto simp: parser_wf_def)
    from update_line_step_blank [OF 1(2) this] parser_wf_update_last [OF assms(2) update(1) 1(1)] 1(3)
    show ?thesis by simp
  qed
next
  case ended
  with assms(2) show ?thesis by simp
qed

lemma parser_wf_state: "state p = state q \<Longrightarrow> parser_wf p \<longleftrightarrow> parser_wf q"
  by (cases "mode (state q)") (simp_all add: parser_wf_def last_hunk_def)

lemma parser_wf_next_line [simp]: "parser_wf (next_line p) \<longleftrightarrow> parser_wf p"
  by (rule parser_wf_state) (simp add: next_line_def)

lemma push_chars_wf: "push_chars p d = (r, p') \<Longrightarrow> parser_wf p \<Longrightarrow> parser_wf p'"
proof (induction p d rule: push_chars.induct)
  case (2 p ch d)
  have "parser_wf (p\<lparr>line_buffer := line_buffer p @ [ch]\<rparr>)"
    using 2(4) parser_wf_state [of "p\<lparr>line_buffer := line_buffer p @ [ch]\<rparr>" p] by simp
  with 2 show ?case by (auto split: if_splits sum.splits dest: process_line_wf)
qed simp

lemma parser_default_wf: "parser_wf parser_default"
  by (simp add: parser_wf_def parser_default_def)

lemma finish_line_wf:
  assumes "finish_line p = Inr p'" "parser_wf p"
  shows "parser_wf p'"
proof (cases "line_buffer p \<noteq> [] \<and> trim (line_buffer p) = END_PATCH_MARKER")
  case False
  with assms show ?thesis by (auto simp: finish_line_def Let_def split: if_splits dest: process_line_wf)
next
  case True
  with assms(1) have e: "ensure_update_hunk_is_not_empty (next_line p) (trim (line_buffer p)) = Ok ()"
    and p': "p' = set_mode EndedPatch (next_line p)"
    by (auto simp: finish_line_def Let_def split: sum.splits)
  have "parser_wf (next_line p)" using assms(2) by simp
  from ensure_completes [OF this e] this p' show ?thesis
    by (cases "mode (state p)") (auto simp: parser_wf_def parser_update_defs)
qed

text \<open>
  Every update hunk of a finished patch has at least one chunk, every chunk of it adds, removes
  or keeps at least one line, every added file is empty or ends with a newline, and a named
  environment is not empty; whatever the pieces were in which the patch was read.
\<close>

theorem finished_hunks_complete:
  assumes "push_delta parser_default text = (Ok hs0, p)" "finish p = (Ok hs, p')"
  shows "(\<forall>h \<in> set hs. hunk_complete h) \<and> environment_id (state p') \<noteq> Some []"
proof -
  have "parser_wf p"
    using assms(1) by (auto simp: push_delta_def split: prod.splits sum.splits
        dest: push_chars_wf [OF _ parser_default_wf])
  then have "parser_wf p'" "mode (state p') = EndedPatch" "hs = hunks (state p')"
    using assms(2) by (auto simp: finish_def split: sum.splits if_splits dest: finish_line_wf)
  then show ?thesis by (auto simp: parser_wf_def)
qed

theorem finished_hunks_complete_witness:
  "let t = lit ''*** Begin Patch'' @ [10] @ lit ''*** Update File: a'' @ [10] @ lit ''@@'' @ [10] @ lit ''-x'' @ [10] @ lit ''*** End Patch'';
       r = fst (finish (snd (push_delta parser_default t)))
   in r = Ok [UpdateFile (lit ''a'') None [\<lparr>change_context = None, old_lines = [lit ''x''], new_lines = [], is_end_of_file = False\<rparr>]] \<and>
      (\<forall>h \<in> set (projr r). hunk_complete h)"
proof -
  let ?t = "lit ''*** Begin Patch'' @ [10] @ lit ''*** Update File: a'' @ [10] @ lit ''@@'' @ [10] @ lit ''-x'' @ [10] @ lit ''*** End Patch''"
  let ?p = "snd (push_delta parser_default ?t)"
  let ?hs = "[UpdateFile (lit ''a'') None [\<lparr>change_context = None, old_lines = [lit ''x''], new_lines = [], is_end_of_file = False\<rparr>]]"
  note ev = push_delta_def parser_default_def process_line_def parser_update_defs marker_defs str_simps
    handle_hunk_headers_and_end_patch_def begin_hunk_def ensure_update_hunk_is_not_empty_def last_hunk_def
    process_update_line_def update_line_step_def update_line_body_def last_chunk_def is_context_marker_def
    push_line_def empty_chunk_def update_last_def chunk_blank_def finish_def finish_line_def
  have 1: "push_delta parser_default ?t = (Ok ?hs, ?p)"
    by (simp add: ev)
  have 2: "finish ?p = (Ok ?hs, snd (finish ?p))"
    by (simp add: ev)
  have r: "fst (finish ?p) = Ok ?hs" by (rule arg_cong [OF 2, of fst, unfolded fst_conv])
  have "\<forall>h \<in> set ?hs. hunk_complete h" using finished_hunks_complete [OF 1 2] by blast
  then show ?thesis unfolding Let_def r by simp
qed

section \<open>Printing a patch and reading it back\<close>

text \<open>
  A printer for hunks. Paths and contexts are printable when they are not empty, lie on one line
  and do not end in whitespace; lines are printable when they hold no newline and do not end in a
  carriage return.
\<close>

definition text_ok :: "ustr \<Rightarrow> bool" where
  "text_ok s \<longleftrightarrow> s \<noteq> [] \<and> \<not> is_whitespace (last s) \<and> newline \<notin> set s"

definition line_ok :: "ustr \<Rightarrow> bool" where
  "line_ok l \<longleftrightarrow> newline \<notin> set l \<and> (l = [] \<or> last l \<noteq> carriage_return)"

definition print_chunk :: "update_file_chunk \<Rightarrow> ustr list" where
  "print_chunk c =
     (case change_context c of None \<Rightarrow> EMPTY_CHANGE_CONTEXT_MARKER | Some ctx \<Rightarrow> CHANGE_CONTEXT_MARKER @ ctx) #
     map (Cons 45) (old_lines c) @ map (Cons 43) (new_lines c) @ (if is_end_of_file c then [EOF_MARKER] else [])"

fun print_hunk :: "hunk \<Rightarrow> ustr list" where
  "print_hunk (AddFile path contents) =
     (ADD_FILE_MARKER @ path) # map (Cons 43) (butlast (split_char newline contents))"
| "print_hunk (DeleteFile path) = [DELETE_FILE_MARKER @ path]"
| "print_hunk (UpdateFile path mv chunks) =
     (UPDATE_FILE_MARKER @ path) # (case mv of None \<Rightarrow> [] | Some m \<Rightarrow> [MOVE_TO_MARKER @ m]) @
     concat (map print_chunk chunks)"

definition print_patch :: "hunk list \<Rightarrow> ustr" where
  "print_patch hs = join [newline] (BEGIN_PATCH_MARKER # concat (map print_hunk hs) @ [END_PATCH_MARKER])"

definition printable_chunk :: "update_file_chunk \<Rightarrow> bool" where
  "printable_chunk c \<longleftrightarrow>
     (case change_context c of None \<Rightarrow> True | Some ctx \<Rightarrow> text_ok ctx) \<and> \<not> chunk_blank c \<and>
     list_all line_ok (old_lines c) \<and> list_all line_ok (new_lines c)"

fun printable_hunk :: "hunk \<Rightarrow> bool" where
  "printable_hunk (AddFile path contents) \<longleftrightarrow>
     text_ok path \<and> last (split_char newline contents) = [] \<and> list_all line_ok (split_char newline contents)"
| "printable_hunk (DeleteFile path) \<longleftrightarrow> text_ok path"
| "printable_hunk (UpdateFile path mv chunks) \<longleftrightarrow>
     text_ok path \<and> (case mv of None \<Rightarrow> True | Some m \<Rightarrow> text_ok m) \<and> chunks \<noteq> [] \<and> list_all printable_chunk chunks"

text \<open>The line machine on a list of lines.\<close>

fun run_lines :: "streaming_patch_parser \<Rightarrow> ustr list \<Rightarrow> parse_error + streaming_patch_parser" where
  "run_lines p [] = Ok p"
| "run_lines p (l # ls) =
     (case process_line (next_line p) l of Inl e \<Rightarrow> Err e | Inr p' \<Rightarrow> run_lines p' ls)"

lemma run_lines_append:
  "run_lines p (ls @ ls') = (case run_lines p ls of Inl e \<Rightarrow> Err e | Inr p' \<Rightarrow> run_lines p' ls')"
  by (induction p ls rule: run_lines.induct) (auto split: sum.splits)

lemma process_line_buffer:
  assumes "process_line p l = Inr p'"
  shows "line_buffer p' = line_buffer p"
  using assms
proof (cases rule: process_line_cases)
  case (header t)
  from header(3) show ?thesis by (cases rule: handle_headers_cases) (simp_all add: parser_update_defs)
next
  case add
  from add(2) show ?thesis by (cases rule: process_add_line_cases) (simp add: parser_update_defs)
next
  case (update n)
  from update(2) show ?thesis by (cases rule: process_update_line_cases) (simp add: parser_update_defs)
qed (simp_all add: parser_update_defs)

lemma push_chars_no_newline:
  "10 \<notin> set s \<Longrightarrow> push_chars p s = (Ok (), p\<lparr>line_buffer := line_buffer p @ s\<rparr>)"
  by (induction s arbitrary: p) auto

lemma push_chars_line:
  assumes "line_buffer p = []" "10 \<notin> set l"
  shows "push_chars p (l @ [10]) =
     (case process_line (next_line p) (strip_cr l) of Inl e \<Rightarrow> (Err e, next_line p) | Inr p' \<Rightarrow> (Ok (), p'))"
  using assms by (simp add: push_chars_append push_chars_no_newline next_line_def split: sum.splits)

lemma push_chars_lines:
  assumes "line_buffer p = []" "\<forall>l \<in> set ls. 10 \<notin> set l \<and> strip_cr l = l" "run_lines p ls = Inr p'"
  shows "push_chars p (concat (map (\<lambda>l. l @ [10]) ls)) = (Ok (), p') \<and> line_buffer p' = []"
  using assms
proof (induction ls arbitrary: p)
  case (Cons l ls)
  from Cons.prems(3) obtain p1 where p1: "process_line (next_line p) l = Inr p1" "run_lines p1 ls = Inr p'"
    by (auto split: sum.splits)
  have "line_buffer p1 = []" using process_line_buffer [OF p1(1)] by (simp add: next_line_def)
  with Cons.IH [OF _ _ p1(2)] Cons.prems(2)
  have rest: "push_chars p1 (concat (map (\<lambda>l. l @ [10]) ls)) = (Ok (), p') \<and> line_buffer p' = []" by simp
  have "push_chars p (l @ [10]) = (Ok (), p1)"
    using push_chars_line [of p l] Cons.prems(1,2) p1(1) by simp
  then have "push_chars p ((l @ [10]) @ concat (map (\<lambda>l. l @ [10]) ls)) = (Ok (), p')"
    using rest by (subst push_chars_append) simp
  with rest show ?case by simp
qed simp

lemma ensure_complete:
  assumes "\<forall>h \<in> set (hunks (state p)). hunk_complete h"
  shows "ensure_update_hunk_is_not_empty p l = Ok ()"
proof (cases "last_hunk p")
  case (Some h)
  then have "h \<in> set (hunks (state p))" using last_hunk_SomeD [of p h] by auto
  with assms have "hunk_complete h" by blast
  with Some show ?thesis
    by (auto simp: ensure_update_hunk_is_not_empty_def hunk_complete_def last_chunk_def
        split: hunk.splits list.splits)
qed (simp add: ensure_update_hunk_is_not_empty_def)

lemma text_ok_trim: "text_ok s \<Longrightarrow> trim_end (a @ s) = a @ s"
  by (simp add: text_ok_def trim_end_no_ws)

lemma trim_of_trim_end: "s = [] \<or> \<not> is_whitespace (hd s) \<Longrightarrow> trim s = trim_end s"
  by (simp add: trim_def trim_start_no_ws)

text \<open>Between two hunks: the hunks so far are complete and a header may follow.\<close>

definition between :: "streaming_patch_parser \<Rightarrow> hunk list \<Rightarrow> bool" where
  "between p hs \<longleftrightarrow> hunks (state p) = hs \<and> (\<forall>h \<in> set hs. hunk_complete h) \<and> environment_id (state p) = None \<and>
     mode (state p) \<noteq> NotStarted \<and> mode (state p) \<noteq> EndedPatch"

definition updating :: "streaming_patch_parser \<Rightarrow> hunk list \<Rightarrow> ustr \<Rightarrow> ustr option \<Rightarrow> update_file_chunk list \<Rightarrow> bool" where
  "updating p hs path mv chunks \<longleftrightarrow> hunks (state p) = hs @ [UpdateFile path mv chunks] \<and>
     environment_id (state p) = None \<and> (\<exists>n. mode (state p) = UpdateFileMode n)"

lemma between_next_line [simp]: "between (next_line p) hs = between p hs"
  by (simp add: between_def next_line_def)

lemma process_line_header:
  assumes "between p hs" "text_ok t" "l = a @ t" "a \<noteq> [] \<Longrightarrow> \<not> is_whitespace (hd a)" "a \<noteq> []"
    "handle_hunk_headers_and_end_patch p l = Inr (True, p')"
  shows "process_line p l = Inr p'"
proof -
  have "trim_end l = l" "trim l = l"
    using assms(2-5) by (auto simp: text_ok_trim trim_of_trim_end)
  with assms(1,6) show ?thesis
    by (cases "mode (state p)") (simp_all add: process_line_def between_def Let_def)
qed

lemma header_lines:
  assumes "between p hs" "text_ok path"
  shows
    "process_line p (ADD_FILE_MARKER @ path) = Inr (set_mode AddFileMode (set_hunks (hs @ [AddFile path []]) p))"
    "process_line p (DELETE_FILE_MARKER @ path) = Inr (set_mode DeleteFileMode (set_hunks (hs @ [DeleteFile path]) p))"
    "process_line p (UPDATE_FILE_MARKER @ path) =
       Inr (set_mode (UpdateFileMode (line_number p)) (set_hunks (hs @ [UpdateFile path None []]) p))"
proof -
  have e: "ensure_update_hunk_is_not_empty p l = Ok ()" "hunks (state p) = hs" for l
    using assms(1) ensure_complete [of p l] by (simp_all add: between_def)
  have ws: "\<not> is_whitespace 42" by (simp add: is_whitespace_def)
  show "process_line p (ADD_FILE_MARKER @ path) = Inr (set_mode AddFileMode (set_hunks (hs @ [AddFile path []]) p))"
    by (rule process_line_header [OF assms refl])
      (simp_all add: handle_hunk_headers_and_end_patch_def begin_hunk_def e ws marker_defs starts_with_def)
  show "process_line p (DELETE_FILE_MARKER @ path) = Inr (set_mode DeleteFileMode (set_hunks (hs @ [DeleteFile path]) p))"
    by (rule process_line_header [OF assms refl])
      (simp_all add: handle_hunk_headers_and_end_patch_def begin_hunk_def e ws marker_defs starts_with_def)
  show "process_line p (UPDATE_FILE_MARKER @ path) =
      Inr (set_mode (UpdateFileMode (line_number p)) (set_hunks (hs @ [UpdateFile path None []]) p))"
    by (rule process_line_header [OF assms refl])
      (simp_all add: handle_hunk_headers_and_end_patch_def begin_hunk_def e ws marker_defs starts_with_def)
qed

lemma handle_other: "c \<noteq> 42 \<Longrightarrow> handle_hunk_headers_and_end_patch p (c # l) = Inr (False, p)"
  by (simp add: handle_hunk_headers_and_end_patch_def marker_defs starts_with_def)

lemma add_line:
  assumes "mode (state p) = AddFileMode" "hunks (state p) = hs @ [AddFile path contents]"
  shows "process_line p (43 # l) = Inr (set_hunks (hs @ [AddFile path (contents @ l @ [10])]) p)"
proof -
  have "trim (43 # l) = 43 # trim_end l" by (rule trim_Cons) (simp add: is_whitespace_def)
  with assms show ?thesis
    by (simp add: process_line_def handle_other process_add_line_def last_hunk_def)
qed

lemma add_lines:
  assumes "mode (state p) = AddFileMode" "hunks (state p) = hs @ [AddFile path contents]" "environment_id (state p) = None"
  shows "\<exists>p'. run_lines p (map (Cons 43) ls) = Inr p' \<and> mode (state p') = AddFileMode \<and> environment_id (state p') = None \<and>
     hunks (state p') = hs @ [AddFile path (contents @ concat (map (\<lambda>l. l @ [10]) ls))]"
  using assms
proof (induction ls arbitrary: p contents)
  case (Cons l ls)
  have "process_line (next_line p) (43 # l) = Inr (set_hunks (hs @ [AddFile path (contents @ l @ [10])]) (next_line p))"
    by (rule add_line) (simp_all add: next_line_def Cons.prems)
  moreover have "\<exists>p'. run_lines (set_hunks (hs @ [AddFile path (contents @ l @ [10])]) (next_line p)) (map (Cons 43) ls) = Inr p' \<and>
     mode (state p') = AddFileMode \<and> environment_id (state p') = None \<and>
     hunks (state p') = hs @ [AddFile path ((contents @ l @ [10]) @ concat (map (\<lambda>l. l @ [10]) ls))]"
    by (rule Cons.IH) (simp_all add: parser_update_defs Cons.prems)
  ultimately show ?case by auto
qed simp

lemma updating_step:
  assumes "updating p hs path mv chunks" "handle_hunk_headers_and_end_patch (next_line p) (trim_end l) = Inr (False, next_line p)"
    "update_line_step (line_number (next_line p)) l (trim_end l) mv chunks = Inr (mv', chunks')"
  shows "\<exists>p'. process_line (next_line p) l = Inr p' \<and> updating p' hs path mv' chunks'"
proof -
  from assms(1) obtain n where "mode (state (next_line p)) = UpdateFileMode n"
    "last_hunk (next_line p) = Some (UpdateFile path mv chunks)" "hunks (state (next_line p)) = hs @ [UpdateFile path mv chunks]"
    "environment_id (state (next_line p)) = None"
    by (auto simp: updating_def next_line_def last_hunk_def)
  with assms(2,3) show ?thesis
    by (simp add: process_line_def process_update_line_def updating_def set_hunks_def)
qed

lemma trim_end_edit: "c = 45 \<or> c = 43 \<Longrightarrow> trim_end (c # l) = c # trim_end l"
  by (rule trim_end_Cons) (auto simp: is_whitespace_def)

lemma edit_line:
  assumes "updating p hs path mv (cs @ [c])" "\<not> is_end_of_file c"
  shows
    "\<exists>p'. process_line (next_line p) (45 # l) = Inr p' \<and> updating p' hs path mv (cs @ [c\<lparr>old_lines := old_lines c @ [l]\<rparr>])"
    "\<exists>p'. process_line (next_line p) (43 # l) = Inr p' \<and> updating p' hs path mv (cs @ [c\<lparr>new_lines := new_lines c @ [l]\<rparr>])"
  using assms(2)
  by (intro updating_step [OF assms(1)];
      simp add: trim_end_edit handle_other update_line_step_def update_line_body_def last_chunk_def
        is_context_marker_def push_line_def marker_defs starts_with_def)+

lemma edit_lines:
  assumes "updating p hs path mv (cs @ [c])" "\<not> is_end_of_file c"
  shows "\<exists>p'. run_lines p (map (Cons 45) os @ map (Cons 43) ns) = Inr p' \<and>
     updating p' hs path mv (cs @ [c\<lparr>old_lines := old_lines c @ os, new_lines := new_lines c @ ns\<rparr>])"
  using assms
proof (induction os arbitrary: p c)
  case Nil
  then show ?case
  proof (induction ns arbitrary: p c)
    case (Cons l ns)
    obtain p1 where p1: "process_line (next_line p) (43 # l) = Inr p1"
      "updating p1 hs path mv (cs @ [c\<lparr>new_lines := new_lines c @ [l]\<rparr>])"
      using edit_line(2) [OF Cons.prems] by blast
    from Cons.IH [OF p1(2)] Cons.prems(2) p1(1) show ?case by simp
  qed simp
next
  case (Cons l os)
  obtain p1 where p1: "process_line (next_line p) (45 # l) = Inr p1"
    "updating p1 hs path mv (cs @ [c\<lparr>old_lines := old_lines c @ [l]\<rparr>])"
    using edit_line(1) [OF Cons.prems] by blast
  from Cons.IH [OF p1(2)] Cons.prems(2) p1(1) show ?case by simp
qed

lemma context_line:
  assumes "updating p hs path mv cs" "\<forall>c \<in> set cs. \<not> chunk_blank c"
    "case ctx of None \<Rightarrow> True | Some t \<Rightarrow> text_ok t"
  shows "\<exists>p'. process_line (next_line p)
      (case ctx of None \<Rightarrow> EMPTY_CHANGE_CONTEXT_MARKER | Some t \<Rightarrow> CHANGE_CONTEXT_MARKER @ t) = Inr p' \<and>
     updating p' hs path mv (cs @ [empty_chunk ctx])"
proof (rule updating_step [OF assms(1)])
  let ?l = "case ctx of None \<Rightarrow> EMPTY_CHANGE_CONTEXT_MARKER | Some t \<Rightarrow> CHANGE_CONTEXT_MARKER @ t"
  have t: "trim_end ?l = ?l"
    using assms(3)
    by (cases ctx)
      (simp_all add: text_ok_trim trim_end_no_ws EMPTY_CHANGE_CONTEXT_MARKER_def is_whitespace_def)
  have b: "\<not> last_chunk chunk_blank cs" using assms(2) by (auto simp: last_chunk_def)
  have m: "is_context_marker ?l" by (auto simp: is_context_marker_def starts_with_iff split: option.splits)
  show "handle_hunk_headers_and_end_patch (next_line p) (trim_end ?l) = Inr (False, next_line p)"
    unfolding t by (auto simp: marker_defs handle_other split: option.splits)
  have d: "?l \<noteq> []" "\<not> starts_with MOVE_TO_MARKER ?l"
    by (auto simp: marker_defs starts_with_def split: option.splits)
  show "update_line_step (line_number (next_line p)) ?l (trim_end ?l) mv cs = Inr (mv, cs @ [empty_chunk ctx])"
    unfolding t update_line_step_def update_line_body_def using b m d
    by (auto simp: marker_defs starts_with_def split: option.splits)
qed

lemma eof_line:
  assumes "updating p hs path mv (cs @ [c])" "\<not> is_end_of_file c" "\<not> chunk_blank c"
  shows "\<exists>p'. process_line (next_line p) EOF_MARKER = Inr p' \<and> updating p' hs path mv (cs @ [c\<lparr>is_end_of_file := True\<rparr>])"
proof (rule updating_step [OF assms(1)])
  have t: "trim_end EOF_MARKER = EOF_MARKER"
    by (simp add: trim_end_no_ws EOF_MARKER_def is_whitespace_def)
  show "handle_hunk_headers_and_end_patch (next_line p) (trim_end EOF_MARKER) = Inr (False, next_line p)"
    unfolding t by (simp add: handle_hunk_headers_and_end_patch_def marker_defs starts_with_def)
  show "update_line_step (line_number (next_line p)) EOF_MARKER (trim_end EOF_MARKER) mv (cs @ [c]) =
      Inr (mv, cs @ [c\<lparr>is_end_of_file := True\<rparr>])"
    unfolding t using assms(2,3)
    by (simp add: update_line_step_def update_line_body_def last_chunk_def is_context_marker_def marker_defs
        starts_with_def)
qed

lemma run_chunk:
  assumes "updating p hs path mv cs" "\<forall>c \<in> set cs. \<not> chunk_blank c" "printable_chunk c"
  shows "\<exists>p'. run_lines p (print_chunk c) = Inr p' \<and> updating p' hs path mv (cs @ [c])"
proof -
  let ?ctx = "case change_context c of None \<Rightarrow> EMPTY_CHANGE_CONTEXT_MARKER | Some t \<Rightarrow> CHANGE_CONTEXT_MARKER @ t"
  let ?c1 = "empty_chunk (change_context c)"
  let ?c2 = "?c1\<lparr>old_lines := old_lines c, new_lines := new_lines c\<rparr>"
  obtain p1 where p1: "process_line (next_line p) ?ctx = Inr p1" "updating p1 hs path mv (cs @ [?c1])"
    using context_line [OF assms(1,2), of "change_context c"] assms(3) by (auto simp: printable_chunk_def)
  obtain p2 where p2: "run_lines p1 (map (Cons 45) (old_lines c) @ map (Cons 43) (new_lines c)) = Inr p2"
    "updating p2 hs path mv (cs @ [?c2])"
    using edit_lines [OF p1(2), of "old_lines c" "new_lines c"] by (auto simp: empty_chunk_def)
  have nb: "\<not> chunk_blank ?c2" using assms(3) by (simp add: printable_chunk_def chunk_blank_def)
  show ?thesis
  proof (cases "is_end_of_file c")
    case False
    then have "?c2 = c" by (simp add: empty_chunk_def)
    with p1(1) p2 False show ?thesis
      by (simp add: print_chunk_def)
  next
    case True
    then have "?c2\<lparr>is_end_of_file := True\<rparr> = c" by (simp add: empty_chunk_def)
    moreover obtain p3 where "process_line (next_line p2) EOF_MARKER = Inr p3"
      "updating p3 hs path mv (cs @ [?c2\<lparr>is_end_of_file := True\<rparr>])"
      using eof_line [OF p2(2) _ nb] by (auto simp: empty_chunk_def)
    ultimately show ?thesis
      using p1(1) p2(1) True
      by (simp add: print_chunk_def run_lines_append [of p1 "_ @ _" "[_]", simplified])
  qed
qed

lemma run_chunks:
  assumes "updating p hs path mv cs" "\<forall>c \<in> set cs. \<not> chunk_blank c" "list_all printable_chunk cs'"
  shows "\<exists>p'. run_lines p (concat (map print_chunk cs')) = Inr p' \<and> updating p' hs path mv (cs @ cs')"
  using assms
proof (induction cs' arbitrary: p cs)
  case (Cons c cs')
  obtain p1 where p1: "run_lines p (print_chunk c) = Inr p1" "updating p1 hs path mv (cs @ [c])"
    using run_chunk [OF Cons.prems(1,2)] Cons.prems(3) by auto
  have "\<forall>c' \<in> set (cs @ [c]). \<not> chunk_blank c'" using Cons.prems by (auto simp: printable_chunk_def)
  from Cons.IH [OF p1(2) this] Cons.prems(3) p1(1) show ?case
    by (simp add: run_lines_append)
qed simp

lemma between_hunk:
  assumes "hunks (state p) = hs" "\<forall>h \<in> set hs. hunk_complete h" "environment_id (state p) = None"
    "mode (state p) = AddFileMode \<or> mode (state p) = DeleteFileMode \<or> (\<exists>n. mode (state p) = UpdateFileMode n)"
  shows "between p hs"
  using assms by (auto simp: between_def)

lemma run_update_hunk:
  assumes "between p hs" "printable_hunk (UpdateFile path mv cs)"
  shows "\<exists>p'. run_lines p (print_hunk (UpdateFile path mv cs)) = Inr p' \<and> between p' (hs @ [UpdateFile path mv cs])"
proof -
  let ?p1 = "set_mode (UpdateFileMode (line_number (next_line p))) (set_hunks (hs @ [UpdateFile path None []]) (next_line p))"
  have h1: "process_line (next_line p) (UPDATE_FILE_MARKER @ path) = Inr ?p1"
    using header_lines(3) [of "next_line p" hs path] assms by simp
  have u1: "updating ?p1 hs path None []"
    using assms(1) by (simp add: updating_def parser_update_defs between_def)
  obtain p2 where p2: "run_lines ?p1 (case mv of None \<Rightarrow> [] | Some m \<Rightarrow> [MOVE_TO_MARKER @ m]) = Inr p2" "updating p2 hs path mv []"
  proof (cases mv)
    case None
    with u1 that show thesis by simp
  next
    case (Some m)
    have t: "trim_end (MOVE_TO_MARKER @ m) = MOVE_TO_MARKER @ m"
      using assms(2) Some by (simp add: text_ok_trim)
    have "\<exists>p2. process_line (next_line ?p1) (MOVE_TO_MARKER @ m) = Inr p2 \<and> updating p2 hs path mv []"
      by (rule updating_step [OF u1])
        (simp_all only: t, simp_all add: Some handle_hunk_headers_and_end_patch_def marker_defs starts_with_def
          update_line_step_def update_line_body_def last_chunk_def)
    with that Some show thesis by (auto split: sum.splits)
  qed
  obtain p3 where p3: "run_lines p2 (concat (map print_chunk cs)) = Inr p3" "updating p3 hs path mv cs"
    using run_chunks [OF p2(2), of cs] assms(2) by auto
  have "hunk_complete (UpdateFile path mv cs)"
    using assms(2) by (auto simp: hunk_complete_def printable_chunk_def list_all_iff)
  then have "between p3 (hs @ [UpdateFile path mv cs])"
    using p3(2) assms(1) by (auto simp: updating_def between_def)
  with h1 p2(1) p3(1) show ?thesis by (simp add: run_lines_append)
qed

lemma split_char_concat: "last (split_char c s) = [] \<Longrightarrow> concat (map (\<lambda>l. l @ [c]) (butlast (split_char c s))) = s"
  using join_snoc [of "butlast (split_char c s)" "[c]" "last (split_char c s)"] join_split_char [of c s]
    append_butlast_last_id [OF split_char_nonempty, of c s]
  by (cases "butlast (split_char c s) = []") (auto, metis append_Nil join.simps(2))

lemma run_hunk:
  assumes "between p hs" "printable_hunk h"
  shows "\<exists>p'. run_lines p (print_hunk h) = Inr p' \<and> between p' (hs @ [h])"
proof (cases h)
  case (AddFile path contents)
  let ?p1 = "set_mode AddFileMode (set_hunks (hs @ [AddFile path []]) (next_line p))"
  have h1: "process_line (next_line p) (ADD_FILE_MARKER @ path) = Inr ?p1"
    using header_lines(1) [of "next_line p" hs path] assms AddFile by simp
  have "\<exists>p'. run_lines ?p1 (map (Cons 43) (butlast (split_char 10 contents))) = Inr p' \<and>
      mode (state p') = AddFileMode \<and> environment_id (state p') = None \<and> hunks (state p') = hs @ [AddFile path ([] @ contents)]"
    using add_lines [of ?p1 hs path "[]" "butlast (split_char 10 contents)"] assms AddFile
    by (simp add: parser_update_defs between_def split_char_concat)
  moreover have "hunk_complete h"
    using assms(2) AddFile split_char_concat [of 10 contents]
    by (cases "butlast (split_char 10 contents)" rule: rev_cases) (auto simp: hunk_complete_def)
  ultimately show ?thesis
    using h1 AddFile assms(1) by (auto simp: between_def)
next
  case (DeleteFile path)
  then show ?thesis
    using header_lines(2) [of "next_line p" hs path] assms
    by (auto simp: between_def parser_update_defs hunk_complete_def)
next
  case (UpdateFile path mv cs)
  with assms run_update_hunk show ?thesis by blast
qed

lemma run_hunks:
  assumes "between p hs" "list_all printable_hunk hs'"
  shows "\<exists>p'. run_lines p (concat (map print_hunk hs')) = Inr p' \<and> between p' (hs @ hs')"
  using assms
proof (induction hs' arbitrary: p hs)
  case (Cons h hs')
  obtain p1 where p1: "run_lines p (print_hunk h) = Inr p1" "between p1 (hs @ [h])"
    using run_hunk [OF Cons.prems(1)] Cons.prems(2) by auto
  from Cons.IH [OF p1(2)] Cons.prems(2) p1(1) show ?case by (simp add: run_lines_append)
qed simp

lemma text_ok_line_ok: "text_ok s \<Longrightarrow> line_ok s"
  by (auto simp: text_ok_def line_ok_def is_whitespace_def)

lemma line_ok_Cons: "line_ok l \<Longrightarrow> c \<noteq> 10 \<Longrightarrow> c \<noteq> 13 \<Longrightarrow> line_ok (c # l)"
  by (auto simp: line_ok_def)

lemma line_ok_append: "text_ok s \<Longrightarrow> 10 \<notin> set a \<Longrightarrow> line_ok (a @ s)"
  by (auto simp: text_ok_def line_ok_def is_whitespace_def)

lemma marker_lines_ok:
  "text_ok BEGIN_PATCH_MARKER" "text_ok END_PATCH_MARKER" "text_ok EOF_MARKER" "text_ok EMPTY_CHANGE_CONTEXT_MARKER"
  "10 \<notin> set ADD_FILE_MARKER" "10 \<notin> set DELETE_FILE_MARKER" "10 \<notin> set UPDATE_FILE_MARKER" "10 \<notin> set MOVE_TO_MARKER"
  "10 \<notin> set CHANGE_CONTEXT_MARKER"
  by (simp_all add: text_ok_def marker_defs is_whitespace_def)

lemma print_chunk_lines_ok: "printable_chunk c \<Longrightarrow> list_all line_ok (print_chunk c)"
  by (auto simp: printable_chunk_def print_chunk_def list_all_iff marker_lines_ok text_ok_line_ok line_ok_append
      line_ok_Cons split: option.splits)

lemma print_hunk_lines_ok:
  assumes "printable_hunk h"
  shows "list_all line_ok (print_hunk h)"
proof (cases h)
  case (UpdateFile path mv cs)
  with assms show ?thesis
    using print_chunk_lines_ok
    by (auto simp: list_all_iff marker_lines_ok line_ok_append split: option.splits)
qed (use assms in \<open>auto simp: list_all_iff marker_lines_ok line_ok_append line_ok_Cons dest!: in_set_butlastD\<close>)

lemma line_ok_strip_cr: "line_ok l \<Longrightarrow> strip_cr l = l"
  by (auto simp: line_ok_def strip_cr_eq)

lemma str_lines_join:
  assumes "list_all line_ok (ls @ [l])" "l \<noteq> []"
  shows "str_lines (join [10] (ls @ [l])) = ls @ [l]"
proof -
  have "split_char 10 (join [10] (ls @ [l])) = ls @ [l]"
    using assms(1) by (intro split_char_join) (auto simp: line_ok_def list_all_iff)
  moreover have "map strip_cr ls = ls"
    using assms(1) by (auto simp: list_all_iff line_ok_strip_cr intro!: map_idI)
  ultimately show ?thesis using assms(2) by (simp add: str_lines_def)
qed

text \<open>
  C20: The parser inverts the printer: the text of a list of printable hunks is accepted, as it is,
  and read back as exactly these hunks, with no environment and no working directory.
\<close>

theorem parse_patch_roundtrip:
  assumes "list_all printable_hunk hs"
  shows "parse_patch (print_patch hs) =
     Ok \<lparr>args_patch = print_patch hs, args_hunks = hs, args_workdir = None, args_environment_id = None\<rparr>"
proof -
  let ?body = "BEGIN_PATCH_MARKER # concat (map print_hunk hs)"
  let ?text = "print_patch hs"
  have tx: "?text = concat (map (\<lambda>l. l @ [10]) ?body) @ END_PATCH_MARKER"
    unfolding print_patch_def using join_snoc [of ?body "[10]" END_PATCH_MARKER] by simp
  have ok: "list_all line_ok (?body @ [END_PATCH_MARKER])"
    using assms print_hunk_lines_ok by (auto simp: list_all_iff text_ok_line_ok marker_lines_ok)
  have trim: "trim ?text = ?text"
  proof -
    have "?text \<noteq> []" "hd ?text = 42" by (auto simp: tx BEGIN_PATCH_MARKER_def)
    then have "trim ?text = trim_end ?text" by (simp add: trim_of_trim_end is_whitespace_def)
    also have "\<dots> = ?text" unfolding tx by (rule text_ok_trim) (rule marker_lines_ok)
    finally show ?thesis .
  qed
  have ls: "str_lines ?text = ?body @ [END_PATCH_MARKER]"
    using str_lines_join [OF ok] by (simp add: print_patch_def END_PATCH_MARKER_def)
  have tm: "trim BEGIN_PATCH_MARKER = BEGIN_PATCH_MARKER" "trim END_PATCH_MARKER = END_PATCH_MARKER"
    by (simp_all add: marker_defs str_simps)
  have bounds: "check_patch_boundaries_lenient (str_lines ?text) = Ok (str_lines ?text)"
    by (simp add: ls check_patch_boundaries_lenient_def check_patch_boundaries_strict_def
        check_start_and_end_lines_strict_def tm)
  have join: "join [10] (str_lines ?text) = ?text" unfolding ls by (simp add: print_patch_def)
  obtain p where p: "run_lines parser_default ?body = Inr p" "between p hs"
  proof -
    have "process_line (next_line parser_default) BEGIN_PATCH_MARKER = Inr (set_mode StartedPatch (next_line parser_default))"
      by (simp add: process_line_def parser_default_def next_line_def tm)
    moreover have "between (set_mode StartedPatch (next_line parser_default)) []"
      by (simp add: between_def parser_default_def parser_update_defs)
    ultimately show thesis using run_hunks [of _ "[]" hs] assms that by (auto split: sum.splits)
  qed
  have "\<forall>l \<in> set ?body. 10 \<notin> set l \<and> strip_cr l = l"
    using ok by (auto simp: list_all_iff line_ok_strip_cr) (auto simp: line_ok_def)
  from push_chars_lines [OF _ this p(1)] have push: "push_chars parser_default (concat (map (\<lambda>l. l @ [10]) ?body)) = (Ok (), p)"
    and buf: "line_buffer p = []" by (auto simp: parser_default_def)
  let ?p' = "p\<lparr>line_buffer := END_PATCH_MARKER\<rparr>"
  have delta: "push_delta parser_default ?text = (Ok hs, ?p')"
    using push buf p(2) marker_lines_ok(2)
    by (simp add: tx push_delta_def push_chars_append [of _ "concat _"] push_chars_no_newline text_ok_def between_def
        del: concat.simps list.map)
  have fin: "finish ?p' = (Ok hs, set_mode EndedPatch (next_line ?p'))"
    using p(2) ensure_complete [of "next_line ?p'"] marker_lines_ok(2)
    by (simp add: finish_def finish_line_def tm between_def parser_update_defs text_ok_def Let_def)
  show ?thesis
    using p(2)
    by (simp add: parse_patch_def PARSE_IN_STRICT_MODE_def parse_patch_text_def trim bounds join delta fin
        parser_update_defs between_def Let_def)
qed

definition sample_patch :: "hunk list" where
  "sample_patch =
     [AddFile (lit ''a.tx'') (lit ''hi'' @ [10]),
      UpdateFile (lit ''b.tx'') (Some (lit ''c.tx''))
        [\<lparr>change_context = Some (lit ''fn f'') , old_lines = [lit ''x'', []], new_lines = [lit ''y''], is_end_of_file = True\<rparr>],
      DeleteFile (lit ''d.tx'')]"

theorem parse_patch_roundtrip_witness:
  "list_all printable_hunk sample_patch \<and>
   parse_patch (print_patch sample_patch) =
     Ok \<lparr>args_patch = print_patch sample_patch, args_hunks = sample_patch, args_workdir = None, args_environment_id = None\<rparr>"
proof -
  have "list_all printable_hunk sample_patch"
    by (simp add: sample_patch_def printable_chunk_def text_ok_def line_ok_def chunk_blank_def is_whitespace_def)
  with parse_patch_roundtrip [OF this] show ?thesis by blast
qed

end
