(* ===== verification/Patch_Edit.thy ===== *)
theory Patch_Edit
  imports Patch_Parser
begin

text \<open>
  Editing one file: the fuzzy line search of \<open>apply-patch/src/seek_sequence.rs\<close> and, from
  \<open>apply-patch/src/lib.rs\<close>, the computation and the application of the replacements that the
  chunks of an update hunk ask for. \<open>Vec::insert\<close> panics beyond the end of the vector, so
  \<open>apply_replacements\<close> returns an option.

  The results: what position the search returns, for each degree of leniency; that no chunk can
  make the application panic; and that, for chunks that name the lines they replace, the
  replacements lie in order and apart, so that applying them from the last to the first gives the
  file with each region replaced.
\<close>

section \<open>seek_sequence.rs\<close>

definition normalise_char :: "uchar \<Rightarrow> uchar" where
  "normalise_char c =
     (if (0x2010 \<le> c \<and> c \<le> 0x2015) \<or> c = 0x2212 then 45
      else if 0x2018 \<le> c \<and> c \<le> 0x201B then 39
      else if 0x201C \<le> c \<and> c \<le> 0x201F then 34
      else if c = 0xA0 \<or> (0x2002 \<le> c \<and> c \<le> 0x200A) \<or> c = 0x202F \<or> c = 0x205F \<or> c = 0x3000 then 32
      else c)"

definition normalise :: "ustr \<Rightarrow> ustr" where
  "normalise s = map normalise_char (trim s)"

text \<open>Whether \<open>pattern\<close> stands at index \<open>i\<close>, lines compared through \<open>f\<close>.\<close>

definition matches_at :: "(ustr \<Rightarrow> ustr) \<Rightarrow> ustr list \<Rightarrow> ustr list \<Rightarrow> nat \<Rightarrow> bool" where
  "matches_at f lines pattern i \<longleftrightarrow> map f (take (length pattern) (drop i lines)) = map f pattern"

definition seek_pass :: "(ustr \<Rightarrow> ustr) \<Rightarrow> ustr list \<Rightarrow> ustr list \<Rightarrow> nat \<Rightarrow> nat option" where
  "seek_pass f lines pattern search_start =
     find (matches_at f lines pattern) [search_start..<Suc (length lines - length pattern)]"

definition search_start :: "ustr list \<Rightarrow> ustr list \<Rightarrow> nat \<Rightarrow> bool \<Rightarrow> nat" where
  "search_start lines pattern start eof =
     (if eof \<and> length lines \<ge> length pattern then length lines - length pattern else start)"

definition seek_sequence :: "ustr list \<Rightarrow> ustr list \<Rightarrow> nat \<Rightarrow> bool \<Rightarrow> nat option" where
  "seek_sequence lines pattern start eof =
     (if pattern = [] then Some start
      else if length pattern > length lines then None
      else
        let a = search_start lines pattern start eof
        in case seek_pass id lines pattern a of
             Some i \<Rightarrow> Some i
           | None \<Rightarrow>
             (case seek_pass trim_end lines pattern a of
                Some i \<Rightarrow> Some i
              | None \<Rightarrow>
                (case seek_pass trim lines pattern a of
                   Some i \<Rightarrow> Some i
                 | None \<Rightarrow> seek_pass normalise lines pattern a)))"

section \<open>lib.rs: compute_replacements, apply_replacements\<close>

type_synonym replacement = "nat \<times> nat \<times> ustr list"

definition last_is_empty :: "ustr list \<Rightarrow> bool" where
  "last_is_empty ls \<longleftrightarrow> ls \<noteq> [] \<and> last ls = []"

text \<open>The replacement for one chunk and the next line index, from the current one.\<close>

definition chunk_context :: "ustr list \<Rightarrow> ustr \<Rightarrow> update_file_chunk \<Rightarrow> nat \<Rightarrow> ustr + nat" where
  "chunk_context original_lines path chunk line_index =
     (case change_context chunk of
        None \<Rightarrow> Ok line_index
      | Some ctx_line \<Rightarrow>
        (case seek_sequence original_lines [ctx_line] line_index False of
           Some idx \<Rightarrow> Ok (idx + 1)
         | None \<Rightarrow> Err (lit ''Failed to find context '' @ [39] @ ctx_line @ [39] @ lit '' in '' @ path)))"

definition chunk_replacement ::
  "ustr list \<Rightarrow> ustr \<Rightarrow> update_file_chunk \<Rightarrow> nat \<Rightarrow> ustr + replacement \<times> nat" where
  "chunk_replacement original_lines path chunk line_index =
     (if old_lines chunk = []
      then
        let insertion_idx =
          (if last_is_empty original_lines then length original_lines - 1 else length original_lines)
        in Ok ((insertion_idx, 0, new_lines chunk), line_index)
      else
        let found = seek_sequence original_lines (old_lines chunk) line_index (is_end_of_file chunk);
            retry = (found = None \<and> last_is_empty (old_lines chunk));
            pattern = (if retry then butlast (old_lines chunk) else old_lines chunk);
            new_slice = (if retry \<and> last_is_empty (new_lines chunk) then butlast (new_lines chunk) else new_lines chunk);
            found' = (if retry then seek_sequence original_lines pattern line_index (is_end_of_file chunk) else found)
        in case found' of
             Some start_idx \<Rightarrow> Ok ((start_idx, length pattern, new_slice), start_idx + length pattern)
           | None \<Rightarrow>
               Err (lit ''Failed to find expected lines in '' @ path @ lit '':'' @ [newline] @
                    join [newline] (old_lines chunk)))"

fun replacements_of :: "ustr list \<Rightarrow> ustr \<Rightarrow> nat \<Rightarrow> update_file_chunk list \<Rightarrow> ustr + replacement list" where
  "replacements_of original_lines path line_index [] = Ok []"
| "replacements_of original_lines path line_index (chunk # chunks) =
     (case chunk_context original_lines path chunk line_index of
        Inl e \<Rightarrow> Err e
      | Inr line_index1 \<Rightarrow>
        (case chunk_replacement original_lines path chunk line_index1 of
           Inl e \<Rightarrow> Err e
         | Inr (r, line_index2) \<Rightarrow>
           (case replacements_of original_lines path line_index2 chunks of
              Inl e \<Rightarrow> Err e
            | Inr rs \<Rightarrow> Ok (r # rs))))"

text \<open>\<open>slice::sort_by_key\<close> is stable.\<close>

definition compute_replacements :: "ustr list \<Rightarrow> ustr \<Rightarrow> update_file_chunk list \<Rightarrow> ustr + replacement list" where
  "compute_replacements original_lines path chunks =
     (case replacements_of original_lines path 0 chunks of
        Inl e \<Rightarrow> Err e
      | Inr replacements \<Rightarrow> Ok (sort_key fst replacements))"

fun remove_lines :: "nat \<Rightarrow> nat \<Rightarrow> ustr list \<Rightarrow> ustr list" where
  "remove_lines start_idx 0 lines = lines"
| "remove_lines start_idx (Suc n) lines =
     remove_lines start_idx n
       (if start_idx < length lines then take start_idx lines @ drop (Suc start_idx) lines else lines)"

fun insert_lines :: "nat \<Rightarrow> ustr list \<Rightarrow> ustr list \<Rightarrow> ustr list option" where
  "insert_lines i [] lines = Some lines"
| "insert_lines i (l # ls) lines =
     (if i > length lines then None else insert_lines (Suc i) ls (take i lines @ l # drop i lines))"

fun apply_reversed :: "replacement list \<Rightarrow> ustr list \<Rightarrow> ustr list option" where
  "apply_reversed [] lines = Some lines"
| "apply_reversed ((start_idx, old_len, new_segment) # rs) lines =
     (case insert_lines start_idx new_segment (remove_lines start_idx old_len lines) of
        None \<Rightarrow> None
      | Some lines' \<Rightarrow> apply_reversed rs lines')"

definition apply_replacements :: "ustr list \<Rightarrow> replacement list \<Rightarrow> ustr list option" where
  "apply_replacements lines replacements = apply_reversed (rev replacements) lines"

text \<open>
  The part of \<open>derive_new_contents_from_chunks\<close> between reading the file and returning: the
  error is a failed search, \<open>None\<close> a panic.
\<close>

definition content_lines :: "ustr \<Rightarrow> ustr list" where
  "content_lines original_contents =
     (let ls = split_char newline original_contents in if last ls = [] then butlast ls else ls)"

definition new_contents_of_lines :: "ustr list \<Rightarrow> ustr" where
  "new_contents_of_lines ls = join [newline] (if last_is_empty ls then ls else ls @ [[]])"

definition new_contents_from_chunks :: "ustr \<Rightarrow> ustr \<Rightarrow> update_file_chunk list \<Rightarrow> (ustr + ustr) option" where
  "new_contents_from_chunks path_text original_contents chunks =
     (let original_lines = content_lines original_contents
      in case compute_replacements original_lines path_text chunks of
           Inl e \<Rightarrow> Some (Err e)
         | Inr replacements \<Rightarrow>
           map_option (\<lambda>ls. Ok (new_contents_of_lines ls)) (apply_replacements original_lines replacements))"

section \<open>The search\<close>

definition strictness :: "(ustr \<Rightarrow> ustr) list" where
  "strictness = [id, trim_end, trim, normalise]"

lemma matches_at_mono:
  assumes "matches_at f lines pat i" "\<And>s. g s = h (f s)"
  shows "matches_at g lines pat i"
proof -
  have "map g xs = map h (map f xs)" for xs using assms(2) by simp
  with assms(1) show ?thesis by (metis matches_at_def)
qed

lemma trim_trim_end: "trim s = trim (trim_end s)"
proof -
  have 1: "trim_start (a @ b) = trim_start a @ b" if "\<exists>c \<in> set a. \<not> is_whitespace c" for a b
    using that by (auto simp: trim_start_def dropWhile_append)
  obtain w where w: "s = trim_end s @ w" "\<forall>c \<in> set w. is_whitespace c"
    using trim_end_prefix by blast
  have tw: "trim_end (a @ w) = trim_end a" for a
    using w(2) by (simp add: trim_end_def) (rule dropWhile_append2, simp)
  show ?thesis
  proof (cases "\<exists>c \<in> set (trim_end s). \<not> is_whitespace c")
    case True
    have "trim s = trim_end (trim_start (trim_end s @ w))" using w(1) by (simp add: trim_def)
    also have "\<dots> = trim (trim_end s)" using 1 [OF True] tw by (simp add: trim_def)
    finally show ?thesis .
  next
    case False
    then have "trim_end s = []" using trim_end_last by (metis last_in_set)
    with w have "\<forall>c \<in> set s. is_whitespace c" by simp
    then have "trim_start s = []" by (simp add: trim_start_def)
    then have "trim s = []" by (simp add: trim_def trim_end_def)
    moreover have "trim (trim_end s) = []"
      unfolding \<open>trim_end s = []\<close> by (simp add: trim_def trim_end_def trim_start_def)
    ultimately show ?thesis by simp
  qed
qed

lemma strictness_weakens:
  "matches_at id lines pat i \<Longrightarrow> matches_at trim_end lines pat i"
  "matches_at trim_end lines pat i \<Longrightarrow> matches_at trim lines pat i"
  "matches_at trim lines pat i \<Longrightarrow> matches_at normalise lines pat i"
proof -
  show "matches_at id lines pat i \<Longrightarrow> matches_at trim_end lines pat i"
    by (erule matches_at_mono [where h = trim_end]) simp
  show "matches_at trim_end lines pat i \<Longrightarrow> matches_at trim lines pat i"
    by (erule matches_at_mono [where h = trim]) (rule trim_trim_end)
  show "matches_at trim lines pat i \<Longrightarrow> matches_at normalise lines pat i"
    by (erule matches_at_mono [where h = "map normalise_char"]) (simp add: normalise_def)
qed

lemma find_upt_Some:
  "find P [a..<b] = Some i \<longleftrightarrow> a \<le> i \<and> i < b \<and> P i \<and> (\<forall>j. a \<le> j \<and> j < i \<longrightarrow> \<not> P j)"
proof
  assume "find P [a..<b] = Some i"
  then obtain k where k: "k < b - a" "P (a + k)" "i = a + k" "\<forall>j<k. \<not> P (a + j)"
    by (auto simp: find_Some_iff)
  then show "a \<le> i \<and> i < b \<and> P i \<and> (\<forall>j. a \<le> j \<and> j < i \<longrightarrow> \<not> P j)"
    by (auto dest: le_Suc_ex)
next
  assume "a \<le> i \<and> i < b \<and> P i \<and> (\<forall>j. a \<le> j \<and> j < i \<longrightarrow> \<not> P j)"
  then show "find P [a..<b] = Some i"
    by (auto simp: find_Some_iff intro!: exI [of _ "i - a"])
qed

lemma find_upt_None: "find P [a..<b] = None \<longleftrightarrow> (\<forall>j. a \<le> j \<and> j < b \<longrightarrow> \<not> P j)"
  by (auto simp: find_None_iff)

lemma seek_pass_Some:
  "seek_pass f lines pat a = Some i \<longleftrightarrow> a \<le> i \<and> i \<le> length lines - length pat \<and> matches_at f lines pat i \<and>
     (\<forall>j. a \<le> j \<and> j < i \<longrightarrow> \<not> matches_at f lines pat j)"
  unfolding seek_pass_def by (auto simp: find_upt_Some simp del: upt_Suc)

lemma seek_pass_None:
  "seek_pass f lines pat a = None \<longleftrightarrow> (\<forall>j. a \<le> j \<and> j \<le> length lines - length pat \<longrightarrow> \<not> matches_at f lines pat j)"
  unfolding seek_pass_def by (auto simp: find_upt_None simp del: upt_Suc)

lemma seek_sequence_cases:
  assumes "pattern \<noteq> []" "seek_sequence lines pattern start eof = Some i"
  obtains f fs gs where "strictness = fs @ f # gs" "length pattern \<le> length lines"
    "seek_pass f lines pattern (search_start lines pattern start eof) = Some i"
    "\<forall>g \<in> set fs. seek_pass g lines pattern (search_start lines pattern start eof) = None"
proof -
  let ?a = "search_start lines pattern start eof"
  have "\<exists>f fs gs. strictness = fs @ f # gs \<and> seek_pass f lines pattern ?a = Some i \<and>
      (\<forall>g \<in> set fs. seek_pass g lines pattern ?a = None)"
  proof -
    consider "seek_pass id lines pattern ?a = Some i"
      | "seek_pass id lines pattern ?a = None" "seek_pass trim_end lines pattern ?a = Some i"
      | "seek_pass id lines pattern ?a = None" "seek_pass trim_end lines pattern ?a = None"
        "seek_pass trim lines pattern ?a = Some i"
      | "seek_pass id lines pattern ?a = None" "seek_pass trim_end lines pattern ?a = None"
        "seek_pass trim lines pattern ?a = None" "seek_pass normalise lines pattern ?a = Some i"
      using assms by (auto simp: seek_sequence_def Let_def split: if_splits option.splits)
    then show ?thesis
    proof cases
      case 1
      then show ?thesis
        by (intro exI [of _ id] exI [of _ "[]"] exI [of _ "[trim_end, trim, normalise]"]) (simp add: strictness_def)
    next
      case 2
      then show ?thesis
        by (intro exI [of _ trim_end] exI [of _ "[id]"] exI [of _ "[trim, normalise]"]) (simp add: strictness_def)
    next
      case 3
      then show ?thesis
        by (intro exI [of _ trim] exI [of _ "[id, trim_end]"] exI [of _ "[normalise]"]) (simp add: strictness_def)
    next
      case 4
      then show ?thesis
        by (intro exI [of _ normalise] exI [of _ "[id, trim_end, trim]"] exI [of _ "[]"]) (simp add: strictness_def)
    qed
  qed
  moreover have "length pattern \<le> length lines"
    using assms by (auto simp: seek_sequence_def split: if_splits)
  ultimately show thesis using that by blast
qed

lemma seek_sequence_None:
  assumes "pattern \<noteq> []" "length pattern \<le> length lines"
  shows "seek_sequence lines pattern start False = None \<longleftrightarrow>
     (\<forall>i. start \<le> i \<and> i + length pattern \<le> length lines \<longrightarrow> \<not> matches_at normalise lines pattern i)"
proof -
  have "seek_sequence lines pattern start False = None \<longleftrightarrow>
      (\<forall>f \<in> set strictness. seek_pass f lines pattern start = None)"
    using assms by (auto simp: seek_sequence_def search_start_def strictness_def split: option.splits)
  also have "\<dots> \<longleftrightarrow> seek_pass normalise lines pattern start = None"
    using strictness_weakens by (auto simp: strictness_def seek_pass_None)
  finally show ?thesis using assms by (auto simp: seek_pass_None)
qed

lemma strictness_normalise: "f \<in> set strictness \<Longrightarrow> matches_at f lines pat i \<Longrightarrow> matches_at normalise lines pat i"
  using strictness_weakens [of lines pat i] by (auto simp: strictness_def)

lemma seek_sequence_bounds:
  assumes "seek_sequence lines pattern start eof = Some i" "start \<le> length lines"
  shows "i + length pattern \<le> length lines \<and> (\<not> eof \<or> pattern = [] \<longrightarrow> start \<le> i) \<and>
     matches_at normalise lines pattern i"
proof (cases "pattern = []")
  case True
  with assms show ?thesis by (simp add: seek_sequence_def matches_at_def)
next
  case False
  from seek_sequence_cases [OF this assms(1)] obtain f fs gs where f: "strictness = fs @ f # gs"
    "length pattern \<le> length lines"
    "seek_pass f lines pattern (search_start lines pattern start eof) = Some i" .
  have "f \<in> set strictness" unfolding f(1) by simp
  with f(2,3) False strictness_normalise show ?thesis by (auto simp: seek_pass_Some search_start_def)
qed

text \<open>
  The search for lines returns the first position from the start index on that matches at some
  degree of leniency (verbatim, without trailing whitespace, without surrounding whitespace, with
  typographic characters as ASCII) such that no position matches at a stricter degree; at the end
  of file only the last possible position counts. It fails only if no position matches even at the
  most lenient degree.
\<close>

theorem seek_sequence_best:
  assumes "pattern \<noteq> []" "length pattern \<le> length lines"
  shows "(seek_sequence lines pattern start eof = Some i \<longrightarrow>
      (\<exists>fs f gs. [id, trim_end, trim, normalise] = fs @ f # gs \<and> search_start lines pattern start eof \<le> i \<and> i + length pattern \<le> length lines \<and>
         map f (take (length pattern) (drop i lines)) = map f pattern \<and>
         (\<forall>j. search_start lines pattern start eof \<le> j \<and> j < i \<longrightarrow> \<not> matches_at f lines pattern j) \<and>
         (\<forall>g \<in> set fs. \<forall>j. search_start lines pattern start eof \<le> j \<and> j + length pattern \<le> length lines \<longrightarrow> \<not> matches_at g lines pattern j))) \<and>
    (seek_sequence lines pattern start False = None \<longleftrightarrow>
      (\<forall>j. start \<le> j \<and> j + length pattern \<le> length lines \<longrightarrow> \<not> matches_at normalise lines pattern j))"
proof (intro conjI impI)
  assume "seek_sequence lines pattern start eof = Some i"
  from seek_sequence_cases [OF assms(1) this] obtain f fs gs where f: "strictness = fs @ f # gs"
    "seek_pass f lines pattern (search_start lines pattern start eof) = Some i" "\<forall>g \<in> set fs. seek_pass g lines pattern (search_start lines pattern start eof) = None"
    .
  have "i + length pattern \<le> length lines" using f(2) assms(2) by (auto simp: seek_pass_Some)
  with f assms(2) show "\<exists>fs f gs. [id, trim_end, trim, normalise] = fs @ f # gs \<and> search_start lines pattern start eof \<le> i \<and>
      i + length pattern \<le> length lines \<and> map f (take (length pattern) (drop i lines)) = map f pattern \<and>
      (\<forall>j. search_start lines pattern start eof \<le> j \<and> j < i \<longrightarrow> \<not> matches_at f lines pattern j) \<and>
      (\<forall>g \<in> set fs. \<forall>j. search_start lines pattern start eof \<le> j \<and> j + length pattern \<le> length lines \<longrightarrow> \<not> matches_at g lines pattern j)"
    by (intro exI [of _ fs] exI [of _ f] exI [of _ gs])
      (auto simp: strictness_def seek_pass_Some seek_pass_None matches_at_def)
qed (rule seek_sequence_None [OF assms(1,2)])

theorem seek_sequence_best_witness:
  "seek_sequence [lit ''b '', lit ''a'', lit ''b''] [lit ''b''] 0 False = Some 2 \<and>
   \<not> matches_at id [lit ''b '', lit ''a'', lit ''b''] [lit ''b''] 0"
proof -
  let ?ls = "[lit ''b '', lit ''a'', lit ''b'']"
  have r: "seek_sequence ?ls [lit ''b''] 0 False = Some 2"
    by (simp add: seek_sequence_def search_start_def seek_pass_def matches_at_def upt_rec)
  have h: "[lit ''b''] \<noteq> []" "length [lit ''b''] \<le> length ?ls" by simp_all
  from seek_sequence_best [OF h, of 0 False 2] r
  have "\<exists>fs f gs. [id, trim_end, trim, normalise] = fs @ f # gs \<and>
     (\<forall>j. j < 2 \<longrightarrow> \<not> matches_at f ?ls [lit ''b''] j)" by (auto simp: search_start_def)
  then show ?thesis using r by (auto simp: matches_at_def)
qed

section \<open>Applying replacements\<close>

lemma remove_lines_eq: "remove_lines i n lines = take i lines @ drop (i + n) lines"
proof (induction n arbitrary: lines)
  case (Suc n)
  show ?case
  proof (cases "i < length lines")
    case True
    then have "drop (i + n) (take i lines @ drop (Suc i) lines) = drop (i + Suc n) lines"
      by (simp add: ac_simps)
    with Suc True show ?thesis by simp
  next
    case False
    with Suc show ?thesis by simp
  qed
qed simp

lemma insert_lines_eq:
  "i \<le> length lines \<Longrightarrow> insert_lines i new lines = Some (take i lines @ new @ drop i lines)"
  by (induction new arbitrary: i lines) auto

lemma apply_reversed_Cons:
  assumes "i \<le> length lines"
  shows "apply_reversed ((i, n, new) # rs) lines = apply_reversed rs (take i lines @ new @ drop (i + n) lines)"
  using assms by (simp add: remove_lines_eq insert_lines_eq)

lemma apply_reversed_append:
  "apply_reversed (rs @ rs') lines =
     (case apply_reversed rs lines of None \<Rightarrow> None | Some lines' \<Rightarrow> apply_reversed rs' lines')"
  by (induction rs lines rule: apply_reversed.induct) (auto split: option.splits)

lemma apply_reversed_total:
  assumes "sorted_wrt (\<ge>) (map fst rs)" "\<forall>r \<in> set rs. fst r \<le> length lines"
  shows "\<exists>lines'. apply_reversed rs lines = Some lines'"
  using assms
proof (induction rs arbitrary: lines)
  case (Cons r rs)
  obtain i n new where r: "r = (i, n, new)" by (cases r)
  let ?l = "take i lines @ new @ drop (i + n) lines"
  have "\<forall>r \<in> set rs. fst r \<le> length ?l" using Cons.prems r by fastforce
  with Cons.IH [of ?l] Cons.prems show ?case
    unfolding r by (auto simp: apply_reversed_Cons simp del: apply_reversed.simps)
qed simp

text \<open>The file with each region replaced, and the order in which regions lie.\<close>

fun splice :: "nat \<Rightarrow> ustr list \<Rightarrow> replacement list \<Rightarrow> ustr list" where
  "splice pos lines [] = drop pos lines"
| "splice pos lines ((i, n, new) # rs) = take (i - pos) (drop pos lines) @ new @ splice (i + n) lines rs"

fun in_order :: "nat \<Rightarrow> nat \<Rightarrow> replacement list \<Rightarrow> bool" where
  "in_order pos len [] \<longleftrightarrow> pos \<le> len"
| "in_order pos len ((i, n, new) # rs) \<longleftrightarrow> pos \<le> i \<and> i + n \<le> len \<and> in_order (i + n) len rs"

lemma apply_in_order:
  "in_order pos (length lines) rs \<Longrightarrow>
     apply_replacements lines rs = Some (take pos lines @ splice pos lines rs)"
proof (induction rs arbitrary: pos)
  case Nil
  then show ?case by (simp add: apply_replacements_def)
next
  case (Cons r rs)
  obtain i n new where r: "r = (i, n, new)" by (cases r)
  from Cons.prems r have o: "pos \<le> i" "i + n \<le> length lines" "in_order (i + n) (length lines) rs" by auto
  let ?l = "take (i + n) lines @ splice (i + n) lines rs"
  have "apply_reversed (rev rs) lines = Some ?l"
    using Cons.IH [OF o(3)] by (simp add: apply_replacements_def)
  then have "apply_replacements lines (r # rs) = apply_reversed [(i, n, new)] ?l"
    by (simp add: apply_replacements_def apply_reversed_append r)
  also have "\<dots> = Some (take i ?l @ new @ drop (i + n) ?l)"
    using o(2) by (subst apply_reversed_Cons) auto
  also have "take i ?l = take pos lines @ take (i - pos) (drop pos lines)"
    using o(1,2) by (simp add: min_absorb2) (metis le_add_diff_inverse take_add)
  also have "drop (i + n) ?l = splice (i + n) lines rs"
    using o(2) by simp
  finally show ?case by (simp add: r)
qed

lemma in_order_sorted: "in_order pos len rs \<Longrightarrow> sorted (map fst rs) \<and> (\<forall>r \<in> set rs. pos \<le> fst r)"
  by (induction rs arbitrary: pos) fastforce+

lemma sort_key_sorted: "sorted (map f xs) \<Longrightarrow> sort_key f xs = xs"
  by (induction xs) (simp_all add: insort_is_Cons)

section \<open>Computing replacements\<close>

lemma chunk_context_bounds:
  assumes "chunk_context lines path c i = Inr j" "i \<le> length lines"
  shows "i \<le> j \<and> j \<le> length lines"
  using assms seek_sequence_bounds [of lines _ i False]
  by (fastforce simp: chunk_context_def split: option.splits)

lemma chunk_replacement_bounds:
  assumes "chunk_replacement lines path c i = Inr (r, j)" "i \<le> length lines"
  shows "fst r \<le> length lines \<and> j \<le> length lines"
proof (cases "old_lines c = []")
  case True
  with assms show ?thesis by (auto simp: chunk_replacement_def Let_def)
next
  case False
  with assms obtain pat s where "seek_sequence lines pat i (is_end_of_file c) = Some s" "fst r = s" "j = s + length pat"
    by (auto simp: chunk_replacement_def Let_def split: option.splits if_splits)
  with seek_sequence_bounds [OF _ assms(2)] show ?thesis by fastforce
qed

lemma replacements_of_bounds:
  "replacements_of lines path i cs = Inr rs \<Longrightarrow> i \<le> length lines \<Longrightarrow> \<forall>r \<in> set rs. fst r \<le> length lines"
proof (induction cs arbitrary: i rs)
  case (Cons c cs)
  from Cons.prems(1) obtain i1 r i2 rs' where s: "chunk_context lines path c i = Inr i1"
    "chunk_replacement lines path c i1 = Inr (r, i2)" "replacements_of lines path i2 cs = Inr rs'" "rs = r # rs'"
    by (auto split: sum.splits)
  have "i1 \<le> length lines" using chunk_context_bounds [OF s(1) Cons.prems(2)] by simp
  from chunk_replacement_bounds [OF s(2) this] Cons.IH [OF s(3)] s(4) show ?case by simp
qed simp

lemma compute_replacements_applies:
  assumes "compute_replacements lines path cs = Inr rs"
  shows "\<exists>ls. apply_replacements lines rs = Some ls"
proof -
  from assms obtain rs0 where rs0: "replacements_of lines path 0 cs = Inr rs0" "rs = sort_key fst rs0"
    by (auto simp: compute_replacements_def split: sum.splits)
  have "sorted_wrt (\<ge>) (map fst (rev rs))"
    by (simp add: rs0(2) rev_map [symmetric] sorted_wrt_rev)
  moreover have "\<forall>r \<in> set (rev rs). fst r \<le> length lines"
    using replacements_of_bounds [OF rs0(1)] rs0(2) by simp
  ultimately show ?thesis unfolding apply_replacements_def by (rule apply_reversed_total)
qed

lemma last_join: "xs \<noteq> [] \<Longrightarrow> last xs = [] \<Longrightarrow> join [c] xs = [] \<or> last (join [c] xs) = c"
proof (cases xs rule: rev_cases)
  case (snoc ys y)
  assume "last xs = []"
  with snoc have "xs = ys @ [[]]" by simp
  then show ?thesis
    using join_snoc [of ys "[c]" "[]"] by (cases ys rule: rev_cases) simp_all
qed simp

text \<open>
  Editing never panics, whatever the chunks and the file are, also when the regions of chunks
  overlap: it reports a chunk that cannot be placed or produces the new contents, and these are
  empty or end with a newline.
\<close>

theorem edit_never_panics:
  "\<exists>r. new_contents_from_chunks path contents chunks = Some r \<and>
     (case r of Inl _ \<Rightarrow> True | Inr t \<Rightarrow> t = [] \<or> last t = newline)"
proof (cases "compute_replacements (content_lines contents) path chunks")
  case (Inl e)
  then show ?thesis by (simp add: new_contents_from_chunks_def)
next
  case (Inr rs)
  from compute_replacements_applies [OF Inr] obtain ls where
    ls: "apply_replacements (content_lines contents) rs = Some ls" ..
  have "new_contents_of_lines ls = [] \<or> last (new_contents_of_lines ls) = 10"
    unfolding new_contents_of_lines_def by (rule last_join) (auto simp: last_is_empty_def)
  with Inr ls show ?thesis by (simp add: new_contents_from_chunks_def)
qed

text \<open>How a replacement answers its chunk.\<close>

definition replaces :: "ustr list \<Rightarrow> update_file_chunk \<Rightarrow> replacement \<Rightarrow> bool" where
  "replaces lines c r \<longleftrightarrow>
     (case r of (i, n, new) \<Rightarrow>
        (n = length (old_lines c) \<and> matches_at normalise lines (old_lines c) i \<and> new = new_lines c) \<or>
        (last_is_empty (old_lines c) \<and> n + 1 = length (old_lines c) \<and>
         matches_at normalise lines (butlast (old_lines c)) i \<and>
         new = (if last_is_empty (new_lines c) then butlast (new_lines c) else new_lines c)))"

lemma chunk_replacement_in_order:
  assumes "chunk_replacement lines path c i = Inr (r, j)" "i \<le> length lines" "old_lines c \<noteq> []" "\<not> is_end_of_file c"
  shows "i \<le> fst r \<and> j = fst r + fst (snd r) \<and> j \<le> length lines \<and> replaces lines c r"
proof (cases "seek_sequence lines (old_lines c) i False")
  case (Some s)
  with assms seek_sequence_bounds [OF Some assms(2)] show ?thesis
    by (auto simp: chunk_replacement_def replaces_def Let_def)
next
  case None
  with assms obtain s where b: "last_is_empty (old_lines c)"
    "seek_sequence lines (butlast (old_lines c)) i False = Some s" "j = s + length (butlast (old_lines c))"
    "r = (s, length (butlast (old_lines c)), if last_is_empty (new_lines c) then butlast (new_lines c) else new_lines c)"
    by (auto simp: chunk_replacement_def Let_def split: option.splits if_splits)
  have "Suc (length (old_lines c) - Suc 0) = length (old_lines c)" using assms(3) by (cases "old_lines c") auto
  moreover from this have "s + length (old_lines c) - Suc 0 = s + (length (old_lines c) - Suc 0)" by linarith
  ultimately show ?thesis
    using b assms seek_sequence_bounds [OF b(2) assms(2)] by (auto simp: replaces_def)
qed

lemma replacements_of_in_order:
  assumes "replacements_of lines path i cs = Inr rs" "i \<le> length lines"
    "\<forall>c \<in> set cs. old_lines c \<noteq> [] \<and> \<not> is_end_of_file c"
  shows "in_order i (length lines) rs \<and> list_all2 (replaces lines) cs rs"
  using assms
proof (induction cs arbitrary: i rs)
  case (Cons c cs)
  from Cons.prems(1) obtain i1 r i2 rs' where s: "chunk_context lines path c i = Inr i1"
    "chunk_replacement lines path c i1 = Inr (r, i2)" "replacements_of lines path i2 cs = Inr rs'" "rs = r # rs'"
    by (auto split: sum.splits)
  have i1: "i \<le> i1" "i1 \<le> length lines" using chunk_context_bounds [OF s(1) Cons.prems(2)] by simp_all
  have c: "old_lines c \<noteq> []" "\<not> is_end_of_file c" using Cons.prems(3) by simp_all
  note r = chunk_replacement_in_order [OF s(2) i1(2) c]
  from r Cons.IH [OF s(3)] Cons.prems(3) i1 s(4) show ?case by (cases r) auto
qed simp

text \<open>
  C31: For chunks that name the lines they replace and are not anchored at the end of the file, the
  replacements follow the order of the chunks, lie apart and inside the file, each stands where
  its chunk's lines were found, and the new file is the old one with exactly these regions
  replaced.
\<close>

theorem edit_replaces_regions:
  assumes "\<forall>c \<in> set chunks. old_lines c \<noteq> [] \<and> \<not> is_end_of_file c"
    and "compute_replacements (content_lines contents) path chunks = Ok rs"
  shows "in_order 0 (length (content_lines contents)) rs \<and>
     list_all2 (replaces (content_lines contents)) chunks rs \<and>
     new_contents_from_chunks path contents chunks =
       Some (Ok (new_contents_of_lines (splice 0 (content_lines contents) rs)))"
proof -
  from assms(2) obtain rs0 where rs0: "replacements_of (content_lines contents) path 0 chunks = Inr rs0"
    "rs = sort_key fst rs0"
    by (auto simp: compute_replacements_def split: sum.splits)
  note o = replacements_of_in_order [OF rs0(1) _ assms(1), simplified]
  then have "sorted (map fst rs0)" using in_order_sorted by blast
  then have "rs = rs0" using rs0(2) by (simp add: sort_key_sorted)
  with o apply_in_order [of 0 "content_lines contents" rs] assms(2) show ?thesis
    by (simp add: new_contents_from_chunks_def)
qed

theorem edit_replaces_regions_witness:
  "let c = \<lparr>change_context = None, old_lines = [lit ''b''], new_lines = [lit ''x'', lit ''y''], is_end_of_file = False\<rparr>;
       contents = lit ''a'' @ [10] @ lit ''b'' @ [10] @ lit ''c'' @ [10]
   in new_contents_from_chunks [] contents [c] =
        Some (Ok (lit ''a'' @ [10] @ lit ''x'' @ [10] @ lit ''y'' @ [10] @ lit ''c'' @ [10]))"
proof -
  let ?c = "\<lparr>change_context = None, old_lines = [lit ''b''], new_lines = [lit ''x'', lit ''y''], is_end_of_file = False\<rparr>"
  let ?contents = "lit ''a'' @ [10] @ lit ''b'' @ [10] @ lit ''c'' @ [10]"
  have h: "\<forall>c \<in> set [?c]. old_lines c \<noteq> [] \<and> \<not> is_end_of_file c" by simp
  have ls: "content_lines ?contents = [lit ''a'', lit ''b'', lit ''c'']" by (simp add: content_lines_def)
  have r: "compute_replacements (content_lines ?contents) [] [?c] = Ok [(1, 1, [lit ''x'', lit ''y''])]"
    unfolding ls by (simp add: compute_replacements_def chunk_context_def chunk_replacement_def seek_sequence_def
        search_start_def seek_pass_def matches_at_def upt_rec Let_def)
  from edit_replaces_regions [OF h r] show ?thesis
    unfolding ls by (simp add: new_contents_of_lines_def last_is_empty_def)
qed

end
