(* ===== verification/Exec_Fs.thy ===== *)
theory Exec_Fs
  imports Abs_Path "HOL-Library.AList"
begin

text \<open>
  The file-system interface of \<open>file-system/src/lib.rs\<close> (trait \<open>ExecutorFileSystem\<close>), as far as
  applying patches uses it, and its local provider \<open>DirectFileSystem\<close> of
  \<open>exec-server/src/local_file_system.rs\<close>.

  An implementation is a record of operations on a state. The laws a client may rely on are the
  locale \<open>executor_fs\<close>; \<open>contents\<close> says which text each path holds. The provider is modelled over
  the part of \<open>std::fs\<close> it calls, on a tree of directories and regular files without links and
  permissions, in which a file whose bytes are UTF-8 is kept as its text. Operations run without a
  sandbox context, as \<open>reject_sandbox_context\<close> demands of the direct file system.
\<close>

section \<open>The interface\<close>

datatype io_error_kind = NotFound | InvalidInput | InvalidData | OtherKind

record io_error =
  io_kind :: io_error_kind
  io_message :: ustr

record file_metadata =
  is_directory :: bool
  is_file :: bool
  is_symlink :: bool

record ('p, 's) executor_file_system =
  read_file_text :: "'p \<Rightarrow> 's \<Rightarrow> io_error + ustr"
  get_metadata :: "'p \<Rightarrow> 's \<Rightarrow> io_error + file_metadata"
  write_file :: "'p \<Rightarrow> ustr \<Rightarrow> 's \<Rightarrow> (io_error + unit) \<times> 's"
  remove_path :: "'p \<Rightarrow> bool \<Rightarrow> bool \<Rightarrow> 's \<Rightarrow> (io_error + unit) \<times> 's"
  create_directory :: "'p \<Rightarrow> bool \<Rightarrow> 's \<Rightarrow> (io_error + unit) \<times> 's"

text \<open>
  The laws. A successful write or removal changes the contents of its path only; a write that
  fails because the path is missing, and the creation of directories, change no contents; a
  removal that fails leaves its path as it was or removed.
\<close>

locale executor_fs =
  fixes fs :: "('p, 's) executor_file_system"
    and contents :: "'s \<Rightarrow> 'p \<Rightarrow> ustr option"
  assumes read_ok: "read_file_text fs p s = Inr c \<Longrightarrow> contents s p = Some c"
    and read_missing: "read_file_text fs p s = Inl e \<Longrightarrow> io_kind e = NotFound \<Longrightarrow> contents s p = None"
    and write_ok: "write_file fs p c s = (Inr u, s') \<Longrightarrow> contents s' = (contents s)(p := Some c)"
    and write_missing: "write_file fs p c s = (Inl e, s') \<Longrightarrow> io_kind e = NotFound \<Longrightarrow> contents s' = contents s"
    and remove_ok: "remove_path fs p False False s = (Inr u, s') \<Longrightarrow> contents s' = (contents s)(p := None)"
    and remove_failed: "remove_path fs p False False s = (Inl e, s') \<Longrightarrow>
      contents s' = contents s \<or> contents s' = (contents s)(p := None)"
    and create_directory_keeps: "create_directory fs p r s = (res, s') \<Longrightarrow> contents s' = contents s"

section \<open>std::fs on a tree\<close>

datatype node = TextFile ustr | RawFile nat | Directory

type_synonym tree = "(path \<times> node) list"

definition parent_path :: "path \<Rightarrow> path option" where
  "parent_path p = (if length p \<le> 1 then None else Some (butlast p))"

definition io_err :: "io_error_kind \<Rightarrow> string \<Rightarrow> io_error" where
  "io_err k m = \<lparr>io_kind = k, io_message = lit m\<rparr>"

text \<open>Looking up a path: a regular file on the way is not a directory, everything else is missing.\<close>

definition ancestors_of :: "path \<Rightarrow> path list" where
  "ancestors_of p = map (\<lambda>n. take n p) [1..<length p]"

definition is_file_node :: "node option \<Rightarrow> bool" where
  "is_file_node n \<longleftrightarrow> (case n of Some (TextFile _) \<Rightarrow> True | Some (RawFile _) \<Rightarrow> True | _ \<Rightarrow> False)"

definition lookup_error :: "tree \<Rightarrow> path \<Rightarrow> io_error" where
  "lookup_error t p =
     (if \<exists>q \<in> set (ancestors_of p). is_file_node (map_of t q)
      then io_err OtherKind ''Not a directory'' else io_err NotFound ''No such file or directory'')"

definition std_write :: "path \<Rightarrow> ustr \<Rightarrow> tree \<Rightarrow> (io_error + unit) \<times> tree" where
  "std_write p c t =
     (case map_of t p of
        Some Directory \<Rightarrow> (Err (io_err OtherKind ''Is a directory''), t)
      | Some _ \<Rightarrow> (Ok (), AList.update p (TextFile c) t)
      | None \<Rightarrow>
        (case parent_path p of
           Some d \<Rightarrow>
             if map_of t d = Some Directory then (Ok (), AList.update p (TextFile c) t)
             else (Err (lookup_error t p), t)
         | None \<Rightarrow> (Err (lookup_error t p), t)))"

definition std_remove_file :: "path \<Rightarrow> tree \<Rightarrow> (io_error + unit) \<times> tree" where
  "std_remove_file p t =
     (if is_file_node (map_of t p) then (Ok (), AList.delete p t)
      else (Err (io_err OtherKind ''Is a directory''), t))"

definition has_children :: "path \<Rightarrow> tree \<Rightarrow> bool" where
  "has_children p t \<longleftrightarrow> (\<exists>e \<in> set t. parent_path (fst e) = Some p)"

definition std_remove_dir :: "path \<Rightarrow> tree \<Rightarrow> (io_error + unit) \<times> tree" where
  "std_remove_dir p t =
     (if has_children p t then (Err (io_err OtherKind ''Directory not empty''), t)
      else (Ok (), AList.delete p t))"

definition std_remove_dir_all :: "path \<Rightarrow> tree \<Rightarrow> (io_error + unit) \<times> tree" where
  "std_remove_dir_all p t = (Ok (), filter (\<lambda>e. take (length p) (fst e) \<noteq> p) t)"

definition std_create_dir :: "path \<Rightarrow> tree \<Rightarrow> (io_error + unit) \<times> tree" where
  "std_create_dir p t =
     (if map_of t p \<noteq> None then (Err (io_err OtherKind ''File exists''), t)
      else
        case parent_path p of
          Some d \<Rightarrow>
            if map_of t d = Some Directory then (Ok (), AList.update p Directory t)
            else (Err (lookup_error t p), t)
        | None \<Rightarrow> (Err (lookup_error t p), t))"

text \<open>\<open>create_dir_all\<close>: missing ancestors from the root down; an existing directory is accepted.\<close>

fun create_dirs :: "path list \<Rightarrow> tree \<Rightarrow> (io_error + unit) \<times> tree" where
  "create_dirs [] t = (Ok (), t)"
| "create_dirs (p # ps) t =
     (if map_of t p = Some Directory then create_dirs ps t
      else
        case std_create_dir p t of
          (Inl e, t') \<Rightarrow> (Err e, t')
        | (Inr _, t') \<Rightarrow> create_dirs ps t')"

definition std_create_dir_all :: "path \<Rightarrow> tree \<Rightarrow> (io_error + unit) \<times> tree" where
  "std_create_dir_all p t = create_dirs (ancestors_of p @ [p]) t"

section \<open>DirectFileSystem\<close>

definition MAX_READ_FILE_BYTES :: nat where
  "MAX_READ_FILE_BYTES = 512 * 1024 * 1024"

text \<open>\<open>regular_file::open\<close> refuses what is not a regular file.\<close>

definition not_a_file_error :: "path \<Rightarrow> io_error" where
  "not_a_file_error p =
     \<lparr>io_kind = InvalidInput, io_message = lit ''path `'' @ path_display p @ lit ''` is not a file''\<rparr>"

definition direct_read_file_text :: "path \<Rightarrow> tree \<Rightarrow> io_error + ustr" where
  "direct_read_file_text p t =
     (case map_of t p of
        None \<Rightarrow> Err (lookup_error t p)
      | Some Directory \<Rightarrow> Err (not_a_file_error p)
      | Some (TextFile c) \<Rightarrow>
          if byte_len c > MAX_READ_FILE_BYTES
          then Err (io_err InvalidInput ''file is too large to read: limit is 536870912 bytes'') else Ok c
      | Some (RawFile n) \<Rightarrow>
          if n > MAX_READ_FILE_BYTES
          then Err (io_err InvalidInput ''file is too large to read: limit is 536870912 bytes'')
          else Err (io_err InvalidData ''invalid utf-8 sequence''))"

definition direct_get_metadata :: "path \<Rightarrow> tree \<Rightarrow> io_error + file_metadata" where
  "direct_get_metadata p t =
     (case map_of t p of
        None \<Rightarrow> Err (lookup_error t p)
      | Some n \<Rightarrow> Ok \<lparr>is_directory = (n = Directory), is_file = is_file_node (Some n), is_symlink = False\<rparr>)"

definition direct_remove :: "path \<Rightarrow> bool \<Rightarrow> bool \<Rightarrow> tree \<Rightarrow> (io_error + unit) \<times> tree" where
  "direct_remove p recursive force t =
     (case map_of t p of
        Some Directory \<Rightarrow> if recursive then std_remove_dir_all p t else std_remove_dir p t
      | Some _ \<Rightarrow> std_remove_file p t
      | None \<Rightarrow>
        if io_kind (lookup_error t p) = NotFound \<and> force then (Ok (), t) else (Err (lookup_error t p), t))"

definition direct_create_directory :: "path \<Rightarrow> bool \<Rightarrow> tree \<Rightarrow> (io_error + unit) \<times> tree" where
  "direct_create_directory p recursive t =
     (if recursive then std_create_dir_all p t else std_create_dir p t)"

definition direct_fs :: "(path, tree) executor_file_system" where
  "direct_fs = \<lparr>read_file_text = direct_read_file_text, get_metadata = direct_get_metadata,
     write_file = std_write, remove_path = direct_remove, create_directory = direct_create_directory\<rparr>"

text \<open>The text a path holds.\<close>

definition tree_text :: "tree \<Rightarrow> path \<Rightarrow> ustr option" where
  "tree_text t p = (case map_of t p of Some (TextFile c) \<Rightarrow> Some c | _ \<Rightarrow> None)"

lemma tree_text_update: "tree_text (AList.update p n t) =
    (tree_text t)(p := (case n of TextFile c \<Rightarrow> Some c | _ \<Rightarrow> None))"
  by (auto simp: tree_text_def update_conv')

lemma tree_text_delete: "tree_text (AList.delete p t) = (tree_text t)(p := None)"
  by (auto simp: tree_text_def delete_conv')

lemma std_create_dir_text: "std_create_dir p t = (r, t') \<Longrightarrow> tree_text t' = tree_text t"
  by (auto simp: std_create_dir_def tree_text_update fun_upd_idem_iff split: if_splits option.splits)
    (simp add: tree_text_def)

lemma create_dirs_text: "create_dirs ps t = (r, t') \<Longrightarrow> tree_text t' = tree_text t"
  by (induction ps t rule: create_dirs.induct) (auto split: if_splits prod.splits sum.splits dest: std_create_dir_text)

lemma std_write_ok: "std_write p c t = (Inr u, t') \<Longrightarrow> tree_text t' = (tree_text t)(p := Some c)"
  by (auto simp: std_write_def tree_text_update split: option.splits node.splits if_splits)

lemma std_write_failed: "std_write p c t = (Inl e, t') \<Longrightarrow> t' = t"
  by (auto simp: std_write_def split: option.splits node.splits if_splits)

lemma direct_remove_ok: "direct_remove p False False t = (Inr u, t') \<Longrightarrow> tree_text t' = (tree_text t)(p := None)"
  by (auto simp: direct_remove_def std_remove_dir_def std_remove_file_def tree_text_delete
      split: option.splits node.splits if_splits)

lemma direct_remove_failed: "direct_remove p False False t = (Inl e, t') \<Longrightarrow> t' = t"
  by (auto simp: direct_remove_def std_remove_dir_def std_remove_file_def
      split: option.splits node.splits if_splits)

interpretation direct: executor_fs direct_fs tree_text
proof
  fix p t c assume "read_file_text direct_fs p t = Inr c"
  then show "tree_text t p = Some c"
    by (auto simp: direct_fs_def direct_read_file_text_def tree_text_def split: option.splits node.splits if_splits)
next
  fix p t e assume "read_file_text direct_fs p t = Inl e" "io_kind e = NotFound"
  then show "tree_text t p = None"
    by (auto simp: direct_fs_def direct_read_file_text_def tree_text_def io_err_def not_a_file_error_def
        split: option.splits node.splits if_splits)
qed (auto simp: direct_fs_def direct_create_directory_def std_create_dir_all_def
    dest: std_write_ok std_write_failed direct_remove_ok direct_remove_failed create_dirs_text std_create_dir_text
    split: if_splits)

end
