(* ===== verification/Patch_Apply.thy ===== *)
theory Patch_Apply
  imports Patch_Edit Exec_Fs
begin

text \<open>
  Applying the hunks of a patch to files: \<open>apply-patch/src/lib.rs\<close>. The file system is the
  interface of \<open>Exec_Fs\<close>, the path URIs of \<open>codex_utils_path_uri\<close> are a record of the operations
  used on them. The mutable variables of \<open>apply_hunks_to_files\<close> and the \<open>delta\<close> it fills are one
  state record, which is returned also when the operation fails.

  Under the laws of the interface, the delta is a faithful account of what happened: as long as it
  is marked exact, also after a failure, replaying it on the contents before gives the contents
  after, and undoing it gives the contents before. The laws are discharged for the direct file
  system, and the properties are stated for it.
\<close>

section \<open>Errors\<close>

datatype apply_patch_error =
  ParseError parse_error
| IoError ustr io_error
| ComputeReplacements ustr
| PathUriError ustr
| ImplicitInvocation

fun display_parse_error :: "parse_error \<Rightarrow> ustr" where
  "display_parse_error (InvalidPatchError m) = lit ''invalid patch: '' @ m"
| "display_parse_error (InvalidHunkError m n) = lit ''invalid hunk at line '' @ dec n @ lit '', '' @ m"

fun display_error :: "apply_patch_error \<Rightarrow> ustr" where
  "display_error (ParseError e) = display_parse_error e"
| "display_error (IoError context source) = context @ lit '': '' @ io_message source"
| "display_error (ComputeReplacements m) = m"
| "display_error (PathUriError m) = m"
| "display_error ImplicitInvocation =
     lit ''patch detected without explicit call to apply_patch. Rerun as ['' @ [34] @ lit ''apply_patch'' @ [34] @
     lit '', '' @ [34] @ lit ''<patch>'' @ [34] @ lit '']''"

text \<open>
  The \<open>anyhow\<close> errors of \<open>apply_hunks_to_files\<close>: a message, an I/O error with a context, or one of
  the typed errors. \<open>Panicked\<close> marks a panic of the code, which is shown not to happen.
\<close>

datatype anyhow_error =
  Bail ustr
| IoContext ustr io_error
| FromApply apply_patch_error
| FromUri ustr
| Panicked

fun anyhow_to_string :: "anyhow_error \<Rightarrow> ustr" where
  "anyhow_to_string (Bail m) = m"
| "anyhow_to_string (IoContext context source) = context"
| "anyhow_to_string (FromApply e) = display_error e"
| "anyhow_to_string (FromUri m) = m"
| "anyhow_to_string Panicked = []"

section \<open>Deltas\<close>

datatype 'p applied_patch_file_change =
  AddChange ustr "ustr option"
| DeleteChange ustr
| UpdateChange "'p option" ustr "ustr option" ustr

type_synonym 'p applied_patch_change = "'p \<times> 'p applied_patch_file_change"

record 'p applied_patch_delta =
  changes :: "'p applied_patch_change list"
  exact :: bool

definition delta_empty :: "'p applied_patch_delta" where
  "delta_empty = \<lparr>changes = [], exact = True\<rparr>"

definition delta_append :: "'p applied_patch_delta \<Rightarrow> 'p applied_patch_delta \<Rightarrow> 'p applied_patch_delta" where
  "delta_append d d' = \<lparr>changes = changes d @ changes d', exact = (exact d \<and> exact d')\<rparr>"

record affected_paths =
  added :: "ustr list"
  modified :: "ustr list"
  deleted :: "ustr list"

record 'p path_uri_ops =
  uri_join :: "'p \<Rightarrow> ustr \<Rightarrow> ustr + 'p"
  uri_parent :: "'p \<Rightarrow> 'p option"
  native_path_string :: "'p \<Rightarrow> ustr"

record ('p, 's) apply_state =
  files :: 's
  delta :: "'p applied_patch_delta"
  affected :: affected_paths

definition set_exact :: "bool \<Rightarrow> ('p, 's) apply_state \<Rightarrow> ('p, 's) apply_state" where
  "set_exact b st = st\<lparr>delta := (delta st)\<lparr>exact := b\<rparr>\<rparr>"

definition push_change :: "'p applied_patch_change \<Rightarrow> ('p, 's) apply_state \<Rightarrow> ('p, 's) apply_state" where
  "push_change c st = st\<lparr>delta := (delta st)\<lparr>changes := changes (delta st) @ [c]\<rparr>\<rparr>"

definition push_added :: "ustr \<Rightarrow> ('p, 's) apply_state \<Rightarrow> ('p, 's) apply_state" where
  "push_added p st = st\<lparr>affected := (affected st)\<lparr>added := added (affected st) @ [p]\<rparr>\<rparr>"

definition push_modified :: "ustr \<Rightarrow> ('p, 's) apply_state \<Rightarrow> ('p, 's) apply_state" where
  "push_modified p st = st\<lparr>affected := (affected st)\<lparr>modified := modified (affected st) @ [p]\<rparr>\<rparr>"

definition push_deleted :: "ustr \<Rightarrow> ('p, 's) apply_state \<Rightarrow> ('p, 's) apply_state" where
  "push_deleted p st = st\<lparr>affected := (affected st)\<lparr>deleted := deleted (affected st) @ [p]\<rparr>\<rparr>"

lemmas apply_state_defs = set_exact_def push_change_def push_added_def push_modified_def push_deleted_def

section \<open>File helpers\<close>

definition ensure_not_directory :: "('p, 's) executor_file_system \<Rightarrow> 'p \<Rightarrow> 's \<Rightarrow> io_error + unit" where
  "ensure_not_directory fs p s =
     (case get_metadata fs p s of
        Inl e \<Rightarrow> Err e
      | Inr m \<Rightarrow> if is_directory m then Err (io_err InvalidInput ''path is a directory'') else Ok ())"

definition remove_failure_was_side_effect_free ::
  "('p, 's) executor_file_system \<Rightarrow> 'p \<Rightarrow> ustr option \<Rightarrow> 's \<Rightarrow> bool" where
  "remove_failure_was_side_effect_free fs p expected_content s =
     (case expected_content of
        Some c \<Rightarrow> (case read_file_text fs p s of Inr content \<Rightarrow> content = c | Inl _ \<Rightarrow> False)
      | None \<Rightarrow> False)"

definition note_existing_path_delta_support ::
  "('p, 's) executor_file_system \<Rightarrow> 'p \<Rightarrow> 's \<Rightarrow> bool \<Rightarrow> bool" where
  "note_existing_path_delta_support fs p s ex =
     (case get_metadata fs p s of
        Inr m \<Rightarrow> if is_file m \<and> \<not> is_symlink m then ex else False
      | Inl e \<Rightarrow> if io_kind e = NotFound then ex else False)"

definition read_optional_file_text_for_delta ::
  "('p, 's) executor_file_system \<Rightarrow> 'p \<Rightarrow> 's \<Rightarrow> bool \<Rightarrow> ustr option \<times> bool" where
  "read_optional_file_text_for_delta fs p s ex =
     (let ex' = note_existing_path_delta_support fs p s ex
      in case read_file_text fs p s of
           Inr content \<Rightarrow> (Some content, ex')
         | Inl e \<Rightarrow> if io_kind e = NotFound then (None, ex') else (None, False))"

definition write_file_with_missing_parent_retry ::
  "'p path_uri_ops \<Rightarrow> ('p, 's) executor_file_system \<Rightarrow> 'p \<Rightarrow> ustr \<Rightarrow> 's \<Rightarrow> (anyhow_error + unit) \<times> 's" where
  "write_file_with_missing_parent_retry ops fs p contents s =
     (let failed = lit ''Failed to write file '' @ native_path_string ops p
      in case write_file fs p contents s of
           (Inr _, s1) \<Rightarrow> (Ok (), s1)
         | (Inl e, s1) \<Rightarrow>
           if io_kind e = NotFound
           then
             (let retry = (\<lambda>s2. case write_file fs p contents s2 of
                             (Inr _, s3) \<Rightarrow> (Ok (), s3)
                           | (Inl e', s3) \<Rightarrow> (Err (IoContext failed e'), s3))
              in case uri_parent ops p of
                   None \<Rightarrow> retry s1
                 | Some parent \<Rightarrow>
                   (case create_directory fs parent True s1 of
                      (Inr _, s2) \<Rightarrow> retry s2
                    | (Inl e', s2) \<Rightarrow>
                        (Err (IoContext (lit ''Failed to create parent directories for '' @ native_path_string ops p) e'), s2)))
           else (Err (IoContext failed e), s1))"

text \<open>The original and the new contents; \<open>None\<close> is a panic.\<close>

definition derive_new_contents_from_chunks ::
  "'p path_uri_ops \<Rightarrow> ('p, 's) executor_file_system \<Rightarrow> 'p \<Rightarrow> update_file_chunk list \<Rightarrow> 's \<Rightarrow>
   (apply_patch_error + ustr \<times> ustr) option" where
  "derive_new_contents_from_chunks ops fs p chunks s =
     (case read_file_text fs p s of
        Inl e \<Rightarrow> Some (Err (IoError (lit ''Failed to read file to update '' @ native_path_string ops p) e))
      | Inr original_contents \<Rightarrow>
        (case new_contents_from_chunks (native_path_string ops p) original_contents chunks of
           None \<Rightarrow> None
         | Some (Inl m) \<Rightarrow> Some (Err (ComputeReplacements m))
         | Some (Inr new_contents) \<Rightarrow> Some (Ok (original_contents, new_contents))))"

section \<open>apply_hunks_to_files\<close>

type_synonym ('p, 's) step_result = "(anyhow_error + unit) \<times> ('p, 's) apply_state"

definition apply_add_file ::
  "'p path_uri_ops \<Rightarrow> ('p, 's) executor_file_system \<Rightarrow> ustr \<Rightarrow> 'p \<Rightarrow> ustr \<Rightarrow> ('p, 's) apply_state \<Rightarrow> ('p, 's) step_result" where
  "apply_add_file ops fs affected_path p contents st =
     (let (overwritten_content, ex) = read_optional_file_text_for_delta fs p (files st) (exact (delta st));
          st1 = set_exact ex st
      in case write_file_with_missing_parent_retry ops fs p contents (files st1) of
           (Inl e, s') \<Rightarrow> (Err e, set_exact False (st1\<lparr>files := s'\<rparr>))
         | (Inr _, s') \<Rightarrow>
             (Ok (), push_added affected_path
                (push_change (p, AddChange contents overwritten_content) (st1\<lparr>files := s'\<rparr>))))"

definition apply_delete_file ::
  "'p path_uri_ops \<Rightarrow> ('p, 's) executor_file_system \<Rightarrow> ustr \<Rightarrow> 'p \<Rightarrow> ('p, 's) apply_state \<Rightarrow> ('p, 's) step_result" where
  "apply_delete_file ops fs affected_path p st =
     (let context = lit ''Failed to delete file '' @ native_path_string ops p;
          ex = note_existing_path_delta_support fs p (files st) (exact (delta st));
          deleted_content = (case read_file_text fs p (files st) of Inr c \<Rightarrow> Some c | Inl _ \<Rightarrow> None);
          st1 = set_exact (ex \<and> deleted_content \<noteq> None) st
      in case ensure_not_directory fs p (files st1) of
           Inl e \<Rightarrow> (Err (IoContext context e), st1)
         | Inr _ \<Rightarrow>
           (case remove_path fs p False False (files st1) of
              (Inl e, s') \<Rightarrow>
                (let st2 = st1\<lparr>files := s'\<rparr>
                 in (Err (IoContext context e),
                     set_exact (exact (delta st2) \<and> remove_failure_was_side_effect_free fs p deleted_content s') st2))
            | (Inr _, s') \<Rightarrow>
                (let st2 = st1\<lparr>files := s'\<rparr>;
                     st3 = (case deleted_content of
                              Some content \<Rightarrow> push_change (p, DeleteChange content) st2
                            | None \<Rightarrow> st2)
                 in (Ok (), push_deleted affected_path st3))))"

definition apply_update_in_place ::
  "'p path_uri_ops \<Rightarrow> ('p, 's) executor_file_system \<Rightarrow> ustr \<Rightarrow> 'p \<Rightarrow> ustr \<Rightarrow> ustr \<Rightarrow>
   ('p, 's) apply_state \<Rightarrow> ('p, 's) step_result" where
  "apply_update_in_place ops fs affected_path p original_contents new_contents st =
     (case write_file fs p new_contents (files st) of
        (Inl e, s') \<Rightarrow>
          (Err (IoContext (lit ''Failed to write file '' @ native_path_string ops p) e), set_exact False (st\<lparr>files := s'\<rparr>))
      | (Inr _, s') \<Rightarrow>
          (Ok (), push_modified affected_path
             (push_change (p, UpdateChange None original_contents None new_contents) (st\<lparr>files := s'\<rparr>))))"

definition apply_update_move ::
  "'p path_uri_ops \<Rightarrow> ('p, 's) executor_file_system \<Rightarrow> ustr \<Rightarrow> 'p \<Rightarrow> 'p \<Rightarrow> ustr \<Rightarrow> ustr \<Rightarrow>
   ('p, 's) apply_state \<Rightarrow> ('p, 's) step_result" where
  "apply_update_move ops fs affected_path p dest original_contents new_contents st =
     (let context = lit ''Failed to remove original '' @ native_path_string ops p;
          (overwritten_move_content, ex) = read_optional_file_text_for_delta fs dest (files st) (exact (delta st));
          st1 = set_exact ex st
      in case write_file_with_missing_parent_retry ops fs dest new_contents (files st1) of
           (Inl e, s') \<Rightarrow> (Err e, set_exact False (st1\<lparr>files := s'\<rparr>))
         | (Inr _, s') \<Rightarrow>
           (let dest_write_change_index = length (changes (delta st1));
                st2 = push_change (dest, AddChange new_contents overwritten_move_content) (st1\<lparr>files := s'\<rparr>)
            in case ensure_not_directory fs p (files st2) of
                 Inl e \<Rightarrow> (Err (IoContext context e), st2)
               | Inr _ \<Rightarrow>
                 (case remove_path fs p False False (files st2) of
                    (Inl e, s'') \<Rightarrow>
                      (let st3 = st2\<lparr>files := s''\<rparr>
                       in (Err (IoContext context e),
                           set_exact (exact (delta st3) \<and>
                             remove_failure_was_side_effect_free fs p (Some original_contents) s'') st3))
                  | (Inr _, s'') \<Rightarrow>
                      (let st3 = st2\<lparr>files := s''\<rparr>;
                           cs = (changes (delta st3))[dest_write_change_index :=
                             (p, UpdateChange (Some dest) original_contents overwritten_move_content new_contents)]
                       in (Ok (), push_modified affected_path (st3\<lparr>delta := (delta st3)\<lparr>changes := cs\<rparr>\<rparr>))))))"

definition apply_update_file ::
  "'p path_uri_ops \<Rightarrow> ('p, 's) executor_file_system \<Rightarrow> 'p \<Rightarrow> ustr \<Rightarrow> 'p \<Rightarrow> ustr option \<Rightarrow> update_file_chunk list \<Rightarrow>
   ('p, 's) apply_state \<Rightarrow> ('p, 's) step_result" where
  "apply_update_file ops fs cwd affected_path p move_path chunks st =
     (let st1 = set_exact (note_existing_path_delta_support fs p (files st) (exact (delta st))) st
      in case derive_new_contents_from_chunks ops fs p chunks (files st1) of
           None \<Rightarrow> (Err Panicked, st1)
         | Some (Inl e) \<Rightarrow> (Err (FromApply e), st1)
         | Some (Inr (original_contents, new_contents)) \<Rightarrow>
           (case move_path of
              None \<Rightarrow> apply_update_in_place ops fs affected_path p original_contents new_contents st1
            | Some dest \<Rightarrow>
              (case uri_join ops cwd dest of
                 Inl e \<Rightarrow> (Err (FromUri e), st1)
               | Inr dest_uri \<Rightarrow>
                   apply_update_move ops fs affected_path p dest_uri original_contents new_contents st1)))"

definition apply_hunk ::
  "'p path_uri_ops \<Rightarrow> ('p, 's) executor_file_system \<Rightarrow> 'p \<Rightarrow> hunk \<Rightarrow> ('p, 's) apply_state \<Rightarrow> ('p, 's) step_result" where
  "apply_hunk ops fs cwd h st =
     (case uri_join ops cwd (hunk_source_path h) of
        Inl e \<Rightarrow> (Err (FromUri e), st)
      | Inr p \<Rightarrow>
        (case h of
           AddFile _ contents \<Rightarrow> apply_add_file ops fs (hunk_path h) p contents st
         | DeleteFile _ \<Rightarrow> apply_delete_file ops fs (hunk_path h) p st
         | UpdateFile _ move_path chunks \<Rightarrow> apply_update_file ops fs cwd (hunk_path h) p move_path chunks st))"

fun apply_each_hunk ::
  "'p path_uri_ops \<Rightarrow> ('p, 's) executor_file_system \<Rightarrow> 'p \<Rightarrow> hunk list \<Rightarrow> ('p, 's) apply_state \<Rightarrow> ('p, 's) step_result" where
  "apply_each_hunk ops fs cwd [] st = (Ok (), st)"
| "apply_each_hunk ops fs cwd (h # hs) st =
     (case apply_hunk ops fs cwd h st of
        (Inl e, st') \<Rightarrow> (Err e, st')
      | (Inr _, st') \<Rightarrow> apply_each_hunk ops fs cwd hs st')"

definition apply_hunks_to_files ::
  "'p path_uri_ops \<Rightarrow> ('p, 's) executor_file_system \<Rightarrow> 'p \<Rightarrow> hunk list \<Rightarrow> 'p applied_patch_delta \<Rightarrow> 's \<Rightarrow>
   (anyhow_error + unit) \<times> ('p, 's) apply_state" where
  "apply_hunks_to_files ops fs cwd hs d s =
     (let st = \<lparr>files = s, delta = d, affected = \<lparr>added = [], modified = [], deleted = []\<rparr>\<rparr>
      in if hs = [] then (Err (Bail (lit ''No files were modified.'')), st)
         else apply_each_hunk ops fs cwd hs st)"

section \<open>apply_patch\<close>

text \<open>
  A writer: given the lines written so far and the next one, the error of writing it, if any.
\<close>

type_synonym line_writer = "ustr list \<Rightarrow> ustr \<Rightarrow> io_error option"

fun write_lines :: "line_writer \<Rightarrow> ustr list \<Rightarrow> ustr list \<Rightarrow> (io_error + unit) \<times> ustr list" where
  "write_lines w done [] = (Ok (), done)"
| "write_lines w done (l # ls) =
     (case w done l of Some e \<Rightarrow> (Err e, done) | None \<Rightarrow> write_lines w (done @ [l]) ls)"

definition print_summary :: "line_writer \<Rightarrow> affected_paths \<Rightarrow> (io_error + unit) \<times> ustr list" where
  "print_summary w a =
     write_lines w [] (lit ''Success. Updated the following files:'' #
       map (\<lambda>p. lit ''A '' @ p) (added a) @ map (\<lambda>p. lit ''M '' @ p) (modified a) @
       map (\<lambda>p. lit ''D '' @ p) (deleted a))"

definition io_apply_error :: "io_error \<Rightarrow> apply_patch_error" where
  "io_apply_error e = IoError (lit ''I/O error'') e"

definition hunks_error :: "anyhow_error \<Rightarrow> apply_patch_error" where
  "hunks_error e =
     (case e of
        IoContext _ source \<Rightarrow> io_apply_error source
      | _ \<Rightarrow> IoError (anyhow_to_string e) \<lparr>io_kind = OtherKind, io_message = anyhow_to_string e\<rparr>)"

text \<open>The result, the delta, the files and what was written to the two streams.\<close>

record ('p, 's) apply_outcome =
  result :: "apply_patch_error + unit"
  out_delta :: "'p applied_patch_delta"
  out_files :: 's
  stdout :: "ustr list"
  stderr :: "ustr list"

definition apply_hunks ::
  "'p path_uri_ops \<Rightarrow> ('p, 's) executor_file_system \<Rightarrow> line_writer \<Rightarrow> line_writer \<Rightarrow> 'p \<Rightarrow> hunk list \<Rightarrow> 's \<Rightarrow>
   ('p, 's) apply_outcome" where
  "apply_hunks ops fs out_writer err_writer cwd hs s =
     (case apply_hunks_to_files ops fs cwd hs delta_empty s of
        (Inr _, st) \<Rightarrow>
          (case print_summary out_writer (affected st) of
             (r, out) \<Rightarrow>
               \<lparr>result = (case r of Inl e \<Rightarrow> Err (io_apply_error e) | Inr _ \<Rightarrow> Ok ()),
                out_delta = delta st, out_files = files st, stdout = out, stderr = []\<rparr>)
      | (Inl e, st) \<Rightarrow>
          (case write_lines err_writer [] [anyhow_to_string e] of
             (r, err) \<Rightarrow>
               \<lparr>result = Err (case r of Inl we \<Rightarrow> io_apply_error we | Inr _ \<Rightarrow> hunks_error e),
                out_delta = delta st, out_files = files st, stdout = [], stderr = err\<rparr>))"

fun parse_failure_line :: "parse_error \<Rightarrow> ustr" where
  "parse_failure_line (InvalidPatchError m) = lit ''Invalid patch: '' @ m"
| "parse_failure_line (InvalidHunkError m n) = lit ''Invalid patch hunk on line '' @ dec n @ lit '': '' @ m"

definition apply_patch ::
  "'p path_uri_ops \<Rightarrow> ('p, 's) executor_file_system \<Rightarrow> line_writer \<Rightarrow> line_writer \<Rightarrow> 'p \<Rightarrow> ustr \<Rightarrow> 's \<Rightarrow>
   ('p, 's) apply_outcome" where
  "apply_patch ops fs out_writer err_writer cwd patch s =
     (case parse_patch patch of
        Inr args \<Rightarrow> apply_hunks ops fs out_writer err_writer cwd (args_hunks args) s
      | Inl e \<Rightarrow>
          (case write_lines err_writer [] [parse_failure_line e] of
             (r, err) \<Rightarrow>
               \<lparr>result = Err (case r of Inl we \<Rightarrow> io_apply_error we | Inr _ \<Rightarrow> ParseError e),
                out_delta = delta_empty, out_files = s, stdout = [], stderr = err\<rparr>))"

section \<open>What a delta means\<close>

text \<open>
  Replaying a change on the contents of the files, and taking it back with the contents it
  recorded. A move puts the new text at its destination and removes the source.
\<close>

fun replay_change :: "'p applied_patch_change \<Rightarrow> ('p \<Rightarrow> ustr option) \<Rightarrow> 'p \<Rightarrow> ustr option" where
  "replay_change (p, AddChange c _) m = m(p := Some c)"
| "replay_change (p, DeleteChange c) m = m(p := None)"
| "replay_change (p, UpdateChange None _ _ new) m = m(p := Some new)"
| "replay_change (p, UpdateChange (Some d) _ _ new) m = (m(p := None))(d := Some new)"

fun undo_change :: "'p applied_patch_change \<Rightarrow> ('p \<Rightarrow> ustr option) \<Rightarrow> 'p \<Rightarrow> ustr option" where
  "undo_change (p, AddChange c overwritten) m = m(p := overwritten)"
| "undo_change (p, DeleteChange c) m = m(p := Some c)"
| "undo_change (p, UpdateChange None old _ _) m = m(p := Some old)"
| "undo_change (p, UpdateChange (Some d) old overwritten _) m = (m(d := overwritten))(p := Some old)"

definition replay :: "'p applied_patch_delta \<Rightarrow> ('p \<Rightarrow> ustr option) \<Rightarrow> 'p \<Rightarrow> ustr option" where
  "replay d m = fold replay_change (changes d) m"

definition undo :: "'p applied_patch_delta \<Rightarrow> ('p \<Rightarrow> ustr option) \<Rightarrow> 'p \<Rightarrow> ustr option" where
  "undo d m = foldr undo_change (changes d) m"

text \<open>A hunk that moves a file onto itself.\<close>

fun moves_onto_itself :: "'p path_uri_ops \<Rightarrow> 'p \<Rightarrow> hunk \<Rightarrow> bool" where
  "moves_onto_itself ops cwd (UpdateFile p (Some d) _) \<longleftrightarrow> uri_join ops cwd p = uri_join ops cwd d"
| "moves_onto_itself ops cwd _ \<longleftrightarrow> False"

definition accounts :: "('p \<Rightarrow> ustr option) \<Rightarrow> ('s \<Rightarrow> 'p \<Rightarrow> ustr option) \<Rightarrow> ('p, 's) apply_state \<Rightarrow> bool" where
  "accounts m0 contents st \<longleftrightarrow>
     (exact (delta st) \<longrightarrow> contents (files st) = replay (delta st) m0 \<and> undo (delta st) (contents (files st)) = m0)"

lemma accounts_inexact: "\<not> exact (delta st) \<Longrightarrow> accounts m0 contents st"
  by (simp add: accounts_def)

lemma accounts_push:
  assumes "accounts m0 contents st" "exact (delta st') \<Longrightarrow> exact (delta st)"
    "changes (delta st') = changes (delta st) @ [c]"
    "exact (delta st') \<Longrightarrow> contents (files st') = replay_change c (contents (files st))"
    "exact (delta st') \<Longrightarrow> undo_change c (contents (files st')) = contents (files st)"
  shows "accounts m0 contents st'"
  using assms by (auto simp: accounts_def replay_def undo_def)

lemma accounts_same:
  assumes "accounts m0 contents st" "exact (delta st') \<Longrightarrow> exact (delta st)"
    "changes (delta st') = changes (delta st)"
    "exact (delta st') \<Longrightarrow> contents (files st') = contents (files st)"
  shows "accounts m0 contents st'"
  using assms by (auto simp: accounts_def replay_def undo_def)

lemma note_existing_exact: "note_existing_path_delta_support fs p s ex \<Longrightarrow> ex"
  by (auto simp: note_existing_path_delta_support_def split: sum.splits if_splits)

context executor_fs
begin

lemma write_retry_ok:
  assumes "write_file_with_missing_parent_retry ops fs p c s = (Inr u, s')"
  shows "contents s' = (contents s)(p := Some c)"
proof (cases "write_file fs p c s")
  case (Pair r s1)
  show ?thesis
  proof (cases r)
    case (Inr u')
    with assms Pair write_ok show ?thesis by (auto simp: write_file_with_missing_parent_retry_def)
  next
    case (Inl e)
    with assms Pair have nf: "io_kind e = NotFound"
      by (auto simp: write_file_with_missing_parent_retry_def Let_def split: if_splits)
    with write_missing Pair Inl have s1: "contents s1 = contents s" by blast
    obtain s2 u' where "contents s2 = contents s1" "write_file fs p c s2 = (Inr u', s')"
    proof (cases "uri_parent ops p")
      case None
      with assms Pair Inl nf that show thesis
        by (auto simp: write_file_with_missing_parent_retry_def Let_def split: prod.splits sum.splits)
    next
      case (Some d)
      obtain r2 s2 where d: "create_directory fs d True s1 = (r2, s2)" by fastforce
      with assms Pair Inl nf Some obtain u' where "write_file fs p c s2 = (Inr u', s')"
        by (cases r2) (auto simp: write_file_with_missing_parent_retry_def Let_def split: prod.splits sum.splits)
      with that create_directory_keeps [OF d] show thesis by blast
    qed
    with write_ok s1 show ?thesis by metis
  qed
qed

lemma read_optional_exact:
  assumes "read_optional_file_text_for_delta fs p s ex = (c, True)"
  shows "ex \<and> contents s p = c"
  using assms note_existing_exact read_ok read_missing
  by (auto simp: read_optional_file_text_for_delta_def Let_def split: sum.splits if_splits)

lemma remove_failure_kept:
  assumes "remove_path fs p False False s = (Inl e, s')" "remove_failure_was_side_effect_free fs p c s'"
  shows "contents s' = contents s"
proof -
  from assms(2) obtain t where "read_file_text fs p s' = Inr t"
    by (auto simp: remove_failure_was_side_effect_free_def split: option.splits sum.splits)
  then have "contents s' p \<noteq> None" using read_ok by fastforce
  with remove_failed [OF assms(1)] show ?thesis by auto
qed

lemma apply_add_accounts:
  assumes "apply_add_file ops fs a p c st = (r, st')" "accounts m0 contents st"
  shows "accounts m0 contents st'"
proof -
  obtain ov ex where ov: "read_optional_file_text_for_delta fs p (files st) (exact (delta st)) = (ov, ex)" by fastforce
  obtain r1 s1 where w: "write_file_with_missing_parent_retry ops fs p c (files st) = (r1, s1)" by fastforce
  show ?thesis
  proof (cases r1)
    case (Inl e)
    with assms(1) ov w show ?thesis
      by (intro accounts_inexact) (auto simp: apply_add_file_def apply_state_defs)
  next
    case (Inr u)
    with w write_retry_ok have s1: "contents s1 = (contents (files st))(p := Some c)" by blast
    have st': "files st' = s1" "changes (delta st') = changes (delta st) @ [(p, AddChange c ov)]" "exact (delta st') = ex"
      using assms(1) ov w Inr by (auto simp: apply_add_file_def apply_state_defs)
    have ovc: "exact (delta st) \<and> contents (files st) p = ov" if ex
      using read_optional_exact [of p "files st" "exact (delta st)" ov] ov that by simp
    show ?thesis
      by (rule accounts_push [OF assms(2) _ st'(2)]) (use ovc st' s1 in auto)
  qed
qed

lemma apply_delete_accounts:
  assumes "apply_delete_file ops fs a p st = (r, st')" "accounts m0 contents st"
  shows "accounts m0 contents st'"
proof (cases "read_file_text fs p (files st)")
  case (Inl e)
  with assms(1) have "\<not> exact (delta st')"
    by (auto simp: apply_delete_file_def apply_state_defs Let_def split: sum.splits prod.splits)
  then show ?thesis by (rule accounts_inexact)
next
  case (Inr c)
  note ex = note_existing_exact [of fs p "files st" "exact (delta st)"]
  have c: "contents (files st) p = Some c" using read_ok [OF Inr] .
  show ?thesis
  proof (cases "ensure_not_directory fs p (files st)")
    case (Inl e)
    with assms(1) Inr ex show ?thesis
      by (intro accounts_same [OF assms(2)]) (auto simp: apply_delete_file_def apply_state_defs)
  next
    case (Inr u)
    note nd = this
    obtain r1 s1 where rm: "remove_path fs p False False (files st) = (r1, s1)" by fastforce
    show ?thesis
    proof (cases r1)
      case (Inl e)
      have st': "files st' = s1" "changes (delta st') = changes (delta st)"
        "exact (delta st') \<longleftrightarrow> note_existing_path_delta_support fs p (files st) (exact (delta st)) \<and>
           remove_failure_was_side_effect_free fs p (Some c) s1"
        using assms(1) nd \<open>read_file_text fs p (files st) = Inr c\<close> rm Inl
        by (auto simp: apply_delete_file_def apply_state_defs)
      show ?thesis
        by (rule accounts_same [OF assms(2) _ st'(2)])
          (use st' ex remove_failure_kept [of p "files st" e s1 "Some c"] rm Inl in auto)
    next
      case (Inr u')
      have st': "files st' = s1" "changes (delta st') = changes (delta st) @ [(p, DeleteChange c)]"
        "exact (delta st') = note_existing_path_delta_support fs p (files st) (exact (delta st))"
        using assms(1) nd \<open>read_file_text fs p (files st) = Inr c\<close> rm Inr
        by (auto simp: apply_delete_file_def apply_state_defs)
      have "contents s1 = (contents (files st))(p := None)" using remove_ok rm Inr by blast
      then show ?thesis
        by (intro accounts_push [OF assms(2) _ st'(2)]) (use st' ex c in auto)
    qed
  qed
qed

lemma apply_in_place_accounts:
  assumes "apply_update_in_place ops fs a p old new st = (r, st')" "accounts m0 contents st"
    "contents (files st) p = Some old"
  shows "accounts m0 contents st'"
proof -
  obtain r1 s1 where w: "write_file fs p new (files st) = (r1, s1)" by fastforce
  show ?thesis
  proof (cases r1)
    case (Inl e)
    with assms(1) w show ?thesis
      by (intro accounts_inexact) (auto simp: apply_update_in_place_def apply_state_defs)
  next
    case (Inr u)
    with w write_ok have s1: "contents s1 = (contents (files st))(p := Some new)" by blast
    have st': "files st' = s1" "changes (delta st') = changes (delta st) @ [(p, UpdateChange None old None new)]"
      "exact (delta st') = exact (delta st)"
      using assms(1) w Inr by (auto simp: apply_update_in_place_def apply_state_defs)
    show ?thesis
      by (rule accounts_push [OF assms(2) _ st'(2)]) (use st' s1 assms(3) in auto)
  qed
qed

lemma apply_move_accounts:
  assumes "apply_update_move ops fs a p d old new st = (r, st')" "accounts m0 contents st"
    "contents (files st) p = Some old" "p \<noteq> d"
  shows "accounts m0 contents st'"
proof -
  obtain ov ex where ov: "read_optional_file_text_for_delta fs d (files st) (exact (delta st)) = (ov, ex)" by fastforce
  obtain r1 s1 where w: "write_file_with_missing_parent_retry ops fs d new (files st) = (r1, s1)" by fastforce
  have ovc: "exact (delta st) \<and> contents (files st) d = ov" if ex
    using read_optional_exact [of d "files st" "exact (delta st)" ov] ov that by simp
  show ?thesis
  proof (cases r1)
    case (Inl e)
    with assms(1) ov w show ?thesis
      by (intro accounts_inexact) (auto simp: apply_update_move_def apply_state_defs)
  next
    case (Inr u)
    note ok = this
    with w write_retry_ok have s1: "contents s1 = (contents (files st))(d := Some new)" by blast
    note ev = apply_update_move_def apply_state_defs ov w ok Let_def
    obtain r2 s2 where rm: "remove_path fs p False False s1 = (r2, s2)" by fastforce
    consider (dir) e where "ensure_not_directory fs p s1 = Inl e"
      | (failed) e u where "ensure_not_directory fs p s1 = Inr u" "r2 = Inl e"
      | (removed) u u' where "ensure_not_directory fs p s1 = Inr u" "r2 = Inr u'"
      by (cases "ensure_not_directory fs p s1"; cases r2) auto
    then show ?thesis
    proof cases
      case dir
      then have st': "files st' = s1" "changes (delta st') = changes (delta st) @ [(d, AddChange new ov)]" "exact (delta st') = ex"
        using assms(1) by (auto simp: ev)
      show ?thesis by (rule accounts_push [OF assms(2) _ st'(2)]) (use ovc st' s1 in auto)
    next
      case failed
      then have st': "files st' = s2" "changes (delta st') = changes (delta st) @ [(d, AddChange new ov)]"
        "exact (delta st') \<longleftrightarrow> ex \<and> remove_failure_was_side_effect_free fs p (Some old) s2"
        using assms(1) rm by (auto simp: ev)
      have "contents s2 = contents s1" if "exact (delta st')"
        using remove_failure_kept [of p s1] rm failed(2) st'(3) that by blast
      with ovc st' s1 show ?thesis by (intro accounts_push [OF assms(2) _ st'(2)]) auto
    next
      case removed
      then have st': "files st' = s2" "changes (delta st') = changes (delta st) @ [(p, UpdateChange (Some d) old ov new)]"
        "exact (delta st') = ex"
        using assms(1) rm by (auto simp: ev)
      have "contents s2 = (contents s1)(p := None)" using remove_ok rm removed(2) by blast
      with ovc st' s1 assms(3,4) show ?thesis
        by (intro accounts_push [OF assms(2) _ st'(2)]) (auto simp: fun_upd_twist)
    qed
  qed
qed

lemma derive_reads:
  "derive_new_contents_from_chunks ops fs p chunks s = Some (Inr (old, new)) \<Longrightarrow> contents s p = Some old"
  using read_ok by (auto simp: derive_new_contents_from_chunks_def split: sum.splits option.splits)

lemma apply_update_accounts:
  assumes "apply_update_file ops fs cwd a p mv chunks st = (r, st')" "accounts m0 contents st"
    "case mv of None \<Rightarrow> True | Some d \<Rightarrow> uri_join ops cwd d \<noteq> Inr p"
  shows "accounts m0 contents st'"
proof -
  let ?st1 = "set_exact (note_existing_path_delta_support fs p (files st) (exact (delta st))) st"
  have acc: "accounts m0 contents ?st1"
    by (rule accounts_same [OF assms(2)]) (auto simp: set_exact_def dest: note_existing_exact)
  consider (panic) "derive_new_contents_from_chunks ops fs p chunks (files st) = None"
    | (failed) e where "derive_new_contents_from_chunks ops fs p chunks (files st) = Some (Inl e)"
    | (derived) old new where "derive_new_contents_from_chunks ops fs p chunks (files st) = Some (Inr (old, new))"
    by (metis option.exhaust prod.exhaust sum.exhaust)
  then show ?thesis
  proof cases
    case derived
    have old: "contents (files ?st1) p = Some old" using derive_reads [OF derived] by (simp add: set_exact_def)
    have d: "derive_new_contents_from_chunks ops fs p chunks (files ?st1) = Some (Inr (old, new))"
      using derived by (simp add: set_exact_def)
    show ?thesis
    proof (cases mv)
      case None
      with assms(1) d apply_in_place_accounts [OF _ acc old] show ?thesis
        by (auto simp: apply_update_file_def Let_def)
    next
      case (Some m)
      show ?thesis
      proof (cases "uri_join ops cwd m")
        case (Inl e)
        with assms(1) d Some acc show ?thesis by (auto simp: apply_update_file_def Let_def)
      next
        case (Inr dest)
        with assms(3) Some have "p \<noteq> dest" by auto
        with assms(1) d Some Inr apply_move_accounts [OF _ acc old] show ?thesis
          by (auto simp: apply_update_file_def Let_def)
      qed
    qed
  qed (use assms(1) acc in \<open>auto simp: apply_update_file_def Let_def set_exact_def\<close>)
qed

lemma apply_hunk_accounts:
  assumes "apply_hunk ops fs cwd h st = (r, st')" "accounts m0 contents st" "\<not> moves_onto_itself ops cwd h"
  shows "accounts m0 contents st'"
proof (cases "uri_join ops cwd (hunk_source_path h)")
  case (Inl e)
  with assms show ?thesis by (auto simp: apply_hunk_def)
next
  case (Inr p)
  show ?thesis
  proof (cases h)
    case (AddFile q c)
    with assms Inr show ?thesis by (auto simp: apply_hunk_def intro: apply_add_accounts)
  next
    case (DeleteFile q)
    with assms Inr show ?thesis by (auto simp: apply_hunk_def intro: apply_delete_accounts)
  next
    case (UpdateFile q mv chunks)
    have "case mv of None \<Rightarrow> True | Some d \<Rightarrow> uri_join ops cwd d \<noteq> Inr p"
      using assms(3) Inr UpdateFile by (auto split: option.splits)
    with assms(1,2) Inr UpdateFile show ?thesis
      by (auto simp: apply_hunk_def intro: apply_update_accounts)
  qed
qed

lemma apply_each_hunk_accounts:
  assumes "apply_each_hunk ops fs cwd hs st = (r, st')" "accounts m0 contents st"
    "\<forall>h \<in> set hs. \<not> moves_onto_itself ops cwd h"
  shows "accounts m0 contents st'"
  using assms
proof (induction hs arbitrary: st)
  case (Cons h hs)
  obtain r1 st1 where h: "apply_hunk ops fs cwd h st = (r1, st1)" by fastforce
  then have "accounts m0 contents st1" using Cons.prems by (auto intro: apply_hunk_accounts)
  with Cons h show ?case by (cases r1) auto
qed simp

lemma apply_hunks_accounts:
  assumes "\<forall>h \<in> set hs. \<not> moves_onto_itself ops cwd h"
    and "exact (out_delta (apply_hunks ops fs w w' cwd hs s))"
  shows "contents (out_files (apply_hunks ops fs w w' cwd hs s)) =
       replay (out_delta (apply_hunks ops fs w w' cwd hs s)) (contents s) \<and>
     undo (out_delta (apply_hunks ops fs w w' cwd hs s)) (contents (out_files (apply_hunks ops fs w w' cwd hs s))) = contents s"
proof -
  obtain r st where st: "apply_hunks_to_files ops fs cwd hs delta_empty s = (r, st)" by fastforce
  have "accounts (contents s) contents st"
  proof (cases "hs = []")
    case True
    with st show ?thesis
      by (auto simp: apply_hunks_to_files_def accounts_def replay_def undo_def delta_empty_def)
  next
    case False
    with st have "apply_each_hunk ops fs cwd hs
        \<lparr>files = s, delta = delta_empty, affected = \<lparr>added = [], modified = [], deleted = []\<rparr>\<rparr> = (r, st)"
      by (simp add: apply_hunks_to_files_def)
    then show ?thesis
      by (rule apply_each_hunk_accounts [OF _ _ assms(1)]) (simp add: accounts_def replay_def undo_def delta_empty_def)
  qed
  moreover have "out_delta (apply_hunks ops fs w w' cwd hs s) = delta st \<and> out_files (apply_hunks ops fs w w' cwd hs s) = files st"
    using st by (cases r) (auto simp: apply_hunks_def split: prod.splits)
  ultimately show ?thesis using assms(2) by (auto simp: accounts_def)
qed

lemma self_move_removes:
  assumes "apply_hunk ops fs cwd (UpdateFile p (Some d) chunks) st = (Inr u, st')"
    "uri_join ops cwd p = Inr q" "uri_join ops cwd d = Inr q"
  shows "contents (files st') q = None"
proof -
  have f: "files (set_exact b st) = files st" "files (push_modified x st) = files st" for b x and st :: "('p, 's) apply_state"
    by (simp_all add: apply_state_defs)
  from assms obtain s' s'' u' where "remove_path fs q False False s' = (Inr u', s'')" "files st' = s''"
    by (auto simp: apply_hunk_def apply_update_file_def apply_update_move_def Let_def f
        split: option.splits sum.splits prod.splits)
  with remove_ok show ?thesis by auto
qed

end

section \<open>Properties on the direct file system\<close>

text \<open>
  C3: The delta of a patch application is a true account of it: whether the application succeeds or
  fails midway, as long as the delta is marked exact, replaying it on the texts before gives the
  texts after, and taking it back from the texts after gives the texts before. Hunks that move a
  file onto itself are excluded.
\<close>

theorem exact_delta_accounts:
  assumes "\<forall>h \<in> set hs. \<not> moves_onto_itself ops cwd h"
    and "o1 = apply_hunks ops direct_fs w w' cwd hs t" "exact (out_delta o1)"
  shows "tree_text (out_files o1) = replay (out_delta o1) (tree_text t) \<and>
     undo (out_delta o1) (tree_text (out_files o1)) = tree_text t"
  using direct.apply_hunks_accounts [OF assms(1), of w w' t] assms(2,3) by blast

text \<open>Native absolute paths as path URIs.\<close>

definition native_ops :: "path path_uri_ops" where
  "native_ops = \<lparr>uri_join = (\<lambda>cwd s. Ok (absolutize_from (path_components s) cwd)), uri_parent = parent_path,
     native_path_string = path_display\<rparr>"

definition sample_tree :: tree where
  "sample_tree = [([RootDir], Directory), ([RootDir, Normal (lit ''a'')], TextFile (lit ''x'' @ [10]))]"

definition silent_writer :: line_writer where
  "silent_writer _ _ = None"

lemma join_a: "uri_join native_ops [RootDir] (lit ''a'') = Ok [RootDir, Normal (lit ''a'')]"
proof -
  have "absolutize_from (path_components (lit ''a'')) [RootDir] = [RootDir, Normal (lit ''a'')]" by code_simp
  then show ?thesis by (simp add: native_ops_def)
qed

lemmas apply_eval = apply_hunks_def apply_hunks_to_files_def apply_hunk_def apply_add_file_def apply_delete_file_def
  apply_state_defs delta_empty_def read_optional_file_text_for_delta_def note_existing_path_delta_support_def
  direct_fs_def direct_read_file_text_def direct_get_metadata_def is_file_node_def sample_tree_def
  write_file_with_missing_parent_retry_def std_write_def print_summary_def silent_writer_def MAX_READ_FILE_BYTES_def

theorem exact_delta_accounts_witness:
  "let o1 = apply_hunks native_ops direct_fs silent_writer silent_writer [RootDir] [AddFile (lit ''a'') (lit ''y'')] sample_tree
   in exact (out_delta o1) \<and> tree_text (out_files o1) [RootDir, Normal (lit ''a'')] = Some (lit ''y'') \<and>
      undo (out_delta o1) (tree_text (out_files o1)) = tree_text sample_tree"
proof -
  let ?hs = "[AddFile (lit ''a'') (lit ''y'')]"
  let ?o = "apply_hunks native_ops direct_fs silent_writer silent_writer [RootDir] ?hs sample_tree"
  have h: "\<forall>h \<in> set ?hs. \<not> moves_onto_itself native_ops [RootDir] h" by simp
  have d: "out_delta ?o = \<lparr>changes = [([RootDir, Normal (lit ''a'')], AddChange (lit ''y'') (Some (lit ''x'' @ [10])))], exact = True\<rparr>"
    using join_a by (simp add: apply_eval len_utf8_def)
  then have e: "exact (out_delta ?o)" by simp
  from exact_delta_accounts [OF h refl e]
  have r: "tree_text (out_files ?o) = replay (out_delta ?o) (tree_text sample_tree)"
    and u: "undo (out_delta ?o) (tree_text (out_files ?o)) = tree_text sample_tree" by blast+
  have "tree_text (out_files ?o) [RootDir, Normal (lit ''a'')] = Some (lit ''y'')"
    unfolding r d by (simp add: replay_def)
  with e u show ?thesis unfolding Let_def by blast
qed

text \<open>
  An update hunk whose \<open>Move to\<close> names the file itself, when it is reported as applied, has
  removed the file and its new contents.
\<close>

theorem self_move_deletes_file:
  assumes "apply_hunk ops direct_fs cwd (UpdateFile p (Some d) chunks) st = (Ok (), st')"
    and "uri_join ops cwd p = Ok q" "uri_join ops cwd d = Ok q"
  shows "tree_text (files st') q = None"
  using direct.self_move_removes [OF assms] .

theorem self_move_deletes_file_witness:
  "let c = \<lparr>change_context = None, old_lines = [lit ''x''], new_lines = [lit ''y''], is_end_of_file = False\<rparr>;
       st = \<lparr>files = sample_tree, delta = delta_empty, affected = \<lparr>added = [], modified = [], deleted = []\<rparr>\<rparr>;
       r = apply_hunk native_ops direct_fs [RootDir] (UpdateFile (lit ''a'') (Some (lit ''a'')) [c]) st
   in fst r = Ok () \<and> tree_text (files (snd r)) [RootDir, Normal (lit ''a'')] = None"
proof -
  let ?c = "\<lparr>change_context = None, old_lines = [lit ''x''], new_lines = [lit ''y''], is_end_of_file = False\<rparr>"
  let ?st = "\<lparr>files = sample_tree, delta = delta_empty, affected = \<lparr>added = [], modified = [], deleted = []\<rparr>\<rparr>"
  let ?r = "apply_hunk native_ops direct_fs [RootDir] (UpdateFile (lit ''a'') (Some (lit ''a'')) [?c]) ?st"
  have new: "new_contents_from_chunks n (lit ''x'' @ [10]) [?c] = Some (Ok (lit ''y'' @ [10]))" for n
    by (simp add: new_contents_from_chunks_def content_lines_def compute_replacements_def chunk_context_def
        chunk_replacement_def seek_sequence_def search_start_def seek_pass_def matches_at_def Let_def
        apply_replacements_def new_contents_of_lines_def last_is_empty_def)
  have "fst ?r = Ok ()"
    using join_a new
    by (simp add: apply_eval len_utf8_def apply_update_file_def derive_new_contents_from_chunks_def
        apply_update_move_def ensure_not_directory_def direct_remove_def std_remove_file_def Let_def)
  then have ok: "?r = (Ok (), snd ?r)" by (metis prod.collapse)
  from self_move_deletes_file [OF ok join_a join_a] \<open>fst ?r = Ok ()\<close> show ?thesis
    unfolding Let_def by blast
qed

section \<open>Reporting\<close>

lemma write_lines_Ok: "write_lines w done ls = (Inr u, out) \<Longrightarrow> out = done @ ls"
  by (induction w "done" ls rule: write_lines.induct) (auto split: option.splits)

lemma print_summary_Ok:
  "print_summary w a = (Inr u, out) \<Longrightarrow>
     out = lit ''Success. Updated the following files:'' #
       map (\<lambda>p. lit ''A '' @ p) (added a) @ map (\<lambda>p. lit ''M '' @ p) (modified a) @
       map (\<lambda>p. lit ''D '' @ p) (deleted a)"
  unfolding print_summary_def by (drule write_lines_Ok) simp

definition add_affected :: "hunk \<Rightarrow> affected_paths \<Rightarrow> affected_paths" where
  "add_affected h a =
     (case h of
        AddFile _ _ \<Rightarrow> a\<lparr>added := added a @ [hunk_path h]\<rparr>
      | DeleteFile _ \<Rightarrow> a\<lparr>deleted := deleted a @ [hunk_path h]\<rparr>
      | UpdateFile _ _ _ \<Rightarrow> a\<lparr>modified := modified a @ [hunk_path h]\<rparr>)"

lemma apply_hunk_affected:
  assumes "apply_hunk ops fs cwd h st = (Inr u, st')"
  shows "affected st' = add_affected h (affected st)"
  using assms
  by (cases h)
    (auto simp: apply_hunk_def apply_add_file_def apply_delete_file_def apply_update_file_def apply_update_in_place_def
      apply_update_move_def apply_state_defs add_affected_def Let_def
      split: sum.splits prod.splits option.splits)

lemma apply_each_hunk_affected:
  "apply_each_hunk ops fs cwd hs st = (Inr u, st') \<Longrightarrow> affected st' = fold add_affected hs (affected st)"
  by (induction ops fs cwd hs st rule: apply_each_hunk.induct)
    (auto split: prod.splits sum.splits dest!: apply_hunk_affected)

definition is_add :: "hunk \<Rightarrow> bool" where "is_add h \<longleftrightarrow> (case h of AddFile _ _ \<Rightarrow> True | _ \<Rightarrow> False)"
definition is_delete :: "hunk \<Rightarrow> bool" where "is_delete h \<longleftrightarrow> (case h of DeleteFile _ \<Rightarrow> True | _ \<Rightarrow> False)"

lemma fold_add_affected:
  "fold add_affected hs a =
     \<lparr>added = added a @ map hunk_path (filter is_add hs),
      modified = modified a @ map hunk_path (filter (\<lambda>h. \<not> is_add h \<and> \<not> is_delete h) hs),
      deleted = deleted a @ map hunk_path (filter is_delete hs)\<rparr>"
  by (induction hs arbitrary: a) (auto simp: add_affected_def is_add_def is_delete_def split: hunk.splits)

text \<open>
  A patch reported as applied had at least one hunk, and the summary lists every hunk once, by
  kind and in the order of the patch, a moved file under its new name.
\<close>

theorem applied_patch_summary:
  assumes "o1 = apply_hunks ops fs w w' cwd hs s" "result o1 = Ok ()"
  shows "hs \<noteq> [] \<and> stderr o1 = [] \<and>
     stdout o1 = lit ''Success. Updated the following files:'' #
       map (\<lambda>h. lit ''A '' @ hunk_path h) (filter is_add hs) @
       map (\<lambda>h. lit ''M '' @ hunk_path h) (filter (\<lambda>h. \<not> is_add h \<and> \<not> is_delete h) hs) @
       map (\<lambda>h. lit ''D '' @ hunk_path h) (filter is_delete hs)"
proof -
  obtain r st where st: "apply_hunks_to_files ops fs cwd hs delta_empty s = (r, st)" by fastforce
  from assms st obtain u where r: "r = Inr u" by (cases r) (auto simp: apply_hunks_def split: prod.splits)
  with st have "apply_each_hunk ops fs cwd hs
      \<lparr>files = s, delta = delta_empty, affected = \<lparr>added = [], modified = [], deleted = []\<rparr>\<rparr> = (Inr u, st)" "hs \<noteq> []"
    by (auto simp: apply_hunks_to_files_def Let_def split: if_splits)
  moreover from this have "affected st = \<lparr>added = map hunk_path (filter is_add hs),
      modified = map hunk_path (filter (\<lambda>h. \<not> is_add h \<and> \<not> is_delete h) hs),
      deleted = map hunk_path (filter is_delete hs)\<rparr>"
    by (auto dest!: apply_each_hunk_affected simp: fold_add_affected)
  moreover obtain r' out where p: "print_summary w (affected st) = (r', out)" by fastforce
  moreover have "stdout o1 = out" "stderr o1 = []" and "r' = Inr ()"
    using assms st r p by (auto simp: apply_hunks_def split: sum.splits)
  ultimately show ?thesis
    by (auto simp: comp_def dest!: print_summary_Ok)
qed

theorem applied_patch_summary_witness:
  "let o1 = apply_hunks native_ops direct_fs silent_writer silent_writer [RootDir] [AddFile (lit ''a'') (lit ''y'')] sample_tree
   in result o1 = Ok () \<and> stdout o1 = [lit ''Success. Updated the following files:'', lit ''A a'']"
proof -
  let ?o = "apply_hunks native_ops direct_fs silent_writer silent_writer [RootDir] [AddFile (lit ''a'') (lit ''y'')] sample_tree"
  have ok: "result ?o = Ok ()" using join_a by (simp add: apply_eval len_utf8_def)
  from applied_patch_summary [OF refl ok] have "stdout ?o = [lit ''Success. Updated the following files:'', lit ''A a'']"
    by (simp add: is_add_def is_delete_def)
  with ok show ?thesis unfolding Let_def by blast
qed

end
