(* ===== verification/Stream_Text.thy ===== *)
theory Stream_Text
  imports Prelude
begin

text \<open>
  Streamed assistant text: \<open>utils/stream-parser/src/stream_text.rs\<close>. A parser is fed pieces of
  text; for each it returns the text that is safe to show and the payloads it extracted. The
  locale \<open>stream_text_parser\<close> states the contract of the trait \<open>StreamTextParser\<close>: how the text
  is cut into pieces does not matter. Some parsers merge neighbouring payloads of one piece, so
  payloads are compared through a normal form.
\<close>

record 'x stream_text_chunk =
  visible_text :: ustr
  extracted :: "'x list"

definition chunk_default :: "'x stream_text_chunk" where
  "chunk_default = \<lparr>visible_text = [], extracted = []\<rparr>"

definition chunk_is_empty :: "'x stream_text_chunk \<Rightarrow> bool" where
  "chunk_is_empty c \<longleftrightarrow> visible_text c = [] \<and> extracted c = []"

text \<open>What two chunks amount to one after the other.\<close>

definition chunk_append :: "'x stream_text_chunk \<Rightarrow> 'x stream_text_chunk \<Rightarrow> 'x stream_text_chunk" where
  "chunk_append c d = \<lparr>visible_text = visible_text c @ visible_text d, extracted = extracted c @ extracted d\<rparr>"

lemma chunk_append_simps [simp]:
  "visible_text (chunk_append c d) = visible_text c @ visible_text d"
  "extracted (chunk_append c d) = extracted c @ extracted d"
  "visible_text chunk_default = []" "extracted chunk_default = []"
  by (simp_all add: chunk_append_def chunk_default_def)

lemma chunk_append_default [simp]: "chunk_append chunk_default c = c" "chunk_append c chunk_default = c"
  by (simp_all add: chunk_append_def)

lemma chunk_append_assoc: "chunk_append (chunk_append a b) c = chunk_append a (chunk_append b c)"
  by (simp add: chunk_append_def)

text \<open>Feeding a list of pieces.\<close>

fun push_all :: "('p \<Rightarrow> ustr \<Rightarrow> 'p \<times> 'x stream_text_chunk) \<Rightarrow> 'p \<Rightarrow> ustr list \<Rightarrow> 'p \<times> 'x stream_text_chunk" where
  "push_all push p [] = (p, chunk_default)"
| "push_all push p (t # ts) =
     (let (p1, c1) = push p t; (p2, c2) = push_all push p1 ts in (p2, chunk_append c1 c2))"

text \<open>
  Equality of chunks up to a normal form \<open>norm\<close> of the payloads, which must not depend on how
  payloads are grouped.
\<close>

locale stream_text_parser =
  fixes push :: "'p \<Rightarrow> ustr \<Rightarrow> 'p \<times> 'x stream_text_chunk"
    and finish :: "'p \<Rightarrow> 'p \<times> 'x stream_text_chunk"
    and inv :: "'p \<Rightarrow> bool"
    and norm :: "'x list \<Rightarrow> 'n list"
  assumes norm_append: "norm xs = norm xs' \<Longrightarrow> norm ys = norm ys' \<Longrightarrow> norm (xs @ ys) = norm (xs' @ ys')"
    and inv_push: "inv p \<Longrightarrow> inv (fst (push p t))"
    and push_append_state: "inv p \<Longrightarrow> fst (push p (s @ t)) = fst (push (fst (push p s)) t)"
    and push_append_visible: "inv p \<Longrightarrow>
      visible_text (snd (push p (s @ t))) = visible_text (snd (push p s)) @ visible_text (snd (push (fst (push p s)) t))"
    and push_append_extracted: "inv p \<Longrightarrow>
      norm (extracted (snd (push p (s @ t)))) =
      norm (extracted (snd (push p s)) @ extracted (snd (push (fst (push p s)) t)))"
    and push_Nil: "inv p \<Longrightarrow> push p [] = (p, chunk_default)"
begin

definition same_chunk :: "'x stream_text_chunk \<Rightarrow> 'x stream_text_chunk \<Rightarrow> bool" where
  "same_chunk c d \<longleftrightarrow> visible_text c = visible_text d \<and> norm (extracted c) = norm (extracted d)"

lemma same_chunk_refl [simp]: "same_chunk c c"
  by (simp add: same_chunk_def)

lemma same_chunk_append: "same_chunk a a' \<Longrightarrow> same_chunk b b' \<Longrightarrow> same_chunk (chunk_append a b) (chunk_append a' b')"
  by (auto simp: same_chunk_def intro: norm_append)

lemma same_chunk_trans: "same_chunk a b \<Longrightarrow> same_chunk b c \<Longrightarrow> same_chunk a c"
  by (simp add: same_chunk_def)

lemma push_append:
  assumes "inv p"
  shows "fst (push p (s @ t)) = fst (push (fst (push p s)) t)"
    "same_chunk (snd (push p (s @ t))) (chunk_append (snd (push p s)) (snd (push (fst (push p s)) t)))"
  using push_append_state [OF assms] push_append_visible [OF assms] push_append_extracted [OF assms]
  by (simp_all add: same_chunk_def)

lemma push_all_concat:
  assumes "inv p"
  shows "fst (push_all push p ts) = fst (push p (concat ts)) \<and>
     same_chunk (snd (push_all push p ts)) (snd (push p (concat ts)))"
  using assms
proof (induction ts arbitrary: p)
  case Nil
  then show ?case by (simp add: push_Nil)
next
  case (Cons t ts)
  obtain p1 c1 where 1: "push p t = (p1, c1)" by fastforce
  obtain p2 c2 where 2: "push_all push p1 ts = (p2, c2)" by fastforce
  have "inv p1" using inv_push [OF Cons.prems, of t] 1 by simp
  from Cons.IH [OF this] 2 have ih: "p2 = fst (push p1 (concat ts))" "same_chunk c2 (snd (push p1 (concat ts)))"
    by simp_all
  have "same_chunk (chunk_append c1 c2) (chunk_append c1 (snd (push p1 (concat ts))))"
    using ih(2) by (rule same_chunk_append [OF same_chunk_refl])
  moreover have "same_chunk (chunk_append c1 (snd (push p1 (concat ts)))) (snd (push p (t @ concat ts)))"
    using push_append(2) [OF Cons.prems, of t "concat ts"] 1 by (simp add: same_chunk_def)
  ultimately have "same_chunk (chunk_append c1 c2) (snd (push p (t @ concat ts)))" by (rule same_chunk_trans)
  with ih(1) push_append(1) [OF Cons.prems, of t "concat ts"] 1 2 show ?case by simp
qed

end

end
