(* ===== verification/Hidden_Tags.thy ===== *)
theory Hidden_Tags
  imports Stream_Text
begin

text \<open>
  The parser that hides inline tags and extracts their contents,
  \<open>utils/stream-parser/src/inline_hidden_tag.rs\<close>, and its use for memory citations,
  \<open>citation.rs\<close>. A string index of the source is an index into the list of characters.

  The loop of \<open>push_str\<close> drains a delimiter in every round; as the constructor refuses empty
  delimiters, more rounds than there are pending characters cannot happen, and the fuel of the
  model is this number plus one. Running out of fuel is \<open>None\<close>, and is shown not to occur.
\<close>

section \<open>inline_hidden_tag.rs\<close>

record 'T inline_tag_spec =
  spec_tag :: 'T
  spec_open :: ustr
  spec_close :: ustr

record 'T active_tag =
  tag :: 'T
  close :: ustr
  content :: ustr

record 'T inline_hidden_tag_parser =
  specs :: "'T inline_tag_spec list"
  pending :: ustr
  active :: "'T active_tag option"

type_synonym 'T extracted_inline_tag = "'T \<times> ustr"

text \<open>The constructor; \<open>None\<close> is a failed assertion.\<close>

definition spec_ok :: "'T inline_tag_spec \<Rightarrow> bool" where
  "spec_ok sp \<longleftrightarrow> spec_open sp \<noteq> [] \<and> spec_close sp \<noteq> []"

definition inline_parser_new :: "'T inline_tag_spec list \<Rightarrow> 'T inline_hidden_tag_parser option" where
  "inline_parser_new sps =
     (if sps \<noteq> [] \<and> list_all spec_ok sps then Some \<lparr>specs = sps, pending = [], active = None\<rparr> else None)"

text \<open>Candidates \<open>(position, byte length, index)\<close>: the earliest, then the longest, then the first.\<close>

definition open_before :: "nat \<times> nat \<times> nat \<Rightarrow> nat \<times> nat \<times> nat \<Rightarrow> bool" where
  "open_before a b \<longleftrightarrow>
     (case (a, b) of ((pos_a, len_a, idx_a), (pos_b, len_b, idx_b)) \<Rightarrow>
        pos_a < pos_b \<or> pos_a = pos_b \<and> (len_b < len_a \<or> len_a = len_b \<and> idx_a < idx_b))"

fun min_open :: "(nat \<times> nat \<times> nat) list \<Rightarrow> (nat \<times> nat \<times> nat) option" where
  "min_open [] = None"
| "min_open (c # cs) =
     (case min_open cs of None \<Rightarrow> Some c | Some d \<Rightarrow> Some (if open_before d c then d else c))"

definition open_candidates :: "'T inline_tag_spec list \<Rightarrow> ustr \<Rightarrow> (nat \<times> nat \<times> nat) list" where
  "open_candidates sps s =
     List.map_filter
       (\<lambda>(idx, sp). map_option (\<lambda>pos. (pos, byte_len (spec_open sp), idx)) (find_sub (spec_open sp) s))
       (enumerate 0 sps)"

definition find_next_open :: "'T inline_tag_spec list \<Rightarrow> ustr \<Rightarrow> (nat \<times> nat) option" where
  "find_next_open sps s = map_option (\<lambda>(pos, _, idx). (pos, idx)) (min_open (open_candidates sps s))"

fun longest_from :: "nat \<Rightarrow> ustr \<Rightarrow> ustr \<Rightarrow> nat" where
  "longest_from 0 s needle = 0"
| "longest_from (Suc k) s needle = (if ends_with (take (Suc k) needle) s then Suc k else longest_from k s needle)"

definition longest_suffix_prefix_len :: "ustr \<Rightarrow> ustr \<Rightarrow> nat" where
  "longest_suffix_prefix_len s needle = longest_from (min (length s) (length needle - 1)) s needle"

definition max_open_prefix_suffix_len :: "'T inline_tag_spec list \<Rightarrow> ustr \<Rightarrow> nat" where
  "max_open_prefix_suffix_len sps s =
     fold max (map (\<lambda>sp. longest_suffix_prefix_len s (spec_open sp)) sps) 0"

text \<open>One round of the loop: the parser, what it adds to the output, and whether it goes on.\<close>

definition push_round ::
  "'T inline_hidden_tag_parser \<Rightarrow> 'T inline_hidden_tag_parser \<times> 'T extracted_inline_tag stream_text_chunk \<times> bool" where
  "push_round p =
     (case active p of
        Some a \<Rightarrow>
          (case find_sub (close a) (pending p) of
             Some close_idx \<Rightarrow>
               (p\<lparr>active := None, pending := drop (close_idx + length (close a)) (pending p)\<rparr>,
                \<lparr>visible_text = [], extracted = [(tag a, content a @ take close_idx (pending p))]\<rparr>, True)
           | None \<Rightarrow>
               (let keep = longest_suffix_prefix_len (pending p) (close a);
                    n = length (pending p) - keep
                in (p\<lparr>active := Some (a\<lparr>content := content a @ take n (pending p)\<rparr>), pending := drop n (pending p)\<rparr>,
                    chunk_default, False)))
      | None \<Rightarrow>
          (case find_next_open (specs p) (pending p) of
             Some (open_idx, spec_idx) \<Rightarrow>
               (let spec = specs p ! spec_idx
                in (p\<lparr>pending := drop (open_idx + length (spec_open spec)) (pending p),
                      active := Some \<lparr>tag = spec_tag spec, close = spec_close spec, content = []\<rparr>\<rparr>,
                    \<lparr>visible_text = take open_idx (pending p), extracted = []\<rparr>, True))
           | None \<Rightarrow>
               (let keep = max_open_prefix_suffix_len (specs p) (pending p);
                    n = length (pending p) - keep
                in (p\<lparr>pending := drop n (pending p)\<rparr>, \<lparr>visible_text = take n (pending p), extracted = []\<rparr>, False))))"

fun push_loop ::
  "nat \<Rightarrow> 'T inline_hidden_tag_parser \<Rightarrow>
   ('T inline_hidden_tag_parser \<times> 'T extracted_inline_tag stream_text_chunk) option" where
  "push_loop 0 p = None"
| "push_loop (Suc fuel) p =
     (case push_round p of
        (p', c, goes_on) \<Rightarrow>
          if goes_on then map_option (\<lambda>(p'', c'). (p'', chunk_append c c')) (push_loop fuel p')
          else Some (p', c))"

definition inline_push_str ::
  "'T inline_hidden_tag_parser \<Rightarrow> ustr \<Rightarrow>
   ('T inline_hidden_tag_parser \<times> 'T extracted_inline_tag stream_text_chunk) option" where
  "inline_push_str p chunk =
     (let p' = p\<lparr>pending := pending p @ chunk\<rparr> in push_loop (Suc (length (pending p'))) p')"

definition inline_finish ::
  "'T inline_hidden_tag_parser \<Rightarrow> 'T inline_hidden_tag_parser \<times> 'T extracted_inline_tag stream_text_chunk" where
  "inline_finish p =
     (case active p of
        Some a \<Rightarrow>
          (p\<lparr>active := None, pending := []\<rparr>,
           \<lparr>visible_text = [], extracted = [(tag a, content a @ pending p)]\<rparr>)
      | None \<Rightarrow> (p\<lparr>pending := []\<rparr>, \<lparr>visible_text = pending p, extracted = []\<rparr>))"

section \<open>citation.rs\<close>

datatype citation_tag = Citation

definition CITATION_OPEN :: ustr where "CITATION_OPEN = lit ''<oai-mem-citation>''"
definition CITATION_CLOSE :: ustr where "CITATION_CLOSE = lit ''</oai-mem-citation>''"

type_synonym citation_stream_parser = "citation_tag inline_hidden_tag_parser"

definition citation_specs :: "citation_tag inline_tag_spec list" where
  "citation_specs = [\<lparr>spec_tag = Citation, spec_open = CITATION_OPEN, spec_close = CITATION_CLOSE\<rparr>]"

definition citation_new :: citation_stream_parser where
  "citation_new = \<lparr>specs = citation_specs, pending = [], active = None\<rparr>"

definition citation_chunk :: "citation_tag extracted_inline_tag stream_text_chunk \<Rightarrow> ustr stream_text_chunk" where
  "citation_chunk c = \<lparr>visible_text = visible_text c, extracted = map snd (extracted c)\<rparr>"

text \<open>The second branch is never taken on a parser made by \<open>citation_new\<close>.\<close>

definition citation_push_str :: "citation_stream_parser \<Rightarrow> ustr \<Rightarrow> citation_stream_parser \<times> ustr stream_text_chunk" where
  "citation_push_str p chunk =
     (case inline_push_str p chunk of
        Some (p', c) \<Rightarrow> (p', citation_chunk c)
      | None \<Rightarrow> (p, chunk_default))"

definition citation_finish :: "citation_stream_parser \<Rightarrow> citation_stream_parser \<times> ustr stream_text_chunk" where
  "citation_finish p = (case inline_finish p of (p', c) \<Rightarrow> (p', citation_chunk c))"

definition strip_citations :: "ustr \<Rightarrow> ustr \<times> ustr list" where
  "strip_citations text =
     (let (p, out) = citation_push_str citation_new text;
          tail = snd (citation_finish p)
      in (visible_text out @ visible_text tail, extracted out @ extracted tail))"

section \<open>Searching across a cut\<close>

lemma longest_from_spec:
  "longest_from m s needle \<le> m \<and> (longest_from m s needle = 0 \<or> ends_with (take (longest_from m s needle) needle) s) \<and>
   (\<forall>j. longest_from m s needle < j \<and> j \<le> m \<longrightarrow> \<not> ends_with (take j needle) s)"
  by (induction m) (auto simp: le_Suc_eq)

lemma longest_suffix_prefix_len_le: "longest_suffix_prefix_len s needle \<le> length s"
  using longest_from_spec [of "min (length s) (length needle - 1)" s needle]
  by (simp add: longest_suffix_prefix_len_def)

lemma longest_suffix_prefix_len_suffix: "ends_with (take (longest_suffix_prefix_len s needle) needle) s"
  using longest_from_spec [of "min (length s) (length needle - 1)" s needle]
  by (auto simp: longest_suffix_prefix_len_def ends_with_iff)

lemma longest_suffix_prefix_len_max:
  assumes "j < length needle" "ends_with (take j needle) s"
  shows "j \<le> longest_suffix_prefix_len s needle"
proof -
  have "j \<le> length s" using assms by (auto simp: ends_with_iff)
  then have m: "j \<le> min (length s) (length needle - 1)" using assms(1) by auto
  show ?thesis
  proof (rule ccontr)
    assume "\<not> j \<le> longest_suffix_prefix_len s needle"
    then have "longest_from (min (length s) (length needle - 1)) s needle < j"
      by (simp add: longest_suffix_prefix_len_def)
    with m assms(2) longest_from_spec [of "min (length s) (length needle - 1)" s needle] show False by blast
  qed
qed

lemma longest_suffix_prefix_len_less: "needle \<noteq> [] \<Longrightarrow> longest_suffix_prefix_len s needle < length needle"
  using longest_from_spec [of "min (length s) (length needle - 1)" s needle]
  by (cases needle) (auto simp: longest_suffix_prefix_len_def)

text \<open>Text that is only a beginning of the needle stays; everything before can be given away.\<close>

lemma straddle:
  assumes "find_sub needle a = None" "starts_with needle (drop i a @ b)" "i \<le> length a"
  shows "length a - longest_suffix_prefix_len a needle \<le> i"
proof (cases "length needle \<le> length (drop i a)")
  case True
  with assms(2) have "starts_with needle (drop i a)" by (simp add: starts_with_append_short)
  with find_sub_None_occurs [OF assms(1)] show ?thesis by blast
next
  case False
  then have "take (length a - i) needle = drop i a"
    using assms(2) by (auto simp: starts_with_iff append_eq_append_conv_if)
  then have "ends_with (take (length a - i) needle) a"
    unfolding ends_with_iff by (metis append_take_drop_id)
  with False longest_suffix_prefix_len_max [of "length a - i" needle a] show ?thesis by simp
qed

lemma find_sub_cut:
  assumes "find_sub needle a = None"
  defines "n \<equiv> length a - longest_suffix_prefix_len a needle"
  shows "find_sub needle (a @ b) = map_option ((+) n) (find_sub needle (drop n a @ b))"
proof -
  have n: "n \<le> length a" by (simp add: n_def)
  have later: "drop (n + j) (a @ b) = drop j (drop n a @ b)" for j
    using n by (simp add: add.commute)
  have early: "\<not> starts_with needle (drop i (a @ b))" if "i < n" for i
    using straddle [OF assms(1), of i b] that n by (auto simp: n_def)
  show ?thesis
  proof (cases "find_sub needle (drop n a @ b)")
    case (Some j)
    have "find_sub needle (a @ b) = Some (n + j)"
    proof (rule find_sub_eqI)
      show "starts_with needle (drop (n + j) (a @ b))" using find_sub_Some_prefix [OF Some] by (simp only: later)
      have "j \<le> length (drop n a @ b)" using find_sub_Some [OF Some] by linarith
      with n show "n + j \<le> length (a @ b)" by simp
      fix i assume i: "i < n + j"
      show "\<not> starts_with needle (drop i (a @ b))"
      proof (cases "i < n")
        case False
        then obtain k where "i = n + k" by (metis le_Suc_ex not_less)
        with i find_sub_least [OF Some, of k] show ?thesis by (simp only: later) simp
      qed (rule early)
    qed
    with Some show ?thesis by simp
  next
    case None
    have "\<not> starts_with needle (drop i (a @ b))" for i
    proof (cases "i < n")
      case False
      then obtain k where "i = n + k" by (metis le_Suc_ex not_less)
      with find_sub_None_occurs [OF None, of k] show ?thesis by (simp only: later) simp
    qed (rule early)
    then have "find_sub needle (a @ b) = None" unfolding find_sub_None_iff by blast
    with None show ?thesis by simp
  qed
qed

lemma longest_suffix_prefix_len_cut:
  assumes "find_sub needle a = None"
  defines "n \<equiv> length a - longest_suffix_prefix_len a needle"
  shows "longest_suffix_prefix_len (a @ b) needle = longest_suffix_prefix_len (drop n a @ b) needle"
proof (rule antisym)
  let ?k = "longest_suffix_prefix_len (a @ b) needle"
  have suf: "ends_with (take ?k needle) (a @ b)" by (rule longest_suffix_prefix_len_suffix)
  show "?k \<le> longest_suffix_prefix_len (drop n a @ b) needle"
  proof (cases "needle = []")
    case True
    then show ?thesis by (simp add: longest_suffix_prefix_len_def)
  next
    case False
    then have k: "?k < length needle" by (rule longest_suffix_prefix_len_less)
    have "?k \<le> length (drop n a @ b)"
    proof (rule ccontr)
      assume long: "\<not> ?k \<le> length (drop n a @ b)"
      have "suffix (take ?k needle) (a @ b)" using suf by (simp add: ends_with_suffix)
      with long k obtain x where x: "take ?k needle = x @ b" "suffix x a"
        by (auto simp: suffix_append dest: suffix_length_le)
      have lx: "length x + length b = ?k" using k arg_cong [OF x(1), of length] by simp
      then have "length x = ?k - length b" by simp
      have "x = take (length x) (take ?k needle)" using x(1) by simp
      also have "\<dots> = take (length x) needle" using lx by (simp add: min_absorb1)
      finally have xt: "x = take (length x) needle" .
      have "ends_with (take (length x) needle) a" using x(2) by (simp add: xt [symmetric] ends_with_suffix)
      with lx k have "length x \<le> longest_suffix_prefix_len a needle"
        by (intro longest_suffix_prefix_len_max) auto
      with \<open>length x = ?k - length b\<close> long longest_suffix_prefix_len_le [of a needle] show False
        by (simp add: n_def)
    qed
    moreover have "suffix (drop n a @ b) (a @ b)" by (metis append.assoc append_take_drop_id suffixI)
    ultimately have "ends_with (take ?k needle) (drop n a @ b)"
      using suf k unfolding ends_with_suffix by (auto intro: suffix_length_suffix)
    with k show ?thesis by (rule longest_suffix_prefix_len_max)
  qed
next
  let ?k = "longest_suffix_prefix_len (drop n a @ b) needle"
  have "ends_with (take ?k needle) (a @ b)"
    using longest_suffix_prefix_len_suffix [of "drop n a @ b" needle]
    unfolding ends_with_iff by (metis append.assoc append_take_drop_id)
  moreover have "?k < length needle \<or> needle = []" using longest_suffix_prefix_len_less by blast
  ultimately show "?k \<le> longest_suffix_prefix_len (a @ b) needle"
    using longest_suffix_prefix_len_max [of ?k needle "a @ b"]
    by (cases "needle = []") (auto simp: longest_suffix_prefix_len_def)
qed

section \<open>The loop returns\<close>

definition valid :: "'T inline_hidden_tag_parser \<Rightarrow> bool" where
  "valid p \<longleftrightarrow> list_all spec_ok (specs p) \<and> (case active p of None \<Rightarrow> True | Some a \<Rightarrow> close a \<noteq> [])"

lemma min_open_in: "min_open cs = Some c \<Longrightarrow> c \<in> set cs"
  by (induction cs arbitrary: c) (auto split: option.splits if_splits)

lemma find_next_open_Some:
  assumes "find_next_open sps s = Some (pos, idx)"
  shows "idx < length sps \<and> find_sub (spec_open (sps ! idx)) s = Some pos"
proof -
  from assms obtain len where "(pos, len, idx) \<in> set (open_candidates sps s)"
    by (auto simp: find_next_open_def dest: min_open_in)
  then show ?thesis
    by (auto simp: open_candidates_def map_filter_def in_set_enumerate_eq)
qed

lemma drop_shorter: "i + length d \<le> length s \<Longrightarrow> d \<noteq> [] \<Longrightarrow> length (drop (i + length d) s) < length s"
  by (cases d) auto

lemma push_round_valid:
  assumes "valid p" "push_round p = (p', c, g)"
  shows "valid p' \<and> specs p' = specs p \<and> (g \<longrightarrow> length (pending p') < length (pending p))"
proof (cases "active p")
  case (Some a)
  show ?thesis
  proof (cases "find_sub (close a) (pending p)")
    case None
    with assms Some show ?thesis by (auto simp: push_round_def valid_def Let_def)
  next
    case (Some i)
    from find_sub_Some [OF this] have "length (drop (i + length (close a)) (pending p)) < length (pending p)"
      using assms(1) \<open>active p = Some a\<close> by (intro drop_shorter) (auto simp: valid_def)
    with assms Some \<open>active p = Some a\<close> show ?thesis by (auto simp: push_round_def valid_def)
  qed
next
  case None
  show ?thesis
  proof (cases "find_next_open (specs p) (pending p)")
    case None
    with assms \<open>active p = None\<close> show ?thesis by (auto simp: push_round_def valid_def Let_def)
  next
    case (Some r)
    obtain i k where r: "r = (i, k)" by fastforce
    note f = find_next_open_Some [OF Some [unfolded r]]
    then have ok: "spec_ok (specs p ! k)" using assms(1) by (auto simp: valid_def list_all_iff)
    from f find_sub_Some have "length (drop (i + length (spec_open (specs p ! k))) (pending p)) < length (pending p)"
      using ok by (intro drop_shorter) (auto simp: spec_ok_def dest: find_sub_Some)
    with assms Some r ok \<open>active p = None\<close> show ?thesis by (auto simp: push_round_def valid_def spec_ok_def Let_def)
  qed
qed

lemma push_loop_total: "valid p \<Longrightarrow> length (pending p) < fuel \<Longrightarrow> \<exists>r. push_loop fuel p = Some r"
proof (induction fuel arbitrary: p)
  case (Suc fuel)
  obtain p' c g where r: "push_round p = (p', c, g)" by (metis prod_cases3)
  show ?case
  proof (cases g)
    case True
    with push_round_valid [OF Suc.prems(1) r] Suc.prems(2) Suc.IH [of p'] r show ?thesis by auto
  next
    case False
    with r show ?thesis by simp
  qed
qed simp

lemma push_loop_more: "push_loop fuel p = Some r \<Longrightarrow> push_loop (fuel + k) p = Some r"
proof (induction fuel arbitrary: p r)
  case (Suc fuel)
  obtain p' c g where r: "push_round p = (p', c, g)" by (metis prod_cases3)
  with Suc show ?case by (auto split: if_splits)
qed simp

definition settle :: "'T inline_hidden_tag_parser \<Rightarrow> 'T inline_hidden_tag_parser \<times> 'T extracted_inline_tag stream_text_chunk" where
  "settle p = the (push_loop (Suc (length (pending p))) p)"

lemma push_loop_settle:
  assumes "valid p" "length (pending p) < fuel"
  shows "push_loop fuel p = Some (settle p)"
proof -
  obtain r where r: "push_loop (Suc (length (pending p))) p = Some r" using push_loop_total [OF assms(1)] by blast
  moreover have "fuel = Suc (length (pending p)) + (fuel - Suc (length (pending p)))" using assms(2) by simp
  ultimately have "push_loop fuel p = Some r" by (metis push_loop_more)
  with r show ?thesis by (simp add: settle_def)
qed

lemma settle_unfold:
  assumes "valid p" "push_round p = (p', c, g)"
  shows "settle p = (if g then (fst (settle p'), chunk_append c (snd (settle p'))) else (p', c))"
proof -
  note v = push_round_valid [OF assms]
  have "push_loop (Suc (length (pending p))) p = Some (settle p)" by (rule push_loop_settle [OF assms(1)]) simp
  with assms(2) v push_loop_settle [of p' "length (pending p)"] show ?thesis
    by (cases g) (auto simp: case_prod_beta)
qed

lemma settle_valid: "valid p \<Longrightarrow> valid (fst (settle p)) \<and> specs (fst (settle p)) = specs p"
proof (induction "length (pending p)" arbitrary: p rule: less_induct)
  case less
  obtain p' c g where r: "push_round p = (p', c, g)" by (metis prod_cases3)
  from push_round_valid [OF less.prems r] less.hyps [of p'] settle_unfold [OF less.prems r] show ?case
    by (cases g) auto
qed

section \<open>One tag: the cut does not matter\<close>

abbreviation feed :: "'T inline_hidden_tag_parser \<Rightarrow> ustr \<Rightarrow> 'T inline_hidden_tag_parser" where
  "feed p b \<equiv> p\<lparr>pending := pending p @ b\<rparr>"

lemma find_next_open_single: "find_next_open [sp] s = map_option (\<lambda>i. (i, 0)) (find_sub (spec_open sp) s)"
  by (cases "find_sub (spec_open sp) s") (simp_all add: find_next_open_def open_candidates_def map_filter_def)

lemma max_open_single: "max_open_prefix_suffix_len [sp] s = longest_suffix_prefix_len s (spec_open sp)"
  by (simp add: max_open_prefix_suffix_len_def)

lemma push_round_feed_on:
  assumes "specs p = [sp]" "push_round p = (p', c, True)"
  shows "push_round (feed p b) = (feed p' b, c, True)"
proof (cases "active p")
  case (Some a)
  with assms obtain i where i: "find_sub (close a) (pending p) = Some i"
    by (auto simp: push_round_def Let_def split: option.splits)
  with find_sub_Some [OF i] find_sub_append [OF i, of b] Some assms show ?thesis
    by (auto simp: push_round_def)
next
  case None
  with assms obtain i where i: "find_sub (spec_open sp) (pending p) = Some i"
    by (auto simp: push_round_def find_next_open_single Let_def split: option.splits)
  with find_sub_Some [OF i] find_sub_append [OF i, of b] None assms show ?thesis
    by (auto simp: push_round_def find_next_open_single Let_def)
qed

lemma needle_cut:
  assumes "find_sub d x = None"
  obtains t r where "x = t @ r" "length x - longest_suffix_prefix_len x d = length t"
    "\<And>b. find_sub d (x @ b) = map_option ((+) (length t)) (find_sub d (r @ b))"
    "\<And>b. longest_suffix_prefix_len (x @ b) d = longest_suffix_prefix_len (r @ b) d"
    "\<And>b. longest_suffix_prefix_len (r @ b) d \<le> length (r @ b)"
proof -
  let ?n = "length x - longest_suffix_prefix_len x d"
  have n: "?n = length (take ?n x)" by simp
  show thesis
    by (rule that [OF append_take_drop_id [symmetric] n])
      (simp_all only: n [symmetric] find_sub_cut [OF assms] longest_suffix_prefix_len_cut [OF assms]
        longest_suffix_prefix_len_le)
qed

lemma push_round_feed_off:
  assumes "specs p = [sp]" "push_round p = (p', c, False)" "push_round (feed p b) = (q, d, g)"
  shows "\<exists>d'. push_round (feed p' b) = (q, d', g) \<and> d = chunk_append c d'"
proof (cases "active p")
  case (Some a)
  with assms(2) have "find_sub (close a) (pending p) = None"
    by (auto simp: push_round_def split: option.splits)
  then obtain t r where cut: "pending p = t @ r" "length (pending p) - longest_suffix_prefix_len (pending p) (close a) = length t"
    "find_sub (close a) (pending p @ b) = map_option ((+) (length t)) (find_sub (close a) (r @ b))"
    "longest_suffix_prefix_len (pending p @ b) (close a) = longest_suffix_prefix_len (r @ b) (close a)"
    "longest_suffix_prefix_len (r @ b) (close a) \<le> length (r @ b)"
    and n: "find_sub (close a) (pending p) = None"
    by (metis needle_cut)
  have p': "p' = p\<lparr>active := Some (a\<lparr>content := content a @ t\<rparr>), pending := r\<rparr>" and c: "c = chunk_default"
    using assms(2) Some n cut(1,2) by (auto simp: push_round_def Let_def)
  show ?thesis
    using assms(3) Some cut(1,3-5)
    by (cases "find_sub (close a) (r @ b)") (auto simp: push_round_def p' c Let_def)
next
  case None
  with assms(1,2) have "find_sub (spec_open sp) (pending p) = None"
    by (auto simp: push_round_def find_next_open_single Let_def split: option.splits)
  then obtain t r where cut: "pending p = t @ r" "length (pending p) - longest_suffix_prefix_len (pending p) (spec_open sp) = length t"
    "find_sub (spec_open sp) (pending p @ b) = map_option ((+) (length t)) (find_sub (spec_open sp) (r @ b))"
    "longest_suffix_prefix_len (pending p @ b) (spec_open sp) = longest_suffix_prefix_len (r @ b) (spec_open sp)"
    "longest_suffix_prefix_len (r @ b) (spec_open sp) \<le> length (r @ b)"
    and n: "find_sub (spec_open sp) (pending p) = None"
    by (metis needle_cut)
  have p': "p' = p\<lparr>pending := r\<rparr>" and c: "c = \<lparr>visible_text = t, extracted = []\<rparr>"
    using assms(1,2) None n cut(1,2) by (auto simp: push_round_def find_next_open_single max_open_single Let_def)
  show ?thesis
    using assms(1,3) None cut(1,3-5)
    by (cases "find_sub (spec_open sp) (r @ b)")
      (auto simp: push_round_def find_next_open_single max_open_single p' c chunk_append_def Let_def)
qed

lemma valid_feed [simp]: "valid (feed p b) = valid p" "specs (feed p b) = specs p"
  by (simp_all add: valid_def)

lemma settle_feed:
  assumes "valid p" "specs p = [sp]"
  shows "settle (feed p b) =
     (fst (settle (feed (fst (settle p)) b)), chunk_append (snd (settle p)) (snd (settle (feed (fst (settle p)) b))))"
  using assms
proof (induction "length (pending p)" arbitrary: p rule: less_induct)
  case less
  obtain p' c g where r: "push_round p = (p', c, g)" by (metis prod_cases3)
  note v = push_round_valid [OF less.prems(1) r]
  show ?case
  proof (cases g)
    case True
    with r have rt: "push_round p = (p', c, True)" by simp
    have sp: "settle p = (fst (settle p'), chunk_append c (snd (settle p')))"
      using settle_unfold [OF less.prems(1) rt] by simp
    have "settle (feed p b) = (fst (settle (feed p' b)), chunk_append c (snd (settle (feed p' b))))"
      using settle_unfold [OF _ push_round_feed_on [OF less.prems(2) rt]] less.prems(1) by simp
    also note less.hyps [of p'] 
    finally show ?thesis using v True less.prems(2) by (simp add: sp chunk_append_assoc)
  next
    case False
    with r have rf: "push_round p = (p', c, False)" by simp
    have sp: "settle p = (p', c)" using settle_unfold [OF less.prems(1) rf] by simp
    obtain q d g' where q: "push_round (feed p b) = (q, d, g')" by (metis prod_cases3)
    obtain d' where d': "push_round (feed p' b) = (q, d', g')" "d = chunk_append c d'"
      using push_round_feed_off [OF less.prems(2) rf q] by blast
    from settle_unfold [OF _ q] settle_unfold [OF _ d'(1)] less.prems(1) v d'(2) show ?thesis
      by (cases g') (simp_all add: sp chunk_append_assoc)
  qed
qed

definition settled :: "'T inline_hidden_tag_parser \<Rightarrow> bool" where
  "settled p \<longleftrightarrow> push_round p = (p, chunk_default, False)"

lemma chunk_append_cancel: "c = chunk_append c d \<Longrightarrow> d = chunk_default"
  by (cases c, cases d) (auto simp: chunk_append_def chunk_default_def)

lemma settle_settled: "valid p \<Longrightarrow> specs p = [sp] \<Longrightarrow> settled (fst (settle p))"
proof (induction "length (pending p)" arbitrary: p rule: less_induct)
  case less
  obtain p' c g where r: "push_round p = (p', c, g)" by (metis prod_cases3)
  note v = push_round_valid [OF less.prems(1) r]
  show ?case
  proof (cases g)
    case True
    with less.hyps [of p'] v less.prems settle_unfold [OF less.prems(1) r] show ?thesis by simp
  next
    case False
    with r have rf: "push_round p = (p', c, False)" by simp
    from push_round_feed_off [OF less.prems(2) rf, of "[]" p' c False] rf
    obtain d' where "push_round p' = (p', d', False)" "c = chunk_append c d'" by auto
    then have "settled p'" by (auto simp: settled_def dest: chunk_append_cancel)
    with settle_unfold [OF less.prems(1) rf] show ?thesis by simp
  qed
qed

lemma settle_of_settled: "valid p \<Longrightarrow> settled p \<Longrightarrow> settle p = (p, chunk_default)"
  using settle_unfold [of p p chunk_default False] by (simp add: settled_def)

section \<open>Citations\<close>

definition citation_inv :: "citation_stream_parser \<Rightarrow> bool" where
  "citation_inv p \<longleftrightarrow> specs p = citation_specs \<and> valid p \<and> settled p"

lemma inline_push_settle: "valid p \<Longrightarrow> inline_push_str p t = Some (settle (feed p t))"
  unfolding inline_push_str_def Let_def by (rule push_loop_settle) simp_all

lemma citation_push_settle:
  "valid p \<Longrightarrow> citation_push_str p t = (fst (settle (feed p t)), citation_chunk (snd (settle (feed p t))))"
  by (simp add: citation_push_str_def inline_push_settle case_prod_beta)

lemma citation_chunk_append: "citation_chunk (chunk_append c d) = chunk_append (citation_chunk c) (citation_chunk d)"
  by (simp add: citation_chunk_def chunk_append_def)

lemma citation_chunk_default [simp]: "citation_chunk chunk_default = chunk_default"
  by (simp add: citation_chunk_def chunk_default_def)

lemma citation_push_append:
  assumes "citation_inv p"
  shows "citation_push_str p (s @ t) =
     (fst (citation_push_str (fst (citation_push_str p s)) t),
      chunk_append (snd (citation_push_str p s)) (snd (citation_push_str (fst (citation_push_str p s)) t)))"
proof -
  from assms have v: "valid (feed p s)" and sp: "specs (feed p s) = [hd citation_specs]"
    by (auto simp: citation_inv_def citation_specs_def)
  have vp: "valid p" using assms by (simp add: citation_inv_def)
  let ?q = "fst (settle (feed p s))"
  have vq: "valid ?q" using settle_valid [OF v] by simp
  have eq: "feed p (s @ t) = feed (feed p s) t" by simp
  have q: "fst (citation_push_str p s) = ?q" by (simp only: citation_push_settle [OF vp] fst_conv)
  show ?thesis
    unfolding q citation_push_settle [OF vp] eq settle_feed [OF v sp, of t]
    by (simp only: citation_push_settle [OF vq] fst_conv snd_conv citation_chunk_append)
qed

lemma citation_push_inv: "citation_inv p \<Longrightarrow> citation_inv (fst (citation_push_str p t))"
  using settle_valid [of "feed p t"] settle_settled [of "feed p t" "hd citation_specs"]
  by (simp add: citation_inv_def citation_push_settle citation_specs_def)

lemma citation_new_inv: "citation_inv citation_new"
  by (simp add: citation_inv_def citation_new_def valid_def spec_ok_def citation_specs_def settled_def push_round_def
      find_next_open_single max_open_single longest_suffix_prefix_len_def CITATION_OPEN_def CITATION_CLOSE_def
      chunk_default_def)

interpretation citation: stream_text_parser citation_push_str citation_finish citation_inv id
proof
  fix p :: citation_stream_parser and t
  assume "citation_inv p"
  then show "citation_push_str p [] = (p, chunk_default)"
    by (simp add: citation_inv_def citation_push_settle settle_of_settled)
qed (auto simp: citation_push_append citation_push_inv)

lemma citation_same_chunk: "citation.same_chunk c d \<longleftrightarrow> c = d"
  by (cases c, cases d) (auto simp: citation.same_chunk_def)

text \<open>
  C26: Citations are found the same way however the text is cut into pieces: the text shown and the
  citations extracted from the pieces, with what the end of the stream flushes, are those of
  \<open>strip_citations\<close> on the whole text.
\<close>

theorem citations_in_pieces:
  "(let (p, out) = push_all citation_push_str citation_new pieces; tail = snd (citation_finish p)
    in (visible_text out @ visible_text tail, extracted out @ extracted tail)) =
   strip_citations (concat pieces)"
proof -
  have "push_all citation_push_str citation_new pieces = citation_push_str citation_new (concat pieces)"
    using citation.push_all_concat [OF citation_new_inv, of pieces] by (simp add: citation_same_chunk prod_eq_iff)
  then show ?thesis by (simp add: strip_citations_def)
qed

text \<open>Text with tags, and what remains when they are taken out.\<close>

fun weave :: "ustr \<Rightarrow> (ustr \<times> ustr) list \<Rightarrow> ustr" where
  "weave v [] = v"
| "weave v ((c, v') # cvs) = v @ CITATION_OPEN @ c @ CITATION_CLOSE @ weave v' cvs"

definition total :: "citation_stream_parser \<Rightarrow> ustr stream_text_chunk" where
  "total p = citation_chunk (chunk_append (snd (settle p)) (snd (inline_finish (fst (settle p)))))"

lemma total_round:
  assumes "valid p" "push_round p = (p', c, g)"
  shows "total p = chunk_append (citation_chunk c) (if g then total p' else citation_chunk (snd (inline_finish p')))"
  using settle_unfold [OF assms] by (simp add: total_def citation_chunk_append chunk_append_assoc)

lemma take_before_find:
  assumes "find_sub d s = Some i" "d \<noteq> []"
  shows "find_sub d (take i s) = None"
  unfolding find_sub_None_iff
proof (intro allI impI notI)
  fix j assume j: "j \<le> length (take i s)" "starts_with d (drop j (take i s))"
  have "drop j s = drop j (take i s) @ drop i s"
    by (metis j(1) append_take_drop_id drop_append diff_is_0_eq drop_0)
  with j(2) have "starts_with d (drop j s)" by (auto simp: starts_with_iff)
  moreover have "j < i" using j assms(2) by (cases "j = i") (auto simp: starts_with_iff)
  ultimately show False using find_sub_least [OF assms(1)] by blast
qed

definition cited :: "(ustr \<times> ustr) list \<Rightarrow> bool" where
  "cited cvs \<longleftrightarrow> list_all (\<lambda>(c, v). find_sub CITATION_CLOSE c = None \<and> find_sub CITATION_OPEN v = None) cvs"

text \<open>
  A text, or the text with a closing tag added, decomposes: shown text without an opening tag,
  alternating with citations without a closing tag.
\<close>

definition decomposes :: "ustr \<Rightarrow> ustr \<Rightarrow> (ustr \<times> ustr) list \<Rightarrow> bool" where
  "decomposes s v cvs \<longleftrightarrow>
     (s = weave v cvs \<or> s @ CITATION_CLOSE = weave v cvs) \<and> find_sub CITATION_OPEN v = None \<and> cited cvs"

lemma delims_nonempty: "CITATION_OPEN \<noteq> []" "CITATION_CLOSE \<noteq> []"
  by (simp_all add: CITATION_OPEN_def CITATION_CLOSE_def)

lemma split_at_find:
  "find_sub d t = Some i \<Longrightarrow> t = take i t @ d @ drop (i + length d) t"
  by (drule find_sub_Some_prefix)
    (metis append_take_drop_id append_eq_conv_conj drop_drop starts_with_iff add.commute)

lemma total_decomposes_outside:
  assumes "valid p" "specs p = citation_specs" "active p = None"
    and rec: "\<And>i. find_sub CITATION_OPEN (pending p) = Some i \<Longrightarrow>
      \<exists>c v cvs. decomposes (CITATION_OPEN @ drop (i + length CITATION_OPEN) (pending p)) [] ((c, v) # cvs) \<and>
        total (p\<lparr>pending := drop (i + length CITATION_OPEN) (pending p),
                 active := Some \<lparr>tag = Citation, close = CITATION_CLOSE, content = []\<rparr>\<rparr>) =
          \<lparr>visible_text = v @ concat (map snd cvs), extracted = c # map fst cvs\<rparr>"
  shows "\<exists>v cvs. decomposes (pending p) v cvs \<and> total p = \<lparr>visible_text = v @ concat (map snd cvs), extracted = map fst cvs\<rparr>"
proof -
  obtain p' c g where r: "push_round p = (p', c, g)" by (metis prod_cases3)
  note tot = total_round [OF assms(1) r]
  show ?thesis
  proof (cases "find_sub CITATION_OPEN (pending p)")
    case None
    with r assms(2,3) have "\<not> g" "citation_chunk (chunk_append c (snd (inline_finish p'))) = \<lparr>visible_text = pending p, extracted = []\<rparr>"
      by (auto simp: push_round_def citation_specs_def find_next_open_single Let_def inline_finish_def
          citation_chunk_def chunk_append_def)
    with tot None show ?thesis
      by (intro exI [of _ "pending p"] exI [of _ "[]"]) (simp add: decomposes_def cited_def citation_chunk_append)
  next
    case (Some i)
    let ?r = "drop (i + length CITATION_OPEN) (pending p)"
    from Some r assms(2,3) have g: "g" and c: "c = \<lparr>visible_text = take i (pending p), extracted = []\<rparr>"
      and p': "p' = p\<lparr>pending := ?r, active := Some \<lparr>tag = Citation, close = CITATION_CLOSE, content = []\<rparr>\<rparr>"
      by (auto simp: push_round_def citation_specs_def find_next_open_single Let_def)
    from rec [OF Some] p' obtain c1 v1 cvs where d: "decomposes (CITATION_OPEN @ ?r) [] ((c1, v1) # cvs)"
      and t: "total p' = \<lparr>visible_text = v1 @ concat (map snd cvs), extracted = c1 # map fst cvs\<rparr>" by auto
    have "decomposes (take i (pending p) @ CITATION_OPEN @ ?r) (take i (pending p)) ((c1, v1) # cvs)"
      using d take_before_find [OF Some] delims_nonempty by (auto simp: decomposes_def)
    then have "decomposes (pending p) (take i (pending p)) ((c1, v1) # cvs)"
      unfolding split_at_find [OF Some, symmetric] .
    with tot g c t show ?thesis
      by (intro exI [of _ "take i (pending p)"] exI [of _ "(c1, v1) # cvs"]) (simp add: chunk_append_def citation_chunk_def)
  qed
qed

lemma total_decomposes_inside:
  assumes "valid p" "active p = Some a" "close a = CITATION_CLOSE"
    and rec: "\<And>i. find_sub CITATION_CLOSE (pending p) = Some i \<Longrightarrow>
      \<exists>v cvs. decomposes (drop (i + length CITATION_CLOSE) (pending p)) v cvs \<and>
        total (p\<lparr>active := None, pending := drop (i + length CITATION_CLOSE) (pending p)\<rparr>) =
          \<lparr>visible_text = v @ concat (map snd cvs), extracted = map fst cvs\<rparr>"
  shows "\<exists>c v cvs. decomposes (CITATION_OPEN @ pending p) [] ((c, v) # cvs) \<and>
    total p = \<lparr>visible_text = v @ concat (map snd cvs), extracted = (content a @ c) # map fst cvs\<rparr>"
proof -
  obtain p' c g where r: "push_round p = (p', c, g)" by (metis prod_cases3)
  note tot = total_round [OF assms(1) r]
  have noopen: "find_sub CITATION_OPEN [] = None" using delims_nonempty by simp
  show ?thesis
  proof (cases "find_sub CITATION_CLOSE (pending p)")
    case None
    with assms(2,3) r have "\<not> g" "citation_chunk (chunk_append c (snd (inline_finish p'))) = \<lparr>visible_text = [], extracted = [content a @ pending p]\<rparr>"
      by (auto simp: push_round_def Let_def inline_finish_def citation_chunk_def chunk_append_def chunk_default_def)
    with tot None noopen show ?thesis
      by (intro exI [of _ "pending p"] exI [of _ "[]"]) (simp add: decomposes_def cited_def citation_chunk_append)
  next
    case (Some i)
    let ?r = "drop (i + length CITATION_CLOSE) (pending p)"
    from Some assms(2,3) r have g: "g" and c: "c = \<lparr>visible_text = [], extracted = [(tag a, content a @ take i (pending p))]\<rparr>"
      and p': "p' = p\<lparr>active := None, pending := ?r\<rparr>"
      by (auto simp: push_round_def)
    from rec [OF Some] p' obtain v1 cvs where d: "decomposes ?r v1 cvs"
      and t: "total p' = \<lparr>visible_text = v1 @ concat (map snd cvs), extracted = map fst cvs\<rparr>" by auto
    have "decomposes (CITATION_OPEN @ take i (pending p) @ CITATION_CLOSE @ ?r) [] ((take i (pending p), v1) # cvs)"
      using d take_before_find [OF Some] delims_nonempty noopen by (auto simp: decomposes_def cited_def)
    then have "decomposes (CITATION_OPEN @ pending p) [] ((take i (pending p), v1) # cvs)"
      unfolding split_at_find [OF Some, symmetric] .
    with tot g c t show ?thesis
      by (intro exI [of _ "take i (pending p)"] exI [of _ v1] exI [of _ cvs]) (simp add: chunk_append_def citation_chunk_def)
  qed
qed

lemma total_decomposes:
  assumes "valid p" "specs p = citation_specs"
  shows "(active p = None \<longrightarrow> (\<exists>v cvs. decomposes (pending p) v cvs \<and>
      total p = \<lparr>visible_text = v @ concat (map snd cvs), extracted = map fst cvs\<rparr>)) \<and>
    (\<forall>a. active p = Some a \<and> close a = CITATION_CLOSE \<longrightarrow> (\<exists>c v cvs.
      decomposes (CITATION_OPEN @ pending p) [] ((c, v) # cvs) \<and>
      total p = \<lparr>visible_text = v @ concat (map snd cvs), extracted = (content a @ c) # map fst cvs\<rparr>))"
  using assms
proof (induction "length (pending p)" arbitrary: p rule: less_induct)
  case less
  have shorter: "length (drop (i + length d) (pending p)) < length (pending p)"
    if "find_sub d (pending p) = Some i" "d \<noteq> []" for d i
    using arg_cong [OF split_at_find [OF that(1)], of length] that(2) by (cases d) auto
  show ?case
  proof (intro conjI impI allI; (elim conjE)?)
    assume "active p = None"
    with less.prems show "\<exists>v cvs. decomposes (pending p) v cvs \<and>
        total p = \<lparr>visible_text = v @ concat (map snd cvs), extracted = map fst cvs\<rparr>"
    proof (rule total_decomposes_outside)
      fix i assume "find_sub CITATION_OPEN (pending p) = Some i"
      note smaller = shorter [OF this delims_nonempty(1)]
      let ?q = "p\<lparr>pending := drop (i + length CITATION_OPEN) (pending p),
          active := Some \<lparr>tag = Citation, close = CITATION_CLOSE, content = []\<rparr>\<rparr>"
      have "valid ?q" using less.prems(1) delims_nonempty by (simp add: valid_def)
      with less.hyps [of ?q] smaller less.prems(2) show "\<exists>c v cvs.
          decomposes (CITATION_OPEN @ drop (i + length CITATION_OPEN) (pending p)) [] ((c, v) # cvs) \<and>
          total ?q = \<lparr>visible_text = v @ concat (map snd cvs), extracted = c # map fst cvs\<rparr>" by simp
    qed
  next
    fix a assume "active p = Some a" "close a = CITATION_CLOSE"
    with less.prems(1) show "\<exists>c v cvs. decomposes (CITATION_OPEN @ pending p) [] ((c, v) # cvs) \<and>
      total p = \<lparr>visible_text = v @ concat (map snd cvs), extracted = (content a @ c) # map fst cvs\<rparr>"
    proof (rule total_decomposes_inside)
      fix i assume "find_sub CITATION_CLOSE (pending p) = Some i"
      note smaller = shorter [OF this delims_nonempty(2)]
      let ?q = "p\<lparr>active := None, pending := drop (i + length CITATION_CLOSE) (pending p)\<rparr>"
      have "valid ?q" using less.prems(1) by (simp add: valid_def)
      with less.hyps [of ?q] smaller less.prems(2) show "\<exists>v cvs.
          decomposes (drop (i + length CITATION_CLOSE) (pending p)) v cvs \<and>
          total ?q = \<lparr>visible_text = v @ concat (map snd cvs), extracted = map fst cvs\<rparr>" by simp
    qed
  qed
qed

text \<open>
  Every text is shown text alternating with tagged citations, the last of which may lack its
  closing tag; \<open>strip_citations\<close> returns exactly the shown text and exactly the citations, in order,
  where no shown part contains an opening tag and no citation a closing tag.
\<close>

theorem strip_citations_decomposes:
  "\<exists>v cvs. (text = weave v cvs \<or> text @ CITATION_CLOSE = weave v cvs) \<and>
     strip_citations text = (v @ concat (map snd cvs), map fst cvs) \<and>
     find_sub CITATION_OPEN v = None \<and> cited cvs"
proof -
  let ?p = "feed citation_new text"
  have v: "valid citation_new" using citation_new_inv by (simp add: citation_inv_def)
  have "specs ?p = citation_specs" "active ?p = None" "pending ?p = text" by (simp_all add: citation_new_def)
  with total_decomposes [of ?p] v obtain v cvs where d: "decomposes text v cvs"
    and t: "total ?p = \<lparr>visible_text = v @ concat (map snd cvs), extracted = map fst cvs\<rparr>" by auto
  have "strip_citations text = (visible_text (total ?p), extracted (total ?p))"
    by (simp add: strip_citations_def citation_push_settle [OF v] citation_finish_def total_def case_prod_beta
        citation_chunk_append Let_def)
  with d t show ?thesis unfolding decomposes_def by auto
qed

end
