(* ===== verification/Utf8_Stream.thy ===== *)
theory Utf8_Stream
  imports Stream_Text Hidden_Tags
begin

text \<open>
  Feeding bytes to a text parser: \<open>utils/stream-parser/src/utf8_stream.rs\<close>. The decoder is
  \<open>std::str::from_utf8\<close> with the offset and the length its error reports; a length of \<open>None\<close>
  means that the input ends inside a character. Bytes are naturals below 256.

  \<open>Utf8StreamParser\<close> works for any inner parser. Its results are proved once, in the locale of the
  inner parser's contract, and stated for the citation parser.
\<close>

section \<open>std::str::from_utf8\<close>

type_synonym byte = nat

datatype decoded = Decoded uchar nat | Invalid nat | Incomplete

definition is_cont :: "byte \<Rightarrow> bool" where
  "is_cont b \<longleftrightarrow> 0x80 \<le> b \<and> b \<le> 0xBF"

definition second_of_three :: "byte \<Rightarrow> byte \<Rightarrow> bool" where
  "second_of_three b0 b1 \<longleftrightarrow>
     (if b0 = 0xE0 then 0xA0 \<le> b1 \<and> b1 \<le> 0xBF
      else if b0 = 0xED then 0x80 \<le> b1 \<and> b1 \<le> 0x9F else is_cont b1)"

definition second_of_four :: "byte \<Rightarrow> byte \<Rightarrow> bool" where
  "second_of_four b0 b1 \<longleftrightarrow>
     (if b0 = 0xF0 then 0x90 \<le> b1 \<and> b1 \<le> 0xBF
      else if b0 = 0xF4 then 0x80 \<le> b1 \<and> b1 \<le> 0x8F else is_cont b1)"

definition decode_one :: "byte \<Rightarrow> byte list \<Rightarrow> decoded" where
  "decode_one b0 bs =
     (if b0 < 0x80 then Decoded b0 1
      else if 0xC2 \<le> b0 \<and> b0 \<le> 0xDF
      then (case bs of
              [] \<Rightarrow> Incomplete
            | b1 # _ \<Rightarrow> if is_cont b1 then Decoded ((b0 - 0xC0) * 64 + (b1 - 0x80)) 2 else Invalid 1)
      else if 0xE0 \<le> b0 \<and> b0 \<le> 0xEF
      then (case bs of
              [] \<Rightarrow> Incomplete
            | b1 # bs1 \<Rightarrow>
              if \<not> second_of_three b0 b1 then Invalid 1
              else
                case bs1 of
                  [] \<Rightarrow> Incomplete
                | b2 # _ \<Rightarrow>
                  if is_cont b2 then Decoded ((b0 - 0xE0) * 4096 + (b1 - 0x80) * 64 + (b2 - 0x80)) 3 else Invalid 2)
      else if 0xF0 \<le> b0 \<and> b0 \<le> 0xF4
      then (case bs of
              [] \<Rightarrow> Incomplete
            | b1 # bs1 \<Rightarrow>
              if \<not> second_of_four b0 b1 then Invalid 1
              else
                case bs1 of
                  [] \<Rightarrow> Incomplete
                | b2 # bs2 \<Rightarrow>
                  if \<not> is_cont b2 then Invalid 2
                  else
                    case bs2 of
                      [] \<Rightarrow> Incomplete
                    | b3 # _ \<Rightarrow>
                      if is_cont b3
                      then Decoded ((b0 - 0xF0) * 262144 + (b1 - 0x80) * 4096 + (b2 - 0x80) * 64 + (b3 - 0x80)) 4
                      else Invalid 3)
      else Invalid 1)"

text \<open>The decoded text up to the first error, and the error: \<open>valid_up_to\<close> and \<open>error_len\<close>.\<close>

fun utf8_run :: "byte list \<Rightarrow> ustr \<times> (nat \<times> nat option) option" where
  "utf8_run [] = ([], None)"
| "utf8_run (b # bs) =
     (case decode_one b bs of
        Invalid n \<Rightarrow> ([], Some (0, Some n))
      | Incomplete \<Rightarrow> ([], Some (0, None))
      | Decoded c w \<Rightarrow>
          (case utf8_run (drop (w - 1) bs) of
             (t, e) \<Rightarrow> (c # t, map_option (\<lambda>(v, l). (v + w, l)) e)))"

definition from_utf8 :: "byte list \<Rightarrow> (nat \<times> nat option) + ustr" where
  "from_utf8 bs = (case utf8_run bs of (t, None) \<Rightarrow> Ok t | (_, Some e) \<Rightarrow> Err e)"

section \<open>utf8_stream.rs\<close>

datatype utf8_stream_parser_error =
  InvalidUtf8 nat nat
| IncompleteUtf8AtEof

record 'p utf8_stream_parser =
  inner :: 'p
  pending_utf8 :: "byte list"

definition utf8_new :: "'p \<Rightarrow> 'p utf8_stream_parser" where
  "utf8_new i = \<lparr>inner = i, pending_utf8 = []\<rparr>"

definition push_bytes ::
  "('p \<Rightarrow> ustr \<Rightarrow> 'p \<times> 'x stream_text_chunk) \<Rightarrow> 'p utf8_stream_parser \<Rightarrow> byte list \<Rightarrow>
   (utf8_stream_parser_error + 'x stream_text_chunk) \<times> 'p utf8_stream_parser" where
  "push_bytes push p chunk =
     (let bytes = pending_utf8 p @ chunk
      in case from_utf8 bytes of
           Inr t \<Rightarrow> (case push (inner p) t of (i, out) \<Rightarrow> (Ok out, \<lparr>inner = i, pending_utf8 = []\<rparr>))
         | Inl (valid_up_to, Some error_len) \<Rightarrow> (Err (InvalidUtf8 valid_up_to error_len), p)
         | Inl (valid_up_to, None) \<Rightarrow>
             if valid_up_to = 0 then (Ok chunk_default, p\<lparr>pending_utf8 := bytes\<rparr>)
             else
               case from_utf8 (take valid_up_to bytes) of
                 Inr t \<Rightarrow>
                   (case push (inner p) t of
                      (i, out) \<Rightarrow> (Ok out, \<lparr>inner = i, pending_utf8 = drop valid_up_to bytes\<rparr>))
               | Inl (v, l) \<Rightarrow> (Err (InvalidUtf8 v (case l of None \<Rightarrow> 0 | Some n \<Rightarrow> n)), p))"

definition utf8_error :: "nat \<times> nat option \<Rightarrow> utf8_stream_parser_error" where
  "utf8_error e = (case e of (v, Some n) \<Rightarrow> InvalidUtf8 v n | (_, None) \<Rightarrow> IncompleteUtf8AtEof)"

definition utf8_finish ::
  "('p \<Rightarrow> ustr \<Rightarrow> 'p \<times> 'x stream_text_chunk) \<Rightarrow> ('p \<Rightarrow> 'p \<times> 'x stream_text_chunk) \<Rightarrow> 'p utf8_stream_parser \<Rightarrow>
   (utf8_stream_parser_error + 'x stream_text_chunk) \<times> 'p utf8_stream_parser" where
  "utf8_finish push fin p =
     (case from_utf8 (pending_utf8 p) of
        Inl e \<Rightarrow> (Err (utf8_error e), p)
      | Inr t \<Rightarrow>
          (let (i, out) = (if pending_utf8 p = [] then (inner p, chunk_default) else push (inner p) t);
               (i', tail) = fin i
           in (Ok (chunk_append out tail), \<lparr>inner = i', pending_utf8 = []\<rparr>)))"

definition into_inner :: "'p utf8_stream_parser \<Rightarrow> utf8_stream_parser_error + 'p" where
  "into_inner p =
     (if pending_utf8 p = [] then Ok (inner p)
      else case from_utf8 (pending_utf8 p) of Inr _ \<Rightarrow> Ok (inner p) | Inl e \<Rightarrow> Err (utf8_error e))"

definition into_inner_lossy :: "'p utf8_stream_parser \<Rightarrow> 'p" where
  "into_inner_lossy p = inner p"

text \<open>Pushing pieces until the first error.\<close>

fun push_all_bytes ::
  "('p \<Rightarrow> ustr \<Rightarrow> 'p \<times> 'x stream_text_chunk) \<Rightarrow> 'p utf8_stream_parser \<Rightarrow> byte list list \<Rightarrow>
   (utf8_stream_parser_error + 'x stream_text_chunk) \<times> 'p utf8_stream_parser" where
  "push_all_bytes push p [] = (Ok chunk_default, p)"
| "push_all_bytes push p (b # bs) =
     (case push_bytes push p b of
        (Inl e, p') \<Rightarrow> (Err e, p')
      | (Inr c, p') \<Rightarrow>
          (case push_all_bytes push p' bs of
             (Inl e, p'') \<Rightarrow> (Err e, p'')
           | (Inr c', p'') \<Rightarrow> (Ok (chunk_append c c'), p'')))"

section \<open>Decoding in pieces\<close>

lemma decode_one_width: "decode_one b bs = Decoded c w \<Longrightarrow> 1 \<le> w \<and> w \<le> Suc (length bs)"
  by (auto simp: decode_one_def split: if_splits list.splits)

lemma decode_one_append:
  assumes "decode_one b bs \<noteq> Incomplete"
  shows "decode_one b (bs @ cs) = decode_one b bs"
proof -
  consider "bs = []" | b1 where "bs = [b1]" | b1 b2 where "bs = [b1, b2]" | b1 b2 b3 bs' where "bs = b1 # b2 # b3 # bs'"
    by (metis list.exhaust)
  then show ?thesis
    by cases (use assms in \<open>auto simp: decode_one_def split: if_splits\<close>)
qed

lemma utf8_run_append:
  assumes "utf8_run a = (t, None)"
  shows "utf8_run (a @ b) = (t @ fst (utf8_run b), map_option (\<lambda>(v, l). (v + length a, l)) (snd (utf8_run b)))"
  using assms
proof (induction a arbitrary: t rule: utf8_run.induct)
  case 1
  then show ?case by (cases "utf8_run b") (auto simp: case_prod_beta option.map_ident)
next
  case (2 x xs)
  from "2.prems" obtain c w t' where d: "decode_one x xs = Decoded c w" and r: "utf8_run (drop (w - 1) xs) = (t', None)"
    and t: "t = c # t'"
    by (auto split: decoded.splits prod.splits)
  have w: "1 \<le> w" "w \<le> Suc (length xs)" using decode_one_width [OF d] by auto
  have d': "decode_one x (xs @ b) = Decoded c w" using decode_one_append [of x xs b] d by simp
  have "drop (w - 1) (xs @ b) = drop (w - 1) xs @ b" using w by simp
  with "2.IH" [OF d r] d' w t show ?case
    by (auto simp: option.map_comp comp_def case_prod_beta)
qed

lemma utf8_run_invalid:
  assumes "utf8_run a = (t, Some (v, Some n))"
  shows "utf8_run (a @ b) = (t, Some (v, Some n))"
  using assms
proof (induction a arbitrary: t v rule: utf8_run.induct)
  case (2 x xs)
  show ?case
  proof (cases "decode_one x xs")
    case (Decoded c w)
    with "2.prems" obtain t' v' where r: "utf8_run (drop (w - 1) xs) = (t', Some (v', Some n))" and t: "t = c # t'" "v = v' + w"
      by (auto split: prod.splits)
    have w: "w \<le> Suc (length xs)" using decode_one_width [OF Decoded] by auto
    have "drop (w - 1) (xs @ b) = drop (w - 1) xs @ b" using w by simp
    with "2.IH" [OF Decoded r] decode_one_append [of x xs b] Decoded t show ?thesis by simp
  next
    case (Invalid k)
    with "2.prems" decode_one_append [of x xs b] show ?thesis by simp
  next
    case Incomplete
    with "2.prems" show ?thesis by simp
  qed
qed simp

lemma utf8_run_valid_prefix:
  assumes "utf8_run a = (t, Some (v, l))"
  shows "v \<le> length a \<and> utf8_run (take v a) = (t, None) \<and> utf8_run (drop v a) = ([], Some (0, l))"
  using assms
proof (induction a arbitrary: t v rule: utf8_run.induct)
  case (2 x xs)
  show ?case
  proof (cases "decode_one x xs")
    case (Decoded c w)
    with "2.prems" obtain t' v' where r: "utf8_run (drop (w - 1) xs) = (t', Some (v', l))" and t: "t = c # t'" "v = v' + w"
      by (auto split: prod.splits)
    have w: "1 \<le> w" "w \<le> Suc (length xs)" using decode_one_width [OF Decoded] by auto
    note ih = "2.IH" [OF Decoded r]
    have tk: "take v (x # xs) = x # take (w - 1) xs @ take v' (drop (w - 1) xs)"
      using w t by (cases w) (auto simp: take_add add.commute)
    have dr: "drop v (x # xs) = drop v' (drop (w - 1) xs)"
      using w t by (cases w) (auto simp: add.commute)
    have "decode_one x (take (w - 1) xs @ cs) = Decoded c w" for cs
      using Decoded w unfolding decode_one_def
      by (auto split: if_splits list.splits)
    then have "utf8_run (take v (x # xs)) = (t, None)"
      unfolding tk using ih w t(1) by (simp del: take_append)
    with ih dr w t show ?thesis by auto
  next
    case (Invalid k)
    with "2.prems" show ?thesis by auto
  next
    case Incomplete
    with "2.prems" show ?thesis by auto
  qed
qed simp

lemma utf8_run_split:
  assumes "utf8_run a = (t, Some (v, None))"
  shows "utf8_run (a @ b) =
     (t @ fst (utf8_run (drop v a @ b)), map_option (\<lambda>(v', l). (v' + v, l)) (snd (utf8_run (drop v a @ b))))"
proof -
  note vp = utf8_run_valid_prefix [OF assms]
  have "length (take v a) = v" using vp by simp
  with utf8_run_append [of "take v a" t "drop v a @ b"] vp
  have "utf8_run (take v a @ drop v a @ b) =
      (t @ fst (utf8_run (drop v a @ b)), map_option (\<lambda>(v', l). (v' + v, l)) (snd (utf8_run (drop v a @ b))))" by simp
  moreover have "take v a @ drop v a @ b = a @ b" by simp
  ultimately show ?thesis by (simp only:)
qed

section \<open>The byte parser over any text parser\<close>

definition utf8_pending_ok :: "byte list \<Rightarrow> bool" where
  "utf8_pending_ok bs \<longleftrightarrow> bs = [] \<or> utf8_run bs = ([], Some (0, None))"

text \<open>The effect of pushing bytes, in terms of the text decoded so far.\<close>

lemma push_bytes_cases:
  "push_bytes push p chunk =
     (case utf8_run (pending_utf8 p @ chunk) of
        (t, None) \<Rightarrow> (Ok (snd (push (inner p) t)), \<lparr>inner = fst (push (inner p) t), pending_utf8 = []\<rparr>)
      | (t, Some (v, Some n)) \<Rightarrow> (Err (InvalidUtf8 v n), p)
      | (t, Some (v, None)) \<Rightarrow>
          if v = 0 then (Ok chunk_default, p\<lparr>pending_utf8 := pending_utf8 p @ chunk\<rparr>)
          else (Ok (snd (push (inner p) t)),
                \<lparr>inner = fst (push (inner p) t), pending_utf8 = drop v (pending_utf8 p @ chunk)\<rparr>))"
proof (cases "utf8_run (pending_utf8 p @ chunk)")
  case (Pair t e)
  show ?thesis
  proof (cases e)
    case None
    with Pair show ?thesis by (simp add: push_bytes_def from_utf8_def case_prod_beta)
  next
    case (Some vl)
    obtain v l where vl: "vl = (v, l)" by fastforce
    have "utf8_run (take v (pending_utf8 p @ chunk)) = (t, None)"
      using utf8_run_valid_prefix [of "pending_utf8 p @ chunk" t v l] Pair Some vl by simp
    with Pair Some vl show ?thesis
      by (cases l) (simp_all add: push_bytes_def from_utf8_def case_prod_beta Let_def)
  qed
qed

lemma push_bytes_rollback: "push_bytes push p chunk = (Inl e, p') \<Longrightarrow> p' = p"
  by (auto simp: push_bytes_cases split: prod.splits option.splits if_splits)

lemma utf8_run_text_empty: "utf8_run bs = (t, Some (0, l)) \<Longrightarrow> t = []"
  using utf8_run_valid_prefix [of bs t 0 l] by simp

context stream_text_parser
begin

text \<open>What a byte parser has done after reading \<open>bs\<close> from the start.\<close>

definition read_so_far :: "'p \<Rightarrow> byte list \<Rightarrow> 'p utf8_stream_parser \<Rightarrow> 'x stream_text_chunk \<Rightarrow> bool" where
  "read_so_far i bs p out \<longleftrightarrow>
     (case utf8_run bs of
        (t, None) \<Rightarrow> pending_utf8 p = [] \<and> inner p = fst (push i t) \<and> same_chunk out (snd (push i t))
      | (t, Some (v, None)) \<Rightarrow>
          pending_utf8 p = drop v bs \<and> inner p = fst (push i t) \<and> same_chunk out (snd (push i t))
      | _ \<Rightarrow> False)"

lemma read_so_far_new: "inv i \<Longrightarrow> read_so_far i [] (utf8_new i) chunk_default"
  by (simp add: read_so_far_def utf8_new_def push_Nil)

lemma push_further:
  assumes "inv i" "same_chunk out (snd (push i t))"
  shows "same_chunk (chunk_append out (snd (push (fst (push i t)) u))) (snd (push i (t @ u)))"
  using same_chunk_append [OF assms(2) same_chunk_refl] push_append(2) [OF assms(1), of t u]
  by (simp add: same_chunk_def)

lemma push_bytes_reads:
  assumes "inv i" "read_so_far i bs p out" "utf8_run (bs @ b) = (t, e)" "\<forall>v n. e \<noteq> Some (v, Some n)"
  shows "\<exists>c p'. push_bytes push p b = (Inr c, p') \<and> read_so_far i (bs @ b) p' (chunk_append out c)"
proof -
  obtain t0 v0 where r: "pending_utf8 p = drop v0 bs" "inner p = fst (push i t0)" "same_chunk out (snd (push i t0))"
    and run: "utf8_run (bs @ b) = (t0 @ fst (utf8_run (drop v0 bs @ b)),
      map_option (\<lambda>(v', l). (v' + v0, l)) (snd (utf8_run (drop v0 bs @ b))))" and v0: "v0 \<le> length bs"
  proof (cases "utf8_run bs")
    case (Pair t0 e0)
    show thesis
    proof (cases e0)
      case None
      with Pair assms(2) utf8_run_append [of bs t0 b] show thesis
        by (intro that [of "length bs" t0]) (auto simp: read_so_far_def)
    next
      case (Some vl)
      with Pair assms(2) obtain v where "vl = (v, None)" by (auto simp: read_so_far_def split: option.splits prod.splits)
      with Pair Some assms(2) utf8_run_split [of bs t0 v b] utf8_run_valid_prefix [of bs t0 v None] show thesis
        by (intro that [of v t0]) (auto simp: read_so_far_def)
    qed
  qed
  obtain u eu where u: "utf8_run (drop v0 bs @ b) = (u, eu)" by fastforce
  have pe: "utf8_run (pending_utf8 p @ b) = (u, eu)" using u r(1) by simp
  note st = push_append(1) [OF assms(1), of t0 u] and ch = push_further [OF assms(1) r(3), of u]
  show ?thesis
  proof (cases eu)
    case None
    with run u have "utf8_run (bs @ b) = (t0 @ u, None)" by simp
    with None pe r(2) st ch show ?thesis by (simp add: push_bytes_cases read_so_far_def)
  next
    case (Some vl)
    obtain v l where vl: "vl = (v, l)" by fastforce
    with assms(3,4) run u Some have l: "l = None" by (cases l) auto
    have rb: "utf8_run (bs @ b) = (t0 @ u, Some (v + v0, None))" using run u Some vl l by simp
    have dr: "drop (v + v0) (bs @ b) = drop v (pending_utf8 p @ b)" using r(1) v0 by simp
    show ?thesis
    proof (cases "v = 0")
      case True
      with u Some vl l utf8_run_text_empty have "u = []" by blast
      with True pe Some vl l r rb dr show ?thesis by (simp add: push_bytes_cases read_so_far_def)
    next
      case False
      with pe Some vl l r(2) st ch rb dr show ?thesis by (simp add: push_bytes_cases read_so_far_def)
    qed
  qed
qed

lemma push_all_bytes_reads:
  assumes "inv i" "read_so_far i bs p out" "utf8_run (bs @ concat pieces) = (t, None)"
  shows "\<exists>c p'. push_all_bytes push p pieces = (Inr c, p') \<and> read_so_far i (bs @ concat pieces) p' (chunk_append out c)"
  using assms(2,3)
proof (induction pieces arbitrary: bs p out)
  case (Cons b pieces)
  obtain t1 e1 where r1: "utf8_run (bs @ b) = (t1, e1)" by fastforce
  have "e1 \<noteq> Some (v, Some n)" for v n
    using utf8_run_invalid [of "bs @ b" t1 v n "concat pieces"] r1 Cons.prems(2) by auto
  with push_bytes_reads [OF assms(1) Cons.prems(1) r1] obtain c p' where
    c: "push_bytes push p b = (Inr c, p')" "read_so_far i (bs @ b) p' (chunk_append out c)" by blast
  with Cons.IH [OF c(2)] Cons.prems(2) obtain c' p'' where
    "push_all_bytes push p' pieces = (Inr c', p'')" "read_so_far i ((bs @ b) @ concat pieces) p'' (chunk_append (chunk_append out c) c')"
    by auto
  with c(1) show ?case by (auto simp: chunk_append_assoc)
qed simp

lemma utf8_pieces:
  assumes "inv i" "from_utf8 (concat pieces) = Inr t"
  shows "\<exists>c p'. push_all_bytes push (utf8_new i) pieces = (Inr c, p') \<and> same_chunk c (snd (push i t)) \<and>
     utf8_finish push finish p' =
       (Inr (snd (finish (fst (push i t)))), \<lparr>inner = fst (finish (fst (push i t))), pending_utf8 = []\<rparr>)"
proof -
  have run: "utf8_run (concat pieces) = (t, None)"
    using assms(2) by (auto simp: from_utf8_def split: prod.splits option.splits)
  from push_all_bytes_reads [OF assms(1) read_so_far_new [OF assms(1)], of pieces t] run
  obtain c p' where c: "push_all_bytes push (utf8_new i) pieces = (Inr c, p')" "read_so_far i (concat pieces) p' c" by auto
  from c(2) run have "pending_utf8 p' = []" "inner p' = fst (push i t)" "same_chunk c (snd (push i t))"
    by (auto simp: read_so_far_def)
  with c(1) show ?thesis by (auto simp: utf8_finish_def from_utf8_def case_prod_beta Let_def)
qed

end

section \<open>Bytes to citations\<close>

text \<open>
  Bytes may arrive in any pieces, also cut inside a character: if together they are valid UTF-8,
  every push succeeds, and the shown text and the citations are those of the decoded text. A piece
  with an invalid sequence is rolled back as a whole.
\<close>

theorem bytes_in_pieces:
  assumes "from_utf8 (concat pieces) = Ok t"
  shows "(\<exists>out p tail p'. push_all_bytes citation_push_str (utf8_new citation_new) pieces = (Ok out, p) \<and>
       utf8_finish citation_push_str citation_finish p = (Ok tail, p') \<and>
       (visible_text out @ visible_text tail, extracted out @ extracted tail) = strip_citations t) \<and>
     (\<forall>q chunk e q'. push_bytes citation_push_str q chunk = (Err e, q') \<longrightarrow> q' = q)"
proof -
  from citation.utf8_pieces [OF citation_new_inv assms] obtain c p' where
    "push_all_bytes citation_push_str (utf8_new citation_new) pieces = (Inr c, p')" "c = snd (citation_push_str citation_new t)"
    "utf8_finish citation_push_str citation_finish p' =
       (Inr (snd (citation_finish (fst (citation_push_str citation_new t)))),
        \<lparr>inner = fst (citation_finish (fst (citation_push_str citation_new t))), pending_utf8 = []\<rparr>)"
    by (auto simp: citation_same_chunk)
  then show ?thesis
    by (auto simp: strip_citations_def case_prod_beta Let_def dest: push_bytes_rollback)
qed

theorem bytes_in_pieces_witness:
  "\<exists>out p tail p'. push_all_bytes citation_push_str (utf8_new citation_new) [[0xC3], [0xA9, 0x21]] = (Ok out, p) \<and>
     utf8_finish citation_push_str citation_finish p = (Ok tail, p') \<and>
     (visible_text out @ visible_text tail, extracted out @ extracted tail) = strip_citations [0xE9, 0x21]"
proof -
  have "from_utf8 (concat [[0xC3], [0xA9, 0x21]]) = Ok [0xE9, 0x21]"
    by (simp add: from_utf8_def decode_one_def is_cont_def)
  from bytes_in_pieces [OF this] show ?thesis by blast
qed

end
