(* ===== verification/Plan_Parser.thy ===== *)
theory Plan_Parser
  imports Stream_Text
begin

text \<open>
  Tags that stand alone on a line: \<open>utils/stream-parser/src/tagged_line_parser.rs\<close>, and the
  parser of proposed plans built on it, \<open>proposed_plan.rs\<close>. Segments of one piece are merged, so
  the payloads are compared as sequences of events, one per character and one per tag.

  The result: for any cut of the input, the events are those of a reading line by line, where a
  line belongs to a plan exactly if it stands between a line that is the opening tag and the next
  line that is the closing tag, surrounding whitespace aside.
\<close>

section \<open>tagged_line_parser.rs\<close>

record 'T tag_spec =
  open_text :: ustr
  close_text :: ustr
  spec_tag :: 'T

datatype 'T tagged_line_segment =
  NormalSeg ustr
| TagStart 'T
| TagDelta 'T ustr
| TagEnd 'T

record 'T tagged_line_parser =
  specs :: "'T tag_spec list"
  active_tag :: "'T option"
  detect_tag :: bool
  line_buffer :: ustr

definition tagged_new :: "'T tag_spec list \<Rightarrow> 'T tagged_line_parser" where
  "tagged_new sps = \<lparr>specs = sps, active_tag = None, detect_tag = True, line_buffer = []\<rparr>"

definition push_segment :: "'T tagged_line_segment list \<Rightarrow> 'T tagged_line_segment \<Rightarrow> 'T tagged_line_segment list" where
  "push_segment segments segment =
     (case segment of
        NormalSeg d \<Rightarrow>
          if d = [] then segments
          else if segments \<noteq> [] \<and> (case last segments of NormalSeg _ \<Rightarrow> True | _ \<Rightarrow> False)
          then update_last (\<lambda>s. case s of NormalSeg e \<Rightarrow> NormalSeg (e @ d) | _ \<Rightarrow> s) segments
          else segments @ [NormalSeg d]
      | TagDelta t d \<Rightarrow>
          if d = [] then segments
          else if segments \<noteq> [] \<and> (case last segments of TagDelta t' _ \<Rightarrow> t' = t | _ \<Rightarrow> False)
          then update_last (\<lambda>s. case s of TagDelta t' e \<Rightarrow> TagDelta t' (e @ d) | _ \<Rightarrow> s) segments
          else segments @ [TagDelta t d]
      | TagStart t \<Rightarrow> segments @ [TagStart t]
      | TagEnd t \<Rightarrow> segments @ [TagEnd t])"

definition push_text :: "'T tagged_line_parser \<Rightarrow> ustr \<Rightarrow> 'T tagged_line_segment list \<Rightarrow> 'T tagged_line_segment list" where
  "push_text p t segments =
     (case active_tag p of
        Some tag \<Rightarrow> push_segment segments (TagDelta tag t)
      | None \<Rightarrow> push_segment segments (NormalSeg t))"

definition is_tag_prefix :: "'T tagged_line_parser \<Rightarrow> ustr \<Rightarrow> bool" where
  "is_tag_prefix p slug \<longleftrightarrow>
     list_ex (\<lambda>sp. starts_with (trim_end slug) (open_text sp) \<or> starts_with (trim_end slug) (close_text sp)) (specs p)"

definition match_open :: "'T tagged_line_parser \<Rightarrow> ustr \<Rightarrow> 'T option" where
  "match_open p slug = map_option spec_tag (find (\<lambda>sp. open_text sp = slug) (specs p))"

definition match_close :: "'T tagged_line_parser \<Rightarrow> ustr \<Rightarrow> 'T option" where
  "match_close p slug = map_option spec_tag (find (\<lambda>sp. close_text sp = slug) (specs p))"

definition without_newline :: "ustr \<Rightarrow> ustr" where
  "without_newline s = (case strip_suffix [newline] s of Some t \<Rightarrow> t | None \<Rightarrow> s)"

text \<open>The tag test of \<open>finish_line\<close> and of \<open>finish\<close>: which tag a buffered line opens or closes.\<close>

definition line_opens :: "'T tagged_line_parser \<Rightarrow> ustr \<Rightarrow> 'T option" where
  "line_opens p line =
     (if active_tag p = None then match_open p (trim_end (trim_start (without_newline line))) else None)"

definition line_closes :: "'T tagged_line_parser \<Rightarrow> ustr \<Rightarrow> 'T option" where
  "line_closes p line =
     (case match_close p (trim_end (trim_start (without_newline line))) of
        Some tag \<Rightarrow> if active_tag p = Some tag then Some tag else None
      | None \<Rightarrow> None)"

definition finish_line ::
  "'T tagged_line_parser \<Rightarrow> 'T tagged_line_segment list \<Rightarrow> 'T tagged_line_parser \<times> 'T tagged_line_segment list" where
  "finish_line p segments =
     (let line = line_buffer p; p1 = p\<lparr>line_buffer := [], detect_tag := True\<rparr>
      in case line_opens p line of
           Some tag \<Rightarrow> (p1\<lparr>active_tag := Some tag\<rparr>, push_segment segments (TagStart tag))
         | None \<Rightarrow>
           (case line_closes p line of
              Some tag \<Rightarrow> (p1\<lparr>active_tag := None\<rparr>, push_segment segments (TagEnd tag))
            | None \<Rightarrow> (p1, push_text p1 line segments)))"

fun parse_chars ::
  "'T tagged_line_parser \<Rightarrow> ustr \<Rightarrow> 'T tagged_line_segment list \<Rightarrow> ustr \<Rightarrow>
   'T tagged_line_parser \<times> ustr \<times> 'T tagged_line_segment list" where
  "parse_chars p run segments [] = (p, run, segments)"
| "parse_chars p run segments (ch # delta) =
     (if detect_tag p
      then
        let segments1 = (if run \<noteq> [] then push_text p run segments else segments);
            p1 = p\<lparr>line_buffer := line_buffer p @ [ch]\<rparr>
        in if ch = newline
           then (case finish_line p1 segments1 of (p2, segments2) \<Rightarrow> parse_chars p2 [] segments2 delta)
           else
             let slug = trim_start (line_buffer p1)
             in if slug = [] \<or> is_tag_prefix p1 slug then parse_chars p1 [] segments1 delta
                else
                  let p2 = p1\<lparr>line_buffer := [], detect_tag := False\<rparr>
                  in parse_chars p2 [] (push_text p2 (line_buffer p1) segments1) delta
      else if ch = newline
      then parse_chars (p\<lparr>detect_tag := True\<rparr>) [] (push_text p (run @ [ch]) segments) delta
      else parse_chars p (run @ [ch]) segments delta)"

definition tagged_parse :: "'T tagged_line_parser \<Rightarrow> ustr \<Rightarrow> 'T tagged_line_parser \<times> 'T tagged_line_segment list" where
  "tagged_parse p delta =
     (case parse_chars p [] [] delta of
        (p', run, segments) \<Rightarrow> (p', if run \<noteq> [] then push_text p' run segments else segments))"

definition tagged_finish :: "'T tagged_line_parser \<Rightarrow> 'T tagged_line_parser \<times> 'T tagged_line_segment list" where
  "tagged_finish p =
     (let (p1, segments) =
        (if line_buffer p \<noteq> []
         then
           (let buffered = line_buffer p; q = p\<lparr>line_buffer := []\<rparr>
            in case line_opens p buffered of
                 Some tag \<Rightarrow> (q\<lparr>active_tag := Some tag\<rparr>, push_segment [] (TagStart tag))
               | None \<Rightarrow>
                 (case line_closes p buffered of
                    Some tag \<Rightarrow> (q\<lparr>active_tag := None\<rparr>, push_segment [] (TagEnd tag))
                  | None \<Rightarrow> (q, push_text q buffered [])))
         else (p, []))
      in case active_tag p1 of
           Some tag \<Rightarrow> (p1\<lparr>active_tag := None, detect_tag := True\<rparr>, push_segment segments (TagEnd tag))
         | None \<Rightarrow> (p1\<lparr>detect_tag := True\<rparr>, segments))"

section \<open>proposed_plan.rs\<close>

definition OPEN_TAG :: ustr where "OPEN_TAG = lit ''<proposed_plan>''"
definition CLOSE_TAG :: ustr where "CLOSE_TAG = lit ''</proposed_plan>''"

datatype plan_tag = ProposedPlan

datatype proposed_plan_segment =
  PlanNormal ustr
| ProposedPlanStart
| ProposedPlanDelta ustr
| ProposedPlanEnd

definition plan_specs :: "plan_tag tag_spec list" where
  "plan_specs = [\<lparr>open_text = OPEN_TAG, close_text = CLOSE_TAG, spec_tag = ProposedPlan\<rparr>]"

type_synonym proposed_plan_parser = "plan_tag tagged_line_parser"

definition plan_new :: proposed_plan_parser where
  "plan_new = tagged_new plan_specs"

fun map_segment :: "plan_tag tagged_line_segment \<Rightarrow> proposed_plan_segment" where
  "map_segment (NormalSeg t) = PlanNormal t"
| "map_segment (TagStart ProposedPlan) = ProposedPlanStart"
| "map_segment (TagDelta ProposedPlan t) = ProposedPlanDelta t"
| "map_segment (TagEnd ProposedPlan) = ProposedPlanEnd"

fun segment_visible :: "proposed_plan_segment \<Rightarrow> ustr" where
  "segment_visible (PlanNormal t) = t"
| "segment_visible _ = []"

definition map_segments :: "plan_tag tagged_line_segment list \<Rightarrow> proposed_plan_segment stream_text_chunk" where
  "map_segments segments =
     (let mapped = map map_segment segments
      in \<lparr>visible_text = concat (map segment_visible mapped), extracted = mapped\<rparr>)"

definition plan_push_str :: "proposed_plan_parser \<Rightarrow> ustr \<Rightarrow> proposed_plan_parser \<times> proposed_plan_segment stream_text_chunk" where
  "plan_push_str p chunk = (case tagged_parse p chunk of (p', segments) \<Rightarrow> (p', map_segments segments))"

definition plan_finish :: "proposed_plan_parser \<Rightarrow> proposed_plan_parser \<times> proposed_plan_segment stream_text_chunk" where
  "plan_finish p = (case tagged_finish p of (p', segments) \<Rightarrow> (p', map_segments segments))"

definition strip_proposed_plan_blocks :: "ustr \<Rightarrow> ustr" where
  "strip_proposed_plan_blocks t =
     (let (p, c) = plan_push_str plan_new t in visible_text c @ visible_text (snd (plan_finish p)))"

fun collect_plan :: "ustr \<times> bool \<Rightarrow> proposed_plan_segment \<Rightarrow> ustr \<times> bool" where
  "collect_plan (plan_text, saw_plan_block) ProposedPlanStart = ([], True)"
| "collect_plan (plan_text, saw_plan_block) (ProposedPlanDelta d) = (plan_text @ d, saw_plan_block)"
| "collect_plan (plan_text, saw_plan_block) _ = (plan_text, saw_plan_block)"

definition extract_proposed_plan_text :: "ustr \<Rightarrow> ustr option" where
  "extract_proposed_plan_text t =
     (let (p, c) = plan_push_str plan_new t;
          (plan_text, saw_plan_block) = foldl collect_plan ([], False) (extracted c @ extracted (snd (plan_finish p)))
      in if saw_plan_block then Some plan_text else None)"

section \<open>Events\<close>

datatype 'T event = Shown uchar | Start 'T | Inside 'T uchar | End 'T

fun segment_events :: "'T tagged_line_segment \<Rightarrow> 'T event list" where
  "segment_events (NormalSeg t) = map Shown t"
| "segment_events (TagStart t) = [Start t]"
| "segment_events (TagDelta t s) = map (Inside t) s"
| "segment_events (TagEnd t) = [End t]"

definition events :: "'T tagged_line_segment list \<Rightarrow> 'T event list" where
  "events segs = concat (map segment_events segs)"

definition text_events :: "'T option \<Rightarrow> ustr \<Rightarrow> 'T event list" where
  "text_events a s = (case a of None \<Rightarrow> map Shown s | Some t \<Rightarrow> map (Inside t) s)"

lemma events_simps [simp]: "events [] = []" "events (xs @ ys) = events xs @ events ys" "events (x # xs) = segment_events x @ events xs"
  by (simp_all add: events_def)

lemma text_events_simps [simp]: "text_events a [] = []" "text_events a (s @ t) = text_events a s @ text_events a t"
  by (simp_all add: text_events_def split: option.splits)

lemma events_push_segment: "events (push_segment segs x) = events segs @ segment_events x"
proof (cases segs rule: rev_cases)
  case Nil
  then show ?thesis by (cases x) (auto simp: push_segment_def)
next
  case (snoc ys y)
  then show ?thesis by (cases x; cases y) (auto simp: push_segment_def)
qed

lemma events_push_text: "events (push_text p t segs) = events segs @ text_events (active_tag p) t"
  by (auto simp: push_text_def text_events_def events_push_segment split: option.splits)

text \<open>One character: the next parser and the events it causes.\<close>

definition line_events_of :: "'T tagged_line_parser \<Rightarrow> ustr \<Rightarrow> 'T option \<times> 'T event list" where
  "line_events_of p line =
     (case line_opens p line of
        Some t \<Rightarrow> (Some t, [Start t])
      | None \<Rightarrow>
        (case line_closes p line of
           Some t \<Rightarrow> (None, [End t])
         | None \<Rightarrow> (active_tag p, text_events (active_tag p) line)))"

definition char_step :: "'T tagged_line_parser \<Rightarrow> uchar \<Rightarrow> 'T tagged_line_parser \<times> 'T event list" where
  "char_step p ch =
     (if detect_tag p
      then
        let line = line_buffer p @ [ch]
        in if ch = newline
           then (case line_events_of p line of (a, ev) \<Rightarrow> (p\<lparr>line_buffer := [], detect_tag := True, active_tag := a\<rparr>, ev))
           else if trim_start line = [] \<or> is_tag_prefix p (trim_start line) then (p\<lparr>line_buffer := line\<rparr>, [])
           else (p\<lparr>line_buffer := [], detect_tag := False\<rparr>, text_events (active_tag p) line)
      else (if ch = newline then p\<lparr>detect_tag := True\<rparr> else p, text_events (active_tag p) [ch]))"

fun char_steps :: "'T tagged_line_parser \<Rightarrow> ustr \<Rightarrow> 'T tagged_line_parser \<times> 'T event list" where
  "char_steps p [] = (p, [])"
| "char_steps p (ch # s) =
     (case char_step p ch of (p1, ev1) \<Rightarrow> (case char_steps p1 s of (p2, ev2) \<Rightarrow> (p2, ev1 @ ev2)))"

lemma char_steps_append:
  "char_steps p (s @ t) =
     (case char_steps p s of (p1, ev1) \<Rightarrow> (case char_steps p1 t of (p2, ev2) \<Rightarrow> (p2, ev1 @ ev2)))"
  by (induction p s rule: char_steps.induct) (auto split: prod.splits)

lemma line_tests_buffer [simp]:
  "line_opens (p\<lparr>line_buffer := b\<rparr>) = line_opens p" "line_closes (p\<lparr>line_buffer := b\<rparr>) = line_closes p"
  "is_tag_prefix (p\<lparr>line_buffer := b\<rparr>) = is_tag_prefix p"
  by (auto simp: line_opens_def line_closes_def match_open_def match_close_def is_tag_prefix_def fun_eq_iff
      split: option.splits)

lemma finish_line_events:
  assumes "finish_line (p\<lparr>line_buffer := line\<rparr>) segs = (p2, segs2)"
  shows "events segs2 = events segs @ snd (line_events_of p line) \<and>
     p2 = p\<lparr>line_buffer := [], detect_tag := True, active_tag := fst (line_events_of p line)\<rparr>"
  using assms
  by (auto simp: finish_line_def line_events_of_def events_push_segment events_push_text Let_def
      split: option.splits)

lemma parse_chars_events:
  assumes "parse_chars p run segs d = (p', run', segs')"
  shows "fst (char_steps p d) = p' \<and>
     events segs' @ text_events (active_tag p') run' =
       events segs @ text_events (active_tag p) run @ snd (char_steps p d)"
  using assms
proof (induction p run segs d rule: parse_chars.induct)
  case (2 p run segs ch d)
  let ?segs1 = "if run \<noteq> [] then push_text p run segs else segs"
  have segs1: "events ?segs1 = events segs @ text_events (active_tag p) run"
    by (simp add: events_push_text)
  show ?case
  proof (cases "detect_tag p")
    case det: True
    let ?line = "line_buffer p @ [ch]"
    show ?thesis
    proof (cases "ch = 10")
      case True
      obtain p2 segs2 where f: "finish_line (p\<lparr>line_buffer := ?line\<rparr>) ?segs1 = (p2, segs2)" by fastforce
      note fe = finish_line_events [OF f]
      have "parse_chars p2 [] segs2 d = (p', run', segs')" using "2.prems" det True f by (simp add: Let_def)
      from "2.IH"(1) [OF det refl refl True f [symmetric] this]
      have "fst (char_steps p2 d) = p' \<and> events segs' @ text_events (active_tag p') run' = events segs2 @ snd (char_steps p2 d)"
        by simp
      moreover have "char_step p ch = (p2, snd (line_events_of p ?line))"
        using fe det True by (simp add: char_step_def Let_def case_prod_beta)
      ultimately show ?thesis using fe segs1 by (simp add: case_prod_beta)
    next
      case nl: False
      show ?thesis
      proof (cases "trim_start ?line = [] \<or> is_tag_prefix p (trim_start ?line)")
        case True
        let ?p1 = "p\<lparr>line_buffer := ?line\<rparr>"
        have pc: "parse_chars ?p1 [] ?segs1 d = (p', run', segs')" using "2.prems" det nl True by (simp add: Let_def)
        have c: "trim_start (line_buffer ?p1) = [] \<or> is_tag_prefix ?p1 (trim_start (line_buffer ?p1))" using True by simp
        have "char_step p ch = (?p1, [])" using True det nl by (simp add: char_step_def Let_def)
        with "2.IH"(2) [OF det refl refl nl refl c pc] segs1 show ?thesis by (simp add: case_prod_beta)
      next
        case False
        let ?p1 = "p\<lparr>line_buffer := ?line\<rparr>" and ?p2 = "p\<lparr>line_buffer := [], detect_tag := False\<rparr>"
        have pc: "parse_chars ?p2 [] (push_text ?p2 ?line ?segs1) d = (p', run', segs')"
          using "2.prems" det nl False by (simp add: Let_def)
        have c: "\<not> (trim_start (line_buffer ?p1) = [] \<or> is_tag_prefix ?p1 (trim_start (line_buffer ?p1)))" using False by simp
        have "char_step p ch = (?p2, text_events (active_tag p) ?line)" using False det nl by (simp add: char_step_def Let_def)
        with "2.IH"(3) [OF det refl refl nl refl c refl] pc segs1 show ?thesis
          by (simp add: case_prod_beta events_push_text)
      qed
    qed
  next
    case det: False
    show ?thesis
    proof (cases "ch = 10")
      case True
      let ?p1 = "p\<lparr>detect_tag := True\<rparr>"
      have pc: "parse_chars ?p1 [] (push_text p (run @ [ch]) segs) d = (p', run', segs')"
        using "2.prems" det True by simp
      have "char_step p ch = (?p1, text_events (active_tag p) [ch])" using True det by (simp add: char_step_def)
      with "2.IH"(4) [OF det True pc] show ?thesis by (simp add: case_prod_beta events_push_text)
    next
      case False
      have pc: "parse_chars p (run @ [ch]) segs d = (p', run', segs')" using "2.prems" det False by simp
      have "char_step p ch = (p, text_events (active_tag p) [ch])" using False det by (simp add: char_step_def)
      with "2.IH"(5) [OF det False pc] show ?thesis by (simp add: case_prod_beta)
    qed
  qed
qed simp

lemma tagged_parse_events:
  "fst (tagged_parse p d) = fst (char_steps p d) \<and> events (snd (tagged_parse p d)) = snd (char_steps p d)"
proof -
  obtain p' run segs where r: "parse_chars p [] [] d = (p', run, segs)" by (metis prod_cases3)
  from parse_chars_events [OF r] show ?thesis
    by (auto simp: tagged_parse_def r events_push_text)
qed

section \<open>Plan segments as events\<close>

fun plan_segment_events :: "proposed_plan_segment \<Rightarrow> plan_tag event list" where
  "plan_segment_events (PlanNormal t) = map Shown t"
| "plan_segment_events ProposedPlanStart = [Start ProposedPlan]"
| "plan_segment_events (ProposedPlanDelta t) = map (Inside ProposedPlan) t"
| "plan_segment_events ProposedPlanEnd = [End ProposedPlan]"

definition plan_events :: "proposed_plan_segment list \<Rightarrow> plan_tag event list" where
  "plan_events segs = concat (map plan_segment_events segs)"

definition shown :: "'T event list \<Rightarrow> ustr" where
  "shown evs = List.map_filter (\<lambda>e. case e of Shown c \<Rightarrow> Some c | _ \<Rightarrow> None) evs"

lemma shown_append [simp]: "shown (xs @ ys) = shown xs @ shown ys"
  by (simp add: shown_def map_filter_def)

lemma shown_text: "shown (map Shown t) = t" "shown (map (Inside g) t) = []"
  by (induction t) (simp_all add: shown_def map_filter_def)

lemma map_segment_events: "plan_segment_events (map_segment s) = segment_events s"
  by (cases s rule: map_segment.cases) auto

lemma plan_events_map: "plan_events (map map_segment segs) = events segs"
  by (induction segs) (simp_all add: plan_events_def map_segment_events)

lemma visible_shown: "concat (map segment_visible segs) = shown (plan_events segs)"
proof (induction segs)
  case (Cons s segs)
  have "segment_visible s = shown (plan_segment_events s)"
    by (cases s) (simp_all add: shown_text, simp_all add: shown_def map_filter_def)
  with Cons show ?case by (simp add: plan_events_def)
qed (simp add: plan_events_def shown_def map_filter_def)

lemma plan_push:
  "fst (plan_push_str p t) = fst (char_steps p t)"
  "plan_events (extracted (snd (plan_push_str p t))) = snd (char_steps p t)"
  "visible_text (snd (plan_push_str p t)) = shown (snd (char_steps p t))"
  using tagged_parse_events [of p t]
  by (simp_all add: plan_push_str_def map_segments_def plan_events_map visible_shown Let_def case_prod_beta)

lemma plan_events_append: "plan_events (xs @ ys) = plan_events xs @ plan_events ys"
  by (simp add: plan_events_def)

interpretation plan: stream_text_parser plan_push_str plan_finish "\<lambda>_. True" plan_events
proof
  show "plan_push_str p [] = (p, chunk_default)" for p
    by (simp add: plan_push_str_def tagged_parse_def map_segments_def chunk_default_def)
qed (simp_all add: plan_push char_steps_append case_prod_beta plan_events_append)

section \<open>Reading line by line\<close>

lemma trim_end_append_prefix: "prefix (trim_end s) (trim_end (s @ t))"
proof (cases "trim_end t = []")
  case True
  then have "\<forall>c \<in> set t. is_whitespace c" by (simp add: trim_end_def)
  then have "trim_end (s @ t) = trim_end s"
    by (simp add: trim_end_def) (rule dropWhile_append2, simp)
  then show ?thesis by simp
next
  case False
  then have "\<exists>c \<in> set t. \<not> is_whitespace c" by (simp add: trim_end_def)
  then have "trim_end (s @ t) = s @ trim_end t"
    by (auto simp: trim_end_def dropWhile_append)
  moreover obtain w where "s = trim_end s @ w" using trim_end_prefix by blast
  ultimately show ?thesis by (metis append.assoc prefixI)
qed

lemma slug_prefix:
  assumes "trim_start x \<noteq> []" "trim (x @ y) = d"
  shows "starts_with (trim_end (trim_start x)) d"
proof -
  have "\<exists>c \<in> set x. \<not> is_whitespace c" using assms(1) by (auto simp: trim_start_def)
  then have "trim_start (x @ y) = trim_start x @ y" by (auto simp: trim_start_def dropWhile_append)
  with assms(2) trim_end_append_prefix [of "trim_start x" y] show ?thesis
    by (auto simp: starts_with_prefix trim_def)
qed

lemma without_newline_snoc [simp]: "without_newline (l @ [10]) = l"
proof -
  have "strip_suffix [10] (l @ [10]) = Some l" by (simp add: strip_suffix_Some_iff)
  then show ?thesis by (simp add: without_newline_def)
qed

lemma find_NoneI: "\<forall>x \<in> set xs. \<not> P x \<Longrightarrow> find P xs = None"
  by (auto simp: find_None_iff)

lemma disproved_line:
  assumes "trim_start x \<noteq> []" "\<not> is_tag_prefix p (trim_start x)" "l = x @ y"
  shows "line_events_of p (l @ [10]) = (active_tag p, text_events (active_tag p) (l @ [10]))"
proof -
  have "\<forall>sp \<in> set (specs p). open_text sp \<noteq> trim l \<and> close_text sp \<noteq> trim l"
    using assms slug_prefix [OF assms(1), of y] by (auto simp: is_tag_prefix_def list_ex_iff)
  then have "match_open p (trim l) = None" "match_close p (trim l) = None"
    by (auto simp: match_open_def match_close_def intro!: find_NoneI)
  then show ?thesis by (simp add: line_events_of_def line_opens_def line_closes_def trim_def)
qed

lemma text_line:
  "\<not> detect_tag p \<Longrightarrow> 10 \<notin> set r \<Longrightarrow>
     char_steps p (r @ [10]) = (p\<lparr>detect_tag := True\<rparr>, text_events (active_tag p) (r @ [10]))"
proof (induction r)
  case (Cons c r)
  have "text_events (active_tag p) (c # r @ [10]) = text_events (active_tag p) [c] @ text_events (active_tag p) (r @ [10])"
    using text_events_simps(2) [of "active_tag p" "[c]" "r @ [10]"] by simp
  with Cons show ?case by (simp add: char_step_def)
qed (simp add: char_step_def)

lemma whole_line:
  assumes "detect_tag p" "10 \<notin> set r"
  shows "char_steps p (r @ [10]) =
     (p\<lparr>line_buffer := [], active_tag := fst (line_events_of p (line_buffer p @ r @ [10]))\<rparr>,
      snd (line_events_of p (line_buffer p @ r @ [10])))"
  using assms
proof (induction r arbitrary: p)
  case Nil
  then show ?case by (simp add: char_step_def Let_def case_prod_beta)
next
  case (Cons c r)
  let ?x = "line_buffer p @ [c]"
  show ?case
  proof (cases "trim_start ?x = [] \<or> is_tag_prefix p (trim_start ?x)")
    case True
    let ?p1 = "p\<lparr>line_buffer := ?x\<rparr>"
    have "char_step p c = (?p1, [])" using True Cons.prems by (simp add: char_step_def Let_def)
    moreover have "line_events_of ?p1 = line_events_of p" by (auto simp: line_events_of_def fun_eq_iff split: option.splits)
    ultimately show ?thesis using Cons.IH [of ?p1] Cons.prems by (simp add: case_prod_beta)
  next
    case False
    let ?p2 = "p\<lparr>line_buffer := [], detect_tag := False\<rparr>"
    have "char_step p c = (?p2, text_events (active_tag p) ?x)" using False Cons.prems by (simp add: char_step_def Let_def)
    moreover have "char_steps ?p2 (r @ [10]) = (?p2\<lparr>detect_tag := True\<rparr>, text_events (active_tag p) (r @ [10]))"
      using text_line [of ?p2 r] Cons.prems by simp
    moreover have "line_events_of p ((?x @ r) @ [10]) = (active_tag p, text_events (active_tag p) ((?x @ r) @ [10]))"
      using disproved_line [of ?x p "?x @ r" r] False by blast
    moreover have "text_events (active_tag p) ?x @ text_events (active_tag p) (r @ [10]) = text_events (active_tag p) ((?x @ r) @ [10])"
      by (simp only: text_events_simps append.assoc)
    ultimately show ?thesis using Cons.prems by (simp del: text_events_simps)
  qed
qed

text \<open>The reading line by line that the plan parser promises.\<close>

fun line_events :: "bool \<Rightarrow> ustr list \<Rightarrow> plan_tag event list" where
  "line_events in_plan [] = []"
| "line_events in_plan (l # ls) =
     (if \<not> in_plan \<and> trim l = OPEN_TAG then Start ProposedPlan # line_events True ls
      else if in_plan \<and> trim l = CLOSE_TAG then End ProposedPlan # line_events False ls
      else map (if in_plan then Inside ProposedPlan else Shown) (l @ [newline]) @ line_events in_plan ls)"

lemma plan_line_events:
  assumes "specs p = plan_specs"
  shows "line_events_of p (l @ [10]) =
     (if active_tag p = None \<and> trim l = OPEN_TAG then (Some ProposedPlan, [Start ProposedPlan])
      else if active_tag p \<noteq> None \<and> trim l = CLOSE_TAG then (None, [End ProposedPlan])
      else (active_tag p, text_events (active_tag p) (l @ [10])))"
proof -
  have "active_tag p = None \<or> active_tag p = Some ProposedPlan"
    by (cases "active_tag p") (auto intro: plan_tag.exhaust)
  with assms show ?thesis
    by (auto simp: line_events_of_def line_opens_def line_closes_def match_open_def match_close_def plan_specs_def
        trim_def split: if_splits)
qed

lemma plan_lines:
  assumes "specs p = plan_specs" "detect_tag p" "line_buffer p = []" "\<forall>l \<in> set ls. 10 \<notin> set l"
  shows "snd (char_steps p (concat (map (\<lambda>l. l @ [10]) ls))) = line_events (active_tag p \<noteq> None) ls"
  using assms
proof (induction ls arbitrary: p)
  case (Cons l ls)
  let ?p1 = "p\<lparr>line_buffer := [], active_tag := fst (line_events_of p (l @ [10]))\<rparr>"
  have "10 \<notin> set l" using Cons.prems(4) by simp
  from whole_line [OF Cons.prems(2) this] Cons.prems(3)
  have "char_steps p (l @ [10]) = (?p1, snd (line_events_of p (l @ [10])))" by simp
  then have step: "snd (char_steps p (concat (map (\<lambda>l. l @ [10]) (l # ls)))) =
      snd (line_events_of p (l @ [10])) @ snd (char_steps ?p1 (concat (map (\<lambda>l. l @ [10]) ls)))"
    using char_steps_append [of p "l @ [10]"] by (simp add: case_prod_beta)
  have ih: "snd (char_steps ?p1 (concat (map (\<lambda>l. l @ [10]) ls))) = line_events (active_tag ?p1 \<noteq> None) ls"
    using Cons by simp
  have tag: "active_tag p = None \<or> active_tag p = Some ProposedPlan"
    by (cases "active_tag p") (auto intro: plan_tag.exhaust)
  show ?case
    unfolding step unfolding ih
    using tag by (auto simp: plan_line_events [OF Cons.prems(1)] text_events_def)
qed simp

text \<open>
  However a text of whole lines is cut into pieces, the plan parser reports it line by line: a
  line is a tag exactly if it is the opening (closing) tag with whitespace around it, outside
  (inside) a plan; every other line is plan text inside a plan and shown text outside, and only
  the latter is visible.
\<close>

theorem plan_blocks_by_line:
  assumes "concat pieces = concat (map (\<lambda>l. l @ [newline]) ls)" "\<forall>l \<in> set ls. newline \<notin> set l"
  shows "plan_events (extracted (snd (push_all plan_push_str plan_new pieces))) = line_events False ls \<and>
     visible_text (snd (push_all plan_push_str plan_new pieces)) = shown (line_events False ls)"
proof -
  have "snd (char_steps plan_new (concat pieces)) = line_events False ls"
    unfolding assms(1) using plan_lines [of plan_new ls] assms(2) by (simp add: plan_new_def tagged_new_def)
  with plan.push_all_concat [of plan_new pieces] show ?thesis
    by (simp add: plan.same_chunk_def plan_push)
qed

theorem plan_blocks_by_line_witness:
  "let pieces = [lit ''hi'' @ [10] @ lit '' <propo'', lit ''sed_plan>'' @ [10] @ lit ''x'', [10]];
       c = snd (push_all plan_push_str plan_new pieces)
   in visible_text c = lit ''hi'' @ [10] \<and>
      plan_events (extracted c) = map Shown (lit ''hi'' @ [10]) @ Start ProposedPlan # map (Inside ProposedPlan) (lit ''x'' @ [10])"
proof -
  let ?pieces = "[lit ''hi'' @ [10] @ lit '' <propo'', lit ''sed_plan>'' @ [10] @ lit ''x'', [10]]"
  let ?ls = "[lit ''hi'', lit '' <proposed_plan>'', lit ''x'']"
  have 1: "concat ?pieces = concat (map (\<lambda>l. l @ [10]) ?ls)" by simp
  have 2: "\<forall>l \<in> set ?ls. 10 \<notin> set l" by simp
  have 3: "line_events False ?ls = map Shown (lit ''hi'' @ [10]) @ Start ProposedPlan # map (Inside ProposedPlan) (lit ''x'' @ [10])"
    by (simp add: OPEN_TAG_def CLOSE_TAG_def str_simps)
  have 4: "shown (line_events False ?ls) = lit ''hi'' @ [10]"
    unfolding 3 by (simp add: shown_def map_filter_def)
  from plan_blocks_by_line [OF 1 2] show ?thesis unfolding Let_def 4 unfolding 3 by blast
qed

end
