(* ===== verification/Assistant_Text.thy ===== *)
theory Assistant_Text
  imports Hidden_Tags Plan_Parser
begin

text \<open>
  The parser of assistant text, \<open>utils/stream-parser/src/assistant_text.rs\<close>: citations are taken
  out first, and in plan mode the text that remains goes through the plan parser. The result: for
  any cut of the text, what is shown and cited is what the two one-shot functions give on the
  whole text, one after the other.
\<close>

record assistant_text_chunk =
  chunk_visible :: ustr
  chunk_citations :: "ustr list"
  chunk_plan :: "proposed_plan_segment list"

record assistant_text_stream_parser =
  plan_mode :: bool
  citations :: citation_stream_parser
  plan :: proposed_plan_parser

definition assistant_new :: "bool \<Rightarrow> assistant_text_stream_parser" where
  "assistant_new m = \<lparr>plan_mode = m, citations = citation_new, plan = plan_new\<rparr>"

definition parse_visible_text ::
  "assistant_text_stream_parser \<Rightarrow> ustr \<Rightarrow> assistant_text_stream_parser \<times> assistant_text_chunk" where
  "parse_visible_text p v =
     (if \<not> plan_mode p then (p, \<lparr>chunk_visible = v, chunk_citations = [], chunk_plan = []\<rparr>)
      else
        case plan_push_str (plan p) v of
          (q, c) \<Rightarrow> (p\<lparr>plan := q\<rparr>, \<lparr>chunk_visible = visible_text c, chunk_citations = [], chunk_plan = extracted c\<rparr>))"

definition assistant_push_str ::
  "assistant_text_stream_parser \<Rightarrow> ustr \<Rightarrow> assistant_text_stream_parser \<times> assistant_text_chunk" where
  "assistant_push_str p chunk =
     (case citation_push_str (citations p) chunk of
        (q, c) \<Rightarrow>
          (case parse_visible_text (p\<lparr>citations := q\<rparr>) (visible_text c) of
             (p', out) \<Rightarrow> (p', out\<lparr>chunk_citations := extracted c\<rparr>)))"

definition assistant_finish ::
  "assistant_text_stream_parser \<Rightarrow> assistant_text_stream_parser \<times> assistant_text_chunk" where
  "assistant_finish p =
     (case citation_finish (citations p) of
        (q, c) \<Rightarrow>
          (case parse_visible_text (p\<lparr>citations := q\<rparr>) (visible_text c) of
             (p1, out) \<Rightarrow>
               (let (p2, out2) =
                  (if plan_mode p1
                   then
                     (case plan_finish (plan p1) of
                        (r, tail) \<Rightarrow>
                          (p1\<lparr>plan := r\<rparr>,
                           if chunk_is_empty tail then out
                           else out\<lparr>chunk_visible := chunk_visible out @ visible_text tail,
                                    chunk_plan := chunk_plan out @ extracted tail\<rparr>))
                   else (p1, out))
                in (p2, out2\<lparr>chunk_citations := extracted c\<rparr>))))"

definition assistant_chunk_append :: "assistant_text_chunk \<Rightarrow> assistant_text_chunk \<Rightarrow> assistant_text_chunk" where
  "assistant_chunk_append c d =
     \<lparr>chunk_visible = chunk_visible c @ chunk_visible d, chunk_citations = chunk_citations c @ chunk_citations d,
      chunk_plan = chunk_plan c @ chunk_plan d\<rparr>"

text \<open>Everything a parser emits for a list of pieces, the end of the stream included.\<close>

fun assistant_run :: "assistant_text_stream_parser \<Rightarrow> ustr list \<Rightarrow> assistant_text_chunk" where
  "assistant_run p [] = snd (assistant_finish p)"
| "assistant_run p (t # ts) =
     (case assistant_push_str p t of (p', c) \<Rightarrow> assistant_chunk_append c (assistant_run p' ts))"

lemma assistant_push_simps:
  "assistant_push_str p t =
     (let q = fst (citation_push_str (citations p) t); v = visible_text (snd (citation_push_str (citations p) t));
          e = extracted (snd (citation_push_str (citations p) t))
      in if plan_mode p
         then (p\<lparr>citations := q, plan := fst (plan_push_str (plan p) v)\<rparr>,
               \<lparr>chunk_visible = visible_text (snd (plan_push_str (plan p) v)), chunk_citations = e,
                chunk_plan = extracted (snd (plan_push_str (plan p) v))\<rparr>)
         else (p\<lparr>citations := q\<rparr>, \<lparr>chunk_visible = v, chunk_citations = e, chunk_plan = []\<rparr>))"
  by (simp add: assistant_push_str_def parse_visible_text_def case_prod_beta Let_def)

lemma assistant_finish_simps:
  "chunk_citations (snd (assistant_finish p)) = extracted (snd (citation_finish (citations p)))"
  "chunk_visible (snd (assistant_finish p)) =
     (let v = visible_text (snd (citation_finish (citations p)))
      in if plan_mode p
         then visible_text (snd (plan_push_str (plan p) v)) @ visible_text (snd (plan_finish (fst (plan_push_str (plan p) v))))
         else v)"
  "plan_mode p \<or> chunk_plan (snd (assistant_finish p)) = []"
  by (auto simp: assistant_finish_def parse_visible_text_def case_prod_beta Let_def chunk_is_empty_def)

lemma assistant_run_spec:
  "citation_inv (citations p) \<Longrightarrow>
   (let out = snd (citation_push_str (citations p) (concat pieces));
        tail = snd (citation_finish (fst (citation_push_str (citations p) (concat pieces))));
        v = visible_text out @ visible_text tail
    in chunk_citations (assistant_run p pieces) = extracted out @ extracted tail \<and>
       chunk_visible (assistant_run p pieces) =
         (if plan_mode p
          then visible_text (snd (plan_push_str (plan p) v)) @ visible_text (snd (plan_finish (fst (plan_push_str (plan p) v))))
          else v) \<and>
       (plan_mode p \<or> chunk_plan (assistant_run p pieces) = []))"
proof (induction pieces arbitrary: p)
  case Nil
  then show ?case using assistant_finish_simps [of p] by (simp add: citation.push_Nil Let_def)
next
  case (Cons t ts)
  obtain q c where push: "citation_push_str (citations p) t = (q, c)" by fastforce
  have "citation_inv q" using citation_push_inv [OF Cons.prems, of t] push by simp
  note app = citation_push_append [OF Cons.prems, of t "concat ts", unfolded push fst_conv snd_conv]
  let ?p' = "fst (assistant_push_str p t)"
  have p': "citations ?p' = q" "plan_mode ?p' = plan_mode p"
    by (simp_all add: assistant_push_simps push Let_def)
  note ih = Cons.IH [of ?p', unfolded p', OF \<open>citation_inv q\<close>]
  have run: "assistant_run p (t # ts) = assistant_chunk_append (snd (assistant_push_str p t)) (assistant_run ?p' ts)"
    by (simp add: case_prod_beta)
  show ?case
  proof (cases "plan_mode p")
    case True
    then have "plan ?p' = fst (plan_push_str (plan p) (visible_text c))"
      "snd (assistant_push_str p t) = \<lparr>chunk_visible = visible_text (snd (plan_push_str (plan p) (visible_text c))),
         chunk_citations = extracted c, chunk_plan = extracted (snd (plan_push_str (plan p) (visible_text c)))\<rparr>"
      by (simp_all add: assistant_push_simps push Let_def)
    with ih True app show ?thesis
      unfolding run
      by (simp add: assistant_chunk_append_def Let_def plan.push_append_state plan.push_append_visible)
  next
    case False
    then have "snd (assistant_push_str p t) = \<lparr>chunk_visible = visible_text c, chunk_citations = extracted c, chunk_plan = []\<rparr>"
      by (simp add: assistant_push_simps push Let_def)
    with ih False app show ?thesis
      unfolding run by (simp add: assistant_chunk_append_def Let_def)
  qed
qed

text \<open>
  For any cut of the text into pieces, the assistant parser cites what \<open>strip_citations\<close> extracts
  from the whole text, and shows what \<open>strip_citations\<close> leaves, in plan mode without the plan blocks
  that \<open>strip_proposed_plan_blocks\<close> removes; plan segments come up in plan mode only.
\<close>

theorem assistant_text_in_pieces:
  "let out = assistant_run (assistant_new m) pieces; (v, cs) = strip_citations (concat pieces)
   in chunk_citations out = cs \<and>
      chunk_visible out = (if m then strip_proposed_plan_blocks v else v) \<and>
      (m \<or> chunk_plan out = [])"
  using assistant_run_spec [of "assistant_new m" pieces] citation_new_inv
  by (simp add: assistant_new_def strip_citations_def strip_proposed_plan_blocks_def Let_def case_prod_beta)

end
