(* ===== verification/Head_Tail.thy ===== *)
theory Head_Tail
  imports Prelude
begin

text \<open>
  The capped buffer for process output, \<open>core/src/unified_exec/head_tail_buffer.rs\<close>. Bytes are
  naturals; the byte counters saturate at the width of \<open>usize\<close>. A buffer is compared with the
  whole stream it has seen: it holds the first bytes, the last bytes and the number of those in
  between.
\<close>

type_synonym byte = nat

record head_tail_buffer =
  max_bytes :: nat
  head_budget :: nat
  tail_budget :: nat
  head :: "byte list"
  tail :: "byte list"
  omitted_bytes :: nat

definition UNIFIED_EXEC_OUTPUT_MAX_BYTES :: nat where
  "UNIFIED_EXEC_OUTPUT_MAX_BYTES = 1024 * 1024"

definition buffer_new :: "nat \<Rightarrow> head_tail_buffer" where
  "buffer_new m =
     (let hb = m div 2
      in \<lparr>max_bytes = m, head_budget = hb, tail_budget = m - hb, head = [], tail = [], omitted_bytes = 0\<rparr>)"

definition retained_bytes :: "head_tail_buffer \<Rightarrow> nat" where
  "retained_bytes b = saturating_add (length (head b)) (length (tail b))"

definition total_bytes :: "head_tail_buffer \<Rightarrow> nat" where
  "total_bytes b = saturating_add (retained_bytes b) (omitted_bytes b)"

definition omit :: "nat \<Rightarrow> head_tail_buffer \<Rightarrow> head_tail_buffer" where
  "omit n b = b\<lparr>omitted_bytes := saturating_add (omitted_bytes b) n\<rparr>"

definition trim_tail_to_budget :: "head_tail_buffer \<Rightarrow> head_tail_buffer" where
  "trim_tail_to_budget b =
     (let excess = length (tail b) - tail_budget b
      in if excess > 0 then omit excess (b\<lparr>tail := drop excess (tail b)\<rparr>) else b)"

definition push_to_tail :: "head_tail_buffer \<Rightarrow> byte list \<Rightarrow> head_tail_buffer" where
  "push_to_tail b chunk =
     (if chunk = [] then b
      else if tail_budget b = 0 then omit (length chunk) b
      else if length chunk \<ge> tail_budget b
      then
        let kept = drop (length chunk - tail_budget b) chunk;
            dropped = length chunk - length kept
        in (omit dropped (omit (length (tail b)) b))\<lparr>tail := kept\<rparr>
      else trim_tail_to_budget (b\<lparr>tail := tail b @ chunk\<rparr>))"

definition push_chunk :: "head_tail_buffer \<Rightarrow> byte list \<Rightarrow> head_tail_buffer" where
  "push_chunk b chunk =
     (if chunk = [] then b
      else if max_bytes b = 0 then omit (length chunk) b
      else
        let remaining_head = head_budget b - length (head b);
            head_len = min remaining_head (length chunk);
            b1 = (if head_len > 0 then b\<lparr>head := head b @ take head_len chunk\<rparr> else b)
        in push_to_tail b1 (drop head_len chunk))"

definition snapshot_chunks :: "head_tail_buffer \<Rightarrow> byte list list" where
  "snapshot_chunks b = (if head b = [] then [] else [head b]) @ (if tail b = [] then [] else [tail b])"

definition to_bytes :: "head_tail_buffer \<Rightarrow> byte list" where
  "to_bytes b = head b @ tail b"

text \<open>The marker is ASCII, so its bytes are its characters.\<close>

definition format_output_omission_marker :: "nat \<Rightarrow> ustr" where
  "format_output_omission_marker n = lit ''... '' @ dec n @ lit '' bytes omitted ...''"

definition to_bytes_with_omission_marker :: "head_tail_buffer \<Rightarrow> byte list" where
  "to_bytes_with_omission_marker b =
     (if omitted_bytes b = 0 then to_bytes b
      else head b @ [newline] @ format_output_omission_marker (omitted_bytes b) @ [newline] @ tail b)"

text \<open>The drained buffer and the one that stays behind.\<close>

definition drain :: "head_tail_buffer \<Rightarrow> head_tail_buffer \<times> head_tail_buffer" where
  "drain b = (b, b\<lparr>head := [], tail := [], omitted_bytes := 0\<rparr>)"

definition push_buffer :: "head_tail_buffer \<Rightarrow> head_tail_buffer \<Rightarrow> head_tail_buffer" where
  "push_buffer b b' = omit (omitted_bytes b') (push_chunk (push_chunk b (head b')) (tail b'))"

section \<open>The buffer of a stream\<close>

definition last_bytes :: "nat \<Rightarrow> byte list \<Rightarrow> byte list" where
  "last_bytes n s = drop (length s - n) s"

definition buffer_of :: "nat \<Rightarrow> byte list \<Rightarrow> head_tail_buffer" where
  "buffer_of m s =
     (let hb = m div 2; tb = m - hb; rest = drop hb s
      in \<lparr>max_bytes = m, head_budget = hb, tail_budget = tb, head = take hb s, tail = last_bytes tb rest,
          omitted_bytes = length rest - tb\<rparr>)"

lemma length_last_bytes: "length (last_bytes n s) = min n (length s)"
  by (simp add: last_bytes_def)

lemma last_bytes_append: "last_bytes n (s @ t) = last_bytes (n - length t) s @ last_bytes n t"
proof -
  have "length s + length t - n = length s - (n - length t)" if "length t \<le> n" using that by simp
  moreover have "length s + length t - n - length s = length t - n" by simp
  ultimately show ?thesis
    by (cases "length t \<le> n") (simp_all add: last_bytes_def)
qed

lemma last_bytes_idem: "last_bytes n (last_bytes n s @ t) = last_bytes n (s @ t)"
proof -
  have "last_bytes k (last_bytes n s) = last_bytes k s" if "k \<le> n" for k
  proof (cases "n \<le> length s")
    case True
    with that have "length s - (length s - n + k) + (length s - n) = length s - k" by simp
    with True that show ?thesis by (simp add: last_bytes_def)
  qed (simp add: last_bytes_def)
  then show ?thesis by (simp add: last_bytes_append)
qed

lemma omit_exact: "omitted_bytes b + n \<le> usize_max \<Longrightarrow> omit n b = b\<lparr>omitted_bytes := omitted_bytes b + n\<rparr>"
  by (simp add: omit_def saturating_add_exact)

text \<open>What pushing to the tail does, whichever of its branches is taken.\<close>

lemma push_to_tail_eq:
  assumes "length (tail b) \<le> tail_budget b" "omitted_bytes b + length (tail b) + length c \<le> usize_max"
  shows "push_to_tail b c =
     b\<lparr>tail := last_bytes (tail_budget b) (tail b @ c),
       omitted_bytes := omitted_bytes b + (length (tail b @ c) - tail_budget b)\<rparr>"
proof -
  consider (empty) "c = []" | (none) "c \<noteq> []" "tail_budget b = 0"
    | (big) "c \<noteq> []" "tail_budget b > 0" "length c \<ge> tail_budget b"
    | (small) "c \<noteq> []" "tail_budget b > 0" "length c < tail_budget b" by fastforce
  then show ?thesis
  proof cases
    case empty
    with assms(1) show ?thesis by (simp add: push_to_tail_def last_bytes_def)
  next
    case none
    with assms show ?thesis by (simp add: push_to_tail_def omit_exact last_bytes_def)
  next
    case big
    with assms show ?thesis
      by (simp add: push_to_tail_def omit_exact last_bytes_append) (simp add: last_bytes_def)
  next
    case small
    with assms show ?thesis
      by (auto simp: push_to_tail_def trim_tail_to_budget_def omit_exact last_bytes_def Let_def)
  qed
qed

lemma push_chunk_buffer_of:
  assumes "length s + length c \<le> usize_max"
  shows "push_chunk (buffer_of m s) c = buffer_of m (s @ c)"
proof (cases "c = [] \<or> m = 0")
  case True
  with assms show ?thesis
    by (auto simp: push_chunk_def buffer_of_def omit_exact last_bytes_def Let_def)
next
  case False
  let ?hb = "m div 2" and ?b = "buffer_of m s"
  let ?k = "min (?hb - length s) (length c)"
  have k: "min (head_budget ?b - length (head ?b)) (length c) = ?k"
    by (simp add: buffer_of_def Let_def min_def)
  have take: "take ?hb (s @ c) = take ?hb s @ take ?k c" by (simp add: min_def)
  have drop: "drop ?hb (s @ c) = drop ?hb s @ drop ?k c" by (auto simp: min_def)
  let ?b1 = "?b\<lparr>head := take ?hb s @ take ?k c\<rparr>"
  have fits: "(length s - ?hb - (m - ?hb)) + min (m - ?hb) (length s - ?hb) + (length c - ?k) \<le> usize_max"
  proof -
    have "x - y + min y x = x" for x y :: nat by simp
    then show ?thesis using assms by (simp only:)
  qed
  have "push_chunk ?b c = push_to_tail ?b1 (drop ?k c)"
    using False by (auto simp: push_chunk_def k Let_def) (simp_all add: buffer_of_def Let_def)
  also have "\<dots> = ?b1\<lparr>tail := last_bytes (m - ?hb) (last_bytes (m - ?hb) (drop ?hb s) @ drop ?k c),
      omitted_bytes := (length s - ?hb - (m - ?hb)) +
        (length (last_bytes (m - ?hb) (drop ?hb s) @ drop ?k c) - (m - ?hb))\<rparr>"
  proof -
    have sel: "tail ?b1 = last_bytes (m - ?hb) (drop ?hb s)" "tail_budget ?b1 = m - ?hb"
      "omitted_bytes ?b1 = length s - ?hb - (m - ?hb)"
      by (simp_all add: buffer_of_def Let_def)
    have "length (tail ?b1) \<le> tail_budget ?b1" unfolding sel length_last_bytes by (rule min.cobounded1)
    moreover have "omitted_bytes ?b1 + length (tail ?b1) + length (drop ?k c) \<le> usize_max"
      unfolding sel length_last_bytes length_drop by (rule fits)
    ultimately have "push_to_tail ?b1 (drop ?k c) =
      ?b1\<lparr>tail := last_bytes (tail_budget ?b1) (tail ?b1 @ drop ?k c),
        omitted_bytes := omitted_bytes ?b1 + (length (tail ?b1 @ drop ?k c) - tail_budget ?b1)\<rparr>"
      by (rule push_to_tail_eq)
    then show ?thesis unfolding sel .
  qed
  also have "\<dots> = buffer_of m (s @ c)"
  proof -
    have "r - tb + (min tb r + d - tb) = r + d - tb" for r tb d :: nat by (simp add: min_def)
    then have om: "length s - ?hb - (m - ?hb) + (length (last_bytes (m - ?hb) (drop ?hb s) @ drop ?k c) - (m - ?hb)) =
        length (drop ?hb (s @ c)) - (m - ?hb)"
      unfolding drop length_append length_last_bytes length_drop .
    show ?thesis unfolding om buffer_of_def Let_def
      by (simp only: head_tail_buffer.update_convs take drop last_bytes_idem)
  qed
  finally show ?thesis .
qed

text \<open>A buffer keeps all of a short stream, and drops a middle of a long one.\<close>

lemma to_bytes_short: "length s \<le> m \<Longrightarrow> to_bytes (buffer_of m s) = s \<and> omitted_bytes (buffer_of m s) = 0"
  by (auto simp: to_bytes_def buffer_of_def Let_def last_bytes_def)

lemma buffer_of_long:
  assumes "m < length s"
  obtains mid where "s = head (buffer_of m s) @ mid @ tail (buffer_of m s)"
    "length mid = omitted_bytes (buffer_of m s)" "length mid = length s - m"
    "length (head (buffer_of m s)) = m div 2" "length (tail (buffer_of m s)) = m - m div 2"
proof
  let ?rest = "drop (m div 2) s"
  let ?mid = "take (length ?rest - (m - m div 2)) ?rest"
  have "s = take (m div 2) s @ ?rest" by simp
  also have "?rest = ?mid @ last_bytes (m - m div 2) ?rest"
    by (simp only: last_bytes_def append_take_drop_id)
  finally show "s = head (buffer_of m s) @ ?mid @ tail (buffer_of m s)"
    by (simp add: buffer_of_def Let_def)
qed (use assms in \<open>simp_all add: buffer_of_def Let_def length_last_bytes\<close>)

lemma buffer_of_cut:
  assumes "m div 2 \<le> length a" "m - m div 2 \<le> length b"
  shows "buffer_of m (a @ mid @ b) =
    (buffer_of m (a @ b))\<lparr>omitted_bytes := omitted_bytes (buffer_of m (a @ b)) + length mid\<rparr>"
  using assms by (simp add: buffer_of_def Let_def last_bytes_append) (simp add: last_bytes_def)

lemma omitted_bytes_le: "omitted_bytes (buffer_of m s) \<le> length s"
  by (simp add: buffer_of_def Let_def)

lemma push_buffer_of:
  assumes "length s + length t \<le> usize_max"
  shows "push_buffer (buffer_of m s) (buffer_of m t) = buffer_of m (s @ t)"
proof (cases "length t \<le> m")
  case True
  let ?b = "buffer_of m t"
  have t: "head ?b @ tail ?b = t" "omitted_bytes ?b = 0" using to_bytes_short [OF True] by (simp_all add: to_bytes_def)
  have len: "length (head ?b) + length (tail ?b) = length t" using arg_cong [OF t(1), of length] by simp
  have "omit 0 (buffer_of m (s @ t)) = buffer_of m (s @ t)"
    using assms omitted_bytes_le [of m "s @ t"] by (subst omit_exact) simp_all
  then show ?thesis using assms len t by (simp add: push_buffer_def push_chunk_buffer_of)
next
  case False
  let ?b = "buffer_of m t"
  obtain mid where t: "t = head ?b @ mid @ tail ?b" and mid: "length mid = omitted_bytes ?b"
    and len: "length (head ?b) = m div 2" "length (tail ?b) = m - m div 2"
    using buffer_of_long [of m t] False by (metis linorder_not_le)
  have lt: "length (head ?b) + length mid + length (tail ?b) = length t"
    using arg_cong [OF t, of length] by simp
  let ?st = "buffer_of m ((s @ head ?b) @ tail ?b)"
  have "push_buffer (buffer_of m s) ?b = omit (length mid) ?st"
    using assms lt by (simp add: push_buffer_def mid push_chunk_buffer_of)
  also have "\<dots> = ?st\<lparr>omitted_bytes := omitted_bytes ?st + length mid\<rparr>"
    using assms lt omitted_bytes_le [of m "(s @ head ?b) @ tail ?b"] by (intro omit_exact) simp
  also have "\<dots> = buffer_of m ((s @ head ?b) @ mid @ tail ?b)"
    using len by (subst buffer_of_cut) simp_all
  also have "(s @ head ?b) @ mid @ tail ?b = s @ t" using t by simp
  finally show ?thesis .
qed

lemma buffer_of_shown:
  "if length s \<le> m then to_bytes_with_omission_marker (buffer_of m s) = s
   else \<exists>h mid u. s = h @ mid @ u \<and> length h = m div 2 \<and> length u = m - m div 2 \<and>
     to_bytes_with_omission_marker (buffer_of m s) =
       h @ lit ''\<newline>... '' @ dec (length mid) @ lit '' bytes omitted ...\<newline>'' @ u"
proof (cases "length s \<le> m")
  case True
  then show ?thesis using to_bytes_short [OF True] by (simp add: to_bytes_with_omission_marker_def)
next
  case False
  then obtain mid where "s = head (buffer_of m s) @ mid @ tail (buffer_of m s)"
    "length mid = omitted_bytes (buffer_of m s)" "length mid = length s - m"
    "length (head (buffer_of m s)) = m div 2" "length (tail (buffer_of m s)) = m - m div 2"
    by (metis buffer_of_long linorder_not_le)
  with False show ?thesis
    by (auto simp: to_bytes_with_omission_marker_def format_output_omission_marker_def intro!: exI)
qed

section \<open>Properties\<close>

text \<open>
  C34: whatever sequence of chunks, drains and merges a process output buffer goes through, it is
  the buffer of the whole stream it has seen since it was last drained: pushing a chunk, in
  whichever pieces, and merging a second buffer of the same capacity are concatenation of the
  streams, and draining hands over the whole contents and leaves the empty buffer. It never holds
  more than its capacity, counts every byte it has seen, holds a short stream complete and of a
  long one shows the first half, the exact number of bytes that are missing and the last half of
  its capacity.
\<close>

theorem head_tail_refines_stream:
  assumes "length s + length t \<le> usize_max"
  shows "buffer_new m = buffer_of m [] \<and>
    push_chunk (buffer_of m s) t = buffer_of m (s @ t) \<and>
    push_buffer (buffer_of m s) (buffer_of m t) = buffer_of m (s @ t) \<and>
    drain (buffer_of m s) = (buffer_of m s, buffer_of m []) \<and>
    total_bytes (buffer_of m s) = length s \<and>
    retained_bytes (buffer_of m s) \<le> m \<and>
    (if length s \<le> m then to_bytes_with_omission_marker (buffer_of m s) = s
     else \<exists>h mid u. s = h @ mid @ u \<and> length h = m div 2 \<and> length u = m - m div 2 \<and>
       to_bytes_with_omission_marker (buffer_of m s) =
         h @ lit ''\<newline>... '' @ dec (length mid) @ lit '' bytes omitted ...\<newline>'' @ u)"
proof (intro conjI)
  show "push_chunk (buffer_of m s) t = buffer_of m (s @ t)" using assms by (rule push_chunk_buffer_of)
  show "push_buffer (buffer_of m s) (buffer_of m t) = buffer_of m (s @ t)" using assms by (rule push_buffer_of)
  show "if length s \<le> m then to_bytes_with_omission_marker (buffer_of m s) = s
     else \<exists>h mid u. s = h @ mid @ u \<and> length h = m div 2 \<and> length u = m - m div 2 \<and>
       to_bytes_with_omission_marker (buffer_of m s) =
         h @ lit ''\<newline>... '' @ dec (length mid) @ lit '' bytes omitted ...\<newline>'' @ u"
    by (rule buffer_of_shown)
qed (use assms in \<open>simp_all add: buffer_new_def buffer_of_def last_bytes_def Let_def drain_def total_bytes_def
      retained_bytes_def saturating_add_def length_last_bytes\<close>)

theorem head_tail_refines_stream_witness:
  "push_chunk (buffer_of 4 [1, 2, 3, 4, 5]) [6, 7] = buffer_of 4 [1, 2, 3, 4, 5, 6, 7] \<and>
   buffer_of 4 [1, 2, 3, 4, 5, 6, 7] =
     \<lparr>max_bytes = 4, head_budget = 2, tail_budget = 2, head = [1, 2], tail = [6, 7], omitted_bytes = 3\<rparr>"
  using head_tail_refines_stream [of "[1, 2, 3, 4, 5]" "[6, 7]" 4]
  by (simp add: usize_max_def buffer_of_def last_bytes_def)

end
