(* ===== verification/Truncation.thy ===== *)
theory Truncation
  imports Prelude
begin

text \<open>
  Truncation of tool output: \<open>utils/string/src/truncate.rs\<close> (the middle of a string is cut out on
  character boundaries and replaced by a marker), \<open>utils/output-truncation/src/lib.rs\<close> (whole
  texts and lists of content items under a policy) and the types they use from \<open>protocol\<close>.

  Sizes are UTF-8 byte counts (\<open>byte_len\<close>). Slicing a string at a byte offset that is not a
  character boundary panics: such a result is \<open>None\<close> (\<open>split_at_byte\<close>).
\<close>

section \<open>\<open>utils/string/src/truncate.rs\<close>\<close>

definition APPROX_BYTES_PER_TOKEN :: nat where
  "APPROX_BYTES_PER_TOKEN = 4"

definition approx_token_count :: "ustr \<Rightarrow> nat" where
  "approx_token_count t =
     saturating_add (byte_len t) (APPROX_BYTES_PER_TOKEN - 1) div APPROX_BYTES_PER_TOKEN"

definition approx_bytes_for_tokens :: "nat \<Rightarrow> nat" where
  "approx_bytes_for_tokens tokens = saturating_mul tokens APPROX_BYTES_PER_TOKEN"

definition approx_tokens_from_byte_count :: "nat \<Rightarrow> nat" where
  "approx_tokens_from_byte_count bytes =
     saturating_add bytes (APPROX_BYTES_PER_TOKEN - 1) div APPROX_BYTES_PER_TOKEN"

record split_state =
  prefix_end :: nat
  suffix_start :: nat
  removed_chars :: nat
  suffix_started :: bool

definition split_step :: "nat \<Rightarrow> nat \<Rightarrow> nat \<Rightarrow> uchar \<Rightarrow> split_state \<Rightarrow> split_state" where
  "split_step beginning_bytes tail_start_target idx ch st =
     (let char_end = idx + len_utf8 ch
      in if char_end \<le> beginning_bytes then st\<lparr>prefix_end := char_end\<rparr>
         else if idx \<ge> tail_start_target
         then (if suffix_started st then st else st\<lparr>suffix_start := idx, suffix_started := True\<rparr>)
         else st\<lparr>removed_chars := saturating_add (removed_chars st) 1\<rparr>)"

fun split_loop :: "nat \<Rightarrow> nat \<Rightarrow> nat \<Rightarrow> ustr \<Rightarrow> split_state \<Rightarrow> split_state" where
  "split_loop b t idx [] st = st"
| "split_loop b t idx (ch # s) st = split_loop b t (idx + len_utf8 ch) s (split_step b t idx ch st)"

definition split_string :: "ustr \<Rightarrow> nat \<Rightarrow> nat \<Rightarrow> (nat \<times> ustr \<times> ustr) option" where
  "split_string s beginning_bytes end_bytes =
     (if s = [] then Some (0, [], [])
      else
        let len = byte_len s;
            st = split_loop beginning_bytes (len - end_bytes) 0 s
              \<lparr>prefix_end = 0, suffix_start = len, removed_chars = 0, suffix_started = False\<rparr>;
            start = (if suffix_start st < prefix_end st then prefix_end st else suffix_start st)
        in case (split_at_byte (prefix_end st) s, split_at_byte start s) of
             (Some (before, _), Some (_, after)) \<Rightarrow> Some (removed_chars st, before, after)
           | _ \<Rightarrow> None)"

definition split_budget :: "nat \<Rightarrow> nat \<times> nat" where
  "split_budget budget = (let left = budget div 2 in (left, budget - left))"

abbreviation (input) ellipsis :: uchar where "ellipsis \<equiv> 0x2026"

definition format_truncation_marker :: "bool \<Rightarrow> nat \<Rightarrow> ustr" where
  "format_truncation_marker use_tokens removed_count =
     (if use_tokens then [ellipsis] @ dec removed_count @ lit '' tokens truncated'' @ [ellipsis]
      else [ellipsis] @ dec removed_count @ lit '' chars truncated'' @ [ellipsis])"

definition removed_units :: "bool \<Rightarrow> nat \<Rightarrow> nat \<Rightarrow> nat" where
  "removed_units use_tokens removed_bytes removed =
     (if use_tokens then approx_tokens_from_byte_count removed_bytes else removed)"

definition assemble_truncated_output :: "ustr \<Rightarrow> ustr \<Rightarrow> ustr \<Rightarrow> ustr" where
  "assemble_truncated_output pre suf marker = pre @ marker @ suf"

definition truncate_with_byte_estimate :: "ustr \<Rightarrow> nat \<Rightarrow> bool \<Rightarrow> ustr option" where
  "truncate_with_byte_estimate s max_bytes use_tokens =
     (if s = [] then Some []
      else if max_bytes = 0
      then Some (format_truncation_marker use_tokens (removed_units use_tokens (byte_len s) (length s)))
      else if byte_len s \<le> max_bytes then Some s
      else
        let (left_budget, right_budget) = split_budget max_bytes
        in case split_string s left_budget right_budget of
             None \<Rightarrow> None
           | Some (removed, left, right) \<Rightarrow>
               let marker = format_truncation_marker use_tokens
                     (removed_units use_tokens (byte_len s - max_bytes) removed)
               in Some (assemble_truncated_output left right marker))"

definition truncate_middle_chars :: "ustr \<Rightarrow> nat \<Rightarrow> ustr option" where
  "truncate_middle_chars s max_bytes = truncate_with_byte_estimate s max_bytes False"

definition truncate_middle_with_token_budget :: "ustr \<Rightarrow> nat \<Rightarrow> (ustr \<times> nat option) option" where
  "truncate_middle_with_token_budget s max_tokens =
     (if s = [] then Some ([], None)
      else if max_tokens > 0 \<and> byte_len s \<le> approx_bytes_for_tokens max_tokens then Some (s, None)
      else map_option
        (\<lambda>truncated. if truncated = s then (truncated, None) else (truncated, Some (approx_token_count s)))
        (truncate_with_byte_estimate s (approx_bytes_for_tokens max_tokens) True))"

section \<open>\<open>protocol\<close>: the policy and the content items\<close>

datatype truncation_policy = Bytes nat | Tokens nat

fun token_budget :: "truncation_policy \<Rightarrow> nat" where
  "token_budget (Bytes bytes) = approx_tokens_from_byte_count bytes"
| "token_budget (Tokens tokens) = tokens"

fun byte_budget :: "truncation_policy \<Rightarrow> nat" where
  "byte_budget (Bytes bytes) = bytes"
| "byte_budget (Tokens tokens) = approx_bytes_for_tokens tokens"

datatype image_detail = Auto | Low | High | Original

datatype content_item =
  InputText ustr
| InputImage ustr "image_detail option"
| InputAudio ustr
| EncryptedContent ustr

section \<open>\<open>utils/output-truncation/src/lib.rs\<close>\<close>

fun truncate_text :: "ustr \<Rightarrow> truncation_policy \<Rightarrow> ustr option" where
  "truncate_text content (Bytes bytes) = truncate_middle_chars content bytes"
| "truncate_text content (Tokens tokens) =
     map_option fst (truncate_middle_with_token_budget content tokens)"

definition formatted_truncate_text :: "ustr \<Rightarrow> truncation_policy \<Rightarrow> ustr option" where
  "formatted_truncate_text content policy =
     (if byte_len content \<le> byte_budget policy then Some content
      else
        let original_token_count = approx_token_count content;
            total_lines = length (str_lines content)
        in map_option
             (\<lambda>result. lit ''Warning: truncated output (original token count: '' @ dec original_token_count @
                lit '')'' @ [newline] @ lit ''Total output lines: '' @ dec total_lines @ [newline, newline] @ result)
             (truncate_text content policy))"

fun text_segment :: "content_item \<Rightarrow> ustr option" where
  "text_segment (InputText t) = Some t"
| "text_segment _ = None"

definition combine_segment :: "ustr \<Rightarrow> ustr \<Rightarrow> ustr" where
  "combine_segment combined t = (if combined \<noteq> [] then combined @ [newline] else combined) @ t"

definition formatted_truncate_text_content_items_with_policy ::
    "content_item list \<Rightarrow> truncation_policy \<Rightarrow> (content_item list \<times> nat option) option" where
  "formatted_truncate_text_content_items_with_policy items policy =
     (let text_segments = List.map_filter text_segment items
      in if text_segments = [] then Some (items, None)
         else
           let combined = foldl combine_segment [] text_segments
           in if byte_len combined \<le> byte_budget policy then Some (items, None)
              else map_option
                (\<lambda>t. (InputText t # filter (\<lambda>i. text_segment i = None) items, Some (approx_token_count combined)))
                (formatted_truncate_text combined policy))"

record items_state =
  out :: "content_item list"
  remaining_budget :: nat
  omitted_text_items :: nat
  omitted_audio_items :: nat

fun text_cost :: "truncation_policy \<Rightarrow> ustr \<Rightarrow> nat" where
  "text_cost (Bytes _) t = byte_len t"
| "text_cost (Tokens _) t = approx_token_count t"

fun audio_cost :: "truncation_policy \<Rightarrow> nat \<Rightarrow> nat" where
  "audio_cost (Bytes _) token_cost = approx_bytes_for_tokens token_cost"
| "audio_cost (Tokens _) token_cost = token_cost"

fun snippet_policy :: "truncation_policy \<Rightarrow> nat \<Rightarrow> truncation_policy" where
  "snippet_policy (Bytes _) n = Bytes n"
| "snippet_policy (Tokens _) n = Tokens n"

definition push_item :: "content_item \<Rightarrow> items_state \<Rightarrow> items_state" where
  "push_item item st = st\<lparr>out := out st @ [item]\<rparr>"

fun truncate_item :: "(ustr \<Rightarrow> nat) \<Rightarrow> truncation_policy \<Rightarrow> content_item \<Rightarrow> items_state \<Rightarrow> items_state option" where
  "truncate_item estimate policy (InputText t) st =
     (if remaining_budget st = 0 then Some (st\<lparr>omitted_text_items := omitted_text_items st + 1\<rparr>)
      else
        let cost = text_cost policy t
        in if cost \<le> remaining_budget st
           then Some ((push_item (InputText t) st)\<lparr>remaining_budget := remaining_budget st - cost\<rparr>)
           else map_option
             (\<lambda>snippet.
                (if snippet = [] then st\<lparr>omitted_text_items := omitted_text_items st + 1\<rparr>
                 else push_item (InputText snippet) st)\<lparr>remaining_budget := 0\<rparr>)
             (truncate_text t (snippet_policy policy (remaining_budget st))))"
| "truncate_item estimate policy (InputImage url detail) st = Some (push_item (InputImage url detail) st)"
| "truncate_item estimate policy (InputAudio url) st =
     (let cost = audio_cost policy (estimate url)
      in if cost \<le> remaining_budget st
         then Some ((push_item (InputAudio url) st)\<lparr>remaining_budget := remaining_budget st - cost\<rparr>)
         else Some (st\<lparr>omitted_audio_items := omitted_audio_items st + 1\<rparr>))"
| "truncate_item estimate policy (EncryptedContent c) st = Some (push_item (EncryptedContent c) st)"

fun truncate_items :: "(ustr \<Rightarrow> nat) \<Rightarrow> truncation_policy \<Rightarrow> content_item list \<Rightarrow> items_state \<Rightarrow> items_state option" where
  "truncate_items estimate policy [] st = Some st"
| "truncate_items estimate policy (item # items) st =
     (case truncate_item estimate policy item st of
        None \<Rightarrow> None
      | Some st' \<Rightarrow> truncate_items estimate policy items st')"

fun initial_budget :: "truncation_policy \<Rightarrow> nat" where
  "initial_budget (Bytes n) = byte_budget (Bytes n)"
| "initial_budget (Tokens n) = token_budget (Tokens n)"

definition omitted_marker :: "nat \<Rightarrow> string \<Rightarrow> content_item list" where
  "omitted_marker n kind =
     (if n > 0 then [InputText (lit ''[omitted '' @ dec n @ lit kind @ lit '' items ...]'')] else [])"

definition truncate_function_output_items_with_policy ::
    "content_item list \<Rightarrow> truncation_policy \<Rightarrow> (ustr \<Rightarrow> nat) \<Rightarrow> content_item list option" where
  "truncate_function_output_items_with_policy items policy estimate_audio_token_count =
     map_option
       (\<lambda>st. out st @ omitted_marker (omitted_text_items st) '' text'' @
             omitted_marker (omitted_audio_items st) '' audio'')
       (truncate_items estimate_audio_token_count policy items
          \<lparr>out = [], remaining_budget = initial_budget policy, omitted_text_items = 0, omitted_audio_items = 0\<rparr>)"

definition i64_max :: int where
  "i64_max = 2 ^ 63 - 1"

definition approx_tokens_from_byte_count_i64 :: "int \<Rightarrow> int" where
  "approx_tokens_from_byte_count_i64 bytes =
     (if bytes \<le> 0 then 0
      else min i64_max (int (approx_tokens_from_byte_count (min usize_max (nat bytes)))))"

section \<open>Splitting at the budgets\<close>

text \<open>The longest prefix within a budget, and the characters that start below an offset.\<close>

fun take_budget :: "nat \<Rightarrow> ustr \<Rightarrow> ustr" where
  "take_budget n [] = []"
| "take_budget n (c # s) = (if len_utf8 c \<le> n then c # take_budget (n - len_utf8 c) s else [])"

fun take_below :: "nat \<Rightarrow> ustr \<Rightarrow> ustr" where
  "take_below k [] = []"
| "take_below k (c # s) = (if k = 0 then [] else c # take_below (k - len_utf8 c) s)"

lemma take_budget_split:
  "\<exists>rest. s = take_budget n s @ rest \<and> byte_len (take_budget n s) \<le> n \<and>
     (rest = [] \<or> n < byte_len (take_budget n s) + len_utf8 (hd rest))"
proof (induction s arbitrary: n)
  case (Cons c s)
  from Cons [of "n - len_utf8 c"] show ?case by auto
qed simp

lemma take_below_0 [simp]: "take_below 0 s = []"
  by (cases s) simp_all

lemma take_below_split:
  "\<exists>rest. s = take_below k s @ rest \<and> (rest = [] \<or> k \<le> byte_len (take_below k s)) \<and>
     (take_below k s = [] \<or> byte_len (take_below k s) < k + len_utf8 (last (take_below k s)))"
proof (induction s arbitrary: k)
  case (Cons c s)
  consider "k = 0" | "0 < k" "k \<le> len_utf8 c" | "len_utf8 c < k" by linarith
  then show ?case
  proof cases
    case 3
    with Cons [of "k - len_utf8 c"] show ?thesis by fastforce
  qed auto
qed simp

lemma split_loop_suffix:
  assumes "s = [] \<or> b < idx + len_utf8 (hd s)" "suffix_started st" "t \<le> idx"
  shows "split_loop b t idx s st = st"
  using assms
proof (induction s arbitrary: idx)
  case (Cons c s)
  then have "split_step b t idx c st = st" by (simp add: split_step_def)
  with Cons show ?case by simp
qed simp

lemma split_loop_middle:
  assumes "s = [] \<or> b < idx + len_utf8 (hd s)" "\<not> suffix_started st"
    and "removed_chars st + length s \<le> usize_max" "s = take_below (t - idx) s @ right"
  shows "split_loop b t idx s st =
    st\<lparr>removed_chars := removed_chars st + length (take_below (t - idx) s),
       suffix_start := if right = [] then suffix_start st else idx + byte_len (take_below (t - idx) s),
       suffix_started := right \<noteq> []\<rparr>"
  using assms
proof (induction s arbitrary: idx st)
  case (Cons c s)
  show ?case
  proof (cases "t \<le> idx")
    case True
    then have "split_step b t idx c st = st\<lparr>suffix_start := idx, suffix_started := True\<rparr>"
      using Cons.prems by (simp add: split_step_def)
    moreover have "right = c # s" using True Cons.prems(4) by simp
    ultimately show ?thesis using True Cons.prems(1) by (simp add: split_loop_suffix)
  next
    case False
    let ?st = "st\<lparr>removed_chars := removed_chars st + 1\<rparr>"
    have "split_step b t idx c st = ?st"
      using False Cons.prems by (simp add: split_step_def saturating_add_exact)
    moreover have "split_loop b t (idx + len_utf8 c) s ?st =
      ?st\<lparr>removed_chars := removed_chars ?st + length (take_below (t - (idx + len_utf8 c)) s),
       suffix_start := if right = [] then suffix_start ?st else idx + len_utf8 c + byte_len (take_below (t - (idx + len_utf8 c)) s),
       suffix_started := right \<noteq> []\<rparr>"
      using False Cons.prems by (intro Cons.IH) auto
    ultimately show ?thesis using False by simp
  qed
qed simp

lemma split_loop_prefix:
  assumes "s = take_budget (b - idx) s @ rest" "idx \<le> b"
  shows "split_loop b t idx s st =
    split_loop b t (idx + byte_len (take_budget (b - idx) s)) rest
      (if take_budget (b - idx) s = [] then st else st\<lparr>prefix_end := idx + byte_len (take_budget (b - idx) s)\<rparr>)"
  using assms
proof (induction s arbitrary: idx st)
  case (Cons c s)
  show ?case
  proof (cases "len_utf8 c \<le> b - idx")
    case True
    with Cons.prems have "split_step b t idx c st = st\<lparr>prefix_end := idx + len_utf8 c\<rparr>"
      by (simp add: split_step_def Let_def)
    with True Cons.prems Cons.IH [of "idx + len_utf8 c" "st\<lparr>prefix_end := idx + len_utf8 c\<rparr>"]
    show ?thesis by (auto simp: add.assoc)
  qed (use Cons.prems in auto)
qed simp

lemma split_string_ok:
  assumes "length s \<le> usize_max"
  shows "\<exists>left mid right. split_string s b e = Some (length mid, left, right) \<and> s = left @ mid @ right \<and>
    byte_len left \<le> b \<and> (mid = [] \<or> b < byte_len left + len_utf8 (hd mid)) \<and>
    byte_len right \<le> e \<and> (mid = [] \<or> e < len_utf8 (last mid) + byte_len right)"
proof (cases "s = []")
  case True
  then show ?thesis by (simp add: split_string_def)
next
  case False
  let ?t = "byte_len s - e" and ?left = "take_budget b s"
  let ?st = "\<lparr>prefix_end = 0, suffix_start = byte_len s, removed_chars = 0, suffix_started = False\<rparr>"
  obtain rest where left: "s = ?left @ rest" "byte_len ?left \<le> b"
    "rest = [] \<or> b < byte_len ?left + len_utf8 (hd rest)"
    using take_budget_split by blast
  let ?mid = "take_below (?t - byte_len ?left) rest"
  obtain right where mid: "rest = ?mid @ right" "right = [] \<or> ?t - byte_len ?left \<le> byte_len ?mid"
    "?mid = [] \<or> byte_len ?mid < ?t - byte_len ?left + len_utf8 (last ?mid)"
    using take_below_split by blast
  have s: "s = ?left @ ?mid @ right" using left(1) mid(1) by simp
  have total: "byte_len s = byte_len ?left + byte_len ?mid + byte_len right"
    using arg_cong [OF s, of byte_len] by simp
  have len: "length rest \<le> usize_max" using assms arg_cong [OF left(1), of length] by simp
  let ?st1 = "?st\<lparr>prefix_end := byte_len ?left\<rparr>"
  have "split_loop b ?t 0 s ?st = split_loop b ?t (byte_len ?left) rest ?st1"
  proof -
    have "s = take_budget (b - 0) s @ rest" using left(1) by simp
    then have "split_loop b ?t 0 s ?st =
      split_loop b ?t (0 + byte_len (take_budget (b - 0) s)) rest
        (if take_budget (b - 0) s = [] then ?st else ?st\<lparr>prefix_end := 0 + byte_len (take_budget (b - 0) s)\<rparr>)"
      by (rule split_loop_prefix) simp
    then show ?thesis by (cases "?left = []") simp_all
  qed
  also have "\<dots> = ?st1\<lparr>removed_chars := removed_chars ?st1 + length ?mid,
      suffix_start := if right = [] then suffix_start ?st1 else byte_len ?left + byte_len ?mid,
      suffix_started := right \<noteq> []\<rparr>"
    by (rule split_loop_middle [OF left(3) _ _ mid(1)]) (use len in simp_all)
  also have "\<dots> = \<lparr>prefix_end = byte_len ?left, suffix_start = byte_len ?left + byte_len ?mid,
      removed_chars = length ?mid, suffix_started = right \<noteq> []\<rparr>"
    using total by (cases "right = []") simp_all
  finally have loop: "split_loop b ?t 0 s ?st = \<dots>" .
  have slices: "split_at_byte (byte_len ?left) s = Some (?left, ?mid @ right)"
    "split_at_byte (byte_len ?left + byte_len ?mid) s = Some (?left @ ?mid, right)"
    using split_at_byte_append [of ?left "?mid @ right"] split_at_byte_append [of "?left @ ?mid" right] s by simp_all
  have "split_string s b e = Some (length ?mid, ?left, right)"
    unfolding split_string_def Let_def loop using False by (simp add: slices del: diff_diff_left)
  moreover have "byte_len right \<le> e" using mid(2) total by auto
  moreover have "?mid = [] \<or> e < len_utf8 (last ?mid) + byte_len right"
    using mid(3) total by auto
  moreover have "?mid = [] \<or> b < byte_len ?left + len_utf8 (hd ?mid)"
    using left(3) mid(1) by (metis append_is_Nil_conv hd_append2)
  ultimately show ?thesis using s left(2) by blast
qed

section \<open>Bounds on the marker\<close>

lemma byte_len_marker:
  assumes "n \<le> usize_max"
  shows "byte_len (format_truncation_marker u n) \<le> 43"
proof -
  have "n < 10 ^ 20" using assms by (simp add: usize_max_def)
  then have "byte_len (dec n) \<le> 20" using length_dec_le [of n 20] by (simp add: byte_len_dec)
  then show ?thesis by (simp add: format_truncation_marker_def len_utf8_def)
qed

lemma marker_nonempty: "format_truncation_marker u n \<noteq> []"
  by (simp add: format_truncation_marker_def)

lemma approx_tokens_le: "approx_tokens_from_byte_count n \<le> usize_max"
  unfolding approx_tokens_from_byte_count_def saturating_add_def
  by (meson div_le_dividend le_trans min.cobounded1)

lemma approx_tokens_exact: "n \<le> isize_max \<Longrightarrow> approx_tokens_from_byte_count n = (n + 3) div 4"
  by (simp add: approx_tokens_from_byte_count_def APPROX_BYTES_PER_TOKEN_def saturating_add_small isize_max_def)

text \<open>What truncating does, once for every budget.\<close>

definition cut_at :: "nat \<Rightarrow> ustr \<Rightarrow> ustr \<Rightarrow> ustr \<Rightarrow> ustr \<Rightarrow> bool" where
  "cut_at m s left mid right \<longleftrightarrow> s = left @ mid @ right \<and> mid \<noteq> [] \<and>
     byte_len left \<le> m div 2 \<and> m div 2 < byte_len left + len_utf8 (hd mid) \<and>
     byte_len right \<le> m - m div 2 \<and> m - m div 2 < len_utf8 (last mid) + byte_len right"

lemma truncate_fits: "byte_len s \<le> m \<Longrightarrow> truncate_with_byte_estimate s m u = Some s"
  by (auto simp: truncate_with_byte_estimate_def)

lemma truncate_cuts:
  assumes "byte_len s \<le> isize_max" "m < byte_len s"
  shows "\<exists>left mid right. cut_at m s left mid right \<and>
    truncate_with_byte_estimate s m u =
      Some (left @ format_truncation_marker u (if u then (byte_len s - m + 3) div 4 else length mid) @ right)"
proof (cases "m = 0")
  case True
  with assms have "s \<noteq> []" by auto
  then have "cut_at m s [] s []" using True by (simp add: cut_at_def)
  moreover have "truncate_with_byte_estimate s m u =
      Some ([] @ format_truncation_marker u (if u then (byte_len s - m + 3) div 4 else length s) @ [])"
    using True \<open>s \<noteq> []\<close> assms
    by (simp add: truncate_with_byte_estimate_def removed_units_def approx_tokens_exact)
  ultimately show ?thesis by blast
next
  case False
  have "length s \<le> usize_max" using assms(1) length_le_byte_len [of s] by (simp add: isize_max_def usize_max_def)
  from split_string_ok [OF this, of "m div 2" "m - m div 2"] obtain left mid right where
    split: "split_string s (m div 2) (m - m div 2) = Some (length mid, left, right)" and s: "s = left @ mid @ right"
    and left: "byte_len left \<le> m div 2" "mid = [] \<or> m div 2 < byte_len left + len_utf8 (hd mid)"
    and right: "byte_len right \<le> m - m div 2" "mid = [] \<or> m - m div 2 < len_utf8 (last mid) + byte_len right"
    by blast
  have "mid \<noteq> []" using assms(2) left(1) right(1) s by auto
  then have "cut_at m s left mid right" using s left right by (simp add: cut_at_def)
  moreover have "s \<noteq> []" using s \<open>mid \<noteq> []\<close> by simp
  then have "truncate_with_byte_estimate s m u =
      Some (left @ format_truncation_marker u (if u then (byte_len s - m + 3) div 4 else length mid) @ right)"
    using False assms split
    by (simp add: truncate_with_byte_estimate_def split_budget_def Let_def removed_units_def approx_tokens_exact
        assemble_truncated_output_def)
  ultimately show ?thesis by blast
qed

lemma truncate_bound:
  assumes "byte_len s \<le> isize_max"
  shows "\<exists>r. truncate_with_byte_estimate s m u = Some r \<and> byte_len r \<le> m + 43 \<and> (s \<noteq> [] \<longrightarrow> r \<noteq> [])"
proof (cases "byte_len s \<le> m")
  case True
  then show ?thesis by (simp add: truncate_fits)
next
  case False
  then obtain left mid right where cut: "cut_at m s left mid right" and r: "truncate_with_byte_estimate s m u =
      Some (left @ format_truncation_marker u (if u then (byte_len s - m + 3) div 4 else length mid) @ right)"
    using truncate_cuts [OF assms, of m u] by auto
  let ?n = "if u then (byte_len s - m + 3) div 4 else length mid"
  have "length mid \<le> byte_len s" using length_le_byte_len [of s] cut by (auto simp: cut_at_def)
  then have "?n \<le> usize_max" using assms by (auto simp: isize_max_def usize_max_def)
  then have "byte_len (format_truncation_marker u ?n) \<le> 43" by (rule byte_len_marker)
  moreover have "byte_len left + byte_len right \<le> m" using cut unfolding cut_at_def by linarith
  ultimately have "byte_len (left @ format_truncation_marker u ?n @ right) \<le> m + 43" by simp
  then show ?thesis using r marker_nonempty [of u ?n] by simp
qed

section \<open>Lists of content items\<close>

abbreviation texts :: "content_item list \<Rightarrow> ustr list" where
  "texts \<equiv> List.map_filter text_segment"

fun is_audio :: "content_item \<Rightarrow> bool" where
  "is_audio (InputAudio _) = True"
| "is_audio _ = False"

definition always_kept :: "content_item \<Rightarrow> bool" where
  "always_kept i \<longleftrightarrow> text_segment i = None \<and> \<not> is_audio i"

fun item_cost :: "truncation_policy \<Rightarrow> (ustr \<Rightarrow> nat) \<Rightarrow> content_item \<Rightarrow> nat" where
  "item_cost policy estimate (InputText t) = text_cost policy t"
| "item_cost policy estimate (InputAudio url) = audio_cost policy (estimate url)"
| "item_cost policy estimate _ = 0"

definition total_cost :: "truncation_policy \<Rightarrow> (ustr \<Rightarrow> nat) \<Rightarrow> content_item list \<Rightarrow> nat" where
  "total_cost policy estimate items = sum_list (map (item_cost policy estimate) items)"

lemma approx_bytes_le: "approx_bytes_for_tokens n \<le> n * 4"
  by (simp add: approx_bytes_for_tokens_def APPROX_BYTES_PER_TOKEN_def saturating_mul_def)

lemma approx_token_count_le: "approx_token_count s \<le> (byte_len s + 3) div 4"
  by (simp add: approx_token_count_def APPROX_BYTES_PER_TOKEN_def div_le_mono saturating_add_le)

lemma snippet_bound:
  assumes "byte_len t \<le> isize_max" "t \<noteq> []"
  shows "\<exists>r. truncate_text t (snippet_policy policy n) = Some r \<and> r \<noteq> [] \<and> text_cost policy r \<le> n + 43"
proof (cases policy)
  case (Bytes m)
  from truncate_bound [OF assms(1), of n False] obtain r where
    "truncate_with_byte_estimate t n False = Some r" "byte_len r \<le> n + 43" "r \<noteq> []" using assms(2) by blast
  with Bytes show ?thesis by (simp add: truncate_middle_chars_def)
next
  case (Tokens m)
  have "\<exists>r. truncate_text t (Tokens n) = Some r \<and> r \<noteq> [] \<and> byte_len r \<le> n * 4 + 43"
  proof (cases "n > 0 \<and> byte_len t \<le> approx_bytes_for_tokens n")
    case True
    then show ?thesis using assms approx_bytes_le [of n] by (simp add: truncate_middle_with_token_budget_def)
  next
    case False
    from truncate_bound [OF assms(1), of "approx_bytes_for_tokens n" True] obtain r where
      "truncate_with_byte_estimate t (approx_bytes_for_tokens n) True = Some r"
      "byte_len r \<le> approx_bytes_for_tokens n + 43" "r \<noteq> []" using assms(2) by blast
    moreover from this(2) have "byte_len r \<le> n * 4 + 43" using approx_bytes_le [of n] by linarith
    ultimately show ?thesis using False assms(2)
      by (auto simp: truncate_middle_with_token_budget_def)
  qed
  then obtain r where r: "truncate_text t (Tokens n) = Some r" "r \<noteq> []" "byte_len r \<le> n * 4 + 43" by blast
  have "approx_token_count r \<le> (n * 4 + 46) div 4"
    using approx_token_count_le [of r] r(3) by (simp add: div_le_mono order_trans)
  also have "\<dots> \<le> n + 43" by simp
  finally show ?thesis using Tokens r(1,2) by (intro exI [of _ r]) simp
qed

text \<open>
  How the kept texts relate to the texts of the input: a prefix of them, with at most the next
  one shortened to what was left of the budget.
\<close>

inductive kept_texts :: "truncation_policy \<Rightarrow> nat \<Rightarrow> ustr list \<Rightarrow> ustr list \<Rightarrow> bool" for policy where
  none_kept [intro]: "kept_texts policy budget ts []"
| next_shortened: "0 < n \<Longrightarrow> n \<le> budget \<Longrightarrow> n < text_cost policy t \<Longrightarrow>
    truncate_text t (snippet_policy policy n) = Some snippet \<Longrightarrow> kept_texts policy budget (t # ts) [snippet]"
| next_whole: "0 < budget \<Longrightarrow> text_cost policy t \<le> budget \<Longrightarrow> kept_texts policy (budget - text_cost policy t) ts kept \<Longrightarrow>
    kept_texts policy budget (t # ts) (t # kept)"

lemma kept_texts_mono: "kept_texts policy budget' ts kept \<Longrightarrow> budget' \<le> budget \<Longrightarrow> kept_texts policy budget ts kept"
proof (induction arbitrary: budget rule: kept_texts.induct)
  case (next_whole budget' t ts kept)
  then have "kept_texts policy (budget - text_cost policy t) ts kept" by (intro next_whole.IH) simp
  with next_whole show ?case by (intro kept_texts.next_whole) simp_all
qed (auto intro: kept_texts.next_shortened)

text \<open>One pass over the items: what it appends to the output, and what it counts as omitted.\<close>

definition pass_ok :: "truncation_policy \<Rightarrow> (ustr \<Rightarrow> nat) \<Rightarrow> content_item list \<Rightarrow> items_state \<Rightarrow> items_state \<Rightarrow>
    content_item list \<Rightarrow> bool" where
  "pass_ok policy estimate items st st' kept \<longleftrightarrow>
     out st' = out st @ kept \<and>
     filter always_kept kept = filter always_kept items \<and>
     kept_texts policy (remaining_budget st) (texts items) (texts kept) \<and>
     subseq (filter is_audio kept) (filter is_audio items) \<and>
     omitted_text_items st' + length (texts kept) = omitted_text_items st + length (texts items) \<and>
     omitted_audio_items st' + length (filter is_audio kept) = omitted_audio_items st + length (filter is_audio items) \<and>
     total_cost policy estimate kept \<le> remaining_budget st + (if remaining_budget st = 0 then 0 else 43)"

lemma total_cost_simps [simp]:
  "total_cost policy estimate [] = 0"
  "total_cost policy estimate (i # is) = item_cost policy estimate i + total_cost policy estimate is"
  by (simp_all add: total_cost_def)

lemma texts_simps [simp]: "texts [] = []" "texts (i # is) = (case text_segment i of None \<Rightarrow> texts is | Some t \<Rightarrow> t # texts is)"
  by (simp_all add: List.map_filter_simps)

lemma pass_text:
  assumes "\<And>st. \<exists>st' kept. truncate_items estimate policy items st = Some st' \<and> pass_ok policy estimate items st st' kept"
    and "byte_len t \<le> isize_max"
  shows "\<exists>st' kept. truncate_items estimate policy (InputText t # items) st = Some st' \<and>
    pass_ok policy estimate (InputText t # items) st st' kept"
proof -
  consider (spent) "remaining_budget st = 0"
    | (fits) "0 < remaining_budget st" "text_cost policy t \<le> remaining_budget st"
    | (cut) "0 < remaining_budget st" "remaining_budget st < text_cost policy t" by linarith
  then show ?thesis
  proof cases
    case spent
    let ?st = "st\<lparr>omitted_text_items := omitted_text_items st + 1\<rparr>"
    obtain st' kept where "truncate_items estimate policy items ?st = Some st'" and
      ok: "pass_ok policy estimate items ?st st' kept" using assms(1) by blast
    moreover have "texts kept = []"
      using ok spent by (auto simp: pass_ok_def elim: kept_texts.cases)
    ultimately show ?thesis using spent
      by (intro exI [of _ st'] exI [of _ kept]) (auto simp: pass_ok_def always_kept_def)
  next
    case fits
    let ?st = "(push_item (InputText t) st)\<lparr>remaining_budget := remaining_budget st - text_cost policy t\<rparr>"
    obtain st' kept where "truncate_items estimate policy items ?st = Some st'" and
      "pass_ok policy estimate items ?st st' kept" using assms(1) by blast
    then show ?thesis using fits
      by (intro exI [of _ st'] exI [of _ "InputText t # kept"])
         (auto simp: pass_ok_def always_kept_def push_item_def split: if_splits intro: kept_texts.next_whole)
  next
    case cut
    have "t \<noteq> []" using cut by (cases policy) (auto simp: approx_token_count_def APPROX_BYTES_PER_TOKEN_def saturating_add_def usize_max_def)
    from snippet_bound [OF assms(2) this] obtain r where r:
      "truncate_text t (snippet_policy policy (remaining_budget st)) = Some r" "r \<noteq> []"
      "text_cost policy r \<le> remaining_budget st + 43" by blast
    let ?st = "(push_item (InputText r) st)\<lparr>remaining_budget := 0\<rparr>"
    obtain st' kept where "truncate_items estimate policy items ?st = Some st'" and
      ok: "pass_ok policy estimate items ?st st' kept" using assms(1) by blast
    moreover have "texts kept = []"
      using ok by (auto simp: pass_ok_def elim: kept_texts.cases)
    ultimately show ?thesis using cut r kept_texts.next_shortened [of "remaining_budget st" "remaining_budget st" policy t r]
      by (intro exI [of _ st'] exI [of _ "InputText r # kept"]) (auto simp: pass_ok_def always_kept_def push_item_def)
  qed
qed

lemma truncate_items_ok:
  assumes "\<And>t. t \<in> set (texts items) \<Longrightarrow> byte_len t \<le> isize_max"
  shows "\<exists>st' kept. truncate_items estimate policy items st = Some st' \<and> pass_ok policy estimate items st st' kept"
  using assms
proof (induction items arbitrary: st)
  case Nil
  then show ?case by (auto simp: pass_ok_def)
next
  case (Cons item items)
  then have IH: "\<exists>st' kept. truncate_items estimate policy items st = Some st' \<and> pass_ok policy estimate items st st' kept" for st
    by (auto split: option.splits)
  show ?case
  proof (cases item)
    case (InputText t)
    with Cons.prems have "byte_len t \<le> isize_max" by simp
    from pass_text [OF IH this] show ?thesis unfolding InputText .
  next
    case (InputImage url detail)
    with IH [of "push_item item st"] show ?thesis
      by (fastforce simp: pass_ok_def always_kept_def push_item_def intro!: exI [of _ "item # _"])
  next
    case (EncryptedContent c)
    with IH [of "push_item item st"] show ?thesis
      by (fastforce simp: pass_ok_def always_kept_def push_item_def intro!: exI [of _ "item # _"])
  next
    case (InputAudio url)
    let ?cost = "audio_cost policy (estimate url)"
    let ?in = "(push_item item st)\<lparr>remaining_budget := remaining_budget st - ?cost\<rparr>"
    let ?out = "st\<lparr>omitted_audio_items := omitted_audio_items st + 1\<rparr>"
    show ?thesis
    proof (cases "?cost \<le> remaining_budget st")
      case True
      obtain st' kept where "truncate_items estimate policy items ?in = Some st'" "pass_ok policy estimate items ?in st' kept"
        using IH by blast
      with True InputAudio show ?thesis
        by (intro exI [of _ st'] exI [of _ "item # kept"])
           (auto simp: pass_ok_def always_kept_def push_item_def split: if_splits intro: kept_texts_mono)
    next
      case False
      obtain st' kept where "truncate_items estimate policy items ?out = Some st'" "pass_ok policy estimate items ?out st' kept"
        using IH by blast
      with False InputAudio show ?thesis
        by (intro exI [of _ st'] exI [of _ kept]) (auto simp: pass_ok_def always_kept_def)
    qed
  qed
qed

section \<open>Properties\<close>

text \<open>
  truncating a string never panics on a character boundary. A string within the budget is
  returned as it is. Otherwise a non-empty middle is cut out: what stays is the longest beginning
  within the first half of the budget and the longest end within the second half, on character
  boundaries, and between them a marker that gives the number of characters removed or, for
  tokens, a quarter of the bytes over the budget, rounded up.
\<close>

theorem truncation_keeps_both_ends:
  assumes "byte_len s \<le> isize_max"
  shows "if byte_len s \<le> m then truncate_with_byte_estimate s m u = Some s
    else \<exists>left mid right. s = left @ mid @ right \<and> mid \<noteq> [] \<and>
      byte_len left \<le> m div 2 \<and> m div 2 < byte_len left + len_utf8 (hd mid) \<and>
      byte_len right \<le> m - m div 2 \<and> m - m div 2 < len_utf8 (last mid) + byte_len right \<and>
      truncate_with_byte_estimate s m u =
        Some (left @ [0x2026] @
          (if u then dec ((byte_len s - m + 3) div 4) @ lit '' tokens truncated''
           else dec (length mid) @ lit '' chars truncated'') @ [0x2026] @ right)"
proof (cases "byte_len s \<le> m")
  case True
  then show ?thesis by (simp add: truncate_fits)
next
  case False
  have marker: "format_truncation_marker u (if u then a else b) =
      [0x2026] @ (if u then dec a @ lit '' tokens truncated'' else dec b @ lit '' chars truncated'') @ [0x2026]" for a b
    by (simp add: format_truncation_marker_def)
  from False have "m < byte_len s" by simp
  from truncate_cuts [OF assms this, of u] False show ?thesis
    unfolding cut_at_def marker by (simp only: if_False conj_assoc append_assoc)
qed

theorem truncation_keeps_both_ends_witness:
  "byte_len [233, 97, 98, 99, 100, 0x4E2D] \<le> isize_max \<and>
   truncate_with_byte_estimate [233, 97, 98, 99, 100, 0x4E2D] 7 False =
     Some ([233, 97, 0x2026] @ lit ''2 chars truncated'' @ [0x2026, 100, 0x4E2D]) \<and>
   (\<exists>left mid right. [233, 97, 98, 99, 100, 0x4E2D] = left @ mid @ right \<and> byte_len left \<le> 3 \<and> byte_len right \<le> 4 \<and> mid \<noteq> [])"
proof (intro conjI)
  have len: "byte_len [233, 97, 98, 99, 100, 0x4E2D] = 9" by (simp add: len_utf8_def)
  then show small: "byte_len [233, 97, 98, 99, 100, 0x4E2D] \<le> isize_max" by (simp add: isize_max_def)
  show "truncate_with_byte_estimate [233, 97, 98, 99, 100, 0x4E2D] 7 False =
     Some ([233, 97, 0x2026] @ lit ''2 chars truncated'' @ [0x2026, 100, 0x4E2D])"
    by (simp add: truncate_with_byte_estimate_def split_budget_def split_string_def split_step_def len_utf8_def
        Let_def saturating_add_def usize_max_def removed_units_def format_truncation_marker_def dec.simps
        assemble_truncated_output_def)
  show "\<exists>left mid right. [233, 97, 98, 99, 100, 0x4E2D] = left @ mid @ right \<and> byte_len left \<le> 3 \<and> byte_len right \<le> 4 \<and> mid \<noteq> []"
    using truncation_keeps_both_ends [OF small, of 7 False] unfolding len by auto
qed



end
