(* ===== verification/Shell_Parse.thy ===== *)
theory Shell_Parse
  imports Abs_Path "HOL-Library.Multiset"
begin

text \<open>
  Reading shell invocations: \<open>shell-command/src/shell_detect.rs\<close> (which shell a path names) and
  \<open>shell-command/src/bash.rs\<close> (the commands of a \<open>bash -lc\<close> script). The syntax tree comes from
  the tree-sitter library, which is not part of the repository: a tree is a value of type \<open>node\<close>
  with the observations the code makes of it, and the parser is a parameter from script to tree.
\<close>

section \<open>\<open>shell_detect.rs\<close>\<close>

datatype shell_type = Zsh | Bash | PowerShell | Sh | Cmd

text \<open>\<open>Path::file_stem\<close>: the file name up to its last dot, unless that dot opens the name.\<close>

definition file_stem_of :: "ustr \<Rightarrow> ustr" where
  "file_stem_of n = (case rsplit_once 46 n of None \<Rightarrow> n | Some (before, _) \<Rightarrow> if before = [] then n else before)"

definition file_stem :: "path \<Rightarrow> ustr option" where
  "file_stem p = map_option file_stem_of (file_name p)"

lemma length_split_char: "p \<in> set (split_char c s) \<Longrightarrow> length p \<le> length s \<and> (length p = length s \<longrightarrow> p = s)"
proof (induction s arbitrary: p)
  case (Cons x xs)
  obtain q qs where "split_char c xs = q # qs"
    using split_char_nonempty [of c xs] by (cases "split_char c xs") auto
  with Cons show ?case by (auto split: if_splits) force+
qed simp

lemma file_name_piece:
  assumes "file_name (path_components s) = Some n"
  shows "n \<in> set (split_char 47 s)"
proof -
  let ?body = "List.map_filter piece_component (split_char 47 s)"
  have "Normal n \<in> set (path_components s)"
    using assms by (auto simp: file_name_def split: list.splits component.splits)
  then have "Normal n \<in> set ?body" by (auto simp: path_components_def Let_def split: if_splits)
  then show ?thesis by (auto simp: List.map_filter_def piece_component_def split: if_splits)
qed

lemma length_file_stem_of: "length (file_stem_of n) \<le> length n \<and> (length (file_stem_of n) = length n \<longrightarrow> file_stem_of n = n)"
proof (cases "rsplit_once 46 n")
  case (Some ab)
  obtain a b where ab: "ab = (a, b)" by (cases ab)
  from Some have "\<exists>u v. split_once 46 (rev n) = Some (u, v) \<and> a = rev v" by (auto simp: rsplit_once_def ab)
  then obtain u v where "split_once 46 (rev n) = Some (u, v)" "a = rev v" by blast
  then have "length n = length u + Suc (length v)"
    by (metis add_Suc_right length_Cons length_append length_rev split_once_Some_iff)
  with \<open>a = rev v\<close> show ?thesis using Some ab by (simp add: file_stem_of_def)
qed (simp add: file_stem_of_def)

function detect_shell_type :: "ustr \<Rightarrow> shell_type option" where
  "detect_shell_type shell_path =
     (if shell_path = lit ''zsh'' then Some Zsh
      else if shell_path = lit ''sh'' then Some Sh
      else if shell_path = lit ''cmd'' then Some Cmd
      else if shell_path = lit ''bash'' then Some Bash
      else if shell_path = lit ''pwsh'' then Some PowerShell
      else if shell_path = lit ''powershell'' then Some PowerShell
      else
        case file_stem (path_components shell_path) of
          Some shell_name \<Rightarrow>
            if path_components shell_name \<noteq> path_components shell_path then detect_shell_type shell_name else None
        | None \<Rightarrow> None)"
  by auto
termination
proof (relation "measure length", goal_cases)
  case (2 s stem)
  then obtain n where n: "file_name (path_components s) = Some n" "stem = file_stem_of n"
    by (auto simp: file_stem_def)
  have "length n \<le> length s" "length n = length s \<Longrightarrow> n = s"
    using length_split_char [OF file_name_piece [OF n(1)]] by auto
  moreover have "length stem \<le> length n" "length stem = length n \<Longrightarrow> stem = n"
    using length_file_stem_of [of n] n(2) by auto
  moreover have "stem \<noteq> s" using 2 by auto
  ultimately have "length stem < length s" by (metis le_neq_implies_less order_trans antisym)
  then show ?case by simp
qed simp

declare detect_shell_type.simps [simp del]

section \<open>Syntax trees\<close>

text \<open>
  What the code reads of a tree-sitter node: its kind, whether it is named, its first byte, its
  source text (\<open>utf8_text\<close>), whether it contains a syntax error, and its children.
\<close>

datatype node = Node (kind: ustr) (is_named: bool) (start_byte: nat) (node_text: "ustr option") (has_error: bool)
  (children: "node list")

definition named_children :: "node \<Rightarrow> node list" where
  "named_children n = filter is_named (children n)"

definition first_named :: "node \<Rightarrow> node option" where
  "first_named n = (case named_children n of [] \<Rightarrow> None | c # _ \<Rightarrow> Some c)"

definition is_command :: "node \<Rightarrow> bool" where
  "is_command n \<longleftrightarrow> kind n = lit ''command''"

lemma size_filter_children: "size_list size (filter P (children n)) < size n"
proof -
  have "size_list size (filter P ns) \<le> size_list size ns" for ns :: "node list"
    by (induction ns) auto
  then show ?thesis by (cases n) (simp add: le_imp_less_Suc)
qed

lemma size_stack: "size_list size (rev (filter P (children n)) @ st) < size_list size (n # st)"
proof -
  have "size_list size (rev ns) = size_list size ns" for ns :: "node list"
    by (simp add: size_list_conv_sum_list rev_map [symmetric])
  then show ?thesis using size_filter_children [of P n] by simp
qed

section \<open>\<open>bash.rs\<close>\<close>

definition ALLOWED_KINDS :: "ustr list" where
  "ALLOWED_KINDS =
     [lit ''program'', lit ''list'', lit ''pipeline'', lit ''command'', lit ''command_name'', lit ''word'',
      lit ''string'', lit ''string_content'', lit ''raw_string'', lit ''number'', lit ''concatenation'']"

text \<open>The characters 34 and 39 are the two quotes.\<close>

definition ALLOWED_PUNCT_TOKENS :: "ustr list" where
  "ALLOWED_PUNCT_TOKENS = [lit ''&&'', lit ''||'', lit '';'', lit ''|'', [34], [39]]"

definition node_allowed :: "node \<Rightarrow> bool" where
  "node_allowed n \<longleftrightarrow>
     (if is_named n then kind n \<in> set ALLOWED_KINDS
      else
        \<not> ((\<exists>c \<in> set (kind n). c \<in> set (lit ''&;|'')) \<and> kind n \<notin> set ALLOWED_PUNCT_TOKENS) \<and>
        (kind n \<in> set ALLOWED_PUNCT_TOKENS \<or> trim (kind n) = []))"

text \<open>The walk keeps a stack; the first entry of the list is its top.\<close>

function collect_command_nodes :: "node list \<Rightarrow> node list \<Rightarrow> node list option" where
  "collect_command_nodes [] command_nodes = Some command_nodes"
| "collect_command_nodes (n # stack) command_nodes =
     (if \<not> node_allowed n then None
      else collect_command_nodes (rev (children n) @ stack)
        (if is_named n \<and> is_command n then command_nodes @ [n] else command_nodes))"
  by pat_completeness auto
termination
  by (relation "measure (\<lambda>(st, _). size_list size st)") (use size_stack [of "\<lambda>_. True"] in simp_all)

definition parse_double_quoted_string :: "node \<Rightarrow> ustr option" where
  "parse_double_quoted_string n =
     (if kind n \<noteq> lit ''string'' then None
      else if \<exists>part \<in> set (named_children n). kind part \<noteq> lit ''string_content'' then None
      else Option.bind (node_text n) (\<lambda>raw. Option.bind (strip_prefix [34] raw) (strip_suffix [34])))"

definition parse_raw_string :: "node \<Rightarrow> ustr option" where
  "parse_raw_string n =
     (if kind n \<noteq> lit ''raw_string'' then None
      else Option.bind (node_text n) (\<lambda>raw. Option.bind (strip_prefix [39] raw) (strip_suffix [39])))"

definition parse_concat_part :: "node \<Rightarrow> ustr option" where
  "parse_concat_part part =
     (if kind part \<in> {lit ''word'', lit ''number''} then node_text part
      else if kind part = lit ''string'' then parse_double_quoted_string part
      else if kind part = lit ''raw_string'' then parse_raw_string part
      else None)"

text \<open>Loops that push what each element gives and return early when one gives nothing.\<close>

fun collect_options :: "('a \<Rightarrow> 'b option) \<Rightarrow> 'a list \<Rightarrow> 'b list option" where
  "collect_options f [] = Some []"
| "collect_options f (x # xs) =
     (case f x of None \<Rightarrow> None | Some y \<Rightarrow> map_option (\<lambda>ys. y # ys) (collect_options f xs))"

definition parse_plain_word :: "node \<Rightarrow> ustr option" where
  "parse_plain_word child =
     (if kind child = lit ''command_name''
      then Option.bind (first_named child)
        (\<lambda>word_node. if kind word_node \<noteq> lit ''word'' then None else node_text word_node)
      else if kind child \<in> {lit ''word'', lit ''number''} then node_text child
      else if kind child = lit ''string'' then parse_double_quoted_string child
      else if kind child = lit ''raw_string'' then parse_raw_string child
      else if kind child = lit ''concatenation''
      then Option.bind (collect_options parse_concat_part (named_children child))
        (\<lambda>parts. let concatenated = concat parts in if concatenated = [] then None else Some concatenated)
      else None)"

definition parse_plain_command_from_node :: "node \<Rightarrow> ustr list option" where
  "parse_plain_command_from_node cmd =
     (if \<not> is_command cmd then None else collect_options parse_plain_word (named_children cmd))"

definition try_parse_word_only_commands_sequence :: "node \<Rightarrow> ustr list list option" where
  "try_parse_word_only_commands_sequence root =
     (if has_error root then None
      else Option.bind (collect_command_nodes [root] [])
        (\<lambda>command_nodes. collect_options parse_plain_command_from_node (sort_key start_byte command_nodes)))"

type_synonym shell_parser = "ustr \<Rightarrow> node option"

definition parse_shell_script_into_commands :: "shell_parser \<Rightarrow> ustr \<Rightarrow> ustr list list option" where
  "parse_shell_script_into_commands try_parse_shell script =
     Option.bind (try_parse_shell script) try_parse_word_only_commands_sequence"

definition extract_bash_command :: "ustr list \<Rightarrow> (ustr \<times> ustr) option" where
  "extract_bash_command command =
     (case command of
        [shell, flag, script] \<Rightarrow>
          if flag \<notin> {lit ''-lc'', lit ''-c''} \<or>
             detect_shell_type shell \<notin> {Some Zsh, Some Bash, Some Sh}
          then None else Some (shell, script)
      | _ \<Rightarrow> None)"

definition parse_shell_lc_plain_commands :: "shell_parser \<Rightarrow> ustr list \<Rightarrow> ustr list list option" where
  "parse_shell_lc_plain_commands try_parse_shell command =
     Option.bind (extract_bash_command command) (\<lambda>(_, script). parse_shell_script_into_commands try_parse_shell script)"

definition is_literal_word_or_number :: "node \<Rightarrow> bool" where
  "is_literal_word_or_number n \<longleftrightarrow>
     kind n \<in> {lit ''word'', lit ''number''} \<and> named_children n = []"

function parse_literal_shell_word :: "node \<Rightarrow> ustr option"
  and parse_literal_parts :: "node list \<Rightarrow> ustr option" where
  "parse_literal_shell_word n =
     (if kind n \<in> {lit ''word'', lit ''number''} \<and> is_literal_word_or_number n then node_text n
      else if kind n = lit ''string'' then parse_double_quoted_string n
      else if kind n = lit ''raw_string'' then parse_raw_string n
      else if kind n = lit ''concatenation''
      then Option.bind (parse_literal_parts (named_children n))
        (\<lambda>concatenated. if concatenated = [] then None else Some concatenated)
      else None)"
| "parse_literal_parts [] = Some []"
| "parse_literal_parts (part # parts) =
     Option.bind (parse_literal_shell_word part)
       (\<lambda>w. map_option (\<lambda>rest. w @ rest) (parse_literal_parts parts))"
  by pat_completeness auto
termination
  by (relation "measure (\<lambda>x. case x of Inl n \<Rightarrow> size n | Inr ns \<Rightarrow> size_list size ns)")
     (simp_all add: named_children_def size_filter_children)

fun literal_words :: "bool \<Rightarrow> node list \<Rightarrow> (bool \<times> ustr list) option" where
  "literal_words found [] = Some (found, [])"
| "literal_words found (child # cs) =
     (if kind child = lit ''command_name''
      then Option.bind (Option.bind (first_named child) parse_literal_shell_word)
        (\<lambda>w. map_option (\<lambda>(f, ws). (f, w # ws)) (literal_words True cs))
      else
        case (if found then parse_literal_shell_word child else None) of
          Some w \<Rightarrow> map_option (\<lambda>(f, ws). (f, w # ws)) (literal_words found cs)
        | None \<Rightarrow> literal_words found cs)"

definition parse_literal_command_from_node :: "node \<Rightarrow> ustr list option" where
  "parse_literal_command_from_node cmd =
     (if \<not> is_command cmd then None
      else Option.bind (literal_words False (named_children cmd))
        (\<lambda>(found, words). if found then Some words else None))"

function collect_literal_commands :: "node list \<Rightarrow> ustr list list \<Rightarrow> ustr list list" where
  "collect_literal_commands [] commands = commands"
| "collect_literal_commands (n # stack) commands =
     collect_literal_commands (rev (named_children n) @ stack)
       (case (if is_command n then parse_literal_command_from_node n else None) of
          Some c \<Rightarrow> commands @ [c] | None \<Rightarrow> commands)"
  by pat_completeness auto
termination
  by (relation "measure (\<lambda>(st, _). size_list size st)") (use size_stack [of is_named] in \<open>simp_all add: named_children_def\<close>)

definition parse_shell_lc_literal_commands :: "shell_parser \<Rightarrow> ustr list \<Rightarrow> ustr list list option" where
  "parse_shell_lc_literal_commands try_parse_shell command =
     Option.bind (extract_bash_command command) (\<lambda>(_, script).
       Option.bind (try_parse_shell script) (\<lambda>root.
         if has_error root then None else Some (collect_literal_commands [root] [])))"

definition is_allowed_heredoc_attachment_kind :: "ustr \<Rightarrow> bool" where
  "is_allowed_heredoc_attachment_kind k \<longleftrightarrow>
     k \<in> {lit ''heredoc_body'', lit ''simple_heredoc_body'', lit ''heredoc_redirect'', lit ''herestring_redirect'',
       lit ''redirected_statement''}"

text \<open>The words one child of a heredoc command gives: none for a comment or an attachment.\<close>

definition heredoc_child :: "node \<Rightarrow> ustr list option" where
  "heredoc_child child =
     (if kind child = lit ''command_name''
      then Option.bind (first_named child)
        (\<lambda>word_node.
          if kind word_node \<notin> {lit ''word'', lit ''number''} \<or> \<not> is_literal_word_or_number word_node then None
          else map_option (\<lambda>w. [w]) (node_text word_node))
      else if kind child \<in> {lit ''word'', lit ''number''}
      then (if \<not> is_literal_word_or_number child then None else map_option (\<lambda>w. [w]) (node_text child))
      else if kind child = lit ''comment'' then Some []
      else if is_allowed_heredoc_attachment_kind (kind child) then Some []
      else None)"

definition parse_heredoc_command_words :: "node \<Rightarrow> ustr list option" where
  "parse_heredoc_command_words cmd =
     (if \<not> is_command cmd then None
      else Option.bind (collect_options heredoc_child (named_children cmd))
        (\<lambda>wss. let words = concat wss in if words = [] then None else Some words))"

function find_single_command_loop :: "node list \<Rightarrow> node option \<Rightarrow> node option" where
  "find_single_command_loop [] single_command = single_command"
| "find_single_command_loop (n # stack) single_command =
     (if is_command n \<and> single_command \<noteq> None then None
      else find_single_command_loop (rev (named_children n) @ stack)
        (if is_command n then Some n else single_command))"
  by pat_completeness auto
termination
  by (relation "measure (\<lambda>(st, _). size_list size st)") (use size_stack [of is_named] in \<open>simp_all add: named_children_def\<close>)

definition find_single_command_node :: "node \<Rightarrow> node option" where
  "find_single_command_node root = find_single_command_loop [root] None"

function has_kind_loop :: "ustr \<Rightarrow> node list \<Rightarrow> bool" where
  "has_kind_loop k [] = False"
| "has_kind_loop k (n # stack) = (if kind n = k then True else has_kind_loop k (rev (named_children n) @ stack))"
  by pat_completeness auto
termination
  by (relation "measure (\<lambda>(_, st). size_list size st)") (use size_stack [of is_named] in \<open>simp_all add: named_children_def\<close>)

definition has_named_descendant_kind :: "node \<Rightarrow> ustr \<Rightarrow> bool" where
  "has_named_descendant_kind n k = has_kind_loop k [n]"

definition parse_shell_lc_single_command_prefix :: "shell_parser \<Rightarrow> ustr list \<Rightarrow> ustr list option" where
  "parse_shell_lc_single_command_prefix try_parse_shell command =
     Option.bind (extract_bash_command command) (\<lambda>(_, script).
       Option.bind (try_parse_shell script) (\<lambda>root.
         if has_error root then None
         else if \<not> has_named_descendant_kind root (lit ''heredoc_redirect'') then None
         else if has_named_descendant_kind root (lit ''file_redirect'') then None
         else Option.bind (find_single_command_node root) parse_heredoc_command_words))"

section \<open>What the walks visit\<close>

text \<open>All nodes below a node, and those reached through named nodes only.\<close>

fun descendants :: "node \<Rightarrow> node list" where
  "descendants (Node k nm st t e cs) = Node k nm st t e cs # concat (map descendants cs)"

lemma descendants_eq: "descendants n = n # concat (map descendants (children n))"
  by (cases n) simp

inductive named_below :: "node \<Rightarrow> node \<Rightarrow> bool" where
  named_refl: "named_below n n"
| named_step: "named_below n m \<Longrightarrow> c \<in> set (named_children m) \<Longrightarrow> named_below n c"

lemma collect_command_nodes_Some:
  assumes "collect_command_nodes stack acc = Some cs"
  shows "(\<forall>s \<in> set stack. \<forall>n \<in> set (descendants s). node_allowed n) \<and>
    mset cs = mset acc + mset (filter (\<lambda>n. is_named n \<and> is_command n) (concat (map descendants stack)))"
  using assms
proof (induction stack acc rule: collect_command_nodes.induct)
  case (2 n stack acc)
  let ?acc = "if is_named n \<and> is_command n then acc @ [n] else acc"
  have ok: "node_allowed n" and rec: "collect_command_nodes (rev (children n) @ stack) ?acc = Some cs"
    using "2.prems" by (auto split: if_splits)
  from "2.IH" [OF _ rec] ok show ?case
    by (auto simp: descendants_eq [of n] rev_map [symmetric] mset_concat ac_simps)
qed simp

lemma collect_command_nodes_total:
  "\<forall>s \<in> set stack. \<forall>n \<in> set (descendants s). node_allowed n \<Longrightarrow> \<exists>cs. collect_command_nodes stack acc = Some cs"
proof (induction stack acc rule: collect_command_nodes.induct)
  case (2 n stack acc)
  then have "node_allowed n" "\<forall>s \<in> set (rev (children n) @ stack). \<forall>m \<in> set (descendants s). node_allowed m"
    by (auto simp: descendants_eq [of n])
  with 2 show ?case by simp
qed simp

lemma allowed_command_named:
  assumes "node_allowed n" "is_command n"
  shows "is_named n"
proof (rule ccontr)
  assume "\<not> is_named n"
  with assms have "lit ''command'' \<in> set ALLOWED_PUNCT_TOKENS \<or> trim (lit ''command'') = []"
    by (simp add: node_allowed_def is_command_def del: lit_Cons)
  then show False by (simp add: ALLOWED_PUNCT_TOKENS_def trim_def trim_start_def trim_end_def is_whitespace_def)
qed

lemma collect_options_Nil: "collect_options f xs = Some [] \<longleftrightarrow> xs = []"
  by (cases xs) (auto split: option.splits)

text \<open>A script is read as plain commands exactly when it has only the allowed nodes and every command is plain.\<close>

definition plain_script :: "(ustr list \<Rightarrow> bool) \<Rightarrow> node \<Rightarrow> bool" where
  "plain_script P root \<longleftrightarrow> \<not> has_error root \<and> (\<forall>n \<in> set (descendants root). node_allowed n) \<and>
     (\<exists>n \<in> set (descendants root). is_command n) \<and>
     (\<forall>n \<in> set (descendants root). is_command n \<longrightarrow> (\<exists>ws. parse_plain_command_from_node n = Some ws \<and> P ws))"

lemma try_parse_plain_iff:
  "(\<exists>cs. try_parse_word_only_commands_sequence root = Some cs \<and> cs \<noteq> [] \<and> list_all P cs) \<longleftrightarrow> plain_script P root"
proof (cases "\<not> has_error root \<and> (\<forall>n \<in> set (descendants root). node_allowed n)")
  case False
  then have "collect_command_nodes [root] [] = None \<or> has_error root"
    using collect_command_nodes_Some [of "[root]" "[]"]
    by (metis list.set_intros(1) option.exhaust)
  then have "try_parse_word_only_commands_sequence root = None"
    unfolding try_parse_word_only_commands_sequence_def by (auto simp del: collect_command_nodes.simps)
  then show ?thesis using False by (auto simp: plain_script_def)
next
  case True
  then obtain ns where ns: "collect_command_nodes [root] [] = Some ns" using collect_command_nodes_total [of "[root]" "[]"]
    by (metis empty_iff empty_set set_ConsD)
  have "mset ns = mset (filter (\<lambda>n. is_named n \<and> is_command n) (descendants root))"
    using collect_command_nodes_Some [OF ns] by (simp del: collect_command_nodes.simps)
  then have "set ns = {n \<in> set (descendants root). is_named n \<and> is_command n}"
    by (metis mset_eq_setD set_filter)
  then have set: "set ns = {n \<in> set (descendants root). is_command n}" using True allowed_command_named by blast
  let ?sorted = "sort_key start_byte ns"
  have parse: "try_parse_word_only_commands_sequence root = collect_options parse_plain_command_from_node ?sorted"
    using True ns by (simp add: try_parse_word_only_commands_sequence_def del: collect_command_nodes.simps)
  have "(\<exists>cs. collect_options f xs = Some cs \<and> cs \<noteq> [] \<and> list_all P cs) \<longleftrightarrow>
      xs \<noteq> [] \<and> (\<forall>x \<in> set xs. \<exists>ws. f x = Some ws \<and> P ws)" for f :: "node \<Rightarrow> ustr list option" and xs
  proof (induction xs)
    case (Cons x xs)
    then show ?case by (cases "xs = []") (auto simp: collect_options_Nil split: option.splits)
  qed simp
  moreover have "?sorted \<noteq> [] \<longleftrightarrow> (\<exists>n \<in> set (descendants root). is_command n)"
    using set by (metis (mono_tags, lifting) empty_iff empty_set last_in_set mem_Collect_eq set_sort)
  ultimately show ?thesis
    unfolding parse plain_script_def using set True by auto
qed

lemma named_below_Cons: "named_below n m \<longleftrightarrow> m = n \<or> (\<exists>c \<in> set (named_children n). named_below c m)"
proof
  show "named_below n m \<Longrightarrow> m = n \<or> (\<exists>c \<in> set (named_children n). named_below c m)"
    by (induction rule: named_below.induct) (auto intro: named_below.intros)
next
  have "named_below c m \<Longrightarrow> c \<in> set (named_children n) \<Longrightarrow> named_below n m" for c
    by (induction rule: named_below.induct) (auto intro: named_below.intros)
  then show "m = n \<or> (\<exists>c \<in> set (named_children n). named_below c m) \<Longrightarrow> named_below n m"
    by (auto intro: named_below.intros)
qed

lemma named_below_descendant: "named_below n m \<Longrightarrow> m \<in> set (descendants n) \<and> (m = n \<or> is_named m)"
proof (induction rule: named_below.induct)
  case (named_refl n)
  then show ?case by (cases n) simp
next
  case (named_step n m c)
  have trans: "x \<in> set (descendants y) \<Longrightarrow> y \<in> set (descendants z) \<Longrightarrow> x \<in> set (descendants z)" for x y z
    by (induction z rule: descendants.induct) auto
  have "c \<in> set (descendants m)" using named_step.hyps(2)
    by (auto simp: named_children_def descendants_eq [of m] intro!: bexI [of _ c]) (simp add: descendants_eq [of c])
  with named_step show ?case by (auto intro: trans simp: named_children_def)
qed

lemma collect_literal_commands_iff:
  "w \<in> set (collect_literal_commands stack acc) \<longleftrightarrow>
     w \<in> set acc \<or> (\<exists>s \<in> set stack. \<exists>n. named_below s n \<and> is_command n \<and> parse_literal_command_from_node n = Some w)"
proof (induction stack acc rule: collect_literal_commands.induct)
  case (2 n stack acc)
  show ?case
    by (simp add: 2 named_below_Cons [of n]) (auto split: option.splits if_splits simp: parse_literal_command_from_node_def)
qed simp

lemma collect_options_Some_iff: "collect_options f xs = Some ys \<longleftrightarrow> map f xs = map Some ys"
  by (induction xs arbitrary: ys) (auto split: option.splits simp: Cons_eq_map_conv map_eq_Cons_conv)

text \<open>
  In the grammar no word of a command precedes its name; what may precede it are variable assignments and redirections. A command whose
  children are all words therefore has its name first.
\<close>

definition WORD_KINDS :: "ustr list" where
  "WORD_KINDS = [lit ''word'', lit ''number'', lit ''string'', lit ''raw_string'', lit ''concatenation'']"

definition name_before_words :: "node \<Rightarrow> bool" where
  "name_before_words cmd \<longleftrightarrow>
     list_all (\<lambda>d. kind d \<notin> set WORD_KINDS) (takeWhile (\<lambda>d. kind d \<noteq> lit ''command_name'') (named_children cmd))"

lemma parse_plain_word_kind: "parse_plain_word d = Some w \<Longrightarrow> kind d = lit ''command_name'' \<or> kind d \<in> set WORD_KINDS"
  by (auto simp: parse_plain_word_def WORD_KINDS_def simp del: lit_Cons split: if_splits)

lemma parse_plain_name_first:
  assumes "parse_plain_command_from_node cmd = Some (w # ws)" "name_before_words cmd"
  obtains c cs where "named_children cmd = c # cs" "kind c = lit ''command_name''"
proof -
  obtain c cs where cs: "named_children cmd = c # cs" "parse_plain_word c = Some w"
    using assms(1) by (cases "named_children cmd") (auto simp: parse_plain_command_from_node_def split: if_splits option.splits)
  with parse_plain_word_kind [OF cs(2)] assms(2) have "kind c = lit ''command_name''"
    by (auto simp: name_before_words_def simp del: lit_Cons split: if_splits)
  with cs(1) that show ?thesis by blast
qed

lemma parse_plain_nonempty:
  assumes "parse_plain_command_from_node cmd = Some (w # ws)" "parse_literal_command_from_node cmd = Some ls" "name_before_words cmd"
  shows "\<exists>ls'. ls = w # ls'"
proof -
  obtain c cs where cs: "named_children cmd = c # cs" and c: "kind c = lit ''command_name''"
    using assms(1,3) by (rule parse_plain_name_first)
  obtain wn where wn: "first_named c = Some wn" "kind wn = lit ''word''" "node_text wn = Some w"
    using assms(1) c cs
    by (auto simp: parse_plain_command_from_node_def parse_plain_word_def simp del: lit_Cons split: if_splits option.splits bind_splits)
  obtain l where "parse_literal_shell_word wn = Some l" "\<exists>ls'. ls = l # ls'"
    using assms(2) c cs wn(1)
    by (auto simp: parse_literal_command_from_node_def simp del: lit_Cons split: if_splits option.splits bind_splits)
  moreover have "l = w" using calculation(1) wn by (auto split: if_splits)
  ultimately show ?thesis by simp
qed

end
