(* ===== verification/Command_Safety.thy ===== *)
theory Command_Safety
  imports Shell_Parse
begin

text \<open>
  The classification of commands before they are run without asking:
  \<open>shell-command/src/command_safety/is_safe_command.rs\<close> (commands known to be read-only) and
  \<open>is_dangerous_command.rs\<close> (a forced \<open>rm\<close> behind any of the wrappers it looks through), for a
  Linux build. The bash parser is a parameter, as in \<open>Shell_Parse\<close>.
\<close>

section \<open>\<open>is_dangerous_command.rs\<close>: helpers\<close>

datatype dangerous_match = ForcedRm | Other

definition MAX_DANGEROUS_COMMAND_WRAPPER_DEPTH :: nat where
  "MAX_DANGEROUS_COMMAND_WRAPPER_DEPTH = 8"

definition is_git_global_option_with_value :: "ustr \<Rightarrow> bool" where
  "is_git_global_option_with_value arg \<longleftrightarrow>
     arg \<in> {lit ''-C'', lit ''-c'', lit ''--config-env'', lit ''--exec-path'', lit ''--git-dir'', lit ''--namespace'',
       lit ''--super-prefix'', lit ''--work-tree''}"

definition is_git_global_option_with_inline_value :: "ustr \<Rightarrow> bool" where
  "is_git_global_option_with_inline_value arg \<longleftrightarrow>
     (starts_with (lit ''--config-env='') arg \<or> starts_with (lit ''--exec-path='') arg \<or>
      starts_with (lit ''--git-dir='') arg \<or> starts_with (lit ''--namespace='') arg \<or>
      starts_with (lit ''--super-prefix='') arg \<or> starts_with (lit ''--work-tree='') arg) \<or>
     ((starts_with (lit ''-C'') arg \<or> starts_with (lit ''-c'') arg) \<and> byte_len arg > 2)"

definition executable_name_lookup_key :: "ustr \<Rightarrow> ustr option" where
  "executable_name_lookup_key raw = file_name (path_components raw)"

fun git_subcommand_scan :: "ustr list \<Rightarrow> bool \<Rightarrow> nat \<Rightarrow> ustr list \<Rightarrow> (nat \<times> ustr) option" where
  "git_subcommand_scan subcommands skip_next idx [] = None"
| "git_subcommand_scan subcommands skip_next idx (arg # args) =
     (if skip_next then git_subcommand_scan subcommands False (idx + 1) args
      else if is_git_global_option_with_inline_value arg then git_subcommand_scan subcommands False (idx + 1) args
      else if is_git_global_option_with_value arg then git_subcommand_scan subcommands True (idx + 1) args
      else if arg = lit ''--'' \<or> starts_with (lit ''-'') arg then git_subcommand_scan subcommands False (idx + 1) args
      else if arg \<in> set subcommands then Some (idx, arg)
      else None)"

definition find_git_subcommand :: "ustr list \<Rightarrow> ustr list \<Rightarrow> (nat \<times> ustr) option" where
  "find_git_subcommand command subcommands =
     (case command of
        [] \<Rightarrow> None
      | cmd0 # args \<Rightarrow>
          if executable_name_lookup_key cmd0 \<noteq> Some (lit ''git'') then None
          else git_subcommand_scan subcommands False 1 args)"

definition is_force_flag :: "ustr \<Rightarrow> bool" where
  "is_force_flag arg \<longleftrightarrow> arg = lit ''--force'' \<or>
     (case strip_prefix (lit ''-'') arg of
        None \<Rightarrow> False
      | Some flags \<Rightarrow> \<not> starts_with (lit ''-'') flags \<and> of_char (CHR ''f'') \<in> set flags)"

definition rm_args_include_force_option :: "ustr list \<Rightarrow> bool" where
  "rm_args_include_force_option args \<longleftrightarrow> list_ex is_force_flag (takeWhile (\<lambda>arg. arg \<noteq> lit ''--'') args)"

definition env_argument :: "ustr \<Rightarrow> bool" where
  "env_argument argument \<longleftrightarrow>
     argument \<in> {lit ''-i'', lit ''--ignore-environment''} \<or>
     (case split_once 61 argument of
        None \<Rightarrow> False
      | Some (name, _) \<Rightarrow> name \<noteq> [] \<and> \<not> starts_with (lit ''-'') name)"

text \<open>What is left of the arguments of \<open>env\<close> when its loop ends.\<close>

fun env_rest :: "ustr list \<Rightarrow> ustr list" where
  "env_rest [] = []"
| "env_rest (argument # args) =
     (if argument = lit ''--'' then args
      else if env_argument argument then env_rest args
      else argument # args)"

definition trap_action :: "ustr list \<Rightarrow> ustr option" where
  "trap_action args =
     (let rest = (case args of a # as \<Rightarrow> if a = lit ''--'' then as else args | [] \<Rightarrow> [])
      in case rest of
           [] \<Rightarrow> None
         | action # _ \<Rightarrow> if starts_with (lit ''-'') action then None else Some action)"

section \<open>\<open>is_dangerous_command.rs\<close>: the recursion\<close>

function dangerous_command_match_with_depth :: "shell_parser \<Rightarrow> ustr list \<Rightarrow> nat \<Rightarrow> dangerous_match option"
  and dangerous_command_match_for_exec :: "shell_parser \<Rightarrow> ustr list \<Rightarrow> nat \<Rightarrow> dangerous_match option" where
  "dangerous_command_match_with_depth parser command wrapper_depth =
     (if wrapper_depth > MAX_DANGEROUS_COMMAND_WRAPPER_DEPTH then None
      else
        case dangerous_command_match_for_exec parser command wrapper_depth of
          Some m \<Rightarrow> Some m
        | None \<Rightarrow>
            (case parse_shell_lc_literal_commands parser command of
               None \<Rightarrow> None
             | Some commands \<Rightarrow>
                 find_map (\<lambda>c. dangerous_command_match_with_depth parser c (wrapper_depth + 1)) commands))"
| "dangerous_command_match_for_exec parser command wrapper_depth =
     (case command of
        [] \<Rightarrow> None
      | first # args \<Rightarrow>
          if executable_name_lookup_key first = Some (lit ''rm'') \<and> rm_args_include_force_option args then Some ForcedRm
          else if executable_name_lookup_key first = Some (lit ''sudo'')
          then dangerous_command_match_with_depth parser args (wrapper_depth + 1)
          else if executable_name_lookup_key first = Some (lit ''env'')
          then dangerous_command_match_with_depth parser (env_rest args) (wrapper_depth + 1)
          else if executable_name_lookup_key first = Some (lit ''trap'')
          then (case trap_action args of
                  None \<Rightarrow> None
                | Some action \<Rightarrow>
                    dangerous_command_match_with_depth parser [lit ''sh'', lit ''-c'', action] (wrapper_depth + 1))
          else None)"
  by pat_completeness auto
termination
  by (relation "measure (\<lambda>x. case x of
        Inl (_, _, d) \<Rightarrow> if d > 8 then 0 else 2 * (10 - d) + 1
      | Inr (_, _, d) \<Rightarrow> if d > 8 then 1 else 2 * (10 - d))")
     (auto simp: MAX_DANGEROUS_COMMAND_WRAPPER_DEPTH_def)

declare dangerous_command_match_with_depth.simps [simp del] dangerous_command_match_for_exec.simps [simp del]

definition dangerous_command_match :: "shell_parser \<Rightarrow> ustr list \<Rightarrow> dangerous_match option" where
  "dangerous_command_match parser command = dangerous_command_match_with_depth parser command 0"

section \<open>\<open>is_safe_command.rs\<close>\<close>

definition SAFE_COMMANDS :: "ustr list" where
  "SAFE_COMMANDS =
     [lit ''cat'', lit ''cd'', lit ''cut'', lit ''echo'', lit ''expr'', lit ''false'', lit ''grep'', lit ''head'',
      lit ''id'', lit ''ls'', lit ''nl'', lit ''paste'', lit ''pwd'', lit ''rev'', lit ''seq'', lit ''stat'',
      lit ''tail'', lit ''tr'', lit ''true'', lit ''uname'', lit ''uniq'', lit ''wc'', lit ''which'', lit ''whoami'']"

definition UNSAFE_BASE64_OPTIONS :: "ustr list" where
  "UNSAFE_BASE64_OPTIONS = [lit ''-o'', lit ''--output'']"

definition UNSAFE_FIND_OPTIONS :: "ustr list" where
  "UNSAFE_FIND_OPTIONS =
     [lit ''-exec'', lit ''-execdir'', lit ''-ok'', lit ''-okdir'', lit ''-delete'', lit ''-fls'', lit ''-fprint'',
      lit ''-fprint0'', lit ''-fprintf'']"

definition UNSAFE_RIPGREP_OPTIONS_WITH_ARGS :: "ustr list" where
  "UNSAFE_RIPGREP_OPTIONS_WITH_ARGS = [lit ''--pre'', lit ''--hostname-bin'']"

definition UNSAFE_RIPGREP_OPTIONS_WITHOUT_ARGS :: "ustr list" where
  "UNSAFE_RIPGREP_OPTIONS_WITHOUT_ARGS = [lit ''--search-zip'', lit ''-z'']"

datatype git_option_pattern = Exact ustr | ShortWithInlineValue ustr | Prefix ustr

fun pattern_matches :: "git_option_pattern \<Rightarrow> ustr \<Rightarrow> bool" where
  "pattern_matches (Exact option) arg \<longleftrightarrow> arg = option"
| "pattern_matches (ShortWithInlineValue option) arg \<longleftrightarrow> starts_with option arg \<and> byte_len arg > byte_len option"
| "pattern_matches (Prefix pre) arg \<longleftrightarrow> starts_with pre arg"

definition UNSAFE_GIT_GLOBAL_OPTIONS :: "git_option_pattern list" where
  "UNSAFE_GIT_GLOBAL_OPTIONS =
     [Exact (lit ''-C''), ShortWithInlineValue (lit ''-C''), Exact (lit ''-c''), ShortWithInlineValue (lit ''-c''),
      Exact (lit ''-p''), Exact (lit ''--config-env''), Prefix (lit ''--config-env=''), Exact (lit ''--exec-path''),
      Prefix (lit ''--exec-path=''), Exact (lit ''--git-dir''), Prefix (lit ''--git-dir=''),
      Exact (lit ''--namespace''), Prefix (lit ''--namespace=''), Exact (lit ''--paginate''),
      Exact (lit ''--super-prefix''), Prefix (lit ''--super-prefix=''), Exact (lit ''--work-tree''),
      Prefix (lit ''--work-tree='')]"

definition UNSAFE_GIT_SUBCOMMAND_OPTIONS :: "git_option_pattern list" where
  "UNSAFE_GIT_SUBCOMMAND_OPTIONS =
     [Exact (lit ''--output''), Prefix (lit ''--output=''), Exact (lit ''--ext-diff''), Exact (lit ''--textconv''),
      Exact (lit ''--exec''), Prefix (lit ''--exec='')]"

definition git_matches_option_pattern :: "ustr \<Rightarrow> git_option_pattern list \<Rightarrow> bool" where
  "git_matches_option_pattern arg patterns \<longleftrightarrow> list_ex (\<lambda>p. pattern_matches p arg) patterns"

definition git_has_unsafe_global_option :: "ustr list \<Rightarrow> bool" where
  "git_has_unsafe_global_option global_args \<longleftrightarrow>
     list_ex (\<lambda>arg. git_matches_option_pattern arg UNSAFE_GIT_GLOBAL_OPTIONS) global_args"

definition git_subcommand_args_are_read_only :: "ustr list \<Rightarrow> bool" where
  "git_subcommand_args_are_read_only args \<longleftrightarrow>
     \<not> list_ex (\<lambda>arg. git_matches_option_pattern arg UNSAFE_GIT_SUBCOMMAND_OPTIONS) args"

definition branch_read_only_flag :: "ustr \<Rightarrow> bool" where
  "branch_read_only_flag arg \<longleftrightarrow>
     arg \<in> {lit ''--list'', lit ''-l'', lit ''--show-current'', lit ''-a'', lit ''--all'', lit ''-r'',
       lit ''--remotes'', lit ''-v'', lit ''-vv'', lit ''--verbose''} \<or>
     starts_with (lit ''--format='') arg"

fun branch_scan :: "bool \<Rightarrow> ustr list \<Rightarrow> bool" where
  "branch_scan saw_read_only_flag [] = saw_read_only_flag"
| "branch_scan saw_read_only_flag (arg # args) = (if branch_read_only_flag arg then branch_scan True args else False)"

definition git_branch_is_read_only :: "ustr list \<Rightarrow> bool" where
  "git_branch_is_read_only branch_args \<longleftrightarrow> (if branch_args = [] then True else branch_scan False branch_args)"

definition is_safe_git_command :: "ustr list \<Rightarrow> bool" where
  "is_safe_git_command command \<longleftrightarrow>
     (case find_git_subcommand command [lit ''status'', lit ''log'', lit ''diff'', lit ''show'', lit ''branch''] of
        None \<Rightarrow> False
      | Some (subcommand_idx, subcommand) \<Rightarrow>
          let global_args = take (subcommand_idx - 1) (drop 1 command);
              subcommand_args = drop (subcommand_idx + 1) command
          in if git_has_unsafe_global_option global_args then False
             else if subcommand \<in> {lit ''status'', lit ''log'', lit ''diff'', lit ''show''}
             then git_subcommand_args_are_read_only subcommand_args
             else if subcommand = lit ''branch''
             then git_subcommand_args_are_read_only subcommand_args \<and> git_branch_is_read_only subcommand_args
             else False)"

definition is_valid_sed_n_arg :: "ustr option \<Rightarrow> bool" where
  "is_valid_sed_n_arg arg =
     (case arg of
        None \<Rightarrow> False
      | Some s \<Rightarrow>
          (case strip_suffix (lit ''p'') s of
             None \<Rightarrow> False
           | Some core \<Rightarrow>
               (case split_char 44 core of
                  [num] \<Rightarrow> num \<noteq> [] \<and> list_all is_ascii_digit num
                | [a, b] \<Rightarrow> a \<noteq> [] \<and> b \<noteq> [] \<and> list_all is_ascii_digit a \<and> list_all is_ascii_digit b
                | _ \<Rightarrow> False)))"

definition nth_arg :: "ustr list \<Rightarrow> nat \<Rightarrow> ustr option" where
  "nth_arg command i = (if i < length command then Some (command ! i) else None)"

definition is_safe_to_call_with_exec :: "ustr list \<Rightarrow> bool" where
  "is_safe_to_call_with_exec command \<longleftrightarrow>
     (case command of
        [] \<Rightarrow> False
      | cmd0 # args \<Rightarrow>
          (case executable_name_lookup_key cmd0 of
             None \<Rightarrow> False
           | Some cmd \<Rightarrow>
               if cmd \<in> {lit ''numfmt'', lit ''tac''} then True
               else if cmd \<in> set SAFE_COMMANDS then True
               else if cmd = lit ''base64''
               then \<not> list_ex (\<lambda>arg. arg \<in> set UNSAFE_BASE64_OPTIONS \<or> starts_with (lit ''--output='') arg \<or>
                       (starts_with (lit ''-o'') arg \<and> arg \<noteq> lit ''-o'')) args
               else if cmd = lit ''find'' then \<not> list_ex (\<lambda>arg. arg \<in> set UNSAFE_FIND_OPTIONS) command
               else if cmd = lit ''rg''
               then \<not> list_ex (\<lambda>arg. arg \<in> set UNSAFE_RIPGREP_OPTIONS_WITHOUT_ARGS \<or>
                       list_ex (\<lambda>opt. arg = opt \<or> starts_with (opt @ lit ''='') arg) UNSAFE_RIPGREP_OPTIONS_WITH_ARGS) command
               else if cmd = lit ''git'' then is_safe_git_command command
               else if cmd = lit ''sed'' \<and> length command \<le> 4 \<and> nth_arg command 1 = Some (lit ''-n'') \<and>
                       is_valid_sed_n_arg (nth_arg command 2)
               then True
               else False))"

definition is_known_safe_command :: "shell_parser \<Rightarrow> ustr list \<Rightarrow> bool" where
  "is_known_safe_command parser command0 \<longleftrightarrow>
     (let command = map (\<lambda>s. if s = lit ''zsh'' then lit ''bash'' else s) command0
      in if is_safe_to_call_with_exec command then True
         else case parse_shell_lc_plain_commands parser command of
                None \<Rightarrow> False
              | Some all_commands \<Rightarrow> all_commands \<noteq> [] \<and> list_all is_safe_to_call_with_exec all_commands)"

text \<open>On every target but Windows there is no safe list for PowerShell, nor a list of dangers.\<close>

definition is_safe_powershell_words :: "ustr list \<Rightarrow> bool" where
  "is_safe_powershell_words command = False"

definition dangerous_powershell_words_match :: "ustr list \<Rightarrow> dangerous_match option" where
  "dangerous_powershell_words_match command = None"

section \<open>What is dangerous\<close>

definition forced_rm :: "ustr list \<Rightarrow> bool" where
  "forced_rm c \<longleftrightarrow> c \<noteq> [] \<and> executable_name_lookup_key (hd c) = Some (lit ''rm'') \<and> rm_args_include_force_option (tl c)"

text \<open>A command that runs another one, through a number of wrappers.\<close>

inductive runs_within :: "shell_parser \<Rightarrow> nat \<Rightarrow> ustr list \<Rightarrow> ustr list \<Rightarrow> bool" for parser where
  run_itself: "runs_within parser 0 c c"
| run_sudo: "executable_name_lookup_key s = Some (lit ''sudo'') \<Longrightarrow> runs_within parser n args c \<Longrightarrow>
    runs_within parser (Suc n) (s # args) c"
| run_env: "executable_name_lookup_key e = Some (lit ''env'') \<Longrightarrow> runs_within parser n (env_rest args) c \<Longrightarrow>
    runs_within parser (Suc n) (e # args) c"
| run_trap: "executable_name_lookup_key t = Some (lit ''trap'') \<Longrightarrow> trap_action args = Some action \<Longrightarrow>
    runs_within parser n [lit ''sh'', lit ''-c'', action] c \<Longrightarrow> runs_within parser (Suc n) (t # args) c"
| run_script: "parse_shell_lc_literal_commands parser cmd = Some cs \<Longrightarrow> c' \<in> set cs \<Longrightarrow> runs_within parser n c' c \<Longrightarrow>
    runs_within parser (Suc n) cmd c"

lemma wrapper_names_distinct:
  "lit ''sudo'' \<noteq> lit ''rm''" "lit ''env'' \<noteq> lit ''rm''" "lit ''trap'' \<noteq> lit ''rm''"
  "lit ''env'' \<noteq> lit ''sudo''" "lit ''trap'' \<noteq> lit ''sudo''" "lit ''trap'' \<noteq> lit ''env''"
  by simp_all

lemma dangerous_sound:
  "dangerous_command_match_with_depth parser c d = Some m \<Longrightarrow>
     m = ForcedRm \<and> (\<exists>n c'. d + n \<le> 8 \<and> runs_within parser n c c' \<and> forced_rm c')"
  "dangerous_command_match_for_exec parser c d = Some m \<Longrightarrow>
     m = ForcedRm \<and> (\<exists>n c'. (n = 0 \<or> d + n \<le> 8) \<and> runs_within parser n c c' \<and> forced_rm c')"
proof (induction parser c d and parser c d rule: dangerous_command_match_with_depth_dangerous_command_match_for_exec.induct)
  case (1 parser c d)
  have d: "d \<le> 8" using "1.prems"
    by (auto simp: dangerous_command_match_with_depth.simps [of parser c d] MAX_DANGEROUS_COMMAND_WRAPPER_DEPTH_def split: if_splits)
  then have d': "\<not> d > MAX_DANGEROUS_COMMAND_WRAPPER_DEPTH" by (simp add: MAX_DANGEROUS_COMMAND_WRAPPER_DEPTH_def)
  show ?case
  proof (cases "dangerous_command_match_for_exec parser c d")
    case (Some m')
    with "1.prems" d' have "m' = m" by (simp add: dangerous_command_match_with_depth.simps [of parser c d])
    from "1.IH"(1) [OF d'] Some this d show ?thesis by (metis add_0_right)
  next
    case None
    with "1.prems" d' obtain cs where cs: "parse_shell_lc_literal_commands parser c = Some cs"
      and found: "find_map (\<lambda>c. dangerous_command_match_with_depth parser c (d + 1)) cs = Some m"
      by (auto simp: dangerous_command_match_with_depth.simps [of parser c d] split: option.splits)
    from find_map_Some [OF found] obtain x where x: "x \<in> set cs" "dangerous_command_match_with_depth parser x (d + 1) = Some m"
      by blast
    from "1.IH"(2) [OF d' None cs x] obtain n c' where "m = ForcedRm" "d + 1 + n \<le> 8" "runs_within parser n x c'" "forced_rm c'"
      by blast
    then show ?thesis using run_script [OF cs x(1)] by (metis add.assoc plus_1_eq_Suc)
  qed
next
  case (2 parser c d)
  then show ?case
  proof (cases c)
    case (Cons first args)
    note eq = "2.prems" [unfolded Cons dangerous_command_match_for_exec.simps [of parser "first # args" d] list.case]
    let ?key = "executable_name_lookup_key first"
    have step: ?thesis
      if "\<And>c'. runs_within parser n inner c' \<Longrightarrow> runs_within parser (Suc n) c c'"
        and "m = ForcedRm" "d + 1 + n \<le> 8" "runs_within parser n inner c'" "forced_rm c'" for inner n c'
      using that by (metis add.assoc plus_1_eq_Suc)
    consider (rm) "?key = Some (lit ''rm'') \<and> rm_args_include_force_option args"
      | (sudo) "\<not> (?key = Some (lit ''rm'') \<and> rm_args_include_force_option args)" "?key = Some (lit ''sudo'')"
      | (env) "\<not> (?key = Some (lit ''rm'') \<and> rm_args_include_force_option args)" "?key \<noteq> Some (lit ''sudo'')" "?key = Some (lit ''env'')"
      | (trap) "\<not> (?key = Some (lit ''rm'') \<and> rm_args_include_force_option args)" "?key \<noteq> Some (lit ''sudo'')" "?key \<noteq> Some (lit ''env'')"
          "?key = Some (lit ''trap'')"
      using eq by (auto simp del: lit_Cons split: if_splits)
    then show ?thesis
    proof cases
      case rm
      with eq have "m = ForcedRm" by (simp del: lit_Cons)
      moreover have "forced_rm c" using rm Cons by (simp add: forced_rm_def del: lit_Cons)
      ultimately show ?thesis using run_itself by blast
    next
      case sudo
      with eq have "dangerous_command_match_with_depth parser args (d + 1) = Some m" by (simp add: wrapper_names_distinct del: lit_Cons)
      from "2.IH"(1) [OF Cons sudo this] show ?thesis using step run_sudo [OF sudo(2)] Cons by blast
    next
      case env
      with eq have "dangerous_command_match_with_depth parser (env_rest args) (d + 1) = Some m" by (simp add: wrapper_names_distinct del: lit_Cons)
      from "2.IH"(2) [OF Cons env this] show ?thesis using step run_env [OF env(3)] Cons by blast
    next
      case trap
      with eq obtain action where action: "trap_action args = Some action"
        "dangerous_command_match_with_depth parser [lit ''sh'', lit ''-c'', action] (d + 1) = Some m"
        by (auto simp: wrapper_names_distinct simp del: lit_Cons split: option.splits)
      from "2.IH"(3) [OF Cons trap action] show ?thesis using step run_trap [OF trap(4) action(1)] Cons by blast
    qed
  qed (simp add: dangerous_command_match_for_exec.simps)
qed

lemma dangerous_complete:
  assumes "runs_within parser n c c'" "forced_rm c'" "d + n \<le> 8"
  shows "dangerous_command_match_with_depth parser c d \<noteq> None"
  using assms
proof (induction arbitrary: d rule: runs_within.induct)
  case (run_itself c)
  then obtain f args where "c = f # args" "executable_name_lookup_key f = Some (lit ''rm'')" "rm_args_include_force_option args"
    by (cases c) (auto simp: forced_rm_def simp del: lit_Cons)
  with run_itself show ?case
    by (simp add: dangerous_command_match_with_depth.simps [of parser "f # args"] dangerous_command_match_for_exec.simps [of parser "f # args"]
        MAX_DANGEROUS_COMMAND_WRAPPER_DEPTH_def del: lit_Cons)
next
  case (run_sudo s n args c')
  then have "dangerous_command_match_with_depth parser args (Suc d) \<noteq> None" by simp
  with run_sudo.hyps run_sudo.prems(2) show ?case
    by (auto simp: dangerous_command_match_with_depth.simps [of parser "s # args"] dangerous_command_match_for_exec.simps [of parser "s # args"]
        MAX_DANGEROUS_COMMAND_WRAPPER_DEPTH_def wrapper_names_distinct simp del: lit_Cons)
next
  case (run_env e n args c')
  then have "dangerous_command_match_with_depth parser (env_rest args) (Suc d) \<noteq> None" by simp
  with run_env.hyps run_env.prems(2) show ?case
    by (auto simp: dangerous_command_match_with_depth.simps [of parser "e # args"] dangerous_command_match_for_exec.simps [of parser "e # args"]
        MAX_DANGEROUS_COMMAND_WRAPPER_DEPTH_def wrapper_names_distinct simp del: lit_Cons)
next
  case (run_trap t args action n c')
  then have "dangerous_command_match_with_depth parser [lit ''sh'', lit ''-c'', action] (Suc d) \<noteq> None" by (simp del: lit_Cons)
  with run_trap.hyps run_trap.prems(2) show ?case
    by (auto simp: dangerous_command_match_with_depth.simps [of parser "t # args"] dangerous_command_match_for_exec.simps [of parser "t # args"]
        MAX_DANGEROUS_COMMAND_WRAPPER_DEPTH_def wrapper_names_distinct simp del: lit_Cons)
next
  case (run_script cmd cs x n c')
  then have "dangerous_command_match_with_depth parser x (d + 1) \<noteq> None" by simp
  with run_script(2) have "find_map (\<lambda>c. dangerous_command_match_with_depth parser c (d + 1)) cs \<noteq> None"
    by (auto simp: find_map_None)
  with run_script.hyps(1) run_script.prems(2) show ?case
    by (auto simp: dangerous_command_match_with_depth.simps [of parser cmd] MAX_DANGEROUS_COMMAND_WRAPPER_DEPTH_def split: option.splits)
qed

section \<open>Properties: danger\<close>

text \<open>
  a command is reported as dangerous exactly when it runs a forced \<open>rm\<close> through at most eight
  wrappers, each of them \<open>sudo\<close>, \<open>env\<close> with its assignments, a \<open>trap\<close> action or a shell script any of
  whose literal commands leads there; a ninth wrapper hides it. Off Windows no other match is reported.
\<close>

theorem dangerous_exactly_wrapped_forced_rm:
  "dangerous_command_match parser cmd =
     (if \<exists>n c. n \<le> 8 \<and> runs_within parser n cmd c \<and> forced_rm c then Some ForcedRm else None)"
proof (cases "dangerous_command_match parser cmd")
  case None
  then have "\<not> (\<exists>n c. n \<le> 8 \<and> runs_within parser n cmd c \<and> forced_rm c)"
    using dangerous_complete [of parser _ cmd _ 0] by (auto simp: dangerous_command_match_def)
  with None show ?thesis by simp
next
  case (Some m)
  then show ?thesis using dangerous_sound(1) [of parser cmd 0 m] by (auto simp: dangerous_command_match_def)
qed

section \<open>What is safe\<close>

abbreviation unsafe_global :: "ustr \<Rightarrow> bool" where
  "unsafe_global arg \<equiv> git_matches_option_pattern arg UNSAFE_GIT_GLOBAL_OPTIONS"

abbreviation unsafe_subcommand_option :: "ustr \<Rightarrow> bool" where
  "unsafe_subcommand_option arg \<equiv> git_matches_option_pattern arg UNSAFE_GIT_SUBCOMMAND_OPTIONS"

abbreviation git_queries :: "ustr list" where
  "git_queries \<equiv> [lit ''status'', lit ''log'', lit ''diff'', lit ''show'', lit ''branch'']"

text \<open>Every global option with a separate value is on the unsafe list; the inline ones start with a dash.\<close>

lemma option_with_value_unsafe: "is_git_global_option_with_value arg \<Longrightarrow> unsafe_global arg"
  by (auto simp: is_git_global_option_with_value_def git_matches_option_pattern_def UNSAFE_GIT_GLOBAL_OPTIONS_def simp del: lit_Cons)

lemma inline_option_dash: "is_git_global_option_with_inline_value arg \<Longrightarrow> starts_with (lit ''-'') arg"
  by (auto simp: is_git_global_option_with_inline_value_def starts_with_iff)

lemma option_with_value_dash: "is_git_global_option_with_value arg \<Longrightarrow> starts_with (lit ''-'') arg"
  by (auto simp: is_git_global_option_with_value_def starts_with_def)

lemma git_query_no_dash: "sub \<in> set git_queries \<Longrightarrow> \<not> starts_with (lit ''-'') sub"
  by (auto simp: starts_with_def)

lemma branch_name_distinct:
  "lit ''branch'' \<noteq> lit ''status''" "lit ''branch'' \<noteq> lit ''log''" "lit ''branch'' \<noteq> lit ''diff''" "lit ''branch'' \<noteq> lit ''show''"
  by simp_all

lemma git_scan_found:
  "git_subcommand_scan subs skip i args = Some (j, sub) \<Longrightarrow> \<exists>k. j = i + k \<and> k < length args \<and> args ! k = sub \<and> sub \<in> set subs"
proof (induction args arbitrary: skip i)
  case (Cons arg args)
  show ?case
  proof (cases "j = i \<and> arg = sub \<and> sub \<in> set subs")
    case False
    then have "\<exists>skip. git_subcommand_scan subs skip (i + 1) args = Some (j, sub)"
      using Cons.prems by (auto simp del: lit_Cons split: if_splits)
    then obtain k where "j = i + 1 + k" "k < length args" "args ! k = sub" "sub \<in> set subs" using Cons.IH by blast
    then show ?thesis by (intro exI [of _ "Suc k"]) simp
  qed (rule exI [of _ 0], simp)
qed simp

lemma git_scan_prefix:
  assumes "git_subcommand_scan subs False i args = Some (i + k, sub)" "\<forall>a \<in> set (take k args). \<not> unsafe_global a"
  shows "\<forall>a \<in> set (take k args). starts_with (lit ''-'') a"
  using assms
proof (induction args arbitrary: i k)
  case (Cons arg args)
  show ?case
  proof (cases k)
    case (Suc k')
    have arg: "\<not> is_git_global_option_with_value arg" using Cons.prems(2) option_with_value_unsafe Suc by auto
    have "git_subcommand_scan subs False (i + 1) args = Some (i + 1 + k', sub)" and "starts_with (lit ''-'') arg"
      using Cons.prems(1) arg Suc inline_option_dash by (auto simp: starts_with_def simp del: lit_Cons split: if_splits) (simp add: starts_with_def)
    with Cons.IH [of "i + 1" k'] Cons.prems(2) Suc show ?thesis by simp
  qed simp
qed simp

lemma git_scan_skips:
  assumes "\<forall>a \<in> set pre. starts_with (lit ''-'') a \<and> \<not> unsafe_global a" "sub \<in> set git_queries"
  shows "git_subcommand_scan git_queries False i (pre @ sub # post) = Some (i + length pre, sub)"
  using assms(1)
proof (induction pre arbitrary: i)
  case Nil
  have "\<not> starts_with (lit ''-'') sub" using git_query_no_dash [OF assms(2)] .
  moreover have "sub \<noteq> lit ''--''" using assms(2) by auto
  ultimately show ?case using assms(2) inline_option_dash [of sub] option_with_value_dash [of sub]
    by (auto simp del: lit_Cons list.set)
next
  case (Cons a pre)
  then have "\<not> is_git_global_option_with_value a" using option_with_value_unsafe by auto
  with Cons show ?case by (simp del: lit_Cons)
qed

text \<open>Program names that are neither a shell nor a wrapper.\<close>

definition inert_name :: "ustr \<Rightarrow> bool" where
  "inert_name k \<longleftrightarrow> k \<noteq> [] \<and> 46 \<notin> set k \<and> 47 \<notin> set k \<and>
     k \<notin> {lit ''zsh'', lit ''sh'', lit ''bash'', lit ''cmd'', lit ''pwsh'', lit ''powershell''}"

lemma inert_name_components:
  assumes "inert_name k"
  shows "path_components k = [Normal k]" "file_stem_of k = k"
proof -
  have "split_char 47 k = [k]" using assms by (intro split_char_no_sep) (simp add: inert_name_def)
  moreover have "k \<noteq> lit ''.''" "k \<noteq> lit ''..''" "\<not> starts_with (lit ''/'') k"
    using assms by (auto simp: inert_name_def starts_with_iff)
  moreover have "k \<noteq> []" using assms by (simp add: inert_name_def)
  ultimately show "path_components k = [Normal k]"
    by (simp add: path_components_def piece_component_def List.map_filter_simps Let_def del: lit_Cons)
  have "rsplit_once 46 k = None"
  proof (rule ccontr)
    assume "rsplit_once 46 k \<noteq> None"
    then obtain a b where "split_once 46 (rev k) = Some (a, b)" by (auto simp: rsplit_once_def)
    then have "46 \<in> set (rev k)" by (auto simp: split_once_Some_iff)
    with assms show False by (simp add: inert_name_def)
  qed
  then show "file_stem_of k = k" by (simp add: file_stem_of_def)
qed

lemma detect_inert:
  assumes "executable_name_lookup_key s = Some k" "inert_name k"
  shows "detect_shell_type s = None"
proof -
  note k = inert_name_components [OF assms(2)]
  have nk: "detect_shell_type k = None"
    using assms(2) k by (subst detect_shell_type.simps) (simp add: inert_name_def file_stem_def file_name_def del: lit_Cons)
  have plain: "executable_name_lookup_key n = Some n" if "n \<in> {lit ''zsh'', lit ''sh'', lit ''bash'', lit ''cmd'', lit ''pwsh'', lit ''powershell''}" for n
    using that by (auto simp: executable_name_lookup_key_def path_components_def piece_component_def file_name_def
        starts_with_def List.map_filter_simps)
  have "s \<notin> {lit ''zsh'', lit ''sh'', lit ''bash'', lit ''cmd'', lit ''pwsh'', lit ''powershell''}"
    using assms plain [of s] unfolding inert_name_def by auto
  then show ?thesis using assms(1) k nk
    by (subst detect_shell_type.simps) (simp add: executable_name_lookup_key_def file_stem_def del: lit_Cons)
qed

lemma inert_runs_only_itself:
  assumes "runs_within parser n c c'" "c \<noteq> []" "executable_name_lookup_key (hd c) = Some k" "inert_name k"
    and "k \<notin> {lit ''sudo'', lit ''env'', lit ''trap''}"
  shows "c' = c"
  using assms(1)
proof cases
  case (run_script cs x m)
  have "extract_bash_command c = None"
    using detect_inert [OF assms(3,4)] by (auto simp: extract_bash_command_def simp del: lit_Cons split: list.splits)
  with run_script show ?thesis by (simp add: parse_shell_lc_literal_commands_def)
qed (use assms in \<open>auto simp del: lit_Cons\<close>)

lemma safe_exec_name:
  assumes "is_safe_to_call_with_exec c"
  shows "c \<noteq> [] \<and> (\<exists>k. executable_name_lookup_key (hd c) = Some k \<and> inert_name k \<and>
    k \<notin> {lit ''rm'', lit ''sudo'', lit ''env'', lit ''trap''})"
proof -
  obtain cmd0 args k where c: "c = cmd0 # args" "executable_name_lookup_key cmd0 = Some k"
    using assms by (auto simp: is_safe_to_call_with_exec_def simp del: lit_Cons split: list.splits option.splits)
  then have "k \<in> set (lit ''numfmt'' # lit ''tac'' # lit ''base64'' # lit ''find'' # lit ''rg'' # lit ''git'' # lit ''sed'' # SAFE_COMMANDS)"
    using assms by (auto simp: is_safe_to_call_with_exec_def simp del: lit_Cons split: if_splits)
  then have "inert_name k \<and> k \<notin> {lit ''rm'', lit ''sudo'', lit ''env'', lit ''trap''}"
    by (auto simp: SAFE_COMMANDS_def inert_name_def)
  with c show ?thesis by simp
qed

lemma safe_exec_harmless:
  assumes "is_safe_to_call_with_exec c" "d \<noteq> []" "hd d = hd c" "runs_within parser n d c'"
  shows "\<not> forced_rm c'"
proof -
  obtain k where k: "executable_name_lookup_key (hd d) = Some k" "inert_name k" "k \<notin> {lit ''rm'', lit ''sudo'', lit ''env'', lit ''trap''}"
    using safe_exec_name [OF assms(1)] assms(3) by auto
  with inert_runs_only_itself [OF assms(4,2) k(1,2)] have "c' = d" by blast
  with k show ?thesis by (auto simp: forced_rm_def simp del: lit_Cons)
qed

lemma shell_is_no_wrapper:
  assumes "detect_shell_type s \<noteq> None" "k \<in> {lit ''rm'', lit ''sudo'', lit ''env'', lit ''trap''}"
  shows "executable_name_lookup_key s \<noteq> Some k"
proof
  assume "executable_name_lookup_key s = Some k"
  moreover have "inert_name k" using assms(2) by (auto simp: inert_name_def)
  ultimately show False using detect_inert [of s k] assms(1) by simp
qed

lemma ex_inner_second: "(\<exists>a c d. (\<exists>b. P a b c) \<and> Q c d) \<longleftrightarrow> (\<exists>a b c d. P a b c \<and> Q c d)"
  by blast

lemma extract_bash_command_iff:
  "extract_bash_command c = Some (shell, script) \<longleftrightarrow>
     (\<exists>flag. c = [shell, flag, script] \<and> flag \<in> {lit ''-lc'', lit ''-c''} \<and>
        detect_shell_type shell \<in> {Some Zsh, Some Bash, Some Sh})"
  by (auto simp: extract_bash_command_def simp del: lit_Cons split: list.splits)

text \<open>The check's rewriting of \<open>zsh\<close> leaves a shell invocation one of the same script.\<close>

lemma extract_bash_command_zsh:
  assumes "extract_bash_command (map (\<lambda>s. if s = lit ''zsh'' then lit ''bash'' else s) command) = Some (shell, script)"
    and "lit ''zsh'' \<notin> set (drop 2 command)"
  shows "\<exists>shell'. extract_bash_command command = Some (shell', script)"
proof -
  let ?f = "\<lambda>s. if s = lit ''zsh'' then lit ''bash'' else s"
  obtain flag where map: "map ?f command = [shell, flag, script]" and flag: "flag \<in> {lit ''-lc'', lit ''-c''}"
    and shell: "detect_shell_type shell \<in> {Some Zsh, Some Bash, Some Sh}"
    using assms(1) unfolding extract_bash_command_iff by (elim exE conjE) (rule that)
  have three: "\<exists>a b c. xs = [a, b, c] \<and> f a = x \<and> f b = y \<and> f c = z" if "map f xs = [x, y, z]"
    for f :: "ustr \<Rightarrow> ustr" and xs x y z using that by (auto simp: map_eq_Cons_conv)
  from three [OF map] obtain a b c where abc: "command = [a, b, c]" "?f a = shell" "?f b = flag" "?f c = script" by blast
  have c: "c = script" using abc(1,4) assms(2) by (simp del: lit_Cons split: if_splits)
  have "lit ''bash'' \<notin> {lit ''-lc'', lit ''-c''}" by simp
  with abc(3) flag have "b \<in> {lit ''-lc'', lit ''-c''}" by (auto simp del: lit_Cons split: if_splits)
  moreover have "detect_shell_type (lit ''zsh'') = Some Zsh" by (subst detect_shell_type.simps) simp
  then have "detect_shell_type a \<in> {Some Zsh, Some Bash, Some Sh}" using abc(2) shell by (auto simp del: lit_Cons split: if_splits)
  ultimately show ?thesis using abc(1) c by (simp add: extract_bash_command_iff del: lit_Cons)
qed

lemma safe_script_harmless:
  assumes "extract_bash_command command = Some (shell, script)" "parser script = Some root"
    and "plain_script is_safe_to_call_with_exec root" "\<And>n. n \<in> set (descendants root) \<Longrightarrow> is_command n \<Longrightarrow> name_before_words n"
    and "runs_within parser m command c"
  shows "\<not> forced_rm c"
proof -
  obtain flag where command: "command = [shell, flag, script]" and "detect_shell_type shell \<noteq> None"
    using assms(1) by (auto simp: extract_bash_command_iff simp del: lit_Cons)
  then have key: "executable_name_lookup_key shell \<noteq> Some k" if "k \<in> {lit ''rm'', lit ''sudo'', lit ''env'', lit ''trap''}" for k
    using shell_is_no_wrapper that by blast
  from assms(5) show ?thesis
  proof cases
    case run_itself
    then show ?thesis using key [of "lit ''rm''"] command by (simp add: forced_rm_def del: lit_Cons)
  next
    case (run_script cs x j)
    then have "x \<in> set (collect_literal_commands [root] [])"
      using assms(1,2) by (auto simp: parse_shell_lc_literal_commands_def simp del: collect_literal_commands.simps split: if_splits)
    then obtain n where n: "named_below root n" "is_command n" "parse_literal_command_from_node n = Some x"
      by (auto simp: collect_literal_commands_iff simp del: collect_literal_commands.simps)
    then have desc: "n \<in> set (descendants root)" using named_below_descendant by blast
    then obtain ws where ws: "parse_plain_command_from_node n = Some ws" "is_safe_to_call_with_exec ws"
      using assms(3) n(2) by (auto simp: plain_script_def)
    obtain w ws' where "ws = w # ws'" using safe_exec_name [OF ws(2)] by (cases ws) auto
    moreover from this obtain x' where "x = w # x'" using parse_plain_nonempty [of n w ws' x] ws(1) n(3) assms(4) [OF desc n(2)] by blast
    ultimately show ?thesis using safe_exec_harmless [OF ws(2) _ _ run_script(4)] by simp
  qed (use key command in \<open>auto simp del: lit_Cons\<close>)
qed

text \<open>The syntax tree of the script \<open>ls\<close>, for examples.\<close>

definition ls_command :: node where
  "ls_command = Node (lit ''command'') True 0 None False
     [Node (lit ''command_name'') True 0 None False [Node (lit ''word'') True 0 (Some (lit ''ls'')) False []]]"

definition ls_script :: node where
  "ls_script = Node (lit ''program'') True 0 None False [ls_command]"

text \<open>The tree of the script \<open>A=1 ls\<close>, whose command begins with an assignment.\<close>

definition assigning_script :: node where
  "assigning_script = Node (lit ''program'') True 0 None False
     [Node (lit ''command'') True 0 None False
       [Node (lit ''variable_assignment'') True 0 (Some (lit ''A=1'')) False [],
        Node (lit ''command_name'') True 4 None False [Node (lit ''word'') True 4 (Some (lit ''ls'')) False []]]]"

lemma sample_scripts_name_before_words:
  "n \<in> set (descendants ls_script) \<Longrightarrow> is_command n \<Longrightarrow> n = ls_command \<and> name_before_words n"
  "n \<in> set (descendants assigning_script) \<Longrightarrow> is_command n \<Longrightarrow> name_before_words n"
  by (auto simp: ls_script_def ls_command_def assigning_script_def is_command_def name_before_words_def named_children_def WORD_KINDS_def)

lemma ls_script_plain: "plain_script is_safe_to_call_with_exec ls_script"
proof -
  have "executable_name_lookup_key (lit ''ls'') = Some (lit ''ls'')"
    by (simp add: executable_name_lookup_key_def path_components_def piece_component_def file_name_def
        starts_with_def List.map_filter_simps)
  then have "is_safe_to_call_with_exec [lit ''ls'']" by (simp add: is_safe_to_call_with_exec_def SAFE_COMMANDS_def)
  moreover have "parse_plain_command_from_node ls_command = Some [lit ''ls'']"
    by (simp add: ls_command_def parse_plain_command_from_node_def is_command_def named_children_def parse_plain_word_def first_named_def)
  moreover have "\<forall>n \<in> set (descendants ls_script). node_allowed n" "\<not> has_error ls_script"
    by (simp_all add: ls_script_def ls_command_def node_allowed_def ALLOWED_KINDS_def)
  moreover have "is_command ls_command" "ls_command \<in> set (descendants ls_script)"
    by (simp_all add: ls_script_def ls_command_def is_command_def)
  ultimately show ?thesis unfolding plain_script_def using sample_scripts_name_before_words(1) by metis
qed

section \<open>Properties: safety\<close>

text \<open>
  C30: a \<open>git\<close> invocation is accepted as safe exactly when it is the program \<open>git\<close>, followed by options
  none of which is on the list of unsafe global options (so no option that takes a separate value
  can hide the real subcommand), then one of the five queries, then arguments without an option
  that writes files or runs programs; for \<open>branch\<close> these must be listing flags only.
\<close>

theorem safe_git_exact:
  "is_safe_git_command command \<longleftrightarrow>
     (\<exists>git pre sub post. command = git # pre @ sub # post \<and>
        executable_name_lookup_key git = Some (lit ''git'') \<and>
        (\<forall>a \<in> set pre. starts_with (lit ''-'') a \<and> \<not> unsafe_global a) \<and>
        sub \<in> set git_queries \<and>
        (\<forall>a \<in> set post. \<not> unsafe_subcommand_option a) \<and>
        (sub = lit ''branch'' \<longrightarrow> (\<forall>a \<in> set post. branch_read_only_flag a)))"
  (is "_ \<longleftrightarrow> ?spec")
proof -
  have branch: "git_branch_is_read_only args \<longleftrightarrow> (\<forall>a \<in> set args. branch_read_only_flag a)" for args
  proof -
    have "branch_scan True args \<longleftrightarrow> (\<forall>a \<in> set args. branch_read_only_flag a)" for args
      by (induction args) auto
    then show ?thesis by (cases args) (auto simp: git_branch_is_read_only_def)
  qed
  show ?thesis
  proof
    assume safe: "is_safe_git_command command"
    then obtain j sub where found: "find_git_subcommand command git_queries = Some (j, sub)"
      by (auto simp: is_safe_git_command_def simp del: lit_Cons split: option.splits)
    then obtain git args where command: "command = git # args" and git: "executable_name_lookup_key git = Some (lit ''git'')"
      and scan: "git_subcommand_scan git_queries False 1 args = Some (j, sub)"
      by (auto simp: find_git_subcommand_def simp del: lit_Cons split: list.splits if_splits)
    from git_scan_found [OF scan] obtain k where k: "j = 1 + k" "k < length args" "args ! k = sub" "sub \<in> set git_queries" by blast
    have args: "args = take k args @ sub # drop (Suc k) args" using id_take_nth_drop [OF k(2)] k(3) by simp
    have global: "\<not> git_has_unsafe_global_option (take k args)"
      and post: "git_subcommand_args_are_read_only (drop (Suc k) args)"
      and br: "sub = lit ''branch'' \<Longrightarrow> git_branch_is_read_only (drop (Suc k) args)"
      using safe found k(1) command
      by (auto simp: is_safe_git_command_def Let_def branch_name_distinct simp del: lit_Cons split: if_splits)
    have "\<forall>a \<in> set (take k args). \<not> unsafe_global a"
      using global by (auto simp: git_has_unsafe_global_option_def list_ex_iff simp del: lit_Cons)
    moreover from this have "\<forall>a \<in> set (take k args). starts_with (lit ''-'') a"
      using git_scan_prefix scan k(1) by blast
    moreover have "\<forall>a \<in> set (drop (Suc k) args). \<not> unsafe_subcommand_option a"
      using post by (auto simp: git_subcommand_args_are_read_only_def list_ex_iff)
    ultimately show ?spec using args command git k(4) br branch by metis
  next
    assume ?spec
    then obtain git pre sub post where command: "command = git # pre @ sub # post"
      and git: "executable_name_lookup_key git = Some (lit ''git'')"
      and pre: "\<forall>a \<in> set pre. starts_with (lit ''-'') a \<and> \<not> unsafe_global a" and sub: "sub \<in> set git_queries"
      and post: "\<forall>a \<in> set post. \<not> unsafe_subcommand_option a"
      and br: "sub = lit ''branch'' \<longrightarrow> (\<forall>a \<in> set post. branch_read_only_flag a)" by blast
    have "find_git_subcommand command git_queries = Some (1 + length pre, sub)"
      using git_scan_skips [OF pre sub] git by (simp add: find_git_subcommand_def command del: lit_Cons list.set)
    moreover have "\<not> git_has_unsafe_global_option pre" using pre by (auto simp: git_has_unsafe_global_option_def list_ex_iff)
    moreover have "git_subcommand_args_are_read_only post"
      using post by (auto simp: git_subcommand_args_are_read_only_def list_ex_iff)
    ultimately show "is_safe_git_command command" using sub br
      by (auto simp: is_safe_git_command_def Let_def command branch simp del: lit_Cons)
  qed
qed

theorem safe_git_exact_witness:
  "is_safe_git_command [lit ''git'', lit ''--no-pager'', lit ''log'', lit ''-3''] \<and>
   \<not> is_safe_git_command [lit ''git'', lit ''-c'', lit ''x'', lit ''log'']"
proof
  have git: "executable_name_lookup_key (lit ''git'') = Some (lit ''git'')"
    by (simp add: executable_name_lookup_key_def path_components_def piece_component_def file_name_def
        starts_with_def List.map_filter_simps)
  show "is_safe_git_command [lit ''git'', lit ''--no-pager'', lit ''log'', lit ''-3'']"
    unfolding safe_git_exact
    by (rule exI [of _ "lit ''git''"], rule exI [of _ "[lit ''--no-pager'']"], rule exI [of _ "lit ''log''"],
        rule exI [of _ "[lit ''-3'']"])
       (simp add: git [simplified] starts_with_def git_matches_option_pattern_def UNSAFE_GIT_GLOBAL_OPTIONS_def UNSAFE_GIT_SUBCOMMAND_OPTIONS_def)
  show "\<not> is_safe_git_command [lit ''git'', lit ''-c'', lit ''x'', lit ''log'']"
    using git by (simp add: is_safe_git_command_def find_git_subcommand_def is_git_global_option_with_inline_value_def
        is_git_global_option_with_value_def starts_with_def len_utf8_def git_has_unsafe_global_option_def
        git_matches_option_pattern_def UNSAFE_GIT_GLOBAL_OPTIONS_def)
qed

text \<open>
  a command is run without asking only if it is itself a known safe call, or if it is a shell
  invocation \<open>sh -c\<close> or \<open>-lc\<close> of a script that parses without an error, whose syntax tree has nothing
  but words, quoted strings, pipelines and the listed operators (no redirection, substitution,
  expansion, background job or control flow anywhere), and every one of whose commands is a plain
  sequence of literal words that is a known safe call; there is at least one. The converse holds too.
\<close>

theorem safe_command_exact:
  "is_known_safe_command parser command \<longleftrightarrow>
     (let command' = map (\<lambda>s. if s = lit ''zsh'' then lit ''bash'' else s) command
      in is_safe_to_call_with_exec command' \<or>
         (\<exists>shell flag script root. command' = [shell, flag, script] \<and> flag \<in> {lit ''-lc'', lit ''-c''} \<and>
            detect_shell_type shell \<in> {Some Zsh, Some Bash, Some Sh} \<and> parser script = Some root \<and>
            \<not> has_error root \<and> (\<forall>n \<in> set (descendants root). node_allowed n) \<and>
            (\<exists>n \<in> set (descendants root). is_command n) \<and>
            (\<forall>n \<in> set (descendants root). is_command n \<longrightarrow>
               (\<exists>ws. parse_plain_command_from_node n = Some ws \<and> is_safe_to_call_with_exec ws))))"
proof -
  let ?command = "map (\<lambda>s. if s = lit ''zsh'' then lit ''bash'' else s) command"
  have "is_known_safe_command parser command \<longleftrightarrow> is_safe_to_call_with_exec ?command \<or>
      (\<exists>cs. parse_shell_lc_plain_commands parser ?command = Some cs \<and> cs \<noteq> [] \<and> list_all is_safe_to_call_with_exec cs)"
    by (simp add: is_known_safe_command_def Let_def del: lit_Cons split: option.split)
  also have "\<dots> \<longleftrightarrow> is_safe_to_call_with_exec ?command \<or>
      (\<exists>shell script root. extract_bash_command ?command = Some (shell, script) \<and> parser script = Some root \<and>
         (\<exists>cs. try_parse_word_only_commands_sequence root = Some cs \<and> cs \<noteq> [] \<and> list_all is_safe_to_call_with_exec cs))"
    unfolding parse_shell_lc_plain_commands_def parse_shell_script_into_commands_def
    by (auto simp: bind_eq_Some_conv simp del: lit_Cons)
  finally show ?thesis
    unfolding Let_def try_parse_plain_iff extract_bash_command_iff plain_script_def ex_inner_second conj_assoc .
qed

theorem safe_command_exact_witness:
  "is_known_safe_command (\<lambda>s. if s = lit ''ls'' then Some ls_script else None) [lit ''zsh'', lit ''-lc'', lit ''ls'']"
proof -
  have shell: "detect_shell_type (lit ''bash'') = Some Bash" by (subst detect_shell_type.simps) simp
  have shell_args: "map (\<lambda>s. if s = lit ''zsh'' then lit ''bash'' else s) [lit ''zsh'', lit ''-lc'', lit ''ls''] =
      [lit ''bash'', lit ''-lc'', lit ''ls'']" by simp
  show ?thesis
    unfolding safe_command_exact Let_def shell_args
    using ls_script_plain [unfolded plain_script_def] shell
    by (intro disjI2 exI [of _ "lit ''bash''"] exI [of _ "lit ''-lc''"] exI [of _ "lit ''ls''"] exI [of _ ls_script])
       (simp del: lit_Cons)
qed



end
