(* ===== verification/Paste_Burst.thy ===== *)
theory Paste_Burst
  imports Prelude
begin

text \<open>
  The paste-burst detector of the terminal composer, \<open>tui/src/bottom_pane/paste_burst.rs\<close>. An
  \<open>Instant\<close> is a number of nanoseconds; \<open>duration_since\<close> saturates at zero, so it is subtraction
  on naturals. The burst counter is a \<open>u16\<close>. The contract the module documents for its callers is
  a small machine over key events; the theorems say that what is typed is neither lost nor
  reordered under it, and where that fails.
\<close>

section \<open>\<open>paste_burst.rs\<close>\<close>

definition from_millis :: "nat \<Rightarrow> nat" where
  "from_millis n = n * 1000000"

definition PASTE_BURST_MIN_CHARS :: nat where
  "PASTE_BURST_MIN_CHARS = 3"

definition PASTE_ENTER_SUPPRESS_WINDOW :: nat where
  "PASTE_ENTER_SUPPRESS_WINDOW = from_millis 120"

definition PASTE_BURST_CHAR_INTERVAL :: nat where
  "PASTE_BURST_CHAR_INTERVAL = from_millis 8"

definition PASTE_BURST_ACTIVE_IDLE_TIMEOUT :: nat where
  "PASTE_BURST_ACTIVE_IDLE_TIMEOUT = from_millis 8"

type_synonym instant = nat

record paste_burst =
  last_plain_char_time :: "instant option"
  consecutive_plain_char_burst :: nat
  burst_window_until :: "instant option"
  buffer :: ustr
  active :: bool
  pending_first_char :: "(uchar \<times> instant) option"

definition paste_burst_default :: paste_burst where
  "paste_burst_default = \<lparr>last_plain_char_time = None, consecutive_plain_char_burst = 0, burst_window_until = None,
     buffer = [], active = False, pending_first_char = None\<rparr>"

datatype char_decision = BeginBuffer nat | BufferAppend | RetainFirstChar | BeginBufferFromPending

record retro_grab =
  start_byte :: nat
  grabbed :: ustr

datatype flush_result = Paste ustr | Typed uchar | NoFlush

definition recommended_flush_delay :: nat where
  "recommended_flush_delay = PASTE_BURST_CHAR_INTERVAL + from_millis 1"

definition is_active_internal :: "paste_burst \<Rightarrow> bool" where
  "is_active_internal b \<longleftrightarrow> active b \<or> buffer b \<noteq> []"

definition is_active :: "paste_burst \<Rightarrow> bool" where
  "is_active b \<longleftrightarrow> is_active_internal b \<or> pending_first_char b \<noteq> None"

definition extend_window :: "instant \<Rightarrow> paste_burst \<Rightarrow> paste_burst" where
  "extend_window now b = b\<lparr>burst_window_until := Some (now + PASTE_ENTER_SUPPRESS_WINDOW)\<rparr>"

definition u16_saturating_add :: "nat \<Rightarrow> nat \<Rightarrow> nat" where
  "u16_saturating_add a b = min (2 ^ 16 - 1) (a + b)"

definition note_plain_char :: "instant \<Rightarrow> paste_burst \<Rightarrow> paste_burst" where
  "note_plain_char now b =
     (let n = (case last_plain_char_time b of
                 Some prev \<Rightarrow>
                   if now - prev \<le> PASTE_BURST_CHAR_INTERVAL then u16_saturating_add (consecutive_plain_char_burst b) 1 else 1
               | None \<Rightarrow> 1)
      in b\<lparr>consecutive_plain_char_burst := n, last_plain_char_time := Some now\<rparr>)"

definition held_fast :: "instant \<Rightarrow> paste_burst \<Rightarrow> uchar option" where
  "held_fast now b =
     (case pending_first_char b of
        Some (held, held_at) \<Rightarrow> if now - held_at \<le> PASTE_BURST_CHAR_INTERVAL then Some held else None
      | None \<Rightarrow> None)"

definition on_plain_char :: "uchar \<Rightarrow> instant \<Rightarrow> paste_burst \<Rightarrow> char_decision \<times> paste_burst" where
  "on_plain_char ch now b0 =
     (let b = note_plain_char now b0
      in if active b then (BufferAppend, extend_window now b)
         else case held_fast now b of
           Some held \<Rightarrow>
             (BeginBufferFromPending,
              extend_window now (b\<lparr>active := True, pending_first_char := None, buffer := buffer b @ [held]\<rparr>))
         | None \<Rightarrow>
             if consecutive_plain_char_burst b \<ge> PASTE_BURST_MIN_CHARS
             then (BeginBuffer (consecutive_plain_char_burst b - 1), b)
             else (RetainFirstChar, b\<lparr>pending_first_char := Some (ch, now)\<rparr>))"

definition on_plain_char_no_hold :: "instant \<Rightarrow> paste_burst \<Rightarrow> char_decision option \<times> paste_burst" where
  "on_plain_char_no_hold now b0 =
     (let b = note_plain_char now b0
      in if active b then (Some BufferAppend, extend_window now b)
         else if consecutive_plain_char_burst b \<ge> PASTE_BURST_MIN_CHARS
         then (Some (BeginBuffer (consecutive_plain_char_burst b - 1)), b)
         else (None, b))"

definition flush_if_due :: "instant \<Rightarrow> paste_burst \<Rightarrow> flush_result \<times> paste_burst" where
  "flush_if_due now b =
     (let timeout = (if is_active_internal b then PASTE_BURST_ACTIVE_IDLE_TIMEOUT else PASTE_BURST_CHAR_INTERVAL);
          timed_out = (case last_plain_char_time b of Some t \<Rightarrow> now - t > timeout | None \<Rightarrow> False)
      in if timed_out \<and> is_active_internal b then (Paste (buffer b), b\<lparr>active := False, buffer := []\<rparr>)
         else if timed_out
         then (case pending_first_char b of
                 Some (ch, _) \<Rightarrow> (Typed ch, b\<lparr>pending_first_char := None\<rparr>)
               | None \<Rightarrow> (NoFlush, b))
         else (NoFlush, b))"

definition append_newline_if_active :: "instant \<Rightarrow> paste_burst \<Rightarrow> bool \<times> paste_burst" where
  "append_newline_if_active now b =
     (if is_active b then (True, extend_window now (b\<lparr>buffer := buffer b @ [newline]\<rparr>)) else (False, b))"

definition newline_should_insert_instead_of_submit :: "instant \<Rightarrow> paste_burst \<Rightarrow> bool" where
  "newline_should_insert_instead_of_submit now b \<longleftrightarrow>
     is_active b \<or> (case burst_window_until b of Some until \<Rightarrow> now \<le> until | None \<Rightarrow> False)"

definition direct_insert_newline_should_insert :: "instant \<Rightarrow> paste_burst \<Rightarrow> bool" where
  "direct_insert_newline_should_insert now b \<longleftrightarrow>
     newline_should_insert_instead_of_submit now b \<or>
     (case last_plain_char_time b of Some t \<Rightarrow> now - t \<le> PASTE_BURST_CHAR_INTERVAL | None \<Rightarrow> False)"

definition begin_with_retro_grabbed :: "ustr \<Rightarrow> instant \<Rightarrow> paste_burst \<Rightarrow> paste_burst" where
  "begin_with_retro_grabbed g now b =
     extend_window now ((if g \<noteq> [] then b\<lparr>buffer := buffer b @ g\<rparr> else b)\<lparr>active := True\<rparr>)"

definition append_char_to_buffer :: "uchar \<Rightarrow> instant \<Rightarrow> paste_burst \<Rightarrow> paste_burst" where
  "append_char_to_buffer ch now b = extend_window now (b\<lparr>buffer := buffer b @ [ch]\<rparr>)"

definition try_append_char_if_active :: "uchar \<Rightarrow> instant \<Rightarrow> paste_burst \<Rightarrow> bool \<times> paste_burst" where
  "try_append_char_if_active ch now b =
     (if active b \<or> buffer b \<noteq> [] then (True, append_char_to_buffer ch now b) else (False, b))"

text \<open>The index of the character \<open>retro_chars\<close> from the end, 0 when there are not so many.\<close>

definition retro_start_index :: "ustr \<Rightarrow> nat \<Rightarrow> nat" where
  "retro_start_index before retro_chars =
     (if retro_chars = 0 then byte_len before
      else if retro_chars - 1 < length before then byte_len (take (length before - 1 - (retro_chars - 1)) before)
      else 0)"

text \<open>\<open>None\<close> would be a panic of the slice.\<close>

definition decide_begin_buffer :: "instant \<Rightarrow> ustr \<Rightarrow> nat \<Rightarrow> paste_burst \<Rightarrow> (retro_grab option \<times> paste_burst) option" where
  "decide_begin_buffer now before retro_chars b =
     (let start = retro_start_index before retro_chars
      in case split_at_byte start before of
           None \<Rightarrow> None
         | Some (_, g) \<Rightarrow>
             let looks_pastey = (list_ex is_whitespace g \<or> length g \<ge> 16)
             in if looks_pastey
                then Some (Some \<lparr>start_byte = start, grabbed = g\<rparr>, begin_with_retro_grabbed g now b)
                else Some (None, b))"

definition flush_before_modified_input :: "paste_burst \<Rightarrow> ustr option \<times> paste_burst" where
  "flush_before_modified_input b =
     (if \<not> is_active b then (None, b)
      else
        let b1 = b\<lparr>active := False, buffer := []\<rparr>
        in case pending_first_char b1 of
             Some (ch, _) \<Rightarrow> (Some (buffer b @ [ch]), b1\<lparr>pending_first_char := None\<rparr>)
           | None \<Rightarrow> (Some (buffer b), b1))"

definition clear_window_after_non_char :: "paste_burst \<Rightarrow> paste_burst" where
  "clear_window_after_non_char b =
     b\<lparr>consecutive_plain_char_burst := 0, last_plain_char_time := None, burst_window_until := None, active := False,
       pending_first_char := None\<rparr>"

definition clear_after_explicit_paste :: "paste_burst \<Rightarrow> paste_burst" where
  "clear_after_explicit_paste b =
     b\<lparr>last_plain_char_time := None, consecutive_plain_char_burst := 0, burst_window_until := None, active := False,
       buffer := [], pending_first_char := None\<rparr>"

section \<open>The contract with callers\<close>

text \<open>
  A caller as the module documents it: \<open>shown\<close> is the text before the cursor and \<open>sent\<close> the
  messages submitted. A flushed paste is inserted and then clears the detector; a due flush is
  applied before every key; a modified key flushes and resets the detector.
\<close>

datatype key = AsciiKey uchar | OtherKey uchar | EnterKey | ModifiedKey | TickEvent

record composer =
  burst :: paste_burst
  shown :: ustr
  sent :: "ustr list"

definition insert_text :: "ustr \<Rightarrow> composer \<Rightarrow> composer" where
  "insert_text t c = c\<lparr>shown := shown c @ t\<rparr>"

definition paste_text :: "ustr \<Rightarrow> composer \<Rightarrow> composer" where
  "paste_text t c = (insert_text t c)\<lparr>burst := clear_after_explicit_paste (burst c)\<rparr>"

definition apply_due_flush :: "instant \<Rightarrow> composer \<Rightarrow> composer" where
  "apply_due_flush now c =
     (case flush_if_due now (burst c) of
        (Paste t, b) \<Rightarrow> paste_text t (c\<lparr>burst := b\<rparr>)
      | (Typed ch, b) \<Rightarrow> insert_text [ch] (c\<lparr>burst := b\<rparr>)
      | (NoFlush, b) \<Rightarrow> c\<lparr>burst := b\<rparr>)"

definition apply_flush :: "composer \<Rightarrow> composer" where
  "apply_flush c =
     (case flush_before_modified_input (burst c) of
        (Some t, b) \<Rightarrow> paste_text t (c\<lparr>burst := b\<rparr>)
      | (None, b) \<Rightarrow> c\<lparr>burst := b\<rparr>)"

text \<open>Retroactive capture: \<open>None\<close> is a panic; otherwise the grabbed text is taken back from the shown text.\<close>

definition begin_buffer :: "uchar \<Rightarrow> instant \<Rightarrow> nat \<Rightarrow> composer \<Rightarrow> composer option" where
  "begin_buffer ch now retro_chars c =
     (case decide_begin_buffer now (shown c) retro_chars (burst c) of
        None \<Rightarrow> None
      | Some (None, b) \<Rightarrow> Some (insert_text [ch] (apply_flush (c\<lparr>burst := b\<rparr>)))
      | Some (Some g, b) \<Rightarrow>
          (case split_at_byte (start_byte g) (shown c) of
             None \<Rightarrow> None
           | Some (keep, _) \<Rightarrow> Some (c\<lparr>burst := append_char_to_buffer ch now b, shown := keep\<rparr>)))"

fun handle_key :: "key \<Rightarrow> instant \<Rightarrow> composer \<Rightarrow> composer option" where
  "handle_key (AsciiKey ch) now c0 =
     (let c = apply_due_flush now c0
      in case on_plain_char ch now (burst c) of
           (BufferAppend, b) \<Rightarrow> Some (c\<lparr>burst := append_char_to_buffer ch now b\<rparr>)
         | (BeginBufferFromPending, b) \<Rightarrow> Some (c\<lparr>burst := append_char_to_buffer ch now b\<rparr>)
         | (RetainFirstChar, b) \<Rightarrow> Some (c\<lparr>burst := b\<rparr>)
         | (BeginBuffer n, b) \<Rightarrow> begin_buffer ch now n (c\<lparr>burst := b\<rparr>))"
| "handle_key (OtherKey ch) now c0 =
     (let c = apply_due_flush now c0
      in case try_append_char_if_active ch now (burst c) of
           (True, b) \<Rightarrow> Some (c\<lparr>burst := b\<rparr>)
         | (False, b) \<Rightarrow>
             let c1 = apply_flush (c\<lparr>burst := b\<rparr>)
             in case on_plain_char_no_hold now (burst c1) of
                  (Some (BeginBuffer n), b1) \<Rightarrow> begin_buffer ch now n (c1\<lparr>burst := b1\<rparr>)
                | (Some _, b1) \<Rightarrow> Some (c1\<lparr>burst := append_char_to_buffer ch now b1\<rparr>)
                | (None, b1) \<Rightarrow> Some (insert_text [ch] (apply_flush (c1\<lparr>burst := b1\<rparr>))))"
| "handle_key EnterKey now c =
     (case append_newline_if_active now (burst c) of
        (True, b) \<Rightarrow> Some (c\<lparr>burst := b\<rparr>)
      | (False, b) \<Rightarrow>
          if newline_should_insert_instead_of_submit now b
          then Some ((insert_text [newline] c)\<lparr>burst := extend_window now b\<rparr>)
          else Some (c\<lparr>sent := sent c @ [shown c], shown := []\<rparr>))"
| "handle_key ModifiedKey now c =
     (let c1 = apply_flush (apply_due_flush now c) in Some (c1\<lparr>burst := clear_window_after_non_char (burst c1)\<rparr>))"
| "handle_key TickEvent now c = Some (apply_due_flush now c)"

fun run_keys :: "(key \<times> instant) list \<Rightarrow> composer \<Rightarrow> composer option" where
  "run_keys [] c = Some c"
| "run_keys ((k, now) # ks) c = (case handle_key k now c of None \<Rightarrow> None | Some c' \<Rightarrow> run_keys ks c')"

definition composer_new :: composer where
  "composer_new = \<lparr>burst = paste_burst_default, shown = [], sent = []\<rparr>"

section \<open>What has been typed\<close>

fun typed :: "key \<Rightarrow> ustr" where
  "typed (AsciiKey ch) = [ch]"
| "typed (OtherKey ch) = [ch]"
| "typed EnterKey = [newline]"
| "typed _ = []"

definition held :: "paste_burst \<Rightarrow> ustr" where
  "held b = (case pending_first_char b of Some (ch, _) \<Rightarrow> [ch] | None \<Rightarrow> [])"

definition visible :: "composer \<Rightarrow> ustr" where
  "visible c = concat (map (\<lambda>m. m @ [newline]) (sent c)) @ shown c"

definition log_of :: "composer \<Rightarrow> ustr" where
  "log_of c = visible c @ buffer (burst c) @ held (burst c)"

text \<open>The invariant of the detector while no newline has been appended behind a held character.\<close>

definition burst_ok :: "paste_burst \<Rightarrow> bool" where
  "burst_ok b \<longleftrightarrow> (\<not> active b \<longrightarrow> buffer b = []) \<and> (active b \<longrightarrow> last_plain_char_time b \<noteq> None) \<and>
     (\<forall>ch at. pending_first_char b = Some (ch, at) \<longrightarrow> \<not> active b \<and> last_plain_char_time b = Some at)"

text \<open>Under the invariant the detector is idle, holds one character, or collects a burst.\<close>

definition idle :: "paste_burst \<Rightarrow> bool" where
  "idle b \<longleftrightarrow> \<not> active b \<and> buffer b = [] \<and> pending_first_char b = None"

definition holding :: "uchar \<Rightarrow> instant \<Rightarrow> paste_burst \<Rightarrow> bool" where
  "holding ch at b \<longleftrightarrow> \<not> active b \<and> buffer b = [] \<and> pending_first_char b = Some (ch, at) \<and> last_plain_char_time b = Some at"

definition bursting :: "instant \<Rightarrow> paste_burst \<Rightarrow> bool" where
  "bursting t b \<longleftrightarrow> active b \<and> pending_first_char b = None \<and> last_plain_char_time b = Some t"

lemma burst_ok_iff: "burst_ok b \<longleftrightarrow> idle b \<or> (\<exists>ch at. holding ch at b) \<or> (\<exists>t. bursting t b)"
  by (cases "pending_first_char b") (auto simp: burst_ok_def idle_def holding_def bursting_def)

lemmas phase_defs = idle_def holding_def bursting_def

lemma due_flush_idle: "idle (burst c) \<Longrightarrow> apply_due_flush now c = c"
  by (auto simp: apply_due_flush_def flush_if_due_def is_active_internal_def idle_def split: option.splits)

lemma due_flush_holding:
  "holding ch at (burst c) \<Longrightarrow> apply_due_flush now c =
     (if now - at > PASTE_BURST_CHAR_INTERVAL then insert_text [ch] (c\<lparr>burst := (burst c)\<lparr>pending_first_char := None\<rparr>\<rparr>) else c)"
  by (auto simp: apply_due_flush_def flush_if_due_def is_active_internal_def holding_def)

lemma due_flush_bursting:
  "bursting t (burst c) \<Longrightarrow> apply_due_flush now c =
     (if now - t > PASTE_BURST_CHAR_INTERVAL
      then paste_text (buffer (burst c)) (c\<lparr>burst := (burst c)\<lparr>active := False, buffer := []\<rparr>\<rparr>) else c)"
  by (auto simp: apply_due_flush_def flush_if_due_def is_active_internal_def bursting_def Let_def
      PASTE_BURST_ACTIVE_IDLE_TIMEOUT_def PASTE_BURST_CHAR_INTERVAL_def)

lemma idle_clear [simp]: "idle (clear_after_explicit_paste b)"
  by (simp add: idle_def clear_after_explicit_paste_def)

lemma phase_parts:
  "idle b \<Longrightarrow> held b = [] \<and> buffer b = []" "holding ch at b \<Longrightarrow> held b = [ch] \<and> buffer b = [] \<and> last_plain_char_time b = Some at"
  "bursting t b \<Longrightarrow> held b = [] \<and> last_plain_char_time b = Some t"
  by (simp_all add: held_def phase_defs)

lemma burst_okI: "idle b \<Longrightarrow> burst_ok b" "holding ch at b \<Longrightarrow> burst_ok b" "bursting t b \<Longrightarrow> burst_ok b"
  by (auto simp: burst_ok_iff)

lemmas log_defs = log_of_def visible_def paste_text_def insert_text_def

lemma due_flush_ok:
  assumes "burst_ok (burst c)"
  shows "burst_ok (burst (apply_due_flush now c)) \<and> log_of (apply_due_flush now c) = log_of c \<and>
    (\<forall>ch at. holding ch at (burst (apply_due_flush now c)) \<longrightarrow> now - at \<le> PASTE_BURST_CHAR_INTERVAL) \<and>
    (\<forall>t. last_plain_char_time (burst (apply_due_flush now c)) = Some t \<longrightarrow> last_plain_char_time (burst c) = Some t)"
  using assms [unfolded burst_ok_iff]
proof (elim disjE exE)
  fix ch at assume h: "holding ch at (burst c)"
  show ?thesis
  proof (cases "now - at > PASTE_BURST_CHAR_INTERVAL")
    case True
    let ?b = "(burst c)\<lparr>pending_first_char := None\<rparr>"
    have eq: "apply_due_flush now c = insert_text [ch] (c\<lparr>burst := ?b\<rparr>)" using True h by (simp add: due_flush_holding)
    have "idle ?b" "\<not> holding x y ?b" for x y using h by (simp_all add: phase_defs)
    then show ?thesis using phase_parts(2) [OF h] phase_parts(1) [of ?b] burst_okI(1) by (simp add: eq log_defs)
  next
    case False
    with h show ?thesis using assms by (auto simp: due_flush_holding holding_def)
  qed
next
  fix t assume h: "bursting t (burst c)"
  show ?thesis
  proof (cases "now - t > PASTE_BURST_CHAR_INTERVAL")
    case True
    let ?b = "clear_after_explicit_paste ((burst c)\<lparr>active := False, buffer := []\<rparr>)"
    have eq: "apply_due_flush now c = (c\<lparr>shown := shown c @ buffer (burst c), burst := ?b\<rparr>)"
      using True h by (simp add: due_flush_bursting log_defs)
    have "\<not> holding x y ?b" "last_plain_char_time ?b = None" for x y by (simp_all add: holding_def clear_after_explicit_paste_def)
    then show ?thesis using phase_parts(3) [OF h] phase_parts(1) [of ?b] burst_okI(1) by (simp add: eq log_of_def visible_def)
  next
    case False
    with h show ?thesis using assms by (auto simp: due_flush_bursting phase_defs)
  qed
qed (use assms in \<open>auto simp: due_flush_idle phase_defs\<close>)

lemma due_flush_shows_all:
  assumes "burst_ok (burst c)" "\<And>t. last_plain_char_time (burst c) = Some t \<Longrightarrow> t + PASTE_BURST_CHAR_INTERVAL < now"
  shows "visible (apply_due_flush now c) = log_of c"
  using assms(1) [unfolded burst_ok_iff]
proof (elim disjE exE)
  fix ch at assume h: "holding ch at (burst c)"
  with assms(2) [of at] have "now - at > PASTE_BURST_CHAR_INTERVAL" by (simp add: holding_def)
  with h show ?thesis using phase_parts(2) [OF h] by (simp add: due_flush_holding log_defs)
next
  fix t assume h: "bursting t (burst c)"
  with assms(2) [of t] have "now - t > PASTE_BURST_CHAR_INTERVAL" by (simp add: bursting_def)
  with h show ?thesis using phase_parts(3) [OF h] by (simp add: due_flush_bursting log_defs)
next
  assume "idle (burst c)"
  then show ?thesis using phase_parts(1) by (simp add: due_flush_idle log_of_def)
qed

lemma flush_idle: "idle (burst c) \<Longrightarrow> apply_flush c = c"
  by (simp add: apply_flush_def flush_before_modified_input_def is_active_def is_active_internal_def idle_def)

lemma flush_busy:
  assumes "holding ch at (burst c) \<or> bursting t (burst c)"
  shows "\<exists>b. apply_flush c = c\<lparr>shown := shown c @ buffer (burst c) @ held (burst c), burst := clear_after_explicit_paste b\<rparr>"
proof -
  have busy: "is_active (burst c)" using assms by (auto simp: is_active_def is_active_internal_def phase_defs)
  let ?b = "(burst c)\<lparr>active := False, buffer := [], pending_first_char := None\<rparr>"
  have "clear_after_explicit_paste ((burst c)\<lparr>active := False, buffer := []\<rparr>) = clear_after_explicit_paste ?b"
    by (simp add: clear_after_explicit_paste_def)
  then have "apply_flush c = c\<lparr>shown := shown c @ buffer (burst c) @ held (burst c), burst := clear_after_explicit_paste ?b\<rparr>"
    using busy by (simp add: apply_flush_def flush_before_modified_input_def log_defs held_def Let_def split: option.split)
  then show ?thesis by blast
qed

lemma flush_ok:
  assumes "burst_ok (burst c)"
  shows "idle (burst (apply_flush c)) \<and> log_of (apply_flush c) = log_of c \<and>
    (\<forall>t. last_plain_char_time (burst (apply_flush c)) = Some t \<longrightarrow> last_plain_char_time (burst c) = Some t)"
proof (cases "idle (burst c)")
  case False
  then obtain ch at t where "holding ch at (burst c) \<or> bursting t (burst c)" using assms burst_ok_iff by blast
  from flush_busy [OF this] obtain b where b:
    "apply_flush c = c\<lparr>shown := shown c @ buffer (burst c) @ held (burst c), burst := clear_after_explicit_paste b\<rparr>" by blast
  moreover have "last_plain_char_time (clear_after_explicit_paste b) = None" by (simp add: clear_after_explicit_paste_def)
  ultimately show ?thesis using phase_parts(1) [OF idle_clear [of b]] by (simp add: log_of_def visible_def)
qed (simp add: flush_idle)

lemma retro_split: "split_at_byte (retro_start_index s n) s = Some (take (length s - n) s, drop (length s - n) s)"
proof -
  have "retro_start_index s n = byte_len (take (length s - n) s)"
    by (auto simp: retro_start_index_def)
  then show ?thesis using split_at_byte_append [of "take (length s - n) s" "drop (length s - n) s"] by simp
qed

lemma begin_buffer_ok:
  assumes "idle (burst c)" "last_plain_char_time (burst c) = Some now"
  shows "\<exists>c'. begin_buffer ch now n c = Some c' \<and> burst_ok (burst c') \<and> log_of c' = log_of c @ [ch] \<and>
    last_plain_char_time (burst c') = Some now"
proof -
  obtain keep g where split: "split_at_byte (retro_start_index (shown c) n) (shown c) = Some (keep, g)" and kg: "shown c = keep @ g"
    using retro_split by (metis append_take_drop_id)
  show ?thesis
  proof (cases "list_ex is_whitespace g \<or> length g \<ge> 16")
    case True
    let ?b = "append_char_to_buffer ch now (begin_with_retro_grabbed g now (burst c))"
    have "begin_buffer ch now n c = Some (c\<lparr>burst := ?b, shown := keep\<rparr>)"
      using True by (simp add: begin_buffer_def decide_begin_buffer_def split Let_def)
    moreover have "bursting now ?b" "buffer ?b = g @ [ch]"
      using assms by (simp_all add: append_char_to_buffer_def begin_with_retro_grabbed_def extend_window_def phase_defs)
    ultimately show ?thesis using phase_parts(1) [OF assms(1)] phase_parts(3) [of now ?b] burst_okI(3) [of now ?b] kg
      by (simp add: log_of_def visible_def)
  next
    case False
    have "apply_flush c = c"
      using assms(1) by (simp add: apply_flush_def flush_before_modified_input_def is_active_def is_active_internal_def idle_def)
    then have "begin_buffer ch now n c = Some (insert_text [ch] c)"
      using False by (simp add: begin_buffer_def decide_begin_buffer_def split Let_def)
    then show ?thesis using assms phase_parts(1) [OF assms(1)] burst_okI(1) [OF assms(1)] by (simp add: log_defs)
  qed
qed

lemma note_plain_char_phases:
  "idle (note_plain_char now b) = idle b" "active (note_plain_char now b) = active b" "buffer (note_plain_char now b) = buffer b"
  "pending_first_char (note_plain_char now b) = pending_first_char b" "last_plain_char_time (note_plain_char now b) = Some now"
  by (simp_all add: note_plain_char_def idle_def Let_def)

lemma ascii_key_ok:
  assumes "burst_ok (burst c)"
  shows "\<exists>c'. handle_key (AsciiKey ch) now c = Some c' \<and> burst_ok (burst c') \<and> log_of c' = log_of c @ [ch] \<and>
    last_plain_char_time (burst c') = Some now"
proof -
  let ?c = "apply_due_flush now c" let ?b = "note_plain_char now (burst ?c)"
  have ok: "burst_ok (burst ?c)" and log: "log_of ?c = log_of c"
    and fast: "\<And>h at. holding h at (burst ?c) \<Longrightarrow> now - at \<le> PASTE_BURST_CHAR_INTERVAL"
    using due_flush_ok [OF assms, of now] by auto
  from ok consider (idle) "idle (burst ?c)" | (holding) h at where "holding h at (burst ?c)" | (bursting) t where "bursting t (burst ?c)"
    unfolding burst_ok_iff by blast
  then show ?thesis
  proof cases
    case idle
    show ?thesis
    proof (cases "consecutive_plain_char_burst ?b \<ge> PASTE_BURST_MIN_CHARS")
      case True
      have "handle_key (AsciiKey ch) now c = begin_buffer ch now (consecutive_plain_char_burst ?b - 1) (?c\<lparr>burst := ?b\<rparr>)"
        using idle True by (simp add: on_plain_char_def Let_def note_plain_char_phases held_fast_def idle_def)
      moreover have "log_of (?c\<lparr>burst := ?b\<rparr>) = log_of c"
        using log by (simp add: log_of_def visible_def note_plain_char_phases held_def)
      ultimately show ?thesis
        using begin_buffer_ok [of "?c\<lparr>burst := ?b\<rparr>" now ch] idle by (simp add: note_plain_char_phases)
    next
      case False
      let ?h = "?b\<lparr>pending_first_char := Some (ch, now)\<rparr>"
      have "handle_key (AsciiKey ch) now c = Some (?c\<lparr>burst := ?h\<rparr>)"
        using idle False by (simp add: on_plain_char_def Let_def note_plain_char_phases held_fast_def idle_def)
      moreover have "holding ch now ?h" using idle by (simp add: holding_def note_plain_char_phases idle_def)
      ultimately show ?thesis using log phase_parts(1) [OF idle] phase_parts(2) [of ch now ?h] burst_okI(2) [of ch now ?h]
        by (simp add: log_of_def visible_def)
    qed
  next
    case (holding h at)
    let ?h = "append_char_to_buffer ch now (extend_window now (?b\<lparr>active := True, pending_first_char := None, buffer := buffer ?b @ [h]\<rparr>))"
    have "handle_key (AsciiKey ch) now c = Some (?c\<lparr>burst := ?h\<rparr>)"
      using holding fast [OF holding] by (simp add: on_plain_char_def Let_def note_plain_char_phases held_fast_def holding_def)
    moreover have "bursting now ?h" "buffer ?h = [h, ch]"
      using phase_parts(2) [OF holding] by (simp_all add: bursting_def append_char_to_buffer_def extend_window_def note_plain_char_phases)
    ultimately show ?thesis using log phase_parts(2) [OF holding] phase_parts(3) [of now ?h] burst_okI(3) [of now ?h]
      by (simp add: log_of_def visible_def)
  next
    case (bursting t)
    let ?h = "append_char_to_buffer ch now (extend_window now ?b)"
    have "handle_key (AsciiKey ch) now c = Some (?c\<lparr>burst := ?h\<rparr>)"
      using bursting by (simp add: on_plain_char_def Let_def note_plain_char_phases bursting_def)
    moreover have "bursting now ?h" "buffer ?h = buffer (burst ?c) @ [ch]"
      using bursting by (simp_all add: bursting_def append_char_to_buffer_def extend_window_def note_plain_char_phases)
    ultimately show ?thesis using log phase_parts(3) [OF bursting] phase_parts(3) [of now ?h] burst_okI(3) [of now ?h]
      by (simp add: log_of_def visible_def)
  qed
qed

lemma other_key_ok:
  assumes "burst_ok (burst c)"
  shows "\<exists>c'. handle_key (OtherKey ch) now c = Some c' \<and> burst_ok (burst c') \<and> log_of c' = log_of c @ [ch] \<and>
    (last_plain_char_time (burst c') = Some now \<or> last_plain_char_time (burst c') = last_plain_char_time (burst c))"
proof -
  let ?c = "apply_due_flush now c"
  have ok: "burst_ok (burst ?c)" and log: "log_of ?c = log_of c"
    and last: "\<And>t. last_plain_char_time (burst ?c) = Some t \<Longrightarrow> last_plain_char_time (burst c) = Some t"
    using due_flush_ok [OF assms, of now] by auto
  show ?thesis
  proof (cases "active (burst ?c)")
    case True
    then obtain t where h: "bursting t (burst ?c)" using ok by (auto simp: burst_ok_iff phase_defs)
    let ?h = "append_char_to_buffer ch now (burst ?c)"
    have "handle_key (OtherKey ch) now c = Some (?c\<lparr>burst := ?h\<rparr>)"
      using True by (simp add: try_append_char_if_active_def Let_def)
    moreover have "bursting t ?h" "buffer ?h = buffer (burst ?c) @ [ch]"
      using h by (simp_all add: bursting_def append_char_to_buffer_def extend_window_def)
    ultimately show ?thesis
      using log phase_parts(3) [OF h] phase_parts(3) [of t ?h] burst_okI(3) [of t ?h] last [of t] by (simp add: log_of_def visible_def)
  next
    case False
    then have "buffer (burst ?c) = []" using ok by (simp add: burst_ok_def)
    let ?c1 = "apply_flush ?c" let ?b = "note_plain_char now (burst (apply_flush ?c))"
    have idle: "idle (burst ?c1)" and log1: "log_of ?c1 = log_of ?c" using flush_ok [OF ok] by auto
    have b: "idle ?b" "last_plain_char_time ?b = Some now" using idle by (simp_all add: note_plain_char_phases)
    have log2: "log_of (?c1\<lparr>burst := ?b\<rparr>) = log_of c"
      using log log1 by (simp add: log_of_def visible_def note_plain_char_phases held_def)
    show ?thesis
    proof (cases "consecutive_plain_char_burst ?b \<ge> PASTE_BURST_MIN_CHARS")
      case True
      have "handle_key (OtherKey ch) now c = begin_buffer ch now (consecutive_plain_char_burst ?b - 1) (?c1\<lparr>burst := ?b\<rparr>)"
        using False \<open>buffer (burst ?c) = []\<close> True idle
        by (simp add: try_append_char_if_active_def Let_def on_plain_char_no_hold_def note_plain_char_phases idle_def)
      moreover obtain c' where "begin_buffer ch now (consecutive_plain_char_burst ?b - 1) (?c1\<lparr>burst := ?b\<rparr>) = Some c'"
        "burst_ok (burst c')" "log_of c' = log_of c @ [ch]" "last_plain_char_time (burst c') = Some now"
        using begin_buffer_ok [of "?c1\<lparr>burst := ?b\<rparr>" now ch] b log2 by fastforce
      ultimately show ?thesis by auto
    next
      case slow: False
      have "handle_key (OtherKey ch) now c = Some (insert_text [ch] (?c1\<lparr>burst := ?b\<rparr>))"
        using False \<open>buffer (burst ?c) = []\<close> slow idle flush_idle [of "?c1\<lparr>burst := ?b\<rparr>"] b
        by (simp add: try_append_char_if_active_def Let_def on_plain_char_no_hold_def note_plain_char_phases idle_def)
      then show ?thesis using b log2 phase_parts(1) [OF b(1)] burst_okI(1) [OF b(1)] by (simp add: log_defs)
    qed
  qed
qed

lemma enter_key_ok:
  assumes "burst_ok (burst c)" "pending_first_char (burst c) = None"
  shows "\<exists>c'. handle_key EnterKey now c = Some c' \<and> burst_ok (burst c') \<and> log_of c' = log_of c @ [newline] \<and>
    last_plain_char_time (burst c') = last_plain_char_time (burst c)"
proof (cases "active (burst c)")
  case True
  then show ?thesis using assms
    by (simp add: append_newline_if_active_def is_active_def is_active_internal_def extend_window_def burst_ok_def log_of_def visible_def held_def)
next
  case False
  then have idle: "idle (burst c)" using assms by (simp add: burst_ok_def idle_def)
  then have "append_newline_if_active now (burst c) = (False, burst c)"
    by (simp add: append_newline_if_active_def is_active_def is_active_internal_def idle_def)
  moreover have "idle (extend_window now (burst c))" using idle by (simp add: idle_def extend_window_def)
  moreover have "last_plain_char_time (extend_window now (burst c)) = last_plain_char_time (burst c)" by (simp add: extend_window_def)
  ultimately show ?thesis using idle phase_parts(1) [OF idle] phase_parts(1) [of "extend_window now (burst c)"] burst_okI(1)
    by (simp add: log_defs)
qed

lemma handle_key_ok:
  assumes "burst_ok (burst c)" "k = EnterKey \<Longrightarrow> pending_first_char (burst c) = None"
  shows "\<exists>c'. handle_key k now c = Some c' \<and> burst_ok (burst c') \<and> log_of c' = log_of c @ typed k \<and>
    (\<forall>t. last_plain_char_time (burst c') = Some t \<longrightarrow> t = now \<or> last_plain_char_time (burst c) = Some t)"
proof (cases k)
  case (AsciiKey ch)
  then show ?thesis using ascii_key_ok [OF assms(1), of ch now] by auto
next
  case (OtherKey ch)
  then show ?thesis using other_key_ok [OF assms(1), of ch now] by auto
next
  case EnterKey
  then show ?thesis using enter_key_ok [OF assms(1) assms(2), of now] by auto
next
  case ModifiedKey
  let ?c = "apply_flush (apply_due_flush now c)"
  have due: "burst_ok (burst (apply_due_flush now c))" "log_of (apply_due_flush now c) = log_of c"
    using due_flush_ok [OF assms(1), of now] by auto
  have idle: "idle (burst ?c)" "log_of ?c = log_of c" using flush_ok [OF due(1)] due(2) by auto
  have "idle (clear_window_after_non_char (burst ?c))" "last_plain_char_time (clear_window_after_non_char (burst ?c)) = None"
    using idle(1) by (simp_all add: idle_def clear_window_after_non_char_def)
  then show ?thesis using ModifiedKey idle phase_parts(1) [OF idle(1)] phase_parts(1) burst_okI(1)
    by (simp add: log_of_def visible_def Let_def)
next
  case TickEvent
  then show ?thesis using due_flush_ok [OF assms(1), of now] by auto
qed

section \<open>Properties\<close>

text \<open>Enter is pressed only when no character is held back.\<close>

fun enter_not_held :: "(key \<times> instant) list \<Rightarrow> composer \<Rightarrow> bool" where
  "enter_not_held [] c = True"
| "enter_not_held ((k, now) # ks) c =
     ((k = EnterKey \<longrightarrow> pending_first_char (burst c) = None) \<and>
      (case handle_key k now c of None \<Rightarrow> True | Some c' \<Rightarrow> enter_not_held ks c'))"

lemma run_keys_ok:
  assumes "burst_ok (burst c)" "enter_not_held ks c"
  shows "\<exists>c'. run_keys ks c = Some c' \<and> burst_ok (burst c') \<and> log_of c' = log_of c @ concat (map (typed \<circ> fst) ks) \<and>
    (\<forall>t. last_plain_char_time (burst c') = Some t \<longrightarrow> t \<in> snd ` set ks \<or> last_plain_char_time (burst c) = Some t)"
  using assms
proof (induction ks arbitrary: c)
  case (Cons kn ks)
  obtain k now where kn: "kn = (k, now)" by (cases kn)
  from handle_key_ok [OF Cons.prems(1), of k now] obtain c1 where c1: "handle_key k now c = Some c1" "burst_ok (burst c1)"
    "log_of c1 = log_of c @ typed k" "\<forall>t. last_plain_char_time (burst c1) = Some t \<longrightarrow> t = now \<or> last_plain_char_time (burst c) = Some t"
    using Cons.prems(2) kn by auto
  moreover have "enter_not_held ks c1" using Cons.prems(2) kn c1(1) by simp
  from Cons.IH [OF c1(2) this] obtain c2 where "run_keys ks c1 = Some c2" "burst_ok (burst c2)"
    "log_of c2 = log_of c1 @ concat (map (typed \<circ> fst) ks)"
    "\<forall>t. last_plain_char_time (burst c2) = Some t \<longrightarrow> t \<in> snd ` set ks \<or> last_plain_char_time (burst c1) = Some t"
    by blast
  ultimately show ?case using kn by (auto simp: comp_def)
qed simp

text \<open>
  whatever is typed, at whatever speed, the paste detector neither loses nor reorders a
  character and never panics: after any sequence of ASCII and other characters, ticks, modified
  keys and line breaks, what was sent, what is shown, what is buffered and what is held back are
  together exactly the keys in the order they were pressed; and one tick more than eight
  milliseconds after the last key shows all of it. Enter is assumed not to be pressed while a
  first character is held back.
\<close>

theorem paste_burst_keeps_typing:
  assumes "enter_not_held ks composer_new" "\<forall>(k, t) \<in> set ks. t + PASTE_BURST_CHAR_INTERVAL < now"
  shows "\<exists>c. run_keys ks composer_new = Some c \<and>
    concat (map (\<lambda>m. m @ [newline]) (sent c)) @ shown c @ buffer (burst c) @ held (burst c) = concat (map (typed \<circ> fst) ks) \<and>
    (\<exists>c'. handle_key TickEvent now c = Some c' \<and>
       concat (map (\<lambda>m. m @ [newline]) (sent c')) @ shown c' = concat (map (typed \<circ> fst) ks))"
proof -
  have new: "burst_ok (burst composer_new)" "log_of composer_new = []" "last_plain_char_time (burst composer_new) = None"
    by (simp_all add: composer_new_def paste_burst_default_def burst_ok_def log_of_def visible_def held_def)
  from run_keys_ok [OF new(1) assms(1)] obtain c where c: "run_keys ks composer_new = Some c" "burst_ok (burst c)"
    "log_of c = concat (map (typed \<circ> fst) ks)" "\<forall>t. last_plain_char_time (burst c) = Some t \<longrightarrow> t \<in> snd ` set ks"
    using new by auto
  have "visible (apply_due_flush now c) = log_of c" using c(2,4) assms(2) by (intro due_flush_shows_all) auto
  then show ?thesis using c(1,3) by (auto simp: log_of_def visible_def)
qed

theorem paste_burst_keeps_typing_witness:
  "enter_not_held [(AsciiKey 97, 0), (AsciiKey 98, 1000000), (EnterKey, 2000000)] composer_new \<and>
   (\<exists>c. run_keys [(AsciiKey 97, 0), (AsciiKey 98, 1000000), (EnterKey, 2000000)] composer_new = Some c \<and>
      (\<exists>c'. handle_key TickEvent 20000000 c = Some c' \<and> concat (map (\<lambda>m. m @ [newline]) (sent c')) @ shown c' = [97, 98, 10]))"
proof
  let ?ks = "[(AsciiKey 97, 0), (AsciiKey 98, 1000000), (EnterKey, 2000000)]"
  show calm: "enter_not_held ?ks composer_new"
    by (simp add: composer_new_def paste_burst_default_def apply_due_flush_def flush_if_due_def is_active_internal_def
        on_plain_char_def note_plain_char_def held_fast_def PASTE_BURST_MIN_CHARS_def PASTE_BURST_CHAR_INTERVAL_def
        from_millis_def extend_window_def append_char_to_buffer_def append_newline_if_active_def is_active_def u16_saturating_add_def Let_def)
  have late: "\<forall>(k, t) \<in> set ?ks. t + PASTE_BURST_CHAR_INTERVAL < 20000000"
    by (simp add: PASTE_BURST_CHAR_INTERVAL_def from_millis_def)
  have keys: "concat (map (typed \<circ> fst) ?ks) = [97, 98, 10]" by simp
  show "\<exists>c. run_keys ?ks composer_new = Some c \<and>
      (\<exists>c'. handle_key TickEvent 20000000 c = Some c' \<and> concat (map (\<lambda>m. m @ [newline]) (sent c')) @ shown c' = [97, 98, 10])"
    using paste_burst_keeps_typing [OF calm late] unfolding keys by blast
qed

text \<open>
  Enter pressed right behind a held first character loses it: the line break is buffered
  ahead of the held character, and the flush that follows pastes the line break and clears the
  detector, held character included. (With another fast character instead of the pause, the line
  break comes first.)
\<close>

theorem enter_behind_held_char_loses_it:
  "map_option (\<lambda>c. (shown c, sent c, is_active (burst c)))
     (run_keys [(AsciiKey ch, t), (EnterKey, t + 1000000), (TickEvent, t + 20000000)] composer_new) =
     Some ([newline], [], False) \<and>
   map_option (\<lambda>c. (shown c, sent c, is_active (burst c)))
     (run_keys [(AsciiKey ch, t), (EnterKey, t + 1000000), (AsciiKey ch', t + 2000000), (TickEvent, t + 20000000)] composer_new) =
     Some ([newline, ch, ch'], [], False)"
  by (simp add: composer_new_def paste_burst_default_def apply_due_flush_def flush_if_due_def is_active_internal_def
      on_plain_char_def note_plain_char_def held_fast_def PASTE_BURST_MIN_CHARS_def PASTE_BURST_CHAR_INTERVAL_def
      PASTE_BURST_ACTIVE_IDLE_TIMEOUT_def from_millis_def extend_window_def append_char_to_buffer_def append_newline_if_active_def
      is_active_def u16_saturating_add_def Let_def paste_text_def insert_text_def clear_after_explicit_paste_def)

end
