(* ===== verification/Templates.thy ===== *)
theory Templates
  imports Prelude "HOL-Library.Multiset"
begin

text \<open>
  The strict templates of prompt assets, \<open>utils/template/src/lib.rs\<close>: \<open>{{ name }}\<close> is a placeholder,
  \<open>{{{{\<close> and \<open>}}}}\<close> stand for literal double braces. Offsets are byte offsets. The ordered sets and
  maps of the source are sorted lists, ordered like Rust's strings.
\<close>

section \<open>\<open>utils/template/src/lib.rs\<close>\<close>

datatype template_parse_error =
  EmptyPlaceholder nat | NestedPlaceholder nat | UnmatchedClosingDelimiter nat | UnterminatedPlaceholder nat

datatype template_render_error = DuplicateValue ustr | ExtraValue ustr | MissingValue ustr

datatype template_error = ParseError template_parse_error | RenderError template_render_error

datatype segment = Literal ustr | Placeholder ustr

record template =
  placeholders :: "ustr list"
  segments :: "segment list"

abbreviation (input) open2 :: ustr where "open2 \<equiv> [123, 123]"
abbreviation (input) close2 :: ustr where "close2 \<equiv> [125, 125]"

definition push_literal :: "segment list \<Rightarrow> ustr \<Rightarrow> segment list" where
  "push_literal segs literal =
     (if literal = [] then segs
      else if segs \<noteq> [] \<and> (\<exists>e. last segs = Literal e)
      then update_last (\<lambda>s. case s of Literal existing \<Rightarrow> Literal (existing @ literal) | Placeholder n \<Rightarrow> Placeholder n) segs
      else segs @ [Literal literal])"

text \<open>The scan inside a placeholder: what was read, and what is left to read.\<close>

fun parse_placeholder_from :: "nat \<Rightarrow> ustr \<Rightarrow> ustr \<Rightarrow> template_parse_error + ustr \<times> ustr" where
  "parse_placeholder_from start read [] = Err (UnterminatedPlaceholder start)"
| "parse_placeholder_from start read (ch # rest) =
     (if starts_with open2 (ch # rest) then Err (NestedPlaceholder start)
      else if starts_with close2 (ch # rest)
      then (let placeholder = trim read
            in if placeholder = [] then Err (EmptyPlaceholder start) else Ok (placeholder, drop 2 (ch # rest)))
      else parse_placeholder_from start (read @ [ch]) rest)"

definition parse_placeholder :: "nat \<Rightarrow> ustr \<Rightarrow> template_parse_error + ustr \<times> ustr" where
  "parse_placeholder start rest = parse_placeholder_from start [] (drop 2 rest)"

lemma parse_placeholder_from_shorter:
  "parse_placeholder_from start read s = Ok (n, rest) \<Longrightarrow> length rest < length s"
  by (induction start read s rule: parse_placeholder_from.induct) (auto simp: Let_def split: if_splits)

text \<open>
  The loop: the byte offset of the cursor, the literal since \<open>literal_start\<close>, the text from the
  cursor on, and the two collections.
\<close>

function parse_loop :: "nat \<Rightarrow> ustr \<Rightarrow> ustr \<Rightarrow> ustr list \<Rightarrow> segment list \<Rightarrow> template_parse_error + template" where
  "parse_loop cursor literal rest names segs =
     (if rest = [] then Ok \<lparr>placeholders = names, segments = push_literal segs literal\<rparr>
      else if starts_with (open2 @ open2) rest
      then parse_loop (cursor + 4) [] (drop 4 rest) names (push_literal (push_literal segs literal) open2)
      else if starts_with (close2 @ close2) rest
      then parse_loop (cursor + 4) [] (drop 4 rest) names (push_literal (push_literal segs literal) close2)
      else if starts_with open2 rest
      then (case parse_placeholder cursor rest of
              Inl e \<Rightarrow> Err e
            | Inr (placeholder, next) \<Rightarrow>
                parse_loop (cursor + (byte_len rest - byte_len next)) [] next
                  (insort_insert placeholder names) (push_literal segs literal @ [Placeholder placeholder]))
      else if starts_with close2 rest then Err (UnmatchedClosingDelimiter cursor)
      else parse_loop (cursor + len_utf8 (hd rest)) (literal @ [hd rest]) (tl rest) names segs)"
  by pat_completeness auto
termination
proof (relation "measure (\<lambda>(_, _, rest, _, _). length rest)", goal_cases)
  case (4 cursor literal rest names segs r placeholder "next")
  then have "length next < length (drop 2 rest)" by (auto simp: parse_placeholder_def dest: parse_placeholder_from_shorter)
  then show ?case by simp
qed auto

declare parse_loop.simps [simp del]

definition parse_template :: "ustr \<Rightarrow> template_parse_error + template" where
  "parse_template source = parse_loop 0 [] source [] []"

fun build_variable_map_from :: "(ustr \<times> ustr) list \<Rightarrow> (ustr \<times> ustr) list \<Rightarrow> template_render_error + (ustr \<times> ustr) list" where
  "build_variable_map_from m [] = Ok m"
| "build_variable_map_from m ((name, value) # vs) =
     (if map_of m name \<noteq> None then Err (DuplicateValue name)
      else build_variable_map_from (insort_key fst (name, value) m) vs)"

definition build_variable_map :: "(ustr \<times> ustr) list \<Rightarrow> template_render_error + (ustr \<times> ustr) list" where
  "build_variable_map variables = build_variable_map_from [] variables"

fun render_segments :: "(ustr \<times> ustr) list \<Rightarrow> segment list \<Rightarrow> template_render_error + ustr" where
  "render_segments m [] = Ok []"
| "render_segments m (Literal l # segs) =
     (case render_segments m segs of Inl e \<Rightarrow> Err e | Inr r \<Rightarrow> Ok (l @ r))"
| "render_segments m (Placeholder name # segs) =
     (case map_of m name of
        None \<Rightarrow> Err (MissingValue name)
      | Some v \<Rightarrow> (case render_segments m segs of Inl e \<Rightarrow> Err e | Inr r \<Rightarrow> Ok (v @ r)))"

definition render_template :: "template \<Rightarrow> (ustr \<times> ustr) list \<Rightarrow> template_render_error + ustr" where
  "render_template t variables =
     (case build_variable_map variables of
        Inl e \<Rightarrow> Err e
      | Inr m \<Rightarrow>
          (case List.find (\<lambda>p. map_of m p = None) (placeholders t) of
             Some p \<Rightarrow> Err (MissingValue p)
           | None \<Rightarrow>
               (case List.find (\<lambda>name. name \<notin> set (placeholders t)) (map fst m) of
                  Some name \<Rightarrow> Err (ExtraValue name)
                | None \<Rightarrow> render_segments m (segments t))))"

definition render :: "ustr \<Rightarrow> (ustr \<times> ustr) list \<Rightarrow> template_error + ustr" where
  "render source variables =
     (case parse_template source of
        Inl e \<Rightarrow> Err (ParseError e)
      | Inr t \<Rightarrow> (case render_template t variables of Inl e \<Rightarrow> Err (RenderError e) | Inr s \<Rightarrow> Ok s))"

section \<open>Parsed templates\<close>

definition segment_names :: "segment list \<Rightarrow> ustr set" where
  "segment_names segs = {n. Placeholder n \<in> set segs}"

lemma segment_names_simps [simp]:
  "segment_names [] = {}" "segment_names (Literal l # segs) = segment_names segs"
  "segment_names (Placeholder n # segs) = insert n (segment_names segs)"
  "segment_names (segs @ segs') = segment_names segs \<union> segment_names segs'"
  by (auto simp: segment_names_def)

lemma segment_names_push [simp]: "segment_names (push_literal segs l) = segment_names segs"
proof (cases "l \<noteq> [] \<and> segs \<noteq> [] \<and> (\<exists>e. last segs = Literal e)")
  case True
  then obtain init e where "segs = init @ [Literal e]" by (metis append_butlast_last_id)
  with True show ?thesis by (simp add: push_literal_def)
qed (auto simp: push_literal_def)

lemma parse_loop_names:
  assumes "parse_loop cursor literal rest names segs = Ok t" "set names = segment_names segs" "sorted names" "distinct names"
  shows "set (placeholders t) = segment_names (segments t) \<and> sorted (placeholders t) \<and> distinct (placeholders t)"
  using assms
proof (induction cursor literal rest names segs rule: parse_loop.induct)
  case (1 cursor literal rest names segs)
  note step = "1.prems"(1) [unfolded parse_loop.simps [of cursor literal rest names segs]]
  consider "rest = []" | "rest \<noteq> []" "starts_with (open2 @ open2) rest"
    | "rest \<noteq> []" "\<not> starts_with (open2 @ open2) rest" "starts_with (close2 @ close2) rest"
    | (ph) "rest \<noteq> []" "\<not> starts_with (open2 @ open2) rest" "\<not> starts_with (close2 @ close2) rest" "starts_with open2 rest"
    | "rest \<noteq> []" "\<not> starts_with (open2 @ open2) rest" "\<not> starts_with (close2 @ close2) rest" "\<not> starts_with open2 rest"
      "\<not> starts_with close2 rest"
    using step by (auto split: if_splits)
  then show ?case
  proof cases
    case 1
    with step "1.prems" show ?thesis by auto
  next
    case 2
    with step "1.IH"(1) "1.prems" show ?thesis by simp
  next
    case 3
    with step "1.IH"(2) "1.prems" show ?thesis by simp
  next
    case ph
    then obtain n next' where n: "parse_placeholder cursor rest = Ok (n, next')"
      and rec: "parse_loop (cursor + (byte_len rest - byte_len next')) [] next' (insort_insert n names)
        (push_literal segs literal @ [Placeholder n]) = Ok t"
      using step by (auto split: sum.splits)
    show ?thesis
      by (rule "1.IH"(3) [OF ph n refl rec])
        (use "1.prems" in \<open>simp_all add: set_insort_insert sorted_insort_insert distinct_insort_insert\<close>)
  next
    case 5
    with step "1.IH"(4) "1.prems" show ?thesis by simp
  qed
qed

lemma parse_template_names:
  "parse_template source = Ok t \<Longrightarrow>
     set (placeholders t) = segment_names (segments t) \<and> sorted (placeholders t) \<and> distinct (placeholders t)"
  unfolding parse_template_def by (erule parse_loop_names) simp_all

section \<open>Variables\<close>

text \<open>The first name that occurs a second time.\<close>

fun first_repeat :: "'a set \<Rightarrow> 'a list \<Rightarrow> 'a option" where
  "first_repeat seen [] = None"
| "first_repeat seen (x # xs) = (if x \<in> seen then Some x else first_repeat (insert x seen) xs)"

lemma first_repeat_None: "first_repeat seen xs = None \<longleftrightarrow> distinct xs \<and> set xs \<inter> seen = {}"
  by (induction xs arbitrary: seen) auto

lemma build_variable_map_from_eq:
  "build_variable_map_from m vs =
     (case first_repeat (fst ` set m) (map fst vs) of
        Some n \<Rightarrow> Err (DuplicateValue n) | None \<Rightarrow> Ok (fold (insort_key fst) vs m))"
proof (induction m vs rule: build_variable_map_from.induct)
  case (2 m name "value" vs)
  have "map_of m name \<noteq> None \<longleftrightarrow> name \<in> fst ` set m" by (simp add: map_of_eq_None_iff)
  with 2 show ?case by (auto simp: set_insort_key split: option.split)
qed simp

lemma fold_insort_facts:
  "set (fold (insort_key fst) vs m) = set vs \<union> set m"
  "sorted (map fst m) \<Longrightarrow> sorted (map fst (fold (insort_key fst) vs m))"
  by (induction vs arbitrary: m) (auto simp: set_insort_key sorted_insort_key)

lemma distinct_fold_insort:
  "distinct (map fst vs) \<Longrightarrow> fst ` set vs \<inter> fst ` set m = {} \<Longrightarrow> distinct (map fst m) \<Longrightarrow> distinct (map fst (fold (insort_key fst) vs m))"
proof (induction vs arbitrary: m)
  case (Cons v vs)
  have "mset (map fst (insort_key fst v m)) = mset (fst v # map fst m)" by simp
  then have "distinct (map fst (insort_key fst v m))" using Cons.prems by (metis (no_types, lifting) Int_iff distinct.simps(2) emptyE image_eqI list.set_intros(1) list.set_map mset_eq_imp_distinct_iff)
  moreover have "fst ` set vs \<inter> fst ` set (insort_key fst v m) = {}" using Cons.prems by (auto simp: set_insort_key)
  ultimately show ?case using Cons by simp
qed simp

lemma find_Some_in: "List.find P xs = Some x \<Longrightarrow> x \<in> set xs \<and> P x"
  by (induction xs) (auto split: if_splits)

lemma find_sorted_Min:
  assumes "sorted xs" "List.find P xs = Some x"
  shows "x = Min {y \<in> set xs. P y}"
proof -
  obtain i where i: "i < length xs" "P (xs ! i)" "x = xs ! i" "\<forall>j < i. \<not> P (xs ! j)"
    using assms(2) by (auto simp: find_Some_iff)
  have "x \<le> y" if y: "y \<in> set xs" and Py: "P y" for y
  proof -
    obtain j where j: "j < length xs" "y = xs ! j" using y by (auto simp: in_set_conv_nth)
    with i(4) Py have "\<not> j < i" by blast
    then have "i \<le> j" by simp
    from sorted_nth_mono [OF assms(1) this j(1)] show ?thesis using i(3) j(2) by simp
  qed
  moreover have "x \<in> {y \<in> set xs. P y}" using i by auto
  ultimately show ?thesis by (intro Min_eqI [symmetric]) auto
qed

lemma render_segments_ok:
  "segment_names segs \<subseteq> dom (map_of m) \<Longrightarrow> render_segments m segs =
     Ok (concat (map (\<lambda>s. case s of Literal l \<Rightarrow> l | Placeholder n \<Rightarrow> the (map_of m n)) segs))"
  by (induction m segs rule: render_segments.induct) (auto split: option.splits)

section \<open>Writing templates\<close>

fun escape :: "ustr \<Rightarrow> ustr" where
  "escape [] = []"
| "escape [c] = [c]"
| "escape (c # d # s) =
     (if c = 123 \<and> d = 123 then [123, 123, 123, 123] @ escape s
      else if c = 125 \<and> d = 125 then [125, 125, 125, 125] @ escape s
      else c # escape (d # s))"

fun write_segment :: "segment \<Rightarrow> ustr" where
  "write_segment (Literal l) = escape l"
| "write_segment (Placeholder n) = lit ''{{ '' @ n @ lit '' }}''"

definition write_template :: "segment list \<Rightarrow> ustr" where
  "write_template segs = concat (map write_segment segs)"

definition valid_name :: "ustr \<Rightarrow> bool" where
  "valid_name n \<longleftrightarrow> n \<noteq> [] \<and> trim n = n \<and> \<not> contains_str open2 n \<and> \<not> contains_str close2 n"

text \<open>
  Segments as the parser makes them: literals are not empty and not adjacent, and a literal in
  front of a placeholder does not end in an opening brace, which could not be told from the
  placeholder's own.
\<close>

fun valid_segments :: "segment list \<Rightarrow> bool" where
  "valid_segments [] = True"
| "valid_segments (Placeholder n # segs) = (valid_name n \<and> valid_segments segs)"
| "valid_segments (Literal l # segs) =
     (l \<noteq> [] \<and> valid_segments segs \<and>
      (case segs of [] \<Rightarrow> True | Literal _ # _ \<Rightarrow> False | Placeholder _ # _ \<Rightarrow> last l \<noteq> 123))"

lemma push_push: "push_literal (push_literal segs a) b = push_literal segs (a @ b)"
proof (cases "segs = [] \<or> (\<exists>n. last segs = Placeholder n)")
  case True
  then show ?thesis by (auto simp: push_literal_def update_last_def)
next
  case False
  then obtain init e where "segs = init @ [Literal e]" by (metis append_butlast_last_id segment.exhaust)
  then show ?thesis by (auto simp: push_literal_def update_last_def)
qed

lemma push_Nil [simp]: "push_literal segs [] = segs"
  by (simp add: push_literal_def)

lemma hd_escape: "s \<noteq> [] \<Longrightarrow> escape s \<noteq> [] \<and> hd (escape s) = hd s"
  by (cases s rule: escape.cases) auto

lemma starts_with_two: "starts_with [a, a] (c # s) \<longleftrightarrow> c = a \<and> s \<noteq> [] \<and> hd s = a"
  by (cases s) (auto simp: starts_with_def)

lemma starts_with_four: "starts_with [a, a, a, a] s \<Longrightarrow> starts_with [a, a] s"
  by (auto simp: starts_with_iff)

lemma parse_loop_char:
  assumes "\<not> starts_with open2 (c # rest)" "\<not> starts_with close2 (c # rest)"
  shows "parse_loop cursor literal (c # rest) names segs = parse_loop (cursor + len_utf8 c) (literal @ [c]) rest names segs"
  using assms starts_with_four [of 123 "c # rest"] starts_with_four [of 125 "c # rest"]
  by (subst parse_loop.simps) auto

text \<open>An escaped literal is read back, up to where the next segment starts.\<close>

lemma parse_escaped:
  assumes "T = [] \<or> (hd T = 123 \<and> (l = [] \<or> last l \<noteq> 123))"
  shows "\<exists>cursor' acc' segs'. parse_loop cursor acc (escape l @ T) names segs = parse_loop cursor' acc' T names segs' \<and>
    push_literal segs' acc' = push_literal segs (acc @ l)"
  using assms
proof (induction l arbitrary: cursor acc segs rule: escape.induct)
  case 1
  then show ?case by auto
next
  case (2 c)
  have "\<not> starts_with open2 (c # T)" "\<not> starts_with close2 (c # T)" using "2.prems" by (auto simp: starts_with_two)
  then show ?case by (auto simp: parse_loop_char)
next
  case (3 c d s)
  show ?case
  proof (cases "(c = 123 \<and> d = 123) \<or> (c = 125 \<and> d = 125)")
    case True
    have s: "T = [] \<or> (hd T = 123 \<and> (s = [] \<or> last s \<noteq> 123))" using "3.prems" by auto
    have "parse_loop cursor acc (escape (c # d # s) @ T) names segs =
        parse_loop (cursor + 4) [] (escape s @ T) names (push_literal (push_literal segs acc) [c, d])"
      using True by (subst parse_loop.simps) (auto simp: starts_with_def)
    moreover have "\<exists>cursor' acc' segs'. parse_loop (cursor + 4) [] (escape s @ T) names (push_literal (push_literal segs acc) [c, d]) =
        parse_loop cursor' acc' T names segs' \<and> push_literal segs' acc' = push_literal (push_literal (push_literal segs acc) [c, d]) ([] @ s)"
      using True "3.IH"(1) [OF _ s, of "cursor + 4" "[]" "push_literal (push_literal segs acc) [c, d]"]
        "3.IH"(2) [OF _ _ s, of "cursor + 4" "[]" "push_literal (push_literal segs acc) [c, d]"]
      by (cases "c = 123 \<and> d = 123") auto
    ultimately show ?thesis by (simp add: push_push)
  next
    case False
    let ?rest = "escape (d # s) @ T"
    have "?rest \<noteq> []" "hd ?rest = d" using hd_escape [of "d # s"] by auto
    then have "\<not> starts_with open2 (c # ?rest)" "\<not> starts_with close2 (c # ?rest)" using False by (auto simp: starts_with_two)
    then have "parse_loop cursor acc (escape (c # d # s) @ T) names segs = parse_loop (cursor + len_utf8 c) (acc @ [c]) ?rest names segs"
      using False by (auto simp: parse_loop_char)
    moreover have "T = [] \<or> (hd T = 123 \<and> (d # s = [] \<or> last (d # s) \<noteq> 123))" using "3.prems" by auto
    from "3.IH"(3) [OF _ _ this, of "cursor + len_utf8 c" "acc @ [c]" segs] False
    have "\<exists>cursor' acc' segs'. parse_loop (cursor + len_utf8 c) (acc @ [c]) ?rest names segs = parse_loop cursor' acc' T names segs' \<and>
        push_literal segs' acc' = push_literal segs ((acc @ [c]) @ d # s)" by auto
    ultimately show ?thesis by simp
  qed
qed

lemma parse_placeholder_scan:
  assumes "\<not> contains_str open2 (name @ [32])" "\<not> contains_str close2 (name @ [32])" "trim (read @ name @ [32]) \<noteq> []"
  shows "parse_placeholder_from start read (name @ 32 # 125 # 125 # T) = Ok (trim (read @ name @ [32]), T)"
  using assms
proof (induction name arbitrary: read)
  case Nil
  then show ?case by (simp add: starts_with_def Let_def)
next
  case (Cons c name)
  have sub: "starts_with p (c # name @ 32 # U) \<Longrightarrow> length p = 2 \<Longrightarrow> starts_with p (c # name @ [32])" for p :: ustr and U
    by (cases name) (auto simp: starts_with_take take_Cons')
  have first: "\<not> starts_with open2 (c # name @ [32])" "\<not> starts_with close2 (c # name @ [32])"
    using Cons.prems(1,2) by (auto simp: contains_str_def)
  then have "\<not> starts_with open2 (c # name @ 32 # 125 # 125 # T)" "\<not> starts_with close2 (c # name @ 32 # 125 # 125 # T)"
    using sub by fastforce+
  moreover have "\<not> contains_str open2 (name @ [32])" "\<not> contains_str close2 (name @ [32])"
    using Cons.prems(1,2) first by (auto simp: contains_str_def)
  ultimately show ?case using Cons.IH [of "read @ [c]"] Cons.prems(3) by simp
qed

lemma contains_str_Cons: "contains_str p (c # s) \<longleftrightarrow> starts_with p (c # s) \<or> contains_str p s"
  by (simp add: contains_str_def)

lemma trim_fixed:
  assumes "trim n = n" "n \<noteq> []"
  shows "\<not> is_whitespace (hd n)" "trim_start n = n"
proof -
  obtain w where w: "n = w @ trim_start n" using trim_start_suffix [of n] by blast
  obtain v where v: "trim_start n = trim n @ v" using trim_end_prefix [of "trim_start n"] unfolding trim_def by blast
  have "length n = length w + (length n + length v)"
    using arg_cong [OF w, of length] arg_cong [OF v, of length] assms(1) by simp
  then have "w = []" by simp
  then show "trim_start n = n" using w by simp
  then show "\<not> is_whitespace (hd n)" using assms(2) unfolding trim_start_def by (simp add: dropWhile_eq_self_iff)
qed

lemma contains_str_snoc_space:
  fixes a :: uchar
  assumes "contains_str [a, a] (n @ [32])" "a \<noteq> 32"
  shows "contains_str [a, a] n"
  using assms
proof (induction n)
  case (Cons c n)
  show ?case
  proof (cases "starts_with [a, a] (c # n @ [32])")
    case True
    then have "starts_with [a, a] (c # n)" using assms(2) by (cases n) (auto simp: starts_with_two)
    then show ?thesis by (simp add: contains_str_def)
  next
    case False
    with Cons show ?thesis by (auto simp: contains_str_def)
  qed
qed (auto simp: contains_str_def starts_with_def)

lemma parse_written_placeholder:
  assumes "valid_name n"
  shows "parse_placeholder cursor (write_segment (Placeholder n) @ T) = Ok (n, T)"
proof -
  have n: "n \<noteq> []" "trim n = n" "\<not> contains_str open2 n" "\<not> contains_str close2 n" using assms by (simp_all add: valid_name_def)
  have inner: "\<not> contains_str open2 ((32 # n) @ [32])" "\<not> contains_str close2 ((32 # n) @ [32])"
    using n(3,4) contains_str_snoc_space [of 123 "n"] contains_str_snoc_space [of 125 "n"]
    by (auto simp: contains_str_Cons starts_with_two)
  have "trim (32 # n @ [32]) = trim (n @ [32])" by (simp add: trim_def trim_start_def is_whitespace_def)
  also have "trim_start (n @ [32]) = n @ [32]"
    using n(1) trim_fixed(1) [OF n(2,1)] by (intro trim_start_no_ws) simp
  then have "trim (n @ [32]) = trim n"
    using trim_fixed(2) [OF n(2,1)] unfolding trim_def by (simp add: trim_end_def is_whitespace_def)
  finally have "trim ([] @ (32 # n) @ [32]) = n" using n(2) by simp
  from parse_placeholder_scan [OF inner, of "[]" cursor T] this n(1) show ?thesis
    by (simp add: parse_placeholder_def)
qed

lemma parse_loop_placeholder:
  assumes "valid_name n"
  shows "parse_loop cursor acc (write_segment (Placeholder n) @ T) names segs =
    parse_loop (cursor + byte_len (write_segment (Placeholder n))) [] T (insort_insert n names) (push_literal segs acc @ [Placeholder n])"
proof -
  let ?w = "write_segment (Placeholder n) @ T"
  have "write_segment (Placeholder n) \<noteq> []" "\<not> starts_with (open2 @ open2) ?w" "\<not> starts_with (close2 @ close2) ?w" "starts_with open2 ?w"
    by (simp_all add: starts_with_def)
  with parse_written_placeholder [OF assms, of cursor T] show ?thesis
    by (subst parse_loop.simps) (simp del: write_segment.simps)
qed

lemma parse_written:
  assumes "valid_segments rest" "\<forall>l r. rest = Literal l # r \<longrightarrow> acc = [] \<and> (segs = [] \<or> (\<exists>n. last segs = Placeholder n))"
  shows "\<exists>names'. parse_loop cursor acc (write_template rest) names segs =
    Ok \<lparr>placeholders = names', segments = push_literal segs acc @ rest\<rparr>"
  using assms
proof (induction rest arbitrary: cursor acc names segs)
  case Nil
  then show ?case by (subst parse_loop.simps) (simp add: write_template_def)
next
  case (Cons seg rest)
  have written: "write_template (seg # rest) = write_segment seg @ write_template rest" by (simp add: write_template_def)
  show ?case
  proof (cases seg)
    case (Placeholder n)
    then have "valid_name n" "valid_segments rest" using Cons.prems(1) by simp_all
    moreover have "\<exists>names'. parse_loop (cursor + byte_len (write_segment (Placeholder n))) [] (write_template rest)
        (insort_insert n names) (push_literal segs acc @ [Placeholder n]) =
      Ok \<lparr>placeholders = names', segments = push_literal (push_literal segs acc @ [Placeholder n]) [] @ rest\<rparr>"
      using calculation(2) by (intro Cons.IH) auto
    ultimately show ?thesis using Placeholder unfolding written by (simp add: parse_loop_placeholder del: write_segment.simps)
  next
    case (Literal l)
    have acc: "acc = []" and segs: "segs = [] \<or> (\<exists>n. last segs = Placeholder n)" using Cons.prems(2) Literal by blast+
    have l: "l \<noteq> []" "valid_segments rest" "\<And>l' r. rest \<noteq> Literal l' # r" using Cons.prems(1) Literal by (auto split: list.splits)
    have T: "write_template rest = [] \<or> (hd (write_template rest) = 123 \<and> (l = [] \<or> last l \<noteq> 123))"
    proof (cases rest)
      case (Cons s r)
      with l(3) obtain n where "s = Placeholder n" by (cases s) auto
      with Cons Cons.prems(1) Literal show ?thesis by (simp add: write_template_def)
    qed (simp add: write_template_def)
    from parse_escaped [OF T, of cursor "[]" names segs] obtain cursor' acc' segs' where
      eq: "parse_loop cursor [] (escape l @ write_template rest) names segs = parse_loop cursor' acc' (write_template rest) names segs'"
      and push: "push_literal segs' acc' = push_literal segs l" by auto
    have "push_literal segs l = segs @ [Literal l]" using segs l(1) by (auto simp: push_literal_def)
    with push have "push_literal segs' acc' @ rest = segs @ Literal l # rest" by simp
    with Cons.IH [OF l(2), of acc' segs' cursor' names] l(3) show ?thesis
      unfolding written using Literal acc eq by simp
  qed
qed

section \<open>Properties\<close>

text \<open>
  rendering a parsed template is strict, and reports the first problem in a fixed order. A
  name given twice is reported before anything else, the first that repeats; then the least
  placeholder without a value; then the least value without a placeholder. Otherwise the result is
  the segments with every placeholder replaced by its value: no rendering is partial.
\<close>

theorem render_is_strict:
  assumes "parse_template source = Ok t"
  shows "render_template t variables =
    (let given = set (map fst variables); wanted = {n. Placeholder n \<in> set (segments t)}
     in case first_repeat {} (map fst variables) of
          Some n \<Rightarrow> Err (DuplicateValue n)
        | None \<Rightarrow>
            if \<not> wanted \<subseteq> given then Err (MissingValue (Min (wanted - given)))
            else if \<not> given \<subseteq> wanted then Err (ExtraValue (Min (given - wanted)))
            else Ok (concat (map (\<lambda>s. case s of Literal l \<Rightarrow> l | Placeholder n \<Rightarrow> the (map_of variables n)) (segments t))))"
proof (cases "first_repeat {} (map fst variables)")
  case (Some n)
  then show ?thesis by (simp add: render_template_def build_variable_map_def build_variable_map_from_eq)
next
  case None
  let ?m = "fold (insort_key fst) variables []"
  have names: "set (placeholders t) = {n. Placeholder n \<in> set (segments t)}" "sorted (placeholders t)"
    using parse_template_names [OF assms] by (simp_all add: segment_names_def)
  have dist: "distinct (map fst variables)" using None by (simp add: first_repeat_None)
  have m: "build_variable_map variables = Ok ?m"
    using None by (simp add: build_variable_map_def build_variable_map_from_eq)
  have set_m: "set ?m = set variables" and sorted_m: "sorted (map fst ?m)" using fold_insort_facts(1) [of variables "[]"] fold_insort_facts(2) [of "[]" variables] by simp_all
  have "distinct (map fst ?m)" using dist by (intro distinct_fold_insort) auto
  then have map_m: "map_of ?m = map_of variables" using dist set_m by (metis map_of_inject_set)
  let ?given = "set (map fst variables)" and ?wanted = "{n. Placeholder n \<in> set (segments t)}"
  have keys: "map_of ?m p = None \<longleftrightarrow> p \<notin> ?given" for p by (simp add: map_m map_of_eq_None_iff)
  have missing: "List.find (\<lambda>p. map_of ?m p = None) (placeholders t) =
      (if ?wanted \<subseteq> ?given then None else Some (Min (?wanted - ?given)))"
  proof (cases "List.find (\<lambda>p. map_of ?m p = None) (placeholders t)")
    case (Some p)
    have "{y \<in> set (placeholders t). map_of ?m y = None} = ?wanted - ?given" using keys names(1) by auto
    with find_sorted_Min [OF names(2) Some] have "p = Min (?wanted - ?given)" by simp
    moreover have "p \<in> set (placeholders t)" "p \<notin> ?given" using find_Some_in [OF Some] keys by auto
    ultimately show ?thesis using Some names(1) by auto
  qed (use keys names(1) in \<open>auto simp: find_None_iff\<close>)
  have extra: "List.find (\<lambda>n. n \<notin> set (placeholders t)) (map fst ?m) =
      (if ?given \<subseteq> ?wanted then None else Some (Min (?given - ?wanted)))"
  proof (cases "List.find (\<lambda>n. n \<notin> set (placeholders t)) (map fst ?m)")
    case (Some p)
    have "{y \<in> set (map fst ?m). y \<notin> set (placeholders t)} = ?given - ?wanted" using set_m names(1) by auto
    with find_sorted_Min [OF sorted_m Some] have "p = Min (?given - ?wanted)" by simp
    moreover have "p \<in> set (map fst ?m)" "p \<notin> set (placeholders t)" using find_Some_in [OF Some] by auto
    ultimately show ?thesis using Some names(1) set_m by auto
  qed (use set_m names(1) in \<open>auto simp: find_None_iff\<close>)
  show ?thesis
  proof (cases "?wanted \<subseteq> ?given")
    case True
    then have "segment_names (segments t) \<subseteq> dom (map_of ?m)"
      using map_m by (auto simp: segment_names_def dom_map_of_conv_image_fst)
    from render_segments_ok [OF this] have "render_segments ?m (segments t) =
        Ok (concat (map (\<lambda>s. case s of Literal l \<Rightarrow> l | Placeholder n \<Rightarrow> the (map_of variables n)) (segments t)))"
      unfolding map_m .
    with True show ?thesis by (simp add: render_template_def m missing extra None Let_def)
  next
    case False
    then show ?thesis by (simp add: render_template_def m missing None Let_def)
  qed
qed

theorem render_is_strict_witness:
  "parse_template (lit ''a{{ b }}'') = Ok \<lparr>placeholders = [lit ''b''], segments = [Literal (lit ''a''), Placeholder (lit ''b'')]\<rparr> \<and>
   render_template \<lparr>placeholders = [lit ''b''], segments = [Literal (lit ''a''), Placeholder (lit ''b'')]\<rparr> [(lit ''b'', lit ''c'')] = Ok (lit ''ac'')"
proof
  show p: "parse_template (lit ''a{{ b }}'') = Ok \<lparr>placeholders = [lit ''b''], segments = [Literal (lit ''a''), Placeholder (lit ''b'')]\<rparr>"
    by (simp add: parse_template_def parse_loop.simps starts_with_def parse_placeholder_def Let_def trim_def trim_start_def trim_end_def
        is_whitespace_def push_literal_def len_utf8_def insort_insert_key_def)
  show "render_template \<lparr>placeholders = [lit ''b''], segments = [Literal (lit ''a''), Placeholder (lit ''b'')]\<rparr> [(lit ''b'', lit ''c'')] = Ok (lit ''ac'')"
    using render_is_strict [OF p, of "[(lit ''b'', lit ''c'')]"] by simp
qed

text \<open>
  templates can be written: any sequence of segments the parser could produce, written out
  with double braces in literals doubled and names between double braces, parses back to exactly
  these segments. A literal directly before a placeholder must not end in an opening brace.
\<close>

theorem written_template_parses_back:
  assumes "valid_segments segs"
  shows "\<exists>t. parse_template (write_template segs) = Ok t \<and> segments t = segs"
  using parse_written [OF assms, of "[]" "[]" 0 "[]"] by (auto simp: parse_template_def)

theorem written_template_parses_back_witness:
  "valid_segments [Literal (lit ''x{{y}}''), Placeholder (lit ''n''), Literal (lit ''}'')] \<and>
   (\<exists>t. parse_template (lit ''x{{{{y}}}}{{ n }}}'') = Ok t \<and> segments t = [Literal (lit ''x{{y}}''), Placeholder (lit ''n''), Literal (lit ''}'')])"
proof
  show v: "valid_segments [Literal (lit ''x{{y}}''), Placeholder (lit ''n''), Literal (lit ''}'')]"
    by (simp add: valid_name_def contains_str_def starts_with_def trim_def trim_start_def trim_end_def is_whitespace_def)
  have "write_template [Literal (lit ''x{{y}}''), Placeholder (lit ''n''), Literal (lit ''}'')] = lit ''x{{{{y}}}}{{ n }}}''"
    by (simp add: write_template_def)
  then show "\<exists>t. parse_template (lit ''x{{{{y}}}}{{ n }}}'') = Ok t \<and> segments t = [Literal (lit ''x{{y}}''), Placeholder (lit ''n''), Literal (lit ''}'')]"
    using written_template_parses_back [OF v] by simp
qed

end
