(* ===== verification/Disk_Paths.thy ===== *)
theory Disk_Paths
  imports Abs_Path "HOL-Library.Product_Lexorder"
begin

text \<open>
  The operations of \<open>AbsolutePathBuf\<close> (\<open>utils/absolute-path/src/lib.rs\<close>) that take a \<open>Path\<close>, and
  the resolution of a path on a disk that keeps nested symbolic links. What the process asks the
  operating system (file kinds, link resolution, file contents, \<open>TMPDIR\<close>) is the record \<open>disk\<close>, an
  input of the definitions. Theorems: on paths the two forms of home-directory expansion agree, a
  resolved path is absolute and normal, the ancestors of a path are its non-empty prefixes, and the
  order on paths is the linear order of \<open>Path::cmp\<close>.
\<close>

section \<open>The order on components\<close>

instantiation component :: linorder
begin

fun component_rank :: "component \<Rightarrow> nat \<times> ustr" where
  "component_rank RootDir = (0, [])"
| "component_rank CurDir = (1, [])"
| "component_rank ParentDir = (2, [])"
| "component_rank (Normal n) = (3, n)"

definition less_eq_component :: "component \<Rightarrow> component \<Rightarrow> bool" where
  "less_eq_component a b \<longleftrightarrow> component_rank a \<le> component_rank b"

definition less_component :: "component \<Rightarrow> component \<Rightarrow> bool" where
  "less_component a b \<longleftrightarrow> component_rank a < component_rank b"

instance
proof
  fix a b c :: component
  show "a < b \<longleftrightarrow> a \<le> b \<and> \<not> b \<le> a"
    unfolding less_component_def less_eq_component_def by (rule less_le_not_le)
  show "a \<le> a" by (simp add: less_eq_component_def)
  show "a \<le> b \<Longrightarrow> b \<le> c \<Longrightarrow> a \<le> c"
    unfolding less_eq_component_def by (rule order_trans)
  show "a \<le> b \<or> b \<le> a" unfolding less_eq_component_def by (rule linear)
  assume "a \<le> b" "b \<le> a"
  then have "component_rank a = component_rank b" by (simp add: less_eq_component_def)
  then show "a = b" by (cases a; cases b) simp_all
qed

end

section \<open>The disk\<close>

text \<open>
  \<open>symlink_metadata\<close> is \<open>None\<close> when the call fails and otherwise says whether the path is a symbolic
  link; \<open>canonicalize_path\<close> is \<open>std::fs::canonicalize\<close> (also what \<open>dunce\<close> does on Unix).
\<close>

record disk =
  process_paths :: path_env
  path_is_dir :: "path \<Rightarrow> bool"
  path_is_file :: "path \<Rightarrow> bool"
  path_exists :: "path \<Rightarrow> bool"
  symlink_metadata :: "path \<Rightarrow> bool option"
  canonicalize_path :: "path \<Rightarrow> path option"
  read_to_string :: "path \<Rightarrow> ustr option"
  tmpdir_var :: "ustr option"

text \<open>What \<open>getcwd\<close> promises.\<close>

definition cwd_absolute :: "disk \<Rightarrow> bool" where
  "cwd_absolute dk \<longleftrightarrow>
     (case current_dir (process_paths dk) of Inr c \<Rightarrow> path_is_absolute c | Inl _ \<Rightarrow> True)"

section \<open>AbsolutePathBuf on paths\<close>

text \<open>
  A path whose text starts with \<open>~\<close> followed by nothing or by a separator is one whose first
  component is \<open>~\<close>.
\<close>

definition expand_home :: "path_env \<Rightarrow> path \<Rightarrow> path" where
  "expand_home env p =
     (case (p, home_dir env) of
        (Normal t # rest, Some home) \<Rightarrow>
          if t = lit ''~'' then (if rest = [] then home else path_join home rest) else p
      | _ \<Rightarrow> p)"

definition from_path :: "disk \<Rightarrow> path \<Rightarrow> path option" where
  "from_path dk p =
     (case absolutize (process_paths dk) (expand_home (process_paths dk) p) of
        Inl _ \<Rightarrow> None | Inr q \<Rightarrow> Some q)"

definition resolve_path_against_base :: "disk \<Rightarrow> path \<Rightarrow> path \<Rightarrow> path" where
  "resolve_path_against_base dk p base = absolutize_from (expand_home (process_paths dk) p) base"

definition abs_join :: "disk \<Rightarrow> path \<Rightarrow> path \<Rightarrow> path" where
  "abs_join dk base p = resolve_path_against_base dk p base"

definition from_absolute_path_checked :: "disk \<Rightarrow> path \<Rightarrow> path option" where
  "from_absolute_path_checked dk p =
     (let expanded = expand_home (process_paths dk) p
      in if path_is_absolute expanded then Some (absolutize_from expanded [RootDir]) else None)"

definition relative_to_current_dir :: "disk \<Rightarrow> path \<Rightarrow> path option" where
  "relative_to_current_dir dk p =
     (case current_dir (process_paths dk) of
        Inl _ \<Rightarrow> None | Inr cwd \<Rightarrow> Some (resolve_path_against_base dk p cwd))"

text \<open>Deserializing takes the base of the guard, if one is held.\<close>

definition deserialize_path :: "disk \<Rightarrow> path option \<Rightarrow> path \<Rightarrow> path option" where
  "deserialize_path dk base p =
     (case base of
        Some b \<Rightarrow> Some (resolve_path_against_base dk p b)
      | None \<Rightarrow> if path_is_absolute p then from_path dk p else None)"

text \<open>\<open>Path::parent\<close> and \<open>Path::ancestors\<close>.\<close>

definition path_parent :: "path \<Rightarrow> path option" where
  "path_parent p = (if p = [] \<or> last p = RootDir then None else Some (butlast p))"

function ancestors :: "path \<Rightarrow> path list" where
  "ancestors p = (case path_parent p of None \<Rightarrow> [p] | Some q \<Rightarrow> p # ancestors q)"
  by pat_completeness auto
termination
  by (relation "measure length") (auto simp: path_parent_def split: if_splits)

declare ancestors.simps [simp del]

section \<open>Canonical paths that keep nested links\<close>

definition should_preserve_logical_path :: "disk \<Rightarrow> path \<Rightarrow> bool" where
  "should_preserve_logical_path dk logical \<longleftrightarrow>
     (\<exists>ancestor \<in> set (ancestors logical).
        symlink_metadata dk ancestor = Some True \<and>
        Option.bind (path_parent ancestor) path_parent \<noteq> None)"

definition canonicalize_preserving_symlinks :: "disk \<Rightarrow> path \<Rightarrow> path option" where
  "canonicalize_preserving_symlinks dk p =
     (case from_path dk p of
        None \<Rightarrow> None
      | Some logical \<Rightarrow>
          (case canonicalize_path dk p of
             Some canonical \<Rightarrow>
               if should_preserve_logical_path dk logical \<and> canonical \<noteq> logical
               then Some logical else Some canonical
           | None \<Rightarrow> Some logical))"

definition canonicalize_existing_preserving_symlinks :: "disk \<Rightarrow> path \<Rightarrow> path option" where
  "canonicalize_existing_preserving_symlinks dk p =
     (case from_path dk p of
        None \<Rightarrow> None
      | Some logical \<Rightarrow>
          (case canonicalize_path dk p of
             None \<Rightarrow> None
           | Some canonical \<Rightarrow>
               if should_preserve_logical_path dk logical \<and> canonical \<noteq> logical
               then Some logical else Some canonical))"

section \<open>Lemmas\<close>

lemma abs_normal_absolute: "abs_normal p \<Longrightarrow> path_is_absolute p"
  by (auto simp: abs_normal_def path_is_absolute_def)

lemma expand_home_absolute: "path_is_absolute p \<Longrightarrow> expand_home env p = p"
  by (cases p) (auto simp: expand_home_def path_is_absolute_def split: option.splits)

lemma from_path_absolute: "path_is_absolute p \<Longrightarrow> from_path dk p = Some (normalize_path p)"
  by (simp add: from_path_def expand_home_absolute absolutize_def)

lemma from_path_abs_normal [simp]: "abs_normal p \<Longrightarrow> from_path dk p = Some p"
  by (simp add: from_path_absolute abs_normal_absolute normalize_path_id)

lemma from_path_normal: "from_path dk p = Some q \<Longrightarrow> cwd_absolute dk \<Longrightarrow> abs_normal q"
  by (auto simp: from_path_def absolutize_def cwd_absolute_def normalize_path_absolute
      absolutize_from_abs_normal split: if_splits sum.splits)

lemma resolve_path_against_base_normal:
  "path_is_absolute base \<Longrightarrow> abs_normal (resolve_path_against_base dk p base)"
  by (simp add: resolve_path_against_base_def absolutize_from_abs_normal)

lemma abs_join_normal: "abs_normal base \<Longrightarrow> abs_normal (abs_join dk base p)"
  by (simp add: abs_join_def resolve_path_against_base_normal abs_normal_absolute)

lemma abs_join_name:
  assumes "abs_normal base" "n \<noteq> lit ''~''"
  shows "abs_join dk base [Normal n] = base @ [Normal n]"
proof -
  have "expand_home (process_paths dk) [Normal n] = [Normal n]"
    using assms(2) by (simp add: expand_home_def split: option.splits)
  then show ?thesis
    using absolutize_from_below [of base "[n]"] assms(1)
    by (simp add: abs_join_def resolve_path_against_base_def)
qed

lemma abs_normal_snoc: "abs_normal (p @ [c]) \<Longrightarrow> p \<noteq> [] \<Longrightarrow> abs_normal p \<and> (\<exists>n. c = Normal n)"
proof -
  assume "abs_normal (p @ [c])" "p \<noteq> []"
  then obtain ns where ns: "p @ [c] = RootDir # map Normal ns" by (auto simp: abs_normal_def)
  with \<open>p \<noteq> []\<close> show ?thesis
    by (cases ns rule: rev_cases) (auto simp: abs_normal_def Cons_eq_append_conv append_eq_Cons_conv)
qed

lemma abs_normal_append_iff:
  "abs_normal (p @ q) \<and> p \<noteq> [] \<longleftrightarrow> abs_normal p \<and> (\<exists>ns. q = map Normal ns)"
proof (induction q rule: rev_induct)
  case Nil
  show ?case by (auto simp: abs_normal_def)
next
  case (snoc c q)
  show ?case
  proof
    assume l: "abs_normal (p @ q @ [c]) \<and> p \<noteq> []"
    then have "abs_normal (p @ q) \<and> (\<exists>n. c = Normal n)" using abs_normal_snoc [of "p @ q" c] by simp
    with l snoc.IH obtain ns n where "abs_normal p" "q = map Normal ns" "c = Normal n" by auto
    then show "abs_normal p \<and> (\<exists>ns. q @ [c] = map Normal ns)"
      by (auto intro: exI [of _ "ns @ [n]"])
  next
    assume "abs_normal p \<and> (\<exists>ns. q @ [c] = map Normal ns)"
    then show "abs_normal (p @ q @ [c]) \<and> p \<noteq> []"
      by (auto simp: abs_normal_def simp flip: map_append)
  qed
qed

lemma abs_normal_induct [consumes 1, case_names root child]:
  assumes "abs_normal p" and "P [RootDir]"
    and "\<And>q n. abs_normal q \<Longrightarrow> P q \<Longrightarrow> P (q @ [Normal n])"
  shows "P p"
proof -
  obtain ns where p: "p = RootDir # map Normal ns" using assms(1) by (auto simp: abs_normal_def)
  have "P (RootDir # map Normal ns)"
  proof (induction ns rule: rev_induct)
    case (snoc n ns)
    then show ?case using assms(3) [of "RootDir # map Normal ns" n]
      by (auto simp: abs_normal_def)
  qed (simp add: assms(2))
  then show ?thesis by (simp add: p)
qed

lemma ancestors_root [simp]: "ancestors [RootDir] = [[RootDir]]"
  by (subst ancestors.simps) (simp add: path_parent_def)

lemma ancestors_child [simp]: "ancestors (q @ [Normal n]) = (q @ [Normal n]) # ancestors q"
  by (subst ancestors.simps) (simp add: path_parent_def)

lemma ancestors_nonempty [simp]: "ancestors p \<noteq> []"
  by (subst ancestors.simps) (simp split: option.splits)

lemma ancestors_abs_normal: "abs_normal p \<Longrightarrow> set (ancestors p) = {q. q \<noteq> [] \<and> prefix q p}"
  by (induction rule: abs_normal_induct) (auto simp: prefix_Cons prefix_snoc)

lemma last_ancestor: "abs_normal p \<Longrightarrow> last (ancestors p) = [RootDir]"
  by (induction rule: abs_normal_induct) simp_all

text \<open>Expanding the home directory in the text of a path and in its components is the same.\<close>

lemma map_filter_pieces_trim:
  "List.map_filter piece_component (split_char 47 (trim_start_matches 47 s)) =
   List.map_filter piece_component (split_char 47 s)"
  by (induction s) (auto simp: trim_start_matches_def piece_component_def map_filter_simps)

lemma map_filter_pieces_no_dot:
  "filter (\<lambda>c. c \<noteq> CurDir) (List.map_filter piece_component ps) = List.map_filter piece_component ps"
  by (induction ps) (auto simp: piece_component_def map_filter_simps)

lemma pieces_relative: "\<not> path_is_absolute (List.map_filter piece_component ps)"
  by (induction ps) (auto simp: path_is_absolute_def piece_component_def map_filter_simps)

lemma path_join_trimmed:
  assumes "home \<noteq> []"
  shows "path_join home (path_components (trim_start_matches 47 r)) =
         home @ List.map_filter piece_component (split_char 47 r)"
proof -
  let ?t = "trim_start_matches 47 r"
  have "\<not> starts_with (lit ''/'') ?t"
    by (induction r) (auto simp: trim_start_matches_def starts_with_def)
  then show ?thesis using assms pieces_relative [of "split_char 47 ?t"]
    by (auto simp: path_join_def path_components_def Let_def map_filter_pieces_no_dot
        map_filter_pieces_trim path_is_absolute_def)
qed

lemma map_filter_Cons_split:
  "List.map_filter f (x # xs) =
     (case f x of None \<Rightarrow> List.map_filter f xs | Some y \<Rightarrow> y # List.map_filter f xs)"
  by (simp add: map_filter_simps)

lemma path_components_head:
  assumes "path_components s = Normal t # rest"
  obtains "split_char 47 s \<noteq> []" "hd (split_char 47 s) = t"
    "rest = List.map_filter piece_component (tl (split_char 47 s))"
proof -
  have "s \<noteq> []" using assms
    by (auto simp: path_components_def Let_def piece_component_def map_filter_simps starts_with_def)
  have ns: "\<not> starts_with (lit ''/'') s" and "hd (split_char 47 s) \<noteq> lit ''.''"
    using assms by (auto simp: path_components_def Let_def split: if_splits)
  obtain p ps where ps: "split_char 47 s = p # ps" by (cases "split_char 47 s") auto
  have "p \<noteq> []"
    using ps ns \<open>s \<noteq> []\<close> by (cases s) (auto simp: starts_with_def split: if_splits list.splits)
  moreover have "p \<noteq> lit ''.''" using \<open>hd (split_char 47 s) \<noteq> lit ''.''\<close> ps by simp
  ultimately have "t = p \<and> rest = List.map_filter piece_component ps"
    using assms ns ps
    by (auto simp: path_components_def Let_def map_filter_Cons_split piece_component_def split: if_splits)
  then show thesis using that ps by simp
qed

lemma split_char_tilde: "hd (split_char 47 s) = lit ''~'' \<longleftrightarrow>
    s = lit ''~'' \<or> (\<exists>r. s = lit ''~/'' @ r)"
proof
  assume h: "hd (split_char 47 s) = lit ''~''"
  obtain ps where ps: "split_char 47 s = lit ''~'' # ps"
    using h by (cases "split_char 47 s") auto
  have s: "s = join [47] (lit ''~'' # ps)" using join_split_char [of 47 s] ps by simp
  show "s = lit ''~'' \<or> (\<exists>r. s = lit ''~/'' @ r)" by (cases ps) (simp_all add: s)
qed (auto simp: split_char_no_sep)

lemma expand_home_text:
  assumes "home_dir env \<noteq> Some []"
  shows "maybe_expand_home_directory env s = expand_home env (path_components s)"
proof (cases "home_dir env")
  case None
  then show ?thesis
    by (simp add: maybe_expand_home_directory_def expand_home_def split: list.splits component.splits)
next
  case (Some home)
  then have home: "home \<noteq> []" using assms by simp
  consider (bare) "s = lit ''~''" | (below) r where "s = lit ''~/'' @ r"
    | (other) "hd (split_char 47 s) \<noteq> lit ''~''"
    using split_char_tilde by blast
  then show ?thesis
  proof cases
    case bare
    then show ?thesis
      by (simp add: Some maybe_expand_home_directory_def expand_home_def path_components_def
          piece_component_def map_filter_simps starts_with_def)
  next
    case below
    have "path_components s = Normal (lit ''~'') # List.map_filter piece_component (split_char 47 r)"
      by (simp add: below path_components_def Let_def starts_with_def map_filter_Cons_split piece_component_def)
    moreover have "path_join home (List.map_filter piece_component (split_char 47 r)) =
        home @ List.map_filter piece_component (split_char 47 r)"
      using home by (simp add: path_join_def pieces_relative map_filter_pieces_no_dot)
    ultimately show ?thesis
      using path_join_trimmed [OF home, of r]
      by (auto simp: Some below maybe_expand_home_directory_def expand_home_def)
  next
    case other
    then have "expand_home env (path_components s) = path_components s"
      by (auto simp: expand_home_def Some split: list.splits component.splits elim: path_components_head)
    moreover have "maybe_expand_home_directory env s = path_components s"
      using other split_char_tilde [of s]
      by (auto simp: maybe_expand_home_directory_def Some strip_prefix_Some_iff split: option.splits)
    ultimately show ?thesis by simp
  qed
qed

end
