(* ===== verification/Sandbox_Policy.thy ===== *)
theory Sandbox_Policy
  imports Disk_Paths
begin

text \<open>
  The file-system sandbox policy of \<open>protocol/src/permissions.rs\<close>: access modes, the entries of a
  policy and the paths they stand for, the access a policy grants to a path, the protection of
  workspace metadata (\<open>.git\<close>, \<open>.agents\<close>, \<open>.codex\<close>) below writable roots, and the operations that
  build and change policies. A policy is a record, every operation returns the new one; the disk and
  the environment of the process are the record \<open>disk\<close>.
\<close>

section \<open>Data\<close>

datatype network_sandbox_policy = NetworkRestricted | NetworkEnabled

definition network_is_enabled :: "network_sandbox_policy \<Rightarrow> bool" where
  "network_is_enabled n \<longleftrightarrow> n = NetworkEnabled"

datatype file_system_access_mode = Read | Write | Deny

text \<open>The derived order: conflict precedence, \<open>Read < Write < Deny\<close>.\<close>

instantiation file_system_access_mode :: linorder
begin

fun access_rank :: "file_system_access_mode \<Rightarrow> nat" where
  "access_rank Read = 0"
| "access_rank Write = 1"
| "access_rank Deny = 2"

definition less_eq_file_system_access_mode :: "file_system_access_mode \<Rightarrow> file_system_access_mode \<Rightarrow> bool" where
  "less_eq_file_system_access_mode a b \<longleftrightarrow> access_rank a \<le> access_rank b"

definition less_file_system_access_mode :: "file_system_access_mode \<Rightarrow> file_system_access_mode \<Rightarrow> bool" where
  "less_file_system_access_mode a b \<longleftrightarrow> access_rank a < access_rank b"

instance
proof
  fix a b c :: file_system_access_mode
  show "a \<le> b \<Longrightarrow> b \<le> a \<Longrightarrow> a = b"
    by (cases a; cases b) (simp_all add: less_eq_file_system_access_mode_def)
qed (auto simp: less_eq_file_system_access_mode_def less_file_system_access_mode_def)

end

fun can_read :: "file_system_access_mode \<Rightarrow> bool" where
  "can_read a \<longleftrightarrow> a \<noteq> Deny"

fun can_write :: "file_system_access_mode \<Rightarrow> bool" where
  "can_write a \<longleftrightarrow> a = Write"

datatype file_system_special_path =
    Root | Minimal | ProjectRoots "ustr option" | Tmpdir | SlashTmp | Unknown ustr "ustr option"

datatype file_system_path =
    PathEntry path | GlobPattern ustr | Special file_system_special_path

datatype missing_path_behavior = Skip

record file_system_sandbox_entry =
  entry_path :: file_system_path
  entry_access :: file_system_access_mode
  entry_missing_path_behavior :: "missing_path_behavior option"

definition new_entry :: "file_system_path \<Rightarrow> file_system_access_mode \<Rightarrow> file_system_sandbox_entry" where
  "new_entry p a = \<lparr>entry_path = p, entry_access = a, entry_missing_path_behavior = None\<rparr>"

definition skip_missing_path :: "file_system_path \<Rightarrow> file_system_access_mode \<Rightarrow> file_system_sandbox_entry" where
  "skip_missing_path p a = \<lparr>entry_path = p, entry_access = a, entry_missing_path_behavior = Some Skip\<rparr>"

definition skips_missing_path :: "file_system_sandbox_entry \<Rightarrow> bool" where
  "skips_missing_path e \<longleftrightarrow> entry_missing_path_behavior e = Some Skip"

datatype file_system_sandbox_kind = Restricted | Unrestricted | ExternalSandbox

record file_system_sandbox_policy =
  policy_kind :: file_system_sandbox_kind
  glob_scan_max_depth :: "nat option"
  policy_entries :: "file_system_sandbox_entry list"

record resolved_file_system_entry =
  resolved_path :: path
  resolved_access :: file_system_access_mode

definition unrestricted :: file_system_sandbox_policy where
  "unrestricted = \<lparr>policy_kind = Unrestricted, glob_scan_max_depth = None, policy_entries = []\<rparr>"

definition external_sandbox :: file_system_sandbox_policy where
  "external_sandbox = \<lparr>policy_kind = ExternalSandbox, glob_scan_max_depth = None, policy_entries = []\<rparr>"

definition restricted :: "file_system_sandbox_entry list \<Rightarrow> file_system_sandbox_policy" where
  "restricted es = \<lparr>policy_kind = Restricted, glob_scan_max_depth = None, policy_entries = es\<rparr>"

definition read_only_file_system_entries :: "file_system_sandbox_entry list" where
  "read_only_file_system_entries = [new_entry (Special Root) Read]"

definition read_only :: file_system_sandbox_policy where
  "read_only = restricted read_only_file_system_entries"

section \<open>The paths entries stand for\<close>

definition resolve_file_system_special_path :: "disk \<Rightarrow> file_system_special_path \<Rightarrow> path option \<Rightarrow> path option" where
  "resolve_file_system_special_path dk value cwd =
     (case value of
        Root \<Rightarrow> None
      | Minimal \<Rightarrow> None
      | Unknown _ _ \<Rightarrow> None
      | ProjectRoots subpath \<Rightarrow>
          (case cwd of
             None \<Rightarrow> None
           | Some c \<Rightarrow>
               (case subpath of
                  Some s \<Rightarrow> Some (resolve_path_against_base dk (path_components s) c)
                | None \<Rightarrow> Some c))
      | Tmpdir \<Rightarrow>
          (case tmpdir_var dk of
             None \<Rightarrow> None
           | Some t \<Rightarrow> if t = [] then None else from_path dk (path_components t))
      | SlashTmp \<Rightarrow>
          (let slash_tmp = [RootDir, Normal (lit ''tmp'')]
           in if path_is_dir dk slash_tmp then Some slash_tmp else None))"

definition resolve_file_system_path :: "disk \<Rightarrow> file_system_path \<Rightarrow> path option \<Rightarrow> path option" where
  "resolve_file_system_path dk p cwd =
     (case p of PathEntry q \<Rightarrow> Some q | GlobPattern _ \<Rightarrow> None
      | Special value \<Rightarrow> resolve_file_system_special_path dk value cwd)"

text \<open>
  The root of a path is its last ancestor; on the absolute paths the code passes, building the
  \<open>AbsolutePathBuf\<close> of the root cannot fail.
\<close>

definition absolute_root_path_for_cwd :: "disk \<Rightarrow> path \<Rightarrow> path option" where
  "absolute_root_path_for_cwd dk cwd = from_path dk (last (ancestors cwd))"

definition resolve_entry_path :: "disk \<Rightarrow> file_system_path \<Rightarrow> path option \<Rightarrow> path option" where
  "resolve_entry_path dk p cwd =
     (if p = Special Root then Option.bind cwd (absolute_root_path_for_cwd dk)
      else resolve_file_system_path dk p cwd)"

definition resolve_candidate_path :: "disk \<Rightarrow> path \<Rightarrow> path \<Rightarrow> path option" where
  "resolve_candidate_path dk p cwd =
     (if path_is_absolute p then from_path dk p
      else (case from_path dk cwd of None \<Rightarrow> None | Some c \<Rightarrow> Some (abs_join dk c p)))"

definition resolved_entries_with_cwd :: "disk \<Rightarrow> file_system_sandbox_policy \<Rightarrow> path \<Rightarrow> resolved_file_system_entry list" where
  "resolved_entries_with_cwd dk policy cwd =
     (let cwd_absolute = from_path dk cwd
      in List.map_filter
           (\<lambda>e. map_option (\<lambda>q. \<lparr>resolved_path = q, resolved_access = entry_access e\<rparr>)
                  (resolve_entry_path dk (entry_path e) cwd_absolute))
           (policy_entries policy))"

section \<open>Access to a path\<close>

definition resolved_entry_precedence :: "resolved_file_system_entry \<Rightarrow> nat \<times> file_system_access_mode" where
  "resolved_entry_precedence e = (length (resolved_path e), resolved_access e)"

text \<open>\<open>Iterator::max_by_key\<close>: of several maxima the last one.\<close>

definition max_by_key :: "('a \<Rightarrow> 'k::linorder) \<Rightarrow> 'a list \<Rightarrow> 'a option" where
  "max_by_key f xs =
     (case xs of [] \<Rightarrow> None | x # rest \<Rightarrow> Some (foldl (\<lambda>b y. if f b \<le> f y then y else b) x rest))"

definition resolve_access_with_cwd :: "disk \<Rightarrow> file_system_sandbox_policy \<Rightarrow> path \<Rightarrow> path \<Rightarrow> file_system_access_mode" where
  "resolve_access_with_cwd dk policy p cwd =
     (if policy_kind policy \<noteq> Restricted then Write
      else case resolve_candidate_path dk p cwd of
             None \<Rightarrow> Deny
           | Some q \<Rightarrow>
               (case max_by_key resolved_entry_precedence
                       (filter (\<lambda>e. starts_with (resolved_path e) q) (resolved_entries_with_cwd dk policy cwd)) of
                  Some e \<Rightarrow> resolved_access e | None \<Rightarrow> Deny))"

definition can_read_path_with_cwd :: "disk \<Rightarrow> file_system_sandbox_policy \<Rightarrow> path \<Rightarrow> path \<Rightarrow> bool" where
  "can_read_path_with_cwd dk policy p cwd \<longleftrightarrow> can_read (resolve_access_with_cwd dk policy p cwd)"

section \<open>Full access\<close>

definition special_paths_share_target :: "file_system_special_path \<Rightarrow> file_system_special_path \<Rightarrow> bool" where
  "special_paths_share_target l r \<longleftrightarrow>
     (case (l, r) of
        (Root, Root) \<Rightarrow> True | (Minimal, Minimal) \<Rightarrow> True | (Tmpdir, Tmpdir) \<Rightarrow> True
      | (SlashTmp, SlashTmp) \<Rightarrow> True
      | (ProjectRoots a, ProjectRoots b) \<Rightarrow> a = b
      | (Unknown a sa, Unknown b sb) \<Rightarrow> a = b \<and> sa = sb
      | _ \<Rightarrow> False)"

definition special_path_matches_absolute_path :: "file_system_special_path \<Rightarrow> path \<Rightarrow> bool" where
  "special_path_matches_absolute_path value p \<longleftrightarrow>
     (case value of
        Root \<Rightarrow> path_parent p = None
      | SlashTmp \<Rightarrow> p = [RootDir, Normal (lit ''tmp'')]
      | _ \<Rightarrow> False)"

definition file_system_paths_share_target :: "file_system_path \<Rightarrow> file_system_path \<Rightarrow> bool" where
  "file_system_paths_share_target l r \<longleftrightarrow>
     (case (l, r) of
        (PathEntry a, PathEntry b) \<Rightarrow> a = b
      | (Special a, Special b) \<Rightarrow> special_paths_share_target a b
      | (PathEntry p, Special v) \<Rightarrow> special_path_matches_absolute_path v p
      | (Special v, PathEntry p) \<Rightarrow> special_path_matches_absolute_path v p
      | (GlobPattern a, GlobPattern b) \<Rightarrow> a = b
      | _ \<Rightarrow> False)"

definition has_root_access :: "file_system_sandbox_policy \<Rightarrow> (file_system_access_mode \<Rightarrow> bool) \<Rightarrow> bool" where
  "has_root_access policy pred \<longleftrightarrow>
     policy_kind policy = Restricted \<and>
     (\<exists>e \<in> set (policy_entries policy). entry_path e = Special Root \<and> pred (entry_access e))"

definition has_denied_read_restrictions :: "file_system_sandbox_policy \<Rightarrow> bool" where
  "has_denied_read_restrictions policy \<longleftrightarrow>
     policy_kind policy = Restricted \<and> (\<exists>e \<in> set (policy_entries policy). entry_access e = Deny)"

definition has_same_target_write_override :: "file_system_sandbox_policy \<Rightarrow> file_system_sandbox_entry \<Rightarrow> bool" where
  "has_same_target_write_override policy e \<longleftrightarrow>
     (\<exists>c \<in> set (policy_entries policy).
        can_write (entry_access c) \<and> entry_access c > entry_access e \<and>
        file_system_paths_share_target (entry_path c) (entry_path e))"

definition entry_narrows_write :: "file_system_sandbox_policy \<Rightarrow> file_system_sandbox_entry \<Rightarrow> bool" where
  "entry_narrows_write policy e \<longleftrightarrow>
     (if can_write (entry_access e) then False
      else case entry_path e of
             PathEntry _ \<Rightarrow> \<not> has_same_target_write_override policy e
           | GlobPattern _ \<Rightarrow> True
           | Special value \<Rightarrow>
               (case value of
                  Root \<Rightarrow> entry_access e = Deny
                | Minimal \<Rightarrow> False
                | Unknown _ _ \<Rightarrow> False
                | _ \<Rightarrow> \<not> has_same_target_write_override policy e))"

definition has_write_narrowing_entries :: "file_system_sandbox_policy \<Rightarrow> bool" where
  "has_write_narrowing_entries policy \<longleftrightarrow>
     policy_kind policy = Restricted \<and> (\<exists>e \<in> set (policy_entries policy). entry_narrows_write policy e)"

definition has_full_disk_read_access :: "file_system_sandbox_policy \<Rightarrow> bool" where
  "has_full_disk_read_access policy \<longleftrightarrow>
     (case policy_kind policy of
        Restricted \<Rightarrow> has_root_access policy can_read \<and> \<not> has_denied_read_restrictions policy
      | _ \<Rightarrow> True)"

definition has_full_disk_write_access :: "file_system_sandbox_policy \<Rightarrow> bool" where
  "has_full_disk_write_access policy \<longleftrightarrow>
     (case policy_kind policy of
        Restricted \<Rightarrow> has_root_access policy can_write \<and> \<not> has_write_narrowing_entries policy
      | _ \<Rightarrow> True)"

definition include_platform_defaults :: "file_system_sandbox_policy \<Rightarrow> bool" where
  "include_platform_defaults policy \<longleftrightarrow>
     \<not> has_full_disk_read_access policy \<and> policy_kind policy = Restricted \<and>
     (\<exists>e \<in> set (policy_entries policy). entry_path e = Special Minimal \<and> can_read (entry_access e))"

section \<open>Protected metadata\<close>

definition PROTECTED_METADATA_PATH_NAMES :: "ustr list" where
  "PROTECTED_METADATA_PATH_NAMES = [lit ''.git'', lit ''.agents'', lit ''.codex'']"

definition is_protected_metadata_name :: "ustr \<Rightarrow> bool" where
  "is_protected_metadata_name name \<longleftrightarrow> (\<exists>m \<in> set PROTECTED_METADATA_PATH_NAMES. name = m)"

definition metadata_path_name :: "ustr \<Rightarrow> ustr option" where
  "metadata_path_name name = find (\<lambda>m. name = m) PROTECTED_METADATA_PATH_NAMES"

definition component_os_str :: "component \<Rightarrow> ustr" where
  "component_os_str c = (if c = RootDir then lit ''/'' else component_text c)"

definition metadata_child :: "disk \<Rightarrow> path \<Rightarrow> resolved_file_system_entry \<Rightarrow> (path \<times> ustr) option" where
  "metadata_child dk target e =
     (case strip_prefix (resolved_path e) target of
        None \<Rightarrow> None
      | Some [] \<Rightarrow> None
      | Some (first_component # _) \<Rightarrow>
          (case metadata_path_name (component_os_str first_component) of
             None \<Rightarrow> None
           | Some name \<Rightarrow> Some (abs_join dk (resolved_path e) (path_components name), name)))"

definition metadata_child_of_writable_root ::
  "disk \<Rightarrow> file_system_sandbox_policy \<Rightarrow> path \<Rightarrow> path \<Rightarrow> (path \<times> ustr) option" where
  "metadata_child_of_writable_root dk policy target cwd =
     (case List.map_filter (metadata_child dk target)
             (filter (\<lambda>e. can_write (resolved_access e)) (resolved_entries_with_cwd dk policy cwd)) of
        [] \<Rightarrow> None | m # _ \<Rightarrow> Some m)"

definition has_explicit_write_entry_for_metadata_path ::
  "disk \<Rightarrow> file_system_sandbox_policy \<Rightarrow> path \<Rightarrow> path \<Rightarrow> path \<Rightarrow> bool" where
  "has_explicit_write_entry_for_metadata_path dk policy protected_metadata_path target cwd \<longleftrightarrow>
     (\<exists>e \<in> set (resolved_entries_with_cwd dk policy cwd).
        can_write (resolved_access e) \<and> starts_with (resolved_path e) target \<and>
        starts_with protected_metadata_path (resolved_path e))"

definition is_metadata_write_denied :: "disk \<Rightarrow> file_system_sandbox_policy \<Rightarrow> path \<Rightarrow> path \<Rightarrow> bool" where
  "is_metadata_write_denied dk policy p cwd \<longleftrightarrow>
     (if policy_kind policy \<noteq> Restricted then False
      else case resolve_candidate_path dk p cwd of
             None \<Rightarrow> True
           | Some target \<Rightarrow>
               (case metadata_child_of_writable_root dk policy target cwd of
                  None \<Rightarrow> False
                | Some (protected_metadata_path, _) \<Rightarrow>
                    \<not> has_explicit_write_entry_for_metadata_path dk policy protected_metadata_path target cwd))"

definition can_write_path_with_cwd :: "disk \<Rightarrow> file_system_sandbox_policy \<Rightarrow> path \<Rightarrow> path \<Rightarrow> bool" where
  "can_write_path_with_cwd dk policy p cwd \<longleftrightarrow>
     (if \<not> can_write (resolve_access_with_cwd dk policy p cwd) then False
      else if has_full_disk_write_access policy then True
      else \<not> is_metadata_write_denied dk policy p cwd)"

definition forbidden_agent_metadata_write :: "disk \<Rightarrow> path \<Rightarrow> path \<Rightarrow> file_system_sandbox_policy \<Rightarrow> ustr option" where
  "forbidden_agent_metadata_write dk p cwd policy =
     (if policy_kind policy \<noteq> Restricted then None
      else case resolve_candidate_path dk p cwd of
             None \<Rightarrow> None
           | Some target \<Rightarrow>
               (case metadata_child_of_writable_root dk policy target cwd of
                  None \<Rightarrow> None
                | Some (protected_metadata_path, metadata_name) \<Rightarrow>
                    if has_explicit_write_entry_for_metadata_path dk policy protected_metadata_path target cwd
                    then None
                    else if \<not> can_write_path_with_cwd dk policy target cwd then Some metadata_name
                    else None))"

definition has_explicit_non_write_entry_for_path_with_cwd ::
  "disk \<Rightarrow> file_system_sandbox_policy \<Rightarrow> path \<Rightarrow> path \<Rightarrow> bool" where
  "has_explicit_non_write_entry_for_path_with_cwd dk policy p cwd \<longleftrightarrow>
     (case resolve_candidate_path dk p cwd of
        None \<Rightarrow> False
      | Some q \<Rightarrow>
          (\<exists>e \<in> set (policy_entries policy).
             \<not> skips_missing_path e \<and> \<not> can_write (entry_access e) \<and>
             resolve_entry_path dk (entry_path e) (from_path dk cwd) = Some q))"

section \<open>Building and changing policies\<close>

definition remove_skip_missing_path_entries :: "file_system_sandbox_policy \<Rightarrow> file_system_sandbox_policy" where
  "remove_skip_missing_path_entries policy =
     policy\<lparr>policy_entries := filter (\<lambda>e. \<not> skips_missing_path e) (policy_entries policy)\<rparr>"

text \<open>The loops that push an entry unless it is there already.\<close>

definition push_entry_if_new :: "file_system_sandbox_entry list \<Rightarrow> file_system_sandbox_entry \<Rightarrow> file_system_sandbox_entry list" where
  "push_entry_if_new es e = (if e \<in> set es then es else es @ [e])"

definition deny_entries :: "file_system_sandbox_policy \<Rightarrow> file_system_sandbox_entry list" where
  "deny_entries policy = filter (\<lambda>e. entry_access e = Deny) (policy_entries policy)"

definition preserve_deny_read_restrictions_from ::
  "file_system_sandbox_policy \<Rightarrow> file_system_sandbox_policy \<Rightarrow> file_system_sandbox_policy" where
  "preserve_deny_read_restrictions_from policy existing =
     (let has_deny_read_entries = (\<exists>e \<in> set (policy_entries existing). entry_access e = Deny);
          policy1 = (if policy_kind policy = Unrestricted \<and> has_deny_read_entries
                     then restricted [new_entry (Special Root) Write] else policy)
      in if policy_kind policy1 \<noteq> Restricted then policy1
         else policy1\<lparr>glob_scan_max_depth :=
                        (if glob_scan_max_depth policy1 = None then glob_scan_max_depth existing
                         else glob_scan_max_depth policy1),
                      policy_entries := foldl push_entry_if_new (policy_entries policy1) (deny_entries existing)\<rparr>)"

definition append_default_read_only_entry_if_no_explicit_rule ::
  "file_system_sandbox_entry list \<Rightarrow> file_system_path \<Rightarrow> file_system_sandbox_entry list" where
  "append_default_read_only_entry_if_no_explicit_rule es p =
     (if \<exists>e \<in> set es. file_system_paths_share_target (entry_path e) p then es
      else es @ [skip_missing_path p Read])"

definition append_default_read_only_path_if_no_explicit_rule ::
  "file_system_sandbox_entry list \<Rightarrow> path \<Rightarrow> file_system_sandbox_entry list" where
  "append_default_read_only_path_if_no_explicit_rule es p =
     append_default_read_only_entry_if_no_explicit_rule es (PathEntry p)"

definition append_default_read_only_project_root_subpath_if_no_explicit_rule ::
  "file_system_sandbox_entry list \<Rightarrow> ustr \<Rightarrow> file_system_sandbox_entry list" where
  "append_default_read_only_project_root_subpath_if_no_explicit_rule es subpath =
     append_default_read_only_entry_if_no_explicit_rule es (Special (ProjectRoots (Some subpath)))"

definition is_git_pointer_file :: "disk \<Rightarrow> path \<Rightarrow> bool" where
  "is_git_pointer_file dk p \<longleftrightarrow> path_is_file dk p \<and> file_name p = Some (lit ''.git'')"

definition resolve_gitdir_from_file :: "disk \<Rightarrow> path \<Rightarrow> path option" where
  "resolve_gitdir_from_file dk dot_git =
     (case read_to_string dk dot_git of
        None \<Rightarrow> None
      | Some contents \<Rightarrow>
          (case split_once 58 (trim contents) of
             None \<Rightarrow> None
           | Some (pre, raw) \<Rightarrow>
               if trim pre \<noteq> lit ''gitdir'' then None
               else if trim raw = [] then None
               else (case path_parent dot_git of
                       None \<Rightarrow> None
                     | Some base \<Rightarrow>
                         (let gitdir_path = resolve_path_against_base dk (path_components (trim raw)) base
                          in if path_exists dk gitdir_path then Some gitdir_path else None))))"

text \<open>\<open>dedup_absolute_paths\<close> keeps the first of equal paths, after following links if asked to.\<close>

fun normalize_effective_from :: "disk \<Rightarrow> path \<Rightarrow> path list \<Rightarrow> path" where
  "normalize_effective_from dk raw [] = raw"
| "normalize_effective_from dk raw (ancestor # rest) =
     (if symlink_metadata dk ancestor = None then normalize_effective_from dk raw rest
      else case canonicalize_preserving_symlinks dk ancestor of
             None \<Rightarrow> normalize_effective_from dk raw rest
           | Some normalized_ancestor \<Rightarrow>
               (case strip_prefix ancestor raw of
                  None \<Rightarrow> normalize_effective_from dk raw rest
                | Some below \<Rightarrow>
                    (case from_path dk (path_join normalized_ancestor below) of
                       Some q \<Rightarrow> q | None \<Rightarrow> normalize_effective_from dk raw rest)))"

definition normalize_effective_absolute_path :: "disk \<Rightarrow> path \<Rightarrow> path" where
  "normalize_effective_absolute_path dk p = normalize_effective_from dk p (ancestors p)"

fun dedup_from :: "path list \<Rightarrow> path list \<Rightarrow> path list" where
  "dedup_from seen [] = []"
| "dedup_from seen (p # ps) =
     (if p \<in> set seen then dedup_from seen ps else p # dedup_from (p # seen) ps)"

definition dedup_absolute_paths :: "disk \<Rightarrow> path list \<Rightarrow> bool \<Rightarrow> path list" where
  "dedup_absolute_paths dk ps normalize_effective_paths =
     dedup_from [] (if normalize_effective_paths then map (normalize_effective_absolute_path dk) ps else ps)"

definition default_read_only_subpaths_for_writable_root :: "disk \<Rightarrow> path \<Rightarrow> bool \<Rightarrow> path list" where
  "default_read_only_subpaths_for_writable_root dk writable_root protect_missing_dot_codex =
     (let top_level_git = abs_join dk writable_root (path_components (lit ''.git''));
          top_level_git_is_file = path_is_file dk top_level_git;
          top_level_git_is_dir = path_is_dir dk top_level_git;
          git_paths =
            (if top_level_git_is_dir \<or> top_level_git_is_file
             then (if top_level_git_is_file \<and> is_git_pointer_file dk top_level_git
                   then (case resolve_gitdir_from_file dk top_level_git of Some gitdir \<Rightarrow> [gitdir] | None \<Rightarrow> [])
                   else []) @ [top_level_git]
             else []);
          top_level_agents = abs_join dk writable_root (path_components (lit ''.agents''));
          agents_paths = (if path_is_dir dk top_level_agents then [top_level_agents] else []);
          top_level_codex = abs_join dk writable_root (path_components (lit ''.codex''));
          codex_paths = (if protect_missing_dot_codex \<or> path_is_dir dk top_level_codex
                         then [top_level_codex] else [])
      in dedup_absolute_paths dk (git_paths @ agents_paths @ codex_paths) False)"

text \<open>Pushing the default read-only subpaths of one root, and of each root of a list.\<close>

definition protect_root :: "disk \<Rightarrow> bool \<Rightarrow> file_system_sandbox_entry list \<Rightarrow> path \<Rightarrow> file_system_sandbox_entry list" where
  "protect_root dk protect_missing es root =
     foldl append_default_read_only_path_if_no_explicit_rule es
       (default_read_only_subpaths_for_writable_root dk root protect_missing)"

definition workspace_allow_entries :: "path list \<Rightarrow> bool \<Rightarrow> bool \<Rightarrow> file_system_sandbox_entry list" where
  "workspace_allow_entries writable_roots exclude_tmpdir_env_var exclude_slash_tmp =
     [new_entry (Special Root) Read, new_entry (Special (ProjectRoots None)) Write] @
     (if exclude_slash_tmp then [] else [new_entry (Special SlashTmp) Write]) @
     (if exclude_tmpdir_env_var then [] else [new_entry (Special Tmpdir) Write]) @
     map (\<lambda>p. new_entry (PathEntry p) Write) writable_roots"

definition workspace_write :: "disk \<Rightarrow> path list \<Rightarrow> bool \<Rightarrow> bool \<Rightarrow> file_system_sandbox_policy" where
  "workspace_write dk writable_roots exclude_tmpdir_env_var exclude_slash_tmp =
     (let es0 = workspace_allow_entries writable_roots exclude_tmpdir_env_var exclude_slash_tmp;
          es1 = append_default_read_only_project_root_subpath_if_no_explicit_rule es0 (lit ''.git'');
          es2 = append_default_read_only_project_root_subpath_if_no_explicit_rule es1 (lit ''.agents'');
          es3 = append_default_read_only_project_root_subpath_if_no_explicit_rule es2 (lit ''.codex'')
      in restricted (foldl (protect_root dk False) es3 writable_roots))"

section \<open>Project roots made concrete\<close>

definition PROJECT_ROOTS_GLOB_PATTERN_PREFIX :: ustr where
  "PROJECT_ROOTS_GLOB_PATTERN_PREFIX = lit ''codex-project-roots://''"

definition project_roots_glob_pattern :: "ustr \<Rightarrow> ustr" where
  "project_roots_glob_pattern subpath = PROJECT_ROOTS_GLOB_PATTERN_PREFIX @ subpath"

definition parse_project_roots_glob_pattern :: "ustr \<Rightarrow> path option" where
  "parse_project_roots_glob_pattern pattern =
     map_option path_components (strip_prefix PROJECT_ROOTS_GLOB_PATTERN_PREFIX pattern)"

definition resolve_project_roots_glob_pattern :: "disk \<Rightarrow> path \<Rightarrow> path \<Rightarrow> ustr" where
  "resolve_project_roots_glob_pattern dk subpath root = path_display (resolve_path_against_base dk subpath root)"

definition materialize_entry_with_cwd :: "disk \<Rightarrow> path option \<Rightarrow> file_system_sandbox_entry \<Rightarrow> file_system_sandbox_entry" where
  "materialize_entry_with_cwd dk cwd e =
     (case entry_path e of
        Special (ProjectRoots _) \<Rightarrow>
          (case resolve_file_system_path dk (entry_path e) cwd of
             Some p \<Rightarrow> e\<lparr>entry_path := PathEntry p\<rparr> | None \<Rightarrow> e)
      | GlobPattern pattern \<Rightarrow>
          (case (cwd, parse_project_roots_glob_pattern pattern) of
             (Some c, Some subpath) \<Rightarrow>
               e\<lparr>entry_path := GlobPattern (resolve_project_roots_glob_pattern dk subpath c)\<rparr>
           | _ \<Rightarrow> e)
      | _ \<Rightarrow> e)"

definition materialize_project_roots_with_cwd :: "disk \<Rightarrow> file_system_sandbox_policy \<Rightarrow> path \<Rightarrow> file_system_sandbox_policy" where
  "materialize_project_roots_with_cwd dk policy cwd =
     policy\<lparr>policy_entries := map (materialize_entry_with_cwd dk (from_path dk cwd)) (policy_entries policy)\<rparr>"

definition materialize_entry_with_roots :: "disk \<Rightarrow> path list \<Rightarrow> file_system_sandbox_entry \<Rightarrow> file_system_sandbox_entry list" where
  "materialize_entry_with_roots dk workspace_roots e =
     (case entry_path e of
        Special (ProjectRoots subpath) \<Rightarrow>
          map (\<lambda>root. e\<lparr>entry_path := PathEntry
                 (case subpath of Some s \<Rightarrow> resolve_path_against_base dk (path_components s) root
                  | None \<Rightarrow> root)\<rparr>) workspace_roots
      | GlobPattern pattern \<Rightarrow>
          (case parse_project_roots_glob_pattern pattern of
             Some subpath \<Rightarrow>
               map (\<lambda>root. e\<lparr>entry_path := GlobPattern (resolve_project_roots_glob_pattern dk subpath root)\<rparr>)
                 workspace_roots
           | None \<Rightarrow> [e])
      | _ \<Rightarrow> [e])"

definition materialize_project_roots_with_workspace_roots ::
  "disk \<Rightarrow> file_system_sandbox_policy \<Rightarrow> path list \<Rightarrow> file_system_sandbox_policy" where
  "materialize_project_roots_with_workspace_roots dk policy workspace_roots =
     policy\<lparr>policy_entries := concat (map (materialize_entry_with_roots dk workspace_roots) (policy_entries policy))\<rparr>"

definition with_materialized_project_roots_for_workspace_roots ::
  "disk \<Rightarrow> file_system_sandbox_policy \<Rightarrow> path list \<Rightarrow> file_system_sandbox_policy" where
  "with_materialized_project_roots_for_workspace_roots dk policy workspace_roots =
     policy\<lparr>policy_entries :=
       foldl push_entry_if_new (policy_entries policy)
         (policy_entries (materialize_project_roots_with_workspace_roots dk policy workspace_roots))\<rparr>"

section \<open>Additional roots\<close>

definition push_entry :: "file_system_sandbox_policy \<Rightarrow> file_system_sandbox_entry \<Rightarrow> file_system_sandbox_policy" where
  "push_entry policy e = policy\<lparr>policy_entries := policy_entries policy @ [e]\<rparr>"

definition add_readable_root :: "disk \<Rightarrow> path \<Rightarrow> file_system_sandbox_policy \<Rightarrow> path \<Rightarrow> file_system_sandbox_policy" where
  "add_readable_root dk cwd policy p =
     (if can_read_path_with_cwd dk policy p cwd then policy
      else push_entry policy (new_entry (PathEntry p) Read))"

definition with_additional_readable_roots :: "disk \<Rightarrow> file_system_sandbox_policy \<Rightarrow> path \<Rightarrow> path list \<Rightarrow> file_system_sandbox_policy" where
  "with_additional_readable_roots dk policy cwd roots =
     (if has_full_disk_read_access policy then policy
      else foldl (add_readable_root dk cwd) policy roots)"

definition add_writable_root :: "disk \<Rightarrow> path \<Rightarrow> file_system_sandbox_policy \<Rightarrow> path \<Rightarrow> file_system_sandbox_policy" where
  "add_writable_root dk cwd policy p =
     (if can_write_path_with_cwd dk policy p cwd then policy
      else push_entry policy (new_entry (PathEntry p) Write))"

definition with_additional_writable_roots :: "disk \<Rightarrow> file_system_sandbox_policy \<Rightarrow> path \<Rightarrow> path list \<Rightarrow> file_system_sandbox_policy" where
  "with_additional_writable_roots dk policy cwd roots = foldl (add_writable_root dk cwd) policy roots"

definition add_legacy_writable_root :: "disk \<Rightarrow> file_system_sandbox_policy \<Rightarrow> path \<Rightarrow> file_system_sandbox_policy" where
  "add_legacy_writable_root dk policy p =
     (let policy1 =
        (if \<exists>e \<in> set (policy_entries policy). can_write (entry_access e) \<and> entry_path e = PathEntry p
         then policy else push_entry policy (new_entry (PathEntry p) Write))
      in policy1\<lparr>policy_entries := protect_root dk False (policy_entries policy1) p\<rparr>)"

definition with_additional_legacy_workspace_writable_roots ::
  "disk \<Rightarrow> file_system_sandbox_policy \<Rightarrow> path list \<Rightarrow> file_system_sandbox_policy" where
  "with_additional_legacy_workspace_writable_roots dk policy roots =
     (if policy_kind policy \<noteq> Restricted then policy
      else foldl (add_legacy_writable_root dk) policy roots)"

section \<open>Well-formed policies\<close>

text \<open>The paths of entries are \<open>AbsolutePathBuf\<close>s.\<close>

definition policy_wf :: "file_system_sandbox_policy \<Rightarrow> bool" where
  "policy_wf policy \<longleftrightarrow>
     list_all (\<lambda>e. case entry_path e of PathEntry p \<Rightarrow> abs_normal p | _ \<Rightarrow> True) (policy_entries policy)"

end
