(* ===== verification/Sandbox_Access.thy ===== *)
theory Sandbox_Access
  imports Sandbox_Policy
begin

text \<open>
  What the sandbox policies of \<open>Sandbox_Policy\<close> promise: which entry governs a path, what full
  access means, that metadata below writable roots stays protected, and what each operation that
  changes a policy does to the access of paths.
\<close>

section \<open>Lemmas\<close>

lemma max_by_key_None_iff [simp]: "max_by_key f xs = None \<longleftrightarrow> xs = []"
  by (cases xs) (simp_all add: max_by_key_def)

lemma foldl_max_by:
  "foldl (\<lambda>b y. if f b \<le> (f y :: 'k::linorder) then y else b) x xs = m \<Longrightarrow>
   m \<in> set (x # xs) \<and> (\<forall>y \<in> set (x # xs). f y \<le> f m)"
proof (induction xs arbitrary: x)
  case (Cons y ys)
  show ?case
    using Cons.IH [of "if f x \<le> f y then y else x"] Cons.prems
    by (auto split: if_splits)
qed simp

lemma max_by_key_Some: "max_by_key f xs = Some m \<Longrightarrow> m \<in> set xs \<and> (\<forall>y \<in> set xs. f y \<le> f m)"
  using foldl_max_by [of f] by (cases xs) (auto simp: max_by_key_def)

lemma resolved_entry_iff:
  "r \<in> set (resolved_entries_with_cwd dk policy cwd) \<longleftrightarrow>
   (\<exists>e \<in> set (policy_entries policy).
      resolve_entry_path dk (entry_path e) (from_path dk cwd) = Some (resolved_path r) \<and>
      entry_access e = resolved_access r)"
proof -
  have "r = \<lparr>resolved_path = q, resolved_access = a\<rparr> \<longleftrightarrow> resolved_path r = q \<and> resolved_access r = a" for q a
    by (cases r) auto
  then show ?thesis
    by (simp add: resolved_entries_with_cwd_def Let_def set_map_filter_iff eq_commute [of _ r]) metis
qed

lemma resolved_entries_push:
  "resolved_entries_with_cwd dk (push_entry policy e) cwd =
   resolved_entries_with_cwd dk policy cwd @
   (case resolve_entry_path dk (entry_path e) (from_path dk cwd) of
      Some q \<Rightarrow> [\<lparr>resolved_path = q, resolved_access = entry_access e\<rparr>] | None \<Rightarrow> [])"
  by (simp add: resolved_entries_with_cwd_def push_entry_def List.map_filter_def Let_def split: option.splits)

lemma resolve_entry_path_PathEntry [simp]: "resolve_entry_path dk (PathEntry p) cwd = Some p"
  by (simp add: resolve_entry_path_def resolve_file_system_path_def)

lemma resolve_entry_path_Root:
  "abs_normal c \<Longrightarrow> resolve_entry_path dk (Special Root) (Some c) = Some [RootDir]"
  by (simp add: resolve_entry_path_def absolute_root_path_for_cwd_def last_ancestor abs_normal_def
      from_path_absolute path_is_absolute_def normalize_path_id)

lemma resolve_special_normal:
  assumes "resolve_file_system_special_path dk v cwd = Some q" "cwd_absolute dk"
    "\<And>c. cwd = Some c \<Longrightarrow> abs_normal c"
  shows "abs_normal q"
proof -
  have "abs_normal [RootDir, Normal n]" for n by (auto simp: abs_normal_def intro: exI [of _ "[n]"])
  then show ?thesis using assms
    by (cases v)
      (auto simp: resolve_file_system_special_path_def Let_def abs_normal_absolute
        resolve_path_against_base_normal from_path_normal
        split: option.splits if_splits)
qed

lemma resolved_entry_normal:
  assumes "policy_wf policy" "cwd_absolute dk" "r \<in> set (resolved_entries_with_cwd dk policy cwd)"
  shows "abs_normal (resolved_path r)"
proof -
  obtain e where e: "e \<in> set (policy_entries policy)"
    and q: "resolve_entry_path dk (entry_path e) (from_path dk cwd) = Some (resolved_path r)"
    using assms(3) by (auto simp: resolved_entry_iff)
  have c: "abs_normal c" if "from_path dk cwd = Some c" for c using that assms(2) by (rule from_path_normal)
  show ?thesis
  proof (cases "entry_path e")
    case (PathEntry p)
    then show ?thesis using e q assms(1) by (force simp: policy_wf_def list_all_iff)
  next
    case (GlobPattern g)
    then show ?thesis using q by (simp add: resolve_entry_path_def resolve_file_system_path_def)
  next
    case (Special v)
    show ?thesis
    proof (cases "v = Root")
      case True
      then obtain c' where "from_path dk cwd = Some c'" using q Special
        by (cases "from_path dk cwd") (auto simp: resolve_entry_path_def)
      then have "resolved_path r = [RootDir]" using q c Special True by (simp add: resolve_entry_path_Root)
      then show ?thesis by (simp add: abs_normal_def)
    next
      case False
      then show ?thesis using q Special c assms(2)
        by (auto simp: resolve_entry_path_def resolve_file_system_path_def intro: resolve_special_normal)
    qed
  qed
qed

lemma resolve_candidate_normal:
  "resolve_candidate_path dk p cwd = Some q \<Longrightarrow> cwd_absolute dk \<Longrightarrow> abs_normal q"
  by (auto simp: resolve_candidate_path_def abs_join_normal from_path_normal split: if_splits option.splits)

lemma resolve_candidate_abs [simp]: "abs_normal p \<Longrightarrow> resolve_candidate_path dk p cwd = Some p"
  by (simp add: resolve_candidate_path_def abs_normal_absolute)

text \<open>The entry that governs a path, as a relation on the resolved entries.\<close>

definition governed_by :: "resolved_file_system_entry list \<Rightarrow> path \<Rightarrow> resolved_file_system_entry \<Rightarrow> bool" where
  "governed_by es q g \<longleftrightarrow> g \<in> set es \<and> prefix (resolved_path g) q \<and>
     (\<forall>e \<in> set es. prefix (resolved_path e) q \<longrightarrow>
        prefix (resolved_path e) (resolved_path g) \<and>
        (resolved_path e = resolved_path g \<longrightarrow> resolved_access e \<le> resolved_access g))"

lemma governed_by_precedence:
  "governed_by es q g \<longleftrightarrow> g \<in> set es \<and> prefix (resolved_path g) q \<and>
     (\<forall>e \<in> set es. prefix (resolved_path e) q \<longrightarrow> resolved_entry_precedence e \<le> resolved_entry_precedence g)"
proof -
  have "(prefix (resolved_path e) (resolved_path g) \<and>
         (resolved_path e = resolved_path g \<longrightarrow> resolved_access e \<le> resolved_access g)) \<longleftrightarrow>
        resolved_entry_precedence e \<le> resolved_entry_precedence g"
    if "prefix (resolved_path e) q" "prefix (resolved_path g) q" for e
  proof -
    have "prefix (resolved_path e) (resolved_path g) \<longleftrightarrow> length (resolved_path e) \<le> length (resolved_path g)"
      using that by (meson prefix_length_le prefix_length_prefix)
    moreover have "resolved_path e = resolved_path g \<longleftrightarrow> length (resolved_path e) = length (resolved_path g)"
      using that by (metis prefix_order.antisym prefix_length_prefix order_refl)
    ultimately show ?thesis by (auto simp: resolved_entry_precedence_def less_eq_prod_def)
  qed
  then show ?thesis unfolding governed_by_def by blast
qed

lemma governed_by_exists:
  assumes "e \<in> set es" "prefix (resolved_path e) q"
  obtains g where "governed_by es q g"
    "max_by_key resolved_entry_precedence (filter (\<lambda>e. starts_with (resolved_path e) q) es) = Some g"
proof -
  let ?m = "filter (\<lambda>e. starts_with (resolved_path e) q) es"
  have "e \<in> set ?m" using assms by (simp add: starts_with_prefix)
  then obtain g where "max_by_key resolved_entry_precedence ?m = Some g"
    using max_by_key_None_iff [of resolved_entry_precedence ?m]
    by (metis list.set_cases list.distinct(1) not_Some_eq)
  moreover from max_by_key_Some [OF this] have "governed_by es q g"
    unfolding governed_by_precedence by (auto simp: starts_with_prefix)
  ultimately show thesis using that by blast
qed

lemma governed_by_unique:
  "governed_by es q g \<Longrightarrow> governed_by es q h \<Longrightarrow> resolved_access g = resolved_access h"
  unfolding governed_by_def by (metis order_antisym prefix_order.antisym)

lemma resolve_access_governed:
  assumes "policy_kind policy = Restricted" "resolve_candidate_path dk p cwd = Some q"
    "governed_by (resolved_entries_with_cwd dk policy cwd) q g"
  shows "resolve_access_with_cwd dk policy p cwd = resolved_access g"
proof -
  obtain h where "governed_by (resolved_entries_with_cwd dk policy cwd) q h"
    "max_by_key resolved_entry_precedence
       (filter (\<lambda>e. starts_with (resolved_path e) q) (resolved_entries_with_cwd dk policy cwd)) = Some h"
    using assms(3) governed_by_exists [of g] by (auto simp: governed_by_def)
  then show ?thesis using assms governed_by_unique [of _ q h g] by (simp add: resolve_access_with_cwd_def)
qed

lemma resolve_access_ungoverned:
  assumes "policy_kind policy = Restricted" "resolve_candidate_path dk p cwd = Some q"
    "\<not> (\<exists>e \<in> set (resolved_entries_with_cwd dk policy cwd). prefix (resolved_path e) q)"
  shows "resolve_access_with_cwd dk policy p cwd = Deny"
proof -
  have "filter (\<lambda>e. starts_with (resolved_path e) q) (resolved_entries_with_cwd dk policy cwd) = []"
    using assms(3) by (auto simp: filter_empty_conv starts_with_prefix)
  then show ?thesis using assms by (simp add: resolve_access_with_cwd_def max_by_key_def)
qed

lemma resolve_access_cases:
  assumes "policy_kind policy = Restricted" "resolve_candidate_path dk p cwd = Some q"
  obtains (governed) g where "governed_by (resolved_entries_with_cwd dk policy cwd) q g"
      "resolve_access_with_cwd dk policy p cwd = resolved_access g"
    | (ungoverned) "\<not> (\<exists>e \<in> set (resolved_entries_with_cwd dk policy cwd). prefix (resolved_path e) q)"
      "resolve_access_with_cwd dk policy p cwd = Deny"
proof (cases "\<exists>e \<in> set (resolved_entries_with_cwd dk policy cwd). prefix (resolved_path e) q")
  case True
  then obtain g where "governed_by (resolved_entries_with_cwd dk policy cwd) q g"
    using governed_by_exists by blast
  with resolve_access_governed [OF assms this] governed show thesis by blast
next
  case False
  with resolve_access_ungoverned [OF assms] ungoverned show thesis by blast
qed

text \<open>Entries that share a target stand for the same path.\<close>

lemma path_parent_None: "abs_normal p \<Longrightarrow> path_parent p = None \<longleftrightarrow> p = [RootDir]"
  by (erule abs_normal_induct) (auto simp: path_parent_def abs_normal_def)

lemma share_target_resolves:
  assumes "file_system_paths_share_target a b" "resolve_entry_path dk b (Some c) = Some q" "abs_normal c"
    "path_is_dir dk [RootDir, Normal (lit ''tmp'')]"
    "\<And>p. a = PathEntry p \<or> b = PathEntry p \<Longrightarrow> abs_normal p"
  shows "resolve_entry_path dk a (Some c) = Some q"
proof (cases a)
  case (PathEntry p)
  then show ?thesis using assms resolve_entry_path_Root [OF assms(3), of dk] path_parent_None [of p]
    by (auto simp: file_system_paths_share_target_def special_path_matches_absolute_path_def
        resolve_entry_path_def resolve_file_system_path_def resolve_file_system_special_path_def Let_def
        split: file_system_path.splits file_system_special_path.splits if_splits)
next
  case (GlobPattern g)
  then show ?thesis using assms by (auto simp: file_system_paths_share_target_def split: file_system_path.splits)
next
  case (Special v)
  show ?thesis
  proof (cases b)
    case (PathEntry p)
    then show ?thesis
      using assms Special resolve_entry_path_Root [OF assms(3), of dk] path_parent_None [of p]
      by (auto simp: file_system_paths_share_target_def special_path_matches_absolute_path_def
          resolve_entry_path_def resolve_file_system_path_def resolve_file_system_special_path_def Let_def
          split: file_system_special_path.splits)
  next
    case (GlobPattern g)
    then show ?thesis using assms Special by (simp add: file_system_paths_share_target_def)
  next
    case (Special w)
    with \<open>a = Special v\<close> assms(1) have "a = b"
      by (auto simp: file_system_paths_share_target_def special_paths_share_target_def
          split: file_system_special_path.splits)
    then show ?thesis using assms(2) by simp
  qed
qed

lemma root_entry_resolved:
  assumes "e \<in> set (policy_entries policy)" "entry_path e = Special Root" "from_path dk cwd = Some c" "abs_normal c"
  shows "\<lparr>resolved_path = [RootDir], resolved_access = entry_access e\<rparr> \<in> set (resolved_entries_with_cwd dk policy cwd)"
  using assms resolve_entry_path_Root [OF assms(4), of dk] by (force simp: resolved_entry_iff)

lemma prefix_root: "abs_normal q \<Longrightarrow> prefix [RootDir] q"
  by (auto simp: abs_normal_def)

lemma full_read_governs:
  assumes "has_full_disk_read_access policy" "cwd_absolute dk" "from_path dk cwd = Some c"
    "resolve_candidate_path dk p cwd = Some q"
  shows "can_read_path_with_cwd dk policy p cwd"
proof (cases "policy_kind policy = Restricted")
  case True
  have c: "abs_normal c" and q: "abs_normal q"
    using assms by (auto intro: from_path_normal resolve_candidate_normal)
  have root: "\<exists>e \<in> set (policy_entries policy). entry_path e = Special Root"
    and nodeny: "\<forall>e \<in> set (policy_entries policy). entry_access e \<noteq> Deny"
    using assms(1) True
    by (auto simp: has_full_disk_read_access_def has_root_access_def has_denied_read_restrictions_def)
  show ?thesis using True assms(4)
  proof (cases rule: resolve_access_cases)
    case (governed g)
    then show ?thesis using nodeny
      by (auto simp: can_read_path_with_cwd_def governed_by_def resolved_entry_iff)
  next
    case ungoverned
    then show ?thesis using root root_entry_resolved [OF _ _ assms(3) c] prefix_root [OF q] by fastforce
  qed
qed (simp add: can_read_path_with_cwd_def resolve_access_with_cwd_def)

lemma unnarrowed_entry_overridden:
  assumes "policy_wf policy" "from_path dk cwd = Some c" "abs_normal c" "path_is_dir dk [RootDir, Normal (lit ''tmp'')]"
    and root: "root \<in> set (policy_entries policy)" "entry_path root = Special Root" "entry_access root = Write"
    and narrow: "\<forall>e \<in> set (policy_entries policy). \<not> entry_narrows_write policy e"
    and e: "e \<in> set (policy_entries policy)" "resolve_entry_path dk (entry_path e) (Some c) = Some q" "entry_access e \<noteq> Write"
  shows "\<exists>e' \<in> set (resolved_entries_with_cwd dk policy cwd). resolved_path e' = q \<and> entry_access e < resolved_access e'"
proof -
  have "entry_path e = Special Root \<or> has_same_target_write_override policy e"
    using bspec [OF narrow e(1)] e(2,3)
    by (cases "entry_path e")
      (auto simp: entry_narrows_write_def resolve_entry_path_def resolve_file_system_path_def
        resolve_file_system_special_path_def split: file_system_special_path.splits)
  then show ?thesis
  proof
    assume r: "entry_path e = Special Root"
    then have "entry_access e = Read" using narrow e(1,3)
      by (cases "entry_access e") (auto simp: entry_narrows_write_def)
    moreover have "q = [RootDir]" using e(2) r resolve_entry_path_Root [OF assms(3)] by simp
    ultimately show ?thesis using root_entry_resolved [OF root(1,2) assms(2,3), unfolded root(3)]
      by (intro bexI) (auto simp: less_file_system_access_mode_def)
  next
    assume "has_same_target_write_override policy e"
    then obtain o' where o: "o' \<in> set (policy_entries policy)" "entry_access o' = Write" "entry_access o' > entry_access e"
        "file_system_paths_share_target (entry_path o') (entry_path e)"
      by (auto simp: has_same_target_write_override_def)
    have "resolve_entry_path dk (entry_path o') (Some c) = Some q"
      using o(4) e(2) assms(3,4)
      by (rule share_target_resolves) (use assms(1) e(1) o(1) in \<open>force simp: policy_wf_def list_all_iff\<close>)
    then have "\<lparr>resolved_path = q, resolved_access = Write\<rparr> \<in> set (resolved_entries_with_cwd dk policy cwd)"
      using o(1,2) assms(2) by (force simp: resolved_entry_iff)
    then show ?thesis using o(2,3) by (intro bexI) auto
  qed
qed

lemma full_write_governs:
  assumes "has_full_disk_write_access policy" "policy_wf policy" "cwd_absolute dk" "from_path dk cwd = Some c"
    "resolve_candidate_path dk p cwd = Some q" "path_is_dir dk [RootDir, Normal (lit ''tmp'')]"
  shows "can_write_path_with_cwd dk policy p cwd"
proof (cases "policy_kind policy = Restricted")
  case True
  have c: "abs_normal c" and q: "abs_normal q"
    using assms by (auto intro: from_path_normal resolve_candidate_normal)
  obtain root where root: "root \<in> set (policy_entries policy)" "entry_path root = Special Root" "entry_access root = Write"
    and narrow: "\<forall>e \<in> set (policy_entries policy). \<not> entry_narrows_write policy e"
    using assms(1) True
    by (auto simp: has_full_disk_write_access_def has_root_access_def has_write_narrowing_entries_def)
  note rootr = root_entry_resolved [OF root(1,2) assms(4) c, unfolded root(3)]
  have "resolve_access_with_cwd dk policy p cwd = Write" using True assms(5)
  proof (cases rule: resolve_access_cases)
    case (governed g)
    obtain e where e: "e \<in> set (policy_entries policy)"
        "resolve_entry_path dk (entry_path e) (Some c) = Some (resolved_path g)" "entry_access e = resolved_access g"
      using governed(1) assms(4) by (auto simp: governed_by_def resolved_entry_iff)
    have "entry_access e = Write"
    proof (rule ccontr)
      assume "entry_access e \<noteq> Write"
      from unnarrowed_entry_overridden [OF assms(2,4) c assms(6) root narrow e(1,2) this]
      show False using governed(1) e(3) by (fastforce simp: governed_by_def)
    qed
    then show ?thesis using governed(2) e(3) by simp
  next
    case ungoverned
    then show ?thesis using rootr prefix_root [OF q] by fastforce
  qed
  then show ?thesis using assms(1) by (simp add: can_write_path_with_cwd_def)
qed (simp add: can_write_path_with_cwd_def resolve_access_with_cwd_def is_metadata_write_denied_def)

section \<open>Metadata\<close>

lemma metadata_components: "m \<in> set PROTECTED_METADATA_PATH_NAMES \<Longrightarrow> path_components m = [Normal m]"
  by (auto simp: PROTECTED_METADATA_PATH_NAMES_def path_components_def piece_component_def
      map_filter_simps starts_with_def)

lemma metadata_path_name_Some: "metadata_path_name n = Some m \<longleftrightarrow> n = m \<and> m \<in> set PROTECTED_METADATA_PATH_NAMES"
  by (auto simp: metadata_path_name_def PROTECTED_METADATA_PATH_NAMES_def)

lemma abs_join_metadata:
  "abs_normal r \<Longrightarrow> m \<in> set PROTECTED_METADATA_PATH_NAMES \<Longrightarrow> abs_join dk r (path_components m) = r @ [Normal m]"
  by (subst metadata_components, assumption, rule abs_join_name)
    (auto simp: PROTECTED_METADATA_PATH_NAMES_def)

lemma metadata_child_iff:
  assumes "abs_normal (resolved_path e)" "abs_normal t"
  shows "metadata_child dk t e = Some (pr, m) \<longleftrightarrow>
    m \<in> set PROTECTED_METADATA_PATH_NAMES \<and> pr = resolved_path e @ [Normal m] \<and> prefix pr t"
proof (cases "strip_prefix (resolved_path e) t")
  case None
  then have "\<not> prefix (resolved_path e @ [Normal m]) t"
    using strip_prefix_Some_iff [of "resolved_path e" t] by (auto simp: prefix_def)
  then show ?thesis using None by (auto simp: metadata_child_def)
next
  case (Some rest)
  then have t: "t = resolved_path e @ rest" by (simp add: strip_prefix_Some_iff)
  moreover have "resolved_path e \<noteq> []" using assms(1) by (auto simp: abs_normal_def)
  ultimately obtain ns where ns: "rest = map Normal ns"
    using assms(2) abs_normal_append_iff [of "resolved_path e" rest] by auto
  show ?thesis
  proof (cases ns)
    case Nil
    then show ?thesis using Some by (simp add: metadata_child_def ns t)
  next
    case (Cons n ns')
    have name: "component_os_str (Normal n) = n" by (simp add: component_os_str_def)
    show ?thesis
    proof (cases "n \<in> set PROTECTED_METADATA_PATH_NAMES")
      case True
      then have "metadata_path_name n = Some n" by (simp add: metadata_path_name_Some)
      then show ?thesis using Some True assms(1)
        by (auto simp: metadata_child_def ns t Cons name abs_join_metadata)
    next
      case False
      then have "metadata_path_name n = None"
        using metadata_path_name_Some by (metis not_Some_eq)
      then show ?thesis using Some False by (auto simp: metadata_child_def ns t Cons name)
    qed
  qed
qed

lemma map_filter_Nil_iff: "List.map_filter f xs = [] \<longleftrightarrow> (\<forall>x \<in> set xs. f x = None)"
  by (induction xs) (auto simp: map_filter_simps split: option.splits)

lemma metadata_root_None:
  "metadata_child_of_writable_root dk policy t cwd = None \<longleftrightarrow>
   (\<forall>e \<in> set (resolved_entries_with_cwd dk policy cwd). resolved_access e = Write \<longrightarrow> metadata_child dk t e = None)"
  unfolding metadata_child_of_writable_root_def
  using map_filter_Nil_iff [of "metadata_child dk t" "filter (\<lambda>e. can_write (resolved_access e)) (resolved_entries_with_cwd dk policy cwd)"]
  by (auto split: list.splits)

lemma metadata_root_Some:
  assumes "metadata_child_of_writable_root dk policy t cwd = Some pm"
  obtains e where "e \<in> set (resolved_entries_with_cwd dk policy cwd)" "resolved_access e = Write"
    "metadata_child dk t e = Some pm"
proof -
  obtain rest where "List.map_filter (metadata_child dk t)
      (filter (\<lambda>e. can_write (resolved_access e)) (resolved_entries_with_cwd dk policy cwd)) = pm # rest"
    using assms by (auto simp: metadata_child_of_writable_root_def split: list.splits)
  then have "pm \<in> set (List.map_filter (metadata_child dk t)
      (filter (\<lambda>e. can_write (resolved_access e)) (resolved_entries_with_cwd dk policy cwd)))" by simp
  then show thesis using that by (auto simp: set_map_filter_iff)
qed

text \<open>
  A writable entry granted inside the metadata of another writable root, on the way to \<open>q\<close>: the only
  thing that opens metadata.
\<close>

definition opens_metadata :: "resolved_file_system_entry list \<Rightarrow> path \<Rightarrow> bool" where
  "opens_metadata es q \<longleftrightarrow>
     list_ex (\<lambda>e. resolved_access e = Write \<and> prefix (resolved_path e) q \<and>
       list_ex (\<lambda>r. resolved_access r = Write \<and>
         list_ex (\<lambda>m. prefix (resolved_path r @ [Normal m]) (resolved_path e)) PROTECTED_METADATA_PATH_NAMES) es) es"

lemma metadata_not_explicit:
  assumes "\<not> opens_metadata (resolved_entries_with_cwd dk policy cwd) q"
    "r \<in> set (resolved_entries_with_cwd dk policy cwd)" "resolved_access r = Write"
    "m \<in> set PROTECTED_METADATA_PATH_NAMES"
  shows "\<not> has_explicit_write_entry_for_metadata_path dk policy (resolved_path r @ [Normal m]) q cwd"
  using assms
  by (auto simp: has_explicit_write_entry_for_metadata_path_def starts_with_prefix opens_metadata_def list_ex_iff)

lemma metadata_write_denied:
  assumes "policy_kind policy = Restricted" "policy_wf policy" "cwd_absolute dk"
    and q: "resolve_candidate_path dk p cwd = Some q"
    and r: "r \<in> set (resolved_entries_with_cwd dk policy cwd)" "resolved_access r = Write"
    and m: "m \<in> set PROTECTED_METADATA_PATH_NAMES" "prefix (resolved_path r @ [Normal m]) q"
    and nested: "\<not> opens_metadata (resolved_entries_with_cwd dk policy cwd) q"
  shows "is_metadata_write_denied dk policy p cwd \<and>
    (\<exists>pr n. metadata_child_of_writable_root dk policy q cwd = Some (pr, n) \<and>
       \<not> has_explicit_write_entry_for_metadata_path dk policy pr q cwd)"
proof -
  have nq: "abs_normal q" using q assms(3) by (rule resolve_candidate_normal)
  have ne: "abs_normal (resolved_path e)" if "e \<in> set (resolved_entries_with_cwd dk policy cwd)" for e
    using assms(2,3) that by (rule resolved_entry_normal)
  have "metadata_child dk q r = Some (resolved_path r @ [Normal m], m)"
    using m by (simp add: metadata_child_iff [OF ne [OF r(1)] nq])
  then have "metadata_child_of_writable_root dk policy q cwd \<noteq> None" using r by (auto simp: metadata_root_None)
  then obtain pr n where root: "metadata_child_of_writable_root dk policy q cwd = Some (pr, n)" by force
  then obtain e where e: "e \<in> set (resolved_entries_with_cwd dk policy cwd)" "resolved_access e = Write"
      "metadata_child dk q e = Some (pr, n)" by (rule metadata_root_Some)
  then have "pr = resolved_path e @ [Normal n]" "n \<in> set PROTECTED_METADATA_PATH_NAMES"
    by (simp_all add: metadata_child_iff [OF ne [OF e(1)] nq])
  then have "\<not> has_explicit_write_entry_for_metadata_path dk policy pr q cwd"
    using metadata_not_explicit [OF nested e(1,2)] by simp
  then show ?thesis using root q assms(1) by (simp add: is_metadata_write_denied_def)
qed

section \<open>What the operations do to access\<close>

text \<open>A denial wins at its own path, and below it until a more specific entry.\<close>

lemma governed_by_denied:
  assumes g: "governed_by es q g" and e: "e \<in> set es" "resolved_access e = Deny" "prefix (resolved_path e) q"
    and more: "\<And>f. f \<in> set es \<Longrightarrow> prefix (resolved_path f) q \<Longrightarrow> strict_prefix (resolved_path e) (resolved_path f) \<Longrightarrow>
      resolved_access f = Deny"
  shows "resolved_access g = Deny"
proof (cases "resolved_path e = resolved_path g")
  case True
  then have "Deny \<le> resolved_access g" using g e by (metis governed_by_def)
  then show ?thesis by (cases "resolved_access g") (simp_all add: less_eq_file_system_access_mode_def)
next
  case False
  then have "strict_prefix (resolved_path e) (resolved_path g)"
    using g e by (auto simp: governed_by_def strict_prefix_def)
  then show ?thesis using more g by (auto simp: governed_by_def)
qed

lemma denied_at_own_path:
  assumes "policy_kind policy = Restricted" "resolve_candidate_path dk p cwd = Some q"
    and e: "e \<in> set (resolved_entries_with_cwd dk policy cwd)" "resolved_access e = Deny" "prefix (resolved_path e) q"
    and more: "\<And>f. f \<in> set (resolved_entries_with_cwd dk policy cwd) \<Longrightarrow> prefix (resolved_path f) q \<Longrightarrow>
      strict_prefix (resolved_path e) (resolved_path f) \<Longrightarrow> resolved_access f = Deny"
  shows "resolve_access_with_cwd dk policy p cwd = Deny"
  using assms(1,2)
proof (cases rule: resolve_access_cases)
  case (governed g)
  with governed_by_denied [OF governed(1) e more] show ?thesis by simp
qed simp

lemma set_foldl_push_entry_if_new: "set (foldl push_entry_if_new es ds) = set es \<union> set ds"
  by (induction ds arbitrary: es) (auto simp: push_entry_if_new_def)

lemma preserve_deny_entries:
  assumes "d \<in> set (policy_entries existing)" "entry_access d = Deny" "policy_kind policy \<noteq> ExternalSandbox"
  shows "policy_kind (preserve_deny_read_restrictions_from policy existing) = Restricted \<and>
    d \<in> set (policy_entries (preserve_deny_read_restrictions_from policy existing))"
  using assms
  by (cases "policy_kind policy")
    (auto simp: preserve_deny_read_restrictions_from_def Let_def set_foldl_push_entry_if_new deny_entries_def restricted_def)

text \<open>One more entry changes the access only where it is the governing entry.\<close>

lemma governed_by_push:
  assumes "governed_by (es @ [n]) q g"
  shows "g = n \<or> governed_by es q g"
  using assms by (auto simp: governed_by_def)

lemma push_readable_keeps_readable:
  assumes "policy_kind policy = Restricted" "can_read_path_with_cwd dk policy p cwd"
    "can_read (entry_access e)"
  shows "can_read_path_with_cwd dk (push_entry policy e) p cwd"
proof (cases "resolve_candidate_path dk p cwd")
  case None
  then show ?thesis using assms by (simp add: can_read_path_with_cwd_def resolve_access_with_cwd_def)
next
  case (Some q)
  have k: "policy_kind (push_entry policy e) = Restricted" using assms(1) by (simp add: push_entry_def)
  show ?thesis using k Some
  proof (cases rule: resolve_access_cases)
    case (governed g)
    then consider "resolved_access g = entry_access e" | "governed_by (resolved_entries_with_cwd dk policy cwd) q g"
      by (auto simp: resolved_entries_push split: option.splits dest: governed_by_push)
    then show ?thesis
      using assms governed(2) resolve_access_governed [OF assms(1) Some]
      by cases (auto simp: can_read_path_with_cwd_def)
  next
    case ungoverned
    then have "resolve_access_with_cwd dk policy p cwd = Deny"
      by (intro resolve_access_ungoverned [OF assms(1) Some])
        (auto simp: resolved_entries_push split: option.splits)
    then show ?thesis using assms(2) by (simp add: can_read_path_with_cwd_def)
  qed
qed

lemma push_readable_reads:
  assumes "policy_kind policy = Restricted" "abs_normal p"
    "\<not> (\<exists>e \<in> set (resolved_entries_with_cwd dk policy cwd). resolved_path e = p \<and> resolved_access e = Deny)"
  shows "can_read_path_with_cwd dk (push_entry policy (new_entry (PathEntry p) Read)) p cwd"
proof -
  let ?pol = "push_entry policy (new_entry (PathEntry p) Read)"
  let ?n = "\<lparr>resolved_path = p, resolved_access = Read\<rparr>"
  have k: "policy_kind ?pol = Restricted" using assms(1) by (simp add: push_entry_def)
  have es: "resolved_entries_with_cwd dk ?pol cwd = resolved_entries_with_cwd dk policy cwd @ [?n]"
    by (simp add: resolved_entries_push new_entry_def)
  show ?thesis using k resolve_candidate_abs [OF assms(2), of dk cwd]
  proof (cases rule: resolve_access_cases)
    case (governed g)
    have "prefix p (resolved_path g)" using governed(1) by (auto simp: governed_by_def es)
    then have "resolved_path g = p" using governed(1) by (auto simp: governed_by_def prefix_order.antisym)
    then have "resolved_access g \<noteq> Deny" using governed(1) assms(3) by (cases g) (auto simp: governed_by_def es)
    then show ?thesis using governed(2) by (simp add: can_read_path_with_cwd_def)
  next
    case ungoverned
    then show ?thesis by (auto simp: es)
  qed
qed

lemma denied_root_unreadable:
  assumes "policy_kind policy = Restricted" "abs_normal p"
    "e \<in> set (resolved_entries_with_cwd dk policy cwd)" "resolved_path e = p" "resolved_access e = Deny"
  shows "\<not> can_read_path_with_cwd dk policy p cwd"
proof -
  have "resolve_access_with_cwd dk policy p cwd = Deny"
    by (rule denied_at_own_path [OF assms(1) resolve_candidate_abs [OF assms(2)] assms(3,5)])
      (auto simp: assms(4) strict_prefix_def prefix_order.antisym)
  then show ?thesis by (simp add: can_read_path_with_cwd_def)
qed

definition denies_exactly :: "disk \<Rightarrow> file_system_sandbox_policy \<Rightarrow> path \<Rightarrow> path \<Rightarrow> bool" where
  "denies_exactly dk policy p cwd \<longleftrightarrow>
     list_ex (\<lambda>e. resolved_path e = p \<and> resolved_access e = Deny) (resolved_entries_with_cwd dk policy cwd)"

lemma denies_exactly_push:
  "entry_access e \<noteq> Deny \<Longrightarrow> denies_exactly dk (push_entry policy e) p cwd \<longleftrightarrow> denies_exactly dk policy p cwd"
  by (auto simp: denies_exactly_def resolved_entries_push list_ex_iff split: option.splits)

lemma push_entry_kind [simp]: "policy_kind (push_entry policy e) = policy_kind policy"
  by (simp add: push_entry_def)

lemma add_readable_root_kind [simp]: "policy_kind (add_readable_root dk cwd policy r) = policy_kind policy"
  by (simp add: add_readable_root_def)

lemma add_readable_root_denies [simp]:
  "denies_exactly dk (add_readable_root dk cwd policy r) p cwd \<longleftrightarrow> denies_exactly dk policy p cwd"
  by (simp add: add_readable_root_def denies_exactly_push new_entry_def)

lemma add_readable_root_keeps:
  "policy_kind policy = Restricted \<Longrightarrow> can_read_path_with_cwd dk policy p cwd \<Longrightarrow>
   can_read_path_with_cwd dk (add_readable_root dk cwd policy r) p cwd"
  by (simp add: add_readable_root_def push_readable_keeps_readable new_entry_def)

lemma add_readable_root_reads:
  "policy_kind policy = Restricted \<Longrightarrow> abs_normal r \<Longrightarrow> \<not> denies_exactly dk policy r cwd \<Longrightarrow>
   can_read_path_with_cwd dk (add_readable_root dk cwd policy r) r cwd"
  by (simp add: add_readable_root_def push_readable_reads denies_exactly_def list_ex_iff)

lemma add_readable_roots_kind: "policy_kind (foldl (add_readable_root dk cwd) policy rs) = policy_kind policy"
  by (induction rs arbitrary: policy) simp_all

lemma add_readable_roots_denies:
  "denies_exactly dk (foldl (add_readable_root dk cwd) policy rs) p cwd \<longleftrightarrow> denies_exactly dk policy p cwd"
  by (induction rs arbitrary: policy) simp_all

lemma add_readable_roots_keep:
  "policy_kind policy = Restricted \<Longrightarrow> can_read_path_with_cwd dk policy p cwd \<Longrightarrow>
   can_read_path_with_cwd dk (foldl (add_readable_root dk cwd) policy rs) p cwd"
  by (induction rs arbitrary: policy) (simp_all add: add_readable_root_keeps)

lemma add_readable_roots_read:
  "policy_kind policy = Restricted \<Longrightarrow> r \<in> set rs \<Longrightarrow> abs_normal r \<Longrightarrow> \<not> denies_exactly dk policy r cwd \<Longrightarrow>
   can_read_path_with_cwd dk (foldl (add_readable_root dk cwd) policy rs) r cwd"
  by (induction rs arbitrary: policy) (auto simp: add_readable_root_reads add_readable_roots_keep)

lemma materialize_entry_resolves:
  assumes "abs_normal c" "abs_normal c'"
  shows "resolve_entry_path dk (entry_path (materialize_entry_with_cwd dk (Some c) e)) (Some c') =
    resolve_entry_path dk (entry_path e) (Some c)"
proof (cases "entry_path e")
  case (PathEntry p)
  then show ?thesis by (simp add: materialize_entry_with_cwd_def)
next
  case (GlobPattern g)
  then show ?thesis
    by (simp add: materialize_entry_with_cwd_def resolve_entry_path_def resolve_file_system_path_def split: option.splits)
next
  case (Special v)
  then show ?thesis
    using resolve_entry_path_Root [OF assms(1)] resolve_entry_path_Root [OF assms(2)]
    by (cases v)
      (auto simp: materialize_entry_with_cwd_def resolve_entry_path_def resolve_file_system_path_def
        resolve_file_system_special_path_def split: option.splits)
qed

lemma materialize_entry_access: "entry_access (materialize_entry_with_cwd dk c e) = entry_access e"
  by (simp add: materialize_entry_with_cwd_def split: file_system_path.splits file_system_special_path.splits option.splits prod.splits)

lemma materialize_resolved_entries:
  assumes "from_path dk cwd = Some c" "from_path dk cwd' = Some c'" "cwd_absolute dk"
  shows "resolved_entries_with_cwd dk (materialize_project_roots_with_cwd dk policy cwd) cwd' =
    resolved_entries_with_cwd dk policy cwd"
proof -
  have "abs_normal c" "abs_normal c'" using assms from_path_normal by blast+
  then show ?thesis
    by (simp add: resolved_entries_with_cwd_def materialize_project_roots_with_cwd_def Let_def assms(1,2)
        List.map_filter_def filter_map comp_def materialize_entry_resolves materialize_entry_access)
qed

text \<open>Pushing a writable root makes it writable unless that very path is denied.\<close>

lemma write_entry_explicit:
  assumes "policy_kind policy = Restricted" "policy_wf policy" "cwd_absolute dk" "abs_normal r"
    "e \<in> set (resolved_entries_with_cwd dk policy cwd)" "resolved_path e = r" "resolved_access e = Write"
    "\<not> denies_exactly dk policy r cwd"
  shows "can_write_path_with_cwd dk policy r cwd"
proof -
  note cand = resolve_candidate_abs [OF assms(4), of dk cwd]
  have "resolve_access_with_cwd dk policy r cwd = Write" using assms(1) cand
  proof (cases rule: resolve_access_cases)
    case (governed g)
    then have g: "resolved_path g = r" "g \<in> set (resolved_entries_with_cwd dk policy cwd)"
      using assms(5,6) by (auto simp: governed_by_def prefix_order.antisym)
    then have "resolved_access g \<noteq> Deny" using assms(8) by (auto simp: denies_exactly_def list_ex_iff)
    moreover have "Write \<le> resolved_access g" using governed(1) assms(5-7) g(1) by (auto simp: governed_by_def)
    ultimately show ?thesis using governed(2)
      by (cases "resolved_access g") (simp_all add: less_eq_file_system_access_mode_def)
  qed (use assms(5,6) in auto)
  moreover have "\<not> is_metadata_write_denied dk policy r cwd"
  proof (cases "metadata_child_of_writable_root dk policy r cwd")
    case None
    then show ?thesis by (simp add: is_metadata_write_denied_def cand)
  next
    case (Some pm)
    then obtain f where f: "f \<in> set (resolved_entries_with_cwd dk policy cwd)" "metadata_child dk r f = Some pm"
      by (rule metadata_root_Some)
    obtain pr n where pm: "pm = (pr, n)" by force
    have "prefix pr r"
      using f(2) metadata_child_iff [OF resolved_entry_normal [OF assms(2,3) f(1)] assms(4), of dk pr n]
      unfolding pm by blast
    then have "has_explicit_write_entry_for_metadata_path dk policy pr r cwd"
      using assms(5-7) by (auto simp: has_explicit_write_entry_for_metadata_path_def starts_with_prefix intro!: bexI [of _ e])
    then show ?thesis using Some pm by (simp add: is_metadata_write_denied_def cand)
  qed
  ultimately show ?thesis by (simp add: can_write_path_with_cwd_def)
qed

lemma policy_wf_push: "policy_wf policy \<Longrightarrow> abs_normal r \<Longrightarrow> policy_wf (push_entry policy (new_entry (PathEntry r) a))"
  by (simp add: policy_wf_def push_entry_def new_entry_def)

lemma add_writable_root_writes:
  assumes "policy_kind policy = Restricted" "policy_wf policy" "cwd_absolute dk" "abs_normal r"
  shows "can_write_path_with_cwd dk (add_writable_root dk cwd policy r) r cwd \<longleftrightarrow> \<not> denies_exactly dk policy r cwd"
proof -
  let ?pol = "push_entry policy (new_entry (PathEntry r) Write)"
  have denied: "\<not> can_write_path_with_cwd dk P r cwd" if "denies_exactly dk P r cwd" "policy_kind P = Restricted" for P
    using that denied_root_unreadable [OF that(2) assms(4)]
    by (auto simp: denies_exactly_def list_ex_iff can_write_path_with_cwd_def can_read_path_with_cwd_def)
  have same: "denies_exactly dk ?pol r cwd \<longleftrightarrow> denies_exactly dk policy r cwd"
    by (simp add: denies_exactly_push new_entry_def)
  have "can_write_path_with_cwd dk ?pol r cwd" if "\<not> denies_exactly dk policy r cwd"
    using assms that same policy_wf_push [OF assms(2,4), of Write]
    by (intro write_entry_explicit [of _ _ _ "\<lparr>resolved_path = r, resolved_access = Write\<rparr>"])
      (auto simp: resolved_entries_push new_entry_def)
  then show ?thesis using denied [of policy] denied [of ?pol] same assms(1)
    by (auto simp: add_writable_root_def)
qed

section \<open>The workspace policy\<close>

definition granted_roots :: "disk \<Rightarrow> path list \<Rightarrow> bool \<Rightarrow> bool \<Rightarrow> path \<Rightarrow> path list" where
  "granted_roots dk roots exclude_tmpdir_env_var exclude_slash_tmp c =
     c # (if exclude_slash_tmp then [] else case resolve_file_system_special_path dk SlashTmp (Some c) of Some t \<Rightarrow> [t] | None \<Rightarrow> []) @
     (if exclude_tmpdir_env_var then [] else case resolve_file_system_special_path dk Tmpdir (Some c) of Some t \<Rightarrow> [t] | None \<Rightarrow> []) @
     roots"

definition adds_only_reads :: "file_system_sandbox_entry list \<Rightarrow> file_system_sandbox_entry list \<Rightarrow> bool" where
  "adds_only_reads es es' \<longleftrightarrow> set es \<subseteq> set es' \<and> (\<forall>e \<in> set es'. entry_access e \<noteq> Read \<longrightarrow> e \<in> set es)"

lemma adds_only_reads_refl [simp]: "adds_only_reads es es"
  by (simp add: adds_only_reads_def)

lemma adds_only_reads_trans: "adds_only_reads a b \<Longrightarrow> adds_only_reads b c \<Longrightarrow> adds_only_reads a c"
  by (auto simp: adds_only_reads_def)

lemma append_default_adds_only_reads:
  "adds_only_reads es (append_default_read_only_entry_if_no_explicit_rule es p)"
  by (auto simp: adds_only_reads_def append_default_read_only_entry_if_no_explicit_rule_def skip_missing_path_def)

lemma foldl_adds_only_reads:
  assumes "\<And>es x. adds_only_reads es (f es x)"
  shows "adds_only_reads es (foldl f es xs)"
  by (induction xs arbitrary: es) (auto intro: adds_only_reads_trans assms)

lemma workspace_write_adds_only_reads:
  "adds_only_reads (workspace_allow_entries roots ext exs) (policy_entries (workspace_write dk roots ext exs))"
proof -
  let ?app = "append_default_read_only_project_root_subpath_if_no_explicit_rule"
  let ?es3 = "?app (?app (?app (workspace_allow_entries roots ext exs) (lit ''.git'')) (lit ''.agents'')) (lit ''.codex'')"
  have app: "adds_only_reads es (?app es s)" for es s
    by (simp add: append_default_read_only_project_root_subpath_if_no_explicit_rule_def append_default_adds_only_reads)
  have "adds_only_reads (workspace_allow_entries roots ext exs) ?es3"
    by (rule adds_only_reads_trans [OF app adds_only_reads_trans [OF app app]])
  moreover have "adds_only_reads es (protect_root dk False es r)" for es r
    unfolding protect_root_def append_default_read_only_path_if_no_explicit_rule_def
    by (rule foldl_adds_only_reads) (rule append_default_adds_only_reads)
  then have "adds_only_reads ?es3 (foldl (protect_root dk False) ?es3 roots)"
    by (rule foldl_adds_only_reads)
  ultimately show ?thesis
    unfolding workspace_write_def Let_def restricted_def file_system_sandbox_policy.select_convs
    by (rule adds_only_reads_trans)
qed

lemma workspace_write_kind: "policy_kind (workspace_write dk roots ext exs) = Restricted"
  by (simp add: workspace_write_def Let_def restricted_def)

lemma workspace_write_granted:
  assumes "from_path dk cwd = Some c"
  shows "g \<in> set (granted_roots dk roots ext exs c) \<longleftrightarrow>
    \<lparr>resolved_path = g, resolved_access = Write\<rparr> \<in> set (resolved_entries_with_cwd dk (workspace_write dk roots ext exs) cwd)"
proof -
  have special: "resolve_entry_path dk (Special v) (Some c) = resolve_file_system_special_path dk v (Some c)"
    if "v \<noteq> Root" for v using that by (simp add: resolve_entry_path_def resolve_file_system_path_def)
  note r = workspace_write_adds_only_reads [of roots ext exs dk, unfolded adds_only_reads_def]
  have "\<lparr>resolved_path = g, resolved_access = Write\<rparr> \<in> set (resolved_entries_with_cwd dk (workspace_write dk roots ext exs) cwd) \<longleftrightarrow>
    (\<exists>e \<in> set (workspace_allow_entries roots ext exs). entry_access e = Write \<and>
       resolve_entry_path dk (entry_path e) (Some c) = Some g)"
    using r assms by (auto simp: resolved_entry_iff)
  also have "\<dots> \<longleftrightarrow> g \<in> set (granted_roots dk roots ext exs c)"
    by (cases "resolve_file_system_special_path dk SlashTmp (Some c)";
        cases "resolve_file_system_special_path dk Tmpdir (Some c)")
      (auto simp: workspace_allow_entries_def granted_roots_def new_entry_def special
        resolve_file_system_special_path_def [of _ "ProjectRoots _"])
  finally show ?thesis by simp
qed

lemma workspace_write_reads_all:
  assumes "from_path dk cwd = Some c" "cwd_absolute dk" "resolve_candidate_path dk p cwd = Some q"
  shows "can_read_path_with_cwd dk (workspace_write dk roots ext exs) p cwd"
proof (rule full_read_governs [OF _ assms(2,1,3)])
  note r = workspace_write_adds_only_reads [of roots ext exs dk, unfolded adds_only_reads_def]
  have "new_entry (Special Root) Read \<in> set (policy_entries (workspace_write dk roots ext exs))"
    using r by (auto simp: workspace_allow_entries_def)
  moreover have "entry_access e \<noteq> Deny" if "e \<in> set (policy_entries (workspace_write dk roots ext exs))" for e
    using r that by (auto simp: workspace_allow_entries_def new_entry_def split: if_splits)
  ultimately show "has_full_disk_read_access (workspace_write dk roots ext exs)"
    by (force simp: has_full_disk_read_access_def workspace_write_kind has_root_access_def
        has_denied_read_restrictions_def new_entry_def)
qed

lemma workspace_write_no_full_write: "\<not> has_full_disk_write_access (workspace_write dk roots ext exs)"
proof -
  note r = workspace_write_adds_only_reads [of roots ext exs dk, unfolded adds_only_reads_def]
  have "entry_access e = Read"
    if "e \<in> set (policy_entries (workspace_write dk roots ext exs))" "entry_path e = Special Root" for e
    using r that by (auto simp: workspace_allow_entries_def new_entry_def split: if_splits)
  then show ?thesis
    by (auto simp: has_full_disk_write_access_def workspace_write_kind has_root_access_def)
qed

lemma workspace_write_confined:
  assumes "from_path dk cwd = Some c" "resolve_candidate_path dk p cwd = Some q"
    "can_write_path_with_cwd dk (workspace_write dk roots ext exs) p cwd"
  shows "\<exists>g \<in> set (granted_roots dk roots ext exs c). prefix g q"
proof -
  have w: "resolve_access_with_cwd dk (workspace_write dk roots ext exs) p cwd = Write"
    using assms(3) by (simp add: can_write_path_with_cwd_def split: if_splits)
  show ?thesis using workspace_write_kind [of dk roots ext exs] assms(2)
  proof (cases rule: resolve_access_cases)
    case (governed g)
    then have "g = \<lparr>resolved_path = resolved_path g, resolved_access = Write\<rparr>" using w by (cases g) simp
    then show ?thesis using governed(1) workspace_write_granted [OF assms(1), of "resolved_path g"]
      by (auto simp: governed_by_def)
  qed (use w in simp)
qed

section \<open>Operations keep policies well formed\<close>

definition entry_wf :: "file_system_sandbox_entry \<Rightarrow> bool" where
  "entry_wf e \<longleftrightarrow> (case entry_path e of PathEntry p \<Rightarrow> abs_normal p | _ \<Rightarrow> True)"

lemma policy_wf_entries: "policy_wf policy \<longleftrightarrow> list_all entry_wf (policy_entries policy)"
  by (auto simp: policy_wf_def entry_wf_def list_all_iff)

lemma entry_wf_new [simp]: "entry_wf (new_entry (PathEntry p) a) \<longleftrightarrow> abs_normal p" "entry_wf (new_entry (Special v) a)"
  by (simp_all add: entry_wf_def new_entry_def)

lemma entries_wf_push_new: "list_all entry_wf es \<Longrightarrow> list_all entry_wf ds \<Longrightarrow> list_all entry_wf (foldl push_entry_if_new es ds)"
  by (simp add: list_all_iff set_foldl_push_entry_if_new ball_Un)

lemma append_default_wf:
  "list_all entry_wf es \<Longrightarrow> abs_normal p \<Longrightarrow> list_all entry_wf (append_default_read_only_path_if_no_explicit_rule es p)"
  by (simp add: append_default_read_only_path_if_no_explicit_rule_def
      append_default_read_only_entry_if_no_explicit_rule_def entry_wf_def skip_missing_path_def)

lemma append_default_project_wf:
  "list_all entry_wf es \<Longrightarrow> list_all entry_wf (append_default_read_only_project_root_subpath_if_no_explicit_rule es s)"
  by (simp add: append_default_read_only_project_root_subpath_if_no_explicit_rule_def
      append_default_read_only_entry_if_no_explicit_rule_def entry_wf_def skip_missing_path_def)

lemma foldl_list_all:
  "list_all P es \<Longrightarrow> (\<And>es x. list_all P es \<Longrightarrow> x \<in> set xs \<Longrightarrow> list_all P (f es x)) \<Longrightarrow> list_all P (foldl f es xs)"
  by (induction xs arbitrary: es) simp_all

lemma set_dedup_from: "set (dedup_from seen ps) = set ps - set seen"
  by (induction seen ps rule: dedup_from.induct) auto

lemma gitdir_normal:
  assumes "resolve_gitdir_from_file dk (r @ [Normal n]) = Some g" "abs_normal r"
  shows "abs_normal g"
  using assms
  by (auto simp: resolve_gitdir_from_file_def path_parent_def Let_def resolve_path_against_base_normal abs_normal_absolute
      split: option.splits if_splits prod.splits)

lemma default_read_only_subpaths_subset:
  "set (default_read_only_subpaths_for_writable_root dk r b) \<subseteq>
   (\<lambda>m. abs_join dk r (path_components m)) ` set PROTECTED_METADATA_PATH_NAMES \<union>
   set_option (resolve_gitdir_from_file dk (abs_join dk r (path_components (lit ''.git''))))"
proof -
  define git where "git = abs_join dk r (path_components (lit ''.git''))"
  define agents where "agents = abs_join dk r (path_components (lit ''.agents''))"
  define codex where "codex = abs_join dk r (path_components (lit ''.codex''))"
  have "set (default_read_only_subpaths_for_writable_root dk r b) \<subseteq>
      {git, agents, codex} \<union> set_option (resolve_gitdir_from_file dk git)"
    unfolding default_read_only_subpaths_for_writable_root_def Let_def dedup_absolute_paths_def set_dedup_from
      git_def [symmetric] agents_def [symmetric] codex_def [symmetric]
    by (cases "resolve_gitdir_from_file dk git"; cases "path_is_dir dk git"; cases "path_is_file dk git";
        cases "is_git_pointer_file dk git"; cases "path_is_dir dk agents"; cases "b \<or> path_is_dir dk codex")
      (simp_all add: subset_iff)
  then show ?thesis
    by (simp add: PROTECTED_METADATA_PATH_NAMES_def git_def agents_def codex_def insert_commute del: lit_Cons)
qed

lemma default_read_only_subpaths_normal:
  assumes "abs_normal r" "p \<in> set (default_read_only_subpaths_for_writable_root dk r b)"
  shows "abs_normal p"
proof -
  have "lit ''.git'' \<in> set PROTECTED_METADATA_PATH_NAMES" by (simp add: PROTECTED_METADATA_PATH_NAMES_def)
  then have "abs_normal g"
    if "resolve_gitdir_from_file dk (abs_join dk r (path_components (lit ''.git''))) = Some g" for g
    using gitdir_normal [OF _ assms(1)] that abs_join_metadata [OF assms(1)] by metis
  then show ?thesis
    using subsetD [OF default_read_only_subpaths_subset assms(2)] abs_join_normal [OF assms(1), of dk] by auto
qed

lemma protect_root_wf: "list_all entry_wf es \<Longrightarrow> abs_normal r \<Longrightarrow> list_all entry_wf (protect_root dk b es r)"
  unfolding protect_root_def
  by (rule foldl_list_all) (auto intro: append_default_wf default_read_only_subpaths_normal)

lemma workspace_write_wf:
  assumes "list_all abs_normal roots"
  shows "policy_wf (workspace_write dk roots ext exs)"
proof -
  have "list_all entry_wf (workspace_allow_entries roots ext exs)"
    using assms by (auto simp: workspace_allow_entries_def list_all_iff)
  then show ?thesis using assms
    unfolding policy_wf_entries workspace_write_def Let_def restricted_def file_system_sandbox_policy.select_convs
    by (intro foldl_list_all append_default_project_wf protect_root_wf) (auto simp: list_all_iff)
qed

lemma add_legacy_writable_root_wf:
  "policy_wf policy \<Longrightarrow> abs_normal r \<Longrightarrow> policy_wf (add_legacy_writable_root dk policy r)"
  by (simp add: policy_wf_entries add_legacy_writable_root_def Let_def push_entry_def protect_root_wf)

lemma foldl_policy_wf:
  "policy_wf policy \<Longrightarrow> list_all abs_normal rs \<Longrightarrow> (\<And>policy r. policy_wf policy \<Longrightarrow> abs_normal r \<Longrightarrow> policy_wf (f policy r)) \<Longrightarrow>
   policy_wf (foldl f policy rs)"
  by (induction rs arbitrary: policy) simp_all

lemma materialize_entry_with_roots_wf:
  "entry_wf e \<Longrightarrow> list_all abs_normal roots \<Longrightarrow> list_all entry_wf (materialize_entry_with_roots dk roots e)"
  by (auto simp: entry_wf_def materialize_entry_with_roots_def list_all_iff resolve_path_against_base_normal abs_normal_absolute
      split: file_system_path.splits file_system_special_path.splits option.splits)

lemma materialize_entry_with_cwd_wf:
  assumes "entry_wf e" "cwd_absolute dk" "\<And>c. cwd = Some c \<Longrightarrow> abs_normal c"
  shows "entry_wf (materialize_entry_with_cwd dk cwd e)"
  using assms resolve_special_normal [OF _ assms(2,3)]
  by (auto simp: entry_wf_def materialize_entry_with_cwd_def resolve_file_system_path_def
      split: file_system_path.splits file_system_special_path.splits option.splits prod.splits)

section \<open>Properties\<close>

text \<open>A disk for examples: nothing but \<open>/tmp\<close>, and a process in \<open>/w\<close>.\<close>

definition example_disk :: disk where
  "example_disk =
     \<lparr>process_paths = \<lparr>home_dir = None, current_dir = Inr [RootDir, Normal (lit ''w'')]\<rparr>,
      path_is_dir = (\<lambda>p. p = [RootDir, Normal (lit ''tmp'')]), path_is_file = (\<lambda>p. False),
      path_exists = (\<lambda>p. False), symlink_metadata = (\<lambda>p. None), canonicalize_path = (\<lambda>p. None),
      read_to_string = (\<lambda>p. None), tmpdir_var = None\<rparr>"

definition apath :: "string list \<Rightarrow> path" where
  "apath names = RootDir # map (\<lambda>n. Normal (lit n)) names"

lemma abs_normal_apath [simp]: "abs_normal (apath ns)"
  by (auto simp: abs_normal_def apath_def intro: exI [of _ "map lit ns"])

lemma example_disk_cwd [simp]: "cwd_absolute example_disk"
  by (simp add: cwd_absolute_def example_disk_def path_is_absolute_def)

definition example_policy :: file_system_sandbox_policy where
  "example_policy = restricted
     [new_entry (Special Root) Read, new_entry (PathEntry (apath [''w''])) Write,
      new_entry (PathEntry (apath [''w'', ''x''])) Deny]"

lemma example_policy_kind: "policy_kind example_policy = Restricted"
  by (simp add: example_policy_def restricted_def)

lemma example_policy_wf: "policy_wf example_policy"
  by (simp add: example_policy_def restricted_def policy_wf_def new_entry_def)

lemma example_resolved:
  "resolved_entries_with_cwd example_disk example_policy (apath c) =
   [\<lparr>resolved_path = [RootDir], resolved_access = Read\<rparr>,
    \<lparr>resolved_path = apath [''w''], resolved_access = Write\<rparr>,
    \<lparr>resolved_path = apath [''w'', ''x''], resolved_access = Deny\<rparr>]"
  by (simp add: resolved_entries_with_cwd_def example_policy_def restricted_def new_entry_def
      map_filter_simps resolve_entry_path_Root)

text \<open>
  C10: Under a restricted policy the access to a path is that of its governing entry: of the entries
  whose path contains it, the one with the longest path, and among entries for that same path the
  one that ranks highest (\<open>deny\<close> over \<open>write\<close> over \<open>read\<close>). A path no entry contains is denied.
\<close>

theorem most_specific_entry_governs:
  assumes "policy_kind policy = Restricted" "resolve_candidate_path dk p cwd = Some q"
  shows "resolve_access_with_cwd dk policy p cwd = a \<longleftrightarrow>
    (\<exists>g. governed_by (resolved_entries_with_cwd dk policy cwd) q g \<and> resolved_access g = a) \<or>
    (\<not> (\<exists>e \<in> set (resolved_entries_with_cwd dk policy cwd). prefix (resolved_path e) q) \<and> a = Deny)"
  using assms
proof (cases rule: resolve_access_cases)
  case (governed g)
  moreover have "\<exists>e \<in> set (resolved_entries_with_cwd dk policy cwd). prefix (resolved_path e) q"
    using governed(1) by (auto simp: governed_by_def)
  ultimately show ?thesis using governed_by_unique [OF governed(1)] by metis
next
  case ungoverned
  then show ?thesis by (auto simp: governed_by_def)
qed

theorem most_specific_entry_governs_witness:
  "resolve_access_with_cwd example_disk example_policy (apath [''w'', ''x'', ''y'']) (apath [''w'']) = Deny"
proof -
  have "governed_by (resolved_entries_with_cwd example_disk example_policy (apath [''w'']))
      (apath [''w'', ''x'', ''y'']) \<lparr>resolved_path = apath [''w'', ''x''], resolved_access = Deny\<rparr>"
    by (simp add: governed_by_def example_resolved) (simp add: apath_def)
  then have "\<exists>g. governed_by (resolved_entries_with_cwd example_disk example_policy (apath [''w'']))
      (apath [''w'', ''x'', ''y'']) g \<and> resolved_access g = Deny" by force
  then show ?thesis
    unfolding most_specific_entry_governs [OF example_policy_kind resolve_candidate_abs [OF abs_normal_apath]] ..
qed

text \<open>
  Full disk access is what it says: when \<open>has_full_disk_read_access\<close> holds every path that
  resolves is readable, and when \<open>has_full_disk_write_access\<close> holds every such path is writable,
  metadata included, provided \<open>/tmp\<close> is a directory.
\<close>

theorem full_disk_access_is_full:
  assumes "policy_wf policy" "cwd_absolute dk" "from_path dk cwd = Some c" "resolve_candidate_path dk p cwd = Some q"
  shows "(has_full_disk_read_access policy \<longrightarrow> can_read_path_with_cwd dk policy p cwd) \<and>
    (has_full_disk_write_access policy \<and> path_is_dir dk (apath [''tmp'']) \<longrightarrow> can_write_path_with_cwd dk policy p cwd)"
  using assms full_read_governs [of policy dk cwd c p q] full_write_governs [of policy dk cwd c p q]
  by (simp add: apath_def del: lit_Cons)

theorem full_disk_access_is_full_witness:
  "can_write_path_with_cwd example_disk
     (restricted [new_entry (Special Root) Write, new_entry (Special SlashTmp) Write, new_entry (PathEntry (apath [''tmp''])) Read])
     (apath [''w'', ''.git'']) (apath [''w''])"
proof -
  let ?pol = "restricted [new_entry (Special Root) Write, new_entry (Special SlashTmp) Write, new_entry (PathEntry (apath [''tmp''])) Read]"
  have "policy_wf ?pol" by (simp add: policy_wf_def restricted_def new_entry_def)
  moreover have "has_full_disk_write_access ?pol"
    by (simp add: has_full_disk_write_access_def restricted_def has_root_access_def new_entry_def
        has_write_narrowing_entries_def entry_narrows_write_def has_same_target_write_override_def
        file_system_paths_share_target_def special_path_matches_absolute_path_def apath_def
        less_file_system_access_mode_def)
  moreover have "path_is_dir example_disk (apath [''tmp''])" by (simp add: example_disk_def apath_def)
  ultimately show ?thesis
    using full_disk_access_is_full [of ?pol example_disk "apath [''w'']" "apath [''w'']" "apath [''w'', ''.git'']" "apath [''w'', ''.git'']"]
    by simp
qed

text \<open>
  Without \<open>/tmp\<close> on the disk a policy can claim full write access and still refuse a write: an
  entry \<open>:slash_tmp = write\<close> counts as overriding \<open>/tmp = read\<close>, but it resolves to nothing.
\<close>

theorem missing_tmp_full_write_refused:
  assumes "\<not> path_is_dir dk (apath [''tmp''])" "from_path dk cwd = Some c" "abs_normal c"
  shows "\<exists>policy. policy_wf policy \<and> has_full_disk_write_access policy \<and>
    \<not> can_write_path_with_cwd dk policy (apath [''tmp'', ''x'']) cwd"
proof -
  let ?pol = "restricted [new_entry (Special Root) Write, new_entry (Special SlashTmp) Write, new_entry (PathEntry (apath [''tmp''])) Read]"
  have "policy_wf ?pol" by (simp add: policy_wf_def restricted_def new_entry_def)
  moreover have "has_full_disk_write_access ?pol"
    by (simp add: has_full_disk_write_access_def restricted_def has_root_access_def new_entry_def
        has_write_narrowing_entries_def entry_narrows_write_def has_same_target_write_override_def
        file_system_paths_share_target_def special_path_matches_absolute_path_def apath_def
        less_file_system_access_mode_def)
  moreover have "resolved_entries_with_cwd dk ?pol cwd =
      [\<lparr>resolved_path = [RootDir], resolved_access = Write\<rparr>, \<lparr>resolved_path = apath [''tmp''], resolved_access = Read\<rparr>]"
    using assms
    by (simp add: resolved_entries_with_cwd_def restricted_def new_entry_def map_filter_simps
        resolve_entry_path_Root resolve_entry_path_def [of _ "Special SlashTmp"] resolve_file_system_path_def
        resolve_file_system_special_path_def apath_def)
  then have "governed_by (resolved_entries_with_cwd dk ?pol cwd) (apath [''tmp'', ''x''])
      \<lparr>resolved_path = apath [''tmp''], resolved_access = Read\<rparr>"
    by (simp add: governed_by_def apath_def)
  then have "\<not> can_write_path_with_cwd dk ?pol (apath [''tmp'', ''x'']) cwd"
    using resolve_access_governed [OF _ resolve_candidate_abs [OF abs_normal_apath], of ?pol dk cwd]
    by (simp add: can_write_path_with_cwd_def restricted_def)
  ultimately show ?thesis by blast
qed

theorem missing_tmp_full_write_refused_witness:
  "\<exists>policy. policy_wf policy \<and> has_full_disk_write_access policy \<and>
    \<not> can_write_path_with_cwd (example_disk\<lparr>path_is_dir := (\<lambda>p. False)\<rparr>) policy (apath [''tmp'', ''x'']) (apath [''w''])"
  using missing_tmp_full_write_refused [of "example_disk\<lparr>path_is_dir := (\<lambda>p. False)\<rparr>" "apath [''w'']" "apath [''w'']"]
  by simp

text \<open>
  C6: Metadata below a writable root stays protected: when the policy does not grant the full disk,
  a path at or below \<open>.git\<close>, \<open>.agents\<close> or \<open>.codex\<close> of a writable entry cannot be written, and the
  check that runs before execution names a protected directory, unless a writable entry on the way to
  the path was granted inside the metadata of a writable root.
\<close>

theorem metadata_stays_protected:
  assumes "policy_kind policy = Restricted" "policy_wf policy" "cwd_absolute dk" "\<not> has_full_disk_write_access policy"
    "resolve_candidate_path dk p cwd = Some q"
    "r \<in> set (resolved_entries_with_cwd dk policy cwd)" "resolved_access r = Write"
    "is_protected_metadata_name m" "prefix (resolved_path r @ [Normal m]) q"
    "\<not> opens_metadata (resolved_entries_with_cwd dk policy cwd) q"
  shows "\<not> can_write_path_with_cwd dk policy p cwd \<and> forbidden_agent_metadata_write dk p cwd policy \<noteq> None"
proof -
  have m: "m \<in> set PROTECTED_METADATA_PATH_NAMES" using assms(8) by (simp add: is_protected_metadata_name_def)
  note q = resolve_candidate_abs [OF resolve_candidate_normal [OF assms(5,3)]]
  have "\<not> can_write_path_with_cwd dk policy p' cwd" if "resolve_candidate_path dk p' cwd = Some q" for p'
    using metadata_write_denied [OF assms(1-3) that assms(6,7) m assms(9,10)] assms(4)
    by (simp add: can_write_path_with_cwd_def)
  then show ?thesis
    using metadata_write_denied [OF assms(1-3,5-7) m assms(9,10)] assms(1,5) q
    by (auto simp: forbidden_agent_metadata_write_def)
qed

theorem metadata_stays_protected_witness:
  "\<not> can_write_path_with_cwd example_disk example_policy (apath [''w'', ''.git'', ''config'']) (apath [''w'']) \<and>
   forbidden_agent_metadata_write example_disk (apath [''w'', ''.git'', ''config'']) (apath [''w'']) example_policy \<noteq> None"
proof (rule metadata_stays_protected [OF example_policy_kind example_policy_wf example_disk_cwd _
    resolve_candidate_abs [OF abs_normal_apath],
    where r = "\<lparr>resolved_path = apath [''w''], resolved_access = Write\<rparr>" and m = "lit ''.git''"])
  show "\<not> has_full_disk_write_access example_policy"
    by (simp add: has_full_disk_write_access_def example_policy_def restricted_def has_root_access_def new_entry_def)
  show "\<not> opens_metadata (resolved_entries_with_cwd example_disk example_policy (apath [''w''])) (apath [''w'', ''.git'', ''config''])"
    by (simp add: opens_metadata_def example_resolved PROTECTED_METADATA_PATH_NAMES_def)
  show "prefix (resolved_path \<lparr>resolved_path = apath [''w''], resolved_access = Write\<rparr> @ [Normal (lit ''.git'')])
      (apath [''w'', ''.git'', ''config''])" by (simp add: apath_def)
qed (simp_all add: example_resolved is_protected_metadata_name_def PROTECTED_METADATA_PATH_NAMES_def)

text \<open>
  The protection depends on the order of the entries: of two writable roots, the inner one inside
  the metadata of the outer one, the inner root's \<open>.git\<close> is writable when the outer root is listed
  first, and protected when it is listed second.
\<close>

theorem metadata_protection_depends_on_order:
  "let outer = new_entry (PathEntry (apath [''home''])) Write;
       inner = new_entry (PathEntry (apath [''home'', ''.codex'', ''w''])) Write;
       hooks = apath [''home'', ''.codex'', ''w'', ''.git'', ''hooks'']
   in can_write_path_with_cwd dk (restricted [outer, inner]) hooks cwd \<and>
      \<not> can_write_path_with_cwd dk (restricted [inner, outer]) hooks cwd"
proof -
  let ?o = "new_entry (PathEntry (apath [''home''])) Write" and ?i = "new_entry (PathEntry (apath [''home'', ''.codex'', ''w''])) Write"
  let ?ro = "\<lparr>resolved_path = apath [''home''], resolved_access = Write\<rparr>"
  let ?ri = "\<lparr>resolved_path = apath [''home'', ''.codex'', ''w''], resolved_access = Write\<rparr>"
  let ?h = "apath [''home'', ''.codex'', ''w'', ''.git'', ''hooks'']"
  have es: "resolved_entries_with_cwd dk (restricted [?o, ?i]) cwd = [?ro, ?ri]"
    "resolved_entries_with_cwd dk (restricted [?i, ?o]) cwd = [?ri, ?ro]"
    by (simp_all add: resolved_entries_with_cwd_def restricted_def new_entry_def map_filter_simps)
  have g: "governed_by [?ro, ?ri] ?h ?ri" "governed_by [?ri, ?ro] ?h ?ri"
    by (simp_all add: governed_by_def apath_def)
  have full: "\<not> has_full_disk_write_access (restricted [?o, ?i])" "\<not> has_full_disk_write_access (restricted [?i, ?o])"
    by (simp_all add: has_full_disk_write_access_def restricted_def has_root_access_def new_entry_def)
  have k: "policy_kind (restricted x) = Restricted" for x by (simp add: restricted_def)
  have acc: "resolve_access_with_cwd dk (restricted [?o, ?i]) ?h cwd = Write"
    "resolve_access_with_cwd dk (restricted [?i, ?o]) ?h cwd = Write"
    using resolve_access_governed [OF k resolve_candidate_abs [OF abs_normal_apath], of dk _ cwd] es g by simp_all
  have mo: "metadata_child dk ?h ?ro = Some (apath [''home'', ''.codex''], lit ''.codex'')"
    and mi: "metadata_child dk ?h ?ri = Some (apath [''home'', ''.codex'', ''w'', ''.git''], lit ''.git'')"
    using metadata_child_iff [of ?ro ?h dk "apath [''home'', ''.codex'']" "lit ''.codex''"]
      metadata_child_iff [of ?ri ?h dk "apath [''home'', ''.codex'', ''w'', ''.git'']" "lit ''.git''"]
    by (simp_all add: PROTECTED_METADATA_PATH_NAMES_def) (simp_all add: apath_def)
  have d: "\<not> is_metadata_write_denied dk (restricted [?o, ?i]) ?h cwd" "is_metadata_write_denied dk (restricted [?i, ?o]) ?h cwd"
    by (simp_all add: is_metadata_write_denied_def k metadata_child_of_writable_root_def es map_filter_simps mo mi
        has_explicit_write_entry_for_metadata_path_def del: lit_Cons) (simp_all add: apath_def starts_with_prefix)
  show ?thesis unfolding Let_def using acc full d by (simp add: can_write_path_with_cwd_def)
qed

text \<open>
  C32: Denials survive the replacement of a policy: after \<open>preserve_deny_read_restrictions_from\<close>, unless
  the new policy leaves sandboxing to an external sandbox, a path at or below a path the old policy
  denied is denied, as long as every more specific entry containing it denies too; an unrestricted new
  policy becomes a restricted one for that.
\<close>

theorem preserved_denials_hold:
  assumes "d \<in> set (policy_entries existing)" "entry_access d = Deny" "policy_kind policy \<noteq> ExternalSandbox"
    "resolve_entry_path dk (entry_path d) (from_path dk cwd) = Some root"
    "resolve_candidate_path dk p cwd = Some q" "prefix root q"
    "\<forall>f \<in> set (resolved_entries_with_cwd dk (preserve_deny_read_restrictions_from policy existing) cwd).
       prefix (resolved_path f) q \<and> strict_prefix root (resolved_path f) \<longrightarrow> resolved_access f = Deny"
  shows "resolve_access_with_cwd dk (preserve_deny_read_restrictions_from policy existing) p cwd = Deny"
proof -
  let ?pol = "preserve_deny_read_restrictions_from policy existing"
  note kept = preserve_deny_entries [OF assms(1-3)]
  then have "\<lparr>resolved_path = root, resolved_access = Deny\<rparr> \<in> set (resolved_entries_with_cwd dk ?pol cwd)"
    using assms(2,4) by (force simp: resolved_entry_iff)
  then show ?thesis using kept assms(5-7)
    by (intro denied_at_own_path [of _ _ _ _ _ "\<lparr>resolved_path = root, resolved_access = Deny\<rparr>"]) auto
qed

theorem preserved_denials_hold_witness:
  "resolve_access_with_cwd example_disk (preserve_deny_read_restrictions_from unrestricted example_policy)
     (apath [''w'', ''x'', ''y'']) (apath [''w'']) = Deny"
proof (rule preserved_denials_hold [where d = "new_entry (PathEntry (apath [''w'', ''x''])) Deny" and root = "apath [''w'', ''x'']",
      OF _ _ _ _ resolve_candidate_abs [OF abs_normal_apath]])
  show "new_entry (PathEntry (apath [''w'', ''x''])) Deny \<in> set (policy_entries example_policy)"
    by (simp add: example_policy_def restricted_def)
  show "\<forall>f \<in> set (resolved_entries_with_cwd example_disk (preserve_deny_read_restrictions_from unrestricted example_policy) (apath [''w''])).
      prefix (resolved_path f) (apath [''w'', ''x'', ''y'']) \<and> strict_prefix (apath [''w'', ''x'']) (resolved_path f) \<longrightarrow> resolved_access f = Deny"
    by (simp add: preserve_deny_read_restrictions_from_def unrestricted_def example_policy_def restricted_def new_entry_def
        deny_entries_def push_entry_if_new_def resolved_entries_with_cwd_def map_filter_simps resolve_entry_path_Root)
      (simp add: apath_def strict_prefix_def)
qed (simp_all add: new_entry_def unrestricted_def, simp add: apath_def)

text \<open>
  Additional readable roots: afterwards each of them is readable unless that very path is denied,
  nothing that was readable becomes unreadable, and no path that is itself denied becomes readable.
\<close>

theorem additional_readable_roots_exact:
  assumes "policy_kind policy = Restricted" "\<not> has_full_disk_read_access policy" "abs_normal p"
  shows "(p \<in> set roots \<longrightarrow>
       (can_read_path_with_cwd dk (with_additional_readable_roots dk policy cwd roots) p cwd \<longleftrightarrow> \<not> denies_exactly dk policy p cwd)) \<and>
    (can_read_path_with_cwd dk policy p cwd \<longrightarrow>
       can_read_path_with_cwd dk (with_additional_readable_roots dk policy cwd roots) p cwd) \<and>
    (denies_exactly dk policy p cwd \<longrightarrow>
       \<not> can_read_path_with_cwd dk (with_additional_readable_roots dk policy cwd roots) p cwd)"
proof -
  let ?pol = "foldl (add_readable_root dk cwd) policy roots"
  have "\<not> can_read_path_with_cwd dk ?pol p cwd" if "denies_exactly dk policy p cwd"
    using that denied_root_unreadable [of ?pol p _ dk cwd] add_readable_roots_denies [of dk cwd policy roots p] assms(1,3)
    by (auto simp: add_readable_roots_kind denies_exactly_def list_ex_iff)
  then show ?thesis using assms add_readable_roots_read add_readable_roots_keep
    by (auto simp: with_additional_readable_roots_def)
qed

theorem additional_readable_roots_exact_witness:
  "can_read_path_with_cwd example_disk
     (with_additional_readable_roots example_disk (restricted [new_entry (PathEntry (apath [''w''])) Deny]) (apath [''w'']) [apath [''w'', ''y'']])
     (apath [''w'', ''y'']) (apath [''w''])"
proof -
  let ?pol = "restricted [new_entry (PathEntry (apath [''w''])) Deny]"
  have "\<not> denies_exactly example_disk ?pol (apath [''w'', ''y'']) (apath [''w''])"
    by (simp add: denies_exactly_def resolved_entries_with_cwd_def restricted_def new_entry_def map_filter_simps)
      (simp add: apath_def)
  moreover have "policy_kind ?pol = Restricted" "\<not> has_full_disk_read_access ?pol"
    by (simp_all add: restricted_def has_full_disk_read_access_def has_root_access_def new_entry_def)
  ultimately show ?thesis
    using additional_readable_roots_exact [of ?pol "apath [''w'', ''y'']" "[apath [''w'', ''y'']]" example_disk "apath [''w'']"]
    by simp
qed

text \<open>
  A root added with \<open>with_additional_writable_roots\<close> is writable afterwards exactly when that very
  path is not denied; this holds inside protected metadata too.
\<close>

theorem additional_writable_root_exact:
  assumes "policy_kind policy = Restricted" "policy_wf policy" "cwd_absolute dk" "abs_normal r"
  shows "can_write_path_with_cwd dk (with_additional_writable_roots dk policy cwd [r]) r cwd \<longleftrightarrow>
    \<not> denies_exactly dk policy r cwd"
  using add_writable_root_writes [OF assms] by (simp add: with_additional_writable_roots_def)

theorem additional_writable_root_exact_witness:
  "can_write_path_with_cwd example_disk
     (with_additional_writable_roots example_disk example_policy (apath [''w'']) [apath [''w'', ''.git'']]) (apath [''w'', ''.git'']) (apath [''w''])"
proof -
  have "\<not> denies_exactly example_disk example_policy (apath [''w'', ''.git'']) (apath [''w''])"
    by (simp add: denies_exactly_def example_resolved) (simp add: apath_def)
  then show ?thesis
    using additional_writable_root_exact [OF example_policy_kind example_policy_wf example_disk_cwd abs_normal_apath] by blast
qed

text \<open>
  Materialised project roots survive a change of the current directory: the access to every
  absolute path, asked from any other directory, is what the policy with symbolic roots granted from
  the directory it was materialised for.
\<close>

theorem materialized_roots_survive_cwd_change:
  assumes "cwd_absolute dk" "from_path dk cwd = Some c" "from_path dk cwd' = Some c'" "path_is_absolute p"
  shows "resolve_access_with_cwd dk (materialize_project_roots_with_cwd dk policy cwd) p cwd' =
    resolve_access_with_cwd dk policy p cwd"
proof -
  have "resolve_candidate_path dk p cwd' = resolve_candidate_path dk p cwd"
    using assms(4) by (simp add: resolve_candidate_path_def)
  moreover have "policy_kind (materialize_project_roots_with_cwd dk policy cwd) = policy_kind policy"
    by (simp add: materialize_project_roots_with_cwd_def)
  ultimately show ?thesis
    unfolding resolve_access_with_cwd_def materialize_resolved_entries [OF assms(2,3,1)] by simp
qed

theorem materialized_roots_survive_cwd_change_witness:
  "resolve_access_with_cwd example_disk
     (materialize_project_roots_with_cwd example_disk (restricted [new_entry (Special (ProjectRoots None)) Write]) (apath [''w'']))
     (apath [''w'', ''y'']) (apath [''v'']) = Write"
proof -
  let ?pol = "restricted [new_entry (Special (ProjectRoots None)) Write]"
  have "resolve_access_with_cwd example_disk ?pol (apath [''w'', ''y'']) (apath [''w'']) = Write"
    by (simp add: resolve_access_with_cwd_def restricted_def new_entry_def resolved_entries_with_cwd_def map_filter_simps
        resolve_entry_path_def resolve_file_system_path_def resolve_file_system_special_path_def)
      (simp add: apath_def max_by_key_def starts_with_prefix)
  then show ?thesis
    using materialized_roots_survive_cwd_change [of example_disk "apath [''w'']" "apath [''w'']" "apath [''v'']" "apath [''v'']"
        "apath [''w'', ''y'']" ?pol]
    by (simp add: abs_normal_absolute)
qed

text \<open>
  The workspace policy confines writing: everything can be read; a path that can be written lies
  at or below a granted root (the current directory, \<open>/tmp\<close> and \<open>TMPDIR\<close> unless excluded, the
  configured roots); each granted root itself can be written; and metadata of a granted root cannot
  be, unless a granted root lies inside such metadata.
\<close>

theorem workspace_write_confines:
  assumes "cwd_absolute dk" "from_path dk cwd = Some c" "resolve_candidate_path dk p cwd = Some q"
    "list_all abs_normal roots"
  shows "can_read_path_with_cwd dk (workspace_write dk roots ext exs) p cwd \<and>
    (can_write_path_with_cwd dk (workspace_write dk roots ext exs) p cwd \<longrightarrow>
       (\<exists>g \<in> set (granted_roots dk roots ext exs c). prefix g q)) \<and>
    (q \<in> set (granted_roots dk roots ext exs c) \<longrightarrow> can_write_path_with_cwd dk (workspace_write dk roots ext exs) q cwd) \<and>
    ((\<exists>g \<in> set (granted_roots dk roots ext exs c). \<exists>m. is_protected_metadata_name m \<and> prefix (g @ [Normal m]) q) \<and>
     \<not> opens_metadata (resolved_entries_with_cwd dk (workspace_write dk roots ext exs) cwd) q \<longrightarrow>
       \<not> can_write_path_with_cwd dk (workspace_write dk roots ext exs) p cwd)"
proof -
  let ?pol = "workspace_write dk roots ext exs"
  note wf = workspace_write_wf [OF assms(4)]
  have q: "abs_normal q" using assms(3,1) by (rule resolve_candidate_normal)
  have nodeny: "\<not> denies_exactly dk ?pol q cwd"
    using workspace_write_reads_all [OF assms(2,1) resolve_candidate_abs [OF q], of roots ext exs]
      denied_root_unreadable [OF workspace_write_kind q]
    by (auto simp: denies_exactly_def list_ex_iff)
  have "can_write_path_with_cwd dk ?pol q cwd" if "q \<in> set (granted_roots dk roots ext exs c)"
    using that workspace_write_granted [OF assms(2)] nodeny
    by (intro write_entry_explicit [OF workspace_write_kind wf assms(1) q, of "\<lparr>resolved_path = q, resolved_access = Write\<rparr>"])
      simp_all
  moreover have "\<not> can_write_path_with_cwd dk ?pol p cwd"
    if "g \<in> set (granted_roots dk roots ext exs c)" "is_protected_metadata_name m" "prefix (g @ [Normal m]) q"
      "\<not> opens_metadata (resolved_entries_with_cwd dk ?pol cwd) q" for g m
    using metadata_write_denied [OF workspace_write_kind wf assms(1,3), where r = "\<lparr>resolved_path = g, resolved_access = Write\<rparr>" and m = m]
      workspace_write_granted [OF assms(2), of g] workspace_write_no_full_write [of dk roots ext exs] that
    by (auto simp: can_write_path_with_cwd_def is_protected_metadata_name_def)
  ultimately show ?thesis
    using workspace_write_reads_all [OF assms(2,1,3)] workspace_write_confined [OF assms(2,3)] by blast
qed

theorem workspace_write_confines_witness:
  "\<not> can_write_path_with_cwd example_disk (workspace_write example_disk [] False False) (apath [''etc'']) (apath [''w''])"
proof -
  let ?pol = "workspace_write example_disk [] False False"
  have "granted_roots example_disk [] False False (apath [''w'']) = [apath [''w''], apath [''tmp'']]"
    by (simp add: granted_roots_def resolve_file_system_special_path_def example_disk_def apath_def)
  then have "\<not> (\<exists>g \<in> set (granted_roots example_disk [] False False (apath [''w''])). prefix g (apath [''etc'']))"
    by (simp add: apath_def)
  then show ?thesis
    using workspace_write_confines [of example_disk "apath [''w'']" "apath [''w'']" "apath [''etc'']" "apath [''etc'']" "[]" False False]
    by auto
qed

text \<open>
  Every operation that builds or changes a policy keeps the paths of its entries absolute and
  free of \<open>.\<close> and \<open>..\<close>, given roots of that kind.
\<close>

theorem policy_operations_keep_paths_absolute:
  assumes "policy_wf policy" "policy_wf existing" "list_all abs_normal roots" "cwd_absolute dk"
  shows "policy_wf (workspace_write dk roots ext exs) \<and>
    policy_wf (preserve_deny_read_restrictions_from policy existing) \<and>
    policy_wf (remove_skip_missing_path_entries policy) \<and>
    policy_wf (materialize_project_roots_with_cwd dk policy cwd) \<and>
    policy_wf (materialize_project_roots_with_workspace_roots dk policy roots) \<and>
    policy_wf (with_materialized_project_roots_for_workspace_roots dk policy roots) \<and>
    policy_wf (with_additional_readable_roots dk policy cwd roots) \<and>
    policy_wf (with_additional_writable_roots dk policy cwd roots) \<and>
    policy_wf (with_additional_legacy_workspace_writable_roots dk policy roots)"
proof (intro conjI)
  show "policy_wf (workspace_write dk roots ext exs)" using assms(3) by (rule workspace_write_wf)
  have "list_all entry_wf (deny_entries existing)"
    using assms(2) by (auto simp: policy_wf_entries deny_entries_def list_all_iff)
  then show "policy_wf (preserve_deny_read_restrictions_from policy existing)"
    using assms(1) by (auto simp: preserve_deny_read_restrictions_from_def Let_def policy_wf_entries restricted_def entries_wf_push_new)
  show "policy_wf (remove_skip_missing_path_entries policy)"
    using assms(1) by (auto simp: remove_skip_missing_path_entries_def policy_wf_entries list_all_iff)
  show "policy_wf (materialize_project_roots_with_cwd dk policy cwd)"
    using assms(1,4) from_path_normal [OF _ assms(4)]
    by (auto simp: materialize_project_roots_with_cwd_def policy_wf_entries list_all_iff intro: materialize_entry_with_cwd_wf)
  have m: "list_all entry_wf (policy_entries (materialize_project_roots_with_workspace_roots dk policy roots))"
    using assms(1,3) materialize_entry_with_roots_wf [of _ roots dk]
    by (auto simp: materialize_project_roots_with_workspace_roots_def policy_wf_entries list_all_iff)
  then show "policy_wf (materialize_project_roots_with_workspace_roots dk policy roots)" by (simp add: policy_wf_entries)
  show "policy_wf (with_materialized_project_roots_for_workspace_roots dk policy roots)"
    using m assms(1) by (simp add: with_materialized_project_roots_for_workspace_roots_def policy_wf_entries entries_wf_push_new)
  show "policy_wf (with_additional_readable_roots dk policy cwd roots)"
    using assms by (auto simp: with_additional_readable_roots_def add_readable_root_def intro!: foldl_policy_wf policy_wf_push)
  show "policy_wf (with_additional_writable_roots dk policy cwd roots)"
    using assms by (auto simp: with_additional_writable_roots_def add_writable_root_def intro!: foldl_policy_wf policy_wf_push)
  show "policy_wf (with_additional_legacy_workspace_writable_roots dk policy roots)"
    using assms
    by (auto simp: with_additional_legacy_workspace_writable_roots_def intro!: foldl_policy_wf add_legacy_writable_root_wf)
qed

theorem policy_operations_keep_paths_absolute_witness:
  "policy_wf (with_additional_legacy_workspace_writable_roots example_disk example_policy [apath [''v'']])"
  using policy_operations_keep_paths_absolute [OF example_policy_wf example_policy_wf, of "[apath [''v'']]" example_disk]
  by simp

end
