(* ===== verification/Sandbox_Roots.thy ===== *)
theory Sandbox_Roots
  imports Sandbox_Access
begin

text \<open>
  The summaries that sandbox runtimes read off a file-system policy (\<open>protocol/src/permissions.rs\<close>):
  readable roots, writable roots with their read-only carve-outs and protected metadata names,
  unreadable roots and globs, the matcher for denied reads, and the translation to and from the legacy
  \<open>SandboxPolicy\<close> of \<open>protocol/src/protocol.rs\<close>. The glob compiler (crate \<open>globset\<close>) is the
  parameter \<open>build_glob\<close>.
\<close>

section \<open>Writable roots\<close>

record writable_root =
  wr_root :: path
  wr_read_only_subpaths :: "path list"
  wr_protected_metadata_names :: "ustr list"

definition path_contains_protected_metadata_name :: "writable_root \<Rightarrow> path \<Rightarrow> bool" where
  "path_contains_protected_metadata_name w p \<longleftrightarrow>
     (case strip_prefix (wr_root w) p of
        None \<Rightarrow> False
      | Some [] \<Rightarrow> False
      | Some (first_component # _) \<Rightarrow>
          (\<exists>n \<in> set (wr_protected_metadata_names w). component_os_str first_component = n))"

definition is_path_writable :: "writable_root \<Rightarrow> path \<Rightarrow> bool" where
  "is_path_writable w p \<longleftrightarrow>
     (if \<not> starts_with (wr_root w) p then False
      else if \<exists>s \<in> set (wr_read_only_subpaths w). starts_with s p then False
      else if path_contains_protected_metadata_name w p then False
      else True)"

definition has_explicit_resolved_path_entry :: "resolved_file_system_entry list \<Rightarrow> path \<Rightarrow> bool" where
  "has_explicit_resolved_path_entry es p \<longleftrightarrow> (\<exists>e \<in> set es. resolved_path e = p)"

definition protected_metadata_names_for_writable_root ::
  "disk \<Rightarrow> file_system_sandbox_policy \<Rightarrow> path \<Rightarrow> path list \<Rightarrow> path \<Rightarrow> ustr list" where
  "protected_metadata_names_for_writable_root dk policy root raw_writable_roots cwd =
     filter (\<lambda>name. \<forall>p \<in> set (map (\<lambda>r. abs_join dk r (path_components name)) (root # raw_writable_roots)).
               \<not> can_write_path_with_cwd dk policy p cwd)
       PROTECTED_METADATA_PATH_NAMES"

definition raw_carveout_path :: "disk \<Rightarrow> path \<Rightarrow> path list \<Rightarrow> path \<Rightarrow> path option" where
  "raw_carveout_path dk root raw_writable_roots p =
     (if path_parent root = None then None
      else if p = root then None
      else if starts_with root p then Some p
      else find_map
             (\<lambda>raw_root.
                case strip_prefix raw_root p of
                  None \<Rightarrow> None
                | Some below \<Rightarrow> if below = [] then None else Some (abs_join dk root below))
             raw_writable_roots)"

definition carveout_path :: "disk \<Rightarrow> path \<Rightarrow> path list \<Rightarrow> path \<Rightarrow> path option" where
  "carveout_path dk root raw_writable_roots p =
     (case raw_carveout_path dk root raw_writable_roots p of
        Some c \<Rightarrow> Some c
      | None \<Rightarrow>
          (let effective_path = normalize_effective_absolute_path dk p
           in if effective_path = root \<or> \<not> starts_with root effective_path then None else Some effective_path))"

definition writable_root_for ::
  "disk \<Rightarrow> file_system_sandbox_policy \<Rightarrow> path \<Rightarrow> path list \<Rightarrow> path \<Rightarrow> writable_root" where
  "writable_root_for dk policy cwd writable_entries root =
     (let resolved_entries = resolved_entries_with_cwd dk policy cwd;
          raw_writable_roots = filter (\<lambda>p. normalize_effective_absolute_path dk p = root) writable_entries;
          protect_missing_dot_codex =
            (case from_path dk cwd of Some c \<Rightarrow> normalize_effective_absolute_path dk c = root | None \<Rightarrow> False);
          default_subpaths =
            filter (\<lambda>p. \<not> has_explicit_resolved_path_entry resolved_entries p)
              (default_read_only_subpaths_for_writable_root dk root protect_missing_dot_codex);
          carveouts =
            List.map_filter (\<lambda>e. carveout_path dk root raw_writable_roots (resolved_path e))
              (filter (\<lambda>e. \<not> can_write (resolved_access e) \<and> \<not> can_write_path_with_cwd dk policy (resolved_path e) cwd)
                resolved_entries)
      in \<lparr>wr_root = root,
          wr_read_only_subpaths = dedup_absolute_paths dk (default_subpaths @ carveouts) False,
          wr_protected_metadata_names =
            protected_metadata_names_for_writable_root dk policy root raw_writable_roots cwd\<rparr>)"

definition writable_entry_paths :: "disk \<Rightarrow> file_system_sandbox_policy \<Rightarrow> path \<Rightarrow> path list" where
  "writable_entry_paths dk policy cwd =
     map resolved_path
       (filter (\<lambda>e. can_write (resolved_access e) \<and> can_write_path_with_cwd dk policy (resolved_path e) cwd)
         (resolved_entries_with_cwd dk policy cwd))"

definition get_writable_roots_with_cwd :: "disk \<Rightarrow> file_system_sandbox_policy \<Rightarrow> path \<Rightarrow> writable_root list" where
  "get_writable_roots_with_cwd dk policy cwd =
     (if has_full_disk_write_access policy then []
      else (let writable_entries = writable_entry_paths dk policy cwd
            in map (writable_root_for dk policy cwd writable_entries)
                 (dedup_absolute_paths dk writable_entries True)))"

section \<open>Readable and unreadable roots\<close>

definition get_readable_roots_with_cwd :: "disk \<Rightarrow> file_system_sandbox_policy \<Rightarrow> path \<Rightarrow> path list" where
  "get_readable_roots_with_cwd dk policy cwd =
     (if has_full_disk_read_access policy then []
      else dedup_absolute_paths dk
             (map resolved_path
               (filter (\<lambda>e. can_read (resolved_access e) \<and> can_read_path_with_cwd dk policy (resolved_path e) cwd)
                 (resolved_entries_with_cwd dk policy cwd)))
             True)"

definition get_unreadable_roots_with_cwd :: "disk \<Rightarrow> file_system_sandbox_policy \<Rightarrow> path \<Rightarrow> path list" where
  "get_unreadable_roots_with_cwd dk policy cwd =
     (if policy_kind policy \<noteq> Restricted then []
      else (let root = Option.bind (from_path dk cwd) (absolute_root_path_for_cwd dk)
            in dedup_absolute_paths dk
                 (map resolved_path
                   (filter (\<lambda>e. resolved_access e = Deny \<and>
                                \<not> can_read_path_with_cwd dk policy (resolved_path e) cwd \<and>
                                root \<noteq> Some (resolved_path e))
                     (resolved_entries_with_cwd dk policy cwd)))
                 True))"

definition unreadable_glob :: "disk \<Rightarrow> path \<Rightarrow> file_system_sandbox_entry \<Rightarrow> ustr option" where
  "unreadable_glob dk cwd e =
     (case entry_path e of
        GlobPattern pattern \<Rightarrow> Some (path_display (resolve_path_against_base dk (path_components pattern) cwd))
      | _ \<Rightarrow> None)"

definition get_unreadable_globs_with_cwd :: "disk \<Rightarrow> file_system_sandbox_policy \<Rightarrow> path \<Rightarrow> ustr list" where
  "get_unreadable_globs_with_cwd dk policy cwd =
     (if policy_kind policy \<noteq> Restricted then []
      else remdups_adj (sort (List.map_filter (unreadable_glob dk cwd) (deny_entries policy))))"

section \<open>The matcher for denied reads\<close>

record read_deny_matcher =
  denied_candidates :: "path list list"
  deny_read_matchers :: "(path \<Rightarrow> bool) list"
  invalid_pattern :: bool

datatype invalid_deny_read_glob_behavior = FailClosed | ReturnError

definition push_unique :: "path list \<Rightarrow> path \<Rightarrow> path list" where
  "push_unique candidates c = (if c \<in> set candidates then candidates else candidates @ [c])"

definition normalized_and_canonical_candidates :: "disk \<Rightarrow> path \<Rightarrow> path list" where
  "normalized_and_canonical_candidates dk p =
     (let candidates = push_unique [] (case from_path dk p of Some n \<Rightarrow> n | None \<Rightarrow> p)
      in case Option.bind (canonicalize_path dk p) (from_path dk) of
           Some c \<Rightarrow> push_unique candidates c | None \<Rightarrow> candidates)"

fun build_matchers ::
  "(ustr \<Rightarrow> ustr + (path \<Rightarrow> bool)) \<Rightarrow> invalid_deny_read_glob_behavior \<Rightarrow> ustr list \<Rightarrow>
   (path \<Rightarrow> bool) list \<Rightarrow> bool \<Rightarrow> ustr + (path \<Rightarrow> bool) list \<times> bool" where
  "build_matchers build_glob behavior [] matchers invalid = Ok (matchers, invalid)"
| "build_matchers build_glob behavior (pattern # patterns) matchers invalid =
     (case build_glob pattern of
        Inr matcher \<Rightarrow> build_matchers build_glob behavior patterns (matchers @ [matcher]) invalid
      | Inl err \<Rightarrow>
          (case behavior of
             FailClosed \<Rightarrow> build_matchers build_glob behavior patterns matchers True
           | ReturnError \<Rightarrow> Err (lit ''invalid deny-read glob pattern `'' @ pattern @ lit ''`: '' @ err)))"

definition build_read_deny_matcher ::
  "(ustr \<Rightarrow> ustr + (path \<Rightarrow> bool)) \<Rightarrow> disk \<Rightarrow> file_system_sandbox_policy \<Rightarrow> path \<Rightarrow>
   invalid_deny_read_glob_behavior \<Rightarrow> ustr + read_deny_matcher option" where
  "build_read_deny_matcher build_glob dk policy cwd behavior =
     (if \<not> has_denied_read_restrictions policy then Ok None
      else (case build_matchers build_glob behavior (get_unreadable_globs_with_cwd dk policy cwd) [] False of
              Inl e \<Rightarrow> Err e
            | Inr (matchers, invalid) \<Rightarrow>
                Ok (Some \<lparr>denied_candidates = map (normalized_and_canonical_candidates dk) (get_unreadable_roots_with_cwd dk policy cwd),
                          deny_read_matchers = matchers, invalid_pattern = invalid\<rparr>)))"

text \<open>\<open>ReadDenyMatcher::new\<close>: the outer \<open>None\<close> would be the \<open>unreachable!\<close> of the source.\<close>

definition read_deny_matcher_new ::
  "(ustr \<Rightarrow> ustr + (path \<Rightarrow> bool)) \<Rightarrow> disk \<Rightarrow> file_system_sandbox_policy \<Rightarrow> path \<Rightarrow> read_deny_matcher option option" where
  "read_deny_matcher_new build_glob dk policy cwd =
     (case build_read_deny_matcher build_glob dk policy cwd FailClosed of Inr m \<Rightarrow> Some m | Inl _ \<Rightarrow> None)"

definition read_deny_matcher_try_new ::
  "(ustr \<Rightarrow> ustr + (path \<Rightarrow> bool)) \<Rightarrow> disk \<Rightarrow> file_system_sandbox_policy \<Rightarrow> path \<Rightarrow> ustr + read_deny_matcher option" where
  "read_deny_matcher_try_new build_glob dk policy cwd = build_read_deny_matcher build_glob dk policy cwd ReturnError"

definition is_read_denied :: "disk \<Rightarrow> read_deny_matcher \<Rightarrow> path \<Rightarrow> bool" where
  "is_read_denied dk m p \<longleftrightarrow>
     (if invalid_pattern m then True
      else (let path_candidates = normalized_and_canonical_candidates dk p
            in if \<exists>denied \<in> set (denied_candidates m). \<exists>c \<in> set path_candidates. \<exists>d \<in> set denied. c = d \<or> starts_with d c
               then True
               else \<exists>matcher \<in> set (deny_read_matchers m). \<exists>c \<in> set path_candidates. matcher c))"

section \<open>The legacy policy\<close>

datatype network_access = NetworkAccessRestricted | NetworkAccessEnabled

datatype sandbox_policy =
    DangerFullAccess
  | ReadOnly bool
  | ExternalSandboxPolicy network_access
  | WorkspaceWrite (writable_roots: "path list") (workspace_network_access: bool)
      (exclude_tmpdir_env_var: bool) (exclude_slash_tmp: bool)

definition new_read_only_policy :: sandbox_policy where
  "new_read_only_policy = ReadOnly False"

definition new_workspace_write_policy :: sandbox_policy where
  "new_workspace_write_policy = WorkspaceWrite [] False False False"

fun legacy_has_full_disk_write_access :: "sandbox_policy \<Rightarrow> bool" where
  "legacy_has_full_disk_write_access DangerFullAccess = True"
| "legacy_has_full_disk_write_access (ExternalSandboxPolicy _) = True"
| "legacy_has_full_disk_write_access (ReadOnly _) = False"
| "legacy_has_full_disk_write_access (WorkspaceWrite _ _ _ _) = False"

fun has_full_network_access :: "sandbox_policy \<Rightarrow> bool" where
  "has_full_network_access DangerFullAccess = True"
| "has_full_network_access (ExternalSandboxPolicy n) = (n = NetworkAccessEnabled)"
| "has_full_network_access (ReadOnly n) = n"
| "has_full_network_access (WorkspaceWrite _ n _ _) = n"

definition network_policy_of_legacy :: "sandbox_policy \<Rightarrow> network_sandbox_policy" where
  "network_policy_of_legacy p = (if has_full_network_access p then NetworkEnabled else NetworkRestricted)"

fun policy_of_legacy :: "disk \<Rightarrow> sandbox_policy \<Rightarrow> file_system_sandbox_policy" where
  "policy_of_legacy dk DangerFullAccess = unrestricted"
| "policy_of_legacy dk (ExternalSandboxPolicy _) = external_sandbox"
| "policy_of_legacy dk (ReadOnly _) = restricted [new_entry (Special Root) Read]"
| "policy_of_legacy dk (WorkspaceWrite roots _ ext exs) = workspace_write dk roots ext exs"

definition protect_cwd_and_roots :: "disk \<Rightarrow> path \<Rightarrow> path list \<Rightarrow> file_system_sandbox_entry list \<Rightarrow> file_system_sandbox_entry list" where
  "protect_cwd_and_roots dk cwd roots es =
     (let es1 = (case from_path dk cwd of Some c \<Rightarrow> protect_root dk True es c | None \<Rightarrow> es)
      in foldl (protect_root dk False) es1 roots)"

definition from_legacy_sandbox_policy_for_cwd :: "disk \<Rightarrow> sandbox_policy \<Rightarrow> path \<Rightarrow> file_system_sandbox_policy" where
  "from_legacy_sandbox_policy_for_cwd dk sp cwd =
     (let policy = policy_of_legacy dk sp
      in case sp of
           WorkspaceWrite roots _ _ _ \<Rightarrow>
             policy\<lparr>policy_entries := protect_cwd_and_roots dk cwd roots (policy_entries policy)\<rparr>
         | _ \<Rightarrow> policy)"

definition from_legacy_sandbox_policy_preserving_deny_entries ::
  "disk \<Rightarrow> sandbox_policy \<Rightarrow> path \<Rightarrow> file_system_sandbox_policy \<Rightarrow> file_system_sandbox_policy" where
  "from_legacy_sandbox_policy_preserving_deny_entries dk sp cwd existing =
     (let rebuilt = from_legacy_sandbox_policy_for_cwd dk sp cwd
      in if policy_kind rebuilt \<noteq> Restricted then rebuilt
         else rebuilt\<lparr>glob_scan_max_depth := glob_scan_max_depth existing,
                      policy_entries := foldl push_entry_if_new (policy_entries rebuilt) (deny_entries existing)\<rparr>)"

definition legacy_runtime_file_system_policy_for_cwd :: "disk \<Rightarrow> sandbox_policy \<Rightarrow> path \<Rightarrow> file_system_sandbox_policy" where
  "legacy_runtime_file_system_policy_for_cwd dk sp cwd =
     (case sp of
        WorkspaceWrite roots _ ext exs \<Rightarrow>
          restricted (protect_cwd_and_roots dk cwd roots (workspace_allow_entries roots ext exs))
      | _ \<Rightarrow> policy_of_legacy dk sp)"

definition legacy_get_writable_roots_with_cwd :: "disk \<Rightarrow> sandbox_policy \<Rightarrow> path \<Rightarrow> writable_root list" where
  "legacy_get_writable_roots_with_cwd dk sp cwd =
     (case sp of
        WorkspaceWrite roots _ ext exs \<Rightarrow>
          (let slash_tmp = [RootDir, Normal (lit ''tmp'')];
               all_roots = roots
                 @ (case from_path dk cwd of Some c \<Rightarrow> [c] | None \<Rightarrow> [])
                 @ (if \<not> exs \<and> path_is_dir dk slash_tmp then [slash_tmp] else [])
                 @ (if ext then [] else
                      case tmpdir_var dk of
                        None \<Rightarrow> []
                      | Some t \<Rightarrow> if t = [] then []
                                  else (case from_path dk (path_components t) of Some d \<Rightarrow> [d] | None \<Rightarrow> []))
           in map (\<lambda>r. \<lparr>wr_root = r,
                        wr_read_only_subpaths =
                          default_read_only_subpaths_for_writable_root dk r (from_path dk cwd = Some r),
                        wr_protected_metadata_names = []\<rparr>) all_roots)
      | _ \<Rightarrow> [])"

text \<open>What \<open>to_legacy_sandbox_policy\<close> gathers from the entries of a restricted policy.\<close>

record legacy_scan =
  scan_workspace_root_writable :: bool
  scan_writable_roots :: "path list"
  scan_tmpdir_writable :: bool
  scan_slash_tmp_writable :: bool
  scan_unbridgeable_root_write :: bool

definition scan_entry :: "disk \<Rightarrow> path option \<Rightarrow> legacy_scan \<Rightarrow> file_system_sandbox_entry \<Rightarrow> legacy_scan" where
  "scan_entry dk cwd s e =
     (case entry_path e of
        GlobPattern _ \<Rightarrow> s
      | PathEntry p \<Rightarrow>
          if can_write (entry_access e)
          then (if cwd = Some p then s\<lparr>scan_workspace_root_writable := True\<rparr>
                else s\<lparr>scan_writable_roots := scan_writable_roots s @ [p]\<rparr>)
          else s
      | Special value \<Rightarrow>
          (case value of
             Root \<Rightarrow> (case entry_access e of Write \<Rightarrow> s\<lparr>scan_unbridgeable_root_write := True\<rparr> | _ \<Rightarrow> s)
           | Minimal \<Rightarrow> s
           | ProjectRoots subpath \<Rightarrow>
               if subpath = None \<and> can_write (entry_access e) then s\<lparr>scan_workspace_root_writable := True\<rparr>
               else (case resolve_file_system_special_path dk value cwd of
                       Some p \<Rightarrow> if can_write (entry_access e)
                                 then s\<lparr>scan_writable_roots := scan_writable_roots s @ [p]\<rparr> else s
                     | None \<Rightarrow> s)
           | Tmpdir \<Rightarrow> if can_write (entry_access e) then s\<lparr>scan_tmpdir_writable := True\<rparr> else s
           | SlashTmp \<Rightarrow> if can_write (entry_access e) then s\<lparr>scan_slash_tmp_writable := True\<rparr> else s
           | Unknown _ _ \<Rightarrow> s))"

definition scan_start :: legacy_scan where
  "scan_start = \<lparr>scan_workspace_root_writable = False, scan_writable_roots = [], scan_tmpdir_writable = False,
     scan_slash_tmp_writable = False, scan_unbridgeable_root_write = False\<rparr>"

definition no_sandbox_policy :: "network_sandbox_policy \<Rightarrow> sandbox_policy" where
  "no_sandbox_policy network =
     (if network_is_enabled network then DangerFullAccess else ExternalSandboxPolicy NetworkAccessRestricted)"

definition unsupported_writes :: ustr where
  "unsupported_writes = lit ''permissions profile requests filesystem writes outside the workspace root, which is not supported until the runtime enforces FileSystemSandboxPolicy directly''"

definition to_legacy_sandbox_policy ::
  "disk \<Rightarrow> file_system_sandbox_policy \<Rightarrow> network_sandbox_policy \<Rightarrow> path \<Rightarrow> ustr + sandbox_policy" where
  "to_legacy_sandbox_policy dk policy network cwd =
     (case policy_kind policy of
        ExternalSandbox \<Rightarrow>
          Ok (ExternalSandboxPolicy (if network_is_enabled network then NetworkAccessEnabled else NetworkAccessRestricted))
      | Unrestricted \<Rightarrow> Ok (no_sandbox_policy network)
      | Restricted \<Rightarrow>
          (let s = foldl (scan_entry dk (from_path dk cwd)) scan_start (policy_entries policy)
           in if has_full_disk_write_access policy then Ok (no_sandbox_policy network)
              else if scan_workspace_root_writable s
              then Ok (WorkspaceWrite (dedup_absolute_paths dk (scan_writable_roots s) False)
                         (network_is_enabled network) (\<not> scan_tmpdir_writable s) (\<not> scan_slash_tmp_writable s))
              else if scan_unbridgeable_root_write s \<or> scan_writable_roots s \<noteq> [] \<or> scan_tmpdir_writable s \<or> scan_slash_tmp_writable s
              then Err unsupported_writes
              else Ok (ReadOnly (network_is_enabled network))))"

section \<open>Comparing policies\<close>

record semantic_signature =
  sig_full_disk_read :: bool
  sig_full_disk_write :: bool
  sig_platform_defaults :: bool
  sig_readable_roots :: "path list"
  sig_writable_roots :: "writable_root list"
  sig_unreadable_roots :: "path list"
  sig_unreadable_globs :: "ustr list"

definition sorted_writable_roots :: "writable_root list \<Rightarrow> writable_root list" where
  "sorted_writable_roots ws =
     sort_key wr_root
       (map (\<lambda>w. w\<lparr>wr_read_only_subpaths := sort (wr_read_only_subpaths w),
                   wr_protected_metadata_names := remdups_adj (sort (wr_protected_metadata_names w))\<rparr>) ws)"

definition semantic_signature_of :: "disk \<Rightarrow> file_system_sandbox_policy \<Rightarrow> path \<Rightarrow> semantic_signature" where
  "semantic_signature_of dk policy cwd =
     \<lparr>sig_full_disk_read = has_full_disk_read_access policy,
      sig_full_disk_write = has_full_disk_write_access policy,
      sig_platform_defaults = include_platform_defaults policy,
      sig_readable_roots = sort (get_readable_roots_with_cwd dk policy cwd),
      sig_writable_roots = sorted_writable_roots (get_writable_roots_with_cwd dk policy cwd),
      sig_unreadable_roots = sort (get_unreadable_roots_with_cwd dk policy cwd),
      sig_unreadable_globs = get_unreadable_globs_with_cwd dk policy cwd\<rparr>"

definition is_semantically_equivalent_to :: "disk \<Rightarrow> file_system_sandbox_policy \<Rightarrow> file_system_sandbox_policy \<Rightarrow> path \<Rightarrow> bool" where
  "is_semantically_equivalent_to dk policy other cwd \<longleftrightarrow>
     semantic_signature_of dk policy cwd = semantic_signature_of dk other cwd"

definition protected_metadata_names_need_direct_runtime_enforcement ::
  "disk \<Rightarrow> file_system_sandbox_policy \<Rightarrow> sandbox_policy \<Rightarrow> path \<Rightarrow> bool" where
  "protected_metadata_names_need_direct_runtime_enforcement dk policy legacy_policy cwd \<longleftrightarrow>
     (let legacy_roots = legacy_get_writable_roots_with_cwd dk legacy_policy cwd
      in \<exists>w \<in> set (get_writable_roots_with_cwd dk policy cwd).
           (case find (\<lambda>l. wr_root l = wr_root w) legacy_roots of
              None \<Rightarrow> wr_protected_metadata_names w \<noteq> []
            | Some l \<Rightarrow>
                (\<exists>n \<in> set (wr_protected_metadata_names w).
                   \<not> (\<exists>s \<in> set (wr_read_only_subpaths l). s = abs_join dk (wr_root w) (path_components n)))))"

definition needs_direct_runtime_enforcement ::
  "disk \<Rightarrow> file_system_sandbox_policy \<Rightarrow> network_sandbox_policy \<Rightarrow> path \<Rightarrow> bool" where
  "needs_direct_runtime_enforcement dk policy network cwd \<longleftrightarrow>
     (if policy_kind policy \<noteq> Restricted then False
      else case to_legacy_sandbox_policy dk policy network cwd of
             Inl _ \<Rightarrow> True
           | Inr legacy_policy \<Rightarrow>
               if protected_metadata_names_need_direct_runtime_enforcement dk policy legacy_policy cwd then True
               else semantic_signature_of dk policy cwd \<noteq>
                    semantic_signature_of dk (legacy_runtime_file_system_policy_for_cwd dk legacy_policy cwd) cwd)"

section \<open>Lemmas\<close>

text \<open>On a disk without symbolic links, following links changes nothing.\<close>

definition link_free :: "disk \<Rightarrow> bool" where
  "link_free dk \<longleftrightarrow> (\<forall>p. canonicalize_path dk p = None \<or> canonicalize_path dk p = Some p)"

lemma canonicalize_link_free:
  assumes "link_free dk" "abs_normal p"
  shows "canonicalize_preserving_symlinks dk p = Some p"
  using assms(1) [unfolded link_free_def, rule_format, of p] assms(2)
  by (auto simp: canonicalize_preserving_symlinks_def)

lemma normalize_effective_from_id:
  assumes "link_free dk" "abs_normal p" "\<And>q. q \<in> set qs \<Longrightarrow> q \<noteq> [] \<and> prefix q p"
  shows "normalize_effective_from dk p qs = p"
  using assms(3)
proof (induction qs)
  case (Cons q qs)
  then obtain r where r: "p = q @ r" "q \<noteq> []" by (auto simp: prefix_def)
  then obtain ns where ns: "r = map Normal ns" and q: "abs_normal q"
    using abs_normal_append_iff [of q r] assms(2) by auto
  have "path_join q r = p"
    using r(2) by (cases ns) (auto simp: path_join_def path_is_absolute_def r(1) ns filter_map comp_def)
  then show ?case using Cons canonicalize_link_free [OF assms(1) q] assms(2) r(1) by simp
qed simp

lemma normalize_effective_id: "link_free dk \<Longrightarrow> abs_normal p \<Longrightarrow> normalize_effective_absolute_path dk p = p"
  unfolding normalize_effective_absolute_path_def
  by (rule normalize_effective_from_id) (simp_all add: ancestors_abs_normal)

lemma dedup_link_free:
  assumes "link_free dk" "list_all abs_normal ps"
  shows "set (dedup_absolute_paths dk ps b) = set ps"
proof -
  have "map (normalize_effective_absolute_path dk) ps = ps"
    using assms by (simp add: list_all_iff map_idI normalize_effective_id)
  then show ?thesis by (simp add: dedup_absolute_paths_def set_dedup_from)
qed

text \<open>A writable root of the summary comes from a writable entry.\<close>

lemma writable_entry_paths_normal:
  "policy_wf policy \<Longrightarrow> cwd_absolute dk \<Longrightarrow> list_all abs_normal (writable_entry_paths dk policy cwd)"
  by (auto simp: writable_entry_paths_def list_all_iff intro: resolved_entry_normal)

lemma writable_root_origin:
  assumes "link_free dk" "policy_wf policy" "cwd_absolute dk" "w \<in> set (get_writable_roots_with_cwd dk policy cwd)"
  obtains e where "e \<in> set (resolved_entries_with_cwd dk policy cwd)" "resolved_access e = Write"
    "can_write_path_with_cwd dk policy (resolved_path e) cwd" "\<not> has_full_disk_write_access policy"
    "w = writable_root_for dk policy cwd (writable_entry_paths dk policy cwd) (resolved_path e)"
proof -
  have nf: "\<not> has_full_disk_write_access policy"
    using assms(4) by (auto simp: get_writable_roots_with_cwd_def)
  then obtain r where r: "r \<in> set (dedup_absolute_paths dk (writable_entry_paths dk policy cwd) True)"
      "w = writable_root_for dk policy cwd (writable_entry_paths dk policy cwd) r"
    using assms(4) by (auto simp: get_writable_roots_with_cwd_def Let_def)
  then have "r \<in> set (writable_entry_paths dk policy cwd)"
    using dedup_link_free [OF assms(1) writable_entry_paths_normal [OF assms(2,3)]] by simp
  then show thesis using that nf r(2) by (auto simp: writable_entry_paths_def)
qed

lemma writable_root_for_root [simp]: "wr_root (writable_root_for dk policy cwd ws r) = r"
  by (simp add: writable_root_for_def Let_def)

lemma carveout_listed:
  assumes "link_free dk" "policy_wf policy" "cwd_absolute dk"
    "e \<in> set (resolved_entries_with_cwd dk policy cwd)" "resolved_access e \<noteq> Write"
    "\<not> can_write_path_with_cwd dk policy (resolved_path e) cwd" "strict_prefix r (resolved_path e)"
  shows "resolved_path e \<in> set (wr_read_only_subpaths (writable_root_for dk policy cwd ws r))"
proof -
  have "abs_normal (resolved_path e)" using assms(2-4) by (rule resolved_entry_normal)
  then have "carveout_path dk r raw (resolved_path e) = Some (resolved_path e)" for raw
    using assms(1,7) normalize_effective_id [OF assms(1)]
    by (auto simp: carveout_path_def raw_carveout_path_def starts_with_prefix strict_prefix_def)
  then show ?thesis using assms(4-6)
    by (auto simp: writable_root_for_def Let_def dedup_absolute_paths_def set_dedup_from set_map_filter_iff intro!: bexI [of _ e])
qed

lemma writable_root_access:
  assumes "link_free dk" "policy_wf policy" "cwd_absolute dk" "policy_kind policy = Restricted" "abs_normal p"
    "e \<in> set (resolved_entries_with_cwd dk policy cwd)" "can_write_path_with_cwd dk policy (resolved_path e) cwd"
    "is_path_writable (writable_root_for dk policy cwd ws (resolved_path e)) p"
  obtains g where "governed_by (resolved_entries_with_cwd dk policy cwd) p g" "resolved_access g = Write"
    "prefix (resolved_path e) (resolved_path g)"
proof -
  let ?es = "resolved_entries_with_cwd dk policy cwd"
  have ep: "prefix (resolved_path e) p" using assms(8) by (simp add: is_path_writable_def starts_with_prefix split: if_splits)
  then obtain g where g: "governed_by ?es p g" using governed_by_exists assms(6) by blast
  then have eg: "prefix (resolved_path e) (resolved_path g)" and gp: "prefix (resolved_path g) p" and gin: "g \<in> set ?es"
    using assms(6) ep by (auto simp: governed_by_def)
  have self: "governed_by ?es (resolved_path g) g"
    using g by (auto simp: governed_by_def)
  have ng: "abs_normal (resolved_path g)" using assms(2,3) gin by (rule resolved_entry_normal)
  have acc: "resolve_access_with_cwd dk policy (resolved_path g) cwd = resolved_access g"
    using resolve_access_governed [OF assms(4) resolve_candidate_abs [OF ng] self] .
  have "resolved_access g = Write"
  proof (rule ccontr)
    assume nw: "resolved_access g \<noteq> Write"
    then have ncw: "\<not> can_write_path_with_cwd dk policy (resolved_path g) cwd"
      using acc by (simp add: can_write_path_with_cwd_def)
    with assms(7) eg have "strict_prefix (resolved_path e) (resolved_path g)" by (auto simp: strict_prefix_def)
    from carveout_listed [OF assms(1-3) gin nw ncw this] show False
      using assms(8) gp by (auto simp: is_path_writable_def starts_with_prefix split: if_splits)
  qed
  then show thesis using that g eg by blast
qed

text \<open>The first writable root whose metadata contains a path also protects the metadata directory itself.\<close>

lemma map_filter_hd:
  "List.map_filter f xs = y # ys \<Longrightarrow> \<exists>us x vs. xs = us @ x # vs \<and> (\<forall>u \<in> set us. f u = None) \<and> f x = Some y"
proof (induction xs)
  case (Cons x xs)
  show ?case
  proof (cases "f x")
    case None
    then obtain us v vs where "xs = us @ v # vs" "\<forall>u \<in> set us. f u = None" "f v = Some y"
      using Cons by (auto simp: map_filter_simps)
    then show ?thesis using None by (intro exI [of _ "x # us"] exI [of _ v] exI [of _ vs]) simp
  next
    case (Some z)
    then show ?thesis using Cons.prems by (intro exI [of _ "[]"] exI [of _ x] exI [of _ xs]) (simp add: map_filter_simps)
  qed
qed (simp add: map_filter_simps)

lemma map_filter_skip: "\<forall>u \<in> set us. f u = None \<Longrightarrow> List.map_filter f (us @ xs) = List.map_filter f xs"
  by (induction us) (simp_all add: map_filter_simps)

lemma metadata_root_of_directory:
  assumes "policy_wf policy" "cwd_absolute dk" "abs_normal p" "metadata_child_of_writable_root dk policy p cwd = Some (pr, m)"
  shows "metadata_child_of_writable_root dk policy pr cwd = Some (pr, m)"
proof -
  let ?ws = "filter (\<lambda>e. can_write (resolved_access e)) (resolved_entries_with_cwd dk policy cwd)"
  have ne: "abs_normal (resolved_path e)" if "e \<in> set ?ws" for e
    using that resolved_entry_normal [OF assms(1,2), of e cwd] by simp
  obtain ys where "List.map_filter (metadata_child dk p) ?ws = (pr, m) # ys"
    using assms(4) by (auto simp: metadata_child_of_writable_root_def split: list.splits)
  then obtain us e vs where ws: "?ws = us @ e # vs" and us: "\<forall>u \<in> set us. metadata_child dk p u = None"
    and e: "metadata_child dk p e = Some (pr, m)" using map_filter_hd by fast
  have ein: "e \<in> set ?ws" unfolding ws by simp
  have pre: "prefix pr p" and m: "m \<in> set PROTECTED_METADATA_PATH_NAMES" and pr: "pr = resolved_path e @ [Normal m]"
    using e metadata_child_iff [OF ne [OF ein] assms(3)] by blast+
  have npr: "abs_normal pr"
    using abs_join_metadata [OF ne [OF ein] m, of dk] abs_join_normal [OF ne [OF ein], of dk "path_components m"] pr by simp
  have "metadata_child dk pr u = None" if "u \<in> set us" for u
  proof (rule ccontr)
    assume "metadata_child dk pr u \<noteq> None"
    then obtain pr' m' where "metadata_child dk pr u = Some (pr', m')" by auto
    moreover have u: "u \<in> set ?ws" unfolding ws using that by simp
    ultimately have "metadata_child dk p u = Some (pr', m')"
      using metadata_child_iff [OF ne [OF u] npr] metadata_child_iff [OF ne [OF u] assms(3)] pre
      by (metis prefix_order.trans)
    then show False using us that by simp
  qed
  moreover have "metadata_child dk pr e = Some (pr, m)"
    using metadata_child_iff [OF ne [OF ein] npr] m pr by blast
  ultimately show ?thesis
    unfolding metadata_child_of_writable_root_def ws by (simp add: map_filter_skip map_filter_simps)
qed

lemma protected_name_listed:
  assumes "link_free dk" "policy_wf policy" "cwd_absolute dk" "abs_normal r" "m \<in> set PROTECTED_METADATA_PATH_NAMES"
    "\<not> can_write_path_with_cwd dk policy (r @ [Normal m]) cwd"
  shows "m \<in> set (wr_protected_metadata_names (writable_root_for dk policy cwd (writable_entry_paths dk policy cwd) r))"
proof -
  have "x = r" if "x \<in> set (writable_entry_paths dk policy cwd)" "normalize_effective_absolute_path dk x = r" for x
    using that writable_entry_paths_normal [OF assms(2,3), of cwd] normalize_effective_id [OF assms(1)]
    by (auto simp: list_all_iff)
  then have "\<not> can_write_path_with_cwd dk policy (abs_join dk x (path_components m)) cwd"
    if "x \<in> set (writable_entry_paths dk policy cwd)" "normalize_effective_absolute_path dk x = r" for x
    using that assms(6) abs_join_metadata [OF assms(4,5), of dk] by metis
  then show ?thesis using assms(5,6) abs_join_metadata [OF assms(4,5), of dk]
    by (auto simp: writable_root_for_def Let_def protected_metadata_names_for_writable_root_def)
qed

lemma writable_root_no_metadata:
  assumes lf: "link_free dk" and wf: "policy_wf policy" and ca: "cwd_absolute dk" and k: "policy_kind policy = Restricted"
    and p: "abs_normal p" and nf: "\<not> has_full_disk_write_access policy"
    and e: "e \<in> set (resolved_entries_with_cwd dk policy cwd)" "can_write_path_with_cwd dk policy (resolved_path e) cwd"
    and w: "is_path_writable (writable_root_for dk policy cwd (writable_entry_paths dk policy cwd) (resolved_path e)) p"
    and nested: "\<And>f m. f \<in> set (resolved_entries_with_cwd dk policy cwd) \<Longrightarrow> resolved_access f = Write \<Longrightarrow>
      strict_prefix (resolved_path e) (resolved_path f) \<Longrightarrow> m \<in> set PROTECTED_METADATA_PATH_NAMES \<Longrightarrow>
      \<not> prefix (resolved_path f @ [Normal m]) p"
  shows "\<not> is_metadata_write_denied dk policy p cwd"
proof
  let ?es = "resolved_entries_with_cwd dk policy cwd"
  let ?W = "writable_root_for dk policy cwd (writable_entry_paths dk policy cwd) (resolved_path e)"
  assume "is_metadata_write_denied dk policy p cwd"
  then obtain pr m where root: "metadata_child_of_writable_root dk policy p cwd = Some (pr, m)"
    and no: "\<not> has_explicit_write_entry_for_metadata_path dk policy pr p cwd"
    by (auto simp: is_metadata_write_denied_def p k split: option.splits)
  from root obtain f where f: "f \<in> set ?es" "resolved_access f = Write" "metadata_child dk p f = Some (pr, m)"
    by (rule metadata_root_Some)
  have nf': "abs_normal (resolved_path f)" and ne: "abs_normal (resolved_path e)"
    using resolved_entry_normal [OF wf ca] f(1) e(1) by blast+
  have m: "m \<in> set PROTECTED_METADATA_PATH_NAMES" and pr: "pr = resolved_path f @ [Normal m]" and prp: "prefix pr p"
    using f(3) metadata_child_iff [OF nf' p] by blast+
  obtain g where g: "governed_by ?es p g" "resolved_access g = Write" "prefix (resolved_path e) (resolved_path g)"
    using writable_root_access [OF lf wf ca k p e w] .
  have "prefix (resolved_path f) (resolved_path g)"
    using g(1) f(1) prp pr by (auto simp: governed_by_def append_prefixD)
  moreover have "\<not> prefix pr (resolved_path g)"
    using no g(1,2) by (auto simp: has_explicit_write_entry_for_metadata_path_def starts_with_prefix governed_by_def)
  then have "strict_prefix (resolved_path g) pr"
    using g(1) prp by (auto simp: governed_by_def strict_prefix_def dest: prefix_same_cases)
  ultimately have fg: "resolved_path f = resolved_path g"
    unfolding pr by (metis prefix_order.antisym prefix_snoc strict_prefix_def)
  show False
  proof (cases "resolved_path e = resolved_path f")
    case True
    have npr: "abs_normal pr"
      using abs_join_metadata [OF nf' m, of dk] abs_join_normal [OF nf', of dk "path_components m"] pr by simp
    have "\<not> has_explicit_write_entry_for_metadata_path dk policy pr pr cwd"
      using no prp by (auto simp: has_explicit_write_entry_for_metadata_path_def starts_with_prefix)
    then have "is_metadata_write_denied dk policy pr cwd"
      using metadata_root_of_directory [OF wf ca p root] npr k by (simp add: is_metadata_write_denied_def)
    then have "\<not> can_write_path_with_cwd dk policy (resolved_path e @ [Normal m]) cwd"
      using nf pr True by (simp add: can_write_path_with_cwd_def)
    then have listed: "m \<in> set (wr_protected_metadata_names ?W)" by (rule protected_name_listed [OF lf wf ca ne m])
    obtain rest where "p = resolved_path e @ Normal m # rest" using prp pr True by (auto simp: prefix_def)
    then have "path_contains_protected_metadata_name ?W p" using listed
      by (simp add: path_contains_protected_metadata_name_def component_os_str_def)
    then show False using w by (simp add: is_path_writable_def split: if_splits)
  next
    case False
    then have "strict_prefix (resolved_path e) (resolved_path f)" using g(3) fg by (simp add: strict_prefix_def)
    then show False using nested [OF f(1,2)] m prp pr by blast
  qed
qed

section \<open>Legacy policies\<close>

lemma scan_entry_nonwrite: "entry_access e \<noteq> Write \<Longrightarrow> scan_entry dk c s e = s"
  by (simp add: scan_entry_def split: file_system_path.splits file_system_special_path.splits file_system_access_mode.splits option.splits)

lemma foldl_scan_reads:
  "list_all (\<lambda>e. entry_access e \<noteq> Write) es \<Longrightarrow> foldl (scan_entry dk c) s es = s"
  by (induction es) (simp_all add: scan_entry_nonwrite)

text \<open>Default read-only entries are appended behind the entries that are there.\<close>

definition appends_reads :: "file_system_sandbox_entry list \<Rightarrow> file_system_sandbox_entry list \<Rightarrow> bool" where
  "appends_reads es es' \<longleftrightarrow> (\<exists>ds. es' = es @ ds \<and> list_all (\<lambda>e. entry_access e = Read) ds)"

lemma appends_reads_refl [simp]: "appends_reads es es"
  by (simp add: appends_reads_def)

lemma appends_reads_trans: "appends_reads a b \<Longrightarrow> appends_reads b c \<Longrightarrow> appends_reads a c"
  by (auto simp: appends_reads_def)

lemma append_default_appends_reads: "appends_reads es (append_default_read_only_entry_if_no_explicit_rule es p)"
  by (simp add: appends_reads_def append_default_read_only_entry_if_no_explicit_rule_def skip_missing_path_def)

lemma foldl_appends_reads: "(\<And>es x. appends_reads es (f es x)) \<Longrightarrow> appends_reads es (foldl f es xs)"
  by (induction xs arbitrary: es) (auto intro: appends_reads_trans)

lemma protect_root_appends_reads: "appends_reads es (protect_root dk b es r)"
  unfolding protect_root_def append_default_read_only_path_if_no_explicit_rule_def
  by (rule foldl_appends_reads) (rule append_default_appends_reads)

lemma protect_cwd_and_roots_appends_reads: "appends_reads es (protect_cwd_and_roots dk cwd roots es)"
proof -
  have "appends_reads es (case from_path dk cwd of Some c \<Rightarrow> protect_root dk True es c | None \<Rightarrow> es)"
    by (simp add: protect_root_appends_reads split: option.splits)
  then show ?thesis unfolding protect_cwd_and_roots_def Let_def
    by (rule appends_reads_trans) (rule foldl_appends_reads, rule protect_root_appends_reads)
qed

lemma workspace_write_appends_reads:
  "appends_reads (workspace_allow_entries roots ext exs) (policy_entries (workspace_write dk roots ext exs))"
proof -
  let ?app = "append_default_read_only_project_root_subpath_if_no_explicit_rule"
  have app: "appends_reads es (?app es s)" for es s
    by (simp add: append_default_read_only_project_root_subpath_if_no_explicit_rule_def append_default_appends_reads)
  show ?thesis
    unfolding workspace_write_def Let_def restricted_def file_system_sandbox_policy.select_convs
    by (rule appends_reads_trans [OF app appends_reads_trans [OF app appends_reads_trans [OF app]]])
      (rule foldl_appends_reads, rule protect_root_appends_reads)
qed

lemma scan_appends_reads:
  "appends_reads es es' \<Longrightarrow> foldl (scan_entry dk c) s es' = foldl (scan_entry dk c) s es"
  by (auto simp: appends_reads_def list_all_iff intro!: foldl_scan_reads)

lemma scan_roots:
  "c \<notin> Some ` set roots \<Longrightarrow>
   foldl (scan_entry dk c) s (map (\<lambda>p. new_entry (PathEntry p) Write) roots) =
   s\<lparr>scan_writable_roots := scan_writable_roots s @ roots\<rparr>"
  by (induction roots arbitrary: s) (simp_all add: scan_entry_def new_entry_def)

lemma scan_workspace_allow:
  assumes "c \<notin> Some ` set roots"
  shows "foldl (scan_entry dk c) scan_start (workspace_allow_entries roots ext exs) =
    \<lparr>scan_workspace_root_writable = True, scan_writable_roots = roots, scan_tmpdir_writable = \<not> ext,
     scan_slash_tmp_writable = \<not> exs, scan_unbridgeable_root_write = False\<rparr>"
  by (cases ext; cases exs)
    (simp_all add: workspace_allow_entries_def scan_roots [OF assms, unfolded new_entry_def] scan_start_def scan_entry_def new_entry_def)

lemma dedup_from_distinct: "distinct ps \<Longrightarrow> set ps \<inter> set seen = {} \<Longrightarrow> dedup_from seen ps = ps"
  by (induction seen ps rule: dedup_from.induct) auto

lemma from_legacy_appends_reads:
  "appends_reads (workspace_allow_entries roots ext exs)
     (policy_entries (from_legacy_sandbox_policy_for_cwd dk (WorkspaceWrite roots n ext exs) cwd))"
  unfolding from_legacy_sandbox_policy_for_cwd_def Let_def
  by (simp add: appends_reads_trans [OF workspace_write_appends_reads protect_cwd_and_roots_appends_reads])

lemma no_root_write_not_full:
  assumes "policy_kind policy = Restricted"
    "appends_reads (workspace_allow_entries roots ext exs) (policy_entries policy)"
  shows "\<not> has_full_disk_write_access policy"
  using assms
  by (auto simp: has_full_disk_write_access_def has_root_access_def appends_reads_def workspace_allow_entries_def
      new_entry_def list_all_iff split: if_splits)

section \<open>The matcher\<close>

lemma build_matchers_fail_closed:
  "build_matchers build_glob FailClosed ps ms bad =
   Inr (ms @ List.map_filter (\<lambda>p. case build_glob p of Inr f \<Rightarrow> Some f | Inl _ \<Rightarrow> None) ps,
        bad \<or> (\<exists>p \<in> set ps. \<exists>err. build_glob p = Inl err))"
  by (induction ps arbitrary: ms bad) (auto simp: map_filter_simps split: sum.splits)

lemma candidates_link_free:
  assumes "link_free dk" "abs_normal p"
  shows "normalized_and_canonical_candidates dk p = [p]"
  using assms(1) [unfolded link_free_def, rule_format, of p] assms(2)
  by (auto simp: normalized_and_canonical_candidates_def push_unique_def)

lemma unreadable_roots_set:
  assumes "link_free dk" "policy_wf policy" "cwd_absolute dk" "policy_kind policy = Restricted" "from_path dk cwd = Some c"
  shows "r \<in> set (get_unreadable_roots_with_cwd dk policy cwd) \<longleftrightarrow> r \<noteq> [RootDir] \<and> denies_exactly dk policy r cwd"
proof -
  let ?es = "filter (\<lambda>e. resolved_access e = Deny \<and> \<not> can_read_path_with_cwd dk policy (resolved_path e) cwd \<and>
      Option.bind (from_path dk cwd) (absolute_root_path_for_cwd dk) \<noteq> Some (resolved_path e)) (resolved_entries_with_cwd dk policy cwd)"
  have "abs_normal c" using assms(5,3) by (rule from_path_normal)
  then have root: "Option.bind (from_path dk cwd) (absolute_root_path_for_cwd dk) = Some [RootDir]"
    using resolve_entry_path_Root [of c dk] assms(5) by (simp add: resolve_entry_path_def)
  have n: "abs_normal (resolved_path e)" if "e \<in> set (resolved_entries_with_cwd dk policy cwd)" for e
    using assms(2,3) that by (rule resolved_entry_normal)
  then have "list_all abs_normal (map resolved_path ?es)" by (auto simp: list_all_iff)
  then have "r \<in> set (get_unreadable_roots_with_cwd dk policy cwd) \<longleftrightarrow> r \<in> set (map resolved_path ?es)"
    using dedup_link_free [OF assms(1)] assms(4) by (simp add: get_unreadable_roots_with_cwd_def Let_def)
  also have "\<dots> \<longleftrightarrow> r \<noteq> [RootDir] \<and> denies_exactly dk policy r cwd"
    using n denied_root_unreadable [OF assms(4)] by (auto simp: root denies_exactly_def list_ex_iff)
  finally show ?thesis .
qed

section \<open>Carve-outs on any disk\<close>

text \<open>An entry that a root carves out masks everything below the place where the root shows it.\<close>

lemma carveout_masked:
  assumes "e \<in> set (resolved_entries_with_cwd dk policy cwd)" "resolved_access e \<noteq> Write"
    "\<not> can_write_path_with_cwd dk policy (resolved_path e) cwd"
    and "carveout_path dk r (filter (\<lambda>p. normalize_effective_absolute_path dk p = r) ws) (resolved_path e) = Some c"
  shows "\<not> is_path_writable (writable_root_for dk policy cwd ws r) (c @ q)"
proof -
  have "\<not> can_write (resolved_access e)" using assms(2) by (cases "resolved_access e") auto
  with assms have "c \<in> set (wr_read_only_subpaths (writable_root_for dk policy cwd ws r))"
    by (auto simp: writable_root_for_def Let_def dedup_absolute_paths_def set_dedup_from set_map_filter_iff intro!: bexI [of _ e])
  then show ?thesis by (auto simp: is_path_writable_def starts_with_iff)
qed

text \<open>A root is where a writable entry leads; the names it protects are those that none of these entries lets write.\<close>

definition leading_to :: "disk \<Rightarrow> file_system_sandbox_policy \<Rightarrow> path \<Rightarrow> path \<Rightarrow> path list" where
  "leading_to dk policy cwd r = filter (\<lambda>p. normalize_effective_absolute_path dk p = r) (writable_entry_paths dk policy cwd)"

lemma protected_name_masked:
  assumes "m \<in> set PROTECTED_METADATA_PATH_NAMES"
    and "\<forall>p\<in>insert r (set (leading_to dk policy cwd r)). \<not> can_write_path_with_cwd dk policy (abs_join dk p (path_components m)) cwd"
  shows "\<not> is_path_writable (writable_root_for dk policy cwd (writable_entry_paths dk policy cwd) r) (r @ Normal m # q)"
proof -
  let ?w = "writable_root_for dk policy cwd (writable_entry_paths dk policy cwd) r"
  have "m \<in> set (wr_protected_metadata_names ?w)"
    using assms by (auto simp: writable_root_for_def Let_def protected_metadata_names_for_writable_root_def leading_to_def)
  then have "path_contains_protected_metadata_name ?w (r @ Normal m # q)"
    by (simp add: path_contains_protected_metadata_name_def component_os_str_def)
  then show ?thesis by (simp add: is_path_writable_def)
qed

lemma find_map_finds: "(\<exists>x\<in>set xs. f x \<noteq> None) \<Longrightarrow> \<exists>x\<in>set xs. \<exists>y. f x = Some y \<and> find_map f xs = Some y"
  by (induction xs) (auto split: option.splits)

lemma carveout_through_alias:
  assumes "path_parent r \<noteq> None" "\<not> prefix r p" "\<exists>a\<in>set raws. strict_prefix a p"
  shows "\<exists>a\<in>set raws. \<exists>below. below \<noteq> [] \<and> p = a @ below \<and> carveout_path dk r raws p = Some (abs_join dk r below)"
proof -
  let ?f = "\<lambda>a. case strip_prefix a p of None \<Rightarrow> None | Some below \<Rightarrow> if below = [] then None else Some (abs_join dk r below)"
  from assms(3) obtain a where a: "a \<in> set raws" "strict_prefix a p" by blast
  then obtain below where "p = a @ below" "below \<noteq> []" by (auto simp: strict_prefix_def prefix_def)
  then have "?f a \<noteq> None" by simp
  then obtain a' c where a': "a' \<in> set raws" "?f a' = Some c" "find_map ?f raws = Some c" using find_map_finds [of raws ?f] a(1) by blast
  then obtain below' where "strip_prefix a' p = Some below'" "below' \<noteq> []" "c = abs_join dk r below'"
    by (auto split: option.splits if_splits)
  moreover have "p \<noteq> r" using assms(2) by auto
  ultimately show ?thesis
    using a' assms(1,2) by (intro bexI [OF _ a'(1)] exI [of _ below'])
      (auto simp: carveout_path_def raw_carveout_path_def starts_with_prefix strip_prefix_Some_iff)
qed

lemma carveout_literal: "path_parent r \<noteq> None \<Longrightarrow> strict_prefix r p \<Longrightarrow> carveout_path dk r raws p = Some p"
  by (auto simp: carveout_path_def raw_carveout_path_def starts_with_prefix strict_prefix_def)

lemma carveout_target:
  assumes "path_parent r = None \<or> \<not> prefix r p \<and> (\<forall>a\<in>set raws. \<not> strict_prefix a p)"
    and "strict_prefix r (normalize_effective_absolute_path dk p)"
  shows "carveout_path dk r raws p = Some (normalize_effective_absolute_path dk p)"
proof -
  have "find_map f raws = None" if "\<forall>a\<in>set raws. f a = None" for f :: "path \<Rightarrow> path option"
    using that by (induction raws) auto
  moreover have "(case strip_prefix a p of None \<Rightarrow> None | Some below \<Rightarrow> if below = [] then None else Some (abs_join dk r below)) = None"
    if "\<not> strict_prefix a p" for a
    using that by (auto simp: strip_prefix_Some_iff strict_prefix_def split: option.split)
  ultimately have "raw_carveout_path dk r raws p = None"
    using assms(1) by (auto simp: raw_carveout_path_def starts_with_prefix)
  then show ?thesis using assms(2) by (auto simp: carveout_path_def Let_def starts_with_prefix strict_prefix_def)
qed

section \<open>Properties\<close>

lemma example_disk_link_free [simp]: "link_free example_disk"
  by (simp add: link_free_def example_disk_def)


text \<open>
  A writable root behind a link: \<open>/w\<close> leads to \<open>/real\<close>, and \<open>/w/private\<close> is only for reading.
\<close>

definition linked_disk :: disk where
  "linked_disk = example_disk\<lparr>symlink_metadata := (\<lambda>p. if p = apath [''w''] then Some True else None),
     canonicalize_path := (\<lambda>p. if p = apath [''w''] then Some (apath [''real'']) else None)\<rparr>"

definition linked_policy :: file_system_sandbox_policy where
  "linked_policy = restricted [new_entry (PathEntry (apath [''w''])) Write, new_entry (PathEntry (apath [''w'', ''private''])) Read]"

text \<open>
  The writable roots a sandbox runtime receives grant no more than the policy, on a disk without
  symbolic links: a path that some root of \<open>get_writable_roots_with_cwd\<close> accepts, by its carve-outs
  and protected names, can be written under the policy itself, unless the path lies in the metadata of
  a writable entry nested below that root.
\<close>

theorem writable_roots_sound:
  assumes "link_free dk" "policy_wf policy" "cwd_absolute dk" "policy_kind policy = Restricted" "abs_normal p"
    "w \<in> set (get_writable_roots_with_cwd dk policy cwd)" "is_path_writable w p"
    "\<not> (\<exists>f \<in> set (resolved_entries_with_cwd dk policy cwd). \<exists>m \<in> set PROTECTED_METADATA_PATH_NAMES.
         resolved_access f = Write \<and> strict_prefix (wr_root w) (resolved_path f) \<and> prefix (resolved_path f @ [Normal m]) p)"
  shows "can_write_path_with_cwd dk policy p cwd"
proof -
  obtain e where e: "e \<in> set (resolved_entries_with_cwd dk policy cwd)" "can_write_path_with_cwd dk policy (resolved_path e) cwd"
    and nf: "\<not> has_full_disk_write_access policy"
    and w: "w = writable_root_for dk policy cwd (writable_entry_paths dk policy cwd) (resolved_path e)"
    using writable_root_origin [OF assms(1-3,6)] by metis
  obtain g where "governed_by (resolved_entries_with_cwd dk policy cwd) p g" "resolved_access g = Write"
    using writable_root_access [OF assms(1-5) e assms(7) [unfolded w]] by metis
  then have "resolve_access_with_cwd dk policy p cwd = Write"
    using resolve_access_governed [OF assms(4) resolve_candidate_abs [OF assms(5)]] by simp
  moreover have "\<not> is_metadata_write_denied dk policy p cwd"
    using assms(8) by (intro writable_root_no_metadata [OF assms(1-5) nf e assms(7) [unfolded w]]) (auto simp: w)
  ultimately show ?thesis by (simp add: can_write_path_with_cwd_def)
qed

definition nested_policy :: file_system_sandbox_policy where
  "nested_policy = restricted [new_entry (PathEntry (apath [''w''])) Write, new_entry (PathEntry (apath [''w'', ''sub''])) Write]"

lemma nested_resolved:
  "resolved_entries_with_cwd dk nested_policy cwd =
   [\<lparr>resolved_path = apath [''w''], resolved_access = Write\<rparr>, \<lparr>resolved_path = apath [''w'', ''sub''], resolved_access = Write\<rparr>]"
  by (simp add: nested_policy_def resolved_entries_with_cwd_def restricted_def new_entry_def map_filter_simps)

lemma nested_facts:
  "policy_kind nested_policy = Restricted" "policy_wf nested_policy" "\<not> has_full_disk_write_access nested_policy"
  by (simp_all add: nested_policy_def restricted_def policy_wf_def new_entry_def has_full_disk_write_access_def has_root_access_def)

lemma nested_root_listed:
  "writable_root_for example_disk nested_policy (apath [''v'']) (writable_entry_paths example_disk nested_policy (apath [''v''])) (apath [''w''])
   \<in> set (get_writable_roots_with_cwd example_disk nested_policy (apath [''v'']))"
proof -
  have "can_write_path_with_cwd example_disk nested_policy (apath [''w'']) (apath [''v''])"
    by (rule write_entry_explicit [OF nested_facts(1,2) example_disk_cwd abs_normal_apath,
          of "\<lparr>resolved_path = apath [''w''], resolved_access = Write\<rparr>"])
      (simp_all add: nested_resolved denies_exactly_def)
  then have "apath [''w''] \<in> set (writable_entry_paths example_disk nested_policy (apath [''v'']))"
    by (simp add: writable_entry_paths_def nested_resolved)
  then show ?thesis
    using dedup_link_free [OF example_disk_link_free writable_entry_paths_normal [OF nested_facts(2) example_disk_cwd]]
    by (simp add: get_writable_roots_with_cwd_def nested_facts Let_def)
qed

lemma example_default_subpaths:
  "default_read_only_subpaths_for_writable_root example_disk (apath [''w'']) False = []"
proof -
  have "abs_join example_disk (apath [''w'']) (path_components m) = apath [''w''] @ [Normal m]"
    if "m \<in> set PROTECTED_METADATA_PATH_NAMES" for m using that by (simp add: abs_join_metadata)
  then show ?thesis
    unfolding default_read_only_subpaths_for_writable_root_def
    by (simp add: PROTECTED_METADATA_PATH_NAMES_def Let_def dedup_absolute_paths_def del: lit_Cons)
      (simp add: example_disk_def apath_def)
qed

lemma nested_outer_accepts:
  "is_path_writable (writable_root_for example_disk nested_policy (apath [''v'']) ws (apath [''w''])) (apath (''w'' # ''sub'' # ns))"
proof -
  let ?W = "writable_root_for example_disk nested_policy (apath [''v'']) ws (apath [''w''])"
  have "normalize_effective_absolute_path example_disk (apath [''v'']) \<noteq> apath [''w'']"
    by (simp add: normalize_effective_id) (simp add: apath_def)
  then have "wr_read_only_subpaths ?W = []"
    by (simp add: writable_root_for_def Let_def nested_resolved example_default_subpaths map_filter_simps dedup_absolute_paths_def)
  moreover have "lit ''sub'' \<notin> set (wr_protected_metadata_names ?W)"
    by (simp add: writable_root_for_def Let_def protected_metadata_names_for_writable_root_def PROTECTED_METADATA_PATH_NAMES_def)
  then have "\<not> path_contains_protected_metadata_name ?W (apath (''w'' # ''sub'' # ns))"
    by (simp add: path_contains_protected_metadata_name_def apath_def component_os_str_def)
  ultimately show ?thesis by (simp add: is_path_writable_def) (simp add: apath_def starts_with_prefix)
qed

theorem writable_roots_sound_witness:
  "can_write_path_with_cwd example_disk nested_policy (apath [''w'', ''sub'', ''a.txt'']) (apath [''v''])"
  by (rule writable_roots_sound [OF example_disk_link_free nested_facts(2) example_disk_cwd nested_facts(1) abs_normal_apath
        nested_root_listed nested_outer_accepts])
    (simp add: nested_resolved PROTECTED_METADATA_PATH_NAMES_def, simp add: apath_def)

text \<open>
  The exception is real: with a writable root inside another one, the outer root of the summary
  accepts the inner root's \<open>.git\<close>, which the policy itself does not let anyone write.
\<close>

theorem nested_root_metadata_open_in_outer_root:
  "\<exists>w \<in> set (get_writable_roots_with_cwd example_disk nested_policy (apath [''v''])).
     is_path_writable w (apath [''w'', ''sub'', ''.git'', ''config'']) \<and>
     \<not> can_write_path_with_cwd example_disk nested_policy (apath [''w'', ''sub'', ''.git'', ''config'']) (apath [''v''])"
proof -
  have "\<not> opens_metadata (resolved_entries_with_cwd example_disk nested_policy (apath [''v''])) (apath [''w'', ''sub'', ''.git'', ''config''])"
    by (simp add: opens_metadata_def nested_resolved PROTECTED_METADATA_PATH_NAMES_def) (simp add: apath_def)
  moreover have "prefix (apath [''w'', ''sub''] @ [Normal (lit ''.git'')]) (apath [''w'', ''sub'', ''.git'', ''config''])"
    by (simp add: apath_def)
  moreover have "lit ''.git'' \<in> set PROTECTED_METADATA_PATH_NAMES" by (simp add: PROTECTED_METADATA_PATH_NAMES_def)
  ultimately have "is_metadata_write_denied example_disk nested_policy (apath [''w'', ''sub'', ''.git'', ''config'']) (apath [''v''])"
    using metadata_write_denied [OF nested_facts(1,2) example_disk_cwd
        resolve_candidate_abs [OF abs_normal_apath [of "[''w'', ''sub'', ''.git'', ''config'']"], of example_disk "apath [''v'']"],
        where r = "\<lparr>resolved_path = apath [''w'', ''sub''], resolved_access = Write\<rparr>" and m = "lit ''.git''"]
    by (simp add: nested_resolved del: lit_Cons)
  then show ?thesis
    using nested_root_listed nested_outer_accepts nested_facts(3) by (auto simp: can_write_path_with_cwd_def)
qed

text \<open>
  The legacy policies survive the translation into a file-system policy and back, network setting
  included, given that the extra roots of a workspace policy are distinct and not the current directory.
\<close>

theorem legacy_policy_roundtrip:
  assumes "case sp of WorkspaceWrite roots _ _ _ \<Rightarrow> distinct roots \<and> from_path dk cwd \<notin> Some ` set roots | _ \<Rightarrow> True"
  shows "to_legacy_sandbox_policy dk (from_legacy_sandbox_policy_for_cwd dk sp cwd) (network_policy_of_legacy sp) cwd = Ok sp"
proof (cases sp)
  case (WorkspaceWrite roots n ext exs)
  let ?pol = "from_legacy_sandbox_policy_for_cwd dk sp cwd"
  have k: "policy_kind ?pol = Restricted"
    by (simp add: from_legacy_sandbox_policy_for_cwd_def WorkspaceWrite workspace_write_kind Let_def)
  note reads = from_legacy_appends_reads [of roots ext exs dk n cwd, folded WorkspaceWrite]
  have "dedup_absolute_paths dk roots False = roots"
    using assms WorkspaceWrite by (simp add: dedup_absolute_paths_def dedup_from_distinct)
  moreover have "foldl (scan_entry dk (from_path dk cwd)) scan_start (policy_entries ?pol) =
      \<lparr>scan_workspace_root_writable = True, scan_writable_roots = roots, scan_tmpdir_writable = \<not> ext,
       scan_slash_tmp_writable = \<not> exs, scan_unbridgeable_root_write = False\<rparr>"
    using assms unfolding scan_appends_reads [OF reads] by (intro scan_workspace_allow) (simp add: WorkspaceWrite)
  moreover have "network_is_enabled (network_policy_of_legacy sp) = n"
    by (simp add: network_policy_of_legacy_def network_is_enabled_def WorkspaceWrite)
  ultimately have "to_legacy_sandbox_policy dk ?pol (network_policy_of_legacy sp) cwd = Ok (WorkspaceWrite roots n ext exs)"
    using no_root_write_not_full [OF k reads] by (simp add: to_legacy_sandbox_policy_def k)
  then show ?thesis unfolding WorkspaceWrite .
next
  case (ReadOnly n)
  then show ?thesis
    by (simp add: from_legacy_sandbox_policy_for_cwd_def to_legacy_sandbox_policy_def restricted_def new_entry_def
        has_full_disk_write_access_def has_root_access_def scan_entry_def scan_start_def
        network_policy_of_legacy_def network_is_enabled_def)
next
  case (ExternalSandboxPolicy n)
  then show ?thesis
    by (cases n) (simp_all add: from_legacy_sandbox_policy_for_cwd_def to_legacy_sandbox_policy_def external_sandbox_def
        network_policy_of_legacy_def network_is_enabled_def)
qed (simp_all add: from_legacy_sandbox_policy_for_cwd_def to_legacy_sandbox_policy_def unrestricted_def no_sandbox_policy_def
    network_policy_of_legacy_def network_is_enabled_def)

theorem legacy_policy_roundtrip_witness:
  "to_legacy_sandbox_policy example_disk
     (from_legacy_sandbox_policy_for_cwd example_disk (WorkspaceWrite [apath [''v'']] True False True) (apath [''w'']))
     NetworkEnabled (apath [''w'']) = Ok (WorkspaceWrite [apath [''v'']] True False True)"
proof -
  have "apath [''w''] \<noteq> apath [''v'']" by (simp add: apath_def)
  then show ?thesis
    using legacy_policy_roundtrip [where sp = "WorkspaceWrite [apath [''v'']] True False True" and dk = example_disk and cwd = "apath [''w'']"]
    by (simp add: network_policy_of_legacy_def)
qed

text \<open>
  The matcher for direct reads can always be built when something is denied, and on a disk without
  symbolic links it denies exactly: everything if some pattern is malformed, everything at or below an
  explicitly denied path other than the file-system root, and what a pattern matches. In particular no
  path the policy denies by such an entry slips through.
\<close>

theorem read_deny_matcher_exact:
  assumes "link_free dk" "policy_wf policy" "cwd_absolute dk" "policy_kind policy = Restricted" "from_path dk cwd = Some c"
    "has_denied_read_restrictions policy"
  shows "\<exists>m. read_deny_matcher_new build_glob dk policy cwd = Some (Some m) \<and>
    (\<forall>p. abs_normal p \<longrightarrow>
       (is_read_denied dk m p \<longleftrightarrow>
          (\<exists>g \<in> set (get_unreadable_globs_with_cwd dk policy cwd). \<exists>err. build_glob g = Inl err) \<or>
          (\<exists>r. r \<noteq> [RootDir] \<and> denies_exactly dk policy r cwd \<and> prefix r p) \<or>
          (\<exists>g \<in> set (get_unreadable_globs_with_cwd dk policy cwd). \<exists>f. build_glob g = Inr f \<and> f p)))"
proof -
  let ?gs = "get_unreadable_globs_with_cwd dk policy cwd"
  let ?fs = "List.map_filter (\<lambda>p. case build_glob p of Inr f \<Rightarrow> Some f | Inl _ \<Rightarrow> None) ?gs"
  let ?m = "\<lparr>denied_candidates = map (normalized_and_canonical_candidates dk) (get_unreadable_roots_with_cwd dk policy cwd),
      deny_read_matchers = ?fs, invalid_pattern = (\<exists>p \<in> set ?gs. \<exists>err. build_glob p = Inl err)\<rparr>"
  have new: "read_deny_matcher_new build_glob dk policy cwd = Some (Some ?m)"
    using assms(6) by (simp add: read_deny_matcher_new_def build_read_deny_matcher_def build_matchers_fail_closed)
  have normal: "abs_normal r" if "denies_exactly dk policy r cwd" for r
    using that resolved_entry_normal [OF assms(2,3)] by (auto simp: denies_exactly_def list_ex_iff)
  have roots: "(\<exists>d \<in> set (denied_candidates ?m). \<exists>x \<in> set d. p = x \<or> starts_with x p) \<longleftrightarrow>
      (\<exists>r. r \<noteq> [RootDir] \<and> denies_exactly dk policy r cwd \<and> prefix r p)" for p
    using unreadable_roots_set [OF assms(1-5)] normal candidates_link_free [OF assms(1)]
    by (auto simp: starts_with_prefix)
  have globs: "(\<exists>f \<in> set ?fs. f p) \<longleftrightarrow> (\<exists>g \<in> set ?gs. \<exists>f. build_glob g = Inr f \<and> f p)" for p
  proof -
    have "(case build_glob g of Inr f \<Rightarrow> Some f | Inl _ \<Rightarrow> None) = Some f \<longleftrightarrow> build_glob g = Inr f" for g f
      by (cases "build_glob g") simp_all
    then show ?thesis unfolding Bex_def set_map_filter_iff by metis
  qed
  have "is_read_denied dk ?m p \<longleftrightarrow>
      (\<exists>g \<in> set ?gs. \<exists>err. build_glob g = Inl err) \<or>
      (\<exists>r. r \<noteq> [RootDir] \<and> denies_exactly dk policy r cwd \<and> prefix r p) \<or>
      (\<exists>g \<in> set ?gs. \<exists>f. build_glob g = Inr f \<and> f p)" if "abs_normal p" for p
    using roots [of p] globs [of p] candidates_link_free [OF assms(1) that]
    by (simp add: is_read_denied_def del: set_map) blast
  then show ?thesis using new by blast
qed

theorem read_deny_matcher_exact_witness:
  "\<exists>m. read_deny_matcher_new (\<lambda>pattern. Inl pattern) example_disk example_policy (apath [''w'']) = Some (Some m) \<and>
     is_read_denied example_disk m (apath [''w'', ''x'', ''y'']) \<and> \<not> is_read_denied example_disk m (apath [''w'', ''z''])"
proof -
  have denied: "denies_exactly example_disk example_policy r (apath [''w'']) \<longleftrightarrow> r = apath [''w'', ''x'']" for r
    by (auto simp: denies_exactly_def example_resolved)
  have globs: "get_unreadable_globs_with_cwd example_disk example_policy (apath [''w'']) = []"
    by (simp add: get_unreadable_globs_with_cwd_def example_policy_def restricted_def deny_entries_def new_entry_def
        unreadable_glob_def map_filter_simps)
  have "has_denied_read_restrictions example_policy"
    by (simp add: has_denied_read_restrictions_def example_policy_def restricted_def new_entry_def)
  then obtain m where m: "read_deny_matcher_new (\<lambda>pattern. Inl pattern) example_disk example_policy (apath [''w'']) = Some (Some m)"
    and iff: "\<forall>p. abs_normal p \<longrightarrow> (is_read_denied example_disk m p \<longleftrightarrow> apath [''w'', ''x''] \<noteq> [RootDir] \<and> prefix (apath [''w'', ''x'']) p)"
    using read_deny_matcher_exact [OF example_disk_link_free example_policy_wf example_disk_cwd example_policy_kind
        from_path_abs_normal [OF abs_normal_apath [of "[''w'']"]], of "\<lambda>pattern. Inl pattern"]
    by (auto simp: denied globs)
  have "is_read_denied example_disk m (apath [''w'', ''x'', ''y''])" "\<not> is_read_denied example_disk m (apath [''w'', ''z''])"
    using iff [rule_format, OF abs_normal_apath [of "[''w'', ''x'', ''y'']"]] iff [rule_format, OF abs_normal_apath [of "[''w'', ''z'']"]]
    by (simp_all add: apath_def)
  then show ?thesis using m by blast
qed

end
