(* ===== verification/Response_Items.thy ===== *)
theory Response_Items
  imports Truncation
begin

text \<open>
  The items of a conversation (\<open>protocol/src/models.rs\<close>), what
  \<open>core/src/context_manager/normalize.rs\<close> does to them before a prompt is sent, and the token estimates of
  \<open>core/src/context_manager/history.rs\<close>.

  Data the code only carries (JSON values, message metadata, call actions) is the type \<open>'j\<close>. What
  other crates or modules decide is the record \<open>history_env\<close>: the version-5 UUID of a name, the length of an
  item's JSON text, decoded image sizes and audio durations, whether a text parses as an inter-agent message
  or is a contextual user fragment, and the multiplication of a truncation policy by a
  floating-point factor. \<open>error_or_panic\<close> panics in a debug build and logs otherwise: the flag
  \<open>debug_assertions\<close> of that record says which; \<open>None\<close> is a panic.
\<close>

section \<open>Response items (\<open>protocol/src/models.rs\<close>)\<close>

datatype message_content =
    MessageInputText ustr
  | MessageInputImage ustr "image_detail option"
  | MessageInputAudio ustr
  | MessageOutputText ustr

datatype output_body = BodyText ustr | BodyContentItems "content_item list"

record output_payload =
  payload_body :: output_body
  payload_success :: "bool option"

definition payload_from_text :: "ustr \<Rightarrow> output_payload" where
  "payload_from_text content = \<lparr>payload_body = BodyText content, payload_success = None\<rparr>"

datatype 'j response_item =
    AdditionalTools "ustr option" ustr "'j list"
  | Message "ustr option" ustr "message_content list" "'j option" "'j option"
  | AgentMessage "ustr option" ustr ustr "'j list" "'j option"
  | Reasoning "ustr option" "'j list" "'j list option" "ustr option" "'j option"
  | LocalShellCall "ustr option" "ustr option" 'j 'j "'j option"
  | FunctionCall "ustr option" ustr "ustr option" ustr ustr "'j option"
  | ToolSearchCall "ustr option" "ustr option" "ustr option" ustr 'j "'j option"
  | FunctionCallOutput "ustr option" ustr output_payload "'j option"
  | CustomToolCall "ustr option" "ustr option" ustr ustr "ustr option" ustr "'j option"
  | CustomToolCallOutput "ustr option" ustr "ustr option" output_payload "'j option"
  | ToolSearchOutput "ustr option" "ustr option" ustr ustr "'j list" "'j option"
  | WebSearchCall "ustr option" "ustr option" "'j option" "'j option"
  | ImageGenerationCall "ustr option" ustr "ustr option" ustr "'j option"
  | Compaction "ustr option" ustr "'j option"
  | CompactionTrigger
  | ContextCompaction "ustr option" "ustr option" "'j option"
  | OtherItem

datatype input_modality = TextModality | ImageModality | AudioModality

record 'j history_env =
  debug_assertions :: bool
  uuid_v5 :: "ustr \<Rightarrow> ustr"
  json_len :: "'j response_item \<Rightarrow> nat option"
  decoded_image_size :: "ustr \<Rightarrow> (nat \<times> nat) option"
  audio_token_count :: "ustr \<Rightarrow> nat"
  is_inter_agent_message :: "ustr \<Rightarrow> bool"
  is_contextual_user_fragment :: "message_content \<Rightarrow> bool"
  times_1_2 :: "truncation_policy \<Rightarrow> truncation_policy"

section \<open>normalize.rs\<close>

fun function_output_id :: "'j response_item \<Rightarrow> ustr option" where
  "function_output_id (FunctionCallOutput _ c _ _) = Some c"
| "function_output_id _ = None"

fun tool_search_output_id :: "'j response_item \<Rightarrow> ustr option" where
  "tool_search_output_id (ToolSearchOutput _ c _ _ _ _) = c"
| "tool_search_output_id _ = None"

fun custom_tool_output_id :: "'j response_item \<Rightarrow> ustr option" where
  "custom_tool_output_id (CustomToolCallOutput _ c _ _ _) = Some c"
| "custom_tool_output_id _ = None"

fun function_call_id :: "'j response_item \<Rightarrow> ustr option" where
  "function_call_id (FunctionCall _ _ _ _ c _) = Some c"
| "function_call_id _ = None"

fun tool_search_call_id :: "'j response_item \<Rightarrow> ustr option" where
  "tool_search_call_id (ToolSearchCall _ c _ _ _ _) = c"
| "tool_search_call_id _ = None"

fun local_shell_call_id :: "'j response_item \<Rightarrow> ustr option" where
  "local_shell_call_id (LocalShellCall _ c _ _ _) = c"
| "local_shell_call_id _ = None"

fun custom_tool_call_id :: "'j response_item \<Rightarrow> ustr option" where
  "custom_tool_call_id (CustomToolCall _ _ c _ _ _ _) = Some c"
| "custom_tool_call_id _ = None"

definition with_suffix :: "ustr \<Rightarrow> ustr \<Rightarrow> ustr" where
  "with_suffix pre sfx = pre @ lit ''_'' @ sfx"

definition synthetic_output_id :: "'j history_env \<Rightarrow> ustr \<Rightarrow> ustr option \<Rightarrow> ustr option" where
  "synthetic_output_id env pre item_id =
     (case item_id of
        None \<Rightarrow> None
      | Some source_id \<Rightarrow>
          if source_id = [] then None
          else Some (with_suffix pre (uuid_v5 env (pre @ lit '':'' @ source_id))))"

text \<open>The output to insert behind a call that has none; the flag says that the code calls \<open>error_or_panic\<close>.\<close>

definition missing_output :: "'j history_env \<Rightarrow> 'j response_item list \<Rightarrow> 'j response_item \<Rightarrow> ('j response_item \<times> bool) option" where
  "missing_output env items item =
     (let function_output_ids = List.map_filter function_output_id items;
          tool_search_output_ids = List.map_filter tool_search_output_id items;
          custom_tool_output_ids = List.map_filter custom_tool_output_id items
      in case item of
           FunctionCall iid _ _ _ call_id _ \<Rightarrow>
             if call_id \<in> set function_output_ids then None
             else Some (FunctionCallOutput (synthetic_output_id env (lit ''fco'') iid) call_id
                          (payload_from_text (lit ''aborted'')) None, False)
         | ToolSearchCall iid (Some call_id) _ _ _ _ \<Rightarrow>
             if call_id \<in> set tool_search_output_ids then None
             else Some (ToolSearchOutput (synthetic_output_id env (lit ''tso'') iid) (Some call_id)
                          (lit ''completed'') (lit ''client'') [] None, False)
         | CustomToolCall iid _ call_id _ _ _ _ \<Rightarrow>
             if call_id \<in> set custom_tool_output_ids then None
             else Some (CustomToolCallOutput (synthetic_output_id env (lit ''ctco'') iid) call_id None
                          (payload_from_text (lit ''aborted'')) None, True)
         | LocalShellCall iid (Some call_id) _ _ _ \<Rightarrow>
             if call_id \<in> set function_output_ids then None
             else Some (FunctionCallOutput (synthetic_output_id env (lit ''fco'') iid) call_id
                          (payload_from_text (lit ''aborted'')) None, True)
         | _ \<Rightarrow> None)"

text \<open>\<open>Vec::insert\<close>.\<close>

definition insert_at :: "nat \<Rightarrow> 'a \<Rightarrow> 'a list \<Rightarrow> 'a list" where
  "insert_at i x xs = take i xs @ x # drop i xs"

definition missing_outputs_to_insert ::
  "'j history_env \<Rightarrow> 'j response_item list \<Rightarrow> (nat \<times> 'j response_item \<times> bool) list" where
  "missing_outputs_to_insert env items =
     List.map_filter (\<lambda>(idx, item). map_option (Pair idx) (missing_output env items item)) (enumerate 0 items)"

definition ensure_call_outputs_present :: "'j history_env \<Rightarrow> 'j response_item list \<Rightarrow> 'j response_item list option" where
  "ensure_call_outputs_present env items =
     (let missing = missing_outputs_to_insert env items
      in if debug_assertions env \<and> list_ex (\<lambda>(_, _, panics). panics) missing then None
         else Some (foldl (\<lambda>acc (idx, output_item, _). insert_at (idx + 1) output_item acc) items (rev missing)))"

text \<open>Whether \<open>retain\<close> keeps an item, and whether dropping it goes through \<open>error_or_panic\<close>.\<close>

definition output_has_call :: "'j response_item list \<Rightarrow> 'j response_item \<Rightarrow> bool" where
  "output_has_call items item =
     (let function_call_ids = List.map_filter function_call_id items;
          tool_search_call_ids = List.map_filter tool_search_call_id items;
          local_shell_call_ids = List.map_filter local_shell_call_id items;
          custom_tool_call_ids = List.map_filter custom_tool_call_id items
      in case item of
           FunctionCallOutput _ call_id _ _ \<Rightarrow>
             call_id \<in> set function_call_ids \<or> call_id \<in> set local_shell_call_ids
         | CustomToolCallOutput _ call_id _ _ _ \<Rightarrow> call_id \<in> set custom_tool_call_ids
         | ToolSearchOutput _ c _ execution _ _ \<Rightarrow>
             if execution = lit ''server'' then True
             else (case c of Some call_id \<Rightarrow> call_id \<in> set tool_search_call_ids | None \<Rightarrow> True)
         | _ \<Rightarrow> True)"

definition remove_orphan_outputs :: "'j history_env \<Rightarrow> 'j response_item list \<Rightarrow> 'j response_item list option" where
  "remove_orphan_outputs env items =
     (if debug_assertions env \<and> list_ex (\<lambda>i. \<not> output_has_call items i) items then None
      else Some (filter (output_has_call items) items))"

fun remove_first_matching :: "('a \<Rightarrow> bool) \<Rightarrow> 'a list \<Rightarrow> 'a list" where
  "remove_first_matching pred [] = []"
| "remove_first_matching pred (x # xs) = (if pred x then xs else x # remove_first_matching pred xs)"

definition remove_corresponding_for :: "'j response_item list \<Rightarrow> 'j response_item \<Rightarrow> 'j response_item list" where
  "remove_corresponding_for items item =
     (case item of
        FunctionCall _ _ _ _ c _ \<Rightarrow> remove_first_matching (\<lambda>i. function_output_id i = Some c) items
      | FunctionCallOutput _ c _ _ \<Rightarrow>
          if list_ex (\<lambda>i. function_call_id i = Some c) items
          then remove_first_matching (\<lambda>i. function_call_id i = Some c) items
          else remove_first_matching (\<lambda>i. local_shell_call_id i = Some c) items
      | ToolSearchCall _ (Some c) _ _ _ _ \<Rightarrow> remove_first_matching (\<lambda>i. tool_search_output_id i = Some c) items
      | ToolSearchOutput _ (Some c) _ _ _ _ \<Rightarrow> remove_first_matching (\<lambda>i. tool_search_call_id i = Some c) items
      | CustomToolCall _ _ c _ _ _ _ \<Rightarrow> remove_first_matching (\<lambda>i. custom_tool_output_id i = Some c) items
      | CustomToolCallOutput _ c _ _ _ \<Rightarrow> remove_first_matching (\<lambda>i. custom_tool_call_id i = Some c) items
      | LocalShellCall _ (Some c) _ _ _ \<Rightarrow> remove_first_matching (\<lambda>i. function_output_id i = Some c) items
      | _ \<Rightarrow> items)"

definition IMAGE_CONTENT_OMITTED_PLACEHOLDER :: ustr where
  "IMAGE_CONTENT_OMITTED_PLACEHOLDER = lit ''image content omitted because you do not support image input''"

definition AUDIO_CONTENT_OMITTED_PLACEHOLDER :: ustr where
  "AUDIO_CONTENT_OMITTED_PLACEHOLDER = lit ''audio content omitted because you do not support audio input''"

definition map_content_items :: "(content_item \<Rightarrow> content_item) \<Rightarrow> output_payload \<Rightarrow> output_payload" where
  "map_content_items f output =
     (case payload_body output of
        BodyText _ \<Rightarrow> output
      | BodyContentItems cs \<Rightarrow> output\<lparr>payload_body := BodyContentItems (map f cs)\<rparr>)"

definition strip_message_image :: "message_content \<Rightarrow> message_content" where
  "strip_message_image c =
     (case c of MessageInputImage _ _ \<Rightarrow> MessageInputText IMAGE_CONTENT_OMITTED_PLACEHOLDER | _ \<Rightarrow> c)"

definition strip_output_image :: "content_item \<Rightarrow> content_item" where
  "strip_output_image c = (case c of InputImage _ _ \<Rightarrow> InputText IMAGE_CONTENT_OMITTED_PLACEHOLDER | _ \<Rightarrow> c)"

fun strip_item_images :: "'j response_item \<Rightarrow> 'j response_item" where
  "strip_item_images (Message iid role content ph md) = Message iid role (map strip_message_image content) ph md"
| "strip_item_images (FunctionCallOutput iid c payload md) = FunctionCallOutput iid c (map_content_items strip_output_image payload) md"
| "strip_item_images (CustomToolCallOutput iid c n payload md) =
     CustomToolCallOutput iid c n (map_content_items strip_output_image payload) md"
| "strip_item_images (ImageGenerationCall iid st rp res md) = ImageGenerationCall iid st rp [] md"
| "strip_item_images item = item"

definition strip_images_when_unsupported :: "input_modality list \<Rightarrow> 'j response_item list \<Rightarrow> 'j response_item list" where
  "strip_images_when_unsupported modalities items =
     (if ImageModality \<in> set modalities then items else map strip_item_images items)"

definition strip_message_audio :: "message_content \<Rightarrow> message_content" where
  "strip_message_audio c =
     (case c of MessageInputAudio _ \<Rightarrow> MessageInputText AUDIO_CONTENT_OMITTED_PLACEHOLDER | _ \<Rightarrow> c)"

definition strip_output_audio :: "content_item \<Rightarrow> content_item" where
  "strip_output_audio c = (case c of InputAudio _ \<Rightarrow> InputText AUDIO_CONTENT_OMITTED_PLACEHOLDER | _ \<Rightarrow> c)"

fun strip_item_audio :: "'j response_item \<Rightarrow> 'j response_item" where
  "strip_item_audio (Message iid role content ph md) = Message iid role (map strip_message_audio content) ph md"
| "strip_item_audio (FunctionCallOutput iid c payload md) = FunctionCallOutput iid c (map_content_items strip_output_audio payload) md"
| "strip_item_audio (CustomToolCallOutput iid c n payload md) =
     CustomToolCallOutput iid c n (map_content_items strip_output_audio payload) md"
| "strip_item_audio item = item"

definition strip_audio_when_unsupported :: "input_modality list \<Rightarrow> 'j response_item list \<Rightarrow> 'j response_item list" where
  "strip_audio_when_unsupported modalities items =
     (if AudioModality \<in> set modalities then items else map strip_item_audio items)"

section \<open>Token estimates (\<open>history.rs\<close>)\<close>

definition i64_min :: int where
  "i64_min = - (2 ^ 63)"

definition sat64 :: "int \<Rightarrow> int" where
  "sat64 x = max i64_min (min i64_max x)"

definition i64_saturating_add :: "int \<Rightarrow> int \<Rightarrow> int" where
  "i64_saturating_add a b = sat64 (a + b)"

definition i64_saturating_sub :: "int \<Rightarrow> int \<Rightarrow> int" where
  "i64_saturating_sub a b = sat64 (a - b)"

text \<open>\<open>i64::try_from(n).unwrap_or(i64::MAX)\<close>.\<close>

definition i64_of_usize :: "nat \<Rightarrow> int" where
  "i64_of_usize n = min i64_max (int n)"

definition estimate_reasoning_length :: "nat \<Rightarrow> nat" where
  "estimate_reasoning_length encoded_len = saturating_mul encoded_len 3 div 4 - 650"

definition estimate_encrypted_function_output_length :: "nat \<Rightarrow> nat" where
  "estimate_encrypted_function_output_length encoded_len = (saturating_mul encoded_len 9 + 15) div 16"

definition eq_ignore_ascii_case :: "ustr \<Rightarrow> ustr \<Rightarrow> bool" where
  "eq_ignore_ascii_case a b \<longleftrightarrow> to_ascii_lowercase a = to_ascii_lowercase b"

text \<open>\<open>s.get(..n).is_some_and(|p| p.eq_ignore_ascii_case(q))\<close> for \<open>n\<close> the length of \<open>q\<close>.\<close>

definition has_ascii_prefix :: "ustr \<Rightarrow> ustr \<Rightarrow> bool" where
  "has_ascii_prefix q s \<longleftrightarrow>
     (case split_at_byte (byte_len q) s of Some (p, _) \<Rightarrow> eq_ignore_ascii_case p q | None \<Rightarrow> False)"

definition parse_base64_data_url :: "ustr \<Rightarrow> ustr \<Rightarrow> ustr option" where
  "parse_base64_data_url url media_type_prefix =
     (if \<not> has_ascii_prefix (lit ''data:'') url then None
      else case split_once 44 url of
             None \<Rightarrow> None
           | Some (metadata, payload) \<Rightarrow>
               (case split_char 59 (drop 5 metadata) of
                  [] \<Rightarrow> None
                | mime_type # metadata_parts \<Rightarrow>
                    if \<not> has_ascii_prefix media_type_prefix mime_type then None
                    else if \<not> list_ex (\<lambda>part. eq_ignore_ascii_case part (lit ''base64'')) metadata_parts then None
                    else Some payload))"

definition parse_base64_image_data_url :: "ustr \<Rightarrow> ustr option" where
  "parse_base64_image_data_url url = parse_base64_data_url url (lit ''image/'')"

definition parse_base64_audio_data_url :: "ustr \<Rightarrow> ustr option" where
  "parse_base64_audio_data_url url = parse_base64_data_url url (lit ''audio/'')"

definition RESIZED_IMAGE_BYTES_ESTIMATE :: int where
  "RESIZED_IMAGE_BYTES_ESTIMATE = 7373"

definition ORIGINAL_IMAGE_PATCH_SIZE :: nat where
  "ORIGINAL_IMAGE_PATCH_SIZE = 32"

definition ORIGINAL_IMAGE_MAX_PATCHES :: nat where
  "ORIGINAL_IMAGE_MAX_PATCHES = 10000"

text \<open>The cache in front of this function is transparent: it stores the result under a digest of its argument.\<close>

definition estimate_original_image_bytes :: "'j history_env \<Rightarrow> ustr \<Rightarrow> int option" where
  "estimate_original_image_bytes env image_url =
     (case parse_base64_image_data_url image_url of
        None \<Rightarrow> None
      | Some payload \<Rightarrow>
          (case decoded_image_size env payload of
             None \<Rightarrow> None
           | Some (width, height) \<Rightarrow>
               (let patches_wide = (width + (ORIGINAL_IMAGE_PATCH_SIZE - 1)) div ORIGINAL_IMAGE_PATCH_SIZE;
                    patches_high = (height + (ORIGINAL_IMAGE_PATCH_SIZE - 1)) div ORIGINAL_IMAGE_PATCH_SIZE;
                    patch_count = min (patches_wide * patches_high) ORIGINAL_IMAGE_MAX_PATCHES
                in Some (i64_of_usize (approx_bytes_for_tokens patch_count)))))"

definition accumulate_image :: "'j history_env \<Rightarrow> ustr \<Rightarrow> image_detail option \<Rightarrow> int \<times> int \<Rightarrow> int \<times> int" where
  "accumulate_image env image_url detail acc =
     (case parse_base64_image_data_url image_url of
        None \<Rightarrow> acc
      | Some payload \<Rightarrow>
          (i64_saturating_add (fst acc) (i64_of_usize (byte_len payload)),
           i64_saturating_add (snd acc)
             (case detail of
                Some Original \<Rightarrow> (case estimate_original_image_bytes env image_url of
                                    Some b \<Rightarrow> b | None \<Rightarrow> RESIZED_IMAGE_BYTES_ESTIMATE)
              | _ \<Rightarrow> RESIZED_IMAGE_BYTES_ESTIMATE)))"

definition message_image_step :: "'j history_env \<Rightarrow> message_content \<Rightarrow> int \<times> int \<Rightarrow> int \<times> int" where
  "message_image_step env c acc =
     (case c of MessageInputImage url detail \<Rightarrow> accumulate_image env url detail acc | _ \<Rightarrow> acc)"

definition output_image_step :: "'j history_env \<Rightarrow> content_item \<Rightarrow> int \<times> int \<Rightarrow> int \<times> int" where
  "output_image_step env c acc =
     (case c of InputImage url detail \<Rightarrow> accumulate_image env url detail acc | _ \<Rightarrow> acc)"

definition payload_items :: "output_payload \<Rightarrow> content_item list" where
  "payload_items payload = (case payload_body payload of BodyText _ \<Rightarrow> [] | BodyContentItems cs \<Rightarrow> cs)"

fun image_data_url_estimate_adjustment :: "'j history_env \<Rightarrow> 'j response_item \<Rightarrow> int \<times> int" where
  "image_data_url_estimate_adjustment env (Message _ _ content _ _) = fold (message_image_step env) content (0, 0)"
| "image_data_url_estimate_adjustment env (FunctionCallOutput _ _ payload _) =
     fold (output_image_step env) (payload_items payload) (0, 0)"
| "image_data_url_estimate_adjustment env (CustomToolCallOutput _ _ _ payload _) =
     fold (output_image_step env) (payload_items payload) (0, 0)"
| "image_data_url_estimate_adjustment env _ = (0, 0)"

definition accumulate_audio :: "'j history_env \<Rightarrow> ustr \<Rightarrow> int \<times> int \<Rightarrow> int \<times> int" where
  "accumulate_audio env audio_url acc =
     (case parse_base64_audio_data_url audio_url of
        None \<Rightarrow> acc
      | Some payload \<Rightarrow>
          (i64_saturating_add (fst acc) (i64_of_usize (byte_len payload)),
           i64_saturating_add (snd acc) (i64_of_usize (approx_bytes_for_tokens (audio_token_count env audio_url)))))"

definition message_audio_step :: "'j history_env \<Rightarrow> message_content \<Rightarrow> int \<times> int \<Rightarrow> int \<times> int" where
  "message_audio_step env c acc = (case c of MessageInputAudio url \<Rightarrow> accumulate_audio env url acc | _ \<Rightarrow> acc)"

definition output_audio_step :: "'j history_env \<Rightarrow> content_item \<Rightarrow> int \<times> int \<Rightarrow> int \<times> int" where
  "output_audio_step env c acc = (case c of InputAudio url \<Rightarrow> accumulate_audio env url acc | _ \<Rightarrow> acc)"

fun audio_data_url_estimate_adjustment :: "'j history_env \<Rightarrow> 'j response_item \<Rightarrow> int \<times> int" where
  "audio_data_url_estimate_adjustment env (Message _ _ content _ _) = fold (message_audio_step env) content (0, 0)"
| "audio_data_url_estimate_adjustment env (FunctionCallOutput _ _ payload _) =
     fold (output_audio_step env) (payload_items payload) (0, 0)"
| "audio_data_url_estimate_adjustment env (CustomToolCallOutput _ _ _ payload _) =
     fold (output_audio_step env) (payload_items payload) (0, 0)"
| "audio_data_url_estimate_adjustment env _ = (0, 0)"

definition encrypted_step :: "content_item \<Rightarrow> int \<times> int \<Rightarrow> int \<times> int" where
  "encrypted_step c acc =
     (case c of
        EncryptedContent e \<Rightarrow>
          (i64_saturating_add (fst acc) (i64_of_usize (byte_len e)),
           i64_saturating_add (snd acc) (i64_of_usize (estimate_encrypted_function_output_length (byte_len e))))
      | _ \<Rightarrow> acc)"

fun encrypted_function_output_estimate_adjustment :: "'j response_item \<Rightarrow> int \<times> int" where
  "encrypted_function_output_estimate_adjustment (FunctionCallOutput _ _ payload _) =
     fold encrypted_step (payload_items payload) (0, 0)"
| "encrypted_function_output_estimate_adjustment _ = (0, 0)"

fun reasoning_content :: "'j response_item \<Rightarrow> ustr option" where
  "reasoning_content (Reasoning _ _ _ encrypted _) = encrypted"
| "reasoning_content (Compaction _ encrypted _) = Some encrypted"
| "reasoning_content (ContextCompaction _ encrypted _) = encrypted"
| "reasoning_content _ = None"

definition estimate_response_item_model_visible_bytes :: "'j history_env \<Rightarrow> 'j response_item \<Rightarrow> int" where
  "estimate_response_item_model_visible_bytes env item =
     (case reasoning_content item of
        Some content \<Rightarrow> i64_of_usize (estimate_reasoning_length (byte_len content))
      | None \<Rightarrow>
          (let raw = (case json_len env item of Some n \<Rightarrow> i64_of_usize n | None \<Rightarrow> 0);
               (image_payload, image_replacement) = image_data_url_estimate_adjustment env item;
               (audio_payload, audio_replacement) = audio_data_url_estimate_adjustment env item;
               (encrypted_payload, encrypted_replacement) = encrypted_function_output_estimate_adjustment item;
               raw1 = i64_saturating_add
                        (i64_saturating_sub
                          (i64_saturating_add (i64_saturating_sub raw image_payload) image_replacement)
                          audio_payload)
                        audio_replacement
           in i64_saturating_add (i64_saturating_sub raw1 encrypted_payload) encrypted_replacement))"

definition estimate_item_token_count :: "'j history_env \<Rightarrow> 'j response_item \<Rightarrow> int" where
  "estimate_item_token_count env item =
     approx_tokens_from_byte_count_i64 (estimate_response_item_model_visible_bytes env item)"

definition estimate_items_token_count :: "'j history_env \<Rightarrow> 'j response_item list \<Rightarrow> int" where
  "estimate_items_token_count env items = foldl i64_saturating_add 0 (map (estimate_item_token_count env) items)"

end
