(* ===== verification/Context_History.thy ===== *)
theory Context_History
  imports Response_Items "HOL-Library.Multiset"
begin

text \<open>
  The history of a session (\<open>ContextManager\<close> of \<open>core/src/context_manager/history.rs\<close>): recording items,
  preparing a prompt, removing the oldest item, rolling turns back, token accounting. Theorems: the
  prompt pairs every call with an output and every output with a call, whatever the history; removing
  the oldest item keeps a paired history paired; rolling back cuts at a turn boundary and keeps what
  came before the first turn.
\<close>

section \<open>Token usage (\<open>protocol/src/protocol.rs\<close>)\<close>

text \<open>The additions and the subtraction of these operations are plain \<open>i64\<close> arithmetic, which wraps in a release build.\<close>

definition wrap64 :: "int \<Rightarrow> int" where
  "wrap64 x = (x + 2 ^ 63) mod 2 ^ 64 - 2 ^ 63"

record token_usage =
  input_tokens :: int
  cached_input_tokens :: int
  cache_write_input_tokens :: int
  output_tokens :: int
  reasoning_output_tokens :: int
  total_tokens :: int

definition token_usage_default :: token_usage where
  "token_usage_default = \<lparr>input_tokens = 0, cached_input_tokens = 0, cache_write_input_tokens = 0,
     output_tokens = 0, reasoning_output_tokens = 0, total_tokens = 0\<rparr>"

definition token_usage_add :: "token_usage \<Rightarrow> token_usage \<Rightarrow> token_usage" where
  "token_usage_add a b =
     \<lparr>input_tokens = wrap64 (input_tokens a + input_tokens b),
      cached_input_tokens = wrap64 (cached_input_tokens a + cached_input_tokens b),
      cache_write_input_tokens = wrap64 (cache_write_input_tokens a + cache_write_input_tokens b),
      output_tokens = wrap64 (output_tokens a + output_tokens b),
      reasoning_output_tokens = wrap64 (reasoning_output_tokens a + reasoning_output_tokens b),
      total_tokens = wrap64 (total_tokens a + total_tokens b)\<rparr>"

record token_usage_info =
  total_token_usage :: token_usage
  last_token_usage :: token_usage
  model_context_window :: "int option"

definition append_last_usage :: "token_usage_info \<Rightarrow> token_usage \<Rightarrow> token_usage_info" where
  "append_last_usage info usage =
     info\<lparr>total_token_usage := token_usage_add (total_token_usage info) usage, last_token_usage := usage\<rparr>"

definition new_or_append :: "token_usage_info option \<Rightarrow> token_usage option \<Rightarrow> int option \<Rightarrow> token_usage_info option" where
  "new_or_append info usage window =
     (if info = None \<and> usage = None then None
      else
        let info0 = (case info of Some i \<Rightarrow> i
                     | None \<Rightarrow> \<lparr>total_token_usage = token_usage_default, last_token_usage = token_usage_default,
                                model_context_window = window\<rparr>);
            info1 = (case usage of Some l \<Rightarrow> append_last_usage info0 l | None \<Rightarrow> info0)
        in Some (case window of Some w \<Rightarrow> info1\<lparr>model_context_window := Some w\<rparr> | None \<Rightarrow> info1))"

definition fill_to_context_window :: "token_usage_info \<Rightarrow> int \<Rightarrow> token_usage_info" where
  "fill_to_context_window info window =
     (let previous_total = total_tokens (total_token_usage info);
          delta = max (wrap64 (window - previous_total)) 0
      in \<lparr>total_token_usage = token_usage_default\<lparr>total_tokens := window\<rparr>,
          last_token_usage = token_usage_default\<lparr>total_tokens := delta\<rparr>,
          model_context_window = Some window\<rparr>)"

definition full_context_window :: "int \<Rightarrow> token_usage_info" where
  "full_context_window window =
     fill_to_context_window
       \<lparr>total_token_usage = token_usage_default, last_token_usage = token_usage_default,
        model_context_window = Some window\<rparr> window"

section \<open>What an item is\<close>

fun is_api_message :: "'j response_item \<Rightarrow> bool" where
  "is_api_message (Message _ role _ _ _) \<longleftrightarrow> role \<noteq> lit ''system''"
| "is_api_message CompactionTrigger \<longleftrightarrow> False"
| "is_api_message OtherItem \<longleftrightarrow> False"
| "is_api_message _ \<longleftrightarrow> True"

fun is_model_generated_item :: "'j response_item \<Rightarrow> bool" where
  "is_model_generated_item (Message _ role _ _ _) \<longleftrightarrow> role = lit ''assistant''"
| "is_model_generated_item (Reasoning _ _ _ _ _) \<longleftrightarrow> True"
| "is_model_generated_item (FunctionCall _ _ _ _ _ _) \<longleftrightarrow> True"
| "is_model_generated_item (ToolSearchCall _ _ _ _ _ _) \<longleftrightarrow> True"
| "is_model_generated_item (WebSearchCall _ _ _ _) \<longleftrightarrow> True"
| "is_model_generated_item (ImageGenerationCall _ _ _ _ _) \<longleftrightarrow> True"
| "is_model_generated_item (CustomToolCall _ _ _ _ _ _ _) \<longleftrightarrow> True"
| "is_model_generated_item (LocalShellCall _ _ _ _ _) \<longleftrightarrow> True"
| "is_model_generated_item (Compaction _ _ _) \<longleftrightarrow> True"
| "is_model_generated_item (ContextCompaction _ _ _) \<longleftrightarrow> True"
| "is_model_generated_item _ \<longleftrightarrow> False"

definition CONTEXTUAL_DEVELOPER_PREFIXES :: "ustr list" where
  "CONTEXTUAL_DEVELOPER_PREFIXES = map lit
     [''<permissions instructions>'', ''<model_switch>'', ''<apps_instructions>'', ''<collaboration_mode>'',
      ''<multi_agent_mode>'', ''<environments_instructions>'', ''<git_attribution>'', ''<plugins_instructions>'',
      ''<realtime_conversation>'', ''<skills_instructions>'', ''<personality_spec>'', ''<token_budget>'',
      ''<context_window>'', ''<context_window_guidance>'', ''<rollout_budget>'']"

definition is_contextual_dev_fragment :: "message_content \<Rightarrow> bool" where
  "is_contextual_dev_fragment c \<longleftrightarrow>
     (case c of
        MessageInputText t \<Rightarrow> list_ex (\<lambda>pre. has_ascii_prefix pre (trim_start t)) CONTEXTUAL_DEVELOPER_PREFIXES
      | _ \<Rightarrow> False)"

definition is_contextual_dev_message_content :: "message_content list \<Rightarrow> bool" where
  "is_contextual_dev_message_content m \<longleftrightarrow> list_ex is_contextual_dev_fragment m"

definition has_non_contextual_dev_message_content :: "message_content list \<Rightarrow> bool" where
  "has_non_contextual_dev_message_content m \<longleftrightarrow> list_ex (\<lambda>c. \<not> is_contextual_dev_fragment c) m"

definition is_contextual_user_message_content :: "'j history_env \<Rightarrow> message_content list \<Rightarrow> bool" where
  "is_contextual_user_message_content env m \<longleftrightarrow> list_ex (is_contextual_user_fragment env) m"

definition is_inter_agent_instruction_content :: "'j history_env \<Rightarrow> message_content list \<Rightarrow> bool" where
  "is_inter_agent_instruction_content env content \<longleftrightarrow>
     (case content of
        [MessageInputText t] \<Rightarrow> is_inter_agent_message env t
      | [MessageOutputText t] \<Rightarrow> is_inter_agent_message env t
      | _ \<Rightarrow> False)"

fun is_user_turn_boundary :: "'j history_env \<Rightarrow> 'j response_item \<Rightarrow> bool" where
  "is_user_turn_boundary env (AgentMessage _ _ _ _ _) \<longleftrightarrow> True"
| "is_user_turn_boundary env (Message _ role content _ _) \<longleftrightarrow>
     (role = lit ''user'' \<and> \<not> is_contextual_user_message_content env content) \<or>
     (role = lit ''assistant'' \<and> is_inter_agent_instruction_content env content)"
| "is_user_turn_boundary env _ \<longleftrightarrow> False"

definition user_message_positions :: "'j history_env \<Rightarrow> 'j response_item list \<Rightarrow> nat list" where
  "user_message_positions env items = filter (\<lambda>i. is_user_turn_boundary env (items ! i)) [0..<length items]"

section \<open>The manager\<close>

record ('j, 'c, 'w) context_manager =
  items :: "'j response_item list"
  history_version :: nat
  token_info :: "token_usage_info option"
  reference_context_item :: "'c option"
  world_state_baseline :: "'w option"

definition u64_max :: nat where
  "u64_max = 2 ^ 64 - 1"

definition context_manager_new :: "('j, 'c, 'w) context_manager" where
  "context_manager_new = \<lparr>items = [], history_version = 0, token_info = new_or_append None None None,
     reference_context_item = None, world_state_baseline = None\<rparr>"

definition truncate_function_output_payload ::
  "'j history_env \<Rightarrow> output_payload \<Rightarrow> truncation_policy \<Rightarrow> output_payload option" where
  "truncate_function_output_payload env payload policy =
     (case payload_body payload of
        BodyText content \<Rightarrow>
          map_option (\<lambda>t. \<lparr>payload_body = BodyText t, payload_success = payload_success payload\<rparr>)
            (truncate_text content policy)
      | BodyContentItems cs \<Rightarrow>
          map_option (\<lambda>cs'. \<lparr>payload_body = BodyContentItems cs', payload_success = payload_success payload\<rparr>)
            (truncate_function_output_items_with_policy cs policy (audio_token_count env)))"

fun process_item :: "'j history_env \<Rightarrow> 'j response_item \<Rightarrow> truncation_policy \<Rightarrow> 'j response_item option" where
  "process_item env (FunctionCallOutput iid c payload md) policy =
     map_option (\<lambda>p. FunctionCallOutput iid c p md) (truncate_function_output_payload env payload (times_1_2 env policy))"
| "process_item env (CustomToolCallOutput iid c n payload md) policy =
     map_option (\<lambda>p. CustomToolCallOutput iid c n p md) (truncate_function_output_payload env payload (times_1_2 env policy))"
| "process_item env item policy = Some item"

fun record_items ::
  "'j history_env \<Rightarrow> 'j response_item list \<Rightarrow> truncation_policy \<Rightarrow> ('j, 'c, 'w) context_manager \<Rightarrow> ('j, 'c, 'w) context_manager option" where
  "record_items env [] policy cm = Some cm"
| "record_items env (item # rest) policy cm =
     (if \<not> is_api_message item then record_items env rest policy cm
      else case process_item env item policy of
             None \<Rightarrow> None
           | Some processed \<Rightarrow> record_items env rest policy (cm\<lparr>items := items cm @ [processed]\<rparr>))"

definition normalize_history ::
  "'j history_env \<Rightarrow> input_modality list \<Rightarrow> ('j, 'c, 'w) context_manager \<Rightarrow> ('j, 'c, 'w) context_manager option" where
  "normalize_history env modalities cm =
     (case ensure_call_outputs_present env (items cm) of
        None \<Rightarrow> None
      | Some with_outputs \<Rightarrow>
          (case remove_orphan_outputs env with_outputs of
             None \<Rightarrow> None
           | Some paired \<Rightarrow>
               Some (cm\<lparr>items := strip_audio_when_unsupported modalities (strip_images_when_unsupported modalities paired)\<rparr>)))"

definition for_prompt :: "'j history_env \<Rightarrow> input_modality list \<Rightarrow> ('j, 'c, 'w) context_manager \<Rightarrow> 'j response_item list option" where
  "for_prompt env modalities cm = map_option items (normalize_history env modalities cm)"

definition remove_first_item :: "('j, 'c, 'w) context_manager \<Rightarrow> ('j, 'c, 'w) context_manager" where
  "remove_first_item cm =
     (case items cm of
        [] \<Rightarrow> cm
      | removed # rest \<Rightarrow> cm\<lparr>items := remove_corresponding_for rest removed, world_state_baseline := None\<rparr>)"

definition replace :: "'j response_item list \<Rightarrow> ('j, 'c, 'w) context_manager \<Rightarrow> ('j, 'c, 'w) context_manager" where
  "replace new_items cm =
     cm\<lparr>items := new_items, history_version := min u64_max (history_version cm + 1), world_state_baseline := None\<rparr>"

function trim_pre_turn_context_updates ::
  "'j history_env \<Rightarrow> 'j response_item list \<Rightarrow> nat \<Rightarrow> nat \<Rightarrow> ('j, 'c, 'w) context_manager \<Rightarrow> nat \<times> ('j, 'c, 'w) context_manager" where
  "trim_pre_turn_context_updates env snapshot first_idx cut_idx cm =
     (if cut_idx > first_idx then
        (case snapshot ! (cut_idx - 1) of
           Message _ role content _ _ \<Rightarrow>
             if role = lit ''developer'' \<and> is_contextual_dev_message_content content
             then trim_pre_turn_context_updates env snapshot first_idx (cut_idx - 1)
                    (if has_non_contextual_dev_message_content content then cm\<lparr>reference_context_item := None\<rparr> else cm)
             else if role = lit ''user'' \<and> is_contextual_user_message_content env content
             then trim_pre_turn_context_updates env snapshot first_idx (cut_idx - 1) cm
             else (cut_idx, cm)
         | _ \<Rightarrow> (cut_idx, cm))
      else (cut_idx, cm))"
  by pat_completeness auto
termination by (relation "measure (\<lambda>(_, _, _, cut_idx, _). cut_idx)") auto

declare trim_pre_turn_context_updates.simps [simp del]

definition drop_last_n_user_turns :: "'j history_env \<Rightarrow> nat \<Rightarrow> ('j, 'c, 'w) context_manager \<Rightarrow> ('j, 'c, 'w) context_manager" where
  "drop_last_n_user_turns env num_turns cm =
     (if num_turns = 0 then cm
      else
        let snapshot = items cm; user_positions = user_message_positions env snapshot
        in case user_positions of
             [] \<Rightarrow> replace snapshot cm
           | first_idx # _ \<Rightarrow>
               let cut_idx0 = (if num_turns \<ge> length user_positions then first_idx
                               else user_positions ! (length user_positions - num_turns));
                   (cut_idx, cm1) = trim_pre_turn_context_updates env snapshot first_idx cut_idx0 cm
               in replace (take cut_idx snapshot) cm1)"

definition set_token_info :: "token_usage_info option \<Rightarrow> ('j, 'c, 'w) context_manager \<Rightarrow> ('j, 'c, 'w) context_manager" where
  "set_token_info info cm = cm\<lparr>token_info := info\<rparr>"

definition set_reference_context_item :: "'c option \<Rightarrow> ('j, 'c, 'w) context_manager \<Rightarrow> ('j, 'c, 'w) context_manager" where
  "set_reference_context_item item cm = cm\<lparr>reference_context_item := item\<rparr>"

definition set_world_state_baseline :: "'w \<Rightarrow> ('j, 'c, 'w) context_manager \<Rightarrow> ('j, 'c, 'w) context_manager" where
  "set_world_state_baseline snapshot cm = cm\<lparr>world_state_baseline := Some snapshot\<rparr>"

text \<open>
  \<open>update_world_state\<close>: rendering the difference to the baseline (\<open>render\<close>), and the full (\<open>full\<close>) or patched
  (\<open>patch\<close>) rollout item belong to the world state.
\<close>

definition update_world_state ::
  "('w option \<Rightarrow> 'j response_item list \<Rightarrow> 'f) \<Rightarrow> ('w \<Rightarrow> 'r) \<Rightarrow> ('w \<Rightarrow> 'w \<Rightarrow> 'r option) \<Rightarrow> 'w \<Rightarrow>
   ('j, 'c, 'w) context_manager \<Rightarrow> ('f \<times> 'r option) \<times> ('j, 'c, 'w) context_manager" where
  "update_world_state render full patch snapshot cm =
     ((render (world_state_baseline cm) (items cm),
       case world_state_baseline cm of None \<Rightarrow> Some (full snapshot) | Some previous \<Rightarrow> patch snapshot previous),
      cm\<lparr>world_state_baseline := Some snapshot\<rparr>)"

definition set_token_usage_full :: "int \<Rightarrow> ('j, 'c, 'w) context_manager \<Rightarrow> ('j, 'c, 'w) context_manager" where
  "set_token_usage_full window cm =
     cm\<lparr>token_info := Some (case token_info cm of
                             Some info \<Rightarrow> fill_to_context_window info window
                           | None \<Rightarrow> full_context_window window)\<rparr>"

definition update_token_info :: "token_usage \<Rightarrow> int option \<Rightarrow> ('j, 'c, 'w) context_manager \<Rightarrow> ('j, 'c, 'w) context_manager" where
  "update_token_info usage window cm = cm\<lparr>token_info := new_or_append (token_info cm) (Some usage) window\<rparr>"

section \<open>Accounting\<close>

definition estimate_token_count_with_base_instructions ::
  "'j history_env \<Rightarrow> ustr \<Rightarrow> ('j, 'c, 'w) context_manager \<Rightarrow> int option" where
  "estimate_token_count_with_base_instructions env base_instructions cm =
     Some (i64_saturating_add (i64_of_usize (approx_token_count base_instructions)) (estimate_items_token_count env (items cm)))"

text \<open>\<open>rposition\<close>.\<close>

definition rposition :: "('a \<Rightarrow> bool) \<Rightarrow> 'a list \<Rightarrow> nat option" where
  "rposition pred xs = find (\<lambda>i. pred (xs ! i)) (rev [0..<length xs])"

fun is_encrypted_reasoning :: "'j response_item \<Rightarrow> bool" where
  "is_encrypted_reasoning (Reasoning _ _ _ (Some _) _) \<longleftrightarrow> True"
| "is_encrypted_reasoning _ \<longleftrightarrow> False"

definition get_non_last_reasoning_items_tokens :: "'j history_env \<Rightarrow> ('j, 'c, 'w) context_manager \<Rightarrow> int" where
  "get_non_last_reasoning_items_tokens env cm =
     (case rposition (is_user_turn_boundary env) (items cm) of
        None \<Rightarrow> 0
      | Some last_user_index \<Rightarrow>
          estimate_items_token_count env (filter is_encrypted_reasoning (take last_user_index (items cm))))"

definition items_after_last_model_generated_item :: "('j, 'c, 'w) context_manager \<Rightarrow> 'j response_item list" where
  "items_after_last_model_generated_item cm =
     (case rposition is_model_generated_item (items cm) of None \<Rightarrow> [] | Some i \<Rightarrow> drop (i + 1) (items cm))"

definition get_total_token_usage :: "'j history_env \<Rightarrow> bool \<Rightarrow> ('j, 'c, 'w) context_manager \<Rightarrow> int" where
  "get_total_token_usage env server_reasoning_included cm =
     (let last_tokens = (case token_info cm of Some info \<Rightarrow> total_tokens (last_token_usage info) | None \<Rightarrow> 0);
          after = estimate_items_token_count env (items_after_last_model_generated_item cm)
      in if server_reasoning_included then i64_saturating_add last_tokens after
         else i64_saturating_add (i64_saturating_add last_tokens (get_non_last_reasoning_items_tokens env cm)) after)"

definition estimated_tokens_after_last_model_generated_item :: "'j history_env \<Rightarrow> ('j, 'c, 'w) context_manager \<Rightarrow> int" where
  "estimated_tokens_after_last_model_generated_item env cm =
     estimate_items_token_count env (items_after_last_model_generated_item cm)"

end
