(* ===== verification/Call_Pairing.thy ===== *)
theory Call_Pairing
  imports Context_History "HOL-Library.Sublist"
begin

text \<open>
  Calls and their outputs. A call opens a slot, an output fills one; a history is paired when every slot
  opened is filled and every slot filled was opened. The slots are an independent reading of the item types
  against which the passes of \<open>normalize.rs\<close> are measured. Theorems: preparing a prompt is one pass that
  puts a synthetic output behind each unanswered call and drops each orphan; the prompt is paired and
  stable; removing the oldest item keeps a paired history paired.
\<close>

section \<open>Slots\<close>

datatype slot = FunctionSlot ustr | SearchSlot ustr | CustomSlot ustr

fun call_slot :: "'j response_item \<Rightarrow> slot option" where
  "call_slot (FunctionCall _ _ _ _ c _) = Some (FunctionSlot c)"
| "call_slot (LocalShellCall _ c _ _ _) = map_option FunctionSlot c"
| "call_slot (ToolSearchCall _ c _ _ _ _) = map_option SearchSlot c"
| "call_slot (CustomToolCall _ _ c _ _ _ _) = Some (CustomSlot c)"
| "call_slot _ = None"

fun output_slot :: "'j response_item \<Rightarrow> slot option" where
  "output_slot (FunctionCallOutput _ c _ _) = Some (FunctionSlot c)"
| "output_slot (ToolSearchOutput _ c _ _ _ _) = map_option SearchSlot c"
| "output_slot (CustomToolCallOutput _ c _ _ _) = Some (CustomSlot c)"
| "output_slot _ = None"

text \<open>The output of a search that the server ran needs no call in the history.\<close>

fun from_server :: "'j response_item \<Rightarrow> bool" where
  "from_server (ToolSearchOutput _ _ _ execution _ _) \<longleftrightarrow> execution = lit ''server''"
| "from_server _ \<longleftrightarrow> False"

definition call_slots :: "'j response_item list \<Rightarrow> slot list" where
  "call_slots xs = List.map_filter call_slot xs"

definition output_slots :: "'j response_item list \<Rightarrow> slot list" where
  "output_slots xs = List.map_filter output_slot xs"

definition orphan :: "'j response_item list \<Rightarrow> 'j response_item \<Rightarrow> bool" where
  "orphan xs x \<longleftrightarrow> (case output_slot x of None \<Rightarrow> False | Some s \<Rightarrow> s \<notin> set (call_slots xs) \<and> \<not> from_server x)"

definition unanswered :: "'j response_item list \<Rightarrow> 'j response_item \<Rightarrow> bool" where
  "unanswered xs x \<longleftrightarrow> (case call_slot x of None \<Rightarrow> False | Some s \<Rightarrow> s \<notin> set (output_slots xs))"

definition paired :: "'j response_item list \<Rightarrow> bool" where
  "paired xs \<longleftrightarrow> list_all (\<lambda>x. \<not> unanswered xs x \<and> \<not> orphan xs x) xs"

text \<open>The item that stands for the missing output of a call.\<close>

definition aborted_output :: "'j history_env \<Rightarrow> 'j response_item \<Rightarrow> 'j response_item list" where
  "aborted_output env x =
     (case x of
        FunctionCall iid _ _ _ c _ \<Rightarrow>
          [FunctionCallOutput (synthetic_output_id env (lit ''fco'') iid) c (payload_from_text (lit ''aborted'')) None]
      | LocalShellCall iid (Some c) _ _ _ \<Rightarrow>
          [FunctionCallOutput (synthetic_output_id env (lit ''fco'') iid) c (payload_from_text (lit ''aborted'')) None]
      | ToolSearchCall iid (Some c) _ _ _ _ \<Rightarrow>
          [ToolSearchOutput (synthetic_output_id env (lit ''tso'') iid) (Some c) (lit ''completed'') (lit ''client'') [] None]
      | CustomToolCall iid _ c _ _ _ _ \<Rightarrow>
          [CustomToolCallOutput (synthetic_output_id env (lit ''ctco'') iid) c None
             (payload_from_text (lit ''aborted'')) None]
      | _ \<Rightarrow> [])"

text \<open>Calls whose missing output is reported through \<open>error_or_panic\<close>.\<close>

fun must_be_answered :: "'j response_item \<Rightarrow> bool" where
  "must_be_answered (CustomToolCall _ _ _ _ _ _ _) \<longleftrightarrow> True"
| "must_be_answered (LocalShellCall _ _ _ _ _) \<longleftrightarrow> True"
| "must_be_answered _ \<longleftrightarrow> False"

definition strip_unsupported :: "input_modality list \<Rightarrow> 'j response_item \<Rightarrow> 'j response_item" where
  "strip_unsupported modalities x =
     (let y = (if ImageModality \<in> set modalities then x else strip_item_images x)
      in if AudioModality \<in> set modalities then y else strip_item_audio y)"

fun shows_image :: "'j response_item \<Rightarrow> bool" where
  "shows_image (Message _ _ content _ _) \<longleftrightarrow> list_ex (\<lambda>c. case c of MessageInputImage _ _ \<Rightarrow> True | _ \<Rightarrow> False) content"
| "shows_image (FunctionCallOutput _ _ payload _) \<longleftrightarrow>
     list_ex (\<lambda>c. case c of InputImage _ _ \<Rightarrow> True | _ \<Rightarrow> False) (payload_items payload)"
| "shows_image (CustomToolCallOutput _ _ _ payload _) \<longleftrightarrow>
     list_ex (\<lambda>c. case c of InputImage _ _ \<Rightarrow> True | _ \<Rightarrow> False) (payload_items payload)"
| "shows_image (ImageGenerationCall _ _ _ result _) \<longleftrightarrow> result \<noteq> []"
| "shows_image _ \<longleftrightarrow> False"

fun plays_audio :: "'j response_item \<Rightarrow> bool" where
  "plays_audio (Message _ _ content _ _) \<longleftrightarrow> list_ex (\<lambda>c. case c of MessageInputAudio _ \<Rightarrow> True | _ \<Rightarrow> False) content"
| "plays_audio (FunctionCallOutput _ _ payload _) \<longleftrightarrow>
     list_ex (\<lambda>c. case c of InputAudio _ \<Rightarrow> True | _ \<Rightarrow> False) (payload_items payload)"
| "plays_audio (CustomToolCallOutput _ _ _ payload _) \<longleftrightarrow>
     list_ex (\<lambda>c. case c of InputAudio _ \<Rightarrow> True | _ \<Rightarrow> False) (payload_items payload)"
| "plays_audio _ \<longleftrightarrow> False"

text \<open>What the model can be shown.\<close>

definition supported :: "input_modality list \<Rightarrow> 'j response_item \<Rightarrow> bool" where
  "supported modalities x \<longleftrightarrow>
     (shows_image x \<longrightarrow> ImageModality \<in> set modalities) \<and> (plays_audio x \<longrightarrow> AudioModality \<in> set modalities)"

definition repaired :: "'j history_env \<Rightarrow> 'j response_item list \<Rightarrow> 'j response_item list" where
  "repaired env xs =
     concat (map (\<lambda>x. if orphan xs x then [] else if unanswered xs x then x # aborted_output env x else [x]) xs)"

section \<open>Slots and the passes\<close>

lemmas in_slots = call_slots_def output_slots_def set_map_filter_iff

lemma function_output_slot: "function_output_id x = Some c \<longleftrightarrow> output_slot x = Some (FunctionSlot c)"
  by (cases x) auto

lemma tool_search_output_slot: "tool_search_output_id x = Some c \<longleftrightarrow> output_slot x = Some (SearchSlot c)"
  by (cases x) auto

lemma custom_tool_output_slot: "custom_tool_output_id x = Some c \<longleftrightarrow> output_slot x = Some (CustomSlot c)"
  by (cases x) auto

lemma function_call_slot:
  "call_slot x = Some (FunctionSlot c) \<longleftrightarrow> function_call_id x = Some c \<or> local_shell_call_id x = Some c"
  by (cases x) auto

lemma tool_search_call_slot: "tool_search_call_id x = Some c \<longleftrightarrow> call_slot x = Some (SearchSlot c)"
  by (cases x) auto

lemma custom_tool_call_slot: "custom_tool_call_id x = Some c \<longleftrightarrow> call_slot x = Some (CustomSlot c)"
  by (cases x) auto

lemmas output_ids_are_slots = function_output_slot tool_search_output_slot custom_tool_output_slot

lemmas call_ids_are_slots = function_call_slot tool_search_call_slot custom_tool_call_slot

lemma output_has_call_iff: "output_has_call xs x \<longleftrightarrow> \<not> orphan xs x"
  by (cases x) (auto simp: output_has_call_def orphan_def in_slots call_ids_are_slots split: option.splits)

lemma missing_output_iff:
  "missing_output env xs x =
     (if unanswered xs x then Some (hd (aborted_output env x), must_be_answered x) else None)"
  by (cases x) (auto simp: missing_output_def unanswered_def aborted_output_def in_slots output_ids_are_slots Let_def
      split: option.splits)

lemma aborted_output_slots:
  assumes "call_slot x = Some s"
  shows "\<exists>y. aborted_output env x = [y] \<and> output_slot y = Some s \<and> call_slot y = None"
  using assms by (cases x) (auto simp: aborted_output_def)

lemma unanswered_has_call: "unanswered xs x \<Longrightarrow> \<exists>s. call_slot x = Some s"
  by (auto simp: unanswered_def split: option.splits)

lemma call_not_output: "call_slot x = Some s \<Longrightarrow> output_slot x = None"
  by (cases x) auto

lemma output_not_call: "output_slot x = Some s \<Longrightarrow> call_slot x = None"
  by (cases x) auto

section \<open>Insertion from the back\<close>

lemma insert_behind:
  "foldl (\<lambda>acc (idx, y, _). insert_at (idx + 1) y acc) (pre @ xs)
     (rev (List.map_filter (\<lambda>(idx, x). map_option (Pair idx) (g x)) (enumerate (length pre) xs))) =
   pre @ concat (map (\<lambda>x. x # (case g x of None \<Rightarrow> [] | Some (y, _) \<Rightarrow> [y])) xs)"
proof (induction xs arbitrary: pre)
  case Nil
  then show ?case by (simp add: List.map_filter_def)
next
  case (Cons x xs)
  from Cons [of "pre @ [x]"] show ?case
    by (simp add: List.map_filter_simps insert_at_def split: option.splits prod.splits)
qed

lemma list_ex_indexed:
  "list_ex (\<lambda>(_, _, p). p) (List.map_filter (\<lambda>(idx, x). map_option (Pair idx) (g x)) (enumerate n xs)) \<longleftrightarrow>
   list_ex (\<lambda>x. case g x of None \<Rightarrow> False | Some (_, p) \<Rightarrow> p) xs"
  by (induction xs arbitrary: n) (auto simp: List.map_filter_simps split: option.splits)

lemma missing_outputs_panic:
  "list_ex (\<lambda>(_, _, panics). panics) (missing_outputs_to_insert env xs) \<longleftrightarrow>
   list_ex (\<lambda>x. unanswered xs x \<and> must_be_answered x) xs"
  unfolding missing_outputs_to_insert_def list_ex_indexed by (auto simp: missing_output_iff list_ex_iff)

lemma ensure_call_outputs_present_exact:
  "ensure_call_outputs_present env xs =
     (if debug_assertions env \<and> list_ex (\<lambda>x. unanswered xs x \<and> must_be_answered x) xs then None
      else Some (concat (map (\<lambda>x. x # (if unanswered xs x then aborted_output env x else [])) xs)))"
proof -
  have "(case missing_output env xs x of None \<Rightarrow> [] | Some (y, _) \<Rightarrow> [y]) =
        (if unanswered xs x then aborted_output env x else [])" for x
    using unanswered_has_call [of xs x] aborted_output_slots [of x _ env] by (fastforce simp: missing_output_iff)
  then show ?thesis
    using insert_behind [of "[]" xs "missing_output env xs"]
    by (simp add: ensure_call_outputs_present_def missing_outputs_panic missing_outputs_to_insert_def [symmetric])
qed

section \<open>One pass\<close>

lemma orphan_has_output: "orphan xs x \<Longrightarrow> \<exists>s. output_slot x = Some s"
  by (auto simp: orphan_def split: option.splits)

lemma orphan_cong: "set (call_slots xs) = set (call_slots ys) \<Longrightarrow> orphan xs x = orphan ys x"
  by (auto simp: orphan_def split: option.splits)

lemma aborted_output_mem:
  assumes "y \<in> set (aborted_output env x)"
  shows "call_slot y = None \<and> (\<exists>s. call_slot x = Some s \<and> output_slot y = Some s)"
  using assms by (cases x) (auto simp: aborted_output_def split: option.splits)

lemma with_outputs_call_slots:
  "set (call_slots (concat (map (\<lambda>x. x # (if unanswered xs x then aborted_output env x else [])) ys))) =
   set (call_slots ys)"
  by (fastforce simp: in_slots dest: aborted_output_mem split: if_splits)

lemma aborted_output_not_orphan:
  assumes "x \<in> set xs" and "y \<in> set (aborted_output env x)"
  shows "\<not> orphan xs y"
  using assms aborted_output_mem [OF assms(2)] by (auto simp: orphan_def in_slots split: option.splits)

lemma filter_repaired:
  "filter (\<lambda>x. \<not> orphan xs x) (concat (map (\<lambda>x. x # (if unanswered xs x then aborted_output env x else [])) xs)) =
   repaired env xs"
proof -
  have "filter (\<lambda>x. \<not> orphan xs x) (x # (if unanswered xs x then aborted_output env x else [])) =
        (if orphan xs x then [] else if unanswered xs x then x # aborted_output env x else [x])"
    if "x \<in> set xs" for x
  proof -
    have "filter (\<lambda>x. \<not> orphan xs x) (aborted_output env x) = aborted_output env x"
      by (intro filter_True ballI aborted_output_not_orphan [OF that])
    moreover have "\<not> (orphan xs x \<and> unanswered xs x)"
      using orphan_has_output unanswered_has_call call_not_output by fastforce
    ultimately show ?thesis by auto
  qed
  then show ?thesis
    by (simp add: repaired_def filter_concat o_def cong: map_cong)
qed

lemma strip_is_map:
  "strip_audio_when_unsupported modalities (strip_images_when_unsupported modalities xs) =
   map (strip_unsupported modalities) xs"
  by (simp add: strip_audio_when_unsupported_def strip_images_when_unsupported_def strip_unsupported_def
      map_idI Let_def)

lemma normalize_history_exact:
  "normalize_history env modalities cm =
     (if debug_assertions env \<and>
         list_ex (\<lambda>x. orphan (items cm) x \<or> unanswered (items cm) x \<and> must_be_answered x) (items cm)
      then None
      else Some (cm\<lparr>items := map (strip_unsupported modalities) (repaired env (items cm))\<rparr>))"
proof -
  define xs where "xs = items cm"
  define W where "W = concat (map (\<lambda>x. x # (if unanswered xs x then aborted_output env x else [])) xs)"
  have calls: "set (call_slots W) = set (call_slots xs)"
    unfolding W_def by (rule with_outputs_call_slots)
  have orphans: "orphan W = orphan xs"
    by (intro ext orphan_cong calls)
  have "list_ex (orphan xs) W \<longleftrightarrow> list_ex (orphan xs) xs"
    by (auto simp: W_def list_ex_iff dest: aborted_output_not_orphan split: if_splits)
  moreover have "output_has_call W = (\<lambda>x. \<not> orphan xs x)"
    by (intro ext) (simp add: output_has_call_iff orphans)
  ultimately have second: "remove_orphan_outputs env W =
      (if debug_assertions env \<and> list_ex (orphan xs) xs then None else Some (repaired env xs))"
    by (simp add: remove_orphan_outputs_def W_def filter_repaired)
  have first: "ensure_call_outputs_present env xs =
      (if debug_assertions env \<and> list_ex (\<lambda>x. unanswered xs x \<and> must_be_answered x) xs then None else Some W)"
    unfolding W_def by (rule ensure_call_outputs_present_exact)
  show ?thesis
    unfolding normalize_history_def xs_def [symmetric] first
    by (simp add: second strip_is_map) (auto simp: list_ex_iff)
qed

section \<open>Paired histories\<close>

lemma call_not_orphan: "call_slot x = Some s \<Longrightarrow> \<not> orphan xs x"
  by (auto simp: orphan_def dest: call_not_output)

lemma repaired_mem:
  "y \<in> set (repaired env xs) \<longleftrightarrow>
     y \<in> set xs \<and> \<not> orphan xs y \<or> (\<exists>x \<in> set xs. unanswered xs x \<and> y \<in> set (aborted_output env x))"
proof -
  have "\<not> orphan xs x" if "unanswered xs x" for x
    using unanswered_has_call [OF that] call_not_orphan by blast
  then show ?thesis
    by (auto simp: repaired_def split: if_splits)
qed

lemma repaired_call_slots: "set (call_slots (repaired env xs)) = set (call_slots xs)"
  using call_not_orphan by (fastforce simp: in_slots repaired_mem dest: aborted_output_mem)

lemma repaired_paired: "paired (repaired env xs)"
  unfolding paired_def list_all_iff
proof (intro ballI conjI)
  fix y
  assume y: "y \<in> set (repaired env xs)"
  show "\<not> orphan (repaired env xs) y"
    using y aborted_output_not_orphan [of _ xs y env]
    by (auto simp: repaired_mem orphan_cong [OF repaired_call_slots])
  show "\<not> unanswered (repaired env xs) y"
  proof
    assume "unanswered (repaired env xs) y"
    then obtain s where s: "call_slot y = Some s" and open_slot: "s \<notin> set (output_slots (repaired env xs))"
      by (auto simp: unanswered_def split: option.splits)
    from y s have mem: "y \<in> set xs"
      by (auto simp: repaired_mem dest: aborted_output_mem)
    show False
    proof (cases "unanswered xs y")
      case True
      then show False
        using mem open_slot aborted_output_slots [OF s, of env]
        by (fastforce simp: in_slots repaired_mem)
    next
      case False
      with s obtain z where z: "z \<in> set xs" "output_slot z = Some s"
        by (auto simp: unanswered_def in_slots)
      then have "\<not> orphan xs z"
        using mem s by (auto simp: orphan_def in_slots)
      with z open_slot show False
        by (auto simp: in_slots repaired_mem)
    qed
  qed
qed

lemma repaired_of_paired: "paired xs \<Longrightarrow> repaired env xs = xs"
proof -
  assume "paired xs"
  then have "repaired env xs = concat (map (\<lambda>x. [x]) xs)"
    unfolding repaired_def paired_def list_all_iff by (intro arg_cong [of _ _ concat] map_cong) auto
  then show ?thesis by (simp add: concat_map_singleton)
qed

section \<open>Stripping keeps slots\<close>

lemma strip_unsupported_slots [simp]:
  "call_slot (strip_unsupported modalities x) = call_slot x"
  "output_slot (strip_unsupported modalities x) = output_slot x"
  "from_server (strip_unsupported modalities x) = from_server x"
  by (cases x; simp add: strip_unsupported_def Let_def)+

lemma slots_of_stripped [simp]:
  "set (call_slots (map (strip_unsupported modalities) xs)) = set (call_slots xs)"
  "set (output_slots (map (strip_unsupported modalities) xs)) = set (output_slots xs)"
  by (auto simp: in_slots)

lemma paired_iff:
  "paired xs \<longleftrightarrow>
     (\<forall>x\<in>set xs. \<forall>s. call_slot x = Some s \<longrightarrow> (\<exists>y\<in>set xs. output_slot y = Some s)) \<and>
     (\<forall>y\<in>set xs. \<forall>s. output_slot y = Some s \<and> \<not> from_server y \<longrightarrow> (\<exists>x\<in>set xs. call_slot x = Some s))"
proof -
  have "unanswered xs x \<longleftrightarrow> (\<exists>s. call_slot x = Some s \<and> s \<notin> set (output_slots xs))" for x
    by (auto simp: unanswered_def split: option.splits)
  moreover have "orphan xs x \<longleftrightarrow> (\<exists>s. output_slot x = Some s \<and> s \<notin> set (call_slots xs) \<and> \<not> from_server x)" for x
    by (auto simp: orphan_def split: option.splits)
  ultimately show ?thesis
    by (auto simp: paired_def list_all_iff in_slots)
qed

lemma paired_callD:
  "paired xs \<Longrightarrow> x \<in> set xs \<Longrightarrow> call_slot x = Some s \<Longrightarrow> \<exists>y\<in>set xs. output_slot y = Some s"
  by (simp add: paired_iff)

lemma paired_outputD:
  "paired xs \<Longrightarrow> y \<in> set xs \<Longrightarrow> output_slot y = Some s \<Longrightarrow> \<not> from_server y \<Longrightarrow> \<exists>x\<in>set xs. call_slot x = Some s"
  by (simp add: paired_iff)

lemma paired_stripped: "paired (map (strip_unsupported modalities) xs) \<longleftrightarrow> paired xs"
  by (auto simp: paired_iff)

lemma strip_message_idem:
  "strip_message_image (strip_message_image c) = strip_message_image c"
  "strip_message_audio (strip_message_audio c) = strip_message_audio c"
  "strip_message_image (strip_message_audio (strip_message_image c)) = strip_message_audio (strip_message_image c)"
  by (simp_all add: strip_message_image_def strip_message_audio_def split: message_content.splits)

lemma strip_output_idem:
  "strip_output_image (strip_output_image c) = strip_output_image c"
  "strip_output_audio (strip_output_audio c) = strip_output_audio c"
  "strip_output_image (strip_output_audio (strip_output_image c)) = strip_output_audio (strip_output_image c)"
  by (simp_all add: strip_output_image_def strip_output_audio_def split: content_item.splits)

lemma map_content_items_compose:
  "map_content_items f (map_content_items g p) = map_content_items (\<lambda>c. f (g c)) p"
  by (simp add: map_content_items_def split: output_body.splits)

lemma strip_unsupported_idem:
  "strip_unsupported modalities (strip_unsupported modalities x) = strip_unsupported modalities x"
  by (cases x) (simp_all add: strip_unsupported_def Let_def map_content_items_compose strip_message_idem
      strip_output_idem)

lemma prompt_of_paired:
  assumes "paired (items cm)"
  shows "for_prompt env modalities cm = Some (map (strip_unsupported modalities) (items cm))"
  using assms repaired_of_paired [OF assms]
  by (auto simp: for_prompt_def normalize_history_exact list_ex_iff paired_def list_all_iff)

section \<open>Removing one item of a pair\<close>

definition well_paired :: "'j response_item list \<Rightarrow> bool" where
  "well_paired xs \<longleftrightarrow> paired xs \<and> distinct (call_slots xs) \<and> distinct (output_slots xs)"

lemma distinct_map_filter_Cons:
  "distinct (List.map_filter f (x # xs)) \<longleftrightarrow>
     distinct (List.map_filter f xs) \<and> (\<forall>s. f x = Some s \<longrightarrow> (\<forall>y\<in>set xs. f y \<noteq> Some s))"
  by (auto simp: List.map_filter_simps set_map_filter_iff split: option.splits)

lemma remove_first_matching_cong:
  "(\<And>x. x \<in> set xs \<Longrightarrow> p x = q x) \<Longrightarrow> remove_first_matching p xs = remove_first_matching q xs"
  by (induction xs) auto

lemma remove_first_matching_mem:
  assumes "distinct (List.map_filter f xs)"
  shows "x \<in> set (remove_first_matching (\<lambda>y. f y = Some s) xs) \<longleftrightarrow> x \<in> set xs \<and> f x \<noteq> Some s"
  using assms by (induction xs) (auto simp: distinct_map_filter_Cons simp del: List.map_filter_simps(2))

lemma remove_first_matching_subseq: "subseq (remove_first_matching p xs) xs"
  by (induction xs) auto

lemma distinct_map_filter_subseq:
  assumes "subseq xs ys" and "distinct (List.map_filter f ys)"
  shows "distinct (List.map_filter f xs)"
  using assms
  by (induction rule: list_emb.induct) (auto simp: distinct_map_filter_Cons simp del: List.map_filter_simps(2) dest: list_emb_set)

lemma remove_corresponding_slots:
  assumes "distinct (call_slots xs)"
  shows "remove_corresponding_for xs x =
     (case call_slot x of
        Some s \<Rightarrow> remove_first_matching (\<lambda>y. output_slot y = Some s) xs
      | None \<Rightarrow>
          (case output_slot x of
             Some s \<Rightarrow> remove_first_matching (\<lambda>y. call_slot y = Some s) xs
           | None \<Rightarrow> xs))"
proof (cases x)
  case (FunctionCallOutput iid c payload md)
  have unique: "y = z" if "y \<in> set xs" "z \<in> set xs" "call_slot y = Some s" "call_slot z = Some s" for y z s
    using assms that unfolding call_slots_def by (induction xs) (auto simp: distinct_map_filter_Cons simp del: List.map_filter_simps(2))
  show ?thesis
  proof (cases "list_ex (\<lambda>i. function_call_id i = Some c) xs")
    case True
    then obtain z where z: "z \<in> set xs" "function_call_id z = Some c"
      by (auto simp: list_ex_iff)
    then have "call_slot z = Some (FunctionSlot c)"
      by (simp add: function_call_slot)
    then have "function_call_id y = Some c" if "y \<in> set xs" "call_slot y = Some (FunctionSlot c)" for y
      using unique [OF that(1) z(1) that(2)] z(2) by simp
    then have "function_call_id y = Some c \<longleftrightarrow> call_slot y = Some (FunctionSlot c)" if "y \<in> set xs" for y
      using that function_call_slot by blast
    then have "remove_first_matching (\<lambda>i. function_call_id i = Some c) xs =
        remove_first_matching (\<lambda>y. call_slot y = Some (FunctionSlot c)) xs"
      by (rule remove_first_matching_cong)
    then show ?thesis
      using True FunctionCallOutput by (simp add: remove_corresponding_for_def)
  next
    case False
    then have "local_shell_call_id y = Some c \<longleftrightarrow> call_slot y = Some (FunctionSlot c)" if "y \<in> set xs" for y
      using that by (simp add: function_call_slot list_ex_iff)
    then have "remove_first_matching (\<lambda>i. local_shell_call_id i = Some c) xs =
        remove_first_matching (\<lambda>y. call_slot y = Some (FunctionSlot c)) xs"
      by (rule remove_first_matching_cong)
    then show ?thesis
      using False FunctionCallOutput by (simp add: remove_corresponding_for_def)
  qed
qed (auto simp: remove_corresponding_for_def output_ids_are_slots call_ids_are_slots split: option.splits)

lemma paired_without_slot:
  assumes "paired (x # xs)" and "set ys = {y \<in> set xs. call_slot y \<noteq> Some s \<and> output_slot y \<noteq> Some s}"
    and "call_slot x \<in> {None, Some s}" and "output_slot x \<in> {None, Some s}"
  shows "paired ys"
  unfolding paired_iff
proof (intro conjI ballI allI impI)
  fix y t
  assume y: "y \<in> set ys" "call_slot y = Some t"
  with assms(2) have mem: "y \<in> set (x # xs)" and t: "t \<noteq> s" by auto
  obtain z where z: "z \<in> set (x # xs)" "output_slot z = Some t"
    using paired_callD [OF assms(1) mem y(2)] by blast
  with t assms(4) have "z \<noteq> x" by fastforce
  with z t have "z \<in> set ys"
    unfolding assms(2) using output_not_call [OF z(2)] by simp
  with z show "\<exists>z\<in>set ys. output_slot z = Some t" by blast
next
  fix y t
  assume y: "y \<in> set ys" "output_slot y = Some t \<and> \<not> from_server y"
  with assms(2) have mem: "y \<in> set (x # xs)" and t: "t \<noteq> s" by auto
  obtain z where z: "z \<in> set (x # xs)" "call_slot z = Some t"
    using paired_outputD [OF assms(1) mem] y(2) by blast
  with t assms(3) have "z \<noteq> x" by fastforce
  with z t have "z \<in> set ys"
    unfolding assms(2) using call_not_output [OF z(2)] by simp
  with z show "\<exists>z\<in>set ys. call_slot z = Some t" by blast
qed

lemma well_paired_slots:
  assumes "well_paired (x # xs)" and "y \<in> set xs"
  shows "call_slot x = Some s \<Longrightarrow> call_slot y \<noteq> Some s" and "output_slot x = Some s \<Longrightarrow> output_slot y \<noteq> Some s"
  using assms unfolding well_paired_def call_slots_def output_slots_def distinct_map_filter_Cons by blast+

lemma well_paired_Cons_call:
  assumes "well_paired (x # xs)" and "call_slot x = Some s"
  shows "paired (remove_first_matching (\<lambda>y. output_slot y = Some s) xs)"
proof (rule paired_without_slot [where x = x and xs = xs and s = s])
  have "distinct (List.map_filter output_slot xs)"
    using assms(1) unfolding well_paired_def output_slots_def distinct_map_filter_Cons by blast
  then show "set (remove_first_matching (\<lambda>y. output_slot y = Some s) xs) =
      {y \<in> set xs. call_slot y \<noteq> Some s \<and> output_slot y \<noteq> Some s}"
    using well_paired_slots(1) [OF assms(1) _ assms(2)] by (auto simp: remove_first_matching_mem)
qed (use assms call_not_output [OF assms(2)] in \<open>simp_all add: well_paired_def\<close>)

lemma well_paired_Cons_output:
  assumes "well_paired (x # xs)" and "output_slot x = Some s"
  shows "paired (remove_first_matching (\<lambda>y. call_slot y = Some s) xs)"
proof (rule paired_without_slot [where x = x and xs = xs and s = s])
  have "distinct (List.map_filter call_slot xs)"
    using assms(1) unfolding well_paired_def call_slots_def distinct_map_filter_Cons by blast
  then show "set (remove_first_matching (\<lambda>y. call_slot y = Some s) xs) =
      {y \<in> set xs. call_slot y \<noteq> Some s \<and> output_slot y \<noteq> Some s}"
    using well_paired_slots(2) [OF assms(1) _ assms(2)] by (auto simp: remove_first_matching_mem)
qed (use assms output_not_call [OF assms(2)] in \<open>simp_all add: well_paired_def\<close>)

lemma remove_corresponding_well_paired:
  assumes "well_paired (x # xs)"
  shows "well_paired (remove_corresponding_for xs x) \<and> subseq (remove_corresponding_for xs x) xs"
proof -
  have calls: "distinct (call_slots xs)" and outputs: "distinct (output_slots xs)"
    using assms by (simp_all add: well_paired_def call_slots_def output_slots_def distinct_map_filter_Cons
        del: List.map_filter_simps(2))
  have sub: "subseq (remove_corresponding_for xs x) xs"
    unfolding remove_corresponding_slots [OF calls]
    by (auto split: option.split intro: remove_first_matching_subseq)
  have "paired (remove_corresponding_for xs x)"
  proof (cases "call_slot x")
    case None
    show ?thesis
    proof (cases "output_slot x")
      case none: None
      then show ?thesis
        using None assms paired_iff [of "x # xs"] paired_iff [of xs]
        by (simp add: remove_corresponding_slots [OF calls] well_paired_def)
    next
      case (Some s)
      with None show ?thesis
        using well_paired_Cons_output [OF assms Some] by (simp add: remove_corresponding_slots [OF calls])
    qed
  next
    case (Some s)
    then show ?thesis
      using well_paired_Cons_call [OF assms Some] by (simp add: remove_corresponding_slots [OF calls])
  qed
  with sub calls outputs show ?thesis
    unfolding well_paired_def call_slots_def output_slots_def by (blast intro: distinct_map_filter_subseq)
qed

lemma length_remove_first_matching: "length xs \<le> Suc (length (remove_first_matching p xs))"
  by (induction xs) auto

lemma length_remove_first_item: "length (items cm) \<le> length (items (remove_first_item cm)) + 2"
  by (auto simp: remove_first_item_def remove_corresponding_for_def length_remove_first_matching
      split: list.split response_item.split option.split)

lemma remove_first_item_well_paired:
  assumes "well_paired (items cm)"
  shows "well_paired (items (remove_first_item cm)) \<and> subseq (items (remove_first_item cm)) (tl (items cm))"
proof (cases "items cm")
  case Nil
  then show ?thesis using assms by (simp add: remove_first_item_def)
next
  case (Cons x xs)
  then show ?thesis
    using assms remove_corresponding_well_paired [of x xs] by (simp add: remove_first_item_def)
qed

section \<open>Operations that keep the pairing\<close>

text \<open>
  The contract \<open>remove_first_item\<close> documents (it keeps the invariants without a full
  normalisation pass), for any operation on a history; the setters of \<open>ContextManager\<close> meet it too.
\<close>

locale pairing_operation =
  fixes op :: "('j, 'c, 'w) context_manager \<Rightarrow> ('j, 'c, 'w) context_manager"
  assumes keeps_pairing: "well_paired (items cm) \<Longrightarrow> well_paired (items (op cm))"
begin

lemma iterated: "well_paired (items cm) \<Longrightarrow> well_paired (items ((op ^^ n) cm))"
  by (induction n) (simp_all add: keeps_pairing)

lemma prompt_after:
  "well_paired (items cm) \<Longrightarrow>
     for_prompt env modalities ((op ^^ n) cm) = Some (map (strip_unsupported modalities) (items ((op ^^ n) cm)))"
  using iterated [of cm n] by (simp add: prompt_of_paired well_paired_def)

end

interpretation oldest: pairing_operation remove_first_item
  by unfold_locales (simp add: remove_first_item_well_paired)

interpretation usage: pairing_operation "update_token_info u w" for u w
  by unfold_locales (simp add: update_token_info_def)

interpretation baseline: pairing_operation "set_world_state_baseline w" for w
  by unfold_locales (simp add: set_world_state_baseline_def)

section \<open>Prompts\<close>

lemma message_strip_silent:
  "\<not> list_ex (\<lambda>c. case c of MessageInputImage _ _ \<Rightarrow> True | _ \<Rightarrow> False) (map strip_message_image cs)"
  "\<not> list_ex (\<lambda>c. case c of MessageInputAudio _ \<Rightarrow> True | _ \<Rightarrow> False) (map strip_message_audio cs)"
  "\<not> list_ex (\<lambda>c. case c of MessageInputImage _ _ \<Rightarrow> True | _ \<Rightarrow> False)
       (map (strip_message_audio \<circ> strip_message_image) cs)"
  by (auto simp: list_ex_iff strip_message_image_def strip_message_audio_def split: message_content.splits)

lemma output_strip_silent:
  "\<not> list_ex (\<lambda>c. case c of InputImage _ _ \<Rightarrow> True | _ \<Rightarrow> False) (map strip_output_image cs)"
  "\<not> list_ex (\<lambda>c. case c of InputAudio _ \<Rightarrow> True | _ \<Rightarrow> False) (map strip_output_audio cs)"
  "\<not> list_ex (\<lambda>c. case c of InputImage _ _ \<Rightarrow> True | _ \<Rightarrow> False)
       (map (\<lambda>c. strip_output_audio (strip_output_image c)) cs)"
  by (auto simp: list_ex_iff strip_output_image_def strip_output_audio_def split: content_item.splits)

lemma payload_items_map [simp]: "payload_items (map_content_items f p) = map f (payload_items p)"
  by (simp add: payload_items_def map_content_items_def split: output_body.splits)

lemma strip_unsupported_supported: "supported modalities (strip_unsupported modalities x)"
proof -
  have "\<not> shows_image (strip_item_images x)" "\<not> plays_audio (strip_item_audio x)"
    "\<not> plays_audio (strip_item_audio (strip_item_images x))" "\<not> shows_image (strip_item_audio (strip_item_images x))"
    by (cases x; simp add: message_strip_silent output_strip_silent list_ex_iff strip_message_audio_def
        strip_message_image_def strip_output_audio_def strip_output_image_def
        split: message_content.splits content_item.splits)+
  then show ?thesis
    by (auto simp: supported_def strip_unsupported_def)
qed

text \<open>
  The history prepared for a prompt is the history in one pass from front to back: an output without
  a call is left out, a call without an output is followed at once by a synthetic ``aborted'' output, every other
  item stays where it is, and each item loses the images and audio the model does not support. A debug
  build panics instead exactly when there is an orphan output or an unanswered custom or shell call.
\<close>

theorem prompt_is_one_pass:
  "for_prompt env modalities cm =
     (if debug_assertions env \<and>
         list_ex (\<lambda>x. orphan (items cm) x \<or> unanswered (items cm) x \<and> must_be_answered x) (items cm)
      then None
      else Some (map (strip_unsupported modalities)
             (concat (map (\<lambda>x. if orphan (items cm) x then []
                               else if unanswered (items cm) x then x # aborted_output env x
                               else [x]) (items cm)))))"
  unfolding for_prompt_def normalize_history_exact repaired_def by simp

text \<open>
  C19: In every prompt that is produced, each call has an output and each output its call (the output of a
  search that the server ran excepted) and no item shows what the model does not support; preparing
  the prompt again, in any build, changes nothing; and a release build always produces one.
\<close>

theorem prompt_is_paired:
  "(case for_prompt env modalities cm of
      None \<Rightarrow> debug_assertions env
    | Some prompt \<Rightarrow>
        paired prompt \<and> list_all (supported modalities) prompt \<and>
        for_prompt env' modalities (cm\<lparr>items := prompt\<rparr>) = Some prompt)"
proof -
  let ?p = "map (strip_unsupported modalities) (repaired env (items cm))"
  have "paired ?p"
    by (simp only: paired_stripped repaired_paired)
  moreover from this have "for_prompt env' modalities (cm\<lparr>items := ?p\<rparr>) = Some ?p"
    by (subst prompt_of_paired) (simp_all add: strip_unsupported_idem)
  moreover have "list_all (supported modalities) ?p"
    by (simp add: list_all_iff strip_unsupported_supported)
  moreover have "for_prompt env modalities cm = Some ?p \<or> for_prompt env modalities cm = None \<and> debug_assertions env"
    by (simp add: for_prompt_def normalize_history_exact)
  ultimately show ?thesis by fastforce
qed

text \<open>
  Dropping the oldest item any number of times keeps a history paired, if it was and its calls
  have distinct ids: with each item at most one other goes, its partner, what stays keeps its order, and
  the prompt is made without repairs, in a debug build too.
\<close>

theorem oldest_items_leave_in_pairs:
  assumes "well_paired (items cm)"
  shows "well_paired (items ((remove_first_item ^^ n) cm)) \<and>
    subseq (items ((remove_first_item ^^ n) cm)) (drop n (items cm)) \<and>
    length (items cm) \<le> length (items ((remove_first_item ^^ n) cm)) + 2 * n \<and>
    for_prompt env modalities ((remove_first_item ^^ n) cm) =
      Some (map (strip_unsupported modalities) (items ((remove_first_item ^^ n) cm)))"
proof -
  have "subseq (items ((remove_first_item ^^ n) cm)) (drop n (items cm)) \<and>
    length (items cm) \<le> length (items ((remove_first_item ^^ n) cm)) + 2 * n"
  proof (induction n)
    case (Suc n)
    let ?cm = "(remove_first_item ^^ n) cm"
    have "subseq (tl (items ?cm)) (tl (drop n (items cm)))"
      using Suc by (cases "items ?cm"; cases "drop n (items cm)") (auto dest: subseq_Cons' split: if_splits)
    then have "subseq (items (remove_first_item ?cm)) (drop (Suc n) (items cm))"
      using remove_first_item_well_paired [OF oldest.iterated [OF assms]]
      by (auto simp: drop_Suc tl_drop intro: subseq_order.trans)
    with Suc length_remove_first_item [of ?cm] show ?case by simp
  qed simp
  with oldest.iterated [OF assms] oldest.prompt_after [OF assms] show ?thesis by simp
qed

definition sample_history :: "(unit, unit, unit) context_manager" where
  "sample_history = context_manager_new
     \<lparr>items := [FunctionCall None (lit ''shell'') None [] (lit ''c1'') None,
                FunctionCallOutput None (lit ''c1'') (payload_from_text (lit ''ok'')) None,
                Message None (lit ''user'') [MessageInputText (lit ''go'')] None None]\<rparr>"

theorem oldest_items_leave_in_pairs_witness:
  "items ((remove_first_item ^^ 1) sample_history) =
     [Message None (lit ''user'') [MessageInputText (lit ''go'')] None None] \<and>
   well_paired (items ((remove_first_item ^^ 1) sample_history))"
proof -
  have "well_paired (items sample_history)"
    by (simp add: sample_history_def well_paired_def paired_def unanswered_def orphan_def call_slots_def
        output_slots_def List.map_filter_simps)
  from oldest_items_leave_in_pairs [OF this, of 1] show ?thesis
    by (simp add: sample_history_def remove_first_item_def remove_corresponding_for_def)
qed

end
