(* ===== verification/Rollback.thy ===== *)
theory Rollback
  imports Call_Pairing
begin

text \<open>
  Rolling back turns and counting tokens. Theorems: \<open>drop_last_n_user_turns\<close> cuts the history into what
  stays, the context updates directly above the cut, and the dropped turns; the token estimate of a
  history is the sum of its items' estimates, saturating at the largest \<open>i64\<close>.
\<close>

section \<open>Turn boundaries\<close>

definition turns :: "'j history_env \<Rightarrow> 'j response_item list \<Rightarrow> nat" where
  "turns env xs = length (filter (is_user_turn_boundary env) xs)"

text \<open>A context update that a rollback trims, and one that also carries lasting developer text.\<close>

fun context_update :: "'j history_env \<Rightarrow> 'j response_item \<Rightarrow> bool" where
  "context_update env (Message _ role content _ _) \<longleftrightarrow>
     role = lit ''developer'' \<and> is_contextual_dev_message_content content \<or>
     role = lit ''user'' \<and> is_contextual_user_message_content env content"
| "context_update env _ \<longleftrightarrow> False"

fun mixed_bundle :: "'j response_item \<Rightarrow> bool" where
  "mixed_bundle (Message _ role content _ _) \<longleftrightarrow>
     role = lit ''developer'' \<and> is_contextual_dev_message_content content \<and>
     has_non_contextual_dev_message_content content"
| "mixed_bundle _ \<longleftrightarrow> False"

lemma user_message_positions_snoc:
  "user_message_positions env (xs @ [x]) =
     user_message_positions env xs @ (if is_user_turn_boundary env x then [length xs] else [])"
proof -
  have "filter (\<lambda>i. is_user_turn_boundary env ((xs @ [x]) ! i)) [0..<length xs] =
        filter (\<lambda>i. is_user_turn_boundary env (xs ! i)) [0..<length xs]"
    by (rule filter_cong) (simp_all add: nth_append)
  then show ?thesis
    by (simp add: user_message_positions_def)
qed

lemma user_message_positions_Nil: "user_message_positions env [] = []"
  by (simp add: user_message_positions_def)

lemma length_user_message_positions: "length (user_message_positions env xs) = turns env xs"
  by (induction xs rule: rev_induct) (simp_all add: user_message_positions_snoc turns_def user_message_positions_Nil)

lemma nth_user_message_positions:
  assumes "j < turns env xs"
  shows "user_message_positions env xs ! j < length xs \<and>
    is_user_turn_boundary env (xs ! (user_message_positions env xs ! j)) \<and>
    turns env (take (user_message_positions env xs ! j) xs) = j"
  using assms
proof (induction xs rule: rev_induct)
  case Nil
  then show ?case by (simp add: turns_def)
next
  case (snoc x xs)
  show ?case
  proof (cases "j < turns env xs")
    case True
    then show ?thesis
      using snoc.IH by (simp add: user_message_positions_snoc nth_append length_user_message_positions)
  next
    case False
    with snoc.prems have "j = turns env xs" "is_user_turn_boundary env x"
      by (auto simp: turns_def split: if_splits)
    then show ?thesis
      by (simp add: user_message_positions_snoc nth_append length_user_message_positions)
  qed
qed

section \<open>The walk over context updates\<close>

lemma trim_step:
  "trim_pre_turn_context_updates env xs first cix cm =
     (if first < cix \<and> context_update env (xs ! (cix - 1))
      then trim_pre_turn_context_updates env xs first (cix - 1)
             (if mixed_bundle (xs ! (cix - 1)) then cm\<lparr>reference_context_item := None\<rparr> else cm)
      else (cix, cm))"
  by (subst trim_pre_turn_context_updates.simps) (auto split: response_item.split)

lemma trim_exact:
  assumes "trim_pre_turn_context_updates env xs first cix cm = (k, cm')" and "first \<le> cix" and "cix \<le> length xs"
  shows "first \<le> k \<and> k \<le> cix \<and> list_all (context_update env) (drop k (take cix xs)) \<and>
    (k = first \<or> \<not> context_update env (xs ! (k - 1))) \<and>
    cm' = cm\<lparr>reference_context_item :=
      (if list_ex mixed_bundle (drop k (take cix xs)) then None else reference_context_item cm)\<rparr>"
  using assms
proof (induction "cix - first" arbitrary: cix cm)
  case 0
  then have "cix = first" by simp
  moreover from this 0 have "k = first \<and> cm' = cm"
    using trim_step [of env xs first first cm] by simp
  ultimately show ?case by simp
next
  case (Suc d)
  show ?case
  proof (cases "context_update env (xs ! (cix - 1))")
    case False
    with Suc.prems show ?thesis by (auto simp: trim_step [of env xs first cix])
  next
    case True
    let ?cm = "if mixed_bundle (xs ! (cix - 1)) then cm\<lparr>reference_context_item := None\<rparr> else cm"
    have "first < cix" using Suc.hyps(2) by simp
    then have rec: "trim_pre_turn_context_updates env xs first (cix - 1) ?cm = (k, cm')"
      using True Suc.prems(1) unfolding trim_step [of env xs first cix] by simp
    have IH: "first \<le> k \<and> k \<le> cix - 1 \<and> list_all (context_update env) (drop k (take (cix - 1) xs)) \<and>
      (k = first \<or> \<not> context_update env (xs ! (k - 1))) \<and>
      cm' = ?cm\<lparr>reference_context_item :=
        (if list_ex mixed_bundle (drop k (take (cix - 1) xs)) then None else reference_context_item ?cm)\<rparr>"
      using Suc.hyps(2) Suc.prems by (intro Suc.hyps(1) [OF _ rec]) auto
    have "take cix xs = take (cix - 1) xs @ [xs ! (cix - 1)]"
      using Suc.hyps(2) Suc.prems(3) take_Suc_conv_app_nth [of "cix - 1" xs] by simp
    moreover have "length (take (cix - 1) xs) = cix - 1"
      using Suc.prems(3) by simp
    ultimately have "drop k (take cix xs) = drop k (take (cix - 1) xs) @ [xs ! (cix - 1)]"
      using IH by simp
    with IH True show ?thesis by auto
  qed
qed

section \<open>Rolling back\<close>

lemma turns_append [simp]: "turns env (xs @ ys) = turns env xs + turns env ys"
  by (simp add: turns_def)

lemma first_turn:
  assumes "f < length xs" and "is_user_turn_boundary env (xs ! f)" and "turns env (take f xs) = 0"
  shows "takeWhile (\<lambda>x. \<not> is_user_turn_boundary env x) xs = take f xs"
proof -
  have "\<forall>x\<in>set (take f xs). \<not> is_user_turn_boundary env x"
    using assms(3) by (simp add: turns_def filter_empty_conv)
  then have "takeWhile (\<lambda>x. \<not> is_user_turn_boundary env x) (take f xs @ drop f xs) =
    take f xs @ takeWhile (\<lambda>x. \<not> is_user_turn_boundary env x) (drop f xs)"
    by (intro takeWhile_append2) blast
  moreover have "drop f xs = xs ! f # drop (Suc f) xs"
    using assms(1) by (simp add: Cons_nth_drop_Suc)
  ultimately show ?thesis
    using assms(2) append_take_drop_id [of f xs] by (metis append_Nil2 takeWhile.simps(2))
qed

lemma context_update_no_turn: "context_update env x \<Longrightarrow> \<not> is_user_turn_boundary env x"
  by (cases x) auto

lemma rollback_cut:
  assumes "0 < n" and "0 < turns env xs"
  obtains first cix where "user_message_positions env xs = first # tl (user_message_positions env xs)"
    and "(if n \<ge> length (user_message_positions env xs) then first
          else user_message_positions env xs ! (length (user_message_positions env xs) - n)) = cix"
    and "first \<le> cix" and "cix < length xs" and "is_user_turn_boundary env (xs ! cix)"
    and "turns env (take cix xs) = turns env xs - n"
    and "takeWhile (\<lambda>x. \<not> is_user_turn_boundary env x) xs = take first xs"
proof -
  define ps where "ps = user_message_positions env xs"
  define j where "j = turns env xs - n"
  have len: "length ps = turns env xs"
    by (simp add: ps_def length_user_message_positions)
  have ps: "ps = ps ! 0 # tl ps"
    using len assms(2) by (cases ps) auto
  have pos: "ps ! i < length xs \<and> is_user_turn_boundary env (xs ! (ps ! i)) \<and> turns env (take (ps ! i) xs) = i"
    if "i < turns env xs" for i
    using nth_user_message_positions [OF that] by (simp add: ps_def)
  have j: "j < turns env xs" using assms by (simp add: j_def)
  have order: "ps ! 0 \<le> ps ! j"
  proof (rule ccontr)
    assume "\<not> ps ! 0 \<le> ps ! j"
    then have before: "ps ! j < ps ! 0" by simp
    then have "xs ! (ps ! j) \<in> set (take (ps ! 0) xs)"
      using pos [OF j] pos [OF assms(2)] by (metis in_set_conv_nth length_take min.absorb4 nth_take)
    then show False
      using pos [OF j] pos [OF assms(2)] by (auto simp: turns_def filter_empty_conv)
  qed
  have choice: "(if n \<ge> length ps then ps ! 0 else ps ! (length ps - n)) = ps ! j"
    by (simp add: len j_def)
  have before: "takeWhile (\<lambda>x. \<not> is_user_turn_boundary env x) xs = take (ps ! 0) xs"
    using pos [OF assms(2)] by (intro first_turn) auto
  from pos [OF j] have "ps ! j < length xs" "is_user_turn_boundary env (xs ! (ps ! j))"
    "turns env (take (ps ! j) xs) = turns env xs - n"
    by (simp_all add: j_def)
  then show ?thesis
    by (rule that [of "ps ! 0" "ps ! j", folded ps_def, OF ps choice order _ _ _ before])
qed

lemma rollback_parts:
  assumes "first \<le> k" and "k \<le> cix" and "cix < length xs" and "list_all (context_update env) (drop k (take cix xs))"
    and "k = first \<or> \<not> context_update env (xs ! (k - 1))" and "is_user_turn_boundary env (xs ! cix)"
    and "turns env (take cix xs) = turns env xs - n"
  shows "xs = take k xs @ drop k (take cix xs) @ drop cix xs" and "is_user_turn_boundary env (hd (drop cix xs))"
    and "turns env (drop cix xs) = min n (turns env xs)" and "turns env (take k xs) = turns env xs - n"
    and "prefix (take first xs) (take k xs)"
    and "take k xs = take first xs \<or> \<not> context_update env (List.last (take k xs))"
proof -
  have parts: "take cix xs = take k xs @ drop k (take cix xs)"
    using assms(2) append_take_drop_id [of k "take cix xs"] by (simp add: min.absorb1)
  show "xs = take k xs @ drop k (take cix xs) @ drop cix xs"
    using parts append_take_drop_id [of cix xs] by (metis append.assoc)
  show "is_user_turn_boundary env (hd (drop cix xs))"
    using assms(3,6) by (simp add: hd_drop_conv_nth)
  show "turns env (drop cix xs) = min n (turns env xs)"
    using assms(7) turns_append [of env "take cix xs" "drop cix xs"] by simp
  have "turns env (drop k (take cix xs)) = 0"
    using assms(4) by (auto simp: turns_def filter_empty_conv list_all_iff dest: context_update_no_turn)
  then show "turns env (take k xs) = turns env xs - n"
    using assms(7) turns_append [of env "take k xs" "drop k (take cix xs)"] parts by simp
  show "prefix (take first xs) (take k xs)"
    using assms(1) by (metis min.absorb1 take_is_prefix take_take)
  show "take k xs = take first xs \<or> \<not> context_update env (List.last (take k xs))"
  proof (cases "k = first")
    case False
    then have "take k xs \<noteq> []" and "0 < k"
      using assms(1-3) by auto
    from last_conv_nth [OF this(1)] this(2) have "List.last (take k xs) = xs ! (k - 1)"
      using assms(2,3) by (simp add: min.absorb1)
    with False assms(5) show ?thesis by simp
  qed simp
qed

text \<open>
  Rolling back \<open>n\<close> turns splits the history into what stays, context updates, and a rest that starts
  with a turn and holds the last \<open>n\<close> turns (all of them, if there are fewer). What stays includes everything
  before the first turn and does not end in a context update unless it is just that; the reference
  context is forgotten exactly when a trimmed update also carried lasting developer text; the version
  goes up and the world state baseline is cleared, even when there is no turn to drop.
\<close>

theorem rollback_exact:
  assumes "0 < n"
  shows "\<exists>updates dropped.
    items cm = items (drop_last_n_user_turns env n cm) @ updates @ dropped \<and>
    list_all (context_update env) updates \<and>
    (dropped = [] \<or> is_user_turn_boundary env (hd dropped)) \<and>
    turns env dropped = min n (turns env (items cm)) \<and>
    turns env (items (drop_last_n_user_turns env n cm)) = turns env (items cm) - n \<and>
    prefix (takeWhile (\<lambda>x. \<not> is_user_turn_boundary env x) (items cm)) (items (drop_last_n_user_turns env n cm)) \<and>
    (items (drop_last_n_user_turns env n cm) = takeWhile (\<lambda>x. \<not> is_user_turn_boundary env x) (items cm) \<or>
     \<not> context_update env (List.last (items (drop_last_n_user_turns env n cm)))) \<and>
    drop_last_n_user_turns env n cm =
      cm\<lparr>items := items (drop_last_n_user_turns env n cm),
         history_version := min u64_max (history_version cm + 1),
         reference_context_item := (if list_ex mixed_bundle updates then None else reference_context_item cm),
         world_state_baseline := None\<rparr>"
proof (cases "turns env (items cm) = 0")
  case True
  then have "user_message_positions env (items cm) = []"
    using length_user_message_positions [of env "items cm"] by simp
  then have "drop_last_n_user_turns env n cm = replace (items cm) cm"
    using assms by (simp add: drop_last_n_user_turns_def)
  moreover have all: "takeWhile (\<lambda>x. \<not> is_user_turn_boundary env x) (items cm) = items cm"
    using True by (simp add: turns_def takeWhile_eq_all_conv filter_empty_conv)
  ultimately show ?thesis
    using True by (intro exI [of _ "[]"]) (simp add: all replace_def, simp add: turns_def)
next
  case False
  define xs where "xs = items cm"
  obtain first cix where cut: "user_message_positions env xs = first # tl (user_message_positions env xs)"
      "(if n \<ge> length (user_message_positions env xs) then first
        else user_message_positions env xs ! (length (user_message_positions env xs) - n)) = cix"
      "first \<le> cix" "cix < length xs" "is_user_turn_boundary env (xs ! cix)"
      "turns env (take cix xs) = turns env xs - n"
      "takeWhile (\<lambda>x. \<not> is_user_turn_boundary env x) xs = take first xs"
    using rollback_cut [of n env xs] assms False unfolding xs_def by blast
  obtain k cm1 where trim: "trim_pre_turn_context_updates env xs first cix cm = (k, cm1)"
    by (cases "trim_pre_turn_context_updates env xs first cix cm")
  from trim_exact [OF trim cut(3)] cut(4)
  have k: "first \<le> k" "k \<le> cix" "list_all (context_update env) (drop k (take cix xs))"
      "k = first \<or> \<not> context_update env (xs ! (k - 1))"
      "cm1 = cm\<lparr>reference_context_item :=
        (if list_ex mixed_bundle (drop k (take cix xs)) then None else reference_context_item cm)\<rparr>"
    by simp_all
  have result: "drop_last_n_user_turns env n cm = replace (take k xs) cm1"
    unfolding drop_last_n_user_turns_def xs_def [symmetric] Let_def
    by (subst cut(1)) (use assms cut(2) trim in simp)
  then have kept: "items (drop_last_n_user_turns env n cm) = take k xs"
    by (simp add: replace_def)
  note parts = rollback_parts [OF k(1,2) cut(4) k(3,4) cut(5,6)]
  have "replace (take k xs) cm1 =
      cm\<lparr>items := take k xs, history_version := min u64_max (history_version cm + 1),
         reference_context_item := (if list_ex mixed_bundle (drop k (take cix xs)) then None else reference_context_item cm),
         world_state_baseline := None\<rparr>"
    by (simp add: replace_def k(5))
  with parts k(3) show ?thesis
    unfolding kept cut(7) [unfolded xs_def] xs_def [symmetric] result
    by (intro exI [of _ "drop k (take cix xs)"] exI [of _ "drop cix xs"] conjI) (simp_all add: cut(7))
qed

definition sample_env :: "unit history_env" where
  "sample_env = \<lparr>debug_assertions = True, uuid_v5 = id, json_len = (\<lambda>_. Some 1), decoded_image_size = (\<lambda>_. None),
     audio_token_count = (\<lambda>_. 0), is_inter_agent_message = (\<lambda>_. False),
     is_contextual_user_fragment = (\<lambda>_. False), times_1_2 = id\<rparr>"

theorem rollback_exact_witness:
  "items (drop_last_n_user_turns sample_env 1 sample_history) =
     [FunctionCall None (lit ''shell'') None [] (lit ''c1'') None,
      FunctionCallOutput None (lit ''c1'') (payload_from_text (lit ''ok'')) None] \<and>
   turns sample_env (items (drop_last_n_user_turns sample_env 1 sample_history)) = turns sample_env (items sample_history) - 1"
proof
  show "turns sample_env (items (drop_last_n_user_turns sample_env 1 sample_history)) = turns sample_env (items sample_history) - 1"
    using rollback_exact [of 1 sample_history sample_env] by auto
qed (simp add: sample_history_def sample_env_def drop_last_n_user_turns_def user_message_positions_def
      is_contextual_user_message_content_def trim_step replace_def)

section \<open>Token estimates\<close>

lemma approx_tokens_nonneg: "0 \<le> approx_tokens_from_byte_count_i64 b \<and> approx_tokens_from_byte_count_i64 b \<le> i64_max"
  by (simp add: approx_tokens_from_byte_count_i64_def i64_max_def)

lemma saturating_sum:
  assumes "0 \<le> a" and "a \<le> i64_max" and "\<forall>x\<in>set xs. 0 \<le> x"
  shows "foldl i64_saturating_add a xs = min i64_max (a + sum_list xs)"
  using assms
proof (induction xs arbitrary: a)
  case Nil
  then show ?case by simp
next
  case (Cons x xs)
  have step: "i64_saturating_add a x = min i64_max (a + x)"
    using Cons.prems by (auto simp: i64_saturating_add_def sat64_def i64_min_def)
  have "foldl i64_saturating_add (min i64_max (a + x)) xs = min i64_max (min i64_max (a + x) + sum_list xs)"
    using Cons.prems by (intro Cons.IH) auto
  moreover have "0 \<le> sum_list xs"
    using Cons.prems by (intro sum_list_nonneg) auto
  ultimately show ?case
    by (auto simp: step min_def)
qed

text \<open>
  The estimate of a history is never negative and is the exact sum of the estimates of its items,
  capped at the largest \<open>i64\<close>; it never shrinks when items are appended.
\<close>

theorem token_estimate_is_capped_sum:
  "estimate_items_token_count env xs = min i64_max (\<Sum>x\<leftarrow>xs. estimate_item_token_count env x) \<and>
   0 \<le> estimate_items_token_count env xs \<and>
   estimate_items_token_count env xs \<le> estimate_items_token_count env (xs @ ys)"
proof -
  have sum: "estimate_items_token_count env zs = min i64_max (\<Sum>x\<leftarrow>zs. estimate_item_token_count env x)" for zs
    unfolding estimate_items_token_count_def
    by (subst saturating_sum) (auto simp: estimate_item_token_count_def approx_tokens_nonneg i64_max_def)
  have nonneg: "0 \<le> (\<Sum>x\<leftarrow>zs. estimate_item_token_count env x)" for zs
    by (intro sum_list_nonneg) (auto simp: estimate_item_token_count_def approx_tokens_nonneg)
  show ?thesis
    using nonneg [of xs] nonneg [of ys] by (simp add: sum) (simp add: i64_max_def)
qed

end
