(* ===== verification/Recorded_Outputs.thy ===== *)
theory Recorded_Outputs
  imports Rollback
begin

text \<open>
  What is recorded in the history, with the truncation of tool outputs: recording is total, only appends, and bounds the text of
  tool outputs (\<open>record_items\<close> and \<open>process_item\<close> of \<open>core/src/context_manager/history.rs\<close> with \<open>utils/output-truncation\<close>).
\<close>

section \<open>Tool outputs in the history\<close>

text \<open>The texts of a tool output, and an item without what its output says.\<close>

fun output_payload_of :: "'j response_item \<Rightarrow> output_payload option" where
  "output_payload_of (FunctionCallOutput _ _ payload _) = Some payload"
| "output_payload_of (CustomToolCallOutput _ _ _ payload _) = Some payload"
| "output_payload_of _ = None"

definition output_texts :: "'j response_item \<Rightarrow> ustr list" where
  "output_texts x =
     (case output_payload_of x of
        None \<Rightarrow> []
      | Some payload \<Rightarrow>
          (case payload_body payload of BodyText t \<Rightarrow> [t] | BodyContentItems cs \<Rightarrow> List.map_filter text_segment cs))"

definition text_within :: "nat \<Rightarrow> 'j response_item \<Rightarrow> bool" where
  "text_within n x \<longleftrightarrow>
     (case output_payload_of x of
        None \<Rightarrow> True
      | Some payload \<Rightarrow> (case payload_body payload of BodyText t \<Rightarrow> byte_len t \<le> n | BodyContentItems _ \<Rightarrow> True))"

fun outline :: "'j response_item \<Rightarrow> 'j response_item" where
  "outline (FunctionCallOutput iid c payload md) = FunctionCallOutput iid c (payload\<lparr>payload_body := BodyText []\<rparr>) md"
| "outline (CustomToolCallOutput iid c n payload md) =
     CustomToolCallOutput iid c n (payload\<lparr>payload_body := BodyText []\<rparr>) md"
| "outline x = x"

lemma outline_slots [simp]:
  "call_slot (outline x) = call_slot x" "output_slot (outline x) = output_slot x" "from_server (outline x) = from_server x"
  by (cases x; simp)+

lemma paired_outline: "paired (map outline xs) \<longleftrightarrow> paired xs"
  by (auto simp: paired_iff)

lemma truncate_text_bound:
  assumes "byte_len t \<le> isize_max"
  shows "\<exists>r. truncate_text t policy = Some r \<and> byte_len r \<le> byte_budget policy + 43"
proof (cases policy)
  case (Bytes n)
  with truncate_bound [OF assms, of n False] show ?thesis
    by (auto simp: truncate_middle_chars_def)
next
  case (Tokens n)
  obtain r where r: "truncate_with_byte_estimate t (approx_bytes_for_tokens n) True = Some r"
      "byte_len r \<le> approx_bytes_for_tokens n + 43"
    using truncate_bound [OF assms, of "approx_bytes_for_tokens n" True] by blast
  have "truncate_text t (Tokens n) =
      Some (if t = [] then [] else if n > 0 \<and> byte_len t \<le> approx_bytes_for_tokens n then t else r)"
    by (simp add: truncate_middle_with_token_budget_def r(1))
  moreover have "byte_len (if t = [] then [] else if n > 0 \<and> byte_len t \<le> approx_bytes_for_tokens n then t else r)
      \<le> byte_budget (Tokens n) + 43"
    using r(2) by simp
  ultimately show ?thesis unfolding Tokens by blast
qed

lemma truncate_payload_ok:
  assumes "\<forall>t\<in>set (case payload_body payload of BodyText t \<Rightarrow> [t]
                   | BodyContentItems cs \<Rightarrow> List.map_filter text_segment cs). byte_len t \<le> isize_max"
  shows "\<exists>p. truncate_function_output_payload env payload policy = Some p \<and> payload_success p = payload_success payload \<and>
    (case payload_body p of BodyText t \<Rightarrow> byte_len t \<le> byte_budget policy + 43 | BodyContentItems _ \<Rightarrow> True)"
proof (cases "payload_body payload")
  case (BodyText t)
  with assms truncate_text_bound [of t policy] show ?thesis
    by (auto simp: truncate_function_output_payload_def)
next
  case (BodyContentItems cs)
  with assms truncate_items_ok [of cs "audio_token_count env" policy] show ?thesis
    by (fastforce simp: truncate_function_output_payload_def truncate_function_output_items_with_policy_def)
qed

lemma process_item_ok:
  assumes "\<forall>t\<in>set (output_texts x). byte_len t \<le> isize_max"
  shows "\<exists>y. process_item env x policy = Some y \<and> outline y = outline x \<and>
    text_within (byte_budget (times_1_2 env policy) + 43) y"
proof (cases "output_payload_of x")
  case None
  then show ?thesis by (cases x) (auto simp: text_within_def)
next
  case (Some payload)
  with assms truncate_payload_ok [of payload env "times_1_2 env policy"] show ?thesis
    by (cases x) (auto simp: output_texts_def text_within_def)
qed

lemma record_items_ok:
  assumes "\<forall>x\<in>set xs. \<forall>t\<in>set (output_texts x). byte_len t \<le> isize_max"
  shows "\<exists>recorded. record_items env xs policy cm = Some (cm\<lparr>items := items cm @ recorded\<rparr>) \<and>
    map outline recorded = map outline (filter is_api_message xs) \<and>
    list_all (text_within (byte_budget (times_1_2 env policy) + 43)) recorded"
  using assms
proof (induction xs arbitrary: cm)
  case Nil
  then show ?case by simp
next
  case (Cons x xs)
  show ?case
  proof (cases "is_api_message x")
    case False
    with Cons show ?thesis by simp
  next
    case True
    from Cons.prems obtain y where y: "process_item env x policy = Some y" "outline y = outline x"
        "text_within (byte_budget (times_1_2 env policy) + 43) y"
      using process_item_ok [of x env policy] by auto
    from Cons.prems Cons.IH [of "cm\<lparr>items := items cm @ [y]\<rparr>"] obtain recorded where
      "record_items env xs policy (cm\<lparr>items := items cm @ [y]\<rparr>) = Some (cm\<lparr>items := items cm @ y # recorded\<rparr>)"
      "map outline recorded = map outline (filter is_api_message xs)"
      "list_all (text_within (byte_budget (times_1_2 env policy) + 43)) recorded"
      by auto
    with y True show ?thesis by (intro exI [of _ "y # recorded"]) simp
  qed
qed

text \<open>
  Recording items never panics and only appends: each item for the model is recorded in order, system
  messages, compaction triggers and unknown items are left out, and all that recording changes of an item is the
  body of a tool output, whose text is cut to the budget and a marker of at most 43 bytes. So the
  recorded history pairs calls and outputs exactly if the items themselves did.
\<close>

theorem recording_bounds_outputs:
  assumes "\<forall>x\<in>set xs. \<forall>t\<in>set (output_texts x). byte_len t \<le> isize_max"
  shows "\<exists>recorded. record_items env xs policy cm = Some (cm\<lparr>items := items cm @ recorded\<rparr>) \<and>
    map outline recorded = map outline (filter is_api_message xs) \<and>
    list_all (text_within (byte_budget (times_1_2 env policy) + 43)) recorded \<and>
    (paired (items cm @ recorded) \<longleftrightarrow> paired (items cm @ filter is_api_message xs))"
proof -
  obtain recorded where r: "record_items env xs policy cm = Some (cm\<lparr>items := items cm @ recorded\<rparr>)"
      "map outline recorded = map outline (filter is_api_message xs)"
      "list_all (text_within (byte_budget (times_1_2 env policy) + 43)) recorded"
    using record_items_ok [OF assms] by blast
  then have "paired (items cm @ recorded) \<longleftrightarrow> paired (items cm @ filter is_api_message xs)"
    using paired_outline [of "items cm @ recorded"] paired_outline [of "items cm @ filter is_api_message xs"] by simp
  with r show ?thesis by blast
qed

theorem recording_bounds_outputs_witness:
  "\<exists>recorded. record_items sample_env [FunctionCallOutput None (lit ''c2'') (payload_from_text (lit ''ok'')) None, OtherItem]
     (Bytes 1) sample_history = Some (sample_history\<lparr>items := items sample_history @ recorded\<rparr>) \<and>
   length recorded = 1"
proof -
  let ?xs = "[FunctionCallOutput None (lit ''c2'') (payload_from_text (lit ''ok'')) None, OtherItem] :: unit response_item list"
  have "\<forall>x\<in>set ?xs. \<forall>t\<in>set (output_texts x). byte_len t \<le> isize_max"
    by (simp add: output_texts_def payload_from_text_def isize_max_def len_utf8_def)
  from recording_bounds_outputs [OF this, of sample_env "Bytes 1" sample_history] obtain recorded where
    r: "record_items sample_env ?xs (Bytes 1) sample_history = Some (sample_history\<lparr>items := items sample_history @ recorded\<rparr>)"
    "map outline recorded = map outline (filter is_api_message ?xs)" by blast
  from r(2) have "length recorded = length (filter is_api_message ?xs)" by (rule map_eq_imp_length_eq)
  with r(1) show ?thesis by (intro exI [of _ recorded]) simp
qed

end
