(* ===== verification/Compaction.thy ===== *)
theory Compaction
  imports Recorded_Outputs
begin

text \<open>
  User messages of a history (\<open>core/src/event_mapping.rs\<close>) and the histories that compaction builds from them
  (\<open>core/src/compact.rs\<close>). The last messages of the user are kept up to a budget of tokens, the oldest of them cut if need be,
  and a summary follows.
\<close>

section \<open>User messages\<close>

definition IMAGE_OPEN_TAG :: ustr where "IMAGE_OPEN_TAG = lit ''<image>''"
definition IMAGE_CLOSE_TAG :: ustr where "IMAGE_CLOSE_TAG = lit ''</image>''"
definition LOCAL_IMAGE_OPEN_TAG_PREFIX :: ustr where "LOCAL_IMAGE_OPEN_TAG_PREFIX = lit ''<image name=''"
definition AUDIO_OPEN_TAG :: ustr where "AUDIO_OPEN_TAG = lit ''<audio>''"
definition AUDIO_CLOSE_TAG :: ustr where "AUDIO_CLOSE_TAG = lit ''</audio>''"
definition LOCAL_AUDIO_OPEN_TAG_PREFIX :: ustr where "LOCAL_AUDIO_OPEN_TAG_PREFIX = lit ''<audio name=''"

definition is_local_open_tag_text :: "ustr \<Rightarrow> ustr \<Rightarrow> bool" where
  "is_local_open_tag_text open_prefix t \<longleftrightarrow>
     (case strip_prefix open_prefix t of Some rest \<Rightarrow> ends_with (lit ''>'') rest | None \<Rightarrow> False)"

definition is_local_image_open_tag_text :: "ustr \<Rightarrow> bool" where
  "is_local_image_open_tag_text t \<longleftrightarrow> is_local_open_tag_text LOCAL_IMAGE_OPEN_TAG_PREFIX t"

definition is_local_audio_open_tag_text :: "ustr \<Rightarrow> bool" where
  "is_local_audio_open_tag_text t \<longleftrightarrow> is_local_open_tag_text LOCAL_AUDIO_OPEN_TAG_PREFIX t"

fun is_input_image :: "message_content \<Rightarrow> bool" where
  "is_input_image (MessageInputImage _ _) \<longleftrightarrow> True"
| "is_input_image _ \<longleftrightarrow> False"

fun is_input_audio :: "message_content \<Rightarrow> bool" where
  "is_input_audio (MessageInputAudio _) \<longleftrightarrow> True"
| "is_input_audio _ \<longleftrightarrow> False"

text \<open>A label next to an image or audio item: an opening tag before it, or a closing tag after it.\<close>

definition is_media_label ::
  "(message_content \<Rightarrow> bool) \<Rightarrow> (ustr \<Rightarrow> bool) \<Rightarrow> (ustr \<Rightarrow> bool) \<Rightarrow> message_content list \<Rightarrow> nat \<Rightarrow> ustr \<Rightarrow> bool" where
  "is_media_label is_media is_open is_close message idx t \<longleftrightarrow>
     is_open t \<and> idx + 1 < length message \<and> is_media (message ! (idx + 1)) \<or>
     idx > 0 \<and> is_close t \<and> is_media (message ! (idx - 1))"

datatype user_input = UserText ustr | UserImage ustr "image_detail option" | UserAudio ustr

definition user_input_of :: "message_content list \<Rightarrow> nat \<Rightarrow> user_input option" where
  "user_input_of message idx =
     (case message ! idx of
        MessageInputText t \<Rightarrow>
          if is_media_label is_input_image (\<lambda>t. is_local_image_open_tag_text t \<or> t = IMAGE_OPEN_TAG) (\<lambda>t. t = IMAGE_CLOSE_TAG)
               message idx t \<or>
             is_media_label is_input_audio (\<lambda>t. is_local_audio_open_tag_text t \<or> t = AUDIO_OPEN_TAG) (\<lambda>t. t = AUDIO_CLOSE_TAG)
               message idx t
          then None else Some (UserText t)
      | MessageInputImage url detail \<Rightarrow> Some (UserImage url detail)
      | MessageInputAudio url \<Rightarrow> Some (UserAudio url)
      | MessageOutputText _ \<Rightarrow> None)"

definition parse_user_message :: "'j history_env \<Rightarrow> message_content list \<Rightarrow> user_input list option" where
  "parse_user_message env message =
     (if is_contextual_user_message_content env message then None
      else Some (List.map_filter (user_input_of message) [0..<length message]))"

text \<open>
  \<open>parse_turn_item\<close>, as far as it gives a user message. A message that parses as a hook prompt has only contextual fragments, at least one of
  them, and so is no user message either way.
\<close>

fun parse_user_turn_item :: "'j history_env \<Rightarrow> 'j response_item \<Rightarrow> user_input list option" where
  "parse_user_turn_item env (Message _ role content _ _) =
     (if role = lit ''user'' then parse_user_message env content else None)"
| "parse_user_turn_item env _ = None"

fun user_input_text :: "user_input \<Rightarrow> ustr" where
  "user_input_text (UserText t) = t"
| "user_input_text _ = []"

definition user_message_text :: "user_input list \<Rightarrow> ustr" where
  "user_message_text content = concat (map user_input_text content)"

section \<open>Compacted histories\<close>

definition SUMMARY_PREFIX :: ustr where
  "SUMMARY_PREFIX = lit ''Another language model started to solve this problem and produced a summary of its thinking process. You also have access to the state of the tools that were used by that language model. Use this to build on the work that has already been done and avoid duplicating work. Here is the summary produced by the other language model, use the information in this summary to assist with your own analysis:''"

definition COMPACT_USER_MESSAGE_MAX_TOKENS :: nat where
  "COMPACT_USER_MESSAGE_MAX_TOKENS = 20000"

definition is_summary_message :: "ustr \<Rightarrow> bool" where
  "is_summary_message message \<longleftrightarrow> prefix (SUMMARY_PREFIX @ [newline]) message"

definition content_items_to_text :: "message_content list \<Rightarrow> ustr option" where
  "content_items_to_text content =
     (let pieces = List.map_filter (\<lambda>c. case c of
            MessageInputText t \<Rightarrow> if t \<noteq> [] then Some t else None
          | MessageOutputText t \<Rightarrow> if t \<noteq> [] then Some t else None
          | _ \<Rightarrow> None) content
      in if pieces = [] then None else Some (join [newline] pieces))"

record 'j compacted_user_message =
  user_text :: ustr
  user_metadata :: "'j option"

fun message_metadata :: "'j response_item \<Rightarrow> 'j option" where
  "message_metadata (Message _ _ _ _ md) = md"
| "message_metadata _ = None"

definition collected_user_message :: "'j history_env \<Rightarrow> 'j response_item \<Rightarrow> 'j compacted_user_message option" where
  "collected_user_message env item =
     (case parse_user_turn_item env item of
        None \<Rightarrow> None
      | Some user \<Rightarrow>
          if is_summary_message (user_message_text user) then None
          else Some \<lparr>user_text = user_message_text user, user_metadata = message_metadata item\<rparr>)"

definition collect_user_messages :: "'j history_env \<Rightarrow> 'j response_item list \<Rightarrow> 'j compacted_user_message list" where
  "collect_user_messages env history = List.map_filter (collected_user_message env) history"

text \<open>The loop over the messages, newest first, with the remaining tokens; the selected messages come out oldest first.\<close>

fun select_messages :: "nat \<Rightarrow> 'j compacted_user_message list \<Rightarrow> 'j compacted_user_message list option" where
  "select_messages remaining [] = Some []"
| "select_messages remaining (m # older) =
     (if remaining = 0 then Some []
      else let tokens = approx_token_count (user_text m)
           in if tokens \<le> remaining then map_option (\<lambda>ms. ms @ [m]) (select_messages (remaining - tokens) older)
              else map_option (\<lambda>t. [m\<lparr>user_text := t\<rparr>]) (truncate_text (user_text m) (Tokens remaining)))"

definition user_message_item :: "ustr \<Rightarrow> 'j option \<Rightarrow> 'j response_item" where
  "user_message_item t md = Message None (lit ''user'') [MessageInputText t] None md"

definition build_compacted_history_with_limit ::
  "'j response_item list \<Rightarrow> 'j compacted_user_message list \<Rightarrow> ustr \<Rightarrow> nat \<Rightarrow> 'j response_item list option" where
  "build_compacted_history_with_limit history user_messages summary_text max_tokens =
     map_option (\<lambda>selected.
         history @ map (\<lambda>m. user_message_item (user_text m) (user_metadata m)) selected @
         [user_message_item (if summary_text = [] then lit ''(no summary available)'' else summary_text) None])
       (select_messages max_tokens (rev user_messages))"

definition build_compacted_history ::
  "'j response_item list \<Rightarrow> 'j compacted_user_message list \<Rightarrow> ustr \<Rightarrow> 'j response_item list option" where
  "build_compacted_history initial_context user_messages summary_text =
     build_compacted_history_with_limit initial_context user_messages summary_text COMPACT_USER_MESSAGE_MAX_TOKENS"

fun is_compaction_item :: "'j response_item \<Rightarrow> bool" where
  "is_compaction_item (Compaction _ _ _) \<longleftrightarrow> True"
| "is_compaction_item (ContextCompaction _ _ _) \<longleftrightarrow> True"
| "is_compaction_item _ \<longleftrightarrow> False"

definition or_else :: "'a option \<Rightarrow> 'a option \<Rightarrow> 'a option" where
  "or_else a b = (case a of Some x \<Rightarrow> Some x | None \<Rightarrow> b)"

definition insert_initial_context_before_last_real_user_or_summary ::
  "'j history_env \<Rightarrow> 'j response_item list \<Rightarrow> 'j response_item list \<Rightarrow> 'j response_item list" where
  "insert_initial_context_before_last_real_user_or_summary env compacted_history initial_context =
     (let last_real_user = rposition (\<lambda>x. case parse_user_turn_item env x of
            Some user \<Rightarrow> \<not> is_summary_message (user_message_text user) | None \<Rightarrow> False) compacted_history;
          last_user_or_summary = rposition (\<lambda>x. parse_user_turn_item env x \<noteq> None) compacted_history;
          last_compaction = rposition is_compaction_item compacted_history
      in case or_else last_real_user (or_else last_user_or_summary last_compaction) of
           Some i \<Rightarrow> take i compacted_history @ initial_context @ drop i compacted_history
         | None \<Rightarrow> compacted_history @ initial_context)"

section \<open>What compaction keeps\<close>

definition user_bounded :: "'j history_env \<Rightarrow> 'j response_item \<Rightarrow> bool" where
  "user_bounded env x \<longleftrightarrow> pred_option (\<lambda>user. byte_len (user_message_text user) \<le> isize_max) (parse_user_turn_item env x)"

definition kept_tokens :: "'j compacted_user_message list \<Rightarrow> nat" where
  "kept_tokens ms = (\<Sum>m\<leftarrow>ms. approx_token_count (user_text m))"

text \<open>The cut form of a message, within a byte budget for the remaining tokens.\<close>

definition cut_message :: "nat \<Rightarrow> 'j compacted_user_message \<Rightarrow> 'j compacted_user_message \<Rightarrow> bool" where
  "cut_message remaining m m' \<longleftrightarrow>
     user_metadata m' = user_metadata m \<and> truncate_text (user_text m) (Tokens remaining) = Some (user_text m') \<and>
     byte_len (user_text m') \<le> approx_bytes_for_tokens remaining + 43"

lemma select_messages_exact:
  assumes "\<forall>m\<in>set ms. byte_len (user_text m) \<le> isize_max"
  shows "\<exists>kept whole. select_messages remaining ms = Some (kept @ rev (take whole ms)) \<and> whole \<le> length ms \<and>
    kept_tokens (take whole ms) \<le> remaining \<and>
    (kept = [] \<and> (whole = length ms \<or> kept_tokens (take whole ms) = remaining) \<or>
     (\<exists>m. kept = [m] \<and> whole < length ms \<and> remaining < kept_tokens (take (Suc whole) ms) \<and>
        cut_message (remaining - kept_tokens (take whole ms)) (ms ! whole) m))"
  using assms
proof (induction remaining ms rule: select_messages.induct)
  case (1 remaining)
  then show ?case by (auto simp: kept_tokens_def)
next
  case (2 remaining m older)
  let ?n = "approx_token_count (user_text m)"
  consider "remaining = 0" | "remaining > 0" "?n \<le> remaining" | "remaining > 0" "remaining < ?n" by linarith
  then show ?case
  proof cases
    case 1
    then show ?thesis by (intro exI [of _ "[]"] exI [of _ 0]) (simp add: kept_tokens_def)
  next
    case 2
    have "remaining \<noteq> 0" using 2(1) by simp
    from "2.IH" [OF this refl 2(2)] "2.prems" obtain kept whole where
      sel: "select_messages (remaining - ?n) older = Some (kept @ rev (take whole older))" and
      k: "whole \<le> length older" "kept_tokens (take whole older) \<le> remaining - ?n"
        "kept = [] \<and> (whole = length older \<or> kept_tokens (take whole older) = remaining - ?n) \<or>
         (\<exists>m'. kept = [m'] \<and> whole < length older \<and> remaining - ?n < kept_tokens (take (Suc whole) older) \<and>
            cut_message (remaining - ?n - kept_tokens (take whole older)) (older ! whole) m')"
      by auto
    have tokens: "kept_tokens (take (Suc w) (m # older)) = ?n + kept_tokens (take w older)" for w by (simp add: kept_tokens_def)
    have "select_messages remaining (m # older) = Some (kept @ rev (take (Suc whole) (m # older)))"
      using sel 2 by simp
    moreover have "remaining - ?n - x = remaining - (?n + x)" for x by simp
    ultimately show ?thesis
      using k 2(2)
      by (intro exI [of _ kept] exI [of _ "Suc whole"]) (auto simp: tokens simp del: take_Suc_Cons select_messages.simps)
  next
    case 3
    obtain r where r: "truncate_text (user_text m) (Tokens remaining) = Some r" "byte_len r \<le> approx_bytes_for_tokens remaining + 43"
      using truncate_text_bound [of "user_text m" "Tokens remaining"] "2.prems" by auto
    then show ?thesis
      using 3 by (intro exI [of _ "[m\<lparr>user_text := r\<rparr>]"] exI [of _ 0]) (auto simp: kept_tokens_def cut_message_def)
  qed
qed

text \<open>
  C38: Compaction keeps what the user said last. The compacted history is the given context, then messages of the user, then one with the
  summary. The kept messages are the newest ones, whole and in order, as many as fit into the budget of tokens; if one more does not
  fit and tokens are left, it comes first, cut to the rest of the budget and a marker.
\<close>

theorem compaction_keeps_newest_messages:
  assumes "\<forall>m\<in>set ms. byte_len (user_text m) \<le> isize_max"
  shows "\<exists>older whole cut_one. ms = older @ whole \<and> kept_tokens whole \<le> n \<and>
    build_compacted_history_with_limit initial ms summary n =
      Some (initial @ map (\<lambda>m. user_message_item (user_text m) (user_metadata m)) (cut_one @ whole) @
        [user_message_item (if summary = [] then lit ''(no summary available)'' else summary) None]) \<and>
    (cut_one = [] \<and> (older = [] \<or> kept_tokens whole = n) \<or>
     (\<exists>m. cut_one = [m] \<and> older \<noteq> [] \<and> n < kept_tokens (List.last older # whole) \<and>
        cut_message (n - kept_tokens whole) (List.last older) m))"
proof -
  obtain kept w where sel: "select_messages n (rev ms) = Some (kept @ rev (take w (rev ms)))" and
    k: "w \<le> length ms" "kept_tokens (take w (rev ms)) \<le> n"
      "kept = [] \<and> (w = length ms \<or> kept_tokens (take w (rev ms)) = n) \<or>
       (\<exists>m. kept = [m] \<and> w < length ms \<and> n < kept_tokens (take (Suc w) (rev ms)) \<and>
          cut_message (n - kept_tokens (take w (rev ms))) (rev ms ! w) m)"
    using select_messages_exact [of "rev ms" n] assms by auto
  let ?older = "take (length ms - w) ms" and ?whole = "drop (length ms - w) ms"
  have whole: "rev (take w (rev ms)) = ?whole" by (simp add: take_rev)
  then have tokens: "kept_tokens (take w (rev ms)) = kept_tokens ?whole"
    unfolding kept_tokens_def by (metis rev_map rev_rev_ident sum_list_rev)
  have next_one: "rev ms ! w = List.last ?older" "take (Suc w) (rev ms) = take w (rev ms) @ [List.last ?older]" "?older \<noteq> []"
    if "w < length ms"
  proof -
    show "?older \<noteq> []" using that by auto
    show nth: "rev ms ! w = List.last ?older" using that by (subst last_conv_nth) (auto simp: rev_nth)
    show "take (Suc w) (rev ms) = take w (rev ms) @ [List.last ?older]"
      using that nth by (simp add: take_Suc_conv_app_nth)
  qed
  have more: "kept_tokens (take w (rev ms) @ [x]) = kept_tokens (x # ?whole)" for x
    using tokens by (simp add: kept_tokens_def)
  have "ms = ?older @ ?whole" by simp
  moreover have "build_compacted_history_with_limit initial ms summary n =
      Some (initial @ map (\<lambda>m. user_message_item (user_text m) (user_metadata m)) (kept @ ?whole) @
        [user_message_item (if summary = [] then lit ''(no summary available)'' else summary) None])"
    using sel by (simp add: build_compacted_history_with_limit_def whole)
  moreover have "kept = [] \<and> (?older = [] \<or> kept_tokens ?whole = n) \<or>
     (\<exists>m. kept = [m] \<and> ?older \<noteq> [] \<and> n < kept_tokens (List.last ?older # ?whole) \<and>
        cut_message (n - kept_tokens ?whole) (List.last ?older) m)"
    using k(3) next_one tokens more by auto
  moreover have "kept_tokens ?whole \<le> n" using k(2) tokens by simp
  ultimately show ?thesis by (intro exI [of _ ?older] exI [of _ ?whole] exI [of _ kept] conjI)
qed

lemma build_compacted_history_ok:
  assumes "list_all (user_bounded env) xs" "byte_len message \<le> isize_max"
  shows "\<exists>h. build_compacted_history [] (collect_user_messages env xs) message = Some h \<and> list_all (user_bounded env) h"
proof -
  let ?ms = "collect_user_messages env xs"
  have bounded: "\<forall>m\<in>set ?ms. byte_len (user_text m) \<le> isize_max"
    using assms(1)
    by (auto simp: collect_user_messages_def collected_user_message_def map_filter_def user_bounded_def list_all_iff
        split: option.splits if_splits)
  have item: "user_bounded env (user_message_item t md)" if "byte_len t \<le> isize_max" for t and md :: "'a option"
    using that
    by (auto simp: user_bounded_def user_message_item_def parse_user_message_def user_input_of_def user_message_text_def
        map_filter_def split: message_content.splits)
  obtain kept w where sel: "select_messages COMPACT_USER_MESSAGE_MAX_TOKENS (rev ?ms) = Some (kept @ rev (take w (rev ?ms)))"
      and kept: "kept = [] \<or> (\<exists>m n. kept = [m] \<and> cut_message n (rev ?ms ! w) m \<and> n \<le> COMPACT_USER_MESSAGE_MAX_TOKENS)"
    using select_messages_exact [of "rev ?ms" COMPACT_USER_MESSAGE_MAX_TOKENS] bounded diff_le_self by (metis set_rev)
  have "byte_len (user_text m) \<le> isize_max" if "m \<in> set (kept @ rev (take w (rev ?ms)))" for m
    using that kept bounded in_set_takeD [of m w "rev ?ms"]
    by (auto simp: cut_message_def approx_bytes_for_tokens_def APPROX_BYTES_PER_TOKEN_def COMPACT_USER_MESSAGE_MAX_TOKENS_def isize_max_def saturating_mul_def)
  moreover have "byte_len (lit ''(no summary available)'') \<le> isize_max" by (simp add: isize_max_def len_utf8_def)
  ultimately show ?thesis
    using sel assms(2)
    by (auto simp: build_compacted_history_def build_compacted_history_with_limit_def list_all_iff simp del: lit_Cons intro!: item)
qed

theorem compaction_keeps_newest_messages_witness:
  "\<exists>h. build_compacted_history_with_limit [] [\<lparr>user_text = lit ''first message'', user_metadata = None :: unit option\<rparr>,
       \<lparr>user_text = lit ''last'', user_metadata = None\<rparr>] (lit ''sum'') 1 = Some h \<and>
     drop (length h - 2) h = [user_message_item (lit ''last'') None, user_message_item (lit ''sum'') None]"
proof -
  let ?ms = "[\<lparr>user_text = lit ''first message'', user_metadata = None :: unit option\<rparr>, \<lparr>user_text = lit ''last'', user_metadata = None\<rparr>]"
  have tokens: "approx_token_count (lit ''first message'') = 4" "approx_token_count (lit ''last'') = 1"
    by (simp_all add: approx_token_count_def APPROX_BYTES_PER_TOKEN_def saturating_add_def usize_max_def len_utf8_def)
  have "\<forall>m\<in>set ?ms. byte_len (user_text m) \<le> isize_max" by (simp add: isize_max_def len_utf8_def)
  from compaction_keeps_newest_messages [OF this, of 1 "[]" "lit ''sum''"] obtain older whole cut_one where
    h: "?ms = older @ whole" "kept_tokens whole \<le> 1" "build_compacted_history_with_limit [] ?ms (lit ''sum'') 1 =
      Some ([] @ map (\<lambda>m. user_message_item (user_text m) (user_metadata m)) (cut_one @ whole) @
        [user_message_item (if lit ''sum'' = [] then lit ''(no summary available)'' else lit ''sum'') None])"
      "cut_one = [] \<and> (older = [] \<or> kept_tokens whole = 1) \<or> (\<exists>m. cut_one = [m] \<and> older \<noteq> [] \<and> 1 < kept_tokens (List.last older # whole))"
    by blast
  have sum: "lit ''sum'' \<noteq> []" by simp
  have "length older = 1"
    using h(1,2,4) tokens
    by (cases older; cases "tl older"; cases "tl (tl older)") (auto simp: kept_tokens_def simp del: lit_Cons)
  then have "whole = [\<lparr>user_text = lit ''last'', user_metadata = None\<rparr>]" using h(1) by (cases older) auto
  with h(3) sum show ?thesis by (simp del: lit_Cons)
qed

end
