(* ===== verification/World_State.thy ===== *)
theory World_State
  imports Context_History
begin

text \<open>
  The state of the world that the model has been told (\<open>core/src/context/world_state/mod.rs\<close>): its sections, compact snapshots of them, and the
  merge patches (RFC 7386) that rollouts record between snapshots. A JSON object is the list of its entries sorted by key, as
  in a \<open>BTreeMap\<close>; numbers are of an arbitrary type. What a section serialises to, recognises and renders are functions in its record.
\<close>

section \<open>JSON values\<close>

datatype 'n json =
    JNull
  | JBool bool
  | JNumber 'n
  | JString ustr
  | JArray "'n json list"
  | JObject "(ustr \<times> 'n json) list"

fun remove_null_object_fields :: "'n json \<Rightarrow> 'n json" where
  "remove_null_object_fields (JObject entries) =
     JObject (map (\<lambda>(k, v). (k, remove_null_object_fields v)) (filter (\<lambda>(_, v). v \<noteq> JNull) entries))"
| "remove_null_object_fields v = v"

fun as_object :: "'n json \<Rightarrow> (ustr \<times> 'n json) list option" where
  "as_object (JObject entries) = Some entries"
| "as_object _ = None"

text \<open>The keys of the previous object that the current one lacks are set to null.\<close>

definition deleted_keys :: "(ustr \<times> 'n json) list option \<Rightarrow> (ustr \<times> 'n json) list \<Rightarrow> (ustr \<times> 'n json) list" where
  "deleted_keys previous current =
     (case previous of
        None \<Rightarrow> []
      | Some entries \<Rightarrow>
          foldl (\<lambda>patch k. if map_of current k = None then btree_insert k JNull patch else patch) [] (map fst entries))"

fun create_merge_patch :: "'n json \<Rightarrow> 'n json \<Rightarrow> 'n json option"
  and patch_entries :: "(ustr \<times> 'n json) list option \<Rightarrow> (ustr \<times> 'n json) list \<Rightarrow> (ustr \<times> 'n json) list \<Rightarrow> (ustr \<times> 'n json) list" where
  "create_merge_patch previous (JObject current) =
     (if previous = JObject current then None
      else Some (JObject (patch_entries (as_object previous) current (deleted_keys (as_object previous) current))))"
| "create_merge_patch previous current = (if previous = current then None else Some current)"
| "patch_entries previous [] patch = patch"
| "patch_entries previous ((k, v) # rest) patch =
     patch_entries previous rest
       (case Option.bind previous (\<lambda>entries. map_of entries k) of
          None \<Rightarrow> btree_insert k v patch
        | Some pv \<Rightarrow> (case create_merge_patch pv v of None \<Rightarrow> patch | Some p \<Rightarrow> btree_insert k p patch))"

fun apply_merge_patch_value :: "'n json \<Rightarrow> 'n json \<Rightarrow> 'n json"
  and apply_entries :: "(ustr \<times> 'n json) list \<Rightarrow> (ustr \<times> 'n json) list \<Rightarrow> (ustr \<times> 'n json) list" where
  "apply_merge_patch_value target (JObject patch) =
     JObject (apply_entries (case as_object target of Some entries \<Rightarrow> entries | None \<Rightarrow> []) patch)"
| "apply_merge_patch_value target patch = patch"
| "apply_entries target [] = target"
| "apply_entries target ((k, v) # rest) =
     apply_entries
       (if v = JNull then btree_remove k target
        else btree_insert k (apply_merge_patch_value (case map_of target k of Some old \<Rightarrow> old | None \<Rightarrow> JNull) v) target)
       rest"

text \<open>Objects have sorted keys, at every depth; and no field of an object is null, except inside of arrays, which are replaced as a whole.\<close>

fun json_wf :: "'n json \<Rightarrow> bool" where
  "json_wf (JObject entries) \<longleftrightarrow> btree_wf entries \<and> list_all (\<lambda>(_, v). json_wf v) entries"
| "json_wf (JArray vs) \<longleftrightarrow> list_all json_wf vs"
| "json_wf _ \<longleftrightarrow> True"

fun null_free :: "'n json \<Rightarrow> bool" where
  "null_free (JObject entries) \<longleftrightarrow> list_all (\<lambda>(_, v). v \<noteq> JNull \<and> null_free v) entries"
| "null_free _ \<longleftrightarrow> True"

section \<open>Snapshots\<close>

type_synonym 'n world_state_snapshot = "(ustr \<times> 'n json) list"

definition into_value :: "'n world_state_snapshot \<Rightarrow> 'n json" where
  "into_value snapshot = JObject snapshot"

definition merge_patch_from :: "'n world_state_snapshot \<Rightarrow> 'n world_state_snapshot \<Rightarrow> 'n json option" where
  "merge_patch_from snapshot previous = create_merge_patch (JObject previous) (JObject snapshot)"

text \<open>\<open>from_value\<close> gives a snapshot for an object and an error for anything else.\<close>

definition apply_merge_patch :: "'n json \<Rightarrow> 'n world_state_snapshot \<Rightarrow> 'n world_state_snapshot option" where
  "apply_merge_patch patch snapshot = as_object (apply_merge_patch_value (into_value snapshot) patch)"

section \<open>Sections\<close>

datatype 'v previous_section_state = AbsentSection | UnknownSection | KnownSection 'v

record ('n, 'f) world_state_section =
  section_value :: "'n json option"
  matches_legacy_fragment :: "ustr \<Rightarrow> ustr \<Rightarrow> bool"
  has_retained_fragment_matcher :: bool
  matches_retained_fragment :: "ustr \<Rightarrow> ustr \<Rightarrow> bool"
  section_render_diff :: "'n json previous_section_state \<Rightarrow> 'f option"

type_synonym ('n, 'f) world_state = "(ustr \<times> ('n, 'f) world_state_section) list"

text \<open>A second section with the id of another panics.\<close>

definition add_section :: "ustr \<Rightarrow> ('n, 'f) world_state_section \<Rightarrow> ('n, 'f) world_state \<Rightarrow> ('n, 'f) world_state option" where
  "add_section sid sec ws = (if map_of ws sid \<noteq> None then None else Some (ws @ [(sid, sec)]))"

definition section_snapshot :: "('n, 'f) world_state_section \<Rightarrow> 'n json option" where
  "section_snapshot sec =
     (case section_value sec of
        None \<Rightarrow> None
      | Some v \<Rightarrow> let s = remove_null_object_fields v in if s = JNull then None else Some s)"

definition world_state_snapshot_of :: "('n, 'f) world_state \<Rightarrow> 'n world_state_snapshot" where
  "world_state_snapshot_of ws =
     foldl (\<lambda>m (sid, sec). case section_snapshot sec of None \<Rightarrow> m | Some v \<Rightarrow> btree_insert sid v m) [] ws"

definition render_with ::
  "(ustr \<Rightarrow> ('n, 'f) world_state_section \<Rightarrow> 'n json previous_section_state) \<Rightarrow> ('n, 'f) world_state \<Rightarrow> 'f list" where
  "render_with previous ws = List.map_filter (\<lambda>(sid, sec). section_render_diff sec (previous sid sec)) ws"

definition render_full :: "('n, 'f) world_state \<Rightarrow> 'f list" where
  "render_full = render_with (\<lambda>_ _. AbsentSection)"

definition render_diff :: "'n world_state_snapshot \<Rightarrow> ('n, 'f) world_state \<Rightarrow> 'f list" where
  "render_diff previous = render_with (\<lambda>sid _. case map_of previous sid of Some v \<Rightarrow> KnownSection v | None \<Rightarrow> AbsentSection)"

definition has_fragment :: "(ustr \<Rightarrow> ustr \<Rightarrow> bool) \<Rightarrow> 'j response_item list \<Rightarrow> bool" where
  "has_fragment matches history \<longleftrightarrow>
     list_ex (\<lambda>item.
       case item of
         Message _ role content _ _ \<Rightarrow> list_ex (\<lambda>c. case c of MessageInputText t \<Rightarrow> matches role t | _ \<Rightarrow> False) content
       | _ \<Rightarrow> False) history"

definition has_retained_fragment :: "'j response_item list \<Rightarrow> ('n, 'f) world_state_section \<Rightarrow> bool" where
  "has_retained_fragment history sec \<longleftrightarrow> has_fragment (matches_retained_fragment sec) history"

definition has_legacy_fragment :: "'j response_item list \<Rightarrow> ('n, 'f) world_state_section \<Rightarrow> bool" where
  "has_legacy_fragment history sec \<longleftrightarrow> has_fragment (matches_legacy_fragment sec) history"

definition render_history_diff :: "'n world_state_snapshot option \<Rightarrow> 'j response_item list \<Rightarrow> ('n, 'f) world_state \<Rightarrow> 'f list" where
  "render_history_diff previous history =
     render_with (\<lambda>sid sec.
       case Option.bind previous (\<lambda>p. map_of p sid) of
         Some v \<Rightarrow>
           if has_retained_fragment_matcher sec \<and> \<not> has_retained_fragment history sec then AbsentSection else KnownSection v
       | None \<Rightarrow> if has_legacy_fragment history sec then UnknownSection else AbsentSection)"

section \<open>Rollout records\<close>

record 'n world_state_item =
  item_full :: bool
  item_state :: "'n json"

text \<open>\<open>ContextManager::update_world_state\<close> for a live world state.\<close>

definition update_world_state_with ::
  "('n, 'f) world_state \<Rightarrow> ('j, 'c, 'n world_state_snapshot) context_manager \<Rightarrow>
     ('f list \<times> 'n world_state_item option) \<times> ('j, 'c, 'n world_state_snapshot) context_manager" where
  "update_world_state_with ws cm =
     update_world_state (\<lambda>baseline history. render_history_diff baseline history ws)
       (\<lambda>snapshot. \<lparr>item_full = True, item_state = into_value snapshot\<rparr>)
       (\<lambda>snapshot previous. map_option (\<lambda>p. \<lparr>item_full = False, item_state = p\<rparr>) (merge_patch_from snapshot previous))
       (world_state_snapshot_of ws) cm"

text \<open>One record, replayed on the baseline so far (in \<open>reconstruct_history_from_rollout\<close>).\<close>

definition replay_world_state_item :: "'n world_state_snapshot option \<Rightarrow> 'n world_state_item \<Rightarrow> 'n world_state_snapshot option" where
  "replay_world_state_item baseline item =
     (if item_full item then as_object (item_state item)
      else case baseline of None \<Rightarrow> None | Some b \<Rightarrow> apply_merge_patch (item_state item) b)"

section \<open>Patches\<close>

lemma apply_entries_wf [simp]: "btree_wf target \<Longrightarrow> btree_wf (apply_entries target patch)"
  by (induction patch arbitrary: target) (auto split: prod.splits)

lemma lookup_apply_entries:
  assumes "btree_wf target" "distinct (map fst patch)"
  shows "map_of (apply_entries target patch) k =
    (case map_of patch k of
       None \<Rightarrow> map_of target k
     | Some v \<Rightarrow>
         if v = JNull then None
         else Some (apply_merge_patch_value (case map_of target k of Some old \<Rightarrow> old | None \<Rightarrow> JNull) v))"
  using assms
proof (induction patch arbitrary: target)
  case (Cons e patch)
  obtain k' v where e: "e = (k', v)" by (cases e)
  with Cons.prems have "k = k' \<Longrightarrow> map_of patch k = None" by (auto simp: map_of_eq_None_iff)
  with Cons e show ?case by (auto split: option.split)
qed simp

lemma patch_entries_wf [simp]: "btree_wf patch \<Longrightarrow> btree_wf (patch_entries previous current patch)"
  by (induction current arbitrary: patch) (auto split: prod.splits option.splits)

lemma lookup_patch_entries:
  assumes "distinct (map fst current)"
  shows "map_of (patch_entries previous current patch) k =
    (case map_of current k of
       None \<Rightarrow> map_of patch k
     | Some v \<Rightarrow>
         (case Option.bind previous (\<lambda>entries. map_of entries k) of
            None \<Rightarrow> Some v
          | Some pv \<Rightarrow> (case create_merge_patch pv v of None \<Rightarrow> map_of patch k | Some p \<Rightarrow> Some p)))"
  using assms
proof (induction current arbitrary: patch)
  case (Cons e current)
  obtain k' v where e: "e = (k', v)" by (cases e)
  with Cons.prems have "k = k' \<Longrightarrow> map_of current k = None" by (auto simp: map_of_eq_None_iff)
  with Cons e show ?case by (auto split: option.split)
qed simp

lemma lookup_deletions:
  "map_of (foldl (\<lambda>patch k. if map_of current k = None then btree_insert k JNull patch else patch) patch ks) k =
     (if k \<in> set ks \<and> map_of current k = None then Some JNull else map_of patch k)"
  by (induction ks arbitrary: patch) auto

lemma deletions_wf:
  "btree_wf patch \<Longrightarrow>
     btree_wf (foldl (\<lambda>patch k. if map_of current k = None then btree_insert k JNull patch else patch) patch ks)"
  by (induction ks arbitrary: patch) auto

lemma deleted_keys_wf [simp]: "btree_wf (deleted_keys previous current)"
  by (auto simp: deleted_keys_def deletions_wf split: option.split)

lemma lookup_deleted_keys:
  "map_of (deleted_keys previous current) k =
     (if Option.bind previous (\<lambda>entries. map_of entries k) \<noteq> None \<and> map_of current k = None then Some JNull else None)"
  using map_of_eq_None_iff [of "the previous" k]
  by (cases previous) (simp_all add: deleted_keys_def lookup_deletions)

lemma btree_wf_distinct: "btree_wf m \<Longrightarrow> distinct (map fst m)"
  by (simp add: strict_sorted_iff)

lemma entry_facts:
  assumes "json_wf (JObject entries)" "null_free (JObject entries)" "map_of entries k = Some v"
  shows "(k, v) \<in> set entries" "json_wf v" "null_free v" "v \<noteq> JNull"
  using assms map_of_SomeD [OF assms(3)] by (auto simp: list_all_iff)

text \<open>A patch without nulls, applied to what is not an object, gives itself.\<close>

lemma apply_to_nothing:
  "json_wf v \<Longrightarrow> null_free v \<Longrightarrow> as_object target = None \<Longrightarrow> apply_merge_patch_value target v = v"
proof (induction v arbitrary: target)
  case (JObject entries)
  have wf: "btree_wf entries" using JObject.prems(1) by simp
  have "map_of (apply_entries [] entries) k = map_of entries k" for k
  proof (cases "map_of entries k")
    case (Some v)
    note facts = entry_facts [OF JObject.prems(1,2) Some]
    from facts(1) have "apply_merge_patch_value JNull v = v" by (rule JObject.IH) (use facts in auto)
    with Some facts(4) wf show ?thesis by (simp add: lookup_apply_entries btree_wf_distinct)
  qed (use wf in \<open>simp add: lookup_apply_entries btree_wf_distinct\<close>)
  then have "apply_entries [] entries = entries" using wf by (intro btree_eqI) auto
  then show ?case using JObject.prems(3) by simp
qed auto

lemma patch_not_null: "create_merge_patch pv v = Some p \<Longrightarrow> v \<noteq> JNull \<Longrightarrow> p \<noteq> JNull"
  by (cases v) (auto split: if_splits)

lemma merge_patch_inverse:
  assumes "json_wf previous" "json_wf current" "null_free current"
  shows "case create_merge_patch previous current of
    None \<Rightarrow> current = previous | Some p \<Rightarrow> apply_merge_patch_value previous p = current"
  using assms
proof (induction current arbitrary: previous)
  case (JObject entries)
  let ?prev = "as_object previous" and ?old = "case as_object previous of Some es \<Rightarrow> es | None \<Rightarrow> []"
  let ?patch = "patch_entries ?prev entries (deleted_keys ?prev entries)"
  have wf: "btree_wf entries" using JObject.prems(2) by simp
  have old: "btree_wf ?old" using JObject.prems(1) by (cases previous) auto
  have look: "map_of ?old k = Option.bind ?prev (\<lambda>es. map_of es k)" for k by (cases previous) auto
  have pwf: "json_wf pv" if "map_of ?old k = Some pv" for k pv
    using that JObject.prems(1) by (cases previous) (auto simp: list_all_iff dest!: map_of_SomeD)
  have "map_of (apply_entries ?old ?patch) k = map_of entries k" for k
  proof (cases "map_of entries k")
    case None
    then show ?thesis
      using old wf by (auto simp: lookup_apply_entries btree_wf_distinct lookup_patch_entries lookup_deleted_keys look)
  next
    case (Some v)
    note facts = entry_facts [OF JObject.prems(2,3) Some]
    show ?thesis
    proof (cases "map_of ?old k")
      case None
      then show ?thesis
        using Some facts old wf
        by (simp add: lookup_apply_entries btree_wf_distinct lookup_patch_entries look apply_to_nothing)
    next
      case (Some pv)
      have "case create_merge_patch pv v of None \<Rightarrow> v = pv | Some p \<Rightarrow> apply_merge_patch_value pv p = v"
        using facts(1) by (rule JObject.IH) (use facts pwf [OF Some] in auto)
      then show ?thesis
        using Some \<open>map_of entries k = Some v\<close> facts old wf
        by (auto simp: lookup_apply_entries btree_wf_distinct lookup_patch_entries lookup_deleted_keys look
            dest: patch_not_null split: option.splits)
    qed
  qed
  then have "apply_entries ?old ?patch = entries" using old wf by (intro btree_eqI) auto
  then show ?case by simp
qed auto

section \<open>Snapshots of a world state\<close>

lemma remove_null_cases: "remove_null_object_fields v = JNull \<longleftrightarrow> v = JNull"
  by (cases v) auto

lemma remove_null_wf: "json_wf v \<Longrightarrow> json_wf (remove_null_object_fields v)"
proof (induction v)
  case (JObject entries)
  have "btree_wf (filter (\<lambda>(_, v). v \<noteq> JNull) entries)" using JObject.prems by (simp add: sorted_wrt_map sorted_wrt_filter)
  then have "btree_wf (map (\<lambda>(k, v). (k, remove_null_object_fields v)) (filter (\<lambda>(_, v). v \<noteq> JNull) entries))"
    by (simp add: comp_def case_prod_unfold)
  moreover have "json_wf (remove_null_object_fields v)" if "(k, v) \<in> set entries" for k v
    using that JObject.IH [OF that] JObject.prems by (auto simp: list_all_iff)
  ultimately show ?case by (auto simp: list_all_iff)
qed auto

lemma remove_null_free: "null_free (remove_null_object_fields v)"
  by (induction v) (auto simp: list_all_iff remove_null_cases)

definition sections_wf :: "('n, 'f) world_state \<Rightarrow> bool" where
  "sections_wf ws \<longleftrightarrow> list_all (\<lambda>(_, sec). pred_option json_wf (section_value sec)) ws"

definition snapshot_ok :: "'n world_state_snapshot \<Rightarrow> bool" where
  "snapshot_ok m \<longleftrightarrow> json_wf (JObject m) \<and> null_free (JObject m)"

lemma insert_ok:
  assumes "snapshot_ok m" "json_wf v" "null_free v" "v \<noteq> JNull"
  shows "snapshot_ok (btree_insert k v m)"
proof -
  have "list_all P (btree_insert k v m)" if "list_all P m" "P (k, v)" for P
    using that by (induction k v m rule: btree_insert.induct) auto
  with assms show ?thesis by (simp add: snapshot_ok_def)
qed

lemma section_snapshot_ok:
  assumes "pred_option json_wf (section_value sec)" "section_snapshot sec = Some v"
  shows "json_wf v" "null_free v" "v \<noteq> JNull"
  using assms by (auto simp: section_snapshot_def Let_def remove_null_wf remove_null_free split: option.splits if_splits)

lemma world_state_snapshot_ok:
  assumes "sections_wf ws"
  shows "snapshot_ok (world_state_snapshot_of ws)"
proof -
  have "snapshot_ok (foldl (\<lambda>m (sid, sec). case section_snapshot sec of None \<Rightarrow> m | Some v \<Rightarrow> btree_insert sid v m) m ws)"
    if "snapshot_ok m" for m
    using assms that
  proof (induction ws arbitrary: m)
    case (Cons e ws)
    then show ?case
      using insert_ok [OF Cons.prems(2)] section_snapshot_ok [of "snd e"]
      by (auto simp: sections_wf_def split: option.split prod.splits)
  qed simp
  moreover have "snapshot_ok []" by (simp add: snapshot_ok_def)
  ultimately show ?thesis by (simp add: world_state_snapshot_of_def)
qed

text \<open>
  A live session: world states are made known to the model, and compactions start over. A compaction is the record \<open>None\<close>. Updates within
  a step of a turn and rollbacks, which clear the baseline, are not events of this run.
\<close>

datatype ('n, 'f, 'j) world_event = WorldUpdate "('n, 'f) world_state" | HistoryReplaced "'j response_item list"

fun world_run ::
  "('n, 'f, 'j) world_event list \<Rightarrow> ('j, 'c, 'n world_state_snapshot) context_manager \<Rightarrow>
     'n world_state_item option list \<times> ('j, 'c, 'n world_state_snapshot) context_manager" where
  "world_run [] cm = ([], cm)"
| "world_run (WorldUpdate ws # es) cm =
     (case update_world_state_with ws cm of
        ((fragments, item), cm') \<Rightarrow>
          (case world_run es cm' of (rs, cm'') \<Rightarrow> (case item of None \<Rightarrow> rs | Some i \<Rightarrow> Some i # rs, cm'')))"
| "world_run (HistoryReplaced new_items # es) cm =
     (case world_run es (replace new_items cm) of (rs, cm'') \<Rightarrow> (None # rs, cm''))"

definition replay_world :: "'n world_state_snapshot option \<Rightarrow> 'n world_state_item option list \<Rightarrow> 'n world_state_snapshot option" where
  "replay_world = foldl (\<lambda>b r. case r of None \<Rightarrow> None | Some item \<Rightarrow> replay_world_state_item b item)"

lemma update_baseline:
  assumes "pred_option snapshot_ok (world_state_baseline cm)" "sections_wf ws"
    and "update_world_state_with ws cm = ((fragments, item), cm')"
  shows "world_state_baseline cm' = Some (world_state_snapshot_of ws)"
    and "(case item of None \<Rightarrow> world_state_baseline cm | Some i \<Rightarrow> replay_world_state_item (world_state_baseline cm) i) =
      world_state_baseline cm'"
proof -
  show baseline: "world_state_baseline cm' = Some (world_state_snapshot_of ws)"
    using assms(3) by (auto simp: update_world_state_with_def update_world_state_def)
  have ok: "snapshot_ok (world_state_snapshot_of ws)" using assms(2) by (rule world_state_snapshot_ok)
  show "(case item of None \<Rightarrow> world_state_baseline cm | Some i \<Rightarrow> replay_world_state_item (world_state_baseline cm) i) =
      world_state_baseline cm'"
  proof (cases "world_state_baseline cm")
    case None
    then show ?thesis
      using assms(3) baseline
      by (auto simp: update_world_state_with_def update_world_state_def replay_world_state_item_def into_value_def)
  next
    case (Some previous)
    then have "case create_merge_patch (JObject previous) (JObject (world_state_snapshot_of ws)) of
        None \<Rightarrow> JObject (world_state_snapshot_of ws) = JObject previous
      | Some p \<Rightarrow> apply_merge_patch_value (JObject previous) p = JObject (world_state_snapshot_of ws)"
      using assms(1) ok by (intro merge_patch_inverse) (auto simp: snapshot_ok_def)
    with Some show ?thesis
      using assms(3) baseline
      by (auto simp: update_world_state_with_def update_world_state_def replay_world_state_item_def into_value_def
          merge_patch_from_def apply_merge_patch_def split: option.splits)
  qed
qed

text \<open>
  C35: The baseline is recovered from the rollout. Whatever world states a session makes known to the model, with compactions in
  between, replaying the records it wrote, full snapshots and merge patches, gives the very baseline that the session had at the
  end; this rests on snapshots never holding a null, which a patch would take for a deletion.
\<close>

theorem replayed_world_state_is_live:
  assumes "world_run es cm = (records, cm')" "pred_option snapshot_ok (world_state_baseline cm)"
    and "\<forall>ws. WorldUpdate ws \<in> set es \<longrightarrow> sections_wf ws"
  shows "replay_world (world_state_baseline cm) records = world_state_baseline cm' \<and>
    pred_option snapshot_ok (world_state_baseline cm')"
  using assms
proof (induction es arbitrary: cm records)
  case Nil
  then show ?case by (simp add: replay_world_def)
next
  case (Cons e es)
  show ?case
  proof (cases e)
    case (WorldUpdate ws)
    obtain fragments item cm1 where up: "update_world_state_with ws cm = ((fragments, item), cm1)"
      by (cases "update_world_state_with ws cm" rule: prod.exhaust) auto
    obtain rs where run: "world_run es cm1 = (rs, cm')" "records = (case item of None \<Rightarrow> rs | Some i \<Rightarrow> Some i # rs)"
      using Cons.prems(1) WorldUpdate up by (auto split: prod.splits)
    have wf: "sections_wf ws" using Cons.prems(3) WorldUpdate by auto
    note step = update_baseline [OF Cons.prems(2) wf up]
    have "pred_option snapshot_ok (world_state_baseline cm1)" using step(1) world_state_snapshot_ok [OF wf] by simp
    with run(1) have "replay_world (world_state_baseline cm1) rs = world_state_baseline cm' \<and>
        pred_option snapshot_ok (world_state_baseline cm')"
      using Cons.prems(3) by (intro Cons.IH) auto
    with step(2) run(2) show ?thesis by (auto simp: replay_world_def split: option.splits)
  next
    case (HistoryReplaced new_items)
    obtain rs where run: "world_run es (replace new_items cm) = (rs, cm')" "records = None # rs"
      using Cons.prems(1) HistoryReplaced by (auto split: prod.splits)
    have none: "world_state_baseline (replace new_items cm) = None" by (simp add: replace_def)
    with run(1) have "replay_world (world_state_baseline (replace new_items cm)) rs = world_state_baseline cm' \<and>
        pred_option snapshot_ok (world_state_baseline cm')"
      using Cons.prems(3) by (intro Cons.IH) auto
    with none run(2) show ?thesis by (simp add: replay_world_def)
  qed
qed

definition example_section :: "nat json \<Rightarrow> (nat, unit) world_state_section" where
  "example_section v = \<lparr>section_value = Some v, matches_legacy_fragment = (\<lambda>_ _. False), has_retained_fragment_matcher = False,
     matches_retained_fragment = (\<lambda>_ _. False), section_render_diff = (\<lambda>_. None)\<rparr>"

definition example_events :: "(nat, unit, unit) world_event list" where
  "example_events =
     [WorldUpdate [([1], example_section (JObject [([2], JNumber 5), ([3], JNull)]))],
      HistoryReplaced [],
      WorldUpdate [([1], example_section (JObject [([2], JNumber 5), ([4], JBool True)])), ([7], example_section (JNumber 1))],
      WorldUpdate [([1], example_section (JObject [([2], JNumber 6)]))]]"

theorem replayed_world_state_is_live_witness:
  "replay_world None (fst (world_run example_events (context_manager_new :: (unit, unit, nat world_state_snapshot) context_manager))) =
     Some [([1], JObject [([2], JNumber 6)])] \<and>
   length (fst (world_run example_events (context_manager_new :: (unit, unit, nat world_state_snapshot) context_manager))) = 4"
proof -
  let ?cm = "context_manager_new :: (unit, unit, nat world_state_snapshot) context_manager"
  obtain records cm' where run: "world_run example_events ?cm = (records, cm')" by (cases "world_run example_events ?cm")
  have "replay_world (world_state_baseline ?cm) records = world_state_baseline cm' \<and> pred_option snapshot_ok (world_state_baseline cm')"
    using run by (rule replayed_world_state_is_live)
      (auto simp: example_events_def sections_wf_def example_section_def context_manager_new_def)
  moreover have "world_state_baseline (snd (world_run example_events ?cm)) = Some [([1], JObject [([2], JNumber 6)])]"
    and "length (fst (world_run example_events ?cm)) = 4" and "world_state_baseline ?cm = None"
    by (simp_all add: example_events_def example_section_def context_manager_new_def update_world_state_with_def update_world_state_def
        world_state_snapshot_of_def section_snapshot_def replace_def merge_patch_from_def deleted_keys_def new_or_append_def)
  ultimately show ?thesis using run by simp
qed

end
