(* ===== verification/Rollout_Replay.thy ===== *)
theory Rollout_Replay
  imports Compaction World_State
begin

text \<open>
  Rebuilding a session from its rollout (\<open>core/src/session/rollout_reconstruction.rs\<close>) and cutting rollouts for forks
  (\<open>core/src/thread_rollout_truncation.rs\<close>). The rollout is the list of everything a session persisted. Resuming and rolling back both scan it from the end, turn by
  turn, for the newest surviving checkpoint and settings, and then replay only the tail into a history.

  Event kinds that the code does not look at are \<open>OtherEvent\<close>; the fields of a turn context it only carries are of type \<open>'c\<close>. The record
  \<open>rollout_env\<close> holds the history environment, the truncation policy of the model, the UUID crate, and the parser of inter-agent messages.
\<close>

section \<open>Rollouts (\<open>protocol/src/protocol.rs\<close>)\<close>

record 'j inter_agent_communication =
  communication_id :: "ustr option"
  author :: ustr
  recipient :: ustr
  communication_content :: ustr
  encrypted_content :: "ustr option"
  communication_metadata :: "'j option"
  trigger_turn :: bool

record 'j compacted_item =
  compacted_message :: ustr
  replacement_history :: "'j response_item list option"
  window_number :: "nat option"
  first_window_id :: "ustr option"
  previous_window_id :: "ustr option"
  window_id :: "ustr option"

record 'c turn_context_item =
  context_turn_id :: "ustr option"
  context_model :: ustr
  context_comp_hash :: "ustr option"
  context_realtime_active :: "bool option"
  context_rest :: 'c

datatype event_msg =
    ThreadRolledBack nat
  | TurnStarted ustr
  | TurnComplete ustr
  | TurnAborted "ustr option"
  | UserMessageEvent
  | OtherEvent

text \<open>A session's metadata line is its window id, if it has one.\<close>

datatype ('j, 'c, 'n) rollout_item =
    SessionMeta "ustr option"
  | RolloutResponse "'j response_item"
  | InterAgent "'j inter_agent_communication"
  | InterAgentMetadata bool
  | Compacted "'j compacted_item"
  | TurnContext "'c turn_context_item"
  | WorldStateRecord "'n world_state_item"
  | EventMsg event_msg

record 'j rollout_env =
  history_env :: "'j history_env"
  truncation_policy :: truncation_policy
  agent_input_text :: "ustr \<Rightarrow> 'j"
  agent_encrypted_content :: "ustr \<Rightarrow> 'j"
  parse_uuid :: "ustr \<Rightarrow> ustr option"
  uuid_version :: "ustr \<Rightarrow> nat"
  triggers_turn :: "ustr \<Rightarrow> bool"

definition to_model_input_item :: "'j rollout_env \<Rightarrow> 'j inter_agent_communication \<Rightarrow> 'j response_item" where
  "to_model_input_item env c =
     AgentMessage (communication_id c) (author c) (recipient c)
       (case encrypted_content c of
          Some encrypted \<Rightarrow>
            [agent_input_text env
               (lit ''Message Type: '' @ (if trigger_turn c then lit ''NEW_TASK'' else lit ''MESSAGE'') @ [newline] @
                lit ''Task name: '' @ recipient c @ [newline] @ lit ''Sender: '' @ author c @ [newline] @ lit ''Payload:'' @ [newline]),
             agent_encrypted_content env encrypted]
        | None \<Rightarrow> [agent_input_text env (communication_content c)])
       (communication_metadata c)"

section \<open>The scan from the end\<close>

record reconstructed_window =
  window_number_of :: nat
  first_id :: "ustr option"
  previous_id :: "ustr option"
  current_id :: "ustr option"

record previous_turn_settings =
  settings_model :: ustr
  settings_comp_hash :: "ustr option"
  settings_realtime_active :: "bool option"

datatype 'c turn_reference = NeverSet | Cleared | Latest "'c turn_context_item"

record ('j, 'c, 'n) active_replay_segment =
  turn_id :: "ustr option"
  counts_as_user_turn :: bool
  segment_settings :: "previous_turn_settings option"
  segment_reference :: "'c turn_reference"
  segment_world :: "('j, 'c, 'n) rollout_item list"
  segment_base :: "'j response_item list option"
  segment_window :: "reconstructed_window option"

definition default_segment :: "('j, 'c, 'n) active_replay_segment" where
  "default_segment = \<lparr>turn_id = None, counts_as_user_turn = False, segment_settings = None, segment_reference = NeverSet,
     segment_world = [], segment_base = None, segment_window = None\<rparr>"

definition turn_ids_are_compatible :: "ustr option \<Rightarrow> ustr option \<Rightarrow> bool" where
  "turn_ids_are_compatible active_turn_id item_turn_id \<longleftrightarrow>
     (case active_turn_id of None \<Rightarrow> True | Some t \<Rightarrow> (case item_turn_id of None \<Rightarrow> True | Some t' \<Rightarrow> t' = t))"

definition parse_uuid_v7 :: "'j rollout_env \<Rightarrow> ustr \<Rightarrow> ustr option" where
  "parse_uuid_v7 env v =
     (case parse_uuid env v of None \<Rightarrow> None | Some u \<Rightarrow> if uuid_version env u = 7 then Some u else None)"

text \<open>The local variables of the scan; \<open>rollout_suffix\<close> is what the second loop replays.\<close>

record ('j, 'c, 'n) replay_scan =
  base :: "'j response_item list option"
  scan_settings :: "previous_turn_settings option"
  scan_reference :: "'c turn_reference"
  scan_world :: "('j, 'c, 'n) rollout_item list"
  scan_window :: "reconstructed_window option"
  pending_rollback_turns :: nat
  rollout_suffix :: "('j, 'c, 'n) rollout_item list"
  active_segment :: "('j, 'c, 'n) active_replay_segment option"

definition finalize_active_segment ::
  "('j, 'c, 'n) active_replay_segment \<Rightarrow> ('j, 'c, 'n) replay_scan \<Rightarrow> ('j, 'c, 'n) replay_scan" where
  "finalize_active_segment seg s =
     (if pending_rollback_turns s > 0 then
        (if counts_as_user_turn seg then s\<lparr>pending_rollback_turns := pending_rollback_turns s - 1\<rparr> else s)
      else s\<lparr>scan_world := scan_world s @ segment_world seg,
             base := or_else (base s) (segment_base seg),
             scan_window := or_else (scan_window s) (segment_window seg),
             scan_settings := (if scan_settings s = None \<and> counts_as_user_turn seg then segment_settings seg else scan_settings s),
             scan_reference :=
               (if scan_reference s = NeverSet \<and> (counts_as_user_turn seg \<or> segment_reference seg = Cleared)
                then segment_reference seg else scan_reference s)\<rparr>)"

definition the_segment :: "('j, 'c, 'n) replay_scan \<Rightarrow> ('j, 'c, 'n) active_replay_segment" where
  "the_segment s = (case active_segment s of Some seg \<Rightarrow> seg | None \<Rightarrow> default_segment)"

definition update_segment ::
  "(('j, 'c, 'n) active_replay_segment \<Rightarrow> ('j, 'c, 'n) active_replay_segment) \<Rightarrow> ('j, 'c, 'n) replay_scan \<Rightarrow> ('j, 'c, 'n) replay_scan" where
  "update_segment f s = s\<lparr>active_segment := Some (f (the_segment s))\<rparr>"

definition window_of_compaction :: "'j rollout_env \<Rightarrow> 'j compacted_item \<Rightarrow> reconstructed_window option" where
  "window_of_compaction env c =
     map_option (\<lambda>n. \<lparr>window_number_of = n, first_id = Option.bind (first_window_id c) (parse_uuid_v7 env),
         previous_id = Option.bind (previous_window_id c) (parse_uuid_v7 env), current_id = Option.bind (window_id c) (parse_uuid_v7 env)\<rparr>)
       (window_number c)"

definition segment_compacted ::
  "'j rollout_env \<Rightarrow> 'j compacted_item \<Rightarrow> ('j, 'c, 'n) active_replay_segment \<Rightarrow> ('j, 'c, 'n) active_replay_segment" where
  "segment_compacted env c seg =
     seg\<lparr>segment_world := segment_world seg @ [Compacted c],
         segment_window := or_else (segment_window seg) (window_of_compaction env c),
         segment_reference := (if segment_reference seg = NeverSet then Cleared else segment_reference seg),
         segment_base := or_else (segment_base seg) (replacement_history c)\<rparr>"

definition segment_context ::
  "'c turn_context_item \<Rightarrow> ('j, 'c, 'n) active_replay_segment \<Rightarrow> ('j, 'c, 'n) active_replay_segment" where
  "segment_context ctx seg =
     (let seg1 = seg\<lparr>turn_id := or_else (turn_id seg) (context_turn_id ctx)\<rparr>
      in if turn_ids_are_compatible (turn_id seg1) (context_turn_id ctx)
         then seg1\<lparr>segment_settings := Some \<lparr>settings_model = context_model ctx, settings_comp_hash = context_comp_hash ctx,
                     settings_realtime_active = context_realtime_active ctx\<rparr>,
                   segment_reference := (if segment_reference seg1 = NeverSet then Latest ctx else segment_reference seg1)\<rparr>
         else seg1)"

text \<open>One item of the scan; \<open>newer\<close> are the items after it.\<close>

fun scan_item ::
  "'j rollout_env \<Rightarrow> ('j, 'c, 'n) rollout_item \<Rightarrow> ('j, 'c, 'n) rollout_item list \<Rightarrow> ('j, 'c, 'n) replay_scan \<Rightarrow> ('j, 'c, 'n) replay_scan" where
  "scan_item env (Compacted c) newer s =
     (let s1 = update_segment (segment_compacted env c) s
      in if segment_base (the_segment s) = None \<and> replacement_history c \<noteq> None then s1\<lparr>rollout_suffix := newer\<rparr> else s1)"
| "scan_item env (EventMsg (ThreadRolledBack n)) newer s =
     s\<lparr>pending_rollback_turns := saturating_add (pending_rollback_turns s) n\<rparr>"
| "scan_item env (EventMsg (TurnComplete t)) newer s =
     update_segment (\<lambda>seg. seg\<lparr>turn_id := or_else (turn_id seg) (Some t)\<rparr>) s"
| "scan_item env (EventMsg (TurnAborted t)) newer s =
     (case active_segment s of
        Some seg \<Rightarrow> s\<lparr>active_segment := Some (seg\<lparr>turn_id := or_else (turn_id seg) t\<rparr>)\<rparr>
      | None \<Rightarrow> if t = None then s else s\<lparr>active_segment := Some (default_segment\<lparr>turn_id := t\<rparr>)\<rparr>)"
| "scan_item env (EventMsg UserMessageEvent) newer s = update_segment (counts_as_user_turn_update (\<lambda>_. True)) s"
| "scan_item env (TurnContext ctx) newer s = update_segment (segment_context ctx) s"
| "scan_item env (WorldStateRecord w) newer s =
     update_segment (\<lambda>seg. seg\<lparr>segment_world := segment_world seg @ [WorldStateRecord w]\<rparr>) s"
| "scan_item env (EventMsg (TurnStarted t)) newer s =
     (case active_segment s of
        Some seg \<Rightarrow>
          if turn_ids_are_compatible (turn_id seg) (Some t) then finalize_active_segment seg (s\<lparr>active_segment := None\<rparr>) else s
      | None \<Rightarrow> s)"
| "scan_item env (RolloutResponse item) newer s =
     update_segment (\<lambda>seg. seg\<lparr>counts_as_user_turn := counts_as_user_turn seg \<or> is_user_turn_boundary (history_env env) item\<rparr>) s"
| "scan_item env (InterAgent c) newer s = update_segment (counts_as_user_turn_update (\<lambda>_. True)) s"
| "scan_item env (EventMsg OtherEvent) newer s = s"
| "scan_item env (SessionMeta w) newer s = s"
| "scan_item env (InterAgentMetadata b) newer s = s"

definition scan_complete :: "('j, 'c, 'n) replay_scan \<Rightarrow> bool" where
  "scan_complete s \<longleftrightarrow> base s \<noteq> None \<and> scan_settings s \<noteq> None \<and> scan_reference s \<noteq> NeverSet"

fun scan_back ::
  "'j rollout_env \<Rightarrow> ('j, 'c, 'n) rollout_item list \<Rightarrow> ('j, 'c, 'n) rollout_item list \<Rightarrow> ('j, 'c, 'n) replay_scan \<Rightarrow> ('j, 'c, 'n) replay_scan" where
  "scan_back env [] newer s = s"
| "scan_back env (item # older) newer s =
     (let s1 = scan_item env item newer s in if scan_complete s1 then s1 else scan_back env older (item # newer) s1)"

definition start_scan :: "('j, 'c, 'n) rollout_item list \<Rightarrow> ('j, 'c, 'n) replay_scan" where
  "start_scan rollout = \<lparr>base = None, scan_settings = None, scan_reference = NeverSet, scan_world = [], scan_window = None,
     pending_rollback_turns = 0, rollout_suffix = rollout, active_segment = None\<rparr>"

definition finish_scan :: "('j, 'c, 'n) replay_scan \<Rightarrow> ('j, 'c, 'n) replay_scan" where
  "finish_scan s =
     (case active_segment s of
        Some seg \<Rightarrow> finalize_active_segment seg (s\<lparr>active_segment := None\<rparr>)
      | None \<Rightarrow> s)"

definition scan_rollout :: "'j rollout_env \<Rightarrow> ('j, 'c, 'n) rollout_item list \<Rightarrow> ('j, 'c, 'n) replay_scan" where
  "scan_rollout env rollout = finish_scan (scan_back env (rev rollout) [] (start_scan rollout))"

section \<open>Replaying the tail\<close>

type_synonym ('j, 'c, 'n) session_history = "('j, 'c turn_context_item, 'n world_state_snapshot) context_manager"

fun replay_item ::
  "'j rollout_env \<Rightarrow> ('j, 'c, 'n) session_history \<Rightarrow> ('j, 'c, 'n) rollout_item \<Rightarrow> ('j, 'c, 'n) session_history option" where
  "replay_item env cm (RolloutResponse item) = record_items (history_env env) [item] (truncation_policy env) cm"
| "replay_item env cm (InterAgent c) = record_items (history_env env) [to_model_input_item env c] (truncation_policy env) cm"
| "replay_item env cm (Compacted c) =
     (case replacement_history c of
        Some h \<Rightarrow> Some (replace h cm)
      | None \<Rightarrow>
          map_option (\<lambda>h. replace h cm)
            (build_compacted_history [] (collect_user_messages (history_env env) (items cm)) (compacted_message c)))"
| "replay_item env cm (EventMsg (ThreadRolledBack n)) = Some (drop_last_n_user_turns (history_env env) n cm)"
| "replay_item env cm _ = Some cm"

fun replay_items ::
  "'j rollout_env \<Rightarrow> ('j, 'c, 'n) session_history \<Rightarrow> ('j, 'c, 'n) rollout_item list \<Rightarrow> ('j, 'c, 'n) session_history option" where
  "replay_items env cm [] = Some cm"
| "replay_items env cm (item # rest) =
     (case replay_item env cm item of None \<Rightarrow> None | Some cm' \<Rightarrow> replay_items env cm' rest)"

fun is_legacy_compaction :: "('j, 'c, 'n) rollout_item \<Rightarrow> bool" where
  "is_legacy_compaction (Compacted c) \<longleftrightarrow> replacement_history c = None"
| "is_legacy_compaction _ \<longleftrightarrow> False"

fun replay_world_record :: "'n world_state_snapshot option \<Rightarrow> ('j, 'c, 'n) rollout_item \<Rightarrow> 'n world_state_snapshot option" where
  "replay_world_record baseline (WorldStateRecord w) = replay_world_state_item baseline w"
| "replay_world_record baseline (Compacted c) = None"
| "replay_world_record baseline _ = baseline"

record ('j, 'c, 'n) rollout_reconstruction =
  history :: "'j response_item list"
  previous_settings :: "previous_turn_settings option"
  reference_context :: "'c turn_context_item option"
  world_baseline :: "'n world_state_snapshot option"
  window :: reconstructed_window

fun is_compaction :: "('j, 'c, 'n) rollout_item \<Rightarrow> bool" where
  "is_compaction (Compacted c) \<longleftrightarrow> True"
| "is_compaction _ \<longleftrightarrow> False"

fun session_window :: "'j rollout_env \<Rightarrow> ('j, 'c, 'n) rollout_item \<Rightarrow> reconstructed_window option" where
  "session_window env (SessionMeta (Some w)) =
     map_option (\<lambda>u. \<lparr>window_number_of = 0, first_id = Some u, previous_id = None, current_id = Some u\<rparr>) (parse_uuid_v7 env w)"
| "session_window env _ = None"

fun lacks_window_number :: "('j, 'c, 'n) rollout_item \<Rightarrow> bool" where
  "lacks_window_number (Compacted c) \<longleftrightarrow> window_number c = None"
| "lacks_window_number _ \<longleftrightarrow> False"

definition find_map :: "('a \<Rightarrow> 'b option) \<Rightarrow> 'a list \<Rightarrow> 'b option" where
  "find_map f xs = (case List.map_filter f xs of [] \<Rightarrow> None | y # _ \<Rightarrow> Some y)"

definition initial_window :: "'j rollout_env \<Rightarrow> ('j, 'c, 'n) rollout_item list \<Rightarrow> reconstructed_window option" where
  "initial_window env rollout =
     (if list_ex lacks_window_number rollout then None else find_map (session_window env) rollout)"

definition fallback_window :: "('j, 'c, 'n) rollout_item list \<Rightarrow> reconstructed_window" where
  "fallback_window rollout =
     \<lparr>window_number_of = length (filter is_compaction rollout), first_id = None, previous_id = None, current_id = None\<rparr>"

definition assemble ::
  "'j rollout_env \<Rightarrow> ('j, 'c, 'n) rollout_item list \<Rightarrow> ('j, 'c, 'n) replay_scan \<Rightarrow> ('j, 'c, 'n) rollout_reconstruction option" where
  "assemble env rollout s =
     map_option (\<lambda>cm.
         \<lparr>history = items cm, previous_settings = scan_settings s,
          reference_context =
            (if list_ex is_legacy_compaction (rollout_suffix s) then None
             else case scan_reference s of Latest ctx \<Rightarrow> Some ctx | _ \<Rightarrow> None),
          world_baseline = foldl replay_world_record None (rev (scan_world s)),
          window = (case or_else (scan_window s) (initial_window env rollout) of Some w \<Rightarrow> w | None \<Rightarrow> fallback_window rollout)\<rparr>)
       (replay_items env (case base s of Some h \<Rightarrow> replace h context_manager_new | None \<Rightarrow> context_manager_new) (rollout_suffix s))"

definition reconstruct_history_from_rollout ::
  "'j rollout_env \<Rightarrow> ('j, 'c, 'n) rollout_item list \<Rightarrow> ('j, 'c, 'n) rollout_reconstruction option" where
  "reconstruct_history_from_rollout env rollout = assemble env rollout (scan_rollout env rollout)"

section \<open>The history depends on the items alone\<close>

definition same_items :: "('j, 'c, 'n) session_history option \<Rightarrow> ('j, 'c, 'n) session_history option \<Rightarrow> bool" where
  "same_items a b \<longleftrightarrow> map_option items a = map_option items b"

lemma trim_cut_same:
  "fst (trim_pre_turn_context_updates env xs first cix cm) = fst (trim_pre_turn_context_updates env xs first cix cm')"
proof (induction cix arbitrary: cm cm')
  case 0
  then show ?case by (simp add: trim_step [of _ _ _ 0])
next
  case (Suc cix)
  then show ?case by (simp add: trim_step [of _ _ _ "Suc cix"])
qed

lemma drop_turns_same:
  "items cm = items cm' \<Longrightarrow> items (drop_last_n_user_turns env n cm) = items (drop_last_n_user_turns env n cm')"
  using trim_cut_same [of env "items cm'" _ _ cm cm']
  by (auto simp: drop_last_n_user_turns_def replace_def Let_def case_prod_unfold split: list.split)

lemma record_items_same:
  "items cm = items cm' \<Longrightarrow> map_option items (record_items env xs policy cm) = map_option items (record_items env xs policy cm')"
proof (induction xs arbitrary: cm cm')
  case (Cons x xs)
  from Cons.IH [of cm cm'] Cons.prems Cons.IH [of "cm\<lparr>items := items cm @ [y]\<rparr>" "cm'\<lparr>items := items cm' @ [y]\<rparr>" for y]
  show ?case by (auto split: option.split)
qed simp

lemma replay_item_same:
  assumes "items cm = items cm'"
  shows "same_items (replay_item env cm x) (replay_item env cm' x)"
proof (cases "(env, cm, x)" rule: replay_item.cases)
  case (3 env' cm'' c)
  then show ?thesis using assms by (auto simp: same_items_def replace_def option.map_comp comp_def split: option.split)
next
  case (4 env' cm'' n)
  then show ?thesis using drop_turns_same [OF assms] by (simp add: same_items_def)
qed (use assms record_items_same [OF assms] in \<open>simp_all add: same_items_def del: record_items.simps\<close>)

lemma same_items_cases:
  assumes "same_items a b"
  obtains "a = None" "b = None" | x y where "a = Some x" "b = Some y" "items x = items y"
  using assms by (cases a; cases b) (auto simp: same_items_def)

lemma replay_items_same: "items cm = items cm' \<Longrightarrow> same_items (replay_items env cm xs) (replay_items env cm' xs)"
proof (induction xs arbitrary: cm cm')
  case (Cons x xs)
  from replay_item_same [OF Cons.prems, of env x] show ?case
  proof (cases rule: same_items_cases)
    case (2 cm1 cm2)
    from Cons.IH [OF 2(3)] show ?thesis unfolding replay_items.simps 2(1,2) by simp
  qed (simp add: same_items_def del: replay_item.simps)
qed (simp add: same_items_def)

lemma replay_items_append:
  "replay_items env cm (xs @ ys) = (case replay_items env cm xs of None \<Rightarrow> None | Some cm' \<Rightarrow> replay_items env cm' ys)"
  by (induction xs arbitrary: cm) (auto split: option.split)

section \<open>Replaying does not fail\<close>

definition texts_bounded :: "'j response_item \<Rightarrow> bool" where
  "texts_bounded x \<longleftrightarrow> list_all (\<lambda>t. byte_len t \<le> isize_max) (output_texts x)"

text \<open>No text of the rollout is longer than a string can be.\<close>

fun rollout_item_bounded :: "'j rollout_env \<Rightarrow> ('j, 'c, 'n) rollout_item \<Rightarrow> bool" where
  "rollout_item_bounded env (RolloutResponse x) \<longleftrightarrow> texts_bounded x \<and> user_bounded (history_env env) x"
| "rollout_item_bounded env (Compacted c) \<longleftrightarrow>
     byte_len (compacted_message c) \<le> isize_max \<and> pred_option (list_all (user_bounded (history_env env))) (replacement_history c)"
| "rollout_item_bounded env _ \<longleftrightarrow> True"

lemma not_user_bounded [simp]: "parse_user_turn_item env x = None \<Longrightarrow> user_bounded env x"
  by (simp add: user_bounded_def)

lemma process_item_user: "process_item env x policy = Some y \<Longrightarrow> parse_user_turn_item env y = parse_user_turn_item env x"
  by (cases x) auto

lemma record_one_ok:
  assumes "list_all (user_bounded env) (items cm)" "texts_bounded x" "user_bounded env x"
  shows "\<exists>cm'. record_items env [x] policy cm = Some cm' \<and> list_all (user_bounded env) (items cm')"
proof -
  obtain y where "process_item env x policy = Some y"
    using process_item_ok [of x env policy] assms(2) by (auto simp: texts_bounded_def list_all_iff)
  with process_item_user [OF this] assms(1,3) show ?thesis by (auto simp: user_bounded_def)
qed

lemma replay_item_ok:
  assumes "list_all (user_bounded (history_env env)) (items cm)" "rollout_item_bounded env x"
  shows "\<exists>cm'. replay_item env cm x = Some cm' \<and> list_all (user_bounded (history_env env)) (items cm')"
proof (cases "(env, cm, x)" rule: replay_item.cases)
  case (1 env' cm' item)
  with record_one_ok [of "history_env env" cm item "truncation_policy env"] assms show ?thesis by auto
next
  case (2 env' cm' c)
  have "texts_bounded (to_model_input_item env c) \<and> user_bounded (history_env env) (to_model_input_item env c)"
    by (auto simp: texts_bounded_def output_texts_def to_model_input_item_def)
  with 2 record_one_ok [of "history_env env" cm "to_model_input_item env c" "truncation_policy env"] assms(1) show ?thesis by auto
next
  case (3 env' cm' c)
  with build_compacted_history_ok [OF assms(1), of "compacted_message c"] assms(2) show ?thesis
    by (auto simp: replace_def split: option.split)
next
  case (4 env' cm' n)
  have "prefix (items (drop_last_n_user_turns (history_env env) n cm)) (items cm)"
    by (auto simp: drop_last_n_user_turns_def replace_def Let_def case_prod_unfold take_is_prefix split: list.split)
  with 4 assms(1) show ?thesis by (auto simp: prefix_def)
qed (use assms(1) in auto)

lemma replay_items_ok:
  assumes "list_all (user_bounded (history_env env)) (items cm)" "list_all (rollout_item_bounded env) xs"
  shows "\<exists>cm'. replay_items env cm xs = Some cm' \<and> list_all (user_bounded (history_env env)) (items cm')"
  using assms
proof (induction xs arbitrary: cm)
  case (Cons x xs)
  then obtain cm1 where step: "replay_item env cm x = Some cm1" "list_all (user_bounded (history_env env)) (items cm1)"
    using replay_item_ok [of env cm x] by auto
  from Cons.IH [OF step(2)] Cons.prems(2) step(1) show ?case by (simp del: replay_item.simps)
qed simp

section \<open>Checkpoints\<close>

fun is_checkpoint :: "('j, 'c, 'n) rollout_item \<Rightarrow> bool" where
  "is_checkpoint (Compacted c) \<longleftrightarrow> replacement_history c \<noteq> None"
| "is_checkpoint _ \<longleftrightarrow> False"

text \<open>The suffix to replay starts at the checkpoint with the history \<open>h\<close>, or contains it.\<close>

definition suffix_from :: "'j response_item list \<Rightarrow> ('j, 'c, 'n) rollout_item list \<Rightarrow> ('j, 'c, 'n) rollout_item list \<Rightarrow> bool" where
  "suffix_from h seen sfx \<longleftrightarrow>
     (\<exists>mid c post. seen = mid @ Compacted c # post \<and> replacement_history c = Some h \<and>
        (sfx = post \<or> (\<exists>m. sfx = m @ Compacted c # post)))"

definition scan_inv :: "('j, 'c, 'n) rollout_item list \<Rightarrow> ('j, 'c, 'n) rollout_item list \<Rightarrow> ('j, 'c, 'n) replay_scan \<Rightarrow> bool" where
  "scan_inv rollout seen s \<longleftrightarrow>
     (rollout_suffix s = rollout \<or> list_ex is_checkpoint seen \<and> (\<exists>mid. seen = mid @ rollout_suffix s)) \<and>
     (\<forall>h. base s = Some h \<or> segment_base (the_segment s) = Some h \<longrightarrow> suffix_from h seen (rollout_suffix s))"

lemma suffix_from_Cons: "suffix_from h seen sfx \<Longrightarrow> suffix_from h (x # seen) sfx"
  unfolding suffix_from_def by (metis append_Cons)

lemma suffix_from_all: "suffix_from h seen sfx \<Longrightarrow> suffix_from h (x # seen) seen"
  unfolding suffix_from_def by (metis append_Cons)

lemma suffix_from_here: "replacement_history c = Some h \<Longrightarrow> suffix_from h (Compacted c # seen) seen"
  unfolding suffix_from_def by blast

lemmas segment_defs = update_segment_def the_segment_def default_segment_def finalize_active_segment_def segment_context_def
  segment_compacted_def or_else_def Let_def

lemma scan_item_frame:
  assumes "\<not> is_compaction x"
  shows "rollout_suffix (scan_item env x newer s) = rollout_suffix s"
    and "base (scan_item env x newer s) = base s \<or> base (scan_item env x newer s) = or_else (base s) (segment_base (the_segment s))"
    and "segment_base (the_segment (scan_item env x newer s)) = segment_base (the_segment s) \<or>
      segment_base (the_segment (scan_item env x newer s)) = None"
  using assms
  by (cases "(env, x, newer, s)" rule: scan_item.cases; auto simp: segment_defs split: option.splits)+

lemma scan_inv_frame:
  assumes "scan_inv rollout seen s" "rollout_suffix s' = rollout_suffix s"
    and "base s' = base s \<or> base s' = or_else (base s) (segment_base (the_segment s))"
    and "segment_base (the_segment s') = segment_base (the_segment s) \<or> segment_base (the_segment s') = None"
  shows "scan_inv rollout (x # seen) s'" "scan_inv rollout seen s'"
proof -
  have "base s = Some h \<or> segment_base (the_segment s) = Some h" if "base s' = Some h \<or> segment_base (the_segment s') = Some h" for h
    using that assms(3,4) by (auto simp: or_else_def split: option.splits)
  then have from_s: "suffix_from h seen (rollout_suffix s)" if "base s' = Some h \<or> segment_base (the_segment s') = Some h" for h
    using that assms(1) unfolding scan_inv_def by blast
  show "scan_inv rollout seen s'"
    using assms(1) from_s unfolding scan_inv_def assms(2) by blast
  have "\<exists>mid. x # seen = mid @ rollout_suffix s" if "seen = mid @ rollout_suffix s" for mid
    using that by (intro exI [of _ "x # mid"]) simp
  moreover have "list_ex is_checkpoint seen \<Longrightarrow> list_ex is_checkpoint (x # seen)" by simp
  ultimately show "scan_inv rollout (x # seen) s'"
    using assms(1) from_s suffix_from_Cons unfolding scan_inv_def assms(2) by blast
qed

lemma scan_item_inv:
  assumes "scan_inv rollout seen s"
  shows "scan_inv rollout (x # seen) (scan_item env x seen s)"
proof (cases "is_compaction x")
  case True
  then obtain c where c: "x = Compacted c" by (cases x) auto
  show ?thesis
  proof (cases "segment_base (the_segment s) = None \<and> replacement_history c \<noteq> None")
    case True
    then have "suffix_from h (x # seen) seen" if "base s = Some h \<or> replacement_history c = Some h" for h
      using that assms c by (auto simp: scan_inv_def intro: suffix_from_all suffix_from_here)
    with True c show ?thesis
      by (auto simp: scan_inv_def segment_defs split: option.splits)
  next
    case False
    with c assms have "segment_base (the_segment (scan_item env x seen s)) = segment_base (the_segment s)"
        "rollout_suffix (scan_item env x seen s) = rollout_suffix s" "base (scan_item env x seen s) = base s"
      by (auto simp: segment_defs split: option.splits)
    with assms show ?thesis by (intro scan_inv_frame(1)) auto
  qed
next
  case False
  show ?thesis using assms scan_item_frame [OF False] by (rule scan_inv_frame(1))
qed

lemma scan_back_inv:
  assumes "scan_inv rollout newer s"
  shows "\<exists>pre seen. rev older @ newer = pre @ seen \<and> scan_inv rollout seen (scan_back env older newer s)"
  using assms
proof (induction older arbitrary: newer s)
  case (Cons x older)
  have inv: "scan_inv rollout (x # newer) (scan_item env x newer s)" using Cons.prems by (rule scan_item_inv)
  show ?case
  proof (cases "scan_complete (scan_item env x newer s)")
    case True
    with inv show ?thesis by (intro exI [of _ "rev older"] exI [of _ "x # newer"]) (simp add: Let_def del: scan_item.simps)
  next
    case False
    with Cons.IH [OF inv] show ?thesis by (simp add: Let_def del: scan_item.simps)
  qed
qed auto

lemma finish_scan_inv:
  assumes "scan_inv rollout seen s"
  shows "scan_inv rollout seen (finish_scan s)"
  using assms by (rule scan_inv_frame(2)) (auto simp: finish_scan_def segment_defs split: option.splits)

lemma start_scan_inv: "scan_inv rollout [] (start_scan rollout)"
  by (simp add: scan_inv_def start_scan_def segment_defs)

lemma scan_rollout_inv: "\<exists>pre seen. rollout = pre @ seen \<and> scan_inv rollout seen (scan_rollout env rollout)"
proof -
  obtain pre seen where split: "rev (rev rollout) @ [] = pre @ seen"
      and inv: "scan_inv rollout seen (scan_back env (rev rollout) [] (start_scan rollout))"
    using scan_back_inv [OF start_scan_inv] by blast
  from finish_scan_inv [OF inv] split show ?thesis unfolding scan_rollout_def by (simp only: rev_rev_ident append_Nil2) blast
qed

lemma base_or_suffix:
  assumes "scan_inv rollout seen s" "rollout = pre @ seen" "base s \<noteq> None \<or> \<not> list_ex is_checkpoint rollout"
  obtains "base s = None" "rollout_suffix s = rollout"
  | h mid c post where "base s = Some h" "rollout = mid @ Compacted c # post" "replacement_history c = Some h"
      "rollout_suffix s = post \<or> (\<exists>m. rollout_suffix s = m @ Compacted c # post)"
proof (cases "base s")
  case None
  with assms have "rollout_suffix s = rollout" by (auto simp: scan_inv_def)
  with None that(1) show ?thesis by blast
next
  case (Some h)
  then have "suffix_from h seen (rollout_suffix s)" using assms(1) by (simp add: scan_inv_def)
  then obtain mid c post where "seen = mid @ Compacted c # post" "replacement_history c = Some h"
    "rollout_suffix s = post \<or> (\<exists>m. rollout_suffix s = m @ Compacted c # post)"
    unfolding suffix_from_def by blast
  with Some assms(2) that(2) [of h "pre @ mid" c post] show ?thesis by simp
qed

lemma replay_from_checkpoint:
  assumes "replay_items env cm (m @ Compacted c # post) = Some cm'" "replacement_history c = Some h"
  shows "same_items (Some cm') (replay_items env (replace h context_manager_new) post)"
proof -
  obtain cm1 where "replay_items env (replace h cm1) post = Some cm'"
    using assms by (auto simp: replay_items_append split: option.splits)
  then show ?thesis using replay_items_same [of "replace h cm1" "replace h context_manager_new" env post] by (simp add: replace_def)
qed

lemma assembled_history:
  assumes "scan_inv rollout seen s" "rollout = pre @ seen" "base s \<noteq> None \<or> \<not> list_ex is_checkpoint rollout"
    and "list_all (rollout_item_bounded env) rollout"
  shows "\<exists>cm r. replay_items env context_manager_new rollout = Some cm \<and> assemble env rollout s = Some r \<and> history r = items cm"
proof -
  obtain cm where all: "replay_items env context_manager_new rollout = Some cm"
    using replay_items_ok [of env context_manager_new rollout] assms(4) by (auto simp: context_manager_new_def)
  let ?start = "case base s of Some h \<Rightarrow> replace h context_manager_new | None \<Rightarrow> context_manager_new"
  have "same_items (Some cm) (replay_items env ?start (rollout_suffix s))"
    using assms(1-3)
  proof (cases rule: base_or_suffix)
    case 1
    with all show ?thesis by (simp add: same_items_def)
  next
    case (2 h mid c post)
    note here = replay_from_checkpoint [OF all [unfolded 2(2)] 2(3)]
    from 2(4) show ?thesis
    proof
      assume "rollout_suffix s = post"
      with here 2(1) show ?thesis by simp
    next
      assume "\<exists>m. rollout_suffix s = m @ Compacted c # post"
      then obtain m where m: "rollout_suffix s = m @ Compacted c # post" by blast
      have "list_all (user_bounded (history_env env)) h" using assms(4) 2(2,3) by simp
      moreover have "list_all (rollout_item_bounded env) (rollout_suffix s)"
        using assms(1,2,4) by (metis (no_types) list_all_append scan_inv_def)
      ultimately obtain cm' where cm': "replay_items env ?start (m @ Compacted c # post) = Some cm'"
        using replay_items_ok [of env ?start "rollout_suffix s"] 2(1) m by (auto simp: replace_def)
      from replay_from_checkpoint [OF cm' 2(3)] here cm' m show ?thesis by (simp add: same_items_def)
    qed
  qed
  then obtain cm' where "replay_items env ?start (rollout_suffix s) = Some cm'" "items cm' = items cm"
    by (cases rule: same_items_cases) auto
  then show ?thesis using all by (simp add: assemble_def)
qed

text \<open>
  C18: Resuming from the tail gives what replaying everything gives. If some checkpoint of the rollout survives its rollbacks, or there is no checkpoint, the history that is
  rebuilt from the newest surviving one is the history that replaying all items from the start gives, and neither replay fails.
\<close>

theorem resumed_history_is_full_replay:
  assumes "list_all (rollout_item_bounded env) rollout"
    and "base (scan_rollout env rollout) \<noteq> None \<or> \<not> list_ex is_checkpoint rollout"
  shows "\<exists>cm r. replay_items env context_manager_new rollout = Some cm \<and>
    reconstruct_history_from_rollout env rollout = Some r \<and> history r = items cm"
proof -
  obtain pre seen where "rollout = pre @ seen" "scan_inv rollout seen (scan_rollout env rollout)"
    using scan_rollout_inv by blast
  then show ?thesis using assembled_history [of rollout seen _ pre env] assms unfolding reconstruct_history_from_rollout_def by blast
qed

section \<open>Stopping early\<close>

text \<open>The scan without its early exit.\<close>

fun scan_all ::
  "'j rollout_env \<Rightarrow> ('j, 'c, 'n) rollout_item list \<Rightarrow> ('j, 'c, 'n) rollout_item list \<Rightarrow> ('j, 'c, 'n) replay_scan \<Rightarrow> ('j, 'c, 'n) replay_scan" where
  "scan_all env [] newer s = s"
| "scan_all env (item # older) newer s = scan_all env older (item # newer) (scan_item env item newer s)"

definition full_scan :: "'j rollout_env \<Rightarrow> ('j, 'c, 'n) rollout_item list \<Rightarrow> ('j, 'c, 'n) replay_scan" where
  "full_scan env rollout = finish_scan (scan_all env (rev rollout) [] (start_scan rollout))"

lemma scan_all_inv:
  assumes "scan_inv rollout newer s"
  shows "scan_inv rollout (rev older @ newer) (scan_all env older newer s)"
  using assms
proof (induction older arbitrary: newer s)
  case (Cons x older)
  from Cons.IH [OF scan_item_inv [OF Cons.prems]] show ?case by (simp del: scan_item.simps)
qed simp

text \<open>What later items cannot change once base, settings and reference are known.\<close>

definition settled :: "('j, 'c, 'n) replay_scan \<Rightarrow> ('j, 'c, 'n) replay_scan \<Rightarrow> bool" where
  "settled s s' \<longleftrightarrow>
     (base s \<noteq> None \<longrightarrow> base s' = base s) \<and> (scan_settings s \<noteq> None \<longrightarrow> scan_settings s' = scan_settings s) \<and>
     (scan_reference s \<noteq> NeverSet \<longrightarrow> scan_reference s' = scan_reference s) \<and>
     (scan_window s \<noteq> None \<longrightarrow> scan_window s' = scan_window s) \<and> prefix (scan_world s) (scan_world s')"

lemma settled_refl [simp]: "settled s s"
  by (simp add: settled_def)

lemma settled_trans: "settled s s' \<Longrightarrow> settled s' s'' \<Longrightarrow> settled s s''"
  unfolding settled_def by (metis prefix_order.trans)

lemma finalize_settled: "settled s (finalize_active_segment seg (s\<lparr>active_segment := None\<rparr>))"
  by (auto simp: settled_def finalize_active_segment_def or_else_def split: option.split)

lemma scan_item_settled: "settled s (scan_item env x newer s)"
  by (cases "(env, x, newer, s)" rule: scan_item.cases)
    (auto simp: update_segment_def Let_def settled_def [of _ "_\<lparr>active_segment := _\<rparr>"] settled_def [of _ "_\<lparr>pending_rollback_turns := _\<rparr>"]
      settled_def [of _ "_\<lparr>active_segment := _, rollout_suffix := _\<rparr>"] finalize_settled split: option.split)

lemma scan_all_settled: "settled s (scan_all env older newer s)"
proof (induction older arbitrary: newer s)
  case (Cons x older)
  from settled_trans [OF scan_item_settled Cons.IH] show ?case by (simp del: scan_item.simps)
qed simp

lemma finish_settled: "settled s (finish_scan s)"
  by (auto simp: finish_scan_def finalize_settled split: option.split)

lemma completes_at_turn_start:
  assumes "\<not> scan_complete s" "scan_complete (scan_item env x newer s)"
  shows "active_segment (scan_item env x newer s) = None"
  using assms
  by (cases "(env, x, newer, s)" rule: scan_item.cases)
    (auto simp: scan_complete_def update_segment_def Let_def finalize_active_segment_def split: option.splits if_splits)

lemma scan_back_or_all:
  assumes "\<not> scan_complete s"
  shows "scan_back env older newer s = scan_all env older newer s \<or>
    scan_complete (scan_back env older newer s) \<and> active_segment (scan_back env older newer s) = None \<and>
    settled (scan_back env older newer s) (scan_all env older newer s)"
  using assms
proof (induction older arbitrary: newer s)
  case (Cons x older)
  show ?case
  proof (cases "scan_complete (scan_item env x newer s)")
    case True
    then show ?thesis
      using completes_at_turn_start [OF Cons.prems True] scan_all_settled [of "scan_item env x newer s" env older "x # newer"]
      by (simp add: Let_def del: scan_item.simps)
  next
    case False
    from Cons.IH [OF False] False show ?thesis by (simp add: Let_def del: scan_item.simps)
  qed
qed simp

lemma scan_rollout_or_full:
  "scan_rollout env rollout = full_scan env rollout \<or>
   scan_complete (scan_rollout env rollout) \<and> settled (scan_rollout env rollout) (full_scan env rollout)"
proof -
  have "\<not> scan_complete (start_scan rollout)" by (simp add: scan_complete_def start_scan_def)
  from scan_back_or_all [OF this, of env "rev rollout" "[]"] show ?thesis
  proof (elim disjE conjE)
    let ?s = "scan_back env (rev rollout) [] (start_scan rollout)"
    assume "scan_complete ?s" "active_segment ?s = None" "settled ?s (scan_all env (rev rollout) [] (start_scan rollout))"
    moreover from this(2) have "finish_scan ?s = ?s" by (simp add: finish_scan_def)
    ultimately show ?thesis unfolding scan_rollout_def full_scan_def using settled_trans finish_settled by metis
  qed (simp add: scan_rollout_def full_scan_def)
qed

text \<open>A found base brings a compaction into the world records, and its window number.\<close>

definition modern :: "('j, 'c, 'n) rollout_item \<Rightarrow> bool" where
  "modern x \<longleftrightarrow> \<not> lacks_window_number x \<and> \<not> is_legacy_compaction x"

definition base_marks :: "('j, 'c, 'n) replay_scan \<Rightarrow> bool" where
  "base_marks s \<longleftrightarrow>
     (base s \<noteq> None \<longrightarrow> list_ex is_compaction (scan_world s) \<and> scan_window s \<noteq> None) \<and>
     (segment_base (the_segment s) \<noteq> None \<longrightarrow>
        list_ex is_compaction (segment_world (the_segment s)) \<and> segment_window (the_segment s) \<noteq> None)"

lemma finalize_marks:
  assumes "base_marks s" "active_segment s = Some seg"
  shows "base_marks (finalize_active_segment seg (s\<lparr>active_segment := None\<rparr>))"
  using assms by (auto simp: base_marks_def segment_defs split: option.splits)

lemma scan_item_marks:
  assumes "base_marks s" "modern x"
  shows "base_marks (scan_item env x newer s)"
proof (cases "\<exists>t. x = EventMsg (TurnStarted t)")
  case True
  with assms(1) finalize_marks [OF assms(1)] show ?thesis by (auto split: option.split)
next
  case False
  with assms show ?thesis
    by (cases "(env, x, newer, s)" rule: scan_item.cases)
      (auto simp: base_marks_def modern_def segment_defs window_of_compaction_def split: option.splits)
qed

lemma scan_back_marks: "base_marks s \<Longrightarrow> list_all modern older \<Longrightarrow> base_marks (scan_back env older newer s)"
proof (induction older arbitrary: newer s)
  case (Cons x older)
  with scan_item_marks [of s x env newer] show ?case by (simp add: Let_def del: scan_item.simps)
qed simp

lemma scan_rollout_marks:
  assumes "list_all modern rollout"
  shows "base_marks (scan_rollout env rollout)"
proof -
  have "base_marks (start_scan rollout)" by (simp add: base_marks_def start_scan_def segment_defs)
  then have marks: "base_marks (scan_back env (rev rollout) [] (start_scan rollout))"
    using assms by (intro scan_back_marks) (auto simp: list_all_rev)
  then show ?thesis using finalize_marks [OF marks] by (auto simp: scan_rollout_def finish_scan_def split: option.split)
qed

lemma world_starts_over:
  assumes "list_ex is_compaction xs"
  shows "foldl replay_world_record b xs = foldl replay_world_record b' xs"
  using assms
proof (induction xs arbitrary: b b')
  case (Cons x xs)
  show ?case
  proof (cases "is_compaction x")
    case True
    then have "replay_world_record b x = replay_world_record b' x" by (cases x) auto
    then show ?thesis by simp
  next
    case False
    then have "list_ex is_compaction xs" using Cons.prems by simp
    then show ?thesis unfolding foldl_Cons by (rule Cons.IH)
  qed
qed simp

lemma suffix_of_rollout:
  assumes "scan_inv rollout seen s" "rollout = pre @ seen"
  shows "set (rollout_suffix s) \<subseteq> set rollout"
  using assms by (auto simp: scan_inv_def)

lemma modern_suffix:
  assumes "scan_inv rollout seen s" "rollout = pre @ seen" "list_all modern rollout"
  shows "\<not> list_ex is_legacy_compaction (rollout_suffix s)"
  using suffix_of_rollout [OF assms(1,2)] assms(3) by (auto simp: list_all_iff list_ex_iff modern_def)

text \<open>
  C29: Stopping early is harmless. For rollouts whose compactions carry a replacement history and a window number, the scan that stops once base, settings and reference are
  known rebuilds the same session, in every part, as one that goes back to the first item: history, settings, reference context, world state and window.
\<close>

theorem stopping_early_is_harmless:
  assumes "list_all (rollout_item_bounded env) rollout" "list_all modern rollout"
  shows "reconstruct_history_from_rollout env rollout = assemble env rollout (full_scan env rollout)"
  using scan_rollout_or_full [of env rollout]
proof (elim disjE conjE)
  let ?s = "scan_rollout env rollout" and ?f = "full_scan env rollout"
  assume complete: "scan_complete ?s" and settled: "settled ?s ?f"
  obtain pre seen where s: "rollout = pre @ seen" "scan_inv rollout seen ?s" using scan_rollout_inv by blast
  have f: "scan_inv rollout rollout ?f"
    using finish_scan_inv [OF scan_all_inv [OF start_scan_inv, of rollout "rev rollout" env]] by (simp add: full_scan_def)
  have same: "base ?f = base ?s" "base ?s \<noteq> None" "scan_settings ?f = scan_settings ?s" "scan_reference ?f = scan_reference ?s"
    using complete settled by (auto simp: scan_complete_def settled_def)
  obtain cm r where r: "replay_items env context_manager_new rollout = Some cm" "assemble env rollout ?s = Some r" "history r = items cm"
    using assembled_history [OF s(2,1) disjI1 [OF same(2)] assms(1)] by blast
  have "base ?f \<noteq> None" using same(1,2) by simp
  from assembled_history [OF f append_Nil [symmetric] disjI1 [OF this] assms(1)] obtain cm' r' where
    r': "replay_items env context_manager_new rollout = Some cm'" "assemble env rollout ?f = Some r'" "history r' = items cm'" by blast
  have marks: "list_ex is_compaction (scan_world ?s)" "scan_window ?s \<noteq> None"
    using scan_rollout_marks [OF assms(2), of env] same(2) by (auto simp: base_marks_def)
  then have "scan_window ?f = scan_window ?s" using settled by (simp add: settled_def)
  moreover obtain more where "scan_world ?f = scan_world ?s @ more" using settled by (auto simp: settled_def prefix_def)
  then have "foldl replay_world_record None (rev (scan_world ?f)) = foldl replay_world_record None (rev (scan_world ?s))"
    using world_starts_over [of "rev (scan_world ?s)"] marks(1) by (simp add: list_ex_rev)
  moreover have "history r = history r'" using r r' by simp
  ultimately have "r = r'"
    using r(2) r'(2) same modern_suffix [OF s(2,1) assms(2)] modern_suffix [OF f append_Nil [symmetric] assms(2)]
    by (auto simp: assemble_def)
  then show ?thesis using r(2) r'(2) by (simp add: reconstruct_history_from_rollout_def)
qed (simp add: reconstruct_history_from_rollout_def)

section \<open>Examples, and a loss\<close>

text \<open>
  Rolling back a turn in which the history was compacted loses the turns before it. The scan has already cut the rollout at the checkpoint when it
  finds that the turn is rolled back; without an older checkpoint nothing is left to replay, although the first turn survives.
\<close>

theorem rollback_of_compacted_turn_loses_history:
  assumes "replacement_history c = Some h" "context_turn_id ctx = Some a"
  shows "\<exists>r. reconstruct_history_from_rollout env
      [EventMsg (TurnStarted a), EventMsg UserMessageEvent, TurnContext ctx, RolloutResponse u, EventMsg (TurnComplete a),
       EventMsg (TurnStarted b), EventMsg UserMessageEvent, Compacted c, EventMsg (TurnComplete b), EventMsg (ThreadRolledBack 1)] = Some r \<and>
    history r = [] \<and> reference_context r = Some ctx"
  using assms
  by (simp add: reconstruct_history_from_rollout_def scan_rollout_def start_scan_def segment_defs scan_complete_def finish_scan_def
      turn_ids_are_compatible_def assemble_def context_manager_new_def drop_last_n_user_turns_def user_message_positions_def
      replace_def saturating_add_def usize_max_def)

definition sample_rollout_env :: "unit rollout_env" where
  "sample_rollout_env = \<lparr>history_env = sample_env, truncation_policy = Bytes 100, agent_input_text = (\<lambda>_. ()),
     agent_encrypted_content = (\<lambda>_. ()), parse_uuid = Some, uuid_version = (\<lambda>_. 7), triggers_turn = (\<lambda>_. False)\<rparr>"

definition sample_compaction :: "unit compacted_item" where
  "sample_compaction = \<lparr>compacted_message = [], replacement_history = Some [OtherItem], window_number = Some 1,
     first_window_id = Some [1], previous_window_id = None, window_id = Some [2]\<rparr>"

definition sample_context :: "unit turn_context_item" where
  "sample_context = \<lparr>context_turn_id = None, context_model = [5], context_comp_hash = None, context_realtime_active = None, context_rest = ()\<rparr>"

text \<open>Two turns; the first one compacts its history.\<close>

definition sample_rollout :: "(unit, unit, nat) rollout_item list" where
  "sample_rollout =
     [EventMsg (TurnStarted [1]), TurnContext sample_context, RolloutResponse CompactionTrigger, Compacted sample_compaction,
      EventMsg (TurnComplete [1]), EventMsg (TurnStarted [2]), EventMsg UserMessageEvent, TurnContext sample_context,
      RolloutResponse (Compaction None [7] None), EventMsg (TurnComplete [2])]"

lemmas sample_defs = sample_rollout_def sample_rollout_env_def sample_compaction_def sample_context_def sample_env_def

lemma sample_scan: "base (scan_rollout sample_rollout_env sample_rollout) = Some [OtherItem]"
  by (simp add: sample_defs scan_rollout_def start_scan_def segment_defs scan_complete_def finish_scan_def
      turn_ids_are_compatible_def window_of_compaction_def parse_uuid_v7_def)

lemma sample_bounded:
  "list_all (rollout_item_bounded sample_rollout_env) sample_rollout" "list_all modern sample_rollout"
  by (simp_all add: sample_defs texts_bounded_def output_texts_def modern_def)

lemma sample_replayed:
  "map_option items (replay_items sample_rollout_env context_manager_new sample_rollout) = Some [OtherItem, Compaction None [7] None]"
  by (simp add: sample_defs replace_def context_manager_new_def)

theorem resumed_history_is_full_replay_witness:
  "\<exists>r. reconstruct_history_from_rollout sample_rollout_env sample_rollout = Some r \<and> history r = [OtherItem, Compaction None [7] None]"
proof -
  have "base (scan_rollout sample_rollout_env sample_rollout) \<noteq> None \<or> \<not> list_ex is_checkpoint sample_rollout"
    by (simp add: sample_scan)
  from resumed_history_is_full_replay [OF sample_bounded(1) this] sample_replayed show ?thesis by auto
qed

theorem stopping_early_is_harmless_witness:
  "\<exists>r. assemble sample_rollout_env sample_rollout (full_scan sample_rollout_env sample_rollout) = Some r \<and>
     window_number_of (window r) = 1 \<and> reference_context r = Some sample_context"
proof -
  have "\<exists>r. reconstruct_history_from_rollout sample_rollout_env sample_rollout = Some r \<and>
     window_number_of (window r) = 1 \<and> reference_context r = Some sample_context"
    by (simp add: reconstruct_history_from_rollout_def assemble_def sample_defs scan_rollout_def start_scan_def segment_defs scan_complete_def
        finish_scan_def turn_ids_are_compatible_def window_of_compaction_def parse_uuid_v7_def replace_def context_manager_new_def)
  then show ?thesis using stopping_early_is_harmless [OF sample_bounded] by simp
qed

end
