(* ===== verification/Rollout_Turns.thy ===== *)
theory Rollout_Turns
  imports Rollout_Replay
begin

text \<open>
  Which turns of a rollout survive its rollbacks. The turns of a rollout begin at its start events; what precedes the first of them belongs to no turn.
  The scan from the end keeps the turns that a stack would keep which each marker pops; the settings of a resumed session are those of the
  newest user turn among them that has a context, and likewise its reference context. The second part
  cuts rollouts for forks (\<open>core/src/thread_rollout_truncation.rs\<close>).
\<close>

section \<open>Turns and rollbacks\<close>

type_synonym ('j, 'c, 'n) turn_body = "('j, 'c, 'n) rollout_item list"

type_synonym ('j, 'c, 'n) turn = "ustr \<times> ('j, 'c, 'n) turn_body"

text \<open>
  A turn is its start event and all items up to the next one, be it completed, aborted or neither: items recorded after it has ended, session
  metadata and rollback markers are part of the body.
\<close>

fun turn_items :: "('j, 'c, 'n) turn \<Rightarrow> ('j, 'c, 'n) rollout_item list" where
  "turn_items (t, body) = EventMsg (TurnStarted t) # body"

text \<open>The items of one turn: its end events and its contexts name no other turn.\<close>

fun inside_turn :: "ustr \<Rightarrow> ('j, 'c, 'n) rollout_item \<Rightarrow> bool" where
  "inside_turn t (EventMsg (TurnStarted t')) \<longleftrightarrow> False"
| "inside_turn t (EventMsg (TurnComplete t')) \<longleftrightarrow> t' = t"
| "inside_turn t (EventMsg (TurnAborted t')) \<longleftrightarrow> t' = None \<or> t' = Some t"
| "inside_turn t (TurnContext ctx) \<longleftrightarrow> context_turn_id ctx = None \<or> context_turn_id ctx = Some t"
| "inside_turn t _ \<longleftrightarrow> True"

fun marked_turns :: "('j, 'c, 'n) rollout_item \<Rightarrow> nat" where
  "marked_turns (EventMsg (ThreadRolledBack n)) = n"
| "marked_turns _ = 0"

definition rolled_back :: "('j, 'c, 'n) rollout_item list \<Rightarrow> nat" where
  "rolled_back xs = sum_list (map marked_turns xs)"

fun counts_item :: "'j rollout_env \<Rightarrow> ('j, 'c, 'n) rollout_item \<Rightarrow> bool" where
  "counts_item env (EventMsg UserMessageEvent) \<longleftrightarrow> True"
| "counts_item env (RolloutResponse item) \<longleftrightarrow> is_user_turn_boundary (history_env env) item"
| "counts_item env (InterAgent c) \<longleftrightarrow> True"
| "counts_item env _ \<longleftrightarrow> False"

definition user_turn :: "'j rollout_env \<Rightarrow> ('j, 'c, 'n) turn_body \<Rightarrow> bool" where
  "user_turn env body \<longleftrightarrow> list_ex (counts_item env) body"

definition settings_of :: "'c turn_context_item \<Rightarrow> previous_turn_settings" where
  "settings_of ctx = \<lparr>settings_model = context_model ctx, settings_comp_hash = context_comp_hash ctx,
     settings_realtime_active = context_realtime_active ctx\<rparr>"

text \<open>A turn has the settings of its first context, and the reference of its last context or compaction.\<close>

fun turn_settings :: "('j, 'c, 'n) turn_body \<Rightarrow> previous_turn_settings option" where
  "turn_settings [] = None"
| "turn_settings (TurnContext ctx # rest) = Some (settings_of ctx)"
| "turn_settings (_ # rest) = turn_settings rest"

definition item_reference :: "('j, 'c, 'n) rollout_item \<Rightarrow> 'c turn_reference" where
  "item_reference x = (case x of TurnContext ctx \<Rightarrow> Latest ctx | Compacted c \<Rightarrow> Cleared | _ \<Rightarrow> NeverSet)"

definition newest_reference :: "'c turn_reference \<Rightarrow> 'c turn_reference \<Rightarrow> 'c turn_reference" where
  "newest_reference older newer = (if newer = NeverSet then older else newer)"

fun turn_reference_of :: "('j, 'c, 'n) turn_body \<Rightarrow> 'c turn_reference" where
  "turn_reference_of [] = NeverSet"
| "turn_reference_of (x # rest) = newest_reference (item_reference x) (turn_reference_of rest)"

text \<open>The turns that are left, newest first: a marker takes away the newest user turns, and what is above them.\<close>

fun pop_turns :: "'j rollout_env \<Rightarrow> nat \<Rightarrow> ('j, 'c, 'n) turn_body list \<Rightarrow> ('j, 'c, 'n) turn_body list" where
  "pop_turns env 0 stack = stack"
| "pop_turns env (Suc n) [] = []"
| "pop_turns env (Suc n) (body # stack) = (if user_turn env body then pop_turns env n stack else pop_turns env (Suc n) stack)"

definition push_turn :: "'j rollout_env \<Rightarrow> ('j, 'c, 'n) turn_body list \<Rightarrow> ('j, 'c, 'n) turn_body \<Rightarrow> ('j, 'c, 'n) turn_body list" where
  "push_turn env stack body = pop_turns env (rolled_back body) (body # stack)"

definition surviving_turns :: "'j rollout_env \<Rightarrow> ('j, 'c, 'n) turn_body list \<Rightarrow> ('j, 'c, 'n) turn_body list" where
  "surviving_turns env bodies = foldl (push_turn env) [] bodies"

section \<open>The segment of a turn\<close>

lemma scan_all_append:
  "scan_all env (xs @ ys) newer s = scan_all env ys (rev xs @ newer) (scan_all env xs newer s)"
  by (induction xs arbitrary: newer s) (auto simp del: scan_item.simps)

text \<open>
  What the scan knows of the part of a turn that it has seen. It has no segment as long as there was nothing to note, and then only the
  markers have left a trace.
\<close>

definition segment_shows :: "'j rollout_env \<Rightarrow> ustr \<Rightarrow> ('j, 'c, 'n) turn_body \<Rightarrow> ('j, 'c, 'n) replay_scan \<Rightarrow> bool" where
  "segment_shows env t body s \<longleftrightarrow>
     (turn_id (the_segment s) = None \<or> turn_id (the_segment s) = Some t) \<and>
     counts_as_user_turn (the_segment s) = user_turn env body \<and> segment_settings (the_segment s) = turn_settings body \<and>
     segment_reference (the_segment s) = turn_reference_of body"

definition found :: "('j, 'c, 'n) replay_scan \<Rightarrow> previous_turn_settings option \<times> 'c turn_reference" where
  "found s = (scan_settings s, scan_reference s)"

lemma scan_inside_turn:
  assumes "inside_turn t x" "segment_shows env t body s" "pending_rollback_turns s + marked_turns x \<le> usize_max"
  shows "segment_shows env t (x # body) (scan_item env x newer s)"
    and "found (scan_item env x newer s) = found s"
    and "pending_rollback_turns (scan_item env x newer s) = pending_rollback_turns s + marked_turns x"
  using assms
  by (cases "(env, x, newer, s)" rule: scan_item.cases;
      auto simp: segment_shows_def found_def segment_defs user_turn_def settings_of_def turn_ids_are_compatible_def saturating_add_def
        newest_reference_def item_reference_def split: option.splits)+

lemma rolled_back_simps [simp]:
  "rolled_back [] = 0" "rolled_back (x # xs) = marked_turns x + rolled_back xs" "rolled_back (xs @ ys) = rolled_back xs + rolled_back ys"
  by (simp_all add: rolled_back_def)

lemma scan_body:
  assumes "list_all (inside_turn t) body" "active_segment s = None" "pending_rollback_turns s + rolled_back body \<le> usize_max"
  shows "segment_shows env t body (scan_all env (rev body) newer s) \<and> found (scan_all env (rev body) newer s) = found s \<and>
    pending_rollback_turns (scan_all env (rev body) newer s) = pending_rollback_turns s + rolled_back body"
  using assms(1,3)
proof (induction body)
  case Nil
  then show ?case using assms(2) by (simp add: segment_shows_def the_segment_def default_segment_def user_turn_def)
next
  case (Cons x body)
  let ?s = "scan_all env (rev body) newer s"
  have IH: "segment_shows env t body ?s" "found ?s = found s" "pending_rollback_turns ?s = pending_rollback_turns s + rolled_back body"
    using Cons by auto
  moreover have "inside_turn t x" "pending_rollback_turns ?s + marked_turns x \<le> usize_max" using Cons.prems IH(3) by auto
  ultimately show ?case using scan_inside_turn [of t x env body ?s "body @ newer"] by (simp add: scan_all_append del: scan_item.simps)
qed

text \<open>What a turn that is not rolled back adds to settings and reference.\<close>

definition turn_evidence :: "'j rollout_env \<Rightarrow> ('j, 'c, 'n) turn_body \<Rightarrow> 'c turn_reference" where
  "turn_evidence env body =
     (if user_turn env body \<or> turn_reference_of body = Cleared then turn_reference_of body else NeverSet)"

definition note_turn ::
  "'j rollout_env \<Rightarrow> previous_turn_settings option \<times> 'c turn_reference \<Rightarrow> ('j, 'c, 'n) turn_body \<Rightarrow>
     previous_turn_settings option \<times> 'c turn_reference" where
  "note_turn env so_far body =
     (or_else (fst so_far) (if user_turn env body then turn_settings body else None),
      newest_reference (turn_evidence env body) (snd so_far))"

text \<open>The end of a segment, at the start event of its turn or at the first item of the rollout.\<close>

lemma finish_segment:
  assumes "segment_shows env t body s"
  shows "active_segment (finish_scan s) = None"
    and "pending_rollback_turns (finish_scan s) = pending_rollback_turns s - (if user_turn env body then 1 else 0)"
    and "found (finish_scan s) = (if pending_rollback_turns s > 0 then found s else note_turn env (found s) body)"
  using assms
  by (auto simp: finish_scan_def the_segment_def default_segment_def finalize_active_segment_def segment_shows_def found_def note_turn_def
      turn_evidence_def newest_reference_def or_else_def split: option.splits)

lemma scan_start: "segment_shows env t body s \<Longrightarrow> scan_item env (EventMsg (TurnStarted t)) newer s = finish_scan s"
  by (auto simp: segment_shows_def finish_scan_def the_segment_def turn_ids_are_compatible_def split: option.split)

section \<open>Scanning back is popping a stack\<close>

lemma pop_turns_add: "pop_turns env (m + n) stack = pop_turns env m (pop_turns env n stack)"
  by (induction env n stack rule: pop_turns.induct) (auto, cases m, auto)

lemma pop_turns_nil [simp]: "pop_turns env n [] = []"
  by (cases n) auto

text \<open>One turn: what is found after the turn and from the stack below is what is found from the stack with the turn.\<close>

lemma scan_one_turn:
  assumes "list_all (inside_turn t) body" "active_segment s = None" "pending_rollback_turns s + rolled_back body \<le> usize_max"
    and "s' = finish_scan (scan_all env (rev body) newer s)"
  shows "active_segment s' = None"
    and "pending_rollback_turns s' \<le> pending_rollback_turns s + rolled_back body"
    and "foldl (note_turn env) (found s') (pop_turns env (pending_rollback_turns s') stack) =
      foldl (note_turn env) (found s) (pop_turns env (pending_rollback_turns s) (push_turn env stack body))"
proof -
  let ?s = "scan_all env (rev body) newer s" and ?n = "pending_rollback_turns s + rolled_back body"
  have body: "segment_shows env t body ?s" "found ?s = found s" "pending_rollback_turns ?s = ?n"
    using scan_body [OF assms(1-3)] by auto
  note finish = finish_segment [OF body(1), folded assms(4), unfolded body(2,3)]
  show "active_segment s' = None" "pending_rollback_turns s' \<le> pending_rollback_turns s + rolled_back body"
    using finish(1,2) by auto
  have "pop_turns env (pending_rollback_turns s) (push_turn env stack body) = pop_turns env ?n (body # stack)"
    by (simp add: push_turn_def pop_turns_add)
  with finish(2,3) show "foldl (note_turn env) (found s') (pop_turns env (pending_rollback_turns s') stack) =
      foldl (note_turn env) (found s) (pop_turns env (pending_rollback_turns s) (push_turn env stack body))"
    by (cases ?n) auto
qed

lemma scan_turns:
  assumes "\<forall>(t, body)\<in>set started. list_all (inside_turn t) body" "active_segment s = None"
    and "pending_rollback_turns s + rolled_back (concat (map turn_items started)) \<le> usize_max"
    and "s' = scan_all env (rev (concat (map turn_items started))) newer s"
  shows "active_segment s' = None \<and>
    pending_rollback_turns s' \<le> pending_rollback_turns s + rolled_back (concat (map turn_items started)) \<and>
    foldl (note_turn env) (found s') (pop_turns env (pending_rollback_turns s') stack) =
      foldl (note_turn env) (found s) (pop_turns env (pending_rollback_turns s) (foldl (push_turn env) stack (map snd started)))"
  using assms
proof (induction started arbitrary: newer s s' rule: rev_induct)
  case (snoc turn started)
  obtain t body where turn: "turn = (t, body)" by (cases turn)
  define s1 where "s1 = finish_scan (scan_all env (rev body) newer s)"
  have inside: "list_all (inside_turn t) body" using snoc.prems(1) turn by simp
  have few: "pending_rollback_turns s + rolled_back body \<le> usize_max" using snoc.prems(3) by (simp add: turn)
  note one = scan_one_turn [OF inside snoc.prems(2) few s1_def]
  have "scan_item env (EventMsg (TurnStarted t)) (body @ newer) (scan_all env (rev body) newer s) = s1"
    using scan_body [OF inside snoc.prems(2) few] scan_start unfolding s1_def by blast
  then have s': "s' = scan_all env (rev (concat (map turn_items started))) (turn_items turn @ newer) s1"
    using snoc.prems(4) by (simp add: turn scan_all_append del: scan_item.simps)
  have "pending_rollback_turns s1 + rolled_back (concat (map turn_items started)) \<le> usize_max"
    using one(2) snoc.prems(3) by (simp add: turn)
  with snoc.IH [OF _ one(1) _ s'] snoc.prems(1) one(2) one(3) [of "foldl (push_turn env) stack (map snd started)"]
  show ?case by (simp add: turn)
qed simp

lemma full_scan_found:
  assumes "rollout = preamble @ concat (map turn_items started)" "list_all (inside_turn t0) preamble"
    and "\<forall>(t, body)\<in>set started. list_all (inside_turn t) body" "rolled_back rollout \<le> usize_max"
  shows "found (full_scan env rollout) = foldl (note_turn env) (None, NeverSet) (surviving_turns env (preamble # map snd started))"
proof -
  let ?items = "concat (map turn_items started)"
  define s where "s = scan_all env (rev ?items) [] (start_scan rollout)"
  have start: "active_segment (start_scan rollout) = None" "pending_rollback_turns (start_scan rollout) = 0"
      "found (start_scan rollout) = (None, NeverSet)"
    by (simp_all add: start_scan_def found_def)
  have turns: "active_segment s = None" "pending_rollback_turns s \<le> rolled_back ?items"
      "foldl (note_turn env) (found s) (pop_turns env (pending_rollback_turns s) stack) =
        foldl (note_turn env) (None, NeverSet) (foldl (push_turn env) stack (map snd started))" for stack
    using scan_turns [OF assms(3) start(1) _ s_def, of stack] assms(1,4) start(2,3) by auto
  have "pending_rollback_turns s + rolled_back preamble \<le> usize_max" using turns(2) assms(1,4) by simp
  note first = scan_one_turn [OF assms(2) turns(1) this refl, of env ?items]
  have "full_scan env rollout = finish_scan (scan_all env (rev preamble) ?items s)"
    unfolding full_scan_def assms(1) s_def by (simp add: scan_all_append)
  with first(3) [of "[]"] turns(3) [of "push_turn env [] preamble"] show ?thesis by (simp add: surviving_turns_def)
qed

text \<open>The newest turn that has something to say.\<close>

definition first_settings :: "'j rollout_env \<Rightarrow> ('j, 'c, 'n) turn_body list \<Rightarrow> previous_turn_settings option" where
  "first_settings env = find_map (\<lambda>body. if user_turn env body then turn_settings body else None)"

definition first_reference :: "'j rollout_env \<Rightarrow> ('j, 'c, 'n) turn_body list \<Rightarrow> 'c turn_context_item option" where
  "first_reference env bodies =
     (case filter (\<lambda>r. r \<noteq> NeverSet) (map (turn_evidence env) bodies) of Latest ctx # _ \<Rightarrow> Some ctx | _ \<Rightarrow> None)"

lemma noted_settings: "fst (foldl (note_turn env) (st, rf) bodies) = or_else st (first_settings env bodies)"
  by (induction bodies arbitrary: st rf)
    (auto simp: note_turn_def first_settings_def find_map_def or_else_def map_filter_simps split: option.splits list.splits)

lemma noted_reference:
  "snd (foldl (note_turn env) (st, rf) bodies) =
     (if rf \<noteq> NeverSet then rf
      else case filter (\<lambda>r. r \<noteq> NeverSet) (map (turn_evidence env) bodies) of [] \<Rightarrow> NeverSet | r # _ \<Rightarrow> r)"
  by (induction bodies arbitrary: st rf) (auto simp: note_turn_def newest_reference_def)

lemma reconstruct_returns:
  assumes "list_all (rollout_item_bounded env) rollout"
  shows "\<exists>r. reconstruct_history_from_rollout env rollout = Some r"
proof -
  let ?s = "scan_rollout env rollout"
  let ?start = "case base ?s of Some h \<Rightarrow> replace h context_manager_new | None \<Rightarrow> context_manager_new"
  obtain pre seen where seen: "rollout = pre @ seen" "scan_inv rollout seen ?s" using scan_rollout_inv by blast
  have "list_all (rollout_item_bounded env) (rollout_suffix ?s)"
    using suffix_of_rollout [OF seen(2,1)] assms by (auto simp: list_all_iff)
  moreover have "list_all (user_bounded (history_env env)) (items ?start)"
  proof (cases "base ?s")
    case (Some h)
    then have "suffix_from h seen (rollout_suffix ?s)" using seen(2) by (simp add: scan_inv_def)
    then obtain c where "Compacted c \<in> set seen" "replacement_history c = Some h"
      unfolding suffix_from_def by (metis in_set_conv_decomp)
    moreover from this have "rollout_item_bounded env (Compacted c :: ('a, 'b, 'c) rollout_item)"
      using assms seen(1) by (auto simp: list_all_iff simp del: rollout_item_bounded.simps)
    ultimately show ?thesis using Some by (simp add: replace_def)
  qed (simp add: context_manager_new_def)
  ultimately show ?thesis
    using replay_items_ok [of env ?start "rollout_suffix ?s"] by (auto simp: reconstruct_history_from_rollout_def assemble_def)
qed

text \<open>
  C36: A resumed session continues from the turns that are left. Take a rollout in which no end event or context inside of a turn names another turn;
  there may be items before the first turn, turns may be completed, aborted or unfinished, and items may follow the end of a turn. Then it is rebuilt, and
  the settings of the previous turn are those of the newest user turn that has a context, on the stack that pushing the turns and popping at the markers
  leaves; without legacy compactions, the reference context is that of the newest turn there with a reference of a user or a compaction, and there
  is none if a compaction has cleared it. The scan does not look at the stack and may stop before the first turn.
\<close>

theorem resumed_settings_are_of_surviving_turns:
  assumes "rollout = preamble @ concat (map turn_items started)" "list_all (inside_turn t0) preamble"
    and "\<forall>(t, body)\<in>set started. list_all (inside_turn t) body" "rolled_back rollout \<le> usize_max"
    and "list_all (rollout_item_bounded env) rollout"
  shows "\<exists>r. reconstruct_history_from_rollout env rollout = Some r \<and>
    previous_settings r = first_settings env (surviving_turns env (preamble # map snd started)) \<and>
    (\<not> list_ex is_legacy_compaction rollout \<longrightarrow>
      reference_context r = first_reference env (surviving_turns env (preamble # map snd started)))"
proof -
  let ?s = "scan_rollout env rollout" and ?left = "surviving_turns env (preamble # map snd started)"
  obtain r where r: "reconstruct_history_from_rollout env rollout = Some r" using reconstruct_returns [OF assms(5)] by blast
  have "found ?s = found (full_scan env rollout)"
    using scan_rollout_or_full [of env rollout] by (auto simp: found_def settled_def scan_complete_def)
  also have "\<dots> = foldl (note_turn env) (None, NeverSet) ?left" by (rule full_scan_found [OF assms(1-4)])
  finally have scan: "scan_settings ?s = fst (foldl (note_turn env) (None, NeverSet) ?left)"
      "scan_reference ?s = snd (foldl (note_turn env) (None, NeverSet) ?left)"
    by (metis found_def fst_conv, metis found_def snd_conv)
  obtain pre seen where "rollout = pre @ seen" "scan_inv rollout seen ?s" using scan_rollout_inv by blast
  from suffix_of_rollout [OF this(2,1)] have "list_ex is_legacy_compaction (rollout_suffix ?s) \<Longrightarrow> list_ex is_legacy_compaction rollout"
    by (auto simp: list_ex_iff)
  with r scan show ?thesis
    by (auto simp: reconstruct_history_from_rollout_def assemble_def noted_settings noted_reference first_reference_def or_else_def
        split: list.splits)
qed

section \<open>Cutting rollouts for forks\<close>

definition is_real_user_message_boundary :: "'j rollout_env \<Rightarrow> 'j response_item \<Rightarrow> bool" where
  "is_real_user_message_boundary env item \<longleftrightarrow> parse_user_turn_item (history_env env) item \<noteq> None"

fun is_trigger_turn_boundary :: "'j rollout_env \<Rightarrow> 'j response_item \<Rightarrow> bool" where
  "is_trigger_turn_boundary env (Message _ role content _ _) \<longleftrightarrow>
     role = lit ''assistant'' \<and>
     (case content of [MessageInputText t] \<Rightarrow> triggers_turn env t | [MessageOutputText t] \<Rightarrow> triggers_turn env t | _ \<Rightarrow> False)"
| "is_trigger_turn_boundary env _ \<longleftrightarrow> False"

fun rollout_item_is_user_turn_boundary :: "'j rollout_env \<Rightarrow> ('j, 'c, 'n) rollout_item \<Rightarrow> bool" where
  "rollout_item_is_user_turn_boundary env (RolloutResponse item) \<longleftrightarrow> is_user_turn_boundary (history_env env) item"
| "rollout_item_is_user_turn_boundary env (InterAgent c) \<longleftrightarrow> True"
| "rollout_item_is_user_turn_boundary env _ \<longleftrightarrow> False"

fun is_user_message_item :: "'j rollout_env \<Rightarrow> ('j, 'c, 'n) rollout_item \<Rightarrow> bool" where
  "is_user_message_item env (RolloutResponse item) \<longleftrightarrow> is_real_user_message_boundary env item"
| "is_user_message_item env _ \<longleftrightarrow> False"

text \<open>Only messages parse as user messages, so the pattern on \<open>ResponseItem::Message\<close> adds nothing.\<close>

fun user_position_step :: "'j rollout_env \<Rightarrow> nat list \<Rightarrow> nat \<times> ('j, 'c, 'n) rollout_item \<Rightarrow> nat list" where
  "user_position_step env positions (idx, EventMsg (ThreadRolledBack n)) = take (length positions - n) positions"
| "user_position_step env positions (idx, item) = (if is_user_message_item env item then positions @ [idx] else positions)"

definition user_message_positions_in_rollout :: "'j rollout_env \<Rightarrow> ('j, 'c, 'n) rollout_item list \<Rightarrow> nat list" where
  "user_message_positions_in_rollout env rollout = foldl (user_position_step env) [] (enumerate 0 rollout)"

definition truncate_rollout_before_nth_user_message_from_start ::
  "'j rollout_env \<Rightarrow> ('j, 'c, 'n) rollout_item list \<Rightarrow> nat \<Rightarrow> ('j, 'c, 'n) rollout_item list" where
  "truncate_rollout_before_nth_user_message_from_start env rollout n_from_start =
     (if n_from_start = usize_max then rollout
      else let user_positions = user_message_positions_in_rollout env rollout
           in if length user_positions \<le> n_from_start then rollout else take (user_positions ! n_from_start) rollout)"

fun is_agent_message :: "'j response_item \<Rightarrow> bool" where
  "is_agent_message (AgentMessage _ _ _ _ _) \<longleftrightarrow> True"
| "is_agent_message _ \<longleftrightarrow> False"

fun is_delivery_metadata :: "('j, 'c, 'n) rollout_item \<Rightarrow> bool" where
  "is_delivery_metadata (InterAgentMetadata _) \<longleftrightarrow> True"
| "is_delivery_metadata _ \<longleftrightarrow> False"

text \<open>The positions that rollbacks count, and those where a fork may start.\<close>

definition roll_back_positions :: "nat \<Rightarrow> nat list \<times> nat list \<Rightarrow> nat list \<times> nat list" where
  "roll_back_positions n positions =
     (case positions of (counted, forks) \<Rightarrow>
        if n = 0 \<or> counted = [] then (counted, forks)
        else let start = (if n \<le> length counted then counted ! (length counted - n) else hd counted)
             in (take (length counted - n) counted, filter (\<lambda>p. p < start) forks))"

fun fork_position_step ::
  "'j rollout_env \<Rightarrow> ('j, 'c, 'n) rollout_item list \<Rightarrow> nat list \<times> nat list \<Rightarrow> nat \<times> ('j, 'c, 'n) rollout_item \<Rightarrow> nat list \<times> nat list" where
  "fork_position_step env rollout (counted, forks) (idx, RolloutResponse item) =
     (let has_delivery_metadata = is_agent_message item \<and> idx > 0 \<and> is_delivery_metadata (rollout ! (idx - 1))
      in (if is_user_turn_boundary (history_env env) item \<and> \<not> has_delivery_metadata then counted @ [idx] else counted,
          if is_real_user_message_boundary env item \<or> is_trigger_turn_boundary env item then forks @ [idx] else forks))"
| "fork_position_step env rollout (counted, forks) (idx, InterAgent c) =
     (counted @ [idx], if trigger_turn c then forks @ [idx] else forks)"
| "fork_position_step env rollout (counted, forks) (idx, InterAgentMetadata triggers) =
     (counted @ [idx], if triggers then forks @ [idx] else forks)"
| "fork_position_step env rollout positions (idx, EventMsg (ThreadRolledBack n)) = roll_back_positions n positions"
| "fork_position_step env rollout positions _ = positions"

definition fork_turn_positions_in_rollout :: "'j rollout_env \<Rightarrow> ('j, 'c, 'n) rollout_item list \<Rightarrow> nat list" where
  "fork_turn_positions_in_rollout env rollout = snd (foldl (fork_position_step env rollout) ([], []) (enumerate 0 rollout))"

definition truncate_rollout_to_last_n_fork_turns ::
  "'j rollout_env \<Rightarrow> ('j, 'c, 'n) rollout_item list \<Rightarrow> nat \<Rightarrow> ('j, 'c, 'n) rollout_item list" where
  "truncate_rollout_to_last_n_fork_turns env rollout n_from_end =
     (if n_from_end = 0 then []
      else case fork_turn_positions_in_rollout env rollout of
             [] \<Rightarrow> []
           | first # rest \<Rightarrow>
               let positions = first # rest
               in drop (if n_from_end \<le> length positions then positions ! (length positions - n_from_end) else first) rollout)"

lemma user_positions_snoc:
  "user_message_positions_in_rollout env (xs @ [x]) = user_position_step env (user_message_positions_in_rollout env xs) (length xs, x)"
  by (simp add: user_message_positions_in_rollout_def enumerate_append_eq)

lemma user_positions_valid:
  "\<forall>p\<in>set (user_message_positions_in_rollout env xs). p < length xs \<and> is_user_message_item env (xs ! p)"
proof (induction xs rule: rev_induct)
  case (snoc x xs)
  then have "\<forall>p\<in>set (user_message_positions_in_rollout env xs). p < length (xs @ [x]) \<and> is_user_message_item env ((xs @ [x]) ! p)"
    by (auto simp: nth_append)
  then show ?case
    unfolding user_positions_snoc
    by (cases "(env, user_message_positions_in_rollout env xs, (length xs, x))" rule: user_position_step.cases)
      (auto dest: in_set_takeD)
qed (simp add: user_message_positions_in_rollout_def)

text \<open>The positions are a stack: what follows a prefix of the rollout keeps a part of its positions and adds later ones.\<close>

lemma user_positions_stack:
  "\<exists>k later. user_message_positions_in_rollout env (xs @ ys) = take k (user_message_positions_in_rollout env xs) @ later \<and>
     (\<forall>p\<in>set later. length xs \<le> p)"
proof (induction ys rule: rev_induct)
  case Nil
  then show ?case by (intro exI [of _ "length (user_message_positions_in_rollout env xs)"] exI [of _ "[]"]) simp
next
  case (snoc y ys)
  then obtain k later where IH: "user_message_positions_in_rollout env (xs @ ys) = take k (user_message_positions_in_rollout env xs) @ later"
      "\<forall>p\<in>set later. length xs \<le> p"
    by blast
  let ?ps = "user_message_positions_in_rollout env (xs @ ys)"
  have step: "user_message_positions_in_rollout env (xs @ ys @ [y]) = user_position_step env ?ps (length (xs @ ys), y)"
    using user_positions_snoc [of env "xs @ ys" y] by simp
  have "\<exists>m. user_position_step env ?ps (length (xs @ ys), y) = take m ?ps \<or>
      user_position_step env ?ps (length (xs @ ys), y) = ?ps @ [length (xs @ ys)]"
    by (cases "(env, ?ps, (length (xs @ ys), y))" rule: user_position_step.cases) (auto intro: exI [of _ "length ?ps"])
  then show ?case
  proof (elim exE disjE)
    fix m
    assume "user_position_step env ?ps (length (xs @ ys), y) = take m ?ps"
    with IH step show ?thesis
      by (intro exI [of _ "min m k"] exI [of _ "take (m - length (take k (user_message_positions_in_rollout env xs))) later"])
        (auto simp: min.commute dest: in_set_takeD)
  next
    assume "user_position_step env ?ps (length (xs @ ys), y) = ?ps @ [length (xs @ ys)]"
    with IH step show ?thesis
      by (intro exI [of _ k] exI [of _ "later @ [length (xs @ ys)]"]) auto
  qed
qed

lemma stack_position:
  assumes "zs = take k (xs @ [i]) @ later" "zs ! n = i" "n < length zs" "\<forall>p\<in>set xs. p < i" "\<forall>p\<in>set later. Suc i \<le> p"
  shows "take n zs = xs"
proof -
  have n: "n < length (take k (xs @ [i]))"
  proof (rule ccontr)
    define ws where "ws = take k (xs @ [i])"
    assume "\<not> n < length (take k (xs @ [i]))"
    then have "i = later ! (n - length ws)" "n - length ws < length later"
      using assms(1-3) unfolding ws_def [symmetric] by (auto simp: nth_append)
    with assms(5) show False using nth_mem by fastforce
  qed
  then have "zs ! n = take k (xs @ [i]) ! n" unfolding assms(1) by (simp only: nth_append if_True)
  then have at: "(xs @ [i]) ! n = i" using n assms(2) by (simp del: take_append)
  have "n = length xs"
  proof (rule ccontr)
    assume "n \<noteq> length xs"
    with n have "n < length xs" by auto
    with at assms(4) show False using nth_mem by (fastforce simp: nth_append)
  qed
  with n assms(1) show ?thesis by simp
qed

text \<open>A position that is on the stack at the end has been there since its message was recorded.\<close>

lemma position_never_popped:
  assumes "p \<in> set (user_message_positions_in_rollout env (xs @ ys))" "p < length xs"
  shows "p \<in> set (user_message_positions_in_rollout env xs)"
proof -
  obtain k later where "user_message_positions_in_rollout env (xs @ ys) = take k (user_message_positions_in_rollout env xs) @ later"
      "\<forall>q\<in>set later. length xs \<le> q"
    using user_positions_stack by blast
  with assms show ?thesis by (auto dest: in_set_takeD)
qed


section \<open>Examples\<close>

text \<open>
  A session with metadata and an unbound context first; its first turn is aborted, the second one is completed and rolled back, and the third
  one is not finished.
\<close>

definition sample_user :: "ustr \<Rightarrow> (unit, unit, nat) rollout_item" where
  "sample_user t = RolloutResponse (user_message_item t None)"

definition sample_preamble :: "(unit, unit, nat) rollout_item list" where
  "sample_preamble = [SessionMeta None, TurnContext (sample_context\<lparr>context_model := [4]\<rparr>)]"

definition sample_turns :: "(unit, unit, nat) turn list" where
  "sample_turns =
     [([1], [TurnContext sample_context, sample_user [10], EventMsg (TurnAborted (Some [1])), EventMsg OtherEvent]),
      ([2], [TurnContext (sample_context\<lparr>context_model := [6]\<rparr>), sample_user [11], EventMsg (TurnComplete [2]), EventMsg (ThreadRolledBack 1)]),
      ([3], [sample_user [12]])]"

lemma sample_user_facts [simp]:
  "is_user_message_item sample_rollout_env (sample_user t)" "rollout_item_bounded sample_rollout_env (sample_user t) \<longleftrightarrow> byte_len t \<le> isize_max"
  "counts_item sample_rollout_env (sample_user t)"
  by (auto simp: sample_user_def is_real_user_message_boundary_def user_message_item_def parse_user_message_def
      is_contextual_user_message_content_def sample_rollout_env_def sample_env_def texts_bounded_def output_texts_def user_bounded_def
      user_input_of_def user_message_text_def map_filter_def is_media_label_def simp del: lit_Cons)

theorem resumed_settings_are_of_surviving_turns_witness:
  "\<exists>r. reconstruct_history_from_rollout sample_rollout_env (sample_preamble @ concat (map turn_items sample_turns)) = Some r \<and>
     previous_settings r = Some (settings_of sample_context) \<and> reference_context r = Some sample_context"
proof -
  let ?rollout = "sample_preamble @ concat (map turn_items sample_turns)"
  have bounded: "list_all (rollout_item_bounded sample_rollout_env) ?rollout"
    by (simp add: sample_preamble_def sample_turns_def len_utf8_def isize_max_def)
  have few: "rolled_back ?rollout \<le> usize_max" and modern: "\<not> list_ex is_legacy_compaction ?rollout"
    and inside: "list_all (inside_turn []) sample_preamble" "\<forall>(t, body)\<in>set sample_turns. list_all (inside_turn t) body"
    by (simp_all add: sample_preamble_def sample_turns_def sample_user_def sample_context_def usize_max_def)
  obtain r where r: "reconstruct_history_from_rollout sample_rollout_env ?rollout = Some r"
      "previous_settings r = first_settings sample_rollout_env (surviving_turns sample_rollout_env (sample_preamble # map snd sample_turns))"
      "reference_context r = first_reference sample_rollout_env (surviving_turns sample_rollout_env (sample_preamble # map snd sample_turns))"
    using resumed_settings_are_of_surviving_turns [OF refl inside few bounded] modern by blast
  have [simp]: "marked_turns (sample_user t) = 0" "turn_settings (sample_user t # xs) = turn_settings xs"
      "item_reference (sample_user t) = NeverSet" "item_reference (TurnContext c) = Latest c"
      "item_reference (EventMsg e) = NeverSet" "item_reference (SessionMeta w) = NeverSet" for t xs c e w
    by (simp_all add: sample_user_def item_reference_def)
  have "surviving_turns sample_rollout_env (sample_preamble # map snd sample_turns) =
      [snd (sample_turns ! 2), snd (sample_turns ! 0), sample_preamble]"
    by (simp add: surviving_turns_def push_turn_def sample_preamble_def sample_turns_def user_turn_def)
  with r show ?thesis
    by (auto simp: first_settings_def first_reference_def find_map_def map_filter_simps turn_evidence_def user_turn_def
        sample_turns_def sample_preamble_def newest_reference_def)
qed


end
