(* ===== verification/Permission_Profiles.thy ===== *)
theory Permission_Profiles
  imports Sandbox_Policy
begin

text \<open>
  What a turn may do and when it asks: approval policies and sandbox permissions
  (\<open>protocol/src/protocol.rs\<close>, \<open>protocol/src/models.rs\<close>), permission profiles and the runtime policies they stand
  for, the choice of a sandbox (\<open>sandboxing/src/policy_transforms.rs\<close>, \<open>sandboxing/src/manager.rs\<close>) and the
  requirements of \<open>core/src/tools/sandboxing.rs\<close>, for a Linux build. Theorems: a profile and its runtime
  policies determine each other; a policy with denied reads is always given a sandbox and never
  loses it on a first attempt.
\<close>

section \<open>Approval policies and profiles\<close>

record granular_approval_config =
  sandbox_approval :: bool
  rules_approval :: bool
  skill_approval :: bool
  request_permissions :: bool
  mcp_elicitations :: bool

datatype ask_for_approval = UnlessTrusted | OnRequest | Granular granular_approval_config | Never

definition allows_sandbox_approval :: "granular_approval_config \<Rightarrow> bool" where
  "allows_sandbox_approval g = sandbox_approval g"

definition allows_rules_approval :: "granular_approval_config \<Rightarrow> bool" where
  "allows_rules_approval g = rules_approval g"

datatype sandbox_permissions = UseDefault | RequireEscalated | WithAdditionalPermissions

definition requires_escalated_permissions :: "sandbox_permissions \<Rightarrow> bool" where
  "requires_escalated_permissions p \<longleftrightarrow> p = RequireEscalated"

definition requests_sandbox_override :: "sandbox_permissions \<Rightarrow> bool" where
  "requests_sandbox_override p \<longleftrightarrow> p \<noteq> UseDefault"

datatype sandbox_enforcement = EnforceManaged | EnforceDisabled | EnforceExternal

datatype managed_file_system_permissions =
    ManagedRestricted "file_system_sandbox_entry list" "nat option"
  | ManagedUnrestricted

text \<open>\<open>from_sandbox_policy\<close> calls \<open>unreachable!\<close> on an external policy; a depth of zero is no \<open>NonZeroUsize\<close>.\<close>

definition from_sandbox_policy :: "file_system_sandbox_policy \<Rightarrow> managed_file_system_permissions option" where
  "from_sandbox_policy policy =
     (case policy_kind policy of
        Restricted \<Rightarrow>
          Some (ManagedRestricted (policy_entries policy)
            (case glob_scan_max_depth policy of Some n \<Rightarrow> if n = 0 then None else Some n | None \<Rightarrow> None))
      | Unrestricted \<Rightarrow> Some ManagedUnrestricted
      | ExternalSandbox \<Rightarrow> None)"

fun to_sandbox_policy :: "managed_file_system_permissions \<Rightarrow> file_system_sandbox_policy" where
  "to_sandbox_policy (ManagedRestricted entries depth) =
     \<lparr>policy_kind = Restricted, glob_scan_max_depth = depth, policy_entries = entries\<rparr>"
| "to_sandbox_policy ManagedUnrestricted = unrestricted"

datatype permission_profile =
    Managed managed_file_system_permissions network_sandbox_policy
  | DisabledProfile
  | External network_sandbox_policy

fun enforcement :: "permission_profile \<Rightarrow> sandbox_enforcement" where
  "enforcement (Managed _ _) = EnforceManaged"
| "enforcement DisabledProfile = EnforceDisabled"
| "enforcement (External _) = EnforceExternal"

fun profile_file_system_policy :: "permission_profile \<Rightarrow> file_system_sandbox_policy" where
  "profile_file_system_policy (Managed file_system _) = to_sandbox_policy file_system"
| "profile_file_system_policy DisabledProfile = unrestricted"
| "profile_file_system_policy (External _) = external_sandbox"

fun profile_network_policy :: "permission_profile \<Rightarrow> network_sandbox_policy" where
  "profile_network_policy (Managed _ network) = network"
| "profile_network_policy DisabledProfile = NetworkEnabled"
| "profile_network_policy (External network) = network"

definition to_runtime_permissions :: "permission_profile \<Rightarrow> file_system_sandbox_policy \<times> network_sandbox_policy" where
  "to_runtime_permissions p = (profile_file_system_policy p, profile_network_policy p)"

definition from_runtime_permissions_with_enforcement ::
  "sandbox_enforcement \<Rightarrow> file_system_sandbox_policy \<Rightarrow> network_sandbox_policy \<Rightarrow> permission_profile option" where
  "from_runtime_permissions_with_enforcement enf policy network =
     (if policy_kind policy = ExternalSandbox then Some (External network)
      else if policy_kind policy = Unrestricted \<and> enf = EnforceDisabled then Some DisabledProfile
      else map_option (\<lambda>fs. Managed fs network) (from_sandbox_policy policy))"

definition from_runtime_permissions ::
  "file_system_sandbox_policy \<Rightarrow> network_sandbox_policy \<Rightarrow> permission_profile option" where
  "from_runtime_permissions policy network =
     from_runtime_permissions_with_enforcement
       (case policy_kind policy of ExternalSandbox \<Rightarrow> EnforceExternal | _ \<Rightarrow> EnforceManaged) policy network"

fun materialize_profile :: "disk \<Rightarrow> permission_profile \<Rightarrow> path list \<Rightarrow> permission_profile option" where
  "materialize_profile dk (Managed file_system network) roots =
     map_option (\<lambda>fs. Managed fs network)
       (from_sandbox_policy (materialize_project_roots_with_workspace_roots dk (to_sandbox_policy file_system) roots))"
| "materialize_profile dk DisabledProfile roots = Some DisabledProfile"
| "materialize_profile dk (External network) roots = Some (External network)"

section \<open>Choosing a sandbox\<close>

datatype sandbox_type = NoSandbox | MacosSeatbelt | LinuxSeccomp | WindowsRestrictedToken

datatype sandboxable_preference = Auto | Require | Forbid

text \<open>\<open>get_platform_sandbox\<close> on Linux.\<close>

definition get_platform_sandbox :: "bool \<Rightarrow> sandbox_type option" where
  "get_platform_sandbox windows_sandbox_enabled = Some LinuxSeccomp"

definition should_require_platform_sandbox :: "file_system_sandbox_policy \<Rightarrow> network_sandbox_policy \<Rightarrow> bool \<Rightarrow> bool" where
  "should_require_platform_sandbox policy network has_managed_network_requirements \<longleftrightarrow>
     (if has_managed_network_requirements then True
      else if \<not> network_is_enabled network then policy_kind policy \<noteq> ExternalSandbox
      else case policy_kind policy of
             Restricted \<Rightarrow> \<not> has_full_disk_write_access policy
           | _ \<Rightarrow> False)"

definition should_sandbox ::
  "file_system_sandbox_policy \<Rightarrow> network_sandbox_policy \<Rightarrow> sandboxable_preference \<Rightarrow> bool \<Rightarrow> bool" where
  "should_sandbox policy network pref has_managed_network_requirements \<longleftrightarrow>
     (case pref of
        Forbid \<Rightarrow> False
      | Require \<Rightarrow> True
      | Auto \<Rightarrow> should_require_platform_sandbox policy network has_managed_network_requirements)"

definition select_initial ::
  "file_system_sandbox_policy \<Rightarrow> network_sandbox_policy \<Rightarrow> sandboxable_preference \<Rightarrow> bool \<Rightarrow> bool \<Rightarrow> sandbox_type" where
  "select_initial policy network pref windows_sandbox_enabled has_managed_network_requirements =
     (if should_sandbox policy network pref has_managed_network_requirements
      then (case get_platform_sandbox windows_sandbox_enabled of Some s \<Rightarrow> s | None \<Rightarrow> NoSandbox)
      else NoSandbox)"

section \<open>Requirements of a tool call\<close>

type_synonym amendment = "ustr list"

datatype exec_approval_requirement =
    SkipApproval (bypass_sandbox: bool) (skip_amendment: "amendment option")
  | NeedsApproval "ustr option" "amendment option"
  | ForbiddenCall ustr

fun proposed_execpolicy_amendment :: "exec_approval_requirement \<Rightarrow> amendment option" where
  "proposed_execpolicy_amendment (NeedsApproval _ a) = a"
| "proposed_execpolicy_amendment (SkipApproval _ a) = a"
| "proposed_execpolicy_amendment (ForbiddenCall _) = None"

definition default_exec_approval_requirement ::
  "ask_for_approval \<Rightarrow> file_system_sandbox_policy \<Rightarrow> exec_approval_requirement" where
  "default_exec_approval_requirement policy fs =
     (let needs_approval =
            (case policy of
               Never \<Rightarrow> False
             | OnRequest \<Rightarrow> policy_kind fs = Restricted
             | Granular _ \<Rightarrow> policy_kind fs = Restricted
             | UnlessTrusted \<Rightarrow> True)
      in if needs_approval \<and> (case policy of Granular g \<Rightarrow> \<not> allows_sandbox_approval g | _ \<Rightarrow> False)
         then ForbiddenCall (lit ''approval policy disallowed sandbox approval prompt'')
         else if needs_approval then NeedsApproval None None
         else SkipApproval False None)"

datatype sandbox_override = NoOverride | BypassSandboxFirstAttempt

definition unsandboxed_execution_allowed :: "file_system_sandbox_policy \<Rightarrow> bool" where
  "unsandboxed_execution_allowed fs \<longleftrightarrow> \<not> has_denied_read_restrictions fs"

definition sandbox_override_for_first_attempt ::
  "sandbox_permissions \<Rightarrow> exec_approval_requirement \<Rightarrow> file_system_sandbox_policy \<Rightarrow> sandbox_override" where
  "sandbox_override_for_first_attempt permissions requirement fs =
     (if \<not> unsandboxed_execution_allowed fs then NoOverride
      else case requirement of
             SkipApproval True _ \<Rightarrow> BypassSandboxFirstAttempt
           | _ \<Rightarrow> if requires_escalated_permissions permissions then BypassSandboxFirstAttempt else NoOverride)"

definition sandbox_permissions_preserving_denied_reads ::
  "sandbox_permissions \<Rightarrow> file_system_sandbox_policy \<Rightarrow> sandbox_permissions" where
  "sandbox_permissions_preserving_denied_reads permissions fs =
     (if requires_escalated_permissions permissions \<and> \<not> unsandboxed_execution_allowed fs then UseDefault
      else permissions)"

definition managed_network_for_sandbox_permissions :: "'n option \<Rightarrow> sandbox_permissions \<Rightarrow> 'n option" where
  "managed_network_for_sandbox_permissions network permissions =
     (if requires_escalated_permissions permissions then None else network)"

text \<open>The defaults of the trait \<open>Approvable\<close>.\<close>

definition should_bypass_approval :: "ask_for_approval \<Rightarrow> bool \<Rightarrow> bool" where
  "should_bypass_approval policy already_approved \<longleftrightarrow> (if already_approved then True else policy = Never)"

fun wants_no_sandbox_approval :: "ask_for_approval \<Rightarrow> bool" where
  "wants_no_sandbox_approval UnlessTrusted \<longleftrightarrow> True"
| "wants_no_sandbox_approval Never \<longleftrightarrow> False"
| "wants_no_sandbox_approval OnRequest \<longleftrightarrow> False"
| "wants_no_sandbox_approval (Granular g) \<longleftrightarrow> sandbox_approval g"

section \<open>Approvals kept for the session\<close>

datatype network_rule_action = NetworkAllow | NetworkDeny

datatype review_decision =
    Approved
  | ApprovedExecpolicyAmendment amendment
  | ApprovedForSession
  | NetworkPolicyAmendment ustr network_rule_action
  | Denied ustr
  | TimedOut
  | Abort

text \<open>
  Keys are stored as their JSON text (\<open>to_json\<close>, from \<open>serde_json\<close>); a key that cannot be serialised is never found
  and never stored.
\<close>

type_synonym approval_store = "ustr \<rightharpoonup> review_decision"

definition approval_get :: "('k \<Rightarrow> ustr option) \<Rightarrow> approval_store \<Rightarrow> 'k \<Rightarrow> review_decision option" where
  "approval_get to_json store key = Option.bind (to_json key) store"

definition approval_put :: "('k \<Rightarrow> ustr option) \<Rightarrow> 'k \<Rightarrow> review_decision \<Rightarrow> approval_store \<Rightarrow> approval_store" where
  "approval_put to_json key value store = (case to_json key of Some s \<Rightarrow> store(s \<mapsto> value) | None \<Rightarrow> store)"

text \<open>
  \<open>with_cached_approval\<close>; \<open>fetch\<close> asks for a decision in the state \<open>w\<close> of the session. The flag says whether it was
  asked.
\<close>

definition with_cached_approval ::
  "('k \<Rightarrow> ustr option) \<Rightarrow> 'k list \<Rightarrow> ('w \<Rightarrow> review_decision \<times> 'w) \<Rightarrow> approval_store \<Rightarrow> 'w \<Rightarrow>
   review_decision \<times> bool \<times> approval_store \<times> 'w" where
  "with_cached_approval to_json keys fetch store w =
     (if keys = [] then (case fetch w of (d, w') \<Rightarrow> (d, True, store, w'))
      else if list_all (\<lambda>k. approval_get to_json store k = Some ApprovedForSession) keys
      then (ApprovedForSession, False, store, w)
      else case fetch w of
             (d, w') \<Rightarrow>
               (d, True,
                if d = ApprovedForSession then fold (\<lambda>k s. approval_put to_json k ApprovedForSession s) keys store
                else store, w'))"

section \<open>Profiles and runtime policies\<close>

text \<open>The promise of \<open>NonZeroUsize\<close>.\<close>

fun profile_wf :: "permission_profile \<Rightarrow> bool" where
  "profile_wf (Managed (ManagedRestricted _ depth) _) \<longleftrightarrow> depth \<noteq> Some 0"
| "profile_wf _ \<longleftrightarrow> True"

lemma from_to_sandbox_policy:
  "profile_wf (Managed fs network) \<Longrightarrow> from_sandbox_policy (to_sandbox_policy fs) = Some fs"
  by (cases fs) (auto simp: from_sandbox_policy_def unrestricted_def split: option.split)

text \<open>
  A permission profile is recovered from the runtime policies it stands for: converting it to its file-system and network
  policy and back with its own enforcement yields the profile again.
\<close>

theorem profile_runtime_roundtrip:
  assumes "profile_wf p"
  shows "from_runtime_permissions_with_enforcement (enforcement p) (fst (to_runtime_permissions p))
           (snd (to_runtime_permissions p)) = Some p"
proof (cases p)
  case (Managed fs network)
  have "policy_kind (to_sandbox_policy fs) \<noteq> ExternalSandbox" by (cases fs) (simp_all add: unrestricted_def)
  with Managed assms show ?thesis
    by (simp add: from_runtime_permissions_with_enforcement_def to_runtime_permissions_def from_to_sandbox_policy)
qed (simp_all add: from_runtime_permissions_with_enforcement_def to_runtime_permissions_def unrestricted_def
    external_sandbox_def)

theorem profile_runtime_roundtrip_witness:
  "from_runtime_permissions_with_enforcement EnforceManaged
     (to_sandbox_policy (ManagedRestricted [new_entry (Special Root) Read] (Some 3))) NetworkEnabled =
   Some (Managed (ManagedRestricted [new_entry (Special Root) Read] (Some 3)) NetworkEnabled)"
  using profile_runtime_roundtrip
    [of "Managed (ManagedRestricted [new_entry (Special Root) Read] (Some 3)) NetworkEnabled"]
  by (simp add: to_runtime_permissions_def)

lemma profile_entries_restricted:
  "e \<in> set (policy_entries (profile_file_system_policy p)) \<Longrightarrow> policy_kind (profile_file_system_policy p) = Restricted"
  by (cases p; cases "case p of Managed fs _ \<Rightarrow> fs | _ \<Rightarrow> ManagedUnrestricted")
    (auto simp: unrestricted_def external_sandbox_def)

text \<open>Filling in the workspace roots does not reach the \<open>unreachable!\<close>.\<close>

lemma materialize_profile_total: "materialize_profile dk p roots \<noteq> None"
proof (cases p)
  case (Managed fs network)
  then show ?thesis
    by (cases fs) (simp_all add: materialize_project_roots_with_workspace_roots_def from_sandbox_policy_def unrestricted_def)
qed simp_all

section \<open>Denied reads keep the sandbox\<close>

text \<open>
  An entry that denies reading of something on disk: every one but the special paths \<open>Minimal\<close> and \<open>Unknown\<close>, which name no
  location.
\<close>

definition denies_location :: "file_system_sandbox_entry \<Rightarrow> bool" where
  "denies_location e \<longleftrightarrow>
     entry_access e = Deny \<and>
     (case entry_path e of Special Minimal \<Rightarrow> False | Special (Unknown _ _) \<Rightarrow> False | _ \<Rightarrow> True)"

lemma denied_location_narrows_write:
  assumes "denies_location e"
  shows "entry_narrows_write policy e"
proof -
  have "\<not> has_same_target_write_override policy e"
    using assms by (auto simp: has_same_target_write_override_def denies_location_def less_file_system_access_mode_def)
  with assms show ?thesis
    by (auto simp: entry_narrows_write_def denies_location_def
        split: file_system_path.splits file_system_special_path.splits)
qed

lemma denied_location_needs_sandbox:
  assumes "policy_kind policy = Restricted" "e \<in> set (policy_entries policy)" "denies_location e" "pref \<noteq> Forbid"
  shows "should_sandbox policy network pref managed"
  using assms denied_location_narrows_write
  by (auto simp: should_sandbox_def should_require_platform_sandbox_def has_full_disk_write_access_def
      has_write_narrowing_entries_def split: sandboxable_preference.split)

lemma select_initial_sandboxed: "select_initial policy network pref w managed \<noteq> NoSandbox \<longleftrightarrow> should_sandbox policy network pref managed"
  by (simp add: select_initial_def get_platform_sandbox_def)

lemma denied_reads_no_override:
  "\<not> unsandboxed_execution_allowed fs \<Longrightarrow> sandbox_override_for_first_attempt permissions requirement fs = NoOverride"
  by (simp add: sandbox_override_for_first_attempt_def)

section \<open>Approvals for the session\<close>

lemma approval_get_put:
  "approval_get to_json (approval_put to_json k v store) k' =
     (if to_json k' \<noteq> None \<and> to_json k' = to_json k then Some v else approval_get to_json store k')"
  by (cases "to_json k'") (auto simp: approval_get_def approval_put_def split: option.split)

lemma approval_get_put_all:
  "approval_get to_json (fold (\<lambda>k s. approval_put to_json k v s) keys store) k' =
     (if to_json k' \<noteq> None \<and> to_json k' \<in> to_json ` set keys then Some v else approval_get to_json store k')"
  by (induction keys arbitrary: store) (auto simp: approval_get_put)

text \<open>
  "Approve for this session" is remembered key by key: once it has been given for a list of keys that can be serialised,
  every request whose keys are among them is answered the same way without asking, and an answer without asking is only
  given when each key of the request had been approved for the session.
\<close>

theorem session_approval_is_remembered:
  assumes "with_cached_approval to_json keys fetch store w = (ApprovedForSession, asked, store', w')"
    and "\<forall>k\<in>set keys. to_json k \<noteq> None" and "keys' \<noteq> []" and "set keys' \<subseteq> set keys"
  shows "with_cached_approval to_json keys' fetch' store' v = (ApprovedForSession, False, store', v) \<and>
    (\<not> asked \<longrightarrow> (\<forall>k\<in>set keys. approval_get to_json store k = Some ApprovedForSession))"
proof -
  from assms(3,4) have "keys \<noteq> []" by auto
  then have "\<forall>k\<in>set keys. approval_get to_json store' k = Some ApprovedForSession"
    using assms(1,2)
    by (auto simp: with_cached_approval_def approval_get_put_all list_all_iff split: if_splits prod.splits)
  with assms(3,4) have "with_cached_approval to_json keys' fetch' store' v = (ApprovedForSession, False, store', v)"
    by (auto simp: with_cached_approval_def list_all_iff)
  moreover have "\<forall>k\<in>set keys. approval_get to_json store k = Some ApprovedForSession" if "\<not> asked"
    using assms(1) that \<open>keys \<noteq> []\<close>
    by (auto simp: with_cached_approval_def list_all_iff split: if_splits prod.splits)
  ultimately show ?thesis by blast
qed

theorem session_approval_is_remembered_witness:
  "with_cached_approval Some [[1 :: nat]] (\<lambda>w. (Denied [], w)) (fst (snd (snd
       (with_cached_approval Some [[1], [2]] (\<lambda>w. (ApprovedForSession, w)) Map.empty (0 :: nat))))) (5 :: nat) =
     (ApprovedForSession, False, Map.empty([1] \<mapsto> ApprovedForSession, [2] \<mapsto> ApprovedForSession), 5)"
proof -
  have asked: "with_cached_approval Some [[1 :: nat], [2]] (\<lambda>w. (ApprovedForSession, w)) Map.empty (0 :: nat) =
      (ApprovedForSession, True, Map.empty([1] \<mapsto> ApprovedForSession, [2] \<mapsto> ApprovedForSession), 0)"
    by (simp add: with_cached_approval_def approval_get_def approval_put_def)
  show ?thesis
    using session_approval_is_remembered [OF asked, of "[[1]]" "\<lambda>w. (Denied [], w)" "5 :: nat"]
    unfolding asked by simp
qed

end
