(* ===== verification/Exec_Approval.thy ===== *)
theory Exec_Approval
  imports Policy_Builder Command_Safety Permission_Profiles
begin

text \<open>
  How a command is cleared to run (\<open>core/src/exec_policy.rs\<close>, for a Linux build): the shell script is taken apart,
  its commands are checked against the execution policy, unmatched ones are judged by the safe and dangerous
  command lists under the turn's approval policy and permission profile, and the outcome says whether
  to run, to ask or to refuse, and which rule to propose; the manager's updates of its policy;
  and the loading of the policy from the configuration layers. The bash parser is a parameter, and so are
  \<open>shlex\<close>, the Starlark interpreter and the file operations, as in the theories imported.
\<close>

section \<open>Data\<close>

definition BANNED_PREFIX_SUGGESTIONS :: "ustr list list" where
  "BANNED_PREFIX_SUGGESTIONS = map (map lit)
     [[''/bin/bash''], [''/bin/bash'', ''-c''], [''/bin/bash'', ''-lc''], [''/bin/sh''], [''/bin/sh'', ''-c''],
      [''/bin/sh'', ''-lc''], [''/bin/zsh''], [''/bin/zsh'', ''-c''], [''/bin/zsh'', ''-lc''], [''Rscript''],
      [''bash''], [''bash'', ''-c''], [''bash'', ''-lc''], [''bun''], [''bun'', ''-e''],
      [''bun'', ''run''], [''cmd''], [''cmd'', ''/c''], [''cmd'', ''/k''], [''cmd.exe''],
      [''cmd.exe'', ''/c''], [''cmd.exe'', ''/k''], [''dash''], [''dash'', ''-c''], [''deno''],
      [''deno'', ''eval''], [''env''], [''fish''], [''fish'', ''-c''], [''git''],
      [''julia''], [''julia'', ''-e''], [''ksh''], [''ksh'', ''-c''], [''lua''],
      [''lua'', ''-e''], [''node''], [''node'', ''-e''], [''nodejs''], [''nodejs'', ''-e''],
      [''npm'', ''run''], [''osascript''], [''perl''], [''perl'', ''-e''], [''php''],
      [''php'', ''-r''], [''pnpm'', ''run''], [''powershell''], [''powershell'', ''-Command''], [''powershell'', ''-EncodedCommand''],
      [''powershell'', ''-File''], [''powershell'', ''-c''], [''powershell.exe''], [''powershell.exe'', ''-Command''], [''powershell.exe'', ''-EncodedCommand''],
      [''powershell.exe'', ''-File''], [''powershell.exe'', ''-c''], [''pwsh''], [''pwsh'', ''-Command''], [''pwsh'', ''-EncodedCommand''],
      [''pwsh'', ''-File''], [''pwsh'', ''-c''], [''pwsh'', ''-e''], [''pwsh'', ''-ec''], [''pwsh'', ''-f''],
      [''py''], [''py'', ''-3''], [''pypy''], [''pypy3''], [''python''],
      [''python'', ''-''], [''python'', ''-c''], [''python3''], [''python3'', ''-''], [''python3'', ''-c''],
      [''pythonw''], [''pyw''], [''rm''], [''ruby''], [''ruby'', ''-e''],
      [''sh''], [''sh'', ''-c''], [''sh'', ''-lc''], [''sudo''], [''yarn'', ''run''],
      [''zsh''], [''zsh'', ''-c''], [''zsh'', ''-lc'']]"

definition PROMPT_CONFLICT_REASON :: ustr where
  "PROMPT_CONFLICT_REASON = lit ''approval required by policy, but AskForApproval is set to Never''"

definition REJECT_SANDBOX_APPROVAL_REASON :: ustr where
  "REJECT_SANDBOX_APPROVAL_REASON =
     lit ''approval required by policy, but AskForApproval::Granular.sandbox_approval is false''"

definition REJECT_RULES_APPROVAL_REASON :: ustr where
  "REJECT_RULES_APPROVAL_REASON =
     lit ''approval required by policy rule, but AskForApproval::Granular.rules is false''"

text \<open>\<open>cfg!(windows)\<close>.\<close>

definition cfg_windows :: bool where
  "cfg_windows = False"

record unmatched_command_context =
  ctx_approval_policy :: ask_for_approval
  ctx_permission_profile :: permission_profile
  ctx_windows_sandbox_disabled :: bool
  ctx_sandbox_permissions :: sandbox_permissions
  ctx_used_complex_parsing :: bool

record exec_policy_commands =
  parsed_commands :: "ustr list list"
  used_complex_parsing :: bool

record exec_approval_request =
  req_command :: "ustr list"
  req_approval_policy :: ask_for_approval
  req_permission_profile :: permission_profile
  req_windows_sandbox_disabled :: bool
  req_sandbox_permissions :: sandbox_permissions
  req_prefix_rule :: "ustr list option"

fun is_policy_match :: "rule_match \<Rightarrow> bool" where
  "is_policy_match (PrefixRuleMatch _ _ _ _) \<longleftrightarrow> True"
| "is_policy_match (HeuristicsRuleMatch _ _) \<longleftrightarrow> False"

fun prompt_is_rejected_by_policy :: "ask_for_approval \<Rightarrow> bool \<Rightarrow> ustr option" where
  "prompt_is_rejected_by_policy Never prompt_is_rule = Some PROMPT_CONFLICT_REASON"
| "prompt_is_rejected_by_policy OnRequest prompt_is_rule = None"
| "prompt_is_rejected_by_policy UnlessTrusted prompt_is_rule = None"
| "prompt_is_rejected_by_policy (Granular g) prompt_is_rule =
     (if prompt_is_rule
      then (if \<not> allows_rules_approval g then Some REJECT_RULES_APPROVAL_REASON else None)
      else if \<not> allows_sandbox_approval g then Some REJECT_SANDBOX_APPROVAL_REASON
      else None)"

section \<open>Judging unmatched commands\<close>

definition profile_has_managed_filesystem_restrictions :: "permission_profile \<Rightarrow> bool" where
  "profile_has_managed_filesystem_restrictions p \<longleftrightarrow>
     (case p of Managed _ _ \<Rightarrow> True | _ \<Rightarrow> False) \<and>
     policy_kind (profile_file_system_policy p) = Restricted \<and>
     \<not> has_full_disk_write_access (profile_file_system_policy p)"

definition render_decision_for_unmatched_command ::
  "shell_parser \<Rightarrow> ustr list \<Rightarrow> unmatched_command_context \<Rightarrow> decision" where
  "render_decision_for_unmatched_command parser command ctx =
     (let approval_policy = ctx_approval_policy ctx;
          file_system_kind = policy_kind (profile_file_system_policy (ctx_permission_profile ctx));
          windows_without_backend =
            cfg_windows \<and> ctx_windows_sandbox_disabled ctx \<and>
            profile_has_managed_filesystem_restrictions (ctx_permission_profile ctx)
      in if is_known_safe_command parser command \<and> \<not> ctx_used_complex_parsing ctx \<and>
            (approval_policy = UnlessTrusted \<or> windows_without_backend)
         then Allow
         else if dangerous_command_match parser command \<noteq> None \<or> windows_without_backend
         then (if approval_policy = Never then Forbidden else Prompt)
         else case approval_policy of
                Never \<Rightarrow> Allow
              | UnlessTrusted \<Rightarrow> Prompt
              | _ \<Rightarrow>
                  (case file_system_kind of
                     Restricted \<Rightarrow> if requests_sandbox_override (ctx_sandbox_permissions ctx) then Prompt else Allow
                   | _ \<Rightarrow> Allow))"

definition commands_for_exec_policy :: "shell_parser \<Rightarrow> ustr list \<Rightarrow> exec_policy_commands" where
  "commands_for_exec_policy parser command =
     (case parse_shell_lc_plain_commands parser command of
        Some (c # cs) \<Rightarrow> \<lparr>parsed_commands = c # cs, used_complex_parsing = False\<rparr>
      | _ \<Rightarrow>
          (case parse_shell_lc_single_command_prefix parser command of
             Some single_command \<Rightarrow> \<lparr>parsed_commands = [single_command], used_complex_parsing = True\<rparr>
           | None \<Rightarrow> \<lparr>parsed_commands = [command], used_complex_parsing = False\<rparr>))"

definition dangerous_command_match_for_heuristics ::
  "shell_parser \<Rightarrow> evaluation \<Rightarrow> decision \<Rightarrow> dangerous_match option" where
  "dangerous_command_match_for_heuristics parser ev d =
     find_map (\<lambda>m. case m of
         HeuristicsRuleMatch command matched_decision \<Rightarrow>
           if matched_decision = d then dangerous_command_match parser command else None
       | _ \<Rightarrow> None) (matched_rules ev)"

section \<open>Proposed rules\<close>

definition try_derive_execpolicy_amendment_for_prompt_rules :: "rule_match list \<Rightarrow> amendment option" where
  "try_derive_execpolicy_amendment_for_prompt_rules ms =
     (if list_ex (\<lambda>m. is_policy_match m \<and> rm_decision m = Prompt) ms then None
      else find_map (\<lambda>m. case m of
          HeuristicsRuleMatch command Prompt \<Rightarrow> Some command
        | _ \<Rightarrow> None) ms)"

definition try_derive_execpolicy_amendment_for_allow_rules :: "rule_match list \<Rightarrow> amendment option" where
  "try_derive_execpolicy_amendment_for_allow_rules ms =
     (if list_ex is_policy_match ms then None
      else find_map (\<lambda>m. case m of
          HeuristicsRuleMatch command Allow \<Rightarrow> Some command
        | _ \<Rightarrow> None) ms)"

definition prefix_rule_would_approve_all_commands ::
  "path_env \<Rightarrow> policy \<Rightarrow> ustr list \<Rightarrow> ustr list list \<Rightarrow> (ustr list \<Rightarrow> decision) \<Rightarrow> match_options \<Rightarrow> bool" where
  "prefix_rule_would_approve_all_commands env p pfx commands fallback opts \<longleftrightarrow>
     (case add_prefix_rule p pfx Allow of
        Inl _ \<Rightarrow> False
      | Inr p' \<Rightarrow>
          list_all (\<lambda>command. map_option ev_decision (check_with_options env p' command fallback opts) = Some Allow)
            commands)"

definition derive_requested_execpolicy_amendment_from_prefix_rule ::
  "path_env \<Rightarrow> ustr list option \<Rightarrow> rule_match list \<Rightarrow> policy \<Rightarrow> ustr list list \<Rightarrow> (ustr list \<Rightarrow> decision) \<Rightarrow> match_options \<Rightarrow>
   amendment option" where
  "derive_requested_execpolicy_amendment_from_prefix_rule env pfx ms p commands fallback opts =
     (case pfx of
        None \<Rightarrow> None
      | Some prefix_rule \<Rightarrow>
          if prefix_rule = [] then None
          else if list_ex (\<lambda>banned. prefix_rule = banned) BANNED_PREFIX_SUGGESTIONS then None
          else if list_ex is_policy_match ms then None
          else if prefix_rule_would_approve_all_commands env p prefix_rule commands fallback opts
          then Some prefix_rule
          else None)"

section \<open>Reasons\<close>

definition backticked :: "ustr \<Rightarrow> ustr" where
  "backticked s = [96] @ s @ [96]"

definition render_shlex_command :: "(ustr list \<Rightarrow> ustr option) \<Rightarrow> ustr list \<Rightarrow> ustr" where
  "render_shlex_command try_join args = (case try_join args of Some s \<Rightarrow> s | None \<Rightarrow> join (lit '' '') args)"

fun dangerous_command_rejection_reason :: "dangerous_match \<Rightarrow> ustr" where
  "dangerous_command_rejection_reason ForcedRm = lit ''rm -f style commands are not permitted. Use a safer approach''"
| "dangerous_command_rejection_reason Other = lit ''blocked by policy''"

definition rule_justifications :: "decision \<Rightarrow> rule_match list \<Rightarrow> (ustr list \<times> ustr option) list" where
  "rule_justifications d ms =
     List.map_filter (\<lambda>m. case m of
         PrefixRuleMatch pfx d' _ justification \<Rightarrow> if d' = d then Some (pfx, justification) else None
       | _ \<Rightarrow> None) ms"

definition derive_prompt_reason :: "(ustr list \<Rightarrow> ustr option) \<Rightarrow> ustr list \<Rightarrow> evaluation \<Rightarrow> ustr option" where
  "derive_prompt_reason try_join command_args ev =
     (let command = backticked (render_shlex_command try_join command_args)
      in case max_by_key (\<lambda>(pfx, _). length pfx) (rule_justifications Prompt (matched_rules ev)) of
           Some (_, Some justification) \<Rightarrow> Some (command @ lit '' requires approval: '' @ justification)
         | Some (_, None) \<Rightarrow> Some (command @ lit '' requires approval by policy'')
         | None \<Rightarrow> None)"

definition derive_forbidden_reason ::
  "(ustr list \<Rightarrow> ustr option) \<Rightarrow> ustr list \<Rightarrow> evaluation \<Rightarrow> dangerous_match option \<Rightarrow> ustr" where
  "derive_forbidden_reason try_join command_args ev dangerous =
     (let command = backticked (render_shlex_command try_join command_args)
      in case max_by_key (\<lambda>(pfx, _). length pfx) (rule_justifications Forbidden (matched_rules ev)) of
           Some (_, Some justification) \<Rightarrow> command @ lit '' rejected: '' @ justification
         | Some (pfx, None) \<Rightarrow>
             command @ lit '' rejected: policy forbids commands starting with '' @
             backticked (render_shlex_command try_join pfx)
         | None \<Rightarrow>
             (case dangerous of
                Some m \<Rightarrow> command @ lit '' rejected: '' @ dangerous_command_rejection_reason m
              | None \<Rightarrow> command @ lit '' rejected: blocked by policy''))"

definition derive_rejected_prompt_reason :: "ustr \<Rightarrow> dangerous_match option \<Rightarrow> ustr" where
  "derive_rejected_prompt_reason fallback_reason dangerous =
     (if dangerous = Some ForcedRm then dangerous_command_rejection_reason ForcedRm else fallback_reason)"

section \<open>The requirement for a command\<close>

definition unmatched_context :: "exec_approval_request \<Rightarrow> bool \<Rightarrow> unmatched_command_context" where
  "unmatched_context req complex_parsing =
     \<lparr>ctx_approval_policy = req_approval_policy req, ctx_permission_profile = req_permission_profile req,
      ctx_windows_sandbox_disabled = req_windows_sandbox_disabled req,
      ctx_sandbox_permissions = req_sandbox_permissions req, ctx_used_complex_parsing = complex_parsing\<rparr>"

definition host_match_options :: match_options where
  "host_match_options = \<lparr>resolve_host_executables = True\<rparr>"

definition requested_amendment ::
  "path_env \<Rightarrow> shell_parser \<Rightarrow> policy \<Rightarrow> exec_approval_request \<Rightarrow> evaluation \<Rightarrow> amendment option" where
  "requested_amendment env parser p req ev =
     (let parsed = commands_for_exec_policy parser (req_command req)
      in if \<not> used_complex_parsing parsed
         then derive_requested_execpolicy_amendment_from_prefix_rule env (req_prefix_rule req) (matched_rules ev) p
                (parsed_commands parsed)
                (\<lambda>cmd. render_decision_for_unmatched_command parser cmd
                   (unmatched_context req (used_complex_parsing parsed)))
                host_match_options
         else None)"

definition requirement_of_evaluation ::
  "path_env \<Rightarrow> shell_parser \<Rightarrow> (ustr list \<Rightarrow> ustr option) \<Rightarrow> policy \<Rightarrow> exec_approval_request \<Rightarrow> evaluation \<Rightarrow>
   exec_approval_requirement" where
  "requirement_of_evaluation env parser try_join p req ev =
     (let parsed = commands_for_exec_policy parser (req_command req);
          commands = parsed_commands parsed;
          auto_amendment_allowed = \<not> used_complex_parsing parsed
      in case ev_decision ev of
           Forbidden \<Rightarrow>
             ForbiddenCall (derive_forbidden_reason try_join (req_command req) ev
               (dangerous_command_match_for_heuristics parser ev Forbidden))
         | Prompt \<Rightarrow>
             (let prompt_is_rule = list_ex (\<lambda>m. is_policy_match m \<and> rm_decision m = Prompt) (matched_rules ev)
              in case prompt_is_rejected_by_policy (req_approval_policy req) prompt_is_rule of
                   Some reason \<Rightarrow>
                     if prompt_is_rule then ForbiddenCall reason
                     else ForbiddenCall (derive_rejected_prompt_reason reason
                            (dangerous_command_match_for_heuristics parser ev Prompt))
                 | None \<Rightarrow>
                     NeedsApproval (derive_prompt_reason try_join (req_command req) ev)
                       (case requested_amendment env parser p req ev of
                          Some a \<Rightarrow> Some a
                        | None \<Rightarrow>
                            if auto_amendment_allowed
                            then try_derive_execpolicy_amendment_for_prompt_rules (matched_rules ev) else None))
         | Allow \<Rightarrow>
             SkipApproval
               (list_all (\<lambda>command.
                  list_ex (\<lambda>m. is_policy_match m \<and> rm_decision m = Allow)
                    (matches_for_command_with_options env p command None host_match_options)) commands)
               (if auto_amendment_allowed
                then try_derive_execpolicy_amendment_for_allow_rules (matched_rules ev) else None))"

text \<open>\<open>None\<close> is the panic of an evaluation without matches.\<close>

definition create_exec_approval_requirement_for_command ::
  "path_env \<Rightarrow> shell_parser \<Rightarrow> (ustr list \<Rightarrow> ustr option) \<Rightarrow> policy \<Rightarrow> exec_approval_request \<Rightarrow>
   exec_approval_requirement option" where
  "create_exec_approval_requirement_for_command env parser try_join p req =
     (let parsed = commands_for_exec_policy parser (req_command req)
      in map_option (requirement_of_evaluation env parser try_join p req)
           (check_multiple_with_options env p (parsed_commands parsed)
              (\<lambda>cmd. render_decision_for_unmatched_command parser cmd
                 (unmatched_context req (used_complex_parsing parsed)))
              host_match_options))"

section \<open>Updating the policy\<close>

datatype exec_policy_update_error =
    AppendRule amend_error
  | AddRule exec_error

text \<open>
  The state is the policy in memory and the text of the default policy file. The update lock admits one
  update at a time, so that an update is one step; a failure to join the blocking task (a panic in it) is left
  out.
\<close>

type_synonym exec_policy_state = "policy \<times> ustr"

definition append_amendment_and_update ::
  "path_env \<Rightarrow> (ustr \<Rightarrow> ustr + ustr) \<Rightarrow> amend_io \<Rightarrow> amendment \<Rightarrow> exec_policy_state \<Rightarrow>
   (exec_policy_update_error + unit) \<times> exec_policy_state" where
  "append_amendment_and_update env to_json io command st =
     (case st of (p, contents) \<Rightarrow>
        (case blocking_append_allow_prefix_rule to_json io contents command of
           (Inl e, contents') \<Rightarrow> (Err (AppendRule e), (p, contents'))
         | (Inr _, contents') \<Rightarrow>
             (let already_allowed =
                    (case check_multiple_with_options env p [command] (\<lambda>_. Forbidden) host_match_options of
                       Some ev \<Rightarrow>
                         ev_decision ev = Allow \<and>
                         list_ex (\<lambda>m. is_policy_match m \<and> rm_decision m = Allow) (matched_rules ev)
                     | None \<Rightarrow> False)
              in if already_allowed then (Ok (), (p, contents'))
                 else case add_prefix_rule p command Allow of
                        Inl e \<Rightarrow> (Err (AddRule e), (p, contents'))
                      | Inr p' \<Rightarrow> (Ok (), (p', contents')))))"

definition append_network_rule_and_update ::
  "(ustr \<Rightarrow> ustr + ustr) \<Rightarrow> amend_io \<Rightarrow> ustr \<Rightarrow> network_rule_protocol \<Rightarrow> decision \<Rightarrow> ustr option \<Rightarrow> exec_policy_state \<Rightarrow>
   (exec_policy_update_error + unit) \<times> exec_policy_state" where
  "append_network_rule_and_update to_json io host protocol d justification st =
     (case st of (p, contents) \<Rightarrow>
        (case blocking_append_network_rule to_json io contents host protocol d justification of
           (Inl e, contents') \<Rightarrow> (Err (AppendRule e), (p, contents'))
         | (Inr _, contents') \<Rightarrow>
             (case add_network_rule p host protocol d justification of
                Inl e \<Rightarrow> (Err (AddRule e), (p, contents'))
              | Inr p' \<Rightarrow> (Ok (), (p', contents')))))"

section \<open>Loading the policy\<close>

datatype exec_policy_load_error =
    ReadDir path ustr
  | ReadFile path ustr
  | ParsePolicy ustr exec_error

text \<open>
  A directory is missing, unreadable, or a sequence of entries, each of which may fail to be read; an
  entry's file type may also fail.
\<close>

record dir_entry =
  dir_entry_path :: path
  dir_entry_is_file :: "ustr + bool"

datatype read_dir_outcome = DirMissing | DirUnreadable ustr | DirListing "(ustr + dir_entry) list"

text \<open>\<open>Path::extension\<close>.\<close>

definition path_extension :: "path \<Rightarrow> ustr option" where
  "path_extension p =
     (case file_name p of
        None \<Rightarrow> None
      | Some n \<Rightarrow>
          (case rsplit_once 46 n of
             None \<Rightarrow> None
           | Some (before, ext) \<Rightarrow> if before = [] then None else Some ext))"

fun collect_rule_entries :: "path \<Rightarrow> (ustr + dir_entry) list \<Rightarrow> exec_policy_load_error + path list" where
  "collect_rule_entries dir [] = Ok []"
| "collect_rule_entries dir (Inl e # rest) = Err (ReadDir dir e)"
| "collect_rule_entries dir (Inr entry # rest) =
     (case dir_entry_is_file entry of
        Inl e \<Rightarrow> Err (ReadDir dir e)
      | Inr is_file \<Rightarrow>
          (case collect_rule_entries dir rest of
             Inl e \<Rightarrow> Err e
           | Inr paths \<Rightarrow>
               Ok (if path_extension (dir_entry_path entry) = Some (lit ''rules'') \<and> is_file
                   then dir_entry_path entry # paths else paths)))"

definition collect_policy_files :: "(path \<Rightarrow> read_dir_outcome) \<Rightarrow> path \<Rightarrow> exec_policy_load_error + path list" where
  "collect_policy_files read_dir dir =
     (case read_dir dir of
        DirMissing \<Rightarrow> Ok []
      | DirUnreadable e \<Rightarrow> Err (ReadDir dir e)
      | DirListing entries \<Rightarrow> map_sum id sort (collect_rule_entries dir entries))"

record config_layer =
  layer_is_user_or_project :: bool
  layer_config_folder :: "path option"

record config_layer_stack =
  stack_layers :: "config_layer list"
  ignore_user_and_project_exec_policy_rules :: bool
  requirements_exec_policy :: "policy option"

text \<open>What loading asks of the outside: directories, files, and a run of the Starlark interpreter on a file.\<close>

record load_env =
  load_path_env :: path_env
  load_read_dir :: "path \<Rightarrow> read_dir_outcome"
  load_read_file :: "path \<Rightarrow> ustr + ustr"
  load_starlark :: "ustr \<Rightarrow> ustr \<Rightarrow> builtin_call list \<times> ustr option"
  load_shlex_split :: "ustr \<Rightarrow> ustr list option"
  load_try_join :: "ustr list \<Rightarrow> ustr option"

definition RULES_DIR_NAME :: ustr where
  "RULES_DIR_NAME = lit ''rules''"

fun layer_policy_paths :: "load_env \<Rightarrow> bool \<Rightarrow> config_layer list \<Rightarrow> exec_policy_load_error + path list" where
  "layer_policy_paths le ignore_rules [] = Ok []"
| "layer_policy_paths le ignore_rules (layer # rest) =
     (if ignore_rules \<and> layer_is_user_or_project layer then layer_policy_paths le ignore_rules rest
      else case layer_config_folder layer of
             None \<Rightarrow> layer_policy_paths le ignore_rules rest
           | Some folder \<Rightarrow>
               (case collect_policy_files (load_read_dir le) (folder @ [Normal RULES_DIR_NAME]) of
                  Inl e \<Rightarrow> Err e
                | Inr paths \<Rightarrow> map_sum id (\<lambda>more. paths @ more) (layer_policy_paths le ignore_rules rest)))"

fun parse_policy_files :: "load_env \<Rightarrow> path list \<Rightarrow> policy_builder \<Rightarrow> exec_policy_load_error + policy_builder" where
  "parse_policy_files le [] b = Ok b"
| "parse_policy_files le (p # ps) b =
     (case load_read_file le p of
        Inl e \<Rightarrow> Err (ReadFile p e)
      | Inr contents \<Rightarrow>
          (let identifier = path_display p
           in case load_starlark le identifier contents of
                (calls, err) \<Rightarrow>
                  (case policy_parse (load_shlex_split le) (load_try_join le) (load_path_env le) calls err b of
                     (Inl e, _) \<Rightarrow> Err (ParsePolicy identifier e)
                   | (Inr _, b') \<Rightarrow> parse_policy_files le ps b')))"

definition load_exec_policy :: "load_env \<Rightarrow> config_layer_stack \<Rightarrow> exec_policy_load_error + policy" where
  "load_exec_policy le stack =
     (case layer_policy_paths le (ignore_user_and_project_exec_policy_rules stack) (stack_layers stack) of
        Inl e \<Rightarrow> Err e
      | Inr paths \<Rightarrow>
          (case parse_policy_files le paths policy_builder_new of
             Inl e \<Rightarrow> Err e
           | Inr b \<Rightarrow>
               (case requirements_exec_policy stack of
                  None \<Rightarrow> Ok (build b)
                | Some req \<Rightarrow> Ok (merge_overlay (build b) req))))"

definition load_exec_policy_with_warning ::
  "load_env \<Rightarrow> config_layer_stack \<Rightarrow> exec_policy_load_error + policy \<times> exec_policy_load_error option" where
  "load_exec_policy_with_warning le stack =
     (case load_exec_policy le stack of
        Inr p \<Rightarrow> Ok (p, None)
      | Inl (ParsePolicy identifier e) \<Rightarrow>
          Ok (case requirements_exec_policy stack of None \<Rightarrow> policy_empty | Some req \<Rightarrow> req,
              Some (ParsePolicy identifier e))
      | Inl e \<Rightarrow> Err e)"

section \<open>Evaluations of parsed commands\<close>

abbreviation parsed_of :: "shell_parser \<Rightarrow> exec_approval_request \<Rightarrow> exec_policy_commands" where
  "parsed_of parser req \<equiv> commands_for_exec_policy parser (req_command req)"

abbreviation judge :: "shell_parser \<Rightarrow> exec_approval_request \<Rightarrow> ustr list \<Rightarrow> decision" where
  "judge parser req \<equiv> (\<lambda>cmd. render_decision_for_unmatched_command parser cmd
     (unmatched_context req (used_complex_parsing (parsed_of parser req))))"

abbreviation policy_matches :: "path_env \<Rightarrow> policy \<Rightarrow> ustr list \<Rightarrow> rule_match list" where
  "policy_matches env p c \<equiv> matches_for_command_with_options env p c None host_match_options"

lemma parsed_commands_nonempty: "parsed_commands (commands_for_exec_policy parser command) \<noteq> []"
  by (simp add: commands_for_exec_policy_def split: option.split list.split)

lemma matches_with_fallback:
  "matches_for_command_with_options env p c (Some h) opts =
     (if matches_for_command_with_options env p c None opts = [] then [HeuristicsRuleMatch c (h c)]
      else matches_for_command_with_options env p c None opts)"
  by (simp add: matches_for_command_with_options_def Let_def)

lemma is_policy_match_resolved [simp]: "is_policy_match (with_resolved_program prog m) = is_policy_match m"
  by (cases m) simp_all

lemma rule_matches_is_policy_match: "rule_matches r c = Some m \<Longrightarrow> is_policy_match m"
  by (auto simp: rule_matches_def)

lemma match_host_vec:
  "match_host_executable_rules env p (c # rest) =
     (case from_absolute_path env c of
        Inl _ \<Rightarrow> []
      | Inr program \<Rightarrow>
          (case file_name program of
             None \<Rightarrow> []
           | Some b \<Rightarrow>
               if \<exists>paths. host_executables_by_name p b = Some paths \<and> program \<notin> set paths then []
               else map (with_resolved_program program)
                      (List.map_filter (\<lambda>r. rule_matches r (b # rest)) (vec_or_nil b (rules_by_program p)))))"
proof (cases "from_absolute_path env c")
  case (Inr program)
  show ?thesis
  proof (cases "file_name program")
    case (Some b)
    then show ?thesis
      using match_host_executable_eq [OF Inr Some] Inr
      by (cases "get_vec b (rules_by_program p)"; cases "host_executables_by_name p b")
        (simp_all add: match_host_executable_rules_def executable_path_lookup_key_def executable_lookup_key_def
          vec_or_nil_def List.map_filter_simps list_ex_iff)
  qed (simp add: match_host_executable_rules_def executable_path_lookup_key_def Inr)
qed (simp add: match_host_executable_rules_def)

lemma policy_matches_Cons:
  "matches_for_command_with_options env p (c # rest) None host_match_options =
     (let exact = List.map_filter (\<lambda>r. rule_matches r (c # rest)) (vec_or_nil c (rules_by_program p))
      in if exact \<noteq> [] then exact else match_host_executable_rules env p (c # rest))"
  by (simp add: matches_for_command_with_options_def match_exact_rules_vec host_match_options_def Let_def)

lemma policy_matches_Nil: "matches_for_command_with_options env p [] None opts = []"
  by (simp add: matches_for_command_with_options_def match_exact_rules_def match_host_executable_rules_def)

lemma policy_matches_are_rules:
  assumes "m \<in> set (policy_matches env p c)"
  shows "is_policy_match m"
proof (cases c)
  case Nil
  with assms show ?thesis by (simp add: policy_matches_Nil)
next
  case (Cons w rest)
  have "is_policy_match m" if "m \<in> set (List.map_filter (\<lambda>r. rule_matches r cmd) rs)" for cmd rs
    using that by (auto simp: set_map_filter_iff dest: rule_matches_is_policy_match)
  moreover have "is_policy_match m" if "m \<in> set (match_host_executable_rules env p (w # rest))"
    using that by (auto simp: match_host_vec set_map_filter_iff dest: rule_matches_is_policy_match
        split: sum.splits option.splits if_splits)
  ultimately show ?thesis
    using assms by (auto simp: Cons policy_matches_Cons Let_def split: if_splits)
qed

lemma check_multiple_exact:
  assumes "cs \<noteq> []"
  shows "check_multiple_with_options env p cs h opts =
    Some \<lparr>ev_decision = Max (rm_decision ` set (concat (map (\<lambda>c. matches_for_command_with_options env p c (Some h) opts) cs))),
          matched_rules = concat (map (\<lambda>c. matches_for_command_with_options env p c (Some h) opts) cs)\<rparr>"
proof -
  have "concat (map (\<lambda>c. matches_for_command_with_options env p c (Some h) opts) cs) \<noteq> []"
    using assms matches_nonempty by (cases cs) auto
  then show ?thesis by (simp add: check_multiple_with_options_def evaluation_from_matches_Some)
qed

lemma Max_decision_Allow:
  assumes "finite D" and "D \<noteq> {}"
  shows "Max D = Allow \<longleftrightarrow> (\<forall>d\<in>D. d = Allow)"
proof
  assume top: "Max D = Allow"
  show "\<forall>d\<in>D. d = Allow"
    using Max_ge [OF assms(1)] Allow_bot by (metis antisym top)
next
  assume "\<forall>d\<in>D. d = Allow"
  then show "Max D = Allow" using Max_in [OF assms] by blast
qed

lemma check_multiple_Allow_iff:
  assumes "cs \<noteq> []"
  shows "map_option ev_decision (check_multiple_with_options env p cs h opts) = Some Allow \<longleftrightarrow>
    (\<forall>c\<in>set cs. \<forall>m\<in>set (matches_for_command_with_options env p c (Some h) opts). rm_decision m = Allow)"
proof -
  let ?D = "rm_decision ` set (concat (map (\<lambda>c. matches_for_command_with_options env p c (Some h) opts) cs))"
  have "?D \<noteq> {}" using assms matches_nonempty by (cases cs) auto
  then have "Max ?D = Allow \<longleftrightarrow> (\<forall>d\<in>?D. d = Allow)" by (intro Max_decision_Allow) auto
  then show ?thesis by (simp add: check_multiple_exact [OF assms])
qed

lemma check_Allow_iff:
  "map_option ev_decision (check_with_options env p c h opts) = Some Allow \<longleftrightarrow>
     (\<forall>m\<in>set (matches_for_command_with_options env p c (Some h) opts). rm_decision m = Allow)"
  using check_multiple_Allow_iff [of "[c]" env p h opts]
  by (simp add: check_multiple_with_options_def check_with_options_def)

lemma create_requirement_cases:
  obtains ev where
    "check_multiple_with_options env p (parsed_commands (parsed_of parser req)) (judge parser req) host_match_options = Some ev"
    "create_exec_approval_requirement_for_command env parser try_join p req =
       Some (requirement_of_evaluation env parser try_join p req ev)"
  using check_multiple_exact [OF parsed_commands_nonempty, of env p parser "req_command req" "judge parser req" host_match_options]
  by (simp add: create_exec_approval_requirement_for_command_def Let_def)

lemma requirement_Skip_iff:
  "(\<exists>b a. requirement_of_evaluation env parser try_join p req ev = SkipApproval b a) \<longleftrightarrow> ev_decision ev = Allow"
  by (simp add: requirement_of_evaluation_def Let_def split: decision.split option.split)

lemma create_Skip_iff:
  "(\<exists>b a. create_exec_approval_requirement_for_command env parser try_join p req = Some (SkipApproval b a)) \<longleftrightarrow>
   (\<forall>c\<in>set (parsed_commands (parsed_of parser req)).
      (\<forall>m\<in>set (policy_matches env p c). rm_decision m = Allow) \<and>
      (policy_matches env p c = [] \<longrightarrow> judge parser req c = Allow))"
proof -
  obtain ev where ev: "check_multiple_with_options env p (parsed_commands (parsed_of parser req)) (judge parser req)
      host_match_options = Some ev"
    "create_exec_approval_requirement_for_command env parser try_join p req =
       Some (requirement_of_evaluation env parser try_join p req ev)"
    by (rule create_requirement_cases)
  have "(\<exists>b a. create_exec_approval_requirement_for_command env parser try_join p req = Some (SkipApproval b a)) \<longleftrightarrow>
    ev_decision ev = Allow"
    using requirement_Skip_iff [of env parser try_join p req ev] by (simp add: ev(2))
  also have "\<dots> \<longleftrightarrow> (\<forall>c\<in>set (parsed_commands (parsed_of parser req)).
      \<forall>m\<in>set (matches_for_command_with_options env p c (Some (judge parser req)) host_match_options). rm_decision m = Allow)"
    using check_multiple_Allow_iff [OF parsed_commands_nonempty, of env p parser "req_command req" "judge parser req" host_match_options]
      ev(1) by simp
  finally show ?thesis by (auto simp: matches_with_fallback)
qed

lemma judge_Allow_iff:
  "judge parser req c = Allow \<longleftrightarrow>
     (req_approval_policy req = UnlessTrusted \<and> is_known_safe_command parser c \<and>
        \<not> used_complex_parsing (parsed_of parser req)) \<or>
     (dangerous_command_match parser c = None \<and> req_approval_policy req \<noteq> UnlessTrusted \<and>
        (req_approval_policy req \<noteq> Never \<and>
           policy_kind (profile_file_system_policy (req_permission_profile req)) = Restricted \<longrightarrow>
         \<not> requests_sandbox_override (req_sandbox_permissions req)))"
  by (cases "req_approval_policy req";
      cases "policy_kind (profile_file_system_policy (req_permission_profile req))")
    (auto simp: render_decision_for_unmatched_command_def unmatched_context_def cfg_windows_def Let_def)

lemma requirement_bypass:
  assumes "requirement_of_evaluation env parser try_join p req ev = SkipApproval b a"
    and "\<forall>c\<in>set (parsed_commands (parsed_of parser req)). \<forall>m\<in>set (policy_matches env p c). rm_decision m = Allow"
  shows "b \<longleftrightarrow> (\<forall>c\<in>set (parsed_commands (parsed_of parser req)). policy_matches env p c \<noteq> [])"
proof -
  have b: "b \<longleftrightarrow> (\<forall>c\<in>set (parsed_commands (parsed_of parser req)).
      \<exists>m\<in>set (policy_matches env p c). is_policy_match m \<and> rm_decision m = Allow)"
    using assms(1) by (auto simp: requirement_of_evaluation_def Let_def list_all_iff list_ex_iff
        split: decision.splits option.splits if_splits)
  have "(\<exists>m\<in>set (policy_matches env p c). is_policy_match m \<and> rm_decision m = Allow) \<longleftrightarrow> policy_matches env p c \<noteq> []"
    if "c \<in> set (parsed_commands (parsed_of parser req))" for c
    using assms(2) that policy_matches_are_rules by (metis list.set_intros(1) list.exhaust empty_iff list.set(1))
  with b show ?thesis by blast
qed

lemma requirement_asks:
  "requirement_of_evaluation env parser try_join p req ev = NeedsApproval reason a \<Longrightarrow> req_approval_policy req \<noteq> Never"
  by (auto simp: requirement_of_evaluation_def Let_def split: decision.splits option.splits if_splits)

section \<open>When a command runs without asking\<close>

text \<open>
  C16: A requirement is always computed. A command is cleared without asking exactly when every command the script
  was parsed into is either matched by policy rules that all allow it, or is unmatched and passes the built-in
  judgement: known safe and plainly parsed under \<open>UnlessTrusted\<close>; under the other approval policies
  not on the dangerous list and, unless the policy is \<open>Never\<close> or the file system is unrestricted, not asking for more than the
  default sandbox. The sandbox is bypassed exactly when every command is matched by a rule, and \<open>Never\<close> never asks.
\<close>

theorem command_clearance:
  "\<exists>r. create_exec_approval_requirement_for_command env parser try_join p req = Some r \<and>
     ((\<exists>b a. r = SkipApproval b a) \<longleftrightarrow>
        (\<forall>c\<in>set (parsed_commands (commands_for_exec_policy parser (req_command req))).
           (\<forall>m\<in>set (matches_for_command_with_options env p c None host_match_options). rm_decision m = Allow) \<and>
           (matches_for_command_with_options env p c None host_match_options = [] \<longrightarrow>
              (req_approval_policy req = UnlessTrusted \<and> is_known_safe_command parser c \<and>
                 \<not> used_complex_parsing (commands_for_exec_policy parser (req_command req))) \<or>
              (dangerous_command_match parser c = None \<and> req_approval_policy req \<noteq> UnlessTrusted \<and>
                 (req_approval_policy req \<noteq> Never \<and>
                    policy_kind (profile_file_system_policy (req_permission_profile req)) = Restricted \<longrightarrow>
                  \<not> requests_sandbox_override (req_sandbox_permissions req)))))) \<and>
     (\<forall>b a. r = SkipApproval b a \<longrightarrow>
        (b \<longleftrightarrow> (\<forall>c\<in>set (parsed_commands (commands_for_exec_policy parser (req_command req))).
           matches_for_command_with_options env p c None host_match_options \<noteq> []))) \<and>
     (req_approval_policy req = Never \<longrightarrow> (\<forall>reason a. r \<noteq> NeedsApproval reason a))"
proof -
  obtain ev where ev: "create_exec_approval_requirement_for_command env parser try_join p req =
       Some (requirement_of_evaluation env parser try_join p req ev)"
    by (rule create_requirement_cases)
  have skip: "(\<exists>b a. requirement_of_evaluation env parser try_join p req ev = SkipApproval b a) \<longleftrightarrow>
    (\<forall>c\<in>set (parsed_commands (parsed_of parser req)).
      (\<forall>m\<in>set (policy_matches env p c). rm_decision m = Allow) \<and>
      (policy_matches env p c = [] \<longrightarrow> judge parser req c = Allow))"
    using create_Skip_iff [of env parser try_join p req] by (simp add: ev)
  have "\<forall>b a. requirement_of_evaluation env parser try_join p req ev = SkipApproval b a \<longrightarrow>
      (b \<longleftrightarrow> (\<forall>c\<in>set (parsed_commands (parsed_of parser req)). policy_matches env p c \<noteq> []))"
    using requirement_bypass skip by blast
  then show ?thesis
    using skip requirement_asks unfolding judge_Allow_iff ev by blast
qed

definition plain_request :: "ustr list \<Rightarrow> exec_approval_request" where
  "plain_request command =
     \<lparr>req_command = command, req_approval_policy = UnlessTrusted, req_permission_profile = DisabledProfile,
      req_windows_sandbox_disabled = False, req_sandbox_permissions = UseDefault, req_prefix_rule = None\<rparr>"

theorem command_clearance_witness:
  "\<exists>b a. create_exec_approval_requirement_for_command \<lparr>home_dir = None, current_dir = Ok [RootDir]\<rparr> (\<lambda>_. None) (\<lambda>_. None)
     policy_empty (plain_request [lit ''ls'']) = Some (SkipApproval b a)"
proof -
  let ?env = "\<lparr>home_dir = None, current_dir = Ok [RootDir]\<rparr> :: path_env"
  let ?parser = "(\<lambda>_. None) :: shell_parser"
  have parsed: "commands_for_exec_policy ?parser (req_command (plain_request [lit ''ls''])) =
      \<lparr>parsed_commands = [[lit ''ls'']], used_complex_parsing = False\<rparr>" by code_simp
  have safe: "is_known_safe_command ?parser [lit ''ls'']" by code_simp
  have unmatched: "matches_for_command_with_options ?env policy_empty [lit ''ls''] None host_match_options = []"
    by (simp add: policy_matches_Cons match_host_vec policy_empty_def policy_new_def policy_from_parts_def
        List.map_filter_simps split: sum.split option.split)
  have "req_approval_policy (plain_request [lit ''ls'']) = UnlessTrusted" by (simp add: plain_request_def)
  then show ?thesis
    using command_clearance [of ?env ?parser "\<lambda>_. None" policy_empty "plain_request [lit ''ls'']"] safe
    unfolding parsed by (auto simp: unmatched simp del: lit_Cons)
qed

section \<open>Rules that were accepted\<close>

lemma add_prefix_rule_vec:
  assumes "add_prefix_rule p a d = Ok p'"
  shows "a \<noteq> [] \<and> host_executables_by_name p' = host_executables_by_name p \<and>
    vec_or_nil k (rules_by_program p') = vec_or_nil k (rules_by_program p) @
      (if k = hd a then [\<lparr>pr_pattern = \<lparr>pat_first = hd a, pat_rest = map Single (tl a)\<rparr>,
                          pr_decision = d, pr_justification = None\<rparr>] else [])"
  using assms by (cases a) (auto simp: add_prefix_rule_def vec_or_nil_mm_insert)

lemma single_rule_matches:
  "rule_matches \<lparr>pr_pattern = \<lparr>pat_first = w, pat_rest = map Single ws\<rparr>, pr_decision = d, pr_justification = None\<rparr> c \<noteq> None
   \<longleftrightarrow> (\<exists>args. c = w # ws @ args)"
proof -
  have tokens: "list_all2 token_matches (map Single ws) xs \<longleftrightarrow> xs = ws" for xs
    by (induction ws arbitrary: xs) (auto simp: list_all2_Cons1)
  have "length ws \<le> length xs \<and> take (length ws) xs = ws \<longleftrightarrow> (\<exists>args. xs = ws @ args)" for xs :: "ustr list"
    by (metis append_eq_conv_conj append_take_drop_id le_add1 length_append)
  then show ?thesis
    by (cases c) (auto simp: rule_matches_def matches_prefix_Some_iff tokens split: option.splits)
qed

lemma rule_matches_extends: "rule_matches r a \<noteq> None \<Longrightarrow> rule_matches r (a @ args) \<noteq> None"
  by (auto simp: rule_matches_def matches_prefix_Some_iff split: option.splits)

lemma map_filter_empty_iff: "List.map_filter f xs = [] \<longleftrightarrow> (\<forall>x\<in>set xs. f x = None)"
  by (auto simp: List.map_filter_def filter_empty_conv)

text \<open>The commands as which a command is looked up: itself, and with its program replaced by its basename.\<close>

definition rule_lookups :: "path_env \<Rightarrow> (ustr \<rightharpoonup> path list) \<Rightarrow> ustr list \<Rightarrow> ustr list set" where
  "rule_lookups env hosts c =
     (case c of
        [] \<Rightarrow> {}
      | w # rest \<Rightarrow>
          insert c {b # rest | b program. from_absolute_path env w = Ok program \<and> file_name program = Some b \<and>
                      \<not> (\<exists>paths. hosts b = Some paths \<and> program \<notin> set paths)})"

lemma policy_matched_iff:
  "policy_matches env p c \<noteq> [] \<longleftrightarrow>
     (\<exists>c'\<in>rule_lookups env (host_executables_by_name p) c.
        \<exists>r\<in>set (vec_or_nil (hd c') (rules_by_program p)). rule_matches r c' \<noteq> None)"
proof (cases c)
  case Nil
  then show ?thesis by (simp add: policy_matches_Nil rule_lookups_def)
next
  case (Cons w rest)
  have "policy_matches env p c \<noteq> [] \<longleftrightarrow>
      (\<exists>r\<in>set (vec_or_nil w (rules_by_program p)). rule_matches r c \<noteq> None) \<or> match_host_executable_rules env p c \<noteq> []"
    unfolding Cons policy_matches_Cons Let_def by (auto simp: map_filter_empty_iff)
  also have "match_host_executable_rules env p c \<noteq> [] \<longleftrightarrow>
      (\<exists>b program. from_absolute_path env w = Ok program \<and> file_name program = Some b \<and>
         \<not> (\<exists>paths. host_executables_by_name p b = Some paths \<and> program \<notin> set paths) \<and>
         (\<exists>r\<in>set (vec_or_nil b (rules_by_program p)). rule_matches r (b # rest) \<noteq> None))"
    unfolding Cons match_host_vec by (auto simp: map_filter_empty_iff split: sum.splits option.splits)
  finally show ?thesis by (auto simp: Cons rule_lookups_def)
qed

text \<open>A rule that newly matches a command can only be added where no older rule covers its prefix.\<close>

lemma older_rules_miss_prefix:
  assumes add: "add_prefix_rule p a d = Ok p'"
    and before: "policy_matches env p c = []" and after: "policy_matches env p' c \<noteq> []"
    and r: "r \<in> set (vec_or_nil (hd a) (rules_by_program p))"
  shows "rule_matches r a = None"
proof (rule ccontr)
  assume "rule_matches r a \<noteq> None"
  then have ext: "rule_matches r (a @ args) \<noteq> None" for args by (rule rule_matches_extends)
  note vec = add_prefix_rule_vec [OF add]
  from after obtain c' s where c': "c' \<in> rule_lookups env (host_executables_by_name p) c"
    and s: "s \<in> set (vec_or_nil (hd c') (rules_by_program p'))" "rule_matches s c' \<noteq> None"
    using vec by (auto simp: policy_matched_iff)
  from before c' s have "s \<notin> set (vec_or_nil (hd c') (rules_by_program p))"
    using policy_matched_iff [of env p c] by blast
  with s(1) vec have "hd c' = hd a"
    "s = \<lparr>pr_pattern = \<lparr>pat_first = hd a, pat_rest = map Single (tl a)\<rparr>, pr_decision = d, pr_justification = None\<rparr>"
    by (auto split: if_splits)
  with s(2) obtain args where "c' = hd a # tl a @ args" by (auto simp: single_rule_matches simp del: not_None_eq)
  with vec have "c' = a @ args" by simp
  then have "rule_matches r c' \<noteq> None" using ext by simp
  with c' r \<open>hd c' = hd a\<close> before show False using policy_matched_iff [of env p c] by fastforce
qed

lemma check_single:
  "check_multiple_with_options env p [c] h opts = check_with_options env p c h opts"
  by (simp add: check_multiple_with_options_def check_with_options_def)

lemma check_unmatched:
  "policy_matches env p c = [] \<Longrightarrow>
   check_with_options env p c h host_match_options =
     Some \<lparr>ev_decision = h c, matched_rules = [HeuristicsRuleMatch c (h c)]\<rparr>"
  by (simp add: check_with_options_def matches_with_fallback evaluation_from_matches_def)

lemma check_matched:
  "policy_matches env p c \<noteq> [] \<Longrightarrow>
   check_with_options env p c h host_match_options =
     Some \<lparr>ev_decision = Max (rm_decision ` set (policy_matches env p c)), matched_rules = policy_matches env p c\<rparr>"
  by (simp add: check_with_options_def matches_with_fallback evaluation_from_matches_Some)

text \<open>A proposal for a single command: no rule matched, and the judgement was to ask.\<close>

lemma proposed_single:
  assumes single: "parsed_commands (parsed_of parser req) = [c]"
    and needs: "create_exec_approval_requirement_for_command env parser try_join p req = Some (NeedsApproval reason (Some a))"
  shows "policy_matches env p c = [] \<and> judge parser req c = Prompt \<and>
    (a = c \<or> prefix_rule_would_approve_all_commands env p a [c] (judge parser req) host_match_options)"
proof -
  obtain ev where ev: "check_with_options env p c (judge parser req) host_match_options = Some ev"
    and r: "requirement_of_evaluation env parser try_join p req ev = NeedsApproval reason (Some a)"
    using needs by (auto simp: create_exec_approval_requirement_for_command_def Let_def single check_single)
  from r have prompt: "ev_decision ev = Prompt"
    and proposal: "requested_amendment env parser p req ev = Some a \<or>
      try_derive_execpolicy_amendment_for_prompt_rules (matched_rules ev) = Some a"
    by (auto simp: requirement_of_evaluation_def Let_def split: decision.splits option.splits if_splits)
  have unmatched: "policy_matches env p c = []"
  proof (rule ccontr)
    assume ms: "policy_matches env p c \<noteq> []"
    from check_matched [OF ms, of "judge parser req"] ev prompt
    have rules: "matched_rules ev = policy_matches env p c" and "Max (rm_decision ` set (policy_matches env p c)) = Prompt"
      by auto
    moreover have "Max (rm_decision ` set (policy_matches env p c)) \<in> rm_decision ` set (policy_matches env p c)"
      using ms by (intro Max_in) auto
    ultimately obtain m where "m \<in> set (matched_rules ev)" "rm_decision m = Prompt" "is_policy_match m"
      using policy_matches_are_rules by (metis imageE)
    then have "list_ex (\<lambda>m. is_policy_match m \<and> rm_decision m = Prompt) (matched_rules ev)"
      "list_ex is_policy_match (matched_rules ev)"
      by (auto simp: list_ex_iff)
    with proposal show False
      by (auto simp: requested_amendment_def derive_requested_execpolicy_amendment_from_prefix_rule_def Let_def
          try_derive_execpolicy_amendment_for_prompt_rules_def split: option.splits if_splits)
  qed
  with ev check_unmatched have "ev = \<lparr>ev_decision = judge parser req c,
      matched_rules = [HeuristicsRuleMatch c (judge parser req c)]\<rparr>" by fastforce
  with prompt proposal unmatched show ?thesis
    by (auto simp: requested_amendment_def derive_requested_execpolicy_amendment_from_prefix_rule_def Let_def single
        try_derive_execpolicy_amendment_for_prompt_rules_def split: option.splits if_splits)
qed

lemma would_approve_single:
  "prefix_rule_would_approve_all_commands env p a [c] h host_match_options \<longleftrightarrow>
     (\<exists>p'. add_prefix_rule p a Allow = Ok p' \<and> (\<forall>m\<in>set (policy_matches env p' c). rm_decision m = Allow) \<and>
        (policy_matches env p' c = [] \<longrightarrow> h c = Allow))"
  by (auto simp: prefix_rule_would_approve_all_commands_def check_Allow_iff matches_with_fallback
      simp del: map_option_eq_Some split: sum.splits)

lemma accepted_rule_allows:
  assumes add: "add_prefix_rule p a Allow = Ok p'" and unmatched: "policy_matches env p c = []"
    and judged: "h c = Prompt"
    and proposal: "a = c \<or> prefix_rule_would_approve_all_commands env p a [c] h host_match_options"
  shows "policy_matches env p' c \<noteq> [] \<and> (\<forall>m\<in>set (policy_matches env p' c). rm_decision m = Allow)"
proof (cases "a = c")
  case True
  note vec = add_prefix_rule_vec [OF add]
  define r where "r = \<lparr>pr_pattern = \<lparr>pat_first = hd a, pat_rest = map Single (tl a)\<rparr>, pr_decision = Allow, pr_justification = None\<rparr>"
  from vec have c: "c = hd c # tl c" by (simp add: True)
  have "c \<in> rule_lookups env (host_executables_by_name p) c" using vec by (cases c) (simp_all add: rule_lookups_def True)
  with unmatched have old: "\<forall>r\<in>set (vec_or_nil (hd c) (rules_by_program p)). rule_matches r c = None"
    using policy_matched_iff [of env p c] by blast
  have new: "rule_matches r c \<noteq> None"
    unfolding r_def single_rule_matches using vec by (intro exI [of _ "[]"]) (simp add: True)
  have exact: "List.map_filter (\<lambda>r. rule_matches r c) (vec_or_nil (hd c) (rules_by_program p')) = [the (rule_matches r c)]"
    using old new vec by (auto simp: True map_filter_append map_filter_empty_iff List.map_filter_simps simp flip: r_def [unfolded True])
  have "policy_matches env p' c = [the (rule_matches r c)]"
    using policy_matches_Cons [of env p' "hd c" "tl c"] exact by (simp flip: c)
  moreover have "rm_decision (the (rule_matches r c)) = Allow"
    using new rule_matches_decision [of r c] by (auto simp: r_def)
  ultimately show ?thesis by simp
next
  case False
  with proposal add judged show ?thesis by (auto simp: would_approve_single)
qed

lemma append_update_adds:
  assumes "append_amendment_and_update env to_json io a (p, contents) = (Ok (), (p', contents'))"
    and "policy_matches env p a = []"
  shows "add_prefix_rule p a Allow = Ok p'"
  using assms(1)
  by (auto simp: append_amendment_and_update_def check_single check_unmatched [OF assms(2)] Let_def
      split: prod.splits sum.splits)

lemma create_single_matched:
  assumes single: "parsed_commands (parsed_of parser req) = [c]"
    and ms: "policy_matches env p c \<noteq> []" "\<forall>m\<in>set (policy_matches env p c). rm_decision m = Allow"
  shows "create_exec_approval_requirement_for_command env parser try_join p req = Some (SkipApproval True None)"
proof -
  have "Max (rm_decision ` set (policy_matches env p c)) = Allow"
    using ms by (subst Max_decision_Allow) auto
  then have ev: "check_with_options env p c (judge parser req) host_match_options =
      Some \<lparr>ev_decision = Allow, matched_rules = policy_matches env p c\<rparr>"
    by (simp add: check_matched [OF ms(1)])
  have rule: "list_ex (\<lambda>m. is_policy_match m \<and> rm_decision m = Allow) (policy_matches env p c)"
    using ms policy_matches_are_rules [of _ env p c] by (cases "policy_matches env p c") auto
  then have "list_ex is_policy_match (policy_matches env p c)" by (auto simp: list_ex_iff)
  with rule ev show ?thesis
    by (simp add: create_exec_approval_requirement_for_command_def Let_def single check_single
        requirement_of_evaluation_def try_derive_execpolicy_amendment_for_allow_rules_def)
qed

text \<open>
  C22: A rule that was proposed for a command and accepted answers the next request: when a single command needs approval with a
  proposed amendment, and the amendment has been appended, the same request is cleared, outside the sandbox, without asking
  again. (No rule reached by the executable's path may cover the proposed prefix already.)
\<close>

theorem accepted_amendment_clears:
  assumes "parsed_commands (commands_for_exec_policy parser (req_command req)) = [c]"
    and "create_exec_approval_requirement_for_command env parser try_join p req = Some (NeedsApproval reason (Some a))"
    and "match_host_executable_rules env p a = []"
    and "append_amendment_and_update env to_json io a (p, contents) = (Ok (), (p', contents'))"
  shows "create_exec_approval_requirement_for_command env parser try_join p' req = Some (SkipApproval True None)"
proof -
  from proposed_single [OF assms(1,2)] have unmatched: "policy_matches env p c = []"
    and judged: "judge parser req c = Prompt"
    and proposal: "a = c \<or> prefix_rule_would_approve_all_commands env p a [c] (judge parser req) host_match_options"
    by auto
  have "policy_matches env p a = []"
  proof (cases "a = c")
    case False
    with proposal obtain p1 where p1: "add_prefix_rule p a Allow = Ok p1" by (auto simp: would_approve_single)
    have "policy_matches env p1 c \<noteq> []"
      using accepted_rule_allows [OF p1 unmatched judged proposal] by blast
    from older_rules_miss_prefix [OF p1 unmatched this] show ?thesis
      using assms(3) by (cases a) (auto simp: policy_matches_Nil policy_matches_Cons map_filter_empty_iff Let_def)
  qed (use unmatched in simp)
  from append_update_adds [OF assms(4) this] have add: "add_prefix_rule p a Allow = Ok p'" .
  from accepted_rule_allows [OF add unmatched judged proposal] show ?thesis
    using create_single_matched [OF assms(1)] by blast
qed

theorem accepted_amendment_clears_witness:
  "\<exists>p' contents'. append_amendment_and_update \<lparr>home_dir = None, current_dir = Ok [RootDir]\<rparr> Ok io_ok [lit ''make'']
       (policy_empty, []) = (Ok (), (p', contents')) \<and>
     create_exec_approval_requirement_for_command \<lparr>home_dir = None, current_dir = Ok [RootDir]\<rparr> (\<lambda>_. None) (\<lambda>_. None)
       p' (plain_request [lit ''make'']) = Some (SkipApproval True None)"
proof -
  let ?env = "\<lparr>home_dir = None, current_dir = Ok [RootDir]\<rparr> :: path_env"
  let ?parser = "(\<lambda>_. None) :: shell_parser"
  let ?req = "plain_request [lit ''make'']"
  have parsed: "parsed_commands (commands_for_exec_policy ?parser (req_command ?req)) = [[lit ''make'']]" by code_simp
  have asks: "create_exec_approval_requirement_for_command ?env ?parser (\<lambda>_. None) policy_empty ?req =
      Some (NeedsApproval None (Some [lit ''make'']))" by code_simp
  have host: "match_host_executable_rules ?env policy_empty [lit ''make''] = []" by code_simp
  have "fst (append_amendment_and_update ?env Ok io_ok [lit ''make''] (policy_empty, [])) = Ok ()" by code_simp
  then obtain p' contents' where
    "append_amendment_and_update ?env Ok io_ok [lit ''make''] (policy_empty, []) = (Ok (), (p', contents'))"
    by (metis prod.collapse)
  with accepted_amendment_clears [OF parsed asks host this] show ?thesis by blast
qed

section \<open>Requirements that bind\<close>

lemma strictest_match_decides:
  assumes c: "c \<in> set (parsed_commands (parsed_of parser req))" and m: "m \<in> set (policy_matches env p c)"
  obtains ev where "create_exec_approval_requirement_for_command env parser try_join p req =
       Some (requirement_of_evaluation env parser try_join p req ev)" "rm_decision m \<le> ev_decision ev"
proof -
  let ?all = "concat (map (\<lambda>c. matches_for_command_with_options env p c (Some (judge parser req)) host_match_options)
      (parsed_commands (parsed_of parser req)))"
  have "m \<in> set (matches_for_command_with_options env p c (Some (judge parser req)) host_match_options)"
    using m by (auto simp: matches_with_fallback)
  with c have "rm_decision m \<le> Max (rm_decision ` set ?all)" by (intro Max_ge) auto
  then show ?thesis
    using that check_multiple_exact [OF parsed_commands_nonempty, of env p parser "req_command req" "judge parser req" host_match_options]
    by (simp add: create_exec_approval_requirement_for_command_def Let_def)
qed

lemma exact_match_is_policy_match:
  "match_exact_rules p c = Some ms \<Longrightarrow> m \<in> set ms \<Longrightarrow> policy_matches env p c = ms"
  by (cases ms) (auto simp: matches_for_command_with_options_def)

lemma overlay_keeps_exact_matches:
  assumes "Exec_Policy.policy_wf q" "match_exact_rules q c = Some ms" "m \<in> set ms"
  shows "m \<in> set (policy_matches env (merge_overlay base q) c)"
proof -
  obtain w rest where c: "c = w # rest" using assms(2) by (cases c) (auto simp: match_exact_rules_def)
  obtain ms' where "match_exact_rules (merge_overlay base q) c = Some ms'" "m \<in> set ms'"
    using assms vec_or_nil_merge_overlay [OF assms(1), of w base] by (auto simp: c match_exact_rules_vec map_filter_append)
  then show ?thesis by (simp add: exact_match_is_policy_match)
qed

lemma loaded_policy_keeps_requirements:
  assumes "load_exec_policy_with_warning le stack = Ok (p, warning)" "requirements_exec_policy stack = Some q"
  shows "p = q \<or> (\<exists>base. p = merge_overlay base q)"
  using assms by (auto simp: load_exec_policy_with_warning_def load_exec_policy_def
      split: sum.splits exec_policy_load_error.splits)

lemma requirements_hold:
  assumes "load_exec_policy_with_warning le stack = Ok (p, warning)"
    and "requirements_exec_policy stack = Some q" and "Exec_Policy.policy_wf q"
    and "c \<in> set (parsed_commands (commands_for_exec_policy parser (req_command req)))"
    and "match_exact_rules q c = Some ms" and "m \<in> set ms"
  shows "\<exists>r. create_exec_approval_requirement_for_command env parser try_join p req = Some r \<and>
     (rm_decision m = Forbidden \<longrightarrow> (\<exists>reason. r = ForbiddenCall reason)) \<and>
     (rm_decision m = Prompt \<longrightarrow> (\<forall>b a. r \<noteq> SkipApproval b a))"
proof -
  have "m \<in> set (policy_matches env p c)"
    using loaded_policy_keeps_requirements [OF assms(1,2)] overlay_keeps_exact_matches [OF assms(3,5,6)]
      exact_match_is_policy_match [OF assms(5,6)] assms(6) by metis
  from strictest_match_decides [OF assms(4) this]
  obtain ev where ev: "create_exec_approval_requirement_for_command env parser try_join p req =
       Some (requirement_of_evaluation env parser try_join p req ev)" "rm_decision m \<le> ev_decision ev"
    by blast
  have "rm_decision m = Forbidden \<Longrightarrow> ev_decision ev = Forbidden"
    using ev(2) Forbidden_top by (metis antisym)
  moreover have "rm_decision m = Prompt \<Longrightarrow> ev_decision ev \<noteq> Allow"
    using ev(2) by (auto simp: less_eq_decision_def)
  ultimately show ?thesis
    using ev(1) requirement_Skip_iff [of env parser try_join p req ev]
    by (auto simp: requirement_of_evaluation_def Let_def)
qed

text \<open>
  What the managed requirements forbid stays forbidden. Whatever the rule files of the configuration layers contain, and also when
  they do not parse and are skipped with a warning, a request with a command that an exact rule of the requirements forbids is
  refused, and one that such a rule wants approved is never cleared without asking.
\<close>

theorem requirements_stay_in_force:
  assumes "load_exec_policy_with_warning le stack = Ok (p, warning)"
    and "requirements_exec_policy stack = Some q" and "Exec_Policy.policy_wf q"
    and "c \<in> set (parsed_commands (commands_for_exec_policy parser (req_command req)))"
    and "match_exact_rules q c = Some ms" and "m \<in> set ms"
  shows "\<exists>r. create_exec_approval_requirement_for_command env parser try_join p req = Some r \<and>
     (rm_decision m = Forbidden \<longrightarrow> (\<exists>reason. r = ForbiddenCall reason)) \<and>
     (rm_decision m = Prompt \<longrightarrow> (\<forall>b a. r \<noteq> SkipApproval b a))"
  using assms by (rule requirements_hold)

definition no_files :: load_env where
  "no_files = \<lparr>load_path_env = \<lparr>home_dir = None, current_dir = Ok [RootDir]\<rparr>, load_read_dir = (\<lambda>_. DirMissing),
     load_read_file = (\<lambda>_. Inl []), load_starlark = (\<lambda>_ _. ([], None)), load_shlex_split = (\<lambda>_. None),
     load_try_join = (\<lambda>_. None)\<rparr>"

theorem requirements_stay_in_force_witness:
  "\<exists>p w reason. load_exec_policy_with_warning no_files
       \<lparr>stack_layers = [], ignore_user_and_project_exec_policy_rules = False, requirements_exec_policy = Some rm_rf_policy\<rparr> = Ok (p, w) \<and>
     create_exec_approval_requirement_for_command \<lparr>home_dir = None, current_dir = Ok [RootDir]\<rparr> (\<lambda>_. None) (\<lambda>_. None)
       p (plain_request [lit ''rm'', lit ''-rf'', lit ''/'']) = Some (ForbiddenCall reason)"
proof -
  let ?stack = "\<lparr>stack_layers = [], ignore_user_and_project_exec_policy_rules = False, requirements_exec_policy = Some rm_rf_policy\<rparr>"
  let ?cmd = "[lit ''rm'', lit ''-rf'', lit ''/'']"
  let ?m = "PrefixRuleMatch [lit ''rm'', lit ''-rf''] Forbidden None None"
  obtain p where load: "load_exec_policy_with_warning no_files ?stack = Ok (p, None)"
    by (simp add: load_exec_policy_with_warning_def load_exec_policy_def)
  have c: "?cmd \<in> set (parsed_commands (commands_for_exec_policy (\<lambda>_. None) (req_command (plain_request ?cmd))))"
    by code_simp
  have m: "match_exact_rules rm_rf_policy ?cmd = Some [?m]"
    by (simp add: match_exact_rules_def rm_rf_policy_def policy_new_def policy_from_parts_def
        get_vec_def rule_matches_def matches_prefix_def map_filter_def)
  have "\<exists>reason. create_exec_approval_requirement_for_command \<lparr>home_dir = None, current_dir = Ok [RootDir]\<rparr> (\<lambda>_. None) (\<lambda>_. None)
       p (plain_request ?cmd) = Some (ForbiddenCall reason)"
    using requirements_stay_in_force [OF load _ policy_wf_examples(1) c m, of ?m] by fastforce
  with load show ?thesis by blast
qed

end
