(* ===== verification/Network_Approval.thy ===== *)
theory Network_Approval
  imports Exec_Approval Truncation
begin

text \<open>
  Approval of network access (\<open>core/src/tools/network_approval.rs\<close>, \<open>core/src/network_policy_decision.rs\<close> and the
  types they use of \<open>network-proxy\<close> and \<open>protocol\<close>). Requests that the proxy does not allow by itself arrive concurrently;
  for each target one of them asks, the others wait for its answer. The handler is written as a sequence of
  steps, each of which holds at most one of the service's locks, and the system interleaves the steps of all requests in any
  order; what hooks, reviewers and the session answer is chosen freely at each step.
\<close>

section \<open>Data\<close>

datatype network_approval_protocol = ApprovalHttp | ApprovalHttps | ApprovalSocks5Tcp | ApprovalSocks5Udp

datatype network_protocol = RequestHttp | RequestHttpsConnect | RequestSocks5Tcp | RequestSocks5Udp

datatype network_policy_decision = PolicyDeny | PolicyAsk

datatype network_decision_source = BaselinePolicy | ModeGuard | ProxyState | Decider

datatype network_decision =
    AllowRequest
  | DenyRequest ustr network_decision_source network_policy_decision

definition REASON_POLICY_DENIED :: ustr where
  "REASON_POLICY_DENIED = lit ''policy_denied''"

definition deny_with_source :: "ustr \<Rightarrow> network_decision_source \<Rightarrow> network_decision" where
  "deny_with_source reason source =
     DenyRequest (if reason = [] then REASON_POLICY_DENIED else reason) source PolicyDeny"

definition ask_with_source :: "ustr \<Rightarrow> network_decision_source \<Rightarrow> network_decision" where
  "ask_with_source reason source =
     DenyRequest (if reason = [] then REASON_POLICY_DENIED else reason) source PolicyAsk"

definition network_deny :: "ustr \<Rightarrow> network_decision" where
  "network_deny reason = deny_with_source reason Decider"

definition network_ask :: "ustr \<Rightarrow> network_decision" where
  "network_ask reason = ask_with_source reason Decider"

text \<open>The fields that the service reads.\<close>

record network_policy_request =
  request_protocol :: network_protocol
  request_host :: ustr
  request_port :: nat
  request_environment_id :: "ustr option"
  request_execution_id :: "ustr option"

record blocked_request =
  blocked_host :: ustr
  blocked_reason :: ustr
  blocked_execution_id :: "ustr option"
  blocked_decision :: "ustr option"

record network_approval_context =
  context_host :: ustr
  context_protocol :: network_approval_protocol

record network_policy_decision_payload =
  payload_decision :: network_policy_decision
  payload_source :: network_decision_source
  payload_protocol :: "network_approval_protocol option"
  payload_host :: "ustr option"

datatype permission_request_decision = HookAllow | HookDeny ustr

datatype tool_error =
    Rejected ustr
  | SandboxDenied ustr "network_policy_decision_payload option"
  | SandboxTimeout
  | SandboxSignal
  | OtherError ustr

section \<open>network\_policy\_decision.rs\<close>

definition parse_network_policy_decision :: "ustr \<Rightarrow> network_policy_decision option" where
  "parse_network_policy_decision value =
     (if value = lit ''deny'' then Some PolicyDeny else if value = lit ''ask'' then Some PolicyAsk else None)"

definition is_ask_from_decider :: "network_policy_decision_payload \<Rightarrow> bool" where
  "is_ask_from_decider payload \<longleftrightarrow> payload_decision payload = PolicyAsk \<and> payload_source payload = Decider"

definition network_approval_context_from_payload ::
  "network_policy_decision_payload \<Rightarrow> network_approval_context option" where
  "network_approval_context_from_payload payload =
     (if \<not> is_ask_from_decider payload then None
      else case payload_protocol payload of
             None \<Rightarrow> None
           | Some protocol \<Rightarrow>
               (case payload_host payload of
                  None \<Rightarrow> None
                | Some raw \<Rightarrow>
                    let host = trim raw
                    in if host = [] then None else Some \<lparr>context_host = host, context_protocol = protocol\<rparr>))"

definition blocked_detail :: "ustr \<Rightarrow> ustr" where
  "blocked_detail reason =
     (if reason = lit ''denied'' then lit ''domain is explicitly denied by policy and cannot be approved from this prompt''
      else if reason = lit ''not_allowed'' then lit ''domain is not on the allowlist for the current sandbox mode''
      else if reason = lit ''not_allowed_local'' then lit ''local/private network addresses are blocked by the sandbox policy''
      else if reason = lit ''method_not_allowed'' then lit ''request method is blocked by the current network mode''
      else if reason = lit ''proxy_disabled'' then lit ''network proxy is disabled''
      else lit ''request is blocked by network policy'')"

definition denied_network_policy_message :: "blocked_request \<Rightarrow> ustr option" where
  "denied_network_policy_message blocked =
     (if Option.bind (blocked_decision blocked) parse_network_policy_decision \<noteq> Some PolicyDeny then None
      else let host = trim (blocked_host blocked)
           in if host = [] then Some (lit ''Network access was blocked by policy.'')
              else Some (lit ''Network access to '' @ [34] @ host @ [34] @ lit '' was blocked: '' @
                         blocked_detail (blocked_reason blocked) @ lit ''.''))"

record network_rule_amendment =
  amendment_protocol :: network_rule_protocol
  amendment_decision :: decision
  amendment_justification :: ustr

fun amendment_rule_protocol :: "network_approval_protocol \<Rightarrow> network_rule_protocol" where
  "amendment_rule_protocol ApprovalHttp = Http"
| "amendment_rule_protocol ApprovalHttps = Https"
| "amendment_rule_protocol ApprovalSocks5Tcp = Socks5Tcp"
| "amendment_rule_protocol ApprovalSocks5Udp = Socks5Udp"

fun amendment_protocol_label :: "network_approval_protocol \<Rightarrow> ustr" where
  "amendment_protocol_label ApprovalHttp = lit ''http''"
| "amendment_protocol_label ApprovalHttps = lit ''https_connect''"
| "amendment_protocol_label ApprovalSocks5Tcp = lit ''socks5_tcp''"
| "amendment_protocol_label ApprovalSocks5Udp = lit ''socks5_udp''"

definition execpolicy_network_rule_amendment ::
  "network_rule_action \<Rightarrow> network_approval_context \<Rightarrow> ustr \<Rightarrow> network_rule_amendment" where
  "execpolicy_network_rule_amendment action ctx host =
     (let (d, action_verb) = (case action of NetworkAllow \<Rightarrow> (Allow, lit ''Allow'') | NetworkDeny \<Rightarrow> (Forbidden, lit ''Deny''))
      in \<lparr>amendment_protocol = amendment_rule_protocol (context_protocol ctx), amendment_decision = d,
          amendment_justification = action_verb @ lit '' '' @ amendment_protocol_label (context_protocol ctx) @
            lit '' access to '' @ host\<rparr>)"

section \<open>The service\<close>

record host_approval_key =
  key_environment_id :: ustr
  key_host :: ustr
  key_protocol :: ustr
  key_port :: nat

fun protocol_key_label :: "network_approval_protocol \<Rightarrow> ustr" where
  "protocol_key_label ApprovalHttp = lit ''http''"
| "protocol_key_label ApprovalHttps = lit ''https''"
| "protocol_key_label ApprovalSocks5Tcp = lit ''socks5-tcp''"
| "protocol_key_label ApprovalSocks5Udp = lit ''socks5-udp''"

fun approval_protocol :: "network_protocol \<Rightarrow> network_approval_protocol" where
  "approval_protocol RequestHttp = ApprovalHttp"
| "approval_protocol RequestHttpsConnect = ApprovalHttps"
| "approval_protocol RequestSocks5Tcp = ApprovalSocks5Tcp"
| "approval_protocol RequestSocks5Udp = ApprovalSocks5Udp"

definition key_from_request :: "network_policy_request \<Rightarrow> network_approval_protocol \<Rightarrow> ustr \<Rightarrow> host_approval_key" where
  "key_from_request request protocol environment_id =
     \<lparr>key_environment_id = environment_id, key_host = to_ascii_lowercase (request_host request),
      key_protocol = protocol_key_label protocol, key_port = request_port request\<rparr>"

datatype pending_approval_decision = AllowOnce | AllowForSession | DenyPending

datatype network_approval_outcome = DeniedByApproval ustr | DeniedByPolicy ustr

definition NOT_ALLOWED :: ustr where
  "NOT_ALLOWED = lit ''not_allowed''"

fun to_network_decision :: "pending_approval_decision \<Rightarrow> network_decision" where
  "to_network_decision AllowOnce = AllowRequest"
| "to_network_decision AllowForSession = AllowRequest"
| "to_network_decision DenyPending = network_deny NOT_ALLOWED"

definition REJECTION_MESSAGE_MAX_TOKENS :: nat where
  "REJECTION_MESSAGE_MAX_TOKENS = 900"

text \<open>\<open>None\<close>: a panic of the truncation, which does not happen (see the theory of truncation).\<close>

definition truncate_rejection_message :: "ustr \<Rightarrow> ustr option" where
  "truncate_rejection_message message =
     map_option fst (truncate_middle_with_token_budget message REJECTION_MESSAGE_MAX_TOKENS)"

fun network_approval_outcome_to_result :: "network_approval_outcome option \<Rightarrow> (tool_error + unit) option" where
  "network_approval_outcome_to_result (Some (DeniedByApproval rejection)) =
     map_option (\<lambda>m. Err (Rejected m)) (truncate_rejection_message rejection)"
| "network_approval_outcome_to_result (Some (DeniedByPolicy message)) =
     map_option (\<lambda>m. Err (Rejected m)) (truncate_rejection_message message)"
| "network_approval_outcome_to_result None = Some (Ok ())"

definition allows_network_approval_flow :: "ask_for_approval \<Rightarrow> bool" where
  "allows_network_approval_flow policy \<longleftrightarrow> policy \<noteq> Never"

definition permission_profile_allows_network_approval_flow :: "permission_profile \<Rightarrow> bool" where
  "permission_profile_allows_network_approval_flow p \<longleftrightarrow> (case p of Managed _ _ \<Rightarrow> True | _ \<Rightarrow> False)"

record active_call =
  call_registration_id :: ustr
  call_turn_id :: ustr
  call_command :: ustr
  call_environment_id :: ustr

text \<open>
  The service. A cancellation token belongs to the call it was registered with, and the pending approvals handed out as
  \<open>Arc\<close>s are numbered in the order they were created; \<open>pending_decisions\<close> holds their contents.
\<close>

record network_approval_service =
  active_calls :: "(ustr \<times> active_call) list"
  call_outcomes :: "ustr \<rightharpoonup> network_approval_outcome"
  cancelled_calls :: "ustr set"
  pending_host_approvals :: "host_approval_key \<rightharpoonup> nat"
  pending_decisions :: "pending_approval_decision option list"
  session_approved_hosts :: "host_approval_key set"
  session_denied_hosts :: "host_approval_key set"

definition default_service :: network_approval_service where
  "default_service =
     \<lparr>active_calls = [], call_outcomes = Map.empty, cancelled_calls = {}, pending_host_approvals = Map.empty,
      pending_decisions = [], session_approved_hosts = {}, session_denied_hosts = {}\<rparr>"

definition sync_session_approved_hosts_to ::
  "network_approval_service \<Rightarrow> network_approval_service \<Rightarrow> network_approval_service" where
  "sync_session_approved_hosts_to self other = other\<lparr>session_approved_hosts := session_approved_hosts self\<rparr>"

text \<open>\<open>IndexMap::insert\<close>: an existing key keeps its position.\<close>

fun index_insert :: "ustr \<Rightarrow> 'v \<Rightarrow> (ustr \<times> 'v) list \<Rightarrow> (ustr \<times> 'v) list" where
  "index_insert k v [] = [(k, v)]"
| "index_insert k v ((k', v') # m) = (if k = k' then (k, v) # m else (k', v') # index_insert k v m)"

definition register_call :: "active_call \<Rightarrow> network_approval_service \<Rightarrow> network_approval_service" where
  "register_call call sv = sv\<lparr>active_calls := index_insert (call_registration_id call) call (active_calls sv)\<rparr>"

definition resolve_single_active_call :: "network_approval_service \<Rightarrow> active_call option" where
  "resolve_single_active_call sv = (case active_calls sv of [(_, call)] \<Rightarrow> Some call | _ \<Rightarrow> None)"

definition resolve_active_call_by_execution_id :: "network_approval_service \<Rightarrow> ustr \<Rightarrow> active_call option" where
  "resolve_active_call_by_execution_id sv execution_id = map_of (active_calls sv) execution_id"

datatype call_attribution = NoCall | SingleCall active_call | AmbiguousCalls

definition resolve_active_call_attribution :: "network_approval_service \<Rightarrow> call_attribution" where
  "resolve_active_call_attribution sv =
     (case active_calls sv of [] \<Rightarrow> NoCall | [(_, call)] \<Rightarrow> SingleCall call | _ \<Rightarrow> AmbiguousCalls)"

text \<open>The owner of a request and the environment it is for.\<close>

type_synonym request_attribution = "active_call option \<times> ustr option"

definition resolve_request_attribution ::
  "network_approval_service \<Rightarrow> network_policy_request \<Rightarrow> request_attribution option" where
  "resolve_request_attribution sv request =
     (case request_execution_id request of
        Some execution_id \<Rightarrow>
          (case resolve_active_call_by_execution_id sv execution_id of
             None \<Rightarrow> None
           | Some call \<Rightarrow>
               let environment_id = (case request_environment_id request of Some e \<Rightarrow> e | None \<Rightarrow> call_environment_id call)
               in if call_environment_id call = environment_id then Some (Some call, Some environment_id) else None)
      | None \<Rightarrow>
          (case request_environment_id request of
             Some environment_id \<Rightarrow>
               Some (case resolve_active_call_attribution sv of
                       SingleCall call \<Rightarrow> if call_environment_id call = environment_id then Some call else None
                     | _ \<Rightarrow> None, Some environment_id)
           | None \<Rightarrow>
               (case resolve_active_call_attribution sv of
                  NoCall \<Rightarrow> Some (None, None)
                | SingleCall call \<Rightarrow> Some (Some call, Some (call_environment_id call))
                | AmbiguousCalls \<Rightarrow> None)))"

definition get_or_create_pending_approval ::
  "host_approval_key \<Rightarrow> network_approval_service \<Rightarrow> (nat \<times> bool) \<times> network_approval_service" where
  "get_or_create_pending_approval key sv =
     (case pending_host_approvals sv key of
        Some existing \<Rightarrow> ((existing, False), sv)
      | None \<Rightarrow>
          let created = length (pending_decisions sv)
          in ((created, True),
              sv\<lparr>pending_decisions := pending_decisions sv @ [None],
                 pending_host_approvals := (pending_host_approvals sv)(key \<mapsto> created)\<rparr>))"

definition record_call_outcome ::
  "ustr \<Rightarrow> network_approval_outcome \<Rightarrow> network_approval_service \<Rightarrow> network_approval_service" where
  "record_call_outcome registration_id outcome sv =
     (case map_of (active_calls sv) registration_id of
        None \<Rightarrow> sv
      | Some call \<Rightarrow>
          (case call_outcomes sv registration_id of
             Some (DeniedByApproval _) \<Rightarrow> sv
           | _ \<Rightarrow> sv\<lparr>call_outcomes := (call_outcomes sv)(registration_id \<mapsto> outcome),
                     cancelled_calls := insert (call_registration_id call) (cancelled_calls sv)\<rparr>))"

definition remove_call ::
  "ustr \<Rightarrow> network_approval_service \<Rightarrow> network_approval_outcome option \<times> network_approval_service" where
  "remove_call registration_id sv =
     (call_outcomes sv registration_id,
      sv\<lparr>active_calls := filter (\<lambda>(k, _). k \<noteq> registration_id) (active_calls sv),
         call_outcomes := (call_outcomes sv)(registration_id := None)\<rparr>)"

definition finish_call ::
  "ustr \<Rightarrow> network_approval_service \<Rightarrow> (tool_error + unit) option \<times> network_approval_service" where
  "finish_call registration_id sv =
     (case remove_call registration_id sv of (outcome, sv') \<Rightarrow> (network_approval_outcome_to_result outcome, sv'))"

text \<open>\<open>record_blocked_request\<close> in its two critical sections: the owner is resolved, then the outcome is stored.\<close>

definition resolve_blocked_owner :: "network_approval_service \<Rightarrow> blocked_request \<Rightarrow> active_call option" where
  "resolve_blocked_owner sv blocked =
     (case blocked_execution_id blocked of
        Some execution_id \<Rightarrow> resolve_active_call_by_execution_id sv execution_id
      | None \<Rightarrow> resolve_single_active_call sv)"

definition store_blocked_outcome :: "ustr \<Rightarrow> ustr \<Rightarrow> network_approval_service \<Rightarrow> network_approval_service" where
  "store_blocked_outcome registration_id message sv =
     (if call_outcomes sv registration_id \<noteq> None then sv
      else sv\<lparr>call_outcomes := (call_outcomes sv)(registration_id \<mapsto> DeniedByPolicy message),
             cancelled_calls := insert registration_id (cancelled_calls sv)\<rparr>)"

section \<open>The handler\<close>

text \<open>What the handler reads of the session's active turn.\<close>

record active_turn =
  turn_permission_profile :: permission_profile
  turn_approval_policy :: ask_for_approval
  turn_primary_environment :: "ustr option"
  turn_routes_to_guardian :: bool

text \<open>A request that has got a key: the call it is charged to and the turn seen when it arrived.\<close>

record approval_job =
  job_key :: host_approval_key
  job_host :: ustr
  job_owner :: "active_call option"
  job_turn :: "active_turn option"

definition format_network_target :: "ustr \<Rightarrow> ustr \<Rightarrow> nat \<Rightarrow> ustr" where
  "format_network_target protocol host port = protocol @ lit ''://'' @ host @ lit '':'' @ dec port"

definition policy_denial_message :: "approval_job \<Rightarrow> ustr" where
  "policy_denial_message job =
     lit ''Network access to '' @ [34] @
     format_network_target (key_protocol (job_key job)) (job_host job) (key_port (job_key job)) @
     [34] @ lit '' was blocked by policy.''"

definition guardian_timeout_message :: ustr where
  "guardian_timeout_message =
     lit ''The automatic permission approval review did not finish before its deadline. '' @
     lit ''Do not assume the action is unsafe based on the timeout alone. '' @
     lit ''You may retry once, or ask the user for guidance or explicit approval.''"

text \<open>The critical sections that follow a decision, and the call that persists an amendment.\<close>

datatype approval_action =
    RecordOutcome ustr network_approval_outcome
  | PersistAmendment ustr network_rule_action
  | RemoveDenied host_approval_key
  | InsertApproved host_approval_key
  | RemoveApproved host_approval_key
  | InsertDenied host_approval_key
  | SetDecision nat pending_approval_decision
  | RemovePending host_approval_key

fun perform :: "approval_action \<Rightarrow> network_approval_service \<Rightarrow> network_approval_service" where
  "perform (RecordOutcome registration_id outcome) sv = record_call_outcome registration_id outcome sv"
| "perform (PersistAmendment host action) sv = sv"
| "perform (RemoveDenied key) sv = sv\<lparr>session_denied_hosts := session_denied_hosts sv - {key}\<rparr>"
| "perform (InsertApproved key) sv = sv\<lparr>session_approved_hosts := insert key (session_approved_hosts sv)\<rparr>"
| "perform (RemoveApproved key) sv = sv\<lparr>session_approved_hosts := session_approved_hosts sv - {key}\<rparr>"
| "perform (InsertDenied key) sv = sv\<lparr>session_denied_hosts := insert key (session_denied_hosts sv)\<rparr>"
| "perform (SetDecision n d) sv = sv\<lparr>pending_decisions := (pending_decisions sv)[n := Some d]\<rparr>"
| "perform (RemovePending key) sv = sv\<lparr>pending_host_approvals := (pending_host_approvals sv)(key := None)\<rparr>"

definition record_for_owner :: "active_call option \<Rightarrow> network_approval_outcome \<Rightarrow> approval_action list" where
  "record_for_owner owner outcome =
     (case owner of None \<Rightarrow> [] | Some call \<Rightarrow> [RecordOutcome (call_registration_id call) outcome])"

text \<open>No turn, no managed profile or \<open>Never\<close>: refused without a review.\<close>

definition review_possible :: "approval_job \<Rightarrow> bool" where
  "review_possible job \<longleftrightarrow>
     (case job_turn job of
        None \<Rightarrow> False
      | Some turn \<Rightarrow>
          permission_profile_allows_network_approval_flow (turn_permission_profile turn) \<and>
          allows_network_approval_flow (turn_approval_policy turn))"

definition refusal_actions :: "approval_job \<Rightarrow> nat \<Rightarrow> approval_action list" where
  "refusal_actions job n =
     [SetDecision n DenyPending, RemovePending (job_key job)] @
     record_for_owner (job_owner job) (DeniedByPolicy (policy_denial_message job))"

fun hook_actions :: "approval_job \<Rightarrow> nat \<Rightarrow> permission_request_decision \<Rightarrow> approval_action list \<times> network_decision" where
  "hook_actions job n HookAllow = ([SetDecision n AllowOnce, RemovePending (job_key job)], AllowRequest)"
| "hook_actions job n (HookDeny message) =
     (record_for_owner (job_owner job) (DeniedByPolicy message) @ [SetDecision n DenyPending, RemovePending (job_key job)],
      network_deny NOT_ALLOWED)"

text \<open>What a review means: the decision, whether a denial is kept for the session, and what is done at once.\<close>

fun resolve_review ::
  "bool \<Rightarrow> active_call option \<Rightarrow> review_decision \<Rightarrow> pending_approval_decision \<times> bool \<times> approval_action list" where
  "resolve_review use_guardian owner Approved = (AllowOnce, False, [])"
| "resolve_review use_guardian owner (ApprovedExecpolicyAmendment _) = (AllowOnce, False, [])"
| "resolve_review use_guardian owner ApprovedForSession = (AllowForSession, False, [])"
| "resolve_review use_guardian owner (NetworkPolicyAmendment host NetworkAllow) =
     (AllowForSession, False, [PersistAmendment host NetworkAllow])"
| "resolve_review use_guardian owner (NetworkPolicyAmendment host NetworkDeny) =
     (DenyPending, True,
      PersistAmendment host NetworkDeny # record_for_owner owner (DeniedByApproval (lit ''rejected by user'')))"
| "resolve_review use_guardian owner (Denied rejection) =
     (DenyPending, False,
      record_for_owner owner (if use_guardian then DeniedByPolicy rejection else DeniedByApproval rejection))"
| "resolve_review use_guardian owner TimedOut =
     (DenyPending, False, record_for_owner owner (DeniedByPolicy guardian_timeout_message))"
| "resolve_review use_guardian owner Abort =
     (DenyPending, False,
      record_for_owner owner
        (if use_guardian then DeniedByPolicy (lit ''automatic approval review was cancelled'')
         else DeniedByApproval (lit ''rejected by user'')))"

definition review_actions :: "approval_job \<Rightarrow> nat \<Rightarrow> review_decision \<Rightarrow> approval_action list \<times> network_decision" where
  "review_actions job n d =
     (case resolve_review (case job_turn job of Some turn \<Rightarrow> turn_routes_to_guardian turn | None \<Rightarrow> False) (job_owner job) d of
        (resolved, cache_session_deny, at_once) \<Rightarrow>
          (at_once @
           (if resolved = AllowForSession then [RemoveDenied (job_key job), InsertApproved (job_key job)] else []) @
           (if cache_session_deny then [RemoveApproved (job_key job), InsertDenied (job_key job)] else []) @
           [SetDecision n resolved, RemovePending (job_key job)],
           to_network_decision resolved))"

text \<open>
  Where a request stands in \<open>handle_inline_policy_request\<close>, and a blocked request in \<open>record_blocked_request\<close>. A key stays
  with the request to the end; \<open>Answered None\<close> is a request that was refused before it had one.
\<close>

datatype phase =
    Arrived network_policy_request
  | Attributed network_policy_request request_attribution
  | CheckDenied approval_job
  | CheckApproved approval_job
  | Claim approval_job
  | Waiting host_approval_key nat
  | Owner approval_job nat
  | Reviewing approval_job nat
  | Running host_approval_key nat "approval_action list" network_decision
  | Answered "host_approval_key option" network_decision
  | Blocked blocked_request
  | BlockedFor ustr ustr
  | Observed

text \<open>What is chosen from outside at a step: the session's turn, a hook's or a reviewer's answer.\<close>

datatype choice =
    NoChoice
  | TurnChoice "active_turn option"
  | HookChoice "permission_request_decision option"
  | ReviewChoice review_decision

fun advance :: "choice \<Rightarrow> phase \<Rightarrow> network_approval_service \<Rightarrow> (phase \<times> network_approval_service) option" where
  "advance NoChoice (Arrived request) sv =
     Some (case resolve_request_attribution sv request of
             None \<Rightarrow> Answered None (network_deny NOT_ALLOWED)
           | Some attribution \<Rightarrow> Attributed request attribution, sv)"
| "advance (TurnChoice turn) (Attributed request (owner, active_environment_id)) sv =
     Some (case (case active_environment_id of Some e \<Rightarrow> Some e | None \<Rightarrow> Option.bind turn turn_primary_environment) of
             None \<Rightarrow> Answered None (network_deny NOT_ALLOWED)
           | Some environment_id \<Rightarrow>
               CheckDenied \<lparr>job_key = key_from_request request (approval_protocol (request_protocol request)) environment_id,
                 job_host = request_host request, job_owner = owner, job_turn = turn\<rparr>, sv)"
| "advance NoChoice (CheckDenied job) sv =
     Some (if job_key job \<in> session_denied_hosts sv then Answered (Some (job_key job)) (network_deny NOT_ALLOWED)
           else CheckApproved job, sv)"
| "advance NoChoice (CheckApproved job) sv =
     Some (if job_key job \<in> session_approved_hosts sv then Answered (Some (job_key job)) AllowRequest else Claim job, sv)"
| "advance NoChoice (Claim job) sv =
     (case get_or_create_pending_approval (job_key job) sv of
        ((n, is_owner), sv') \<Rightarrow> Some (if is_owner then Owner job n else Waiting (job_key job) n, sv'))"
| "advance NoChoice (Waiting key n) sv =
     map_option (\<lambda>d. (Answered (Some key) (to_network_decision d), sv)) (pending_decisions sv ! n)"
| "advance NoChoice (Owner job n) sv =
     (if review_possible job then None
      else Some (Running (job_key job) n (refusal_actions job n) (network_deny NOT_ALLOWED), sv))"
| "advance (HookChoice hook) (Owner job n) sv =
     (if \<not> review_possible job then None
      else Some (case hook of
                   None \<Rightarrow> Reviewing job n
                 | Some d \<Rightarrow> (case hook_actions job n d of (actions, answer) \<Rightarrow> Running (job_key job) n actions answer), sv))"
| "advance (ReviewChoice d) (Reviewing job n) sv =
     Some (case review_actions job n d of (actions, answer) \<Rightarrow> Running (job_key job) n actions answer, sv)"
| "advance NoChoice (Running key n (a # actions) answer) sv = Some (Running key n actions answer, perform a sv)"
| "advance NoChoice (Running key n [] answer) sv = Some (Answered (Some key) answer, sv)"
| "advance NoChoice (Blocked blocked) sv =
     Some (case denied_network_policy_message blocked of
             None \<Rightarrow> Observed
           | Some message \<Rightarrow>
               (case resolve_blocked_owner sv blocked of
                  None \<Rightarrow> Observed
                | Some call \<Rightarrow> BlockedFor (call_registration_id call) message), sv)"
| "advance NoChoice (BlockedFor registration_id message) sv =
     Some (Observed, store_blocked_outcome registration_id message sv)"
| "advance _ _ _ = None"

text \<open>
  \<open>build_network_policy_decider\<close>: without a session the proxy is told to ask; otherwise the request enters the service.
\<close>

definition decide_policy_request :: "bool \<Rightarrow> network_policy_request \<Rightarrow> phase" where
  "decide_policy_request session_alive request =
     (if session_alive then Arrived request else Answered None (network_ask NOT_ALLOWED))"

section \<open>The system\<close>

record approval_system =
  service :: network_approval_service
  inflight :: "phase list"

definition initial_system :: approval_system where
  "initial_system = \<lparr>service = default_service, inflight = []\<rparr>"

datatype event =
    RequestArrives bool network_policy_request
  | RequestBlocked blocked_request
  | Advanced nat phase choice
  | CallRegistered active_call
  | CallFinished ustr
  | ApprovalsSynced "host_approval_key set"

inductive system_step :: "approval_system \<Rightarrow> event \<Rightarrow> approval_system \<Rightarrow> bool" where
  arrives: "system_step s (RequestArrives alive request) (s\<lparr>inflight := inflight s @ [decide_policy_request alive request]\<rparr>)"
| blocked: "system_step s (RequestBlocked b) (s\<lparr>inflight := inflight s @ [Blocked b]\<rparr>)"
| advances:
    "i < length (inflight s) \<Longrightarrow> advance c (inflight s ! i) (service s) = Some (ph, sv) \<Longrightarrow>
     system_step s (Advanced i (inflight s ! i) c) \<lparr>service = sv, inflight = (inflight s)[i := ph]\<rparr>"
| registered: "system_step s (CallRegistered call) (s\<lparr>service := register_call call (service s)\<rparr>)"
| finished: "system_step s (CallFinished rid) (s\<lparr>service := snd (remove_call rid (service s))\<rparr>)"
| synced:
    "system_step s (ApprovalsSynced (session_approved_hosts other))
       (s\<lparr>service := sync_session_approved_hosts_to other (service s)\<rparr>)"

inductive_cases system_stepE [elim]: "system_step s e s'"

inductive runs :: "approval_system \<Rightarrow> event list \<Rightarrow> approval_system \<Rightarrow> bool" where
  runs_nil: "runs s [] s"
| runs_snoc: "runs s tr s' \<Longrightarrow> system_step s' e s'' \<Longrightarrow> runs s (tr @ [e]) s''"

end
