(* ===== verification/Network_Flow.thy ===== *)
theory Network_Flow
  imports Network_Approval
begin

text \<open>
  What holds of the network approval service however the handlers of concurrent requests interleave: at most one of them asks
  about a target, none is left waiting, and access is only given after an approval of that target. The proofs go through a small
  protocol on the pending approvals (\<open>pending_step\<close>), which every step of the handler follows, and its invariant
  (\<open>pending_board\<close>).
\<close>

section \<open>Pending approvals are never lost\<close>

text \<open>Who is responsible for an entry of the pending map, who still has to decide a pending approval, and who refers to it.\<close>

fun holds :: "phase \<Rightarrow> (host_approval_key \<times> nat) option" where
  "holds (Owner job n) = Some (job_key job, n)"
| "holds (Reviewing job n) = Some (job_key job, n)"
| "holds (Running key n actions _) = (if RemovePending key \<in> set actions then Some (key, n) else None)"
| "holds _ = None"

fun decides :: "phase \<Rightarrow> nat option" where
  "decides (Owner job n) = Some n"
| "decides (Reviewing job n) = Some n"
| "decides (Running key n actions _) = (if list_ex (\<lambda>a. \<exists>d. a = SetDecision n d) actions then Some n else None)"
| "decides _ = None"

fun refers :: "phase \<Rightarrow> (host_approval_key \<times> nat) option" where
  "refers (Owner job n) = Some (job_key job, n)"
| "refers (Reviewing job n) = Some (job_key job, n)"
| "refers (Running key n _ _) = Some (key, n)"
| "refers (Waiting key n) = Some (key, n)"
| "refers _ = None"

lemma holds_refers: "holds ph = Some kn \<Longrightarrow> refers ph = Some kn"
  by (cases ph) (auto split: if_splits)

lemma decides_refers: "decides ph = Some n \<Longrightarrow> \<exists>k. refers ph = Some (k, n)"
  by (cases ph) (auto split: if_splits)

text \<open>The actions that touch the pending approval come once and in order: decide, then remove.\<close>

fun touches_pending :: "approval_action \<Rightarrow> bool" where
  "touches_pending (SetDecision _ _) \<longleftrightarrow> True"
| "touches_pending (RemovePending _) \<longleftrightarrow> True"
| "touches_pending _ \<longleftrightarrow> False"

definition actions_ok :: "host_approval_key \<Rightarrow> nat \<Rightarrow> approval_action list \<Rightarrow> bool" where
  "actions_ok key n actions \<longleftrightarrow>
     filter touches_pending actions \<in> {[], [RemovePending key]} \<union> range (\<lambda>d. [SetDecision n d, RemovePending key])"

fun phase_ok :: "phase \<Rightarrow> bool" where
  "phase_ok (Running key n actions _) \<longleftrightarrow> actions_ok key n actions"
| "phase_ok _ \<longleftrightarrow> True"

lemma record_for_owner_quiet [simp]: "filter touches_pending (record_for_owner owner outcome) = []"
  by (simp add: record_for_owner_def split: option.split)

lemma resolve_review_quiet: "resolve_review g owner d = (resolved, cache, at_once) \<Longrightarrow> filter touches_pending at_once = []"
  by (cases "(g, owner, d)" rule: resolve_review.cases) auto

lemma started_actions:
  "actions_ok (job_key job) n (refusal_actions job n)"
  "hook_actions job n h = (actions, answer) \<Longrightarrow> filter touches_pending actions \<in> range (\<lambda>d. [SetDecision n d, RemovePending (job_key job)])"
  "review_actions job n r = (actions, answer) \<Longrightarrow> filter touches_pending actions \<in> range (\<lambda>d. [SetDecision n d, RemovePending (job_key job)])"
  by (simp_all add: actions_ok_def refusal_actions_def)
    (cases h, auto simp: review_actions_def dest: resolve_review_quiet split: prod.splits)

lemma refusal_filter: "filter touches_pending (refusal_actions job n) = [SetDecision n DenyPending, RemovePending (job_key job)]"
  by (simp add: refusal_actions_def)

lemma running_marks:
  "filter touches_pending actions = [SetDecision n d, RemovePending key] \<Longrightarrow>
     holds (Running key n actions x) = Some (key, n) \<and> decides (Running key n actions x) = Some n"
  "filter touches_pending actions = [RemovePending key] \<Longrightarrow>
     holds (Running key n actions x) = Some (key, n) \<and> decides (Running key n actions x) = None"
  "filter touches_pending actions = [] \<Longrightarrow>
     holds (Running key n actions x) = None \<and> decides (Running key n actions x) = None"
proof -
  have "RemovePending key \<in> set actions \<longleftrightarrow> RemovePending key \<in> set (filter touches_pending actions)"
    "(\<exists>d. SetDecision n d \<in> set actions) \<longleftrightarrow> (\<exists>d. SetDecision n d \<in> set (filter touches_pending actions))"
    by auto
  then show
    "filter touches_pending actions = [SetDecision n d, RemovePending key] \<Longrightarrow>
       holds (Running key n actions x) = Some (key, n) \<and> decides (Running key n actions x) = Some n"
    "filter touches_pending actions = [RemovePending key] \<Longrightarrow>
       holds (Running key n actions x) = Some (key, n) \<and> decides (Running key n actions x) = None"
    "filter touches_pending actions = [] \<Longrightarrow>
       holds (Running key n actions x) = None \<and> decides (Running key n actions x) = None"
    by (auto simp: list_ex_iff simp del: filter_set set_filter)
qed

lemma perform_quiet:
  "\<not> touches_pending a \<Longrightarrow> pending_host_approvals (perform a sv) = pending_host_approvals sv \<and>
     pending_decisions (perform a sv) = pending_decisions sv"
  by (cases a) (auto simp: record_call_outcome_def split: option.split network_approval_outcome.split)

lemma action_cases:
  assumes "actions_ok key n (a # actions)"
  obtains "\<not> touches_pending a" | d where "a = SetDecision n d" "filter touches_pending actions = [RemovePending key]"
    | "a = RemovePending key" "filter touches_pending actions = []"
  using assms by (auto simp: actions_ok_def split: if_splits)

text \<open>
  What a step of a request may do to the pending approvals, as a protocol of its own: nothing, join a pending approval,
  create one, decide it, or remove it from the map.
\<close>

inductive pending_step ::
  "phase \<Rightarrow> (host_approval_key \<rightharpoonup> nat) \<Rightarrow> pending_approval_decision option list \<Rightarrow>
   phase \<Rightarrow> (host_approval_key \<rightharpoonup> nat) \<Rightarrow> pending_approval_decision option list \<Rightarrow> bool" where
  quiet: "holds ph' = holds ph \<Longrightarrow> decides ph' = decides ph \<Longrightarrow> refers ph' = refers ph \<or> refers ph' = None \<Longrightarrow> phase_ok ph' \<Longrightarrow>
     pending_step ph P D ph' P D"
| join: "refers ph = None \<Longrightarrow> P key = Some n \<Longrightarrow> pending_step ph P D (Waiting key n) P D"
| create: "refers ph = None \<Longrightarrow> P (job_key job) = None \<Longrightarrow>
     pending_step ph P D (Owner job (length D)) (P(job_key job \<mapsto> length D)) (D @ [None])"
| decide: "decides ph = Some n \<Longrightarrow> decides ph' = None \<Longrightarrow> holds ph' = holds ph \<Longrightarrow> refers ph' = refers ph \<Longrightarrow> phase_ok ph' \<Longrightarrow>
     pending_step ph P D ph' P (D[n := Some d])"
| remove: "holds ph = Some (key, n) \<Longrightarrow> holds ph' = None \<Longrightarrow> decides ph = None \<Longrightarrow> decides ph' = None \<Longrightarrow> refers ph' = refers ph \<Longrightarrow>
     phase_ok ph' \<Longrightarrow> pending_step ph P D ph' (P(key := None)) D"

lemma claim_pending_step:
  assumes "get_or_create_pending_approval (job_key job) sv = ((n, is_owner), sv')"
  shows "pending_step (Claim job) (pending_host_approvals sv) (pending_decisions sv)
    (if is_owner then Owner job n else Waiting (job_key job) n) (pending_host_approvals sv') (pending_decisions sv')"
  using assms
  by (cases "pending_host_approvals sv (job_key job)")
    (auto simp: get_or_create_pending_approval_def Let_def intro!: pending_step.join pending_step.create)

lemma start_running_pending_step:
  assumes "filter touches_pending actions \<in> range (\<lambda>d. [SetDecision n d, RemovePending (job_key job)])"
    and "ph \<in> {Owner job n, Reviewing job n}"
  shows "pending_step ph P D (Running (job_key job) n actions answer) P D"
proof -
  from assms(1) obtain d where d: "filter touches_pending actions = [SetDecision n d, RemovePending (job_key job)]" by auto
  with assms(2) running_marks(1) [OF d] show ?thesis by (intro pending_step.quiet) (auto simp: actions_ok_def)
qed

lemma running_pending_step:
  assumes "actions_ok key n (a # actions)"
  shows "pending_step (Running key n (a # actions) x) (pending_host_approvals sv) (pending_decisions sv)
    (Running key n actions x) (pending_host_approvals (perform a sv)) (pending_decisions (perform a sv))"
  using assms
proof (cases rule: action_cases)
  case 1
  with assms show ?thesis
    unfolding perform_quiet [OF 1, THEN conjunct1] perform_quiet [OF 1, THEN conjunct2]
    by (intro pending_step.quiet) (auto simp: actions_ok_def)
next
  case (2 d)
  with running_marks(2) [OF 2(2)] show ?thesis
    by simp (intro pending_step.decide; auto simp: actions_ok_def)
next
  case 3
  with running_marks(3) [OF 3(2)] show ?thesis
    by simp (intro pending_step.remove; auto simp: actions_ok_def)
qed

lemma advance_pending_step:
  assumes "advance c ph sv = Some (ph', sv')" and "phase_ok ph"
  shows "pending_step ph (pending_host_approvals sv) (pending_decisions sv) ph'
    (pending_host_approvals sv') (pending_decisions sv')"
proof (cases "(c, ph, sv)" rule: advance.cases)
  case (5 job sv0)
  with assms(1) claim_pending_step show ?thesis by (force split: prod.splits)
next
  case (8 hook job n sv0)
  show ?thesis
  proof (cases hook)
    case (Some h)
    with 8 assms(1) show ?thesis
      by (auto intro!: start_running_pending_step dest: started_actions(2) split: prod.splits if_splits)
  qed (use 8 assms(1) in \<open>auto intro: pending_step.quiet split: if_splits\<close>)
next
  case (9 d job n sv0)
  with assms(1) show ?thesis by (auto intro!: start_running_pending_step dest: started_actions(3) split: prod.splits)
next
  case (10 key n a actions answer sv0)
  with assms running_pending_step show ?thesis by auto
next
  case (13 rid message sv0)
  with assms(1) show ?thesis by (auto simp: store_blocked_outcome_def intro!: pending_step.quiet)
qed (use assms in \<open>auto simp: refusal_filter intro!: start_running_pending_step intro: pending_step.quiet
       split: if_splits option.splits\<close>)

text \<open>
  The invariant. Every request is in good order; the map names exactly the approvals somebody will remove, one request per
  key; a pending approval has one request that decides it, or it is decided; those who share an approval share its key.
\<close>

locale pending_board =
  fixes f :: "nat \<Rightarrow> phase" and P :: "host_approval_key \<rightharpoonup> nat" and D :: "pending_approval_decision option list"
  assumes ok: "phase_ok (f i)"
    and bounded: "refers (f i) = Some (k, n) \<Longrightarrow> n < length D"
    and undecided: "decides (f i) = Some n \<Longrightarrow> D ! n = None"
    and listed: "P k = Some n \<longleftrightarrow> (\<exists>i. holds (f i) = Some (k, n))"
    and one_holder: "holds (f i) = Some (k, m) \<Longrightarrow> holds (f j) = Some (k, n) \<Longrightarrow> i = j"
    and one_decider: "decides (f i) = Some n \<Longrightarrow> decides (f j) = Some n \<Longrightarrow> i = j"
    and one_key: "refers (f i) = Some (k, n) \<Longrightarrow> refers (f j) = Some (l, n) \<Longrightarrow> k = l"
    and decided: "n < length D \<Longrightarrow> D ! n = None \<Longrightarrow> \<exists>i. decides (f i) = Some n"
begin

lemma fresh: "decides (f j) \<noteq> Some (length D)" "refers (f j) \<noteq> Some (k, length D)"
  using bounded decides_refers by (metis less_irrefl)+

lemma free: "P k = None \<Longrightarrow> holds (f j) \<noteq> Some (k, n)"
  using listed by (metis option.distinct(1))

lemma unreferring: "refers (f i) = None \<Longrightarrow> holds (f i) = None \<and> decides (f i) = None"
  using holds_refers decides_refers by (metis option.distinct(1) option.exhaust)

lemma waiter_has_decider: "f i = Waiting k n \<Longrightarrow> D ! n \<noteq> None \<or> (\<exists>j. decides (f j) = Some n)"
  using bounded [of i k n] decided [of n] by auto

text \<open>A request whose holdings and duties stay as they are keeps the board, as long as it refers to what others refer to.\<close>

lemma board_same:
  assumes same: "\<And>j. holds (g j) = holds (f j)" "\<And>j. decides (g j) = decides (f j)"
    and oks: "\<And>j. phase_ok (g j)"
    and refs: "\<And>j kn. refers (g j) = Some kn \<Longrightarrow> \<exists>j'. refers (f j') = Some kn"
  shows "pending_board g P D"
proof (rule pending_board.intro, unfold same, goal_cases)
  case (1 j)
  show ?case by (rule oks)
next
  case (2 j k n)
  then show ?case using refs bounded by blast
next
  case (3 j n)
  then show ?case by (rule undecided)
next
  case (4 k n)
  show ?case by (rule listed)
next
  case (5 i k m j n)
  then show ?case by (rule one_holder)
next
  case (6 i n j)
  then show ?case by (rule one_decider)
next
  case (7 i k n j l)
  then show ?case using refs one_key by blast
next
  case (8 n)
  then show ?case by (rule decided)
qed

lemma board_quiet:
  assumes "holds ph' = holds (f i)" "decides ph' = decides (f i)" "refers ph' = refers (f i) \<or> refers ph' = None" "phase_ok ph'"
  shows "pending_board (f(i := ph')) P D"
proof (rule board_same)
  show "\<exists>j'. refers (f j') = Some kn" if "refers ((f(i := ph')) j) = Some kn" for j kn
    using assms(3) that by (cases "j = i") auto
qed (use assms ok in auto)

lemma board_join:
  assumes "refers (f i) = None" "P key = Some n"
  shows "pending_board (f(i := Waiting key n)) P D"
proof (rule board_same)
  obtain h where h: "refers (f h) = Some (key, n)" using listed assms(2) holds_refers by blast
  then show "\<exists>j'. refers (f j') = Some kn" if "refers ((f(i := Waiting key n)) j) = Some kn" for j kn
    using that by (cases "j = i") auto
qed (use ok unreferring [OF assms(1)] in auto)

lemma board_create:
  assumes i: "refers (f i) = None" and new: "P (job_key job) = None"
  shows "pending_board (f(i := Owner job (length D))) (P(job_key job \<mapsto> length D)) (D @ [None])"
proof (rule pending_board.intro, goal_cases)
  case (4 k n)
  show ?case
  proof (cases "k = job_key job")
    case True
    with free [OF new] show ?thesis by auto
  next
    case False
    then have "holds ((f(i := Owner job (length D))) j) = Some (k, n) \<longleftrightarrow> holds (f j) = Some (k, n)" for j
      using unreferring [OF i] by (cases "j = i") auto
    with False listed [of k n] show ?thesis by (simp del: fun_upd_apply add: fun_upd_def)
  qed
next
  case (8 n)
  show ?case
  proof (cases "n = length D")
    case False
    with 8 have "n < length D" "D ! n = None" by (auto simp: nth_append)
    then obtain j where "decides (f j) = Some n" using decided by blast
    then have "decides ((f(i := Owner job (length D))) j) = Some n" using unreferring [OF i] by auto
    then show ?thesis by blast
  qed (auto intro: exI [of _ i])
next
  case (3 j n)
  show ?case
  proof (cases "j = i")
    case False
    with 3 have d: "decides (f j) = Some n" by simp
    then obtain k where "refers (f j) = Some (k, n)" using decides_refers by blast
    with bounded undecided [OF d] show ?thesis by (auto simp: nth_append)
  qed (use 3 in \<open>auto simp: nth_append\<close>)
next
  case (2 j k n)
  then show ?case using bounded by (cases "j = i") (auto simp: less_Suc_eq)
next
  case (5 j k m j' n)
  then show ?case using one_holder free [OF new] by (cases "j = i"; cases "j' = i") auto
next
  case (6 j n j')
  then show ?case using one_decider fresh by (cases "j = i"; cases "j' = i") auto
next
  case (7 j k n j' l)
  then show ?case using one_key fresh by (cases "j = i"; cases "j' = i") auto
qed (use ok in auto)

lemma board_decide:
  assumes n: "decides (f i) = Some n" and "decides ph' = None" "holds ph' = holds (f i)" "refers ph' = refers (f i)" "phase_ok ph'"
  shows "pending_board (f(i := ph')) P (D[n := Some d])"
proof -
  have same: "holds ((f(i := ph')) j) = holds (f j)" "refers ((f(i := ph')) j) = refers (f j)" for j
    using assms by auto
  have dec: "decides ((f(i := ph')) j) = Some m \<longleftrightarrow> j \<noteq> i \<and> decides (f j) = Some m" for j m
    using assms by auto
  show ?thesis
  proof (rule pending_board.intro, unfold same dec, goal_cases)
    case (3 j m)
    then have "m \<noteq> n" using one_decider n by blast
    with 3 undecided [of j m] show ?case by simp
  next
    case (4 k m)
    show ?case by (rule listed)
  next
    case (8 m)
    then have "m \<noteq> n" by auto
    with 8 obtain j where "decides (f j) = Some m" using decided by auto
    moreover from this \<open>m \<noteq> n\<close> n have "j \<noteq> i" by auto
    ultimately show ?case by blast
  qed (use assms ok bounded one_holder one_decider one_key in auto)
qed

lemma board_remove:
  assumes h: "holds (f i) = Some (key, n)" and "holds ph' = None" "decides (f i) = None" "decides ph' = None"
    "refers ph' = refers (f i)" "phase_ok ph'"
  shows "pending_board (f(i := ph')) (P(key := None)) D"
proof -
  have same: "decides ((f(i := ph')) j) = decides (f j)" "refers ((f(i := ph')) j) = refers (f j)" for j
    using assms by auto
  have hold: "holds ((f(i := ph')) j) = Some kn \<longleftrightarrow> j \<noteq> i \<and> holds (f j) = Some kn" for j kn
    using assms by auto
  show ?thesis
  proof (rule pending_board.intro, unfold same hold, goal_cases)
    case (4 k m)
    have "(\<exists>j. j \<noteq> i \<and> holds (f j) = Some (k, m)) \<longleftrightarrow> k \<noteq> key \<and> (\<exists>j. holds (f j) = Some (k, m))"
      using h one_holder by (metis option.inject prod.inject)
    with listed [of k m] show ?case by simp
  qed (use assms ok bounded undecided one_holder one_decider one_key decided in auto)
qed

end

lemma board_pending_step:
  assumes "pending_board f P D" "pending_step (f i) P D ph' P' D'"
  shows "pending_board (f(i := ph')) P' D'"
  using assms(2)
proof (cases rule: pending_step.cases)
  case quiet
  with pending_board.board_quiet [OF assms(1)] show ?thesis by simp
next
  case (join key n)
  with pending_board.board_join [OF assms(1)] show ?thesis by simp
next
  case (create job)
  with pending_board.board_create [OF assms(1)] show ?thesis by simp
next
  case (decide n d)
  with pending_board.board_decide [OF assms(1)] show ?thesis by simp
next
  case (remove key n)
  with pending_board.board_remove [OF assms(1)] show ?thesis by simp
qed

text \<open>The phase of each request of a system; there is no request beyond the last.\<close>

definition phases_at :: "phase list \<Rightarrow> nat \<Rightarrow> phase" where
  "phases_at ps i = (if i < length ps then ps ! i else Observed)"

lemma phases_at_update: "i < length ps \<Longrightarrow> phases_at (ps[i := ph]) = (phases_at ps)(i := ph)"
  by (auto simp: phases_at_def fun_eq_iff nth_list_update)

lemma phases_at_append: "phases_at (ps @ [ph]) = (phases_at ps)(length ps := ph)"
  by (auto simp: phases_at_def fun_eq_iff nth_append)

abbreviation system_board :: "approval_system \<Rightarrow> bool" where
  "system_board s \<equiv> pending_board (phases_at (inflight s)) (pending_host_approvals (service s)) (pending_decisions (service s))"

interpretation start: pending_board "phases_at (inflight initial_system)"
  "pending_host_approvals (service initial_system)" "pending_decisions (service initial_system)"
  by unfold_locales (simp_all add: initial_system_def default_service_def phases_at_def)

lemma board_arrival:
  assumes "system_board s" "holds ph = None" "decides ph = None" "refers ph = None" "phase_ok ph"
  shows "pending_board (phases_at (inflight s @ [ph])) (pending_host_approvals (service s)) (pending_decisions (service s))"
  unfolding phases_at_append
  by (rule pending_board.board_quiet [OF assms(1)]) (simp_all add: assms phases_at_def)

lemma system_step_board: "system_step s e s' \<Longrightarrow> system_board s \<Longrightarrow> system_board s'"
proof (induction rule: system_step.induct)
  case (advances i s c ph sv)
  then have "phases_at (inflight s) i = inflight s ! i" by (simp add: phases_at_def)
  with advances have "pending_step (phases_at (inflight s) i) (pending_host_approvals (service s)) (pending_decisions (service s))
      ph (pending_host_approvals sv) (pending_decisions sv)"
    using advance_pending_step pending_board.ok by metis
  from board_pending_step [OF advances(3) this] show ?case
    by (simp only: approval_system.simps phases_at_update [OF advances(1)])
qed (auto simp: decide_policy_request_def register_call_def remove_call_def sync_session_approved_hosts_to_def
    intro!: board_arrival)

lemma runs_board: "runs s tr s' \<Longrightarrow> system_board s \<Longrightarrow> system_board s'"
  by (induction rule: runs.induct) (auto intro: system_step_board)

lemma reachable_board: "runs initial_system tr s \<Longrightarrow> system_board s"
  using runs_board start.pending_board_axioms by blast

section \<open>One question per target\<close>

text \<open>The target a request is asking about, by hook or by review.\<close>

fun asks :: "phase \<Rightarrow> host_approval_key option" where
  "asks (Owner job _) = Some (job_key job)"
| "asks (Reviewing job _) = Some (job_key job)"
| "asks _ = None"

lemma asks_holds: "asks ph = Some k \<Longrightarrow> \<exists>n. holds ph = Some (k, n)"
  by (cases ph) auto

text \<open>
  C17: However the steps of concurrent requests interleave, at most one request at a time is asking about a target (environment,
  host, protocol and port), and while it asks, the target is listed as pending, so that every other request for it waits.
\<close>

theorem one_question_per_target:
  assumes "runs initial_system tr s" and "i < length (inflight s)" and "j < length (inflight s)"
    and "asks (inflight s ! i) = Some k" and "asks (inflight s ! j) = Some k"
  shows "i = j \<and> pending_host_approvals (service s) k \<noteq> None"
proof -
  note board = reachable_board [OF assms(1)]
  obtain m n where h: "holds (phases_at (inflight s) i) = Some (k, m)" "holds (phases_at (inflight s) j) = Some (k, n)"
    using assms(2-5) asks_holds by (metis phases_at_def)
  with pending_board.one_holder [OF board] have "i = j" by blast
  moreover have "pending_host_approvals (service s) k = Some m" using pending_board.listed [OF board] h(1) by blast
  ultimately show ?thesis by simp
qed

section \<open>Every request is answered\<close>

fun finished :: "phase \<Rightarrow> bool" where
  "finished (Answered _ _) \<longleftrightarrow> True"
| "finished Observed \<longleftrightarrow> True"
| "finished _ \<longleftrightarrow> False"

fun weight :: "phase \<Rightarrow> nat" where
  "weight (Arrived _) = 14"
| "weight (Attributed _ _) = 13"
| "weight (CheckDenied _) = 12"
| "weight (CheckApproved _) = 11"
| "weight (Claim _) = 10"
| "weight (Owner _ _) = 9"
| "weight (Reviewing _ _) = 8"
| "weight (Running _ _ actions _) = Suc (length actions)"
| "weight (Waiting _ _) = 1"
| "weight (Answered _ _) = 0"
| "weight (Blocked _) = 2"
| "weight (BlockedFor _ _) = 1"
| "weight Observed = 0"

lemma resolve_review_length:
  "resolve_review g owner d = (resolved, cache, at_once) \<Longrightarrow>
     length at_once \<le> (if resolved = AllowForSession then 1 else 2) \<and> (resolved = AllowForSession \<longrightarrow> \<not> cache)"
  by (cases "(g, owner, d)" rule: resolve_review.cases) (auto simp: record_for_owner_def split: option.splits)

lemma started_actions_length:
  "length (refusal_actions job n) \<le> 3"
  "hook_actions job n h = (actions, answer) \<Longrightarrow> length actions \<le> 3"
  "review_actions job n r = (actions, answer) \<Longrightarrow> length actions \<le> 6"
proof -
  show "length (refusal_actions job n) \<le> 3"
    by (simp add: refusal_actions_def record_for_owner_def split: option.split)
  show "length actions \<le> 3" if "hook_actions job n h = (actions, answer)"
    using that by (cases h) (auto simp: record_for_owner_def split: option.splits)
  show "length actions \<le> 6" if "review_actions job n r = (actions, answer)"
    using that by (auto simp: review_actions_def split: prod.splits if_splits dest!: resolve_review_length)
qed

lemma advance_weight: "advance c ph sv = Some (ph', sv') \<Longrightarrow> weight ph' < weight ph"
proof (cases "(c, ph, sv)" rule: advance.cases)
  case (8 hook job n sv0)
  moreover assume "advance c ph sv = Some (ph', sv')"
  ultimately show ?thesis
    by (auto dest!: started_actions_length(2) split: if_splits option.splits prod.splits)
next
  case (9 d job n sv0)
  moreover assume "advance c ph sv = Some (ph', sv')"
  ultimately show ?thesis by (auto dest!: started_actions_length(3) split: prod.splits)
next
  case (7 job n sv0)
  moreover assume "advance c ph sv = Some (ph', sv')"
  ultimately show ?thesis using started_actions_length(1) [of job n] by (auto split: if_splits)
qed (auto split: if_splits option.splits prod.splits)

fun is_advance :: "event \<Rightarrow> bool" where
  "is_advance (Advanced _ _ _) \<longleftrightarrow> True"
| "is_advance _ \<longleftrightarrow> False"

definition total_weight :: "approval_system \<Rightarrow> nat" where
  "total_weight s = sum_list (map weight (inflight s))"

lemma advance_step_weight:
  assumes "system_step s e s'" "is_advance e"
  shows "Suc (total_weight s') \<le> total_weight s"
  using assms
proof (cases rule: system_step.cases)
  case (advances i c ph sv)
  then have "weight ph < weight (inflight s ! i)" by (blast intro: advance_weight)
  moreover have "weight (inflight s ! i) \<le> sum_list (map weight (inflight s))"
    using advances by (intro member_le_sum_list) auto
  ultimately show ?thesis
    using advances by (simp add: total_weight_def map_update sum_list_update)
qed simp_all

lemma advance_runs_weight: "runs s tr s' \<Longrightarrow> list_all is_advance tr \<Longrightarrow> length tr + total_weight s' \<le> total_weight s"
proof (induction rule: runs.induct)
  case (runs_snoc s tr s' e s'')
  with advance_step_weight [of s' e s''] show ?case by simp
qed simp

lemma advance_possible:
  assumes "\<not> finished ph"
  obtains c ph' sv' where "advance c ph sv = Some (ph', sv')"
  | k n where "ph = Waiting k n" "pending_decisions sv ! n = None"
proof (cases ph)
  case (Attributed request attribution)
  then show thesis using that(1) [of "TurnChoice None"] by (cases attribution) simp
next
  case (Owner job n)
  then show thesis using that(1) [of NoChoice] that(1) [of "HookChoice None"] by (cases "review_possible job") auto
next
  case (Reviewing job n)
  then show thesis using that(1) [of "ReviewChoice Abort"] by simp
next
  case (Waiting k n)
  then show thesis using that(1) [of NoChoice] that(2) by (cases "pending_decisions sv ! n") auto
next
  case (Running k n actions answer)
  then show thesis using that(1) [of NoChoice] by (cases actions) auto
next
  case (Claim job)
  then show thesis
    using that(1) [of NoChoice] by (cases "get_or_create_pending_approval (job_key job) sv") (auto split: prod.splits)
qed (use that(1) [of NoChoice] assms in auto)

lemma decider_can_advance: "decides ph = Some n \<Longrightarrow> \<exists>c ph' sv'. advance c ph sv = Some (ph', sv')"
  by (rule advance_possible [of ph sv]) (auto elim: decides.elims)

lemma runs_append: "runs s' tr' s'' \<Longrightarrow> runs s tr s' \<Longrightarrow> runs s (tr @ tr') s''"
  by (induction rule: runs.induct) (auto simp flip: append_assoc intro: runs.runs_snoc)

lemma stuck_is_finished:
  assumes "system_board s" and stuck: "\<And>e s'. is_advance e \<Longrightarrow> \<not> system_step s e s'" and i: "i < length (inflight s)"
  shows "finished (inflight s ! i)"
proof (rule ccontr)
  have blocked: "advance c (phases_at (inflight s) j) (service s) = None" for c j
  proof (cases "j < length (inflight s)")
    case True
    then show ?thesis
      using stuck [of "Advanced j (inflight s ! j) c"] system_step.advances [of j s c]
      by (cases "advance c (inflight s ! j) (service s)") (auto simp: phases_at_def)
  qed (cases c; simp add: phases_at_def)
  assume "\<not> finished (inflight s ! i)"
  then show False
  proof (cases rule: advance_possible [of _ "service s"])
    case 1
    with blocked [of _ i] i show False by (simp add: phases_at_def)
  next
    case (2 k n)
    then obtain j where "decides (phases_at (inflight s) j) = Some n"
      using pending_board.waiter_has_decider [OF assms(1), of i k n] i by (auto simp: phases_at_def)
    with decider_can_advance blocked show False by (metis option.distinct(1))
  qed
qed

text \<open>
  C13: No request for network access waits forever. From every reachable state, a run of handler steps has at most as many steps as
  the requests in flight have left, whatever the order and the answers; and when no handler can take a step any more, every request
  has been answered: a waiting request is never left behind by the one that decides.
\<close>

theorem requests_are_answered:
  assumes "runs initial_system tr s" and "runs s tr' s'" and "list_all is_advance tr'"
  shows "length tr' \<le> total_weight s \<and>
    ((\<forall>e s''. is_advance e \<longrightarrow> \<not> system_step s' e s'') \<longrightarrow> list_all finished (inflight s'))"
proof -
  have "system_board s'" using reachable_board [OF runs_append [OF assms(2,1)]] .
  then have "list_all finished (inflight s')" if "\<forall>e s''. is_advance e \<longrightarrow> \<not> system_step s' e s''"
    using stuck_is_finished that by (simp add: list_all_length)
  with advance_runs_weight [OF assms(2,3)] show ?thesis by auto
qed

section \<open>Access follows an approval\<close>

fun approves :: "review_decision \<Rightarrow> bool" where
  "approves Approved \<longleftrightarrow> True"
| "approves (ApprovedExecpolicyAmendment _) \<longleftrightarrow> True"
| "approves ApprovedForSession \<longleftrightarrow> True"
| "approves (NetworkPolicyAmendment _ action) \<longleftrightarrow> action = NetworkAllow"
| "approves _ \<longleftrightarrow> False"

text \<open>The targets that an event of a run approves: a hook, a reviewer, or the approvals taken over from another session.\<close>

fun grants :: "event \<Rightarrow> host_approval_key set" where
  "grants (Advanced _ (Owner job _) (HookChoice (Some HookAllow))) = {job_key job}"
| "grants (Advanced _ (Reviewing job _) (ReviewChoice d)) = (if approves d then {job_key job} else {})"
| "grants (ApprovalsSynced hosts) = hosts"
| "grants _ = {}"

definition granted :: "event list \<Rightarrow> host_approval_key set" where
  "granted tr = \<Union> (grants ` set tr)"

text \<open>A question to a hook or a reviewer is only put in a turn that allows it.\<close>

fun question_allowed :: "event \<Rightarrow> bool" where
  "question_allowed (Advanced _ (Owner job _) (HookChoice _)) \<longleftrightarrow> review_possible job"
| "question_allowed (Advanced _ (Reviewing job _) _) \<longleftrightarrow> review_possible job"
| "question_allowed _ \<longleftrightarrow> True"

fun action_granted :: "host_approval_key set \<Rightarrow> host_approval_key \<Rightarrow> approval_action \<Rightarrow> bool" where
  "action_granted G k (InsertApproved k') \<longleftrightarrow> k' \<in> G"
| "action_granted G k (SetDecision _ d) \<longleftrightarrow> d \<noteq> DenyPending \<longrightarrow> k \<in> G"
| "action_granted G k _ \<longleftrightarrow> True"

fun phase_granted :: "host_approval_key set \<Rightarrow> phase \<Rightarrow> bool" where
  "phase_granted G (Answered key answer) \<longleftrightarrow> answer = AllowRequest \<longrightarrow> (\<exists>k\<in>G. key = Some k)"
| "phase_granted G (Running k n actions answer) \<longleftrightarrow>
     (answer = AllowRequest \<longrightarrow> k \<in> G) \<and> list_all (action_granted G k) actions"
| "phase_granted G (Reviewing job n) \<longleftrightarrow> review_possible job"
| "phase_granted G _ \<longleftrightarrow> True"

lemma network_deny_not_allow [simp]: "network_deny r \<noteq> AllowRequest" "network_ask r \<noteq> AllowRequest"
  by (simp_all add: network_deny_def network_ask_def deny_with_source_def ask_with_source_def)

lemma to_network_decision_allow: "to_network_decision d = AllowRequest \<longleftrightarrow> d \<noteq> DenyPending"
  by (cases d) simp_all

lemma action_granted_mono: "action_granted G k a \<Longrightarrow> G \<subseteq> H \<Longrightarrow> action_granted H k a"
  by (cases a) auto

lemma phase_granted_mono: "phase_granted G ph \<Longrightarrow> G \<subseteq> H \<Longrightarrow> phase_granted H ph"
  by (cases ph) (auto simp: list_all_iff intro: action_granted_mono)

lemma record_for_owner_granted [simp]: "list_all (action_granted G k) (record_for_owner owner outcome)"
  by (simp add: record_for_owner_def split: option.split)

lemma resolve_review_granted:
  "resolve_review g owner d = (resolved, cache, at_once) \<Longrightarrow>
     list_all (action_granted G k) at_once \<and> (resolved \<noteq> DenyPending \<longleftrightarrow> approves d)"
  by (cases "(g, owner, d)" rule: resolve_review.cases) auto

lemma started_actions_granted:
  "hook_actions job n h = (actions, answer) \<Longrightarrow> (h = HookAllow \<Longrightarrow> job_key job \<in> G) \<Longrightarrow>
     phase_granted G (Running (job_key job) n actions answer)"
  "review_actions job n d = (actions, answer) \<Longrightarrow> (approves d \<Longrightarrow> job_key job \<in> G) \<Longrightarrow>
     phase_granted G (Running (job_key job) n actions answer)"
  "phase_granted G (Running (job_key job) n (refusal_actions job n) (network_deny r))"
proof -
  show "phase_granted G (Running (job_key job) n actions answer)"
    if "hook_actions job n h = (actions, answer)" "h = HookAllow \<Longrightarrow> job_key job \<in> G"
    using that by (cases h) auto
  show "phase_granted G (Running (job_key job) n actions answer)"
    if "review_actions job n d = (actions, answer)" "approves d \<Longrightarrow> job_key job \<in> G"
    using that by (auto simp: review_actions_def to_network_decision_allow split: prod.splits if_splits
        dest!: resolve_review_granted [where G = G and k = "job_key job"])
  show "phase_granted G (Running (job_key job) n (refusal_actions job n) (network_deny r))"
    by (simp add: refusal_actions_def)
qed

text \<open>One step: what a request may do next, and what it does to the lists, is covered by what has been granted.\<close>

lemma perform_approved:
  assumes "session_approved_hosts sv \<subseteq> G" "action_granted G k a"
  shows "session_approved_hosts (perform a sv) \<subseteq> G"
  using assms by (cases a) (auto simp: record_call_outcome_def split: option.splits network_approval_outcome.splits)

lemma advance_granted:
  assumes "advance c ph sv = Some (ph', sv')" and "phase_granted G ph" and "session_approved_hosts sv \<subseteq> G"
    and "\<And>k n d. ph = Waiting k n \<Longrightarrow> pending_decisions sv ! n = Some d \<Longrightarrow> d \<noteq> DenyPending \<Longrightarrow> k \<in> G"
  shows "phase_granted (G \<union> grants (Advanced i ph c)) ph' \<and> session_approved_hosts sv' \<subseteq> G \<union> grants (Advanced i ph c)"
proof (cases "(c, ph, sv)" rule: advance.cases)
  case (5 job sv0)
  with assms(1,3) show ?thesis
    by (auto simp: get_or_create_pending_approval_def Let_def split: option.splits if_splits)
next
  case (6 k n sv0)
  with assms show ?thesis by (auto simp: to_network_decision_allow)
next
  case (7 job n sv0)
  with assms(1,3) started_actions_granted(3) show ?thesis by (auto split: if_splits)
next
  case (8 hook job n sv0)
  with assms(1,3) show ?thesis
    by (auto split: if_splits option.splits prod.splits simp del: phase_granted.simps(2) intro!: started_actions_granted(1))
next
  case (9 d job n sv0)
  with assms(1,3) show ?thesis
    by (auto split: prod.splits simp del: phase_granted.simps(2) intro!: started_actions_granted(2))
next
  case (10 k n a actions answer sv0)
  with assms(1-3) perform_approved [of sv G k a] show ?thesis by auto
next
  case (13 rid message sv0)
  with assms(1,3) show ?thesis by (auto simp: store_blocked_outcome_def split: if_splits)
qed (use assms in \<open>auto split: option.splits if_splits\<close>)

lemma advance_decisions:
  assumes "advance c ph sv = Some (ph', sv')" and "phase_ok ph" and "phase_granted G ph"
  obtains "pending_decisions sv' = pending_decisions sv"
  | "pending_decisions sv' = pending_decisions sv @ [None]"
  | k n d where "refers ph = Some (k, n)" "pending_decisions sv' = (pending_decisions sv)[n := Some d]" "d \<noteq> DenyPending \<longrightarrow> k \<in> G"
proof (cases "\<exists>k n a actions answer. ph = Running k n (a # actions) answer \<and> touches_pending a")
  case True
  then obtain k n a actions answer where ph: "ph = Running k n (a # actions) answer" "touches_pending a" by blast
  then have c: "c = NoChoice" "sv' = perform a sv" using assms(1) by (cases c; simp)+
  from ph assms(2) show thesis
    by (cases a) (use assms(3) c ph in \<open>auto simp: actions_ok_def intro: that split: if_splits\<close>)
next
  case False
  from advance_pending_step [OF assms(1,2)] show thesis
  proof (cases rule: pending_step.cases)
    case (decide n d)
    with assms(1) False show thesis
      by (cases "(c, ph, sv)" rule: advance.cases) (auto split: if_splits option.splits prod.splits intro: that dest: perform_quiet)
  qed (auto intro: that)
qed

lemma pending_step_refs:
  assumes "pending_board f P D" "pending_step (f i) P D ph' P' D'" "refers ph' = Some (k, n)"
  shows "(\<exists>j. refers (f j) = Some (k, n)) \<or> n = length D \<and> D' = D @ [None]"
  using assms(2)
proof (cases rule: pending_step.cases)
  case (join key m)
  with assms(3) pending_board.listed [OF assms(1)] holds_refers show ?thesis by force
qed (use assms(3) in auto)

definition system_granted :: "host_approval_key set \<Rightarrow> approval_system \<Rightarrow> bool" where
  "system_granted G s \<longleftrightarrow>
     session_approved_hosts (service s) \<subseteq> G \<and>
     (\<forall>i. phase_granted G (phases_at (inflight s) i)) \<and>
     (\<forall>i k n d. refers (phases_at (inflight s) i) = Some (k, n) \<longrightarrow> pending_decisions (service s) ! n = Some d \<longrightarrow>
        d \<noteq> DenyPending \<longrightarrow> k \<in> G)"

lemma system_granted_mono: "system_granted G s \<Longrightarrow> G \<subseteq> H \<Longrightarrow> system_granted H s"
  unfolding system_granted_def using phase_granted_mono by (meson subsetD subset_trans)

lemma system_granted_arrival:
  assumes "system_granted G s" "phase_granted G ph" "refers ph = None"
  shows "system_granted G (s\<lparr>inflight := inflight s @ [ph]\<rparr>)"
  using assms by (auto simp: system_granted_def phases_at_append)

lemma advance_step_granted:
  assumes board: "system_board s" and gr: "system_granted G s" and i: "i < length (inflight s)"
    and adv: "advance c (inflight s ! i) (service s) = Some (ph, sv)"
  shows "system_granted (G \<union> grants (Advanced i (inflight s ! i) c)) \<lparr>service = sv, inflight = (inflight s)[i := ph]\<rparr>"
proof -
  let ?f = "phases_at (inflight s)" and ?D = "pending_decisions (service s)" and ?H = "G \<union> grants (Advanced i (inflight s ! i) c)"
  have fi: "?f i = inflight s ! i" using i by (simp add: phases_at_def)
  have ok: "phase_ok (inflight s ! i)" and phi: "phase_granted G (inflight s ! i)"
    using pending_board.ok [OF board, of i] gr by (simp_all add: fi [symmetric] system_granted_def)
  have old: "k \<in> G" if "refers (?f j) = Some (k, n)" "?D ! n = Some d" "d \<noteq> DenyPending" for j k n d
    using gr that by (auto simp: system_granted_def)
  have step: "phase_granted ?H ph" "session_approved_hosts sv \<subseteq> ?H"
    using advance_granted [OF adv phi, of i] gr old [of i] by (auto simp: system_granted_def fi)
  have refs: "k \<in> ?H" if ref: "refers ((?f(i := ph)) j) = Some (k, n)" "pending_decisions sv ! n = Some d" "d \<noteq> DenyPending" for j k n d
  proof -
    have "(\<exists>j'. refers (?f j') = Some (k, n)) \<or> n = length ?D \<and> pending_decisions sv = ?D @ [None]"
      using ref(1) pending_step_refs [OF board, of i ph] advance_pending_step [OF adv ok]
      by (cases "j = i") (auto simp: fi)
    with ref(2) obtain j' where j': "refers (?f j') = Some (k, n)" by auto
    note len = pending_board.bounded [OF board j']
    show ?thesis
    proof (cases rule: advance_decisions [OF adv ok phi])
      case (3 k' m d')
      then show ?thesis
        using ref j' old len pending_board.one_key [OF board, of i k' m j' k] by (cases "m = n") (auto simp: fi)
    qed (use ref old [OF j'] len in \<open>auto simp: nth_append\<close>)
  qed
  have "phase_granted ?H ((?f(i := ph)) j)" for j
    using step(1) gr phase_granted_mono [of G "?f j" ?H] by (simp add: system_granted_def)
  with step(2) refs show ?thesis
    unfolding system_granted_def approval_system.simps phases_at_update [OF i] by blast
qed

lemma system_step_granted:
  assumes "system_step s e s'" "system_board s" "system_granted G s"
  shows "system_granted (G \<union> grants e) s'"
  using assms
proof (cases rule: system_step.cases)
  case (advances i c ph sv)
  with advance_step_granted [OF assms(2,3)] show ?thesis by simp
next
  case (arrives alive request)
  with system_granted_arrival [OF assms(3)] show ?thesis by (simp add: decide_policy_request_def)
next
  case (blocked b)
  with system_granted_arrival [OF assms(3)] show ?thesis by simp
next
  case (synced other)
  with system_granted_mono [OF assms(3)] show ?thesis
    by (auto simp: system_granted_def sync_session_approved_hosts_to_def)
qed (use assms(3) in \<open>auto simp: system_granted_def register_call_def remove_call_def\<close>)

lemma step_question_allowed:
  assumes "system_step s e s'" "system_granted G s"
  shows "question_allowed e"
  using assms(1)
proof (cases rule: system_step.cases)
  case (advances i c ph sv)
  with assms(2) have "phase_granted G (inflight s ! i)" by (auto simp: system_granted_def phases_at_def split: if_splits)
  with advances show ?thesis
    by (cases "(c, inflight s ! i, service s)" rule: advance.cases) (auto split: if_splits)
qed auto

lemma runs_granted: "runs s tr s' \<Longrightarrow> s = initial_system \<Longrightarrow> system_granted (granted tr) s' \<and> list_all question_allowed tr"
proof (induction rule: runs.induct)
  case (runs_nil s)
  then show ?case by (simp add: system_granted_def initial_system_def default_service_def phases_at_def)
next
  case (runs_snoc s tr s' e s'')
  then have "system_board s'" using reachable_board by blast
  with runs_snoc system_step_granted [of s' e s'' "granted tr"] step_question_allowed show ?case
    by (auto simp: granted_def Un_commute)
qed

text \<open>
  C4: Network access follows an approval of exactly that target: when a request has been let through, its environment, host,
  protocol and port were approved in the course of the run, by a hook or a reviewer or by the approvals taken over from
  another session; and a hook or a reviewer is only asked in a turn with a managed profile and an approval policy
  other than \<open>Never\<close>.
\<close>

theorem access_follows_approval:
  assumes "runs initial_system tr s" and "Answered key AllowRequest \<in> set (inflight s)"
  shows "(\<exists>k. key = Some k \<and> (\<exists>e\<in>set tr. k \<in> grants e)) \<and> list_all question_allowed tr"
proof -
  from assms(2) obtain i where "i < length (inflight s)" "inflight s ! i = Answered key AllowRequest"
    by (auto simp: in_set_conv_nth)
  then have "phases_at (inflight s) i = Answered key AllowRequest" by (simp add: phases_at_def)
  moreover have gr: "system_granted (granted tr) s" "list_all question_allowed tr"
    using runs_granted [OF assms(1)] by simp_all
  then have "phase_granted (granted tr) (phases_at (inflight s) i)" by (simp add: system_granted_def)
  ultimately show ?thesis using gr(2) by (auto simp: granted_def)
qed

section \<open>A run\<close>

text \<open>Runs handlers by a schedule of requests and outside answers.\<close>

fun drive :: "(nat \<times> choice) list \<Rightarrow> approval_system \<Rightarrow> (event list \<times> approval_system) option" where
  "drive [] s = Some ([], s)"
| "drive ((i, c) # schedule) s =
     (if i < length (inflight s) then
        (case advance c (inflight s ! i) (service s) of
           None \<Rightarrow> None
         | Some (ph, sv) \<Rightarrow>
             map_option (\<lambda>(tr, s'). (Advanced i (inflight s ! i) c # tr, s'))
               (drive schedule \<lparr>service = sv, inflight = (inflight s)[i := ph]\<rparr>))
      else None)"

lemma drive_runs: "drive schedule s = Some (tr, s') \<Longrightarrow> runs s tr s' \<and> list_all is_advance tr"
proof (induction schedule s arbitrary: tr rule: drive.induct)
  case (2 i c schedule s)
  then obtain ph sv tr0 where i: "i < length (inflight s)" "advance c (inflight s ! i) (service s) = Some (ph, sv)"
    and rest: "drive schedule \<lparr>service = sv, inflight = (inflight s)[i := ph]\<rparr> = Some (tr0, s')"
    and tr: "tr = Advanced i (inflight s ! i) c # tr0"
    by (auto split: if_splits option.splits)
  have "runs s [Advanced i (inflight s ! i) c] \<lparr>service = sv, inflight = (inflight s)[i := ph]\<rparr>"
    using runs.runs_snoc [OF runs.runs_nil system_step.advances [OF i]] by simp
  with 2 i rest tr runs_append show ?case by fastforce
qed (auto intro: runs.runs_nil)

definition example_request :: network_policy_request where
  "example_request = \<lparr>request_protocol = RequestHttp, request_host = lit ''Example.com'', request_port = 80,
     request_environment_id = Some (lit ''local''), request_execution_id = None\<rparr>"

definition example_turn :: active_turn where
  "example_turn = \<lparr>turn_permission_profile = Managed ManagedUnrestricted NetworkRestricted, turn_approval_policy = OnRequest,
     turn_primary_environment = None, turn_routes_to_guardian = False\<rparr>"

definition two_requests :: approval_system where
  "two_requests = \<lparr>service = default_service, inflight = [Arrived example_request, Arrived example_request]\<rparr>"

definition claim_schedule :: "nat \<Rightarrow> (nat \<times> choice) list" where
  "claim_schedule i = [(i, NoChoice), (i, TurnChoice (Some example_turn)), (i, NoChoice), (i, NoChoice), (i, NoChoice)]"

definition approve_schedule :: "(nat \<times> choice) list" where
  "approve_schedule = [(0, HookChoice None), (0, ReviewChoice Approved), (0, NoChoice), (0, NoChoice), (0, NoChoice), (1, NoChoice)]"

lemma two_requests_reachable:
  "runs initial_system [RequestArrives True example_request, RequestArrives True example_request] two_requests"
proof -
  have "runs initial_system ([] @ [RequestArrives True example_request])
      (initial_system\<lparr>inflight := inflight initial_system @ [decide_policy_request True example_request]\<rparr>)"
    by (rule runs.runs_snoc [OF runs.runs_nil system_step.arrives])
  from runs.runs_snoc [OF this system_step.arrives [of _ True example_request]] show ?thesis
    by (simp add: two_requests_def initial_system_def decide_policy_request_def)
qed

fun let_through :: "phase \<Rightarrow> bool" where
  "let_through (Answered _ AllowRequest) \<longleftrightarrow> True"
| "let_through _ \<longleftrightarrow> False"

lemma example_claimed:
  obtains tr s where "drive (claim_schedule 0 @ claim_schedule 1) two_requests = Some (tr, s)"
    "length (inflight s) = 2" "asks (inflight s ! 0) \<noteq> None"
proof -
  have "case drive (claim_schedule 0 @ claim_schedule 1) two_requests of
      Some (tr, s) \<Rightarrow> length (inflight s) = 2 \<and> asks (inflight s ! 0) \<noteq> None | None \<Rightarrow> False"
    by code_simp
  then show thesis using that by (auto split: option.splits prod.splits)
qed

lemma example_answered:
  obtains tr s where "drive (claim_schedule 0 @ claim_schedule 1 @ approve_schedule) two_requests = Some (tr, s)"
    "list_all finished (inflight s)" "list_ex let_through (inflight s)"
proof -
  have "case drive (claim_schedule 0 @ claim_schedule 1 @ approve_schedule) two_requests of
      Some (tr, s) \<Rightarrow> list_all finished (inflight s) \<and>
        list_ex let_through (inflight s) | None \<Rightarrow> False"
    by code_simp
  then show thesis using that by (auto split: option.splits prod.splits)
qed

theorem one_question_per_target_witness:
  "\<exists>tr s k. runs initial_system tr s \<and> asks (inflight s ! 0) = Some k \<and> pending_host_approvals (service s) k \<noteq> None"
proof -
  obtain tr s where s: "drive (claim_schedule 0 @ claim_schedule 1) two_requests = Some (tr, s)"
    "length (inflight s) = 2" "asks (inflight s ! 0) \<noteq> None" by (rule example_claimed)
  then obtain k where k: "asks (inflight s ! 0) = Some k" by auto
  note run = runs_append [OF drive_runs [OF s(1), THEN conjunct1] two_requests_reachable]
  have "0 < length (inflight s)" using s(2) by simp
  from one_question_per_target [OF run this this k k] run k show ?thesis by blast
qed

theorem requests_are_answered_witness:
  "\<exists>tr s tr' s'. runs initial_system tr s \<and> runs s tr' s' \<and> length tr' \<le> total_weight s \<and> list_all finished (inflight s')"
proof -
  obtain tr s where s: "drive (claim_schedule 0 @ claim_schedule 1 @ approve_schedule) two_requests = Some (tr, s)"
    "list_all finished (inflight s)" by (rule example_answered)
  have "advance c ph sv = None" if "finished ph" for c ph sv
    using that by (cases ph; cases c) simp_all
  then have "\<forall>e s''. is_advance e \<longrightarrow> \<not> system_step s e s''"
    using s(2) by (auto simp: list_all_length elim!: system_step.cases)
  with requests_are_answered [OF two_requests_reachable, of tr s] drive_runs [OF s(1)] two_requests_reachable show ?thesis
    by blast
qed

theorem access_follows_approval_witness:
  "\<exists>tr s k. runs initial_system tr s \<and> Answered (Some k) AllowRequest \<in> set (inflight s) \<and> list_ex (\<lambda>e. k \<in> grants e) tr"
proof -
  obtain tr s where s: "drive (claim_schedule 0 @ claim_schedule 1 @ approve_schedule) two_requests = Some (tr, s)"
    "list_ex let_through (inflight s)" by (rule example_answered)
  from s(2) obtain key where key: "Answered key AllowRequest \<in> set (inflight s)"
    by (auto simp: list_ex_iff elim: let_through.elims)
  note run = runs_append [OF drive_runs [OF s(1), THEN conjunct1] two_requests_reachable]
  from access_follows_approval [OF run key] run key show ?thesis unfolding list_ex_iff by blast
qed

end
