(* ===== verification/Orchestrator.thy ===== *)
theory Orchestrator
  imports Network_Approval
begin

text \<open>
  Running a tool call (\<open>core/src/tools/orchestrator.rs\<close>, \<open>core/src/tools/approvals.rs\<close>): the approval, the first attempt
  under the selected sandbox, and after a denial by the sandbox the second attempt. The tool, the hooks, the reviewers and the
  network approvals of an attempt are functions on the state of the outside world, which is threaded through; a log keeps
  what telemetry and the tool get to see: each decision with its source, each attempt with its sandbox, each outcome.
\<close>

section \<open>Data\<close>

datatype approval_reviewer = Guardian | User

datatype decision_source = FromConfig | FromAutomatedReviewer | FromUser

datatype approval_resolution_source = SourceHook | SourceGuardian | SourceUser

text \<open>The fields that the orchestrator sets; the rest of an attempt is passed on unchanged.\<close>

record sandbox_attempt =
  attempt_sandbox :: sandbox_type
  attempt_sandbox_requested :: bool
  attempt_permissions :: permission_profile
  attempt_exec_server_permissions :: permission_profile
  attempt_enforce_managed_network :: bool
  attempt_linux_sandbox_exe :: "ustr option"

datatype orchestrator_event =
    ToolDecision review_decision decision_source
  | Attempt sandbox_attempt
  | SandboxOutcome ustr

record approval_ctx =
  ctx_retry_reason :: "ustr option"
  ctx_network_approval_context :: "network_approval_context option"

datatype network_approval_mode = Immediate | Deferred

text \<open>
  A tool and the services it is run with. \<open>approval_action\<close> stands for the tool's action together with its conversion for the
  guardian; \<open>begin_network\<close> and \<open>finish_network\<close> register and finish the network approval of an attempt, in the mode
  that the tool asks for. Registering fails with an I/O error only, and finishing with a rejection only.
\<close>

record ('r, 'a, 'o, 'w) tool_runtime =
  workspace_roots :: "'r \<Rightarrow> (ustr + path) list"
  exec_approval_requirement_of :: "'r \<Rightarrow> exec_approval_requirement option"
  tool_sandbox_permissions :: "'r \<Rightarrow> sandbox_permissions"
  sandbox_preference :: sandboxable_preference
  escalate_on_failure :: bool
  tool_wants_no_sandbox_approval :: "ask_for_approval \<Rightarrow> bool"
  tool_should_bypass_approval :: "ask_for_approval \<Rightarrow> bool \<Rightarrow> bool"
  has_permission_request_payload :: "'r \<Rightarrow> bool"
  run_permission_request_hooks :: "'r \<Rightarrow> ustr \<Rightarrow> 'w \<Rightarrow> permission_request_decision option \<times> 'w"
  approval_action :: "'r \<Rightarrow> approval_ctx \<Rightarrow> ustr + 'a"
  review_approval_request :: "'a \<Rightarrow> ustr option \<Rightarrow> 'w \<Rightarrow> review_decision \<times> 'w"
  start_approval :: "'r \<Rightarrow> approval_ctx \<Rightarrow> 'w \<Rightarrow> review_decision \<times> 'w"
  begin_network :: "'r \<Rightarrow> bool \<Rightarrow> 'w \<Rightarrow> (ustr + network_approval_mode option) \<times> 'w"
  finish_network :: "'w \<Rightarrow> (ustr + unit) \<times> 'w"
  run_tool :: "'r \<Rightarrow> sandbox_attempt \<Rightarrow> 'w \<Rightarrow> (tool_error + 'o) \<times> 'w"

record orchestrator_turn =
  call_id :: ustr
  strict_auto_review :: bool
  routes_to_guardian :: bool
  turn_profile :: permission_profile
  turn_network_active :: bool
  turn_windows_sandbox_enabled :: bool
  turn_linux_sandbox_exe :: "ustr option"

text \<open>The world and the log, in the order of the events.\<close>

type_synonym 'w orchestrator_state = "'w \<times> orchestrator_event list"

definition log_event :: "orchestrator_event \<Rightarrow> 'w orchestrator_state \<Rightarrow> 'w orchestrator_state" where
  "log_event e st = (case st of (w, l) \<Rightarrow> (w, l @ [e]))"

definition lift_world :: "('w \<Rightarrow> 'x \<times> 'w) \<Rightarrow> 'w orchestrator_state \<Rightarrow> 'x \<times> 'w orchestrator_state" where
  "lift_world f st = (case st of (w, l) \<Rightarrow> (case f w of (x, w') \<Rightarrow> (x, (w', l))))"

section \<open>approvals.rs\<close>

definition for_turn :: "orchestrator_turn \<Rightarrow> approval_reviewer" where
  "for_turn turn = (if routes_to_guardian turn then Guardian else User)"

fun rejection_for_source :: "approval_resolution_source \<Rightarrow> ustr" where
  "rejection_for_source SourceHook = lit ''rejected by configuration''"
| "rejection_for_source SourceGuardian = lit ''automatic approval review denied the action''"
| "rejection_for_source SourceUser = lit ''rejected by user''"

fun into_tool_result :: "approval_resolution_source \<Rightarrow> review_decision \<Rightarrow> tool_error + review_decision" where
  "into_tool_result source (NetworkPolicyAmendment host NetworkDeny) = Err (Rejected (rejection_for_source source))"
| "into_tool_result source (Denied rejection) = Err (Rejected rejection)"
| "into_tool_result source TimedOut = Err (Rejected guardian_timeout_message)"
| "into_tool_result source Abort = Err (Rejected (lit ''approval request aborted''))"
| "into_tool_result source d = Ok d"

fun telemetry_source :: "approval_resolution_source \<Rightarrow> decision_source" where
  "telemetry_source SourceHook = FromConfig"
| "telemetry_source SourceGuardian = FromAutomatedReviewer"
| "telemetry_source SourceUser = FromUser"

definition resolve_with ::
  "approval_resolution_source \<Rightarrow> review_decision \<Rightarrow> 'w orchestrator_state \<Rightarrow>
   (tool_error + review_decision) \<times> 'w orchestrator_state" where
  "resolve_with source d st = (into_tool_result source d, log_event (ToolDecision d (telemetry_source source)) st)"

definition review_by ::
  "('r, 'a, 'o, 'w) tool_runtime \<Rightarrow> 'r \<Rightarrow> approval_ctx \<Rightarrow> approval_reviewer \<Rightarrow> 'w orchestrator_state \<Rightarrow>
   (tool_error + review_decision) \<times> 'w orchestrator_state" where
  "review_by tool req ctx reviewer st =
     (case reviewer of
        Guardian \<Rightarrow>
          (case approval_action tool req ctx of
             Inl _ \<Rightarrow> resolve_with SourceGuardian (Denied (lit ''automatic approval review could not prepare the action'')) st
           | Inr action \<Rightarrow>
               (case lift_world (review_approval_request tool action (ctx_retry_reason ctx)) st of
                  (d, st') \<Rightarrow> resolve_with SourceGuardian d st'))
      | User \<Rightarrow>
          (case lift_world (start_approval tool req ctx) st of (d, st') \<Rightarrow> resolve_with SourceUser d st'))"

definition resolve_tool_approval ::
  "('r, 'a, 'o, 'w) tool_runtime \<Rightarrow> 'r \<Rightarrow> ustr \<Rightarrow> approval_ctx \<Rightarrow> approval_reviewer \<Rightarrow> 'w orchestrator_state \<Rightarrow>
   (tool_error + review_decision) \<times> 'w orchestrator_state" where
  "resolve_tool_approval tool req permission_request_run_id ctx reviewer st =
     (if has_permission_request_payload tool req then
        (case lift_world (run_permission_request_hooks tool req permission_request_run_id) st of
           (Some HookAllow, st') \<Rightarrow> resolve_with SourceHook Approved st'
         | (Some (HookDeny message), st') \<Rightarrow> resolve_with SourceHook (Denied message) st'
         | (None, st') \<Rightarrow> review_by tool req ctx reviewer st')
      else review_by tool req ctx reviewer st)"

section \<open>orchestrator.rs\<close>

definition run_attempt ::
  "('r, 'a, 'o, 'w) tool_runtime \<Rightarrow> 'r \<Rightarrow> sandbox_attempt \<Rightarrow> bool \<Rightarrow> 'w orchestrator_state \<Rightarrow>
   ((tool_error + 'o) \<times> bool) \<times> 'w orchestrator_state" where
  "run_attempt tool req att managed_network_active st =
     (case lift_world (begin_network tool req managed_network_active) st of
        (Inl message, st1) \<Rightarrow> ((Err (OtherError message), False), st1)
      | (Inr network_approval, st1) \<Rightarrow>
          (case lift_world (run_tool tool req att) (log_event (Attempt att) st1) of
             (run_result, st2) \<Rightarrow>
               (case network_approval of
                  None \<Rightarrow> ((run_result, False), st2)
                | Some Immediate \<Rightarrow>
                    (case lift_world (finish_network tool) st2 of
                       (Inl message, st3) \<Rightarrow> ((Err (Rejected message), False), st3)
                     | (Inr _, st3) \<Rightarrow> ((run_result, False), st3))
                | Some Deferred \<Rightarrow>
                    if isl run_result then
                      (case lift_world (finish_network tool) st2 of
                         (Inl message, st3) \<Rightarrow> ((Err (Rejected message), False), st3)
                       | (Inr _, st3) \<Rightarrow> ((run_result, False), st3))
                    else ((run_result, True), st2))))"

fun sandbox_outcome_from_tool_error :: "tool_error \<Rightarrow> ustr option" where
  "sandbox_outcome_from_tool_error (SandboxDenied _ _) = Some (lit ''denied'')"
| "sandbox_outcome_from_tool_error SandboxTimeout = Some (lit ''timed_out'')"
| "sandbox_outcome_from_tool_error SandboxSignal = Some (lit ''signal'')"
| "sandbox_outcome_from_tool_error (Rejected _) = None"
| "sandbox_outcome_from_tool_error (OtherError _) = None"

definition log_outcome_of :: "tool_error \<Rightarrow> 'w orchestrator_state \<Rightarrow> 'w orchestrator_state" where
  "log_outcome_of err st =
     (case sandbox_outcome_from_tool_error err of Some o' \<Rightarrow> log_event (SandboxOutcome o') st | None \<Rightarrow> st)"

definition build_denial_reason_from_output :: "ustr \<Rightarrow> ustr" where
  "build_denial_reason_from_output output = lit ''command failed; retry without sandbox?''"

text \<open>The runtime policies of a call: the profile with the tool's workspace roots filled in. \<open>None\<close> is the panic of an external
  policy inside a managed profile.\<close>

definition call_permissions ::
  "disk \<Rightarrow> orchestrator_turn \<Rightarrow> ('r, 'a, 'o, 'w) tool_runtime \<Rightarrow> 'r \<Rightarrow> permission_profile option" where
  "call_permissions dk turn tool req =
     materialize_profile dk (turn_profile turn)
       (List.map_filter (\<lambda>r. case r of Inr p \<Rightarrow> Some p | Inl _ \<Rightarrow> None) (workspace_roots tool req))"

definition call_requirement ::
  "('r, 'a, 'o, 'w) tool_runtime \<Rightarrow> 'r \<Rightarrow> ask_for_approval \<Rightarrow> file_system_sandbox_policy \<Rightarrow> exec_approval_requirement" where
  "call_requirement tool req approval_policy fs =
     (case exec_approval_requirement_of tool req of
        Some r \<Rightarrow> r
      | None \<Rightarrow> default_exec_approval_requirement approval_policy fs)"

text \<open>Step 1: the approval; the value says whether the call has been approved.\<close>

definition approve_call ::
  "('r, 'a, 'o, 'w) tool_runtime \<Rightarrow> 'r \<Rightarrow> orchestrator_turn \<Rightarrow> exec_approval_requirement \<Rightarrow> 'w orchestrator_state \<Rightarrow>
   (tool_error + bool) \<times> 'w orchestrator_state" where
  "approve_call tool req turn requirement st =
     (case requirement of
        SkipApproval _ _ \<Rightarrow>
          if strict_auto_review turn then
            (case resolve_tool_approval tool req (call_id turn)
                    \<lparr>ctx_retry_reason = None, ctx_network_approval_context = None\<rparr> Guardian st of
               (Inl err, st') \<Rightarrow> (Err err, st')
             | (Inr _, st') \<Rightarrow> (Ok True, st'))
          else (Ok False, log_event (ToolDecision Approved FromConfig) st)
      | ForbiddenCall reason \<Rightarrow> (Err (Rejected reason), st)
      | NeedsApproval reason _ \<Rightarrow>
          (case resolve_tool_approval tool req (call_id turn)
                  \<lparr>ctx_retry_reason = reason, ctx_network_approval_context = None\<rparr>
                  (if strict_auto_review turn then Guardian else for_turn turn) st of
             (Inl err, st') \<Rightarrow> (Err err, st')
           | (Inr _, st') \<Rightarrow> (Ok True, st')))"

definition make_attempt ::
  "orchestrator_turn \<Rightarrow> permission_profile \<Rightarrow> ('r, 'a, 'o, 'w) tool_runtime \<Rightarrow> bool \<Rightarrow> ustr option \<Rightarrow> sandbox_attempt" where
  "make_attempt turn permissions tool requested exe =
     \<lparr>attempt_sandbox =
        (if requested
         then select_initial (profile_file_system_policy permissions) (profile_network_policy permissions)
                (sandbox_preference tool) (turn_windows_sandbox_enabled turn) (turn_network_active turn)
         else NoSandbox),
      attempt_sandbox_requested = requested, attempt_permissions = permissions,
      attempt_exec_server_permissions = turn_profile turn, attempt_enforce_managed_network = turn_network_active turn,
      attempt_linux_sandbox_exe = exe\<rparr>"

definition initial_attempt ::
  "orchestrator_turn \<Rightarrow> permission_profile \<Rightarrow> ('r, 'a, 'o, 'w) tool_runtime \<Rightarrow> 'r \<Rightarrow> exec_approval_requirement \<Rightarrow> sandbox_attempt" where
  "initial_attempt turn permissions tool req requirement =
     make_attempt turn permissions tool
       (case sandbox_override_for_first_attempt (tool_sandbox_permissions tool req) requirement
               (profile_file_system_policy permissions) of
          BypassSandboxFirstAttempt \<Rightarrow> False
        | NoOverride \<Rightarrow>
            should_sandbox (profile_file_system_policy permissions) (profile_network_policy permissions)
              (sandbox_preference tool) (turn_network_active turn))
       (turn_linux_sandbox_exe turn)"

definition retry_attempt ::
  "orchestrator_turn \<Rightarrow> permission_profile \<Rightarrow> ('r, 'a, 'o, 'w) tool_runtime \<Rightarrow> sandbox_attempt" where
  "retry_attempt turn permissions tool =
     (let unsandboxed_allowed = unsandboxed_execution_allowed (profile_file_system_policy permissions)
      in make_attempt turn permissions tool
           (\<not> unsandboxed_allowed \<and>
            should_sandbox (profile_file_system_policy permissions) (profile_network_policy permissions)
              (sandbox_preference tool) (turn_network_active turn))
           (if unsandboxed_allowed then None else turn_linux_sandbox_exe turn))"

text \<open>After a denial by the sandbox: whether the call may be tried again at all.\<close>

definition denial_context ::
  "orchestrator_turn \<Rightarrow> network_policy_decision_payload option \<Rightarrow> network_approval_context option" where
  "denial_context turn payload =
     (if turn_network_active turn then Option.bind payload network_approval_context_from_payload else None)"

definition retry_possible ::
  "orchestrator_turn \<Rightarrow> permission_profile \<Rightarrow> ('r, 'a, 'o, 'w) tool_runtime \<Rightarrow> ask_for_approval \<Rightarrow>
   network_policy_decision_payload option \<Rightarrow> bool" where
  "retry_possible turn permissions tool approval_policy payload \<longleftrightarrow>
     (let fs = profile_file_system_policy permissions; ctx = denial_context turn payload
      in \<not> (payload \<noteq> None \<and> ctx = None) \<and>
         escalate_on_failure tool \<and>
         (tool_wants_no_sandbox_approval tool approval_policy \<or>
          approval_policy = OnRequest \<and> ctx \<noteq> None \<and>
          (case default_exec_approval_requirement approval_policy fs of NeedsApproval _ _ \<Rightarrow> True | _ \<Rightarrow> False)) \<and>
         \<not> (\<not> unsandboxed_execution_allowed fs \<and> ctx = None))"

definition retry_reason :: "network_approval_context option \<Rightarrow> ustr \<Rightarrow> ustr" where
  "retry_reason ctx output =
     (case ctx of
        Some c \<Rightarrow> lit ''Network access to '' @ [34] @ context_host c @ [34] @ lit '' is blocked by policy.''
      | None \<Rightarrow> build_denial_reason_from_output output)"

definition approve_retry ::
  "('r, 'a, 'o, 'w) tool_runtime \<Rightarrow> 'r \<Rightarrow> orchestrator_turn \<Rightarrow> ask_for_approval \<Rightarrow> bool \<Rightarrow> network_approval_context option \<Rightarrow> ustr \<Rightarrow>
   'w orchestrator_state \<Rightarrow> (tool_error + unit) \<times> 'w orchestrator_state" where
  "approve_retry tool req turn approval_policy already_approved ctx output st =
     (if \<not> strict_auto_review turn \<and> tool_should_bypass_approval tool approval_policy already_approved \<and> ctx = None
      then (Ok (), st)
      else
        (case resolve_tool_approval tool req (call_id turn @ lit '':retry'')
                \<lparr>ctx_retry_reason = Some (retry_reason ctx output), ctx_network_approval_context = ctx\<rparr>
                (if strict_auto_review turn then Guardian else for_turn turn) st of
           (Inl err, st') \<Rightarrow> (Err err, st')
         | (Inr _, st') \<Rightarrow> (Ok (), st')))"

definition run_retry ::
  "('r, 'a, 'o, 'w) tool_runtime \<Rightarrow> 'r \<Rightarrow> orchestrator_turn \<Rightarrow> permission_profile \<Rightarrow> 'w orchestrator_state \<Rightarrow>
   (tool_error + 'o \<times> bool) \<times> 'w orchestrator_state" where
  "run_retry tool req turn permissions st =
     (case run_attempt tool req (retry_attempt turn permissions tool) (turn_network_active turn) st of
        ((Inr out', deferred), st') \<Rightarrow> (Ok (out', deferred), log_event (SandboxOutcome (lit ''escalated'')) st')
      | ((Inl err, _), st') \<Rightarrow> (Err err, log_outcome_of err st'))"

definition after_denial ::
  "('r, 'a, 'o, 'w) tool_runtime \<Rightarrow> 'r \<Rightarrow> orchestrator_turn \<Rightarrow> permission_profile \<Rightarrow> ask_for_approval \<Rightarrow> bool \<Rightarrow> ustr \<Rightarrow>
   network_policy_decision_payload option \<Rightarrow> 'w orchestrator_state \<Rightarrow> (tool_error + 'o \<times> bool) \<times> 'w orchestrator_state" where
  "after_denial tool req turn permissions approval_policy already_approved output payload st =
     (if \<not> retry_possible turn permissions tool approval_policy payload
      then (Err (SandboxDenied output payload), log_event (SandboxOutcome (lit ''denied'')) st)
      else
        (case approve_retry tool req turn approval_policy already_approved (denial_context turn payload) output st of
           (Inl err, st') \<Rightarrow> (Err err, st')
         | (Inr _, st') \<Rightarrow> run_retry tool req turn permissions st'))"

text \<open>Step 2: the first attempt under the selected sandbox, and what follows it.\<close>

definition attempt_call ::
  "('r, 'a, 'o, 'w) tool_runtime \<Rightarrow> 'r \<Rightarrow> orchestrator_turn \<Rightarrow> permission_profile \<Rightarrow> ask_for_approval \<Rightarrow>
   exec_approval_requirement \<Rightarrow> bool \<Rightarrow> 'w orchestrator_state \<Rightarrow> (tool_error + 'o \<times> bool) \<times> 'w orchestrator_state" where
  "attempt_call tool req turn permissions approval_policy requirement already_approved st =
     (case run_attempt tool req (initial_attempt turn permissions tool req requirement) (turn_network_active turn) st of
        ((Inr out', deferred), st') \<Rightarrow> (Ok (out', deferred), st')
      | ((Inl (SandboxDenied output payload), _), st') \<Rightarrow>
          after_denial tool req turn permissions approval_policy already_approved output payload st'
      | ((Inl err, _), st') \<Rightarrow> (Err err, log_outcome_of err st'))"

text \<open>\<open>ToolOrchestrator::run\<close>; the flag of a result says that a deferred network approval goes with it.\<close>

definition tool_orchestrator_run ::
  "disk \<Rightarrow> ('r, 'a, 'o, 'w) tool_runtime \<Rightarrow> 'r \<Rightarrow> orchestrator_turn \<Rightarrow> ask_for_approval \<Rightarrow> 'w orchestrator_state \<Rightarrow>
   ((tool_error + 'o \<times> bool) \<times> 'w orchestrator_state) option" where
  "tool_orchestrator_run dk tool req turn approval_policy st =
     (case call_permissions dk turn tool req of
        None \<Rightarrow> None
      | Some permissions \<Rightarrow>
          (let requirement = call_requirement tool req approval_policy (profile_file_system_policy permissions)
           in Some (case approve_call tool req turn requirement st of
                      (Inl err, st1) \<Rightarrow> (Err err, st1)
                    | (Inr already_approved, st1) \<Rightarrow>
                        attempt_call tool req turn permissions approval_policy requirement already_approved st1)))"

section \<open>The log of a call\<close>

lemma log_event_pair [simp]: "log_event e (w, l) = (w, l @ [e])"
  by (simp add: log_event_def)

lemma lift_world_pair: "lift_world f (w, l) = (x, st) \<longleftrightarrow> (\<exists>w'. f w = (x, w') \<and> st = (w', l))"
  by (auto simp: lift_world_def split: prod.split)

fun accepted :: "review_decision \<Rightarrow> bool" where
  "accepted (NetworkPolicyAmendment _ action) \<longleftrightarrow> action = NetworkAllow"
| "accepted (Denied _) \<longleftrightarrow> False"
| "accepted TimedOut \<longleftrightarrow> False"
| "accepted Abort \<longleftrightarrow> False"
| "accepted _ \<longleftrightarrow> True"

lemma into_tool_result_accepted: "isl (into_tool_result source d) \<longleftrightarrow> \<not> accepted d"
  by (cases "(source, d)" rule: into_tool_result.cases) auto

lemma resolve_with_log:
  "resolve_with source d (w, l) = (r, st) \<Longrightarrow> \<exists>s. st = (w, l @ [ToolDecision d s]) \<and> (isl r \<longleftrightarrow> \<not> accepted d)"
  by (auto simp: resolve_with_def into_tool_result_accepted)

lemma review_by_log:
  assumes "review_by tool req ctx reviewer (w, l) = (r, st)"
  shows "\<exists>w' d s. st = (w', l @ [ToolDecision d s]) \<and> (isl r \<longleftrightarrow> \<not> accepted d)"
  using assms by (auto simp: review_by_def lift_world_pair split: approval_reviewer.splits sum.splits prod.splits
      dest!: resolve_with_log)

lemma resolve_log:
  assumes "resolve_tool_approval tool req rid ctx reviewer (w, l) = (r, st)"
  shows "\<exists>w' d s. st = (w', l @ [ToolDecision d s]) \<and> (isl r \<longleftrightarrow> \<not> accepted d)"
  using assms by (auto simp: resolve_tool_approval_def lift_world_pair
      split: if_splits prod.splits option.splits permission_request_decision.splits
      dest!: resolve_with_log review_by_log)

lemma run_attempt_log:
  assumes "run_attempt tool req att m (w, l) = ((r, deferred), st)"
  shows "(\<exists>w' message. st = (w', l) \<and> r = Err (OtherError message)) \<or> (\<exists>w'. st = (w', l @ [Attempt att]))"
  using assms by (auto simp: run_attempt_def lift_world_pair
      split: prod.splits sum.splits option.splits network_approval_mode.splits if_splits)

definition attempts :: "orchestrator_event list \<Rightarrow> sandbox_attempt list" where
  "attempts l = List.map_filter (\<lambda>e. case e of Attempt a \<Rightarrow> Some a | _ \<Rightarrow> None) l"

definition decisions :: "orchestrator_event list \<Rightarrow> review_decision list" where
  "decisions l = List.map_filter (\<lambda>e. case e of ToolDecision d _ \<Rightarrow> Some d | _ \<Rightarrow> None) l"

lemma log_lists [simp]:
  "attempts [] = []" "attempts (e # l) = (case e of Attempt a \<Rightarrow> [a] | _ \<Rightarrow> []) @ attempts l" "attempts (l @ l') = attempts l @ attempts l'"
  "decisions [] = []" "decisions (e # l) = (case e of ToolDecision d _ \<Rightarrow> [d] | _ \<Rightarrow> []) @ decisions l"
  "decisions (l @ l') = decisions l @ decisions l'"
  by (simp_all add: attempts_def decisions_def List.map_filter_def split: orchestrator_event.split)

lemma set_attempts: "a \<in> set (attempts l) \<longleftrightarrow> Attempt a \<in> set l"
  by (induction l) (auto split: orchestrator_event.splits)

text \<open>The decisions somebody was asked for: not the record of an approval skipped by configuration.\<close>

definition asked_decisions :: "exec_approval_requirement \<Rightarrow> orchestrator_turn \<Rightarrow> orchestrator_event list \<Rightarrow> review_decision list" where
  "asked_decisions requirement turn l =
     (case requirement of
        SkipApproval _ _ \<Rightarrow> if strict_auto_review turn then decisions l else tl (decisions l)
      | _ \<Rightarrow> decisions l)"

lemma resolve_then_log:
  assumes "(case resolve_tool_approval tool req rid ctx reviewer (w, l) of (Inl err, st') \<Rightarrow> (Err err, st') | (Inr _, st') \<Rightarrow> (Ok v, st')) = (r, st)"
  shows "\<exists>w' d s. st = (w', l @ [ToolDecision d s]) \<and> (isl r \<longleftrightarrow> \<not> accepted d) \<and> (\<not> isl r \<longrightarrow> r = Ok v)"
proof -
  obtain q st' where q: "resolve_tool_approval tool req rid ctx reviewer (w, l) = (q, st')"
    by (cases "resolve_tool_approval tool req rid ctx reviewer (w, l)")
  from resolve_log [OF q] q assms show ?thesis by (cases q) auto
qed

lemma approve_call_log:
  assumes "approve_call tool req turn requirement (w, l) = (r, st)"
  obtains (forbidden) reason where "requirement = ForbiddenCall reason" "r = Err (Rejected reason)" "st = (w, l)"
  | (skipped) b a where "requirement = SkipApproval b a" "\<not> strict_auto_review turn" "r = Ok False"
      "st = (w, l @ [ToolDecision Approved FromConfig])"
  | (asked) w' d s where "\<forall>reason. requirement \<noteq> ForbiddenCall reason"
      "\<forall>b a. requirement = SkipApproval b a \<longrightarrow> strict_auto_review turn" "st = (w', l @ [ToolDecision d s])"
      "isl r \<longleftrightarrow> \<not> accepted d" "\<not> isl r \<longrightarrow> r = Ok True"
proof (cases requirement)
  case (SkipApproval b a)
  show thesis
  proof (cases "strict_auto_review turn")
    case True
    with SkipApproval assms have "\<exists>w' d s. st = (w', l @ [ToolDecision d s]) \<and> (isl r \<longleftrightarrow> \<not> accepted d) \<and> (\<not> isl r \<longrightarrow> r = Ok True)"
      by (intro resolve_then_log) (simp add: approve_call_def)
    with SkipApproval True asked show thesis by blast
  next
    case False
    with SkipApproval assms show thesis by (intro skipped) (auto simp: approve_call_def)
  qed
next
  case (NeedsApproval reason a)
  with assms have "\<exists>w' d s. st = (w', l @ [ToolDecision d s]) \<and> (isl r \<longleftrightarrow> \<not> accepted d) \<and> (\<not> isl r \<longrightarrow> r = Ok True)"
    by (intro resolve_then_log) (simp add: approve_call_def)
  with NeedsApproval asked show thesis by blast
next
  case (ForbiddenCall reason)
  with assms show thesis by (intro forbidden) (auto simp: approve_call_def)
qed

lemma approve_retry_log:
  assumes "approve_retry tool req turn ap approved ctx output (w, l) = (r, st)"
  obtains (bypassed) "\<not> strict_auto_review turn" "tool_should_bypass_approval tool ap approved" "ctx = None" "r = Ok ()" "st = (w, l)"
  | (asked) w' d s where "st = (w', l @ [ToolDecision d s])" "isl r \<longleftrightarrow> \<not> accepted d"
proof (cases "\<not> strict_auto_review turn \<and> tool_should_bypass_approval tool ap approved \<and> ctx = None")
  case True
  with assms show thesis by (intro bypassed) (auto simp: approve_retry_def)
next
  case False
  with assms have "\<exists>w' d s. st = (w', l @ [ToolDecision d s]) \<and> (isl r \<longleftrightarrow> \<not> accepted d) \<and> (\<not> isl r \<longrightarrow> r = Ok ())"
    by (intro resolve_then_log) (simp add: approve_retry_def)
  with asked show thesis by blast
qed

lemma run_retry_log:
  assumes "run_retry tool req turn p (w, l) = (r, (w', l'))"
  shows "decisions l' = decisions l \<and> attempts l' \<in> {attempts l, attempts l @ [retry_attempt turn p tool]}"
  using assms by (auto simp: run_retry_def log_outcome_of_def split: prod.splits sum.splits option.splits dest!: run_attempt_log)

lemma after_denial_log:
  assumes "after_denial tool req turn p ap approved output payload (w, l) = (r, (w', l'))"
  obtains (denied) "attempts l' = attempts l" "decisions l' = decisions l" "r = Err (SandboxDenied output payload)"
  | (refused) d where "attempts l' = attempts l" "decisions l' = decisions l @ [d]" "\<not> accepted d" "isl r"
  | (bypassed) "retry_possible turn p tool ap payload" "\<not> strict_auto_review turn" "tool_should_bypass_approval tool ap approved"
      "denial_context turn payload = None" "decisions l' = decisions l"
      "attempts l' \<in> {attempts l, attempts l @ [retry_attempt turn p tool]}"
  | (approved) d where "retry_possible turn p tool ap payload" "accepted d" "decisions l' = decisions l @ [d]"
      "attempts l' \<in> {attempts l, attempts l @ [retry_attempt turn p tool]}"
proof (cases "retry_possible turn p tool ap payload")
  case False
  with assms show thesis by (intro denied) (auto simp: after_denial_def)
next
  case True
  obtain q st where q: "approve_retry tool req turn ap approved (denial_context turn payload) output (w, l) = (q, st)"
    by (cases "approve_retry tool req turn ap approved (denial_context turn payload) output (w, l)")
  have rest: "case q of Inl err \<Rightarrow> r = Err err \<and> st = (w', l') | Inr _ \<Rightarrow> run_retry tool req turn p st = (r, (w', l'))"
    using assms True q by (auto simp: after_denial_def split: sum.splits)
  from q show thesis
  proof (cases rule: approve_retry_log)
    case bypassed
    with rest have "run_retry tool req turn p (w, l) = (r, (w', l'))" by simp
    from run_retry_log [OF this] bypassed True show thesis by (intro that(3)) auto
  next
    case (asked w1 d s)
    show thesis
    proof (cases q)
      case (Inl err)
      with asked rest show thesis by (intro refused [of d]) auto
    next
      case (Inr u)
      with asked rest have "run_retry tool req turn p (w1, l @ [ToolDecision d s]) = (r, (w', l'))" by simp
      from run_retry_log [OF this] Inr asked True show thesis by (intro approved [of d]) auto
    qed
  qed
qed

lemma attempt_call_log:
  assumes "attempt_call tool req turn p ap q approved (w, l) = (r, (w', l'))"
  obtains (once) ds where "attempts l' \<in> {attempts l, attempts l @ [initial_attempt turn p tool req q]}"
      "decisions l' = decisions l @ ds"
  | (bypassed) payload where "retry_possible turn p tool ap payload" "\<not> strict_auto_review turn"
      "tool_should_bypass_approval tool ap approved" "denial_context turn payload = None" "decisions l' = decisions l"
      "attempts l' = attempts l @ [initial_attempt turn p tool req q, retry_attempt turn p tool]"
  | (approved) payload d where "retry_possible turn p tool ap payload" "accepted d" "decisions l' = decisions l @ [d]"
      "attempts l' = attempts l @ [initial_attempt turn p tool req q, retry_attempt turn p tool]"
proof -
  let ?a = "initial_attempt turn p tool req q"
  obtain r1 deferred w1 l1 where run: "run_attempt tool req ?a (turn_network_active turn) (w, l) = ((r1, deferred), (w1, l1))"
    by (metis surj_pair)
  show thesis
  proof (cases "\<exists>o1 payload. r1 = Err (SandboxDenied o1 payload)")
    case True
    then obtain o1 payload where r1: "r1 = Err (SandboxDenied o1 payload)" by blast
    with run_attempt_log [OF run] have l1: "l1 = l @ [Attempt ?a]" by auto
    have "after_denial tool req turn p ap approved o1 payload (w1, l1) = (r, (w', l'))"
      using assms run r1 by (simp add: attempt_call_def)
    then show thesis
    proof (cases rule: after_denial_log)
      case bypassed
      with l1 show thesis using once [of "[]"] that(2) by auto
    next
      case (approved d)
      with l1 show thesis using once [of "[d]"] that(3) by auto
    next
      case denied
      with l1 show thesis using once [of "[]"] by auto
    next
      case (refused d)
      with l1 show thesis using once [of "[d]"] by auto
    qed
  next
    case False
    then have "attempts l' = attempts l1 \<and> decisions l' = decisions l1"
      using assms run by (auto simp: attempt_call_def log_outcome_of_def split: sum.splits tool_error.splits option.splits)
    with run_attempt_log [OF run] show thesis by (intro once [of "[]"]) auto
  qed
qed

text \<open>The whole call: rejected before the first attempt, or run after an approval.\<close>

lemma run_log:
  assumes "tool_orchestrator_run dk tool req turn ap (w, []) = Some (res, (w', log))"
    and "call_permissions dk turn tool req = Some p"
    and q: "q = call_requirement tool req ap (profile_file_system_policy p)"
  obtains (rejected) "attempts log = []" "\<forall>reason. q = ForbiddenCall reason \<longrightarrow> log = [] \<and> res = Err (Rejected reason)"
  | (attempted) w1 l1 d s asked where "\<forall>reason. q \<noteq> ForbiddenCall reason" "accepted d"
      "l1 = [ToolDecision d s]" "\<And>ds l. decisions l = d # ds \<Longrightarrow> asked_decisions q turn l = (if asked then [d] else []) @ ds"
      "strict_auto_review turn \<longrightarrow> asked"
      "attempt_call tool req turn p ap q asked (w1, l1) = (res, (w', log))"
proof -
  obtain r1 w1 l1 where r1: "approve_call tool req turn q (w, []) = (r1, (w1, l1))" by (metis surj_pair)
  have rest: "case r1 of Inl err \<Rightarrow> res = Err err \<and> (w', log) = (w1, l1)
      | Inr b \<Rightarrow> attempt_call tool req turn p ap q b (w1, l1) = (res, (w', log))"
    using assms r1 by (auto simp: tool_orchestrator_run_def Let_def split: sum.splits)
  from r1 show thesis
  proof (cases rule: approve_call_log)
    case (forbidden reason)
    with rest show thesis by (intro rejected) auto
  next
    case (skipped b a)
    with rest show thesis by (intro attempted [of Approved l1 FromConfig False w1]) (auto simp: asked_decisions_def)
  next
    case (asked w2 d s)
    show thesis
    proof (cases r1)
      case (Inl err)
      with asked rest show thesis by (intro rejected) auto
    next
      case (Inr b)
      with asked rest show thesis
        by (intro attempted [of d l1 s True w1]) (auto simp: asked_decisions_def split: exec_approval_requirement.split)
    qed
  qed
qed

lemma tool_orchestrator_run_total: "tool_orchestrator_run dk tool req turn ap st \<noteq> None"
  using materialize_profile_total
  by (cases "call_permissions dk turn tool req")
    (simp_all add: tool_orchestrator_run_def call_permissions_def Let_def del: not_None_eq)

lemma run_course:
  assumes "tool_orchestrator_run dk tool req turn ap (w, []) = Some (res, (w', log))"
    and "call_permissions dk turn tool req = Some p"
    and "q = call_requirement tool req ap (profile_file_system_policy p)"
  shows "attempts log \<in> {[], [initial_attempt turn p tool req q],
           [initial_attempt turn p tool req q, retry_attempt turn p tool]} \<and>
    (\<forall>reason. q = ForbiddenCall reason \<longrightarrow> log = [] \<and> res = Err (Rejected reason)) \<and>
    (attempts log \<noteq> [] \<longrightarrow> (\<exists>d ds. decisions log = d # ds \<and> accepted d))"
  using assms
proof (cases rule: run_log)
  case (attempted w1 l1 d s asked)
  from attempted(6) show ?thesis by (cases rule: attempt_call_log) (use attempted(1-3) in auto)
qed auto

text \<open>
  The course of a tool call. A forbidden call is rejected with its reason before anything happens. Otherwise the tool is started at
  most twice, first under the sandbox selected for it and a second time only after that; and whenever the tool was
  started, the approval that came first, skipped or asked for, was given.
\<close>

theorem tool_call_course:
  assumes "tool_orchestrator_run dk tool req turn ap (w, []) = Some (res, (w', log))"
    and "call_permissions dk turn tool req = Some p"
    and "q = call_requirement tool req ap (profile_file_system_policy p)"
  shows "attempts log \<in> {[], [initial_attempt turn p tool req q],
           [initial_attempt turn p tool req q, retry_attempt turn p tool]} \<and>
    (\<forall>reason. q = ForbiddenCall reason \<longrightarrow> log = [] \<and> res = Err (Rejected reason)) \<and>
    (attempts log \<noteq> [] \<longrightarrow> (\<exists>d ds. decisions log = d # ds \<and> accepted d))"
  using assms by (rule run_course)

text \<open>A tool that only succeeds outside the sandbox and is always approved, with the default approval rules.\<close>

definition stubborn_tool :: "(unit, unit, nat, unit) tool_runtime" where
  "stubborn_tool =
     \<lparr>workspace_roots = (\<lambda>_. []), exec_approval_requirement_of = (\<lambda>_. None), tool_sandbox_permissions = (\<lambda>_. UseDefault),
      sandbox_preference = sandboxable_preference.Auto, escalate_on_failure = True, tool_wants_no_sandbox_approval = wants_no_sandbox_approval,
      tool_should_bypass_approval = should_bypass_approval, has_permission_request_payload = (\<lambda>_. False),
      run_permission_request_hooks = (\<lambda>_ _ w. (None, w)), approval_action = (\<lambda>_ _. Inr ()),
      review_approval_request = (\<lambda>_ _ w. (Approved, w)), start_approval = (\<lambda>_ _ w. (Approved, w)),
      begin_network = (\<lambda>_ _ w. (Inr None, w)), finish_network = (\<lambda>w. (Inr (), w)),
      run_tool = (\<lambda>_ a w. (if attempt_sandbox a = NoSandbox then Inr 1 else Inl (SandboxDenied [] None), w))\<rparr>"

definition example_call :: "file_system_access_mode \<Rightarrow> orchestrator_turn" where
  "example_call access =
     \<lparr>call_id = [], strict_auto_review = False, routes_to_guardian = False,
      turn_profile = Managed (ManagedRestricted [new_entry (Special Root) Read, new_entry (PathEntry [RootDir, Normal [1]]) access] None)
        NetworkRestricted,
      turn_network_active = False, turn_windows_sandbox_enabled = False, turn_linux_sandbox_exe = None\<rparr>"

lemma example_permissions:
  "call_permissions dk (example_call access) stubborn_tool () = Some (turn_profile (example_call access))"
  by (simp add: call_permissions_def example_call_def stubborn_tool_def from_sandbox_policy_def
      materialize_project_roots_with_workspace_roots_def materialize_entry_with_roots_def new_entry_def List.map_filter_simps)

definition plain_disk :: disk where
  "plain_disk =
     \<lparr>process_paths = \<lparr>home_dir = None, current_dir = Inr [RootDir]\<rparr>, path_is_dir = (\<lambda>_. False), path_is_file = (\<lambda>_. False),
      path_exists = (\<lambda>_. False), symlink_metadata = (\<lambda>_. None), canonicalize_path = (\<lambda>_. None),
      read_to_string = (\<lambda>_. None), tmpdir_var = None\<rparr>"

lemma example_run:
  obtains res w' log where
    "tool_orchestrator_run plain_disk stubborn_tool () (example_call access) ap ((), []) = Some (res, (w', log))"
  using tool_orchestrator_run_total by (metis option.exhaust surj_pair)

theorem tool_call_course_witness:
  "\<exists>res w' log. tool_orchestrator_run plain_disk stubborn_tool () (example_call Read) Never ((), []) = Some (res, (w', log)) \<and>
     (attempts log = [] \<or> (\<exists>d ds. decisions log = d # ds \<and> accepted d))"
proof -
  obtain res w' log where run: "tool_orchestrator_run plain_disk stubborn_tool () (example_call Read) Never ((), []) = Some (res, (w', log))"
    by (rule example_run)
  from tool_call_course [OF run example_permissions refl] run show ?thesis by blast
qed

text \<open>
  C15: A second attempt is a matter of consent. For a tool with the default approval rules, the tool is only started a second time if the
  approval policy is not \<open>Never\<close>, and only after somebody was asked and every decision was to go ahead; under
  strict automatic review the second attempt has a review of its own. Under \<open>OnRequest\<close> a second attempt is only made for
  a network access that the policy wants to be asked about.
\<close>

theorem second_attempt_needs_consent:
  assumes "tool_orchestrator_run dk tool req turn ap (w, []) = Some (res, (w', log))"
    and "call_permissions dk turn tool req = Some p"
    and "q = call_requirement tool req ap (profile_file_system_policy p)"
    and "tool_wants_no_sandbox_approval tool = wants_no_sandbox_approval"
    and "tool_should_bypass_approval tool = should_bypass_approval"
    and "length (attempts log) = 2"
  shows "ap \<noteq> Never \<and> asked_decisions q turn log \<noteq> [] \<and> list_all accepted (asked_decisions q turn log) \<and>
    (strict_auto_review turn \<longrightarrow> length (asked_decisions q turn log) = 2) \<and>
    (ap = OnRequest \<longrightarrow> turn_network_active turn)"
  using assms(1-3)
proof (cases rule: run_log)
  case rejected
  with assms(6) show ?thesis by simp
next
  case (attempted w1 l1 d s asked)
  have never: "ap \<noteq> Never \<and> (ap = OnRequest \<longrightarrow> turn_network_active turn)" if "retry_possible turn p tool ap payload" for payload
    using that assms(4) by (auto simp: retry_possible_def denial_context_def Let_def split: if_splits)
  from attempted(6) show ?thesis
  proof (cases rule: attempt_call_log)
    case once
    with attempted(3) assms(6) show ?thesis by auto
  next
    case (bypassed payload)
    with attempted never assms(5) show ?thesis by (auto simp: should_bypass_approval_def split: if_splits)
  next
    case (approved payload d')
    with attempted never show ?thesis by auto
  qed
qed

theorem second_attempt_needs_consent_witness:
  "\<exists>res w' log. tool_orchestrator_run plain_disk stubborn_tool () (example_call Read) UnlessTrusted ((), []) = Some (res, (w', log)) \<and>
     length (attempts log) = 2 \<and>
     list_all accepted (asked_decisions (NeedsApproval None None) (example_call Read) log)"
proof -
  let ?p = "turn_profile (example_call Read)"
  obtain res w' log where run:
    "tool_orchestrator_run plain_disk stubborn_tool () (example_call Read) UnlessTrusted ((), []) = Some (res, (w', log))"
    by (rule example_run)
  have "case tool_orchestrator_run plain_disk stubborn_tool () (example_call Read) UnlessTrusted ((), []) of
      Some (res, (w', log)) \<Rightarrow> length (attempts log) = 2 | None \<Rightarrow> False" by code_simp
  with run have two: "length (attempts log) = 2" by simp
  have q: "NeedsApproval None None = call_requirement stubborn_tool () UnlessTrusted (profile_file_system_policy ?p)" by code_simp
  have rules: "tool_wants_no_sandbox_approval stubborn_tool = wants_no_sandbox_approval"
    "tool_should_bypass_approval stubborn_tool = should_bypass_approval" by (simp_all add: stubborn_tool_def)
  from second_attempt_needs_consent [OF run example_permissions q rules two] run two show ?thesis by blast
qed

text \<open>
  C5: Denied reads outlive every escalation. When an entry of the active file-system policy denies reading a location, each attempt of a tool
  that does not forbid the sandbox runs inside the platform sandbox and under these permissions, whatever rules allow, the model
  requests or a reviewer approves.
\<close>

theorem denied_reads_stay_sandboxed:
  assumes "tool_orchestrator_run dk tool req turn ap (w, []) = Some (res, (w', log))"
    and "call_permissions dk turn tool req = Some p"
    and "e \<in> set (policy_entries (profile_file_system_policy p))" and "denies_location e"
    and "sandbox_preference tool \<noteq> Forbid"
    and "Attempt a \<in> set log"
  shows "attempt_sandbox a \<noteq> NoSandbox \<and> attempt_sandbox_requested a \<and> attempt_permissions a = p"
proof -
  let ?fs = "profile_file_system_policy p"
  let ?q = "call_requirement tool req ap ?fs"
  have kind: "policy_kind ?fs = Restricted" using profile_entries_restricted [OF assms(3)] .
  then have sandbox: "should_sandbox ?fs (profile_network_policy p) (sandbox_preference tool) (turn_network_active turn)"
    using denied_location_needs_sandbox assms(3-5) by blast
  have keep: "\<not> unsandboxed_execution_allowed ?fs"
    using kind assms(3,4) by (auto simp: unsandboxed_execution_allowed_def has_denied_read_restrictions_def denies_location_def)
  have "a \<in> set (attempts log)" using assms(6) by (simp add: set_attempts)
  with assms(1,2) have "a \<in> {initial_attempt turn p tool req ?q, retry_attempt turn p tool}"
    by (cases rule: run_log [OF assms(1,2) refl]) (auto elim!: attempt_call_log)
  then show ?thesis
    using sandbox keep denied_reads_no_override [OF keep] select_initial_sandboxed
    by (auto simp: initial_attempt_def retry_attempt_def make_attempt_def Let_def)
qed

theorem denied_reads_stay_sandboxed_witness:
  "\<exists>res w' log a. tool_orchestrator_run plain_disk stubborn_tool () (example_call Deny) UnlessTrusted ((), []) = Some (res, (w', log)) \<and>
     Attempt a \<in> set log \<and> attempt_sandbox a \<noteq> NoSandbox"
proof -
  let ?p = "turn_profile (example_call Deny)"
  obtain res w' log where run:
    "tool_orchestrator_run plain_disk stubborn_tool () (example_call Deny) UnlessTrusted ((), []) = Some (res, (w', log))"
    by (rule example_run)
  have "case tool_orchestrator_run plain_disk stubborn_tool () (example_call Deny) UnlessTrusted ((), []) of
      Some (res, (w', log)) \<Rightarrow> attempts log \<noteq> [] | None \<Rightarrow> False" by code_simp
  with run have "attempts log \<noteq> []" by simp
  then have a: "Attempt (hd (attempts log)) \<in> set log" by (simp flip: set_attempts)
  have e: "new_entry (PathEntry [RootDir, Normal [1]]) Deny \<in> set (policy_entries (profile_file_system_policy ?p))"
    "denies_location (new_entry (PathEntry [RootDir, Normal [1]]) Deny)" "sandbox_preference stubborn_tool \<noteq> Forbid"
    by (simp_all add: example_call_def denies_location_def new_entry_def stubborn_tool_def)
  from denied_reads_stay_sandboxed [OF run example_permissions e a] run a show ?thesis by blast
qed

end
