(* ===== verification/Ip_Addr.thy ===== *)
theory Ip_Addr
  imports Prelude "HOL-Library.Word" "HOL-Library.Monad_Syntax"
begin

text \<open>
  IP addresses as the network proxy uses them: \<open>std::net::IpAddr\<close> with its parser, and the classification of non-public
  addresses in \<open>network-proxy/src/policy.rs\<close>. The parser follows the standard library: each reader takes the rest of the text and
  gives a value with what is left, and a reader that fails leaves the text to its caller. The classification works on the
  bits of an address, with the masks of the source; it is shown to be membership in a table of ranges, and the dotted
  text of an address is shown to parse to it.
\<close>

unbundle bit_operations_syntax

section \<open>Addresses\<close>

datatype ipv4_addr = Ipv4 "8 word" "8 word" "8 word" "8 word"

datatype ipv6_addr = Ipv6 "16 word" "16 word" "16 word" "16 word" "16 word" "16 word" "16 word" "16 word"

datatype ip_addr = V4 ipv4_addr | V6 ipv6_addr

text \<open>\<open>u32::from(Ipv4Addr)\<close>: the octets, most significant first.\<close>

fun ipv4_bits :: "ipv4_addr \<Rightarrow> 32 word" where
  "ipv4_bits (Ipv4 a b c d) =
     push_bit 24 (ucast a) OR push_bit 16 (ucast b) OR push_bit 8 (ucast c) OR ucast d"

section \<open>Parsing\<close>

definition to_digit :: "nat \<Rightarrow> uchar \<Rightarrow> nat option" where
  "to_digit radix c =
     (let d = (if 48 \<le> c \<and> c \<le> 57 then c - 48
               else if 97 \<le> c \<and> c \<le> 122 then c - 87
               else if 65 \<le> c \<and> c \<le> 90 then c - 55
               else radix)
      in if d < radix then Some d else None)"

fun read_digits :: "nat \<Rightarrow> nat \<Rightarrow> nat \<Rightarrow> nat \<Rightarrow> ustr \<Rightarrow> (nat \<times> nat \<times> ustr) option" where
  "read_digits radix max_digits result count [] = Some (result, count, [])"
| "read_digits radix max_digits result count (c # s) =
     (case to_digit radix c of
        None \<Rightarrow> Some (result, count, c # s)
      | Some digit \<Rightarrow>
          if count + 1 > max_digits then None
          else read_digits radix max_digits (result * radix + digit) (count + 1) s)"

definition read_number :: "nat \<Rightarrow> nat \<Rightarrow> nat \<Rightarrow> bool \<Rightarrow> ustr \<Rightarrow> (nat \<times> ustr) option" where
  "read_number radix max_digits bound allow_zero_prefix s =
     (case read_digits radix max_digits 0 0 s of
        None \<Rightarrow> None
      | Some (result, count, rest) \<Rightarrow>
          if count = 0 then None
          else if \<not> allow_zero_prefix \<and> starts_with [48] s \<and> count > 1 then None
          else if result < bound then Some (result, rest) else None)"

fun read_given_char :: "uchar \<Rightarrow> ustr \<Rightarrow> ustr option" where
  "read_given_char c [] = None"
| "read_given_char c (x # s) = (if x = c then Some s else None)"

definition read_separator :: "uchar \<Rightarrow> nat \<Rightarrow> (ustr \<Rightarrow> ('a \<times> ustr) option) \<Rightarrow> ustr \<Rightarrow> ('a \<times> ustr) option" where
  "read_separator sep index inner s = (if index > 0 then Option.bind (read_given_char sep s) inner else inner s)"

definition read_octet :: "nat \<Rightarrow> ustr \<Rightarrow> (8 word \<times> ustr) option" where
  "read_octet i s = map_option (\<lambda>(n, rest). (word_of_nat n, rest)) (read_separator 46 i (read_number 10 3 256 False) s)"

definition read_ipv4_addr :: "ustr \<Rightarrow> (ipv4_addr \<times> ustr) option" where
  "read_ipv4_addr s = do {
     (a, s) \<leftarrow> read_octet 0 s;
     (b, s) \<leftarrow> read_octet 1 s;
     (c, s) \<leftarrow> read_octet 2 s;
     (d, s) \<leftarrow> read_octet 3 s;
     Some (Ipv4 a b c d, s)
   }"

text \<open>
  \<open>read_groups\<close>, with the number of groups still to fill and the index of the next one: the groups read, and whether the last
  two came from an embedded IPv4 address.
\<close>

fun ipv4_groups :: "ipv4_addr \<Rightarrow> 16 word list" where
  "ipv4_groups (Ipv4 a b c d) = [push_bit 8 (ucast a) OR ucast b, push_bit 8 (ucast c) OR ucast d]"

fun read_groups :: "nat \<Rightarrow> nat \<Rightarrow> ustr \<Rightarrow> 16 word list \<times> bool \<times> ustr" where
  "read_groups 0 i s = ([], False, s)"
| "read_groups (Suc r) i s =
     (case (if r > 0 then read_separator 58 i read_ipv4_addr s else None) of
        Some (v4, s') \<Rightarrow> (ipv4_groups v4, True, s')
      | None \<Rightarrow>
          (case read_separator 58 i (read_number 16 4 65536 True) s of
             Some (g, s') \<Rightarrow> (case read_groups r (Suc i) s' of (gs, v4, s'') \<Rightarrow> (word_of_nat g # gs, v4, s''))
           | None \<Rightarrow> ([], False, s)))"

fun ipv6_of_groups :: "16 word list \<Rightarrow> ipv6_addr option" where
  "ipv6_of_groups [a, b, c, d, e, f, g, h] = Some (Ipv6 a b c d e f g h)"
| "ipv6_of_groups _ = None"

definition read_ipv6_addr :: "ustr \<Rightarrow> (ipv6_addr \<times> ustr) option" where
  "read_ipv6_addr s =
     (case read_groups 8 0 s of
        (head, head_ipv4, s1) \<Rightarrow>
          if length head = 8 then map_option (\<lambda>ip. (ip, s1)) (ipv6_of_groups head)
          else if head_ipv4 then None
          else do {
            s2 \<leftarrow> read_given_char 58 s1;
            s3 \<leftarrow> read_given_char 58 s2;
            let (tail, _, s4) = read_groups (8 - (length head + 1)) 0 s3;
            map_option (\<lambda>ip. (ip, s4))
              (ipv6_of_groups (head @ replicate (8 - length head - length tail) 0 @ tail))
          })"

text \<open>\<open>str::parse::<IpAddr>\<close>: no second try with IPv6 once an IPv4 address was read, and nothing may be left.\<close>

definition parse_ip :: "ustr \<Rightarrow> ip_addr option" where
  "parse_ip s =
     (case (case read_ipv4_addr s of
              Some (ip, rest) \<Rightarrow> Some (V4 ip, rest)
            | None \<Rightarrow> map_option (\<lambda>(ip, rest). (V6 ip, rest)) (read_ipv6_addr s)) of
        Some (ip, []) \<Rightarrow> Some ip
      | _ \<Rightarrow> None)"

section \<open>Classification in the standard library\<close>

fun ipv4_is_loopback :: "ipv4_addr \<Rightarrow> bool" where
  "ipv4_is_loopback (Ipv4 a b c d) \<longleftrightarrow> a = 127"

fun ipv4_is_private :: "ipv4_addr \<Rightarrow> bool" where
  "ipv4_is_private (Ipv4 a b c d) \<longleftrightarrow> a = 10 \<or> a = 172 \<and> 16 \<le> b \<and> b \<le> 31 \<or> a = 192 \<and> b = 168"

fun ipv4_is_link_local :: "ipv4_addr \<Rightarrow> bool" where
  "ipv4_is_link_local (Ipv4 a b c d) \<longleftrightarrow> a = 169 \<and> b = 254"

definition ipv4_is_unspecified :: "ipv4_addr \<Rightarrow> bool" where
  "ipv4_is_unspecified ip \<longleftrightarrow> ip = Ipv4 0 0 0 0"

fun ipv4_is_multicast :: "ipv4_addr \<Rightarrow> bool" where
  "ipv4_is_multicast (Ipv4 a b c d) \<longleftrightarrow> 224 \<le> a \<and> a \<le> 239"

definition ipv4_is_broadcast :: "ipv4_addr \<Rightarrow> bool" where
  "ipv4_is_broadcast ip \<longleftrightarrow> ip = Ipv4 255 255 255 255"

fun to_ipv4 :: "ipv6_addr \<Rightarrow> ipv4_addr option" where
  "to_ipv4 (Ipv6 a b c d e f ab cd) =
     (if a = 0 \<and> b = 0 \<and> c = 0 \<and> d = 0 \<and> e = 0 \<and> (f = 0 \<or> f = 0xFFFF)
      then Some (Ipv4 (ucast (drop_bit 8 ab)) (ucast ab) (ucast (drop_bit 8 cd)) (ucast cd))
      else None)"

definition ipv6_is_loopback :: "ipv6_addr \<Rightarrow> bool" where
  "ipv6_is_loopback ip \<longleftrightarrow> ip = Ipv6 0 0 0 0 0 0 0 1"

definition ipv6_is_unspecified :: "ipv6_addr \<Rightarrow> bool" where
  "ipv6_is_unspecified ip \<longleftrightarrow> ip = Ipv6 0 0 0 0 0 0 0 0"

fun ipv6_is_multicast :: "ipv6_addr \<Rightarrow> bool" where
  "ipv6_is_multicast (Ipv6 a _ _ _ _ _ _ _) \<longleftrightarrow> a AND 0xFF00 = 0xFF00"

fun ipv6_is_unique_local :: "ipv6_addr \<Rightarrow> bool" where
  "ipv6_is_unique_local (Ipv6 a _ _ _ _ _ _ _) \<longleftrightarrow> a AND 0xFE00 = 0xFC00"

fun ipv6_is_unicast_link_local :: "ipv6_addr \<Rightarrow> bool" where
  "ipv6_is_unicast_link_local (Ipv6 a _ _ _ _ _ _ _) \<longleftrightarrow> a AND 0xFFC0 = 0xFE80"

fun ip_is_loopback :: "ip_addr \<Rightarrow> bool" where
  "ip_is_loopback (V4 ip) = ipv4_is_loopback ip"
| "ip_is_loopback (V6 ip) = ipv6_is_loopback ip"

section \<open>policy.rs: non-public addresses\<close>

definition ipv4_in_cidr :: "ipv4_addr \<Rightarrow> ipv4_addr \<Rightarrow> nat \<Rightarrow> bool" where
  "ipv4_in_cidr ip base prefix_len =
     (let mask = (if prefix_len = 0 then 0 else push_bit (32 - prefix_len) (- 1 :: 32 word))
      in ipv4_bits ip AND mask = ipv4_bits base AND mask)"

definition is_non_public_ipv4 :: "ipv4_addr \<Rightarrow> bool" where
  "is_non_public_ipv4 ip \<longleftrightarrow>
     ipv4_is_loopback ip \<or> ipv4_is_private ip \<or> ipv4_is_link_local ip \<or> ipv4_is_unspecified ip \<or>
     ipv4_is_multicast ip \<or> ipv4_is_broadcast ip \<or>
     ipv4_in_cidr ip (Ipv4 0 0 0 0) 8 \<or>
     ipv4_in_cidr ip (Ipv4 100 64 0 0) 10 \<or>
     ipv4_in_cidr ip (Ipv4 192 0 0 0) 24 \<or>
     ipv4_in_cidr ip (Ipv4 192 0 2 0) 24 \<or>
     ipv4_in_cidr ip (Ipv4 198 18 0 0) 15 \<or>
     ipv4_in_cidr ip (Ipv4 198 51 100 0) 24 \<or>
     ipv4_in_cidr ip (Ipv4 203 0 113 0) 24 \<or>
     ipv4_in_cidr ip (Ipv4 240 0 0 0) 4"

definition is_non_public_ipv6 :: "ipv6_addr \<Rightarrow> bool" where
  "is_non_public_ipv6 ip =
     (case to_ipv4 ip of
        Some v4 \<Rightarrow> is_non_public_ipv4 v4 \<or> ipv6_is_loopback ip
      | None \<Rightarrow>
          ipv6_is_loopback ip \<or> ipv6_is_unspecified ip \<or> ipv6_is_multicast ip \<or>
          ipv6_is_unique_local ip \<or> ipv6_is_unicast_link_local ip)"

fun is_non_public_ip :: "ip_addr \<Rightarrow> bool" where
  "is_non_public_ip (V4 ip) = is_non_public_ipv4 ip"
| "is_non_public_ip (V6 ip) = is_non_public_ipv6 ip"

section \<open>Octets, bits and networks\<close>

lemma unat_octet: "unat (a :: 8 word) < 256"
  using unsigned_less [of a, where ?'a = nat] by simp

lemma unat_push_ucast:
  fixes a :: "8 word"
  assumes "n \<le> 24"
  shows "unat (push_bit n (ucast a :: 32 word)) = unat a * 2 ^ n"
proof -
  have "unat a * 2 ^ n < 2 ^ 8 * 2 ^ n" using unat_octet [of a] by simp
  also have "... = (2::nat) ^ (8 + n)" by (simp add: power_add)
  also have "... \<le> 2 ^ 32" using assms by (intro power_increasing) auto
  finally have "take_bit 32 (push_bit n (unat a)) = unat a * 2 ^ n"
    by (simp add: push_bit_eq_mult take_bit_nat_eq_self)
  moreover have "unat (ucast a :: 32 word) = unat a"
    using unat_octet [of a] by (simp add: unsigned_ucast_eq take_bit_nat_eq_self)
  ultimately show ?thesis by (subst unsigned_push_bit_eq) simp
qed

lemma or_eq_plus:
  fixes x y :: nat
  assumes "y < 2 ^ n"
  shows "(x * 2 ^ n) OR y = x * 2 ^ n + y"
proof -
  have "\<not> bit y m" if "n \<le> m" for m
    using assms that by (metis bit_take_bit_iff linorder_not_less take_bit_nat_eq_self)
  then have "push_bit n x AND y = 0"
    by (auto simp: bit_eq_iff bit_simps)
  then show ?thesis
    by (simp add: push_bit_eq_mult disjunctive_add_eq_or)
qed

fun ipv4_nat :: "ipv4_addr \<Rightarrow> nat" where
  "ipv4_nat (Ipv4 a b c d) = unat a * 2 ^ 24 + unat b * 2 ^ 16 + unat c * 2 ^ 8 + unat d"

lemma unat_ipv4_bits: "unat (ipv4_bits ip) = ipv4_nat ip"
proof (cases ip)
  case (Ipv4 a b c d)
  note octets = unat_octet [of a] unat_octet [of b] unat_octet [of c] unat_octet [of d]
  have "unat (ucast d :: 32 word) = unat d"
    using unat_push_ucast [of 0 d] by simp
  then have "unat (ipv4_bits ip) = (unat a * 2 ^ 24) OR ((unat b * 2 ^ 16) OR ((unat c * 2 ^ 8) OR unat d))"
    by (simp add: Ipv4 unsigned_or_eq unat_push_ucast or.assoc)
  also have "(unat c * 2 ^ 8) OR unat d = unat c * 2 ^ 8 + unat d"
    using octets by (intro or_eq_plus) simp
  also have "(unat b * 2 ^ 16) OR (unat c * 2 ^ 8 + unat d) = unat b * 2 ^ 16 + (unat c * 2 ^ 8 + unat d)"
    using octets by (intro or_eq_plus) simp
  also have "(unat a * 2 ^ 24) OR (unat b * 2 ^ 16 + (unat c * 2 ^ 8 + unat d)) = unat a * 2 ^ 24 + (unat b * 2 ^ 16 + (unat c * 2 ^ 8 + unat d))"
    using octets by (intro or_eq_plus) simp
  finally show ?thesis by (simp add: Ipv4)
qed

lemma and_high_mask: "w AND push_bit n (- 1) = push_bit n (drop_bit n w)" for w :: "'a::len word"
  by (auto simp: bit_eq_iff bit_simps)

lemma drop_push_drop: "drop_bit n (push_bit n (drop_bit n w)) = drop_bit n w" for w :: "'a::len word"
  by (auto simp: bit_eq_iff bit_simps dest: bit_imp_le_length)

lemma masked_eq_iff:
  fixes v w :: "'a::len word"
  shows "v AND push_bit n (- 1) = w AND push_bit n (- 1) \<longleftrightarrow> unat v div 2 ^ n = unat w div 2 ^ n"
proof -
  have "push_bit n (drop_bit n v) = push_bit n (drop_bit n w) \<longleftrightarrow> drop_bit n v = drop_bit n w"
    by (metis drop_push_drop)
  also have "... \<longleftrightarrow> unat (drop_bit n v) = unat (drop_bit n w)" by (simp only: word_unat_eq_iff)
  finally have "v AND push_bit n (- 1) = w AND push_bit n (- 1) \<longleftrightarrow> unat (drop_bit n v) = unat (drop_bit n w)"
    unfolding and_high_mask .
  moreover have "unat (drop_bit n x) = unat x div 2 ^ n" for x :: "'a word"
    by (subst unat_drop_bit_eq) (rule drop_bit_eq_div)
  ultimately show ?thesis by simp
qed

text \<open>A network is an interval of addresses.\<close>

lemma div_eq_div_iff:
  fixes m n k :: nat
  assumes "m mod k = 0" "0 < k"
  shows "n div k = m div k \<longleftrightarrow> m \<le> n \<and> n \<le> m + (k - 1)"
proof -
  obtain q where q: "m = k * q" using assms(1) by auto
  have "n div k = q \<longleftrightarrow> q * k \<le> n \<and> n < Suc q * k"
    using assms(2) by (metis div_less_iff_less_mult div_mult_self_is_m dividend_less_times_div le_less_Suc_eq less_eq_div_iff_mult_less_eq less_Suc_eq_le nat_le_linear not_less)
  with q assms(2) show ?thesis by (auto simp: algebra_simps)
qed

lemma ipv4_in_cidr_iff:
  assumes "0 < p" "p \<le> 32" "ipv4_nat base mod 2 ^ (32 - p) = 0"
  shows "ipv4_in_cidr ip base p \<longleftrightarrow> ipv4_nat base \<le> ipv4_nat ip \<and> ipv4_nat ip \<le> ipv4_nat base + (2 ^ (32 - p) - 1)"
  using assms by (simp add: ipv4_in_cidr_def Let_def masked_eq_iff unat_ipv4_bits div_eq_div_iff del: push_bit_minus_one_eq_not_mask)

definition non_public_ranges :: "(ipv4_addr \<times> ipv4_addr) list" where
  "non_public_ranges =
     [(Ipv4 0 0 0 0, Ipv4 0 255 255 255), (Ipv4 10 0 0 0, Ipv4 10 255 255 255), (Ipv4 100 64 0 0, Ipv4 100 127 255 255),
      (Ipv4 127 0 0 0, Ipv4 127 255 255 255), (Ipv4 169 254 0 0, Ipv4 169 254 255 255), (Ipv4 172 16 0 0, Ipv4 172 31 255 255),
      (Ipv4 192 0 0 0, Ipv4 192 0 0 255), (Ipv4 192 0 2 0, Ipv4 192 0 2 255), (Ipv4 192 168 0 0, Ipv4 192 168 255 255),
      (Ipv4 198 18 0 0, Ipv4 198 19 255 255), (Ipv4 198 51 100 0, Ipv4 198 51 100 255), (Ipv4 203 0 113 0, Ipv4 203 0 113 255),
      (Ipv4 224 0 0 0, Ipv4 255 255 255 255)]"

definition in_ranges :: "(ipv4_addr \<times> ipv4_addr) list \<Rightarrow> ipv4_addr \<Rightarrow> bool" where
  "in_ranges rs ip = list_ex (\<lambda>(lo, hi). ipv4_nat lo \<le> ipv4_nat ip \<and> ipv4_nat ip \<le> ipv4_nat hi) rs"

text \<open>The tests of the standard library as intervals.\<close>

definition within :: "nat \<Rightarrow> nat \<Rightarrow> ipv4_addr \<Rightarrow> bool" where
  "within lo hi ip \<longleftrightarrow> lo \<le> ipv4_nat ip \<and> ipv4_nat ip \<le> hi"

lemma octet_intervals:
  fixes a b c d :: nat
  assumes "b < 256" "c < 256" "d < 256" and n: "n = a * 16777216 + b * 65536 + c * 256 + d"
  shows "k \<le> a \<and> a \<le> m \<longleftrightarrow> k * 16777216 \<le> n \<and> n \<le> m * 16777216 + 16777215"
    and "\<lbrakk>j < 256; l < 256\<rbrakk> \<Longrightarrow>
      a = k \<and> j \<le> b \<and> b \<le> l \<longleftrightarrow> k * 16777216 + j * 65536 \<le> n \<and> n \<le> k * 16777216 + l * 65536 + 65535"
proof -
  show "k \<le> a \<and> a \<le> m \<longleftrightarrow> k * 16777216 \<le> n \<and> n \<le> m * 16777216 + 16777215"
    using assms by linarith
  show "a = k \<and> j \<le> b \<and> b \<le> l \<longleftrightarrow> k * 16777216 + j * 65536 \<le> n \<and> n \<le> k * 16777216 + l * 65536 + 65535"
    if "j < 256" "l < 256"
  proof
    assume r: "k * 16777216 + j * 65536 \<le> n \<and> n \<le> k * 16777216 + l * 65536 + 65535"
    then have "a = k" using assms that by linarith
    with r assms show "a = k \<and> j \<le> b \<and> b \<le> l" by linarith
  qed (use assms in linarith)
qed

lemma std_ranges:
  "ipv4_is_loopback ip \<longleftrightarrow> within 2130706432 2147483647 ip"
  "ipv4_is_private ip \<longleftrightarrow>
     within 167772160 184549375 ip \<or> within 2886729728 2887778303 ip \<or> within 3232235520 3232301055 ip"
  "ipv4_is_link_local ip \<longleftrightarrow> within 2851995648 2852061183 ip"
  "ipv4_is_multicast ip \<longleftrightarrow> within 3758096384 4026531839 ip"
proof -
  obtain a b c d where ip: "ip = Ipv4 a b c d" by (cases ip)
  note bounds = unat_octet [of b] unat_octet [of c] unat_octet [of d]
  have n: "ipv4_nat ip = unat a * 16777216 + unat b * 65536 + unat c * 256 + unat d" by (simp add: ip)
  note first = octet_intervals(1) [OF bounds n] and second = octet_intervals(2) [OF bounds n]
  have eq: "x = y \<longleftrightarrow> y \<le> x \<and> x \<le> y" for x y :: nat by auto
  show "ipv4_is_loopback ip \<longleftrightarrow> within 2130706432 2147483647 ip"
    using first [of 127 127] by (auto simp: ip word_unat_eq_iff within_def)
  show "ipv4_is_private ip \<longleftrightarrow>
      within 167772160 184549375 ip \<or> within 2886729728 2887778303 ip \<or> within 3232235520 3232301055 ip"
    using first [of 10 10] second [of 16 31 172] second [of 168 168 192]
    by (simp add: ip word_unat_eq_iff word_le_nat_alt within_def eq [of "unat b"] eq [of "unat a" 10])
  show "ipv4_is_link_local ip \<longleftrightarrow> within 2851995648 2852061183 ip"
    using second [of 254 254 169] by (simp add: ip word_unat_eq_iff within_def eq [of "unat b"])
  show "ipv4_is_multicast ip \<longleftrightarrow> within 3758096384 4026531839 ip"
    using first [of 224 239] by (simp add: ip word_le_nat_alt within_def)
qed

lemma ipv4_nat_bound: "ipv4_nat ip < 2 ^ 32"
  using unsigned_less [of "ipv4_bits ip", where ?'a = nat] by (simp add: unat_ipv4_bits)

lemma cidr_ranges:
  "ipv4_in_cidr ip (Ipv4 0 0 0 0) 8 \<longleftrightarrow> within 0 16777215 ip"
  "ipv4_in_cidr ip (Ipv4 100 64 0 0) 10 \<longleftrightarrow> within 1681915904 1686110207 ip"
  "ipv4_in_cidr ip (Ipv4 192 0 0 0) 24 \<longleftrightarrow> within 3221225472 3221225727 ip"
  "ipv4_in_cidr ip (Ipv4 192 0 2 0) 24 \<longleftrightarrow> within 3221225984 3221226239 ip"
  "ipv4_in_cidr ip (Ipv4 198 18 0 0) 15 \<longleftrightarrow> within 3323068416 3323199487 ip"
  "ipv4_in_cidr ip (Ipv4 198 51 100 0) 24 \<longleftrightarrow> within 3325256704 3325256959 ip"
  "ipv4_in_cidr ip (Ipv4 203 0 113 0) 24 \<longleftrightarrow> within 3405803776 3405804031 ip"
  "ipv4_in_cidr ip (Ipv4 240 0 0 0) 4 \<longleftrightarrow> within 4026531840 4294967295 ip"
  by (simp_all add: ipv4_in_cidr_iff within_def)

lemma non_public_ipv4_ranges: "is_non_public_ipv4 ip \<longleftrightarrow> in_ranges non_public_ranges ip"
proof -
  have "within 3758096384 4294967295 ip \<longleftrightarrow> within 3758096384 4026531839 ip \<or> within 4026531840 4294967295 ip"
    by (auto simp: within_def)
  moreover have "ipv4_is_unspecified ip \<Longrightarrow> within 0 16777215 ip"
    by (simp add: ipv4_is_unspecified_def within_def)
  moreover have "ipv4_is_broadcast ip \<Longrightarrow> within 4026531840 4294967295 ip"
    by (simp add: ipv4_is_broadcast_def within_def)
  moreover have "in_ranges non_public_ranges ip \<longleftrightarrow>
      within 0 16777215 ip \<or> within 167772160 184549375 ip \<or> within 1681915904 1686110207 ip \<or>
      within 2130706432 2147483647 ip \<or> within 2851995648 2852061183 ip \<or> within 2886729728 2887778303 ip \<or>
      within 3221225472 3221225727 ip \<or> within 3221225984 3221226239 ip \<or>
      within 3232235520 3232301055 ip \<or> within 3323068416 3323199487 ip \<or>
      within 3325256704 3325256959 ip \<or> within 3405803776 3405804031 ip \<or> within 3758096384 4294967295 ip"
    by (simp add: in_ranges_def non_public_ranges_def within_def)
  ultimately show ?thesis
    unfolding is_non_public_ipv4_def std_ranges cidr_ranges by blast
qed

text \<open>IPv4 addresses inside IPv6.\<close>

fun ipv4_mapped :: "ipv4_addr \<Rightarrow> ipv6_addr" where
  "ipv4_mapped (Ipv4 a b c d) =
     Ipv6 0 0 0 0 0 0xFFFF (push_bit 8 (ucast a) OR ucast b) (push_bit 8 (ucast c) OR ucast d)"

lemma split_group:
  fixes a b :: "8 word"
  shows "ucast (drop_bit 8 (push_bit 8 (ucast a)) OR drop_bit 8 (ucast b) :: 16 word) = a"
    and "ucast (push_bit 8 (ucast a) OR ucast b :: 16 word) = b"
  by (auto simp: bit_eq_iff bit_simps dest: bit_imp_le_length)

lemma to_ipv4_mapped: "to_ipv4 (ipv4_mapped ip) = Some ip"
  by (cases ip) (simp add: split_group)

lemma mapped_not_loopback: "\<not> ipv6_is_loopback (ipv4_mapped ip)"
  by (cases ip) (simp add: ipv6_is_loopback_def)

lemma segment_ranges:
  fixes a :: "16 word"
  shows "a AND 0xFF00 = 0xFF00 \<longleftrightarrow> 0xFF00 \<le> a"
    and "a AND 0xFE00 = 0xFC00 \<longleftrightarrow> 0xFC00 \<le> a \<and> a \<le> 0xFDFF"
    and "a AND 0xFFC0 = 0xFE80 \<longleftrightarrow> 0xFE80 \<le> a \<and> a \<le> 0xFEBF"
proof -
  have bound: "unat a < 65536" using unsigned_less [of a, where ?'a = nat] by simp
  have masks: "a AND 0xFF00 = a AND - 256" "a AND 0xFE00 = a AND - 512" "a AND 0xFFC0 = a AND - 64"
    by (rule arg_cong [of _ _ "\<lambda>m. a AND m"], simp)+
  show "a AND 0xFF00 = 0xFF00 \<longleftrightarrow> 0xFF00 \<le> a"
    using masked_eq_iff [of a 8 "0xFF00"] bound div_eq_div_iff [of "0xFF00" 256 "unat a"]
    by (simp add: word_le_nat_alt mask_eq_exp_minus_1 masks)
  show "a AND 0xFE00 = 0xFC00 \<longleftrightarrow> 0xFC00 \<le> a \<and> a \<le> 0xFDFF"
    using masked_eq_iff [of a 9 "0xFC00"] div_eq_div_iff [of "0xFC00" 512 "unat a"]
    by (simp add: word_le_nat_alt mask_eq_exp_minus_1 masks)
  show "a AND 0xFFC0 = 0xFE80 \<longleftrightarrow> 0xFE80 \<le> a \<and> a \<le> 0xFEBF"
    using masked_eq_iff [of a 6 "0xFE80"] div_eq_div_iff [of "0xFE80" 64 "unat a"]
    by (simp add: word_le_nat_alt mask_eq_exp_minus_1 masks)
qed


section \<open>Dotted text\<close>

fun show_ipv4 :: "ipv4_addr \<Rightarrow> ustr" where
  "show_ipv4 (Ipv4 a b c d) = join [46] [dec (unat a), dec (unat b), dec (unat c), dec (unat d)]"

lemma read_digits_dec:
  assumes "n < 256" "\<forall>c s. rest = c # s \<longrightarrow> to_digit 10 c = None"
  shows "\<exists>k. read_digits 10 3 0 0 (dec n @ rest) = Some (n, k, rest) \<and> 0 < k \<and> (starts_with [48] (dec n @ rest) \<longrightarrow> k = 1)"
proof -
  have stop: "read_digits 10 3 r k rest = Some (r, k, rest)" for r k
    using assms(2) by (cases rest) auto
  consider "n < 10" | "10 \<le> n" "n < 100" | "100 \<le> n" by linarith
  then show ?thesis
  proof cases
    case 1
    then have "dec n = [48 + n]" by (simp add: dec.simps)
    with 1 show ?thesis by (simp add: to_digit_def stop)
  next
    case 2
    then have "dec n = [48 + n div 10, 48 + n mod 10]" by (simp add: dec.simps [of n] dec.simps [of "n div 10"])
    moreover have "0 < n div 10" "n div 10 \<le> 9" "n mod 10 \<le> 9" using 2 by linarith+
    ultimately show ?thesis by (simp add: to_digit_def stop starts_with_def)
  next
    case 3
    with assms(1) have "\<not> n < 10" "\<not> n div 10 < 10" "n div 10 div 10 < 10" by linarith+
    then have "dec n = [48 + n div 10 div 10, 48 + n div 10 mod 10, 48 + n mod 10]"
      by (simp add: dec.simps [of n] dec.simps [of "n div 10"] dec.simps [of "n div 10 div 10"])
    moreover have "0 < n div 10 div 10" "n div 10 div 10 \<le> 9" "n div 10 mod 10 \<le> 9" "n mod 10 \<le> 9"
      using 3 assms(1) by linarith+
    ultimately show ?thesis by (simp add: to_digit_def stop starts_with_def)
  qed
qed

lemma read_octet_dec:
  assumes "\<forall>c s. rest = c # s \<longrightarrow> to_digit 10 c = None"
  shows "read_octet 0 (dec (unat a) @ rest) = Some (a, rest)"
    and "0 < i \<Longrightarrow> read_octet i (46 # dec (unat a) @ rest) = Some (a, rest)"
proof -
  have "read_number 10 3 256 False (dec (unat a) @ rest) = Some (unat a, rest)"
    using read_digits_dec [OF unat_octet [of a] assms] unat_octet [of a] by (auto simp: read_number_def)
  then show "read_octet 0 (dec (unat a) @ rest) = Some (a, rest)"
    and "0 < i \<Longrightarrow> read_octet i (46 # dec (unat a) @ rest) = Some (a, rest)"
    by (simp_all add: read_octet_def read_separator_def)
qed

lemma parse_show_ipv4: "parse_ip (show_ipv4 ip) = Some (V4 ip)"
proof (cases ip)
  case (Ipv4 a b c d)
  have dot: "\<forall>c s. 46 # t = c # s \<longrightarrow> to_digit 10 c = None" for t by (simp add: to_digit_def)
  show ?thesis
    by (simp add: Ipv4 parse_ip_def read_ipv4_addr_def read_octet_dec(1) [OF dot] read_octet_dec(2) [OF dot]
        read_octet_dec(2) [of "[]", simplified])
qed


text \<open>A text that starts with neither a hexadecimal digit nor a colon is not an address.\<close>

lemma parse_ip_not_literal:
  assumes "to_digit 16 c = None" "c \<noteq> 58"
  shows "parse_ip (c # s) = None"
proof -
  have "to_digit 10 c = None" using assms(1) by (auto simp: to_digit_def Let_def split: if_splits)
  then have v4: "read_ipv4_addr (c # s) = None"
    by (simp add: read_ipv4_addr_def read_octet_def read_separator_def read_number_def)
  have "read_groups (Suc 7) 0 (c # s) = ([], False, c # s)"
    unfolding read_groups.simps using assms(1) v4 by (simp add: read_separator_def read_number_def)
  then have "read_groups 8 0 (c # s) = ([], False, c # s)" by simp
  then have "read_ipv6_addr (c # s) = None"
    using assms(2) by (simp add: read_ipv6_addr_def)
  with v4 show ?thesis by (simp add: parse_ip_def)
qed

section \<open>The classification\<close>

definition non_public_segment :: "16 word \<Rightarrow> bool" where
  "non_public_segment a \<longleftrightarrow> 0xFC00 \<le> a \<and> a \<le> 0xFDFF \<or> 0xFE80 \<le> a \<and> a \<le> 0xFEBF \<or> 0xFF00 \<le> a"

fun first_segment :: "ipv6_addr \<Rightarrow> 16 word" where
  "first_segment (Ipv6 a _ _ _ _ _ _ _) = a"

lemma non_public_ipv6_ranges:
  "is_non_public_ipv6 ip \<longleftrightarrow>
     (case to_ipv4 ip of Some v4 \<Rightarrow> in_ranges non_public_ranges v4 | None \<Rightarrow> non_public_segment (first_segment ip))"
proof (cases "to_ipv4 ip")
  case None
  then have "\<not> ipv6_is_loopback ip" "\<not> ipv6_is_unspecified ip"
    by (auto simp: ipv6_is_loopback_def ipv6_is_unspecified_def)
  with None show ?thesis
    by (cases ip) (auto simp: is_non_public_ipv6_def non_public_segment_def segment_ranges)
next
  case (Some v4)
  have "is_non_public_ipv4 v4" if "ipv6_is_loopback ip"
  proof -
    have "v4 = Ipv4 0 0 0 1" using Some that by (simp add: ipv6_is_loopback_def)
    then show ?thesis by (simp add: non_public_ipv4_ranges in_ranges_def non_public_ranges_def)
  qed
  with Some show ?thesis by (auto simp: is_non_public_ipv6_def non_public_ipv4_ranges)
qed

text \<open>
  C28: Addresses that are not public are recognised. An IPv4 address counts as non-public if and only if it lies in one of thirteen
  ranges (this network, private, carrier, loopback, link-local, protocol assignments, documentation, benchmarking,
  multicast and reserved addresses), whether it is written in dotted text, which parses to it, mapped into IPv6, or embedded in an IPv6 address
  otherwise. The IPv6 addresses that the source names are all non-public: the unspecified and the loopback address, the unique-local, the
  link-local and the multicast addresses. Nothing is claimed of other IPv6 addresses; the next theorem shows two that are not
  globally routable and still count as public.
\<close>

theorem non_public_addresses_recognised:
  "parse_ip (show_ipv4 ip) = Some (V4 ip) \<and>
   (is_non_public_ip (V4 ip) \<longleftrightarrow> in_ranges non_public_ranges ip) \<and>
   (is_non_public_ip (V6 (ipv4_mapped ip)) \<longleftrightarrow> in_ranges non_public_ranges ip) \<and>
   (to_ipv4 ip6 = Some v4 \<longrightarrow> (is_non_public_ip (V6 ip6) \<longleftrightarrow> in_ranges non_public_ranges v4)) \<and>
   (ip6 = Ipv6 0 0 0 0 0 0 0 0 \<or> ip6 = Ipv6 0 0 0 0 0 0 0 1 \<or> non_public_segment (first_segment ip6) \<longrightarrow> is_non_public_ip (V6 ip6))"
proof -
  have "is_non_public_ip (V6 ip6)" if "ip6 = Ipv6 0 0 0 0 0 0 0 0 \<or> ip6 = Ipv6 0 0 0 0 0 0 0 1"
    using that by (auto simp: non_public_ipv6_ranges in_ranges_def non_public_ranges_def)
  moreover have "is_non_public_ip (V6 ip6)" if "non_public_segment (first_segment ip6)"
  proof -
    have "first_segment ip6 \<noteq> 0" using that by (auto simp: non_public_segment_def)
    then have "to_ipv4 ip6 = None" by (cases ip6) auto
    with that show ?thesis by (simp add: non_public_ipv6_ranges)
  qed
  ultimately show ?thesis by (auto simp: parse_show_ipv4 non_public_ipv4_ranges non_public_ipv6_ranges to_ipv4_mapped)
qed

theorem non_public_addresses_recognised_witness:
  "is_non_public_ip (V6 (Ipv6 0 0 0 0 0 0xFFFF 0x0A00 1)) \<and> is_non_public_ip (V6 (Ipv6 0xFE80 0 0 0 0 0 0 1)) \<and>
   \<not> is_non_public_ip (V4 (Ipv4 8 8 8 8))"
proof -
  have "to_ipv4 (Ipv6 0 0 0 0 0 0xFFFF 0x0A00 1) = Some (Ipv4 10 0 0 1)" "in_ranges non_public_ranges (Ipv4 10 0 0 1)"
      "\<not> in_ranges non_public_ranges (Ipv4 8 8 8 8)" "non_public_segment 0xFE80"
    by (simp_all add: in_ranges_def non_public_ranges_def non_public_segment_def)
  then show ?thesis
    using non_public_addresses_recognised [of "Ipv4 8 8 8 8" "Ipv6 0 0 0 0 0 0xFFFF 0x0A00 1" "Ipv4 10 0 0 1"]
      non_public_addresses_recognised [of "Ipv4 8 8 8 8" "Ipv6 0xFE80 0 0 0 0 0 0 1" "Ipv4 10 0 0 1"]
    by simp
qed

text \<open>
  The comment in the source says that anything that is not globally routable counts as local. The documentation prefix
  \<open>2001:db8::/32\<close> and a private address behind the translation prefix \<open>64:ff9b::/96\<close> do not.
\<close>

theorem unroutable_ipv6_counts_as_public:
  "\<not> is_non_public_ip (V6 (Ipv6 0x2001 0x0DB8 0 0 0 0 0 1)) \<and> \<not> is_non_public_ip (V6 (Ipv6 0x0064 0xFF9B 0 0 0 0 0x0A00 1))"
  by (simp add: non_public_ipv6_ranges non_public_segment_def)

end
