(* ===== verification/Host_Policy.thy ===== *)
theory Host_Policy
  imports Ip_Addr
begin

text \<open>
  \<open>network-proxy/src/policy.rs\<close>: normal forms of hosts and domain patterns, the comparison of patterns against managed constraints,
  and the glob sets compiled from them. The crates \<open>globset\<close> and \<open>url\<close> are parameters; what is documented of globs for the
  patterns that the proxy builds is the predicate \<open>domain_globs\<close>.
\<close>

section \<open>Hosts\<close>

text \<open>\<open>str::split_once\<close> on a string.\<close>

definition split_once_str :: "ustr \<Rightarrow> ustr \<Rightarrow> (ustr \<times> ustr) option" where
  "split_once_str delimiter s = map_option (\<lambda>i. (take i s, drop (i + length delimiter) s)) (find_sub delimiter s)"

definition normalize_ip_literal :: "ustr \<Rightarrow> ustr option" where
  "normalize_ip_literal host =
     (if parse_ip host \<noteq> None then Some host
      else find_map (\<lambda>delimiter.
             case split_once_str delimiter host of
               Some (ip, scope) \<Rightarrow> if parse_ip ip \<noteq> None then Some (ip @ lit ''%'' @ scope) else None
             | None \<Rightarrow> None) [lit ''%25'', lit ''%''])"

definition unscoped_ip_literal :: "ustr \<Rightarrow> ustr option" where
  "unscoped_ip_literal host =
     (case split_once 37 host of
        Some (ip, _) \<Rightarrow> if parse_ip ip \<noteq> None then Some ip else None
      | None \<Rightarrow> None)"

definition normalize_dns_host_or_ip_literal :: "ustr \<Rightarrow> ustr" where
  "normalize_dns_host_or_ip_literal host =
     (let host = trim_end_matches 46 (to_ascii_lowercase host)
      in case normalize_ip_literal host of Some ip \<Rightarrow> ip | None \<Rightarrow> host)"

definition normalize_host :: "ustr \<Rightarrow> ustr" where
  "normalize_host host =
     (let host = trim host
      in if starts_with [91] host \<and> 93 \<in> set host
         then normalize_dns_host_or_ip_literal (takeWhile (\<lambda>c. c \<noteq> 93) (tl host))
         else if count_list host 58 = 1
         then normalize_dns_host_or_ip_literal (takeWhile (\<lambda>c. c \<noteq> 58) host)
         else normalize_dns_host_or_ip_literal host)"

text \<open>\<open>Host::parse\<close>: a normalized host that is not empty.\<close>

definition host_parse :: "ustr \<Rightarrow> ustr option" where
  "host_parse input = (let normalized = normalize_host input in if normalized = [] then None else Some normalized)"

definition without_scope :: "ustr \<Rightarrow> ustr" where
  "without_scope host = (case unscoped_ip_literal host of Some ip \<Rightarrow> ip | None \<Rightarrow> host)"

definition is_loopback_host :: "ustr \<Rightarrow> bool" where
  "is_loopback_host host \<longleftrightarrow>
     (let host = without_scope host
      in host = lit ''localhost'' \<or> (case parse_ip host of Some ip \<Rightarrow> ip_is_loopback ip | None \<Rightarrow> False))"

section \<open>Domain patterns\<close>

datatype domain_pattern = ApexAndSubdomains ustr | SubdomainsOnly ustr | ExactDomain ustr

definition parse_domain :: "ustr \<Rightarrow> (ustr \<Rightarrow> domain_pattern) \<Rightarrow> domain_pattern" where
  "parse_domain domain build_pattern =
     (let domain = trim domain in if domain = [] then ExactDomain [] else build_pattern domain)"

definition domain_pattern_parse :: "ustr \<Rightarrow> domain_pattern" where
  "domain_pattern_parse input =
     (let input = trim input
      in if input = [] then ExactDomain []
         else case strip_prefix (lit ''**.'') input of
                Some domain \<Rightarrow> parse_domain domain ApexAndSubdomains
              | None \<Rightarrow>
                  (case strip_prefix (lit ''*.'') input of
                     Some domain \<Rightarrow> parse_domain domain SubdomainsOnly
                   | None \<Rightarrow> ExactDomain input))"

text \<open>\<open>url_host\<close> stands for \<open>url::Host::parse\<close> followed by its display.\<close>

definition parse_domain_for_constraints :: "(ustr \<Rightarrow> ustr option) \<Rightarrow> ustr \<Rightarrow> ustr" where
  "parse_domain_for_constraints url_host domain =
     (let domain = trim_end_matches 46 (trim domain)
      in if domain = [] then []
         else
           let host = (if starts_with [91] domain \<and> ends_with [93] domain then take (length domain - 2) (tl domain) else domain)
           in if 42 \<in> set host \<or> 63 \<in> set host \<or> 37 \<in> set host then domain
              else case url_host host of Some host \<Rightarrow> host | None \<Rightarrow> [])"

definition parse_for_constraints :: "(ustr \<Rightarrow> ustr option) \<Rightarrow> ustr \<Rightarrow> domain_pattern" where
  "parse_for_constraints url_host input =
     (let input = trim input
      in if input = [] then ExactDomain []
         else case strip_prefix (lit ''**.'') input of
                Some domain \<Rightarrow> ApexAndSubdomains (parse_domain_for_constraints url_host domain)
              | None \<Rightarrow>
                  (case strip_prefix (lit ''*.'') input of
                     Some domain \<Rightarrow> SubdomainsOnly (parse_domain_for_constraints url_host domain)
                   | None \<Rightarrow> ExactDomain (parse_domain_for_constraints url_host input)))"

definition normalize_domain :: "ustr \<Rightarrow> ustr" where
  "normalize_domain domain = to_ascii_lowercase (trim_end_matches 46 domain)"

definition domain_eq :: "ustr \<Rightarrow> ustr \<Rightarrow> bool" where
  "domain_eq left right \<longleftrightarrow> normalize_domain left = normalize_domain right"

definition is_subdomain_or_equal :: "ustr \<Rightarrow> ustr \<Rightarrow> bool" where
  "is_subdomain_or_equal child parent \<longleftrightarrow>
     normalize_domain child = normalize_domain parent \<or>
     ends_with (lit ''.'' @ normalize_domain parent) (normalize_domain child)"

definition is_strict_subdomain :: "ustr \<Rightarrow> ustr \<Rightarrow> bool" where
  "is_strict_subdomain child parent \<longleftrightarrow>
     normalize_domain child \<noteq> normalize_domain parent \<and>
     ends_with (lit ''.'' @ normalize_domain parent) (normalize_domain child)"

fun pattern_allows :: "domain_pattern \<Rightarrow> domain_pattern \<Rightarrow> bool" where
  "pattern_allows (ExactDomain domain) (ExactDomain candidate) = domain_eq candidate domain"
| "pattern_allows (ExactDomain domain) _ = False"
| "pattern_allows (SubdomainsOnly domain) (ExactDomain candidate) = is_strict_subdomain candidate domain"
| "pattern_allows (SubdomainsOnly domain) (SubdomainsOnly candidate) = is_subdomain_or_equal candidate domain"
| "pattern_allows (SubdomainsOnly domain) (ApexAndSubdomains candidate) = is_strict_subdomain candidate domain"
| "pattern_allows (ApexAndSubdomains domain) (ExactDomain candidate) = is_subdomain_or_equal candidate domain"
| "pattern_allows (ApexAndSubdomains domain) (SubdomainsOnly candidate) = is_subdomain_or_equal candidate domain"
| "pattern_allows (ApexAndSubdomains domain) (ApexAndSubdomains candidate) = is_subdomain_or_equal candidate domain"

section \<open>Glob sets\<close>

definition normalize_pattern :: "ustr \<Rightarrow> ustr" where
  "normalize_pattern pattern =
     (let pattern = trim pattern
      in if pattern = lit ''*'' then lit ''*''
         else case strip_prefix (lit ''**.'') pattern of
                Some domain \<Rightarrow> lit ''**.'' @ normalize_host domain
              | None \<Rightarrow>
                  (case strip_prefix (lit ''*.'') pattern of
                     Some domain \<Rightarrow> lit ''*.'' @ normalize_host domain
                   | None \<Rightarrow> normalize_host pattern))"

definition expand_domain_pattern :: "ustr \<Rightarrow> ustr list" where
  "expand_domain_pattern pattern =
     (case domain_pattern_parse pattern of
        ExactDomain domain \<Rightarrow> [domain]
      | SubdomainsOnly domain \<Rightarrow> [lit ''?*.'' @ domain]
      | ApexAndSubdomains domain \<Rightarrow> [domain, lit ''?*.'' @ domain])"

definition is_global_wildcard_domain_pattern :: "ustr \<Rightarrow> bool" where
  "is_global_wildcard_domain_pattern pattern \<longleftrightarrow> lit ''*'' \<in> set (expand_domain_pattern (normalize_pattern pattern))"

text \<open>\<open>globset\<close>: which patterns build, which sets build, and what a pattern matches, ignoring ASCII case.\<close>

record glob_library =
  glob_builds :: "ustr \<Rightarrow> bool"
  globset_builds :: "ustr list \<Rightarrow> bool"
  glob_matches :: "ustr \<Rightarrow> ustr \<Rightarrow> bool"

datatype global_wildcard = AllowWildcard | RejectWildcard

datatype globset_error = UnsupportedGlobalWildcard | InvalidGlobPattern ustr | GlobSetTooLarge

text \<open>The candidates of one pattern, added to those seen so far; a set is its list of globs in the order they were added.\<close>

fun add_candidates :: "glob_library \<Rightarrow> ustr list \<Rightarrow> ustr list \<Rightarrow> globset_error + ustr list" where
  "add_candidates g [] globs = Ok globs"
| "add_candidates g (candidate # rest) globs =
     (if candidate \<in> set globs then add_candidates g rest globs
      else if \<not> glob_builds g candidate then Err (InvalidGlobPattern candidate)
      else add_candidates g rest (globs @ [candidate]))"

fun add_patterns :: "glob_library \<Rightarrow> global_wildcard \<Rightarrow> ustr list \<Rightarrow> ustr list \<Rightarrow> globset_error + ustr list" where
  "add_patterns g wildcard [] globs = Ok globs"
| "add_patterns g wildcard (pattern # rest) globs =
     (if wildcard = RejectWildcard \<and> is_global_wildcard_domain_pattern pattern then Err UnsupportedGlobalWildcard
      else case add_candidates g (expand_domain_pattern (normalize_pattern pattern)) globs of
             Inl e \<Rightarrow> Err e
           | Inr globs' \<Rightarrow> add_patterns g wildcard rest globs')"

definition compile_globset_with_policy :: "glob_library \<Rightarrow> ustr list \<Rightarrow> global_wildcard \<Rightarrow> globset_error + ustr list" where
  "compile_globset_with_policy g patterns wildcard =
     (case add_patterns g wildcard patterns [] of
        Inl e \<Rightarrow> Err e
      | Inr globs \<Rightarrow> if globset_builds g globs then Ok globs else Err GlobSetTooLarge)"

definition compile_allowlist_globset :: "glob_library \<Rightarrow> ustr list \<Rightarrow> globset_error + ustr list" where
  "compile_allowlist_globset g patterns = compile_globset_with_policy g patterns AllowWildcard"

definition compile_denylist_globset :: "glob_library \<Rightarrow> ustr list \<Rightarrow> globset_error + ustr list" where
  "compile_denylist_globset g patterns = compile_globset_with_policy g patterns RejectWildcard"

definition globset_is_match :: "glob_library \<Rightarrow> ustr list \<Rightarrow> ustr \<Rightarrow> bool" where
  "globset_is_match g globs host = list_ex (\<lambda>p. glob_matches g p host) globs"

section \<open>Domains\<close>

lemma lower_append [simp]: "to_ascii_lowercase (s @ t) = to_ascii_lowercase s @ to_ascii_lowercase t"
  by (simp add: to_ascii_lowercase_def)

lemma lower_Nil [simp]: "to_ascii_lowercase [] = []"
  by (simp add: to_ascii_lowercase_def)

lemma lower_eq_Nil [simp]: "to_ascii_lowercase s = [] \<longleftrightarrow> s = []"
  by (simp add: to_ascii_lowercase_def)

lemma lower_idem [simp]: "to_ascii_lowercase (to_ascii_lowercase s) = to_ascii_lowercase s"
  by (auto simp: to_ascii_lowercase_def)

lemma trim_end_matches_id: "s = [] \<or> last s \<noteq> c \<Longrightarrow> trim_end_matches c s = s"
  by (cases s rule: rev_cases) (auto simp: trim_end_matches_def)

lemma trim_end_matches_last: "trim_end_matches c s = [] \<or> last (trim_end_matches c s) \<noteq> c"
  by (induction s rule: rev_induct) (auto simp: trim_end_matches_def)

lemma trim_end_matches_prefix: "\<exists>w. s = trim_end_matches c s @ w"
proof -
  have "s = rev (takeWhile (\<lambda>x. x = c) (rev s) @ dropWhile (\<lambda>x. x = c) (rev s))" by simp
  also have "... = trim_end_matches c s @ rev (takeWhile (\<lambda>x. x = c) (rev s))"
    by (simp add: trim_end_matches_def del: takeWhile_dropWhile_id)
  finally show ?thesis by blast
qed

lemma last_lower: "s \<noteq> [] \<Longrightarrow> last (to_ascii_lowercase s) = 46 \<longleftrightarrow> last s = 46"
  by (cases s rule: rev_cases) (auto simp: to_ascii_lowercase_def)

lemma normalize_domain_last: "normalize_domain d = [] \<or> last (normalize_domain d) \<noteq> 46"
  using trim_end_matches_last [of 46 d] by (auto simp: normalize_domain_def last_lower)

text \<open>A name that is lower-case and does not end in a dot is its own normal form.\<close>

definition normal_domain :: "ustr \<Rightarrow> bool" where
  "normal_domain d \<longleftrightarrow> to_ascii_lowercase d = d \<and> (d = [] \<or> last d \<noteq> 46)"

lemma normal_domain_normalize [simp]: "normal_domain (normalize_domain d)"
  using normalize_domain_last [of d] by (simp add: normal_domain_def) (simp add: normalize_domain_def)

lemma normalize_normal [simp]: "normal_domain d \<Longrightarrow> normalize_domain d = d"
  by (simp add: normal_domain_def normalize_domain_def trim_end_matches_id)

lemma normal_domain_prefix: "normal_domain d \<Longrightarrow> d \<noteq> [] \<Longrightarrow> to_ascii_lowercase p = p \<Longrightarrow> normal_domain (p @ d)"
  by (auto simp: normal_domain_def)

text \<open>A name below another, as normal forms.\<close>

definition below :: "ustr \<Rightarrow> ustr \<Rightarrow> bool" where
  "below child parent \<longleftrightarrow> (\<exists>u. child = u @ 46 # parent)"

lemma below_trans: "below a b \<Longrightarrow> below b c \<Longrightarrow> below a c"
  by (fastforce simp: below_def)

lemma below_length: "below a b \<Longrightarrow> length b < length a"
  by (auto simp: below_def)

lemma below_irrefl [simp]: "\<not> below a a"
  using below_length [of a a] by auto

lemma below_label: "c \<noteq> 46 \<Longrightarrow> below (c # 46 # a) b \<longleftrightarrow> a = b \<or> below a b"
  by (auto simp: below_def Cons_eq_append_conv)

lemma subdomain_iff:
  "is_strict_subdomain child parent \<longleftrightarrow> below (normalize_domain child) (normalize_domain parent)"
  "is_subdomain_or_equal child parent \<longleftrightarrow>
     normalize_domain child = normalize_domain parent \<or> below (normalize_domain child) (normalize_domain parent)"
  by (auto simp: is_strict_subdomain_def is_subdomain_or_equal_def below_def ends_with_iff)

section \<open>Comparing patterns\<close>

fun covers :: "domain_pattern \<Rightarrow> ustr \<Rightarrow> bool" where
  "covers (ExactDomain d) host \<longleftrightarrow> normalize_domain host = normalize_domain d"
| "covers (SubdomainsOnly d) host \<longleftrightarrow> below (normalize_domain host) (normalize_domain d)"
| "covers (ApexAndSubdomains d) host \<longleftrightarrow>
     normalize_domain host = normalize_domain d \<or> below (normalize_domain host) (normalize_domain d)"

fun has_domain :: "domain_pattern \<Rightarrow> bool" where
  "has_domain (ExactDomain d) \<longleftrightarrow> True"
| "has_domain (SubdomainsOnly d) \<longleftrightarrow> normalize_domain d \<noteq> []"
| "has_domain (ApexAndSubdomains d) \<longleftrightarrow> normalize_domain d \<noteq> []"

lemma allows_covers: "pattern_allows p q \<Longrightarrow> covers q host \<Longrightarrow> covers p host"
  by (cases "(p, q)" rule: pattern_allows.cases) (auto simp: domain_eq_def subdomain_iff dest: below_trans)

lemma label_below:
  assumes "normalize_domain d \<noteq> []" "c \<in> {97, 98}"
  shows "normalize_domain (c # 46 # normalize_domain d) = c # 46 # normalize_domain d"
    and "covers (SubdomainsOnly d) (c # 46 # normalize_domain d)"
proof -
  have "normal_domain ([c, 46] @ normalize_domain d)"
    using assms by (intro normal_domain_prefix) (auto simp: to_ascii_lowercase_def)
  then show *: "normalize_domain (c # 46 # normalize_domain d) = c # 46 # normalize_domain d" by simp
  then show "covers (SubdomainsOnly d) (c # 46 # normalize_domain d)"
    by (auto simp: below_def intro: exI [of _ "[c]"])
qed

lemma covers_allows:
  assumes "has_domain q" and incl: "\<And>host. covers q host \<Longrightarrow> covers p host"
  shows "pattern_allows p q"
proof (cases q)
  case (ExactDomain d)
  with incl [of d] show ?thesis by (cases p) (auto simp: domain_eq_def subdomain_iff)
next
  case (SubdomainsOnly d)
  note label = label_below [of d]
  have *: "covers p (c # 46 # normalize_domain d)" if "c \<in> {97, 98}" for c
    using SubdomainsOnly assms(1) label(2) [OF _ that] incl by auto
  have two: "97 # z = y \<Longrightarrow> 98 # z = y \<Longrightarrow> False" for z y :: ustr by auto
  show ?thesis
    using *[of 97] * [of 98] SubdomainsOnly assms(1) label(1) [of 97] label(1) [of 98]
    by (cases p) (auto simp: subdomain_iff below_label dest: two)
next
  case (ApexAndSubdomains d)
  note label = label_below [of d]
  have apex: "covers p d" using ApexAndSubdomains incl by auto
  have *: "covers p (97 # 46 # normalize_domain d)"
    using ApexAndSubdomains assms(1) label(2) [of 97] incl by auto
  show ?thesis
    using apex * ApexAndSubdomains assms(1) label(1) [of 97]
    by (cases p) (auto simp: subdomain_iff below_label)
qed


text \<open>
  C27: The comparison of domain patterns is inclusion. A managed pattern allows a pattern of the configuration if and only if every host that the
  latter covers, the former covers too, where an exact pattern covers its own name up to case and trailing dots, \<open>*.d\<close>
  covers the names below \<open>d\<close>, and \<open>**.d\<close> covers \<open>d\<close> as well. The configured wildcard must have a domain at all.
\<close>

theorem pattern_allows_is_inclusion:
  assumes "has_domain candidate"
  shows "pattern_allows managed candidate \<longleftrightarrow> (\<forall>host. covers candidate host \<longrightarrow> covers managed host)"
  using allows_covers covers_allows [OF assms] by blast

theorem pattern_allows_is_inclusion_witness:
  "has_domain (SubdomainsOnly (lit ''api.example.com'')) \<and>
   pattern_allows (SubdomainsOnly (lit ''Example.com.'')) (SubdomainsOnly (lit ''api.example.com'')) \<and>
   covers (SubdomainsOnly (lit ''Example.com.'')) (lit ''v1.api.example.com'')"
proof -
  let ?c = "SubdomainsOnly (lit ''api.example.com'')" and ?m = "SubdomainsOnly (lit ''Example.com.'')"
  have dom: "has_domain ?c" by code_simp
  have allows: "pattern_allows ?m ?c" by code_simp
  have n: "normalize_domain (lit ''v1.api.example.com'') = lit ''v1'' @ 46 # normalize_domain (lit ''api.example.com'')"
    by code_simp
  have "covers ?c (lit ''v1.api.example.com'')"
    by (simp add: n below_def del: lit_Cons)
  then show ?thesis
    using dom allows pattern_allows_is_inclusion [OF dom, of ?m] by blast
qed

section \<open>Hosts in normal form\<close>

lemma lower_sub: "to_ascii_lowercase h = h \<Longrightarrow> h = a @ b \<Longrightarrow> to_ascii_lowercase a = a \<and> to_ascii_lowercase b = b"
  by (auto simp: to_ascii_lowercase_def append_eq_append_conv)

lemma split_once_str_Some: "split_once_str d s = Some (a, b) \<Longrightarrow> s = a @ d @ b"
proof -
  assume "split_once_str d s = Some (a, b)"
  then obtain i where i: "find_sub d s = Some i" "a = take i s" "b = drop (i + length d) s"
    by (auto simp: split_once_str_def)
  have "s = take i s @ take (length d) (drop i s) @ drop (length d) (drop i s)" by (metis append_take_drop_id)
  also have "take (length d) (drop i s) = d" using find_sub_Some [OF i(1)] by simp
  finally show ?thesis by (simp add: i(2,3) add.commute)
qed

lemma normal_domain_literal:
  assumes "normalize_ip_literal h = Some s" "normal_domain h"
  shows "normal_domain s"
proof (cases "parse_ip h = None")
  case True
  with assms(1) obtain d ip scope where d: "split_once_str d h = Some (ip, scope)" "s = ip @ 37 # scope"
    by (auto simp: normalize_ip_literal_def split: option.splits if_splits)
  note h = split_once_str_Some [OF d(1)]
  have "to_ascii_lowercase h = h" using assms(2) by (simp add: normal_domain_def)
  then have "to_ascii_lowercase ip = ip" "to_ascii_lowercase (d @ scope) = d @ scope"
    using lower_sub h by blast+
  then have low: "to_ascii_lowercase ip = ip" "to_ascii_lowercase scope = scope"
    using lower_sub by blast+
  moreover have "to_ascii_lowercase [37] = [37]" by (simp add: to_ascii_lowercase_def)
  ultimately have "to_ascii_lowercase s = s"
    using lower_append [of ip "[37] @ scope"] lower_append [of "[37]" scope] by (simp add: d(2))
  moreover have "last s \<noteq> 46"
    using assms(2) h by (cases "scope = []") (auto simp: normal_domain_def d(2))
  ultimately show ?thesis by (simp add: normal_domain_def)
next
  case False
  with assms show ?thesis by (simp add: normalize_ip_literal_def)
qed

lemma normal_domain_host: "normal_domain (normalize_host h)"
proof -
  have "normal_domain (trim_end_matches 46 (to_ascii_lowercase s))" for s
  proof -
    obtain w where "to_ascii_lowercase s = trim_end_matches 46 (to_ascii_lowercase s) @ w"
      using trim_end_matches_prefix by blast
    from lower_sub [OF lower_idem this] show ?thesis
      using trim_end_matches_last by (simp add: normal_domain_def)
  qed
  then have "normal_domain (normalize_dns_host_or_ip_literal s)" for s
    by (auto simp: normalize_dns_host_or_ip_literal_def Let_def dest: normal_domain_literal split: option.split)
  then show ?thesis by (simp add: normalize_host_def Let_def)
qed

section \<open>Ordinary entries\<close>

definition plain_char :: "uchar \<Rightarrow> bool" where
  "plain_char c \<longleftrightarrow> 48 \<le> c \<and> c \<le> 57 \<or> 65 \<le> c \<and> c \<le> 90 \<or> 97 \<le> c \<and> c \<le> 122 \<or> c \<in> {45, 46, 95}"

definition plain_domain :: "ustr \<Rightarrow> bool" where
  "plain_domain d \<longleftrightarrow> d \<noteq> [] \<and> last d \<noteq> 46 \<and> list_all plain_char d"

fun pattern_prefix :: "domain_pattern \<Rightarrow> ustr" where
  "pattern_prefix (ExactDomain d) = []"
| "pattern_prefix (SubdomainsOnly d) = lit ''*.''"
| "pattern_prefix (ApexAndSubdomains d) = lit ''**.''"

fun pattern_domain :: "domain_pattern \<Rightarrow> ustr" where
  "pattern_domain (ExactDomain d) = d"
| "pattern_domain (SubdomainsOnly d) = d"
| "pattern_domain (ApexAndSubdomains d) = d"

definition ordinary_entry :: "ustr \<Rightarrow> bool" where
  "ordinary_entry e \<longleftrightarrow>
     (let p = domain_pattern_parse e in plain_domain (pattern_domain p) \<and> e = pattern_prefix p @ pattern_domain p)"

text \<open>What a pattern without wildcards in its domain matches, ignoring case; a wildcard stands for at least one character.\<close>

fun pattern_matches_host :: "domain_pattern \<Rightarrow> ustr \<Rightarrow> bool" where
  "pattern_matches_host (ExactDomain d) h \<longleftrightarrow> to_ascii_lowercase h = to_ascii_lowercase d"
| "pattern_matches_host (SubdomainsOnly d) h \<longleftrightarrow>
     ends_with (46 # to_ascii_lowercase d) (to_ascii_lowercase h) \<and> length d + 1 < length h"
| "pattern_matches_host (ApexAndSubdomains d) h \<longleftrightarrow>
     to_ascii_lowercase h = to_ascii_lowercase d \<or>
     ends_with (46 # to_ascii_lowercase d) (to_ascii_lowercase h) \<and> length d + 1 < length h"

text \<open>
  What \<open>globset\<close> documents for the globs that the proxy builds from plain domains: a glob without special characters matches its own
  text, \<open>?\<close> one character and \<open>*\<close> any number of them.
\<close>

definition domain_globs :: "glob_library \<Rightarrow> bool" where
  "domain_globs g \<longleftrightarrow>
     (\<forall>d h. plain_domain d \<longrightarrow>
        (glob_matches g d h \<longleftrightarrow> pattern_matches_host (ExactDomain d) h) \<and>
        (glob_matches g (lit ''?*.'' @ d) h \<longleftrightarrow> pattern_matches_host (SubdomainsOnly d) h))"

lemma plain_char_facts:
  "plain_char c \<Longrightarrow> \<not> is_whitespace c \<and> c \<notin> {37, 42, 58, 63, 91, 93}"
  by (auto simp: plain_char_def is_whitespace_def)

lemma trim_no_whitespace: "\<forall>c\<in>set s. \<not> is_whitespace c \<Longrightarrow> trim s = s"
  by (cases "s = []") (simp_all add: trim_def trim_start_no_ws trim_end_no_ws)

lemma plain_trim: "plain_domain d \<Longrightarrow> trim d = d"
  using plain_char_facts by (intro trim_no_whitespace) (auto simp: plain_domain_def list_all_iff)

lemma plain_lower: "plain_domain d \<Longrightarrow> plain_domain (to_ascii_lowercase d)"
  unfolding plain_domain_def
proof (elim conjE, intro conjI)
  assume "list_all plain_char d"
  then show "list_all plain_char (to_ascii_lowercase d)"
    by (auto simp: list_all_iff to_ascii_lowercase_def plain_char_def)
qed (simp_all add: last_lower)

lemma find_sub_absent: "p \<noteq> [] \<Longrightarrow> hd p \<notin> set s \<Longrightarrow> find_sub p s = None"
  by (induction s) (auto simp: starts_with_iff neq_Nil_conv)

lemma normalize_plain:
  assumes "plain_domain d"
  shows "normalize_host d = to_ascii_lowercase d"
proof -
  have no: "c \<notin> set d" if "c \<in> {37, 58, 91, 93}" for c
    using assms that plain_char_facts by (auto simp: plain_domain_def list_all_iff)
  have "37 \<notin> set (to_ascii_lowercase d)" using no [of 37] by (auto simp: to_ascii_lowercase_def)
  then have "split_once_str (37 # s) (to_ascii_lowercase d) = None" for s
    by (simp add: split_once_str_def find_sub_absent)
  then have "(case normalize_ip_literal (to_ascii_lowercase d) of None \<Rightarrow> to_ascii_lowercase d | Some ip \<Rightarrow> ip) = to_ascii_lowercase d"
    by (simp add: normalize_ip_literal_def)
  moreover have "trim_end_matches 46 (to_ascii_lowercase d) = to_ascii_lowercase d"
    using plain_lower [OF assms] by (intro trim_end_matches_id) (simp add: plain_domain_def)
  moreover have "\<not> starts_with [91] d" "count_list d 58 = 0"
    using no [of 91] no [of 58] by (auto simp: starts_with_iff)
  ultimately show ?thesis
    using plain_trim [OF assms] by (simp add: normalize_host_def normalize_dns_host_or_ip_literal_def Let_def)
qed

fun map_domain :: "(ustr \<Rightarrow> ustr) \<Rightarrow> domain_pattern \<Rightarrow> domain_pattern" where
  "map_domain f (ExactDomain d) = ExactDomain (f d)"
| "map_domain f (SubdomainsOnly d) = SubdomainsOnly (f d)"
| "map_domain f (ApexAndSubdomains d) = ApexAndSubdomains (f d)"

lemma plain_facts:
  assumes "plain_domain d"
  shows "d \<noteq> []" "last d \<noteq> 46" "42 \<notin> set d" "63 \<notin> set d" "37 \<notin> set d" "hd d \<noteq> 91" "hd d \<noteq> 42"
  using assms plain_char_facts [of "hd d"] plain_char_facts [of 42] plain_char_facts [of 63] plain_char_facts [of 37]
  by (auto simp: plain_domain_def list_all_iff)

lemma strip_star: "plain_domain d \<Longrightarrow> strip_prefix (42 # s) d = None"
  using plain_facts(7) [of d] by (cases d) auto

lemma trim_prefixed: "plain_domain d \<Longrightarrow> trim (pattern_prefix p @ d) = pattern_prefix p @ d"
  using plain_char_facts
  by (intro trim_no_whitespace) (cases p; auto simp: is_whitespace_def plain_domain_def list_all_iff)

lemma parse_prefixed:
  assumes "plain_domain (pattern_domain p)"
  shows "domain_pattern_parse (pattern_prefix p @ pattern_domain p) = p"
  using trim_prefixed [OF assms, of p] plain_trim [OF assms] strip_star [OF assms] plain_facts(1) [OF assms]
  by (cases p) (simp_all add: domain_pattern_parse_def parse_domain_def)

lemma normalize_prefixed:
  assumes "plain_domain (pattern_domain p)"
  shows "normalize_pattern (pattern_prefix p @ pattern_domain p) = pattern_prefix p @ to_ascii_lowercase (pattern_domain p)"
proof -
  have "pattern_domain p \<noteq> [42]" using plain_facts(7) [OF assms] by auto
  then show ?thesis
    using trim_prefixed [OF assms, of p] normalize_plain [OF assms] strip_star [OF assms]
    by (cases p) (simp_all add: normalize_pattern_def)
qed

lemma constraint_prefixed:
  assumes "plain_domain (pattern_domain p)" "url_host (pattern_domain p) = Some u"
  shows "parse_for_constraints url_host (pattern_prefix p @ pattern_domain p) = map_domain (\<lambda>_. u) p"
proof -
  have "\<not> starts_with [91] (pattern_domain p)"
    using plain_facts(6) [OF assms(1)] by (auto simp: starts_with_iff)
  then have "parse_domain_for_constraints url_host (pattern_domain p) = u"
    using assms(2) plain_facts [OF assms(1)] plain_trim [OF assms(1)] trim_end_matches_id [of "pattern_domain p" 46]
    by (simp add: parse_domain_for_constraints_def Let_def)
  then show ?thesis
    using trim_prefixed [OF assms(1), of p] strip_star [OF assms(1)] plain_facts(1) [OF assms(1)]
    by (cases p) (simp_all add: parse_for_constraints_def)
qed


lemma ordinary_entryE:
  assumes "ordinary_entry e"
  obtains p where "domain_pattern_parse e = p" "plain_domain (pattern_domain p)" "e = pattern_prefix p @ pattern_domain p"
  using assms that [OF refl] unfolding ordinary_entry_def Let_def by blast

lemma map_domain_simps [simp]:
  "pattern_prefix (map_domain f p) = pattern_prefix p" "pattern_domain (map_domain f p) = f (pattern_domain p)"
  by (cases p; simp)+

lemma length_lower [simp]: "length (to_ascii_lowercase s) = length s"
  by (simp add: to_ascii_lowercase_def)

lemma matches_map_lower: "pattern_matches_host (map_domain to_ascii_lowercase p) h \<longleftrightarrow> pattern_matches_host p h"
  by (cases p) simp_all

lemma ordinary_glob_match:
  assumes "domain_globs g" "ordinary_entry e"
  shows "(\<exists>c\<in>set (expand_domain_pattern (normalize_pattern e)). glob_matches g c h) \<longleftrightarrow>
    pattern_matches_host (domain_pattern_parse e) h"
proof -
  from assms(2) obtain p where p: "domain_pattern_parse e = p" "plain_domain (pattern_domain p)"
      "e = pattern_prefix p @ pattern_domain p" by (rule ordinary_entryE)
  let ?q = "map_domain to_ascii_lowercase p"
  have plain: "plain_domain (pattern_domain ?q)" using plain_lower [OF p(2)] by simp
  have norm: "normalize_pattern e = pattern_prefix p @ to_ascii_lowercase (pattern_domain p)"
    using normalize_prefixed [OF p(2)] p(3) by simp
  have "domain_pattern_parse (normalize_pattern e) = ?q"
    using parse_prefixed [OF plain] norm by simp
  moreover have "glob_matches g (pattern_domain ?q) h \<longleftrightarrow> pattern_matches_host (ExactDomain (pattern_domain ?q)) h"
    "glob_matches g (lit ''?*.'' @ pattern_domain ?q) h \<longleftrightarrow> pattern_matches_host (SubdomainsOnly (pattern_domain ?q)) h"
    using assms(1) plain unfolding domain_globs_def by blast+
  ultimately have "(\<exists>c\<in>set (expand_domain_pattern (normalize_pattern e)). glob_matches g c h) \<longleftrightarrow> pattern_matches_host ?q h"
    by (cases p) (auto simp: expand_domain_pattern_def)
  then show ?thesis by (simp add: p(1) matches_map_lower)
qed

lemma add_candidates_set: "add_candidates g cs globs = Inr r \<Longrightarrow> set r = set globs \<union> set cs"
  by (induction g cs globs rule: add_candidates.induct) (auto split: if_splits)

lemma add_patterns_set:
  "add_patterns g w ps globs = Inr r \<Longrightarrow> set r = set globs \<union> (\<Union>p\<in>set ps. set (expand_domain_pattern (normalize_pattern p)))"
  by (induction g w ps globs rule: add_patterns.induct) (auto split: if_splits sum.splits dest!: add_candidates_set)

lemma compiled_globs_match:
  assumes "domain_globs g" "compile_globset_with_policy g patterns w = Ok globs" "list_all ordinary_entry patterns"
  shows "globset_is_match g globs h \<longleftrightarrow> list_ex (\<lambda>e. pattern_matches_host (domain_pattern_parse e) h) patterns"
proof -
  have "set globs = (\<Union>p\<in>set patterns. set (expand_domain_pattern (normalize_pattern p)))"
    using assms(2) add_patterns_set [of g w patterns "[]"]
    by (auto simp: compile_globset_with_policy_def split: sum.splits if_splits)
  then have "globset_is_match g globs h \<longleftrightarrow>
      (\<exists>e\<in>set patterns. \<exists>c\<in>set (expand_domain_pattern (normalize_pattern e)). glob_matches g c h)"
    by (auto simp: globset_is_match_def list_ex_iff)
  then show ?thesis
    using ordinary_glob_match [OF assms(1)] assms(3) by (auto simp: list_ex_iff list_all_iff)
qed

lemma plain_normal: "plain_domain d \<Longrightarrow> normalize_domain d = to_ascii_lowercase d"
  by (simp add: normalize_domain_def trim_end_matches_id plain_facts)

lemma matches_covers:
  assumes "ordinary_entry e" "pattern_matches_host (domain_pattern_parse e) h"
    and "url_host (pattern_domain (domain_pattern_parse e)) = Some u"
    and "normalize_domain u = normalize_domain (pattern_domain (domain_pattern_parse e))"
  shows "covers (parse_for_constraints url_host e) h"
proof -
  from assms(1) obtain p where p: "domain_pattern_parse e = p" "plain_domain (pattern_domain p)"
      "e = pattern_prefix p @ pattern_domain p" by (rule ordinary_entryE)
  let ?d = "to_ascii_lowercase (pattern_domain p)"
  have d: "?d \<noteq> []" "last ?d \<noteq> 46"
    using plain_facts(1,2) [OF plain_lower [OF p(2)]] by auto
  have norm: "normalize_domain h = to_ascii_lowercase h" if "to_ascii_lowercase h = t @ ?d" for t
  proof -
    have "last (to_ascii_lowercase h) \<noteq> 46" "h \<noteq> []" using that d by auto
    then show ?thesis by (simp add: normalize_domain_def trim_end_matches_id last_lower)
  qed
  have "normalize_domain u = ?d" using assms(4) plain_normal [OF p(2)] p(1) by simp
  moreover have "parse_for_constraints url_host e = map_domain (\<lambda>_. u) p"
    using constraint_prefixed [of p url_host u] p assms(3) by simp
  moreover have "normalize_domain h = ?d" if "to_ascii_lowercase h = ?d" using norm [of "[]"] that by simp
  moreover have "below (normalize_domain h) ?d" if "to_ascii_lowercase h = t @ 46 # ?d" for t
    using norm [of "t @ [46]"] that by (auto simp: below_def)
  ultimately show ?thesis
    using assms(2) p(1) by (cases p) (auto simp: ends_with_iff)
qed

end
