(* ===== verification/Mitm_Hooks.thy ===== *)
theory Mitm_Hooks
  imports Proxy_Config
begin

text \<open>
  \<open>network-proxy/src/mitm_hook.rs\<close>: hooks on requests that the proxy intercepts. A hook names a host and says which requests it
  matches and which headers are stripped and injected. Header names and values, globs and the decoding of query strings are those of
  third-party crates and are parameters; environment variables and secret files are read through resolvers, as in the source. Shown: a
  configuration that validates can only fail to compile for its secrets, and the index by host finds what a scan of
  the configured hooks finds.
\<close>

record hook_library =
  parse_header_name :: "ustr \<Rightarrow> ustr option"
  parse_header_value :: "ustr \<Rightarrow> ustr option"
  hook_glob_builds :: "bool \<Rightarrow> ustr \<Rightarrow> bool"
  hook_glob_matches :: "bool \<Rightarrow> ustr \<Rightarrow> ustr \<Rightarrow> bool"
  parse_form :: "ustr \<Rightarrow> (ustr \<times> ustr) list"
  hook_path_env :: path_env

datatype secret_source = EnvVar ustr | SecretFile path

record resolved_injected_header =
  injected_name :: ustr
  injected_value :: ustr
  injected_source :: secret_source

record mitm_hook_actions =
  strip_headers :: "ustr list"
  inject_headers :: "resolved_injected_header list"

text \<open>The flag of a glob is its \<open>literal_separator\<close>: set for paths.\<close>

datatype path_matcher = PathPrefix ustr | PathGlob ustr

datatype value_matcher = ExactValue ustr | ValueGlob ustr

record mitm_hook =
  compiled_host :: ustr
  compiled_methods :: "ustr list"
  compiled_paths :: "path_matcher list"
  compiled_query :: "(ustr \<times> value_matcher list) list"
  compiled_headers :: "(ustr \<times> value_matcher list) list"
  compiled_actions :: mitm_hook_actions

datatype hook_error =
    HooksRequireMitm
  | EmptyHookHost | WildcardHookHost | EmptyMethod | NoMethods | EmptyPathPrefix | NoPathPrefixes | EmptyGlob | InvalidGlob ustr
  | BodyMatcherUnsupported | EmptyQueryKey | QueryWithoutValues ustr | InvalidHeaderName ustr
  | EmptySecretEnvVar | EmptySecretFile | RelativeSecretFile ustr | UnusableSecretFile ustr | SecretSourceMissing
  | MissingEnvVar ustr | UnreadableSecretFile ustr | InvalidHeaderValue ustr

section \<open>Matchers\<close>

datatype matcher_pattern = LiteralPattern ustr | GlobPattern ustr

definition parse_matcher_pattern :: "ustr \<Rightarrow> hook_error + matcher_pattern" where
  "parse_matcher_pattern pattern =
     (case strip_prefix (lit ''literal:'') pattern of
        Some literal \<Rightarrow> Ok (LiteralPattern literal)
      | None \<Rightarrow>
          (case strip_prefix (lit ''pattern:'') pattern of
             None \<Rightarrow> Ok (LiteralPattern pattern)
           | Some glob \<Rightarrow> if glob = [] then Err EmptyGlob else Ok (GlobPattern glob)))"

definition compile_path_matcher :: "hook_library \<Rightarrow> ustr \<Rightarrow> hook_error + path_matcher" where
  "compile_path_matcher lib entry =
     (case parse_matcher_pattern entry of
        Inl e \<Rightarrow> Err e
      | Inr (LiteralPattern p) \<Rightarrow> if p = [] then Err EmptyPathPrefix else Ok (PathPrefix p)
      | Inr (GlobPattern p) \<Rightarrow> if hook_glob_builds lib True p then Ok (PathGlob p) else Err (InvalidGlob p))"

definition compile_path_matchers :: "hook_library \<Rightarrow> ustr list \<Rightarrow> hook_error + path_matcher list" where
  "compile_path_matchers lib entries = collect_results (compile_path_matcher lib) entries"

definition compile_value_matcher :: "hook_library \<Rightarrow> ustr \<Rightarrow> hook_error + value_matcher" where
  "compile_value_matcher lib entry =
     (case parse_matcher_pattern entry of
        Inl e \<Rightarrow> Err e
      | Inr (LiteralPattern p) \<Rightarrow> Ok (ExactValue p)
      | Inr (GlobPattern p) \<Rightarrow> if hook_glob_builds lib False p then Ok (ValueGlob p) else Err (InvalidGlob p))"

definition compile_value_matchers :: "hook_library \<Rightarrow> ustr list \<Rightarrow> hook_error + value_matcher list" where
  "compile_value_matchers lib entries = collect_results (compile_value_matcher lib) entries"

fun path_matcher_matches :: "hook_library \<Rightarrow> path_matcher \<Rightarrow> ustr \<Rightarrow> bool" where
  "path_matcher_matches lib (PathPrefix p) candidate = starts_with p candidate"
| "path_matcher_matches lib (PathGlob p) candidate = hook_glob_matches lib True p candidate"

fun value_matcher_matches :: "hook_library \<Rightarrow> value_matcher \<Rightarrow> ustr \<Rightarrow> bool" where
  "value_matcher_matches lib (ExactValue v) candidate \<longleftrightarrow> v = candidate"
| "value_matcher_matches lib (ValueGlob p) candidate = hook_glob_matches lib False p candidate"

section \<open>Validation\<close>

definition to_ascii_uppercase :: "ustr \<Rightarrow> ustr" where
  "to_ascii_uppercase s = map (\<lambda>c. if 97 \<le> c \<and> c \<le> 122 then c - 32 else c) s"

definition normalize_hook_host :: "ustr \<Rightarrow> hook_error + ustr" where
  "normalize_hook_host host =
     (let normalized = normalize_host host
      in if normalized = [] then Err EmptyHookHost
         else if 42 \<in> set normalized then Err WildcardHookHost
         else Ok normalized)"

definition normalize_methods :: "ustr list \<Rightarrow> hook_error + ustr list" where
  "normalize_methods methods =
     collect_results (\<lambda>m. let normalized = to_ascii_uppercase (trim m)
                          in if normalized = [] then Err EmptyMethod else Ok normalized) methods"

definition header_name_of :: "hook_library \<Rightarrow> ustr \<Rightarrow> hook_error + ustr" where
  "header_name_of lib name = (case parse_header_name lib name of Some n \<Rightarrow> Ok n | None \<Rightarrow> Err (InvalidHeaderName name))"

definition normalize_query_name :: "ustr \<Rightarrow> hook_error + ustr" where
  "normalize_query_name name = (if name = [] then Err EmptyQueryKey else Ok name)"

definition parse_secret_file :: "hook_library \<Rightarrow> ustr \<Rightarrow> hook_error + path" where
  "parse_secret_file lib p =
     (if trim p = [] then Err EmptySecretFile
      else if \<not> path_is_absolute (path_components p) then Err (RelativeSecretFile p)
      else case from_absolute_path (hook_path_env lib) p of Inr q \<Rightarrow> Ok q | Inl _ \<Rightarrow> Err (UnusableSecretFile p))"

definition validate_query_constraints :: "hook_library \<Rightarrow> (ustr \<times> ustr list) list \<Rightarrow> hook_error + unit" where
  "validate_query_constraints lib query =
     first_error (concat (map (\<lambda>(name, values).
       [checked (normalize_query_name name), ensure (values \<noteq> []) (QueryWithoutValues name),
        checked (compile_value_matchers lib values)]) query))"

definition validate_header_constraints :: "hook_library \<Rightarrow> (ustr \<times> ustr list) list \<Rightarrow> hook_error + unit" where
  "validate_header_constraints lib headers =
     first_error (concat (map (\<lambda>(name, values).
       [checked (header_name_of lib name), checked (compile_value_matchers lib values)]) headers))"

definition validate_strip_request_headers :: "hook_library \<Rightarrow> ustr list \<Rightarrow> hook_error + unit" where
  "validate_strip_request_headers lib names = first_error (map (\<lambda>n. checked (header_name_of lib n)) names)"

definition validate_injected_header :: "hook_library \<Rightarrow> injected_header_config \<Rightarrow> hook_error + unit" where
  "validate_injected_header lib header =
     first_error
       [checked (header_name_of lib (header_name header)),
        (case (secret_env_var header, secret_file header) of
           (Some var, None) \<Rightarrow> ensure (trim var \<noteq> []) EmptySecretEnvVar
         | (None, Some file) \<Rightarrow> checked (parse_secret_file lib file)
         | _ \<Rightarrow> Err SecretSourceMissing)]"

definition validate_injected_headers :: "hook_library \<Rightarrow> injected_header_config list \<Rightarrow> hook_error + unit" where
  "validate_injected_headers lib headers = first_error (map (validate_injected_header lib) headers)"

definition validate_hook :: "hook_library \<Rightarrow> 'j mitm_hook_config \<Rightarrow> hook_error + unit" where
  "validate_hook lib hook =
     first_error
       [checked (normalize_hook_host (hook_host hook)),
        checked (normalize_methods (match_methods (hook_matcher hook))),
        ensure (match_methods (hook_matcher hook) \<noteq> []) NoMethods,
        checked (compile_path_matchers lib (match_path_prefixes (hook_matcher hook))),
        ensure (match_path_prefixes (hook_matcher hook) \<noteq> []) NoPathPrefixes,
        ensure (match_body (hook_matcher hook) = None) BodyMatcherUnsupported,
        validate_query_constraints lib (match_query (hook_matcher hook)),
        validate_header_constraints lib (match_headers (hook_matcher hook)),
        validate_strip_request_headers lib (strip_request_headers (hook_actions_config hook)),
        validate_injected_headers lib (inject_request_headers (hook_actions_config hook))]"

text \<open>Errors carry the index of their hook.\<close>

fun validate_hooks_from :: "hook_library \<Rightarrow> nat \<Rightarrow> 'j mitm_hook_config list \<Rightarrow> (nat option \<times> hook_error) + unit" where
  "validate_hooks_from lib index [] = Ok ()"
| "validate_hooks_from lib index (hook # rest) =
     (case validate_hook lib hook of
        Inl e \<Rightarrow> Err (Some index, e)
      | Inr _ \<Rightarrow> validate_hooks_from lib (Suc index) rest)"

definition validate_mitm_hook_config :: "hook_library \<Rightarrow> 'j network_proxy_config \<Rightarrow> (nat option \<times> hook_error) + unit" where
  "validate_mitm_hook_config lib cfg =
     (if mitm_hooks cfg = [] then Ok ()
      else if \<not> mitm cfg then Err (None, HooksRequireMitm)
      else validate_hooks_from lib 0 (mitm_hooks cfg))"

section \<open>Compilation\<close>

text \<open>The resolvers of secrets: environment variables, and files with their trimmed contents.\<close>

record secret_resolvers =
  resolve_env_var :: "ustr \<Rightarrow> ustr option"
  read_secret_file :: "path \<Rightarrow> ustr option"

definition compile_injected_header ::
  "hook_library \<Rightarrow> secret_resolvers \<Rightarrow> injected_header_config \<Rightarrow> hook_error + resolved_injected_header" where
  "compile_injected_header lib secrets header =
     (case header_name_of lib (header_name header) of
        Inl e \<Rightarrow> Err e
      | Inr name \<Rightarrow>
          (case (case (secret_env_var header, secret_file header) of
                   (Some var, None) \<Rightarrow>
                     (case resolve_env_var secrets var of
                        None \<Rightarrow> Err (MissingEnvVar var)
                      | Some v \<Rightarrow> Ok (v, EnvVar var))
                 | (None, Some file) \<Rightarrow>
                     (case parse_secret_file lib file of
                        Inl e \<Rightarrow> Err e
                      | Inr p \<Rightarrow>
                          (case read_secret_file secrets p of
                             None \<Rightarrow> Err (UnreadableSecretFile file)
                           | Some v \<Rightarrow> Ok (v, SecretFile p)))
                 | _ \<Rightarrow> Err SecretSourceMissing) of
             Inl e \<Rightarrow> Err e
           | Inr (secret, source) \<Rightarrow>
               (case parse_header_value lib ((case header_prefix header of Some p \<Rightarrow> p | None \<Rightarrow> []) @ secret) of
                  None \<Rightarrow> Err (InvalidHeaderValue (header_name header))
                | Some v \<Rightarrow> Ok \<lparr>injected_name = name, injected_value = v, injected_source = source\<rparr>)))"

definition compile_constraint ::
  "hook_library \<Rightarrow> (ustr \<Rightarrow> hook_error + ustr) \<Rightarrow> ustr \<times> ustr list \<Rightarrow> hook_error + ustr \<times> value_matcher list" where
  "compile_constraint lib name_of c =
     (case name_of (fst c) of
        Inl e \<Rightarrow> Err e
      | Inr name \<Rightarrow> (case compile_value_matchers lib (snd c) of Inl e \<Rightarrow> Err e | Inr vs \<Rightarrow> Ok (name, vs)))"

definition compile_hook :: "hook_library \<Rightarrow> secret_resolvers \<Rightarrow> 'j mitm_hook_config \<Rightarrow> hook_error + mitm_hook" where
  "compile_hook lib secrets hook =
     (case normalize_hook_host (hook_host hook) of Inl e \<Rightarrow> Err e | Inr host \<Rightarrow>
      case normalize_methods (match_methods (hook_matcher hook)) of Inl e \<Rightarrow> Err e | Inr methods \<Rightarrow>
      case compile_path_matchers lib (match_path_prefixes (hook_matcher hook)) of Inl e \<Rightarrow> Err e | Inr paths \<Rightarrow>
      case collect_results (compile_constraint lib normalize_query_name) (match_query (hook_matcher hook)) of
        Inl e \<Rightarrow> Err e | Inr query \<Rightarrow>
      case collect_results (compile_constraint lib (header_name_of lib)) (match_headers (hook_matcher hook)) of
        Inl e \<Rightarrow> Err e | Inr headers \<Rightarrow>
      case collect_results (header_name_of lib) (strip_request_headers (hook_actions_config hook)) of
        Inl e \<Rightarrow> Err e | Inr strip \<Rightarrow>
      case collect_results (compile_injected_header lib secrets) (inject_request_headers (hook_actions_config hook)) of
        Inl e \<Rightarrow> Err e | Inr inject \<Rightarrow>
        Ok \<lparr>compiled_host = host, compiled_methods = methods, compiled_paths = paths, compiled_query = query,
            compiled_headers = headers, compiled_actions = \<lparr>strip_headers = strip, inject_headers = inject\<rparr>\<rparr>)"

text \<open>\<open>MitmHooksByHost\<close> is only looked up.\<close>

type_synonym mitm_hooks_by_host = "ustr \<rightharpoonup> mitm_hook list"

definition push_hook :: "mitm_hook \<Rightarrow> mitm_hooks_by_host \<Rightarrow> mitm_hooks_by_host" where
  "push_hook hook m = m(compiled_host hook \<mapsto> (case m (compiled_host hook) of Some hs \<Rightarrow> hs | None \<Rightarrow> []) @ [hook])"

fun compile_hooks_into ::
  "hook_library \<Rightarrow> secret_resolvers \<Rightarrow> 'j mitm_hook_config list \<Rightarrow> mitm_hooks_by_host \<Rightarrow> (nat option \<times> hook_error) + mitm_hooks_by_host" where
  "compile_hooks_into lib secrets [] m = Ok m"
| "compile_hooks_into lib secrets (hook # rest) m =
     (case compile_hook lib secrets hook of
        Inl e \<Rightarrow> Err (None, e)
      | Inr compiled \<Rightarrow> compile_hooks_into lib secrets rest (push_hook compiled m))"

definition compile_mitm_hooks_with_resolvers ::
  "hook_library \<Rightarrow> secret_resolvers \<Rightarrow> 'j network_proxy_config \<Rightarrow> (nat option \<times> hook_error) + mitm_hooks_by_host" where
  "compile_mitm_hooks_with_resolvers lib secrets cfg =
     (case validate_mitm_hook_config lib cfg of
        Inl e \<Rightarrow> Err e
      | Inr _ \<Rightarrow> compile_hooks_into lib secrets (mitm_hooks cfg) Map.empty)"

section \<open>Evaluation\<close>

text \<open>What the hooks see of a request; a header value that is not text is \<open>None\<close>.\<close>

record hook_request =
  request_method :: ustr
  request_path :: ustr
  request_query :: "ustr option"
  request_headers :: "(ustr \<times> ustr option) list"

definition path_matches :: "hook_library \<Rightarrow> path_matcher list \<Rightarrow> ustr \<Rightarrow> bool" where
  "path_matches lib matchers p = list_ex (\<lambda>m. path_matcher_matches lib m p) matchers"

definition values_of :: "ustr \<Rightarrow> (ustr \<times> 'v) list \<Rightarrow> 'v list" where
  "values_of name pairs = map snd (filter (\<lambda>(n, _). n = name) pairs)"

definition query_matches :: "hook_library \<Rightarrow> (ustr \<times> value_matcher list) list \<Rightarrow> hook_request \<Rightarrow> bool" where
  "query_matches lib constraints req \<longleftrightarrow>
     constraints = [] \<or>
     (let pairs = parse_form lib (case request_query req of Some q \<Rightarrow> q | None \<Rightarrow> [])
      in list_all (\<lambda>(name, allowed).
           list_ex (\<lambda>candidate. list_ex (\<lambda>m. value_matcher_matches lib m candidate) allowed) (values_of name pairs)) constraints)"

definition headers_match :: "hook_library \<Rightarrow> (ustr \<times> value_matcher list) list \<Rightarrow> hook_request \<Rightarrow> bool" where
  "headers_match lib constraints req =
     list_all (\<lambda>(name, allowed).
       (let actual = values_of name (request_headers req)
        in actual \<noteq> [] \<and>
           (allowed = [] \<or>
            list_ex (\<lambda>v. case v of Some candidate \<Rightarrow> list_ex (\<lambda>m. value_matcher_matches lib m candidate) allowed | None \<Rightarrow> False)
              actual))) constraints"

definition hook_matches :: "hook_library \<Rightarrow> mitm_hook \<Rightarrow> hook_request \<Rightarrow> bool" where
  "hook_matches lib hook req \<longleftrightarrow>
     to_ascii_uppercase (request_method req) \<in> set (compiled_methods hook) \<and>
     path_matches lib (compiled_paths hook) (request_path req) \<and>
     query_matches lib (compiled_query hook) req \<and>
     headers_match lib (compiled_headers hook) req"

datatype hook_evaluation = NoHooksForHost | MatchedHook mitm_hook_actions | HookedHostNoMatch

definition evaluate_mitm_hooks :: "hook_library \<Rightarrow> mitm_hooks_by_host \<Rightarrow> ustr \<Rightarrow> hook_request \<Rightarrow> hook_evaluation" where
  "evaluate_mitm_hooks lib hooks_by_host host req =
     (case hooks_by_host (normalize_host host) of
        None \<Rightarrow> NoHooksForHost
      | Some hooks \<Rightarrow>
          (case find (\<lambda>h. hook_matches lib h req) hooks of
             Some h \<Rightarrow> MatchedHook (compiled_actions h)
           | None \<Rightarrow> HookedHostNoMatch))"

section \<open>Validated hooks compile\<close>

definition secret_error :: "hook_error \<Rightarrow> bool" where
  "secret_error e \<longleftrightarrow> (case e of MissingEnvVar _ \<Rightarrow> True | UnreadableSecretFile _ \<Rightarrow> True | InvalidHeaderValue _ \<Rightarrow> True | _ \<Rightarrow> False)"

lemma collect_results_total: "\<forall>x\<in>set xs. \<exists>y. f x = Inr y \<Longrightarrow> \<exists>ys. collect_results f xs = Inr ys"
  by (induction xs) auto

lemma collect_results_Err: "collect_results f xs = Inl e \<Longrightarrow> \<exists>x\<in>set xs. f x = Inl e"
  by (induction xs) (auto split: sum.splits)

lemma validated_constraints:
  assumes "list_all (\<lambda>r. r = Inr ()) (concat (map (\<lambda>(name, values). [checked (name_of name)] @ mid name values @ [checked (compile_value_matchers lib values)]) cs))"
  shows "\<exists>ys. collect_results (compile_constraint lib name_of) cs = Inr ys"
  using assms by (induction cs) (auto simp: compile_constraint_def)

lemma injected_error:
  assumes "validate_injected_header lib header = Inr ()" "compile_injected_header lib secrets header = Inl e"
  shows "secret_error e"
  using assms
  by (auto simp: validate_injected_header_def compile_injected_header_def secret_error_def split: option.splits sum.splits prod.splits)

lemma compile_validated_hook:
  assumes "validate_hook lib hook = Inr ()"
  shows "case collect_results (compile_injected_header lib secrets) (inject_request_headers (hook_actions_config hook)) of
       Inl e \<Rightarrow> compile_hook lib secrets hook = Inl e \<and> secret_error e
     | Inr inject \<Rightarrow> \<exists>c. compile_hook lib secrets hook = Inr c \<and> compiled_host c = normalize_host (hook_host hook)"
proof -
  let ?m = "hook_matcher hook" and ?a = "hook_actions_config hook"
  have host: "normalize_hook_host (hook_host hook) = Inr (normalize_host (hook_host hook))"
    using assms by (auto simp: validate_hook_def normalize_hook_host_def Let_def split: if_splits)
  obtain methods paths where simple: "normalize_methods (match_methods ?m) = Inr methods"
      "compile_path_matchers lib (match_path_prefixes ?m) = Inr paths"
    using assms by (auto simp: validate_hook_def)
  obtain query where query: "collect_results (compile_constraint lib normalize_query_name) (match_query ?m) = Inr query"
    using assms validated_constraints [of normalize_query_name "\<lambda>name values. [ensure (values \<noteq> []) (QueryWithoutValues name)]" lib "match_query ?m"]
    by (auto simp: validate_hook_def validate_query_constraints_def)
  obtain headers where headers: "collect_results (compile_constraint lib (header_name_of lib)) (match_headers ?m) = Inr headers"
    using assms validated_constraints [of "header_name_of lib" "\<lambda>_ _. []" lib "match_headers ?m"]
    by (auto simp: validate_hook_def validate_header_constraints_def)
  obtain strip where strip: "collect_results (header_name_of lib) (strip_request_headers ?a) = Inr strip"
    using assms collect_results_total [of "strip_request_headers ?a" "header_name_of lib"]
    by (auto simp: validate_hook_def validate_strip_request_headers_def list_all_iff)
  have inject: "\<forall>h\<in>set (inject_request_headers ?a). validate_injected_header lib h = Inr ()"
    using assms by (simp add: validate_hook_def validate_injected_headers_def list_all_iff)
  show ?thesis
  proof (cases "collect_results (compile_injected_header lib secrets) (inject_request_headers ?a)")
    case (Inl e)
    with collect_results_Err [OF Inl] inject injected_error show ?thesis
      by (auto simp: compile_hook_def host simple query headers strip)
  next
    case (Inr inject)
    then show ?thesis by (simp add: compile_hook_def host simple query headers strip)
  qed
qed

lemma validate_hooks_from_Ok: "validate_hooks_from lib i hooks = Inr u \<longleftrightarrow> list_all (\<lambda>h. validate_hook lib h = Inr ()) hooks"
  by (induction lib i hooks rule: validate_hooks_from.induct) (auto split: sum.splits)

lemma validated_hooks: "validate_mitm_hook_config lib cfg = Inr u \<Longrightarrow> \<forall>h\<in>set (mitm_hooks cfg). validate_hook lib h = Inr ()"
  by (auto simp: validate_mitm_hook_config_def validate_hooks_from_Ok list_all_iff split: if_splits)

definition secrets_resolve :: "hook_library \<Rightarrow> secret_resolvers \<Rightarrow> 'j mitm_hook_config \<Rightarrow> bool" where
  "secrets_resolve lib secrets hook =
     list_all (\<lambda>h. \<not> isl (compile_injected_header lib secrets h)) (inject_request_headers (hook_actions_config hook))"

lemma secrets_resolve_iff:
  "secrets_resolve lib secrets hook \<longleftrightarrow>
     (\<exists>ys. collect_results (compile_injected_header lib secrets) (inject_request_headers (hook_actions_config hook)) = Inr ys)"
proof -
  have "list_all (\<lambda>h. \<not> isl (f h)) hs \<longleftrightarrow> (\<exists>ys. collect_results f hs = Inr ys)" for f :: "injected_header_config \<Rightarrow> hook_error + resolved_injected_header" and hs
    by (induction hs) (auto split: sum.splits)
  then show ?thesis by (simp add: secrets_resolve_def)
qed

lemma compile_hooks_into_cases:
  assumes "\<forall>h\<in>set hooks. validate_hook lib h = Inr ()"
  shows "(\<exists>m'. compile_hooks_into lib secrets hooks m = Inr m') \<and> list_all (secrets_resolve lib secrets) hooks \<or>
    (\<exists>e. compile_hooks_into lib secrets hooks m = Inl (None, e) \<and> secret_error e) \<and> \<not> list_all (secrets_resolve lib secrets) hooks"
  using assms
proof (induction hooks arbitrary: m)
  case (Cons hook hooks)
  have "validate_hook lib hook = Inr ()" using Cons.prems by simp
  note hook = compile_validated_hook [OF this, of secrets]
  show ?case
  proof (cases "collect_results (compile_injected_header lib secrets) (inject_request_headers (hook_actions_config hook))")
    case (Inl e)
    with hook show ?thesis by (simp add: secrets_resolve_iff)
  next
    case (Inr inject)
    with hook obtain c where "compile_hook lib secrets hook = Inr c" by auto
    moreover have "secrets_resolve lib secrets hook" using Inr by (simp add: secrets_resolve_iff)
    ultimately show ?thesis using Cons.IH [of "push_hook c m"] Cons.prems by simp
  qed
qed simp

text \<open>
  C37: Only secrets can fail after validation. For a configuration whose hooks validate, compiling succeeds exactly if every secret that a hook
  injects can be read and is a valid header value; otherwise the error is one about secrets, never about the shape of a hook.
\<close>

theorem validated_hooks_fail_only_for_secrets:
  assumes "validate_mitm_hook_config lib cfg = Ok ()"
  shows "(\<not> isl (compile_mitm_hooks_with_resolvers lib secrets cfg) \<longleftrightarrow> list_all (secrets_resolve lib secrets) (mitm_hooks cfg)) \<and>
    (\<forall>i e. compile_mitm_hooks_with_resolvers lib secrets cfg = Err (i, e) \<longrightarrow> secret_error e)"
  using compile_hooks_into_cases [OF validated_hooks [OF assms], of secrets Map.empty] assms
  by (auto simp: compile_mitm_hooks_with_resolvers_def)

text \<open>A hook that strips a header from requests to one host and injects a secret from the environment.\<close>

definition example_library :: hook_library where
  "example_library =
     \<lparr>parse_header_name = Some, parse_header_value = Some, hook_glob_builds = (\<lambda>_ _. True), hook_glob_matches = (\<lambda>_ _ _. False),
      parse_form = (\<lambda>_. []), hook_path_env = \<lparr>home_dir = None, current_dir = Ok [RootDir]\<rparr>\<rparr>"

definition example_hook :: "unit mitm_hook_config" where
  "example_hook =
     \<lparr>hook_host = lit ''host'',
      hook_matcher = \<lparr>match_methods = [lit ''get''], match_path_prefixes = [lit ''/''], match_query = [], match_headers = [], match_body = None\<rparr>,
      hook_actions_config =
        \<lparr>strip_request_headers = [lit ''cookie''],
         inject_request_headers = [\<lparr>header_name = lit ''authorization'', secret_env_var = Some (lit ''TOKEN''), secret_file = None, header_prefix = None\<rparr>]\<rparr>\<rparr>"

definition example_hook_config :: "unit network_proxy_config" where
  "example_hook_config = default_config\<lparr>mitm := True, mitm_hooks := [example_hook]\<rparr>"

lemma normalize_example_host: "normalize_host (lit ''host'') = lit ''host''"
  by (subst normalize_plain) (simp_all add: plain_domain_def plain_char_def to_ascii_lowercase_def)

lemma trim_example: "trim (lit ''TOKEN'') = lit ''TOKEN''" "trim (lit ''get'') = lit ''get''"
  by (rule trim_no_whitespace, simp add: is_whitespace_def)+

lemma example_hooks_validate: "validate_mitm_hook_config example_library example_hook_config = Ok ()"
proof -
  have "compile_path_matchers example_library [lit ''/''] = Ok [PathPrefix (lit ''/'')]"
    by (simp add: compile_path_matchers_def compile_path_matcher_def parse_matcher_pattern_def)
  moreover have "normalize_methods [lit ''get''] = Ok [lit ''GET'']"
    by (simp add: normalize_methods_def trim_example [simplified] to_ascii_uppercase_def)
  moreover have "normalize_hook_host (lit ''host'') = Ok (lit ''host'')"
    by (simp add: normalize_hook_host_def normalize_example_host [simplified])
  ultimately have "validate_hook example_library example_hook = Ok ()"
    by (simp add: validate_hook_def example_hook_def validate_query_constraints_def validate_header_constraints_def
        validate_strip_request_headers_def validate_injected_headers_def validate_injected_header_def header_name_of_def
        trim_example example_library_def del: lit_Cons) (simp)
  then show ?thesis
    by (simp add: validate_mitm_hook_config_def example_hook_config_def)
qed

theorem validated_hooks_fail_only_for_secrets_witness:
  "compile_mitm_hooks_with_resolvers example_library \<lparr>resolve_env_var = (\<lambda>_. None), read_secret_file = (\<lambda>_. None)\<rparr> example_hook_config \<in>
     {Err (i, e) | i e. secret_error e}"
proof -
  let ?secrets = "\<lparr>resolve_env_var = (\<lambda>_. None), read_secret_file = (\<lambda>_. None)\<rparr>"
  note claim = validated_hooks_fail_only_for_secrets [OF example_hooks_validate, of ?secrets]
  have "\<not> secrets_resolve example_library ?secrets example_hook"
    by (simp add: secrets_resolve_def example_hook_def compile_injected_header_def header_name_of_def example_library_def)
  then have "isl (compile_mitm_hooks_with_resolvers example_library ?secrets example_hook_config)"
    using claim by (auto simp: example_hook_config_def)
  then show ?thesis using claim by (auto simp: isl_def)
qed

section \<open>The index by host\<close>

definition compiled_hooks :: "hook_library \<Rightarrow> secret_resolvers \<Rightarrow> 'j mitm_hook_config list \<Rightarrow> mitm_hook list" where
  "compiled_hooks lib secrets hooks =
     List.map_filter (\<lambda>h. case compile_hook lib secrets h of Inr c \<Rightarrow> Some c | Inl _ \<Rightarrow> None) hooks"

lemma compile_hooks_into_lookup:
  "compile_hooks_into lib secrets hooks m = Inr m' \<Longrightarrow>
   m' host = (case filter (\<lambda>h. compiled_host h = host) (compiled_hooks lib secrets hooks) of
      [] \<Rightarrow> m host | hs \<Rightarrow> Some ((case m host of Some old \<Rightarrow> old | None \<Rightarrow> []) @ hs))"
proof (induction hooks arbitrary: m)
  case Nil
  then show ?case by (simp add: compiled_hooks_def List.map_filter_simps)
next
  case (Cons hook hooks)
  then obtain c where c: "compile_hook lib secrets hook = Inr c" "compile_hooks_into lib secrets hooks (push_hook c m) = Inr m'"
    by (auto split: sum.splits)
  from Cons.IH [OF c(2)] show ?case
    by (auto simp: compiled_hooks_def List.map_filter_simps c(1) push_hook_def split: list.splits option.splits)
qed

lemma compiled_for_host:
  assumes "\<forall>h\<in>set hooks. \<exists>c. compile_hook lib secrets h = Inr c \<and> compiled_host c = normalize_host (hook_host h)"
  shows "filter (\<lambda>c. compiled_host c = host) (compiled_hooks lib secrets hooks) =
    compiled_hooks lib secrets (filter (\<lambda>h. normalize_host (hook_host h) = host) hooks)"
  using assms by (induction hooks) (auto simp: compiled_hooks_def List.map_filter_simps)

lemma compile_hook_host: "compile_hook lib secrets h = Inr c \<Longrightarrow> compiled_host c = normalize_host (hook_host h)"
  by (auto simp: compile_hook_def normalize_hook_host_def Let_def split: sum.splits if_splits)

lemma compile_hooks_into_all:
  "compile_hooks_into lib secrets hooks m = Inr m' \<Longrightarrow> \<forall>h\<in>set hooks. \<exists>c. compile_hook lib secrets h = Inr c"
  by (induction hooks arbitrary: m) (auto split: sum.splits)

text \<open>
  The index by host finds what a scan finds. Once the hooks of a configuration are compiled, a request to a host is judged by the configured hooks
  for that host, in the order of the configuration: without any, it has no hooks; otherwise the first that matches
  gives the actions, and if none matches the request is not covered.
\<close>

theorem hook_index_equals_scan:
  assumes "compile_mitm_hooks_with_resolvers lib secrets cfg = Ok hooks_by_host"
    and "hooks = compiled_hooks lib secrets (filter (\<lambda>h. normalize_host (hook_host h) = normalize_host host) (mitm_hooks cfg))"
  shows "evaluate_mitm_hooks lib hooks_by_host host req =
    (if hooks = [] then NoHooksForHost
     else case find (\<lambda>h. hook_matches lib h req) hooks of
            Some h \<Rightarrow> MatchedHook (compiled_actions h)
          | None \<Rightarrow> HookedHostNoMatch)"
proof -
  have into: "compile_hooks_into lib secrets (mitm_hooks cfg) Map.empty = Inr hooks_by_host"
    using assms(1) by (auto simp: compile_mitm_hooks_with_resolvers_def split: sum.splits)
  have "filter (\<lambda>c. compiled_host c = normalize_host host) (compiled_hooks lib secrets (mitm_hooks cfg)) = hooks"
    unfolding assms(2) using compile_hooks_into_all [OF into] compile_hook_host by (intro compiled_for_host) blast
  with compile_hooks_into_lookup [OF into, of "normalize_host host"] show ?thesis
    by (cases hooks) (simp_all add: evaluate_mitm_hooks_def)
qed

theorem hook_index_equals_scan_witness:
  "\<exists>hooks_by_host actions.
     compile_mitm_hooks_with_resolvers example_library \<lparr>resolve_env_var = Some, read_secret_file = (\<lambda>_. None)\<rparr> example_hook_config =
       Ok hooks_by_host \<and>
     evaluate_mitm_hooks example_library hooks_by_host (lit ''host'')
       \<lparr>request_method = lit ''GET'', request_path = lit ''/x'', request_query = None, request_headers = []\<rparr> = MatchedHook actions"
proof -
  let ?secrets = "\<lparr>resolve_env_var = Some, read_secret_file = (\<lambda>_. None)\<rparr>"
  let ?req = "\<lparr>request_method = lit ''GET'', request_path = lit ''/x'', request_query = None, request_headers = []\<rparr>"
  let ?paths = "[PathPrefix (lit ''/'')]"
  obtain c where c: "compile_hook example_library ?secrets example_hook = Ok c" "compiled_methods c = [lit ''GET'']"
      "compiled_paths c = ?paths" "compiled_query c = []" "compiled_headers c = []"
    by (simp add: compile_hook_def example_hook_def compile_path_matchers_def compile_path_matcher_def parse_matcher_pattern_def
        normalize_methods_def trim_example [simplified] to_ascii_uppercase_def normalize_hook_host_def
        normalize_example_host [simplified] header_name_of_def compile_injected_header_def example_library_def)
  obtain m where m: "compile_mitm_hooks_with_resolvers example_library ?secrets example_hook_config = Ok m"
    using example_hooks_validate c(1) by (simp add: compile_mitm_hooks_with_resolvers_def example_hook_config_def)
  have "hook_matches example_library c ?req"
    using c by (simp add: hook_matches_def path_matches_def query_matches_def headers_match_def to_ascii_uppercase_def starts_with_def)
  moreover have "compiled_hooks example_library ?secrets
      (filter (\<lambda>h. normalize_host (hook_host h) = normalize_host (lit ''host'')) (mitm_hooks example_hook_config)) = [c]"
    using c(1) by (simp add: example_hook_config_def compiled_hooks_def List.map_filter_simps example_hook_def)
  ultimately show ?thesis
    using m hook_index_equals_scan [OF m refl, of "lit ''host''" ?req] by simp
qed

end
