(* ===== verification/Proxy_State.thy ===== *)
theory Proxy_State
  imports Mitm_Hooks Network_Approval
begin

text \<open>
  The policy state of the network proxy (\<open>network-proxy/src/state.rs\<close>, \<open>runtime.rs\<close>, \<open>network_policy.rs\<close>,
  \<open>connect_policy.rs\<close>): the managed constraints and their validation, the state built from a configuration, the decision on
  a host, the buffer of blocked requests, and what a policy decider may override. Name resolution, globs, URLs and the set-up of TLS
  interception are parameters. The texts of error messages are not modelled, only which check refused.
\<close>

section \<open>Constraints\<close>

record network_proxy_constraints =
  managed_enabled :: "bool option"
  managed_mode :: "network_mode option"
  managed_upstream_proxy :: "bool option"
  managed_non_loopback_proxy :: "bool option"
  managed_all_unix_sockets :: "bool option"
  managed_allowed_domains :: "ustr list option"
  allowlist_expansion_enabled :: "bool option"
  managed_denied_domains :: "ustr list option"
  denylist_expansion_enabled :: "bool option"
  managed_unix_sockets :: "ustr list option"
  managed_local_binding :: "bool option"

definition default_constraints :: network_proxy_constraints where
  "default_constraints =
     \<lparr>managed_enabled = None, managed_mode = None, managed_upstream_proxy = None, managed_non_loopback_proxy = None,
      managed_all_unix_sockets = None, managed_allowed_domains = None, allowlist_expansion_enabled = None,
      managed_denied_domains = None, denylist_expansion_enabled = None, managed_unix_sockets = None, managed_local_binding = None\<rparr>"

text \<open>\<open>MitmState::new\<close> loads certificates; its result is a parameter.\<close>

record 'm proxy_library =
  globs :: glob_library
  url_host :: "ustr \<Rightarrow> ustr option"
  hook_lib :: hook_library
  hook_secrets :: secret_resolvers
  new_mitm_state :: "bool \<Rightarrow> 'm option"

text \<open>\<open>NetworkProxyConstraintError\<close>: the name of the field.\<close>

datatype constraint_error = InvalidValue ustr

definition validate_non_global_wildcard_domain_patterns :: "ustr \<Rightarrow> ustr list \<Rightarrow> constraint_error + unit" where
  "validate_non_global_wildcard_domain_patterns field_name patterns =
     ensure (find is_global_wildcard_domain_pattern patterns = None) (InvalidValue field_name)"

fun network_mode_rank :: "network_mode \<Rightarrow> nat" where
  "network_mode_rank Limited = 0"
| "network_mode_rank Full = 1"

definition lower_set :: "ustr list \<Rightarrow> ustr set" where
  "lower_set entries = to_ascii_lowercase ` set entries"

definition validate_allowed_domains ::
  "(ustr \<Rightarrow> ustr option) \<Rightarrow> network_proxy_constraints \<Rightarrow> ustr list \<Rightarrow> ustr list \<Rightarrow> ustr list \<Rightarrow> constraint_error + unit" where
  "validate_allowed_domains url_host_of constraints managed allowed denied =
     ensure
       (case allowlist_expansion_enabled constraints of
          Some True \<Rightarrow> lower_set managed \<subseteq> lower_set allowed \<union> lower_set denied
        | Some False \<Rightarrow> lower_set allowed = lower_set managed - lower_set denied
        | None \<Rightarrow>
            list_all (\<lambda>entry. list_ex (\<lambda>m. pattern_allows (parse_for_constraints url_host_of m) (parse_for_constraints url_host_of entry))
              managed) allowed)
       (InvalidValue (lit ''network.allowed_domains''))"

definition validate_denied_domains :: "network_proxy_constraints \<Rightarrow> ustr list \<Rightarrow> ustr list \<Rightarrow> constraint_error + unit" where
  "validate_denied_domains constraints managed denied =
     ensure
       (case denylist_expansion_enabled constraints of
          Some False \<Rightarrow> lower_set denied = lower_set managed
        | _ \<Rightarrow> lower_set managed \<subseteq> lower_set denied)
       (InvalidValue (lit ''network.denied_domains''))"

text \<open>A flag that the constraint must permit.\<close>

definition validate_flag :: "bool \<Rightarrow> bool \<Rightarrow> ustr \<Rightarrow> constraint_error + unit" where
  "validate_flag candidate permitted field_name = ensure (candidate \<longrightarrow> permitted) (InvalidValue field_name)"

abbreviation unless_forbidden :: "bool option \<Rightarrow> bool" where
  "unless_forbidden c \<equiv> (case c of Some b \<Rightarrow> b | None \<Rightarrow> True)"

definition validate_policy_against_constraints ::
  "'m proxy_library \<Rightarrow> 'j network_proxy_config \<Rightarrow> network_proxy_constraints \<Rightarrow> constraint_error + unit" where
  "validate_policy_against_constraints lib cfg constraints =
     (let allowed = list_or_nil (allowed_domains cfg);
          denied = list_or_nil (denied_domains cfg)
      in first_error
       ([ensure (validate_mitm_hook_config (hook_lib lib) cfg = Ok ()) (InvalidValue (lit ''network.mitm_hooks'')),
         validate_non_global_wildcard_domain_patterns (lit ''network.denied_domains'') denied,
         validate_flag (enabled cfg) (unless_forbidden (managed_enabled constraints)) (lit ''network.enabled''),
         (case managed_mode constraints of
            Some max_mode \<Rightarrow> ensure (network_mode_rank (mode cfg) \<le> network_mode_rank max_mode) (InvalidValue (lit ''network.mode''))
          | None \<Rightarrow> Ok ()),
         validate_flag (allow_upstream_proxy cfg) (unless_forbidden (managed_upstream_proxy constraints))
           (lit ''network.allow_upstream_proxy''),
         validate_flag (dangerously_allow_non_loopback_proxy cfg) (unless_forbidden (managed_non_loopback_proxy constraints))
           (lit ''network.dangerously_allow_non_loopback_proxy''),
         validate_flag (dangerously_allow_all_unix_sockets cfg)
           (case managed_all_unix_sockets constraints of Some b \<Rightarrow> b | None \<Rightarrow> managed_unix_sockets constraints = None)
           (lit ''network.dangerously_allow_all_unix_sockets''),
         validate_flag (allow_local_binding cfg) (unless_forbidden (managed_local_binding constraints)) (lit ''network.allow_local_binding'')]
        @ (case managed_allowed_domains constraints of
             Some managed \<Rightarrow>
               [validate_non_global_wildcard_domain_patterns (lit ''network.allowed_domains'') managed,
                validate_allowed_domains (url_host lib) constraints managed allowed denied]
           | None \<Rightarrow> [])
        @ (case managed_denied_domains constraints of
             Some managed \<Rightarrow>
               [validate_non_global_wildcard_domain_patterns (lit ''network.denied_domains'') managed,
                validate_denied_domains constraints managed denied]
           | None \<Rightarrow> [])
        @ (case managed_unix_sockets constraints of
             Some managed \<Rightarrow>
               [ensure (list_all (\<lambda>entry. to_ascii_lowercase entry \<in> lower_set managed) (allow_unix_sockets cfg))
                  (InvalidValue (lit ''network.allow_unix_sockets''))]
           | None \<Rightarrow> [])))"

section \<open>The state\<close>

text \<open>The fields of \<open>BlockedRequest\<close> beyond those that the approval service reads.\<close>

record proxy_blocked_request = blocked_request +
  blocked_client :: "ustr option"
  blocked_method :: "ustr option"
  blocked_mode :: "network_mode option"
  blocked_protocol :: ustr
  blocked_source :: "ustr option"
  blocked_port :: "nat option"
  blocked_timestamp :: int

record ('j, 'm) config_state =
  state_config :: "'j network_proxy_config"
  allow_set :: "ustr list"
  deny_set :: "ustr list"
  state_mitm :: "'m option"
  state_hooks :: mitm_hooks_by_host
  state_constraints :: network_proxy_constraints
  blocked :: "proxy_blocked_request list"
  blocked_total :: nat

datatype build_error =
    InvalidSocketPath config_error
  | BrokerRequiresMitm
  | GlobalWildcardDenied
  | InvalidDenySet globset_error
  | InvalidAllowSet globset_error
  | InvalidHooks "nat option \<times> hook_error"
  | MitmUnavailable

definition build_config_state ::
  "'m proxy_library \<Rightarrow> 'j network_proxy_config \<Rightarrow> network_proxy_constraints \<Rightarrow> build_error + ('j, 'm) config_state" where
  "build_config_state lib cfg constraints =
     (case validate_unix_socket_allowlist_paths (hook_path_env (hook_lib lib)) cfg of Inl e \<Rightarrow> Err (InvalidSocketPath e) | Inr _ \<Rightarrow>
      if credential_broker cfg \<and> \<not> mitm cfg then Err BrokerRequiresMitm else
      case validate_non_global_wildcard_domain_patterns (lit ''network.denied_domains'') (list_or_nil (denied_domains cfg)) of
        Inl _ \<Rightarrow> Err GlobalWildcardDenied | Inr _ \<Rightarrow>
      case compile_denylist_globset (globs lib) (list_or_nil (denied_domains cfg)) of Inl e \<Rightarrow> Err (InvalidDenySet e) | Inr deny \<Rightarrow>
      case compile_allowlist_globset (globs lib) (list_or_nil (allowed_domains cfg)) of Inl e \<Rightarrow> Err (InvalidAllowSet e) | Inr allow \<Rightarrow>
      case compile_mitm_hooks_with_resolvers (hook_lib lib) (hook_secrets lib) cfg of Inl e \<Rightarrow> Err (InvalidHooks e) | Inr hooks \<Rightarrow>
      case (if mitm cfg then map_option Some (new_mitm_state lib (allow_upstream_proxy cfg)) else Some None) of
        None \<Rightarrow> Err MitmUnavailable
      | Some m \<Rightarrow>
          Ok \<lparr>state_config = cfg, allow_set = allow, deny_set = deny, state_mitm = m, state_hooks = hooks,
              state_constraints = constraints, blocked = [], blocked_total = 0\<rparr>)"

section \<open>Decisions on hosts\<close>

datatype host_block_reason = DeniedHost | NotAllowedHost | NotAllowedLocal

datatype host_block_decision = HostAllowed | HostBlocked host_block_reason

definition REASON_DENIED :: ustr where "REASON_DENIED = lit ''denied''"
definition REASON_NOT_ALLOWED :: ustr where "REASON_NOT_ALLOWED = lit ''not_allowed''"
definition REASON_NOT_ALLOWED_LOCAL :: ustr where "REASON_NOT_ALLOWED_LOCAL = lit ''not_allowed_local''"

fun host_block_reason_as_str :: "host_block_reason \<Rightarrow> ustr" where
  "host_block_reason_as_str DeniedHost = REASON_DENIED"
| "host_block_reason_as_str NotAllowedHost = REASON_NOT_ALLOWED"
| "host_block_reason_as_str NotAllowedLocal = REASON_NOT_ALLOWED_LOCAL"

definition globset_matches_host_or_unscoped :: "glob_library \<Rightarrow> ustr list \<Rightarrow> ustr \<Rightarrow> bool" where
  "globset_matches_host_or_unscoped g globset host \<longleftrightarrow>
     globset_is_match g globset host \<or>
     (case unscoped_ip_literal host of Some ip \<Rightarrow> globset_is_match g globset ip | None \<Rightarrow> False)"

definition is_explicit_local_allowlisted :: "ustr list \<Rightarrow> ustr \<Rightarrow> bool" where
  "is_explicit_local_allowlisted allowed host =
     list_ex (\<lambda>pattern.
       let pattern = trim pattern
       in if pattern = lit ''*'' \<or> starts_with (lit ''*.'') pattern \<or> starts_with (lit ''**.'') pattern then False
          else if 42 \<in> set pattern \<or> 63 \<in> set pattern then False
          else let normalized = normalize_host pattern
               in normalized = host \<or> (case unscoped_ip_literal host of Some ip \<Rightarrow> normalized = ip | None \<Rightarrow> False)) allowed"

text \<open>The lookup gives the addresses of a host, or \<open>None\<close> when it fails or takes too long.\<close>

type_synonym dns_lookup = "ustr \<Rightarrow> nat \<Rightarrow> ip_addr list option"

definition host_resolves_to_non_public_ip :: "dns_lookup \<Rightarrow> ustr \<Rightarrow> nat \<Rightarrow> bool" where
  "host_resolves_to_non_public_ip lookup host port =
     (case parse_ip host of
        Some ip \<Rightarrow> is_non_public_ip ip
      | None \<Rightarrow> (case lookup host port of None \<Rightarrow> True | Some addrs \<Rightarrow> list_ex is_non_public_ip addrs))"

definition is_local_literal :: "ustr \<Rightarrow> bool" where
  "is_local_literal host \<longleftrightarrow>
     is_loopback_host host \<or> (case parse_ip (without_scope host) of Some ip \<Rightarrow> is_non_public_ip ip | None \<Rightarrow> False)"

definition host_blocked :: "glob_library \<Rightarrow> dns_lookup \<Rightarrow> ('j, 'm) config_state \<Rightarrow> ustr \<Rightarrow> nat \<Rightarrow> host_block_decision" where
  "host_blocked g lookup s host_text port =
     (case host_parse host_text of
        None \<Rightarrow> HostBlocked NotAllowedHost
      | Some host \<Rightarrow>
          let allowed = allowed_domains (state_config s);
              is_allowlisted = globset_matches_host_or_unscoped g (allow_set s) host
          in if globset_matches_host_or_unscoped g (deny_set s) host then HostBlocked DeniedHost
             else if \<not> allow_local_binding (state_config s) \<and>
               (if is_local_literal host then \<not> is_explicit_local_allowlisted (list_or_nil allowed) host
                else host_resolves_to_non_public_ip lookup host port)
             then HostBlocked NotAllowedLocal
             else if allowed = None \<or> \<not> is_allowlisted then HostBlocked NotAllowedHost
             else HostAllowed)"

definition host_mitm_required_by_hooks :: "('j, 'm) config_state \<Rightarrow> ustr \<Rightarrow> bool" where
  "host_mitm_required_by_hooks s host \<longleftrightarrow> state_hooks s (normalize_host host) \<noteq> None"

section \<open>Asking the decider\<close>

definition map_decider_decision :: "network_decision \<Rightarrow> network_decision" where
  "map_decider_decision d =
     (case d of AllowRequest \<Rightarrow> AllowRequest | DenyRequest reason _ decision \<Rightarrow> DenyRequest reason Decider decision)"

text \<open>A handle on the proxy, as cloned for one execution.\<close>

record proxy_handle =
  handle_environment_id :: "ustr option"
  handle_execution_id :: "ustr option"

record policy_audit_event =
  audit_decision :: ustr
  audit_source :: network_decision_source
  audit_reason :: ustr
  audit_host :: ustr
  audit_port :: nat
  audit_execution_id :: "ustr option"
  audit_override :: bool

fun policy_decision_as_str :: "network_policy_decision \<Rightarrow> ustr" where
  "policy_decision_as_str PolicyDeny = lit ''deny''"
| "policy_decision_as_str PolicyAsk = lit ''ask''"

definition decider_request :: "proxy_handle \<Rightarrow> network_policy_request \<Rightarrow> network_policy_request" where
  "decider_request handle request =
     request\<lparr>request_environment_id :=
               (case request_environment_id request of Some e \<Rightarrow> Some e | None \<Rightarrow> handle_environment_id handle),
             request_execution_id := handle_execution_id handle\<rparr>"

definition evaluate_host_policy ::
  "proxy_handle \<Rightarrow> (network_policy_request \<Rightarrow> network_decision) option \<Rightarrow> host_block_decision \<Rightarrow> network_policy_request \<Rightarrow>
     network_decision \<times> policy_audit_event" where
  "evaluate_host_policy handle decider host_decision request =
     (let (decision, policy_override) =
        (case host_decision of
           HostAllowed \<Rightarrow> (AllowRequest, False)
         | HostBlocked NotAllowedHost \<Rightarrow>
             (case decider of
                Some decide \<Rightarrow>
                  let d = map_decider_decision (decide (decider_request handle request)) in (d, d = AllowRequest)
              | None \<Rightarrow> (deny_with_source (host_block_reason_as_str NotAllowedHost) BaselinePolicy, False))
         | HostBlocked reason \<Rightarrow> (deny_with_source (host_block_reason_as_str reason) BaselinePolicy, False));
        (policy_decision, source, reason) =
        (case decision of
           AllowRequest \<Rightarrow>
             (lit ''allow'', if policy_override then Decider else BaselinePolicy,
              if policy_override then host_block_reason_as_str NotAllowedHost else lit ''allow'')
         | DenyRequest reason source d \<Rightarrow> (policy_decision_as_str d, source, reason))
      in (decision,
          \<lparr>audit_decision = policy_decision, audit_source = source, audit_reason = reason, audit_host = request_host request,
           audit_port = request_port request, audit_execution_id = handle_execution_id handle, audit_override = policy_override\<rparr>))"

section \<open>Connecting\<close>

datatype target_host = TargetAddress ip_addr | TargetName ustr

fun is_non_public_target :: "target_host \<Rightarrow> bool" where
  "is_non_public_target (TargetAddress ip) = is_non_public_ip ip"
| "is_non_public_target (TargetName name) \<longleftrightarrow> to_ascii_lowercase (trim_end_matches 46 name) = lit ''localhost''"

fun target_matches_non_public_addr :: "target_host \<Rightarrow> ip_addr \<Rightarrow> bool" where
  "target_matches_non_public_addr (TargetAddress ip) addr \<longleftrightarrow> ip = addr"
| "target_matches_non_public_addr (TargetName name) addr \<longleftrightarrow>
     to_ascii_lowercase (trim_end_matches 46 name) = lit ''localhost'' \<and> ip_is_loopback addr"

text \<open>
  \<open>allows_non_public_target\<close> and the check of \<open>connect\<close>. The text of an address is that of the crate's \<open>Display\<close>, a
  parameter. Each of the two reads of the state may see another configuration, since the state is reloaded in between.
\<close>

definition target_text :: "(ip_addr \<Rightarrow> ustr) \<Rightarrow> target_host \<Rightarrow> ustr" where
  "target_text show_ip host = (case host of TargetAddress ip \<Rightarrow> show_ip ip | TargetName name \<Rightarrow> name)"

definition allows_non_public_target ::
  "glob_library \<Rightarrow> dns_lookup \<Rightarrow> (ip_addr \<Rightarrow> ustr) \<Rightarrow> ('j, 'm) config_state \<Rightarrow> ('j, 'm) config_state \<Rightarrow>
     target_host \<Rightarrow> nat \<Rightarrow> ip_addr \<Rightarrow> bool" where
  "allows_non_public_target g lookup show_ip s s' host port addr \<longleftrightarrow>
     allow_local_binding (state_config s) \<or>
     target_matches_non_public_addr host addr \<and> host_blocked g lookup s' (target_text show_ip host) port = HostAllowed"

definition may_connect ::
  "glob_library \<Rightarrow> dns_lookup \<Rightarrow> (ip_addr \<Rightarrow> ustr) \<Rightarrow> ('j, 'm) config_state \<Rightarrow> ('j, 'm) config_state \<Rightarrow>
     target_host \<Rightarrow> nat \<Rightarrow> ip_addr \<Rightarrow> bool" where
  "may_connect g lookup show_ip s s' host port addr \<longleftrightarrow>
     \<not> (is_non_public_ip addr \<and> \<not> allows_non_public_target g lookup show_ip s s' host port addr)"

section \<open>Unix sockets\<close>

text \<open>\<open>supported\<close> is \<open>cfg!(target_os = "macos")\<close>; \<open>canonicalize\<close> asks the file system.\<close>

definition socket_entry_allows ::
  "path_env \<Rightarrow> (path \<Rightarrow> path option) \<Rightarrow> path \<Rightarrow> ustr \<Rightarrow> bool" where
  "socket_entry_allows env canonicalize requested allowed \<longleftrightarrow>
     (case unix_socket_path_parse env allowed of
        Inr (NativeSocket p) \<Rightarrow>
          p = requested \<or>
          (case canonicalize requested of Some rc \<Rightarrow> canonicalize p = Some rc | None \<Rightarrow> False)
      | _ \<Rightarrow> False)"

definition is_unix_socket_allowed ::
  "bool \<Rightarrow> path_env \<Rightarrow> (path \<Rightarrow> path option) \<Rightarrow> ('j, 'm) config_state \<Rightarrow> ustr \<Rightarrow> bool" where
  "is_unix_socket_allowed supported env canonicalize s p =
     (if \<not> supported then False
      else if \<not> path_is_absolute (path_components p) then False
      else if dangerously_allow_all_unix_sockets (state_config s) then True
      else case from_absolute_path env p of
             Inl _ \<Rightarrow> False
           | Inr requested \<Rightarrow> list_ex (socket_entry_allows env canonicalize requested) (allow_unix_sockets (state_config s)))"

section \<open>States that fit their configuration\<close>

definition coherent :: "'m proxy_library \<Rightarrow> ('j, 'm) config_state \<Rightarrow> bool" where
  "coherent lib s \<longleftrightarrow>
     validate_policy_against_constraints lib (state_config s) (state_constraints s) = Ok () \<and>
     compile_denylist_globset (globs lib) (list_or_nil (denied_domains (state_config s))) = Ok (deny_set s) \<and>
     compile_allowlist_globset (globs lib) (list_or_nil (allowed_domains (state_config s))) = Ok (allow_set s) \<and>
     compile_mitm_hooks_with_resolvers (hook_lib lib) (hook_secrets lib) (state_config s) = Ok (state_hooks s) \<and>
     (state_mitm s \<noteq> None \<longleftrightarrow> mitm (state_config s)) \<and>
     (credential_broker (state_config s) \<longrightarrow> mitm (state_config s))"

lemma build_facts:
  assumes "build_config_state lib cfg constraints = Ok s"
  shows "state_config s = cfg" "state_constraints s = constraints" "blocked s = []" "blocked_total s = 0"
    and "validate_policy_against_constraints lib cfg constraints = Ok () \<Longrightarrow> coherent lib s"
  using assms
  by (auto simp: build_config_state_def coherent_def simp del: lit_Cons split: sum.splits option.splits if_splits)

definition entry_matches :: "ustr \<Rightarrow> ustr \<Rightarrow> bool" where
  "entry_matches host entry \<longleftrightarrow>
     pattern_matches_host (domain_pattern_parse entry) host \<or>
     (case unscoped_ip_literal host of Some ip \<Rightarrow> pattern_matches_host (domain_pattern_parse entry) ip | None \<Rightarrow> False)"

lemma compiled_set_matches:
  assumes "domain_globs g" "compile_globset_with_policy g patterns w = Ok globset" "list_all ordinary_entry patterns"
  shows "globset_matches_host_or_unscoped g globset host \<longleftrightarrow> (\<exists>e\<in>set patterns. entry_matches host e)"
  using compiled_globs_match [OF assms]
  by (auto simp: globset_matches_host_or_unscoped_def entry_matches_def list_ex_iff split: option.splits)

text \<open>An ordinary entry that names the host itself.\<close>

definition names_host :: "ustr \<Rightarrow> ustr \<Rightarrow> bool" where
  "names_host host entry \<longleftrightarrow>
     (\<exists>d. domain_pattern_parse entry = ExactDomain d \<and>
          (to_ascii_lowercase d = host \<or> unscoped_ip_literal host = Some (to_ascii_lowercase d)))"

lemma explicit_entry:
  assumes "list_all ordinary_entry allowed"
  shows "is_explicit_local_allowlisted allowed host \<longleftrightarrow> (\<exists>e\<in>set allowed. names_host host e)"
proof -
  have *: "(let pattern = trim e
       in if pattern = lit ''*'' \<or> starts_with (lit ''*.'') pattern \<or> starts_with (lit ''**.'') pattern then False
          else if 42 \<in> set pattern \<or> 63 \<in> set pattern then False
          else let normalized = normalize_host pattern
               in normalized = host \<or> (case unscoped_ip_literal host of Some ip \<Rightarrow> normalized = ip | None \<Rightarrow> False)) \<longleftrightarrow>
      names_host host e" if "ordinary_entry e" for e
  proof -
    from that obtain p where p: "domain_pattern_parse e = p" "plain_domain (pattern_domain p)" "e = pattern_prefix p @ pattern_domain p"
      by (rule ordinary_entryE)
    note facts = plain_facts [OF p(2)] normalize_plain [OF p(2)] plain_trim [OF p(2)]
    show ?thesis
    proof (cases p)
      case (ExactDomain d)
      then have "\<not> starts_with (42 # xs) d" for xs using facts(3) by (auto simp: starts_with_iff)
      moreover have "d \<noteq> [42]" using facts(3) ExactDomain by auto
      ultimately show ?thesis
        using facts p ExactDomain by (auto simp: names_host_def Let_def split: option.splits)
    next
      case (SubdomainsOnly d)
      have "trim e = e" using trim_prefixed [OF p(2), of p] p(3) by simp
      then show ?thesis using p SubdomainsOnly by (simp add: names_host_def Let_def)
    next
      case (ApexAndSubdomains d)
      have "trim e = e" using trim_prefixed [OF p(2), of p] p(3) by simp
      then show ?thesis using p ApexAndSubdomains by (simp add: names_host_def Let_def)
    qed
  qed
  have "ordinary_entry e" if "e \<in> set allowed" for e using assms that by (simp add: list_all_iff)
  then show ?thesis
    unfolding is_explicit_local_allowlisted_def list_ex_iff by (intro bex_cong refl *) auto
qed

text \<open>Reaching the host does not reach a local or private address.\<close>

definition only_public :: "dns_lookup \<Rightarrow> ustr \<Rightarrow> nat \<Rightarrow> bool" where
  "only_public lookup host port \<longleftrightarrow>
     \<not> is_local_literal host \<and>
     (case parse_ip host of
        Some ip \<Rightarrow> \<not> is_non_public_ip ip
      | None \<Rightarrow> (\<exists>addrs. lookup host port = Some addrs \<and> list_all (\<lambda>ip. \<not> is_non_public_ip ip) addrs))"

lemma local_check:
  "(if is_local_literal host then \<not> explicit else host_resolves_to_non_public_ip lookup host port) \<longleftrightarrow>
     \<not> (only_public lookup host port \<or> is_local_literal host \<and> explicit)"
  by (auto simp: only_public_def host_resolves_to_non_public_ip_def list_ex_iff list_all_iff split: option.splits)

lemma allowed_None: "(\<exists>e\<in>set (list_or_nil (allowed_domains cfg)). P e) \<Longrightarrow> allowed_domains cfg \<noteq> None"
  by (cases "allowed_domains cfg") auto

text \<open>
  C8: The decision on a host is the one the lists describe. In a state built from a configuration whose entries are ordinary, a host is refused as denied
  if and only if a denied entry matches it. It is allowed if and only if no denied entry matches it, some allowed entry
  does, and either local access is switched on, or the host is neither a local name nor a literal of a private address and
  its name was resolved to public addresses only, or it is local and an allowed entry names it exactly.
\<close>

theorem host_decision_exact:
  assumes "domain_globs (globs lib)" "build_config_state lib cfg constraints = Ok s"
    and "list_all ordinary_entry (list_or_nil (denied_domains cfg))" "list_all ordinary_entry (list_or_nil (allowed_domains cfg))"
    and "host_parse host_text = Some host"
  shows "(host_blocked (globs lib) lookup s host_text port = HostBlocked DeniedHost \<longleftrightarrow>
            (\<exists>e\<in>set (list_or_nil (denied_domains cfg)). entry_matches host e)) \<and>
         (host_blocked (globs lib) lookup s host_text port = HostAllowed \<longleftrightarrow>
            \<not> (\<exists>e\<in>set (list_or_nil (denied_domains cfg)). entry_matches host e) \<and>
            (\<exists>e\<in>set (list_or_nil (allowed_domains cfg)). entry_matches host e) \<and>
            (allow_local_binding cfg \<or> only_public lookup host port \<or>
             is_local_literal host \<and> (\<exists>e\<in>set (list_or_nil (allowed_domains cfg)). names_host host e)))"
proof -
  have cfg: "state_config s = cfg" using build_facts(1) [OF assms(2)] .
  have sets: "compile_globset_with_policy (globs lib) (list_or_nil (denied_domains cfg)) RejectWildcard = Ok (deny_set s)"
    "compile_globset_with_policy (globs lib) (list_or_nil (allowed_domains cfg)) AllowWildcard = Ok (allow_set s)"
    using assms(2)
    by (auto simp: build_config_state_def compile_denylist_globset_def compile_allowlist_globset_def split: sum.splits option.splits if_splits)
  note deny = compiled_set_matches [OF assms(1) sets(1) assms(3), of host]
    and allow = compiled_set_matches [OF assms(1) sets(2) assms(4), of host]
  show ?thesis
    unfolding host_blocked_def cfg assms(5) option.case Let_def deny allow local_check explicit_entry [OF assms(4)]
    using allowed_None [of cfg "entry_matches host"] by (simp split: if_splits)
qed

text \<open>Globs as documented, for the patterns that the proxy builds.\<close>

definition documented_globs :: glob_library where
  "documented_globs =
     \<lparr>glob_builds = (\<lambda>_. True), globset_builds = (\<lambda>_. True),
      glob_matches = (\<lambda>p h. case strip_prefix (lit ''?*.'') p of
                              Some d \<Rightarrow> pattern_matches_host (SubdomainsOnly d) h
                            | None \<Rightarrow> pattern_matches_host (ExactDomain p) h)\<rparr>"

lemma documented_globs_ok: "domain_globs documented_globs"
proof -
  have "strip_prefix (63 # xs) d = None" if "plain_domain d" for xs d
    using plain_facts(1,4) [OF that] by (cases d) auto
  then show ?thesis by (simp add: domain_globs_def documented_globs_def)
qed

definition plain_library :: "unit proxy_library" where
  "plain_library =
     \<lparr>globs = documented_globs, url_host = Some,
      hook_lib = \<lparr>parse_header_name = Some, parse_header_value = Some, hook_glob_builds = (\<lambda>_ _. True),
        hook_glob_matches = (\<lambda>_ p v. p = v), parse_form = (\<lambda>_. []), hook_path_env = \<lparr>home_dir = None, current_dir = Ok [RootDir]\<rparr>\<rparr>,
      hook_secrets = \<lparr>resolve_env_var = (\<lambda>_. None), read_secret_file = (\<lambda>_. None)\<rparr>, new_mitm_state = (\<lambda>_. Some ())\<rparr>"

definition example_config :: "unit network_proxy_config" where
  "example_config = default_config\<lparr>domains := Some
     [\<lparr>entry_pattern = lit ''**.example.com'', entry_permission = AllowDomain\<rparr>,
      \<lparr>entry_pattern = lit ''bad.example.com'', entry_permission = DenyDomain\<rparr>]\<rparr>"

definition example_state :: "(unit, unit) config_state" where
  "example_state =
     \<lparr>state_config = example_config, allow_set = [lit ''example.com'', lit ''?*.example.com''], deny_set = [lit ''bad.example.com''],
      state_mitm = None, state_hooks = Map.empty, state_constraints = default_constraints, blocked = [], blocked_total = 0\<rparr>"

lemma example_lists: "list_or_nil (denied_domains example_config) = [lit ''bad.example.com'']"
  "list_or_nil (allowed_domains example_config) = [lit ''**.example.com'']"
  by code_simp+

lemma expand_prefixed:
  assumes "plain_domain (pattern_domain p)"
  shows "expand_domain_pattern (normalize_pattern (pattern_prefix p @ pattern_domain p)) =
    (case p of ExactDomain d \<Rightarrow> [to_ascii_lowercase d] | SubdomainsOnly d \<Rightarrow> [lit ''?*.'' @ to_ascii_lowercase d]
     | ApexAndSubdomains d \<Rightarrow> [to_ascii_lowercase d, lit ''?*.'' @ to_ascii_lowercase d])"
proof -
  have "domain_pattern_parse (pattern_prefix p @ to_ascii_lowercase (pattern_domain p)) = map_domain to_ascii_lowercase p"
    using parse_prefixed [of "map_domain to_ascii_lowercase p"] plain_lower [OF assms] by simp
  then show ?thesis
    unfolding expand_domain_pattern_def normalize_prefixed [OF assms] by (cases p) simp_all
qed

lemma host_parse_plain: "plain_domain d \<Longrightarrow> host_parse d = Some (to_ascii_lowercase d)"
  by (simp add: host_parse_def normalize_plain plain_facts)

lemma example_plain: "plain_domain (lit ''bad.example.com'')" "plain_domain (lit ''example.com'')" "plain_domain (lit ''Bad.Example.com'')"
  by code_simp+

lemma example_expanded:
  "expand_domain_pattern (normalize_pattern (lit ''bad.example.com'')) = [lit ''bad.example.com'']"
  "expand_domain_pattern (normalize_pattern (lit ''**.example.com'')) = [lit ''example.com'', lit ''?*.example.com'']"
proof -
  show "expand_domain_pattern (normalize_pattern (lit ''bad.example.com'')) = [lit ''bad.example.com'']"
    using expand_prefixed [of "ExactDomain (lit ''bad.example.com'')"] example_plain(1) by (simp add: to_ascii_lowercase_def)
  show "expand_domain_pattern (normalize_pattern (lit ''**.example.com'')) = [lit ''example.com'', lit ''?*.example.com'']"
    using expand_prefixed [of "ApexAndSubdomains (lit ''example.com'')"] example_plain(2) by (simp add: to_ascii_lowercase_def)
qed

lemma example_state_built: "build_config_state plain_library example_config default_constraints = Ok example_state"
proof -
  have "compile_denylist_globset documented_globs [lit ''bad.example.com''] = Ok [lit ''bad.example.com'']"
    "compile_allowlist_globset documented_globs [lit ''**.example.com''] = Ok [lit ''example.com'', lit ''?*.example.com'']"
    "validate_non_global_wildcard_domain_patterns (lit ''network.denied_domains'') [lit ''bad.example.com''] = Ok ()"
    unfolding compile_denylist_globset_def compile_allowlist_globset_def compile_globset_with_policy_def
      validate_non_global_wildcard_domain_patterns_def add_patterns.simps find.simps
      is_global_wildcard_domain_pattern_def example_expanded
    by (simp_all add: documented_globs_def)
  moreover have "validate_unix_socket_allowlist_paths env example_config = Ok ()" for env
    by (simp add: validate_unix_socket_allowlist_paths_def allow_unix_sockets_def example_config_def default_config_def del: lit_Cons)
  moreover have "compile_mitm_hooks_with_resolvers l sec example_config = Ok Map.empty" for l sec
    by (simp add: compile_mitm_hooks_with_resolvers_def validate_mitm_hook_config_def example_config_def default_config_def del: lit_Cons)
  moreover have "\<not> credential_broker example_config" "\<not> mitm example_config"
    by (simp_all add: example_config_def default_config_def del: lit_Cons)
  ultimately show ?thesis
    unfolding build_config_state_def example_lists by (simp add: plain_library_def example_state_def del: lit_Cons)
qed

lemma ordinary_prefixed: "plain_domain (pattern_domain p) \<Longrightarrow> ordinary_entry (pattern_prefix p @ pattern_domain p)"
  by (simp add: ordinary_entry_def parse_prefixed Let_def)

lemma example_ordinary: "list_all ordinary_entry (list_or_nil (denied_domains example_config))"
  "list_all ordinary_entry (list_or_nil (allowed_domains example_config))"
  unfolding example_lists
  using ordinary_prefixed [of "ExactDomain (lit ''bad.example.com'')"] ordinary_prefixed [of "ApexAndSubdomains (lit ''example.com'')"]
    example_plain(1,2)
  by simp_all

theorem host_decision_exact_witness:
  "host_blocked documented_globs (\<lambda>_ _. Some [V4 (Ipv4 93 184 216 34)]) example_state (lit ''Bad.Example.com'') 443 = HostBlocked DeniedHost"
proof -
  have g: "globs plain_library = documented_globs" by (simp add: plain_library_def)
  have h: "host_parse (lit ''Bad.Example.com'') = Some (lit ''bad.example.com'')"
    using host_parse_plain [OF example_plain(3)] by (simp add: to_ascii_lowercase_def)
  have "pattern_matches_host (domain_pattern_parse (lit ''bad.example.com'')) (lit ''bad.example.com'')"
    using parse_prefixed [of "ExactDomain (lit ''bad.example.com'')"] example_plain(1) by (simp del: lit_Cons)
  then have "entry_matches (lit ''bad.example.com'') (lit ''bad.example.com'')" by (simp add: entry_matches_def del: lit_Cons)
  then show ?thesis
    using host_decision_exact [OF _ example_state_built example_ordinary h] documented_globs_ok
    unfolding g example_lists by simp
qed

section \<open>The decider\<close>

text \<open>
  C23: A policy decider can only widen the allowlist. A request goes through if and only if the host is allowed, or it is merely missing from the
  allowlist and the decider allows it. A denied or local host is refused with its own reason whatever the decider would say, the
  audit event reports an override exactly when the decider let the request through, and it carries the source of the
  decision that was taken.
\<close>

theorem decider_only_widens_allowlist:
  "(fst (evaluate_host_policy handle decider d request) = AllowRequest \<longleftrightarrow>
      d = HostAllowed \<or>
      d = HostBlocked NotAllowedHost \<and> (\<exists>decide. decider = Some decide \<and> decide (decider_request handle request) = AllowRequest)) \<and>
   fst (evaluate_host_policy handle decider (HostBlocked DeniedHost) request) = DenyRequest REASON_DENIED BaselinePolicy PolicyDeny \<and>
   fst (evaluate_host_policy handle decider (HostBlocked NotAllowedLocal) request) =
     DenyRequest REASON_NOT_ALLOWED_LOCAL BaselinePolicy PolicyDeny \<and>
   (audit_override (snd (evaluate_host_policy handle decider d request)) \<longleftrightarrow>
      d \<noteq> HostAllowed \<and> fst (evaluate_host_policy handle decider d request) = AllowRequest) \<and>
   audit_source (snd (evaluate_host_policy handle decider d request)) =
      (if d = HostBlocked NotAllowedHost \<and> decider \<noteq> None then
         (if audit_override (snd (evaluate_host_policy handle decider d request)) then Decider
          else case fst (evaluate_host_policy handle decider d request) of DenyRequest _ source _ \<Rightarrow> source | AllowRequest \<Rightarrow> Decider)
       else BaselinePolicy)"
  by (auto simp: evaluate_host_policy_def map_decider_decision_def deny_with_source_def Let_def
      REASON_DENIED_def REASON_NOT_ALLOWED_def REASON_NOT_ALLOWED_LOCAL_def
      split: host_block_decision.splits host_block_reason.splits option.splits network_decision.splits prod.splits)

section \<open>Connections\<close>

lemma trim_dots_lower: "trim_end_matches 46 (to_ascii_lowercase s) = to_ascii_lowercase (trim_end_matches 46 s)"
  by (induction s rule: rev_induct) (auto simp: trim_end_matches_def to_ascii_lowercase_def)

lemma trim_end_matches_chars: "set s \<subseteq> insert c (set (trim_end_matches c s))"
  by (induction s rule: rev_induct) (auto simp: trim_end_matches_def)

text \<open>Trailing dots do not change the normal form of a plain name.\<close>

lemma normalize_dotted:
  assumes "plain_domain (trim_end_matches 46 name)"
  shows "normalize_host name = to_ascii_lowercase (trim_end_matches 46 name)"
proof -
  let ?t = "trim_end_matches 46 name"
  have chars: "list_all plain_char name"
    using assms trim_end_matches_chars [of name 46] by (auto simp: plain_domain_def list_all_iff plain_char_def)
  have safe: "\<not> is_whitespace c \<and> c \<notin> {37, 42, 58, 63, 91, 93}" if "c \<in> set name" for c
    using chars that by (intro plain_char_facts) (simp add: list_all_iff)
  have "trim name = name" using safe by (intro trim_no_whitespace) blast
  moreover have "58 \<notin> set name" "91 \<notin> set name" using safe [of 58] safe [of 91] by auto
  ultimately have "trim name = name" "\<not> starts_with [91] name" "count_list name 58 = 0" by (auto simp: starts_with_iff)
  then have "normalize_host name = normalize_dns_host_or_ip_literal name" by (simp add: normalize_host_def)
  also have "... = normalize_dns_host_or_ip_literal ?t"
    using trim_end_matches_id [of ?t 46] trim_end_matches_last [of 46 name]
    by (simp add: normalize_dns_host_or_ip_literal_def trim_dots_lower)
  also have "... = normalize_host ?t"
  proof -
    have "58 \<notin> set ?t" using assms plain_char_facts [of 58] by (auto simp: plain_domain_def list_all_iff)
    moreover have "\<not> starts_with [91] ?t" using plain_facts(6) [OF assms] by (auto simp: starts_with_iff)
    ultimately show ?thesis using plain_trim [OF assms] by (simp add: normalize_host_def)
  qed
  finally show ?thesis using normalize_plain [OF assms] by simp
qed

lemma localhost_names:
  assumes "to_ascii_lowercase (trim_end_matches 46 name) = lit ''localhost''"
  shows "host_parse name = Some (lit ''localhost'')"
proof -
  let ?t = "trim_end_matches 46 name"
  have low: "plain_char c" if "plain_char (if 65 \<le> c \<and> c \<le> 90 then c + 32 else c)" for c
    using that by (auto simp: plain_char_def split: if_splits)
  have "list_all plain_char (to_ascii_lowercase ?t)" unfolding assms by code_simp
  then have "\<forall>c\<in>set ?t. plain_char (if 65 \<le> c \<and> c \<le> 90 then c + 32 else c)"
    by (simp only: to_ascii_lowercase_def list_all_iff set_map ball_simps)
  then have "list_all plain_char ?t" using low unfolding list_all_iff by blast
  moreover have "?t \<noteq> []" using assms by auto
  ultimately have "plain_domain ?t" using trim_end_matches_last [of 46 name] by (simp add: plain_domain_def)
  from normalize_dotted [OF this] show ?thesis unfolding assms by (simp add: host_parse_def)
qed

lemma localhost_local: "is_local_literal (lit ''localhost'')"
proof -
  have "without_scope (lit ''localhost'') = lit ''localhost''" by code_simp
  then show ?thesis by (simp add: is_local_literal_def is_loopback_host_def Let_def del: lit_Cons)
qed

text \<open>
  C12: A name that resolves differently when the connection is made does not open the local network. As long as local access is off, a
  connection to a private or loopback address is only made when the request named that very address, or \<open>localhost\<close> for a loopback
  address, and the allowlist names it explicitly and the denylist does not match it, whatever name resolution answered
  before.
\<close>

theorem private_addresses_need_their_own_entry:
  assumes "may_connect g lookup show_ip s s' target port addr" "is_non_public_ip addr"
    and "\<not> allow_local_binding (state_config s)" "\<not> allow_local_binding (state_config s')"
    and "host_parse (show_ip addr) = Some text_of_addr" "parse_ip (without_scope text_of_addr) = Some addr"
  shows "\<exists>host. host_parse (target_text show_ip target) = Some host \<and>
    (target = TargetAddress addr \<or> host = lit ''localhost'' \<and> ip_is_loopback addr) \<and>
    is_explicit_local_allowlisted (list_or_nil (allowed_domains (state_config s'))) host \<and>
    \<not> globset_matches_host_or_unscoped g (deny_set s') host"
proof -
  have target: "target_matches_non_public_addr target addr" and allowed: "host_blocked g lookup s' (target_text show_ip target) port = HostAllowed"
    using assms(1-3) by (auto simp: may_connect_def allows_non_public_target_def)
  obtain host where host: "host_parse (target_text show_ip target) = Some host" "is_local_literal host"
      "target = TargetAddress addr \<or> host = lit ''localhost'' \<and> ip_is_loopback addr"
  proof (cases target)
    case (TargetAddress ip)
    have "is_local_literal text_of_addr" using assms(2,6) by (simp add: is_local_literal_def)
    then show ?thesis using that TargetAddress target assms(5) by (simp add: target_text_def)
  next
    case (TargetName name)
    then show ?thesis using that target localhost_names localhost_local by (simp add: target_text_def)
  qed
  then show ?thesis
    using allowed assms(4) by (auto simp: host_blocked_def Let_def split: if_splits)
qed

definition loopback_state :: "(unit, unit) config_state" where
  "loopback_state = example_state\<lparr>
     state_config := default_config\<lparr>domains := Some [\<lparr>entry_pattern = lit ''127.0.0.1'', entry_permission = AllowDomain\<rparr>]\<rparr>,
     allow_set := [lit ''127.0.0.1''], deny_set := []\<rparr>"

lemma loopback_facts:
  "host_parse (lit ''127.0.0.1'') = Some (lit ''127.0.0.1'')" "without_scope (lit ''127.0.0.1'') = lit ''127.0.0.1''"
  "unscoped_ip_literal (lit ''127.0.0.1'') = None" "parse_ip (lit ''127.0.0.1'') = Some (V4 (Ipv4 127 0 0 1))"
  "is_non_public_ip (V4 (Ipv4 127 0 0 1))" "normalize_host (trim (lit ''127.0.0.1'')) = lit ''127.0.0.1''"
proof -
  have plain: "plain_domain (lit ''127.0.0.1'')" by code_simp
  show "host_parse (lit ''127.0.0.1'') = Some (lit ''127.0.0.1'')"
    using host_parse_plain [OF plain] by (simp add: to_ascii_lowercase_def)
  show "normalize_host (trim (lit ''127.0.0.1'')) = lit ''127.0.0.1''"
    using normalize_plain [OF plain] plain_trim [OF plain] by (simp add: to_ascii_lowercase_def)
  show "unscoped_ip_literal (lit ''127.0.0.1'') = None" by code_simp
  then show "without_scope (lit ''127.0.0.1'') = lit ''127.0.0.1''" by (simp add: without_scope_def del: lit_Cons)
  have "show_ipv4 (Ipv4 127 0 0 1) = lit ''127.0.0.1''" by code_simp
  then show "parse_ip (lit ''127.0.0.1'') = Some (V4 (Ipv4 127 0 0 1))"
    using parse_show_ipv4 [of "Ipv4 127 0 0 1"] by simp
  show "is_non_public_ip (V4 (Ipv4 127 0 0 1))" by code_simp
qed

theorem private_addresses_need_their_own_entry_witness:
  "may_connect documented_globs (\<lambda>_ _. None) (\<lambda>_. lit ''127.0.0.1'') loopback_state loopback_state
     (TargetAddress (V4 (Ipv4 127 0 0 1))) 80 (V4 (Ipv4 127 0 0 1)) \<and>
   (\<exists>host. host_parse (lit ''127.0.0.1'') = Some host \<and>
      is_explicit_local_allowlisted (list_or_nil (allowed_domains (state_config loopback_state))) host)"
proof -
  have allowed: "allowed_domains (state_config loopback_state) = Some [lit ''127.0.0.1'']" by code_simp
  have off: "\<not> allow_local_binding (state_config loopback_state)" by (simp add: loopback_state_def default_config_def)
  have "trim (lit ''127.0.0.1'') = lit ''127.0.0.1''" by (intro plain_trim) code_simp
  then have explicit: "is_explicit_local_allowlisted [lit ''127.0.0.1''] (lit ''127.0.0.1'')"
    using loopback_facts(6) by (simp add: is_explicit_local_allowlisted_def Let_def starts_with_iff)
  have "globset_matches_host_or_unscoped documented_globs [lit ''127.0.0.1''] (lit ''127.0.0.1'')"
    unfolding globset_matches_host_or_unscoped_def loopback_facts(3) by code_simp
  moreover have "\<not> globset_matches_host_or_unscoped documented_globs [] (lit ''127.0.0.1'')"
    unfolding globset_matches_host_or_unscoped_def loopback_facts(3) by (simp add: globset_is_match_def)
  moreover have "is_local_literal (lit ''127.0.0.1'')"
    using loopback_facts(2,4,5) by (simp add: is_local_literal_def del: lit_Cons)
  ultimately have "host_blocked documented_globs (\<lambda>_ _. None) loopback_state (lit ''127.0.0.1'') 80 = HostAllowed"
    using explicit unfolding host_blocked_def loopback_facts(1) allowed option.case Let_def
    by (simp add: loopback_state_def del: lit_Cons)
  then have may: "may_connect documented_globs (\<lambda>_ _. None) (\<lambda>_. lit ''127.0.0.1'') loopback_state loopback_state
     (TargetAddress (V4 (Ipv4 127 0 0 1))) 80 (V4 (Ipv4 127 0 0 1))"
    by (simp add: may_connect_def allows_non_public_target_def target_text_def del: lit_Cons)
  have "parse_ip (without_scope (lit ''127.0.0.1'')) = Some (V4 (Ipv4 127 0 0 1))"
    unfolding loopback_facts(2) by (rule loopback_facts(4))
  from private_addresses_need_their_own_entry [OF may loopback_facts(5) off off loopback_facts(1) this] may
  show ?thesis by (auto simp: target_text_def simp del: lit_Cons)
qed

section \<open>Entries that say one thing and mean another\<close>

text \<open>
  Without an expansion flag, a configured entry must be covered by a managed one. The comparison takes an entry with a wildcard as
  it is written, while compiling it cuts it off at its only colon. An entry can thus pass as a name below a managed domain and allow
  another host altogether.
\<close>

theorem constraint_admits_other_host:
  assumes "url_host_of (lit ''example.com'') = Some (lit ''example.com'')"
  shows "pattern_allows (parse_for_constraints url_host_of (lit ''*.example.com''))
      (parse_for_constraints url_host_of (lit ''evil.com:*.example.com'')) \<and>
    expand_domain_pattern (normalize_pattern (lit ''evil.com:*.example.com'')) = [lit ''evil.com'']"
proof -
  have trims: "trim (lit ''*.example.com'') = lit ''*.example.com''" "trim (lit ''example.com'') = lit ''example.com''"
    "trim (lit ''evil.com:*.example.com'') = lit ''evil.com:*.example.com''"
    by (rule trim_no_whitespace, simp add: is_whitespace_def)+
  have ends: "trim_end_matches 46 (lit ''example.com'') = lit ''example.com''"
    "trim_end_matches 46 (lit ''evil.com:*.example.com'') = lit ''evil.com:*.example.com''"
    by (rule trim_end_matches_id, simp)+
  have "parse_for_constraints url_host_of (lit ''*.example.com'') = SubdomainsOnly (lit ''example.com'')"
    using trims(1,2) ends(1) assms by (simp add: parse_for_constraints_def parse_domain_for_constraints_def starts_with_iff)
  moreover have "parse_for_constraints url_host_of (lit ''evil.com:*.example.com'') = ExactDomain (lit ''evil.com:*.example.com'')"
    using trims(3) ends(2) by (simp add: parse_for_constraints_def parse_domain_for_constraints_def starts_with_iff)
  moreover have "pattern_allows (SubdomainsOnly (lit ''example.com'')) (ExactDomain (lit ''evil.com:*.example.com''))" by code_simp
  moreover have "normalize_host (lit ''evil.com:*.example.com'') = normalize_host (lit ''evil.com'')"
  proof -
    have "trim (lit ''evil.com'') = lit ''evil.com''" by (rule trim_no_whitespace) (simp add: is_whitespace_def)
    then show ?thesis using trims(3) by (simp add: normalize_host_def starts_with_iff)
  qed
  moreover have "normalize_host (lit ''evil.com'') = lit ''evil.com''"
    using normalize_plain [of "lit ''evil.com''"] by (simp add: plain_domain_def plain_char_def to_ascii_lowercase_def)
  moreover have "domain_pattern_parse (lit ''evil.com'') = ExactDomain (lit ''evil.com'')"
    using parse_prefixed [of "ExactDomain (lit ''evil.com'')"] by (simp add: plain_domain_def plain_char_def)
  ultimately show ?thesis
    using trims(3) by (simp add: normalize_pattern_def expand_domain_pattern_def)
qed

end
