(* ===== verification/Proxy_Spec.thy ===== *)
theory Proxy_Spec
  imports Proxy_State
begin

text \<open>
  How managed requirements shape the proxy (\<open>config/src/config_requirements.rs\<close>, network part, and
  \<open>core/src/config/network_proxy_spec.rs\<close>): reading the requirements, imposing them on the user's configuration, adding the network rules of
  the execution policy, and building the proxy's state. Shown: whatever the user configures, the constraints of a specification
  are those of its requirements.
\<close>

section \<open>Requirements\<close>

datatype requirement_permission = RequireAllow | RequireDeny

text \<open>\<open>NetworkRequirementsToml\<close> and \<open>NetworkConstraints\<close> have the same fields. Maps are lists in the order of their keys.\<close>

record network_requirements =
  req_enabled :: "bool option"
  req_http_port :: "nat option"
  req_socks_port :: "nat option"
  req_upstream_proxy :: "bool option"
  req_non_loopback_proxy :: "bool option"
  req_all_unix_sockets :: "bool option"
  req_domains :: "(ustr \<times> requirement_permission) list option"
  managed_allowed_domains_only :: "bool option"
  req_unix_sockets :: "(ustr \<times> requirement_permission) list option"
  req_local_binding :: "bool option"

definition default_requirements :: network_requirements where
  "default_requirements =
     \<lparr>req_enabled = None, req_http_port = None, req_socks_port = None, req_upstream_proxy = None, req_non_loopback_proxy = None,
      req_all_unix_sockets = None, req_domains = None, managed_allowed_domains_only = None, req_unix_sockets = None,
      req_local_binding = None\<rparr>"

definition permitted_patterns :: "requirement_permission \<Rightarrow> (ustr \<times> requirement_permission) list \<Rightarrow> ustr list" where
  "permitted_patterns permission entries = map fst (filter (\<lambda>(_, p). p = permission) entries)"

definition toml_allowed_domains :: "(ustr \<times> requirement_permission) list \<Rightarrow> ustr list option" where
  "toml_allowed_domains entries = non_empty (permitted_patterns RequireAllow entries)"

definition toml_denied_domains :: "(ustr \<times> requirement_permission) list \<Rightarrow> ustr list option" where
  "toml_denied_domains entries = non_empty (permitted_patterns RequireDeny entries)"

definition toml_allow_unix_sockets :: "(ustr \<times> requirement_permission) list \<Rightarrow> ustr list" where
  "toml_allow_unix_sockets entries = permitted_patterns RequireAllow entries"

text \<open>The fields of \<open>RawNetworkRequirementsToml\<close> beside those that are taken over: the legacy lists.\<close>

record legacy_lists =
  legacy_allowed_domains :: "ustr list option"
  legacy_denied_domains :: "ustr list option"
  legacy_allow_unix_sockets :: "ustr list option"

datatype requirements_error = DomainsWithLegacyLists | SocketsWithLegacyList

definition legacy_domain_permissions_from_lists :: "ustr list option \<Rightarrow> ustr list option \<Rightarrow> (ustr \<times> requirement_permission) list option" where
  "legacy_domain_permissions_from_lists allowed denied =
     non_empty (foldl (\<lambda>m p. btree_insert p RequireDeny m)
       (foldl (\<lambda>m p. btree_insert p RequireAllow m) [] (list_or_nil allowed)) (list_or_nil denied))"

definition legacy_unix_socket_permissions_from_list :: "ustr list option \<Rightarrow> (ustr \<times> requirement_permission) list option" where
  "legacy_unix_socket_permissions_from_list sockets =
     non_empty (foldl (\<lambda>m p. btree_insert p RequireAllow m) [] (list_or_nil sockets))"

definition requirements_from_raw :: "network_requirements \<Rightarrow> legacy_lists \<Rightarrow> requirements_error + network_requirements" where
  "requirements_from_raw raw legacy =
     (if req_domains raw \<noteq> None \<and> (legacy_allowed_domains legacy \<noteq> None \<or> legacy_denied_domains legacy \<noteq> None)
      then Err DomainsWithLegacyLists
      else if req_unix_sockets raw \<noteq> None \<and> legacy_allow_unix_sockets legacy \<noteq> None then Err SocketsWithLegacyList
      else Ok (raw\<lparr>req_domains := (case req_domains raw of
                     Some d \<Rightarrow> Some d
                   | None \<Rightarrow> legacy_domain_permissions_from_lists (legacy_allowed_domains legacy) (legacy_denied_domains legacy)),
                   req_unix_sockets := (case req_unix_sockets raw of
                     Some d \<Rightarrow> Some d
                   | None \<Rightarrow> legacy_unix_socket_permissions_from_list (legacy_allow_unix_sockets legacy))\<rparr>))"

section \<open>Imposing requirements\<close>

fun managed_sandbox_active :: "permission_profile \<Rightarrow> bool" where
  "managed_sandbox_active (Managed _ _) = True"
| "managed_sandbox_active _ = False"

definition allowlist_expansion :: "permission_profile \<Rightarrow> bool \<Rightarrow> bool" where
  "allowlist_expansion profile hard_deny \<longleftrightarrow> managed_sandbox_active profile \<and> \<not> hard_deny"

definition managed_only :: "network_requirements \<Rightarrow> bool" where
  "managed_only requirements \<longleftrightarrow> managed_allowed_domains_only requirements = Some True"

fun merge_domain_lists :: "ustr list \<Rightarrow> ustr list \<Rightarrow> ustr list" where
  "merge_domain_lists managed [] = managed"
| "merge_domain_lists managed (entry # rest) =
     merge_domain_lists
       (if list_ex (\<lambda>m. to_ascii_lowercase m = to_ascii_lowercase entry) managed then managed else managed @ [entry]) rest"

definition required_allowed :: "network_requirements \<Rightarrow> bool \<Rightarrow> ustr list option" where
  "required_allowed requirements hard_deny =
     (let listed = Option.bind (req_domains requirements) toml_allowed_domains
      in if hard_deny then Some (list_or_nil listed) else listed)"

definition required_denied :: "network_requirements \<Rightarrow> ustr list option" where
  "required_denied requirements = Option.bind (req_domains requirements) toml_denied_domains"

text \<open>The two halves of \<open>apply_requirements\<close>: the scalar settings, then the lists.\<close>

definition loopback_url :: "nat \<Rightarrow> ustr" where
  "loopback_url port = lit ''http://127.0.0.1:'' @ dec port"

definition apply_scalar_requirements ::
  "network_requirements \<Rightarrow> 'j network_proxy_config \<Rightarrow> network_proxy_constraints \<Rightarrow> 'j network_proxy_config \<times> network_proxy_constraints" where
  "apply_scalar_requirements requirements cfg constraints =
     (cfg\<lparr>enabled := (case req_enabled requirements of Some b \<Rightarrow> b | None \<Rightarrow> enabled cfg),
          proxy_url := (case req_http_port requirements of Some p \<Rightarrow> loopback_url p | None \<Rightarrow> proxy_url cfg),
          socks_url := (case req_socks_port requirements of Some p \<Rightarrow> loopback_url p | None \<Rightarrow> socks_url cfg),
          allow_upstream_proxy := (case req_upstream_proxy requirements of Some b \<Rightarrow> b | None \<Rightarrow> allow_upstream_proxy cfg),
          dangerously_allow_non_loopback_proxy :=
            (case req_non_loopback_proxy requirements of Some b \<Rightarrow> b | None \<Rightarrow> dangerously_allow_non_loopback_proxy cfg),
          dangerously_allow_all_unix_sockets :=
            (case req_all_unix_sockets requirements of Some b \<Rightarrow> b | None \<Rightarrow> dangerously_allow_all_unix_sockets cfg),
          allow_local_binding := (case req_local_binding requirements of Some b \<Rightarrow> b | None \<Rightarrow> allow_local_binding cfg)\<rparr>,
      constraints\<lparr>managed_enabled := req_enabled requirements, managed_upstream_proxy := req_upstream_proxy requirements,
        managed_non_loopback_proxy := req_non_loopback_proxy requirements,
        managed_all_unix_sockets := req_all_unix_sockets requirements, managed_local_binding := req_local_binding requirements\<rparr>)"

definition apply_allowed_requirements ::
  "ustr list option \<Rightarrow> bool \<Rightarrow> 'j network_proxy_config \<times> network_proxy_constraints \<Rightarrow> 'j network_proxy_config \<times> network_proxy_constraints" where
  "apply_allowed_requirements required expansion cc =
     (case required of
        None \<Rightarrow> cc
      | Some managed \<Rightarrow>
          (set_allowed_domains
             (if expansion then merge_domain_lists managed (list_or_nil (allowed_domains (fst cc))) else managed) (fst cc),
           (snd cc)\<lparr>managed_allowed_domains := Some managed, allowlist_expansion_enabled := Some expansion\<rparr>))"

definition apply_denied_requirements ::
  "ustr list option \<Rightarrow> bool \<Rightarrow> 'j network_proxy_config \<times> network_proxy_constraints \<Rightarrow> 'j network_proxy_config \<times> network_proxy_constraints" where
  "apply_denied_requirements required expansion cc =
     (case required of
        None \<Rightarrow> cc
      | Some managed \<Rightarrow>
          (set_denied_domains
             (if expansion then merge_domain_lists managed (list_or_nil (denied_domains (fst cc))) else managed) (fst cc),
           (snd cc)\<lparr>managed_denied_domains := Some managed, denylist_expansion_enabled := Some expansion\<rparr>))"

definition apply_socket_requirements ::
  "(ustr \<times> requirement_permission) list option \<Rightarrow> 'j network_proxy_config \<times> network_proxy_constraints \<Rightarrow>
     'j network_proxy_config \<times> network_proxy_constraints" where
  "apply_socket_requirements required cc =
     (case required of
        None \<Rightarrow> cc
      | Some entries \<Rightarrow>
          (set_allow_unix_sockets (toml_allow_unix_sockets entries) (fst cc),
           (snd cc)\<lparr>managed_unix_sockets := Some (toml_allow_unix_sockets entries)\<rparr>))"

definition apply_requirements ::
  "'j network_proxy_config \<Rightarrow> network_requirements \<Rightarrow> permission_profile \<Rightarrow> bool \<Rightarrow> 'j network_proxy_config \<times> network_proxy_constraints" where
  "apply_requirements cfg requirements profile hard_deny =
     apply_socket_requirements (req_unix_sockets requirements)
       (apply_denied_requirements (required_denied requirements) (managed_sandbox_active profile)
         (apply_allowed_requirements (required_allowed requirements hard_deny) (allowlist_expansion profile hard_deny)
           (apply_scalar_requirements requirements cfg default_constraints)))"

section \<open>Specifications\<close>

record 'j network_proxy_spec =
  base_config :: "'j network_proxy_config"
  requirements :: "network_requirements option"
  spec_config :: "'j network_proxy_config"
  spec_constraints :: network_proxy_constraints
  hard_deny_allowlist_misses :: bool

definition from_config_and_constraints ::
  "'m proxy_library \<Rightarrow> 'j network_proxy_config \<Rightarrow> network_requirements option \<Rightarrow> permission_profile \<Rightarrow> constraint_error + 'j network_proxy_spec" where
  "from_config_and_constraints lib cfg reqs profile =
     (let hard_deny = (case reqs of Some r \<Rightarrow> managed_only r | None \<Rightarrow> False);
          (config, constraints) = (case reqs of
             Some r \<Rightarrow> apply_requirements cfg r profile hard_deny
           | None \<Rightarrow> (cfg, default_constraints))
      in case validate_policy_against_constraints lib config constraints of
           Inl e \<Rightarrow> Err e
         | Inr _ \<Rightarrow> Ok \<lparr>base_config = cfg, requirements = reqs, spec_config = config, spec_constraints = constraints,
                        hard_deny_allowlist_misses = hard_deny\<rparr>)"

definition recompute_for_permission_profile ::
  "'m proxy_library \<Rightarrow> 'j network_proxy_spec \<Rightarrow> permission_profile \<Rightarrow> constraint_error + 'j network_proxy_spec" where
  "recompute_for_permission_profile lib spec profile =
     from_config_and_constraints lib (base_config spec) (requirements spec) profile"

definition upsert_network_domains :: "ustr list \<Rightarrow> bool \<Rightarrow> 'j network_proxy_config \<Rightarrow> 'j network_proxy_config" where
  "upsert_network_domains hosts allow cfg =
     foldl (\<lambda>c host. upsert_domain_permission host (if allow then AllowDomain else DenyDomain) normalize_host c) cfg (rev (remdups (rev hosts)))"

definition apply_exec_policy_network_rules :: "policy \<Rightarrow> 'j network_proxy_config \<Rightarrow> 'j network_proxy_config" where
  "apply_exec_policy_network_rules p cfg =
     (case compiled_network_domains p of
        (allowed, denied) \<Rightarrow> upsert_network_domains denied False (upsert_network_domains allowed True cfg))"

definition with_exec_policy_network_rules ::
  "'m proxy_library \<Rightarrow> policy \<Rightarrow> 'j network_proxy_spec \<Rightarrow> constraint_error + 'j network_proxy_spec" where
  "with_exec_policy_network_rules lib p spec =
     (let config = apply_exec_policy_network_rules p (spec_config spec)
      in case validate_policy_against_constraints lib config (spec_constraints spec) of
           Inl e \<Rightarrow> Err e
         | Inr _ \<Rightarrow> Ok (spec\<lparr>spec_config := config\<rparr>))"

definition build_config_state_for_spec :: "'m proxy_library \<Rightarrow> 'j network_proxy_spec \<Rightarrow> build_error + ('j, 'm) config_state" where
  "build_config_state_for_spec lib spec = build_config_state lib (spec_config spec) (spec_constraints spec)"

text \<open>The decider that \<open>start_proxy\<close> installs.\<close>

definition effective_decider ::
  "'j network_proxy_spec \<Rightarrow> permission_profile \<Rightarrow> (network_policy_request \<Rightarrow> network_decision) option \<Rightarrow> bool \<Rightarrow>
     (network_policy_request \<Rightarrow> network_decision) option" where
  "effective_decider spec profile policy_decider enable_network_approval_flow =
     (if enable_network_approval_flow \<and> \<not> hard_deny_allowlist_misses spec then
        (case policy_decider of
           Some d \<Rightarrow> Some d
         | None \<Rightarrow> if managed_sandbox_active profile then Some (\<lambda>_. network_ask NOT_ALLOWED) else None)
      else None)"

text \<open>The specifications that come from the same requirements.\<close>

inductive spec_made :: "'m proxy_library \<Rightarrow> network_requirements option \<Rightarrow> 'j network_proxy_spec \<Rightarrow> bool" for lib reqs where
  made: "from_config_and_constraints lib cfg reqs profile = Ok spec \<Longrightarrow> spec_made lib reqs spec"
| recomputed: "spec_made lib reqs spec \<Longrightarrow> recompute_for_permission_profile lib spec profile = Ok spec' \<Longrightarrow> spec_made lib reqs spec'"
| ruled: "spec_made lib reqs spec \<Longrightarrow> with_exec_policy_network_rules lib p spec = Ok spec' \<Longrightarrow> spec_made lib reqs spec'"

section \<open>Constraints of a specification\<close>

definition constraints_from :: "network_requirements \<Rightarrow> network_proxy_constraints \<Rightarrow> bool" where
  "constraints_from r c \<longleftrightarrow>
     managed_enabled c = req_enabled r \<and> managed_upstream_proxy c = req_upstream_proxy r \<and>
     managed_non_loopback_proxy c = req_non_loopback_proxy r \<and> managed_all_unix_sockets c = req_all_unix_sockets r \<and>
     managed_local_binding c = req_local_binding r \<and>
     managed_allowed_domains c = required_allowed r (managed_only r) \<and> managed_denied_domains c = required_denied r \<and>
     (managed_only r \<longrightarrow> allowlist_expansion_enabled c = Some False)"

lemma apply_requirements_constraints: "constraints_from r (snd (apply_requirements cfg r profile (managed_only r)))"
  by (simp add: constraints_from_def apply_requirements_def apply_socket_requirements_def apply_denied_requirements_def
      apply_allowed_requirements_def apply_scalar_requirements_def default_constraints_def allowlist_expansion_def
      required_allowed_def Let_def split: option.split)

lemma spec_from_config:
  assumes "from_config_and_constraints lib cfg reqs profile = Ok spec"
  shows "requirements spec = reqs"
    "validate_policy_against_constraints lib (spec_config spec) (spec_constraints spec) = Ok ()"
    "reqs = Some r \<Longrightarrow> constraints_from r (spec_constraints spec) \<and> hard_deny_allowlist_misses spec = managed_only r"
  using assms apply_requirements_constraints [of r cfg profile]
  by (auto simp: from_config_and_constraints_def Let_def split: sum.splits option.splits prod.splits)

lemma spec_made_facts:
  assumes "spec_made lib reqs spec"
  shows "requirements spec = reqs \<and> validate_policy_against_constraints lib (spec_config spec) (spec_constraints spec) = Ok () \<and>
    (reqs = Some r \<longrightarrow> constraints_from r (spec_constraints spec) \<and> hard_deny_allowlist_misses spec = managed_only r)"
  using assms
proof induction
  case (made cfg profile spec)
  then show ?case using spec_from_config [OF made] by blast
next
  case (recomputed spec profile spec')
  from recomputed spec_from_config [of lib "base_config spec" reqs profile spec'] show ?case
    unfolding recompute_for_permission_profile_def by metis
next
  case (ruled spec p spec')
  then show ?case by (auto simp: with_exec_policy_network_rules_def Let_def split: sum.splits)
qed

text \<open>States handed to the proxy: built from a specification of the same requirements.\<close>

definition provided_state :: "'m proxy_library \<Rightarrow> network_requirements option \<Rightarrow> ('j, 'm) config_state \<Rightarrow> bool" where
  "provided_state lib reqs s \<longleftrightarrow> (\<exists>spec. spec_made lib reqs spec \<and> build_config_state_for_spec lib spec = Ok s)"

lemma provided_facts:
  assumes "provided_state lib reqs s"
  shows "coherent lib s" "blocked s = []" "blocked_total s = 0"
    "reqs = Some r \<Longrightarrow> constraints_from r (state_constraints s)"
proof -
  from assms obtain spec where spec: "spec_made lib reqs spec" "build_config_state lib (spec_config spec) (spec_constraints spec) = Ok s"
    by (auto simp: provided_state_def build_config_state_for_spec_def)
  note facts = spec_made_facts [OF spec(1)] and build = build_facts [OF spec(2)]
  show "coherent lib s" using facts build(5) by blast
  show "blocked s = []" "blocked_total s = 0" by (rule build)+
  show "reqs = Some r \<Longrightarrow> constraints_from r (state_constraints s)" using facts build(2) by simp
qed

section \<open>Managed lists\<close>

lemma validated_lists:
  assumes "validate_policy_against_constraints lib cfg c = Ok ()"
  shows "managed_denied_domains c = Some managed \<Longrightarrow> lower_set managed \<subseteq> lower_set (list_or_nil (denied_domains cfg))"
    and "managed_allowed_domains c = Some managed \<Longrightarrow> allowlist_expansion_enabled c = Some False \<Longrightarrow>
      lower_set (list_or_nil (allowed_domains cfg)) = lower_set managed - lower_set (list_or_nil (denied_domains cfg))"
    and "managed_local_binding c = Some False \<Longrightarrow> \<not> allow_local_binding cfg"
proof -
  have all: "managed_denied_domains c = Some managed \<Longrightarrow> validate_denied_domains c managed (list_or_nil (denied_domains cfg)) = Ok ()"
    "managed_allowed_domains c = Some managed \<Longrightarrow>
      validate_allowed_domains (url_host lib) c managed (list_or_nil (allowed_domains cfg)) (list_or_nil (denied_domains cfg)) = Ok ()"
    "validate_flag (allow_local_binding cfg) (unless_forbidden (managed_local_binding c)) (lit ''network.allow_local_binding'') = Ok ()"
    using assms unfolding validate_policy_against_constraints_def Let_def first_error_Ok list_all_append by (simp_all del: lit_Cons)
  show "managed_denied_domains c = Some managed \<Longrightarrow> lower_set managed \<subseteq> lower_set (list_or_nil (denied_domains cfg))"
    using all(1) by (auto simp: validate_denied_domains_def simp del: lit_Cons split: option.splits bool.splits)
  show "managed_allowed_domains c = Some managed \<Longrightarrow> allowlist_expansion_enabled c = Some False \<Longrightarrow>
      lower_set (list_or_nil (allowed_domains cfg)) = lower_set managed - lower_set (list_or_nil (denied_domains cfg))"
    using all(2) by (simp add: validate_allowed_domains_def del: lit_Cons)
  show "managed_local_binding c = Some False \<Longrightarrow> \<not> allow_local_binding cfg"
    using all(3) by (simp add: validate_flag_def del: lit_Cons)
qed

lemma lower_plain: "to_ascii_lowercase e = to_ascii_lowercase d \<Longrightarrow> plain_domain d \<Longrightarrow> plain_domain e"
proof -
  assume eq: "to_ascii_lowercase e = to_ascii_lowercase d" and d: "plain_domain d"
  have low: "plain_char c" if "plain_char (if 65 \<le> c \<and> c \<le> 90 then c + 32 else c)" for c
    using that by (auto simp: plain_char_def split: if_splits)
  have low_d: "plain_domain (to_ascii_lowercase e)" unfolding eq by (rule plain_lower [OF d])
  then have "list_all plain_char (to_ascii_lowercase e)" by (simp add: plain_domain_def)
  then have "\<forall>c\<in>set e. plain_char (if 65 \<le> c \<and> c \<le> 90 then c + 32 else c)"
    by (simp only: to_ascii_lowercase_def list_all_iff set_map ball_simps)
  then have "list_all plain_char e" using low unfolding list_all_iff by blast
  moreover have "e \<noteq> []" "last e \<noteq> 46" using low_d last_lower [of e] by (auto simp: plain_domain_def)
  ultimately show ?thesis by (simp add: plain_domain_def)
qed

lemma lower_prefix:
  assumes "to_ascii_lowercase e = pattern_prefix p @ s"
  shows "\<exists>t. e = pattern_prefix p @ t \<and> to_ascii_lowercase t = s"
proof -
  have star: "(if 65 \<le> c \<and> c \<le> 90 then c + 32 else c) = 42 \<longleftrightarrow> c = 42" "(if 65 \<le> c \<and> c \<le> 90 then c + 32 else c) = 46 \<longleftrightarrow> c = 46" for c :: nat
    by auto
  show ?thesis
    using assms by (cases p) (auto simp: to_ascii_lowercase_def map_eq_Cons_conv star simp del: if_split)
qed

lemma same_up_to_case:
  assumes "to_ascii_lowercase e = to_ascii_lowercase d" "ordinary_entry d"
  shows "ordinary_entry e" "entry_matches host e \<longleftrightarrow> entry_matches host d"
proof -
  from assms(2) obtain p where p: "domain_pattern_parse d = p" "plain_domain (pattern_domain p)" "d = pattern_prefix p @ pattern_domain p"
    by (rule ordinary_entryE)
  have "to_ascii_lowercase e = pattern_prefix p @ to_ascii_lowercase (pattern_domain p)"
    unfolding assms(1) by (subst p(3)) (cases p; simp add: to_ascii_lowercase_def)
  then obtain t where t: "e = pattern_prefix p @ t" "to_ascii_lowercase t = to_ascii_lowercase (pattern_domain p)"
    using lower_prefix by blast
  let ?q = "map_domain (\<lambda>_. t) p"
  have plain: "plain_domain (pattern_domain ?q)" using lower_plain [OF t(2) p(2)] by simp
  have e: "e = pattern_prefix ?q @ pattern_domain ?q" using t(1) by simp
  show "ordinary_entry e" using ordinary_prefixed [OF plain] e by simp
  have parsed: "domain_pattern_parse e = ?q" using parse_prefixed [OF plain] e by simp
  have "map_domain to_ascii_lowercase ?q = map_domain to_ascii_lowercase p" using t(2) by (cases p) simp_all
  then have "pattern_matches_host ?q h \<longleftrightarrow> pattern_matches_host p h" for h by (metis matches_map_lower)
  then show "entry_matches host e \<longleftrightarrow> entry_matches host d" by (simp add: entry_matches_def parsed p(1) cong: option.case_cong)
qed

text \<open>An entry whose glob is in the set is matched, whatever the other entries are.\<close>

lemma ordinary_member_matches:
  assumes "domain_globs g" "compile_globset_with_policy g patterns w = Ok globset" "e \<in> set patterns" "ordinary_entry e" "entry_matches host e"
  shows "globset_matches_host_or_unscoped g globset host"
proof -
  have "set globset = (\<Union>p\<in>set patterns. set (expand_domain_pattern (normalize_pattern p)))"
    using assms(2) add_patterns_set [of g w patterns "[]"]
    by (auto simp: compile_globset_with_policy_def split: sum.splits if_splits)
  then have "globset_is_match g globset h" if "pattern_matches_host (domain_pattern_parse e) h" for h
    using ordinary_glob_match [OF assms(1,4), of h] that assms(3) by (auto simp: globset_is_match_def list_ex_iff)
  then show ?thesis
    using assms(5) by (auto simp: globset_matches_host_or_unscoped_def entry_matches_def split: option.splits)
qed

lemma coherent_valid: "coherent lib s \<Longrightarrow> validate_policy_against_constraints lib (state_config s) (state_constraints s) = Ok ()"
  by (simp add: coherent_def)

text \<open>What a coherent state under these constraints decides.\<close>

lemma managed_denial:
  assumes "coherent lib s" "domain_globs (globs lib)" "managed_denied_domains (state_constraints s) = Some managed"
    and "d \<in> set managed" "ordinary_entry d" "host_parse host_text = Some host" "entry_matches host d"
  shows "host_blocked (globs lib) lookup s host_text port = HostBlocked DeniedHost"
proof -
  have "lower_set managed \<subseteq> lower_set (list_or_nil (denied_domains (state_config s)))"
    by (rule validated_lists(1) [OF coherent_valid [OF assms(1)] assms(3)])
  then have "to_ascii_lowercase d \<in> to_ascii_lowercase ` set (list_or_nil (denied_domains (state_config s)))"
    using assms(4) unfolding lower_set_def by blast
  then obtain e where e: "to_ascii_lowercase e = to_ascii_lowercase d" "e \<in> set (list_or_nil (denied_domains (state_config s)))"
    by (elim imageE) (rule that, rule sym)
  have "compile_globset_with_policy (globs lib) (list_or_nil (denied_domains (state_config s))) RejectWildcard = Ok (deny_set s)"
    using assms(1) by (simp add: coherent_def compile_denylist_globset_def)
  from ordinary_member_matches [OF assms(2) this e(2)] same_up_to_case [OF e(1) assms(5)] assms(7)
  have "globset_matches_host_or_unscoped (globs lib) (deny_set s) host" by blast
  then show ?thesis by (simp add: host_blocked_def assms(6) Let_def)
qed

lemma managed_allowance:
  assumes "coherent lib s" "domain_globs (globs lib)" "managed_allowed_domains (state_constraints s) = Some managed"
    and "allowlist_expansion_enabled (state_constraints s) = Some False" "list_all ordinary_entry managed"
    and "host_parse host_text = Some host" "host_blocked (globs lib) lookup s host_text port = HostAllowed"
  shows "\<exists>m\<in>set managed. entry_matches host m"
proof -
  have sub: "lower_set (list_or_nil (allowed_domains (state_config s))) \<subseteq> lower_set managed"
    using validated_lists(2) [OF coherent_valid [OF assms(1)] assms(3,4)] by blast
  have managed: "\<exists>m\<in>set managed. to_ascii_lowercase e = to_ascii_lowercase m"
    if "e \<in> set (list_or_nil (allowed_domains (state_config s)))" for e
    using sub that unfolding lower_set_def by blast
  then have "list_all ordinary_entry (list_or_nil (allowed_domains (state_config s)))"
    using assms(5) same_up_to_case(1) unfolding list_all_iff by metis
  moreover have "compile_globset_with_policy (globs lib) (list_or_nil (allowed_domains (state_config s))) AllowWildcard = Ok (allow_set s)"
    using assms(1) by (simp add: coherent_def compile_allowlist_globset_def)
  ultimately have "globset_matches_host_or_unscoped (globs lib) (allow_set s) host \<longleftrightarrow>
      (\<exists>e\<in>set (list_or_nil (allowed_domains (state_config s))). entry_matches host e)"
    using compiled_set_matches [OF assms(2)] by blast
  moreover have "globset_matches_host_or_unscoped (globs lib) (allow_set s) host"
    using assms(6,7) by (auto simp: host_blocked_def Let_def split: if_splits)
  ultimately show ?thesis using managed same_up_to_case(2) assms(5) unfolding list_all_iff by metis
qed

end
