(* ===== verification/Proxy_Flow.thy ===== *)
theory Proxy_Flow
  imports Proxy_Spec
begin

text \<open>
  The proxy's shared state under concurrent use (\<open>network-proxy/src/runtime.rs\<close>). Every operation first gives the configuration a chance
  to be reloaded and then takes the state's lock once or twice; between two of its critical sections other operations may
  run. An operation is a task that goes from one critical section to the next, and the system interleaves the tasks in any
  order. The states that come in by reloading or replacing are those built from the managed requirements.
\<close>

section \<open>Operations\<close>

definition MAX_BLOCKED_EVENTS :: nat where
  "MAX_BLOCKED_EVENTS = 200"

definition max_u64 :: nat where
  "max_u64 = 2 ^ 64 - 1"

datatype domain_list_kind = AllowList | DenyList

fun list_permission :: "domain_list_kind \<Rightarrow> network_domain_permission" where
  "list_permission AllowList = AllowDomain"
| "list_permission DenyList = DenyDomain"

fun list_entries :: "domain_list_kind \<Rightarrow> 'j network_proxy_config \<Rightarrow> ustr list" where
  "list_entries AllowList cfg = list_or_nil (allowed_domains cfg)"
| "list_entries DenyList cfg = list_or_nil (denied_domains cfg)"

fun opposite_entries :: "domain_list_kind \<Rightarrow> 'j network_proxy_config \<Rightarrow> ustr list" where
  "opposite_entries AllowList cfg = list_or_nil (denied_domains cfg)"
| "opposite_entries DenyList cfg = list_or_nil (allowed_domains cfg)"

datatype proxy_error =
    InvalidNetworkHost
  | ReloadError
  | BrokerCannotChange
  | ModeConstrained constraint_error
  | ListConstrained domain_list_kind constraint_error
  | ListNotCompiled domain_list_kind build_error

text \<open>Operations after their arguments are checked. The reads of single settings are projections of \<open>ReadConfig\<close>.\<close>

datatype ('j, 'm) operation =
    SetNetworkMode network_mode
  | UpdateDomainList ustr domain_list_kind
  | RecordBlocked "ustr option" proxy_blocked_request
  | DrainBlocked
  | BlockedSnapshot
  | ReplaceConfigState "('j, 'm) config_state"
  | ReadConfig
  | CheckHost ustr nat

datatype 'j answer =
    NoAnswer
  | BlockedEntries "proxy_blocked_request list"
  | ObserverNotified proxy_blocked_request
  | ConfigAnswer "'j network_proxy_config"
  | HostAnswer host_block_decision

text \<open>Where an operation is: before reloading, with a reloaded state, at its own critical section, or between its two sections.\<close>

datatype ('j, 'm) task =
    Reloading "('j, 'm) operation"
  | ReloadRead "('j, 'm) operation" "('j, 'm) config_state"
  | ReloadWrite "('j, 'm) operation" "('j, 'm) config_state"
  | Ready "('j, 'm) operation"
  | ModeWrite network_mode network_proxy_constraints
  | ListWrite ustr domain_list_kind "'j network_proxy_config" network_proxy_constraints "('j, 'm) config_state"
  | ForceReloading
  | ForceWrite "('j, 'm) config_state"
  | Completed "proxy_error + 'j answer"

text \<open>What the reloader answers: an error, nothing new, or a state.\<close>

datatype ('j, 'm) reload = ReloadFails | UpToDate | Fresh "('j, 'm) config_state"

definition record_blocked_entry :: "ustr option \<Rightarrow> proxy_blocked_request \<Rightarrow> ('j, 'm) config_state \<Rightarrow> ('j, 'm) config_state" where
  "record_blocked_entry execution_id entry s =
     (let entries = blocked s @ [entry\<lparr>blocked_execution_id := execution_id\<rparr>]
      in s\<lparr>blocked := drop (length entries - MAX_BLOCKED_EVENTS) entries, blocked_total := min max_u64 (blocked_total s + 1)\<rparr>)"

definition set_network_mode_start :: "'m proxy_library \<Rightarrow> network_mode \<Rightarrow> ('j, 'm) config_state \<Rightarrow> ('j, 'm) task" where
  "set_network_mode_start lib m s =
     (case validate_policy_against_constraints lib ((state_config s)\<lparr>mode := m\<rparr>) (state_constraints s) of
        Inl e \<Rightarrow> Completed (Err (ModeConstrained e))
      | Inr _ \<Rightarrow> ModeWrite m (state_constraints s))"

definition update_domain_list_start ::
  "'m proxy_library \<Rightarrow> ustr \<Rightarrow> domain_list_kind \<Rightarrow> ('j, 'm) config_state \<Rightarrow> ('j, 'm) task" where
  "update_domain_list_start lib host which s =
     (let cfg = state_config s;
          target_contains = list_ex (\<lambda>e. normalize_host e = host) (list_entries which cfg);
          opposite_contains = list_ex (\<lambda>e. normalize_host e = host) (opposite_entries which cfg);
          candidate = upsert_domain_permission host (list_permission which) normalize_host cfg
      in if target_contains \<and> \<not> opposite_contains then Completed (Ok NoAnswer)
         else case validate_policy_against_constraints lib candidate (state_constraints s) of
                Inl e \<Rightarrow> Completed (Err (ListConstrained which e))
              | Inr _ \<Rightarrow>
                  (case build_config_state lib candidate (state_constraints s) of
                     Inl e \<Rightarrow> Completed (Err (ListNotCompiled which e))
                   | Inr n \<Rightarrow>
                       ListWrite host which cfg (state_constraints s) (n\<lparr>blocked := blocked s, blocked_total := blocked_total s\<rparr>)))"

fun perform_operation ::
  "'m proxy_library \<Rightarrow> dns_lookup \<Rightarrow> bool \<Rightarrow> ('j, 'm) operation \<Rightarrow> ('j, 'm) config_state \<Rightarrow> ('j, 'm) task \<times> ('j, 'm) config_state" where
  "perform_operation lib lookup broker (SetNetworkMode m) s = (set_network_mode_start lib m s, s)"
| "perform_operation lib lookup broker (UpdateDomainList host which) s = (update_domain_list_start lib host which s, s)"
| "perform_operation lib lookup broker (RecordBlocked execution_id entry) s =
     (Completed (Ok (ObserverNotified (entry\<lparr>blocked_execution_id := execution_id\<rparr>))), record_blocked_entry execution_id entry s)"
| "perform_operation lib lookup broker DrainBlocked s = (Completed (Ok (BlockedEntries (blocked s))), s\<lparr>blocked := []\<rparr>)"
| "perform_operation lib lookup broker BlockedSnapshot s = (Completed (Ok (BlockedEntries (blocked s))), s)"
| "perform_operation lib lookup broker (ReplaceConfigState n) s =
     (if broker = credential_broker (state_config n)
      then (Completed (Ok NoAnswer), n\<lparr>blocked := blocked s, blocked_total := blocked_total s\<rparr>)
      else (Completed (Err BrokerCannotChange), s))"
| "perform_operation lib lookup broker ReadConfig s = (Completed (Ok (ConfigAnswer (state_config s))), s)"
| "perform_operation lib lookup broker (CheckHost host port) s =
     (Completed (Ok (HostAnswer (host_blocked (globs lib) lookup s host port))), s)"

text \<open>The second critical sections of the operations that have two, and the loading of new states. \<open>broker\<close> is the enablement of the credential broker, fixed when
  the proxy starts.\<close>

definition set_network_mode_write ::
  "network_mode \<Rightarrow> network_proxy_constraints \<Rightarrow> ('j, 'm) config_state \<Rightarrow> ('j, 'm) task \<times> ('j, 'm) config_state" where [simp]:
  "set_network_mode_write m constraints s =
     (if state_constraints s \<noteq> constraints then (Reloading (SetNetworkMode m), s)
      else (Completed (Ok NoAnswer), s\<lparr>state_config := (state_config s)\<lparr>mode := m\<rparr>\<rparr>))"

definition update_domain_list_write ::
  "ustr \<Rightarrow> domain_list_kind \<Rightarrow> 'j network_proxy_config \<Rightarrow> network_proxy_constraints \<Rightarrow> ('j, 'm) config_state \<Rightarrow>
     ('j, 'm) config_state \<Rightarrow> ('j, 'm) task \<times> ('j, 'm) config_state" where [simp]:
  "update_domain_list_write host which previous constraints n s =
     (if state_constraints s \<noteq> constraints \<or> state_config s \<noteq> previous then (Reloading (UpdateDomainList host which), s)
      else (Completed (Ok NoAnswer), n))"

definition reload_if_needed_load :: "bool \<Rightarrow> ('j, 'm) reload \<Rightarrow> ('j, 'm) operation \<Rightarrow> ('j, 'm) task" where [simp]:
  "reload_if_needed_load broker r op =
     (case r of
        ReloadFails \<Rightarrow> Completed (Err ReloadError)
      | UpToDate \<Rightarrow> Ready op
      | Fresh n \<Rightarrow> if broker = credential_broker (state_config n) then ReloadRead op n else Completed (Err BrokerCannotChange))"

definition force_reload_load :: "bool \<Rightarrow> ('j, 'm) reload \<Rightarrow> ('j, 'm) task option" where [simp]:
  "force_reload_load broker r =
     (case r of
        ReloadFails \<Rightarrow> Some (Completed (Err ReloadError))
      | UpToDate \<Rightarrow> None
      | Fresh n \<Rightarrow> Some (if broker = credential_broker (state_config n) then ForceWrite n else Completed (Err BrokerCannotChange)))"

text \<open>One critical section of a task.\<close>

fun advance_task ::
  "'m proxy_library \<Rightarrow> dns_lookup \<Rightarrow> bool \<Rightarrow> ('j, 'm) reload \<Rightarrow> ('j, 'm) task \<Rightarrow> ('j, 'm) config_state \<Rightarrow>
     (('j, 'm) task \<times> ('j, 'm) config_state) option" where
  "advance_task lib lookup broker r (Reloading op) s = Some (reload_if_needed_load broker r op, s)"
| "advance_task lib lookup broker r (ReloadRead op n) s =
     Some (ReloadWrite op (n\<lparr>blocked := blocked s, blocked_total := blocked_total s\<rparr>), s)"
| "advance_task lib lookup broker r (ReloadWrite op n) s = Some (Ready op, n)"
| "advance_task lib lookup broker r (Ready op) s = Some (perform_operation lib lookup broker op s)"
| "advance_task lib lookup broker r (ModeWrite m constraints) s = Some (set_network_mode_write m constraints s)"
| "advance_task lib lookup broker r (ListWrite host which previous constraints n) s =
     Some (update_domain_list_write host which previous constraints n s)"
| "advance_task lib lookup broker r ForceReloading s = map_option (\<lambda>t. (t, s)) (force_reload_load broker r)"
| "advance_task lib lookup broker r (ForceWrite n) s = Some (Completed (Ok NoAnswer), n\<lparr>blocked := blocked s\<rparr>)"
| "advance_task lib lookup broker r (Completed answer) s = None"

text \<open>\<open>add_allowed_domain\<close> and \<open>add_denied_domain\<close>.\<close>

definition update_domain_list :: "ustr \<Rightarrow> domain_list_kind \<Rightarrow> ('j, 'm) task" where
  "update_domain_list host_text which =
     (case host_parse host_text of
        None \<Rightarrow> Completed (Err InvalidNetworkHost)
      | Some host \<Rightarrow> Reloading (UpdateDomainList host which))"

section \<open>The system\<close>

record ('j, 'm) proxy_system =
  shared :: "('j, 'm) config_state"
  tasks :: "('j, 'm) task list"

text \<open>Tasks as they start.\<close>

fun starting :: "(('j, 'm) config_state \<Rightarrow> bool) \<Rightarrow> ('j, 'm) task \<Rightarrow> bool" where
  "starting provided (Reloading (ReplaceConfigState n)) = provided n"
| "starting provided (Reloading op) = True"
| "starting provided ForceReloading = True"
| "starting provided (Completed answer) = True"
| "starting provided _ = False"

fun reload_provided :: "(('j, 'm) config_state \<Rightarrow> bool) \<Rightarrow> ('j, 'm) reload \<Rightarrow> bool" where
  "reload_provided provided (Fresh n) = provided n"
| "reload_provided provided _ = True"

inductive proxy_reachable ::
  "'m proxy_library \<Rightarrow> bool \<Rightarrow> (('j, 'm) config_state \<Rightarrow> bool) \<Rightarrow> ('j, 'm) proxy_system \<Rightarrow> bool" for lib broker provided where
  launched: "provided s \<Longrightarrow> broker = credential_broker (state_config s) \<Longrightarrow> proxy_reachable lib broker provided \<lparr>shared = s, tasks = []\<rparr>"
| called: "proxy_reachable lib broker provided sys \<Longrightarrow> starting provided t \<Longrightarrow>
     proxy_reachable lib broker provided (sys\<lparr>tasks := tasks sys @ [t]\<rparr>)"
| advanced: "proxy_reachable lib broker provided sys \<Longrightarrow> i < length (tasks sys) \<Longrightarrow> reload_provided provided r \<Longrightarrow>
     advance_task lib lookup broker r (tasks sys ! i) (shared sys) = Some (t, s) \<Longrightarrow>
     proxy_reachable lib broker provided \<lparr>shared = s, tasks = (tasks sys)[i := t]\<rparr>"

section \<open>The invariant\<close>

lemma mode_update_simps [simp]:
  "allowed_domains (cfg\<lparr>mode := m\<rparr>) = allowed_domains cfg" "denied_domains (cfg\<lparr>mode := m\<rparr>) = denied_domains cfg"
  "allow_unix_sockets (cfg\<lparr>mode := m\<rparr>) = allow_unix_sockets cfg"
  "validate_mitm_hook_config l (cfg\<lparr>mode := m\<rparr>) = validate_mitm_hook_config l cfg"
  "compile_mitm_hooks_with_resolvers l secrets (cfg\<lparr>mode := m\<rparr>) = compile_mitm_hooks_with_resolvers l secrets cfg"
  by (simp_all add: allowed_domains_def denied_domains_def domain_entries_def allow_unix_sockets_def validate_mitm_hook_config_def
      compile_mitm_hooks_with_resolvers_def cong: option.case_cong sum.case_cong)

text \<open>The mode is checked on its own, so a mode that one configuration may take under the constraints, every valid one may take.\<close>

lemma mode_is_independent:
  assumes "validate_policy_against_constraints lib (cfg\<lparr>mode := m\<rparr>) c = Ok ()" "validate_policy_against_constraints lib cfg' c = Ok ()"
  shows "validate_policy_against_constraints lib (cfg'\<lparr>mode := m\<rparr>) c = Ok ()"
proof -
  have "(case managed_mode c of
      Some max_mode \<Rightarrow> ensure (network_mode_rank m \<le> network_mode_rank max_mode) (InvalidValue (lit ''network.mode''))
    | None \<Rightarrow> Ok ()) = Ok ()"
    using assms(1) unfolding validate_policy_against_constraints_def Let_def first_error_Ok list_all_append by (simp del: lit_Cons cong: option.case_cong)
  then show ?thesis
    using assms(2) unfolding validate_policy_against_constraints_def Let_def first_error_Ok list_all_append by (simp del: lit_Cons cong: option.case_cong)
qed

lemma coherent_mode:
  assumes "coherent lib s" "validate_policy_against_constraints lib (cfg\<lparr>mode := m\<rparr>) (state_constraints s) = Ok ()"
  shows "coherent lib (s\<lparr>state_config := (state_config s)\<lparr>mode := m\<rparr>\<rparr>)"
  using assms(1) mode_is_independent [OF assms(2) coherent_valid [OF assms(1)]] by (simp add: coherent_def)

lemma coherent_buffer [simp]:
  "coherent lib (s\<lparr>blocked := b\<rparr>) = coherent lib s" "coherent lib (s\<lparr>blocked_total := n\<rparr>) = coherent lib s"
  by (simp_all add: coherent_def)

definition good_state :: "'m proxy_library \<Rightarrow> bool \<Rightarrow> (network_proxy_constraints \<Rightarrow> bool) \<Rightarrow> ('j, 'm) config_state \<Rightarrow> bool" where
  "good_state lib broker governed s \<longleftrightarrow>
     coherent lib s \<and> governed (state_constraints s) \<and> credential_broker (state_config s) = broker \<and>
     length (blocked s) \<le> MAX_BLOCKED_EVENTS \<and> blocked_total s \<le> max_u64"

fun operation_ok :: "(('j, 'm) config_state \<Rightarrow> bool) \<Rightarrow> ('j, 'm) operation \<Rightarrow> bool" where
  "operation_ok provided (ReplaceConfigState n) = provided n"
| "operation_ok provided _ = True"

fun task_ok ::
  "'m proxy_library \<Rightarrow> bool \<Rightarrow> (network_proxy_constraints \<Rightarrow> bool) \<Rightarrow> (('j, 'm) config_state \<Rightarrow> bool) \<Rightarrow> ('j, 'm) task \<Rightarrow> bool" where
  "task_ok lib broker governed provided (Reloading op) = operation_ok provided op"
| "task_ok lib broker governed provided (ReloadRead op n) \<longleftrightarrow>
     operation_ok provided op \<and> provided n \<and> credential_broker (state_config n) = broker"
| "task_ok lib broker governed provided (ReloadWrite op n) \<longleftrightarrow> operation_ok provided op \<and> good_state lib broker governed n"
| "task_ok lib broker governed provided (Ready op) = operation_ok provided op"
| "task_ok lib broker governed provided (ModeWrite m c) \<longleftrightarrow>
     (\<exists>cfg :: 'j network_proxy_config. validate_policy_against_constraints lib (cfg\<lparr>mode := m\<rparr>) c = Ok ())"
| "task_ok lib broker governed provided (ListWrite host which previous c n) = good_state lib broker governed n"
| "task_ok lib broker governed provided ForceReloading = True"
| "task_ok lib broker governed provided (ForceWrite n) \<longleftrightarrow> provided n \<and> credential_broker (state_config n) = broker"
| "task_ok lib broker governed provided (Completed answer) = True"

lemma good_record:
  assumes "good_state lib broker governed s"
  shows "good_state lib broker governed (record_blocked_entry execution_id entry s)"
  using assms by (simp add: good_state_def record_blocked_entry_def Let_def MAX_BLOCKED_EVENTS_def)

lemma upsert_broker: "credential_broker (upsert_domain_permission host p f cfg) = credential_broker cfg"
  by (simp add: upsert_domain_permission_def)

text \<open>What the environment of the proxy promises of the states that it hands in.\<close>

locale state_provider =
  fixes lib :: "'m proxy_library" and broker :: bool
    and governed :: "network_proxy_constraints \<Rightarrow> bool" and provided :: "('j, 'm) config_state \<Rightarrow> bool"
  assumes provided_coherent: "provided s \<Longrightarrow> coherent lib s"
    and provided_governed: "provided s \<Longrightarrow> governed (state_constraints s)"
    and provided_buffer: "provided s \<Longrightarrow> length (blocked s) \<le> MAX_BLOCKED_EVENTS \<and> blocked_total s \<le> max_u64"
begin

abbreviation good :: "('j, 'm) config_state \<Rightarrow> bool" where
  "good \<equiv> good_state lib broker governed"

abbreviation fine :: "('j, 'm) task \<Rightarrow> bool" where
  "fine \<equiv> task_ok lib broker governed provided"

lemma replaced_good:
  assumes "good s" "provided n" "credential_broker (state_config n) = broker"
  shows "good (n\<lparr>blocked := blocked s, blocked_total := blocked_total s\<rparr>)" "good (n\<lparr>blocked := blocked s\<rparr>)"
  using assms provided_coherent provided_governed provided_buffer by (auto simp: good_state_def)

lemma list_update_fine:
  assumes "good s"
  shows "fine (update_domain_list_start lib host which s)"
proof -
  have "good (n\<lparr>blocked := blocked s, blocked_total := blocked_total s\<rparr>)"
    if "validate_policy_against_constraints lib candidate (state_constraints s) = Ok ()"
      "build_config_state lib candidate (state_constraints s) = Ok n"
      "credential_broker candidate = credential_broker (state_config s)" for candidate n
    using assms build_facts [OF that(2)] that(1,3) by (simp add: good_state_def)
  then show ?thesis
    by (auto simp: update_domain_list_start_def Let_def upsert_broker split: sum.split)
qed

lemma perform_ok:
  assumes "good s" "operation_ok provided op" "perform_operation lib lookup broker op s = (t, s')"
  shows "good s' \<and> fine t"
proof (cases op)
  case (SetNetworkMode m)
  then show ?thesis using assms by (auto simp: set_network_mode_start_def split: sum.splits)
next
  case (UpdateDomainList host which)
  then show ?thesis using assms list_update_fine by auto
next
  case (RecordBlocked x entry)
  then show ?thesis using assms good_record by auto
next
  case DrainBlocked
  then show ?thesis using assms by (auto simp: good_state_def)
next
  case (ReplaceConfigState n)
  then show ?thesis using assms replaced_good [of s n] by (auto split: if_splits)
qed (use assms in auto)

lemma advance_ok:
  assumes "good s" "fine t" "reload_provided provided r" "advance_task lib lookup broker r t s = Some (t', s')"
  shows "good s' \<and> fine t'"
proof (cases t)
  case (Ready op)
  then show ?thesis using assms perform_ok by (cases "perform_operation lib lookup broker op s") auto
next
  case (ModeWrite m c)
  then obtain cfg :: "'j network_proxy_config" where "validate_policy_against_constraints lib (cfg\<lparr>mode := m\<rparr>) c = Ok ()"
    using assms(2) by auto
  then show ?thesis
    using assms(1,4) ModeWrite coherent_mode [of lib s m cfg] by (auto simp: good_state_def split: if_splits)
next
  case (ReloadRead op n)
  then show ?thesis using assms replaced_good(1) [of s n] by auto
next
  case (ForceWrite n)
  then show ?thesis using assms replaced_good(2) [of s n] by auto
qed (use assms in \<open>auto split: reload.splits if_splits\<close>)

lemma reachable_good:
  assumes "proxy_reachable lib broker provided sys"
  shows "good (shared sys) \<and> list_all fine (tasks sys)"
  using assms
proof induction
  case (launched s)
  then show ?case using provided_coherent provided_governed provided_buffer by (simp add: good_state_def)
next
  case (called sys t)
  moreover have "fine t" if "starting provided t" for t
    using that by (induction provided t rule: starting.induct) auto
  ultimately show ?case by simp
next
  case (advanced sys i r lookup t s)
  then have "fine (tasks sys ! i)" by (simp add: list_all_length)
  with advanced advance_ok have "good s \<and> fine t" by blast
  moreover have "fine u" if "u \<in> set ((tasks sys)[i := t])" for u
    using that advanced.IH \<open>good s \<and> fine t\<close> set_update_subset_insert [of "tasks sys" i t] by (auto simp: list_all_iff)
  ultimately show ?case by (simp add: list_all_iff)
qed

end

section \<open>Managed requirements\<close>

definition governed_by :: "network_requirements option \<Rightarrow> network_proxy_constraints \<Rightarrow> bool" where
  "governed_by reqs c \<longleftrightarrow> (case reqs of Some r \<Rightarrow> constraints_from r c | None \<Rightarrow> True)"

interpretation managed: state_provider lib broker "governed_by reqs" "provided_state lib reqs :: ('j, 'm) config_state \<Rightarrow> bool"
  for lib :: "'m proxy_library" and broker reqs
  by unfold_locales
    (use provided_facts in \<open>fastforce simp: governed_by_def split: option.split\<close>)+

text \<open>
  C11: However operations on the running proxy interleave, its state fits together. In every reachable state the configuration passes the
  validation against the constraints of the same state, the compiled sets and hooks are those of this configuration, the
  constraints are those of the managed requirements, the credential broker is as it was at the start, and the buffer of blocked
  requests holds at most two hundred entries. Changing the mode checks the configuration it has read and then writes into the one it
  finds, and keeps this too.
\<close>

theorem proxy_state_stays_consistent:
  assumes "proxy_reachable lib broker (provided_state lib reqs) sys"
  shows "coherent lib (shared sys) \<and> governed_by reqs (state_constraints (shared sys)) \<and>
    credential_broker (state_config (shared sys)) = broker \<and> length (blocked (shared sys)) \<le> 200 \<and> blocked_total (shared sys) < 2 ^ 64"
  using managed.reachable_good [OF assms] by (auto simp: good_state_def MAX_BLOCKED_EVENTS_def max_u64_def)

text \<open>
  C2: Managed network rules bind whatever the user configures and however the proxy is used. Let the proxy be launched, reloaded and replaced with states built
  from one set of requirements, for any user configuration, permission profile and execution policy, and let domains be added, modes be
  set and requests be checked concurrently. Then a host that a managed entry denies is refused as denied. If only managed domains may be
  allowed, a request goes through only to a host that a managed entry allows, even past the decider that is installed. The
  managed entries are ordinary ones; nothing is assumed of those of the user.
\<close>

theorem managed_network_rules_bind:
  assumes "proxy_reachable lib broker (provided_state lib (Some r)) sys" "spec_made lib (Some r) (spec :: 'j network_proxy_spec)"
    and "domain_globs (globs lib)" "host_parse (request_host request) = Some host"
    and "list_all ordinary_entry (list_or_nil (required_denied r))" "list_all ordinary_entry (list_or_nil (required_allowed r (managed_only r)))"
    and "decision = host_blocked (globs lib) lookup (shared sys) (request_host request) (request_port request)"
  shows "((\<exists>d\<in>set (list_or_nil (required_denied r)). entry_matches host d) \<longrightarrow> decision = HostBlocked DeniedHost) \<and>
    (managed_only r \<and> fst (evaluate_host_policy handle (effective_decider spec profile policy_decider approval_flow) decision request) = AllowRequest \<longrightarrow>
       (\<exists>m\<in>set (list_or_nil (required_allowed r (managed_only r))). entry_matches host m))"
proof -
  note good = managed.reachable_good [OF assms(1)]
  have coherent: "coherent lib (shared sys)" and from_r: "constraints_from r (state_constraints (shared sys))"
    using good by (auto simp: good_state_def governed_by_def)
  have "decision = HostBlocked DeniedHost" if "d \<in> set (list_or_nil (required_denied r))" "entry_matches host d" for d
  proof -
    from that(1) obtain managed where m: "required_denied r = Some managed" "d \<in> set managed" by (cases "required_denied r") auto
    have "managed_denied_domains (state_constraints (shared sys)) = Some managed"
      using from_r m(1) by (simp add: constraints_from_def)
    moreover have "ordinary_entry d" using assms(5) m by (simp add: list_all_iff)
    ultimately show ?thesis
      using managed_denial [OF coherent assms(3) _ m(2) _ assms(4) that(2)] assms(7) by blast
  qed
  moreover have "\<exists>m\<in>set (list_or_nil (required_allowed r (managed_only r))). entry_matches host m"
    if only: "managed_only r" and passed:
      "fst (evaluate_host_policy handle (effective_decider spec profile policy_decider approval_flow) decision request) = AllowRequest"
  proof -
    have "hard_deny_allowlist_misses spec" using spec_made_facts [OF assms(2), of r] only by simp
    then have "effective_decider spec profile policy_decider approval_flow = None" by (simp add: effective_decider_def)
    then have "decision = HostAllowed"
      using passed by (auto simp: evaluate_host_policy_def deny_with_source_def Let_def
          split: host_block_decision.splits host_block_reason.splits)
    moreover obtain managed where "required_allowed r (managed_only r) = Some managed"
      using only by (simp add: required_allowed_def Let_def)
    moreover have "allowlist_expansion_enabled (state_constraints (shared sys)) = Some False"
      using from_r only by (simp add: constraints_from_def)
    ultimately show ?thesis
      using managed_allowance [OF coherent assms(3) _ _ _ assms(4)] assms(6,7) from_r by (auto simp: constraints_from_def)
  qed
  ultimately show ?thesis by blast
qed

section \<open>Examples\<close>

definition example_requirements :: network_requirements where
  "example_requirements = default_requirements\<lparr>
     req_domains := Some [(lit ''**.example.com'', RequireAllow), (lit ''bad.example.com'', RequireDeny)],
     managed_allowed_domains_only := Some True\<rparr>"

lemma example_required:
  "required_allowed example_requirements True = Some [lit ''**.example.com'']" "required_denied example_requirements = Some [lit ''bad.example.com'']"
  "managed_only example_requirements"
  by code_simp+

definition example_constraints :: network_proxy_constraints where
  "example_constraints = default_constraints\<lparr>
     managed_allowed_domains := Some [lit ''**.example.com''], allowlist_expansion_enabled := Some False,
     managed_denied_domains := Some [lit ''bad.example.com''], denylist_expansion_enabled := Some False\<rparr>"

definition example_spec :: "unit network_proxy_spec" where
  "example_spec = \<lparr>base_config = default_config, requirements = Some example_requirements, spec_config = example_config,
     spec_constraints = example_constraints, hard_deny_allowlist_misses = True\<rparr>"

lemma example_applied: "apply_requirements default_config example_requirements DisabledProfile True = (example_config, example_constraints)"
proof -
  have scalars: "apply_scalar_requirements example_requirements default_config default_constraints = (default_config, default_constraints)"
    by (simp add: apply_scalar_requirements_def example_requirements_def default_requirements_def default_config_def default_constraints_def
        del: lit_Cons)
  have "set_denied_domains [lit ''bad.example.com''] (set_allowed_domains [lit ''**.example.com''] default_config) = example_config"
    by (simp add: set_denied_domains_def set_allowed_domains_def set_domain_entries_def non_empty_def default_config_def
        example_config_def del: lit_Cons)
  moreover have "req_unix_sockets example_requirements = None"
    by (simp add: example_requirements_def default_requirements_def del: lit_Cons)
  ultimately show ?thesis
    by (simp add: apply_requirements_def scalars example_required allowlist_expansion_def apply_allowed_requirements_def
        apply_denied_requirements_def apply_socket_requirements_def example_constraints_def del: lit_Cons)
qed

lemma example_valid: "validate_policy_against_constraints plain_library example_config example_constraints = Ok ()"
proof -
  have wild: "validate_non_global_wildcard_domain_patterns f [lit ''bad.example.com''] = Ok ()"
    "validate_non_global_wildcard_domain_patterns f [lit ''**.example.com''] = Ok ()" for f
    unfolding validate_non_global_wildcard_domain_patterns_def find.simps is_global_wildcard_domain_pattern_def example_expanded by simp_all
  have hooks: "validate_mitm_hook_config l example_config = Ok ()" for l
    by (simp add: validate_mitm_hook_config_def example_config_def default_config_def del: lit_Cons)
  have "lower_set [lit ''**.example.com''] - lower_set [lit ''bad.example.com''] = lower_set [lit ''**.example.com'']"
    by (simp add: lower_set_def to_ascii_lowercase_def)
  then have lists: "validate_allowed_domains u example_constraints [lit ''**.example.com''] [lit ''**.example.com''] [lit ''bad.example.com''] = Ok ()"
    "validate_denied_domains example_constraints [lit ''bad.example.com''] [lit ''bad.example.com''] = Ok ()" for u
    by (simp_all add: validate_allowed_domains_def validate_denied_domains_def example_constraints_def del: lit_Cons)
  show ?thesis
    unfolding validate_policy_against_constraints_def Let_def example_lists first_error_Ok list_all_append
    using wild hooks lists
    by (simp add: example_constraints_def default_constraints_def validate_flag_def example_config_def default_config_def
        del: lit_Cons)
qed

lemma example_spec_made: "spec_made plain_library (Some example_requirements) example_spec"
proof (rule spec_made.made)
  show "from_config_and_constraints plain_library default_config (Some example_requirements) DisabledProfile = Ok example_spec"
    using example_required(3) example_applied example_valid
    by (simp add: from_config_and_constraints_def example_spec_def Let_def del: lit_Cons)
qed

definition managed_state :: "(unit, unit) config_state" where
  "managed_state = example_state\<lparr>state_constraints := example_constraints\<rparr>"

lemma build_constraints: "build_config_state lib cfg c = Ok s \<Longrightarrow> build_config_state lib cfg c' = Ok (s\<lparr>state_constraints := c'\<rparr>)"
  by (auto simp: build_config_state_def split: sum.splits if_splits option.splits)

lemma managed_state_built: "build_config_state plain_library example_config example_constraints = Ok managed_state"
  unfolding managed_state_def by (rule build_constraints [OF example_state_built])

lemma managed_state_provided: "provided_state plain_library (Some example_requirements) managed_state"
  using example_spec_made managed_state_built
  by (auto simp: provided_state_def build_config_state_for_spec_def example_spec_def intro!: exI [of _ example_spec])

text \<open>A running system in which the mode has just been set.\<close>

definition running_system :: "(unit, unit) proxy_system" where
  "running_system =
     \<lparr>shared = managed_state\<lparr>state_config := (state_config managed_state)\<lparr>mode := Limited\<rparr>\<rparr>, tasks = [Completed (Ok NoAnswer)]\<rparr>"

lemma running_reachable: "proxy_reachable plain_library False (provided_state plain_library (Some example_requirements)) running_system"
proof -
  let ?P = "provided_state plain_library (Some example_requirements) :: (unit, unit) config_state \<Rightarrow> bool"
  let ?R = "proxy_reachable plain_library False ?P"
  let ?op = "SetNetworkMode Limited :: (unit, unit) operation"
  note step = advanced [of plain_library False ?P _ 0 UpToDate "\<lambda>_ _. None"]
  have cfg: "state_config managed_state = example_config" "state_constraints managed_state = example_constraints"
    by (simp_all add: managed_state_def example_state_def)
  have "?R \<lparr>shared = managed_state, tasks = []\<rparr>"
    using managed_state_provided by (intro launched) (simp_all add: cfg example_config_def default_config_def)
  from called [OF this, of "Reloading ?op"] have "?R \<lparr>shared = managed_state, tasks = [Reloading ?op]\<rparr>" by simp
  from step [OF this] have "?R \<lparr>shared = managed_state, tasks = [Ready ?op]\<rparr>" by simp
  moreover have "validate_policy_against_constraints plain_library (example_config\<lparr>mode := Limited\<rparr>) example_constraints = Ok ()"
    using example_valid unfolding validate_policy_against_constraints_def Let_def first_error_Ok list_all_append
    by (simp add: example_constraints_def default_constraints_def del: lit_Cons cong: option.case_cong)
  ultimately have "?R \<lparr>shared = managed_state, tasks = [ModeWrite Limited example_constraints]\<rparr>"
    using step by (fastforce simp: set_network_mode_start_def cfg)
  from step [OF this] show ?thesis by (simp add: running_system_def cfg)
qed

theorem proxy_state_stays_consistent_witness:
  "coherent plain_library (shared running_system) \<and> mode (state_config (shared running_system)) = Limited"
  using proxy_state_stays_consistent [OF running_reachable] by (simp add: running_system_def)

definition denied_request :: network_policy_request where
  "denied_request = \<lparr>request_protocol = RequestHttp, request_host = lit ''Bad.Example.com'', request_port = 80,
     request_environment_id = None, request_execution_id = None\<rparr>"

theorem managed_network_rules_bind_witness:
  "host_blocked documented_globs (\<lambda>_ _. None) (shared running_system) (lit ''Bad.Example.com'') 80 = HostBlocked DeniedHost"
proof -
  have g: "globs plain_library = documented_globs" by (simp add: plain_library_def)
  have host: "host_parse (request_host denied_request) = Some (lit ''bad.example.com'')"
    using host_parse_plain [OF example_plain(3)] by (simp add: denied_request_def to_ascii_lowercase_def)
  have "pattern_matches_host (domain_pattern_parse (lit ''bad.example.com'')) (lit ''bad.example.com'')"
    using parse_prefixed [of "ExactDomain (lit ''bad.example.com'')"] example_plain(1) by (simp del: lit_Cons)
  then have "entry_matches (lit ''bad.example.com'') (lit ''bad.example.com'')" by (simp add: entry_matches_def del: lit_Cons)
  moreover have "list_all ordinary_entry (list_or_nil (required_denied example_requirements))"
    "list_all ordinary_entry (list_or_nil (required_allowed example_requirements (managed_only example_requirements)))"
    using example_ordinary unfolding example_lists by (simp_all add: example_required del: lit_Cons)
  ultimately show ?thesis
    using managed_network_rules_bind [OF running_reachable example_spec_made _ host _ _ refl, of "\<lambda>_ _. None"] documented_globs_ok
    unfolding g by (simp add: example_required denied_request_def del: lit_Cons)
qed

section \<open>An operation on its own\<close>

text \<open>A task that nobody interferes with, while the configuration does not change.\<close>

fun run_alone ::
  "'m proxy_library \<Rightarrow> dns_lookup \<Rightarrow> bool \<Rightarrow> nat \<Rightarrow> ('j, 'm) task \<Rightarrow> ('j, 'm) config_state \<Rightarrow>
     ((proxy_error + 'j answer) \<times> ('j, 'm) config_state) option" where
  "run_alone lib lookup broker fuel (Completed answer) s = Some (answer, s)"
| "run_alone lib lookup broker 0 t s = None"
| "run_alone lib lookup broker (Suc fuel) t s =
     (case advance_task lib lookup broker UpToDate t s of
        None \<Rightarrow> None
      | Some (t', s') \<Rightarrow> run_alone lib lookup broker fuel t' s')"

lemma trim_trim: "trim (trim s) = trim s"
proof (cases "trim s = []")
  case True
  have "trim [] = []" by (simp add: trim_def trim_start_def trim_end_def)
  then show ?thesis unfolding True .
next
  case False
  let ?a = "trim_start s"
  obtain w where w: "?a = trim_end ?a @ w" using trim_end_prefix by blast
  have ne: "trim_end ?a \<noteq> []" using False by (simp add: trim_def)
  then have "?a \<noteq> []" using w by auto
  then have "\<not> is_whitespace (hd ?a)" unfolding trim_start_def by (rule hd_dropWhile)
  then have "\<not> is_whitespace (hd (trim_end ?a))" using w ne by (metis hd_append2)
  then have "trim_start (trim_end ?a) = trim_end ?a" by (intro trim_start_no_ws) blast
  then show ?thesis by (simp add: trim_def)
qed

lemma normalize_star: "normalize_dns_host_or_ip_literal (42 # s) = [] \<or> hd (normalize_dns_host_or_ip_literal (42 # s)) = 42"
proof -
  let ?h = "trim_end_matches 46 (to_ascii_lowercase (42 # s))"
  have lower: "to_ascii_lowercase (42 # s) = 42 # to_ascii_lowercase s" by (simp add: to_ascii_lowercase_def)
  obtain w where "42 # to_ascii_lowercase s = ?h @ w" using trim_end_matches_prefix lower by metis
  then have h: "?h = [] \<or> (\<exists>t. ?h = 42 # t)" by (cases ?h) auto
  have not_ip: "parse_ip (42 # t) = None" for t by (rule parse_ip_not_literal) (simp_all add: to_digit_def)
  have "normalize_ip_literal (42 # t) = None" for t
  proof -
    have "parse_ip ip = None" if split: "split_once_str d (42 # t) = Some (ip, scope)" and d: "d \<in> {lit ''%25'', lit ''%''}" for d ip scope
    proof -
      have "42 # t = ip @ d @ scope" by (rule split_once_str_Some [OF split])
      then obtain u where "ip = 42 # u" using d by (cases ip) auto
      then show ?thesis using not_ip by simp
    qed
    then show ?thesis unfolding normalize_ip_literal_def using not_ip [of t] by (auto simp del: lit_Cons split: option.splits)
  qed
  moreover have "x = []" if "normalize_ip_literal [] = Some x" for x
    using that by (auto simp: normalize_ip_literal_def split_once_str_def split: if_splits)
  ultimately show ?thesis using h by (auto simp: normalize_dns_host_or_ip_literal_def Let_def split: option.split)
qed

text \<open>An entry whose normal form is a plain host is compiled to the glob of that host.\<close>

lemma normalized_entry:
  assumes "normalize_host e = host" "plain_domain host"
  shows "normalize_pattern e = host"
proof -
  have "hd (trim e) \<noteq> 42 \<or> trim e = []"
  proof (rule ccontr)
    assume "\<not> ?thesis"
    then obtain s where s: "trim e = 42 # s" by (cases "trim e") auto
    then have "normalize_host e = normalize_dns_host_or_ip_literal (42 # s) \<or>
        (\<exists>t. normalize_host e = normalize_dns_host_or_ip_literal (42 # t))"
      by (simp add: normalize_host_def Let_def starts_with_iff) blast
    then have "host = [] \<or> hd host = 42" using normalize_star assms(1) by metis
    then show False using plain_facts(1,7) [OF assms(2)] by blast
  qed
  then have "strip_prefix (42 # xs) (trim e) = None" for xs by (cases "trim e") auto
  moreover have "trim e \<noteq> [42]" using \<open>hd (trim e) \<noteq> 42 \<or> trim e = []\<close> by auto
  moreover have "normalize_host (trim e) = normalize_host e"
    by (simp add: normalize_host_def trim_trim)
  ultimately show ?thesis using assms(1) by (simp add: normalize_pattern_def Let_def)
qed

lemma normalized_entry_matches:
  assumes "domain_globs g" "compile_globset_with_policy g patterns w = Ok globset" "e \<in> set patterns"
    and "normalize_host e = host" "plain_domain host"
  shows "globset_matches_host_or_unscoped g globset host"
proof -
  have "set globset = (\<Union>p\<in>set patterns. set (expand_domain_pattern (normalize_pattern p)))"
    using assms(2) add_patterns_set [of g w patterns "[]"]
    by (auto simp: compile_globset_with_policy_def split: sum.splits if_splits)
  moreover have "expand_domain_pattern (normalize_pattern e) = [host]"
    using normalized_entry [OF assms(4,5)] parse_prefixed [of "ExactDomain host"] assms(5) by (simp add: expand_domain_pattern_def)
  ultimately have "host \<in> set globset" using assms(3) by fastforce
  moreover have "glob_matches g host host" using assms(1,5) by (simp add: domain_globs_def)
  ultimately show ?thesis by (auto simp: globset_matches_host_or_unscoped_def globset_is_match_def list_ex_iff)
qed

lemma denied_entry_blocks:
  assumes "coherent lib s" "domain_globs (globs lib)" "plain_domain host" "host_parse host_text = Some host"
    and "e \<in> set (list_or_nil (denied_domains (state_config s)))" "normalize_host e = host"
  shows "host_blocked (globs lib) lookup s host_text port = HostBlocked DeniedHost"
proof -
  have "compile_globset_with_policy (globs lib) (list_or_nil (denied_domains (state_config s))) RejectWildcard = Ok (deny_set s)"
    using assms(1) by (simp add: coherent_def compile_denylist_globset_def)
  from normalized_entry_matches [OF assms(2) this assms(5,6,3)] show ?thesis
    by (simp add: host_blocked_def assms(4) Let_def)
qed

lemma lower_host_fixed: "plain_domain d \<Longrightarrow> normalize_host (to_ascii_lowercase d) = to_ascii_lowercase d"
  using normalize_plain [OF plain_lower] by simp

text \<open>
  C24: Denying a domain takes effect. On a consistent state, an undisturbed \<open>add_denied_domain\<close> for a plain host ends after at most three critical
  sections. When it reports success the state is consistent, its constraints are those of before, and the host is refused as denied from
  then on, however the other entries look; when it reports an error the state is unchanged.
\<close>

theorem added_denial_is_enforced:
  assumes "coherent lib s" "domain_globs (globs lib)" "plain_domain host_text"
  shows "\<exists>answer s'. run_alone lib lookup broker 3 (update_domain_list host_text DenyList) s = Some (answer, s') \<and>
    (case answer of
       Inl e \<Rightarrow> s' = s
     | Inr _ \<Rightarrow> coherent lib s' \<and> state_constraints s' = state_constraints s \<and> blocked s' = blocked s \<and>
         host_blocked (globs lib) lookup' s' host_text port = HostBlocked DeniedHost)"
proof -
  let ?host = "to_ascii_lowercase host_text"
  let ?candidate = "upsert_domain_permission ?host DenyDomain normalize_host (state_config s)"
  have host: "host_parse host_text = Some ?host" "plain_domain ?host" by (rule host_parse_plain plain_lower, rule assms)+
  have start: "run_alone lib lookup broker 3 (update_domain_list host_text DenyList) s =
      run_alone lib lookup broker 1 (update_domain_list_start lib ?host DenyList s) s"
    by (simp add: update_domain_list_def host(1) numeral_eq_Suc)
  show ?thesis
  proof (cases "list_ex (\<lambda>e. normalize_host e = ?host) (list_or_nil (denied_domains (state_config s))) \<and>
      \<not> list_ex (\<lambda>e. normalize_host e = ?host) (list_or_nil (allowed_domains (state_config s)))")
    case True
    then obtain e where "e \<in> set (list_or_nil (denied_domains (state_config s)))" "normalize_host e = ?host" by (auto simp: list_ex_iff)
    from denied_entry_blocks [OF assms(1,2) host(2,1) this] True show ?thesis
      unfolding start using assms(1) by (simp add: update_domain_list_start_def Let_def)
  next
    case False
    show ?thesis
    proof (cases "validate_policy_against_constraints lib ?candidate (state_constraints s)")
      case (Inl e)
      then show ?thesis unfolding start using False by (auto simp: update_domain_list_start_def Let_def)
    next
      case valid: (Inr u)
      show ?thesis
      proof (cases "build_config_state lib ?candidate (state_constraints s)")
        case (Inl e)
        then show ?thesis unfolding start using False valid by (auto simp: update_domain_list_start_def Let_def)
      next
        case (Inr n)
        let ?n = "n\<lparr>blocked := blocked s, blocked_total := blocked_total s\<rparr>"
        note built = build_facts [OF Inr]
        have coherent: "coherent lib ?n" using built(5) valid by simp
        have "?host \<in> set (list_or_nil (denied_domains (state_config ?n)))"
          by (simp add: built(1) set_denied permissions_upsert)
        from denied_entry_blocks [OF coherent assms(2) host(2,1) this lower_host_fixed [OF assms(3)]]
        show ?thesis
          unfolding start using False valid Inr coherent built(2) by (auto simp: update_domain_list_start_def Let_def)
      qed
    qed
  qed
qed

theorem added_denial_is_enforced_witness:
  "coherent plain_library managed_state \<and>
   (\<exists>answer s'. run_alone plain_library (\<lambda>_ _. None) False 3 (update_domain_list (lit ''Bad.Example.com'') DenyList) managed_state = Some (answer, s'))"
  using added_denial_is_enforced [OF provided_facts(1) [OF managed_state_provided] _ example_plain(3), of "\<lambda>_ _. None" False]
    provided_facts(1) [OF managed_state_provided] documented_globs_ok
  by (fastforce simp: plain_library_def)

section \<open>Lost entries\<close>

text \<open>
  Reloading copies the buffer of blocked requests under a read lock and stores the copy later. A request that is recorded in
  between is forgotten, and so is its place in the total.
\<close>

theorem reload_forgets_blocked_requests:
  "\<exists>t s'. advance_task lib lookup broker r (ReloadRead op n) s = Some (t, s) \<and>
     advance_task lib lookup broker r t (record_blocked_entry execution_id entry s) = Some (Ready op, s') \<and>
     blocked s' = blocked s \<and> blocked_total s' = blocked_total s"
  by simp

text \<open>
  A forced reload keeps the buffered requests and takes over the total of the state that was loaded, which is zero, where the other ways to
  replace the state keep both.
\<close>

theorem force_reload_forgets_total:
  assumes "provided_state lib reqs n"
  shows "\<exists>s'. advance_task lib lookup broker r (ForceWrite n) s = Some (Completed (Ok NoAnswer), s') \<and>
    blocked s' = blocked s \<and> blocked_total s' = 0"
  using provided_facts(3) [OF assms] by simp

end
