(* ===== verification/Proxy_Remote.thy ===== *)
theory Proxy_Remote
  imports Proxy_State Utf8_Stream
begin

text \<open>
  Connections to a shared proxy and proxies on a remote executor: \<open>network-proxy/src/attribution.rs\<close>,
  \<open>network-proxy/src/remote_config.rs\<close> and the registry of executions in \<open>runtime.rs\<close>. A connection may open with a frame that
  names the execution it belongs to; the bytes that follow are the client's. A stream is the list of its bytes until it ends; the
  time limit on reading a frame is not modelled. Shown: what the bridge writes is what the proxy reads, and the settings
  that are sent to a remote executor make the same decisions there.
\<close>

section \<open>Executions\<close>

record execution_attribution =
  attribution_environment_id :: ustr
  attribution_execution_id :: ustr

type_synonym execution_attributions = "ustr \<rightharpoonup> execution_attribution"

definition register_execution :: "ustr \<Rightarrow> ustr \<Rightarrow> ustr \<Rightarrow> execution_attributions \<Rightarrow> execution_attributions" where
  "register_execution token environment_id execution_id m =
     m(token \<mapsto> \<lparr>attribution_environment_id = environment_id, attribution_execution_id = execution_id\<rparr>)"

definition unregister_execution :: "ustr \<Rightarrow> execution_attributions \<Rightarrow> execution_attributions" where
  "unregister_execution token m = m(token := None)"

definition for_execution_token :: "ustr \<Rightarrow> execution_attributions \<Rightarrow> proxy_handle option" where
  "for_execution_token token m =
     map_option (\<lambda>a. \<lparr>handle_environment_id = Some (attribution_environment_id a),
                      handle_execution_id = Some (attribution_execution_id a)\<rparr>) (m token)"

section \<open>Frames\<close>

definition ATTRIBUTION_FRAME_MAGIC :: "byte list" where
  "ATTRIBUTION_FRAME_MAGIC = 0 # lit ''CDXPXY1''"

definition MAX_ATTRIBUTION_TOKEN_LEN :: nat where
  "MAX_ATTRIBUTION_TOKEN_LEN = 128"

datatype frame_error =
    EmptyConnection | InvalidFrame | InvalidTokenLength | TokenNotUtf8 | StreamEnded | UnknownToken | EnvironmentMismatch

text \<open>\<open>read_exact\<close>.\<close>

definition read_exact :: "nat \<Rightarrow> byte list \<Rightarrow> frame_error + byte list \<times> byte list" where
  "read_exact n stream = (if n \<le> length stream then Ok (take n stream, drop n stream) else Err StreamEnded)"

definition read_u16 :: "byte list \<Rightarrow> frame_error + nat \<times> byte list" where
  "read_u16 stream =
     (case read_exact 2 stream of
        Inl e \<Rightarrow> Err e
      | Inr (bytes, rest) \<Rightarrow> Ok (bytes ! 0 * 256 + bytes ! 1, rest))"

text \<open>The part of \<open>read_attribution_token\<close> under the time limit, and the whole.\<close>

definition read_attribution_frame :: "byte list \<Rightarrow> frame_error + ustr \<times> byte list" where
  "read_attribution_frame stream =
     (case read_exact (length ATTRIBUTION_FRAME_MAGIC) stream of Inl e \<Rightarrow> Err e | Inr (magic, rest) \<Rightarrow>
      if magic \<noteq> ATTRIBUTION_FRAME_MAGIC then Err InvalidFrame
      else case read_u16 rest of Inl e \<Rightarrow> Err e | Inr (token_len, rest) \<Rightarrow>
        if token_len = 0 \<or> token_len > MAX_ATTRIBUTION_TOKEN_LEN then Err InvalidTokenLength
        else case read_exact token_len rest of Inl e \<Rightarrow> Err e | Inr (token, rest) \<Rightarrow>
          (case from_utf8 token of Inl _ \<Rightarrow> Err TokenNotUtf8 | Inr t \<Rightarrow> Ok (t, rest)))"

definition read_attribution_token :: "byte list \<Rightarrow> frame_error + ustr option \<times> byte list" where
  "read_attribution_token stream =
     (case stream of
        [] \<Rightarrow> Err EmptyConnection
      | marker # _ \<Rightarrow>
          if marker \<noteq> ATTRIBUTION_FRAME_MAGIC ! 0 then Ok (None, stream)
          else case read_attribution_frame stream of Inl e \<Rightarrow> Err e | Inr (token, rest) \<Rightarrow> Ok (Some token, rest))"

text \<open>The token as its UTF-8 bytes; \<open>None\<close> stands for the refusal of its length.\<close>

definition write_attribution_frame :: "byte list \<Rightarrow> byte list option" where
  "write_attribution_frame token =
     (if token = [] \<or> length token > MAX_ATTRIBUTION_TOKEN_LEN then None
      else if length token \<ge> 65536 then None
      else Some (ATTRIBUTION_FRAME_MAGIC @ [length token div 256, length token mod 256] @ token))"

text \<open>\<open>BindConnectionAttribution::serve\<close>: the handle and the stream that the proxy goes on with.\<close>

definition bind_connection ::
  "proxy_handle \<Rightarrow> execution_attributions \<Rightarrow> ustr option \<Rightarrow> byte list \<Rightarrow> frame_error + proxy_handle \<times> byte list" where
  "bind_connection own m expected_environment_id stream =
     (case read_attribution_token stream of
        Inl e \<Rightarrow> Err e
      | Inr (token, rest) \<Rightarrow>
          (case (case token of Some t \<Rightarrow> for_execution_token t m | None \<Rightarrow> Some own) of
             None \<Rightarrow> Err UnknownToken
           | Some handle \<Rightarrow>
               if (case expected_environment_id of
                     Some expected \<Rightarrow> (case handle_environment_id handle of Some actual \<Rightarrow> actual \<noteq> expected | None \<Rightarrow> False)
                   | None \<Rightarrow> False)
               then Err EnvironmentMismatch else Ok (handle, rest)))"

section \<open>Remote settings\<close>

record remote_network_proxy_config =
  remote_enabled :: bool
  remote_enable_socks5 :: bool
  remote_enable_socks5_udp :: bool
  remote_allow_upstream_proxy :: bool
  remote_allow_all_unix_sockets :: bool
  remote_mode :: network_mode
  remote_domains :: "network_domain_permission_entry list option"
  remote_unix_sockets :: "(ustr \<times> network_unix_socket_permission) list option"
  remote_allow_local_binding :: bool
  request_policy_decisions :: bool

text \<open>\<open>None\<close> is the refusal.\<close>

definition from_effective_config :: "'j network_proxy_config \<Rightarrow> remote_network_proxy_config option" where
  "from_effective_config cfg =
     (if \<not> enabled cfg \<or>
         \<not> mitm cfg \<and> \<not> credential_broker cfg \<and> \<not> dangerously_allow_plaintext_credential_injection cfg \<and> mitm_hooks cfg = []
      then Some \<lparr>remote_enabled = enabled cfg, remote_enable_socks5 = enable_socks5 cfg, remote_enable_socks5_udp = enable_socks5_udp cfg,
        remote_allow_upstream_proxy = allow_upstream_proxy cfg,
        remote_allow_all_unix_sockets = dangerously_allow_all_unix_sockets cfg, remote_mode = mode cfg,
        remote_domains = domains cfg, remote_unix_sockets = unix_sockets cfg, remote_allow_local_binding = allow_local_binding cfg,
        request_policy_decisions = False\<rparr>
      else None)"

definition into_network_proxy_config :: "remote_network_proxy_config \<Rightarrow> 'j network_proxy_config" where
  "into_network_proxy_config r =
     default_config\<lparr>enabled := remote_enabled r, enable_socks5 := remote_enable_socks5 r, enable_socks5_udp := remote_enable_socks5_udp r,
       allow_upstream_proxy := remote_allow_upstream_proxy r, dangerously_allow_all_unix_sockets := remote_allow_all_unix_sockets r,
       mode := remote_mode r, domains := remote_domains r, unix_sockets := remote_unix_sockets r,
       allow_local_binding := remote_allow_local_binding r\<rparr>"

text \<open>\<open>from_remote_launch_config\<close>: the state of a proxy that is launched on an executor.\<close>

definition remote_launch_state :: "'m proxy_library \<Rightarrow> remote_network_proxy_config \<Rightarrow> (build_error option) + ('j, 'm) config_state" where
  "remote_launch_state lib r =
     (if \<not> remote_enabled r then Err None
      else case build_config_state lib (into_network_proxy_config r) default_constraints of
             Inl e \<Rightarrow> Err (Some e)
           | Inr s \<Rightarrow> Ok s)"

section \<open>Round trips\<close>

lemma read_exact_append [simp]: "length a = n \<Longrightarrow> read_exact n (a @ b) = Ok (a, b)"
  by (simp add: read_exact_def)

text \<open>
  A connection is attributed to the execution that the bridge names. What \<open>write_attribution_frame\<close> writes for a token is read back, and the proxy goes on
  with the client's bytes and the ids registered for the token; an unregistered token and another environment are refused. A
  connection without a frame keeps all its bytes and the proxy's own ids.
\<close>

theorem attribution_frame_roundtrip:
  assumes "write_attribution_frame bytes = Some frame" "from_utf8 bytes = Ok token" "client = c # cs" "c \<noteq> 0"
  shows "read_attribution_token (frame @ client) = Ok (Some token, client) \<and>
    bind_connection own (register_execution token env exec m) None (frame @ client) =
      Ok (\<lparr>handle_environment_id = Some env, handle_execution_id = Some exec\<rparr>, client) \<and>
    bind_connection own (register_execution token env exec m) (Some other) (frame @ client) =
      (if env = other then Ok (\<lparr>handle_environment_id = Some env, handle_execution_id = Some exec\<rparr>, client)
       else Err EnvironmentMismatch) \<and>
    bind_connection own (unregister_execution token m) expected (frame @ client) = Err UnknownToken \<and>
    bind_connection own m None client = Ok (own, client)"
proof -
  have len: "bytes \<noteq> []" "length bytes \<le> 128" and frame: "frame = ATTRIBUTION_FRAME_MAGIC @ [length bytes div 256, length bytes mod 256] @ bytes"
    using assms(1) by (auto simp: write_attribution_frame_def MAX_ATTRIBUTION_TOKEN_LEN_def split: if_splits)
  let ?len = "[length bytes div 256, length bytes mod 256]"
  have magic: "read_exact (length ATTRIBUTION_FRAME_MAGIC) (frame @ client) = Ok (ATTRIBUTION_FRAME_MAGIC, ?len @ bytes @ client)"
    unfolding frame append_assoc by (rule read_exact_append) (rule refl)
  have "read_exact 2 (?len @ bytes @ client) = Ok (?len, bytes @ client)" by (rule read_exact_append) simp
  then have u16: "read_u16 (?len @ bytes @ client) = Ok (length bytes, bytes @ client)" by (simp add: read_u16_def)
  have body: "read_exact (length bytes) (bytes @ client) = Ok (bytes, client)" by simp
  have "\<not> (length bytes = 0 \<or> length bytes > MAX_ATTRIBUTION_TOKEN_LEN)" using len by (simp add: MAX_ATTRIBUTION_TOKEN_LEN_def)
  then have "read_attribution_frame (frame @ client) = Ok (token, client)"
    unfolding read_attribution_frame_def magic sum.case prod.case u16 body assms(2) by (simp only: if_False simp_thms)
  moreover obtain rest where "frame @ client = 0 # rest" by (simp add: frame ATTRIBUTION_FRAME_MAGIC_def)
  ultimately have token: "read_attribution_token (frame @ client) = Ok (Some token, client)"
    by (simp add: read_attribution_token_def ATTRIBUTION_FRAME_MAGIC_def)
  have "read_attribution_token client = Ok (None, client)"
    using assms(3,4) by (simp add: read_attribution_token_def ATTRIBUTION_FRAME_MAGIC_def)
  with token show ?thesis
    by (simp add: bind_connection_def for_execution_token_def register_execution_def unregister_execution_def)
qed

theorem attribution_frame_roundtrip_witness:
  "write_attribution_frame (lit ''t1'') = Some (0 # lit ''CDXPXY1'' @ [0, 2] @ lit ''t1'') \<and>
   read_attribution_token ((0 # lit ''CDXPXY1'' @ [0, 2] @ lit ''t1'') @ lit ''GET'') = Ok (Some (lit ''t1''), lit ''GET'')"
proof -
  have frame: "write_attribution_frame (lit ''t1'') = Some (0 # lit ''CDXPXY1'' @ [0, 2] @ lit ''t1'')"
    by (simp add: write_attribution_frame_def ATTRIBUTION_FRAME_MAGIC_def MAX_ATTRIBUTION_TOKEN_LEN_def)
  have "from_utf8 (lit ''t1'') = Ok (lit ''t1'')" by code_simp
  from attribution_frame_roundtrip [OF frame this, of "lit ''GET''" 71 "lit ''ET''"] frame show ?thesis by simp
qed

lemma remote_lists:
  assumes "from_effective_config cfg = Some r"
  shows "domain_entries p (into_network_proxy_config r) = domain_entries p cfg"
    "allow_unix_sockets (into_network_proxy_config r) = allow_unix_sockets cfg"
  using assms by (auto simp: from_effective_config_def into_network_proxy_config_def domain_entries_def allow_unix_sockets_def split: if_splits)

lemma build_sets:
  assumes "build_config_state lib cfg c = Ok s"
  shows "compile_denylist_globset (globs lib) (list_or_nil (denied_domains cfg)) = Ok (deny_set s)"
    "compile_allowlist_globset (globs lib) (list_or_nil (allowed_domains cfg)) = Ok (allow_set s)"
    "compile_mitm_hooks_with_resolvers (hook_lib lib) (hook_secrets lib) cfg = Ok (state_hooks s)"
    "\<not> mitm cfg \<Longrightarrow> state_mitm s = None"
  using assms by (auto simp: build_config_state_def split: sum.splits option.splits if_splits)

lemma no_hooks: "mitm_hooks c = [] \<Longrightarrow> compile_mitm_hooks_with_resolvers l secrets c = Ok Map.empty"
  by (simp add: compile_mitm_hooks_with_resolvers_def validate_mitm_hook_config_def)

text \<open>
  A proxy on a remote executor decides like the local one. If the settings of an enabled proxy can be sent to an executor at all and compile there, they
  compile to the same sets, every host is judged alike for the same name resolution, and the mode is the same. Interception, the credential
  broker and hooks are off on both sides, and the proxy there listens on loopback addresses only.
\<close>

theorem remote_proxy_decides_alike:
  assumes "enabled cfg" "from_effective_config cfg = Some r" "remote_launch_state lib r = Ok (s' :: ('j, 'm) config_state)"
    and "build_config_state lib cfg constraints = Ok (s :: ('j, 'm) config_state)"
  shows "host_blocked g lookup s' host port = host_blocked g lookup s host port \<and>
    mode (state_config s') = mode (state_config s) \<and> state_mitm s' = None \<and> state_mitm s = None \<and>
    state_hooks s' = state_hooks s \<and> \<not> credential_broker (state_config s') \<and>
    \<not> dangerously_allow_non_loopback_proxy (state_config s')"
proof -
  let ?c = "into_network_proxy_config r :: 'j network_proxy_config"
  have built: "build_config_state lib ?c default_constraints = Ok s'"
    using assms(3) by (auto simp: remote_launch_state_def split: if_splits sum.splits)
  note cfgs = build_facts(1) [OF built] build_facts(1) [OF assms(4)]
  have same: "allowed_domains ?c = allowed_domains cfg" "denied_domains ?c = denied_domains cfg"
    using remote_lists(1) [OF assms(2)] by (simp_all add: allowed_domains_def denied_domains_def)
  have off: "\<not> mitm cfg" "mitm_hooks cfg = []" "\<not> mitm ?c" "mitm_hooks ?c = []" "\<not> credential_broker ?c"
    "\<not> dangerously_allow_non_loopback_proxy ?c" "mode ?c = mode cfg" "allow_local_binding ?c = allow_local_binding cfg"
    using assms(1,2) by (auto simp: from_effective_config_def into_network_proxy_config_def default_config_def split: if_splits)
  note here = build_sets [OF assms(4)] and there = build_sets [OF built, unfolded same]
  have "allow_set s' = allow_set s" "deny_set s' = deny_set s"
    using here(1,2) there(1,2) by simp_all
  moreover have "state_hooks s' = Map.empty" "state_hooks s = Map.empty"
    using here(3) there(3) unfolding no_hooks [OF off(2)] no_hooks [OF off(4)] by simp_all
  moreover have "state_mitm s' = None" "state_mitm s = None" using here(4) there(4) off by auto
  ultimately show ?thesis
    using cfgs same off by (simp add: host_blocked_def Let_def cong: option.case_cong if_cong)
qed

lemma build_enabled:
  assumes "build_config_state lib cfg c = Ok s"
  shows "build_config_state lib (cfg\<lparr>enabled := b\<rparr>) c = Ok (s\<lparr>state_config := cfg\<lparr>enabled := b\<rparr>\<rparr>)"
proof -
  have "allowed_domains (cfg\<lparr>enabled := b\<rparr>) = allowed_domains cfg" "denied_domains (cfg\<lparr>enabled := b\<rparr>) = denied_domains cfg"
    "validate_unix_socket_allowlist_paths env (cfg\<lparr>enabled := b\<rparr>) = validate_unix_socket_allowlist_paths env cfg"
    "compile_mitm_hooks_with_resolvers l secrets (cfg\<lparr>enabled := b\<rparr>) = compile_mitm_hooks_with_resolvers l secrets cfg" for env l secrets
    by (simp_all add: allowed_domains_def denied_domains_def domain_entries_def validate_unix_socket_allowlist_paths_def allow_unix_sockets_def
        compile_mitm_hooks_with_resolvers_def validate_mitm_hook_config_def cong: option.case_cong sum.case_cong)
  then show ?thesis
    using assms by (auto simp: build_config_state_def split: sum.splits option.splits if_splits)
qed

theorem remote_proxy_decides_alike_witness:
  "\<exists>r s'. from_effective_config (example_config\<lparr>enabled := True\<rparr>) = Some r \<and>
     remote_launch_state plain_library r = Ok (s' :: (unit, unit) config_state) \<and> state_mitm s' = None"
proof -
  let ?cfg = "example_config\<lparr>enabled := True\<rparr>"
  have on: "enabled ?cfg" by simp
  obtain r where r: "from_effective_config ?cfg = Some r" "remote_enabled r" "into_network_proxy_config r = ?cfg"
    by (simp add: from_effective_config_def into_network_proxy_config_def example_config_def default_config_def del: lit_Cons)
  have state: "build_config_state plain_library ?cfg default_constraints = Ok (example_state\<lparr>state_config := ?cfg\<rparr>)"
    by (rule build_enabled [OF example_state_built])
  then have "remote_launch_state plain_library r = Ok (example_state\<lparr>state_config := ?cfg\<rparr>)"
    using r by (simp add: remote_launch_state_def)
  with remote_proxy_decides_alike [OF on r(1) this state] r(1) show ?thesis by blast
qed

end
