(* ===== verification/Credential_Broker.thy ===== *)
theory Credential_Broker
  imports Host_Policy
begin

text \<open>
  The credential broker of the network proxy (\<open>network-proxy/src/credential_broker.rs\<close> with \<open>credential_broker/providers\<close>): a child
  process sees dummy values in place of tokens, and the proxy puts the real token into requests to the hosts that the token is for.
  Random choices come from a source \<open>draw\<close>, indexed by the attempt and the position. Which texts are header values, and JSON, are
  parameters. A value that gets a dummy is a header value and hence ASCII, so that its characters are its bytes. Drawing a
  dummy repeats until the candidate is new; \<open>None\<close> is the run that never ends.
\<close>

section \<open>Providers\<close>

datatype credential_provider = GithubProvider | OpenaiProvider

datatype credential_host_binding = ExactHost ustr | HostPattern "ustr list" "ustr list"

fun matches_host :: "credential_host_binding \<Rightarrow> ustr \<Rightarrow> bool" where
  "matches_host (ExactHost expected) host \<longleftrightarrow> host = expected"
| "matches_host (HostPattern exact_hosts endings) host \<longleftrightarrow> host \<in> set exact_hosts \<or> list_ex (\<lambda>s. ends_with s host) endings"

type_synonym environment = "ustr \<rightharpoonup> ustr"

definition GH_HOST :: ustr where "GH_HOST = lit ''GH_HOST''"

definition github_cloud_hosts :: "ustr list" where
  "github_cloud_hosts = [lit ''api.github.com'', lit ''github.com'']"

definition github_cloud_host_suffixes :: "ustr list" where
  "github_cloud_host_suffixes = [lit ''.ghe.com'']"

definition github_cloud_binding :: "environment \<Rightarrow> credential_host_binding option" where
  "github_cloud_binding _ = Some (HostPattern github_cloud_hosts github_cloud_host_suffixes)"

definition github_cloud_host :: "ustr \<Rightarrow> bool" where
  "github_cloud_host host \<longleftrightarrow> host \<in> set github_cloud_hosts \<or> list_ex (\<lambda>s. ends_with s host) github_cloud_host_suffixes"

definition github_host_hint :: "environment \<Rightarrow> ustr option" where
  "github_host_hint env =
     (case env GH_HOST of
        None \<Rightarrow> None
      | Some h \<Rightarrow> (let host = normalize_host h in if host = [] then None else Some host))"

definition github_enterprise_binding :: "environment \<Rightarrow> credential_host_binding option" where
  "github_enterprise_binding env =
     (case github_host_hint env of
        Some host \<Rightarrow> if github_cloud_host host then None else Some (ExactHost host)
      | None \<Rightarrow> None)"

definition openai_binding :: "environment \<Rightarrow> credential_host_binding option" where
  "openai_binding _ = Some (ExactHost (lit ''api.openai.com''))"

text \<open>The sources of a provider: variables and the hosts their values are for.\<close>

fun sources :: "credential_provider \<Rightarrow> (ustr list \<times> (environment \<Rightarrow> credential_host_binding option)) list" where
  "sources GithubProvider =
     [([lit ''GH_TOKEN'', lit ''GITHUB_TOKEN''], github_cloud_binding),
      ([lit ''GH_ENTERPRISE_TOKEN'', lit ''GITHUB_ENTERPRISE_TOKEN''], github_enterprise_binding)]"
| "sources OpenaiProvider = [([lit ''OPENAI_API_KEY''], openai_binding)]"

fun context_env_vars :: "credential_provider \<Rightarrow> ustr list" where
  "context_env_vars GithubProvider = [GH_HOST]"
| "context_env_vars OpenaiProvider = []"

definition credential_providers :: "credential_provider list" where
  "credential_providers = [GithubProvider, OpenaiProvider]"

definition credential_broker_env_keys :: "ustr list" where
  "credential_broker_env_keys =
     concat (map context_env_vars credential_providers) @ concat (map fst (concat (map sources credential_providers)))"

section \<open>Dummies\<close>

definition github_token_prefixes :: "ustr list" where
  "github_token_prefixes = [lit ''github_pat_'', lit ''ghp_'', lit ''gho_'', lit ''ghu_'', lit ''ghs_'', lit ''ghr_'']"

definition github_token_prefix :: "ustr \<Rightarrow> ustr" where
  "github_token_prefix value = (case find (\<lambda>p. starts_with p value) github_token_prefixes of Some p \<Rightarrow> p | None \<Rightarrow> lit ''ghp_'')"

definition openai_api_key_prefix :: "ustr \<Rightarrow> ustr" where
  "openai_api_key_prefix value =
     (case strip_prefix (lit ''sk-'') value of
        None \<Rightarrow> lit ''sk-''
      | Some rest \<Rightarrow>
          (case find_sub [45] rest of None \<Rightarrow> lit ''sk-'' | Some separator \<Rightarrow> take (separator + 4) value))"

definition is_ascii_alphanumeric :: "uchar \<Rightarrow> bool" where
  "is_ascii_alphanumeric c \<longleftrightarrow> 48 \<le> c \<and> c \<le> 57 \<or> 65 \<le> c \<and> c \<le> 90 \<or> 97 \<le> c \<and> c \<le> 122"

definition DUMMY_ALPHANUMERIC :: ustr where
  "DUMMY_ALPHANUMERIC = lit ''ABCDEFGHIJKLMNOPQRSTUVWXYZabcdefghijklmnopqrstuvwxyz0123456789''"

definition shaped_dummy_value :: "(nat \<Rightarrow> nat) \<Rightarrow> ustr \<Rightarrow> ustr \<Rightarrow> nat \<Rightarrow> ustr" where
  "shaped_dummy_value draws real_value pre minimum_len =
     (let target_len = max (max (length real_value) minimum_len) (length pre + 16)
      in pre @ map (\<lambda>index.
           if index < length real_value \<and> \<not> is_ascii_alphanumeric (real_value ! index) then real_value ! index
           else DUMMY_ALPHANUMERIC ! (draws index mod length DUMMY_ALPHANUMERIC)) [length pre ..< target_len])"

fun dummy_value :: "credential_provider \<Rightarrow> (nat \<Rightarrow> nat) \<Rightarrow> ustr \<Rightarrow> ustr" where
  "dummy_value GithubProvider draws real_value = shaped_dummy_value draws real_value (github_token_prefix real_value) 40"
| "dummy_value OpenaiProvider draws real_value = shaped_dummy_value draws real_value (openai_api_key_prefix real_value) 51"

section \<open>The broker\<close>

record credential_record =
  record_env_var :: ustr
  record_provider :: credential_provider
  record_binding :: credential_host_binding
  real_value :: ustr
  record_dummy :: ustr

record broker_state =
  broker_enabled :: bool
  credentials :: "credential_record list"

definition new_broker :: "bool \<Rightarrow> broker_state" where
  "new_broker e = \<lparr>broker_enabled = e, credentials = []\<rparr>"

definition is_dummy_value :: "broker_state \<Rightarrow> ustr \<Rightarrow> bool" where
  "is_dummy_value st value = list_ex (\<lambda>c. record_dummy c = value) (credentials st)"

text \<open>The loop that draws a dummy, from attempt \<open>n\<close> on; it also gives the next attempt.\<close>

partial_function (option) draw_dummy ::
  "(nat \<Rightarrow> nat \<Rightarrow> nat) \<Rightarrow> credential_provider \<Rightarrow> ustr \<Rightarrow> broker_state \<Rightarrow> nat \<Rightarrow> (ustr \<times> nat) option" where
  "draw_dummy draw provider value st n =
     (let candidate = dummy_value provider (draw n) value
      in if candidate \<noteq> value \<and> \<not> is_dummy_value st candidate then Some (candidate, n + 1)
         else draw_dummy draw provider value st (n + 1))"

declare draw_dummy.simps [code]

definition register ::
  "(nat \<Rightarrow> nat \<Rightarrow> nat) \<Rightarrow> ustr \<Rightarrow> credential_provider \<Rightarrow> credential_host_binding \<Rightarrow> ustr \<Rightarrow> broker_state \<times> nat \<Rightarrow>
     (ustr \<times> broker_state \<times> nat) option" where
  "register draw env_var provider binding value sn =
     (case sn of (st, n) \<Rightarrow>
        (case find (\<lambda>c. record_env_var c = env_var \<and> record_provider c = provider \<and> record_binding c = binding \<and> real_value c = value)
                (credentials st) of
           Some existing \<Rightarrow> Some (record_dummy existing, st, n)
         | None \<Rightarrow>
             (case draw_dummy draw provider value st n of
                None \<Rightarrow> None
              | Some (dummy, n') \<Rightarrow>
                  Some (dummy, st\<lparr>credentials := credentials st @ [\<lparr>record_env_var = env_var, record_provider = provider,
                    record_binding = binding, real_value = value, record_dummy = dummy\<rparr>]\<rparr>, n'))))"

text \<open>\<open>request_header_value\<close>: the header text for a token, if it is a header value.\<close>

definition request_header_value :: "(ustr \<Rightarrow> bool) \<Rightarrow> ustr \<Rightarrow> ustr option" where
  "request_header_value header_ok value = (let h = lit ''Bearer '' @ value in if header_ok h then Some h else None)"

definition brokerable_credential_value :: "(ustr \<Rightarrow> bool) \<Rightarrow> environment \<Rightarrow> broker_state \<Rightarrow> ustr \<Rightarrow> ustr option" where
  "brokerable_credential_value header_ok env st env_var =
     (case env env_var of
        None \<Rightarrow> None
      | Some v \<Rightarrow>
          let value = trim v
          in if value \<noteq> [] \<and> \<not> is_dummy_value st value \<and> request_header_value header_ok value \<noteq> None then Some value else None)"

type_synonym broker_run = "environment \<times> broker_state \<times> nat"

definition virtualize_env_var ::
  "(ustr \<Rightarrow> bool) \<Rightarrow> (nat \<Rightarrow> nat \<Rightarrow> nat) \<Rightarrow> credential_provider \<Rightarrow> credential_host_binding \<Rightarrow> ustr \<Rightarrow> broker_run \<Rightarrow> broker_run option" where
  "virtualize_env_var header_ok draw provider binding env_var run =
     (case run of (env, st, n) \<Rightarrow>
        (case brokerable_credential_value header_ok env st env_var of
           None \<Rightarrow> Some (env, st, n)
         | Some value \<Rightarrow>
             (case register draw env_var provider binding value (st, n) of
                None \<Rightarrow> None
              | Some (dummy, st', n') \<Rightarrow> Some (env(env_var \<mapsto> dummy), st', n'))))"

fun virtualize_vars ::
  "(ustr \<Rightarrow> bool) \<Rightarrow> (nat \<Rightarrow> nat \<Rightarrow> nat) \<Rightarrow> credential_provider \<Rightarrow> credential_host_binding \<Rightarrow> ustr list \<Rightarrow> broker_run \<Rightarrow> broker_run option" where
  "virtualize_vars header_ok draw provider binding [] run = Some run"
| "virtualize_vars header_ok draw provider binding (v # vs) run =
     Option.bind (virtualize_env_var header_ok draw provider binding v run) (virtualize_vars header_ok draw provider binding vs)"

text \<open>The nested loops over providers and their sources; the binding is computed from the environment as it is then.\<close>

fun virtualize_sources ::
  "(ustr \<Rightarrow> bool) \<Rightarrow> (nat \<Rightarrow> nat \<Rightarrow> nat) \<Rightarrow>
     (credential_provider \<times> ustr list \<times> (environment \<Rightarrow> credential_host_binding option)) list \<Rightarrow> broker_run \<Rightarrow> broker_run option" where
  "virtualize_sources header_ok draw [] run = Some run"
| "virtualize_sources header_ok draw ((provider, vars, binding_of) # rest) run =
     Option.bind
       (case binding_of (fst run) of
          Some binding \<Rightarrow> virtualize_vars header_ok draw provider binding vars run
        | None \<Rightarrow> Some run)
       (virtualize_sources header_ok draw rest)"

definition all_sources :: "(credential_provider \<times> ustr list \<times> (environment \<Rightarrow> credential_host_binding option)) list" where
  "all_sources = concat (map (\<lambda>p. map (\<lambda>s. (p, s)) (sources p)) credential_providers)"

definition ACTIVE_KEY :: ustr where "ACTIVE_KEY = lit ''CODEX_NETWORK_PROXY_CREDENTIAL_BROKER_ACTIVE''"
definition BROKERED_KEY :: ustr where "BROKERED_KEY = lit ''CODEX_NETWORK_PROXY_BROKERED_CREDENTIALS''"

definition update_brokered_credentials_marker ::
  "((ustr \<times> ustr) list \<Rightarrow> ustr option) \<Rightarrow> broker_state \<Rightarrow> environment \<Rightarrow> environment" where
  "update_brokered_credentials_marker to_json st env =
     (case to_json (List.map_filter (\<lambda>key. case env key of
              Some value \<Rightarrow> if is_dummy_value st value then Some (key, value) else None
            | None \<Rightarrow> None) credential_broker_env_keys) of
        Some marker \<Rightarrow> env(BROKERED_KEY \<mapsto> marker)
      | None \<Rightarrow> env(BROKERED_KEY := None))"

definition virtualize_child_env ::
  "(ustr \<Rightarrow> bool) \<Rightarrow> ((ustr \<times> ustr) list \<Rightarrow> ustr option) \<Rightarrow> (nat \<Rightarrow> nat \<Rightarrow> nat) \<Rightarrow> broker_run \<Rightarrow> broker_run option" where
  "virtualize_child_env header_ok to_json draw run =
     (case run of (env, st, n) \<Rightarrow>
        if \<not> broker_enabled st then Some (env(ACTIVE_KEY := None, BROKERED_KEY := None), st, n)
        else case virtualize_sources header_ok draw all_sources (env(ACTIVE_KEY \<mapsto> lit ''1''), st, n) of
               None \<Rightarrow> None
             | Some (env', st', n') \<Rightarrow> Some (update_brokered_credentials_marker to_json st' env', st', n'))"

section \<open>Requests\<close>

text \<open>Headers by name; a value that is not text is \<open>None\<close>.\<close>

type_synonym header_map = "ustr \<Rightarrow> ustr option list"

definition AUTHORIZATION :: ustr where "AUTHORIZATION = lit ''authorization''"

definition request_header :: "header_map \<Rightarrow> ustr option option" where
  "request_header headers = (case headers AUTHORIZATION of [] \<Rightarrow> None | v # _ \<Rightarrow> Some v)"

definition insert_request_header :: "ustr \<Rightarrow> header_map \<Rightarrow> header_map" where
  "insert_request_header value headers = headers(AUTHORIZATION := [Some value])"

definition carries_dummy :: "header_map \<Rightarrow> credential_record \<Rightarrow> bool" where
  "carries_dummy headers c = (case request_header headers of Some (Some v) \<Rightarrow> contains_str (record_dummy c) v | _ \<Rightarrow> False)"

definition select_credential :: "header_map \<Rightarrow> credential_record list \<Rightarrow> credential_record option" where
  "select_credential headers matching = (case filter (carries_dummy headers) matching of [c] \<Rightarrow> Some c | _ \<Rightarrow> None)"

definition host_requires_mitm :: "broker_state \<Rightarrow> ustr \<Rightarrow> bool" where
  "host_requires_mitm st host \<longleftrightarrow>
     broker_enabled st \<and> list_ex (\<lambda>c. matches_host (record_binding c) (normalize_host host)) (credentials st)"

definition inject_request_headers :: "(ustr \<Rightarrow> bool) \<Rightarrow> broker_state \<Rightarrow> ustr \<Rightarrow> header_map \<Rightarrow> header_map" where
  "inject_request_headers header_ok st host headers =
     (if \<not> broker_enabled st then headers
      else case select_credential headers (filter (\<lambda>c. matches_host (record_binding c) (normalize_host host)) (credentials st)) of
             None \<Rightarrow> headers
           | Some c \<Rightarrow>
               (case request_header_value header_ok (real_value c) of
                  None \<Rightarrow> headers
                | Some h \<Rightarrow> insert_request_header h headers))"

text \<open>Reading the markers back in a child.\<close>

definition brokered_credential_dummy_env_keys :: "(ustr \<Rightarrow> (ustr \<times> ustr) list option) \<Rightarrow> environment \<Rightarrow> ustr list" where
  "brokered_credential_dummy_env_keys from_json env =
     map fst (filter (\<lambda>(key, dummy). key \<in> set credential_broker_env_keys \<and> env key = Some dummy)
       (case Option.bind (env BROKERED_KEY) from_json of Some pairs \<Rightarrow> pairs | None \<Rightarrow> []))"

definition brokered_credential_env_keys :: "environment \<Rightarrow> ustr list" where
  "brokered_credential_env_keys env = (if env ACTIVE_KEY = Some (lit ''1'') then credential_broker_env_keys else [])"

section \<open>Drawing dummies\<close>

lemma draw_dummy_result:
  assumes "draw_dummy draw provider value st n = Some y"
  shows "fst y \<noteq> value \<and> \<not> is_dummy_value st (fst y) \<and> (\<exists>k. fst y = dummy_value provider (draw k) value)"
  using assms
proof (rule draw_dummy.raw_induct [rotated])
  fix f :: "(nat \<Rightarrow> nat \<Rightarrow> nat) \<Rightarrow> credential_provider \<Rightarrow> ustr \<Rightarrow> broker_state \<Rightarrow> nat \<Rightarrow> (ustr \<times> nat) option"
  fix draw provider real st n y
  assume IH: "\<And>draw provider real st n y. f draw provider real st n = Some y \<Longrightarrow>
      fst y \<noteq> real \<and> \<not> is_dummy_value st (fst y) \<and> (\<exists>k. fst y = dummy_value provider (draw k) real)"
    and step: "(let candidate = dummy_value provider (draw n) real
      in if candidate \<noteq> real \<and> \<not> is_dummy_value st candidate then Some (candidate, n + 1)
         else f draw provider real st (n + 1)) = Some y"
  show "fst y \<noteq> real \<and> \<not> is_dummy_value st (fst y) \<and> (\<exists>k. fst y = dummy_value provider (draw k) real)"
    using step IH [of draw provider real st "n + 1" y] by (auto simp: Let_def split: if_splits)
qed

lemma draw_dummy_Some:
  "draw_dummy draw provider value st n = Some (d, n') \<Longrightarrow>
     d \<noteq> value \<and> \<not> is_dummy_value st d \<and> (\<exists>k. d = dummy_value provider (draw k) value)"
  using draw_dummy_result by fastforce

text \<open>The loop ends if and only if some draw gives a new value, and then with the first.\<close>

lemma draw_dummy_ends:
  assumes "dummy_value provider (draw (n + k)) value \<noteq> value" "\<not> is_dummy_value st (dummy_value provider (draw (n + k)) value)"
  shows "\<exists>y. draw_dummy draw provider value st n = Some y"
  using assms
proof (induction k arbitrary: n)
  case 0
  then show ?case by (subst draw_dummy.simps) (simp add: Let_def)
next
  case (Suc k)
  then have "\<exists>y. draw_dummy draw provider value st (n + 1) = Some y" by simp
  then show ?case by (subst draw_dummy.simps) (auto simp: Let_def)
qed

definition fixed_value :: "ustr \<Rightarrow> bool" where
  "fixed_value value \<longleftrightarrow>
     51 \<le> length value \<and> length (openai_api_key_prefix value) + 16 \<le> length value \<and> starts_with (openai_api_key_prefix value) value \<and>
     list_all (\<lambda>c. \<not> is_ascii_alphanumeric c) (drop (length (openai_api_key_prefix value)) value)"

text \<open>
  A key that has nothing but punctuation after its prefix has no position to vary. Every candidate is the key itself, and the
  search for a dummy, which runs under the broker's lock, never ends.
\<close>

theorem dummy_search_may_never_end:
  assumes "fixed_value value"
  shows "draw_dummy draw OpenaiProvider value st n = None"
proof (rule ccontr)
  assume "\<not> ?thesis"
  then obtain d n' where "draw_dummy draw OpenaiProvider value st n = Some (d, n')" by auto
  from draw_dummy_Some [OF this] obtain k where k: "d \<noteq> value" "d = dummy_value OpenaiProvider (draw k) value" by blast
  let ?p = "openai_api_key_prefix value"
  have *: "51 \<le> length value" "length ?p + 16 \<le> length value" "starts_with ?p value"
    "list_all (\<lambda>c. \<not> is_ascii_alphanumeric c) (drop (length ?p) value)" using assms by (auto simp: fixed_value_def)
  have "shaped_dummy_value draws value ?p 51 = ?p @ map (\<lambda>i. value ! i) [length ?p ..< length value]" for draws
  proof -
    have "max (max (length value) 51) (length ?p + 16) = length value" using * by simp
    moreover have "\<not> is_ascii_alphanumeric (value ! i)" if "length ?p \<le> i" "i < length value" for i
      using *(4) that by (auto simp: list_all_length dest: spec [of _ "i - length ?p"])
    ultimately show ?thesis by (auto simp: shaped_dummy_value_def Let_def)
  qed
  moreover have "map (\<lambda>i. value ! i) [length ?p ..< length value] = drop (length ?p) value" by (rule nth_equalityI) auto
  moreover have "?p @ drop (length ?p) value = value" using *(3) by (metis append_eq_conv_conj starts_with_iff)
  ultimately show False using k by simp
qed

lemma fixed_value_exists: "fixed_value (lit ''sk-'' @ replicate 60 45)"
  by code_simp

text \<open>
  When the search ends. A dummy has the provider's prefix and copies the punctuation of the token; its other characters are drawn. With \<open>k\<close> of
  them there are \<open>62 ^ k\<close> dummies, so a source of random draws that shows every pattern again and again finds a new one while there are fewer records.
\<close>

definition fair_draws :: "(nat \<Rightarrow> nat \<Rightarrow> nat) \<Rightarrow> bool" where
  "fair_draws draw \<longleftrightarrow>
     (\<forall>pattern len n. (\<forall>i. pattern i < length DUMMY_ALPHANUMERIC) \<longrightarrow>
        (\<exists>m\<ge>n. \<forall>i<len. draw m i mod length DUMMY_ALPHANUMERIC = pattern i))"

definition drawn_positions :: "ustr \<Rightarrow> ustr \<Rightarrow> nat \<Rightarrow> nat list" where
  "drawn_positions token pre minimum_len =
     filter (\<lambda>i. \<not> (i < length token \<and> \<not> is_ascii_alphanumeric (token ! i)))
       [length pre ..< max (max (length token) minimum_len) (length pre + 16)]"

fun drawn_count :: "credential_provider \<Rightarrow> ustr \<Rightarrow> nat" where
  "drawn_count GithubProvider token = length (drawn_positions token (github_token_prefix token) 40)"
| "drawn_count OpenaiProvider token = length (drawn_positions token (openai_api_key_prefix token) 51)"

lemma dummy_alphabet: "length DUMMY_ALPHANUMERIC = 62" "distinct DUMMY_ALPHANUMERIC"
  by code_simp+

definition pattern_at :: "nat list \<Rightarrow> nat list \<Rightarrow> nat \<Rightarrow> nat" where
  "pattern_at ps xs i = (case map_of (zip ps xs) i of Some c \<Rightarrow> c | None \<Rightarrow> 0)"

lemma pattern_at_small: "set xs \<subseteq> {..<62} \<Longrightarrow> pattern_at ps xs i < 62"
  by (auto simp: pattern_at_def split: option.split dest!: map_of_SomeD set_zip_rightD)

lemma shaped_dummy_at:
  assumes "shaped_dummy_value f token pre minimum_len = shaped_dummy_value g token pre minimum_len"
    and "i \<in> set (drawn_positions token pre minimum_len)"
  shows "DUMMY_ALPHANUMERIC ! (f i mod length DUMMY_ALPHANUMERIC) = DUMMY_ALPHANUMERIC ! (g i mod length DUMMY_ALPHANUMERIC)"
  using assms by (auto simp: shaped_dummy_value_def drawn_positions_def Let_def split: if_splits)

lemma shaped_dummy_inj:
  fixes token pre minimum_len
  defines "ps \<equiv> drawn_positions token pre minimum_len"
  shows "inj_on (\<lambda>xs. shaped_dummy_value (pattern_at ps xs) token pre minimum_len) {xs. set xs \<subseteq> {..<62} \<and> length xs = length ps}"
proof (intro inj_onI nth_equalityI)
  fix xs ys :: "nat list" and j
  assume lists: "xs \<in> {xs. set xs \<subseteq> {..<62} \<and> length xs = length ps}" "ys \<in> {xs. set xs \<subseteq> {..<62} \<and> length xs = length ps}"
  show "length xs = length ys" using lists by simp
  assume same: "shaped_dummy_value (pattern_at ps xs) token pre minimum_len = shaped_dummy_value (pattern_at ps ys) token pre minimum_len"
    and j: "j < length xs"
  have ps: "distinct ps" by (simp add: ps_def drawn_positions_def)
  have here: "ps ! j \<in> set ps" using j lists by simp
  have at: "pattern_at ps zs (ps ! j) = zs ! j" "zs ! j < 62" if "set zs \<subseteq> {..<62}" "length zs = length ps" for zs
    using that ps j lists by (auto simp: pattern_at_def map_of_zip_nth subset_iff)
  from shaped_dummy_at [OF same here [unfolded ps_def], folded ps_def] at lists show "xs ! j = ys ! j"
    using nth_eq_iff_index_eq [OF dummy_alphabet(2)] by (simp add: dummy_alphabet(1))
qed

lemma shaped_dummy_cong:
  assumes "\<And>i. i < max (max (length token) minimum_len) (length pre + 16) \<Longrightarrow>
      f i mod length DUMMY_ALPHANUMERIC = g i mod length DUMMY_ALPHANUMERIC"
  shows "shaped_dummy_value f token pre minimum_len = shaped_dummy_value g token pre minimum_len"
  using assms by (auto simp: shaped_dummy_value_def Let_def)

lemma shaped_dummy_fresh:
  assumes "fair_draws draw" "length avoid < 62 ^ length (drawn_positions token pre minimum_len)"
  shows "\<exists>m\<ge>n. shaped_dummy_value (draw m) token pre minimum_len \<notin> set avoid"
proof -
  let ?ps = "drawn_positions token pre minimum_len"
  let ?A = "{xs. set xs \<subseteq> {..<62::nat} \<and> length xs = length ?ps}"
  let ?g = "\<lambda>xs. shaped_dummy_value (pattern_at ?ps xs) token pre minimum_len"
  have "\<not> ?g ` ?A \<subseteq> set avoid"
  proof
    assume "?g ` ?A \<subseteq> set avoid"
    then have "card ?A \<le> card (set avoid)" using shaped_dummy_inj by (intro card_inj_on_le [of ?g]) auto
    also have "\<dots> \<le> length avoid" by (rule card_length)
    finally show False using assms(2) by (simp add: card_lists_length_eq)
  qed
  then obtain xs where xs: "xs \<in> ?A" "?g xs \<notin> set avoid" by blast
  have "\<forall>i. pattern_at ?ps xs i < length DUMMY_ALPHANUMERIC" using pattern_at_small xs(1) by (simp add: dummy_alphabet(1))
  then obtain m where m: "m \<ge> n" "\<forall>i<max (max (length token) minimum_len) (length pre + 16).
      draw m i mod length DUMMY_ALPHANUMERIC = pattern_at ?ps xs i"
    using assms(1) unfolding fair_draws_def by meson
  then have "shaped_dummy_value (draw m) token pre minimum_len = ?g xs"
    using pattern_at_small xs(1) by (intro shaped_dummy_cong) (simp add: dummy_alphabet(1))
  with xs(2) m(1) show ?thesis by auto
qed

lemma draw_dummy_fair:
  assumes "fair_draws draw" "Suc (length (credentials st)) < 62 ^ drawn_count p t"
  shows "\<exists>y. draw_dummy draw p t st n = Some y"
proof -
  let ?avoid = "t # map record_dummy (credentials st)"
  obtain m where m: "m \<ge> n" "dummy_value p (draw m) t \<notin> set ?avoid"
    using shaped_dummy_fresh [OF assms(1), of ?avoid] assms(2) by (cases p) fastforce+
  then have "dummy_value p (draw (n + (m - n))) t \<noteq> t" "\<not> is_dummy_value st (dummy_value p (draw (n + (m - n))) t)"
    by (force simp: is_dummy_value_def list_ex_iff)+
  then show ?thesis by (rule draw_dummy_ends)
qed

section \<open>The environment of a child\<close>

definition broker_wf :: "broker_state \<Rightarrow> bool" where
  "broker_wf st \<longleftrightarrow> distinct (map record_dummy (credentials st)) \<and> list_all (\<lambda>c. record_dummy c \<noteq> real_value c) (credentials st)"

definition token_record :: "credential_provider \<Rightarrow> credential_host_binding \<Rightarrow> ustr \<Rightarrow> ustr \<Rightarrow> ustr \<Rightarrow> credential_record" where
  "token_record provider binding env_var value dummy =
     \<lparr>record_env_var = env_var, record_provider = provider, record_binding = binding, real_value = value, record_dummy = dummy\<rparr>"

lemma register_spec:
  assumes "register draw env_var provider binding value (st, n) = Some (d, st', n')" "broker_wf st"
  shows "broker_wf st'" "broker_enabled st' = broker_enabled st" "set (credentials st) \<subseteq> set (credentials st')"
    "token_record provider binding env_var value d \<in> set (credentials st')"
proof -
  let ?known = "\<lambda>c. record_env_var c = env_var \<and> record_provider c = provider \<and> record_binding c = binding \<and> real_value c = value"
  have "broker_wf st' \<and> broker_enabled st' = broker_enabled st \<and> set (credentials st) \<subseteq> set (credentials st') \<and>
    token_record provider binding env_var value d \<in> set (credentials st')"
  proof (cases "find ?known (credentials st)")
    case (Some c)
    then have "c \<in> set (credentials st)" "?known c" by (auto simp: find_Some_iff)
    moreover from this have "c = token_record provider binding env_var value (record_dummy c)" by (simp add: token_record_def)
    ultimately show ?thesis using Some assms by (auto simp: register_def)
  next
    case None
    with assms(1) obtain m where m: "draw_dummy draw provider value st n = Some (d, m)"
      and st': "st' = st\<lparr>credentials := credentials st @ [token_record provider binding env_var value d]\<rparr>"
      by (auto simp: register_def token_record_def split: option.splits)
    from draw_dummy_Some [OF m] have "d \<noteq> value" "\<not> is_dummy_value st d" by blast+
    then show ?thesis
      using assms(2) by (auto simp: broker_wf_def st' token_record_def is_dummy_value_def list_ex_iff)
  qed
  then show "broker_wf st'" "broker_enabled st' = broker_enabled st" "set (credentials st) \<subseteq> set (credentials st')"
    "token_record provider binding env_var value d \<in> set (credentials st')" by blast+
qed

text \<open>The loops as one sequence of variables with their bindings.\<close>

fun run_tasks ::
  "(ustr \<Rightarrow> bool) \<Rightarrow> (nat \<Rightarrow> nat \<Rightarrow> nat) \<Rightarrow> (credential_provider \<times> credential_host_binding \<times> ustr) list \<Rightarrow> broker_run \<Rightarrow> broker_run option" where
  "run_tasks header_ok draw [] run = Some run"
| "run_tasks header_ok draw ((provider, binding, v) # ts) run =
     Option.bind (virtualize_env_var header_ok draw provider binding v run) (run_tasks header_ok draw ts)"

definition source_tasks ::
  "(credential_provider \<times> ustr list \<times> (environment \<Rightarrow> credential_host_binding option)) list \<Rightarrow> environment \<Rightarrow>
     (credential_provider \<times> credential_host_binding \<times> ustr) list" where
  "source_tasks L env =
     concat (map (\<lambda>(p, vars, binding_of). case binding_of env of Some b \<Rightarrow> map (\<lambda>v. (p, b, v)) vars | None \<Rightarrow> []) L)"

lemma run_tasks_append: "run_tasks h draw (ts @ us) run = Option.bind (run_tasks h draw ts run) (run_tasks h draw us)"
proof (induction ts arbitrary: run)
  case (Cons t ts)
  obtain p b v where t: "t = (p, b, v)" by (cases t)
  show ?case by (cases "virtualize_env_var h draw p b v run") (simp_all add: t Cons.IH)
qed simp

lemma virtualize_vars_tasks: "virtualize_vars h draw p b vars run = run_tasks h draw (map (\<lambda>v. (p, b, v)) vars) run"
proof (induction vars arbitrary: run)
  case (Cons v vs)
  then show ?case by (simp add: Cons.IH [abs_def])
qed simp

lemma virtualize_env_var_other:
  "virtualize_env_var h draw p b v (env, st, n) = Some (env', st', n') \<Longrightarrow> k \<noteq> v \<Longrightarrow> env' k = env k"
  by (auto simp: virtualize_env_var_def split: option.splits prod.splits)

lemma run_tasks_other:
  "run_tasks h draw ts (env, st, n) = Some (env', st', n') \<Longrightarrow> k \<notin> (snd \<circ> snd) ` set ts \<Longrightarrow> env' k = env k"
proof (induction h draw ts "(env, st, n)" arbitrary: env st n rule: run_tasks.induct)
  case (2 h draw p b v ts)
  from "2.prems"(1) obtain env1 st1 n1 where 1: "virtualize_env_var h draw p b v (env, st, n) = Some (env1, st1, n1)"
    "run_tasks h draw ts (env1, st1, n1) = Some (env', st', n')" by (auto simp: bind_eq_Some_conv)
  from "2.hyps" [OF 1(1) 1(2)] virtualize_env_var_other [OF 1(1), of k] "2.prems"(2) show ?case by auto
qed simp

text \<open>A source whose binding looks at nothing but the host hint.\<close>

definition hint_only :: "(credential_provider \<times> ustr list \<times> (environment \<Rightarrow> credential_host_binding option)) \<Rightarrow> bool" where
  "hint_only s \<longleftrightarrow> (case s of (p, vars, f) \<Rightarrow> GH_HOST \<notin> set vars \<and> (\<forall>e e'. e GH_HOST = e' GH_HOST \<longrightarrow> f e = f e'))"

lemma virtualize_sources_tasks:
  assumes "\<forall>s\<in>set L. hint_only s"
  shows "virtualize_sources h draw L (env, st, n) = run_tasks h draw (source_tasks L env) (env, st, n)"
  using assms
proof (induction L arbitrary: env st n)
  case (Cons s L)
  obtain p vars f where s: "s = (p, vars, f)" by (cases s)
  let ?first = "case f env of Some b \<Rightarrow> map (\<lambda>v. (p, b, v)) vars | None \<Rightarrow> []"
  have "virtualize_sources h draw L run = run_tasks h draw (source_tasks L env) run"
    if "run_tasks h draw ?first (env, st, n) = Some run" for run
  proof -
    obtain env1 st1 n1 where run: "run = (env1, st1, n1)" by (cases run)
    have "hint_only (p, vars, f)" using Cons.prems s by simp
    then have "GH_HOST \<notin> set vars" by (simp add: hint_only_def)
    then have "GH_HOST \<notin> (snd \<circ> snd) ` set ?first" by (cases "f env") auto
    then have "env1 GH_HOST = env GH_HOST" using run_tasks_other [OF that [unfolded run]] by simp
    then have same: "f' env1 = f' env" if "(p', vars', f') \<in> set L" for p' vars' f'
    proof -
      have "hint_only (p', vars', f')" using Cons.prems that by simp
      then show ?thesis using \<open>env1 GH_HOST = env GH_HOST\<close> unfolding hint_only_def by blast
    qed
    have "source_tasks L env1 = source_tasks L env"
      unfolding source_tasks_def by (intro arg_cong [of _ _ concat] map_cong refl) (auto simp: same split: prod.split)
    then show ?thesis using Cons.IH [of env1 st1 n1] Cons.prems run by simp
  qed
  moreover have "source_tasks (s # L) env = ?first @ source_tasks L env" by (simp add: source_tasks_def s)
  moreover have "(case f env of Some b \<Rightarrow> virtualize_vars h draw p b vars (env, st, n) | None \<Rightarrow> Some (env, st, n)) =
      run_tasks h draw ?first (env, st, n)" by (cases "f env") (simp_all add: virtualize_vars_tasks)
  ultimately show ?case
    by (simp add: s run_tasks_append) (cases "run_tasks h draw ?first (env, st, n)"; simp)
qed (simp add: source_tasks_def)

text \<open>What has become of a variable: left alone because it holds no token, or replaced by the dummy of a record.\<close>

definition settled ::
  "(ustr \<Rightarrow> bool) \<Rightarrow> environment \<Rightarrow> environment \<Rightarrow> broker_state \<Rightarrow> credential_provider \<times> credential_host_binding \<times> ustr \<Rightarrow> bool" where
  "settled h env env' st' task \<longleftrightarrow>
     (case task of (p, b, v) \<Rightarrow>
        env' v = env v \<and> brokerable_credential_value h env st' v = None \<or>
        (\<exists>x d. env v = Some x \<and> env' v = Some d \<and> token_record p b v (trim x) d \<in> set (credentials st')))"

lemma brokerable_cong: "env v = env' v \<Longrightarrow> brokerable_credential_value h env st v = brokerable_credential_value h env' st v"
  by (simp add: brokerable_credential_value_def)

lemma brokerable_mono:
  "brokerable_credential_value h env st v = None \<Longrightarrow> set (credentials st) \<subseteq> set (credentials st') \<Longrightarrow>
   brokerable_credential_value h env st' v = None"
  by (auto simp: brokerable_credential_value_def is_dummy_value_def list_ex_iff Let_def split: option.splits if_splits)

lemma virtualize_env_var_spec:
  assumes "virtualize_env_var h draw p b v (env, st, n) = Some (env', st', n')" "broker_wf st"
  shows "broker_wf st' \<and> broker_enabled st' = broker_enabled st \<and> set (credentials st) \<subseteq> set (credentials st') \<and> settled h env env' st' (p, b, v)"
proof (cases "brokerable_credential_value h env st v")
  case None
  then show ?thesis using assms by (simp add: virtualize_env_var_def settled_def)
next
  case (Some t)
  then obtain d where reg: "register draw v p b t (st, n) = Some (d, st', n')" and env': "env' = env(v \<mapsto> d)"
    using assms(1) by (auto simp: virtualize_env_var_def split: option.splits)
  from Some obtain x where "env v = Some x" "t = trim x"
    by (auto simp: brokerable_credential_value_def Let_def split: option.splits if_splits)
  then show ?thesis using register_spec [OF reg assms(2)] env' by (auto simp: settled_def)
qed

lemma run_tasks_spec:
  "run_tasks h draw ts (env, st, n) = Some (env', st', n') \<Longrightarrow> distinct (map (snd \<circ> snd) ts) \<Longrightarrow> broker_wf st \<Longrightarrow>
   broker_wf st' \<and> broker_enabled st' = broker_enabled st \<and> set (credentials st) \<subseteq> set (credentials st') \<and>
   list_all (settled h env env' st') ts"
proof (induction ts arbitrary: env st n)
  case (Cons task ts)
  obtain p b v where task: "task = (p, b, v)" by (cases task)
  from Cons.prems(1) obtain env1 st1 n1 where 1: "virtualize_env_var h draw p b v (env, st, n) = Some (env1, st1, n1)"
    "run_tasks h draw ts (env1, st1, n1) = Some (env', st', n')" by (auto simp: task bind_eq_Some_conv)
  note first = virtualize_env_var_spec [OF 1(1) Cons.prems(3)]
  have rest: "broker_wf st' \<and> broker_enabled st' = broker_enabled st1 \<and> set (credentials st1) \<subseteq> set (credentials st') \<and>
      list_all (settled h env1 env' st') ts"
    using Cons.IH [OF 1(2)] Cons.prems(2) first by simp
  have "env' v = env1 v" using run_tasks_other [OF 1(2), of v] Cons.prems(2) by (simp add: task comp_def)
  then have "settled h env env' st' (p, b, v)"
    using first rest brokerable_mono [of h env st1 v st'] by (auto simp: settled_def)
  moreover have "settled h env env' st' t" if "t \<in> set ts" for t
  proof -
    obtain q c w where t: "t = (q, c, w)" by (cases t)
    have "w \<noteq> v" using Cons.prems(2) that t task by force
    then have "env1 w = env w" using virtualize_env_var_other [OF 1(1)] by blast
    moreover have "settled h env1 env' st' (q, c, w)" using rest that t by (simp add: list_all_iff)
    ultimately show ?thesis using brokerable_cong [of env1 w env h st'] by (auto simp: settled_def t)
  qed
  ultimately show ?case using first rest task by (auto simp: list_all_iff)
qed simp

definition token_vars :: "ustr list" where
  "token_vars = concat (map (\<lambda>(_, vars, _). vars) all_sources)"

lemma token_vars_eq: "token_vars =
  [lit ''GH_TOKEN'', lit ''GITHUB_TOKEN'', lit ''GH_ENTERPRISE_TOKEN'', lit ''GITHUB_ENTERPRISE_TOKEN'', lit ''OPENAI_API_KEY'']"
  by (simp add: token_vars_def all_sources_def credential_providers_def)

lemma token_vars_facts: "distinct token_vars" "GH_HOST \<notin> set token_vars" "ACTIVE_KEY \<notin> set token_vars" "BROKERED_KEY \<notin> set token_vars"
  "ACTIVE_KEY \<noteq> GH_HOST"
  by code_simp+

lemma sources_hint_only: "\<forall>s\<in>set all_sources. hint_only s"
proof -
  have vars: "GH_HOST \<notin> set vars" if "(p, vars, f) \<in> set all_sources" for p vars f
    using that token_vars_facts(2) by (fastforce simp: token_vars_def)
  have "github_enterprise_binding e = github_enterprise_binding e'" if "e GH_HOST = e' GH_HOST" for e e'
    using that by (simp add: github_enterprise_binding_def github_host_hint_def)
  then have "f e = f e'" if "(p, vars, f) \<in> set all_sources" "e GH_HOST = e' GH_HOST" for p vars f e e'
    using that by (auto simp: all_sources_def credential_providers_def github_cloud_binding_def openai_binding_def)
  with vars show ?thesis unfolding hint_only_def by blast
qed

lemma source_tasks_vars: "map (snd \<circ> snd) (source_tasks L env) =
  concat (map (\<lambda>(p, vars, f). if f env = None then [] else vars) L)"
  by (induction L) (auto simp: source_tasks_def comp_def split: option.split)

lemma distinct_concat_if:
  "distinct (concat (map (\<lambda>(p, vars, f). vars) L)) \<Longrightarrow>
   distinct (concat (map (\<lambda>(p, vars, f). if f env = None then [] else vars) L)) \<and>
   set (concat (map (\<lambda>(p, vars, f). if f env = None then [] else vars) L)) \<subseteq> set (concat (map (\<lambda>(p, vars, f). vars) L))"
proof (induction L)
  case (Cons s L)
  obtain p vars f where s: "s = (p, vars, f)" by (cases s)
  define A where "A = concat (map (\<lambda>(p, vars, f). if f env = None then [] else vars) L)"
  define B where "B = concat (map (\<lambda>(p, vars, f). vars) L)"
  have "distinct (vars @ B)" using Cons.prems by (simp add: s B_def)
  moreover from this have "distinct A \<and> set A \<subseteq> set B" using Cons.IH unfolding A_def [symmetric] B_def [symmetric] by simp
  ultimately have "distinct ((if f env = None then [] else vars) @ A) \<and> set ((if f env = None then [] else vars) @ A) \<subseteq> set (vars @ B)"
    by auto
  then show ?case by (simp add: s A_def B_def)
qed simp

lemma tasks_distinct:
  "distinct (map (snd \<circ> snd) (source_tasks all_sources env))" "(snd \<circ> snd) ` set (source_tasks all_sources env) \<subseteq> set token_vars"
  using distinct_concat_if [of all_sources env] token_vars_facts(1) source_tasks_vars [of all_sources env]
  unfolding token_vars_def set_map [symmetric] by simp_all

lemma source_tasks_active: "source_tasks all_sources (env(ACTIVE_KEY \<mapsto> v)) = source_tasks all_sources env"
proof -
  have same: "f (env(ACTIVE_KEY \<mapsto> v)) = f env" if "(p, vars, f) \<in> set all_sources" for p vars f
  proof -
    have "hint_only (p, vars, f)" using sources_hint_only that by blast
    moreover have "(env(ACTIVE_KEY \<mapsto> v)) GH_HOST = env GH_HOST" using token_vars_facts(5) by simp
    ultimately show ?thesis unfolding hint_only_def by blast
  qed
  then show ?thesis
    unfolding source_tasks_def by (intro arg_cong [of _ _ concat] map_cong refl) (auto simp: same split: prod.split)
qed

lemma virtualize_child_env_tasks:
  assumes "virtualize_child_env h to_json draw (env, st, n) = Some (env', st', n')" "broker_enabled st"
  obtains env1 where "run_tasks h draw (source_tasks all_sources env) (env(ACTIVE_KEY \<mapsto> lit ''1''), st, n) = Some (env1, st', n')"
    "env' = update_brokered_credentials_marker to_json st' env1"
proof -
  from assms obtain env1 st1 n1 where
      "virtualize_sources h draw all_sources (env(ACTIVE_KEY \<mapsto> lit ''1''), st, n) = Some (env1, st1, n1)"
      "(update_brokered_credentials_marker to_json st1 env1, st1, n1) = (env', st', n')"
    by (auto simp: virtualize_child_env_def simp del: lit_Cons split: option.splits)
  then show thesis
    using that virtualize_sources_tasks [OF sources_hint_only] source_tasks_active by (metis Pair_inject)
qed

lemma child_env_settled:
  assumes "virtualize_child_env h to_json draw (env, st, n) = Some (env', st', n')" "broker_enabled st" "broker_wf st"
  shows "broker_wf st' \<and> set (credentials st) \<subseteq> set (credentials st') \<and>
    list_all (settled h env env' st') (source_tasks all_sources env) \<and>
    (\<forall>k. k \<notin> (snd \<circ> snd) ` set (source_tasks all_sources env) \<and> k \<noteq> ACTIVE_KEY \<and> k \<noteq> BROKERED_KEY \<longrightarrow> env' k = env k)"
proof -
  let ?ts = "source_tasks all_sources env"
  from virtualize_child_env_tasks [OF assms(1,2)] obtain env1 where
      run: "run_tasks h draw ?ts (env(ACTIVE_KEY \<mapsto> lit ''1''), st, n) = Some (env1, st', n')"
      and env': "env' = update_brokered_credentials_marker to_json st' env1" .
  have other: "env' k = env1 k" if "k \<noteq> BROKERED_KEY" for k
    using that by (auto simp: env' update_brokered_credentials_marker_def split: option.split)
  note spec = run_tasks_spec [OF run tasks_distinct(1) assms(3)]
  have "settled h env env' st' t" if "t \<in> set ?ts" for t
  proof -
    obtain p b v where t: "t = (p, b, v)" by (cases t)
    have "v \<in> (snd \<circ> snd) ` set ?ts" using that t by force
    then have "v \<in> set token_vars" using tasks_distinct(2) by blast
    then have "v \<noteq> ACTIVE_KEY" "v \<noteq> BROKERED_KEY" using token_vars_facts(3,4) by metis+
    then have "(env(ACTIVE_KEY \<mapsto> lit ''1'')) v = env v" "env' v = env1 v" using other by auto
    moreover have "settled h (env(ACTIVE_KEY \<mapsto> lit ''1'')) env1 st' t" using spec that by (simp add: list_all_iff)
    ultimately show ?thesis
      using brokerable_cong [of "env(ACTIVE_KEY \<mapsto> lit ''1'')" v env h st'] unfolding settled_def t by (simp del: lit_Cons)
  qed
  moreover have "env' k = env k" if "k \<notin> (snd \<circ> snd) ` set ?ts" "k \<noteq> ACTIVE_KEY" "k \<noteq> BROKERED_KEY" for k
    using other [OF that(3)] run_tasks_other [OF run that(1)] that(2) by simp
  ultimately show ?thesis using spec by (simp add: list_all_iff)
qed

text \<open>Every variable of the sequence is settled when there is room for one more dummy for each.\<close>

lemma virtualize_env_var_ends:
  assumes "fair_draws draw" "\<And>t. brokerable_credential_value h env st v = Some t \<Longrightarrow> Suc (length (credentials st)) < 62 ^ drawn_count p t"
  shows "\<exists>env' st' n'. virtualize_env_var h draw p b v (env, st, n) = Some (env', st', n') \<and>
    length (credentials st') \<le> Suc (length (credentials st)) \<and> set (credentials st) \<subseteq> set (credentials st')"
proof (cases "brokerable_credential_value h env st v")
  case (Some t)
  with draw_dummy_fair [OF assms(1), of st p t n] assms(2) show ?thesis
    by (auto simp: virtualize_env_var_def register_def split: option.split)
qed (simp add: virtualize_env_var_def)

lemma run_tasks_end:
  assumes "fair_draws draw" "distinct (map (snd \<circ> snd) ts)"
    and "\<forall>(p, b, v)\<in>set ts. \<forall>t. brokerable_credential_value h env st v = Some t \<longrightarrow>
      length (credentials st) + length ts < 62 ^ drawn_count p t"
  shows "\<exists>run. run_tasks h draw ts (env, st, n) = Some run"
  using assms(2,3)
proof (induction ts arbitrary: env st n)
  case (Cons task ts)
  obtain p b v where task: "task = (p, b, v)" by (cases task)
  have "Suc (length (credentials st)) < 62 ^ drawn_count p t" if "brokerable_credential_value h env st v = Some t" for t
    using Cons.prems(2) that by (fastforce simp: task)
  from virtualize_env_var_ends [OF assms(1) this] obtain env1 st1 n1 where
      first: "virtualize_env_var h draw p b v (env, st, n) = Some (env1, st1, n1)"
      "length (credentials st1) \<le> Suc (length (credentials st))" "set (credentials st) \<subseteq> set (credentials st1)"
    by blast
  have "length (credentials st1) + length ts < 62 ^ drawn_count q t"
    if "(q, c, w) \<in> set ts" "brokerable_credential_value h env1 st1 w = Some t" for q c w t
  proof -
    have "w \<noteq> v" using Cons.prems(1) that(1) by (force simp: task)
    then have "brokerable_credential_value h env st1 w = Some t"
      using virtualize_env_var_other [OF first(1)] that(2) brokerable_cong [of env1 w env h st1] by simp
    then have "brokerable_credential_value h env st w = Some t"
      using brokerable_mono [OF _ first(3), of h env w]
      by (cases "brokerable_credential_value h env st w") (auto simp: brokerable_credential_value_def Let_def split: option.splits if_splits)
    then have "length (credentials st) + length (task # ts) < 62 ^ drawn_count q t" using Cons.prems(2) that(1) by fastforce
    then show ?thesis using first(2) by simp
  qed
  then have "\<exists>run. run_tasks h draw ts (env1, st1, n1) = Some run" using Cons.prems(1) by (intro Cons.IH) auto
  then show ?case by (simp add: task first(1))
qed simp

lemma child_env_ends:
  assumes "fair_draws draw" "broker_enabled st"
    and "\<forall>(p, b, v)\<in>set (source_tasks all_sources env). \<forall>t. brokerable_credential_value h env st v = Some t \<longrightarrow>
      length (credentials st) + length token_vars < 62 ^ drawn_count p t"
  shows "\<exists>env' st' n'. virtualize_child_env h to_json draw (env, st, n) = Some (env', st', n')"
proof -
  let ?ts = "source_tasks all_sources env" and ?env = "env(ACTIVE_KEY \<mapsto> lit ''1'')"
  have "length ?ts = card ((snd \<circ> snd) ` set ?ts)" using distinct_card [OF tasks_distinct(1)] by simp
  also have "\<dots> \<le> card (set token_vars)" using tasks_distinct(2) by (intro card_mono) auto
  also have "\<dots> \<le> length token_vars" by (rule card_length)
  finally have few: "length ?ts \<le> length token_vars" .
  have "length (credentials st) + length ?ts < 62 ^ drawn_count p t"
    if "(p, b, v) \<in> set ?ts" "brokerable_credential_value h ?env st v = Some t" for p b v t
  proof -
    have "v \<in> set token_vars" using tasks_distinct(2) that(1) by force
    then have "v \<noteq> ACTIVE_KEY" using token_vars_facts(3) by metis
    then have "brokerable_credential_value h env st v = Some t" using that(2) by (simp add: brokerable_credential_value_def del: lit_Cons)
    then have "length (credentials st) + length token_vars < 62 ^ drawn_count p t" using assms(3) that(1) by fastforce
    then show ?thesis using few by simp
  qed
  then have "\<exists>run. run_tasks h draw ?ts (?env, st, n) = Some run"
    using run_tasks_end [OF assms(1) tasks_distinct(1), where h = h and env = ?env and st = st and n = n] by blast
  then obtain run where "virtualize_sources h draw all_sources (?env, st, n) = Some run"
    using virtualize_sources_tasks [OF sources_hint_only] source_tasks_active by metis
  then show ?thesis using assms(2) by (cases run) (simp add: virtualize_child_env_def del: lit_Cons)
qed

text \<open>Which variables have a host: those of the cloud and of the API always, the enterprise ones when the hint names such a host.\<close>

lemma bound_vars:
  "(snd \<circ> snd) ` set (source_tasks all_sources env) =
     {lit ''GH_TOKEN'', lit ''GITHUB_TOKEN'', lit ''OPENAI_API_KEY''} \<union>
     (if github_enterprise_binding env = None then {} else {lit ''GH_ENTERPRISE_TOKEN'', lit ''GITHUB_ENTERPRISE_TOKEN''})"
proof -
  have "(snd \<circ> snd) ` set (source_tasks all_sources env) = set (map (snd \<circ> snd) (source_tasks all_sources env))" by simp
  also have "\<dots> = {lit ''GH_TOKEN'', lit ''GITHUB_TOKEN'', lit ''OPENAI_API_KEY''} \<union>
     (if github_enterprise_binding env = None then {} else {lit ''GH_ENTERPRISE_TOKEN'', lit ''GITHUB_ENTERPRISE_TOKEN''})"
    unfolding source_tasks_vars
    by (auto simp: all_sources_def credential_providers_def github_cloud_binding_def openai_binding_def simp del: lit_Cons)
  finally show ?thesis .
qed

text \<open>
  C7: A child process does not see the tokens of the variables that have a host. These are the tokens of the cloud and of the API, and the enterprise tokens
  exactly when the host hint names a host that is not of the cloud; without it an enterprise token stays as it is, like every variable other than
  the two markers of the broker. When the broker is on, random draws that show every pattern again and again, and tokens with more dummies than
  there are records, let the search for dummies end. Then each of these variables either held no token, in that it was unset, blank, unusable in a header or
  already a dummy, and is left alone; or it now holds a dummy that a record of the broker ties to the variable, to the token it held, and to
  the hosts of its source. Dummies are different from each other and from the tokens they stand for, and records are never lost.
\<close>

theorem child_env_hides_tokens:
  assumes "broker_enabled st" "broker_wf st" "fair_draws draw"
    and "\<forall>(p, b, v)\<in>set (source_tasks all_sources env). \<forall>t. brokerable_credential_value h env st v = Some t \<longrightarrow>
      length (credentials st) + length token_vars < 62 ^ drawn_count p t"
  shows "\<exists>env' st' n'. virtualize_child_env h to_json draw (env, st, n) = Some (env', st', n') \<and>
    broker_wf st' \<and> set (credentials st) \<subseteq> set (credentials st') \<and>
    list_all (settled h env env' st') (source_tasks all_sources env) \<and>
    (snd \<circ> snd) ` set (source_tasks all_sources env) =
      {lit ''GH_TOKEN'', lit ''GITHUB_TOKEN'', lit ''OPENAI_API_KEY''} \<union>
      (if github_enterprise_binding env = None then {} else {lit ''GH_ENTERPRISE_TOKEN'', lit ''GITHUB_ENTERPRISE_TOKEN''}) \<and>
    (\<forall>k. k \<notin> (snd \<circ> snd) ` set (source_tasks all_sources env) \<and> k \<noteq> ACTIVE_KEY \<and> k \<noteq> BROKERED_KEY \<longrightarrow> env' k = env k)"
proof -
  obtain env' st' n' where run: "virtualize_child_env h to_json draw (env, st, n) = Some (env', st', n')"
    using child_env_ends [OF assms(3,1,4)] by blast
  show ?thesis
    using child_env_settled [OF run assms(1,2)] run
    by (intro exI [of _ env'] exI [of _ st'] exI [of _ n'] conjI bound_vars) blast+
qed

section \<open>Injection\<close>

lemma contains_end: "contains_str p (a @ p)"
  by (auto simp: contains_str_def find_sub_None_iff starts_with_iff intro!: exI [of _ "length a"])

lemma filter_unique:
  "distinct (map f xs) \<Longrightarrow> x \<in> set xs \<Longrightarrow> (\<And>y. y \<in> set xs \<Longrightarrow> P y \<longleftrightarrow> f y = f x) \<Longrightarrow> filter P xs = [x]"
proof (induction xs)
  case (Cons y ys)
  show ?case
  proof (cases "f y = f x")
    case True
    have fresh: "f y \<notin> f ` set ys" using Cons.prems(1) by simp
    then have "y = x" using Cons.prems(2) True imageI [of x "set ys" f] by auto
    moreover have "\<not> P z" if "z \<in> set ys" for z
      using Cons.prems(3) [of z] that True fresh by (metis image_eqI list.set_intros(2))
    then have "filter P ys = []" by (simp add: filter_empty_conv)
    ultimately show ?thesis using Cons.prems(3) [of y] True by simp
  next
    case False
    then show ?thesis using Cons by auto
  qed
qed simp

lemma inject_only_bound:
  "inject_request_headers h st host headers = headers \<or>
   (\<exists>c. c \<in> set (credentials st) \<and> matches_host (record_binding c) (normalize_host host) \<and> carries_dummy headers c \<and>
      inject_request_headers h st host headers = headers(AUTHORIZATION := [Some (lit ''Bearer '' @ real_value c)]))"
proof -
  let ?bound = "filter (\<lambda>c. matches_host (record_binding c) (normalize_host host)) (credentials st)"
  show ?thesis
  proof (cases "\<exists>c hv. broker_enabled st \<and> select_credential headers ?bound = Some c \<and> request_header_value h (real_value c) = Some hv")
    case True
    then obtain c hv where c: "broker_enabled st" "select_credential headers ?bound = Some c" "request_header_value h (real_value c) = Some hv"
      by blast
    then have "filter (carries_dummy headers) ?bound = [c]" by (auto simp: select_credential_def split: list.splits)
    then have "c \<in> set (filter (carries_dummy headers) ?bound)" by (simp del: set_filter)
    moreover have "hv = lit ''Bearer '' @ real_value c"
      using c(3) by (simp add: request_header_value_def Let_def del: lit_Cons split: if_splits)
    ultimately show ?thesis using c by (simp add: inject_request_headers_def insert_request_header_def del: lit_Cons) blast
  next
    case False
    then show ?thesis by (auto simp: inject_request_headers_def split: option.split)
  qed
qed

text \<open>
  C25: The token comes back where it belongs, and nowhere else. Let a variable have held a token that the broker replaced in a child's environment. A request of the
  child that carries the dummy, to a host of the token's source, leaves the proxy with the token in its place, provided no dummy of
  another token for that host occurs in the header. A request to a host that no token is for leaves unchanged.
\<close>

theorem brokered_token_roundtrip:
  assumes "virtualize_child_env h to_json draw (env, st, n) = Some (env', st', n')" "broker_enabled st" "broker_wf st"
    and "(p, b, v) \<in> set (source_tasks all_sources env)" "env v = Some x" "env' v = Some d" "env' v \<noteq> env v"
    and "matches_host b (normalize_host host)" "headers AUTHORIZATION = [Some (lit ''Bearer '' @ d)]" "h (lit ''Bearer '' @ trim x)"
    and "\<forall>c\<in>set (credentials st'). matches_host (record_binding c) (normalize_host host) \<and> record_dummy c \<noteq> d \<longrightarrow>
      \<not> contains_str (record_dummy c) (lit ''Bearer '' @ d)"
    and "\<forall>c\<in>set (credentials st'). \<not> matches_host (record_binding c) (normalize_host other)"
  shows "inject_request_headers h st' host headers = headers(AUTHORIZATION := [Some (lit ''Bearer '' @ trim x)]) \<and>
    inject_request_headers h st' other headers = headers"
proof -
  note hidden = child_env_settled [OF assms(1-3)]
  have "settled h env env' st' (p, b, v)" using hidden assms(4) by (simp add: list_all_iff)
  then have c: "token_record p b v (trim x) d \<in> set (credentials st')" (is "?c \<in> _")
    using assms(5-7) by (auto simp: settled_def)
  have on: "broker_enabled st'"
    using assms(1,2) by (rule virtualize_child_env_tasks) (use run_tasks_spec tasks_distinct(1) assms(2,3) in blast)
  let ?bound = "filter (\<lambda>c. matches_host (record_binding c) (normalize_host host)) (credentials st')"
  have "contains_str d (lit ''Bearer '' @ d)" by (rule contains_end)
  then have carries: "carries_dummy headers c' \<longleftrightarrow> record_dummy c' = record_dummy ?c" if "c' \<in> set ?bound" for c'
    using that assms(9,11) by (auto simp: carries_dummy_def request_header_def token_record_def simp del: lit_Cons)
  have "distinct (map record_dummy ?bound)" using hidden by (simp add: broker_wf_def distinct_map_filter)
  moreover have "?c \<in> set ?bound" using c assms(8) by (simp add: token_record_def)
  ultimately have "filter (carries_dummy headers) ?bound = [?c]" using carries by (rule filter_unique)
  then have "select_credential headers ?bound = Some ?c" by (simp add: select_credential_def)
  moreover have "request_header_value h (real_value ?c) = Some (lit ''Bearer '' @ trim x)"
    using assms(10) by (simp add: request_header_value_def token_record_def del: lit_Cons)
  ultimately have "inject_request_headers h st' host headers = headers(AUTHORIZATION := [Some (lit ''Bearer '' @ trim x)])"
    using on by (simp add: inject_request_headers_def insert_request_header_def del: lit_Cons)
  moreover have "inject_request_headers h st' other headers = headers" using inject_only_bound [of h st' other headers] assms(12) by blast
  ultimately show ?thesis by blast
qed

section \<open>Examples\<close>

definition example_dummy :: ustr where
  "example_dummy = lit ''sk-'' @ replicate 48 65"

definition example_env :: environment where
  "example_env = [lit ''OPENAI_API_KEY'' \<mapsto> lit ''sk-1'']"

definition example_broker :: broker_state where
  "example_broker = \<lparr>broker_enabled = True, credentials =
     [token_record OpenaiProvider (ExactHost (lit ''api.openai.com'')) (lit ''OPENAI_API_KEY'') (lit ''sk-1'') example_dummy]\<rparr>"

lemma first_character_dummy:
  assumes "list_all is_ascii_alphanumeric (drop (length pre) token)"
  shows "shaped_dummy_value (\<lambda>_. 0) token pre n =
    pre @ replicate (max (max (length token) n) (length pre + 16) - length pre) (DUMMY_ALPHANUMERIC ! 0)"
proof -
  have "is_ascii_alphanumeric (token ! i)" if "length pre \<le> i" "i < length token" for i
    using assms that by (force simp: list_all_length dest: spec [of _ "i - length pre"])
  then show ?thesis by (auto simp: shaped_dummy_value_def Let_def intro!: nth_equalityI)
qed

lemma example_drawn: "draw_dummy (\<lambda>_ _. 0) OpenaiProvider (lit ''sk-1'') (new_broker True) 0 = Some (example_dummy, 1)"
proof -
  have pre: "openai_api_key_prefix (lit ''sk-1'') = lit ''sk-''" by code_simp
  have shape: "list_all is_ascii_alphanumeric (drop (length (lit ''sk-'')) (lit ''sk-1''))" by code_simp
  have "dummy_value OpenaiProvider (\<lambda>_. 0) (lit ''sk-1'') = example_dummy"
    unfolding dummy_value.simps pre first_character_dummy [OF shape] example_dummy_def by (simp add: DUMMY_ALPHANUMERIC_def)
  moreover have "example_dummy \<noteq> lit ''sk-1''" by code_simp
  ultimately show ?thesis by (subst draw_dummy.simps) (simp add: is_dummy_value_def new_broker_def Let_def del: lit_Cons)
qed

lemma example_tasks: "source_tasks all_sources example_env =
  [(GithubProvider, HostPattern github_cloud_hosts github_cloud_host_suffixes, lit ''GH_TOKEN''),
   (GithubProvider, HostPattern github_cloud_hosts github_cloud_host_suffixes, lit ''GITHUB_TOKEN''),
   (OpenaiProvider, ExactHost (lit ''api.openai.com''), lit ''OPENAI_API_KEY'')]"
proof -
  have "example_env GH_HOST = None" by code_simp
  then have "github_enterprise_binding example_env = None" by (simp add: github_enterprise_binding_def github_host_hint_def)
  then show ?thesis
    by (simp add: source_tasks_def all_sources_def credential_providers_def github_cloud_binding_def openai_binding_def del: lit_Cons)
qed

lemma example_child:
  "\<exists>env'. virtualize_child_env (\<lambda>_. True) (\<lambda>_. None) (\<lambda>_ _. 0) (example_env, new_broker True, 0) = Some (env', example_broker, 1) \<and>
     env' (lit ''OPENAI_API_KEY'') = Some example_dummy"
proof -
  let ?e = "example_env(ACTIVE_KEY \<mapsto> lit ''1'')" and ?key = "lit ''OPENAI_API_KEY''"
  have absent: "?e (lit ''GH_TOKEN'') = None" "?e (lit ''GITHUB_TOKEN'') = None" and present: "?e ?key = Some (lit ''sk-1'')" by code_simp+
  have "trim (lit ''sk-1'') = lit ''sk-1''" by (intro trim_no_whitespace) (simp add: is_whitespace_def)
  then have value_of: "brokerable_credential_value (\<lambda>_. True) ?e (new_broker True) ?key = Some (lit ''sk-1'')"
    unfolding brokerable_credential_value_def present by (simp add: is_dummy_value_def new_broker_def request_header_value_def Let_def)
  have "brokerable_credential_value (\<lambda>_. True) ?e (new_broker True) (lit ''GH_TOKEN'') = None"
    "brokerable_credential_value (\<lambda>_. True) ?e (new_broker True) (lit ''GITHUB_TOKEN'') = None"
    unfolding brokerable_credential_value_def absent by simp_all
  then have "run_tasks (\<lambda>_. True) (\<lambda>_ _. 0) (source_tasks all_sources example_env) (?e, new_broker True, 0) =
      Some (?e(?key \<mapsto> example_dummy), example_broker, 1)"
    unfolding example_tasks using value_of example_drawn
    by (simp add: virtualize_env_var_def register_def example_broker_def token_record_def del: lit_Cons) (simp add: new_broker_def del: lit_Cons)
  then have "virtualize_sources (\<lambda>_. True) (\<lambda>_ _. 0) all_sources (?e, new_broker True, 0) = Some (?e(?key \<mapsto> example_dummy), example_broker, 1)"
    using virtualize_sources_tasks [OF sources_hint_only] source_tasks_active by metis
  moreover have "?key \<noteq> BROKERED_KEY" by code_simp
  ultimately show ?thesis
    by (simp add: virtualize_child_env_def update_brokered_credentials_marker_def del: lit_Cons) (simp add: new_broker_def)
qed

text \<open>Draws that count, in base 62; an enterprise token that has no host.\<close>

definition counting_draws :: "nat \<Rightarrow> nat \<Rightarrow> nat" where
  "counting_draws m i = m div 62 ^ i"

lemma digits_exist: "\<forall>i. pattern i < (62::nat) \<Longrightarrow> \<exists>k. \<forall>i<len. k div 62 ^ i mod 62 = pattern i"
proof (induction len arbitrary: pattern)
  case (Suc len)
  from Suc.IH [of "\<lambda>i. pattern (Suc i)"] Suc.prems obtain k where k: "\<forall>i<len. k div 62 ^ i mod 62 = pattern (Suc i)" by blast
  have "(pattern 0 + 62 * k) div 62 ^ i mod 62 = pattern i" if "i < Suc len" for i
    using that k Suc.prems by (cases i) (simp_all add: div_mult2_eq)
  then show ?case by blast
qed simp

lemma counting_draws_fair: "fair_draws counting_draws"
  unfolding fair_draws_def dummy_alphabet(1)
proof (intro allI impI)
  fix pattern :: "nat \<Rightarrow> nat" and len n
  assume "\<forall>i. pattern i < 62"
  then obtain k where k: "\<forall>i<len. k div 62 ^ i mod 62 = pattern i" using digits_exist by blast
  have "counting_draws (k + n * 62 ^ len) i mod 62 = pattern i" if i: "i < len" for i
  proof -
    obtain d where d: "len = i + Suc d" using less_imp_Suc_add [OF i] by auto
    have shift: "n * 62 ^ len = 62 ^ i * (n * 62 ^ Suc d)" unfolding d power_add by (rule mult.left_commute)
    have "(k + n * 62 ^ len) div 62 ^ i = n * 62 ^ Suc d + k div 62 ^ i" unfolding shift by (rule div_mult_self2) simp
    moreover have "n * 62 ^ Suc d = 62 * (n * 62 ^ d)" by simp
    ultimately show ?thesis using k i by (simp only: counting_draws_def mod_mult_self4)
  qed
  moreover have "n \<le> k + n * 62 ^ len" by (simp add: trans_le_add2)
  ultimately show "\<exists>m\<ge>n. \<forall>i<len. counting_draws m i mod 62 = pattern i" by blast
qed

definition enterprise_env :: environment where
  "enterprise_env = example_env(lit ''GH_ENTERPRISE_TOKEN'' \<mapsto> lit ''ghp_1'')"

theorem child_env_hides_tokens_witness:
  "\<exists>env' st' n'. virtualize_child_env (\<lambda>_. True) (\<lambda>_. None) counting_draws (enterprise_env, new_broker True, 0) = Some (env', st', n') \<and>
     broker_wf st' \<and> settled (\<lambda>_. True) enterprise_env env' st' (OpenaiProvider, ExactHost (lit ''api.openai.com''), lit ''OPENAI_API_KEY'') \<and>
     env' (lit ''GH_ENTERPRISE_TOKEN'') = Some (lit ''ghp_1'')"
proof -
  let ?key = "lit ''OPENAI_API_KEY''" and ?env = enterprise_env
  have hint: "?env GH_HOST = None" by code_simp
  then have unbound: "github_enterprise_binding ?env = None" by (simp add: github_enterprise_binding_def github_host_hint_def)
  have tasks: "source_tasks all_sources ?env = source_tasks all_sources example_env"
  proof -
    have "example_env GH_HOST = None" by code_simp
    with hint show ?thesis
      by (simp add: source_tasks_def all_sources_def credential_providers_def github_cloud_binding_def openai_binding_def
          github_enterprise_binding_def github_host_hint_def del: lit_Cons)
  qed
  have absent: "?env (lit ''GH_TOKEN'') = None" "?env (lit ''GITHUB_TOKEN'') = None" and present: "?env ?key = Some (lit ''sk-1'')"
    and present_enterprise: "?env (lit ''GH_ENTERPRISE_TOKEN'') = Some (lit ''ghp_1'')" by code_simp+
  have "trim (lit ''sk-1'') = lit ''sk-1''" by (intro trim_no_whitespace) (simp add: is_whitespace_def)
  then have key: "brokerable_credential_value (\<lambda>_. True) ?env st ?key = (if is_dummy_value st (lit ''sk-1'') then None else Some (lit ''sk-1''))" for st
    unfolding brokerable_credential_value_def present by (simp add: request_header_value_def Let_def)
  have "brokerable_credential_value (\<lambda>_. True) ?env st (lit ''GH_TOKEN'') = None" "brokerable_credential_value (\<lambda>_. True) ?env st (lit ''GITHUB_TOKEN'') = None"
    for st unfolding brokerable_credential_value_def absent by simp_all
  moreover have "drawn_count OpenaiProvider (lit ''sk-1'') = 48" by code_simp
  moreover have new: "broker_enabled (new_broker True)" "broker_wf (new_broker True)" "length (credentials (new_broker True)) = 0"
    by (simp_all add: new_broker_def broker_wf_def)
  ultimately have "\<forall>(p, b, v)\<in>set (source_tasks all_sources ?env). \<forall>t. brokerable_credential_value (\<lambda>_. True) ?env (new_broker True) v = Some t \<longrightarrow>
      length (credentials (new_broker True)) + length token_vars < 62 ^ drawn_count p t"
    unfolding tasks example_tasks using key by (simp add: token_vars_eq del: lit_Cons)
  from child_env_hides_tokens [OF new(1,2) counting_draws_fair this, of "\<lambda>_. None" 0] obtain env' st' n' where
      run: "virtualize_child_env (\<lambda>_. True) (\<lambda>_. None) counting_draws (?env, new_broker True, 0) = Some (env', st', n')" and wf: "broker_wf st'"
      and settled: "list_all (settled (\<lambda>_. True) ?env env' st') (source_tasks all_sources ?env)"
      and other: "\<forall>k. k \<notin> (snd \<circ> snd) ` set (source_tasks all_sources ?env) \<and> k \<noteq> ACTIVE_KEY \<and> k \<noteq> BROKERED_KEY \<longrightarrow> env' k = ?env k"
    by (elim exE conjE) (rule that)
  have "lit ''GH_ENTERPRISE_TOKEN'' \<notin> {lit ''GH_TOKEN'', lit ''GITHUB_TOKEN'', lit ''OPENAI_API_KEY''}"
      "lit ''GH_ENTERPRISE_TOKEN'' \<noteq> ACTIVE_KEY" "lit ''GH_ENTERPRISE_TOKEN'' \<noteq> BROKERED_KEY" by code_simp+
  then have "env' (lit ''GH_ENTERPRISE_TOKEN'') = ?env (lit ''GH_ENTERPRISE_TOKEN'')"
    using other [rule_format, of "lit ''GH_ENTERPRISE_TOKEN''"] unfolding bound_vars unbound by (simp only: if_True refl Un_empty_right simp_thms)
  moreover have "settled (\<lambda>_. True) ?env env' st' (OpenaiProvider, ExactHost (lit ''api.openai.com''), ?key)"
    using settled unfolding tasks example_tasks by (simp del: lit_Cons)
  ultimately show ?thesis using run wf present_enterprise by (metis (no_types))
qed

theorem brokered_token_roundtrip_witness:
  "inject_request_headers (\<lambda>_. True) example_broker (lit ''api.openai.com'') (\<lambda>_. [Some (lit ''Bearer '' @ example_dummy)]) AUTHORIZATION =
     [Some (lit ''Bearer sk-1'')]"
proof -
  obtain env' where run: "virtualize_child_env (\<lambda>_. True) (\<lambda>_. None) (\<lambda>_ _. 0) (example_env, new_broker True, 0) = Some (env', example_broker, 1)"
    and env': "env' (lit ''OPENAI_API_KEY'') = Some example_dummy" using example_child by blast
  have new: "broker_enabled (new_broker True)" "broker_wf (new_broker True)" by (simp_all add: new_broker_def broker_wf_def)
  have task: "(OpenaiProvider, ExactHost (lit ''api.openai.com''), lit ''OPENAI_API_KEY'') \<in> set (source_tasks all_sources example_env)"
    by (simp add: example_tasks del: lit_Cons)
  have env: "example_env (lit ''OPENAI_API_KEY'') = Some (lit ''sk-1'')" by code_simp
  have differs: "env' (lit ''OPENAI_API_KEY'') \<noteq> example_env (lit ''OPENAI_API_KEY'')" unfolding env env' by code_simp
  have hosts: "normalize_host (lit ''api.openai.com'') = lit ''api.openai.com''" "normalize_host (lit ''x'') = lit ''x''"
    using normalize_plain [of "lit ''api.openai.com''"] normalize_plain [of "lit ''x''"]
    by (simp_all add: plain_domain_def plain_char_def to_ascii_lowercase_def)
  have bound: "matches_host (ExactHost (lit ''api.openai.com'')) (normalize_host (lit ''api.openai.com''))"
    unfolding hosts by simp
  have only: "\<forall>c\<in>set (credentials example_broker). record_dummy c = example_dummy \<and> record_binding c = ExactHost (lit ''api.openai.com'')"
    by (simp add: example_broker_def token_record_def del: lit_Cons)
  then have "\<forall>c\<in>set (credentials example_broker). \<not> matches_host (record_binding c) (normalize_host (lit ''x''))" unfolding hosts by simp
  moreover have "trim (lit ''sk-1'') = lit ''sk-1''" by (intro trim_no_whitespace) (simp add: is_whitespace_def)
  ultimately show ?thesis
    using brokered_token_roundtrip [OF run new task env env' differs bound, of "\<lambda>_. [Some (lit ''Bearer '' @ example_dummy)]" "lit ''x''"] only
    by simp
qed

end
