(* ===== verification/Spec2Isabelle.thy ===== *)
theory Spec2Isabelle
  imports Policy_Builder Patch_Apply Utf8_Stream Assistant_Text Head_Tail Truncation Command_Safety Paste_Burst Templates Sandbox_Roots Rollout_Turns Network_Flow Orchestrator Proxy_Flow Proxy_Remote Credential_Broker
begin

text \<open>
  \<^bold>\<open>Verification of the core logic of the Codex agent\<close> (\<open>src/codex/codex-rs\<close>).

  \<^bold>\<open>The program.\<close> Codex is a coding agent. It keeps a conversation with a model, shows the model's answer
  while it streams in, and runs the commands and applies the patches the model asks for. The parts
  modelled here are those that decide what is safe, what is written, and what the model and the user get to see:

  \<^item> before a command runs, the execution policy (\<open>execpolicy\<close>) and the built-in classification of safe and
    dangerous commands (\<open>shell-command\<close>) decide whether to allow it, to ask, or to refuse; the session's policy manager
    (\<open>core/src/exec_policy.rs\<close>) loads the rule files with the managed requirements on top and remembers what the user accepts;
  \<^item> the tool orchestrator (\<open>core/src/tools/orchestrator.rs\<close>) takes a call through its approval, a first attempt in the sandbox that the
    permission profile (\<open>protocol/src/models.rs\<close>) calls for, and perhaps a second one;
  \<^item> while it runs, the file-system sandbox policy (\<open>protocol/src/permissions.rs\<close>) says which paths it may
    read and write, and the runtimes enforce summaries of that policy;
  \<^item> its traffic goes through a proxy (\<open>network-proxy\<close>) that decides on each host by domain lists, which managed requirements
    (\<open>config/src/config_requirements.rs\<close>, \<open>core/src/config/network_proxy_spec.rs\<close>) constrain; hosts that are merely unlisted go to the network
    approval service (\<open>core/src/tools/network_approval.rs\<close>), which asks the user once for concurrent requests; the credential
    broker gives the command dummies instead of tokens and puts the tokens into the requests;
  \<^item> its output goes into a capped buffer (\<open>core/src/unified_exec\<close>) and is truncated
    (\<open>utils/string\<close>, \<open>utils/output-truncation\<close>) before it is recorded in the history
    (\<open>core/src/context_manager\<close>), from which the next prompt is made; when the history gets long it is compacted
    (\<open>core/src/compact.rs\<close>), and changes of the surroundings are told as differences (\<open>core/src/context/world_state\<close>);
  \<^item> everything is persisted in a rollout, from which resuming, rolling back and forking rebuild the session
    (\<open>core/src/session/rollout_reconstruction.rs\<close>, \<open>core/src/thread_rollout_truncation.rs\<close>);
  \<^item> a patch is parsed while it streams (\<open>apply-patch\<close>), its hunks are located in the files by a fuzzy
    search, and the files are written through the executor file system (\<open>file-system\<close>, \<open>exec-server\<close>);
  \<^item> the assistant's text passes parsers that take out citations and proposed plans
    (\<open>utils/stream-parser\<close>); prompts are filled in from strict templates (\<open>utils/template\<close>); and the
    terminal composer tells typing from pasting (\<open>tui/src/bottom_pane/paste_burst.rs\<close>).

  \<^bold>\<open>Conventions.\<close> A Rust \<open>String\<close> is the list of its code points, byte lengths are those of its UTF-8 form;
  a struct is a record, an enum a datatype, \<open>Result\<close> a sum (\<open>Ok\<close>, \<open>Err\<close>), a method that mutates its receiver a
  function that returns the new one, a panic the value \<open>None\<close>. \<open>usize\<close>, \<open>u64\<close> and \<open>i64\<close> arithmetic
  saturates or wraps where the source says so. The build is the one for Linux. Code that is
  not in the repository is an argument: the Starlark interpreter (as the sequence of builtin calls
  a policy file makes), the tree-sitter bash parser (as a function from script to tree), \<open>shlex\<close>, \<open>serde_json\<close>,
  \<open>globset\<close>, \<open>url\<close>, header types of \<open>http\<close>, certificates, random numbers, UUIDs, image and audio decoding; so are the clock, the environment, name
  resolution and the disk. What is relied on there is a named hypothesis: \<open>domain_globs\<close>, say, is what the documentation of \<open>globset\<close> says of
  patterns without special characters but one leading wildcard.
  Asynchronous code is cut where it releases a lock or waits: each stretch in between is one step, and a step relation interleaves
  the steps of concurrent calls in any order.

  \<^bold>\<open>Theories, from the bottom up.\<close>

  \<^item> \<open>Prelude\<close>: strings, the string functions of the standard library, saturating arithmetic, list lemmas.
    \<open>Abs_Path\<close>, \<open>Disk_Paths\<close>: paths as component lists, \<open>AbsolutePathBuf\<close> (\<open>utils/absolute-path\<close>), the
    record \<open>disk\<close> of what the operating system answers.
  \<^item> \<open>Exec_Policy\<close>, \<open>Policy_Builder\<close>: \<open>execpolicy/src\<close>. The strictest of the rules that apply decides, overlays cannot
    relax a base policy, the index by program finds what a scan of all rules finds, examples
    in a policy file hold of the policy it builds. The locale \<open>rule_interface\<close> is the \<open>Rule\<close> trait.
  \<^item> \<open>Shell_Parse\<close>, \<open>Command_Safety\<close>: \<open>bash.rs\<close>, \<open>shell_detect.rs\<close>, \<open>is_safe_command.rs\<close>,
    \<open>is_dangerous_command.rs\<close>. Which commands are safe, exactly; which are dangerous, exactly; no command
    is both, since the grammar has no word of a command before its name.
  \<^item> \<open>Sandbox_Policy\<close>, \<open>Sandbox_Access\<close>, \<open>Sandbox_Roots\<close>: \<open>permissions.rs\<close> and the legacy policy of
    \<open>protocol.rs\<close>. The most specific entry governs a path, metadata directories stay protected,
    denials survive a change of the allowed side, the summaries given to runtimes keep their carve-outs on any disk and allow no
    more than the policy on one without links, the translation to the legacy policy and back is the identity.
  \<^item> \<open>Permission_Profiles\<close>, \<open>Exec_Approval\<close>, \<open>Orchestrator\<close>: \<open>protocol/src/models.rs\<close>, \<open>core/src/exec_policy.rs\<close>, \<open>core/src/tools\<close>
    (\<open>sandboxing.rs\<close>, \<open>orchestrator.rs\<close>, \<open>approvals.rs\<close>). A profile split into runtime policies and put together is the same; when a command is cleared without
    asking, exactly; an accepted amendment clears the command it was proposed for; with denied reads every attempt is sandboxed,
    and a second attempt needs consent. The last section below joins them: what managed rules forbid is never started.
  \<^item> \<open>Network_Approval\<close>, \<open>Network_Flow\<close>: \<open>network_approval.rs\<close>. \<open>advance\<close> is one stretch of the handler of a request, \<open>Network_Flow\<close> the step
    relation over all requests. The locale \<open>pending_board\<close> is the table of open questions; its interpretation carries the
    invariants. There is one open question per target, access follows an approval of its own target, and no request waits forever.
  \<^item> \<open>Ip_Addr\<close>, \<open>Host_Policy\<close>: \<open>network-proxy/src/policy.rs\<close> with the address parsers of the standard library. Which IPv4 addresses are
    non-public, exactly, and which IPv6 addresses surely are; comparison of domain patterns is inclusion; compiled sets match what the patterns cover.
  \<^item> \<open>Proxy_Config\<close>, \<open>Mitm_Hooks\<close>: \<open>config.rs\<close> and \<open>mitm_hook.rs\<close>. Domain lists keep what was entered last, listeners stay on loopback addresses, the index of
    hooks finds what a scan finds, and validated hooks fail to compile only for their secrets.
  \<^item> \<open>Proxy_State\<close>, \<open>Proxy_Spec\<close>, \<open>Proxy_Flow\<close>: \<open>state.rs\<close>, \<open>runtime.rs\<close>, \<open>network_policy.rs\<close>, \<open>connect_policy.rs\<close>, \<open>network_proxy_spec.rs\<close> and the network part of
    \<open>config_requirements.rs\<close>. The decision on a host is exactly that of the lists; a decider widens only the allowlist; private addresses need their own
    entry even if a name resolves differently later. \<open>proxy_reachable\<close> interleaves the operations on the shared state; the locale \<open>state_provider\<close> is what launching,
    reloading and replacing promise of the states they bring in, interpreted on the states built from managed requirements.
    In every reachable state the configuration, the compiled sets and the constraints fit together, and managed rules bind.
  \<^item> \<open>Proxy_Remote\<close>, \<open>Credential_Broker\<close>: \<open>attribution.rs\<close>, \<open>remote_config.rs\<close>, \<open>credential_broker\<close>. Attribution frames are read back, a remote proxy decides like
    the local one, children see dummies for the tokens that have a host, and a dummy turns into its token only on the way to the token's hosts.
  \<^item> \<open>Patch_Parser\<close>, \<open>Patch_Edit\<close>, \<open>Exec_Fs\<close>, \<open>Patch_Apply\<close>: \<open>apply-patch/src\<close>. The parser gives the same
    hunks however the text is cut and inverts a printer, editing replaces the regions found for the lines that chunks name and never panics, and the
    reported delta accounts for what happened to the files even after a failure. The locale
    \<open>executor_fs\<close> is the file-system interface, interpreted on the direct implementation.
  \<^item> \<open>Stream_Text\<close>, \<open>Hidden_Tags\<close>, \<open>Plan_Parser\<close>, \<open>Utf8_Stream\<close>, \<open>Assistant_Text\<close>: \<open>utils/stream-parser/src\<close>.
    The locale \<open>stream_text_parser\<close> is the trait's contract, that cutting the input differently does not
    change the result; it is interpreted on the citation and plan parsers, and the UTF-8 wrapper and the
    assistant parser rest on it.
  \<^item> \<open>Head_Tail\<close>, \<open>Truncation\<close>: the output buffer refines the whole stream it has seen; truncation keeps both
    ends, on character boundaries, within a byte bound, and accounts for what it omits.
  \<^item> \<open>Response_Items\<close>, \<open>Context_History\<close>, \<open>Call_Pairing\<close>, \<open>Rollback\<close>, \<open>Recorded_Outputs\<close>: \<open>normalize.rs\<close> and \<open>history.rs\<close>. A
    prompt pairs calls with outputs, the oldest items leave in pairs, a rollback cuts at a turn, token estimates
    are sums capped at the largest \<open>i64\<close>; what is recorded is bounded and as paired as what was sent.
  \<^item> \<open>Compaction\<close>, \<open>World_State\<close>: \<open>compact.rs\<close>, user messages of \<open>event_mapping.rs\<close>, \<open>world_state/mod.rs\<close>. Compaction keeps the newest messages within
    a budget; merge patches invert, so the records of a session give back the baseline it had.
  \<^item> \<open>Rollout_Replay\<close>, \<open>Rollout_Turns\<close>: \<open>rollout_reconstruction.rs\<close>, \<open>thread_rollout_truncation.rs\<close>. \<open>scan_rollout\<close> is the loop from the end, \<open>replay_items\<close> the one over the
    tail, \<open>assemble\<close> the rest of \<open>reconstruct_history_from_rollout\<close>. Rebuilding from the newest surviving checkpoint is replaying everything, stopping early changes nothing,
    settings come from the newest user turn with a context that a stack with rollbacks keeps, and a fork has the messages before its cut.
  \<^item> \<open>Paste_Burst\<close>, \<open>Templates\<close>: typed text is neither lost nor reordered under the contract the
    detector documents; rendering is strict and parsing inverts writing.

  \<^bold>\<open>Loops and fuel.\<close> Loops are structural recursion or have a termination proof, with three exceptions. \<open>push_str\<close>
  of the hidden-tag parser takes as fuel one more than the number of pending characters, and is
  shown never to run out, since each round drains a non-empty delimiter. \<open>draw_dummy\<close> of the credential broker is a partial function, since the
  loop may not end: \<open>dummy_search_may_never_end\<close> shows when, and \<open>draw_dummy_fair\<close> that it ends for fair draws as long as a token has
  more dummies than there are records. \<open>run_alone\<close> of \<open>Proxy_Flow\<close> runs one operation for a given number of critical
  sections; three are shown to be enough for adding a domain.

  \<^bold>\<open>Not modelled.\<close> Windows code; processes, sockets, TLS and time limits, terminal drawing, databases and configuration
  files; serialisation formats. Handlers of network requests run to completion: futures that are dropped halfway are not
  modelled. In the modelled files: log messages and audit sinks, the Starlark and tree-sitter
  front ends, the unified-diff preview of a patch, walking and copying in the executor file system, error message texts of
  templates, recognition of contextual user fragments in the history (an argument there, as it rests on an
  XML parser), and the mapping of history items to user-interface events. The manifest lists every
  other component of the repository with the reason it is left out.
\<close>

section \<open>Policy and tool calls\<close>

text \<open>
  C1: Managed rules bind the tools. Whatever the rule files of the configuration layers say, a tool call whose approval requirement was
  computed by the loaded policy, with a command that an exact rule of the managed requirements forbids, is rejected
  without running or asking anything; and if the rule wants the command approved, the tool is only started after somebody
  was asked and approved.
\<close>

theorem managed_rules_bind_tool_calls:
  assumes "load_exec_policy_with_warning le stack = Ok (policy, warning)"
    and "requirements_exec_policy stack = Some managed" and "Exec_Policy.policy_wf managed"
    and "c \<in> set (parsed_commands (commands_for_exec_policy parser (req_command creq)))"
    and "match_exact_rules managed c = Some ms" and "m \<in> set ms"
    and tool: "exec_approval_requirement_of tool req =
           create_exec_approval_requirement_for_command env parser try_join policy creq"
    and run: "tool_orchestrator_run dk tool req turn ap (w, []) = Some (res, (w', log))"
  shows "(rm_decision m = Forbidden \<longrightarrow> log = [] \<and> (\<exists>reason. res = Err (Rejected reason))) \<and>
     (rm_decision m = Prompt \<and> attempts log \<noteq> [] \<longrightarrow>
        (\<exists>reason amended d ds. exec_approval_requirement_of tool req = Some (NeedsApproval reason amended) \<and>
           decisions log = d # ds \<and> accepted d))"
proof -
  obtain r where r: "exec_approval_requirement_of tool req = Some r"
      "rm_decision m = Forbidden \<Longrightarrow> \<exists>reason. r = ForbiddenCall reason"
      "rm_decision m = Prompt \<Longrightarrow> \<forall>b a. r \<noteq> SkipApproval b a"
    using requirements_hold [OF assms(1-6), of env try_join] tool by auto
  obtain p where p: "call_permissions dk turn tool req = Some p"
    using run by (auto simp: tool_orchestrator_run_def split: option.splits)
  from r(1) have q: "r = call_requirement tool req ap (profile_file_system_policy p)"
    by (simp add: call_requirement_def)
  from run_course [OF run p q] r show ?thesis by (cases r) auto
qed

text \<open>The managed rule against \<open>rm -rf\<close>, with a tool that would run anything.\<close>

definition managed_stack :: config_layer_stack where
  "managed_stack =
     \<lparr>stack_layers = [], ignore_user_and_project_exec_policy_rules = False, requirements_exec_policy = Some rm_rf_policy\<rparr>"

definition guarded_tool :: "policy \<Rightarrow> (unit, unit, nat, unit) tool_runtime" where
  "guarded_tool policy = stubborn_tool\<lparr>exec_approval_requirement_of :=
     (\<lambda>_. create_exec_approval_requirement_for_command \<lparr>home_dir = None, current_dir = Ok [RootDir]\<rparr> (\<lambda>_. None) (\<lambda>_. None)
            policy (plain_request [lit ''rm'', lit ''-rf'', lit ''/'']))\<rparr>"

theorem managed_rules_bind_tool_calls_witness:
  "\<exists>policy reason. load_exec_policy_with_warning no_files managed_stack = Ok (policy, None) \<and>
     tool_orchestrator_run plain_disk (guarded_tool policy) () (example_call Read) OnRequest ((), []) = Some (Err (Rejected reason), ((), []))"
proof -
  let ?cmd = "[lit ''rm'', lit ''-rf'', lit ''/'']"
  let ?env = "\<lparr>home_dir = None, current_dir = Ok [RootDir]\<rparr>"
  let ?m = "PrefixRuleMatch [lit ''rm'', lit ''-rf''] Forbidden None None"
  obtain p where load: "load_exec_policy_with_warning no_files managed_stack = Ok (p, None)"
    by (simp add: load_exec_policy_with_warning_def load_exec_policy_def managed_stack_def)
  have tool: "exec_approval_requirement_of (guarded_tool p) () =
      create_exec_approval_requirement_for_command ?env (\<lambda>_. None) (\<lambda>_. None) p (plain_request ?cmd)"
    by (simp add: guarded_tool_def)
  have c: "?cmd \<in> set (parsed_commands (commands_for_exec_policy (\<lambda>_. None) (req_command (plain_request ?cmd))))"
    by code_simp
  have m: "match_exact_rules rm_rf_policy ?cmd = Some [?m]"
    by (simp add: match_exact_rules_def rm_rf_policy_def policy_new_def policy_from_parts_def
        get_vec_def rule_matches_def matches_prefix_def map_filter_def)
  obtain res w log where run: "tool_orchestrator_run plain_disk (guarded_tool p) () (example_call Read) OnRequest ((), []) = Some (res, (w, log))"
    using tool_orchestrator_run_total by (metis option.exhaust surj_pair)
  have "log = [] \<and> (\<exists>reason. res = Err (Rejected reason))"
    using managed_rules_bind_tool_calls [OF load _ policy_wf_examples(1) c m _ tool run, of ?m]
    by (simp add: managed_stack_def)
  with load run show ?thesis by auto
qed

end
